(* ===== verification/Prelude.thy ===== *)
theory Prelude
  imports Main "HOL-Library.Word" "HOL-Library.Monad_Syntax"
begin

text \<open>
  Shared vocabulary of the development: the widths of Go's integer types, Go's slice
  operations with the run-time panic made explicit, big- and little-endian byte access as in
  package \<open>encoding/binary\<close>, and the generic facts on words and lists that the component
  theories use.

  Conventions. A Go \<open>uint8\<close>, \<open>uint16\<close>, \<open>uint32\<close>, \<open>uint64\<close> is a word of that width, so
  additions and subtractions wrap as they do in Go. A Go \<open>int\<close> that is a length or an index is
  a \<open>nat\<close>; one that may be negative, and a \<open>time.Duration\<close>, is an \<open>int\<close>, and where the source
  relies on the absence of 64-bit overflow that is a lemma. A Go slice is a list. An operation
  that can panic with an index or slice bound out of range returns an option, and \<open>None\<close> is the
  panic: that a routine never panics is then a theorem about the routine. Slicing up to the
  capacity of a slice, which Go permits, is not used by the modelled code except where said.
\<close>

unbundle bit_operations_syntax

section \<open>Types\<close>

type_synonym u8 = "8 word"
type_synonym u16 = "16 word"
type_synonym u32 = "32 word"
type_synonym u64 = "64 word"
type_synonym bytes = "u8 list"
type_synonym duration = int

text \<open>\<open>Time.Sub\<close> saturates; a time is a number of nanoseconds.\<close>

definition timeSub :: "int \<Rightarrow> int \<Rightarrow> duration" where
  "timeSub a b = max (- (2 ^ 63)) (min (2 ^ 63 - 1) (a - b))"

section \<open>Collections of facts\<close>

text \<open>
  \<open>seq_simps\<close> turns statements on 32-bit sequence numbers into linear arithmetic on their
  unsigned values; \<open>slice_simps\<close> resolves slice accesses that are in range; \<open>flag_simps\<close>
  evaluates packed flag words bit by bit.
\<close>

named_theorems seq_simps \<open>sequence numbers as unsigned values\<close>
named_theorems slice_simps \<open>slice accesses in range\<close>
named_theorems flag_simps \<open>packed flag words\<close>

section \<open>Words\<close>

lemma unat_lt_u8: "unat (w :: u8) < 256"
  by (rule order_less_le_trans [OF unsigned_less]) simp

lemma unat_lt_u16: "unat (w :: u16) < 65536"
  by (rule order_less_le_trans [OF unsigned_less]) simp

lemma unat_lt_u32: "unat (w :: u32) < 4294967296"
  by (rule order_less_le_trans [OF unsigned_less]) simp

lemma unat_lt_u64: "unat (w :: u64) < 18446744073709551616"
  by (rule order_less_le_trans [OF unsigned_less]) simp

lemma unat_sub_u32: "unat (a - b :: u32) =
    (if unat b \<le> unat a then unat a - unat b else 4294967296 + unat a - unat b)"
  by (auto simp: unat_sub_if_size word_size)

lemma unat_add_u32: "unat (a + b :: u32) =
    (if unat a + unat b < 4294967296 then unat a + unat b else unat a + unat b - 4294967296)"
  using unat_lt_u32 [of a] unat_lt_u32 [of b]
  by (auto simp: unat_word_ariths mod_if)

lemma unat_eq_u32: "(a :: u32) = b \<longleftrightarrow> unat a = unat b"
  by (simp add: unsigned_word_eqI word_eq_iff_unsigned)

lemma sint_neg_u32: "sint (w :: u32) < 0 \<longleftrightarrow> 2147483648 \<le> unat w"
proof -
  have "sint w < 0 \<longleftrightarrow> bit w 31"
    using bit_last_iff [of w] by simp
  also have "\<dots> \<longleftrightarrow> bit (unat w) 31"
    by (simp add: bit_unsigned_iff)
  also have "\<dots> \<longleftrightarrow> odd (unat w div 2147483648)"
    by (simp add: bit_iff_odd)
  also have "\<dots> \<longleftrightarrow> 2147483648 \<le> unat w"
  proof (cases "2147483648 \<le> unat w")
    case True
    then have "unat w div 2147483648 = 1"
      using unat_lt_u32 [of w] by (simp add: div_nat_eqI)
    with True show ?thesis by simp
  qed simp
  finally show ?thesis .
qed

lemma unat_of_nat_u32: "n < 4294967296 \<Longrightarrow> unat (of_nat n :: u32) = n"
  by (simp add: unat_of_nat take_bit_nat_eq_self)

lemma of_nat_unat_ucast: "of_nat (unat (w :: 'a::len word)) = w"
  by simp

subsection \<open>Packed flags\<close>

text \<open>Flags are single bits \<open>1 << k\<close>; testing and assigning one is reading and writing a bit.\<close>

lemma and_push_bit_iff [flag_simps]: "(w AND push_bit k (1 :: 'a::len word) \<noteq> 0) = bit w k"
  by (simp add: bit_iff_and_push_bit_not_eq_0)

lemma bit_or_flag [flag_simps]:
  "j < LENGTH('a::len) \<Longrightarrow> bit (w OR push_bit k (1 :: 'a word)) j \<longleftrightarrow> bit w j \<or> j = k"
  by (auto simp: bit_simps)

lemma bit_andn_flag [flag_simps]:
  "j < LENGTH('a::len) \<Longrightarrow> bit (w AND NOT (push_bit k (1 :: 'a word))) j \<longleftrightarrow> bit w j \<and> j \<noteq> k"
  by (auto simp: bit_simps)

section \<open>Slices\<close>

text \<open>\<open>xs[i]\<close> and \<open>xs[lo:hi]\<close>; \<open>None\<close> is the run-time panic.\<close>

definition go_index :: "'a list \<Rightarrow> nat \<Rightarrow> 'a option" where
  "go_index xs i = (if i < length xs then Some (xs ! i) else None)"

definition go_slice :: "'a list \<Rightarrow> nat \<Rightarrow> nat \<Rightarrow> 'a list option" where
  "go_slice xs lo hi = (if lo \<le> hi \<and> hi \<le> length xs then Some (take (hi - lo) (drop lo xs)) else None)"

lemma go_index_in [slice_simps]: "i < length xs \<Longrightarrow> go_index xs i = Some (xs ! i)"
  by (simp add: go_index_def)

lemma go_index_None: "go_index xs i = None \<longleftrightarrow> length xs \<le> i"
  by (auto simp: go_index_def)

lemma go_slice_in [slice_simps]:
  "lo \<le> hi \<Longrightarrow> hi \<le> length xs \<Longrightarrow> go_slice xs lo hi = Some (take (hi - lo) (drop lo xs))"
  by (simp add: go_slice_def)

lemma go_slice_None: "go_slice xs lo hi = None \<longleftrightarrow> hi < lo \<or> length xs < hi"
  by (auto simp: go_slice_def)

lemma length_go_slice: "go_slice xs lo hi = Some ys \<Longrightarrow> length ys = hi - lo"
  by (auto simp: go_slice_def split: if_splits)

lemma drop_eq_Cons_conv: "drop n xs = y # ys \<longleftrightarrow> n < length xs \<and> y = xs ! n \<and> ys = drop (Suc n) xs"
  by (metis Cons_nth_drop_Suc drop_eq_Nil list.distinct(1) list.inject not_less)

lemma take_drop_split:
  "a \<le> b \<Longrightarrow> b \<le> c \<Longrightarrow> take (c - a) (drop a xs) = take (b - a) (drop a xs) @ take (c - b) (drop b xs)"
  using take_add [of "b - a" "c - b" "drop a xs"] by simp

section \<open>Byte order\<close>

text \<open>\<open>binary.BigEndian\<close>: reads need the bytes to be there, writes produce exactly them.\<close>

definition join16 :: "u8 \<Rightarrow> u8 \<Rightarrow> u16" where
  "join16 a b = (push_bit 8 (ucast a) OR ucast b)"

definition join32 :: "u8 \<Rightarrow> u8 \<Rightarrow> u8 \<Rightarrow> u8 \<Rightarrow> u32" where
  "join32 a b c d = (push_bit 24 (ucast a) OR push_bit 16 (ucast b) OR push_bit 8 (ucast c) OR ucast d)"

fun be_get16 :: "bytes \<Rightarrow> u16 option" where
  "be_get16 (a # b # _) = Some (join16 a b)"
| "be_get16 _ = None"

fun be_get32 :: "bytes \<Rightarrow> u32 option" where
  "be_get32 (a # b # c # d # _) = Some (join32 a b c d)"
| "be_get32 _ = None"

definition be_put16 :: "u16 \<Rightarrow> bytes" where
  "be_put16 w = [ucast (drop_bit 8 w), ucast w]"

definition be_put32 :: "u32 \<Rightarrow> bytes" where
  "be_put32 w = [ucast (drop_bit 24 w), ucast (drop_bit 16 w), ucast (drop_bit 8 w), ucast w]"

definition be_put64 :: "u64 \<Rightarrow> bytes" where
  "be_put64 w = [ucast (drop_bit 56 w), ucast (drop_bit 48 w), ucast (drop_bit 40 w), ucast (drop_bit 32 w),
     ucast (drop_bit 24 w), ucast (drop_bit 16 w), ucast (drop_bit 8 w), ucast w]"

text \<open>\<open>binary.LittleEndian.Uint64\<close> on the bytes present: byte \<open>i\<close> has weight \<open>256^i\<close>.\<close>

fun le_join :: "nat \<Rightarrow> bytes \<Rightarrow> u64" where
  "le_join index [] = 0"
| "le_join index (value # rest) = push_bit (8 * index) (ucast value) OR le_join (Suc index) rest"

definition le_get64 :: "bytes \<Rightarrow> u64" where
  "le_get64 bs = le_join 0 (take 8 bs)"

text \<open>\<open>binary.BigEndian.Uint64\<close>.\<close>

definition be_get64 :: "bytes \<Rightarrow> u64" where
  "be_get64 bs = le_join 0 (rev (take 8 bs))"

lemma length_be_put [simp]:
  "length (be_put16 a) = 2" "length (be_put32 b) = 4" "length (be_put64 c) = 8"
  by (simp_all add: be_put16_def be_put32_def be_put64_def)

lemma join16_split: "join16 (ucast (drop_bit 8 w)) (ucast w) = w"
  unfolding join16_def by (rule bit_word_eqI) (auto simp: bit_simps)

lemma join32_split:
  "join32 (ucast (drop_bit 24 w)) (ucast (drop_bit 16 w)) (ucast (drop_bit 8 w)) (ucast w) = w"
proof (rule bit_word_eqI)
  fix n assume "n < LENGTH(32)"
  then consider "n < 8" | "8 \<le> n" "n < 16" | "16 \<le> n" "n < 24" | "24 \<le> n" "n < 32" by fastforce
  then show "bit (join32 (ucast (drop_bit 24 w)) (ucast (drop_bit 16 w)) (ucast (drop_bit 8 w)) (ucast w)) n = bit w n"
    by cases (auto simp add: join32_def bit_simps)
qed

lemma split_join16: "ucast (drop_bit 8 (join16 a b)) = a" "ucast (join16 a b) = b"
  unfolding join16_def by (rule bit_word_eqI; auto simp: bit_simps dest: bit_imp_le_length)+

lemma split_join32:
  "ucast (drop_bit 24 (join32 a b c d)) = a" "ucast (drop_bit 16 (join32 a b c d)) = b"
  "ucast (drop_bit 8 (join32 a b c d)) = c" "ucast (join32 a b c d) = d"
  unfolding join32_def by (rule bit_word_eqI; auto simp: bit_simps dest: bit_imp_le_length)+

lemma be_get16_put [simp]: "be_get16 (be_put16 w @ r) = Some w"
  by (simp add: be_put16_def join16_split)

lemma be_get32_put [simp]: "be_get32 (be_put32 w @ r) = Some w"
  by (simp add: be_put32_def join32_split)

lemma be_put16_get: "be_get16 bs = Some w \<Longrightarrow> length bs = 2 \<Longrightarrow> be_put16 w = bs"
  by (cases bs rule: be_get16.cases) (auto simp: be_put16_def split_join16)

lemma be_put32_get: "be_get32 bs = Some w \<Longrightarrow> length bs = 4 \<Longrightarrow> be_put32 w = bs"
  by (cases bs rule: be_get32.cases) (auto simp: be_put32_def split_join32)

lemma be_get32_total: "4 \<le> length bs \<Longrightarrow> \<exists>w. be_get32 bs = Some w"
  by (cases bs rule: be_get32.cases) auto

lemma be_get16_total: "2 \<le> length bs \<Longrightarrow> \<exists>w. be_get16 bs = Some w"
  by (cases bs rule: be_get16.cases) auto

lemma le_join_append: "le_join i (xs @ ys) = le_join i xs OR le_join (i + length xs) ys"
  by (induction xs arbitrary: i) (auto simp: ac_simps)

lemma le_join_zero: "le_join i (replicate n 0) = 0"
  by (induction n arbitrary: i) auto

lemma le_join_shift: "le_join i bs = push_bit (8 * i) (le_join 0 bs)"
proof (induction bs arbitrary: i)
  case (Cons b bs)
  show ?case using Cons [of "Suc i"] Cons [of 1]
    by (simp add: push_bit_or push_bit_push_bit add.commute mult.commute)
qed simp

lemma unat_le_join:
  "length bs \<le> 8 \<Longrightarrow> unat (le_join 0 bs) < 256 ^ length bs"
  "length bs < 8 \<Longrightarrow> unat (le_join 0 (b # bs)) = unat b + 256 * unat (le_join 0 bs)"
proof -
  have step: "unat (le_join 0 (b # bs)) = unat b + 256 * unat (le_join 0 bs)"
    if "length bs < 8" "unat (le_join 0 bs) < 256 ^ length bs" for b bs
  proof -
    have "le_join 0 (b # bs) = ucast b OR push_bit 8 (le_join 0 bs)"
      using le_join_shift [of 1 bs] by simp
    also have "\<dots> = ucast b + push_bit 8 (le_join 0 bs)"
      by (rule disjunctive_add [symmetric]) (auto simp: bit_simps dest: bit_imp_le_length)
    finally have e: "le_join 0 (b # bs) = ucast b + 2 ^ 8 * le_join 0 bs"
      by (simp add: push_bit_eq_mult mult.commute)
    have "256 ^ length bs \<le> (256 :: nat) ^ 7" using that(1) by (intro power_increasing) auto
    then have u: "unat (le_join 0 bs) < 72057594037927936" using that(2) by simp
    then have m: "unat (2 ^ 8 * le_join 0 bs) = 256 * unat (le_join 0 bs)"
      by (simp add: unat_word_ariths)
    have "unat (ucast b :: u64) = unat b" using unat_lt_u8 [of b] by (simp add: unsigned_ucast_eq take_bit_nat_eq_self)
    with m u unat_lt_u8 [of b] show ?thesis unfolding e by (simp add: unat_word_ariths)
  qed
  have bound: "unat (le_join 0 bs) < 256 ^ length bs" if "length bs \<le> 8" for bs
    using that
  proof (induction bs)
    case (Cons b bs)
    then have ih: "unat (le_join 0 bs) < 256 ^ length bs" by simp
    have "unat (le_join 0 (b # bs)) = unat b + 256 * unat (le_join 0 bs)"
      using Cons.prems ih by (intro step) auto
    also have "\<dots> < 256 * 256 ^ length bs" using ih unat_lt_u8 [of b] by linarith
    finally show ?case by simp
  qed simp
  then show "length bs \<le> 8 \<Longrightarrow> unat (le_join 0 bs) < 256 ^ length bs" .
  show "length bs < 8 \<Longrightarrow> unat (le_join 0 (b # bs)) = unat b + 256 * unat (le_join 0 bs)"
    using step bound by simp
qed

text \<open>The idiom \<open>binary.BigEndian.Uint32(bs[lo:lo+4])\<close>.\<close>

definition read16 :: "bytes \<Rightarrow> nat \<Rightarrow> u16 option" where
  "read16 bs lo = Option.bind (go_slice bs lo (lo + 2)) be_get16"

definition read32 :: "bytes \<Rightarrow> nat \<Rightarrow> u32 option" where
  "read32 bs lo = Option.bind (go_slice bs lo (lo + 4)) be_get32"

lemma read16_total: "lo + 2 \<le> length bs \<Longrightarrow> \<exists>w. read16 bs lo = Some w"
  by (simp add: read16_def go_slice_in be_get16_total)

lemma read32_total: "lo + 4 \<le> length bs \<Longrightarrow> \<exists>w. read32 bs lo = Some w"
  by (simp add: read32_def go_slice_in be_get32_total)

lemma read16_append [slice_simps]: "lo = length p \<Longrightarrow> read16 (p @ be_put16 w @ r) lo = Some w"
  by (simp add: read16_def go_slice_def be_put16_def join16_split)

lemma read32_append [slice_simps]: "lo = length p \<Longrightarrow> read32 (p @ be_put32 w @ r) lo = Some w"
  by (simp add: read32_def go_slice_def be_put32_def join32_split)

section \<open>Existential goals with several witnesses\<close>

lemma exI3: "P a b c \<Longrightarrow> \<exists>a b c. P a b c"
  by blast

lemma exI4: "P a b c d \<Longrightarrow> \<exists>a b c d. P a b c d"
  by blast

end
