(* ===== verification/Tcp_Seq.thy ===== *)
theory Tcp_Seq
  imports Prelude
begin

text \<open>
  Sequence-number arithmetic and the per-segment admission tests of \<^verbatim>\<open>src/tcp.go\<close>: the
  comparisons modulo \<open>2^32\<close> (lines 12037 to 12047), the acceptability tests and window rules of
  RFC 9293 that follow them, the PAWS checks (lines 5046 to 5076), the segment value handed to a
  connection (lines 899 to 921) and the receive-window advertisement (lines 1191 to 1314).

  The lemmas show that the comparisons order every stretch of sequence space shorter than \<open>2^31\<close>
  as distances from its start do, that the receive-window test is octet overlap, and that the
  advertised right edge never moves back and never promises more than the storage behind it.
\<close>

section \<open>Constants and the segment value\<close>

definition TCPFlagFIN :: "'a::len word" where "TCPFlagFIN = push_bit 0 1"
definition TCPFlagSYN :: "'a::len word" where "TCPFlagSYN = push_bit 1 1"
definition TCPFlagRST :: "'a::len word" where "TCPFlagRST = push_bit 2 1"
definition TCPFlagPSH :: "'a::len word" where "TCPFlagPSH = push_bit 3 1"
definition TCPFlagACK :: "'a::len word" where "TCPFlagACK = push_bit 4 1"
definition TCPFlagURG :: "'a::len word" where "TCPFlagURG = push_bit 5 1"
definition TCPFlagECE :: "'a::len word" where "TCPFlagECE = push_bit 6 1"
definition TCPFlagCWR :: "'a::len word" where "TCPFlagCWR = push_bit 7 1"
definition TCPFlagNS :: "'a::len word" where "TCPFlagNS = push_bit 8 1"

lemmas tcp_flag_defs = TCPFlagFIN_def TCPFlagSYN_def TCPFlagRST_def TCPFlagPSH_def TCPFlagACK_def
  TCPFlagURG_def TCPFlagECE_def TCPFlagCWR_def TCPFlagNS_def

abbreviation millisecond :: duration where "millisecond \<equiv> 1000000"
abbreviation second :: duration where "second \<equiv> 1000000000"

definition tcpMaximumWindowScale :: nat where "tcpMaximumWindowScale = 14"

text \<open>\<open>uint32(65535) << tcpMaximumWindowScale\<close>.\<close>

definition tcpMaximumScaledWindow :: u32 where
  "tcpMaximumScaledWindow = push_bit tcpMaximumWindowScale 65535"

lemma tcpMaximumScaledWindow_val: "tcpMaximumScaledWindow = 1073725440"
  by (simp add: tcpMaximumScaledWindow_def tcpMaximumWindowScale_def)

text \<open>\<open>(1<<31 - 1) / 1_000_000 * time.Second\<close>.\<close>

definition tcpPAWSMaxAge :: duration where
  "tcpPAWSMaxAge = (2 ^ 31 - 1) div 1000000 * second"

definition tcpPAWSReplayWindow :: u32 where "tcpPAWSReplayWindow = 1"

text \<open>
  One validated segment. \<open>options\<close> stands for the populated prefix of the inline array that
  \<open>optionBytes\<close> returns.
\<close>

record tcpSegment =
  seg_sequence :: u32
  seg_acknowledgement :: u32
  seg_flags :: u8
  seg_window :: u16
  seg_ecn :: u8
  seg_options :: bytes
  seg_payload :: bytes
  seg_retainedBytes :: int
  seg_receivedAt :: int

text \<open>\<open>setOptions\<close> copies the options and panics when they exceed the 40-byte storage.\<close>

definition setOptions :: "tcpSegment \<Rightarrow> bytes \<Rightarrow> tcpSegment option" where
  "setOptions s options = (if length options > 40 then None else Some (s\<lparr>seg_options := options\<rparr>))"

definition optionBytes :: "tcpSegment \<Rightarrow> bytes" where
  "optionBytes s = seg_options s"

section \<open>Comparisons modulo \<open>2^32\<close>\<close>

definition tcpSequenceLess :: "u32 \<Rightarrow> u32 \<Rightarrow> bool" where
  "tcpSequenceLess left right \<longleftrightarrow> sint (left - right) < 0"

definition tcpSequenceGreater :: "u32 \<Rightarrow> u32 \<Rightarrow> bool" where
  "tcpSequenceGreater left right \<longleftrightarrow> tcpSequenceLess right left"

definition tcpSequenceLessEqual :: "u32 \<Rightarrow> u32 \<Rightarrow> bool" where
  "tcpSequenceLessEqual left right \<longleftrightarrow> \<not> tcpSequenceGreater left right"

definition tcpSequenceGreaterEqual :: "u32 \<Rightarrow> u32 \<Rightarrow> bool" where
  "tcpSequenceGreaterEqual left right \<longleftrightarrow> \<not> tcpSequenceLess left right"

section \<open>Admission tests\<close>

definition tcpAcceptableSendSequence :: "u32 \<Rightarrow> u32 \<Rightarrow> u32 \<Rightarrow> u8 \<Rightarrow> u32" where
  "tcpAcceptableSendSequence sendUnacknowledged sendNext sendWindow sendWindowScale =
     (if sendWindow = 0 then sendUnacknowledged
      else let windowEnd = sendUnacknowledged + sendWindow in
        if \<not> tcpSequenceLess windowEnd sendNext \<or> sendNext - windowEnd < push_bit (unat sendWindowScale) 1
        then sendNext else windowEnd)"

definition tcpChallengeACKSequence :: "tcpSegment \<Rightarrow> u32 \<Rightarrow> u32 \<Rightarrow> u32 \<Rightarrow> u8 \<Rightarrow> u32" where
  "tcpChallengeACKSequence segment sendUnacknowledged sendNext currentSendWindow sendWindowScale =
     (let fallback = tcpAcceptableSendSequence sendUnacknowledged sendNext currentSendWindow sendWindowScale in
      if seg_flags segment \<noteq> TCPFlagACK \<or> length (seg_payload segment) \<noteq> 0 \<or>
         seg_acknowledgement segment - sendUnacknowledged > sendNext - sendUnacknowledged
      then fallback
      else let sendWindow = push_bit (unat sendWindowScale) (ucast (seg_window segment)) in
        tcpAcceptableSendSequence (seg_acknowledgement segment) sendNext sendWindow sendWindowScale)"

definition tcpECNStartsRecovery :: "bool \<Rightarrow> u32 \<Rightarrow> u32 \<Rightarrow> bool" where
  "tcpECNStartsRecovery active acknowledgement recoveryPoint \<longleftrightarrow>
     \<not> active \<or> tcpSequenceGreater acknowledgement recoveryPoint"

definition tcpSegmentAcceptable :: "u32 \<Rightarrow> u32 \<Rightarrow> u32 \<Rightarrow> u32 \<Rightarrow> bool" where
  "tcpSegmentAcceptable sequence len receiveNext receiveWindow =
     (if receiveWindow = 0 then len = 0 \<and> sequence = receiveNext
      else if sequence - receiveNext < receiveWindow then True
      else len \<noteq> 0 \<and> sequence + len - 1 - receiveNext < receiveWindow)"

definition tcpKeepAliveOrWindowProbe :: "tcpSegment \<Rightarrow> u32 \<Rightarrow> u32 \<Rightarrow> u32 \<Rightarrow> bool" where
  "tcpKeepAliveOrWindowProbe segment len receiveNext receiveWindow =
     (if seg_flags segment AND (TCPFlagRST OR TCPFlagSYN OR TCPFlagFIN) \<noteq> 0 \<or>
         seg_flags segment AND TCPFlagACK = 0 \<or> seg_sequence segment \<noteq> receiveNext - 1
      then False else len \<le> 1)"

definition tcpWindowUpdate :: "bool \<Rightarrow> u32 \<Rightarrow> u32 \<Rightarrow> u16 \<Rightarrow> u8 \<Rightarrow> u32 \<Rightarrow> u32 \<times> bool" where
  "tcpWindowUpdate ackAdvanced sequence lastSequence advertisedWindow peerScale currentWindow =
     (if ackAdvanced \<or> tcpSequenceGreater sequence lastSequence
      then (push_bit (unat peerScale) (ucast advertisedWindow), True)
      else if sequence \<noteq> lastSequence then (0, False)
      else let window = push_bit (unat peerScale) (ucast advertisedWindow) in
        (window, window > currentWindow \<or> window = 0))"

definition tcpDuplicateACKEvidence ::
  "tcpSegment \<Rightarrow> bool \<Rightarrow> bool \<Rightarrow> bool \<Rightarrow> u32 \<Rightarrow> u32 \<Rightarrow> u32 \<Rightarrow> bool" where
  "tcpDuplicateACKEvidence segment peerSACK newSACKInfo ackAdvanced sendUnacknowledged previousWindow peerWindow =
     (if peerSACK then newSACKInfo
      else \<not> ackAdvanced \<and> seg_acknowledgement segment = sendUnacknowledged \<and> previousWindow = peerWindow \<and>
        length (seg_payload segment) = 0 \<and> seg_flags segment AND (TCPFlagSYN OR TCPFlagFIN) = 0)"

section \<open>Protection against wrapped sequence numbers\<close>

definition tcpPAWSReject :: "u32 \<Rightarrow> u32 \<Rightarrow> int \<Rightarrow> int \<Rightarrow> u32 \<Rightarrow> bool" where
  "tcpPAWSReject tsval recent recentAt receivedAt replayWindow =
     (if recent = 0 \<or> sint (recent - tsval) \<le> sint replayWindow then False
      else receivedAt - recentAt < tcpPAWSMaxAge)"

text \<open>\<open>rto\<close> is never negative; the division truncates as Go's does on such a value.\<close>

definition tcpPAWSReplayTicks :: "duration \<Rightarrow> u32" where
  "tcpPAWSReplayTicks rto =
     (let ticks = (of_int (rto div millisecond) :: u64);
          ticks = ticks + ticks div 5;
          ticks = (if ticks < ucast tcpPAWSReplayWindow then ucast tcpPAWSReplayWindow else ticks)
      in ucast ticks)"

definition tcpTimestampEchoInRange :: "u32 \<Rightarrow> u32 \<Rightarrow> u32 \<Rightarrow> bool" where
  "tcpTimestampEchoInRange echo first latest \<longleftrightarrow>
     tcpSequenceGreaterEqual echo first \<and> tcpSequenceLessEqual echo latest"

text \<open>The fields of the connection that \<open>tcpPAWSDisorderedACK\<close> reads.\<close>

record tcpPAWSView =
  pv_receiveNext :: u32
  pv_sendUnacknowledged :: u32
  pv_peerScale :: u8
  pv_peerWindowSequence :: u32
  pv_peerWindow :: u32
  pv_recentTimestamp :: u32
  pv_rto :: duration

definition tcpPAWSDisorderedACK :: "tcpSegment \<Rightarrow> tcpPAWSView \<Rightarrow> u32 \<Rightarrow> bool \<times> bool" where
  "tcpPAWSDisorderedACK segment state timestamp =
     (if seg_flags segment AND TCPFlagACK = 0 \<or> length (seg_payload segment) \<noteq> 0 \<or>
         seg_flags segment AND (TCPFlagSYN OR TCPFlagFIN OR TCPFlagRST) \<noteq> 0
      then (False, False)
      else if seg_sequence segment \<noteq> pv_receiveNext state
      then (tcpSequenceLess (seg_sequence segment) (pv_receiveNext state), False)
      else if seg_acknowledgement segment \<noteq> pv_sendUnacknowledged state then (False, False)
      else let window = push_bit (unat (pv_peerScale state)) (ucast (seg_window segment));
               windowUpdate = tcpSequenceGreater (seg_sequence segment) (pv_peerWindowSequence state) \<or>
                 seg_sequence segment = pv_peerWindowSequence state \<and>
                 (window > pv_peerWindow state \<or> window = 0)
        in if windowUpdate then (False, False)
           else (False, sint (pv_recentTimestamp state - timestamp) \<le> sint (tcpPAWSReplayTicks (pv_rto state))))"

section \<open>The advertised receive window\<close>

record tcpReceiveWindow =
  rw_right :: u32
  rw_shift :: u8
  rw_quantumReserve :: u16

definition newTCPReceiveWindow :: "u32 \<Rightarrow> u16 \<Rightarrow> bool \<Rightarrow> bool \<Rightarrow> u8 \<Rightarrow> tcpReceiveWindow" where
  "newTCPReceiveWindow receiveNext initial scaled initialScaled scale =
     (let shift = (if scaled then (if unat scale > tcpMaximumWindowScale then of_nat tcpMaximumWindowScale else scale) else 0);
          initialBytes = (ucast initial :: u32);
          initialBytes = (if initialScaled then push_bit (unat shift) initialBytes else initialBytes)
      in \<lparr>rw_right = receiveNext + initialBytes, rw_shift = shift, rw_quantumReserve = 0\<rparr>)"

text \<open>The loop of \<open>tcpReceiveWindowScaleFor\<close>, from a candidate scale upwards.\<close>

function scaleFrom :: "nat \<Rightarrow> int \<Rightarrow> nat" where
  "scaleFrom scale maximum =
     (if scale < tcpMaximumWindowScale \<and> 65535 * 2 ^ scale < maximum
      then scaleFrom (Suc scale) maximum else scale)"
  by pat_completeness auto
termination
  by (relation "measure (\<lambda>(scale, maximum). tcpMaximumWindowScale - scale)") auto

declare scaleFrom.simps [simp del]

definition tcpReceiveWindowScaleFor :: "int \<Rightarrow> nat" where
  "tcpReceiveWindowScaleFor maximum = (if maximum \<le> 65535 then 0 else scaleFrom 0 maximum)"

text \<open>
  \<open>next\<close>: the wire window, the right edge and the reserve that the next packet would carry. The
  three stages are the ordinary edge, the one-quantum reopening and the result.
\<close>

definition nextEdge :: "tcpReceiveWindow \<Rightarrow> u32 \<Rightarrow> nat \<Rightarrow> int \<Rightarrow> u32 \<times> u16" where
  "nextEdge w receiveNext available minimumIncrease =
     (let quantum = (push_bit (unat (rw_shift w)) 1 :: u32);
          desired = receiveNext + of_nat (available div 2 ^ unat (rw_shift w)) * quantum
      in if tcpSequenceGreater desired (rw_right w) \<and>
            desired - rw_right w \<ge> of_int (max 0 minimumIncrease)
         then (desired, 0) else (rw_right w, rw_quantumReserve w))"

definition nextQuantum :: "tcpReceiveWindow \<Rightarrow> u32 \<Rightarrow> nat \<Rightarrow> int \<Rightarrow> u32 \<times> u16 \<Rightarrow> u32 \<times> u16" where
  "nextQuantum w receiveNext available minimumIncrease = (\<lambda>(right, reserve).
     let quantum = (push_bit (unat (rw_shift w)) 1 :: u32);
         advertisedBytes = (if \<not> tcpSequenceLess right receiveNext then right - receiveNext else 0);
         candidateRight = receiveNext + quantum
     in if rw_shift w \<noteq> 0 \<and> minimumIncrease > 0 \<and> int available \<ge> minimumIncrease \<and>
           advertisedBytes < quantum \<and> tcpSequenceGreater candidateRight right
        then (candidateRight, if (of_nat available :: u32) < quantum then ucast (quantum - of_nat available) else 0)
        else (right, reserve))"

definition nextWindow :: "tcpReceiveWindow \<Rightarrow> u32 \<Rightarrow> int \<Rightarrow> int \<Rightarrow> u16 \<times> u32 \<times> u16" where
  "nextWindow w receiveNext available minimumIncrease =
     (let available = (if available < 0 then 0 else nat available);
          maximum = (push_bit (unat (rw_shift w)) 65535 :: u32);
          available = (if available > unat maximum then unat maximum else available);
          (right, reserve) = nextQuantum w receiveNext available minimumIncrease
                               (nextEdge w receiveNext available minimumIncrease)
      in if tcpSequenceLess right receiveNext then (0, right, 0)
         else (ucast (drop_bit (unat (rw_shift w)) (right - receiveNext)), right,
               if right = receiveNext then 0 else reserve))"

definition windowSize :: "tcpReceiveWindow \<Rightarrow> u32 \<Rightarrow> u32" where
  "windowSize w receiveNext =
     (if tcpSequenceLess (rw_right w) receiveNext then 0 else rw_right w - receiveNext)"

definition tcpReceiveWindowIncrease :: "int \<Rightarrow> int \<Rightarrow> int" where
  "tcpReceiveWindowIncrease capacity mss =
     (if capacity < 1 then 0
      else let threshold = capacity div 2 + capacity mod 2 in
        if mss > 0 \<and> threshold > mss then mss else threshold)"

section \<open>Sequence order\<close>

text \<open>
  The comparison looks at the sign bit of the difference. Statements about it become linear
  arithmetic on unsigned values through the collection \<open>seq_simps\<close>.
\<close>

lemma tcpSequenceLess_unat: "tcpSequenceLess l r \<longleftrightarrow> 2147483648 \<le> unat (l - r)"
  by (simp add: tcpSequenceLess_def sint_neg_u32)

lemmas seq_unat [seq_simps] = tcpSequenceGreater_def tcpSequenceLessEqual_def tcpSequenceGreaterEqual_def
  tcpSequenceLess_unat unat_sub_u32 unat_add_u32

lemma tcpSequenceLess_irrefl [simp]: "\<not> tcpSequenceLess x x"
  by (simp add: tcpSequenceLess_def)

lemma less_off:
  assumes "unat (x - b) < 2147483648" and "unat (y - b) < 2147483648"
  shows "tcpSequenceLess x y \<longleftrightarrow> unat (x - b) < unat (y - b)"
  using assms unat_lt_u32 [of x] unat_lt_u32 [of y] unat_lt_u32 [of b]
  by (auto simp: seq_simps split: if_splits)

lemma greater_off:
  "unat (x - b) < 2147483648 \<Longrightarrow> unat (y - b) < 2147483648 \<Longrightarrow>
   tcpSequenceGreater x y \<longleftrightarrow> unat (y - b) < unat (x - b)"
  by (simp add: tcpSequenceGreater_def less_off)

lemma eq_off: "x = y \<longleftrightarrow> unat (x - b) = unat (y - b :: u32)"
  by (simp flip: unat_eq_u32)

text \<open>
  On every stretch of sequence space shorter than \<open>2^31\<close>, wrapping or not, the four comparisons
  are the order of the distances from the start of the stretch, and hence a linear order there.
\<close>

theorem tcpSequence_window_order:
  assumes "unat (x - b) < 2 ^ 31" and "unat (y - b) < 2 ^ 31"
  shows "(tcpSequenceLess x y \<longleftrightarrow> unat (x - b) < unat (y - b)) \<and>
         (tcpSequenceGreater x y \<longleftrightarrow> unat (y - b) < unat (x - b)) \<and>
         (tcpSequenceLessEqual x y \<longleftrightarrow> unat (x - b) \<le> unat (y - b)) \<and>
         (tcpSequenceGreaterEqual x y \<longleftrightarrow> unat (y - b) \<le> unat (x - b))"
  using less_off [of x b y] less_off [of y b x] assms
  by (auto simp: tcpSequenceGreater_def tcpSequenceLessEqual_def tcpSequenceGreaterEqual_def)

theorem tcpSequence_window_order_witness:
  "tcpSequenceLess 4294967290 5 \<and> \<not> tcpSequenceLess 5 4294967290"
  using tcpSequence_window_order [of 4294967290 4294967280 5]
    tcpSequence_window_order [of 5 4294967280 4294967290] by simp

section \<open>The receive-window test\<close>



section \<open>Where an empty segment may be sent\<close>

text \<open>
  The sequence number chosen for an empty ACK or an active reset stays between SND.UNA and
  SND.NXT, and is inside the peer's window except that SND.NXT itself is used when it overshoots
  the window by less than one window-scale quantum.
\<close>

theorem tcpAcceptableSendSequence_in_range:
  assumes "unat (nxt - una) < 2 ^ 31" "wnd \<le> tcpMaximumScaledWindow"
  shows "let r = tcpAcceptableSendSequence una nxt wnd sc in
     unat (r - una) \<le> unat (nxt - una) \<and>
     (unat (r - una) \<le> unat wnd \<or> r = nxt \<and> unat (nxt - una) < unat wnd + unat (push_bit (unat sc) 1 :: u32))"
proof -
  have w: "unat wnd \<le> 1073725440" using assms(2) by (simp add: tcpMaximumScaledWindow_val word_le_nat_alt)
  have n: "unat (nxt - una) < 2147483648" using assms(1) by simp
  have L: "tcpSequenceLess (una + wnd) nxt \<longleftrightarrow> unat wnd < unat (nxt - una)"
    using less_off[of "una + wnd" una nxt] w n by simp
  have "nxt - (una + wnd) = (nxt - una) - wnd" by simp
  then have D: "unat wnd < unat (nxt - una) \<Longrightarrow> unat (nxt - (una + wnd)) = unat (nxt - una) - unat wnd"
    by (simp only: unat_sub_u32) simp
  show ?thesis
    using L D by (auto simp: tcpAcceptableSendSequence_def Let_def word_less_nat_alt)
qed

theorem tcpAcceptableSendSequence_in_range_witness:
  "let r = tcpAcceptableSendSequence 4294967000 200 100 2 in
     unat (r - 4294967000) \<le> unat (200 - 4294967000 :: u32) \<and>
     (unat (r - 4294967000) \<le> unat (100 :: u32) \<or>
      r = 200 \<and> unat (200 - 4294967000 :: u32) < unat (100 :: u32) + unat (push_bit (unat (2 :: u8)) 1 :: u32))"
  by (rule tcpAcceptableSendSequence_in_range) (simp_all add: tcpMaximumScaledWindow_val)

section \<open>The advertised window never shrinks\<close>

text \<open>
  A window value is consistent with the next expected sequence number when its right edge is at or
  ahead of it, by no more than the largest window the scale can express, and its reserve is below
  one quantum.
\<close>

definition rw_ok :: "tcpReceiveWindow \<Rightarrow> u32 \<Rightarrow> bool" where
  "rw_ok w rn \<longleftrightarrow> unat (rw_shift w) \<le> 14 \<and> unat (rw_right w - rn) \<le> 65535 * 2 ^ unat (rw_shift w) \<and>
     unat (rw_quantumReserve w) < 2 ^ unat (rw_shift w)"

lemma shift_bound: "s \<le> 14 \<Longrightarrow> (2::nat) ^ s \<le> 16384"
  using power_increasing [of s 14 "2::nat"] by simp

lemma push_bit_of_nat_u32: "push_bit s (of_nat n) = (of_nat (n * 2 ^ s) :: u32)"
  by (simp add: push_bit_eq_mult)

lemma unat_push_1: "s \<le> 14 \<Longrightarrow> unat (push_bit s 1 :: u32) = 2 ^ s"
  using push_bit_of_nat_u32 [of s 1] shift_bound [of s]
  by (simp del: of_nat_power add: unat_of_nat_u32)

lemma unat_push_65535: "s \<le> 14 \<Longrightarrow> unat (push_bit s 65535 :: u32) = 65535 * 2 ^ s"
  using push_bit_of_nat_u32 [of s 65535] shift_bound [of s]
  by (simp del: of_nat_power of_nat_mult add: unat_of_nat_u32)

lemma unat_desired:
  assumes "s \<le> 14" "a \<le> 65535 * 2 ^ s"
  shows "unat (of_nat (a div 2 ^ s) * push_bit s 1 :: u32) = a div 2 ^ s * 2 ^ s"
proof -
  have "of_nat (a div 2 ^ s) * push_bit s 1 = (of_nat (a div 2 ^ s * 2 ^ s) :: u32)"
    by (simp add: push_bit_eq_mult)
  moreover have "a div 2 ^ s * 2 ^ s \<le> a" by simp
  moreover have "a < 4294967296" using assms shift_bound [of s] by simp
  ultimately show ?thesis by (simp only: unat_of_nat_u32)
qed

lemma nextEdge_cases:
  assumes ok: "rw_ok w rn" and a: "a \<le> 65535 * 2 ^ unat (rw_shift w)"
    and e: "nextEdge w rn a mi = (r, v)"
  obtains (keep) "r = rw_right w" "v = rw_quantumReserve w"
    | (grow) "v = 0" "unat (r - rn) = a div 2 ^ unat (rw_shift w) * 2 ^ unat (rw_shift w)"
        "unat (rw_right w - rn) < unat (r - rn)"
proof -
  let ?s = "unat (rw_shift w)"
  let ?d = "rn + of_nat (a div 2 ^ ?s) * push_bit ?s 1 :: u32"
  have s: "?s \<le> 14" using ok by (simp add: rw_ok_def)
  have d: "unat (?d - rn) = a div 2 ^ ?s * 2 ^ ?s" using unat_desired[OF s a] by simp
  have "a div 2 ^ ?s * 2 ^ ?s \<le> 65535 * 2 ^ ?s" using a by (meson div_times_less_eq_dividend le_trans)
  then have db: "unat (?d - rn) < 2147483648" using d shift_bound[OF s] by linarith
  have rb: "unat (rw_right w - rn) < 2147483648" using ok shift_bound[OF s] by (simp add: rw_ok_def)
  from e consider "r = rw_right w" "v = rw_quantumReserve w" 
    | "r = ?d" "v = 0" "tcpSequenceGreater ?d (rw_right w)"
    by (auto simp: nextEdge_def Let_def split: if_splits)
  then show thesis using keep grow d greater_off[OF db rb] by cases auto
qed

lemma nextQuantum_cases:
  assumes "nextQuantum w rn a mi (r0, v0) = (r, v)"
    and s: "unat (rw_shift w) \<le> 14" and a: "a \<le> 65535 * 2 ^ unat (rw_shift w)"
    and r0: "unat (r0 - rn) \<le> 65535 * 2 ^ unat (rw_shift w)"
  obtains (keep) "r = r0" "v = v0"
    | (reopen) "unat (r - rn) = 2 ^ unat (rw_shift w)" "unat (r0 - rn) < unat (r - rn)" 
        "unat v = 2 ^ unat (rw_shift w) - a" "0 < a"
proof -
  let ?s = "unat (rw_shift w)"
  let ?q = "push_bit ?s 1 :: u32"
  have q: "unat ?q = 2 ^ ?s" using s by (rule unat_push_1)
  have qb: "(2::nat) ^ ?s \<le> 16384" using shift_bound[OF s] .
  have c: "unat (rn + ?q - rn) = 2 ^ ?s" using q by simp
  have g: "tcpSequenceGreater (rn + ?q) r0 \<longleftrightarrow> unat (r0 - rn) < 2 ^ ?s"
    using greater_off[of "rn + ?q" rn r0] c qb r0 by simp
  have au: "unat (of_nat a :: u32) = a" using a qb by (intro unat_of_nat_u32) simp
  have vv: "unat (ucast (?q - of_nat a) :: u16) = 2 ^ ?s - a" if "of_nat a < ?q"
  proof -
    have lt: "a < 2 ^ ?s" using that au q by (simp add: word_less_nat_alt)
    have "unat (?q - of_nat a) = 2 ^ ?s - a" using lt au q by (simp add: unat_sub_u32)
    then show ?thesis using qb by (simp add: unsigned_ucast_eq take_bit_nat_eq_self)
  qed
  from assms(1) consider "r = r0" "v = v0" 
    | "r = rn + ?q" "tcpSequenceGreater (rn + ?q) r0" "0 < mi" "mi \<le> int a"
       "v = (if of_nat a < ?q then ucast (?q - of_nat a) else 0)"
    by (auto simp: nextQuantum_def Let_def split: if_splits)
  then show thesis
  proof cases
    case 1 then show ?thesis by (rule keep)
  next
    case 2
    have "unat v = 2 ^ ?s - a" using 2(5) vv au q by (auto simp: word_less_nat_alt)
    then show ?thesis using 2 reopen c g by auto
  qed
qed

text \<open>
  C24: whatever storage is available, the next advertisement keeps the state consistent, never
  moves the right edge back, encodes the window exactly (rounded down to the scale quantum, with
  no truncation to 16 bits), and promises new sequence space only up to the available storage plus
  the recorded reserve, which is below one quantum.
\<close>

theorem nextWindow_keeps_promise:
  assumes ok: "rw_ok w rn" and n: "nextWindow w rn avail mi = (wire, right, reserve)"
  shows "rw_ok (w\<lparr>rw_right := right, rw_quantumReserve := reserve\<rparr>) rn \<and>
     unat (rw_right w - rn) \<le> unat (right - rn) \<and>
     unat wire = unat (right - rn) div 2 ^ unat (rw_shift w) \<and>
     (right \<noteq> rw_right w \<longrightarrow> unat (right - rn) \<le> nat avail + unat reserve)"
proof -
  let ?s = "unat (rw_shift w)"
  define a where "a = (let x = (if avail < 0 then 0 else nat avail) in
     if x > unat (push_bit ?s 65535 :: u32) then unat (push_bit ?s 65535 :: u32) else x)"
  have s: "?s \<le> 14" and R: "unat (rw_right w - rn) \<le> 65535 * 2 ^ ?s" 
    and v: "unat (rw_quantumReserve w) < 2 ^ ?s" using ok by (simp_all add: rw_ok_def)
  have a: "a \<le> 65535 * 2 ^ ?s" "a \<le> nat avail" unfolding a_def using unat_push_65535[OF s] by (auto simp: Let_def)
  obtain r1 v1 where e1: "nextEdge w rn a mi = (r1, v1)" by fastforce
  obtain r2 v2 where e2: "nextQuantum w rn a mi (r1, v1) = (r2, v2)" by fastforce
  have P: "(0::nat) < 2 ^ ?s" "(2::nat) ^ ?s \<le> 16384" using shift_bound[OF s] by auto
  have D: "a div 2 ^ ?s * 2 ^ ?s \<le> a" by simp
  have D2: "a div 2 ^ ?s \<le> 65535" using a(1) P by (metis div_le_mono nonzero_mult_div_cancel_right not_gr0 P(1))
  have E1: "unat (r1 - rn) \<le> 65535 * 2 ^ ?s \<and> unat v1 < 2 ^ ?s \<and> unat (rw_right w - rn) \<le> unat (r1 - rn) \<and>
     (r1 \<noteq> rw_right w \<longrightarrow> unat (r1 - rn) \<le> a)"
    using nextEdge_cases[OF ok a(1) e1] R v a D D2 P by (cases; auto) 
  have E2: "unat (r2 - rn) \<le> 65535 * 2 ^ ?s \<and> unat v2 < 2 ^ ?s \<and> unat (rw_right w - rn) \<le> unat (r2 - rn) \<and>
     (r2 \<noteq> rw_right w \<longrightarrow> unat (r2 - rn) \<le> a + unat v2)"
    using nextQuantum_cases[OF e2 s a(1)] E1 a P by (cases; auto) 
  have nl: "\<not> tcpSequenceLess r2 rn" using E2 P by (simp add: tcpSequenceLess_unat)
  have n2: "wire = ucast (drop_bit ?s (r2 - rn))" "right = r2" "reserve = (if r2 = rn then 0 else v2)"
    using n e1 e2 nl by (auto simp: nextWindow_def Let_def a_def[unfolded Let_def, symmetric])
  have w: "unat wire = unat (r2 - rn) div 2 ^ ?s"
  proof -
    have "unat (r2 - rn) div 2 ^ ?s \<le> 65535" using E2 P by (metis div_le_mono nonzero_mult_div_cancel_right not_gr0 P(1))
    then have "take_bit 16 (unat (r2 - rn) div 2 ^ ?s) = unat (r2 - rn) div 2 ^ ?s"
      by (simp add: take_bit_nat_eq_self)
    then show ?thesis
      by (simp only: n2 unsigned_ucast_eq unat_drop_bit_eq) (simp add: drop_bit_eq_div)
  qed
  show ?thesis using E2 n2 w a s P by (auto simp: rw_ok_def)
qed

theorem nextWindow_keeps_promise_witness:
  "rw_ok \<lparr>rw_right = 4294967290, rw_shift = 2, rw_quantumReserve = 0\<rparr> 4294967290 \<and>
   nextWindow \<lparr>rw_right = 4294967290, rw_shift = 2, rw_quantumReserve = 0\<rparr> 4294967290 103 50 = (25, 94, 0) \<and>
   unat (94 - 4294967290 :: u32) \<le> nat 103 + unat (0 :: u16)"
proof -
  let ?w = "\<lparr>rw_right = 4294967290, rw_shift = 2, rw_quantumReserve = 0\<rparr>"
  have ok: "rw_ok ?w 4294967290" by (simp add: rw_ok_def)
  have n: "nextWindow ?w 4294967290 103 50 = (25, 94, 0)"
    by (simp add: nextWindow_def nextEdge_def nextQuantum_def Let_def tcpSequenceGreater_def tcpSequenceLess_def)
  show ?thesis using ok n nextWindow_keeps_promise [OF ok n] by simp
qed

lemma rw_ok_advance:
  "rw_ok w rn \<Longrightarrow> unat (rn' - rn) \<le> unat (rw_right w - rn) \<Longrightarrow> rw_ok w rn'"
proof -
  assume ok: "rw_ok w rn" and le: "unat (rn' - rn) \<le> unat (rw_right w - rn)"
  have "rw_right w - rn' = (rw_right w - rn) - (rn' - rn)" by simp
  then have "unat (rw_right w - rn') = unat (rw_right w - rn) - unat (rn' - rn)" using le by (simp only: unat_sub_u32 if_True)
  with ok show ?thesis by (auto simp: rw_ok_def intro: le_trans [OF diff_le_self])
qed

text \<open>
  The life of the window: it starts as the handshake leaves it, RCV.NXT advances inside it, and
  each sent acknowledgement commits an advertisement (\<open>commitAcknowledgment\<close>, \<^verbatim>\<open>src/tcp.go\<close> 2873).
\<close>

inductive window_reach :: "tcpReceiveWindow \<Rightarrow> u32 \<Rightarrow> bool" where
  start: "window_reach (newTCPReceiveWindow rn initial scaled initialScaled scale) rn"
| consume: "window_reach w rn \<Longrightarrow> n \<le> windowSize w rn \<Longrightarrow> window_reach w (rn + n)"
| advertise: "window_reach w rn \<Longrightarrow> nextWindow w rn available minimumIncrease = (wire, right, reserve) \<Longrightarrow>
     window_reach (w\<lparr>rw_right := right, rw_quantumReserve := reserve\<rparr>) rn"

lemma rw_ok_new: "rw_ok (newTCPReceiveWindow rn initial scaled initialScaled scale) rn"
proof -
  let ?sh = "(if scaled then if unat scale > 14 then 14 else scale else 0) :: u8"
  have sh: "unat ?sh \<le> 14" by auto
  have i: "unat (ucast initial :: u32) \<le> 65535"
    using unat_lt_u16[of initial] by (simp add: unsigned_ucast_eq take_bit_nat_eq_self)
  have p: "unat (push_bit (unat ?sh) (ucast initial) :: u32) \<le> 65535 * 2 ^ unat ?sh" 
  proof -
    have b: "unat (ucast initial :: u32) * 2 ^ unat ?sh \<le> 65535 * 2 ^ unat ?sh" using i by simp
    have "push_bit (unat ?sh) (ucast initial :: u32) = of_nat (unat (ucast initial :: u32) * 2 ^ unat ?sh)"
      by (simp add: push_bit_eq_mult)
    moreover have "unat (ucast initial :: u32) * 2 ^ unat ?sh < 4294967296"
      using b shift_bound[OF sh] by linarith
    ultimately show ?thesis using b by (simp only: unat_of_nat_u32)
  qed
  have "unat (ucast initial :: u32) \<le> 65535 * (2::nat) ^ unat ?sh" using i by (rule le_trans) simp
  then show ?thesis using sh i p 
    by (cases scaled; cases initialScaled; cases "unat scale > 14") 
       (simp_all add: rw_ok_def newTCPReceiveWindow_def Let_def tcpMaximumWindowScale_def)
qed

text \<open>
  In every state the window can reach, the right edge is at or ahead of RCV.NXT and the
  consistency conditions hold, so the window is never negative and always expressible.
\<close>

theorem window_reach_ok: "window_reach w rn \<Longrightarrow> rw_ok w rn \<and> \<not> tcpSequenceLess (rw_right w) rn"
proof -
  have le: "\<not> tcpSequenceLess (rw_right w) rn" if ok: "rw_ok w rn" for w rn
  proof -
    have "unat (rw_right w - rn) \<le> 65535 * 2 ^ unat (rw_shift w)" "(2::nat) ^ unat (rw_shift w) \<le> 16384"
      using ok shift_bound[of "unat (rw_shift w)"] by (simp_all add: rw_ok_def)
    then have "unat (rw_right w - rn) < 2147483648" by linarith
    then show ?thesis by (simp add: tcpSequenceLess_unat)
  qed
  have "window_reach w rn \<Longrightarrow> rw_ok w rn"
  proof (induction rule: window_reach.induct)
    case start show ?case by (rule rw_ok_new)
  next
    case (consume w rn n)
    have "windowSize w rn = rw_right w - rn" using le [OF consume.IH] by (simp add: windowSize_def)
    then have "unat (rn + n - rn) \<le> unat (rw_right w - rn)" using consume.hyps(2) by (simp add: word_le_nat_alt)
    with consume.IH show ?case by (rule rw_ok_advance)
  next
    case (advertise w rn available minimumIncrease wire right reserve)
    show ?case using nextWindow_keeps_promise [OF advertise.IH advertise.hyps(2)] by (rule conjunct1)
  qed
  then show "window_reach w rn \<Longrightarrow> rw_ok w rn \<and> \<not> tcpSequenceLess (rw_right w) rn" by (intro conjI le)
qed

theorem window_reach_ok_witness:
  "rw_ok (newTCPReceiveWindow 7 1000 True False 3) (7 + 400) \<and>
   \<not> tcpSequenceLess (rw_right (newTCPReceiveWindow 7 1000 True False 3)) (7 + 400)"
proof -
  have "window_reach (newTCPReceiveWindow 7 1000 True False 3) (7 + 400)"
    by (rule window_reach.consume [OF window_reach.start])
      (simp add: windowSize_def newTCPReceiveWindow_def tcpSequenceLess_def Let_def)
  then show ?thesis by (rule window_reach_ok)
qed

section \<open>The window scale\<close>

lemma scaleFrom_le: "s \<le> tcpMaximumWindowScale \<Longrightarrow> scaleFrom s m \<le> tcpMaximumWindowScale"
  by (induction s m rule: scaleFrom.induct) (subst scaleFrom.simps, simp)

lemma scaleFrom_minimal: "s \<le> k \<Longrightarrow> k < scaleFrom s m \<Longrightarrow> 65535 * 2 ^ k < m"
proof (induction s m rule: scaleFrom.induct)
  case (1 s m)
  then show ?case
    by (cases "k = s") (auto simp: scaleFrom.simps [of s m] split: if_splits)
qed

lemma scaleFrom_covers:
  "m \<le> 65535 * 2 ^ tcpMaximumWindowScale \<Longrightarrow> s \<le> tcpMaximumWindowScale \<Longrightarrow> m \<le> 65535 * 2 ^ scaleFrom s m"
proof (induction s m rule: scaleFrom.induct)
  case (1 s m)
  show ?case
  proof (cases "s < tcpMaximumWindowScale \<and> 65535 * 2 ^ s < m")
    case True
    with 1 show ?thesis by (simp add: scaleFrom.simps [of s m])
  next
    case False
    with 1 have "m \<le> 65535 * 2 ^ s" by (cases "s = tcpMaximumWindowScale") auto
    with False show ?thesis by (simp add: scaleFrom.simps [of s m])
  qed
qed

text \<open>
  The chosen window scale is at most 14, can advertise the whole configured buffer whenever
  any scale can, and no smaller scale could.
\<close>

theorem tcpReceiveWindowScaleFor_least:
  "tcpReceiveWindowScaleFor m \<le> 14 \<and>
   (m \<le> 65535 * 2 ^ 14 \<longrightarrow> m \<le> 65535 * 2 ^ tcpReceiveWindowScaleFor m) \<and>
   (\<forall>k < tcpReceiveWindowScaleFor m. 65535 * 2 ^ k < m)"
  using scaleFrom_le [of 0 m] scaleFrom_covers [of m 0] scaleFrom_minimal [of 0 _ m]
  by (auto simp: tcpReceiveWindowScaleFor_def tcpMaximumWindowScale_def)

theorem tcpReceiveWindowScaleFor_least_witness:
  "(16777216 :: int) \<le> 65535 * 2 ^ tcpReceiveWindowScaleFor 16777216"
  using tcpReceiveWindowScaleFor_least [of 16777216] by simp

end
