(* ===== verification/Netip.thy ===== *)
theory Netip
  imports Prelude
begin

text \<open>
  What the sources use of the standard library package \<open>net/netip\<close> and of \<open>syscall.Errno\<close>. An
  address is the zero value, an IPv4 address, or an IPv6 address with its zone; an IPv4-mapped IPv6
  address is an IPv6 address here as it is in \<open>netip\<close>, until \<open>Unmap\<close> turns it into an IPv4 one.
\<close>

datatype errno = EINVAL | EMSGSIZE | EPROTONOSUPPORT | EADDRNOTAVAIL | EADDRINUSE | ENOBUFS | ENETUNREACH | EAFNOSUPPORT | EACCES

datatype addr = AddrZero | Addr4 u32 | Addr6 "128 word" string

fun is4 :: "addr \<Rightarrow> bool" where
  "is4 (Addr4 _) = True"
| "is4 _ = False"

fun is6 :: "addr \<Rightarrow> bool" where
  "is6 (Addr6 _ _) = True"
| "is6 _ = False"

definition isValidAddr :: "addr \<Rightarrow> bool" where
  "isValidAddr a \<longleftrightarrow> a \<noteq> AddrZero"

text \<open>\<open>::ffff:0:0/96\<close>, the prefix of the IPv4-mapped addresses.\<close>

fun is4In6 :: "addr \<Rightarrow> bool" where
  "is4In6 (Addr6 w _) = (drop_bit 32 w = 0xffff)"
| "is4In6 _ = False"

fun unmapAddr :: "addr \<Rightarrow> addr" where
  "unmapAddr (Addr6 w z) = (if drop_bit 32 w = 0xffff then Addr4 (ucast w) else Addr6 w z)"
| "unmapAddr a = a"

fun addrZone :: "addr \<Rightarrow> string" where
  "addrZone (Addr6 _ z) = z"
| "addrZone _ = []"

definition addr_unspecified4 :: addr where "addr_unspecified4 = Addr4 0"
definition addr_unspecified6 :: addr where "addr_unspecified6 = Addr6 0 []"

fun isUnspecified :: "addr \<Rightarrow> bool" where
  "isUnspecified (Addr4 w) = (w = 0)"
| "isUnspecified (Addr6 w z) = (w = 0 \<and> z = [])"
| "isUnspecified AddrZero = False"

text \<open>\<open>As4\<close> and \<open>As16\<close>; \<open>As4\<close> panics on an address that is not IPv4 or IPv4-mapped.\<close>

definition bytes16 :: "128 word \<Rightarrow> bytes" where
  "bytes16 w = map (\<lambda>i. ucast (drop_bit (8 * (15 - i)) w)) [0..<16]"

fun as4 :: "addr \<Rightarrow> bytes option" where
  "as4 (Addr4 w) = Some (be_put32 w)"
| "as4 (Addr6 w z) = (if drop_bit 32 w = 0xffff then Some (be_put32 (ucast w)) else None)"
| "as4 AddrZero = None"

fun as16 :: "addr \<Rightarrow> bytes" where
  "as16 (Addr4 w) = replicate 10 0 @ [255, 255] @ be_put32 w"
| "as16 (Addr6 w _) = bytes16 w"
| "as16 AddrZero = replicate 16 0"

text \<open>\<open>AddrFrom4\<close> and \<open>AddrFrom16\<close> on four and sixteen bytes, and \<open>IsMulticast\<close>.\<close>

definition word16 :: "bytes \<Rightarrow> 128 word" where
  "word16 bs = foldl (\<lambda>w b. push_bit 8 w OR ucast b) 0 bs"

definition addrFrom16 :: "bytes \<Rightarrow> addr" where
  "addrFrom16 bs = Addr6 (word16 bs) []"

fun addrFrom4 :: "bytes \<Rightarrow> addr" where
  "addrFrom4 (a # b # c # d # _) = Addr4 (join32 a b c d)"
| "addrFrom4 _ = AddrZero"

fun isMulticastAddr :: "addr \<Rightarrow> bool" where
  "isMulticastAddr (Addr4 w) = (drop_bit 28 w = 0xe)"
| "isMulticastAddr (Addr6 w _) = (if drop_bit 32 w = 0xffff then drop_bit 28 (ucast w :: u32) = 0xe else drop_bit 120 w = 0xff)"
| "isMulticastAddr AddrZero = False"

lemma length_bytes16 [simp]: "length (bytes16 w) = 16"
  by (simp add: bytes16_def)

lemma length_as16 [simp]: "length (as16 a) = 16"
  by (cases a) simp_all

lemma unmap_idem [simp]: "unmapAddr (unmapAddr a) = unmapAddr a"
  by (cases a) auto

lemma is4_not_is6: "is4 a \<Longrightarrow> \<not> is6 a"
  by (cases a) auto

text \<open>\<open>netip.AddrPort\<close>.\<close>

record addrPort =
  ap_addr :: addr
  ap_port :: u16

end
