(* ===== verification/Tcp_Options.thy ===== *)
theory Tcp_Options
  imports Tcp_Seq Netip
begin

text \<open>
  TCP header options of \<^verbatim>\<open>src/tcp.go\<close>: the semantic option values and their accessors
  (lines 267 to 510), the option-area codec (\<open>HeaderOptions\<close>, \<open>SetHeaderOptions\<close>,
  \<open>tcpOptionsContentLength\<close>), the options written on SYN and data segments
  (lines 10601 to 10722), and the parsers that the connection actors run on received options
  (\<open>parseTCPOptions\<close>, \<open>parseTCPTimestamp\<close>, \<open>parseTCPDSACKOption\<close>, \<open>parseTCPSACKOptions\<close>).

  Every read of the option area goes through \<open>go_index\<close>, \<open>read16\<close> and \<open>read32\<close>, so a model
  value \<open>None\<close> is an index panic of the source; the theorems show that no input leads there.
\<close>

section \<open>Constants\<close>

definition TCPHeaderOptionEnd :: u8 where "TCPHeaderOptionEnd = 0"
definition TCPHeaderOptionNOP :: u8 where "TCPHeaderOptionNOP = 1"
definition TCPHeaderOptionMSS :: u8 where "TCPHeaderOptionMSS = 2"
definition TCPHeaderOptionWindowScale :: u8 where "TCPHeaderOptionWindowScale = 3"
definition TCPHeaderOptionSACKPermitted :: u8 where "TCPHeaderOptionSACKPermitted = 4"
definition TCPHeaderOptionSACK :: u8 where "TCPHeaderOptionSACK = 5"
definition TCPHeaderOptionTimestamp :: u8 where "TCPHeaderOptionTimestamp = 8"

lemmas tcp_option_kinds = TCPHeaderOptionEnd_def TCPHeaderOptionNOP_def TCPHeaderOptionMSS_def
  TCPHeaderOptionWindowScale_def TCPHeaderOptionSACKPermitted_def TCPHeaderOptionSACK_def
  TCPHeaderOptionTimestamp_def

definition tcpHeaderSize :: nat where "tcpHeaderSize = 20"
definition tcpTimestampOptionSize :: nat where "tcpTimestampOptionSize = 12"
definition tcpMinimumPeerMSS :: int where "tcpMinimumPeerMSS = 48"

section \<open>Maximum segment size\<close>

definition clampMSS :: "int \<Rightarrow> int \<Rightarrow> int" where
  "clampMSS value maximum =
     (let value = (if value < tcpMinimumPeerMSS then tcpMinimumPeerMSS else value)
      in if value > maximum then maximum else value)"

definition tcpEffectiveSendMSS :: "int \<Rightarrow> int \<Rightarrow> bool \<Rightarrow> int" where
  "tcpEffectiveSendMSS peerMSS pathMSS timestamp =
     (let maximum = clampMSS peerMSS pathMSS
      in if timestamp then maximum - int tcpTimestampOptionSize else maximum)"

definition tcpSegmentPayloadLimit :: "int \<Rightarrow> int \<Rightarrow> int \<Rightarrow> int" where
  "tcpSegmentPayloadLimit peerMSS pathMSS optionSize =
     (let peerMSS = (if pathMSS < peerMSS then pathMSS else peerMSS) in peerMSS - optionSize)"

definition defaultTCPPeerMSS :: "addr \<Rightarrow> int" where
  "defaultTCPPeerMSS address = (if is4 address then 536 else 1220)"

definition tcpMSSForMTU :: "int \<Rightarrow> addr \<Rightarrow> int" where
  "tcpMSSForMTU mtu address =
     (let header = (if is4 address then int tcpHeaderSize + 20 else int tcpHeaderSize + 40);
          maximum = mtu - header
      in if maximum > 65535 then 65535 else maximum)"

text \<open>The loop of \<open>tcpSACKBlockLimit\<close> from a block count downwards; \<open>&^ 3\<close> rounds down to a multiple of four.\<close>

fun sackBlocksFitting :: "nat \<Rightarrow> nat \<Rightarrow> int \<Rightarrow> nat" where
  "sackBlocksFitting 0 timestampSize budget = 0"
| "sackBlocksFitting (Suc b) timestampSize budget =
     (let optionSize = timestampSize + 2 + 8 * Suc b;
          optionSize = (optionSize + 3) div 4 * 4
      in if int optionSize \<le> budget then Suc b else sackBlocksFitting b timestampSize budget)"

definition tcpSACKBlockLimit :: "int \<Rightarrow> addr \<Rightarrow> bool \<Rightarrow> int \<Rightarrow> nat" where
  "tcpSACKBlockLimit mtu address timestamp reservePayload =
     (let ipHeader = (if is4 address then 20 else 40);
          budget = mtu - ipHeader - int tcpHeaderSize - reservePayload;
          budget = (if budget > 40 then 40 else budget)
      in if budget < 0 then 0
         else if timestamp then sackBlocksFitting 3 tcpTimestampOptionSize budget
         else sackBlocksFitting 4 0 budget)"

section \<open>Semantic options and their accessors\<close>

record tcpHeaderOption =
  opt_kind :: u8
  opt_data :: bytes

record tcpSACKBlock =
  LeftEdge :: u32
  RightEdge :: u32

text \<open>The unsigned comparison of the source rejects lengths below two and beyond the area.\<close>

definition tcpHeaderOptionLength :: "bytes \<Rightarrow> nat" where
  "tcpHeaderOptionLength option =
     (if length option < 2 then 0
      else let len = unat (option ! 1) in
        if len < 2 \<or> len > length option then 0 else len)"

definition maximumSegmentSize :: "tcpHeaderOption \<Rightarrow> u16 option" where
  "maximumSegmentSize o1 =
     (if opt_kind o1 \<noteq> TCPHeaderOptionMSS \<or> length (opt_data o1) \<noteq> 2 then None else be_get16 (opt_data o1))"

definition setMaximumSegmentSize :: "u16 \<Rightarrow> tcpHeaderOption" where
  "setMaximumSegmentSize value = \<lparr>opt_kind = TCPHeaderOptionMSS, opt_data = be_put16 value\<rparr>"

definition windowScale :: "tcpHeaderOption \<Rightarrow> u8 option" where
  "windowScale o1 =
     (if opt_kind o1 \<noteq> TCPHeaderOptionWindowScale \<or> length (opt_data o1) \<noteq> 1 then None else Some (hd (opt_data o1)))"

definition setWindowScale :: "u8 \<Rightarrow> tcpHeaderOption" where
  "setWindowScale value = \<lparr>opt_kind = TCPHeaderOptionWindowScale, opt_data = [value]\<rparr>"

definition isSACKPermitted :: "tcpHeaderOption \<Rightarrow> bool" where
  "isSACKPermitted o1 \<longleftrightarrow> opt_kind o1 = TCPHeaderOptionSACKPermitted \<and> length (opt_data o1) = 0"

definition setSACKPermitted :: tcpHeaderOption where
  "setSACKPermitted = \<lparr>opt_kind = TCPHeaderOptionSACKPermitted, opt_data = []\<rparr>"

definition timestampOption :: "tcpHeaderOption \<Rightarrow> (u32 \<times> u32) option" where
  "timestampOption o1 =
     (if opt_kind o1 \<noteq> TCPHeaderOptionTimestamp \<or> length (opt_data o1) \<noteq> 8 then None
      else do { value \<leftarrow> be_get32 (take 4 (opt_data o1)); echo \<leftarrow> be_get32 (drop 4 (opt_data o1)); Some (value, echo) })"

definition setTimestamp :: "u32 \<Rightarrow> u32 \<Rightarrow> tcpHeaderOption" where
  "setTimestamp value echo = \<lparr>opt_kind = TCPHeaderOptionTimestamp, opt_data = be_put32 value @ be_put32 echo\<rparr>"

text \<open>Eight octets per block, read from the front of the data.\<close>

fun getBlocks :: "bytes \<Rightarrow> tcpSACKBlock list" where
  "getBlocks (a # b # c # d # e # f # g # h # rest) =
     \<lparr>LeftEdge = join32 a b c d, RightEdge = join32 e f g h\<rparr> # getBlocks rest"
| "getBlocks _ = []"

definition sackBlocks :: "tcpHeaderOption \<Rightarrow> tcpSACKBlock list option" where
  "sackBlocks o1 =
     (if opt_kind o1 \<noteq> TCPHeaderOptionSACK \<or> length (opt_data o1) < 8 \<or> length (opt_data o1) > 32 \<or>
         length (opt_data o1) mod 8 \<noteq> 0
      then None else Some (getBlocks (opt_data o1)))"

definition putBlock :: "tcpSACKBlock \<Rightarrow> bytes" where
  "putBlock b = be_put32 (LeftEdge b) @ be_put32 (RightEdge b)"

definition setSACKBlocks :: "tcpSACKBlock list \<Rightarrow> errno + tcpHeaderOption" where
  "setSACKBlocks blocks =
     (if length blocks < 1 \<or> length blocks > 4 then Inl EINVAL
      else Inr \<lparr>opt_kind = TCPHeaderOptionSACK, opt_data = concat (map putBlock blocks)\<rparr>)"

section \<open>The option area\<close>

text \<open>\<open>HeaderOptions\<close>: the loop from \<open>offset\<close> with the descriptors collected so far.\<close>

function headerOptionsFrom :: "bytes \<Rightarrow> nat \<Rightarrow> tcpHeaderOption list \<Rightarrow> (errno + tcpHeaderOption list) option" where
  "headerOptionsFrom options offset result =
     (if offset < length options then do {
        kind \<leftarrow> go_index options offset;
        if kind = TCPHeaderOptionEnd then Some (Inr (result @ [\<lparr>opt_kind = kind, opt_data = []\<rparr>]))
        else if kind = TCPHeaderOptionNOP
          then headerOptionsFrom options (Suc offset) (result @ [\<lparr>opt_kind = kind, opt_data = []\<rparr>])
        else let len = tcpHeaderOptionLength (drop offset options) in
          if len = 0 then Some (Inl EINVAL)
          else do {
            data \<leftarrow> go_slice options (offset + 2) (offset + len);
            headerOptionsFrom options (offset + len) (result @ [\<lparr>opt_kind = kind, opt_data = data\<rparr>]) } }
      else Some (Inr result))"
  by pat_completeness auto
termination
  by (relation "measure (\<lambda>(options, offset, result). length options - offset)") auto

definition headerOptions :: "bytes \<Rightarrow> (errno + tcpHeaderOption list) option" where
  "headerOptions options = (if length options > 40 then Some (Inl EMSGSIZE) else headerOptionsFrom options 0 [])"

text \<open>\<open>SetHeaderOptions\<close>: the sizing pass, then the encoding.\<close>

fun sizeOptions :: "tcpHeaderOption list \<Rightarrow> nat \<Rightarrow> bool \<Rightarrow> errno + nat" where
  "sizeOptions [] sz ended = Inr sz"
| "sizeOptions (o1 # os) sz ended =
     (if ended then Inl EINVAL
      else if opt_kind o1 = TCPHeaderOptionEnd \<or> opt_kind o1 = TCPHeaderOptionNOP then
        (if length (opt_data o1) \<noteq> 0 then Inl EINVAL
         else if sz + 1 > 40 then Inl EMSGSIZE
         else sizeOptions os (sz + 1) (opt_kind o1 = TCPHeaderOptionEnd))
      else if length (opt_data o1) > 253 then Inl EINVAL
      else if sz + (2 + length (opt_data o1)) > 40 then Inl EMSGSIZE
      else sizeOptions os (sz + (2 + length (opt_data o1))) ended)"

definition encodeOption :: "tcpHeaderOption \<Rightarrow> bytes" where
  "encodeOption o1 =
     (if opt_kind o1 = TCPHeaderOptionEnd \<or> opt_kind o1 = TCPHeaderOptionNOP then [opt_kind o1]
      else opt_kind o1 # of_nat (2 + length (opt_data o1)) # opt_data o1)"

definition setHeaderOptions :: "tcpHeaderOption list \<Rightarrow> errno + bytes" where
  "setHeaderOptions options =
     (case sizeOptions options 0 False of
        Inl e \<Rightarrow> Inl e
      | Inr sz \<Rightarrow> Inr (concat (map encodeOption options)))"

text \<open>\<open>tcpOptionsContentLength\<close>: the octets through an End option; \<open>Inl EINVAL\<close> is \<open>(0, false)\<close>.\<close>

function contentLengthFrom :: "bytes \<Rightarrow> nat \<Rightarrow> (errno + nat) option" where
  "contentLengthFrom options offset =
     (if offset < length options then do {
        kind \<leftarrow> go_index options offset;
        if kind = TCPHeaderOptionEnd then Some (Inr (offset + 1))
        else if kind = TCPHeaderOptionNOP then contentLengthFrom options (Suc offset)
        else if length options - offset < 2 then Some (Inl EINVAL)
        else do {
          l \<leftarrow> go_index options (offset + 1);
          if unat l < 2 \<or> unat l > length options - offset then Some (Inl EINVAL)
          else contentLengthFrom options (offset + unat l) } }
      else Some (Inr (length options)))"
  by pat_completeness auto
termination
  by (relation "measure (\<lambda>(options, offset). length options - offset)") auto

definition tcpOptionsContentLength :: "bytes \<Rightarrow> (errno + nat) option" where
  "tcpOptionsContentLength options = contentLengthFrom options 0"

declare headerOptionsFrom.simps [simp del] contentLengthFrom.simps [simp del]

section \<open>Writing options\<close>

text \<open>\<open>tcpPassiveSYNOptions\<close>; \<open>mss\<close> is a Go \<open>int\<close> of which the two low octets are written.\<close>

definition appendTCPTimestampOptions :: "bytes \<Rightarrow> u32 \<Rightarrow> u32 \<Rightarrow> bytes" where
  "appendTCPTimestampOptions dst value echo =
     dst @ [TCPHeaderOptionNOP, TCPHeaderOptionNOP, TCPHeaderOptionTimestamp, 10] @ be_put32 value @ be_put32 echo"

definition tcpTimestampOptions :: "u32 \<Rightarrow> u32 \<Rightarrow> bytes" where
  "tcpTimestampOptions value echo = appendTCPTimestampOptions [] value echo"

definition tcpPassiveSYNOptions :: "int \<Rightarrow> bool \<Rightarrow> bool \<Rightarrow> bool \<Rightarrow> u8 \<Rightarrow> u32 \<Rightarrow> u32 \<Rightarrow> bytes" where
  "tcpPassiveSYNOptions mss sack windowScaling timestamp scale timestampValue timestampEcho =
     (let options = [TCPHeaderOptionMSS, 4, of_int (mss div 256), of_int mss];
          options = (if sack then options @ [TCPHeaderOptionSACKPermitted, 2] else options);
          options = (if windowScaling then options @ [TCPHeaderOptionNOP, TCPHeaderOptionWindowScale, 3, scale] else options)
      in if timestamp
         then options @ [TCPHeaderOptionNOP, TCPHeaderOptionNOP, TCPHeaderOptionTimestamp, 10] @
                be_put32 timestampValue @ be_put32 timestampEcho
         else options)"

definition tcpSYNOptions :: "int \<Rightarrow> u8 \<Rightarrow> u32 \<Rightarrow> bytes" where
  "tcpSYNOptions mss scale timestamp = tcpPassiveSYNOptions mss True True True scale timestamp 0"

section \<open>The connection's parsers\<close>

text \<open>
  \<open>parseTCPOptions\<close>, \<open>parseTCPTimestamp\<close>, \<open>parseTCPDSACKOption\<close> and \<open>parseTCPSACKOptions\<close> write
  out the same walk over the option area: stop at End, skip NOP, stop at an option that is cut
  short or has an impossible length. \<open>walkOptions\<close> is that loop; \<open>body\<close> is what the parser does
  with an option of kind \<open>kind\<close> and length \<open>len\<close> at \<open>offset\<close>, and either goes on or returns.
\<close>

datatype 'a flow = Continue 'a | Return 'a

function walkOptions ::
  "(u8 \<Rightarrow> nat \<Rightarrow> nat \<Rightarrow> 'a \<Rightarrow> 'a flow option) \<Rightarrow> bytes \<Rightarrow> nat \<Rightarrow> 'a \<Rightarrow> 'a option" where
  "walkOptions body options offset st =
     (if offset < length options then do {
        kind \<leftarrow> go_index options offset;
        if kind = TCPHeaderOptionEnd then Some st
        else if kind = TCPHeaderOptionNOP then walkOptions body options (Suc offset) st
        else if length options - offset < 2 then Some st
        else do {
          l \<leftarrow> go_index options (offset + 1);
          if unat l < 2 \<or> unat l > length options - offset then Some st
          else do {
            r \<leftarrow> body kind offset (unat l) st;
            case r of Return st' \<Rightarrow> Some st'
            | Continue st' \<Rightarrow> walkOptions body options (offset + unat l) st' } } }
      else Some st)"
  by pat_completeness auto
termination
  by (relation "measure (\<lambda>(body, options, offset, st). length options - offset)") auto

declare walkOptions.simps [simp del]

record synOptions =
  so_mss :: int
  so_scale :: u8
  so_windowScaling :: bool
  so_sack :: bool
  so_timestamp :: bool
  so_timestampValue :: u32

definition synOptionBody :: "bytes \<Rightarrow> u8 \<Rightarrow> nat \<Rightarrow> nat \<Rightarrow> synOptions \<Rightarrow> synOptions flow option" where
  "synOptionBody options kind offset len st =
     (if kind = TCPHeaderOptionMSS then
        (if len = 4 then do {
           value \<leftarrow> read16 options (offset + 2);
           Some (Continue (if value \<noteq> 0 then st\<lparr>so_mss := int (unat value)\<rparr> else st)) }
         else Some (Continue st))
      else if kind = TCPHeaderOptionWindowScale then
        (if len = 3 then do {
           scale \<leftarrow> go_index options (offset + 2);
           Some (Continue (st\<lparr>so_windowScaling := True, so_scale := min scale 14\<rparr>)) }
         else Some (Continue st))
      else if kind = TCPHeaderOptionSACKPermitted then Some (Continue (st\<lparr>so_sack := (len = 2)\<rparr>))
      else if kind = TCPHeaderOptionTimestamp then
        (if len = 10 then do {
           value \<leftarrow> read32 options (offset + 2);
           Some (Continue (st\<lparr>so_timestamp := True, so_timestampValue := value\<rparr>)) }
         else Some (Continue st))
      else Some (Continue st))"

definition parseTCPOptions :: "bytes \<Rightarrow> int \<Rightarrow> int \<Rightarrow> synOptions option" where
  "parseTCPOptions options fallback localMaximum = do {
     st \<leftarrow> walkOptions (synOptionBody options) options 0
             \<lparr>so_mss = fallback, so_scale = 0, so_windowScaling = False, so_sack = False,
              so_timestamp = False, so_timestampValue = 0\<rparr>;
     Some (st\<lparr>so_mss := clampMSS (so_mss st) localMaximum\<rparr>) }"

text \<open>The result \<open>(0, 0, false)\<close> is \<open>None\<close> inside the outer option.\<close>

definition timestampBody :: "bytes \<Rightarrow> u8 \<Rightarrow> nat \<Rightarrow> nat \<Rightarrow> (u32 \<times> u32) option \<Rightarrow> (u32 \<times> u32) option flow option" where
  "timestampBody options kind offset len st =
     (if kind = TCPHeaderOptionTimestamp \<and> len = 10 then do {
        value \<leftarrow> read32 options (offset + 2);
        echo \<leftarrow> read32 options (offset + 6);
        Some (Return (Some (value, echo))) }
      else Some (Continue st))"

definition parseTCPTimestamp :: "bytes \<Rightarrow> (u32 \<times> u32) option option" where
  "parseTCPTimestamp options = walkOptions (timestampBody options) options 0 None"

text \<open>
  \<open>parseTCPDSACKOption\<close> returns a block and whether it is a valid report; both results of the
  source are kept.
\<close>

definition zeroBlock :: tcpSACKBlock where "zeroBlock = \<lparr>LeftEdge = 0, RightEdge = 0\<rparr>"

definition dsackBody ::
  "bytes \<Rightarrow> u32 \<Rightarrow> u32 \<Rightarrow> u32 \<Rightarrow> u8 \<Rightarrow> nat \<Rightarrow> nat \<Rightarrow> tcpSACKBlock \<times> bool \<Rightarrow> (tcpSACKBlock \<times> bool) flow option" where
  "dsackBody options acknowledged sendNext history kind offset len st =
     (if kind = TCPHeaderOptionSACK \<and> len \<ge> 10 \<and> (len - 2) mod 8 = 0 then do {
        left \<leftarrow> read32 options (offset + 2);
        right \<leftarrow> read32 options (offset + 6);
        let block = \<lparr>LeftEdge = left, RightEdge = right\<rparr>;
        if \<not> tcpSequenceLess left right then Some (Return (zeroBlock, False))
        else if tcpSequenceLessEqual right acknowledged
          then Some (Return (block, acknowledged - left \<le> history))
        else if len \<ge> 18 then do {
          secondLeft \<leftarrow> read32 options (offset + 10);
          secondRight \<leftarrow> read32 options (offset + 14);
          let leftDistance = secondLeft - acknowledged;
          let rightDistance = secondRight - acknowledged;
          let secondLength = secondRight - secondLeft;
          if leftDistance < rightDistance \<and> rightDistance \<le> sendNext - acknowledged \<and>
             left - secondLeft < secondLength \<and> right - secondLeft \<le> secondLength
          then Some (Return (block, True)) else Some (Return (zeroBlock, False)) }
        else Some (Return (zeroBlock, False)) }
      else Some (Continue st))"

definition parseTCPDSACKOption :: "bytes \<Rightarrow> u32 \<Rightarrow> u32 \<Rightarrow> u32 \<Rightarrow> (tcpSACKBlock \<times> bool) option" where
  "parseTCPDSACKOption options acknowledged sendNext history =
     walkOptions (dsackBody options acknowledged sendNext history) options 0 (zeroBlock, False)"

text \<open>
  \<open>parseTCPSACKOptions\<close>: the blocks of every SACK option that lie in the send window, sorted by
  their distance from the acknowledgement, then merged. An option area holds at most four blocks,
  for which \<open>sort.Slice\<close> is an insertion sort; \<open>sort_key\<close> is one too.
\<close>

fun windowBlocks :: "bytes \<Rightarrow> nat \<Rightarrow> nat \<Rightarrow> u32 \<Rightarrow> u32 \<Rightarrow> tcpSACKBlock list \<Rightarrow> tcpSACKBlock list option" where
  "windowBlocks options blockOffset 0 acknowledged window blocks = Some blocks"
| "windowBlocks options blockOffset (Suc n) acknowledged window blocks = do {
     left \<leftarrow> read32 options blockOffset;
     right \<leftarrow> read32 options (blockOffset + 4);
     let leftDistance = left - acknowledged;
     let rightDistance = right - acknowledged;
     windowBlocks options (blockOffset + 8) n acknowledged window
       (if leftDistance < rightDistance \<and> rightDistance \<le> window
        then blocks @ [\<lparr>LeftEdge = left, RightEdge = right\<rparr>] else blocks) }"

definition sackBody ::
  "bytes \<Rightarrow> u32 \<Rightarrow> u32 \<Rightarrow> u8 \<Rightarrow> nat \<Rightarrow> nat \<Rightarrow> tcpSACKBlock list \<Rightarrow> tcpSACKBlock list flow option" where
  "sackBody options acknowledged window kind offset len blocks =
     (if kind = TCPHeaderOptionSACK \<and> len \<ge> 10 \<and> (len - 2) mod 8 = 0 then do {
        blocks' \<leftarrow> windowBlocks options (offset + 2) ((len - 2) div 8) acknowledged window blocks;
        Some (Continue blocks') }
      else Some (Continue blocks))"

definition mergeBlock :: "tcpSACKBlock list \<Rightarrow> tcpSACKBlock \<Rightarrow> tcpSACKBlock list" where
  "mergeBlock merged block =
     (if merged = [] \<or> tcpSequenceLess (RightEdge (last merged)) (LeftEdge block) then merged @ [block]
      else if tcpSequenceGreater (RightEdge block) (RightEdge (last merged))
      then butlast merged @ [(last merged)\<lparr>RightEdge := RightEdge block\<rparr>]
      else merged)"

definition parseTCPSACKOptions :: "bytes \<Rightarrow> u32 \<Rightarrow> u32 \<Rightarrow> tcpSACKBlock list option" where
  "parseTCPSACKOptions options acknowledged sendNext = do {
     blocks \<leftarrow> walkOptions (sackBody options acknowledged (sendNext - acknowledged)) options 0 [];
     Some (foldl mergeBlock [] (sort_key (\<lambda>b. LeftEdge b - acknowledged) blocks)) }"

section \<open>The parsers never panic\<close>

lemma walk_end: "length options \<le> offset \<Longrightarrow> walkOptions body options offset st = Some st"
  by (subst walkOptions.simps) simp

definition optLen :: "bytes \<Rightarrow> nat \<Rightarrow> nat" where
  "optLen options offset = unat (options ! Suc offset)"

definition optFits :: "bytes \<Rightarrow> nat \<Rightarrow> bool" where
  "optFits options offset \<longleftrightarrow> Suc offset < length options \<and> 2 \<le> optLen options offset \<and>
     offset + optLen options offset \<le> length options"

lemma walk_step:
  "offset < length options \<Longrightarrow> walkOptions body options offset st =
     (if options ! offset = TCPHeaderOptionEnd then Some st
      else if options ! offset = TCPHeaderOptionNOP then walkOptions body options (Suc offset) st
      else if \<not> optFits options offset then Some st
      else case body (options ! offset) offset (optLen options offset) st of
          None \<Rightarrow> None
        | Some (Return st') \<Rightarrow> Some st'
        | Some (Continue st') \<Rightarrow> walkOptions body options (offset + optLen options offset) st')"
  by (subst walkOptions.simps)
    (auto simp: go_index_in optFits_def optLen_def split: option.splits flow.splits)

fun flow_val :: "'a flow \<Rightarrow> 'a" where
  "flow_val (Continue x) = x"
| "flow_val (Return x) = x"

text \<open>
  The contract between the walk and a parser's body: on an option that lies inside the option
  area the body reads only in range.  Totality of the walk and the transport of an invariant
  along it are proved once from this contract.
\<close>

locale option_parser =
  fixes options :: bytes
    and body :: "u8 \<Rightarrow> nat \<Rightarrow> nat \<Rightarrow> 'a \<Rightarrow> 'a flow option"
  assumes in_range: "2 \<le> len \<Longrightarrow> offset + len \<le> length options \<Longrightarrow> \<exists>r. body kind offset len st = Some r"
begin

lemma walk_total: "\<exists>st'. walkOptions body options offset st = Some st'"
proof (induction "length options - offset" arbitrary: offset st rule: less_induct)
  case less
  show ?case
  proof (cases "offset < length options \<and> optFits options offset")
    case True
    then obtain r where "body (options ! offset) offset (optLen options offset) st = Some r"
      using in_range [of "optLen options offset" offset] by (auto simp: optFits_def)
    moreover have "\<exists>st'. walkOptions body options (Suc offset) st = Some st'"
      by (rule less) (use True in linarith)
    moreover have "\<exists>st'. walkOptions body options (offset + optLen options offset) st1 = Some st'" for st1
      by (rule less) (use True in \<open>unfold optFits_def, linarith\<close>)
    ultimately show ?thesis using True by (cases r) (auto simp: walk_step)
  next
    case False
    moreover have "offset < length options \<Longrightarrow> \<exists>st'. walkOptions body options (Suc offset) st = Some st'"
      by (rule less) linarith
    ultimately show ?thesis by (cases "offset < length options") (auto simp: walk_step walk_end)
  qed
qed

lemma walk_invariant:
  assumes keeps: "\<And>kind offset len st r. P st \<Longrightarrow> 2 \<le> len \<Longrightarrow> offset + len \<le> length options \<Longrightarrow>
      body kind offset len st = Some r \<Longrightarrow> P (flow_val r)"
    and start: "P st" and walk: "walkOptions body options offset st = Some st'"
  shows "P st'"
  using start walk
proof (induction "length options - offset" arbitrary: offset st rule: less_induct)
  case less
  let ?l = "optLen options offset"
  show ?case
  proof (cases "offset < length options")
    case True
    have nop: "walkOptions body options (Suc offset) st = Some st' \<longrightarrow> P st'"
      using less.hyps [of "Suc offset" st] less.prems(1) True by (simp add: diff_less_mono2)
    have rec: "P st1 \<Longrightarrow> walkOptions body options (offset + ?l) st1 = Some st' \<Longrightarrow> optFits options offset \<Longrightarrow> P st'" for st1
      using less.hyps [of "offset + ?l" st1] True by (simp add: optFits_def diff_less_mono2)
    show ?thesis
    proof (cases "optFits options offset")
      case fits: True
      note k = keeps [OF less.prems(1), of ?l offset "options ! offset"]
      show ?thesis
        using less.prems nop rec [OF _ _ fits] k fits walk_step [OF True, of body st]
        by (fastforce simp: optFits_def split: if_splits option.splits flow.splits)
    next
      case False
      then show ?thesis using less.prems nop walk_step [OF True, of body st] by (auto split: if_splits)
    qed
  next
    case False
    then show ?thesis using less.prems by (simp add: walk_end)
  qed
qed
end

interpretation syn: option_parser options "synOptionBody options" for options
proof
  fix len offset :: nat and kind st
  assume "2 \<le> len" "offset + len \<le> length options"
  then show "\<exists>r. synOptionBody options kind offset len st = Some r"
    using read16_total [of "offset + 2" options] read32_total [of "offset + 2" options]
    by (auto simp: synOptionBody_def go_index_in)
qed

interpretation tsopt: option_parser options "timestampBody options" for options
proof
  fix len offset :: nat and kind st
  assume "2 \<le> len" "offset + len \<le> length options"
  then show "\<exists>r. timestampBody options kind offset len st = Some r"
    using read32_total [of "offset + 2" options] read32_total [of "offset + 6" options]
    by (auto simp: timestampBody_def)
qed

interpretation dsack: option_parser options "dsackBody options ack nxt hist" for options ack nxt hist
proof
  fix len offset :: nat and kind st
  assume "2 \<le> len" "offset + len \<le> length options"
  then show "\<exists>r. dsackBody options ack nxt hist kind offset len st = Some r"
    using read32_total [of "offset + 2" options] read32_total [of "offset + 6" options]
      read32_total [of "offset + 10" options] read32_total [of "offset + 14" options]
    by (auto simp: dsackBody_def Let_def)
qed

lemma windowBlocks_total: "off + 8 * n \<le> length options \<Longrightarrow> \<exists>bs. windowBlocks options off n ack w acc = Some bs"
proof (induction n arbitrary: off acc)
  case (Suc n)
  then show ?case using read32_total [of off options] read32_total [of "off + 4" options]
    by (auto simp: Let_def)
qed simp

interpretation sack: option_parser options "sackBody options ack w" for options ack w
proof
  fix len offset :: nat and kind st
  assume "2 \<le> len" "offset + len \<le> length options"
  moreover have "offset + 2 + 8 * ((len - 2) div 8) \<le> offset + len" if "2 \<le> len" using that by simp
  ultimately show "\<exists>r. sackBody options ack w kind offset len st = Some r"
    using windowBlocks_total [of "offset + 2" "(len - 2) div 8" options ack w st]
    by (auto simp: sackBody_def)
qed

lemma bind_total: "\<exists>x. m = Some x \<Longrightarrow> \<exists>y. Option.bind m (\<lambda>x. Some (f x)) = Some y"
  by auto

text \<open>
  No octet string received as a TCP option area makes one of the four option parsers panic,
  whatever the connection's sequence state.
\<close>

theorem option_parsers_never_panic:
  "(\<exists>r. parseTCPOptions options fallback localMaximum = Some r) \<and>
   (\<exists>r. parseTCPTimestamp options = Some r) \<and>
   (\<exists>r. parseTCPDSACKOption options ack nxt hist = Some r) \<and>
   (\<exists>r. parseTCPSACKOptions options ack nxt = Some r)"
  unfolding parseTCPOptions_def parseTCPTimestamp_def parseTCPDSACKOption_def parseTCPSACKOptions_def
  by (intro conjI tsopt.walk_total dsack.walk_total bind_total syn.walk_total sack.walk_total)

lemma parse_bounds:
  assumes "parseTCPOptions options fallback localMaximum = Some r"
  shows "so_scale r \<le> 14 \<and> so_mss r \<le> localMaximum \<and> (48 \<le> localMaximum \<longrightarrow> 48 \<le> so_mss r) \<and>
    (\<not> so_windowScaling r \<longrightarrow> so_scale r = 0) \<and> (\<not> so_timestamp r \<longrightarrow> so_timestampValue r = 0)"
proof -
  let ?P = "\<lambda>st. so_scale st \<le> 14 \<and> (\<not> so_windowScaling st \<longrightarrow> so_scale st = 0) \<and> (\<not> so_timestamp st \<longrightarrow> so_timestampValue st = 0)"
  have keeps: "?P (flow_val r)" if "?P st" "synOptionBody options kind offset len st = Some r" for kind offset len st r
    using that by (auto simp: synOptionBody_def Option.bind_eq_Some_conv split: if_splits)
  obtain st where st: "walkOptions (synOptionBody options) options 0
       \<lparr>so_mss = fallback, so_scale = 0, so_windowScaling = False, so_sack = False,
              so_timestamp = False, so_timestampValue = 0\<rparr> = Some st"
     and r: "r = st\<lparr>so_mss := clampMSS (so_mss st) localMaximum\<rparr>"
    using assms by (auto simp: parseTCPOptions_def Option.bind_eq_Some_conv)
  have "?P st" by (rule syn.walk_invariant [OF _ _ st]) (use keeps in \<open>auto\<close>)
  then show ?thesis by (auto simp: r clampMSS_def tcpMinimumPeerMSS_def Let_def)
qed

text \<open>
  Whatever the peer sends, the negotiated window scale is at most 14, the send MSS is at most
  the local maximum and at least 48 octets when the local maximum allows it, and the values that
  belong to options that were not seen are zero.
\<close>

theorem parseTCPOptions_bounds:
  assumes "parseTCPOptions options fallback localMaximum = Some r"
  shows "so_scale r \<le> 14 \<and> so_mss r \<le> localMaximum \<and> (48 \<le> localMaximum \<longrightarrow> 48 \<le> so_mss r) \<and>
    (\<not> so_windowScaling r \<longrightarrow> so_scale r = 0) \<and> (\<not> so_timestamp r \<longrightarrow> so_timestampValue r = 0)"
  using assms by (rule parse_bounds)

theorem parseTCPOptions_bounds_witness:
  "parseTCPOptions [2, 4, 0, 1, 3, 3, 200] 536 1460 = Some
     \<lparr>so_mss = 48, so_scale = 14, so_windowScaling = True, so_sack = False, so_timestamp = False,
      so_timestampValue = 0\<rparr> \<and> (48 :: int) \<le> 1460"
proof -
  have e: "parseTCPOptions [2, 4, 0, 1, 3, 3, 200] 536 1460 = Some
     \<lparr>so_mss = 48, so_scale = 14, so_windowScaling = True, so_sack = False, so_timestamp = False,
      so_timestampValue = 0\<rparr>"
    by code_simp
  then show ?thesis using parseTCPOptions_bounds [OF e] by simp
qed

section \<open>Round trips\<close>

lemma be_put16_of_int: "be_put16 (of_int m) = [of_int (m div 256), of_int m]"
proof -
  have "ucast (drop_bit 8 (of_int m :: u16)) = (of_int (m div 256) :: u8)"
    by (rule bit_word_eqI) (simp add: bit_simps bit_of_int_iff  div_exp_eq flip: drop_bit_eq_div[of 8 m, simplified])
  moreover have "ucast (of_int m :: u16) = (of_int m :: u8)"
    by (rule bit_word_eqI) (simp add: bit_simps)
  ultimately show ?thesis by (simp add: be_put16_def)
qed

lemma join16_of_int: "join16 (of_int (m div 256)) (of_int m) = of_int m"
  using be_get16_put [of "of_int m" "[]"] by (simp add: be_put16_of_int)

lemma parse_passive:
  assumes "1 \<le> mss" "mss \<le> 65535"
  shows "parseTCPOptions (tcpPassiveSYNOptions mss sack ws ts scale v e) fb mx = Some
     \<lparr>so_mss = clampMSS mss mx, so_scale = (if ws then min scale 14 else 0), so_windowScaling = ws, so_sack = sack,
      so_timestamp = ts, so_timestampValue = (if ts then v else 0)\<rparr>"
proof -
  have u: "unat (of_int mss :: u16) = nat mss"
    using assms by (simp add: unsigned_of_int nat_take_bit_eq take_bit_int_eq_self)
  have nz: "(of_int mss :: u16) \<noteq> 0"
  proof
    assume "(of_int mss :: u16) = 0"
    with u assms show False by simp
  qed
  show ?thesis
    using u nz assms
    by (cases sack; cases ws; cases ts)
      (simp_all add: parseTCPOptions_def tcpPassiveSYNOptions_def Let_def walk_step walk_end optFits_def optLen_def
        synOptionBody_def tcp_option_kinds read16_def read32_def go_slice_def go_index_def be_put32_def
        join16_of_int join32_split)
qed

text \<open>
  The options this stack writes on a SYN are read back by its own parser as the values they
  were written from, for every combination of offered options.
\<close>

theorem parse_passive_syn_options:
  assumes "1 \<le> mss" "mss \<le> 65535"
  shows "parseTCPOptions (tcpPassiveSYNOptions mss sack ws ts scale v e) fb mx = Some
     \<lparr>so_mss = clampMSS mss mx, so_scale = (if ws then min scale 14 else 0), so_windowScaling = ws, so_sack = sack,
      so_timestamp = ts, so_timestampValue = (if ts then v else 0)\<rparr>"
  using assms by (rule parse_passive)

theorem parse_passive_syn_options_witness:
  "(1 :: int) \<le> 1460 \<and> (1460 :: int) \<le> 65535 \<and>
   parseTCPOptions (tcpPassiveSYNOptions 1460 True True True 7 5 6) 536 1400 = Some
     \<lparr>so_mss = 1400, so_scale = 7, so_windowScaling = True, so_sack = True,
      so_timestamp = True, so_timestampValue = 5\<rparr>"
  using parse_passive_syn_options [of 1460 True True True 7 5 6 536 1400]
  by (simp add: clampMSS_def tcpMinimumPeerMSS_def Let_def min_def)

lemma encodeOption_short:
  "opt_kind o1 = TCPHeaderOptionEnd \<or> opt_kind o1 = TCPHeaderOptionNOP \<Longrightarrow> encodeOption o1 = [opt_kind o1]"
  by (simp add: encodeOption_def)

lemma length_encodeOption: "length (encodeOption o1) =
   (if opt_kind o1 = TCPHeaderOptionEnd \<or> opt_kind o1 = TCPHeaderOptionNOP then 1 else 2 + length (opt_data o1))"
  by (simp add: encodeOption_def)

lemma sizeOptions_total:
  "sizeOptions os n e = Inr m \<Longrightarrow> n \<le> 40 \<Longrightarrow> m = n + length (concat (map encodeOption os)) \<and> m \<le> 40"
proof (induction os n e rule: sizeOptions.induct)
  case (2 o1 os n e)
  then show ?case by (auto simp: length_encodeOption split: if_splits)
qed simp

lemma headerOptionsFrom_end: "length options \<le> offset \<Longrightarrow> headerOptionsFrom options offset acc = Some (Inr acc)"
  by (subst headerOptionsFrom.simps) simp

lemma headerOptionsFrom_encode:
  "sizeOptions os n False = Inr m \<Longrightarrow>
   headerOptionsFrom (p @ concat (map encodeOption os)) (length p) acc = Some (Inr (acc @ os))"
proof (induction os arbitrary: n p acc)
  case Nil
  then show ?case by (simp add: headerOptionsFrom_end)
next
  case (Cons o1 os)
  let ?d = "opt_data o1" and ?k = "opt_kind o1"
  let ?all = "p @ concat (map encodeOption (o1 # os))"
  have IH: "sizeOptions os n' False = Inr m \<Longrightarrow>
     headerOptionsFrom ?all (length (p @ encodeOption o1)) (acc @ [o1]) = Some (Inr (acc @ o1 # os))" for n'
    using Cons.IH [of n' "p @ encodeOption o1" "acc @ [o1]"] by simp
  have k: "go_index ?all (length p) = Some ?k"
    by (simp add: go_index_def nth_append encodeOption_def)
  consider (stop) "?k = TCPHeaderOptionEnd" | (nop) "?k = TCPHeaderOptionNOP" "?k \<noteq> TCPHeaderOptionEnd"
    | (tlv) "?k \<noteq> TCPHeaderOptionEnd" "?k \<noteq> TCPHeaderOptionNOP" by blast
  then show ?case
  proof cases
    case stop
    then have "os = []" "?d = []" using Cons.prems by (cases os; auto split: if_splits)+
    then show ?thesis using stop k
      by (subst headerOptionsFrom.simps) (simp add: encodeOption_def)
  next
    case nop
    then have d: "?d = []" and sz: "sizeOptions os (n + 1) False = Inr m"
      using Cons.prems by (auto split: if_splits)
    have o1: "o1 = \<lparr>opt_kind = TCPHeaderOptionNOP, opt_data = []\<rparr>" using nop d by simp
    show ?thesis using nop k IH [OF sz]
      by (subst headerOptionsFrom.simps) (simp add: o1 encodeOption_def)
  next
    case tlv
    then have d: "length ?d \<le> 253" and sz: "sizeOptions os (n + (2 + length ?d)) False = Inr m"
      using Cons.prems by (auto split: if_splits)
    have "unat (of_nat (2 + length ?d) :: u8) = 2 + length ?d"
      using d by (simp only: unat_of_nat) (simp add: take_bit_nat_eq_self)
    then have l: "tcpHeaderOptionLength (drop (length p) ?all) = 2 + length ?d"
      using tlv by (simp del: of_nat_add add: tcpHeaderOptionLength_def encodeOption_def Let_def)
    have sl: "go_slice ?all (length p + 2) (length p + (2 + length ?d)) = Some ?d"
      using tlv by (simp add: go_slice_def encodeOption_def)
    show ?thesis using tlv k l sl IH [OF sz]
      by (subst headerOptionsFrom.simps) (cases o1, simp add: encodeOption_def Let_def)
  qed
qed

text \<open>
  C25: an option list accepted by \<open>SetHeaderOptions\<close> is read back unchanged by \<open>HeaderOptions\<close>.
\<close>

theorem headerOptions_setHeaderOptions:
  assumes "setHeaderOptions os = Inr bs"
  shows "headerOptions bs = Some (Inr os)"
proof -
  obtain m where m: "sizeOptions os 0 False = Inr m" and bs: "bs = concat (map encodeOption os)"
    using assms by (auto simp: setHeaderOptions_def split: sum.splits)
  have "length bs \<le> 40" using sizeOptions_total [OF m] bs by simp
  then show ?thesis using headerOptionsFrom_encode [OF m, of "[]" "[]"] bs by (simp add: headerOptions_def)
qed

theorem headerOptions_setHeaderOptions_witness:
  "setHeaderOptions [\<lparr>opt_kind = 1, opt_data = []\<rparr>, \<lparr>opt_kind = 3, opt_data = [7]\<rparr>] = Inr [1, 3, 3, 7] \<and>
   headerOptions [1, 3, 3, 7] = Some (Inr [\<lparr>opt_kind = 1, opt_data = []\<rparr>, \<lparr>opt_kind = 3, opt_data = [7]\<rparr>])"
proof -
  have e: "setHeaderOptions [\<lparr>opt_kind = 1, opt_data = []\<rparr>, \<lparr>opt_kind = 3, opt_data = [7]\<rparr>] = Inr [1, 3, 3, 7]"
    by code_simp
  then show ?thesis using headerOptions_setHeaderOptions [OF e] by simp
qed

lemma contentLengthFrom_end: "length options \<le> offset \<Longrightarrow> contentLengthFrom options offset = Some (Inr (length options))"
  by (subst contentLengthFrom.simps) simp

lemma headerOptionsFrom_decode:
  "headerOptionsFrom options offset acc = Some (Inr result) \<Longrightarrow> offset \<le> length options \<Longrightarrow> length options \<le> 40 \<Longrightarrow>
   \<exists>os n. result = acc @ os \<and> contentLengthFrom options offset = Some (Inr n) \<and> offset \<le> n \<and> n \<le> length options \<and>
     concat (map encodeOption os) = take (n - offset) (drop offset options) \<and> (\<exists>m. sizeOptions os offset False = Inr m)"
proof (induction options offset acc rule: headerOptionsFrom.induct)
  case (1 options offset acc)
  show ?case
  proof (cases "offset < length options")
    case False
    then show ?thesis using 1 by (intro exI [of _ "[]"] exI [of _ "length options"])
      (simp add: headerOptionsFrom_end contentLengthFrom_end)
  next
    case True
    let ?k = "options ! offset" and ?l = "unat (options ! Suc offset)"
    have k: "go_index options offset = Some ?k" using True by (simp add: go_index_in)
    have dc: "drop offset options = ?k # drop (Suc offset) options" using True by (simp add: Cons_nth_drop_Suc)
    consider (stop) "?k = TCPHeaderOptionEnd" | (nop) "?k = TCPHeaderOptionNOP" "?k \<noteq> TCPHeaderOptionEnd"
      | (tlv) "?k \<noteq> TCPHeaderOptionEnd" "?k \<noteq> TCPHeaderOptionNOP" by blast
    then show ?thesis
    proof cases
      case stop
      then have r: "result = acc @ [\<lparr>opt_kind = ?k, opt_data = []\<rparr>]" 
        using "1.prems" True k by (subst (asm) headerOptionsFrom.simps) simp
      have "contentLengthFrom options offset = Some (Inr (offset + 1))" 
        using stop True k by (subst contentLengthFrom.simps) simp
      then show ?thesis using r stop True "1.prems"(3) dc
        by (intro exI [of _ "[\<lparr>opt_kind = ?k, opt_data = []\<rparr>]"] exI [of _ "offset + 1"])
          (auto simp: encodeOption_def)
    next
      case nop
      then have h: "headerOptionsFrom options (Suc offset) (acc @ [\<lparr>opt_kind = ?k, opt_data = []\<rparr>]) = Some (Inr result)"
        using "1.prems" True k by (subst (asm) headerOptionsFrom.simps) simp
      obtain os n where os: "result = (acc @ [\<lparr>opt_kind = ?k, opt_data = []\<rparr>]) @ os" 
          "contentLengthFrom options (Suc offset) = Some (Inr n)" "Suc offset \<le> n" "n \<le> length options"
          "concat (map encodeOption os) = take (n - Suc offset) (drop (Suc offset) options)" 
          "\<exists>m. sizeOptions os (Suc offset) False = Inr m"
        using "1.IH"(1) [OF True k nop(2,1) h] True "1.prems"(3) by auto
      have "contentLengthFrom options offset = Some (Inr n)" 
        using nop True k os(2) by (subst contentLengthFrom.simps) simp
      moreover have "n - offset = Suc (n - Suc offset)" using os(3) by simp
      ultimately show ?thesis using os nop True "1.prems"(3) dc
        by (intro exI [of _ "\<lparr>opt_kind = ?k, opt_data = []\<rparr> # os"] exI [of _ n]) (auto simp: encodeOption_short)
    next
      case tlv
      have len: "tcpHeaderOptionLength (drop offset options) \<noteq> 0"
        using "1.prems" True k tlv by (subst (asm) headerOptionsFrom.simps) (auto simp: Let_def split: if_splits)
      then have fit: "Suc offset < length options" "2 \<le> ?l" "offset + ?l \<le> length options"
          "tcpHeaderOptionLength (drop offset options) = ?l"
        by (auto simp: tcpHeaderOptionLength_def Let_def split: if_splits)
      let ?d = "take (?l - 2) (drop (offset + 2) options)"
      let ?o = "\<lparr>opt_kind = ?k, opt_data = ?d\<rparr>"
      have sl: "go_slice options (offset + 2) (offset + ?l) = Some ?d" using fit by (simp add: go_slice_def)
      have h: "headerOptionsFrom options (offset + ?l) (acc @ [?o]) = Some (Inr result)"
        using "1.prems" True k tlv len fit(4) sl by (subst (asm) headerOptionsFrom.simps) (simp add: Let_def)
      obtain os n where os: "result = (acc @ [?o]) @ os" 
          "contentLengthFrom options (offset + ?l) = Some (Inr n)" "offset + ?l \<le> n" "n \<le> length options"
          "concat (map encodeOption os) = take (n - (offset + ?l)) (drop (offset + ?l) options)" 
          "\<exists>m. sizeOptions os (offset + ?l) False = Inr m"
        using "1.IH"(2) [OF True k tlv refl len, unfolded fit(4), OF sl h] fit(3) "1.prems"(3) by auto
      have ld: "length ?d = ?l - 2" using fit by simp
      have enc: "encodeOption ?o = take ?l (drop offset options)"
      proof -
        have "drop (Suc offset) options = options ! Suc offset # drop (offset + 2) options" 
          using fit(1) by (simp add: Cons_nth_drop_Suc)
        moreover have "(of_nat (2 + (?l - 2)) :: u8) = options ! Suc offset" using fit(2) by (simp del: of_nat_add)
        ultimately show ?thesis using tlv ld dc fit(2)
          by (simp del: of_nat_add length_take add: encodeOption_def take_Cons' numeral_2_eq_2)
      qed
      have "contentLengthFrom options offset = Some (Inr n)" 
        using tlv True k os(2) fit by (subst contentLengthFrom.simps) (auto simp: go_index_in)
      moreover have "take (n - offset) (drop offset options) = take ?l (drop offset options) @ concat (map encodeOption os)"
        unfolding os(5) using take_drop_split [OF _ os(3), of offset options] by simp
      moreover have "Suc (Suc (offset + ?l - 2)) = offset + ?l" using fit(2) by simp
      ultimately show ?thesis using os tlv enc ld fit "1.prems"(3)
        by (intro exI [of _ "?o # os"] exI [of _ n]) auto
    qed
  qed
qed

text \<open>
  Encoding the options that \<open>HeaderOptions\<close> reads gives back the option area up to and
  including its End option, which is the prefix \<open>tcpOptionsContentLength\<close> measures.
\<close>

theorem setHeaderOptions_headerOptions:
  assumes "headerOptions bs = Some (Inr os)"
  shows "\<exists>n. tcpOptionsContentLength bs = Some (Inr n) \<and> n \<le> length bs \<and> setHeaderOptions os = Inr (take n bs)"
proof -
  have l: "length bs \<le> 40" and h: "headerOptionsFrom bs 0 [] = Some (Inr os)"
    using assms by (auto simp: headerOptions_def split: if_splits)
  show ?thesis using headerOptionsFrom_decode [OF h _ l]
    by (auto simp: tcpOptionsContentLength_def setHeaderOptions_def)
qed

theorem setHeaderOptions_headerOptions_witness:
  "headerOptions [3, 3, 7, 0, 9] = Some (Inr [\<lparr>opt_kind = 3, opt_data = [7]\<rparr>, \<lparr>opt_kind = 0, opt_data = []\<rparr>]) \<and>
   (\<exists>n. tcpOptionsContentLength [3, 3, 7, 0, 9] = Some (Inr n) \<and> n \<le> 5 \<and>
     setHeaderOptions [\<lparr>opt_kind = 3, opt_data = [7]\<rparr>, \<lparr>opt_kind = 0, opt_data = []\<rparr>] = Inr (take n [3, 3, 7, 0, 9]))"
proof -
  have e: "headerOptions [3, 3, 7, 0, 9] = Some (Inr [\<lparr>opt_kind = 3, opt_data = [7]\<rparr>, \<lparr>opt_kind = 0, opt_data = []\<rparr>])"
    by code_simp
  then show ?thesis using setHeaderOptions_headerOptions [OF e] by (simp add: eval_nat_numeral)
qed

section \<open>SACK blocks\<close>

text \<open>
  A SACK block covers a set of octets, here their distances from the acknowledgement number;
  \<open>separated\<close> says that the blocks of a list are in order with a gap between any two.
\<close>

definition blockOff :: "u32 \<Rightarrow> tcpSACKBlock \<Rightarrow> nat set" where
  "blockOff a b = {unat (LeftEdge b - a) ..< unat (RightEdge b - a)}"

definition blockIn :: "u32 \<Rightarrow> nat \<Rightarrow> tcpSACKBlock \<Rightarrow> bool" where
  "blockIn a w b \<longleftrightarrow> unat (LeftEdge b - a) < unat (RightEdge b - a) \<and> unat (RightEdge b - a) \<le> w"

definition separated :: "u32 \<Rightarrow> tcpSACKBlock list \<Rightarrow> bool" where
  "separated a bs \<longleftrightarrow> sorted_wrt (\<lambda>x y. unat (RightEdge x - a) < unat (LeftEdge y - a)) bs"

lemma mergeBlock_step:
  assumes w: "w < 2147483648" and m: "\<forall>b \<in> set ms. blockIn a w b" "separated a ms" and b: "blockIn a w b"
    and le: "ms \<noteq> [] \<Longrightarrow> unat (LeftEdge (last ms) - a) \<le> unat (LeftEdge b - a)"
  shows "(\<forall>x \<in> set (mergeBlock ms b). blockIn a w x) \<and> separated a (mergeBlock ms b) \<and>
    (\<Union>x \<in> set (mergeBlock ms b). blockOff a x) = (\<Union>x \<in> set ms. blockOff a x) \<union> blockOff a b \<and>
    mergeBlock ms b \<noteq> [] \<and> unat (LeftEdge (last (mergeBlock ms b)) - a) \<le> unat (LeftEdge b - a)"
proof (cases "ms = []")
  case True
  then show ?thesis using b by (simp add: mergeBlock_def separated_def)
next
  case False
  then obtain ns l where ms: "ms = ns @ [l]" by (metis rev_exhaust)
  have l: "blockIn a w l" and ns: "\<forall>x \<in> set ns. blockIn a w x" "separated a ns" 
    "\<forall>x \<in> set ns. unat (RightEdge x - a) < unat (LeftEdge l - a)"
    using m ms by (auto simp: separated_def sorted_wrt_append)
  have ll: "unat (LeftEdge l - a) \<le> unat (LeftEdge b - a)" using le False ms by simp
  have L: "tcpSequenceLess (RightEdge l) (LeftEdge b) \<longleftrightarrow> unat (RightEdge l - a) < unat (LeftEdge b - a)"
    using l b w by (intro less_off) (auto simp: blockIn_def)
  have G: "tcpSequenceGreater (RightEdge b) (RightEdge l) \<longleftrightarrow> unat (RightEdge l - a) < unat (RightEdge b - a)"
    using l b w by (intro greater_off) (auto simp: blockIn_def)
  consider (apart) "unat (RightEdge l - a) < unat (LeftEdge b - a)"
    | (grow) "\<not> unat (RightEdge l - a) < unat (LeftEdge b - a)" "unat (RightEdge l - a) < unat (RightEdge b - a)"
    | (inside) "\<not> unat (RightEdge l - a) < unat (LeftEdge b - a)" "\<not> unat (RightEdge l - a) < unat (RightEdge b - a)" by blast
  then show ?thesis
  proof cases
    case apart
    have "mergeBlock ms b = ns @ [l, b]" using apart L ms by (simp add: mergeBlock_def)
    moreover have "\<forall>x \<in> set ns. unat (RightEdge x - a) < unat (LeftEdge b - a)" using ns(3) ll by (meson order_less_le_trans)
    ultimately show ?thesis using ns l b apart by (auto simp: separated_def sorted_wrt_append ms)
  next
    case grow
    have e: "mergeBlock ms b = ns @ [l\<lparr>RightEdge := RightEdge b\<rparr>]" using grow L G ms by (simp add: mergeBlock_def)
    have "blockOff a (l\<lparr>RightEdge := RightEdge b\<rparr>) = blockOff a l \<union> blockOff a b"
      using grow ll l b by (auto simp: blockOff_def blockIn_def)
    then show ?thesis using ns l b grow ll e by (auto simp: separated_def sorted_wrt_append ms blockIn_def)
  next
    case inside
    have "mergeBlock ms b = ms" using inside L G ms False by (simp add: mergeBlock_def)
    moreover have "blockOff a b \<subseteq> blockOff a l" using inside ll by (auto simp: blockOff_def)
    ultimately show ?thesis using m ll ms by auto
  qed
qed

lemma merge_all:
  assumes w: "w < 2147483648" and b: "\<forall>b \<in> set bs. blockIn a w b" "sorted (map (\<lambda>b. LeftEdge b - a) bs)"
    and m: "\<forall>b \<in> set ms. blockIn a w b" "separated a ms"
    and le: "ms \<noteq> [] \<Longrightarrow> \<forall>b \<in> set bs. unat (LeftEdge (last ms) - a) \<le> unat (LeftEdge b - a)"
  shows "(\<forall>x \<in> set (foldl mergeBlock ms bs). blockIn a w x) \<and> separated a (foldl mergeBlock ms bs) \<and>
    (\<Union>x \<in> set (foldl mergeBlock ms bs). blockOff a x) = (\<Union>x \<in> set ms. blockOff a x) \<union> (\<Union>x \<in> set bs. blockOff a x)"
  using b m le
proof (induction bs arbitrary: ms)
  case (Cons b bs)
  have st: "(\<forall>x \<in> set (mergeBlock ms b). blockIn a w x) \<and> separated a (mergeBlock ms b) \<and>
    (\<Union>x \<in> set (mergeBlock ms b). blockOff a x) = (\<Union>x \<in> set ms. blockOff a x) \<union> blockOff a b \<and>
    mergeBlock ms b \<noteq> [] \<and> unat (LeftEdge (last (mergeBlock ms b)) - a) \<le> unat (LeftEdge b - a)"
    using Cons.prems by (intro mergeBlock_step [OF w]) auto
  have "\<forall>x \<in> set bs. unat (LeftEdge (last (mergeBlock ms b)) - a) \<le> unat (LeftEdge x - a)"
    using st Cons.prems(2) by (auto simp: word_le_nat_alt intro: le_trans)
  with st have "(\<forall>x \<in> set (foldl mergeBlock (mergeBlock ms b) bs). blockIn a w x) \<and> 
     separated a (foldl mergeBlock (mergeBlock ms b) bs) \<and>
    (\<Union>x \<in> set (foldl mergeBlock (mergeBlock ms b) bs). blockOff a x) = 
    (\<Union>x \<in> set (mergeBlock ms b). blockOff a x) \<union> (\<Union>x \<in> set bs. blockOff a x)"
    using Cons.prems by (intro Cons.IH) auto
  then show ?case using st by (simp add: Un_assoc)
qed simp

lemma windowBlocks_in:
  "windowBlocks options off n a w acc = Some bs \<Longrightarrow> \<forall>b \<in> set acc. blockIn a (unat w) b \<Longrightarrow> \<forall>b \<in> set bs. blockIn a (unat w) b"
proof (induction n arbitrary: off acc)
  case (Suc n)
  obtain l r where lr: "read32 options off = Some l" "read32 options (off + 4) = Some r"
    using Suc.prems(1) by (auto simp: Option.bind_eq_Some_conv)
  show ?case
    by (rule Suc.IH [of "off + 8" "if l - a < r - a \<and> r - a \<le> w then acc @ [\<lparr>LeftEdge = l, RightEdge = r\<rparr>] else acc"])
      (use Suc.prems lr in \<open>auto simp: Let_def blockIn_def word_less_nat_alt word_le_nat_alt split: if_splits\<close>)
qed simp

lemma walk_sackBody_in:
  assumes "walkOptions (sackBody options a w) options offset [] = Some raw"
  shows "\<forall>b \<in> set raw. blockIn a (unat w) b"
proof (rule sack.walk_invariant [OF _ _ assms])
  fix kind offset len st r
  assume "\<forall>b \<in> set st. blockIn a (unat w) b" "sackBody options a w kind offset len st = Some r"
  then show "\<forall>b \<in> set (flow_val r). blockIn a (unat w) b"
    by (auto simp: sackBody_def Option.bind_eq_Some_conv dest!: windowBlocks_in split: if_splits)
qed simp

lemma sack_canonical:
  assumes "unat (nxt - a) < 2 ^ 31" "parseTCPSACKOptions options a nxt = Some bs"
  shows "(\<forall>b \<in> set bs. blockIn a (unat (nxt - a)) b) \<and> separated a bs \<and>
    (\<exists>raw. walkOptions (sackBody options a (nxt - a)) options 0 [] = Some raw \<and>
       (\<Union>b \<in> set bs. blockOff a b) = (\<Union>b \<in> set raw. blockOff a b))"
proof -
  obtain raw where raw: "walkOptions (sackBody options a (nxt - a)) options 0 [] = Some raw"
    and bs: "bs = foldl mergeBlock [] (sort_key (\<lambda>b. LeftEdge b - a) raw)"
    using assms(2) by (auto simp: parseTCPSACKOptions_def Option.bind_eq_Some_conv)
  have "(\<forall>x \<in> set bs. blockIn a (unat (nxt - a)) x) \<and> separated a bs \<and>
    (\<Union>x \<in> set bs. blockOff a x) = (\<Union>x \<in> set []. blockOff a x) \<union>
      (\<Union>x \<in> set (sort_key (\<lambda>b. LeftEdge b - a) raw). blockOff a x)"
    unfolding bs
    by (rule merge_all) (use assms(1) walk_sackBody_in [OF raw] in \<open>auto simp: separated_def\<close>)
  then show ?thesis using raw by auto
qed

text \<open>
  The SACK blocks handed to the scoreboard lie in the send window, are sorted with a gap
  between neighbours, and cover exactly the octets of the blocks in the option that lie in the
  window.
\<close>

theorem parseTCPSACKOptions_canonical:
  assumes "unat (nxt - a) < 2 ^ 31" "parseTCPSACKOptions options a nxt = Some bs"
  shows "(\<forall>b \<in> set bs. blockIn a (unat (nxt - a)) b) \<and> separated a bs \<and>
    (\<exists>raw. walkOptions (sackBody options a (nxt - a)) options 0 [] = Some raw \<and>
       (\<Union>b \<in> set bs. blockOff a b) = (\<Union>b \<in> set raw. blockOff a b))"
  using assms by (rule sack_canonical)

theorem parseTCPSACKOptions_canonical_witness:
  "unat ((1000 :: u32) - 100) < 2 ^ 31 \<and>
   parseTCPSACKOptions [5, 18, 0, 0, 1, 44, 0, 0, 1, 144, 0, 0, 1, 14, 0, 0, 1, 54] 100 1000 =
     Some [\<lparr>LeftEdge = 270, RightEdge = 400\<rparr>] \<and>
   blockIn 100 900 \<lparr>LeftEdge = 270, RightEdge = 400\<rparr>"
proof -
  have e: "parseTCPSACKOptions [5, 18, 0, 0, 1, 44, 0, 0, 1, 144, 0, 0, 1, 14, 0, 0, 1, 54] 100 1000 =
     Some [\<lparr>LeftEdge = 270, RightEdge = 400\<rparr>]"
    by code_simp
  have w: "unat ((1000 :: u32) - 100) < 2 ^ 31" by simp
  show ?thesis using parseTCPSACKOptions_canonical [OF w e] e by simp
qed

end
