(* ===== verification/Tcp_Buffers.thy ===== *)
theory Tcp_Buffers
  imports Prelude
begin

text \<open>
  The two byte deques of a TCP connection in \<^verbatim>\<open>src/tcp.go\<close>: \<open>tcpReadBuffer\<close> (lines 3782 to
  3875), which holds received payloads until the application reads them, and \<open>tcpSendBuffer\<close>
  (lines 3877 to 4070), which holds written bytes until they are acknowledged and hands out
  scatter views of them for transmission.

  Both promise the same thing, stated by the locale \<open>byte_queue\<close>: the live bytes form a stream,
  \<open>append\<close> adds at its end and consuming removes from its front. The read buffer adds that \<open>read\<close>
  returns the bytes it removes, the send buffer that a view shows the bytes at an offset.

  An operation of the model returns \<open>None\<close> where the source would panic. What a slice's capacity
  becomes when \<open>append\<close> reallocates is the Go run time's choice; it is the parameter \<open>grow\<close>.
\<close>

section \<open>The receive buffer\<close>

definition tcpReadChunkRetain :: nat where "tcpReadChunkRetain = 64"

text \<open>\<open>rb_cap\<close> is \<open>cap(b.chunks)\<close>; a released chunk (\<open>nil\<close>) is the empty list.\<close>

record tcpReadBuffer =
  rb_chunks :: "bytes list"
  rb_cap :: nat
  rb_head :: nat
  rb_size :: int

definition rb_empty :: tcpReadBuffer where
  "rb_empty = \<lparr>rb_chunks = [], rb_cap = 0, rb_head = 0, rb_size = 0\<rparr>"

definition rb_compact :: "tcpReadBuffer \<Rightarrow> tcpReadBuffer" where
  "rb_compact b =
     (if rb_head b \<noteq> 0 \<and> length (rb_chunks b) = rb_cap b
      then b\<lparr>rb_chunks := drop (rb_head b) (rb_chunks b), rb_head := 0\<rparr> else b)"

definition rb_append :: "(nat \<Rightarrow> nat) \<Rightarrow> tcpReadBuffer \<Rightarrow> bytes \<Rightarrow> tcpReadBuffer" where
  "rb_append grow b payload =
     (if payload = [] then b
      else let b = rb_compact b in
        b\<lparr>rb_chunks := rb_chunks b @ [payload],
          rb_cap := (if length (rb_chunks b) < rb_cap b then rb_cap b else grow (length (rb_chunks b) + 1)),
          rb_size := rb_size b + int (length payload)\<rparr>)"

definition rb_reset :: "tcpReadBuffer \<Rightarrow> tcpReadBuffer" where
  "rb_reset b = b\<lparr>rb_chunks := [], rb_cap := (if rb_cap b > tcpReadChunkRetain then 0 else rb_cap b),
     rb_head := 0, rb_size := 0\<rparr>"

text \<open>
  The loop of \<open>read\<close>: \<open>out\<close> is what has been copied to the destination, \<open>recycled\<close> the chunks
  handed to the \<open>recycle\<close> callback.
\<close>

function rb_readLoop ::
  "nat \<Rightarrow> bytes \<Rightarrow> bytes list \<Rightarrow> tcpReadBuffer \<Rightarrow> (bytes \<times> bytes list \<times> tcpReadBuffer) option" where
  "rb_readLoop maximum out recycled b =
     (if length out < maximum then
        if rb_head b < length (rb_chunks b) then
          let chunk = rb_chunks b ! rb_head b;
              n = min (maximum - length out) (length chunk);
              b' = b\<lparr>rb_size := rb_size b - int n\<rparr>
          in if n = length chunk
             then rb_readLoop maximum (out @ chunk) (recycled @ [chunk])
                    (b'\<lparr>rb_chunks := (rb_chunks b)[rb_head b := []], rb_head := rb_head b + 1\<rparr>)
             else rb_readLoop maximum (out @ take n chunk) recycled
                    (b'\<lparr>rb_chunks := (rb_chunks b)[rb_head b := drop n chunk]\<rparr>)
        else None
      else Some (out, recycled, b))"
  by pat_completeness auto
termination
  by (relation "measure (\<lambda>(maximum, out, recycled, b). (length (rb_chunks b) - rb_head b) + (maximum - length out))") auto

declare rb_readLoop.simps [simp del]

definition rb_read :: "tcpReadBuffer \<Rightarrow> nat \<Rightarrow> nat \<Rightarrow> (bytes \<times> bytes list \<times> tcpReadBuffer) option" where
  "rb_read b destination maximum =
     (let maximum = (if maximum > destination then destination else maximum);
          maximum = (if int maximum > rb_size b then nat (rb_size b) else maximum)
      in do {
        (out, recycled, b) \<leftarrow> rb_readLoop maximum [] [] b;
        Some (out, recycled, if rb_size b = 0 then rb_reset b else b) })"

definition rb_take :: "tcpReadBuffer \<Rightarrow> nat \<Rightarrow> (bytes \<times> bool \<times> tcpReadBuffer) option" where
  "rb_take b maximum = do {
     first \<leftarrow> go_index (rb_chunks b) (rb_head b);
     let complete = (length first \<le> maximum);
     let chunk = (if length first > maximum then take maximum first else first);
     let b = b\<lparr>rb_size := rb_size b - int (length chunk)\<rparr>;
     let b = (if length chunk = length first
              then b\<lparr>rb_chunks := (rb_chunks b)[rb_head b := []], rb_head := rb_head b + 1\<rparr>
              else b\<lparr>rb_chunks := (rb_chunks b)[rb_head b := drop (length chunk) first]\<rparr>);
     Some (chunk, complete, if rb_size b = 0 then rb_reset b else b) }"

section \<open>The send buffer\<close>

definition tcpSendCapacity :: nat where "tcpSendCapacity = 256 * 1024"
definition tcpSendChunkInitial :: nat where "tcpSendChunkInitial = 2 * 1024"
definition tcpSendChunkMinimum :: nat where "tcpSendChunkMinimum = 16 * 1024"
definition tcpSendChunkMaximum :: nat where "tcpSendChunkMaximum = tcpSendCapacity"
definition tcpReusableSendChunkLimit :: nat where "tcpReusableSendChunkLimit = 32 * 1024"
definition tcpPayloadViewMaximumChunks :: nat where "tcpPayloadViewMaximumChunks = 5"

lemmas send_consts = tcpSendCapacity_def tcpSendChunkInitial_def tcpSendChunkMinimum_def
  tcpSendChunkMaximum_def tcpReusableSendChunkLimit_def tcpPayloadViewMaximumChunks_def

datatype sendReusable = Unseen | Released | Confirmed

text \<open>
  A chunk's \<open>storage\<close> always has its full capacity as length. The spare is kept as the backing
  array that \<open>storage[:cap(storage)]\<close> restores; \<open>None\<close> is \<open>nil\<close>.
\<close>

record tcpSendChunk =
  sc_storage :: bytes
  sc_start :: nat
  sc_end :: nat
  sc_streamStart :: u64

record tcpSendBuffer =
  sb_chunks :: "tcpSendChunk list"
  sb_spare :: "bytes option"
  sb_base :: u64
  sb_end :: u64
  sb_size :: int
  sb_reusableState :: sendReusable
  sb_limited :: bool

definition sb_clear :: tcpSendBuffer where
  "sb_clear = \<lparr>sb_chunks = [], sb_spare = None, sb_base = 0, sb_end = 0, sb_size = 0,
     sb_reusableState = Unseen, sb_limited = False\<rparr>"

definition spareCap :: "bytes option \<Rightarrow> nat" where
  "spareCap s = (case s of None \<Rightarrow> 0 | Some st \<Rightarrow> length st)"

definition sb_newCapacity :: "tcpSendBuffer \<Rightarrow> nat \<Rightarrow> nat" where
  "sb_newCapacity b capacity =
     (if sb_chunks b = [] \<and> capacity < tcpSendChunkMinimum then
        (if capacity < tcpSendChunkInitial then tcpSendChunkInitial else capacity)
      else if capacity < tcpSendChunkMinimum then tcpSendChunkMinimum
      else if capacity > tcpSendChunkMaximum then tcpSendChunkMaximum
      else capacity)"

definition sb_addChunk :: "tcpSendBuffer \<Rightarrow> nat \<Rightarrow> tcpSendBuffer" where
  "sb_addChunk b len =
     (let capacity = sb_newCapacity b len;
          useSpare = (sb_spare b \<noteq> None \<and> (sb_chunks b = [] \<or> spareCap (sb_spare b) \<ge> tcpSendChunkMinimum));
          storage = (if useSpare then the (sb_spare b) else []);
          b = (if useSpare then b\<lparr>sb_spare := None\<rparr> else b);
          b' = (if storage = [] \<and> capacity > tcpSendChunkInitial \<and> capacity \<le> tcpReusableSendChunkLimit \<and>
                   sb_reusableState b = Released
                then b\<lparr>sb_reusableState := Confirmed\<rparr> else b);
          storage = (if storage = [] then replicate capacity 0 else storage)
      in b'\<lparr>sb_chunks := sb_chunks b' @
             [\<lparr>sc_storage = storage, sc_start = 0, sc_end = 0, sc_streamStart = sb_end b'\<rparr>]\<rparr>)"

definition sb_room :: "tcpSendBuffer \<Rightarrow> nat \<Rightarrow> tcpSendBuffer" where
  "sb_room b len =
     (if sb_chunks b = [] \<or> sc_end (last (sb_chunks b)) = length (sc_storage (last (sb_chunks b)))
      then sb_addChunk b len else b)"

definition sb_fill :: "tcpSendBuffer \<Rightarrow> bytes \<Rightarrow> tcpSendBuffer" where
  "sb_fill b part =
     (let chunk = last (sb_chunks b); w = length part in
      b\<lparr>sb_chunks := butlast (sb_chunks b) @
          [chunk\<lparr>sc_storage := take (sc_end chunk) (sc_storage chunk) @ part @ drop (sc_end chunk + w) (sc_storage chunk),
                 sc_end := sc_end chunk + w\<rparr>],
        sb_end := sb_end b + of_nat w, sb_size := sb_size b + int w\<rparr>)"

function sb_append :: "tcpSendBuffer \<Rightarrow> bytes \<Rightarrow> tcpSendBuffer option" where
  "sb_append b payload =
     (if payload = [] then Some b
      else let b = sb_room b (length payload);
               chunk = last (sb_chunks b);
               written = min (length (sc_storage chunk) - sc_end chunk) (length payload)
           in if sc_end chunk > length (sc_storage chunk) then None
              else sb_append (sb_fill b (take written payload)) (drop written payload))"
  by pat_completeness auto

lemma sb_room_gap:
  assumes "0 < len"
  shows "sc_end (last (sb_chunks (sb_room b len))) \<noteq> length (sc_storage (last (sb_chunks (sb_room b len))))"
  using assms by (auto simp: sb_room_def sb_addChunk_def sb_newCapacity_def Let_def send_consts)

termination sb_append
proof (relation "measure (\<lambda>(b, payload). length payload)")
  fix b and payload :: bytes and x xa xb
  assume p: "payload \<noteq> []" and x: "x = sb_room b (length payload)" "xa = last (sb_chunks x)"
    "xb = min (length (sc_storage xa) - sc_end xa) (length payload)"
    and le: "\<not> length (sc_storage xa) < sc_end xa"
  have "sc_end xa \<noteq> length (sc_storage xa)"
    using sb_room_gap [of "length payload" b] p x by simp
  then have "0 < xb" using le p x(3) by simp
  then show "((sb_fill x (take xb payload), drop xb payload), (b, payload)) \<in> measure (\<lambda>(b, payload). length payload)"
    using p by simp
qed simp

declare sb_append.simps [simp del]

text \<open>The binary search of \<open>view\<close> for the first chunk that ends after \<open>target\<close>.\<close>

function sb_search :: "tcpSendChunk list \<Rightarrow> u64 \<Rightarrow> nat \<Rightarrow> nat \<Rightarrow> nat option" where
  "sb_search chunks target low high =
     (if low < high then
        let middle = (low + high) div 2 in
        if middle < length chunks then
          let chunk = chunks ! middle in
          if sc_streamStart chunk + of_int (int (sc_end chunk) - int (sc_start chunk)) \<le> target
          then sb_search chunks target (middle + 1) high
          else sb_search chunks target low middle
        else None
      else Some low)"
  by pat_completeness auto
termination
  by (relation "measure (\<lambda>(chunks, target, low, high). high - low)") auto

declare sb_search.simps [simp del]

text \<open>
  The gather loop of \<open>view\<close>, over the chunks from \<open>low\<close> on. \<open>skip\<close> is the offset of the target in
  the first of them and \<open>0\<close> afterwards. The sixth piece of a view is a panic.
\<close>

primrec sb_gather :: "tcpSendChunk list \<Rightarrow> nat \<Rightarrow> nat \<Rightarrow> bytes list \<Rightarrow> bytes list option" where
  "sb_gather [] skip remaining pieces = Some pieces"
| "sb_gather (chunk # chunks) skip remaining pieces =
     (if remaining = 0 then Some pieces
      else let start = sc_start chunk + skip;
               sz = min (sc_end chunk - start) remaining
           in if start > sc_end chunk then None
              else if sz = 0 then sb_gather chunks 0 remaining pieces
              else if length pieces = tcpPayloadViewMaximumChunks then None
              else do {
                piece \<leftarrow> go_slice (sc_storage chunk) start (start + sz);
                sb_gather chunks 0 (remaining - sz) (pieces @ [piece]) })"

text \<open>The result is \<open>total\<close> and the pieces of the view.\<close>

definition sb_view :: "tcpSendBuffer \<Rightarrow> int \<Rightarrow> int \<Rightarrow> (int \<times> bytes list) option" where
  "sb_view b offset maximum =
     (let total = sb_size b in
      if offset < 0 \<or> offset \<ge> total \<or> maximum \<le> 0 then Some (total, [])
      else let wanted = min maximum (total - offset);
               target = sb_base b + of_int offset
           in do {
             low \<leftarrow> sb_search (sb_chunks b) target 0 (length (sb_chunks b));
             pieces \<leftarrow> (if low < length (sb_chunks b)
                        then sb_gather (drop low (sb_chunks b))
                               (unat (target - sc_streamStart (sb_chunks b ! low))) (nat wanted) []
                        else Some []);
             Some (total, pieces) })"

text \<open>\<open>acknowledge\<close>: the loop that releases whole chunks and trims the last one touched.\<close>

definition sb_release :: "tcpSendBuffer \<Rightarrow> tcpSendChunk \<Rightarrow> tcpSendBuffer" where
  "sb_release b chunk =
     (let capacity = length (sc_storage chunk) in
      if capacity \<le> tcpSendChunkInitial \<or> capacity \<le> tcpReusableSendChunkLimit \<and> sb_reusableState b = Confirmed
      then (if capacity > spareCap (sb_spare b) then b\<lparr>sb_spare := Some (sc_storage chunk)\<rparr> else b)
      else if capacity \<le> tcpReusableSendChunkLimit \<and> sb_reusableState b = Unseen
      then b\<lparr>sb_reusableState := Released\<rparr>
      else b)"

function sb_ackLoop :: "tcpSendBuffer \<Rightarrow> int \<Rightarrow> tcpSendBuffer" where
  "sb_ackLoop b remaining =
     (if remaining \<noteq> 0 \<and> sb_chunks b \<noteq> [] then
        let chunk = hd (sb_chunks b);
            available = int (sc_end chunk) - int (sc_start chunk)
        in if remaining < available
           then b\<lparr>sb_chunks := chunk\<lparr>sc_start := nat (int (sc_start chunk) + remaining),
                                sc_streamStart := sc_streamStart chunk + of_int remaining\<rparr> # tl (sb_chunks b)\<rparr>
           else sb_ackLoop ((sb_release b chunk)\<lparr>sb_chunks := tl (sb_chunks b)\<rparr>) (remaining - available)
      else b)"
  by pat_completeness auto
termination
  by (relation "measure (\<lambda>(b, remaining). length (sb_chunks b))") auto

declare sb_ackLoop.simps [simp del]

definition sb_acknowledge :: "tcpSendBuffer \<Rightarrow> int \<Rightarrow> tcpSendBuffer" where
  "sb_acknowledge b acked =
     (let acked = (if acked > sb_size b then sb_size b else acked) in
      if acked \<le> 0 then b
      else let b = sb_ackLoop (b\<lparr>sb_base := sb_base b + of_int acked, sb_size := sb_size b - acked\<rparr>) acked
           in if sb_chunks b = [] then b\<lparr>sb_base := 0, sb_end := 0\<rparr> else b)"

section \<open>The receive buffer as a stream\<close>

definition rb_stream :: "tcpReadBuffer \<Rightarrow> bytes" where
  "rb_stream b = concat (drop (rb_head b) (rb_chunks b))"

definition rb_ok :: "tcpReadBuffer \<Rightarrow> bool" where
  "rb_ok b \<longleftrightarrow> rb_head b \<le> length (rb_chunks b) \<and> (\<forall>c \<in> set (drop (rb_head b) (rb_chunks b)). c \<noteq> []) \<and>
     rb_size b = int (length (rb_stream b))"

lemma rb_ok_empty: "rb_ok rb_empty" by (simp add: rb_ok_def rb_empty_def rb_stream_def)

lemma rb_append_ok:
  assumes "rb_ok b"
  shows "rb_ok (rb_append grow b p) \<and> rb_stream (rb_append grow b p) = rb_stream b @ p"
  using assms by (auto simp: rb_ok_def rb_append_def rb_stream_def rb_compact_def Let_def)

lemma rb_reset_ok: "rb_ok (rb_reset b)" "rb_stream (rb_reset b) = []"
  by (simp_all add: rb_ok_def rb_reset_def rb_stream_def)

lemma rb_head_live:
  assumes "rb_ok b" "rb_stream b \<noteq> []"
  shows "rb_head b < length (rb_chunks b)" "rb_chunks b ! rb_head b \<noteq> []"
    "rb_stream b = rb_chunks b ! rb_head b @ concat (drop (Suc (rb_head b)) (rb_chunks b))"
    "\<forall>c \<in> set (drop (Suc (rb_head b)) (rb_chunks b)). c \<noteq> []"
proof -
  have h: "rb_head b < length (rb_chunks b)"
    using assms by (cases "rb_head b = length (rb_chunks b)") (auto simp: rb_ok_def rb_stream_def)
  have e: "drop (rb_head b) (rb_chunks b) = rb_chunks b ! rb_head b # drop (Suc (rb_head b)) (rb_chunks b)"
    using h by (simp add: Cons_nth_drop_Suc)
  show "rb_head b < length (rb_chunks b)" "rb_chunks b ! rb_head b \<noteq> []"
    "rb_stream b = rb_chunks b ! rb_head b @ concat (drop (Suc (rb_head b)) (rb_chunks b))"
    "\<forall>c \<in> set (drop (Suc (rb_head b)) (rb_chunks b)). c \<noteq> []"
    using assms h e by (auto simp: rb_ok_def rb_stream_def)
qed

text \<open>Removing the first \<open>n\<close> bytes of the head chunk, as both \<open>read\<close> and \<open>take\<close> do it.\<close>

definition rb_consumeHead :: "tcpReadBuffer \<Rightarrow> nat \<Rightarrow> tcpReadBuffer" where
  "rb_consumeHead b n = (let chunk = rb_chunks b ! rb_head b; b' = b\<lparr>rb_size := rb_size b - int n\<rparr> in
     if n = length chunk then b'\<lparr>rb_chunks := (rb_chunks b)[rb_head b := []], rb_head := rb_head b + 1\<rparr>
     else b'\<lparr>rb_chunks := (rb_chunks b)[rb_head b := drop n chunk]\<rparr>)"

lemma rb_consumeHead_ok:
  assumes "rb_ok b" "rb_stream b \<noteq> []" "n \<le> length (rb_chunks b ! rb_head b)"
  shows "rb_ok (rb_consumeHead b n) \<and> rb_stream (rb_consumeHead b n) = drop n (rb_stream b)"
proof -
  note h = rb_head_live [OF assms(1,2)]
  have sz: "rb_size b = int (length (rb_stream b))" using assms(1) by (simp add: rb_ok_def)
  show ?thesis
  proof (cases "n = length (rb_chunks b ! rb_head b)")
    case True
    then have "rb_stream (rb_consumeHead b n) = drop n (rb_stream b)"
      by (simp add: rb_consumeHead_def rb_stream_def Let_def) (simp add: h(3) [unfolded rb_stream_def])
    then show ?thesis using True h sz assms(3)
      by (auto simp: rb_ok_def rb_consumeHead_def Let_def)
  next
    case False
    have d: "drop (rb_head b) ((rb_chunks b)[rb_head b := x]) = x # drop (Suc (rb_head b)) (rb_chunks b)" for x
      using h(1) by (simp add: drop_update_swap Cons_nth_drop_Suc [symmetric])
    have "rb_stream (rb_consumeHead b n) = drop n (rb_stream b)"
      using False assms(3) by (simp add: rb_consumeHead_def rb_stream_def Let_def d) (simp add: h(3) [unfolded rb_stream_def])
    then show ?thesis using False h sz assms(3)
      by (auto simp: rb_ok_def rb_consumeHead_def Let_def d)
  qed
qed

lemma rb_readLoop_step:
  "length out < maximum \<Longrightarrow> rb_head b < length (rb_chunks b) \<Longrightarrow>
   rb_readLoop maximum out recycled b =
    (let chunk = rb_chunks b ! rb_head b; n = min (maximum - length out) (length chunk) in
     rb_readLoop maximum (out @ take n chunk) (if n = length chunk then recycled @ [chunk] else recycled) (rb_consumeHead b n))"
  by (subst rb_readLoop.simps) (auto simp: Let_def rb_consumeHead_def)

lemma take_take_drop: "n \<le> k \<Longrightarrow> take n s @ take (k - n) (drop n s) = take k s"
  by (metis take_add le_add_diff_inverse)

lemma rb_readLoop_ok:
  "rb_ok b \<Longrightarrow> length out \<le> maximum \<Longrightarrow> maximum - length out \<le> length (rb_stream b) \<Longrightarrow>
   \<exists>r b'. rb_readLoop maximum out recycled b = Some (out @ take (maximum - length out) (rb_stream b), r, b') \<and>
     rb_ok b' \<and> rb_stream b' = drop (maximum - length out) (rb_stream b)"
proof (induction "maximum - length out" arbitrary: out recycled b rule: less_induct)
  case less
  show ?case
  proof (cases "length out < maximum")
    case False
    then show ?thesis using less.prems by (subst rb_readLoop.simps) simp
  next
    case True
    let ?c = "rb_chunks b ! rb_head b"
    let ?n = "min (maximum - length out) (length ?c)"
    have ne: "rb_stream b \<noteq> []" using True less.prems(3) by auto
    note h = rb_head_live [OF less.prems(1) ne]
    note ok = rb_consumeHead_ok [OF less.prems(1) ne, of ?n]
    have n: "0 < ?n" using True h(2) by simp
    have dec: "maximum - length (out @ take ?n ?c) < maximum - length out"
    proof -
      have "length (take ?n ?c) = ?n" by simp
      then show ?thesis using n True unfolding length_append by linarith
    qed
    have pre: "take ?n (rb_stream b) = take ?n ?c" by (simp add: h(3))
    have "\<exists>r b'. rb_readLoop maximum (out @ take ?n ?c) rc (rb_consumeHead b ?n) =
        Some ((out @ take ?n ?c) @ take (maximum - length (out @ take ?n ?c)) (rb_stream (rb_consumeHead b ?n)), r, b') \<and>
        rb_ok b' \<and> rb_stream b' = drop (maximum - length (out @ take ?n ?c)) (rb_stream (rb_consumeHead b ?n))" for rc
      using ok n less.prems True by (intro less.hyps dec) auto
    moreover have "take ?n ?c @ take (maximum - length out - ?n) (drop ?n (rb_stream b)) = take (maximum - length out) (rb_stream b)"
      unfolding pre [symmetric] by (rule take_take_drop) simp
    moreover have "(maximum - length out - ?n) + ?n = maximum - length out" by simp
    ultimately show ?thesis using ok
      by (simp add: rb_readLoop_step [OF True h(1)] Let_def drop_drop del: drop_append)
  qed
qed

lemma rb_read_ok:
  assumes "rb_ok b"
  shows "\<exists>r b'. rb_read b dest maximum = Some (take (min maximum dest) (rb_stream b), r, b') \<and> rb_ok b' \<and>
     rb_stream b' = drop (min maximum dest) (rb_stream b)"
proof -
  let ?m = "min (min maximum dest) (length (rb_stream b))"
  have sz: "rb_size b = int (length (rb_stream b))" using assms by (simp add: rb_ok_def)
  have m: "(let maximum = (if maximum > dest then dest else maximum) in 
      if int maximum > rb_size b then nat (rb_size b) else maximum) = ?m" by (simp add: sz Let_def min_def)
  obtain r b' where l: "rb_readLoop ?m [] [] b = Some (take ?m (rb_stream b), r, b')" "rb_ok b'" 
     "rb_stream b' = drop ?m (rb_stream b)"
    using rb_readLoop_ok [OF assms, of "[]" ?m "[]"] by auto
  have e: "take ?m (rb_stream b) = take (min maximum dest) (rb_stream b)" 
    "drop ?m (rb_stream b) = drop (min maximum dest) (rb_stream b)" by (simp_all add: min_def)
  show ?thesis using l e m rb_reset_ok [of b']
    by (auto simp: rb_read_def Let_def rb_ok_def)
qed

lemma rb_take_ok:
  assumes "rb_ok b" "rb_stream b \<noteq> []"
  shows "\<exists>chunk complete b'. rb_take b maximum = Some (chunk, complete, b') \<and> rb_ok b' \<and>
     chunk @ rb_stream b' = rb_stream b \<and> length chunk \<le> maximum \<and> (0 < maximum \<longrightarrow> chunk \<noteq> [])"
proof -
  note h = rb_head_live [OF assms]
  let ?c = "rb_chunks b ! rb_head b"
  let ?k = "take maximum ?c" 
  have k: "(if length ?c > maximum then take maximum ?c else ?c) = ?k" by simp
  note ok = rb_consumeHead_ok [OF assms, of "length ?k"]
  have t: "rb_take b maximum = Some (?k, length ?c \<le> maximum, 
     if rb_size (rb_consumeHead b (length ?k)) = 0 then rb_reset (rb_consumeHead b (length ?k)) else rb_consumeHead b (length ?k))"
    using h(1) by (auto simp: rb_take_def go_index_in k Let_def rb_consumeHead_def)
  have "?k @ drop (length ?k) (rb_stream b) = rb_stream b"
    by (cases "length ?c \<le> maximum") (simp_all add: h(3))
  then show ?thesis using t ok rb_reset_ok [of "rb_consumeHead b (length ?k)"] h(2) by (auto simp: rb_ok_def)
qed

section \<open>The send buffer as a stream\<close>

definition sc_live :: "tcpSendChunk \<Rightarrow> bytes" where
  "sc_live c = take (sc_end c - sc_start c) (drop (sc_start c) (sc_storage c))"

definition sb_stream :: "tcpSendBuffer \<Rightarrow> bytes" where
  "sb_stream b = concat (map sc_live (sb_chunks b))"

primrec sc_linked :: "nat \<Rightarrow> tcpSendChunk list \<Rightarrow> bool" where
  "sc_linked n [] = True"
| "sc_linked n (c # cs) = (unat (sc_streamStart c) = n \<and> sc_linked (n + (sc_end c - sc_start c)) cs)"

text \<open>
  \<open>scattered\<close> is the shape behind the scatter bound: only the first chunk may be small or partly
  consumed, and only the last partly filled.
\<close>

definition sc_ok :: "tcpSendChunk \<Rightarrow> bool" where
  "sc_ok c \<longleftrightarrow> sc_start c < sc_end c \<and> sc_end c \<le> length (sc_storage c)"

definition scattered :: "tcpSendChunk list \<Rightarrow> bool" where
  "scattered cs \<longleftrightarrow> (\<forall>c \<in> set cs. sc_ok c) \<and>
     (\<forall>c \<in> set (tl cs). sc_start c = 0 \<and> tcpSendChunkMinimum \<le> length (sc_storage c)) \<and>
     (\<forall>c \<in> set (butlast cs). sc_end c = length (sc_storage c))"

definition sb_ok :: "tcpSendBuffer \<Rightarrow> bool" where
  "sb_ok b \<longleftrightarrow> scattered (sb_chunks b) \<and> sc_linked (unat (sb_base b)) (sb_chunks b) \<and>
     sb_size b = int (length (sb_stream b)) \<and> unat (sb_end b) = unat (sb_base b) + length (sb_stream b)"

lemma sb_ok_clear: "sb_ok sb_clear" by (simp add: sb_ok_def sb_clear_def sb_stream_def scattered_def)

lemma length_sc_live: "sc_ok c \<Longrightarrow> length (sc_live c) = sc_end c - sc_start c"
  by (auto simp: sc_live_def sc_ok_def min_def)

lemma length_live_concat: "\<forall>c \<in> set cs. sc_ok c \<Longrightarrow>
   length (concat (map sc_live cs)) = sum_list (map (\<lambda>c. sc_end c - sc_start c) cs)"
  by (induction cs) (auto simp: length_sc_live)

lemma sc_linked_append: "sc_linked n (xs @ ys) \<longleftrightarrow> sc_linked n xs \<and>
   sc_linked (n + sum_list (map (\<lambda>c. sc_end c - sc_start c) xs)) ys"
  by (induction xs arbitrary: n) (auto simp: add.assoc)

lemma unat_add_u64: "unat (a + of_nat n :: u64) = unat a + n" if "unat a + n < 2 ^ 64"
  using that by (simp add: unat_word_ariths unat_of_nat take_bit_nat_eq_self)

lemma sc_fill_live:
  assumes "sc_start c \<le> sc_end c" "sc_end c + length part \<le> length (sc_storage c)"
    and c': "c' = c\<lparr>sc_storage := take (sc_end c) (sc_storage c) @ part @ drop (sc_end c + length part) (sc_storage c),
                 sc_end := sc_end c + length part\<rparr>"
  shows "sc_live c' = sc_live c @ part" "length (sc_storage c') = length (sc_storage c)"
proof -
  have "drop (sc_start c) (take (sc_end c) (sc_storage c)) = sc_live c" by (simp add: sc_live_def drop_take)
  then show "sc_live c' = sc_live c @ part" using assms by (simp add: sc_live_def)
  show "length (sc_storage c') = length (sc_storage c)" using assms by simp
qed

lemma sb_fill_ok:
  assumes ch: "sb_chunks b = cs @ [c]" and c: "sc_start c \<le> sc_end c" "sc_end c + length part \<le> length (sc_storage c)" "part \<noteq> []"
    and sc: "\<forall>c \<in> set cs. sc_ok c \<and> sc_end c = length (sc_storage c)" 
      "\<forall>c \<in> set (tl (cs @ [c])). sc_start c = 0 \<and> tcpSendChunkMinimum \<le> length (sc_storage c)"
    and ln: "sc_linked (unat (sb_base b)) (sb_chunks b)"
    and sz: "sb_size b = int (length (sb_stream b))" "unat (sb_end b) = unat (sb_base b) + length (sb_stream b)"
    and fit: "unat (sb_end b) + length part < 2 ^ 64"
  shows "sb_ok (sb_fill b part) \<and> sb_stream (sb_fill b part) = sb_stream b @ part \<and>
    unat (sb_end (sb_fill b part)) = unat (sb_end b) + length part"
proof -
  define c' where c': "c' = c\<lparr>sc_storage := take (sc_end c) (sc_storage c) @ part @ drop (sc_end c + length part) (sc_storage c),
                 sc_end := sc_end c + length part\<rparr>"
  note l = sc_fill_live [OF c(1,2) c']
  have f: "sb_fill b part = b\<lparr>sb_chunks := cs @ [c'], sb_end := sb_end b + of_nat (length part), sb_size := sb_size b + int (length part)\<rparr>"
    by (simp add: sb_fill_def ch c' Let_def)
  have "0 < length part" using c(3) by simp
  then have "sc_start c < sc_end c + length part" using c(1) by linarith
  then have "sc_ok c'" using c l(2) by (simp add: sc_ok_def) (simp add: c')
  moreover have "sc_start c' = sc_start c" "sc_streamStart c' = sc_streamStart c" by (simp_all add: c')
  moreover have "tl (cs @ [c']) = (if cs = [] then [] else tl cs @ [c'])" "tl (cs @ [c]) = (if cs = [] then [] else tl cs @ [c])"
    by (cases cs; simp)+
  ultimately have "scattered (cs @ [c'])" using sc l(2) by (auto simp: scattered_def split: if_splits)
  then show ?thesis using ln sz l unat_add_u64 [OF fit]
    by (simp add: f sb_ok_def sb_stream_def ch sc_linked_append \<open>sc_streamStart c' = sc_streamStart c\<close>)
qed

lemma sb_room_shape:
  assumes ok: "sb_ok b" and n: "0 < n"
  shows "\<exists>cs c. sb_chunks (sb_room b n) = cs @ [c] \<and> sc_start c \<le> sc_end c \<and> sc_end c < length (sc_storage c) \<and>
     (\<forall>c \<in> set cs. sc_ok c \<and> sc_end c = length (sc_storage c)) \<and>
     (\<forall>c \<in> set (tl (cs @ [c])). sc_start c = 0 \<and> tcpSendChunkMinimum \<le> length (sc_storage c)) \<and>
     sc_linked (unat (sb_base b)) (sb_chunks (sb_room b n)) \<and> sb_stream (sb_room b n) = sb_stream b \<and>
     sb_size (sb_room b n) = sb_size b \<and> sb_base (sb_room b n) = sb_base b \<and> sb_end (sb_room b n) = sb_end b"
proof (cases "sb_chunks b = [] \<or> sc_end (last (sb_chunks b)) = length (sc_storage (last (sb_chunks b)))")
  case True
  obtain st where st: "sb_chunks (sb_addChunk b n) = sb_chunks b @
       [\<lparr>sc_storage = st, sc_start = 0, sc_end = 0, sc_streamStart = sb_end b\<rparr>]"
      "st \<noteq> []" "sb_chunks b \<noteq> [] \<Longrightarrow> tcpSendChunkMinimum \<le> length st"
    using n by (auto simp: sb_addChunk_def sb_newCapacity_def spareCap_def Let_def send_consts split: option.splits)
  have e: "sb_size (sb_addChunk b n) = sb_size b" "sb_base (sb_addChunk b n) = sb_base b" "sb_end (sb_addChunk b n) = sb_end b"
    by (simp_all add: sb_addChunk_def Let_def)
  have full: "\<forall>c \<in> set (sb_chunks b). sc_ok c \<and> sc_end c = length (sc_storage c)"
    using ok True by (cases "sb_chunks b" rule: rev_cases) (auto simp: sb_ok_def scattered_def)
  have "tl (sb_chunks b @ [x]) = (if sb_chunks b = [] then [] else tl (sb_chunks b) @ [x])" for x
    by (cases "sb_chunks b") auto
  moreover have "length (sb_stream b) = sum_list (map (\<lambda>c. sc_end c - sc_start c) (sb_chunks b))"
    unfolding sb_stream_def using full by (intro length_live_concat) auto
  ultimately show ?thesis using st full ok True e
    by (intro exI [of _ "sb_chunks b"] exI [of _ "\<lparr>sc_storage = st, sc_start = 0, sc_end = 0, sc_streamStart = sb_end b\<rparr>"])
      (auto simp: sb_room_def sb_stream_def sc_live_def sc_linked_append sb_ok_def scattered_def)
next
  case False
  then obtain cs c where ch: "sb_chunks b = cs @ [c]" by (metis rev_exhaust)
  moreover have "sb_room b n = b" using False by (simp add: sb_room_def)
  ultimately show ?thesis using ok False
    by (intro exI [of _ cs] exI [of _ c]) (auto simp: sb_ok_def scattered_def sc_ok_def less_imp_le_nat)
qed

lemma sb_append_ok:
  "sb_ok b \<Longrightarrow> unat (sb_end b) + length payload < 2 ^ 64 \<Longrightarrow>
   \<exists>b'. sb_append b payload = Some b' \<and> sb_ok b' \<and> sb_stream b' = sb_stream b @ payload \<and>
     unat (sb_end b') = unat (sb_end b) + length payload"
proof (induction b payload rule: sb_append.induct)
  case (1 b payload)
  show ?case
  proof (cases "payload = []")
    case True
    then show ?thesis using 1 by (subst sb_append.simps) simp
  next
    case False
    let ?b = "sb_room b (length payload)"
    let ?c = "last (sb_chunks ?b)"
    let ?w = "min (length (sc_storage ?c) - sc_end ?c) (length payload)"
    obtain cs c where ch: "sb_chunks ?b = cs @ [c]" and c: "sc_start c \<le> sc_end c" "sc_end c < length (sc_storage c)"
     "\<forall>c \<in> set cs. sc_ok c \<and> sc_end c = length (sc_storage c)"
     "\<forall>c \<in> set (tl (cs @ [c])). sc_start c = 0 \<and> tcpSendChunkMinimum \<le> length (sc_storage c)"
     "sc_linked (unat (sb_base b)) (sb_chunks ?b)" "sb_stream ?b = sb_stream b"
     "sb_size ?b = sb_size b" "sb_base ?b = sb_base b" "sb_end ?b = sb_end b"
      using sb_room_shape [OF "1.prems"(1), of "length payload"] False by auto
    let ?b' = "sb_fill ?b (take ?w payload)"
    have w: "0 < ?w" "?w \<le> length payload" using ch c(2) False by auto
    have f: "sb_ok ?b' \<and> sb_stream ?b' = sb_stream ?b @ take ?w payload \<and> unat (sb_end ?b') = unat (sb_end ?b) + length (take ?w payload)"
      by (rule sb_fill_ok [OF ch c(1) _ _ c(3,4)]) (use ch c False "1.prems" w in \<open>auto simp: sb_ok_def\<close>)
    have "\<exists>b'. sb_append ?b' (drop ?w payload) = Some b' \<and> sb_ok b' \<and> sb_stream b' = sb_stream ?b' @ drop ?w payload \<and>
       unat (sb_end b') = unat (sb_end ?b') + length (drop ?w payload)"
      using f "1.prems" False ch c w by (intro "1.IH") auto
    then show ?thesis using f ch c False w
      by (subst sb_append.simps) (auto simp: Let_def)
  qed
qed

lemma scattered_Cons: "scattered (c # cs) \<longleftrightarrow> sc_ok c \<and> (cs \<noteq> [] \<longrightarrow> sc_end c = length (sc_storage c)) \<and>
   (\<forall>c \<in> set cs. sc_start c = 0 \<and> tcpSendChunkMinimum \<le> length (sc_storage c)) \<and> 
   (\<forall>c \<in> set cs. sc_ok c) \<and> (\<forall>c \<in> set (butlast cs). sc_end c = length (sc_storage c))"
  by (cases cs) (auto simp: scattered_def)

lemma scattered_tl: "scattered cs \<Longrightarrow> scattered (tl cs)"
  by (cases cs; cases "tl cs") (auto simp: scattered_Cons split: if_splits, auto simp: scattered_def)

lemma sc_release_fields: "sb_chunks (sb_release b c) = sb_chunks b" "sb_base (sb_release b c) = sb_base b"
  "sb_end (sb_release b c) = sb_end b" "sb_size (sb_release b c) = sb_size b"
  by (simp_all add: sb_release_def Let_def)

lemma sc_trim_ok:
  assumes sc: "scattered (c # cs)" "sc_linked n (c # cs)" and r: "r < sc_end c - sc_start c" "n + r < 2 ^ 64"
    and c': "c' = c\<lparr>sc_start := sc_start c + r, sc_streamStart := sc_streamStart c + of_nat r\<rparr>"
  shows "scattered (c' # cs)" "sc_linked (n + r) (c' # cs)" "sc_live c' = drop r (sc_live c)"
proof -
  have f: "sc_start c' = sc_start c + r" "sc_end c' = sc_end c" "sc_storage c' = sc_storage c"
    "sc_streamStart c' = sc_streamStart c + of_nat r" by (simp_all add: c')
  have "sc_ok c'" using sc(1) r(1) by (auto simp: f scattered_Cons sc_ok_def)
  then show "scattered (c' # cs)" using sc(1) by (simp add: f scattered_Cons)
  have "unat (sc_streamStart c) = n" using sc(2) by simp
  then have "unat (sc_streamStart c') = n + r" using r(2) unat_add_u64 [of "sc_streamStart c" r] by (simp add: f)
  moreover have n: "n + r + (sc_end c' - sc_start c') = n + (sc_end c - sc_start c)" using r(1) by (simp add: f)
  ultimately show "sc_linked (n + r) (c' # cs)" using sc(2) by (simp only: sc_linked.simps n simp_thms)
  show "sc_live c' = drop r (sc_live c)" unfolding sc_live_def f by (simp add: drop_take) (simp add: add.commute)
qed

lemma sb_ackLoop_ok:
  "scattered (sb_chunks b) \<Longrightarrow> sc_linked n (sb_chunks b) \<Longrightarrow> 0 \<le> r \<Longrightarrow> nat r \<le> length (sb_stream b) \<Longrightarrow>
   n + length (sb_stream b) < 2 ^ 64 \<Longrightarrow>
   scattered (sb_chunks (sb_ackLoop b r)) \<and> sc_linked (n + nat r) (sb_chunks (sb_ackLoop b r)) \<and>
   sb_stream (sb_ackLoop b r) = drop (nat r) (sb_stream b) \<and>
   sb_base (sb_ackLoop b r) = sb_base b \<and> sb_end (sb_ackLoop b r) = sb_end b \<and> sb_size (sb_ackLoop b r) = sb_size b"
proof (induction b r arbitrary: n rule: sb_ackLoop.induct)
  case (1 b r)
  show ?case
  proof (cases "r \<noteq> 0 \<and> sb_chunks b \<noteq> []")
    case False
    then have "nat r = 0" using "1.prems"(3,4) by (auto simp: sb_stream_def)
    moreover have "sb_ackLoop b r = b" using False by (subst sb_ackLoop.simps) auto
    ultimately show ?thesis using "1.prems"(1,2) by simp
  next
    case True
    then obtain c cs where ch: "sb_chunks b = c # cs" by (cases "sb_chunks b") auto
    have ok: "sc_ok c" using "1.prems"(1) ch by (simp add: scattered_Cons)
    note ll = length_sc_live [OF ok]
    show ?thesis
    proof (cases "r < int (sc_end c) - int (sc_start c)")
      case less: True
      define c' where c': "c' = c\<lparr>sc_start := sc_start c + nat r, sc_streamStart := sc_streamStart c + of_nat (nat r)\<rparr>"
      have s: "nat (int (sc_start c) + r) = sc_start c + nat r" "(of_int r :: u64) = of_nat (nat r)" using "1.prems"(3) by simp_all
      have e: "sb_ackLoop b r = b\<lparr>sb_chunks := c' # cs\<rparr>" using True less ch 
        by (subst sb_ackLoop.simps) (simp only: Let_def s c' simp_thms list.sel if_True)
      have rl: "nat r < sc_end c - sc_start c" "n + nat r < 2 ^ 64" using less "1.prems"(3-5) by linarith+
      note t = sc_trim_ok [OF "1.prems"(1,2)[unfolded ch] rl c']
      have "drop (nat r) (sb_stream b) = concat (map sc_live (c' # cs))"
        using rl(1) by (simp add: sb_stream_def ch t(3) ll)
      then show ?thesis using t(1,2) by (simp add: e sb_stream_def)
    next
      case ge: False
      let ?b = "(sb_release b c)\<lparr>sb_chunks := cs\<rparr>" and ?a = "int (sc_end c) - int (sc_start c)"
      have e: "sb_ackLoop b r = sb_ackLoop ?b (r - ?a)" using True ge ch by (subst sb_ackLoop.simps) simp
      have a: "?a = int (length (sc_live c))" using ll ok by (simp add: sc_ok_def of_nat_diff)
      have st: "sb_stream b = sc_live c @ sb_stream ?b" by (simp add: sb_stream_def ch)
      have chb: "sb_chunks ?b = cs" by simp
      have pre: "scattered (sb_chunks ?b)" "sc_linked (n + length (sc_live c)) (sb_chunks ?b)" "0 \<le> r - ?a"
        "nat (r - ?a) \<le> length (sb_stream ?b)" "n + length (sc_live c) + length (sb_stream ?b) < 2 ^ 64"
        subgoal unfolding chb using scattered_tl [OF "1.prems"(1)] ch by simp
        subgoal unfolding chb using "1.prems"(2) ch ll by simp
        subgoal using ge by simp
        subgoal using "1.prems"(4) a unfolding st by simp
        subgoal using "1.prems"(5) unfolding st by simp
        done
      have IH: "scattered (sb_chunks (sb_ackLoop ?b (r - ?a))) \<and> sc_linked (n + length (sc_live c) + nat (r - ?a)) (sb_chunks (sb_ackLoop ?b (r - ?a))) \<and>
         sb_stream (sb_ackLoop ?b (r - ?a)) = drop (nat (r - ?a)) (sb_stream ?b) \<and>
         sb_base (sb_ackLoop ?b (r - ?a)) = sb_base ?b \<and> sb_end (sb_ackLoop ?b (r - ?a)) = sb_end ?b \<and> sb_size (sb_ackLoop ?b (r - ?a)) = sb_size ?b"
        using "1.IH" [OF True refl refl, unfolded ch list.sel, OF ge pre] .
      have n: "n + length (sc_live c) + nat (r - ?a) = n + nat r" using ge a by simp
      have d: "drop (nat (r - ?a)) (sb_stream ?b) = drop (nat r) (sb_stream b)"
        unfolding st using ge a by (simp add: nat_diff_distrib')
      show ?thesis using IH unfolding e n d by (simp add: sc_release_fields)
    qed
  qed
qed

lemma sb_acknowledge_ok:
  assumes ok: "sb_ok b"
  shows "sb_ok (sb_acknowledge b n) \<and> sb_stream (sb_acknowledge b n) = drop (nat n) (sb_stream b)"
proof -
  define a where a_def: "a = (if n > sb_size b then sb_size b else n)"
  have sz: "sb_size b = int (length (sb_stream b))" using ok by (simp add: sb_ok_def)
  have d: "drop (nat a) (sb_stream b) = drop (nat n) (sb_stream b)" using sz by (simp add: a_def)
  show ?thesis
  proof (cases "a \<le> 0")
    case True
    then have "sb_acknowledge b n = b" by (simp add: sb_acknowledge_def Let_def a_def)
    then show ?thesis using ok d True by simp
  next
    case False
    let ?b = "b\<lparr>sb_base := sb_base b + of_int a, sb_size := sb_size b - a\<rparr>"
    have a: "nat a \<le> length (sb_stream b)" "0 \<le> a" using False sz by (auto simp: a_def)
    have st: "sb_stream ?b = sb_stream b" by (simp add: sb_stream_def)
    have lt: "unat (sb_base b) + length (sb_stream b) < 2 ^ 64"
      using ok unat_lt_u64 [of "sb_end b"] by (simp add: sb_ok_def)
    have base: "unat (sb_base b + of_int a) = unat (sb_base b) + nat a"
      using unat_add_u64 [of "sb_base b" "nat a"] lt a by simp
    define b' where b': "b' = sb_ackLoop ?b a"
    have l: "scattered (sb_chunks b')" "sc_linked (unat (sb_base b) + nat a) (sb_chunks b')"
       "sb_stream b' = drop (nat a) (sb_stream b)" "sb_base b' = sb_base b + of_int a" "sb_end b' = sb_end b"
       "sb_size b' = sb_size b - a"
      using sb_ackLoop_ok [of ?b "unat (sb_base b)" a] ok lt a st by (simp_all add: sb_ok_def b')
    have e: "sb_acknowledge b n = (if sb_chunks b' = [] then b'\<lparr>sb_base := 0, sb_end := 0\<rparr> else b')"
      unfolding sb_acknowledge_def b' using False by (simp add: Let_def a_def)
    have len: "int (length (sb_stream b')) = sb_size b - a" "length (sb_stream b') + nat a = length (sb_stream b)"
      using l(3) sz a by simp_all
    show ?thesis unfolding d [symmetric]
    proof (cases "sb_chunks b' = []")
      case True
      then have s': "sb_stream b' = []" by (simp add: sb_stream_def)
      then have "sb_size b - a = 0" using len by simp
      then show "sb_ok (sb_acknowledge b n) \<and> sb_stream (sb_acknowledge b n) = drop (nat a) (sb_stream b)"
        using True l(6) e s' l(3) by (simp add: sb_ok_def sb_stream_def scattered_def)
    next
      case False
      then have eb: "sb_acknowledge b n = b'" using e by simp
      show "sb_ok (sb_acknowledge b n) \<and> sb_stream (sb_acknowledge b n) = drop (nat a) (sb_stream b)"
        unfolding eb using l base len ok by (simp add: sb_ok_def)
    qed
  qed
qed

section \<open>Views\<close>

abbreviation sc_len :: "tcpSendChunk \<Rightarrow> nat" where "sc_len c \<equiv> sc_end c - sc_start c"

definition sc_pos :: "tcpSendChunk list \<Rightarrow> nat \<Rightarrow> nat" where
  "sc_pos cs i = sum_list (map sc_len (take i cs))"

lemma sc_pos_mono: "i \<le> j \<Longrightarrow> sc_pos cs i \<le> sc_pos cs j"
  by (auto simp: sc_pos_def take_add dest!: le_Suc_ex)

lemma sc_pos_Suc: "i < length cs \<Longrightarrow> sc_pos cs (Suc i) = sc_pos cs i + sc_len (cs ! i)"
  by (simp add: sc_pos_def take_Suc_conv_app_nth)

lemma sc_linked_nth: "sc_linked n cs \<Longrightarrow> i < length cs \<Longrightarrow> unat (sc_streamStart (cs ! i)) = n + sc_pos cs i"
proof (induction cs arbitrary: n i)
  case (Cons c cs)
  then show ?case by (cases i) (auto simp: sc_pos_def)
qed simp

lemma sb_search_ok:
  assumes lk: "sc_linked n cs" "\<forall>c \<in> set cs. sc_ok c" "n + sc_pos cs (length cs) < 2 ^ 64" "unat target = n + t"
  shows "low \<le> high \<Longrightarrow> high \<le> length cs \<Longrightarrow> sc_pos cs low \<le> t \<Longrightarrow> (high < length cs \<Longrightarrow> t < sc_pos cs (Suc high)) \<Longrightarrow>
    \<exists>i. sb_search cs target low high = Some i \<and> i \<le> length cs \<and> sc_pos cs i \<le> t \<and> (i < length cs \<longrightarrow> t < sc_pos cs (Suc i))"
proof (induction "high - low" arbitrary: low high rule: less_induct)
  case less
  show ?case
  proof (cases "low < high")
    case False
    then show ?thesis using less.prems by (subst sb_search.simps) simp
  next
    case True
    let ?m = "(low + high) div 2"
    have m: "low \<le> ?m" "?m < high" "?m < length cs" using True less.prems by auto
    have ok: "sc_ok (cs ! ?m)" using lk(2) m(3) by simp
    have ss: "unat (sc_streamStart (cs ! ?m)) = n + sc_pos cs ?m" by (rule sc_linked_nth [OF lk(1) m(3)])
    have le: "sc_pos cs (Suc ?m) \<le> sc_pos cs (length cs)" using m(3) by (intro sc_pos_mono) simp
    have i: "(of_int (int (sc_end (cs ! ?m)) - int (sc_start (cs ! ?m))) :: u64) = of_nat (sc_len (cs ! ?m))"
      using ok by (simp add: sc_ok_def of_nat_diff)
    have "unat (sc_streamStart (cs ! ?m) + of_nat (sc_len (cs ! ?m)) :: u64) = n + sc_pos cs (Suc ?m)"
      using unat_add_u64 [of "sc_streamStart (cs ! ?m)" "sc_len (cs ! ?m)"] ss lk(3) le sc_pos_Suc [OF m(3)] by linarith
    then have cmp: "sc_streamStart (cs ! ?m) + of_nat (sc_len (cs ! ?m)) \<le> target \<longleftrightarrow> sc_pos cs (Suc ?m) \<le> t"
      by (simp add: word_le_nat_alt lk(4))
    have e: "sb_search cs target low high = (if sc_pos cs (Suc ?m) \<le> t then sb_search cs target (?m + 1) high
        else sb_search cs target low ?m)"
      using True m(3) by (subst sb_search.simps) (simp only: Let_def i cmp if_True)
    show ?thesis
    proof (cases "sc_pos cs (Suc ?m) \<le> t")
      case le: True
      have "high - (?m + 1) < high - low" using m True by linarith
      then show ?thesis unfolding e using less.hyps [of high "?m + 1"] m le less.prems by simp
    next
      case gt: False
      have "?m - low < high - low" using m True by linarith
      then show ?thesis unfolding e using less.hyps [of ?m low] m gt less.prems by simp
    qed
  qed
qed

text \<open>
  The chunks after the first of a view are full unless they are the last, and at least
  \<open>tcpSendChunkMinimum\<close> long.
\<close>

lemma sb_gather_tail:
  assumes "\<forall>c \<in> set cs. sc_start c = 0 \<and> tcpSendChunkMinimum \<le> length (sc_storage c) \<and> sc_ok c"
    "\<forall>c \<in> set (butlast cs). sc_end c = length (sc_storage c)"
    "length ps + (r + 16383) div 16384 \<le> 5"
  shows "\<exists>qs. sb_gather cs 0 r ps = Some (ps @ qs) \<and> concat qs = take r (concat (map sc_live cs)) \<and> length (ps @ qs) \<le> 5"
  using assms
proof (induction cs arbitrary: r ps)
  case (Cons c cs)
  have c: "sc_start c = 0" "sc_ok c" "16384 \<le> length (sc_storage c)" using Cons.prems(1) by (auto simp: send_consts)
  have l: "length (sc_live c) = sc_end c" "0 < sc_end c" "sc_live c = take (sc_end c) (sc_storage c)"
    using c by (auto simp: sc_live_def sc_ok_def)
  show ?case
  proof (cases "r = 0")
    case False
    let ?z = "min (sc_end c) r"
    have z: "0 < ?z" using False l by simp
    have p: "length ps < 5" using Cons.prems(3) False by linarith
    have sl: "go_slice (sc_storage c) 0 ?z = Some (take r (sc_live c))"
      using c by (auto simp: go_slice_def sc_ok_def l min.commute)
    have room: "cs \<noteq> [] \<Longrightarrow> length (ps @ [take r (sc_live c)]) + (r - ?z + 16383) div 16384 \<le> 5"
    proof -
      assume "cs \<noteq> []"
      then have "16384 \<le> sc_end c" using Cons.prems(2) c(3) by simp
      then show ?thesis using Cons.prems(3) p False by (auto simp: min_def) 
    qed
    have "\<exists>qs. sb_gather cs 0 (r - ?z) (ps @ [take r (sc_live c)]) = Some ((ps @ [take r (sc_live c)]) @ qs) \<and>
       concat qs = take (r - ?z) (concat (map sc_live cs)) \<and> length ((ps @ [take r (sc_live c)]) @ qs) \<le> 5"
    proof (cases "cs = []")
      case True
      then show ?thesis using p by simp
    next
      case ne: False
      show ?thesis using Cons.prems(1,2) ne by (intro Cons.IH room) (auto split: if_splits)
    qed
    moreover have "take (r - ?z) xs = take (r - sc_end c) xs" for xs :: bytes by (simp add: min_def)
    ultimately show ?thesis using False z c p sl l
      by (auto simp: Let_def send_consts)
  qed (use Cons.prems in simp)
qed simp

lemma sb_gather_ok:
  assumes "scattered (c # cs)" "skip < sc_len c" "0 < r" "r \<le> 65537"
  shows "\<exists>qs. sb_gather (c # cs) skip r [] = Some qs \<and> concat qs = take r (drop skip (concat (map sc_live (c # cs)))) \<and> length qs \<le> 5"
proof -
  have c: "sc_ok c" using assms(1) by (simp add: scattered_Cons)
  let ?z = "min (sc_end c - (sc_start c + skip)) r"
  let ?p = "take r (drop skip (sc_live c))"
  have z: "0 < ?z" using assms by simp
  have sl: "go_slice (sc_storage c) (sc_start c + skip) (sc_start c + skip + ?z) = Some ?p"
    using c assms(2) by (auto simp: go_slice_def sc_ok_def sc_live_def drop_take min.commute add.commute)
  have "\<exists>qs. sb_gather cs 0 (r - ?z) [?p] = Some ([?p] @ qs) \<and> concat qs = take (r - ?z) (concat (map sc_live cs)) \<and> length ([?p] @ qs) \<le> 5"
    using assms z by (intro sb_gather_tail) (auto simp: scattered_Cons)
  moreover have "take (r - ?z) xs = take (r - (sc_len c - skip)) xs" for xs :: bytes by (simp add: min_def)
  ultimately show ?thesis using z sl assms(2,3) length_sc_live [OF c]
    by (auto simp: Let_def send_consts)
qed

lemma sb_view_ok:
  assumes ok: "sb_ok b" and o: "0 \<le> offset" "offset < sb_size b" and m: "0 < maximum" "maximum \<le> 65537"
  shows "\<exists>qs. sb_view b offset maximum = Some (sb_size b, qs) \<and>
     concat qs = take (nat maximum) (drop (nat offset) (sb_stream b)) \<and> length qs \<le> 5"
proof -
  let ?cs = "sb_chunks b"
  let ?n = "unat (sb_base b)" and ?t = "nat offset"
  let ?target = "sb_base b + of_int offset"
  have sc: "scattered ?cs" "sc_linked ?n ?cs" and oks: "\<forall>c \<in> set ?cs. sc_ok c" and sz: "sb_size b = int (length (sb_stream b))"
    using ok by (auto simp: sb_ok_def scattered_def)
  have tot: "sc_pos ?cs (length ?cs) = length (sb_stream b)"
    using length_live_concat [OF oks] by (simp add: sc_pos_def sb_stream_def)
  have fit: "?n + sc_pos ?cs (length ?cs) < 2 ^ 64" using ok unat_lt_u64 [of "sb_end b"] tot by (simp add: sb_ok_def)
  have tl: "?t < length (sb_stream b)" using o sz by linarith
  have ut: "unat ?target = ?n + ?t" using unat_add_u64 [of "sb_base b" ?t] fit tot tl o by simp
  obtain i where i: "sb_search ?cs ?target 0 (length ?cs) = Some i" "i \<le> length ?cs" "sc_pos ?cs i \<le> ?t" 
      "i < length ?cs \<Longrightarrow> ?t < sc_pos ?cs (Suc i)"
    using sb_search_ok [OF sc(2) oks fit ut, of 0 "length ?cs"] by (auto simp: sc_pos_def)
  have il: "i < length ?cs" using i(2,3) tot tl by (cases "i = length ?cs") auto
  then obtain c cs where d: "drop i ?cs = c # cs" "?cs ! i = c" by (metis Cons_nth_drop_Suc)
  have cs: "?cs = take i ?cs @ c # cs" using d by (metis append_take_drop_id)
  have sd: "scattered (drop i ?cs)" for i
  proof (induction i)
    case (Suc i)
    then show ?case using scattered_tl [of "drop i ?cs"] by (simp add: drop_Suc tl_drop)
  qed (simp add: sc)
  have pre: "length (concat (map sc_live (take i ?cs))) = sc_pos ?cs i"
    unfolding sc_pos_def using oks by (intro length_live_concat) (auto dest: in_set_takeD)
  have st: "sb_stream b = concat (map sc_live (take i ?cs)) @ concat (map sc_live (c # cs))"
    unfolding sb_stream_def by (subst cs) simp
  have skip: "unat (?target - sc_streamStart c) = ?t - sc_pos ?cs i"
    using sc_linked_nth [OF sc(2) il] d(2) ut i(3) unat_sub [of "sc_streamStart c" ?target] by (simp add: word_le_nat_alt)
  have lt: "?t - sc_pos ?cs i < sc_len c" using i(3,4) il sc_pos_Suc [OF il] d(2) by simp
  let ?w = "nat (min maximum (sb_size b - offset))"
  have w: "0 < ?w" "?w \<le> 65537" using m o by (simp_all add: min_def nat_le_iff)
  obtain qs where q: "sb_gather (c # cs) (?t - sc_pos ?cs i) ?w [] = Some qs" 
      "concat qs = take ?w (drop (?t - sc_pos ?cs i) (concat (map sc_live (c # cs))))" "length qs \<le> 5"
    using sb_gather_ok [OF sd [of i, unfolded d(1)] lt w] by blast
  have "drop ?t (sb_stream b) = drop (?t - sc_pos ?cs i) (concat (map sc_live (c # cs)))"
    unfolding st using pre i(3) by simp
  moreover have "take ?w (drop ?t (sb_stream b)) = take (nat maximum) (drop ?t (sb_stream b))"
    using m o sz by (auto simp: min_def intro!: take_all [THEN trans, OF _ take_all [symmetric]])
  ultimately have "concat qs = take (nat maximum) (drop ?t (sb_stream b))" using q(2) by simp
  moreover have "sb_view b offset maximum = Some (sb_size b, qs)"
    using o m i(1) il d skip q(1) by (simp add: sb_view_def Let_def del: sb_gather.simps)
  ultimately show ?thesis using q(3) by blast
qed

section \<open>Both buffers are byte streams\<close>

text \<open>
  A run of operations collects the bytes the operations hand out. The locale states what one
  operation promises: from a well-formed buffer it does not panic, keeps the buffer well formed,
  and what it hands out followed by what remains is what was there followed by what it put in.
  \<open>fits\<close> and \<open>level\<close> bound the number of bytes a buffer may carry, where the code has such a bound.
\<close>

primrec run_ops :: "('x \<Rightarrow> 'b \<Rightarrow> (bytes \<times> 'b) option) \<Rightarrow> 'x list \<Rightarrow> 'b \<Rightarrow> (bytes \<times> 'b) option" where
  "run_ops step [] b = Some ([], b)"
| "run_ops step (x # xs) b = do {
     (out1, b1) \<leftarrow> step x b;
     (out2, b2) \<leftarrow> run_ops step xs b1;
     Some (out1 @ out2, b2) }"

locale byte_stream =
  fixes ok :: "'b \<Rightarrow> bool"
    and stream :: "'b \<Rightarrow> bytes"
    and step :: "'x \<Rightarrow> 'b \<Rightarrow> (bytes \<times> 'b) option"
    and input :: "'x \<Rightarrow> bytes"
    and level :: "'b \<Rightarrow> nat"
    and fits :: "nat \<Rightarrow> bool"
  assumes step_ok: "ok b \<Longrightarrow> fits (level b + length (input x)) \<Longrightarrow>
      \<exists>out b'. step x b = Some (out, b') \<and> ok b' \<and> out @ stream b' = stream b @ input x \<and>
        level b' \<le> level b + length (input x)"
    and fits_less: "fits n \<Longrightarrow> m \<le> n \<Longrightarrow> fits m"
begin

lemma run_conserves:
  "ok b \<Longrightarrow> fits (level b + length (concat (map input xs))) \<Longrightarrow>
   \<exists>out b'. run_ops step xs b = Some (out, b') \<and> ok b' \<and> out @ stream b' = stream b @ concat (map input xs)"
proof (induction xs arbitrary: b)
  case (Cons x xs)
  have "fits (level b + length (input x))" by (rule fits_less [OF Cons.prems(2)]) simp
  then obtain o1 b1 where s: "step x b = Some (o1, b1)" "ok b1" "o1 @ stream b1 = stream b @ input x"
      "level b1 \<le> level b + length (input x)"
    using step_ok [OF Cons.prems(1)] by blast
  have "fits (level b1 + length (concat (map input xs)))"
    by (rule fits_less [OF Cons.prems(2)]) (use s(4) in simp)
  then obtain o2 b2 where r: "run_ops step xs b1 = Some (o2, b2)" "ok b2" "o2 @ stream b2 = stream b1 @ concat (map input xs)"
    using Cons.IH [OF s(2)] by blast
  have "(o1 @ o2) @ stream b2 = (o1 @ stream b1) @ concat (map input xs)" using r(3) by simp
  then show ?case using s r by simp
qed simp

end

datatype readOp = RAppend bytes | RRead nat nat | RTake nat

text \<open>\<open>readChunk\<close> takes only from a buffer that is not empty.\<close>

fun readStep :: "(nat \<Rightarrow> nat) \<Rightarrow> readOp \<Rightarrow> tcpReadBuffer \<Rightarrow> (bytes \<times> tcpReadBuffer) option" where
  "readStep grow (RAppend payload) b = Some ([], rb_append grow b payload)"
| "readStep grow (RRead destination maximum) b = do {
     (out, recycled, b') \<leftarrow> rb_read b destination maximum; Some (out, b') }"
| "readStep grow (RTake maximum) b =
     (if rb_size b = 0 then Some ([], b) else do {
        (out, complete, b') \<leftarrow> rb_take b maximum; Some (out, b') })"

fun readInput :: "readOp \<Rightarrow> bytes" where
  "readInput (RAppend payload) = payload"
| "readInput (RRead destination maximum) = []"
| "readInput (RTake maximum) = []"

datatype sendOp = SAppend bytes | SAck int

text \<open>What an acknowledgement hands out are the bytes it releases.\<close>

fun sendStep :: "sendOp \<Rightarrow> tcpSendBuffer \<Rightarrow> (bytes \<times> tcpSendBuffer) option" where
  "sendStep (SAppend payload) b = do { b' \<leftarrow> sb_append b payload; Some ([], b') }"
| "sendStep (SAck n) b = Some (take (nat n) (sb_stream b), sb_acknowledge b n)"

fun sendInput :: "sendOp \<Rightarrow> bytes" where
  "sendInput (SAppend payload) = payload"
| "sendInput (SAck n) = []"

interpretation rb: byte_stream rb_ok rb_stream "readStep grow" readInput "\<lambda>_. 0" "\<lambda>_. True" for grow
proof
  fix b x
  assume ok: "rb_ok b"
  show "\<exists>out b'. readStep grow x b = Some (out, b') \<and> rb_ok b' \<and> out @ rb_stream b' = rb_stream b @ readInput x \<and>
      0 \<le> 0 + length (readInput x)"
  proof (cases x)
    case (RAppend p)
    then show ?thesis using rb_append_ok [OF ok] by simp
  next
    case (RRead d m)
    then show ?thesis using rb_read_ok [OF ok, of d m] by auto
  next
    case (RTake m)
    show ?thesis
    proof (cases "rb_size b = 0")
      case True
      then show ?thesis using RTake ok by simp
    next
      case False
      then have "rb_stream b \<noteq> []" using ok by (auto simp: rb_ok_def)
      then show ?thesis using rb_take_ok [OF ok, of m] False RTake by auto
    qed
  qed
qed simp

lemma sb_acknowledge_end: "sb_ok b \<Longrightarrow> unat (sb_end (sb_acknowledge b n)) \<le> unat (sb_end b)"
proof -
  assume ok: "sb_ok b"
  have "sb_end (sb_ackLoop b r) = sb_end b" for b r
    by (induction b r rule: sb_ackLoop.induct) (subst sb_ackLoop.simps, auto simp: Let_def sc_release_fields)
  then show ?thesis by (simp add: sb_acknowledge_def Let_def)
qed

interpretation sb: byte_stream sb_ok sb_stream sendStep sendInput "\<lambda>b. unat (sb_end b)" "\<lambda>n. n < 2 ^ 64"
proof
  fix b x
  assume ok: "sb_ok b" and fit: "unat (sb_end b) + length (sendInput x) < 2 ^ 64"
  show "\<exists>out b'. sendStep x b = Some (out, b') \<and> sb_ok b' \<and> out @ sb_stream b' = sb_stream b @ sendInput x \<and>
      unat (sb_end b') \<le> unat (sb_end b) + length (sendInput x)"
  proof (cases x)
    case (SAppend p)
    then show ?thesis using sb_append_ok [OF ok, of p] fit by auto
  next
    case (SAck n)
    then show ?thesis using sb_acknowledge_ok [OF ok, of n] sb_acknowledge_end [OF ok, of n] by simp
  qed
qed simp

text \<open>
  C21: over any sequence of \<open>append\<close>, \<open>read\<close> and \<open>take\<close> on a receive buffer, no operation panics, and
  the bytes handed to the application followed by the bytes still buffered are exactly the bytes
  appended, in order: none is lost, duplicated or reordered.
\<close>

theorem readBuffer_conserves:
  "\<exists>out b'. run_ops (readStep grow) ops rb_empty = Some (out, b') \<and> rb_ok b' \<and>
     out @ rb_stream b' = concat (map readInput ops)"
  using rb.run_conserves [OF rb_ok_empty, of grow ops] by (simp add: rb_stream_def rb_empty_def)

text \<open>
  C22: over any sequence of writes and acknowledgements on a send buffer that carries fewer than
  \<open>2^64\<close> bytes, no operation panics, and the bytes released by acknowledgements followed by the
  bytes still buffered are exactly the bytes written, in order.
\<close>

theorem sendBuffer_conserves:
  assumes "length (concat (map sendInput ops)) < 2 ^ 64"
  shows "\<exists>out b'. run_ops sendStep ops sb_clear = Some (out, b') \<and> sb_ok b' \<and>
     out @ sb_stream b' = concat (map sendInput ops)"
  using sb.run_conserves [OF sb_ok_clear, of ops] assms by (simp add: sb_stream_def sb_clear_def)

theorem sendBuffer_conserves_witness:
  "\<exists>out b'. run_ops sendStep [SAppend [1, 2, 3], SAck 2, SAppend [4]] sb_clear = Some (out, b') \<and> sb_ok b' \<and>
     out @ sb_stream b' = [1, 2, 3, 4]"
  using sendBuffer_conserves [of "[SAppend [1, 2, 3], SAck 2, SAppend [4]]"] by simp

text \<open>
  The scatter view of a send buffer that writes and acknowledgements can produce shows exactly
  the bytes at the requested offset, up to \<open>maximum\<close> of them, and a view of at most 65537 bytes
  never needs more than five pieces, so the panic on a sixth is unreachable for every TCP segment.
\<close>

theorem sendBuffer_view:
  assumes "length (concat (map sendInput ops)) < 2 ^ 64" "run_ops sendStep ops sb_clear = Some (out, b)"
    and "0 \<le> offset" "offset < sb_size b" "0 < maximum" "maximum \<le> 65537"
  shows "\<exists>pieces. sb_view b offset maximum = Some (sb_size b, pieces) \<and> length pieces \<le> 5 \<and>
     concat pieces = take (nat maximum) (drop (nat offset) (sb_stream b))"
  using sb_view_ok [of b offset maximum] sb.run_conserves [OF sb_ok_clear, of ops] assms
  by (auto simp: sb_clear_def)

lemma view_witness_run:
  "\<exists>b. run_ops sendStep [SAppend [1, 2, 3]] sb_clear = Some ([], b) \<and> sb_size b = 3 \<and> sb_stream b = [1, 2, 3]"
proof -
  obtain b where b: "sb_append sb_clear [1, 2, 3] = Some b" "sb_ok b" "sb_stream b = sb_stream sb_clear @ [1, 2, 3]"
    using sb_append_ok [OF sb_ok_clear, of "[1, 2, 3]"] by (auto simp: sb_clear_def)
  then have "sb_stream b = [1, 2, 3]" by (simp add: sb_clear_def sb_stream_def)
  then show ?thesis using b by (auto simp: sb_ok_def)
qed

theorem sendBuffer_view_witness:
  "\<exists>b pieces. run_ops sendStep [SAppend [1, 2, 3]] sb_clear = Some ([], b) \<and> sb_view b 1 10 = Some (3, pieces) \<and>
     length pieces \<le> 5 \<and> concat pieces = [2, 3]"
proof -
  obtain b where b: "run_ops sendStep [SAppend [1, 2, 3]] sb_clear = Some ([], b)" "sb_size b = 3" "sb_stream b = [1, 2, 3]"
    using view_witness_run by blast
  then show ?thesis using sendBuffer_view [OF _ b(1), of 1 10] by simp
qed

end
