(* ===== verification/Tcp_Receive.thy ===== *)
theory Tcp_Receive
  imports Tcp_Options Tcp_Buffers "HOL-Library.Product_Lexorder"
begin

text \<open>
  The receiving side of a TCP connection in \<^verbatim>\<open>src/tcp.go\<close>: trimming an arriving segment to the
  expected sequence number (\<open>receiveTCPData\<close>), keeping what arrives ahead of it
  (\<open>storeTCPOutOfOrder\<close>, \<open>normalizeTCPReceivedPieces\<close>), exposing what became contiguous
  (\<open>promoteTCPReceived\<close>, \<open>appendReadBuffer\<close>) and reporting the retained ranges
  (\<open>tcpSACKOptions\<close>, \<open>tcpDuplicateSACKBlock\<close>).

  The state that the source passes by pointer is passed explicitly. \<open>None\<close> is a slice panic.
  A payload is a list, so \<open>retainTCPPayload\<close>, which decides whether a slice must be copied to keep
  its backing array private, returns its argument. The mutex of the connection is not modelled:
  each operation here runs under it or on the actor's own state.
\<close>

section \<open>State\<close>

definition tcpMaximumOutOfOrder :: nat where "tcpMaximumOutOfOrder = 4096"

record tcpReceivedPiece =
  pc_sequence :: u32
  pc_payload :: bytes
  pc_fin :: bool

text \<open>
  The fields of \<open>TCPConn\<close> that the receive path uses. \<open>cn_readNotify\<close> is the one-slot channel that
  wakes the reader: \<open>None\<close> when it is \<open>nil\<close>, otherwise whether a token is pending.
\<close>

record tcpConn =
  cn_receiveCapacity :: int
  cn_readBuffer :: tcpReadBuffer
  cn_userClosed :: bool
  cn_readClosed :: bool
  cn_readNotify :: "bool option"
  cn_outOfOrderUnread :: int

text \<open>The pointer arguments of \<open>receiveTCPData\<close> with the connection.\<close>

record receiver =
  rc_conn :: tcpConn
  rc_next :: u32
  rc_pieces :: "tcpReceivedPiece list"
  rc_bytes :: int

section \<open>Storage of the connection\<close>

definition retainTCPPayload :: "bytes \<Rightarrow> bytes \<Rightarrow> bytes" where
  "retainTCPPayload payload owner = (if payload = [] then [] else payload)"

lemma retain_simp [simp]: "retainTCPPayload payload owner = payload"
  by (simp add: retainTCPPayload_def)

definition notifyReadLocked :: "tcpConn \<Rightarrow> tcpConn" where
  "notifyReadLocked c = (case cn_readNotify c of None \<Rightarrow> c | Some _ \<Rightarrow> c\<lparr>cn_readNotify := Some True\<rparr>)"

definition appendReadBuffer ::
  "(nat \<Rightarrow> nat) \<Rightarrow> tcpConn \<Rightarrow> bytes \<Rightarrow> bytes \<Rightarrow> int \<Rightarrow> u16 \<Rightarrow> tcpConn \<times> nat" where
  "appendReadBuffer grow c payload owner outOfOrderBytes extraCapacity =
     (let available = cn_receiveCapacity c - rb_size (cn_readBuffer c) - outOfOrderBytes;
          available = (if extraCapacity \<noteq> 0 then available + int (unat extraCapacity) else available)
      in if cn_userClosed c \<or> cn_readClosed c then (c, length payload)
         else let available = (if available < 0 then 0 else available);
                  payload = (if int (length payload) > available then take (nat available) payload else payload);
                  payload = retainTCPPayload payload owner;
                  c = c\<lparr>cn_readBuffer := rb_append grow (cn_readBuffer c) payload\<rparr>;
                  c = (if payload \<noteq> [] then notifyReadLocked c else c)
              in (c, length payload))"

definition receiveSpace :: "tcpConn \<Rightarrow> int \<Rightarrow> int \<times> int" where
  "receiveSpace c outOfOrderBytes =
     (let capacity = cn_receiveCapacity c;
          available = capacity - rb_size (cn_readBuffer c) - outOfOrderBytes;
          available = (if cn_userClosed c \<or> cn_readClosed c then capacity - outOfOrderBytes else available)
      in (available, capacity))"

definition receiveAvailable :: "tcpConn \<Rightarrow> int \<Rightarrow> int" where
  "receiveAvailable c outOfOrderBytes = fst (receiveSpace c outOfOrderBytes)"

definition connReceiveWindow :: "tcpConn \<Rightarrow> u8 \<Rightarrow> int \<Rightarrow> bool \<Rightarrow> u16" where
  "connReceiveWindow c receiveWindowScale outOfOrderBytes scaled =
     (let available = receiveAvailable c outOfOrderBytes in
      if available \<le> 0 then 0
      else let available = (if scaled then available div 2 ^ unat receiveWindowScale else available);
               available = (if available > 65535 then 65535 else available)
           in of_int available)"

section \<open>Normalisation of the retained ranges\<close>

text \<open>The end of a piece's payload, as a sequence number and as a distance from \<open>receiveNext\<close>.\<close>

abbreviation pc_end :: "tcpReceivedPiece \<Rightarrow> u32" where
  "pc_end p \<equiv> pc_sequence p + of_nat (length (pc_payload p))"

text \<open>\<open>sort.SliceStable\<close> by increasing distance, longer payloads first.\<close>

definition sortPieces :: "u32 \<Rightarrow> tcpReceivedPiece list \<Rightarrow> tcpReceivedPiece list" where
  "sortPieces receiveNext pieces =
     sort_key (\<lambda>p. (unat (pc_sequence p - receiveNext), - int (length (pc_payload p)))) pieces"

fun earliestFIN :: "u32 \<Rightarrow> tcpReceivedPiece list \<Rightarrow> u32 option \<Rightarrow> u32 option" where
  "earliestFIN receiveNext [] found = found"
| "earliestFIN receiveNext (piece # pieces) found =
     (if pc_fin piece then
        let offset = pc_sequence piece - receiveNext + of_nat (length (pc_payload piece)) in
        case found of
          None \<Rightarrow> earliestFIN receiveNext pieces (Some offset)
        | Some finOffset \<Rightarrow> earliestFIN receiveNext pieces (if offset < finOffset then Some offset else found)
      else earliestFIN receiveNext pieces found)"

text \<open>What the FIN leaves of a piece: \<open>None\<close> inside the option is \<open>continue\<close>.\<close>

definition clipAtFIN :: "u32 \<Rightarrow> u32 option \<Rightarrow> tcpReceivedPiece \<Rightarrow> tcpReceivedPiece option option" where
  "clipAtFIN receiveNext finOffset piece =
     (case finOffset of
        None \<Rightarrow> Some (Some piece)
      | Some fo \<Rightarrow>
          let pieceOffset = pc_sequence piece - receiveNext in
          if pieceOffset \<ge> fo then Some None
          else if pieceOffset + of_nat (length (pc_payload piece)) > fo then do {
            kept \<leftarrow> go_slice (pc_payload piece) 0 (unat (fo - pieceOffset));
            Some (Some (piece\<lparr>pc_payload := retainTCPPayload kept (pc_payload piece)\<rparr>)) }
          else Some (Some piece))"

definition addPiece :: "tcpReceivedPiece list \<Rightarrow> tcpReceivedPiece \<Rightarrow> tcpReceivedPiece list option" where
  "addPiece result piece =
     (if pc_payload piece = [] then Some result
      else if result = [] then Some [piece]
      else let previousEnd = pc_end (last result) in
        if tcpSequenceGreater previousEnd (pc_sequence piece) then
          let skip = previousEnd - pc_sequence piece in
          if skip < of_nat (length (pc_payload piece)) then do {
            rest \<leftarrow> go_slice (pc_payload piece) (unat skip) (length (pc_payload piece));
            Some (result @ [piece\<lparr>pc_sequence := pc_sequence piece + skip,
                              pc_payload := retainTCPPayload rest (pc_payload piece)\<rparr>]) }
          else Some result
        else Some (result @ [piece]))"

fun mergePieces ::
  "u32 \<Rightarrow> u32 option \<Rightarrow> tcpReceivedPiece list \<Rightarrow> tcpReceivedPiece list \<Rightarrow> tcpReceivedPiece list option" where
  "mergePieces receiveNext finOffset [] result = Some result"
| "mergePieces receiveNext finOffset (piece # pieces) result = do {
     clipped \<leftarrow> clipAtFIN receiveNext finOffset (piece\<lparr>pc_fin := False\<rparr>);
     result' \<leftarrow> (case clipped of None \<Rightarrow> Some result | Some p \<Rightarrow> addPiece result p);
     mergePieces receiveNext finOffset pieces result' }"

definition attachFIN :: "u32 \<Rightarrow> u32 option \<Rightarrow> tcpReceivedPiece list \<Rightarrow> tcpReceivedPiece list" where
  "attachFIN receiveNext finOffset result =
     (case finOffset of
        None \<Rightarrow> result
      | Some fo \<Rightarrow>
          let finSequence = receiveNext + fo in
          if result \<noteq> [] \<and> pc_end (last result) = finSequence
          then butlast result @ [(last result)\<lparr>pc_fin := True\<rparr>]
          else result @ [\<lparr>pc_sequence = finSequence, pc_payload = [], pc_fin = True\<rparr>])"

definition normalizeTCPReceivedPieces :: "u32 \<Rightarrow> tcpReceivedPiece list \<Rightarrow> tcpReceivedPiece list option" where
  "normalizeTCPReceivedPieces receiveNext pieces = do {
     let pieces = sortPieces receiveNext pieces;
     let finOffset = earliestFIN receiveNext pieces None;
     result \<leftarrow> mergePieces receiveNext finOffset pieces [];
     Some (attachFIN receiveNext finOffset result) }"

section \<open>Out-of-order data\<close>

fun existingFIN :: "tcpReceivedPiece list \<Rightarrow> u32 option" where
  "existingFIN [] = None"
| "existingFIN (existing # pieces) = (if pc_fin existing then Some (pc_end existing) else existingFIN pieces)"

text \<open>
  \<open>uncovered\<close>: the loop that cuts the incoming payload into the fragments that no retained piece
  covers. \<open>start\<close> and \<open>stop\<close> are the distances of the payload's ends, \<open>cursor\<close> the distance reached.
\<close>

definition lastFragment :: "bytes \<Rightarrow> u32 \<Rightarrow> u32 \<Rightarrow> u32 \<Rightarrow> (u32 \<times> bytes) list \<Rightarrow> (u32 \<times> bytes) list option" where
  "lastFragment payload start stop cursor fragments =
     (if cursor < stop then do {
        part \<leftarrow> go_slice payload (unat (cursor - start)) (length payload);
        Some (fragments @ [(cursor, part)]) }
      else Some fragments)"

fun uncovered ::
  "u32 \<Rightarrow> bytes \<Rightarrow> u32 \<Rightarrow> u32 \<Rightarrow> tcpReceivedPiece list \<Rightarrow> u32 \<Rightarrow> (u32 \<times> bytes) list \<Rightarrow> (u32 \<times> bytes) list option" where
  "uncovered receiveNext payload start stop [] cursor fragments = lastFragment payload start stop cursor fragments"
| "uncovered receiveNext payload start stop (existing # pieces) cursor fragments =
     (let existingStart = pc_sequence existing - receiveNext;
          existingEnd = existingStart + of_nat (length (pc_payload existing))
      in if existingEnd \<le> cursor then uncovered receiveNext payload start stop pieces cursor fragments
         else if existingStart \<ge> stop then lastFragment payload start stop cursor fragments
         else do {
           fragments' \<leftarrow> (if cursor < existingStart then
               let fragmentEnd = (if existingStart > stop then stop else existingStart) in do {
                 part \<leftarrow> go_slice payload (unat (cursor - start)) (unat (fragmentEnd - start));
                 Some (fragments @ [(cursor, part)]) }
             else Some fragments);
           let cursor' = (if existingEnd > cursor then existingEnd else cursor);
           if cursor' \<ge> stop then lastFragment payload start stop cursor' fragments'
           else uncovered receiveNext payload start stop pieces cursor' fragments' })"

text \<open>
  \<open>storeTCPOutOfOrder\<close>. The payload is first cut to the window (\<open>windowPart\<close>) and to a FIN that is
  already known (\<open>beforeFIN\<close>); \<open>cap\<close> is \<open>cap(*outOfOrder)\<close>. The result is the new receiver and whether
  anything was retained.
\<close>

definition beforeFIN :: "u32 \<Rightarrow> bytes \<Rightarrow> u32 option \<Rightarrow> bytes option" where
  "beforeFIN sequence payload fin =
     (case fin of
        None \<Rightarrow> Some payload
      | Some existingFINSequence \<Rightarrow>
          if tcpSequenceGreater (sequence + of_nat (length payload)) existingFINSequence then
            if \<not> tcpSequenceLess sequence existingFINSequence then Some []
            else go_slice payload 0 (unat (existingFINSequence - sequence))
          else Some payload)"

definition storeTCPOutOfOrder ::
  "nat \<Rightarrow> receiver \<Rightarrow> u32 \<Rightarrow> u16 \<Rightarrow> u32 \<Rightarrow> bytes \<Rightarrow> bytes \<Rightarrow> bool \<Rightarrow> (receiver \<times> bool) option" where
  "storeTCPOutOfOrder cap r receiveWindow receiveExtra sequence payload owner fin =
     (let receiveNext = rc_next r;
          distance = sequence - receiveNext;
          available = receiveAvailable (rc_conn r) (rc_bytes r) + int (unat receiveExtra);
          available = (if available < 0 then 0 else available)
      in if distance \<ge> receiveWindow \<and> \<not> (distance = 0 \<and> payload = [] \<and> fin) then Some (r, False)
      else do {
        let originalPayloadSize = length payload;
        let maximumPayload = unat (receiveWindow - distance);
        let payload = (if length payload > maximumPayload then take maximumPayload payload else payload);
        let fin = (fin \<and> (distance = 0 \<and> payload = [] \<or>
                    unat distance + originalPayloadSize < unat receiveWindow));
        let incomingFINSequence = sequence + of_nat originalPayloadSize;
        let existing = existingFIN (rc_pieces r);
        let fin = (case existing of None \<Rightarrow> fin
                   | Some e \<Rightarrow> fin \<and> \<not> tcpSequenceGreater incomingFINSequence e);
        payload \<leftarrow> beforeFIN sequence payload existing;
        fragments \<leftarrow> (if payload \<noteq> [] then
            uncovered receiveNext payload distance (distance + of_nat (length payload)) (rc_pieces r) distance []
          else Some []);
        let addedBytes = int (sum_list (map (length \<circ> snd) fragments));
        let upperCount = length (rc_pieces r) + length fragments + (if fin then 1 else 0);
        let reuseScoreboard = (addedBytes \<le> available \<and> upperCount \<le> tcpMaximumOutOfOrder \<and> cap \<ge> upperCount);
        let candidate = rc_pieces r @
              map (\<lambda>(offset, part). \<lparr>pc_sequence = receiveNext + offset,
                      pc_payload = retainTCPPayload part owner, pc_fin = False\<rparr>) fragments @
              (if fin then [\<lparr>pc_sequence = incomingFINSequence, pc_payload = [], pc_fin = True\<rparr>] else []);
        candidate \<leftarrow> normalizeTCPReceivedPieces receiveNext candidate;
        let bytes = int (sum_list (map (length \<circ> pc_payload) candidate));
        if (bytes > rc_bytes r + available \<or> length candidate > tcpMaximumOutOfOrder) \<and> \<not> reuseScoreboard
        then Some (r, False)
        else Some (r\<lparr>rc_pieces := candidate, rc_bytes := bytes,
                     rc_conn := (rc_conn r)\<lparr>cn_outOfOrderUnread := bytes\<rparr>\<rparr>,
                   fragments \<noteq> [] \<or> fin) })"

section \<open>Delivery\<close>

text \<open>
  What remains of a payload at \<open>sequence\<close> once the octets before \<open>receiveNext\<close> are dropped: the same
  lines open \<open>receiveTCPData\<close> and the loop of \<open>promoteTCPReceived\<close>.
\<close>

definition trimReceived :: "u32 \<Rightarrow> u32 \<Rightarrow> bytes \<Rightarrow> bool \<Rightarrow> (u32 \<times> bytes \<times> bool) option" where
  "trimReceived receiveNext sequence payload fin =
     (let finSequence = sequence + of_nat (length payload) in
      if tcpSequenceLess sequence receiveNext then
        let skip = receiveNext - sequence in
        if skip < of_nat (length payload) then do {
          rest \<leftarrow> go_slice payload (unat skip) (length payload);
          Some (receiveNext, rest, fin) }
        else Some (receiveNext, [], fin \<and> finSequence = receiveNext)
      else Some (sequence, payload, fin))"

text \<open>The loop of \<open>promoteTCPReceived\<close>; the result adds \<open>delivered\<close> and \<open>remoteClosed\<close> to the state.\<close>

fun promoteLoop ::
  "(nat \<Rightarrow> nat) \<Rightarrow> u16 \<Rightarrow> tcpConn \<Rightarrow> u32 \<Rightarrow> int \<Rightarrow> bool \<Rightarrow> tcpReceivedPiece list \<Rightarrow>
   (receiver \<times> bool \<times> bool) option" where
  "promoteLoop grow receiveExtra c receiveNext bytes delivered [] =
     Some (\<lparr>rc_conn = c, rc_next = receiveNext, rc_pieces = [], rc_bytes = bytes\<rparr>, delivered, False)"
| "promoteLoop grow receiveExtra c receiveNext bytes delivered (piece # pieces) =
     (if tcpSequenceGreater (pc_sequence piece) receiveNext
      then Some (\<lparr>rc_conn = c, rc_next = receiveNext, rc_pieces = piece # pieces, rc_bytes = bytes\<rparr>, delivered, False)
      else do {
        let owner = pc_payload piece;
        let bytes = bytes - int (length (pc_payload piece));
        (sequence, payload, fin) \<leftarrow> trimReceived receiveNext (pc_sequence piece) (pc_payload piece) (pc_fin piece);
        let (c, accepted) = appendReadBuffer grow c payload owner bytes receiveExtra;
        let receiveNext = receiveNext + of_nat accepted;
        let delivered = (delivered \<or> accepted \<noteq> 0);
        if accepted \<noteq> length payload then do {
          rest \<leftarrow> go_slice payload accepted (length payload);
          let remaining = retainTCPPayload rest owner;
          Some (\<lparr>rc_conn = c, rc_next = receiveNext,
                 rc_pieces = \<lparr>pc_sequence = receiveNext, pc_payload = remaining, pc_fin = fin\<rparr> # pieces,
                 rc_bytes = bytes + int (length remaining)\<rparr>, delivered, False) }
        else if fin
          then Some (\<lparr>rc_conn = c, rc_next = receiveNext + 1, rc_pieces = [], rc_bytes = 0\<rparr>, delivered, True)
        else promoteLoop grow receiveExtra c receiveNext bytes delivered pieces })"

definition promoteTCPReceived :: "(nat \<Rightarrow> nat) \<Rightarrow> u16 \<Rightarrow> receiver \<Rightarrow> (receiver \<times> bool \<times> bool) option" where
  "promoteTCPReceived grow receiveExtra r = do {
     (r', delivered, remoteClosed) \<leftarrow>
        promoteLoop grow receiveExtra (rc_conn r) (rc_next r) (rc_bytes r) False (rc_pieces r);
     Some (r'\<lparr>rc_conn := (rc_conn r')\<lparr>cn_outOfOrderUnread := rc_bytes r'\<rparr>\<rparr>, delivered \<or> remoteClosed, remoteClosed) }"

definition receiveInOrder ::
  "(nat \<Rightarrow> nat) \<Rightarrow> receiver \<Rightarrow> bytes \<Rightarrow> bytes \<Rightarrow> bool \<Rightarrow> u32 \<Rightarrow> u16 \<Rightarrow> receiver \<times> bool \<times> bool" where
  "receiveInOrder grow r payload owner fin receiveWindow receiveExtra =
     (let originalPayloadSize = length payload;
          payload = (if length payload > unat receiveWindow then take (unat receiveWindow) payload else payload);
          (c, accepted) = appendReadBuffer grow (rc_conn r) payload owner 0 receiveExtra;
          receiveNext = rc_next r + of_nat accepted;
          closed = (fin \<and> accepted = originalPayloadSize \<and>
                    (originalPayloadSize = 0 \<or> originalPayloadSize < unat receiveWindow));
          receiveNext = (if closed then receiveNext + 1 else receiveNext)
      in (r\<lparr>rc_conn := c\<lparr>cn_outOfOrderUnread := 0\<rparr>, rc_next := receiveNext\<rparr>, accepted \<noteq> 0 \<or> closed, closed))"

definition receiveTCPData ::
  "(nat \<Rightarrow> nat) \<Rightarrow> nat \<Rightarrow> receiver \<Rightarrow> u32 \<Rightarrow> bytes \<Rightarrow> bool \<Rightarrow> u32 \<Rightarrow> u16 \<Rightarrow> (receiver \<times> bool \<times> bool) option" where
  "receiveTCPData grow cap r sequence payload fin receiveWindow receiveExtra = do {
     let owner = payload;
     (sequence, payload, fin) \<leftarrow> trimReceived (rc_next r) sequence payload fin;
     if sequence = rc_next r \<and> rc_pieces r = []
     then Some (receiveInOrder grow r payload owner fin receiveWindow receiveExtra)
     else do {
       (r', stored) \<leftarrow> storeTCPOutOfOrder cap r receiveWindow receiveExtra sequence payload owner fin;
       if \<not> stored \<and> tcpSequenceGreater sequence (rc_next r') then Some (r', False, False)
       else promoteTCPReceived grow receiveExtra r' } }"

section \<open>Reporting retained ranges\<close>

text \<open>
  \<open>tcpReceivedSACKBlockForward\<close> and \<open>tcpReceivedSACKBlockBackward\<close>. The backward iterator returns
  one more than the index of the source, so that \<open>0\<close> stands for \<open>-1\<close>.
\<close>

definition pieceRight :: "tcpReceivedPiece \<Rightarrow> u32" where
  "pieceRight piece = (if pc_fin piece then pc_end piece + 1 else pc_end piece)"

primrec forwardLoop :: "tcpReceivedPiece list \<Rightarrow> nat \<Rightarrow> tcpSACKBlock \<Rightarrow> tcpSACKBlock \<times> nat" where
  "forwardLoop [] index block = (block, index)"
| "forwardLoop (piece # pieces) index block =
     (let right = pieceRight piece in
      if tcpSequenceGreater (pc_sequence piece) (RightEdge block) then (block, index)
      else forwardLoop pieces (Suc index)
             (if tcpSequenceGreater right (RightEdge block) then block\<lparr>RightEdge := right\<rparr> else block))"

definition tcpReceivedSACKBlockForward :: "tcpReceivedPiece list \<Rightarrow> nat \<Rightarrow> (tcpSACKBlock \<times> nat) option" where
  "tcpReceivedSACKBlockForward pieces index = do {
     piece \<leftarrow> go_index pieces index;
     Some (forwardLoop (drop (Suc index) pieces) (Suc index)
             \<lparr>LeftEdge = pc_sequence piece, RightEdge = pieceRight piece\<rparr>) }"

primrec backwardLoop :: "tcpReceivedPiece list \<Rightarrow> tcpSACKBlock \<Rightarrow> tcpSACKBlock \<times> nat" where
  "backwardLoop [] block = (block, 0)"
| "backwardLoop (piece # below) block =
     (let right = pieceRight piece in
      if tcpSequenceGreater (LeftEdge block) right then (block, Suc (length below))
      else backwardLoop below (\<lparr>LeftEdge = pc_sequence piece,
             RightEdge = (if tcpSequenceGreater right (RightEdge block) then right else RightEdge block)\<rparr>))"

definition tcpReceivedSACKBlockBackward :: "tcpReceivedPiece list \<Rightarrow> nat \<Rightarrow> (tcpSACKBlock \<times> nat) option" where
  "tcpReceivedSACKBlockBackward pieces index = do {
     piece \<leftarrow> go_index pieces index;
     Some (backwardLoop (rev (take index pieces))
             \<lparr>LeftEdge = pc_sequence piece, RightEdge = pieceRight piece\<rparr>) }"

lemma forwardLoop_index: "index \<le> snd (forwardLoop ps index block)"
proof (induction ps arbitrary: index block)
  case (Cons p ps)
  have "index \<le> snd (forwardLoop ps (Suc index) b)" for b using Cons [of "Suc index" b] by linarith
  then show ?case by (simp add: Let_def)
qed simp

lemma backwardLoop_index: "snd (backwardLoop ps block) \<le> length ps"
proof (induction ps arbitrary: block)
  case (Cons p ps)
  have "snd (backwardLoop ps b) \<le> Suc (length ps)" for b using Cons [of b] by linarith
  then show ?case by (simp add: Let_def)
qed simp

text \<open>The search for the range that holds the sequence number which triggered the acknowledgement.\<close>

function recentFrom :: "tcpReceivedPiece list \<Rightarrow> u32 \<Rightarrow> nat \<Rightarrow> tcpSACKBlock option option" where
  "recentFrom pieces recent index =
     (if index < length pieces then
        case tcpReceivedSACKBlockForward pieces index of
          None \<Rightarrow> None
        | Some (block, nxt) \<Rightarrow>
            if tcpSequenceGreaterEqual recent (LeftEdge block) \<and> tcpSequenceLess recent (RightEdge block)
            then Some (Some block)
            else recentFrom pieces recent nxt
      else Some None)"
  by pat_completeness auto
termination
proof (relation "measure (\<lambda>(pieces, recent, index). length pieces - index)")
  fix pieces recent index x2 block nxt
  assume "index < length pieces" "tcpReceivedSACKBlockForward pieces index = Some x2" "(block, nxt) = x2"
  then have "Suc index \<le> nxt"
    using forwardLoop_index [of "Suc index"] by (auto simp: tcpReceivedSACKBlockForward_def go_index_in) (metis snd_conv)
  then show "((pieces, recent, nxt), pieces, recent, index) \<in> measure (\<lambda>(pieces, recent, index). length pieces - index)"
    using \<open>index < length pieces\<close> by simp
qed simp

declare recentFrom.simps [simp del]

text \<open>The ranges from the highest downwards, up to \<open>maximumBlocks\<close>; \<open>count\<close> pieces are still to be seen.\<close>

function higherBlocks ::
  "tcpReceivedPiece list \<Rightarrow> nat \<Rightarrow> tcpSACKBlock option \<Rightarrow> nat \<Rightarrow> tcpSACKBlock list \<Rightarrow> tcpSACKBlock list option" where
  "higherBlocks pieces maximumBlocks recentBlock count ordered =
     (if count > 0 \<and> length ordered < maximumBlocks then
        case tcpReceivedSACKBlockBackward pieces (count - 1) of
          None \<Rightarrow> None
        | Some (block, previous) \<Rightarrow>
            higherBlocks pieces maximumBlocks recentBlock previous
              (if recentBlock = Some block then ordered else ordered @ [block])
      else Some ordered)"
  by pat_completeness auto
termination
proof (relation "measure (\<lambda>(pieces, maximumBlocks, recentBlock, count, ordered). count)")
  fix pieces :: "tcpReceivedPiece list" and maximumBlocks recentBlock count ordered x2 block previous
  assume "0 < count \<and> length (ordered :: tcpSACKBlock list) < maximumBlocks"
    and "tcpReceivedSACKBlockBackward pieces (count - 1) = Some x2" "(block, previous) = x2"
  then have "previous \<le> count - 1"
    using backwardLoop_index [of "rev (take (count - 1) pieces)"]
    by (auto simp: tcpReceivedSACKBlockBackward_def go_index_def split: if_splits) (metis min.absorb2 snd_conv less_imp_le)
  then show "((pieces, maximumBlocks, recentBlock, previous, if recentBlock = Some block then ordered else ordered @ [block]),
      (pieces, maximumBlocks, recentBlock, count, ordered)) \<in> measure (\<lambda>(pieces, maximumBlocks, recentBlock, count, ordered). count)"
    using \<open>0 < count \<and> _\<close> by simp linarith
qed simp

declare higherBlocks.simps [simp del]

definition tcpSACKOptions ::
  "tcpReceivedPiece list \<Rightarrow> u32 \<Rightarrow> int \<Rightarrow> tcpSACKBlock \<Rightarrow> bool \<Rightarrow> bytes option" where
  "tcpSACKOptions pieces recent maximumBlocks dsack haveDSACK =
     (if maximumBlocks < 1 then Some []
      else do {
        let maximumBlocks = (if maximumBlocks > 4 then 4 else nat maximumBlocks);
        recentBlock \<leftarrow> recentFrom pieces recent 0;
        let ordered = (if haveDSACK then [dsack] else []);
        let ordered = (case recentBlock of
            Some block \<Rightarrow> (if length ordered < maximumBlocks then ordered @ [block] else ordered)
          | None \<Rightarrow> ordered);
        ordered \<leftarrow> higherBlocks pieces maximumBlocks recentBlock (length pieces) ordered;
        if ordered = [] then Some []
        else Some (TCPHeaderOptionSACK # of_nat (2 + 8 * length ordered) # concat (map putBlock ordered)) })"

fun duplicateIn :: "u32 \<Rightarrow> u32 \<Rightarrow> u32 \<Rightarrow> tcpReceivedPiece list \<Rightarrow> tcpSACKBlock \<times> bool" where
  "duplicateIn receiveNext incomingStart incomingEnd [] = (zeroBlock, False)"
| "duplicateIn receiveNext incomingStart incomingEnd (piece # pieces) =
     (let pieceStart = pc_sequence piece - receiveNext;
          pieceEnd = pieceStart + of_nat (length (pc_payload piece));
          pieceEnd = (if pc_fin piece then pieceEnd + 1 else pieceEnd);
          left = (if pieceStart > incomingStart then pieceStart else incomingStart);
          right = (if pieceEnd < incomingEnd then pieceEnd else incomingEnd)
      in if left < right then (\<lparr>LeftEdge = receiveNext + left, RightEdge = receiveNext + right\<rparr>, True)
         else duplicateIn receiveNext incomingStart incomingEnd pieces)"

definition tcpDuplicateSACKBlock ::
  "u32 \<Rightarrow> nat \<Rightarrow> bool \<Rightarrow> u32 \<Rightarrow> tcpReceivedPiece list \<Rightarrow> tcpSACKBlock \<times> bool" where
  "tcpDuplicateSACKBlock sequence payloadLength fin receiveNext pieces =
     (let len = (of_nat payloadLength :: u32);
          len = (if fin then len + 1 else len)
      in if len = 0 then (zeroBlock, False)
      else let stop = sequence + len;
               right = (if tcpSequenceGreater stop receiveNext then receiveNext else stop)
           in if tcpSequenceLess sequence receiveNext \<and> tcpSequenceGreater right sequence
              then (\<lparr>LeftEdge = sequence, RightEdge = right\<rparr>, True)
              else let sequence = (if tcpSequenceLess sequence receiveNext then receiveNext else sequence);
                       incomingStart = sequence - receiveNext;
                       incomingEnd = stop - receiveNext
                   in if incomingStart \<ge> incomingEnd then (zeroBlock, False)
                      else duplicateIn receiveNext incomingStart incomingEnd pieces)"

end
