(* ===== verification/Tcp_Reassembly.thy ===== *)
theory Tcp_Reassembly
  imports Tcp_Receive
begin

text \<open>
  The reassembly queue: what \<open>normalizeTCPReceivedPieces\<close> and \<open>storeTCPOutOfOrder\<close> do with the
  retained ranges, for any segments. Ranges are measured by their distance from RCV.NXT: \<open>pc_off\<close>
  is where a piece starts, \<open>pc_pend\<close> where its payload ends, \<open>pcs_cover\<close> the octets of a list of
  pieces. A list is well formed (\<open>wf_pieces\<close>) when its pieces are in order, do not overlap and only
  the last may be a FIN. \<open>subpiece\<close> says that one piece carries a part of the octets of another.
\<close>

section \<open>Pieces as ranges\<close>

definition pc_off :: "u32 \<Rightarrow> tcpReceivedPiece \<Rightarrow> nat" where "pc_off rn p = unat (pc_sequence p - rn)"

definition pc_pend :: "u32 \<Rightarrow> tcpReceivedPiece \<Rightarrow> nat" where "pc_pend rn p = pc_off rn p + length (pc_payload p)"

definition pcs_cover :: "u32 \<Rightarrow> tcpReceivedPiece list \<Rightarrow> nat set" where
  "pcs_cover rn ps = (\<Union>p \<in> set ps. {pc_off rn p ..< pc_pend rn p})"

definition pcs_bounded :: "u32 \<Rightarrow> tcpReceivedPiece list \<Rightarrow> bool" where
  "pcs_bounded rn ps \<longleftrightarrow> (\<forall>p \<in> set ps. pc_pend rn p < 2147483648)"

definition pcs_ordered :: "u32 \<Rightarrow> tcpReceivedPiece list \<Rightarrow> bool" where
  "pcs_ordered rn ps \<longleftrightarrow> sorted_wrt (\<lambda>p q. pc_pend rn p \<le> pc_off rn q) ps"

definition pcs_plain :: "tcpReceivedPiece list \<Rightarrow> bool" where
  "pcs_plain ps \<longleftrightarrow> (\<forall>p \<in> set ps. pc_payload p \<noteq> [] \<and> \<not> pc_fin p)"

definition subpiece :: "u32 \<Rightarrow> tcpReceivedPiece \<Rightarrow> tcpReceivedPiece \<Rightarrow> bool" where
  "subpiece rn q p \<longleftrightarrow> pc_off rn p \<le> pc_off rn q \<and> pc_pend rn q \<le> pc_pend rn p \<and>
     pc_payload q = take (length (pc_payload q)) (drop (pc_off rn q - pc_off rn p) (pc_payload p))"

definition wf_pieces :: "u32 \<Rightarrow> tcpReceivedPiece list \<Rightarrow> bool" where
  "wf_pieces rn ps \<longleftrightarrow> pcs_bounded rn ps \<and> pcs_ordered rn ps \<and> pcs_plain (butlast ps) \<and>
     (ps \<noteq> [] \<longrightarrow> pc_payload (last ps) \<noteq> [] \<or> pc_fin (last ps))"

lemma cover_simps [simp]: "pcs_cover rn [] = {}" "pcs_cover rn (p # ps) = {pc_off rn p ..< pc_pend rn p} \<union> pcs_cover rn ps"
  "pcs_cover rn (ps @ qs) = pcs_cover rn ps \<union> pcs_cover rn qs"
  by (auto simp: pcs_cover_def)

lemma bounded_simps [simp]: "pcs_bounded rn []" "pcs_bounded rn (p # ps) \<longleftrightarrow> pc_pend rn p < 2147483648 \<and> pcs_bounded rn ps"
  "pcs_bounded rn (ps @ qs) \<longleftrightarrow> pcs_bounded rn ps \<and> pcs_bounded rn qs"
  by (auto simp: pcs_bounded_def)

lemma subpiece_refl [simp]: "subpiece rn p p" by (simp add: subpiece_def)

lemma subpiece_trans: "subpiece rn a b \<Longrightarrow> subpiece rn b c \<Longrightarrow> subpiece rn a c"
proof -
  assume ab: "subpiece rn a b" and bc: "subpiece rn b c"
  have e: "pc_off rn a - pc_off rn c = (pc_off rn a - pc_off rn b) + (pc_off rn b - pc_off rn c)" 
    using ab bc by (auto simp: subpiece_def)
  have "pc_payload a = take (length (pc_payload a)) (drop (pc_off rn a - pc_off rn b) (take (length (pc_payload b)) (drop (pc_off rn b - pc_off rn c) (pc_payload c))))"
    using ab bc by (auto simp: subpiece_def)
  also have "\<dots> = take (length (pc_payload a)) (drop (pc_off rn a - pc_off rn c) (pc_payload c))"
  proof -
    have "length (pc_payload a) \<le> length (pc_payload b) - (pc_off rn a - pc_off rn b)"
      using ab unfolding subpiece_def pc_pend_def by linarith
    then show ?thesis by (simp add: drop_take min_absorb1 e)
  qed
  finally show ?thesis using ab bc unfolding subpiece_def by (meson le_trans)
qed

lemma pend_word: "pc_pend rn p < 4294967296 \<Longrightarrow> unat (pc_sequence p - rn + of_nat (length (pc_payload p))) = pc_pend rn p"
  by (simp add: pc_pend_def pc_off_def unat_add_u32 unat_of_nat_u32)

lemma unat_pc_end: "pc_pend rn p < 4294967296 \<Longrightarrow> unat (pc_end p - rn) = pc_pend rn p"
  using pend_word [of rn p] by (simp only: add_diff_eq diff_add_eq)

section \<open>Cutting at a FIN\<close>

lemma earliestFIN_spec:
  assumes "pcs_bounded rn ps"
  shows "(case earliestFIN rn ps found of
     None \<Rightarrow> found = None \<and> (\<forall>p \<in> set ps. \<not> pc_fin p)
   | Some fo \<Rightarrow> (found = Some fo \<or> (\<exists>p \<in> set ps. pc_fin p \<and> unat fo = pc_pend rn p)) \<and>
       (\<forall>g. found = Some g \<longrightarrow> fo \<le> g) \<and> (\<forall>p \<in> set ps. pc_fin p \<longrightarrow> unat fo \<le> pc_pend rn p))"
  using assms
proof (induction ps arbitrary: found)
  case (Cons p ps)
  have e: "unat (pc_sequence p - rn + of_nat (length (pc_payload p))) = pc_pend rn p" using Cons.prems by (intro pend_word) simp
  show ?case
  proof (cases "pc_fin p")
    case False
    then show ?thesis using Cons.IH [of found] Cons.prems by (auto split: option.splits)
  next
    case True
    define w where w: "w = pc_sequence p - rn + of_nat (length (pc_payload p))"
    define f where f: "f = (case found of None \<Rightarrow> Some w | Some g \<Rightarrow> if w < g then Some w else found)"
    have s: "earliestFIN rn (p # ps) found = earliestFIN rn ps f"
      using True by (simp add: w f Let_def split: option.splits)
    have fw: "\<exists>g. f = Some g \<and> g \<le> w \<and> (g = w \<or> found = Some g) \<and> (\<forall>h. found = Some h \<longrightarrow> g \<le> h)"
      by (auto simp: f split: option.splits)
    show ?thesis using Cons.IH [of f] Cons.prems fw True unfolding s
      by (auto simp: e [folded w] word_le_nat_alt split: option.splits intro: le_trans)
  qed
qed (simp split: option.splits)

lemma clip_sub:
  assumes p: "pc_pend rn p < 2147483648" and fo: "unat fo < 2147483648"
  shows "pc_off rn p < unat fo \<Longrightarrow> \<exists>q. clipAtFIN rn (Some fo) p = Some (Some q) \<and> pc_fin q = pc_fin p \<and>
    pc_off rn q = pc_off rn p \<and> pc_pend rn q = min (pc_pend rn p) (unat fo) \<and> subpiece rn q p"
   "\<not> pc_off rn p < unat fo \<Longrightarrow> clipAtFIN rn (Some fo) p = Some None"
proof -
  have e: "unat (pc_sequence p - rn + of_nat (length (pc_payload p))) = pc_pend rn p" using p by (intro pend_word) simp
  { assume lt: "pc_off rn p < unat fo"
    have s: "unat (fo - (pc_sequence p - rn)) = unat fo - pc_off rn p" using lt by (simp add: pc_off_def unat_sub_u32)
    show "\<exists>q. clipAtFIN rn (Some fo) p = Some (Some q) \<and> pc_fin q = pc_fin p \<and>
    pc_off rn q = pc_off rn p \<and> pc_pend rn q = min (pc_pend rn p) (unat fo) \<and> subpiece rn q p"
    proof (cases "unat fo < pc_pend rn p")
      case True
      let ?q = "p\<lparr>pc_payload := take (unat fo - pc_off rn p) (pc_payload p)\<rparr>"
      have "go_slice (pc_payload p) 0 (unat fo - pc_off rn p) = Some (take (unat fo - pc_off rn p) (pc_payload p))"
        using True lt by (simp add: go_slice_def pc_pend_def)
      then have "clipAtFIN rn (Some fo) p = Some (Some ?q)"
        using True lt s by (simp add: clipAtFIN_def Let_def word_le_nat_alt word_less_nat_alt e pc_off_def)
      then show ?thesis using True lt by (auto simp: pc_off_def pc_pend_def subpiece_def)
    next
      case False
      have "clipAtFIN rn (Some fo) p = Some (Some p)"
        using False lt by (simp add: clipAtFIN_def Let_def word_le_nat_alt word_less_nat_alt e pc_off_def)
      then show ?thesis using False by auto
    qed }
  assume "\<not> pc_off rn p < unat fo"
  then show "clipAtFIN rn (Some fo) p = Some None"
    by (simp add: clipAtFIN_def Let_def word_le_nat_alt pc_off_def)
qed

section \<open>Merging\<close>

text \<open>The merge keeps every octet below the end of what it has produced.\<close>

definition pcs_reached :: "u32 \<Rightarrow> nat \<Rightarrow> tcpReceivedPiece list \<Rightarrow> bool" where
  "pcs_reached rn m R \<longleftrightarrow> (R \<noteq> [] \<longrightarrow> {m ..< pc_pend rn (last R)} \<subseteq> pcs_cover rn R)"

lemma ordered_snoc: "pcs_ordered rn (R @ [q]) \<longleftrightarrow> pcs_ordered rn R \<and> (\<forall>p \<in> set R. pc_pend rn p \<le> pc_off rn q)"
  by (auto simp: pcs_ordered_def sorted_wrt_append)

lemma ordered_single [simp]: "pcs_ordered rn []" "pcs_ordered rn [p]"
  by (simp_all add: pcs_ordered_def)

lemma plain_simps [simp]: "pcs_plain []" "pcs_plain (p # ps) \<longleftrightarrow> pc_payload p \<noteq> [] \<and> \<not> pc_fin p \<and> pcs_plain ps"
  "pcs_plain (ps @ qs) \<longleftrightarrow> pcs_plain ps \<and> pcs_plain qs"
  by (auto simp: pcs_plain_def)

lemma ordered_last: "pcs_ordered rn R \<Longrightarrow> p \<in> set R \<Longrightarrow> pc_pend rn p \<le> pc_pend rn (last R)"
proof (cases R rule: rev_cases)
  case (snoc ys y)
  assume "pcs_ordered rn R" "p \<in> set R"
  then show ?thesis using snoc by (auto simp: ordered_snoc pc_pend_def intro: le_trans)
qed simp

text \<open>A merged list holds non-empty pieces without FIN.\<close>

definition pcs_merged :: "u32 \<Rightarrow> tcpReceivedPiece list \<Rightarrow> bool" where
  "pcs_merged rn R \<longleftrightarrow> pcs_bounded rn R \<and> pcs_ordered rn R \<and> pcs_plain R"

lemma merged_snoc:
  "pcs_merged rn R \<Longrightarrow> pc_pend rn q < 2147483648 \<Longrightarrow> pc_payload q \<noteq> [] \<Longrightarrow> \<not> pc_fin q \<Longrightarrow>
   (R \<noteq> [] \<Longrightarrow> pc_pend rn (last R) \<le> pc_off rn q) \<Longrightarrow> pcs_merged rn (R @ [q])"
  using ordered_last [of rn R] by (cases "R = []") (auto simp: pcs_merged_def ordered_snoc intro: le_trans)

lemma addPiece_ok:
  assumes R: "pcs_merged rn R" "pcs_reached rn m R" and p: "pc_pend rn p < 2147483648" "\<not> pc_fin p" "m \<le> pc_off rn p"
  shows "\<exists>R'. addPiece R p = Some R' \<and> pcs_merged rn R' \<and> pcs_reached rn (pc_off rn p) R' \<and>
    pcs_cover rn R' = pcs_cover rn R \<union> {pc_off rn p ..< pc_pend rn p} \<and> (\<forall>q \<in> set R'. q \<in> set R \<or> subpiece rn q p) \<and>
    length R' \<le> length R + (if pc_payload p = [] then 0 else 1)"
proof -
  have mono: "pcs_reached rn (pc_off rn p) R" using R(2) p(3) by (auto simp: pcs_reached_def subset_eq)
  show ?thesis
  proof (cases "pc_payload p = [] \<or> R = []")
    case True
    then show ?thesis using R p mono by (auto simp: addPiece_def pc_pend_def pcs_merged_def pcs_ordered_def pcs_reached_def)
  next
    case False
    let ?l = "last R" and ?E = "pc_pend rn (last R)"
    have E: "?E < 2147483648" using R(1) False by (auto simp: pcs_merged_def pcs_bounded_def)
    have ue: "unat (pc_end ?l - rn) = ?E" using E by (intro unat_pc_end) simp
    have op: "unat (pc_sequence p - rn) = pc_off rn p" "pc_off rn p < 2147483648" using p(1) by (auto simp: pc_off_def pc_pend_def)
    have g: "tcpSequenceGreater (pc_end ?l) (pc_sequence p) \<longleftrightarrow> pc_off rn p < ?E"
      using greater_off [of "pc_end ?l" rn "pc_sequence p"] ue op E by simp
    have cov: "pc_off rn p < ?E \<Longrightarrow> {pc_off rn p ..< ?E} \<subseteq> pcs_cover rn R" using mono False by (simp add: pcs_reached_def)
    show ?thesis
    proof (cases "pc_off rn p < ?E")
      case False2: False
      then have "addPiece R p = Some (R @ [p])" using False g by (simp add: addPiece_def)
      moreover have "pcs_merged rn (R @ [p])" using R p False False2 by (intro merged_snoc) auto
      ultimately show ?thesis using False by (auto simp: pcs_reached_def)
    next
      case True
      have sk: "unat (pc_end ?l - pc_sequence p) = ?E - pc_off rn p"
      proof -
        have "pc_end ?l - pc_sequence p = (pc_end ?l - rn) - (pc_sequence p - rn)" by simp
        then show ?thesis using ue op True by (simp only: unat_sub_u32 [of "pc_end ?l - rn"]) simp
      qed
      have len: "pc_pend rn p = pc_off rn p + length (pc_payload p)" by (simp add: pc_pend_def)
      have lw: "pc_end ?l - pc_sequence p < of_nat (length (pc_payload p)) \<longleftrightarrow> ?E < pc_pend rn p"
        unfolding word_less_nat_alt sk using p(1) True len by (simp add: unat_of_nat_u32) linarith
      show ?thesis
      proof (cases "?E < pc_pend rn p")
        case inside: False
        then have "addPiece R p = Some R" using False g True lw by (simp add: addPiece_def Let_def)
        then show ?thesis using R mono cov [OF True] inside by auto
      next
        case over: True
        let ?q = "p\<lparr>pc_sequence := pc_end ?l, pc_payload := drop (?E - pc_off rn p) (pc_payload p)\<rparr>"
        have "go_slice (pc_payload p) (?E - pc_off rn p) (length (pc_payload p)) = Some (drop (?E - pc_off rn p) (pc_payload p))"
          using over True len by (simp add: go_slice_def)
        then have a: "addPiece R p = Some (R @ [?q])" using False g True lw over sk by (simp add: addPiece_def Let_def)
        have q: "pc_off rn ?q = ?E" "pc_pend rn ?q = pc_pend rn p" "pc_payload ?q \<noteq> []"
          using ue over len True by (auto simp: pc_off_def pc_pend_def)
        have "pcs_merged rn (R @ [?q])" using R p q by (intro merged_snoc) auto
        moreover have "subpiece rn ?q p" using q True over by (simp add: subpiece_def)
        moreover have "{pc_off rn p ..< pc_pend rn p} = {pc_off rn p ..< ?E} \<union> {?E ..< pc_pend rn p}" using True over by auto
        ultimately show ?thesis using a q cov [OF True] False by (auto simp: pcs_reached_def)
      qed
    qed
  qed
qed

text \<open>The octets that a FIN, when there is one, leaves in the stream.\<close>

definition belowFIN :: "u32 option \<Rightarrow> nat set" where
  "belowFIN f = (case f of None \<Rightarrow> UNIV | Some fo \<Rightarrow> {..< unat fo})"

lemma mergePieces_ok:
  assumes "pcs_merged rn R" "pcs_reached rn m R" "pcs_bounded rn ps" "sorted (map (pc_off rn) ps)" "\<forall>p \<in> set ps. m \<le> pc_off rn p"
    "\<And>fo. f = Some fo \<Longrightarrow> unat fo < 2147483648"
  shows "\<exists>R'. mergePieces rn f ps R = Some R' \<and> pcs_merged rn R' \<and>
    pcs_cover rn R' = pcs_cover rn R \<union> (pcs_cover rn ps \<inter> belowFIN f) \<and>
    (\<forall>q \<in> set R'. q \<in> set R \<or> (\<exists>p \<in> set ps. subpiece rn q p)) \<and>
    length R' \<le> length R + length (filter (\<lambda>p. pc_payload p \<noteq> []) ps)"
  using assms(1-5)
proof (induction ps arbitrary: R m)
  case (Cons p ps)
  let ?p = "p\<lparr>pc_fin := False\<rparr>"
  have pb: "pc_pend rn ?p < 2147483648" and o: "pc_off rn ?p = pc_off rn p" "pc_pend rn ?p = pc_pend rn p" and mp: "m \<le> pc_off rn p"
    using Cons.prems by (auto simp: pc_pend_def pc_off_def)
  have sub: "subpiece rn q ?p \<longleftrightarrow> subpiece rn q p" for q by (simp add: subpiece_def o)
  have "\<exists>R1. (clipAtFIN rn f ?p \<bind> (\<lambda>clipped. case clipped of None \<Rightarrow> Some R | Some p \<Rightarrow> addPiece R p)) = Some R1 \<and>
     pcs_merged rn R1 \<and> pcs_reached rn (pc_off rn p) R1 \<and> pcs_cover rn R1 = pcs_cover rn R \<union> ({pc_off rn p ..< pc_pend rn p} \<inter> belowFIN f) \<and>
     (\<forall>q \<in> set R1. q \<in> set R \<or> subpiece rn q p) \<and> length R1 \<le> length R + (if pc_payload p = [] then 0 else 1)"
  proof (cases f)
    case None
    then show ?thesis using addPiece_ok [OF Cons.prems(1,2) pb] mp
      by (simp add: clipAtFIN_def belowFIN_def o sub)
  next
    case (Some fo)
    note c = clip_sub [OF pb assms(6) [OF Some]]
    show ?thesis
    proof (cases "pc_off rn p < unat fo")
      case True
      obtain q where q: "clipAtFIN rn (Some fo) ?p = Some (Some q)" "\<not> pc_fin q" "pc_off rn q = pc_off rn p"
          "pc_pend rn q = min (pc_pend rn p) (unat fo)" "subpiece rn q p"
        using c(1) True by (auto simp: o sub)
      have qb: "pc_pend rn q < 2147483648" using q(4) pb o by simp
      obtain R1 where R1: "addPiece R q = Some R1" "pcs_merged rn R1" "pcs_reached rn (pc_off rn q) R1"
        "pcs_cover rn R1 = pcs_cover rn R \<union> {pc_off rn q ..< pc_pend rn q}" "\<forall>x \<in> set R1. x \<in> set R \<or> subpiece rn x q"
        "length R1 \<le> length R + (if pc_payload q = [] then 0 else 1)"
        using addPiece_ok [OF Cons.prems(1,2) qb q(2)] q(3) mp by auto
      have ne: "pc_payload q = [] \<longleftrightarrow> pc_payload p = []"
        using q(3,4,5) True by (auto simp: pc_pend_def min_def subpiece_def split: if_splits)
      have "\<forall>x \<in> set R1. x \<in> set R \<or> subpiece rn x p" using R1(5) q(5) subpiece_trans by blast
      moreover have "{pc_off rn q ..< pc_pend rn q} = {pc_off rn p ..< pc_pend rn p} \<inter> belowFIN f"
        using q(3,4) by (auto simp: belowFIN_def Some)
      ultimately show ?thesis using q R1 by (auto simp: Some ne)
    next
      case False
      have "{pc_off rn p ..< pc_pend rn p} \<inter> belowFIN f = {}" using False by (auto simp: belowFIN_def Some)
      moreover have "pcs_reached rn (pc_off rn p) R" using Cons.prems(2) mp by (auto simp: pcs_reached_def subset_eq)
      moreover have "clipAtFIN rn (Some fo) ?p = Some None" using c(2) False o by simp
      ultimately show ?thesis using Cons.prems(1) by (simp add: Some)
    qed
  qed
  then obtain R1 where R1: "(clipAtFIN rn f ?p \<bind> (\<lambda>clipped. case clipped of None \<Rightarrow> Some R | Some p \<Rightarrow> addPiece R p)) = Some R1"
     "pcs_merged rn R1" "pcs_reached rn (pc_off rn p) R1" "pcs_cover rn R1 = pcs_cover rn R \<union> ({pc_off rn p ..< pc_pend rn p} \<inter> belowFIN f)"
     "\<forall>q \<in> set R1. q \<in> set R \<or> subpiece rn q p" "length R1 \<le> length R + (if pc_payload p = [] then 0 else 1)" by blast
  obtain R' where R': "mergePieces rn f ps R1 = Some R'" "pcs_merged rn R'"
    "pcs_cover rn R' = pcs_cover rn R1 \<union> (pcs_cover rn ps \<inter> belowFIN f)" "\<forall>q \<in> set R'. q \<in> set R1 \<or> (\<exists>p \<in> set ps. subpiece rn q p)"
    "length R' \<le> length R1 + length (filter (\<lambda>p. pc_payload p \<noteq> []) ps)"
    using Cons.IH [OF R1(2,3)] Cons.prems by auto
  have "mergePieces rn f (p # ps) R = Some R'" using R1(1) R'(1) by (auto simp: Option.bind_eq_Some_conv)
  then show ?case using R' R1 by (fastforce simp: Int_Un_distrib2)
qed simp

section \<open>Normalisation\<close>

lemma off_fin [simp]: "pc_off rn (p\<lparr>pc_fin := x\<rparr>) = pc_off rn p" "pc_pend rn (p\<lparr>pc_fin := x\<rparr>) = pc_pend rn p"
  by (simp_all add: pc_off_def pc_pend_def)

lemma subpiece_fin [simp]: "subpiece rn (p\<lparr>pc_fin := x\<rparr>) q = subpiece rn p q" by (simp add: subpiece_def)

lemma sorted_fst: "sorted (map (\<lambda>p. (a p :: nat, b p :: int)) xs) \<Longrightarrow> sorted (map a xs)"
  by (induction xs) (auto simp: less_eq_prod_simp)

lemma sortPieces_ok: "set (sortPieces rn ps) = set ps" "length (sortPieces rn ps) = length ps"
  "sorted (map (pc_off rn) (sortPieces rn ps))" "pcs_bounded rn (sortPieces rn ps) = pcs_bounded rn ps"
  "pcs_cover rn (sortPieces rn ps) = pcs_cover rn ps"
  by (simp_all add: sortPieces_def pcs_bounded_def pcs_cover_def)
    (rule sorted_fst [where b = "\<lambda>p. - int (length (pc_payload p))"], simp add: pc_off_def)

lemma attachFIN_ok:
  assumes R: "pcs_merged rn R" "\<And>fo. f = Some fo \<Longrightarrow> unat fo < 2147483648 \<and> pcs_cover rn R \<subseteq> {..< unat fo}"
  shows "wf_pieces rn (attachFIN rn f R) \<and> pcs_cover rn (attachFIN rn f R) = pcs_cover rn R \<and>
    (\<forall>q \<in> set (attachFIN rn f R). pc_payload q \<noteq> [] \<longrightarrow> (\<exists>p \<in> set R. q = p \<or> q = p\<lparr>pc_fin := True\<rparr>)) \<and>
    (\<forall>q \<in> set (attachFIN rn f R). pc_fin q \<longrightarrow> (\<exists>fo. f = Some fo \<and> pc_pend rn q = unat fo)) \<and>
    (\<forall>fo. f = Some fo \<and> (R = [] \<or> pc_pend rn (last R) \<noteq> unat fo) \<longrightarrow> length (attachFIN rn f R) = length R + 1) \<and>
    ((\<forall>fo. f = Some fo \<longrightarrow> R \<noteq> [] \<and> pc_pend rn (last R) = unat fo) \<longrightarrow> length (attachFIN rn f R) = length R) \<and>
    (f \<noteq> None \<longrightarrow> attachFIN rn f R \<noteq> [] \<and> pc_fin (last (attachFIN rn f R)))"
proof (cases f)
  case None
  have "pcs_plain (butlast R)" "R \<noteq> [] \<longrightarrow> pc_payload (last R) \<noteq> []" "\<forall>p \<in> set R. \<not> pc_fin p"
    using R(1) by (cases R rule: rev_cases; auto simp: pcs_merged_def pcs_plain_def)+
  then show ?thesis using R(1) None by (auto simp: attachFIN_def wf_pieces_def pcs_merged_def)
next
  case (Some fo)
  have fo: "unat fo < 2147483648" "pcs_cover rn R \<subseteq> {..< unat fo}" using R(2) Some by auto
  have ends: "pc_pend rn p \<le> unat fo" if "p \<in> set R" for p
  proof -
    have "pc_off rn p < pc_pend rn p" using that R(1) by (auto simp: pcs_merged_def pcs_plain_def pc_pend_def)
    then have "pc_pend rn p - 1 \<in> pcs_cover rn R" using that unfolding pcs_cover_def by (intro UN_I [of p]) auto
    then show ?thesis using fo(2) by auto
  qed
  let ?n = "\<lparr>pc_sequence = rn + fo, pc_payload = [], pc_fin = True\<rparr>"
  have n: "pc_off rn ?n = unat fo" "pc_pend rn ?n = unat fo" by (auto simp: pc_off_def pc_pend_def)
  show ?thesis
  proof (cases R rule: rev_cases)
    case Nil
    then show ?thesis using Some n fo by (auto simp: attachFIN_def wf_pieces_def)
  next
    case (snoc S l)
    have l: "pc_pend rn l < 2147483648" using R(1) snoc by (simp add: pcs_merged_def)
    have ue: "pc_end l = rn + fo \<longleftrightarrow> pc_pend rn l = unat fo"
      using unat_pc_end [of rn l] l eq_off [of "pc_end l" "rn + fo" rn] by simp
    have "pcs_ordered rn (S @ [l\<lparr>pc_fin := True\<rparr>])" using R(1) snoc by (simp add: pcs_merged_def ordered_snoc)
    moreover have "pcs_ordered rn (R @ [?n])" using R(1) ends n by (simp add: pcs_merged_def ordered_snoc)
    moreover have "\<forall>p \<in> set R. \<not> pc_fin p" using R(1) by (simp add: pcs_merged_def pcs_plain_def)
    ultimately show ?thesis using Some snoc n fo R(1) ue
      by (auto simp: attachFIN_def wf_pieces_def pcs_merged_def Let_def pc_pend_def butlast_append)
  qed
qed

lemma normalize_ok:
  assumes b: "pcs_bounded rn ps"
  shows "\<exists>out f. normalizeTCPReceivedPieces rn ps = Some out \<and> wf_pieces rn out \<and>
    pcs_cover rn out = pcs_cover rn ps \<inter> belowFIN f \<and>
    (\<forall>q \<in> set out. pc_payload q \<noteq> [] \<longrightarrow> (\<exists>p \<in> set ps. subpiece rn q p)) \<and>
    (\<forall>q \<in> set out. pc_fin q \<longrightarrow> (\<exists>p \<in> set ps. pc_fin p \<and> pc_pend rn p = pc_pend rn q)) \<and>
    length out \<le> length ps \<and>
    (f = None \<longleftrightarrow> (\<forall>p \<in> set ps. \<not> pc_fin p)) \<and>
    (\<forall>fo. f = Some fo \<longrightarrow> (\<exists>p \<in> set ps. pc_fin p \<and> pc_pend rn p = unat fo) \<and> (\<forall>p \<in> set ps. pc_fin p \<longrightarrow> unat fo \<le> pc_pend rn p) \<and>
       out \<noteq> [] \<and> pc_fin (last out))"
proof -
  let ?ps = "sortPieces rn ps"
  define f where f: "f = earliestFIN rn ?ps None"
  note so = sortPieces_ok [of rn ps]
  have fs: "case f of None \<Rightarrow> (\<forall>p \<in> set ps. \<not> pc_fin p)
     | Some fo \<Rightarrow> (\<exists>p \<in> set ps. pc_fin p \<and> unat fo = pc_pend rn p) \<and> (\<forall>p \<in> set ps. pc_fin p \<longrightarrow> unat fo \<le> pc_pend rn p)"
    using earliestFIN_spec [of rn ?ps None] b so by (simp add: f split: option.splits)
  have fo: "unat fo < 2147483648" if "f = Some fo" for fo
    using fs that b by (auto simp: pcs_bounded_def)
  obtain R where R: "mergePieces rn f ?ps [] = Some R" "pcs_merged rn R" "pcs_cover rn R = pcs_cover rn ps \<inter> belowFIN f"
     "\<forall>q \<in> set R. \<exists>p \<in> set ps. subpiece rn q p" "length R \<le> length (filter (\<lambda>p. pc_payload p \<noteq> []) ?ps)"
    using mergePieces_ok [of rn "[]" 0 ?ps f] so b fo by (auto simp: pcs_merged_def pcs_reached_def)
  have cv: "unat fo < 2147483648 \<and> pcs_cover rn R \<subseteq> {..< unat fo}" if "f = Some fo" for fo
    using R(3) fo that by (auto simp: belowFIN_def)
  note a = attachFIN_ok [of rn R f, OF R(2) cv]
  have len: "length (attachFIN rn f R) \<le> length ps"
  proof (cases "\<exists>fo. f = Some fo \<and> (R = [] \<or> pc_pend rn (last R) \<noteq> unat fo)")
    case False
    then show ?thesis using a R(5) so(2) length_filter_le [of "\<lambda>p. pc_payload p \<noteq> []" ?ps] by auto
  next
    case True
    then obtain fo where F: "f = Some fo" "R = [] \<or> pc_pend rn (last R) \<noteq> unat fo" by blast
    then obtain p where p: "p \<in> set ps" "unat fo = pc_pend rn p" using fs by auto
    have "pc_payload p = []"
    proof (rule ccontr)
      assume "pc_payload p \<noteq> []"
      then have "pc_off rn p < pc_pend rn p" by (simp add: pc_pend_def)
      then have "unat fo - 1 \<in> pcs_cover rn R" 
        unfolding R(3) using p F(1) by (auto simp: belowFIN_def pcs_cover_def intro!: bexI [of _ p])
      then obtain q where q: "q \<in> set R" "unat fo - 1 < pc_pend rn q" by (auto simp: pcs_cover_def)
      then have "unat fo \<le> pc_pend rn (last R)" using ordered_last [of rn R q] R(2) by (auto simp: pcs_merged_def)
      moreover have "R \<noteq> []" using q by auto
      moreover have "pc_pend rn (last R) \<le> unat fo" 
      proof -
        have l: "last R \<in> set R" "pc_off rn (last R) < pc_pend rn (last R)" using R(2) \<open>R \<noteq> []\<close> by (auto simp: pcs_merged_def pcs_plain_def pc_pend_def)
        then have "pc_pend rn (last R) - 1 \<in> pcs_cover rn R" unfolding pcs_cover_def by (intro UN_I [of "last R"]) auto
        then show ?thesis using cv [OF F(1)] by auto
      qed
      ultimately show False using F(2) by simp
    qed
    then have "length (filter (\<lambda>p. pc_payload p \<noteq> []) ?ps) < length ?ps"
      using p(1) so(1) by (intro length_filter_less [of p]) auto
    then show ?thesis using a F R(5) so(2) by auto
  qed
  have "normalizeTCPReceivedPieces rn ps = Some (attachFIN rn f R)"
    using R(1) by (simp add: normalizeTCPReceivedPieces_def f [symmetric] Let_def)
  moreover have "\<forall>q \<in> set (attachFIN rn f R). pc_payload q \<noteq> [] \<longrightarrow> (\<exists>p \<in> set ps. subpiece rn q p)"
    using a R(4) by fastforce
  moreover have "\<forall>q \<in> set (attachFIN rn f R). pc_fin q \<longrightarrow> (\<exists>p \<in> set ps. pc_fin p \<and> pc_pend rn p = pc_pend rn q)"
    using a fs by (auto split: option.splits)
  moreover have "(f = None \<longleftrightarrow> (\<forall>p \<in> set ps. \<not> pc_fin p)) \<and>
    (\<forall>fo. f = Some fo \<longrightarrow> (\<exists>p \<in> set ps. pc_fin p \<and> pc_pend rn p = unat fo) \<and> (\<forall>p \<in> set ps. pc_fin p \<longrightarrow> unat fo \<le> pc_pend rn p) \<and>
       attachFIN rn f R \<noteq> [] \<and> pc_fin (last (attachFIN rn f R)))"
    using a fs by (cases f) auto
  moreover have "wf_pieces rn (attachFIN rn f R)" "pcs_cover rn (attachFIN rn f R) = pcs_cover rn ps \<inter> belowFIN f" using a R(3) by auto
  ultimately show ?thesis using len by (intro exI [of _ "attachFIN rn f R"] exI [of _ f] conjI) (assumption | elim conjE)+
qed

section \<open>Uncovered fragments\<close>

text \<open>A fragment of the incoming payload as a piece.\<close>

definition fragPiece :: "u32 \<Rightarrow> u32 \<times> bytes \<Rightarrow> tcpReceivedPiece" where
  "fragPiece rn f = \<lparr>pc_sequence = rn + fst f, pc_payload = snd f, pc_fin = False\<rparr>"

lemma fragPiece_simps [simp]: "pc_off rn (fragPiece rn f) = unat (fst f)" "pc_pend rn (fragPiece rn f) = unat (fst f) + length (snd f)"
  "pc_payload (fragPiece rn f) = snd f" "\<not> pc_fin (fragPiece rn f)"
  by (simp_all add: fragPiece_def pc_off_def pc_pend_def)

lemma slice_sub:
  assumes "unat (start :: u32) \<le> unat cursor" "unat cursor \<le> stop" "stop \<le> unat start + length payload" "unat start + length payload < 2147483648"
  shows "\<exists>part. go_slice payload (unat (cursor - start)) (stop - unat start) = Some part \<and>
    subpiece rn (fragPiece rn (cursor, part)) (fragPiece rn (start, payload)) \<and> length part = stop - unat cursor"
proof -
  have c: "unat (cursor - start) = unat cursor - unat start" using assms(1) by (simp add: unat_sub_u32)
  let ?part = "take (stop - unat cursor) (drop (unat cursor - unat start) payload)"
  have n: "stop - unat start - (unat cursor - unat start) = stop - unat cursor"
    "unat cursor - unat start \<le> stop - unat start" "stop - unat start \<le> length payload" using assms by linarith+
  have g: "go_slice payload (unat (cursor - start)) (stop - unat start) = Some ?part"
    using n(2,3) unfolding go_slice_def c n(1) by simp
  have "stop - unat cursor \<le> length payload - (unat cursor - unat start)" using assms by linarith
  then have l: "length ?part = stop - unat cursor" by simp
  then have "subpiece rn (fragPiece rn (cursor, ?part)) (fragPiece rn (start, payload))"
    using assms by (simp add: subpiece_def)
  then show ?thesis using g l by blast
qed

lemma lastFragment_ok:
  assumes "unat start \<le> unat cursor" "unat stop = unat start + length payload" "unat stop < 2147483648"
  shows "\<exists>out. lastFragment payload start stop cursor fs = Some (fs @ out) \<and>
    (\<forall>f \<in> set out. subpiece rn (fragPiece rn f) (fragPiece rn (start, payload)) \<and> snd f \<noteq> []) \<and>
    {unat cursor ..< unat stop} \<subseteq> pcs_cover rn (map (fragPiece rn) out)"
proof (cases "unat cursor < unat stop")
  case True
  obtain part where p: "go_slice payload (unat (cursor - start)) (unat stop - unat start) = Some part"
    "subpiece rn (fragPiece rn (cursor, part)) (fragPiece rn (start, payload))" "length part = unat stop - unat cursor"
    using slice_sub [OF assms(1), of "unat stop" payload rn] True assms by auto
  moreover have "unat stop - unat start = length payload" using assms by simp
  ultimately show ?thesis using True assms
    by (auto simp: lastFragment_def word_less_nat_alt intro!: exI [of _ "[(cursor, part)]"])
next
  case False
  then show ?thesis by (auto simp: lastFragment_def word_less_nat_alt)
qed

lemma uncovered_ok:
  assumes st: "unat stop = unat start + length payload" "unat stop < 2147483648"
  shows "pcs_bounded rn ps \<Longrightarrow> unat start \<le> unat cursor \<Longrightarrow>
   \<exists>out. uncovered rn payload start stop ps cursor fs = Some (fs @ out) \<and>
    (\<forall>f \<in> set out. subpiece rn (fragPiece rn f) (fragPiece rn (start, payload)) \<and> snd f \<noteq> []) \<and>
    {unat cursor ..< unat stop} \<subseteq> pcs_cover rn ps \<union> pcs_cover rn (map (fragPiece rn) out)"
proof (induction ps arbitrary: cursor fs)
  case Nil
  then show ?case using lastFragment_ok [OF Nil(2) st] by simp
next
  case (Cons p ps)
  let ?s = "pc_sequence p - rn"
  let ?e = "?s + of_nat (length (pc_payload p))"
  have b: "pc_pend rn p < 2147483648" "pcs_bounded rn ps" using Cons.prems by auto
  have e: "unat ?e = pc_pend rn p" using b by (intro pend_word) simp
  have s: "unat ?s = pc_off rn p" by (simp add: pc_off_def)
  note L = lastFragment_ok [OF _ st, of _ _ rn]
  consider (skip) "pc_pend rn p \<le> unat cursor" | (stop) "unat cursor < pc_pend rn p" "unat stop \<le> pc_off rn p"
    | (use) "unat cursor < pc_pend rn p" "pc_off rn p < unat stop" by linarith
  then show ?case
  proof cases
    case skip
    then have "uncovered rn payload start stop (p # ps) cursor fs = uncovered rn payload start stop ps cursor fs"
      by (simp add: Let_def word_le_nat_alt e)
    then show ?thesis using Cons.IH [OF b(2) Cons.prems(2), of fs] by auto
  next
    case stop
    then have "uncovered rn payload start stop (p # ps) cursor fs = lastFragment payload start stop cursor fs"
      by (simp add: Let_def word_le_nat_alt e s)
    then show ?thesis using L [OF Cons.prems(2), of fs] by auto
  next
    case use
    have "\<exists>g. (if cursor < ?s then
               let fragmentEnd = (if ?s > stop then stop else ?s) in do {
                 part \<leftarrow> go_slice payload (unat (cursor - start)) (unat (fragmentEnd - start));
                 Some (fs @ [(cursor, part)]) }
             else Some fs) = Some (fs @ g) \<and>
        (\<forall>f \<in> set g. subpiece rn (fragPiece rn f) (fragPiece rn (start, payload)) \<and> snd f \<noteq> []) \<and>
        {unat cursor ..< pc_off rn p} \<subseteq> pcs_cover rn (map (fragPiece rn) g)"
    proof (cases "unat cursor < pc_off rn p")
      case True
      have fe: "(if ?s > stop then stop else ?s) = ?s" using use s by (simp add: word_less_nat_alt)
      have us: "unat (?s - start) = pc_off rn p - unat start" using True Cons.prems(2) s by (simp add: unat_sub_u32)
      obtain part where p: "go_slice payload (unat (cursor - start)) (pc_off rn p - unat start) = Some part"
        "subpiece rn (fragPiece rn (cursor, part)) (fragPiece rn (start, payload))" "length part = pc_off rn p - unat cursor"
        using slice_sub [OF Cons.prems(2), of "pc_off rn p" payload rn] True use st by auto
      then show ?thesis using True use(2)
        by (intro exI [of _ "[(cursor, part)]"]) (auto simp: word_less_nat_alt s fe us Let_def)
    next
      case False
      then show ?thesis by (auto simp: word_less_nat_alt s)
    qed
    then obtain g where g: "(if cursor < ?s then
               let fragmentEnd = (if ?s > stop then stop else ?s) in do {
                 part \<leftarrow> go_slice payload (unat (cursor - start)) (unat (fragmentEnd - start));
                 Some (fs @ [(cursor, part)]) }
             else Some fs) = Some (fs @ g)"
        "\<forall>f \<in> set g. subpiece rn (fragPiece rn f) (fragPiece rn (start, payload)) \<and> snd f \<noteq> []"
        "{unat cursor ..< pc_off rn p} \<subseteq> pcs_cover rn (map (fragPiece rn) g)" by blast
    have c': "(if ?e > cursor then ?e else cursor) = ?e" "unat start \<le> unat ?e" using use e Cons.prems(2) by (auto simp: word_less_nat_alt)
    have u: "uncovered rn payload start stop (p # ps) cursor fs =
       (if stop \<le> ?e then lastFragment payload start stop ?e (fs @ g) else uncovered rn payload start stop ps ?e (fs @ g))"
      unfolding uncovered.simps Let_def [of ?s] Let_def [of ?e] g(1) using use by (simp add: word_le_nat_alt e s c')
    have "\<exists>out. uncovered rn payload start stop (p # ps) cursor fs = Some ((fs @ g) @ out) \<and>
        (\<forall>f \<in> set out. subpiece rn (fragPiece rn f) (fragPiece rn (start, payload)) \<and> snd f \<noteq> []) \<and>
        {unat ?e ..< unat stop} \<subseteq> pcs_cover rn ps \<union> pcs_cover rn (map (fragPiece rn) out)"
      using u Cons.IH [OF b(2) c'(2), of "fs @ g"] L [OF c'(2), of "fs @ g"] by (cases "stop \<le> ?e") auto
    then obtain out where o: "uncovered rn payload start stop (p # ps) cursor fs = Some ((fs @ g) @ out)"
        "\<forall>f \<in> set out. subpiece rn (fragPiece rn f) (fragPiece rn (start, payload)) \<and> snd f \<noteq> []"
        "{unat ?e ..< unat stop} \<subseteq> pcs_cover rn ps \<union> pcs_cover rn (map (fragPiece rn) out)" by blast
    have "{unat cursor ..< unat stop} \<subseteq> {unat cursor ..< pc_off rn p} \<union> {pc_off rn p ..< pc_pend rn p} \<union> {unat ?e ..< unat stop}"
      unfolding e by auto
    also have "\<dots> \<subseteq> pcs_cover rn (p # ps) \<union> pcs_cover rn (map (fragPiece rn) (g @ out))" using g(3) o(3) by auto
    finally show ?thesis using o g(2) by (intro exI [of _ "g @ out"]) auto
  qed
qed

section \<open>Storing a segment\<close>

definition totalBytes :: "tcpReceivedPiece list \<Rightarrow> nat" where
  "totalBytes ps = sum_list (map (length \<circ> pc_payload) ps)"

lemma finite_cover: "finite (pcs_cover rn ps)" by (simp add: pcs_cover_def)

lemma card_cover_le: "card (pcs_cover rn ps) \<le> totalBytes ps"
proof (induction ps)
  case (Cons p ps)
  have "card (pcs_cover rn (p # ps)) \<le> card {pc_off rn p ..< pc_pend rn p} + card (pcs_cover rn ps)"
    using card_Un_le [of "{pc_off rn p ..< pc_pend rn p}" "pcs_cover rn ps"] by simp
  then show ?case using Cons by (simp add: totalBytes_def pc_pend_def)
qed (simp add: totalBytes_def)

lemma card_cover_ordered: "pcs_ordered rn ps \<Longrightarrow> card (pcs_cover rn ps) = totalBytes ps"
proof (induction ps)
  case (Cons p ps)
  have "\<forall>q \<in> set ps. pc_pend rn p \<le> pc_off rn q" using Cons.prems by (simp add: pcs_ordered_def)
  then have "{pc_off rn p ..< pc_pend rn p} \<inter> pcs_cover rn ps = {}" by (force simp: pcs_cover_def)
  then have "card (pcs_cover rn (p # ps)) = card {pc_off rn p ..< pc_pend rn p} + card (pcs_cover rn ps)"
    by (simp add: card_Un_disjoint finite_cover)
  then show ?case using Cons by (simp add: totalBytes_def pc_pend_def pcs_ordered_def)
qed (simp add: totalBytes_def)

lemma normalize_bytes:
  "pcs_ordered rn out \<Longrightarrow> pcs_cover rn out \<subseteq> pcs_cover rn ps \<Longrightarrow> totalBytes out \<le> totalBytes ps"
  using card_mono [OF finite_cover [of rn ps], of "pcs_cover rn out"] card_cover_le [of rn ps] card_cover_ordered [of rn out] by simp

lemma existingFIN_spec:
  "case existingFIN ps of None \<Rightarrow> (\<forall>p \<in> set ps. \<not> pc_fin p) | Some e \<Rightarrow> (\<exists>p \<in> set ps. pc_fin p \<and> e = pc_end p)"
  by (induction ps) (auto split: option.splits if_splits)

lemma beforeFIN_ok:
  assumes b: "pcs_bounded rn ps" and s: "unat (sequence - rn) + length payload < 2147483648"
  shows "\<exists>k. beforeFIN sequence payload (existingFIN ps) = Some (take k payload) \<and>
    ((\<forall>p \<in> set ps. pc_fin p \<longrightarrow> unat (sequence - rn) + length payload \<le> pc_pend rn p) \<longrightarrow> take k payload = payload)"
proof (cases "existingFIN ps")
  case None
  then show ?thesis by (auto simp: beforeFIN_def intro: exI [of _ "length payload"])
next
  case (Some e)
  then obtain p where p: "p \<in> set ps" "pc_fin p" "e = pc_end p" using existingFIN_spec [of ps] by auto
  have pe: "unat (e - rn) = pc_pend rn p" "pc_pend rn p < 2147483648" using p b unat_pc_end [of rn p] by (auto simp: pcs_bounded_def)
  let ?d = "unat (sequence - rn)"
  have se: "unat (sequence + of_nat (length payload) - rn) = ?d + length payload"
    using unat_pc_end [of rn "\<lparr>pc_sequence = sequence, pc_payload = payload, pc_fin = False\<rparr>"] s
    by (simp add: pc_pend_def pc_off_def)
  have g: "tcpSequenceGreater (sequence + of_nat (length payload)) e \<longleftrightarrow> pc_pend rn p < ?d + length payload"
    using greater_off [of "sequence + of_nat (length payload)" rn e] se pe s by simp
  have l: "tcpSequenceLess sequence e \<longleftrightarrow> ?d < pc_pend rn p" using less_off [of sequence rn e] pe s by simp
  have d: "?d < pc_pend rn p \<Longrightarrow> unat (e - sequence) = pc_pend rn p - ?d"
  proof -
    have "e - sequence = (e - rn) - (sequence - rn)" by simp
    then show "?d < pc_pend rn p \<Longrightarrow> ?thesis" using pe(1) by (simp only: unat_sub_u32 [of "e - rn"]) simp
  qed
  consider "\<not> pc_pend rn p < ?d + length payload" | "pc_pend rn p < ?d + length payload" "\<not> ?d < pc_pend rn p"
    | "pc_pend rn p < ?d + length payload" "?d < pc_pend rn p" by blast
  then show ?thesis
  proof cases
    case 1
    then show ?thesis using g Some by (auto simp: beforeFIN_def intro: exI [of _ "length payload"])
  next
    case 2
    then show ?thesis using g l Some p by (auto simp: beforeFIN_def intro!: exI [of _ 0])
  next
    case 3
    then have "beforeFIN sequence payload (Some e) = Some (take (pc_pend rn p - ?d) payload)"
      using g l d by (simp add: beforeFIN_def go_slice_def)
    then show ?thesis using 3 Some p(1,2)
      by (intro exI [of _ "pc_pend rn p - ?d"] conjI) (simp, fastforce)
  qed
qed

text \<open>The incoming segment as a piece.\<close>

abbreviation incoming :: "u32 \<Rightarrow> bytes \<Rightarrow> bool \<Rightarrow> tcpReceivedPiece" where
  "incoming sequence payload fin \<equiv> \<lparr>pc_sequence = sequence, pc_payload = payload, pc_fin = fin\<rparr>"

definition receiver_ok :: "receiver \<Rightarrow> bool" where
  "receiver_ok r \<longleftrightarrow> wf_pieces (rc_next r) (rc_pieces r) \<and> rc_bytes r = int (totalBytes (rc_pieces r)) \<and>
     length (rc_pieces r) \<le> tcpMaximumOutOfOrder"

text \<open>\<open>storeAvailable\<close> is the storage the routine may fill.\<close>

definition storeAvailable :: "receiver \<Rightarrow> u16 \<Rightarrow> int" where
  "storeAvailable r extra = max 0 (receiveAvailable (rc_conn r) (rc_bytes r) + int (unat extra))"

definition pcs_derived :: "u32 \<Rightarrow> tcpReceivedPiece list \<Rightarrow> tcpReceivedPiece list \<Rightarrow> bool" where
  "pcs_derived rn qs ps \<longleftrightarrow> (\<forall>q \<in> set qs. (pc_payload q \<noteq> [] \<longrightarrow> (\<exists>p \<in> set ps. subpiece rn q p)) \<and>
     (pc_fin q \<longrightarrow> (\<exists>p \<in> set ps. pc_fin p \<and> pc_pend rn p = pc_pend rn q)))"

lemma store_ok:
  assumes ok: "receiver_ok r" and w: "unat win \<le> 1073741824" and len: "length payload \<le> 65535"
    and rn_def: "rn = rc_next r" and inc_def: "inc = incoming sequence payload fin"
  shows "\<exists>r' stored. storeTCPOutOfOrder cap r win extra sequence payload owner fin = Some (r', stored) \<and>
    receiver_ok r' \<and> rc_next r' = rn \<and> rc_bytes r' \<le> rc_bytes r + storeAvailable r extra \<and>
    rc_conn r' = (rc_conn r)\<lparr>cn_outOfOrderUnread := cn_outOfOrderUnread (rc_conn r')\<rparr> \<and>
    pcs_derived rn (rc_pieces r') (inc # rc_pieces r) \<and>
    (stored \<longrightarrow> (\<forall>p \<in> set (inc # rc_pieces r). \<forall>q \<in> set (inc # rc_pieces r). pc_fin p \<longrightarrow> pc_pend rn q \<le> pc_pend rn p) \<longrightarrow>
       pcs_cover rn (rc_pieces r') = pcs_cover rn (rc_pieces r) \<union> ({pc_off rn inc ..< pc_pend rn inc} \<inter> {..< unat win}))"
proof -
  let ?d = "sequence - rn"
  have rb: "pcs_bounded rn (rc_pieces r)" using ok by (simp add: receiver_ok_def wf_pieces_def rn_def)
  have self: "pcs_derived rn (rc_pieces r) (inc # rc_pieces r)" using subpiece_refl by (fastforce simp: pcs_derived_def)
  show ?thesis
  proof (cases "?d \<ge> win \<and> \<not> (?d = 0 \<and> payload = [] \<and> fin)")
    case True
    then have "storeTCPOutOfOrder cap r win extra sequence payload owner fin = Some (r, False)"
      by (simp add: storeTCPOutOfOrder_def Let_def rn_def)
    then show ?thesis using ok self by (intro exI [of _ r] exI [of _ False]) (simp add: rn_def storeAvailable_def)
  next
    case False
    have dw: "unat ?d \<le> unat win" using False by (auto simp: word_le_nat_alt)
    define p1 where p1: "p1 = take (unat (win - ?d)) payload"
    have mp: "unat (win - ?d) = unat win - unat ?d" using dw by (simp add: unat_sub_u32)
    define fin1 where fin1: "fin1 = (fin \<and> (?d = 0 \<and> p1 = [] \<or> unat ?d + length payload < unat win))"
    have e1: "(if length payload > unat (win - ?d) then take (unat (win - ?d)) payload else payload) = p1" by (simp add: p1)
    define ex where ex: "ex = existingFIN (rc_pieces r)"
    define fin2 where fin2: "fin2 = (case ex of None \<Rightarrow> fin1 | Some e \<Rightarrow> fin1 \<and> \<not> tcpSequenceGreater (sequence + of_nat (length payload)) e)"
    have d1: "unat ?d + length p1 \<le> unat win" using dw mp by (simp add: p1)
    obtain k where k: "beforeFIN sequence p1 ex = Some (take k p1)"
      "(\<forall>p \<in> set (rc_pieces r). pc_fin p \<longrightarrow> unat ?d + length p1 \<le> pc_pend rn p) \<longrightarrow> take k p1 = p1"
      using beforeFIN_ok [OF rb, of sequence p1] d1 w by (auto simp: ex)
    define p2 where p2: "p2 = take k p1"
    have d2: "unat ?d + length p2 \<le> unat win" using d1 by (simp add: p2)
    have stop: "unat (?d + of_nat (length p2)) = unat ?d + length p2" "unat ?d + length p2 < 2147483648"
      using d2 w by (simp_all add: unat_add_u32 unat_of_nat_u32)
    obtain fs where fs: "(if p2 \<noteq> [] then uncovered rn p2 ?d (?d + of_nat (length p2)) (rc_pieces r) ?d [] else Some []) = Some fs"
      "\<forall>f \<in> set fs. subpiece rn (fragPiece rn f) (fragPiece rn (?d, p2)) \<and> snd f \<noteq> []"
      "{unat ?d ..< unat ?d + length p2} \<subseteq> pcs_cover rn (rc_pieces r) \<union> pcs_cover rn (map (fragPiece rn) fs)"
      using uncovered_ok [OF stop(1) _ rb, of ?d "[]"] stop by (cases "p2 = []") auto
    have sub2: "subpiece rn (fragPiece rn (?d, p2)) inc" 
    proof -
      have "pc_off rn inc = unat ?d" "pc_pend rn inc = unat ?d + length payload" "pc_payload inc = payload"
        by (simp_all add: inc_def pc_off_def pc_pend_def)
      moreover have "p2 = take (length p2) payload" "length p2 \<le> length payload" by (simp_all add: p2 p1 min_def)
      ultimately show ?thesis by (simp add: subpiece_def)
    qed
    define cand where cand: "cand = rc_pieces r @ map (fragPiece rn) fs @
       (if fin2 then [\<lparr>pc_sequence = sequence + of_nat (length payload), pc_payload = [], pc_fin = True\<rparr>] else [])"
    let ?fp = "\<lparr>pc_sequence = sequence + of_nat (length payload), pc_payload = [], pc_fin = True\<rparr>"
    have ui: "unat (sequence + of_nat (length payload) - rn) = unat ?d + length payload"
      using unat_pc_end [of rn inc] dw w len by (simp add: inc_def pc_pend_def pc_off_def)
    have fp: "pc_pend rn ?fp = pc_pend rn inc" "pc_pend rn inc < 2147483648"
      using ui dw w len by (simp_all add: pc_pend_def pc_off_def inc_def)
    have f12: "fin2 \<Longrightarrow> fin" by (auto simp: fin2 fin1 split: option.splits)
    have fsub: "subpiece rn (fragPiece rn f) inc" if "f \<in> set fs" for f using fs(2) that sub2 subpiece_trans by blast
    have cb: "pcs_bounded rn cand"
    proof -
      have "pc_pend rn (fragPiece rn f) < 2147483648" if "f \<in> set fs" for f
        using fsub [OF that] fp(2) unfolding subpiece_def by linarith
      then show ?thesis using rb fp by (auto simp: cand pcs_bounded_def)
    qed
    obtain out f where o: "normalizeTCPReceivedPieces rn cand = Some out" "wf_pieces rn out" "pcs_cover rn out = pcs_cover rn cand \<inter> belowFIN f"
      "\<forall>q \<in> set out. pc_payload q \<noteq> [] \<longrightarrow> (\<exists>p \<in> set cand. subpiece rn q p)"
      "\<forall>q \<in> set out. pc_fin q \<longrightarrow> (\<exists>p \<in> set cand. pc_fin p \<and> pc_pend rn p = pc_pend rn q)"
      "length out \<le> length cand"
      "\<forall>fo. f = Some fo \<longrightarrow> (\<exists>p \<in> set cand. pc_fin p \<and> pc_pend rn p = unat fo)"
      using normalize_ok [OF cb] by blast
    have der: "pcs_derived rn out (inc # rc_pieces r)"
      unfolding pcs_derived_def
    proof (intro ballI conjI impI)
      fix q
      assume q: "q \<in> set out"
      { assume ne: "pc_payload q \<noteq> []"
        then obtain p where p: "p \<in> set cand" "subpiece rn q p" using o(4) q by blast
        then have "p \<noteq> ?fp" using ne by (auto simp: subpiece_def)
        then show "\<exists>p \<in> set (inc # rc_pieces r). subpiece rn q p"
          using p fsub subpiece_trans by (auto simp: cand split: if_splits) }
      { assume "pc_fin q"
        then obtain p where "p \<in> set cand" "pc_fin p" "pc_pend rn p = pc_pend rn q" using o(5) q by blast
        then show "\<exists>p \<in> set (inc # rc_pieces r). pc_fin p \<and> pc_pend rn p = pc_pend rn q"
          using f12 fp(1) by (auto simp: cand inc_def split: if_splits) }
    qed
    have cm: "rc_pieces r @ map (\<lambda>(offset, part). \<lparr>pc_sequence = rn + offset, pc_payload = part, pc_fin = False\<rparr>) fs @
       (if fin2 then [?fp] else []) = cand"
      by (simp add: cand fragPiece_def split_def)
    have st: "storeTCPOutOfOrder cap r win extra sequence payload owner fin =
      (let bytes = int (totalBytes out);
           added = int (sum_list (map (length \<circ> snd) fs));
           upper = length (rc_pieces r) + length fs + (if fin2 then 1 else 0);
           reuse = (added \<le> storeAvailable r extra \<and> upper \<le> tcpMaximumOutOfOrder \<and> cap \<ge> upper)
       in if (bytes > rc_bytes r + storeAvailable r extra \<or> length out > tcpMaximumOutOfOrder) \<and> \<not> reuse then Some (r, False)
          else Some (r\<lparr>rc_pieces := out, rc_bytes := bytes,
                     rc_conn := (rc_conn r)\<lparr>cn_outOfOrderUnread := bytes\<rparr>\<rparr>, fs \<noteq> [] \<or> fin2))"
      (is "_ = ?R")
    proof -
      have av: "(if a < 0 then 0 else a) = max 0 a" for a :: int by (simp add: max_def)
      show ?thesis
        unfolding storeTCPOutOfOrder_def storeAvailable_def Let_def av rn_def [symmetric] e1 retain_simp
        unfolding fin1 [symmetric] ex [symmetric] fin2 [symmetric] k(1) Option.bind.bind_lunit
        unfolding p2 [symmetric] fs(1) Option.bind.bind_lunit
        unfolding cm o(1) Option.bind.bind_lunit totalBytes_def
        using False by (simp only: if_False)
    qed
    let ?added = "int (sum_list (map (length \<circ> snd) fs))"
    let ?upper = "length (rc_pieces r) + length fs + (if fin2 then 1 else 0)"
    let ?r = "r\<lparr>rc_pieces := out, rc_bytes := int (totalBytes out),
       rc_conn := (rc_conn r)\<lparr>cn_outOfOrderUnread := int (totalBytes out)\<rparr>\<rparr>"
    have lc: "length cand = ?upper" by (simp add: cand)
    have tc: "int (totalBytes cand) = rc_bytes r + ?added"
      using ok by (simp add: receiver_ok_def totalBytes_def cand comp_def)
    have tb: "int (totalBytes out) \<le> rc_bytes r + ?added"
      using normalize_bytes [of rn out cand] o(2,3) tc by (simp add: wf_pieces_def)
    show ?thesis
    proof (cases "(int (totalBytes out) > rc_bytes r + storeAvailable r extra \<or> length out > tcpMaximumOutOfOrder) \<and>
        \<not> (?added \<le> storeAvailable r extra \<and> ?upper \<le> tcpMaximumOutOfOrder \<and> cap \<ge> ?upper)")
      case True
      then have "storeTCPOutOfOrder cap r win extra sequence payload owner fin = Some (r, False)"
        unfolding st Let_def by (simp only: if_True simp_thms)
      then show ?thesis using ok self by (intro exI [of _ r] exI [of _ False]) (simp add: rn_def storeAvailable_def)
    next
      case keep: False
      then have res: "storeTCPOutOfOrder cap r win extra sequence payload owner fin = Some (?r, fs \<noteq> [] \<or> fin2)"
        unfolding st Let_def by (simp only: if_False)
      have bnd: "int (totalBytes out) \<le> rc_bytes r + storeAvailable r extra" "length out \<le> tcpMaximumOutOfOrder"
        using keep tb o(6) lc by linarith+
      have cov: "pcs_cover rn out = pcs_cover rn (rc_pieces r) \<union> ({pc_off rn inc ..< pc_pend rn inc} \<inter> {..< unat win})"
        if C: "\<forall>p \<in> set (inc # rc_pieces r). \<forall>q \<in> set (inc # rc_pieces r). pc_fin p \<longrightarrow> pc_pend rn q \<le> pc_pend rn p"
      proof -
        have oi: "pc_off rn inc = unat ?d" "pc_pend rn inc = unat ?d + length payload" by (simp_all add: inc_def pc_off_def pc_pend_def)
        have "length p1 \<le> length payload" by (simp add: p1)
        then have "\<forall>p \<in> set (rc_pieces r). pc_fin p \<longrightarrow> unat ?d + length p1 \<le> pc_pend rn p"
          using C oi(2) by (metis add_le_cancel_left le_trans list.set_intros)
        then have "p2 = p1" using k(2) by (simp add: p2)
        then have e2: "{unat ?d ..< unat ?d + length p2} = {pc_off rn inc ..< pc_pend rn inc} \<inter> {..< unat win}"
          using oi dw by (auto simp: p1 mp)
        have qs: "pc_pend rn q \<le> pc_pend rn p" if qp: "q \<in> set (rc_pieces r) \<union> fragPiece rn ` set fs" "p \<in> set cand" "pc_fin p" for p q
        proof -
          obtain p' where p': "p' \<in> set (inc # rc_pieces r)" "pc_fin p'" "pc_pend rn p' = pc_pend rn p"
          proof -
            consider "p \<in> set (rc_pieces r)" | "fin2" "p = ?fp"
              using qp(2,3) by (auto simp: cand split: if_splits)
            then show thesis
            proof cases
              case 1
              then show ?thesis using that [of p] qp(3) by simp
            next
              case 2
              then show ?thesis using that [of inc] f12 fp(1) by (simp add: inc_def)
            qed
          qed
          obtain q' where q': "q' \<in> set (inc # rc_pieces r)" "pc_pend rn q \<le> pc_pend rn q'"
          proof (cases "q \<in> set (rc_pieces r)")
            case True
            then show ?thesis using that [of q] by simp
          next
            case False
            then obtain g where "g \<in> set fs" "q = fragPiece rn g" using qp(1) by blast
            then show ?thesis using that [of inc] fsub [of g] unfolding subpiece_def by simp
          qed
          have "pc_pend rn q' \<le> pc_pend rn p'" using C p'(1,2) q'(1) by blast
          then show ?thesis using p'(3) q'(2) by linarith
        qed
        have cc: "pcs_cover rn cand = pcs_cover rn (rc_pieces r) \<union> pcs_cover rn (map (fragPiece rn) fs)"
          by (auto simp: cand pc_pend_def)
        have "pcs_cover rn cand \<subseteq> belowFIN f"
        proof (cases f)
          case (Some fo)
          then obtain p where "p \<in> set cand" "pc_fin p" "pc_pend rn p = unat fo" using o(7) by blast
          then have le: "pc_pend rn q \<le> unat fo" if "q \<in> set (rc_pieces r) \<union> fragPiece rn ` set fs" for q
            using qs [OF that] by metis
          show ?thesis
          proof
            fix x
            assume "x \<in> pcs_cover rn cand"
            then obtain q where "q \<in> set (rc_pieces r) \<union> fragPiece rn ` set fs" "x < pc_pend rn q"
              unfolding cc by (auto simp: pcs_cover_def simp del: fragPiece_simps)
            then have "x < unat fo" using le by (meson order_less_le_trans)
            then show "x \<in> belowFIN f" by (simp add: Some belowFIN_def)
          qed
        qed (simp add: belowFIN_def)
        then have "pcs_cover rn out = pcs_cover rn (rc_pieces r) \<union> pcs_cover rn (map (fragPiece rn) fs)" using o(3) cc by blast
        moreover have "pcs_cover rn (map (fragPiece rn) fs) \<subseteq> {unat ?d ..< unat ?d + length p2}"
        proof
          fix x
          assume "x \<in> pcs_cover rn (map (fragPiece rn) fs)"
          then obtain g where g: "g \<in> set fs" "pc_off rn (fragPiece rn g) \<le> x" "x < pc_pend rn (fragPiece rn g)" by (auto simp: pcs_cover_def)
          then have "unat ?d \<le> pc_off rn (fragPiece rn g)" "pc_pend rn (fragPiece rn g) \<le> unat ?d + length p2"
            using fs(2) by (auto simp: subpiece_def)
          then show "x \<in> {unat ?d ..< unat ?d + length p2}" using g by auto
        qed
        ultimately show ?thesis using fs(3) e2 by blast
      qed
      show ?thesis using o(2) bnd der cov
        by (intro exI [of _ ?r] exI [of _ "fs \<noteq> [] \<or> fin2"] conjI res) (simp_all add: receiver_ok_def rn_def)
    qed
  qed
qed

text \<open>
  Normalising any list of ranges within half the sequence space does not panic and gives
  ranges that are sorted, pairwise disjoint and non-empty up to a final FIN, each carrying octets of
  a given range at their own place, covering exactly the given octets before the first FIN, and
  never more ranges than were given.
\<close>

theorem normalizeTCPReceivedPieces_canonical:
  assumes "pcs_bounded rn ps"
  shows "\<exists>out f. normalizeTCPReceivedPieces rn ps = Some out \<and> wf_pieces rn out \<and>
    pcs_cover rn out = pcs_cover rn ps \<inter> belowFIN f \<and>
    (\<forall>q \<in> set out. pc_payload q \<noteq> [] \<longrightarrow> (\<exists>p \<in> set ps. subpiece rn q p)) \<and>
    (\<forall>q \<in> set out. pc_fin q \<longrightarrow> (\<exists>p \<in> set ps. pc_fin p \<and> pc_pend rn p = pc_pend rn q)) \<and>
    length out \<le> length ps \<and>
    (f = None \<longleftrightarrow> (\<forall>p \<in> set ps. \<not> pc_fin p)) \<and>
    (\<forall>fo. f = Some fo \<longrightarrow> (\<exists>p \<in> set ps. pc_fin p \<and> pc_pend rn p = unat fo) \<and> (\<forall>p \<in> set ps. pc_fin p \<longrightarrow> unat fo \<le> pc_pend rn p) \<and>
       out \<noteq> [] \<and> pc_fin (last out))"
  using assms by (rule normalize_ok)

theorem normalizeTCPReceivedPieces_canonical_witness:
  "pcs_bounded 10 [incoming 14 [4, 5] True, incoming 11 [1, 2, 3, 4] False] \<and>
   (\<exists>out. normalizeTCPReceivedPieces 10 [incoming 14 [4, 5] True, incoming 11 [1, 2, 3, 4] False] = Some out \<and>
      wf_pieces 10 out \<and> length out \<le> 2)"
proof -
  have b: "pcs_bounded 10 [incoming 14 [4, 5] True, incoming 11 [1, 2, 3, 4] False]"
    by (simp add: pc_pend_def pc_off_def)
  then show ?thesis using normalizeTCPReceivedPieces_canonical [OF b] by (auto simp: numeral_2_eq_2)
qed

text \<open>
  Storing a segment ahead of RCV.NXT does not panic, keeps the queue well formed with at most
  4096 ranges and an exact byte count, stays within the storage that is available, and invents
  nothing: every retained octet and FIN is one of the segment or of the earlier queue. When the
  segment is retained and does not contradict a known FIN, the queue covers exactly what it covered
  before and the part of the segment inside the window.
\<close>

theorem storeTCPOutOfOrder_keeps:
  assumes "receiver_ok r" "unat win \<le> 1073741824" "length payload \<le> 65535"
  shows "\<exists>r' stored. storeTCPOutOfOrder cap r win extra sequence payload owner fin = Some (r', stored) \<and>
    receiver_ok r' \<and> rc_next r' = rc_next r \<and> rc_bytes r' \<le> rc_bytes r + storeAvailable r extra \<and>
    pcs_derived (rc_next r) (rc_pieces r') (incoming sequence payload fin # rc_pieces r) \<and>
    (stored \<longrightarrow> (\<forall>p \<in> set (incoming sequence payload fin # rc_pieces r).
        \<forall>q \<in> set (incoming sequence payload fin # rc_pieces r).
        pc_fin p \<longrightarrow> pc_pend (rc_next r) q \<le> pc_pend (rc_next r) p) \<longrightarrow>
       pcs_cover (rc_next r) (rc_pieces r') = pcs_cover (rc_next r) (rc_pieces r) \<union>
         ({pc_off (rc_next r) (incoming sequence payload fin) ..< pc_pend (rc_next r) (incoming sequence payload fin)} \<inter>
          {..< unat win}))"
  using store_ok [OF assms refl refl] by blast

theorem storeTCPOutOfOrder_keeps_witness:
  "\<exists>r r'. receiver_ok r \<and> storeTCPOutOfOrder 0 r 1000 0 15 [7, 8] [] False = Some (r', True) \<and> receiver_ok r'"
proof -
  let ?r = "\<lparr>rc_conn = \<lparr>cn_receiveCapacity = 100, cn_readBuffer = rb_empty, cn_userClosed = False,
      cn_readClosed = False, cn_readNotify = None, cn_outOfOrderUnread = 0\<rparr>,
      rc_next = 10, rc_pieces = [], rc_bytes = 0\<rparr>"
  have ok: "receiver_ok ?r" by (simp add: receiver_ok_def wf_pieces_def totalBytes_def pcs_ordered_def)
  have c: "map_option snd (storeTCPOutOfOrder 0 ?r 1000 0 15 [7, 8] [] False) = Some True" by code_simp
  have "unat (1000 :: u32) \<le> 1073741824" "length ([7, 8] :: bytes) \<le> 65535" by simp_all
  then obtain r' stored where "storeTCPOutOfOrder 0 ?r 1000 0 15 [7, 8] [] False = Some (r', stored)" "receiver_ok r'"
    using storeTCPOutOfOrder_keeps [OF ok, of 1000 "[7, 8]" 0 0 15 "[]" False] by auto
  then show ?thesis using ok c by auto
qed

end
