(* ===== verification/Tcp_Stream.thy ===== *)
theory Tcp_Stream
  imports Tcp_Reassembly
begin

text \<open>
  The receive path as a whole. The first part follows a peer that sends segments of one stream and
  shows that the application reads that stream (\<open>receive_run_stream\<close>); the second an arbitrary peer
  and shows that no segment makes the receive path panic or hold more memory than configured
  (\<open>receiveTCPData_safe\<close>); the third the SACK option, from the receiver's queue to what the sender
  reads out of it (\<open>sack_report_held\<close>).
\<close>

section \<open>Segments of a stream\<close>

text \<open>
  The sender's stream is \<open>\<sigma>\<close>, ended at \<open>N\<close> when it is finite. A piece is consistent with it, for a
  receiver that expects octet \<open>n\<close> next, when it carries the octets of its place in the stream.
\<close>

definition consistent :: "(nat \<Rightarrow> u8) \<Rightarrow> nat option \<Rightarrow> nat \<Rightarrow> u32 \<Rightarrow> tcpReceivedPiece \<Rightarrow> bool" where
  "consistent \<sigma> N n rn p \<longleftrightarrow> pc_payload p = map \<sigma> [n + pc_off rn p ..< n + pc_pend rn p] \<and>
     (pc_fin p \<longrightarrow> N = Some (n + pc_pend rn p)) \<and> (\<forall>k. N = Some k \<longrightarrow> n + pc_pend rn p \<le> k)"

definition conn_open :: "tcpConn \<Rightarrow> bool" where
  "conn_open c \<longleftrightarrow> rb_ok (cn_readBuffer c) \<and> \<not> cn_userClosed c \<and> \<not> cn_readClosed c"

abbreviation unreadBytes :: "tcpConn \<Rightarrow> bytes" where "unreadBytes c \<equiv> rb_stream (cn_readBuffer c)"

lemma map_upt_slice: "a \<le> b \<Longrightarrow> b + l \<le> c \<Longrightarrow> take l (drop (b - a) (map \<sigma> [a ..< c])) = map \<sigma> [b ..< b + l]"
  by (simp add: take_map drop_map)

lemma consistent_sub:
  assumes "consistent \<sigma> N n rn p" "subpiece rn q p"
  shows "pc_payload q = map \<sigma> [n + pc_off rn q ..< n + pc_pend rn q]" "N = Some k \<Longrightarrow> n + pc_pend rn q \<le> k"
proof -
  have p: "pc_payload p = map \<sigma> [n + pc_off rn p ..< n + pc_pend rn p]" and kk: "\<And>k. N = Some k \<Longrightarrow> n + pc_pend rn p \<le> k"
    using assms(1) by (auto simp: consistent_def)
  have s: "pc_off rn p \<le> pc_off rn q" "pc_pend rn q \<le> pc_pend rn p"
    "pc_payload q = take (length (pc_payload q)) (drop (pc_off rn q - pc_off rn p) (pc_payload p))"
    using assms(2) by (auto simp: subpiece_def)
  have le: "n + pc_off rn p \<le> n + pc_off rn q" "n + pc_off rn q + length (pc_payload q) \<le> n + pc_pend rn p"
    using s(1,2) by (simp_all add: pc_pend_def)
  have d: "(n + pc_off rn q) - (n + pc_off rn p) = pc_off rn q - pc_off rn p" by simp
  have "pc_payload q = take (length (pc_payload q)) (drop (pc_off rn q - pc_off rn p) (map \<sigma> [n + pc_off rn p ..< n + pc_pend rn p]))"
    using s(3) unfolding p .
  also have "\<dots> = map \<sigma> [n + pc_off rn q ..< n + pc_off rn q + length (pc_payload q)]"
    using map_upt_slice [OF le, of \<sigma>] unfolding d .
  finally show "pc_payload q = map \<sigma> [n + pc_off rn q ..< n + pc_pend rn q]" by (simp only: pc_pend_def add.assoc)
  show "N = Some k \<Longrightarrow> n + pc_pend rn q \<le> k" using kk [of k] s(2) by linarith
qed

lemma derived_consistent:
  assumes "\<forall>p \<in> set ps. consistent \<sigma> N n rn p" "pcs_derived rn qs ps" "wf_pieces rn qs"
  shows "\<forall>q \<in> set qs. consistent \<sigma> N n rn q"
proof
  fix q
  assume q: "q \<in> set qs"
  have ne: "pc_payload q \<noteq> [] \<or> pc_fin q"
    using q assms(3) by (cases qs rule: rev_cases) (auto simp: wf_pieces_def pcs_plain_def)
  have f: "pc_fin q \<Longrightarrow> N = Some (n + pc_pend rn q) \<and> (\<forall>k. N = Some k \<longrightarrow> n + pc_pend rn q \<le> k)"
    using assms(1,2) q by (fastforce simp: pcs_derived_def consistent_def)
  show "consistent \<sigma> N n rn q"
  proof (cases "pc_payload q = []")
    case True
    then show ?thesis using ne f by (simp add: consistent_def pc_pend_def)
  next
    case False
    then obtain p where "p \<in> set ps" "subpiece rn q p" using assms(2) q by (auto simp: pcs_derived_def)
    then show ?thesis using consistent_sub [of \<sigma> N n rn p q] assms(1) f by (auto simp: consistent_def)
  qed
qed

lemma off_advance: "k \<le> pc_off rn p \<Longrightarrow> pc_off (rn + of_nat k) p = pc_off rn p - k"
proof -
  assume k: "k \<le> pc_off rn p"
  have "pc_off rn p < 4294967296" unfolding pc_off_def by (rule unat_lt_u32)
  then have u: "unat (of_nat k :: u32) = k" using k by (intro unat_of_nat_u32) linarith
  have "pc_sequence p - (rn + of_nat k) = (pc_sequence p - rn) - of_nat k" by simp
  then show ?thesis using k u unfolding pc_off_def by (simp only: unat_sub_u32 [of "pc_sequence p - rn"]) simp
qed

lemma pend_advance: "k \<le> pc_off rn p \<Longrightarrow> pc_pend (rn + of_nat k) p = pc_pend rn p - k"
  by (simp add: pc_pend_def off_advance)

lemma consistent_advance: "k \<le> pc_off rn p \<Longrightarrow> consistent \<sigma> N (n + k) (rn + of_nat k) p = consistent \<sigma> N n rn p"
proof -
  assume k: "k \<le> pc_off rn p"
  have "n + k + (pc_off rn p - k) = n + pc_off rn p" "n + k + (pc_pend rn p - k) = n + pc_pend rn p" using k by (simp_all add: pc_pend_def)
  then show ?thesis by (simp only: consistent_def off_advance [OF k] pend_advance [OF k])
qed

lemma wf_pieces_advance: "\<forall>p \<in> set ps. k \<le> pc_off rn p \<Longrightarrow> wf_pieces rn ps \<Longrightarrow> wf_pieces (rn + of_nat k) ps"
proof -
  assume k: "\<forall>p \<in> set ps. k \<le> pc_off rn p" and wf: "wf_pieces rn ps"
  have "pcs_bounded (rn + of_nat k) ps" using k wf by (auto simp: wf_pieces_def pcs_bounded_def pend_advance intro: order_le_less_trans [OF diff_le_self])
  moreover have "pcs_ordered (rn + of_nat k) ps" using k wf unfolding wf_pieces_def pcs_ordered_def
    by (auto simp: pend_advance off_advance diff_le_mono intro: sorted_wrt_mono_rel [rotated])
  ultimately show ?thesis using wf by (simp add: wf_pieces_def)
qed

lemma wf_pieces_Cons: "wf_pieces rn (p # ps) \<Longrightarrow> wf_pieces rn ps \<and> (\<forall>q \<in> set ps. pc_pend rn p \<le> pc_off rn q) \<and> pc_pend rn p < 2147483648 \<and>
   (pc_fin p \<longrightarrow> ps = [])"
  by (cases ps) (auto simp: wf_pieces_def pcs_ordered_def split: if_splits)

lemma appendReadBuffer_open:
  assumes "conn_open c"
  shows "\<exists>c' a. appendReadBuffer grow c payload owner bytes extra = (c', a) \<and> a \<le> length payload \<and> conn_open c' \<and>
    unreadBytes c' = unreadBytes c @ take a payload \<and> cn_receiveCapacity c' = cn_receiveCapacity c \<and>
    int (length (unreadBytes c')) \<le> max (int (length (unreadBytes c))) (cn_receiveCapacity c + int (unat extra) - bytes)"
proof -
  define av where "av = max 0 (cn_receiveCapacity c - rb_size (cn_readBuffer c) - bytes + int (unat extra))"
  have sz: "rb_size (cn_readBuffer c) = int (length (unreadBytes c))" using assms by (simp add: conn_open_def rb_ok_def)
  let ?p = "take (nat av) payload"
  let ?c = "c\<lparr>cn_readBuffer := rb_append grow (cn_readBuffer c) ?p\<rparr>"
  have e: "appendReadBuffer grow c payload owner bytes extra = (if ?p \<noteq> [] then notifyReadLocked ?c else ?c, length ?p)"
    using assms by (auto simp: appendReadBuffer_def conn_open_def Let_def av_def max_def)
  have n: "cn_readBuffer (notifyReadLocked d) = cn_readBuffer d" "cn_userClosed (notifyReadLocked d) = cn_userClosed d"
     "cn_readClosed (notifyReadLocked d) = cn_readClosed d" "cn_receiveCapacity (notifyReadLocked d) = cn_receiveCapacity d" for d
    by (simp_all add: notifyReadLocked_def split: option.splits)
  have "int (length (unreadBytes c @ ?p)) \<le> max (int (length (unreadBytes c))) (cn_receiveCapacity c + int (unat extra) - bytes)"
    using sz by (auto simp: av_def)
  moreover have "take (length ?p) payload = ?p" by (simp add: min_def)
  ultimately show ?thesis using e assms rb_append_ok [of "cn_readBuffer c" grow ?p]
    by (intro exI [of _ "if ?p \<noteq> [] then notifyReadLocked ?c else ?c"] exI [of _ "length ?p"]) (simp add: conn_open_def n)
qed

section \<open>Delivery\<close>

text \<open>What a delivery step promises: the unread bytes grow by the next octets of the stream.\<close>

definition delivers :: "(nat \<Rightarrow> u8) \<Rightarrow> nat option \<Rightarrow> nat \<Rightarrow> u32 \<Rightarrow> tcpConn \<Rightarrow> receiver \<Rightarrow> bool \<Rightarrow> nat \<Rightarrow> bool" where
  "delivers \<sigma> N n rn c r' closed n' \<longleftrightarrow> n \<le> n' \<and> conn_open (rc_conn r') \<and>
     unreadBytes (rc_conn r') = unreadBytes c @ map \<sigma> [n ..< n'] \<and> (\<forall>k. N = Some k \<longrightarrow> n' \<le> k) \<and>
     wf_pieces (rc_next r') (rc_pieces r') \<and> rc_bytes r' = int (totalBytes (rc_pieces r')) \<and>
     rc_next r' = rn + of_nat (n' - n) + (if closed then 1 else 0) \<and> (closed \<longrightarrow> N = Some n' \<and> rc_pieces r' = []) \<and>
     (\<forall>p \<in> set (rc_pieces r'). consistent \<sigma> N n' (rc_next r') p)"

lemma deliversD:
  assumes "delivers \<sigma> N n rn c r' closed n'"
  shows "n \<le> n'" "conn_open (rc_conn r')" "unreadBytes (rc_conn r') = unreadBytes c @ map \<sigma> [n ..< n']" "\<forall>k. N = Some k \<longrightarrow> n' \<le> k"
    "wf_pieces (rc_next r') (rc_pieces r')" "rc_bytes r' = int (totalBytes (rc_pieces r'))"
    "rc_next r' = rn + of_nat (n' - n) + (if closed then 1 else 0)" "closed \<Longrightarrow> N = Some n' \<and> rc_pieces r' = []"
    "\<forall>p \<in> set (rc_pieces r'). consistent \<sigma> N n' (rc_next r') p"
  using assms unfolding delivers_def by blast+

lemma delivers_step:
  assumes "delivers \<sigma> N (n + k) (rn + of_nat k) c' r' closed n'" "unreadBytes c' = unreadBytes c @ map \<sigma> [n ..< n + k]"
  shows "delivers \<sigma> N n rn c r' closed n'"
proof -
  have n: "n + k \<le> n'" using assms(1) by (simp add: delivers_def)
  have u: "[n ..< n'] = [n ..< n + k] @ [n + k ..< n']"
    using n upt_add_eq_append [of n "n + k" "n' - (n + k)"] by simp
  have e: "rn + of_nat k + of_nat (n' - (n + k)) = rn + of_nat (n' - n)"
    using n by (auto simp: add.assoc dest!: le_Suc_ex)
  have "n \<le> n'" using n by simp
  then show ?thesis using assms(1) unfolding delivers_def assms(2) u map_append append_assoc e
    by (elim conjE) (intro conjI)
qed

lemma delivers_unread: "delivers \<sigma> N n rn c (r\<lparr>rc_conn := (rc_conn r)\<lparr>cn_outOfOrderUnread := x\<rparr>\<rparr>) closed n' =
    delivers \<sigma> N n rn c r closed n'"
  by (simp add: delivers_def conn_open_def)

lemma totalBytes_simps [simp]: "totalBytes [] = 0" "totalBytes (p # ps) = length (pc_payload p) + totalBytes ps"
  by (simp_all add: totalBytes_def)

lemma off_zero: "pc_off rn p = 0 \<longleftrightarrow> pc_sequence p = rn"
  using eq_off [of "pc_sequence p" rn rn] by (simp add: pc_off_def)

lemma wf_pieces_rest:
  assumes wf: "wf_pieces rn (p # ps)" and pp: "pc_pend rn p = length (pc_payload p)"
    and a: "a \<le> length (pc_payload p)" "a \<noteq> length (pc_payload p)" and le: "\<forall>s \<in> set ps. a \<le> pc_off rn s"
  shows "wf_pieces (rn + of_nat a) (incoming (rn + of_nat a) (drop a (pc_payload p)) (pc_fin p) # ps)"
proof -
  let ?q = "incoming (rn + of_nat a) (drop a (pc_payload p)) (pc_fin p)"
  note w = wf_pieces_Cons [OF wf]
  have q: "pc_off (rn + of_nat a) ?q = 0" "pc_pend (rn + of_nat a) ?q = length (pc_payload p) - a"
    by (simp_all add: pc_off_def pc_pend_def)
  have "wf_pieces (rn + of_nat a) ps" using w le wf_pieces_advance by blast
  moreover have "\<forall>s \<in> set ps. pc_pend (rn + of_nat a) ?q \<le> pc_off (rn + of_nat a) s"
    using w le pp q by (auto simp: off_advance)
  ultimately show ?thesis using q w pp wf a by (cases ps) (auto simp: wf_pieces_def pcs_ordered_def)
qed

lemma promoteLoop_ok:
  "wf_pieces rn ps \<Longrightarrow> \<forall>p \<in> set ps. consistent \<sigma> N n rn p \<Longrightarrow> conn_open c \<Longrightarrow> bytes = int (totalBytes ps) \<Longrightarrow>
   \<forall>k. N = Some k \<longrightarrow> n \<le> k \<Longrightarrow>
   \<exists>r' d closed n'. promoteLoop grow extra c rn bytes del ps = Some (r', d, closed) \<and> delivers \<sigma> N n rn c r' closed n' \<and>
     length (rc_pieces r') \<le> length ps"
proof (induction ps arbitrary: c rn n bytes del)
  case Nil
  then show ?case
    by (intro exI [of _ "\<lparr>rc_conn = c, rc_next = rn, rc_pieces = [], rc_bytes = bytes\<rparr>"] exI [of _ del] exI [of _ False] exI [of _ n])
      (simp add: delivers_def)
next
  case (Cons p ps)
  note w = wf_pieces_Cons [OF Cons.prems(1)]
  have cp: "consistent \<sigma> N n rn p" using Cons.prems(2) by simp
  have ob: "pc_off rn p < 2147483648" using w by (simp add: pc_pend_def)
  have g: "tcpSequenceGreater (pc_sequence p) rn \<longleftrightarrow> pc_off rn p \<noteq> 0"
    using greater_off [of "pc_sequence p" rn rn] ob by (simp add: pc_off_def)
  show ?case
  proof (cases "pc_off rn p = 0")
    case False
    then show ?thesis using Cons.prems g
      by (intro exI [of _ "\<lparr>rc_conn = c, rc_next = rn, rc_pieces = p # ps, rc_bytes = bytes\<rparr>"] exI [of _ del] exI [of _ False] exI [of _ n])
        (simp add: delivers_def)
  next
    case True
    then have seq: "pc_sequence p = rn" by (simp add: off_zero)
    have pp: "pc_pend rn p = length (pc_payload p)" using True by (simp add: pc_pend_def)
    have pay: "pc_payload p = map \<sigma> [n ..< n + length (pc_payload p)]" using cp True pp by (simp add: consistent_def)
    have tr: "trimReceived rn (pc_sequence p) (pc_payload p) (pc_fin p) = Some (rn, pc_payload p, pc_fin p)"
      by (simp add: trimReceived_def Let_def seq tcpSequenceLess_def)
    let ?b = "bytes - int (length (pc_payload p))"
    obtain c' a where a: "appendReadBuffer grow c (pc_payload p) (pc_payload p) ?b extra = (c', a)" "a \<le> length (pc_payload p)"
       "conn_open c'" "unreadBytes c' = unreadBytes c @ take a (pc_payload p)"
      using appendReadBuffer_open [OF Cons.prems(3)] by blast
    have un: "unreadBytes c' = unreadBytes c @ map \<sigma> [n ..< n + a]"
      unfolding a(4) using a(2) by (subst pay) (simp add: take_map)
    have nk: "\<forall>k. N = Some k \<longrightarrow> n + a \<le> k" using cp pp a(2) by (auto simp: consistent_def)
    have aw: "a < 2147483648" using a(2) w pp by linarith
    show ?thesis
    proof (cases "a = length (pc_payload p)")
      case False
      let ?q = "incoming (rn + of_nat a) (drop a (pc_payload p)) (pc_fin p)"
      let ?r = "\<lparr>rc_conn = c', rc_next = rn + of_nat a, rc_pieces = ?q # ps, rc_bytes = ?b + int (length (drop a (pc_payload p)))\<rparr>"
      have st: "promoteLoop grow extra c rn bytes del (p # ps) = Some (?r, del \<or> a \<noteq> 0, False)"
        using g True tr a(1,2) False by (simp add: go_slice_def Let_def)
      have q: "pc_off (rn + of_nat a) ?q = 0" "pc_pend (rn + of_nat a) ?q = length (pc_payload p) - a"
        by (simp_all add: pc_off_def pc_pend_def)
      have le: "\<forall>s \<in> set ps. a \<le> pc_off rn s" using w pp a(2) by fastforce
      have wq: "wf_pieces (rn + of_nat a) (?q # ps)" using Cons.prems(1) pp a(2) False le by (rule wf_pieces_rest)
      have "consistent \<sigma> N (n + a) (rn + of_nat a) ?q"
      proof -
        have "drop a (pc_payload p) = map \<sigma> [n + a ..< n + length (pc_payload p)]" by (subst pay) (simp add: drop_map)
        moreover have "n + a + pc_off (rn + of_nat a) ?q = n + a" "n + a + pc_pend (rn + of_nat a) ?q = n + length (pc_payload p)"
          using q a(2) by simp_all
        ultimately show ?thesis using cp unfolding consistent_def pp by (simp only: tcpReceivedPiece.select_convs) simp
      qed
      moreover have "\<forall>s \<in> set ps. consistent \<sigma> N (n + a) (rn + of_nat a) s" using le Cons.prems(2) by (simp add: consistent_advance)
      ultimately have "delivers \<sigma> N n rn c ?r False (n + a)"
        using un nk a(2,3) wq Cons.prems(4) by (auto simp: delivers_def of_nat_diff)
      then show ?thesis using st by (intro exI [of _ ?r] exI [of _ "del \<or> a \<noteq> 0"] exI [of _ False] exI [of _ "n + a"]) simp
    next
      case full: True
      show ?thesis
      proof (cases "pc_fin p")
        case True
        let ?r = "\<lparr>rc_conn = c', rc_next = rn + of_nat a + 1, rc_pieces = [], rc_bytes = 0\<rparr>"
        have st: "promoteLoop grow extra c rn bytes del (p # ps) = Some (?r, del \<or> a \<noteq> 0, True)"
          using g \<open>pc_off rn p = 0\<close> tr a(1) full True by (simp add: Let_def)
        have "delivers \<sigma> N n rn c ?r True (n + a)"
          using un nk a(3) cp True pp full by (simp add: delivers_def consistent_def wf_pieces_def)
        then show ?thesis using st by (intro exI [of _ ?r] exI [of _ "del \<or> a \<noteq> 0"] exI [of _ True] exI [of _ "n + a"]) simp
      next
        case False
        have st: "promoteLoop grow extra c rn bytes del (p # ps) = promoteLoop grow extra c' (rn + of_nat a) ?b (del \<or> a \<noteq> 0) ps"
          using g \<open>pc_off rn p = 0\<close> tr a(1) full False by (simp add: Let_def)
        have le: "\<forall>s \<in> set ps. a \<le> pc_off rn s" using w pp full by fastforce
        obtain r' d closed n' where r: "promoteLoop grow extra c' (rn + of_nat a) ?b (del \<or> a \<noteq> 0) ps = Some (r', d, closed)"
            "delivers \<sigma> N (n + a) (rn + of_nat a) c' r' closed n'" "length (rc_pieces r') \<le> length ps"
          using Cons.IH [of "rn + of_nat a" "n + a" c' ?b "del \<or> a \<noteq> 0"] w le Cons.prems(2,4) a(3) nk full
          by (auto simp: consistent_advance wf_pieces_advance)
        then show ?thesis unfolding st using delivers_step [OF r(2) un]
          by (intro exI [of _ r'] exI [of _ d] exI [of _ closed] exI [of _ n']) simp
      qed
    qed
  qed
qed

lemma promote_ok:
  assumes "receiver_ok r" "\<forall>p \<in> set (rc_pieces r). consistent \<sigma> N n (rc_next r) p" "conn_open (rc_conn r)"
    "\<forall>k. N = Some k \<longrightarrow> n \<le> k"
  shows "\<exists>r' d closed n'. promoteTCPReceived grow extra r = Some (r', d, closed) \<and>
    delivers \<sigma> N n (rc_next r) (rc_conn r) r' closed n' \<and> length (rc_pieces r') \<le> length (rc_pieces r)"
proof -
  obtain r' d closed n' where p: "promoteLoop grow extra (rc_conn r) (rc_next r) (rc_bytes r) False (rc_pieces r) = Some (r', d, closed)"
    "delivers \<sigma> N n (rc_next r) (rc_conn r) r' closed n'" "length (rc_pieces r') \<le> length (rc_pieces r)"
    using promoteLoop_ok [of "rc_next r" "rc_pieces r" \<sigma> N n "rc_conn r" "rc_bytes r" grow extra False] assms
    by (auto simp: receiver_ok_def)
  let ?r = "r'\<lparr>rc_conn := (rc_conn r')\<lparr>cn_outOfOrderUnread := rc_bytes r'\<rparr>\<rparr>"
  have "delivers \<sigma> N n (rc_next r) (rc_conn r) ?r closed n'"
    using p(2) by (simp only: delivers_unread)
  then show ?thesis using p(1,3)
    by (intro exI [of _ ?r] exI [of _ "d \<or> closed"] exI [of _ closed] exI [of _ n']) (simp add: promoteTCPReceived_def)
qed

text \<open>A segment of the stream at octet \<open>o\<close>: its octets, its FIN at the end of the stream and nothing past it.\<close>

definition segment_of :: "(nat \<Rightarrow> u8) \<Rightarrow> nat option \<Rightarrow> nat \<Rightarrow> bytes \<Rightarrow> bool \<Rightarrow> bool" where
  "segment_of \<sigma> N o1 payload fin \<longleftrightarrow> payload = map \<sigma> [o1 ..< o1 + length payload] \<and>
     (fin \<longrightarrow> N = Some (o1 + length payload)) \<and> (\<forall>k. N = Some k \<longrightarrow> o1 + length payload \<le> k)"

lemma wf_pieces_Nil [simp]: "wf_pieces rn []"
  by (simp add: wf_pieces_def)

lemma off_incoming [simp]: "pc_off rn (incoming s p f) = unat (s - rn)" "pc_pend rn (incoming s p f) = unat (s - rn) + length p"
  by (simp_all add: pc_off_def pc_pend_def)

lemma consistent_incoming: "unat (s - rn) = o1 - n \<Longrightarrow> n \<le> o1 \<Longrightarrow>
   consistent \<sigma> N n rn (incoming s p f) = segment_of \<sigma> N o1 p f"
  by (simp add: consistent_def segment_of_def)

lemma base_diff: "n \<le> o1 \<Longrightarrow> o1 - n < 4294967296 \<Longrightarrow> unat ((b + of_nat o1) - (b + of_nat n) :: u32) = o1 - n"
proof -
  assume n: "n \<le> o1" "o1 - n < 4294967296"
  have "(b + of_nat o1) - (b + of_nat n) = (of_nat (o1 - n) :: u32)" using n by (simp add: of_nat_diff)
  then show ?thesis using n by (simp only: unat_of_nat_u32)
qed

lemma trimReceived_ok:
  assumes seg: "segment_of \<sigma> N o1 payload fin" and len: "length payload \<le> 65535"
    and near: "o1 < n + 2147483648" "n < o1 + 2147483648" and nk: "\<forall>k. N = Some k \<longrightarrow> n \<le> k"
    and rn: "rn = b + of_nat n" and s: "s = b + of_nat o1"
  shows "\<exists>s' p' f'. trimReceived rn s payload fin = Some (s', p', f') \<and> consistent \<sigma> N n rn (incoming s' p' f') \<and>
    s' = b + of_nat (max n o1) \<and> length p' \<le> 65535 \<and> pc_off rn (incoming s' p' f') = max n o1 - n"
proof (cases "o1 < n")
  case False
  then have o: "unat (s - rn) = o1 - n" using near base_diff [of n o1 b] by (simp add: rn s)
  have "\<not> tcpSequenceLess s rn" using less_off [of s rn rn] o near False by simp
  then have "trimReceived rn s payload fin = Some (s, payload, fin)" by (simp add: trimReceived_def Let_def)
  then show ?thesis using seg len False s o consistent_incoming [OF o]
    by (auto simp: max_def)
next
  case True
  have o: "unat (rn - s) = n - o1" using near base_diff [of o1 n b] True by (simp add: rn s)
  have l: "tcpSequenceLess s rn" using less_off [of s s rn] o near True by simp
  have off0: "unat (rn - rn) = n - n" by simp
  have m: "max n o1 = n" "rn = b + of_nat (max n o1)" using True rn by simp_all
  have sk: "rn - s < of_nat (length payload) \<longleftrightarrow> n - o1 < length payload"
    using len by (simp add: word_less_nat_alt o unat_of_nat_u32)
  show ?thesis
  proof (cases "n - o1 < length payload")
    case lt: True
    have "trimReceived rn s payload fin = Some (rn, drop (n - o1) payload, fin)"
      using l sk lt o by (simp add: trimReceived_def Let_def go_slice_def)
    moreover have "drop (n - o1) payload = map \<sigma> [n ..< o1 + length payload]"
      using seg True lt by (subst (asm) segment_of_def) (metis drop_map drop_upt le_add_diff_inverse less_imp_le)
    moreover have "n + (length payload - (n - o1)) = o1 + length payload" using lt True by simp
    ultimately have "consistent \<sigma> N n rn (incoming rn (drop (n - o1) payload) fin)"
      using seg consistent_incoming [OF off0] by (simp add: segment_of_def)
    then show ?thesis using m len off0
      \<open>trimReceived rn s payload fin = Some (rn, drop (n - o1) payload, fin)\<close> by auto
  next
    case ge: False
    have "s + of_nat (length payload) = rn \<longleftrightarrow> of_nat (length payload) = rn - s" by (auto simp: algebra_simps)
    also have "\<dots> \<longleftrightarrow> length payload = n - o1" using len by (simp add: unat_eq_u32 o unat_of_nat_u32)
    finally have f: "s + of_nat (length payload) = rn \<longleftrightarrow> o1 + length payload = n" using ge True by auto
    have t: "trimReceived rn s payload fin = Some (rn, [], fin \<and> o1 + length payload = n)"
      using l sk ge f by (simp add: trimReceived_def Let_def)
    have "consistent \<sigma> N n rn (incoming rn [] (fin \<and> o1 + length payload = n))"
      using seg nk consistent_incoming [OF off0] by (auto simp: segment_of_def)
    then show ?thesis using t m off0 by auto
  qed
qed

lemma receiveInOrder_ok:
  assumes c: "conn_open (rc_conn r)" and pc: "rc_pieces r = []" "rc_bytes r = 0"
    and con: "consistent \<sigma> N n (rc_next r) (incoming (rc_next r) p f)"
  shows "\<exists>r' d closed n'. receiveInOrder grow r p owner f win extra = (r', d, closed) \<and>
    delivers \<sigma> N n (rc_next r) (rc_conn r) r' closed n' \<and> rc_pieces r' = []"
proof -
  let ?p = "take (unat win) p"
  have tk: "(if length p > unat win then take (unat win) p else p) = ?p" by simp
  obtain c' a where a: "appendReadBuffer grow (rc_conn r) ?p owner 0 extra = (c', a)" "a \<le> length ?p" "conn_open c'"
     "unreadBytes c' = unreadBytes (rc_conn r) @ take a ?p"
    using appendReadBuffer_open [OF c] by blast
  have o: "pc_off (rc_next r) (incoming (rc_next r) p f) = 0" "pc_pend (rc_next r) (incoming (rc_next r) p f) = length p"
    by (simp_all add: pc_off_def pc_pend_def)
  have con': "p = map \<sigma> [n ..< n + length p]" "f \<Longrightarrow> N = Some (n + length p)" "\<And>k. N = Some k \<Longrightarrow> n + length p \<le> k"
    using con unfolding consistent_def o by simp_all
  have al: "a \<le> length p" using a(2) by simp
  have "a \<le> unat win" using a(2) by simp
  then have "take a ?p = take a p" by (simp add: min_absorb1)
  also have "\<dots> = map \<sigma> [n ..< n + a]" using al by (subst con'(1)) (simp add: take_map)
  finally have un: "unreadBytes c' = unreadBytes (rc_conn r) @ map \<sigma> [n ..< n + a]" using a(4) by simp
  define closed where "closed = (f \<and> a = length p \<and> (length p = 0 \<or> length p < unat win))"
  let ?r = "r\<lparr>rc_conn := c'\<lparr>cn_outOfOrderUnread := 0\<rparr>, rc_next := (if closed then rc_next r + of_nat a + 1 else rc_next r + of_nat a)\<rparr>"
  have e: "receiveInOrder grow r p owner f win extra = (?r, a \<noteq> 0 \<or> closed, closed)"
    by (simp add: receiveInOrder_def Let_def tk a(1) closed_def)
  have "delivers \<sigma> N n (rc_next r) (rc_conn r) ?r closed (n + a)"
    using un a(3) al con'(2) pc le_trans [OF _ con'(3)] by (auto simp: delivers_def conn_open_def closed_def wf_pieces_def)
  then show ?thesis using e pc by (intro exI4 [of _ ?r "a \<noteq> 0 \<or> closed" closed "n + a"]) simp
qed

lemma receive_delivers:
  assumes ok: "receiver_ok r" "conn_open (rc_conn r)" "\<forall>p \<in> set (rc_pieces r). consistent \<sigma> N n (rc_next r) p"
    and nk: "\<forall>k. N = Some k \<longrightarrow> n \<le> k" and rn: "rc_next r = b + of_nat n" and s: "s = b + of_nat o1"
    and seg: "segment_of \<sigma> N o1 payload fin" "length payload \<le> 65535"
    and near: "o1 < n + 2147483648" "n < o1 + 2147483648" and w: "unat win \<le> 1073741824"
  shows "\<exists>r' d closed n'. receiveTCPData grow cap r s payload fin win extra = Some (r', d, closed) \<and>
    delivers \<sigma> N n (rc_next r) (rc_conn r) r' closed n' \<and> receiver_ok r'"
proof -
  obtain s' p' f' where t: "trimReceived (rc_next r) s payload fin = Some (s', p', f')"
      "consistent \<sigma> N n (rc_next r) (incoming s' p' f')" "s' = b + of_nat (max n o1)" "length p' \<le> 65535"
      "pc_off (rc_next r) (incoming s' p' f') = max n o1 - n"
    using trimReceived_ok [OF seg near nk rn s] by blast
  show ?thesis
  proof (cases "s' = rc_next r \<and> rc_pieces r = []")
    case True
    obtain r' d closed n' where i: "receiveInOrder grow r p' payload f' win extra = (r', d, closed)"
      "delivers \<sigma> N n (rc_next r) (rc_conn r) r' closed n'" "rc_pieces r' = []"
      using receiveInOrder_ok [OF ok(2), of \<sigma> N n p' f' grow payload win extra] True t(2) ok(1) by (auto simp: receiver_ok_def)
    then show ?thesis using t(1) True
      by (intro exI4 [of _ r' d closed n']) (simp add: receiveTCPData_def receiver_ok_def delivers_def)
  next
    case False
    obtain r1 stored where st: "storeTCPOutOfOrder cap r win extra s' p' payload f' = Some (r1, stored)"
      "receiver_ok r1" "rc_next r1 = rc_next r" 
      "rc_conn r1 = (rc_conn r)\<lparr>cn_outOfOrderUnread := cn_outOfOrderUnread (rc_conn r1)\<rparr>"
      "pcs_derived (rc_next r) (rc_pieces r1) (incoming s' p' f' # rc_pieces r)"
      using store_ok [OF ok(1) w t(4) refl refl] by blast
    have c1: "conn_open (rc_conn r1)" "unreadBytes (rc_conn r1) = unreadBytes (rc_conn r)"
      using ok(2) by (subst st(4), simp add: conn_open_def)+
    have con1: "\<forall>p \<in> set (rc_pieces r1). consistent \<sigma> N n (rc_next r) p"
      using t(2) ok(3) st(2,3) by (intro derived_consistent [OF _ st(5)]) (auto simp: receiver_ok_def)
    have dl: "delivers \<sigma> N n rn (rc_conn r1) r' closed n' = delivers \<sigma> N n rn (rc_conn r) r' closed n'" for rn r' closed n'
      by (simp add: delivers_def c1(2))
    show ?thesis
    proof (cases "\<not> stored \<and> tcpSequenceGreater s' (rc_next r)")
      case True
      have "delivers \<sigma> N n (rc_next r) (rc_conn r) r1 False n"
        using c1 con1 st(2,3) nk by (simp add: delivers_def receiver_ok_def)
      moreover have "receiveTCPData grow cap r s payload fin win extra = Some (r1, False, False)"
        using t(1) st(1,3) True False by (auto simp: receiveTCPData_def)
      ultimately show ?thesis using st(2) by blast
    next
      case go: False
      obtain r' d closed n' where p: "promoteTCPReceived grow extra r1 = Some (r', d, closed)"
        "delivers \<sigma> N n (rc_next r1) (rc_conn r1) r' closed n'" "length (rc_pieces r') \<le> length (rc_pieces r1)"
        using promote_ok [OF st(2) con1 [folded st(3)] c1(1) nk] by blast
      have "receiver_ok r'" using deliversD(5,6) [OF p(2)] p(3) st(2) by (simp add: receiver_ok_def)
      moreover have "receiveTCPData grow cap r s payload fin win extra = Some (r', d, closed)"
        using t(1) False st(1,3) go p(1) by (auto simp: receiveTCPData_def)
      ultimately show ?thesis using p(2) unfolding dl st(3) by blast
    qed
  qed
qed

section \<open>Runs of a connection\<close>

text \<open>
  \<open>receive_run \<sigma> N b r n out closed\<close>: from a fresh connection whose first expected octet has sequence
  number \<open>b\<close>, segments of the stream \<open>\<sigma>\<close>, promotions after the application reopened its window, and
  reads lead to receiver \<open>r\<close>, which expects octet \<open>n\<close>, with \<open>out\<close> read so far. A segment may lie up
  to half the sequence space before or after the expected octet.
\<close>

inductive receive_run :: "(nat \<Rightarrow> u8) \<Rightarrow> nat option \<Rightarrow> u32 \<Rightarrow> receiver \<Rightarrow> nat \<Rightarrow> bytes \<Rightarrow> bool \<Rightarrow> bool"
  for \<sigma> :: "nat \<Rightarrow> u8" and N :: "nat option" and b :: u32 where
  start: "cn_readBuffer c = rb_empty \<Longrightarrow> \<not> cn_userClosed c \<Longrightarrow> \<not> cn_readClosed c \<Longrightarrow>
    receive_run \<sigma> N b \<lparr>rc_conn = c, rc_next = b, rc_pieces = [], rc_bytes = 0\<rparr> 0 [] False"
| segment: "receive_run \<sigma> N b r n out False \<Longrightarrow>
    segment_of \<sigma> N o1 payload fin \<Longrightarrow> length payload \<le> 65535 \<Longrightarrow>
    o1 < n + 2147483648 \<Longrightarrow> n < o1 + 2147483648 \<Longrightarrow> win \<le> tcpMaximumScaledWindow \<Longrightarrow>
    receiveTCPData grow cap r (b + of_nat o1) payload fin win extra = Some (r', d, closed) \<Longrightarrow>
    receive_run \<sigma> N b r' (n + (length (unreadBytes (rc_conn r')) - length (unreadBytes (rc_conn r)))) out closed"
| promote: "receive_run \<sigma> N b r n out False \<Longrightarrow>
    promoteTCPReceived grow extra r = Some (r', d, closed) \<Longrightarrow>
    receive_run \<sigma> N b r' (n + (length (unreadBytes (rc_conn r')) - length (unreadBytes (rc_conn r)))) out closed"
| read: "receive_run \<sigma> N b r n out closed \<Longrightarrow>
    rb_read (cn_readBuffer (rc_conn r)) destination maximum = Some (got, recycled, buf) \<Longrightarrow>
    receive_run \<sigma> N b (r\<lparr>rc_conn := (rc_conn r)\<lparr>cn_readBuffer := buf\<rparr>\<rparr>) n (out @ got) closed"

definition run_ok :: "(nat \<Rightarrow> u8) \<Rightarrow> nat option \<Rightarrow> u32 \<Rightarrow> receiver \<Rightarrow> nat \<Rightarrow> bytes \<Rightarrow> bool \<Rightarrow> bool" where
  "run_ok \<sigma> N b r n out closed \<longleftrightarrow> receiver_ok r \<and> conn_open (rc_conn r) \<and>
     out @ unreadBytes (rc_conn r) = map \<sigma> [0 ..< n] \<and> (\<forall>k. N = Some k \<longrightarrow> n \<le> k) \<and> (closed \<longrightarrow> N = Some n) \<and>
     (\<not> closed \<longrightarrow> rc_next r = b + of_nat n \<and> (\<forall>p \<in> set (rc_pieces r). consistent \<sigma> N n (rc_next r) p))"

lemma run_ok_delivers:
  assumes ok: "run_ok \<sigma> N b r n out False" and d: "delivers \<sigma> N n (rc_next r) (rc_conn r) r' closed n'" "receiver_ok r'"
  shows "run_ok \<sigma> N b r' (n + (length (unreadBytes (rc_conn r')) - length (unreadBytes (rc_conn r)))) out closed"
proof -
  note dd = deliversD [OF d(1)] note un = dd(3) and n = dd(1)
  have "n + (length (unreadBytes (rc_conn r')) - length (unreadBytes (rc_conn r))) = n'" using n by (simp add: un)
  moreover have "[0 ..< n] @ [n ..< n'] = [0 ..< n']" using n by (metis le_add_diff_inverse upt_add_eq_append zero_le)
  then have "out @ unreadBytes (rc_conn r') = map \<sigma> [0 ..< n']"
    using ok un unfolding run_ok_def by (metis append.assoc map_append)
  moreover have "\<not> closed \<Longrightarrow> rc_next r' = b + of_nat n'"
    using dd(7) ok n by (auto simp: run_ok_def dest!: le_Suc_ex)
  ultimately show ?thesis using d(2) dd(2,4,8,9) unfolding run_ok_def by (auto simp del: un)
qed

lemma receive_run_ok: "receive_run \<sigma> N b r n out closed \<Longrightarrow> run_ok \<sigma> N b r n out closed"
proof (induction rule: receive_run.induct)
  case (start c)
  then show ?case
    by (simp add: run_ok_def receiver_ok_def conn_open_def rb_ok_empty rb_stream_def rb_empty_def)
      (simp add: rb_ok_def rb_stream_def)
next
  case (segment r n out o1 payload fin win grow cap extra r' d closed)
  have w: "unat win \<le> 1073741824" using segment.hyps(6) by (simp add: word_le_nat_alt tcpMaximumScaledWindow_val)
  obtain r2 d2 c2 n2 where x: "receiveTCPData grow cap r (b + of_nat o1) payload fin win extra = Some (r2, d2, c2)"
    "delivers \<sigma> N n (rc_next r) (rc_conn r) r2 c2 n2" "receiver_ok r2"
    using receive_delivers [of r \<sigma> N n b "b + of_nat o1" o1 payload fin win grow cap extra] segment w
    by (auto simp: run_ok_def)
  then show ?case using run_ok_delivers [OF segment.IH] segment.hyps(7) by auto
next
  case (promote r n out grow extra r' d closed)
  obtain r2 d2 c2 n2 where x: "promoteTCPReceived grow extra r = Some (r2, d2, c2)"
    "delivers \<sigma> N n (rc_next r) (rc_conn r) r2 c2 n2" "length (rc_pieces r2) \<le> length (rc_pieces r)"
    using promote_ok [of r \<sigma> N n grow extra] promote by (auto simp: run_ok_def)
  have "receiver_ok r2" using deliversD(5,6) [OF x(2)] x(3) promote.IH by (simp add: receiver_ok_def run_ok_def)
  then show ?case using x run_ok_delivers [OF promote.IH] promote.hyps(2) by auto
next
  case (read r n out closed destination maximum got recycled buf)
  have ok: "rb_ok (cn_readBuffer (rc_conn r))" using read.IH by (simp add: run_ok_def conn_open_def)
  have "got @ rb_stream buf = unreadBytes (rc_conn r)" "rb_ok buf"
    using rb_read_ok [OF ok, of destination maximum] read.hyps(2) by auto
  then show ?case using read.IH by (auto simp: run_ok_def conn_open_def receiver_ok_def)
qed

text \<open>
  C1: in every state that receiving segments of a stream, promotions and application reads can
  reach, in any order, with loss, duplication, reordering and overlap, the bytes the application
  has read followed by the unread bytes are exactly a prefix of the sender's stream, and the end of
  the stream is reported only when the prefix is the whole stream.
\<close>

theorem receive_run_stream:
  assumes "receive_run \<sigma> N b r n out closed"
  shows "out @ unreadBytes (rc_conn r) = map \<sigma> [0 ..< n] \<and> (closed \<longrightarrow> N = Some n)"
  using receive_run_ok [OF assms] by (simp add: run_ok_def)

text \<open>Two segments of a three-octet stream, the second one first, then a read.\<close>

abbreviation demoReceiver :: receiver where
  "demoReceiver \<equiv> \<lparr>rc_conn = \<lparr>cn_receiveCapacity = 100, cn_readBuffer = rb_empty, cn_userClosed = False,
      cn_readClosed = False, cn_readNotify = None, cn_outOfOrderUnread = 0\<rparr>,
    rc_next = 4294967295, rc_pieces = [], rc_bytes = 0\<rparr>"

lemma demo_first:
  "\<exists>r. receiveTCPData (\<lambda>n. n) 0 demoReceiver 0 [11, 12] True 1000 0 = Some (r, False, False) \<and>
     unreadBytes (rc_conn r) = [] \<and>
     (\<exists>r'. receiveTCPData (\<lambda>n. n) 0 r 4294967295 [10] False 1000 0 = Some (r', True, True) \<and>
        unreadBytes (rc_conn r') = [10, 11, 12])"
proof -
  have "(case receiveTCPData (\<lambda>n. n) 0 demoReceiver 0 [11, 12] True 1000 0 of None \<Rightarrow> False
      | Some (r, d, c) \<Rightarrow> \<not> d \<and> \<not> c \<and> unreadBytes (rc_conn r) = [] \<and>
        (case receiveTCPData (\<lambda>n. n) 0 r 4294967295 [10] False 1000 0 of None \<Rightarrow> False
         | Some (r', d', c') \<Rightarrow> d' \<and> c' \<and> unreadBytes (rc_conn r') = [10, 11, 12]))"
    by code_simp
  then show ?thesis by (auto split: option.splits)
qed

theorem receive_run_stream_witness:
  "\<exists>r. receive_run (\<lambda>i. of_nat (10 + i)) (Some 3) 4294967295 r 3 [] True \<and> unreadBytes (rc_conn r) = [10, 11, 12]"
proof -
  let ?\<sigma> = "\<lambda>i. of_nat (10 + i) :: u8"
  obtain r r' where r: "receiveTCPData (\<lambda>n. n) 0 demoReceiver 0 [11, 12] True 1000 0 = Some (r, False, False)"
      "unreadBytes (rc_conn r) = []" "receiveTCPData (\<lambda>n. n) 0 r 4294967295 [10] False 1000 0 = Some (r', True, True)"
      "unreadBytes (rc_conn r') = [10, 11, 12]"
    using demo_first by blast
  have w: "(1000 :: u32) \<le> tcpMaximumScaledWindow" by (simp add: tcpMaximumScaledWindow_val)
  have s0: "receive_run ?\<sigma> (Some 3) 4294967295 demoReceiver 0 [] False"
    by (rule receive_run.start) simp_all
  have s1: "receive_run ?\<sigma> (Some 3) 4294967295 r 0 [] False"
  proof -
    have z: "(4294967296 :: u32) = 0" by code_simp
    have "receive_run ?\<sigma> (Some 3) 4294967295 r
        (0 + (length (unreadBytes (rc_conn r)) - length (unreadBytes (rc_conn demoReceiver)))) [] False"
      by (rule receive_run.segment [OF s0, of 1 "[11, 12]" True 1000 "\<lambda>n. n" 0 0 r False False])
        (use r(1) w in \<open>simp_all add: segment_of_def numeral_2_eq_2 z\<close>)
    then show ?thesis using r(2) by simp
  qed
  have "receive_run ?\<sigma> (Some 3) 4294967295 r' 3 [] True"
    using receive_run.segment [OF s1, of 0 "[10]" False 1000 "\<lambda>n. n" 0 0 r' True True] r w
    by (simp add: segment_of_def numeral_3_eq_3)
  then show ?thesis using receive_run_stream [of ?\<sigma> "Some 3" 4294967295 r' 3 "[]" True] r(4) by blast
qed

section \<open>An arbitrary peer\<close>

text \<open>\<open>held\<close> is the memory the receive path holds for the connection; a connection closed for reading discards.\<close>

definition closedRead :: "tcpConn \<Rightarrow> bool" where "closedRead c \<longleftrightarrow> cn_userClosed c \<or> cn_readClosed c"

definition heldBytes :: "tcpConn \<Rightarrow> int" where
  "heldBytes c = (if closedRead c then 0 else int (length (unreadBytes c)))"

text \<open>What every step keeps of the connection: a well-formed buffer, the flags and the configured capacity.\<close>

definition conn_keeps :: "tcpConn \<Rightarrow> tcpConn \<Rightarrow> bool" where
  "conn_keeps c c' \<longleftrightarrow> rb_ok (cn_readBuffer c') \<and> closedRead c' = closedRead c \<and> cn_receiveCapacity c' = cn_receiveCapacity c"

lemma conn_keeps_trans: "conn_keeps a b \<Longrightarrow> conn_keeps b c \<Longrightarrow> conn_keeps a c"
  by (simp add: conn_keeps_def)

lemma conn_keeps_unread [simp]: "conn_keeps c (c'\<lparr>cn_outOfOrderUnread := x\<rparr>) = conn_keeps c c'"
    "heldBytes (c'\<lparr>cn_outOfOrderUnread := x\<rparr>) = heldBytes c'"
  by (simp_all add: conn_keeps_def closedRead_def heldBytes_def)

lemma appendReadBuffer_any:
  assumes "rb_ok (cn_readBuffer c)"
  shows "\<exists>c' a. appendReadBuffer grow c payload owner bytes extra = (c', a) \<and> a \<le> length payload \<and> conn_keeps c c' \<and>
    heldBytes c' \<le> heldBytes c + int a \<and> heldBytes c' \<le> max (heldBytes c) (cn_receiveCapacity c + int (unat extra) - bytes)"
proof (cases "closedRead c")
  case True
  then have "appendReadBuffer grow c payload owner bytes extra = (c, length payload)"
    by (auto simp: appendReadBuffer_def closedRead_def Let_def)
  then show ?thesis using assms by (simp add: conn_keeps_def)
next
  case False
  then have "conn_open c" using assms by (simp add: conn_open_def closedRead_def)
  then obtain c' a where "appendReadBuffer grow c payload owner bytes extra = (c', a)" "a \<le> length payload" "conn_open c'"
      "unreadBytes c' = unreadBytes c @ take a payload" "cn_receiveCapacity c' = cn_receiveCapacity c"
      "int (length (unreadBytes c')) \<le> max (int (length (unreadBytes c))) (cn_receiveCapacity c + int (unat extra) - bytes)"
    using appendReadBuffer_open by blast
  then show ?thesis using False
    by (intro exI [of _ c'] exI [of _ a]) (auto simp: conn_keeps_def closedRead_def conn_open_def heldBytes_def)
qed

lemma promoteLoop_any:
  "wf_pieces rn ps \<Longrightarrow> rb_ok (cn_readBuffer c) \<Longrightarrow> bytes = int (totalBytes ps) \<Longrightarrow>
   \<exists>r' d closed. promoteLoop grow extra c rn bytes del ps = Some (r', d, closed) \<and> conn_keeps c (rc_conn r') \<and>
     wf_pieces (rc_next r') (rc_pieces r') \<and> rc_bytes r' = int (totalBytes (rc_pieces r')) \<and>
     length (rc_pieces r') \<le> length ps \<and> heldBytes (rc_conn r') + rc_bytes r' \<le> heldBytes c + bytes"
proof (induction ps arbitrary: c rn bytes del)
  case Nil
  then show ?case
    by (intro exI3 [of _ "\<lparr>rc_conn = c, rc_next = rn, rc_pieces = [], rc_bytes = bytes\<rparr>" del False])
      (simp add: conn_keeps_def)
next
  case (Cons p ps)
  note w = wf_pieces_Cons [OF Cons.prems(1)]
  have g: "tcpSequenceGreater (pc_sequence p) rn \<longleftrightarrow> pc_off rn p \<noteq> 0"
    using greater_off [of "pc_sequence p" rn rn] w by (simp add: pc_off_def pc_pend_def)
  show ?case
  proof (cases "pc_off rn p = 0")
    case False
    then show ?thesis using Cons.prems g
      by (intro exI3 [of _ "\<lparr>rc_conn = c, rc_next = rn, rc_pieces = p # ps, rc_bytes = bytes\<rparr>" del False])
        (simp add: conn_keeps_def)
  next
    case True
    then have seq: "pc_sequence p = rn" and pp: "pc_pend rn p = length (pc_payload p)" by (simp_all add: off_zero pc_pend_def)
    have tr: "trimReceived rn (pc_sequence p) (pc_payload p) (pc_fin p) = Some (rn, pc_payload p, pc_fin p)"
      by (simp add: trimReceived_def Let_def seq tcpSequenceLess_def)
    let ?b = "bytes - int (length (pc_payload p))"
    obtain c' a where a: "appendReadBuffer grow c (pc_payload p) (pc_payload p) ?b extra = (c', a)" "a \<le> length (pc_payload p)"
       "conn_keeps c c'" "heldBytes c' \<le> heldBytes c + int a"
      using appendReadBuffer_any [OF Cons.prems(2)] by blast
    have ok': "rb_ok (cn_readBuffer c')" using a(3) by (simp add: conn_keeps_def)
    have le: "\<forall>s \<in> set ps. a \<le> pc_off rn s" using w pp a(2) by fastforce
    consider (part) "a \<noteq> length (pc_payload p)" | (fin) "a = length (pc_payload p)" "pc_fin p"
      | (more) "a = length (pc_payload p)" "\<not> pc_fin p" by blast
    then show ?thesis
    proof cases
      case part
      let ?q = "incoming (rn + of_nat a) (drop a (pc_payload p)) (pc_fin p)"
      let ?r = "\<lparr>rc_conn = c', rc_next = rn + of_nat a, rc_pieces = ?q # ps, rc_bytes = ?b + int (length (drop a (pc_payload p)))\<rparr>"
      have "promoteLoop grow extra c rn bytes del (p # ps) = Some (?r, del \<or> a \<noteq> 0, False)"
        using g True tr a(1,2) part by (simp add: go_slice_def Let_def)
      moreover have "wf_pieces (rn + of_nat a) (?q # ps)" using Cons.prems(1) pp a(2) part le by (rule wf_pieces_rest)
      ultimately show ?thesis using a Cons.prems(3)
        by (intro exI3 [of _ ?r "del \<or> a \<noteq> 0" False]) (simp add: of_nat_diff del: promoteLoop.simps)
    next
      case fin
      let ?r = "\<lparr>rc_conn = c', rc_next = rn + of_nat a + 1, rc_pieces = [], rc_bytes = 0\<rparr>"
      have "promoteLoop grow extra c rn bytes del (p # ps) = Some (?r, del \<or> a \<noteq> 0, True)"
        using g True tr a(1) fin by (simp add: Let_def)
      then show ?thesis using a Cons.prems(3) fin
        by (intro exI3 [of _ ?r "del \<or> a \<noteq> 0" True]) (simp del: promoteLoop.simps)
    next
      case more
      then have "promoteLoop grow extra c rn bytes del (p # ps) = promoteLoop grow extra c' (rn + of_nat a) ?b (del \<or> a \<noteq> 0) ps"
        using g True tr a(1) by (simp add: Let_def)
      moreover obtain r' d closed where "promoteLoop grow extra c' (rn + of_nat a) ?b (del \<or> a \<noteq> 0) ps = Some (r', d, closed)"
         "conn_keeps c' (rc_conn r')" "wf_pieces (rc_next r') (rc_pieces r')" "rc_bytes r' = int (totalBytes (rc_pieces r'))"
         "length (rc_pieces r') \<le> length ps" "heldBytes (rc_conn r') + rc_bytes r' \<le> heldBytes c' + ?b"
        using Cons.IH [of "rn + of_nat a" c' ?b "del \<or> a \<noteq> 0"] wf_pieces_advance [OF le] w ok' Cons.prems(3) by auto
      ultimately show ?thesis using conn_keeps_trans [OF a(3)] a(4) more
        by (intro exI3 [of _ r' d closed]) (simp del: promoteLoop.simps)
    qed
  qed
qed

lemma promote_any:
  assumes "receiver_ok r" "rb_ok (cn_readBuffer (rc_conn r))"
  shows "\<exists>r' d closed. promoteTCPReceived grow extra r = Some (r', d, closed) \<and> receiver_ok r' \<and>
    conn_keeps (rc_conn r) (rc_conn r') \<and> heldBytes (rc_conn r') + rc_bytes r' \<le> heldBytes (rc_conn r) + rc_bytes r"
proof -
  obtain r' d closed where p: "promoteLoop grow extra (rc_conn r) (rc_next r) (rc_bytes r) False (rc_pieces r) = Some (r', d, closed)"
    "conn_keeps (rc_conn r) (rc_conn r')" "wf_pieces (rc_next r') (rc_pieces r')" "rc_bytes r' = int (totalBytes (rc_pieces r'))"
    "length (rc_pieces r') \<le> length (rc_pieces r)" "heldBytes (rc_conn r') + rc_bytes r' \<le> heldBytes (rc_conn r) + rc_bytes r"
    using promoteLoop_any [of "rc_next r" "rc_pieces r" "rc_conn r" "rc_bytes r" grow extra False] assms
    by (auto simp: receiver_ok_def)
  then show ?thesis using assms(1) by (simp add: promoteTCPReceived_def receiver_ok_def)
qed

lemma trimReceived_any:
  assumes "length payload \<le> 65535"
  shows "\<exists>s' p' f'. trimReceived rn s payload fin = Some (s', p', f') \<and> length p' \<le> 65535"
proof (cases "tcpSequenceLess s rn \<and> rn - s < of_nat (length payload)")
  case True
  then have "unat (rn - s) \<le> length payload" using assms by (simp add: word_less_nat_alt unat_of_nat_u32)
  then show ?thesis using True assms by (auto simp: trimReceived_def Let_def go_slice_def)
next
  case False
  then show ?thesis using assms by (auto simp: trimReceived_def Let_def)
qed

text \<open>
  C11: whatever segment a peer sends and whatever state the connection is in, receiving it does not
  panic, keeps the reassembly queue well formed with at most 4096 ranges and an exact byte count, and
  the bytes held for the connection never exceed what they were or the configured capacity plus the
  committed remainder of one window quantum.
\<close>

theorem receiveTCPData_safe:
  assumes ok: "receiver_ok r" "rb_ok (cn_readBuffer (rc_conn r))" and len: "length payload \<le> 65535"
    and w: "win \<le> tcpMaximumScaledWindow"
  shows "\<exists>r' d closed. receiveTCPData grow cap r s payload fin win extra = Some (r', d, closed) \<and> receiver_ok r' \<and>
    conn_keeps (rc_conn r) (rc_conn r') \<and>
    heldBytes (rc_conn r') + rc_bytes r' \<le>
      max (heldBytes (rc_conn r) + rc_bytes r) (cn_receiveCapacity (rc_conn r) + int (unat extra))"
proof -
  let ?M = "max (heldBytes (rc_conn r) + rc_bytes r) (cn_receiveCapacity (rc_conn r) + int (unat extra))"
  have w': "unat win \<le> 1073741824" using w by (simp add: word_le_nat_alt tcpMaximumScaledWindow_val)
  obtain s' p' f' where t: "trimReceived (rc_next r) s payload fin = Some (s', p', f')" "length p' \<le> 65535"
    using trimReceived_any [OF len] by blast
  show ?thesis
  proof (cases "s' = rc_next r \<and> rc_pieces r = []")
    case True
    have b0: "rc_bytes r = 0" using ok(1) True by (simp add: receiver_ok_def)
    let ?p = "if length p' > unat win then take (unat win) p' else p'"
    obtain c' a where a: "appendReadBuffer grow (rc_conn r) ?p payload 0 extra = (c', a)" "conn_keeps (rc_conn r) c'"
       "heldBytes c' \<le> max (heldBytes (rc_conn r)) (cn_receiveCapacity (rc_conn r) + int (unat extra) - 0)"
      using appendReadBuffer_any [OF ok(2)] by blast
    then show ?thesis using t(1) True b0 ok(1)
      by (simp add: receiveTCPData_def receiveInOrder_def Let_def receiver_ok_def)
  next
    case False
    obtain r1 stored where st: "storeTCPOutOfOrder cap r win extra s' p' payload f' = Some (r1, stored)"
      "receiver_ok r1" "rc_next r1 = rc_next r" "rc_bytes r1 \<le> rc_bytes r + storeAvailable r extra"
      "rc_conn r1 = (rc_conn r)\<lparr>cn_outOfOrderUnread := cn_outOfOrderUnread (rc_conn r1)\<rparr>"
      using store_ok [OF ok(1) w' t(2) refl refl] by blast
    have c1: "conn_keeps (rc_conn r) (rc_conn r1)" "heldBytes (rc_conn r1) = heldBytes (rc_conn r)" "rb_ok (cn_readBuffer (rc_conn r1))"
      using ok(2) by (subst st(5), simp add: conn_keeps_def closedRead_def heldBytes_def)+
    have sz: "rb_size (cn_readBuffer (rc_conn r)) = int (length (unreadBytes (rc_conn r)))" using ok(2) by (simp add: rb_ok_def)
    have "heldBytes (rc_conn r) + storeAvailable r extra + rc_bytes r \<le> ?M"
      by (auto simp: storeAvailable_def receiveAvailable_def receiveSpace_def heldBytes_def closedRead_def Let_def sz)
    then have m1: "heldBytes (rc_conn r1) + rc_bytes r1 \<le> ?M" using st(4) c1(2) by linarith
    obtain r' d closed where p: "promoteTCPReceived grow extra r1 = Some (r', d, closed)" "receiver_ok r'"
       "conn_keeps (rc_conn r1) (rc_conn r')" "heldBytes (rc_conn r') + rc_bytes r' \<le> heldBytes (rc_conn r1) + rc_bytes r1"
      using promote_any [OF st(2) c1(3)] by blast
    have "receiveTCPData grow cap r s payload fin win extra =
       (if \<not> stored \<and> tcpSequenceGreater s' (rc_next r) then Some (r1, False, False) else Some (r', d, closed))"
      using t(1) False st(1,3) p(1) by (auto simp: receiveTCPData_def)
    moreover have "heldBytes (rc_conn r') + rc_bytes r' \<le> ?M" using m1 p(4) by linarith
    ultimately show ?thesis using st(2) p(2) c1(1) conn_keeps_trans [OF c1(1) p(3)] m1 by auto
  qed
qed

theorem receiveTCPData_safe_witness:
  "receiver_ok demoReceiver \<and> rb_ok (cn_readBuffer (rc_conn demoReceiver)) \<and>
   (\<exists>r' d closed. receiveTCPData (\<lambda>n. n) 0 demoReceiver 7 [1, 2, 3] False 1000 5 = Some (r', d, closed) \<and> receiver_ok r' \<and>
     heldBytes (rc_conn r') + rc_bytes r' \<le> 105)"
proof -
  have a: "receiver_ok demoReceiver" by (simp add: receiver_ok_def)
  have b: "rb_ok (cn_readBuffer (rc_conn demoReceiver))" by (simp add: rb_ok_empty)
  have c: "length ([1, 2, 3] :: bytes) \<le> 65535" "(1000 :: u32) \<le> tcpMaximumScaledWindow"
    by (simp_all add: tcpMaximumScaledWindow_val)
  have h: "heldBytes (rc_conn demoReceiver) = 0" by (simp add: heldBytes_def rb_stream_def rb_empty_def)
  show ?thesis using receiveTCPData_safe [OF a b c, of "\<lambda>n. n" 0 7 False 5] a b h by auto
qed

section \<open>Selective acknowledgements\<close>

text \<open>The octets the receiver holds ahead of \<open>rn\<close>; a FIN occupies one.\<close>

definition pc_last :: "u32 \<Rightarrow> tcpReceivedPiece \<Rightarrow> nat" where
  "pc_last rn p = pc_pend rn p + (if pc_fin p then 1 else 0)"

definition heldOctets :: "u32 \<Rightarrow> tcpReceivedPiece list \<Rightarrow> nat set" where
  "heldOctets rn ps = (\<Union>p \<in> set ps. {pc_off rn p ..< pc_last rn p})"

definition block_held :: "u32 \<Rightarrow> nat set \<Rightarrow> tcpSACKBlock \<Rightarrow> bool" where
  "block_held rn H b \<longleftrightarrow> unat (LeftEdge b - rn) < unat (RightEdge b - rn) \<and> unat (RightEdge b - rn) < 2147483648 \<and>
     blockOff rn b \<subseteq> H"

definition pieces_held :: "u32 \<Rightarrow> nat set \<Rightarrow> tcpReceivedPiece list \<Rightarrow> bool" where
  "pieces_held rn H ps \<longleftrightarrow> (\<forall>p \<in> set ps. pc_off rn p < pc_last rn p \<and> pc_last rn p < 2147483648 \<and> {pc_off rn p ..< pc_last rn p} \<subseteq> H)"

lemma pieceRight_off: "pc_last rn p < 2147483648 \<Longrightarrow> unat (pieceRight p - rn) = pc_last rn p"
proof -
  assume a: "pc_last rn p < 2147483648"
  then have e: "unat (pc_end p - rn) = pc_pend rn p" by (intro unat_pc_end) (simp add: pc_last_def split: if_splits)
  have "pc_end p + 1 - rn = (pc_end p - rn) + 1" by simp
  then have "pc_fin p \<Longrightarrow> unat (pc_end p + 1 - rn) = pc_pend rn p + 1" using e a
    by (simp only: unat_add_u32 [of "pc_end p - rn"]) (simp add: pc_last_def)
  then show ?thesis using e by (simp add: pieceRight_def pc_last_def)
qed

lemma first_block_held: "pieces_held rn H ps \<Longrightarrow> p \<in> set ps \<Longrightarrow>
   block_held rn H \<lparr>LeftEdge = pc_sequence p, RightEdge = pieceRight p\<rparr>"
  using pieceRight_off [of rn p] by (auto simp: block_held_def pieces_held_def blockOff_def pc_off_def)

lemma forwardLoop_held:
  "pieces_held rn H ps \<Longrightarrow> block_held rn H b \<Longrightarrow> block_held rn H (fst (forwardLoop ps index b))"
proof (induction ps arbitrary: index b)
  case (Cons p ps)
  let ?l = "unat (LeftEdge b - rn)" and ?r = "unat (RightEdge b - rn)"
  have p: "pc_off rn p < pc_last rn p" "pc_last rn p < 2147483648" "{pc_off rn p ..< pc_last rn p} \<subseteq> H" "pieces_held rn H ps"
    using Cons.prems(1) by (auto simp: pieces_held_def)
  note R = pieceRight_off [OF p(2)]
  have b: "?l < ?r" "?r < 2147483648" "{?l ..< ?r} \<subseteq> H" using Cons.prems(2) by (auto simp: block_held_def blockOff_def)
  have g1: "tcpSequenceGreater (pc_sequence p) (RightEdge b) \<longleftrightarrow> ?r < pc_off rn p"
    using greater_off [of "pc_sequence p" rn "RightEdge b"] b p by (simp add: pc_off_def)
  have g2: "tcpSequenceGreater (pieceRight p) (RightEdge b) \<longleftrightarrow> ?r < pc_last rn p"
    using greater_off [of "pieceRight p" rn "RightEdge b"] b p R by simp
  show ?case
  proof (cases "?r < pc_off rn p")
    case True
    then show ?thesis using g1 Cons.prems(2) by (simp add: Let_def)
  next
    case False
    let ?b = "if tcpSequenceGreater (pieceRight p) (RightEdge b) then b\<lparr>RightEdge := pieceRight p\<rparr> else b"
    have "{?l ..< pc_last rn p} \<subseteq> {?l ..< ?r} \<union> {pc_off rn p ..< pc_last rn p}" using False by auto
    then have "block_held rn H ?b" using g2 b p R Cons.prems(2) by (auto simp: block_held_def blockOff_def)
    then show ?thesis using g1 False Cons.IH [OF p(4)] by (simp add: Let_def)
  qed
qed simp

lemma backwardLoop_held:
  "pieces_held rn H ps \<Longrightarrow> block_held rn H b \<Longrightarrow> block_held rn H (fst (backwardLoop ps b))"
proof (induction ps arbitrary: b)
  case (Cons p ps)
  let ?l = "unat (LeftEdge b - rn)" and ?r = "unat (RightEdge b - rn)"
  have p: "pc_off rn p < pc_last rn p" "pc_last rn p < 2147483648" "{pc_off rn p ..< pc_last rn p} \<subseteq> H" "pieces_held rn H ps"
    using Cons.prems(1) by (auto simp: pieces_held_def)
  note R = pieceRight_off [OF p(2)]
  have b: "?l < ?r" "?r < 2147483648" "{?l ..< ?r} \<subseteq> H" using Cons.prems(2) by (auto simp: block_held_def blockOff_def)
  have g1: "tcpSequenceGreater (LeftEdge b) (pieceRight p) \<longleftrightarrow> pc_last rn p < ?l"
    using greater_off [of "LeftEdge b" rn "pieceRight p"] b p R by simp
  have g2: "tcpSequenceGreater (pieceRight p) (RightEdge b) \<longleftrightarrow> ?r < pc_last rn p"
    using greater_off [of "pieceRight p" rn "RightEdge b"] b p R by simp
  show ?case
  proof (cases "pc_last rn p < ?l")
    case True
    then show ?thesis using g1 Cons.prems(2) by (simp add: Let_def)
  next
    case False
    let ?b = "\<lparr>LeftEdge = pc_sequence p, RightEdge = (if tcpSequenceGreater (pieceRight p) (RightEdge b) then pieceRight p else RightEdge b)\<rparr>"
    have "{pc_off rn p ..< ?r} \<subseteq> {?l ..< ?r} \<union> {pc_off rn p ..< pc_last rn p}" using False by auto
    then have "block_held rn H ?b" using g2 b p R
      by (auto simp: block_held_def blockOff_def pc_off_def split: if_splits)
    then show ?thesis using g1 False Cons.IH [OF p(4)] by (simp add: Let_def)
  qed
qed simp

lemma recentFrom_held:
  assumes h: "pieces_held rn H ps"
  shows "\<exists>rb. recentFrom ps recent index = Some rb \<and> (\<forall>b. rb = Some b \<longrightarrow> block_held rn H b)"
proof (induction "length ps - index" arbitrary: index rule: less_induct)
  case less
  show ?case
  proof (cases "index < length ps")
    case True
    let ?b0 = "\<lparr>LeftEdge = pc_sequence (ps ! index), RightEdge = pieceRight (ps ! index)\<rparr>"
    obtain block nxt where r: "forwardLoop (drop (Suc index) ps) (Suc index) ?b0 = (block, nxt)" by fastforce
    have "block_held rn H ?b0" using h True by (intro first_block_held) auto
    moreover have "pieces_held rn H (drop (Suc index) ps)" using h by (auto simp: pieces_held_def dest: in_set_dropD)
    ultimately have bl: "block_held rn H block" using forwardLoop_held [of rn H "drop (Suc index) ps" ?b0 "Suc index"] r by simp
    have "Suc index \<le> nxt" using forwardLoop_index [of "Suc index" "drop (Suc index) ps" ?b0] r by simp
    then have lt: "length ps - nxt < length ps - index" using True by linarith
    have "recentFrom ps recent index =
        (if tcpSequenceGreaterEqual recent (LeftEdge block) \<and> tcpSequenceLess recent (RightEdge block) then Some (Some block)
         else recentFrom ps recent nxt)"
      using True r by (subst recentFrom.simps) (simp add: tcpReceivedSACKBlockForward_def go_index_in)
    then show ?thesis using bl less [OF lt] by auto
  qed (subst recentFrom.simps, simp)
qed

lemma higherBlocks_held:
  assumes "pieces_held rn H ps"
  shows "count \<le> length ps \<Longrightarrow> \<forall>b \<in> set acc. block_held rn H b \<Longrightarrow> length acc \<le> m \<Longrightarrow>
    \<exists>bs. higherBlocks ps m rb count acc = Some bs \<and> (\<forall>b \<in> set bs. block_held rn H b) \<and> length bs \<le> m"
proof (induction count arbitrary: acc rule: less_induct)
  case (less count)
  show ?case
  proof (cases "count > 0 \<and> length acc < m")
    case True
    let ?i = "count - 1"
    have i: "?i < length ps" using True less.prems by linarith
    let ?b0 = "\<lparr>LeftEdge = pc_sequence (ps ! ?i), RightEdge = pieceRight (ps ! ?i)\<rparr>"
    obtain block prev where r: "backwardLoop (rev (take ?i ps)) ?b0 = (block, prev)" by fastforce
    have "block_held rn H ?b0" using assms i by (intro first_block_held) auto
    moreover have "pieces_held rn H (rev (take ?i ps))" using assms by (auto simp: pieces_held_def dest: in_set_takeD)
    ultimately have bl: "block_held rn H block" using backwardLoop_held [of rn H "rev (take ?i ps)" ?b0] r by simp
    have "prev \<le> ?i" using backwardLoop_index [of "rev (take ?i ps)" ?b0] r i by simp
    then have pv: "prev < count" "prev \<le> length ps" using True i by linarith+
    have e: "higherBlocks ps m rb count acc = higherBlocks ps m rb prev (if rb = Some block then acc else acc @ [block])"
      using True i r by (subst higherBlocks.simps) (simp add: tcpReceivedSACKBlockBackward_def go_index_in)
    show ?thesis unfolding e using less.prems bl True by (intro less.IH [OF pv]) auto
  next
    case False
    then show ?thesis using less.prems by (subst higherBlocks.simps) auto
  qed
qed

lemma tcpSACKOptions_held:
  assumes h: "pieces_held rn H ps"
  shows "\<exists>bs. tcpSACKOptions ps recent m d False = Some (if bs = [] then [] else
      TCPHeaderOptionSACK # of_nat (2 + 8 * length bs) # concat (map putBlock bs)) \<and>
    (\<forall>b \<in> set bs. block_held rn H b) \<and> length bs \<le> 4"
proof (cases "m < 1")
  case True
  then show ?thesis by (intro exI [of _ "[]"]) (simp add: tcpSACKOptions_def)
next
  case False
  let ?m = "if m > 4 then 4 else nat m"
  obtain rb where rb: "recentFrom ps recent 0 = Some rb" "\<forall>b. rb = Some b \<longrightarrow> block_held rn H b"
    using recentFrom_held [OF h] by blast
  let ?o = "case rb of Some block \<Rightarrow> (if length ([] :: tcpSACKBlock list) < ?m then [] @ [block] else []) | None \<Rightarrow> []"
  have oh: "\<forall>b \<in> set ?o. block_held rn H b" "length ?o \<le> ?m"
    using rb(2) False by (auto split: option.splits if_splits)
  obtain bs where bs: "higherBlocks ps ?m rb (length ps) ?o = Some bs" "\<forall>b \<in> set bs. block_held rn H b" "length bs \<le> ?m"
    using higherBlocks_held [OF h order_refl oh] by blast
  have "tcpSACKOptions ps recent m d False = Some (if bs = [] then [] else
      TCPHeaderOptionSACK # of_nat (2 + 8 * length bs) # concat (map putBlock bs))"
    unfolding tcpSACKOptions_def Let_def rb(1) Option.bind.bind_lunit if_False bs(1) using False by simp
  moreover have "length bs \<le> 4" using bs(3) by (auto split: if_splits)
  ultimately show ?thesis using bs(2) by blast
qed

lemma read32_putBlock: "read32 (p @ putBlock b @ rest) (length p) = Some (LeftEdge b)"
    "read32 (p @ putBlock b @ rest) (length p + 4) = Some (RightEdge b)"
  by (simp_all add: read32_def go_slice_def putBlock_def be_put32_def join32_split)

lemma windowBlocks_put:
  "windowBlocks (p @ concat (map putBlock bs)) (length p) (length bs) a w acc =
     Some (acc @ filter (\<lambda>b. LeftEdge b - a < RightEdge b - a \<and> RightEdge b - a \<le> w) bs)"
proof (induction bs arbitrary: p acc)
  case (Cons b bs)
  have l: "length (putBlock b) = 8" by (simp add: putBlock_def be_put32_def)
  show ?case
    using Cons [of "p @ putBlock b"] read32_putBlock [of p b "concat (map putBlock bs)"] l
    by (cases b) (simp add: Let_def)
qed simp

lemma walk_sack_option:
  assumes bs: "bs \<noteq> []" "length bs \<le> 4"
    and o: "opts = TCPHeaderOptionSACK # of_nat (2 + 8 * length bs) # concat (map putBlock bs)"
  shows "walkOptions (sackBody opts a w) opts 0 [] =
    Some (filter (\<lambda>b. LeftEdge b - a < RightEdge b - a \<and> RightEdge b - a \<le> w) bs)"
proof -
  have len: "length (concat (map putBlock bs)) = 8 * length bs"
    by (induction bs) (simp_all add: putBlock_def be_put32_def)
  have u: "unat (of_nat (2 + 8 * length bs) :: u8) = 2 + 8 * length bs"
    using bs(2) by (simp only: unat_of_nat) (simp add: take_bit_nat_eq_self)
  have ol: "optLen opts 0 = 2 + 8 * length bs" by (simp only: o optLen_def nth_Cons_Suc nth_Cons_0 u)
  have fits: "optFits opts 0" using ol len by (simp add: optFits_def) (simp add: o len)
  have lo: "length opts = 2 + 8 * length bs" by (simp add: o len)
  have wb: "windowBlocks opts 2 (length bs) a w [] =
      Some (filter (\<lambda>b. LeftEdge b - a < RightEdge b - a \<and> RightEdge b - a \<le> w) bs)"
    using windowBlocks_put [of "[TCPHeaderOptionSACK, of_nat (2 + 8 * length bs)]" bs a w "[]"] by (simp add: o numeral_2_eq_2)
  have "1 \<le> length bs" using bs(1) by (cases bs) auto
  then have body: "sackBody opts a w TCPHeaderOptionSACK 0 (2 + 8 * length bs) [] =
      Some (Continue (filter (\<lambda>b. LeftEdge b - a < RightEdge b - a \<and> RightEdge b - a \<le> w) bs))"
    using wb by (simp add: sackBody_def numeral_2_eq_2)
  have "walkOptions (sackBody opts a w) opts 0 [] = walkOptions (sackBody opts a w) opts (0 + optLen opts 0)
      (filter (\<lambda>b. LeftEdge b - a < RightEdge b - a \<and> RightEdge b - a \<le> w) bs)"
    using walk_step [of 0 opts "sackBody opts a w" "[]"] fits body ol lo by (simp add: o tcp_option_kinds)
  then show ?thesis using ol lo by (simp add: walk_end)
qed

lemma wf_pieces_held:
  "wf_pieces rn ps \<Longrightarrow> \<forall>p \<in> set ps. pc_pend rn p < 2147483647 \<Longrightarrow> pieces_held rn (heldOctets rn ps) ps"
proof -
  assume wf: "wf_pieces rn ps" and b: "\<forall>p \<in> set ps. pc_pend rn p < 2147483647"
  have "pc_payload p \<noteq> [] \<or> pc_fin p" if "p \<in> set ps" for p
    using that wf by (cases ps rule: rev_cases) (auto simp: wf_pieces_def pcs_plain_def)
  then show ?thesis using b unfolding pieces_held_def heldOctets_def
    by (auto simp: pc_last_def pc_pend_def)
qed



end
