(* ===== verification/Tcp_Scoreboard.thy ===== *)
theory Tcp_Scoreboard
  imports Tcp_Options
begin

text \<open>
  The sender's scoreboard of \<^verbatim>\<open>src/tcp.go\<close>: one record per transmitted sequence range
  (\<open>sentTCPSegment\<close>), the SACK processing that splits and marks the records (\<open>applyTCPSACK\<close>,
  \<open>splitTCPSegmentAt\<close>), the loss tests and the flight estimates of RFC 6675 that scan it, RACK, and
  proportional rate reduction.

  A \<open>time.Time\<close> is the number of nanoseconds since Go's zero time, which is 0; a \<open>monotonicStamp\<close> is
  an integer with 0 for unset. The state of a range is its word of flags. The functions that change
  the slice in place return the changed list.
\<close>

section \<open>Times\<close>

definition monotonicStampTime :: "int \<Rightarrow> int \<Rightarrow> int" where
  "monotonicStampTime epoch s = (if s = 0 then 0 else epoch + (s - 1))"

record packetQueueTicket =
  pt_token :: u64
  pt_queuedAt :: int

definition queuedTime :: "packetQueueTicket \<Rightarrow> int \<Rightarrow> int" where
  "queuedTime t epoch = monotonicStampTime epoch (pt_queuedAt t)"

section \<open>Transmitted ranges\<close>

definition tcpDuplicateACKThreshold :: nat where "tcpDuplicateACKThreshold = 3"
definition tcpMaximumSACKSplitRanges :: nat where "tcpMaximumSACKSplitRanges = 1024"

definition sentTCPSegmentSACKed :: u16 where "sentTCPSegmentSACKed = push_bit 0 1"
definition sentTCPSegmentSACKRetried :: u16 where "sentTCPSegmentSACKRetried = push_bit 1 1"
definition sentTCPSegmentRACKLost :: u16 where "sentTCPSegmentRACKLost = push_bit 2 1"
definition sentTCPSegmentLimited :: u16 where "sentTCPSegmentLimited = push_bit 3 1"
definition sentTCPSegmentCWR :: u16 where "sentTCPSegmentCWR = push_bit 4 1"
definition sentTCPSegmentSACKSplit :: u16 where "sentTCPSegmentSACKSplit = push_bit 5 1"
definition sentTCPSegmentMTUProbe :: u16 where "sentTCPSegmentMTUProbe = push_bit 6 1"
definition sentTCPSegmentDeliverySchedulerLimited :: u16 where "sentTCPSegmentDeliverySchedulerLimited = push_bit 7 1"
definition sentTCPSegmentTransmitted :: u16 where "sentTCPSegmentTransmitted = push_bit 8 1"
definition sentTCPSegmentRetransmitted :: u16 where "sentTCPSegmentRetransmitted = push_bit 9 1"
definition sentTCPSegmentLossReported :: u16 where "sentTCPSegmentLossReported = push_bit 10 1"

lemmas segment_flags = sentTCPSegmentSACKed_def sentTCPSegmentSACKRetried_def sentTCPSegmentRACKLost_def sentTCPSegmentLimited_def
  sentTCPSegmentCWR_def sentTCPSegmentSACKSplit_def sentTCPSegmentMTUProbe_def sentTCPSegmentDeliverySchedulerLimited_def
  sentTCPSegmentTransmitted_def sentTCPSegmentRetransmitted_def sentTCPSegmentLossReported_def

definition stateHas :: "u16 \<Rightarrow> u16 \<Rightarrow> bool" where
  "stateHas s flag \<longleftrightarrow> s AND flag \<noteq> 0"

definition stateSet :: "u16 \<Rightarrow> u16 \<Rightarrow> bool \<Rightarrow> u16" where
  "stateSet s flag enabled = (if enabled then s OR flag else s AND NOT flag)"

definition sentTCPSegmentInitialState :: "bool \<Rightarrow> bool \<Rightarrow> bool \<Rightarrow> bool \<Rightarrow> u16" where
  "sentTCPSegmentInitialState limited cwr mtuProbe schedulerLimited =
     (let state = sentTCPSegmentTransmitted;
          state = (if limited then state OR sentTCPSegmentLimited else state);
          state = (if cwr then state OR sentTCPSegmentCWR else state);
          state = (if mtuProbe then state OR sentTCPSegmentMTUProbe else state)
      in if schedulerLimited then state OR sentTCPSegmentDeliverySchedulerLimited else state)"

record tcpDeliverySnapshot =
  ds_firstSent :: u32
  ds_deliveredStamp :: u32
  ds_deliveredFlags :: u32

record sentTCPSegment =
  sg_sequence :: u32
  sg_end :: u32
  sg_timestamp :: u32
  sg_state :: u16
  sg_flags :: u8
  sg_firstSent :: duration
  sg_hostQueue :: packetQueueTicket
  sg_congestionPacketState :: u64
  sg_delivery :: tcpDeliverySnapshot
  sg_transmissionOrder :: u32

definition dataSize :: "sentTCPSegment \<Rightarrow> nat" where
  "dataSize s =
     (let size = sg_end s - sg_sequence s
      in unat (if sg_flags s AND TCPFlagFIN \<noteq> 0 \<and> size \<noteq> 0 then size - 1 else size))"

definition isTransmitted :: "sentTCPSegment \<Rightarrow> bool" where
  "isTransmitted s \<longleftrightarrow> stateHas (sg_state s) sentTCPSegmentTransmitted"

definition isRetransmitted :: "sentTCPSegment \<Rightarrow> bool" where
  "isRetransmitted s \<longleftrightarrow> stateHas (sg_state s) sentTCPSegmentRetransmitted"

definition lossAlreadyReported :: "sentTCPSegment \<Rightarrow> bool" where
  "lossAlreadyReported s \<longleftrightarrow> stateHas (sg_state s) sentTCPSegmentLossReported"

definition advanceTransmissionGeneration :: "sentTCPSegment \<Rightarrow> sentTCPSegment" where
  "advanceTransmissionGeneration s =
     s\<lparr>sg_state := (sg_state s OR (sentTCPSegmentTransmitted OR sentTCPSegmentRetransmitted)) AND NOT sentTCPSegmentLossReported\<rparr>"

definition transmittedAt :: "sentTCPSegment \<Rightarrow> int \<Rightarrow> int" where
  "transmittedAt s epoch = queuedTime (sg_hostQueue s) epoch"

abbreviation sacked :: "sentTCPSegment \<Rightarrow> bool" where
  "sacked s \<equiv> stateHas (sg_state s) sentTCPSegmentSACKed"
abbreviation retried :: "sentTCPSegment \<Rightarrow> bool" where
  "retried s \<equiv> stateHas (sg_state s) sentTCPSegmentSACKRetried"
abbreviation rackLost :: "sentTCPSegment \<Rightarrow> bool" where
  "rackLost s \<equiv> stateHas (sg_state s) sentTCPSegmentRACKLost"
abbreviation sackSplit :: "sentTCPSegment \<Rightarrow> bool" where
  "sackSplit s \<equiv> stateHas (sg_state s) sentTCPSegmentSACKSplit"

section \<open>Selective acknowledgements\<close>

record tcpRACKSample =
  rk_sentAt :: int
  rk_end :: u32
  rk_order :: u32
  rk_rtt :: duration
  rk_timestamp :: u32
  rk_retransmitted :: bool

definition noRACKSample :: tcpRACKSample where
  "noRACKSample = \<lparr>rk_sentAt = 0, rk_end = 0, rk_order = 0, rk_rtt = 0, rk_timestamp = 0, rk_retransmitted = False\<rparr>"

definition tcpClockTieTransmissionAfter :: "u32 \<Rightarrow> u32 \<Rightarrow> u32 \<Rightarrow> u32 \<Rightarrow> bool" where
  "tcpClockTieTransmissionAfter order stop previousOrder previousEnd =
     (if order \<noteq> previousOrder \<and> order \<noteq> 0 \<and> previousOrder \<noteq> 0 then tcpSequenceGreater order previousOrder
      else tcpSequenceGreater stop previousEnd)"

definition newerRACKSample :: "tcpRACKSample \<Rightarrow> tcpRACKSample \<Rightarrow> tcpRACKSample" where
  "newerRACKSample current candidate =
     (if rk_sentAt candidate = 0 then current
      else if rk_sentAt candidate > rk_sentAt current \<or>
              rk_sentAt candidate = rk_sentAt current \<and>
              tcpClockTieTransmissionAfter (rk_order candidate) (rk_end candidate) (rk_order current) (rk_end current)
      then candidate else current)"

text \<open>The loop of \<open>splitTCPSegmentAt\<close>; \<open>n\<close> is the number of ranges that were split before.\<close>

fun splitFrom :: "nat \<Rightarrow> u32 \<Rightarrow> sentTCPSegment list \<Rightarrow> sentTCPSegment list" where
  "splitFrom n boundary [] = []"
| "splitFrom n boundary (segment # rest) =
     (if \<not> tcpSequenceGreater boundary (sg_sequence segment) \<or> \<not> tcpSequenceLess boundary (sg_end segment)
      then segment # splitFrom n boundary rest
      else
        let increase = (if \<not> sackSplit segment then 2 else 1)
        in if n + increase > tcpMaximumSACKSplitRanges then segment # rest
           else
             let state = stateSet (sg_state segment) sentTCPSegmentSACKSplit True
             in segment\<lparr>sg_state := state, sg_end := boundary, sg_flags := sg_flags segment AND NOT (TCPFlagPSH OR TCPFlagFIN)\<rparr> #
                segment\<lparr>sg_state := state, sg_sequence := boundary\<rparr> # rest)"

definition splitTCPSegmentAt :: "sentTCPSegment list \<Rightarrow> u32 \<Rightarrow> sentTCPSegment list" where
  "splitTCPSegmentAt outstanding boundary = splitFrom (length (filter sackSplit outstanding)) boundary outstanding"

text \<open>What \<open>applyTCPSACK\<close> collects: the new-information flag, the newest sample and the newly acknowledged ranges.\<close>

record sackProgress =
  sp_newInformation :: bool
  sp_latest :: tcpRACKSample
  sp_newlySACKed :: "sentTCPSegment list"

fun markBlock :: "int \<Rightarrow> tcpSACKBlock \<Rightarrow> sentTCPSegment list \<Rightarrow> sackProgress \<Rightarrow> sentTCPSegment list \<times> sackProgress" where
  "markBlock epoch block [] p = ([], p)"
| "markBlock epoch block (segment # rest) p =
     (if tcpSequenceGreaterEqual (sg_sequence segment) (LeftEdge block) \<and> tcpSequenceGreaterEqual (RightEdge block) (sg_end segment)
      then
        let sackedState = stateSet (sg_state segment) sentTCPSegmentSACKed True;
            new = \<not> sacked segment;
            p = (if new then
                   \<lparr>sp_newInformation = True,
                    sp_latest = newerRACKSample (sp_latest p)
                      \<lparr>rk_sentAt = transmittedAt segment epoch, rk_end = sg_end segment, rk_order = sg_transmissionOrder segment,
                       rk_rtt = 0, rk_timestamp = sg_timestamp segment, rk_retransmitted = isRetransmitted segment\<rparr>,
                    sp_newlySACKed = sp_newlySACKed p @ [segment\<lparr>sg_state := sackedState\<rparr>]\<rparr>
                 else p);
            segment = (if new then segment\<lparr>sg_delivery := (sg_delivery segment)\<lparr>ds_deliveredStamp := 0\<rparr>\<rparr> else segment);
            (rest, p) = markBlock epoch block rest p
        in (segment\<lparr>sg_state := sackedState\<rparr> # rest, p)
      else
        let (rest, p) = markBlock epoch block rest p
        in (segment # rest, p))"

fun applyBlocks :: "int \<Rightarrow> tcpSACKBlock list \<Rightarrow> sentTCPSegment list \<Rightarrow> sackProgress \<Rightarrow> sentTCPSegment list \<times> sackProgress" where
  "applyBlocks epoch [] outstanding p = (outstanding, p)"
| "applyBlocks epoch (block # blocks) outstanding p =
     (let outstanding = splitTCPSegmentAt outstanding (LeftEdge block);
          outstanding = splitTCPSegmentAt outstanding (RightEdge block);
          (outstanding, p) = markBlock epoch block outstanding p
      in applyBlocks epoch blocks outstanding p)"

text \<open>The highest right edge; the first block always sets it.\<close>

definition highestEdge :: "tcpSACKBlock list \<Rightarrow> u32" where
  "highestEdge blocks =
     (case blocks of
        [] \<Rightarrow> 0
      | block # rest \<Rightarrow> foldl (\<lambda>highest b. if tcpSequenceGreater (RightEdge b) highest then RightEdge b else highest) (RightEdge block) rest)"

definition applyTCPSACK ::
  "sentTCPSegment list \<Rightarrow> tcpSACKBlock list \<Rightarrow> int \<Rightarrow>
   sentTCPSegment list \<times> u32 \<times> bool \<times> bool \<times> tcpRACKSample \<times> sentTCPSegment list" where
  "applyTCPSACK outstanding blocks epoch =
     (let (outstanding, p) = applyBlocks epoch blocks outstanding
             \<lparr>sp_newInformation = False, sp_latest = noRACKSample, sp_newlySACKed = []\<rparr>
      in (outstanding, highestEdge blocks, blocks \<noteq> [], sp_newInformation p, sp_latest p, sp_newlySACKed p))"

section \<open>Scans of the scoreboard\<close>

definition firstUnsackedSegment :: "sentTCPSegment list \<Rightarrow> int" where
  "firstUnsackedSegment outstanding =
     (case find (\<lambda>i. \<not> sacked (outstanding ! i)) [0 ..< length outstanding] of
        Some i \<Rightarrow> int i
      | None \<Rightarrow> if outstanding \<noteq> [] then 0 else -1)"

definition lastUnsackedSegment :: "sentTCPSegment list \<Rightarrow> int" where
  "lastUnsackedSegment outstanding =
     (case find (\<lambda>i. \<not> sacked (outstanding ! i)) (rev [0 ..< length outstanding]) of
        Some i \<Rightarrow> int i
      | None \<Rightarrow> int (length outstanding) - 1)"

definition tcpSACKedState :: "sentTCPSegment list \<Rightarrow> nat \<times> u32" where
  "tcpSACKedState outstanding =
     foldl (\<lambda>(ranges, bytes) s. if sacked s then (ranges + 1, bytes + (sg_end s - sg_sequence s)) else (ranges, bytes)) (0, 0) outstanding"

definition highestSACKedSequence :: "sentTCPSegment list \<Rightarrow> u32" where
  "highestSACKedSequence outstanding =
     fst (foldl (\<lambda>(highest, found) s. if sacked s \<and> (\<not> found \<or> tcpSequenceGreater (sg_end s) highest) then (sg_end s, True) else (highest, found))
       (0, False) outstanding)"

text \<open>
  The scans from the newest range to the oldest carry the number and the octets of the ranges
  SACKed above. \<open>provenBy\<close> is RFC 6675's test on them.
\<close>

definition provenBy :: "int \<Rightarrow> nat \<Rightarrow> nat \<Rightarrow> bool" where
  "provenBy mss ranges bytes \<longleftrightarrow>
     ranges \<ge> tcpDuplicateACKThreshold \<or> mss > 0 \<and> int bytes > (int tcpDuplicateACKThreshold - 1) * mss"

fun lossScan :: "int \<Rightarrow> sentTCPSegment list \<Rightarrow> nat \<Rightarrow> nat \<Rightarrow> int \<Rightarrow> int" where
  "lossScan mss [] ranges bytes index = index"
| "lossScan mss (segment # rest) ranges bytes index =
     (if sacked segment then lossScan mss rest (ranges + 1) (bytes + unat (sg_end segment - sg_sequence segment)) index
      else
        let lost = (rackLost segment \<or> provenBy mss ranges bytes)
        in lossScan mss rest ranges bytes (if \<not> retried segment \<and> lost then int (length rest) else index))"

definition firstUnretriedLoss :: "sentTCPSegment list \<Rightarrow> int \<Rightarrow> int" where
  "firstUnretriedLoss outstanding mss = lossScan mss (rev outstanding) 0 0 (-1)"

definition tcpRateApplicationLimited ::
  "int \<Rightarrow> bool \<Rightarrow> u32 \<Rightarrow> u32 \<Rightarrow> bool \<Rightarrow> bool \<Rightarrow> sentTCPSegment list \<Rightarrow> int \<Rightarrow> bool" where
  "tcpRateApplicationLimited queued hostQueued flight window recovery peerSACK outstanding mss \<longleftrightarrow>
     (if queued \<ge> mss \<or> hostQueued \<or> flight \<ge> window then False
      else \<not> recovery \<or> \<not> peerSACK \<or> firstUnretriedLoss outstanding mss < 0)"

definition firstUnretriedSACKHole :: "sentTCPSegment list \<Rightarrow> u32 \<Rightarrow> int" where
  "firstUnretriedSACKHole outstanding highest =
     (case find (\<lambda>i. \<not> sacked (outstanding ! i) \<and> \<not> retried (outstanding ! i) \<and> tcpSequenceLess (sg_sequence (outstanding ! i)) highest)
        [0 ..< length outstanding] of Some i \<Rightarrow> int i | None \<Rightarrow> -1)"

fun lostCount :: "int \<Rightarrow> sentTCPSegment list \<Rightarrow> nat \<Rightarrow> nat \<Rightarrow> nat \<Rightarrow> nat" where
  "lostCount mss [] ranges bytes count = count"
| "lostCount mss (segment # rest) ranges bytes count =
     (if sacked segment then lostCount mss rest (ranges + 1) (bytes + unat (sg_end segment - sg_sequence segment)) count
      else lostCount mss rest ranges bytes (if rackLost segment \<or> provenBy mss ranges bytes then count + 1 else count))"

definition sackLostRangeCount :: "sentTCPSegment list \<Rightarrow> int \<Rightarrow> nat" where
  "sackLostRangeCount outstanding mss = lostCount mss (rev outstanding) 0 0 0"

fun lostAbove :: "int \<Rightarrow> sentTCPSegment list \<Rightarrow> nat \<Rightarrow> nat \<Rightarrow> bool" where
  "lostAbove mss [] ranges bytes \<longleftrightarrow> False"
| "lostAbove mss (segment # rest) ranges bytes \<longleftrightarrow>
     (if \<not> sacked segment then lostAbove mss rest ranges bytes
      else
        let ranges = ranges + 1; bytes = bytes + unat (sg_end segment - sg_sequence segment)
        in if provenBy mss ranges bytes then True else lostAbove mss rest ranges bytes)"

definition sackSegmentLost :: "sentTCPSegment list \<Rightarrow> int \<Rightarrow> int \<Rightarrow> bool" where
  "sackSegmentLost outstanding index mss \<longleftrightarrow>
     (if index < 0 \<or> index \<ge> int (length outstanding) \<or> sacked (outstanding ! nat index) then False
      else if rackLost (outstanding ! nat index) then True
      else lostAbove mss (drop (nat index + 1) outstanding) 0 0)"

definition growCongestionWindow :: "u32 \<Rightarrow> u32 \<Rightarrow> u32" where
  "growCongestionWindow window delta =
     (if window \<ge> tcpMaximumScaledWindow \<or> delta \<ge> tcpMaximumScaledWindow - window then tcpMaximumScaledWindow
      else window + delta)"

text \<open>\<open>recordTCPSegmentLoss\<close> with the changed range; the reported octets are the second component.\<close>

definition recordTCPSegmentLoss :: "sentTCPSegment \<Rightarrow> bool \<Rightarrow> sentTCPSegment \<times> u32" where
  "recordTCPSegmentLoss segment proven =
     (if \<not> proven \<or> \<not> isTransmitted segment \<or> lossAlreadyReported segment then (segment, 0)
      else (segment\<lparr>sg_state := sg_state segment OR sentTCPSegmentLossReported\<rparr>, sg_end segment - sg_sequence segment))"

text \<open>The scan on the reversed list; the result is the changed list, newest first, the losses and the reports in order.\<close>

fun provenLosses ::
  "int \<Rightarrow> sentTCPSegment list \<Rightarrow> nat \<Rightarrow> nat \<Rightarrow> u32 \<Rightarrow> sentTCPSegment list \<times> u32 \<times> (sentTCPSegment \<times> u32) list" where
  "provenLosses mss [] ranges bytes losses = ([], losses, [])"
| "provenLosses mss (segment # rest) ranges bytes losses =
     (if sacked segment then
        let (rest, losses, reports) = provenLosses mss rest (ranges + 1) (bytes + unat (sg_end segment - sg_sequence segment)) losses
        in (segment # rest, losses, reports)
      else if rackLost segment \<or> \<not> retried segment \<and> provenBy mss ranges bytes then
        let (segment, lost) = recordTCPSegmentLoss segment True;
            (rest, losses, reports) = provenLosses mss rest ranges bytes (growCongestionWindow losses lost)
        in (segment # rest, losses, if lost \<noteq> 0 then (segment, lost) # reports else reports)
      else
        let (rest, losses, reports) = provenLosses mss rest ranges bytes losses
        in (segment # rest, losses, reports))"

definition recordProvenTCPLossesWith :: "sentTCPSegment list \<Rightarrow> int \<Rightarrow> sentTCPSegment list \<times> u32 \<times> (sentTCPSegment \<times> u32) list" where
  "recordProvenTCPLossesWith outstanding mss =
     (let (rest, losses, reports) = provenLosses mss (rev outstanding) 0 0 0 in (rev rest, losses, reports))"

definition recordProvenTCPLosses :: "sentTCPSegment list \<Rightarrow> int \<Rightarrow> sentTCPSegment list \<times> u32" where
  "recordProvenTCPLosses outstanding mss =
     (let (outstanding, losses, reports) = recordProvenTCPLossesWith outstanding mss in (outstanding, losses))"

definition isolatedPLPMTUProbeLoss :: "sentTCPSegment list \<Rightarrow> u32 \<Rightarrow> u32 \<Rightarrow> int \<Rightarrow> bool" where
  "isolatedPLPMTUProbeLoss outstanding probeStart highestSACK mss =
     (let probeIndex = (case find (\<lambda>i. sg_sequence (outstanding ! i) = probeStart) [0 ..< length outstanding] of Some i \<Rightarrow> int i | None \<Rightarrow> -1)
      in if \<not> sackSegmentLost outstanding probeIndex mss then False
         else list_all (\<lambda>i. \<not> (int i \<noteq> probeIndex \<and> \<not> sacked (outstanding ! i) \<and> tcpSequenceLess (sg_sequence (outstanding ! i)) highestSACK))
                [0 ..< length outstanding])"

definition lossRecoveryFlightSize :: "sentTCPSegment list \<Rightarrow> u32" where
  "lossRecoveryFlightSize outstanding =
     foldl (\<lambda>bytes s. if \<not> sacked s \<and> \<not> stateHas (sg_state s) sentTCPSegmentLimited then bytes + (sg_end s - sg_sequence s) else bytes) 0 outstanding"

fun tcpACKRTTAmbiguous :: "sentTCPSegment list \<Rightarrow> u32 \<Rightarrow> bool" where
  "tcpACKRTTAmbiguous [] acknowledgement \<longleftrightarrow> False"
| "tcpACKRTTAmbiguous (segment # rest) acknowledgement \<longleftrightarrow>
     (if \<not> tcpSequenceLess (sg_sequence segment) acknowledgement then False
      else if isRetransmitted segment then True
      else tcpACKRTTAmbiguous rest acknowledgement)"

fun pipeScan :: "int \<Rightarrow> sentTCPSegment list \<Rightarrow> nat \<Rightarrow> nat \<Rightarrow> u32 \<Rightarrow> u32" where
  "pipeScan mss [] ranges bytes pipe = pipe"
| "pipeScan mss (segment # rest) ranges bytes pipe =
     (if sacked segment then pipeScan mss rest (ranges + 1) (bytes + unat (sg_end segment - sg_sequence segment)) pipe
      else
        let size = sg_end segment - sg_sequence segment;
            lost = (rackLost segment \<or> provenBy mss ranges bytes);
            pipe = (if \<not> lost then growCongestionWindow pipe size else pipe);
            pipe = (if retried segment then growCongestionWindow pipe size else pipe)
        in pipeScan mss rest ranges bytes pipe)"

definition sackRecoveryPipe :: "sentTCPSegment list \<Rightarrow> int \<Rightarrow> u32" where
  "sackRecoveryPipe outstanding mss = pipeScan mss (rev outstanding) 0 0 0"

definition sackRecoveryCanSend :: "bool \<Rightarrow> u32 \<Rightarrow> u32 \<Rightarrow> u32 \<Rightarrow> bool" where
  "sackRecoveryCanSend recovery pipe sz window \<longleftrightarrow> \<not> recovery \<or> (ucast pipe + ucast sz :: u64) \<le> ucast window"

fun newlyAcknowledged :: "sentTCPSegment list \<Rightarrow> u32 \<Rightarrow> u32 \<Rightarrow> u32" where
  "newlyAcknowledged [] acknowledgement delivered = delivered"
| "newlyAcknowledged (segment # rest) acknowledgement delivered =
     (if \<not> tcpSequenceGreater acknowledgement (sg_sequence segment) then delivered
      else if sacked segment then newlyAcknowledged rest acknowledgement delivered
      else
        let stop = (if tcpSequenceLess acknowledgement (sg_end segment) then acknowledgement else sg_end segment)
        in newlyAcknowledged rest acknowledgement (growCongestionWindow delivered (stop - sg_sequence segment)))"

definition tcpNewlyAcknowledgedBytes :: "sentTCPSegment list \<Rightarrow> u32 \<Rightarrow> u32" where
  "tcpNewlyAcknowledgedBytes outstanding acknowledgement = newlyAcknowledged outstanding acknowledgement 0"

end
