(* ===== verification/Tcp_Flight.thy ===== *)
theory Tcp_Flight
  imports Tcp_Scoreboard
begin

text \<open>
  The scoreboard as a set of octets: the flight is a partition into ranges, splitting keeps it, and SACK
  processing marks exactly the reported octets.
\<close>

section \<open>Flags\<close>

lemma has_bit: "k < 16 \<Longrightarrow> stateHas s (push_bit k 1) \<longleftrightarrow> bit s k"
proof -
  assume k: "k < 16"
  have "bit (s AND push_bit k 1) n \<longleftrightarrow> n = k \<and> bit s k" for n using k by (auto simp: bit_simps)
  then show ?thesis unfolding stateHas_def by (metis bit_eq_iff bit_0_eq bot_apply bot_bool_def)
qed

lemma set_bit: "k < 16 \<Longrightarrow> bit (stateSet s (push_bit k 1) e) n \<longleftrightarrow> (if n = k then e else bit s n)"
proof -
  assume k: "k < 16"
  show ?thesis
  proof (cases "n < 16")
    case True
    then show ?thesis using k by (auto simp: stateSet_def bit_simps)
  next
    case False
    then have "\<not> bit (x :: u16) n" for x using bit_imp_le_length [of x n] by auto
    then show ?thesis using k False by auto
  qed
qed

lemma segment_bits [simp]:
  "stateHas s sentTCPSegmentSACKed \<longleftrightarrow> bit s 0" "stateHas s sentTCPSegmentSACKRetried \<longleftrightarrow> bit s 1"
  "stateHas s sentTCPSegmentRACKLost \<longleftrightarrow> bit s 2" "stateHas s sentTCPSegmentLimited \<longleftrightarrow> bit s 3"
  "stateHas s sentTCPSegmentCWR \<longleftrightarrow> bit s 4" "stateHas s sentTCPSegmentSACKSplit \<longleftrightarrow> bit s 5"
  "stateHas s sentTCPSegmentTransmitted \<longleftrightarrow> bit s 8" "stateHas s sentTCPSegmentRetransmitted \<longleftrightarrow> bit s 9"
  "stateHas s sentTCPSegmentLossReported \<longleftrightarrow> bit s 10"
  unfolding segment_flags by (rule has_bit, simp)+

lemma segment_sets [simp]:
  "bit (stateSet s sentTCPSegmentSACKed e) n \<longleftrightarrow> (if n = 0 then e else bit s n)"
  "bit (stateSet s sentTCPSegmentSACKRetried e) n \<longleftrightarrow> (if n = 1 then e else bit s n)"
  "bit (stateSet s sentTCPSegmentRACKLost e) n \<longleftrightarrow> (if n = 2 then e else bit s n)"
  "bit (stateSet s sentTCPSegmentCWR e) n \<longleftrightarrow> (if n = 4 then e else bit s n)"
  "bit (stateSet s sentTCPSegmentSACKSplit e) n \<longleftrightarrow> (if n = 5 then e else bit s n)"
  unfolding segment_flags by (rule set_bit, simp)+

section \<open>The flight as ranges of octets\<close>

text \<open>
  The octets of the flight are numbered from the oldest unacknowledged one. A flight of \<open>n\<close> octets is
  a list of nonempty ranges without gaps; \<open>n\<close> is below \<open>2^31\<close>, so that the comparisons of sequence
  numbers are the order of the distances.
\<close>

definition off :: "u32 \<Rightarrow> u32 \<Rightarrow> nat" where
  "off una x = unat (x - una)"

fun flightFrom :: "u32 \<Rightarrow> nat \<Rightarrow> nat \<Rightarrow> sentTCPSegment list \<Rightarrow> bool" where
  "flightFrom una i n [] \<longleftrightarrow> i = n"
| "flightFrom una i n (s # rest) \<longleftrightarrow>
     off una (sg_sequence s) = i \<and> i < off una (sg_end s) \<and> off una (sg_end s) \<le> n \<and> flightFrom una (off una (sg_end s)) n rest"

definition segmentOctets :: "u32 \<Rightarrow> sentTCPSegment \<Rightarrow> nat set" where
  "segmentOctets una s = {off una (sg_sequence s) ..< off una (sg_end s)}"

definition sackedOctets :: "u32 \<Rightarrow> sentTCPSegment list \<Rightarrow> nat set" where
  "sackedOctets una xs = (\<Union>s \<in> set (filter sacked xs). segmentOctets una s)"

lemma blockIn_off: "blockIn una n b \<longleftrightarrow> off una (LeftEdge b) < off una (RightEdge b) \<and> off una (RightEdge b) \<le> n"
  by (simp add: blockIn_def off_def)

lemma blockOff_off: "blockOff una b = {off una (LeftEdge b) ..< off una (RightEdge b)}"
  by (simp add: blockOff_def off_def)

definition cutAt :: "u32 \<Rightarrow> u32 \<Rightarrow> sentTCPSegment list \<Rightarrow> bool" where
  "cutAt una x xs \<longleftrightarrow> (\<forall>s \<in> set xs. off una x \<le> off una (sg_sequence s) \<or> off una (sg_end s) \<le> off una x)"

lemma sackedOctets_Nil [simp]: "sackedOctets una [] = {}"
  by (simp add: sackedOctets_def)

lemma sackedOctets_Cons [simp]: "sackedOctets una (s # xs) = (if sacked s then segmentOctets una s else {}) \<union> sackedOctets una xs"
  by (auto simp: sackedOctets_def)

lemma flight_bounds: "flightFrom una i n xs \<Longrightarrow> i \<le> n \<and> (\<forall>s \<in> set xs. i \<le> off una (sg_sequence s) \<and> off una (sg_sequence s) < off una (sg_end s) \<and> off una (sg_end s) \<le> n)"
proof (induction una i n xs rule: flightFrom.induct)
  case (2 una i n s rest)
  then show ?case by fastforce
qed simp

lemma less_offs: "off una x < 2 ^ 31 \<Longrightarrow> off una y < 2 ^ 31 \<Longrightarrow> tcpSequenceLess x y \<longleftrightarrow> off una x < off una y"
  using less_off [of x una y] by (simp add: off_def)

lemma splitFrom_flight:
  assumes "flightFrom una i n xs" "n < 2 ^ 31" "off una b \<le> n"
  shows "flightFrom una i n (splitFrom k b xs)" "sackedOctets una (splitFrom k b xs) = sackedOctets una xs"
    and "cutAt una c xs \<Longrightarrow> cutAt una c (splitFrom k b xs)"
    and "k + 2 \<le> tcpMaximumSACKSplitRanges \<Longrightarrow> cutAt una b (splitFrom k b xs)"
    and "length (filter sackSplit (splitFrom k b xs)) \<le> length (filter sackSplit xs) + 2"
proof -
  have "flightFrom una i n (splitFrom k b xs) \<and> sackedOctets una (splitFrom k b xs) = sackedOctets una xs \<and>
    (cutAt una c xs \<longrightarrow> cutAt una c (splitFrom k b xs)) \<and>
    (k + 2 \<le> tcpMaximumSACKSplitRanges \<longrightarrow> cutAt una b (splitFrom k b xs)) \<and>
    length (filter sackSplit (splitFrom k b xs)) \<le> length (filter sackSplit xs) + 2"
    using assms
  proof (induction xs arbitrary: i)
    case Nil
    then show ?case by (simp add: cutAt_def)
  next
    case (Cons s rest)
    have s: "off una (sg_sequence s) = i" "i < off una (sg_end s)" "off una (sg_end s) \<le> n" "flightFrom una (off una (sg_end s)) n rest"
      using Cons.prems(1) by auto
    note IH = Cons.IH [OF s(4) Cons.prems(2,3)]
    have cmp: "tcpSequenceGreater b (sg_sequence s) \<longleftrightarrow> i < off una b" "tcpSequenceLess b (sg_end s) \<longleftrightarrow> off una b < off una (sg_end s)"
      using less_offs [of una "sg_sequence s" b] less_offs [of una b "sg_end s"] s Cons.prems(2,3) by (auto simp: tcpSequenceGreater_def)
    show ?case
    proof (cases "i < off una b \<and> off una b < off una (sg_end s)")
      case False
      then have "splitFrom k b (s # rest) = s # splitFrom k b rest" using cmp by simp
      then show ?thesis using IH s False by (auto simp: cutAt_def)
    next
      case True
      have rest: "\<forall>t \<in> set rest. off una b \<le> off una (sg_sequence t)" using flight_bounds [OF s(4)] True by fastforce
      show ?thesis
      proof (cases "k + (if \<not> sackSplit s then 2 else 1) > tcpMaximumSACKSplitRanges")
        case limit: True
        then have "splitFrom k b (s # rest) = s # rest" using cmp True by (simp add: Let_def)
        then show ?thesis using limit Cons.prems(1) by (auto split: if_splits)
      next
        case False
        let ?l = "s\<lparr>sg_state := stateSet (sg_state s) sentTCPSegmentSACKSplit True, sg_end := b, sg_flags := sg_flags s AND NOT (TCPFlagPSH OR TCPFlagFIN)\<rparr>"
        let ?r = "s\<lparr>sg_state := stateSet (sg_state s) sentTCPSegmentSACKSplit True, sg_sequence := b\<rparr>"
        have e: "splitFrom k b (s # rest) = ?l # ?r # rest" using cmp True False by (simp add: Let_def)
        have "flightFrom una i n (?l # ?r # rest)" using s True by simp
        moreover have "sackedOctets una (?l # ?r # rest) = sackedOctets una (s # rest)"
          using True s by (auto simp: segmentOctets_def)
        moreover have "cutAt una c (s # rest) \<longrightarrow> cutAt una c (?l # ?r # rest)" using s True by (auto simp: cutAt_def)
        moreover have "cutAt una b (?l # ?r # rest)" using rest by (auto simp: cutAt_def)
        ultimately show ?thesis unfolding e by simp
      qed
    qed
  qed
  then show "flightFrom una i n (splitFrom k b xs)" "sackedOctets una (splitFrom k b xs) = sackedOctets una xs"
    "cutAt una c xs \<Longrightarrow> cutAt una c (splitFrom k b xs)" "k + 2 \<le> tcpMaximumSACKSplitRanges \<Longrightarrow> cutAt una b (splitFrom k b xs)"
    "length (filter sackSplit (splitFrom k b xs)) \<le> length (filter sackSplit xs) + 2"
    by blast+
qed

section \<open>Marking\<close>

text \<open>The ranges inside one block become SACKed, and exactly those that were not are collected.\<close>

definition inside :: "u32 \<Rightarrow> tcpSACKBlock \<Rightarrow> sentTCPSegment \<Rightarrow> bool" where
  "inside una b s \<longleftrightarrow> off una (LeftEdge b) \<le> off una (sg_sequence s) \<and> off una (sg_end s) \<le> off una (RightEdge b)"

definition collected :: "u32 \<Rightarrow> sackProgress \<Rightarrow> nat set" where
  "collected una p = (\<Union>s \<in> set (sp_newlySACKed p). segmentOctets una s)"

definition insideOctets :: "u32 \<Rightarrow> tcpSACKBlock \<Rightarrow> sentTCPSegment list \<Rightarrow> nat set" where
  "insideOctets una b xs = (\<Union>s \<in> set (filter (inside una b) xs). segmentOctets una s)"

lemma insideOctets_Cons [simp]: "insideOctets una b (s # xs) = (if inside una b s then segmentOctets una s else {}) \<union> insideOctets una b xs"
  and insideOctets_Nil [simp]: "insideOctets una b [] = {}"
  by (auto simp: insideOctets_def)

lemma markBlock_effect:
  assumes "flightFrom una i n xs" "n < 2 ^ 31" "blockIn una n b" "markBlock epoch b xs p = (ys, q)"
  shows "flightFrom una i n ys \<and> sackedOctets una ys = sackedOctets una xs \<union> insideOctets una b xs \<and>
    collected una q = collected una p \<union> (insideOctets una b xs - sackedOctets una xs) \<and>
    length (filter sackSplit ys) = length (filter sackSplit xs) \<and>
    (sp_newInformation q \<longleftrightarrow> sp_newInformation p \<or> \<not> insideOctets una b xs \<subseteq> sackedOctets una xs)"
  using assms
proof (induction xs arbitrary: i p ys q)
  case Nil
  then show ?case by simp
next
  case (Cons s rest)
  have s: "off una (sg_sequence s) = i" "i < off una (sg_end s)" "off una (sg_end s) \<le> n" "flightFrom una (off una (sg_end s)) n rest"
    using Cons.prems(1) by auto
  have bo: "off una (LeftEdge b) < 2 ^ 31" "off una (RightEdge b) < 2 ^ 31" using Cons.prems(2,3) by (auto simp: blockIn_off)
  have so: "off una (sg_sequence s) < 2 ^ 31" "off una (sg_end s) < 2 ^ 31" using s Cons.prems(2) by auto
  have cmp: "tcpSequenceGreaterEqual (sg_sequence s) (LeftEdge b) \<and> tcpSequenceGreaterEqual (RightEdge b) (sg_end s) \<longleftrightarrow> inside una b s"
    using less_offs [OF so(1) bo(1)] less_offs [OF bo(2) so(2)] by (auto simp: tcpSequenceGreaterEqual_def inside_def)
  have later: "segmentOctets una t \<inter> segmentOctets una s = {}" if "t \<in> set rest" for t
    using flight_bounds [OF s(4)] that by (fastforce simp: segmentOctets_def)
  then have dis: "segmentOctets una s \<inter> sackedOctets una rest = {}" "segmentOctets una s \<inter> insideOctets una b rest = {}"
    by (auto simp: sackedOctets_def insideOctets_def)
  have ne: "segmentOctets una s \<noteq> {}" using s by (simp add: segmentOctets_def)
  show ?case
  proof (cases "inside una b s")
    case False
    obtain ys' where m: "markBlock epoch b rest p = (ys', q)" "ys = s # ys'"
      using Cons.prems(4) cmp False by (auto split: prod.splits)
    from Cons.IH [OF s(4) Cons.prems(2,3) m(1)] show ?thesis using s dis False by (auto simp: m(2))
  next
    case True
    define p' where "p' = (if \<not> sacked s then
           \<lparr>sp_newInformation = True,
            sp_latest = newerRACKSample (sp_latest p)
              \<lparr>rk_sentAt = transmittedAt s epoch, rk_end = sg_end s, rk_order = sg_transmissionOrder s,
               rk_rtt = 0, rk_timestamp = sg_timestamp s, rk_retransmitted = isRetransmitted s\<rparr>,
            sp_newlySACKed = sp_newlySACKed p @ [s\<lparr>sg_state := stateSet (sg_state s) sentTCPSegmentSACKed True\<rparr>]\<rparr>
         else p)"
    obtain ys' s' where m: "markBlock epoch b rest p' = (ys', q)" "ys = s' # ys'" "sacked s'" "sg_sequence s' = sg_sequence s" "sg_end s' = sg_end s"
      "sackSplit s' = sackSplit s"
      using Cons.prems(4) cmp True by (auto simp: p'_def Let_def split: prod.splits if_splits)
    note ih = Cons.IH [OF s(4) Cons.prems(2,3) m(1)]
    have c: "collected una p' = collected una p \<union> (if sacked s then {} else segmentOctets una s)"
      by (auto simp: p'_def collected_def segmentOctets_def)
    have nw: "sp_newInformation p' \<longleftrightarrow> sp_newInformation p \<or> \<not> sacked s" by (simp add: p'_def)
    have oct: "segmentOctets una s' = segmentOctets una s" by (simp add: segmentOctets_def m)
    show ?thesis
    proof (intro conjI)
      show "flightFrom una i n ys" using ih s by (simp add: m)
      show "sackedOctets una ys = sackedOctets una (s # rest) \<union> insideOctets una b (s # rest)" using ih m(3) True by (auto simp: m(2) oct)
      show "collected una q = collected una p \<union> (insideOctets una b (s # rest) - sackedOctets una (s # rest))"
        using ih c dis True by (auto split: if_splits)
      show "length (filter sackSplit ys) = length (filter sackSplit (s # rest))" using ih m(6) by (simp add: m(2))
      show "sp_newInformation q \<longleftrightarrow> sp_newInformation p \<or> \<not> insideOctets una b (s # rest) \<subseteq> sackedOctets una (s # rest)"
        using ih nw dis ne True by (auto split: if_splits)
    qed
  qed
qed

lemma inside_block: "blockIn una n b \<Longrightarrow> insideOctets una b xs \<subseteq> blockOff una b"
  by (fastforce simp: insideOctets_def inside_def segmentOctets_def blockOff_off)

lemma flight_octet: "flightFrom una i n xs \<Longrightarrow> i \<le> k \<Longrightarrow> k < n \<Longrightarrow> \<exists>s \<in> set xs. k \<in> segmentOctets una s"
proof (induction una i n xs rule: flightFrom.induct)
  case (2 una i n s rest)
  then show ?case by (cases "k < off una (sg_end s)") (auto simp: segmentOctets_def)
qed simp

lemma cut_inside:
  assumes "flightFrom una 0 n xs" "blockIn una n b" "cutAt una (LeftEdge b) xs" "cutAt una (RightEdge b) xs"
  shows "insideOctets una b xs = blockOff una b"
proof
  show "insideOctets una b xs \<subseteq> blockOff una b" by (rule inside_block [OF assms(2)])
  show "blockOff una b \<subseteq> insideOctets una b xs"
  proof
    fix k assume k: "k \<in> blockOff una b"
    then have "k < n" using assms(2) by (auto simp: blockOff_off blockIn_off)
    then obtain s where s: "s \<in> set xs" "k \<in> segmentOctets una s" using flight_octet [OF assms(1)] by blast
    then have "inside una b s" using assms(3,4) k by (fastforce simp: cutAt_def inside_def segmentOctets_def blockOff_off)
    then show "k \<in> insideOctets una b xs" using s by (auto simp: insideOctets_def)
  qed
qed

lemma sackBlocks_effect:
  assumes "flightFrom una 0 n xs" "n < 2 ^ 31" "\<forall>b \<in> set bs. blockIn una n b" "applyBlocks epoch bs xs p = (ys, q)"
  shows "flightFrom una 0 n ys \<and> sackedOctets una xs \<subseteq> sackedOctets una ys \<and>
    sackedOctets una ys \<subseteq> sackedOctets una xs \<union> (\<Union>b \<in> set bs. blockOff una b) \<and>
    (length (filter sackSplit xs) + 4 * length bs \<le> tcpMaximumSACKSplitRanges \<longrightarrow>
       sackedOctets una ys = sackedOctets una xs \<union> (\<Union>b \<in> set bs. blockOff una b)) \<and>
    collected una q = collected una p \<union> (sackedOctets una ys - sackedOctets una xs) \<and>
    (sp_newInformation q \<longleftrightarrow> sp_newInformation p \<or> sackedOctets una ys \<noteq> sackedOctets una xs)"
  using assms
proof (induction bs arbitrary: xs p)
  case Nil
  then show ?case by simp
next
  case (Cons b bs)
  have ok: "blockIn una n b" "\<forall>b \<in> set bs. blockIn una n b" using Cons.prems(3) by auto
  have e: "off una (LeftEdge b) \<le> n" "off una (RightEdge b) \<le> n" using ok(1) by (auto simp: blockIn_off)
  define x1 where "x1 = splitTCPSegmentAt xs (LeftEdge b)"
  define x2 where "x2 = splitTCPSegmentAt x1 (RightEdge b)"
  obtain x3 p' where m: "markBlock epoch b x2 p = (x3, p')" by fastforce
  note s1 = splitFrom_flight [OF Cons.prems(1,2) e(1), where k = "length (filter sackSplit xs)", folded splitTCPSegmentAt_def x1_def]
  note s2 = splitFrom_flight [OF s1(1) Cons.prems(2) e(2), where k = "length (filter sackSplit x1)", folded splitTCPSegmentAt_def x2_def]
  note mk = markBlock_effect [OF s2(1) Cons.prems(2) ok(1) m]
  have oct: "sackedOctets una x2 = sackedOctets una xs" using s1(2) s2(2) by simp
  have rest: "applyBlocks epoch bs x3 p' = (ys, q)" using Cons.prems(4) m by (simp add: x1_def x2_def Let_def)
  note ih = Cons.IH [OF _ Cons.prems(2) ok(2) rest]
  have exact: "insideOctets una b x2 = blockOff una b" if "length (filter sackSplit xs) + 4 \<le> tcpMaximumSACKSplitRanges"
  proof (rule cut_inside [OF s2(1) ok(1)])
    show "cutAt una (LeftEdge b) x2" using s1(4) that by (intro s2(3)) simp
    show "cutAt una (RightEdge b) x2" using s1(5) that by (intro s2(4)) simp
  qed
  have len: "length (filter sackSplit x3) \<le> length (filter sackSplit xs) + 4" using mk s1(5) s2(5) by simp
  note sub = inside_block [OF ok(1), of x2]
  have f3: "flightFrom una 0 n x3" and o3: "sackedOctets una x3 = sackedOctets una xs \<union> insideOctets una b x2" using mk oct by simp_all
  note ih = ih [OF f3]
  have "sackedOctets una ys = sackedOctets una xs \<union> (\<Union>b \<in> set (b # bs). blockOff una b)"
    if "length (filter sackSplit xs) + 4 * length (b # bs) \<le> tcpMaximumSACKSplitRanges"
    using ih exact len that by (auto simp: o3)
  moreover have "collected una q = collected una p \<union> (sackedOctets una ys - sackedOctets una xs)" using ih mk oct o3 by auto
  moreover have "sp_newInformation q \<longleftrightarrow> sp_newInformation p \<or> sackedOctets una ys \<noteq> sackedOctets una xs"
  proof -
    have "sp_newInformation q \<longleftrightarrow> sp_newInformation p' \<or> sackedOctets una ys \<noteq> sackedOctets una xs \<union> insideOctets una b x2"
      "sackedOctets una xs \<union> insideOctets una b x2 \<subseteq> sackedOctets una ys" using ih unfolding o3 by argo+
    moreover have "sp_newInformation p' \<longleftrightarrow> sp_newInformation p \<or> \<not> insideOctets una b x2 \<subseteq> sackedOctets una xs"
      using mk unfolding oct by argo
    ultimately show ?thesis by blast
  qed
  moreover have "flightFrom una 0 n ys" "sackedOctets una xs \<subseteq> sackedOctets una ys" using ih o3 by blast+
  moreover have "sackedOctets una ys \<subseteq> sackedOctets una xs \<union> (\<Union>b \<in> set (b # bs). blockOff una b)" using ih o3 sub by auto
  ultimately show ?case by blast
qed

lemma applyTCPSACK_effect:
  assumes f: "flightFrom una 0 n xs" "n < 2 ^ 31" "\<forall>b \<in> set bs. blockIn una n b"
    and a: "applyTCPSACK xs bs epoch = (ys, highest, found, new, latest, newly)"
  shows "flightFrom una 0 n ys" "sackedOctets una xs \<subseteq> sackedOctets una ys"
    "sackedOctets una ys \<subseteq> sackedOctets una xs \<union> (\<Union>b \<in> set bs. blockOff una b)"
    "length (filter sackSplit xs) + 4 * length bs \<le> tcpMaximumSACKSplitRanges \<Longrightarrow>
       sackedOctets una ys = sackedOctets una xs \<union> (\<Union>b \<in> set bs. blockOff una b)"
    "(\<Union>s \<in> set newly. segmentOctets una s) = sackedOctets una ys - sackedOctets una xs"
    "new \<longleftrightarrow> sackedOctets una ys \<noteq> sackedOctets una xs"
proof -
  let ?p = "\<lparr>sp_newInformation = False, sp_latest = noRACKSample, sp_newlySACKed = []\<rparr>"
  obtain q where q: "applyBlocks epoch bs xs ?p = (ys, q)" "new = sp_newInformation q" "newly = sp_newlySACKed q"
    using a by (auto simp: applyTCPSACK_def Let_def split: prod.splits)
  note e = sackBlocks_effect [OF f q(1)]
  show "flightFrom una 0 n ys" "sackedOctets una xs \<subseteq> sackedOctets una ys"
    "sackedOctets una ys \<subseteq> sackedOctets una xs \<union> (\<Union>b \<in> set bs. blockOff una b)"
    "length (filter sackSplit xs) + 4 * length bs \<le> tcpMaximumSACKSplitRanges \<Longrightarrow>
       sackedOctets una ys = sackedOctets una xs \<union> (\<Union>b \<in> set bs. blockOff una b)"
    using e by blast+
  show "(\<Union>s \<in> set newly. segmentOctets una s) = sackedOctets una ys - sackedOctets una xs"
    using e q(3) by (auto simp: collected_def)
  show "new \<longleftrightarrow> sackedOctets una ys \<noteq> sackedOctets una xs" using e q(2) by simp
qed

end
