(* ===== verification/Tcp_Recovery.thy ===== *)
theory Tcp_Recovery
  imports Tcp_Scoreboard
begin

text \<open>
  Loss recovery of \<^verbatim>\<open>src/tcp.go\<close> on the scoreboard: proportional rate reduction, RACK, resegmentation
  after a path MTU change, and the undo state of a recovery that turns out to be spurious.
\<close>

section \<open>Proportional rate reduction\<close>

definition prrAllowance :: "u32 \<Rightarrow> u32 \<Rightarrow> u32 \<Rightarrow> u64 \<Rightarrow> u64 \<Rightarrow> u32 \<Rightarrow> bool \<Rightarrow> bool \<Rightarrow> int \<Rightarrow> u64" where
  "prrAllowance pipe threshold priorFlight delivered sent newlyDelivered cumulativeACK newlyLost mss =
     (let allowance =
        (if pipe > threshold then
           let target = (ucast threshold * delivered + ucast priorFlight - 1) div ucast priorFlight
           in if target > sent then target - sent else 0
         else
           let allowance = (if delivered > sent then delivered - sent else 0);
               allowance = (if allowance < ucast newlyDelivered then ucast newlyDelivered else allowance);
               allowance = (if cumulativeACK \<and> \<not> newlyLost then allowance + of_int mss else allowance);
               available = ucast (threshold - pipe)
           in if allowance > available then available else allowance)
      in if allowance > ucast tcpMaximumScaledWindow then ucast tcpMaximumScaledWindow else allowance)"

definition prrCongestionWindow :: "u32 \<Rightarrow> u32 \<Rightarrow> u32 \<Rightarrow> u64 \<Rightarrow> u64 \<Rightarrow> u32 \<Rightarrow> bool \<Rightarrow> bool \<Rightarrow> int \<Rightarrow> u32" where
  "prrCongestionWindow pipe threshold priorFlight delivered sent newlyDelivered cumulativeACK newlyLost mss =
     (if newlyDelivered = 0 \<or> priorFlight = 0 \<or> mss < 1 then pipe
      else growCongestionWindow pipe
             (ucast (prrAllowance pipe threshold priorFlight delivered sent newlyDelivered cumulativeACK newlyLost mss)))"

section \<open>RACK\<close>

text \<open>Go's division of durations truncates towards zero; the durations here are positive.\<close>

definition rackReorderingWindow :: "duration \<Rightarrow> duration \<Rightarrow> u32 \<Rightarrow> duration" where
  "rackReorderingWindow minimumRTT smoothedRTT scale =
     (if minimumRTT \<le> 0 \<or> smoothedRTT \<le> 0 then 0
      else
        let scale = (if scale = 0 then 1 else scale);
            window = minimumRTT div 4
        in if window \<le> 0 then 0
           else if scale > of_int (smoothedRTT div window) then smoothedRTT
           else let window = window * uint scale in if window > smoothedRTT then smoothedRTT else window)"

definition validRACKSample :: "tcpRACKSample \<Rightarrow> duration \<Rightarrow> u32 \<Rightarrow> tcpRACKSample" where
  "validRACKSample sample minimumRTT timestampEcho =
     (if rk_retransmitted sample \<and>
         (rk_timestamp sample \<noteq> 0 \<and> timestampEcho \<noteq> 0 \<and> tcpSequenceLess timestampEcho (rk_timestamp sample) \<or>
          minimumRTT > 0 \<and> rk_rtt sample < minimumRTT)
      then noRACKSample else sample)"

definition rackDeliveredAfter :: "tcpRACKSample \<Rightarrow> sentTCPSegment \<Rightarrow> int \<Rightarrow> bool" where
  "rackDeliveredAfter delivered segment epoch \<longleftrightarrow>
     (let at = transmittedAt segment epoch
      in rk_sentAt delivered > at \<or>
         rk_sentAt delivered = at \<and>
         tcpClockTieTransmissionAfter (rk_order delivered) (rk_end delivered) (sg_transmissionOrder segment) (sg_end segment))"

text \<open>The pair \<open>(*forward, *set)\<close> and the result.\<close>

definition rackAdvanceForwardACK :: "u32 \<times> bool \<Rightarrow> u32 \<Rightarrow> bool \<Rightarrow> (u32 \<times> bool) \<times> bool" where
  "rackAdvanceForwardACK f stop retransmitted =
     (if \<not> snd f \<or> tcpSequenceGreater stop (fst f) then ((stop, True), False)
      else (f, tcpSequenceLess stop (fst f) \<and> \<not> retransmitted))"

definition rackEligible :: "tcpRACKSample \<Rightarrow> int \<Rightarrow> sentTCPSegment \<Rightarrow> bool" where
  "rackEligible delivered epoch segment \<longleftrightarrow>
     \<not> (sacked segment \<or> rackLost segment \<or> \<not> rackDeliveredAfter delivered segment epoch)"

definition rackLossDelay :: "sentTCPSegment list \<Rightarrow> tcpRACKSample \<Rightarrow> int \<Rightarrow> duration \<Rightarrow> int \<Rightarrow> duration \<times> bool" where
  "rackLossDelay outstanding delivered now reorderingWindow epoch =
     foldl (\<lambda>(maximum, found) segment.
        if \<not> rackEligible delivered epoch segment then (maximum, found)
        else
          let remaining = timeSub (transmittedAt segment epoch + (rk_rtt delivered + reorderingWindow)) now;
              remaining = (if remaining < 0 then 0 else remaining)
          in if \<not> found \<or> remaining > maximum then (remaining, True) else (maximum, found)) (0, False) outstanding"

definition rackExpire :: "tcpRACKSample \<Rightarrow> int \<Rightarrow> duration \<Rightarrow> int \<Rightarrow> sentTCPSegment \<Rightarrow> sentTCPSegment" where
  "rackExpire delivered now reorderingWindow epoch segment =
     (if \<not> sacked segment \<and> rackDeliveredAfter delivered segment epoch \<and>
         \<not> now < transmittedAt segment epoch + (rk_rtt delivered + reorderingWindow)
      then segment\<lparr>sg_state := stateSet (stateSet (sg_state segment) sentTCPSegmentRACKLost True) sentTCPSegmentSACKRetried False\<rparr>
      else segment)"

definition markRACKLoss :: "sentTCPSegment list \<Rightarrow> tcpRACKSample \<Rightarrow> int \<Rightarrow> duration \<Rightarrow> int \<Rightarrow> sentTCPSegment list \<times> bool" where
  "markRACKLoss outstanding delivered now reorderingWindow epoch =
     (let outstanding = map (rackExpire delivered now reorderingWindow epoch) outstanding
      in (outstanding, list_ex (\<lambda>s. rackLost s \<and> \<not> retried s) outstanding))"

definition hasRACKLoss :: "sentTCPSegment list \<Rightarrow> bool" where
  "hasRACKLoss outstanding = list_ex (\<lambda>s. rackLost s \<and> \<not> retried s) outstanding"

definition firstRACKLoss :: "sentTCPSegment list \<Rightarrow> int" where
  "firstRACKLoss outstanding =
     (case find (\<lambda>i. rackLost (outstanding ! i) \<and> \<not> sacked (outstanding ! i)) [0 ..< length outstanding] of Some i \<Rightarrow> int i | None \<Rightarrow> -1)"

section \<open>Resegmentation\<close>

text \<open>
  The inner loop of \<open>splitTCPSegments\<close> from \<open>offset\<close> on. It advances by \<open>mss\<close> octets, so \<open>payloadSize\<close>
  iterations are enough for a positive \<open>mss\<close>; otherwise it does not end, which is \<open>None\<close>.
\<close>

definition segmentPart :: "sentTCPSegment \<Rightarrow> int \<Rightarrow> int \<Rightarrow> int \<Rightarrow> sentTCPSegment" where
  "segmentPart segment payloadSize offset stop =
     (let part = segment\<lparr>sg_sequence := sg_sequence segment + of_int offset, sg_end := sg_sequence segment + of_int stop,
            sg_state := stateSet (sg_state segment) sentTCPSegmentCWR (offset = 0 \<and> stateHas (sg_state segment) sentTCPSegmentCWR)\<rparr>
      in if stop \<noteq> payloadSize then part\<lparr>sg_flags := sg_flags part AND NOT (TCPFlagPSH OR TCPFlagFIN)\<rparr>
         else if sg_flags part AND TCPFlagFIN \<noteq> 0 then part\<lparr>sg_end := sg_end part + 1\<rparr>
         else part)"

fun segmentParts :: "nat \<Rightarrow> sentTCPSegment \<Rightarrow> int \<Rightarrow> int \<Rightarrow> int \<Rightarrow> sentTCPSegment list option" where
  "segmentParts 0 segment mss payloadSize offset = (if offset < payloadSize then None else Some [])"
| "segmentParts (Suc fuel) segment mss payloadSize offset =
     (if offset < payloadSize then
        let stop = (if offset + mss > payloadSize then payloadSize else offset + mss)
        in map_option (\<lambda>rest. segmentPart segment payloadSize offset stop # rest)
             (segmentParts fuel segment mss payloadSize (offset + mss))
      else Some [])"

fun splitTCPSegments :: "sentTCPSegment list \<Rightarrow> int \<Rightarrow> sentTCPSegment list option" where
  "splitTCPSegments [] mss = Some []"
| "splitTCPSegments (segment # rest) mss = do {
     parts \<leftarrow> (if int (dataSize segment) \<le> mss then Some [segment]
               else segmentParts (dataSize segment) segment mss (int (dataSize segment)) 0);
     more \<leftarrow> splitTCPSegments rest mss;
     Some (parts @ more) }"

definition trimAcknowledgedTCPSegment :: "sentTCPSegment \<Rightarrow> u32 \<Rightarrow> sentTCPSegment" where
  "trimAcknowledgedTCPSegment segment acknowledgement =
     (if \<not> tcpSequenceGreater acknowledgement (sg_sequence segment) \<or> \<not> tcpSequenceLess acknowledgement (sg_end segment) then segment
      else
        let skip = acknowledgement - sg_sequence segment;
            segment = (if skip \<ge> of_nat (dataSize segment) then segment\<lparr>sg_flags := sg_flags segment AND NOT TCPFlagPSH\<rparr> else segment)
        in segment\<lparr>sg_sequence := acknowledgement, sg_state := stateSet (sg_state segment) sentTCPSegmentCWR False\<rparr>)"

section \<open>Undo of a spurious recovery\<close>

record tcpUndoRange =
  ur_sequence :: u32
  ur_end :: u32
  ur_duplicated :: bool

text \<open>The fields of \<open>tcpRecoveryUndo\<close> that its own tests read; \<open>transport\<close> and the diagnostics are carried unread.\<close>

record tcpRecoveryUndo =
  un_active :: bool
  un_timeout :: bool
  un_eifelChecked :: bool
  un_dsackDisabled :: bool
  un_retransmitTimestamp :: u32
  un_point :: u32
  un_priorThreshold :: u32
  un_priorFlight :: u32
  un_spuriousUndos :: u64
  un_priorSRTT :: duration
  un_priorRTTVar :: duration
  un_ranges :: "tcpUndoRange list"

definition undoRecordRetransmission :: "tcpRecoveryUndo \<Rightarrow> u32 \<Rightarrow> u32 \<Rightarrow> u32 \<Rightarrow> bool \<Rightarrow> tcpRecoveryUndo" where
  "undoRecordRetransmission u sequence stop timestamp repeated =
     (if \<not> un_active u then u
      else
        let u = (if repeated then u\<lparr>un_dsackDisabled := True\<rparr> else u);
            u = (if un_retransmitTimestamp u = 0 then u\<lparr>un_retransmitTimestamp := timestamp\<rparr> else u)
        in if list_ex (\<lambda>c. ur_sequence c = sequence \<and> ur_end c = stop) (un_ranges u) then u
           else u\<lparr>un_ranges := un_ranges u @ [\<lparr>ur_sequence = sequence, ur_end = stop, ur_duplicated = False\<rparr>]\<rparr>)"

definition detectEifel :: "tcpRecoveryUndo \<Rightarrow> u32 \<Rightarrow> bool \<Rightarrow> bool \<Rightarrow> u32 \<Rightarrow> tcpRecoveryUndo \<times> bool" where
  "detectEifel u timestampEcho currentDSACK priorDSACK acknowledgement =
     (if \<not> un_active u \<or> un_eifelChecked u \<or> un_retransmitTimestamp u = 0 \<or> timestampEcho = 0 then (u, False)
      else
        let u = u\<lparr>un_eifelChecked := True\<rparr>
        in if \<not> tcpSequenceLess timestampEcho (un_retransmitTimestamp u) \<or> currentDSACK then (u, False)
           else (u, priorDSACK \<or> tcpSequenceLess acknowledgement (un_point u)))"

definition dsackCovers :: "tcpSACKBlock \<Rightarrow> tcpUndoRange \<Rightarrow> bool" where
  "dsackCovers block c \<longleftrightarrow> tcpSequenceLessEqual (LeftEdge block) (ur_sequence c) \<and> tcpSequenceGreaterEqual (RightEdge block) (ur_end c)"

definition observeDSACK :: "tcpRecoveryUndo \<Rightarrow> tcpSACKBlock \<Rightarrow> u32 \<Rightarrow> u32 \<Rightarrow> bool \<Rightarrow> tcpRecoveryUndo \<times> bool" where
  "observeDSACK u block acknowledgement sendUnacknowledged scoreboardEmpty =
     (if \<not> un_active u \<or> un_dsackDisabled u then (u, False)
      else if scoreboardEmpty \<and> LeftEdge block = sendUnacknowledged then (u\<lparr>un_dsackDisabled := True\<rparr>, False)
      else
        let matched = list_ex (dsackCovers block) (un_ranges u);
            u = u\<lparr>un_ranges := map (\<lambda>c. if dsackCovers block c then c\<lparr>ur_duplicated := True\<rparr> else c) (un_ranges u)\<rparr>
        in if \<not> matched then (u\<lparr>un_dsackDisabled := True\<rparr>, False)
           else if un_ranges u = [] then (u, False)
           else (u, list_all (\<lambda>c. \<not> (\<not> ur_duplicated c \<or> tcpSequenceLess acknowledgement (ur_end c))) (un_ranges u)))"

record tcpRetransmissionRecord =
  rr_sequence :: u32
  rr_end :: u32
  rr_count :: nat

definition tcpRetransmissionHistoryLimit :: nat where "tcpRetransmissionHistoryLimit = 128"

text \<open>The first loop counts a repeated range in the newest record that has it.\<close>

fun countRepeated :: "u32 \<Rightarrow> u32 \<Rightarrow> tcpRetransmissionRecord list \<Rightarrow> tcpRetransmissionRecord list option" where
  "countRepeated sequence stop [] = None"
| "countRepeated sequence stop (r # rest) =
     (if rr_sequence r = sequence \<and> rr_end r = stop then Some (r\<lparr>rr_count := rr_count r + 1\<rparr> # rest)
      else map_option (\<lambda>rest. r # rest) (countRepeated sequence stop rest))"

definition historyRecord :: "tcpRetransmissionRecord list \<Rightarrow> u32 \<Rightarrow> u32 \<Rightarrow> tcpRetransmissionRecord list" where
  "historyRecord ranges sequence stop =
     (case countRepeated sequence stop (rev ranges) of
        Some newestFirst \<Rightarrow> rev newestFirst
      | None \<Rightarrow>
          let overlaps = (\<lambda>r. tcpSequenceLess sequence (rr_end r) \<and> tcpSequenceLess (rr_sequence r) stop);
              repeated = list_ex overlaps ranges;
              ranges = map (\<lambda>r. if overlaps r \<and> rr_count r < 2 then r\<lparr>rr_count := 2\<rparr> else r) ranges;
              ranges = (if length ranges = tcpRetransmissionHistoryLimit then tl ranges else ranges)
          in ranges @ [\<lparr>rr_sequence = sequence, rr_end = stop, rr_count = (if repeated then 2 else 1)\<rparr>])"

definition historyMatch :: "tcpRetransmissionRecord list \<Rightarrow> tcpSACKBlock \<Rightarrow> bool \<times> bool" where
  "historyMatch ranges block =
     (let covered = filter (\<lambda>r. tcpSequenceLessEqual (LeftEdge block) (rr_sequence r) \<and> tcpSequenceGreaterEqual (RightEdge block) (rr_end r)) ranges
      in (covered \<noteq> [], list_ex (\<lambda>r. rr_count r > 1) covered))"

section \<open>Windows\<close>

definition initialTCPWindow :: "int \<Rightarrow> u32" where
  "initialTCPWindow mss =
     (let window = 10 * mss;
          minimum = (if 2 * mss < 14600 then 14600 else 2 * mss)
      in of_int (if window > minimum then minimum else window))"

text \<open>The decay loop ends because \<open>idle\<close> falls by a positive \<open>rto\<close>.\<close>

function restartDecay :: "u32 \<Rightarrow> u32 \<Rightarrow> duration \<Rightarrow> duration \<Rightarrow> u32" where
  "restartDecay window restart idle rto =
     (if rto > 0 \<and> idle > 0 \<and> window > restart then restartDecay (window div 2) restart (idle - rto) rto else window)"
  by pat_completeness auto
termination by (relation "measure (\<lambda>(window, restart, idle, rto). nat idle)") auto

declare restartDecay.simps [simp del]

definition tcpRestartWindow :: "u32 \<Rightarrow> int \<Rightarrow> duration \<Rightarrow> duration \<Rightarrow> u32" where
  "tcpRestartWindow window mss idle rto =
     (let restart = initialTCPWindow mss;
          restart = (if window < restart then window else restart)
      in if rto \<le> 0 then restart
         else let window = restartDecay window restart (idle - rto) rto in if window < restart then restart else window)"

definition tcpCurrentSlowStartThreshold :: "u32 \<Rightarrow> u32 \<Rightarrow> u32" where
  "tcpCurrentSlowStartThreshold window threshold =
     (let current = window - window div 4 in if threshold > current then threshold else current)"

definition newRenoPartialACKWindow :: "u32 \<Rightarrow> u32 \<Rightarrow> int \<Rightarrow> u32" where
  "newRenoPartialACKWindow window acknowledged mss =
     (let window = (if acknowledged \<ge> window then 0 else window - acknowledged);
          minimum = of_int mss;
          window = (if acknowledged \<ge> minimum then growCongestionWindow window minimum else window)
      in if window < minimum then minimum else window)"

end
