(* ===== verification/Tcp_Sender.thy ===== *)
theory Tcp_Sender
  imports Tcp_Flight Tcp_Recovery
begin

text \<open>
  Properties of the sender's loss recovery: the scans of the scoreboard, resegmentation, proportional
  rate reduction, and the scoreboard theorems that combine them with the SACK option parser.
\<close>

section \<open>The scans agree with the loss test\<close>

text \<open>The number of ranges and of octets SACKed in a suffix of the scoreboard.\<close>

fun sackedRanges :: "sentTCPSegment list \<Rightarrow> nat" where
  "sackedRanges [] = 0"
| "sackedRanges (s # xs) = (if sacked s then 1 else 0) + sackedRanges xs"

fun sackedSize :: "sentTCPSegment list \<Rightarrow> nat" where
  "sackedSize [] = 0"
| "sackedSize (s # xs) = (if sacked s then unat (sg_end s - sg_sequence s) else 0) + sackedSize xs"

definition lostIn :: "int \<Rightarrow> sentTCPSegment \<Rightarrow> sentTCPSegment list \<Rightarrow> bool" where
  "lostIn mss s later \<longleftrightarrow> \<not> sacked s \<and> (rackLost s \<or> provenBy mss (sackedRanges later) (sackedSize later))"

lemma provenBy_mono: "provenBy mss r b \<Longrightarrow> r \<le> r' \<Longrightarrow> b \<le> b' \<Longrightarrow> provenBy mss r' b'"
  by (auto simp: provenBy_def)

lemma not_proven_0: "\<not> provenBy mss 0 0"
  by (auto simp: provenBy_def tcpDuplicateACKThreshold_def)

lemma lostAbove_iff: "\<not> provenBy mss r b \<Longrightarrow> lostAbove mss xs r b \<longleftrightarrow> provenBy mss (r + sackedRanges xs) (b + sackedSize xs)"
proof (induction xs arbitrary: r b)
  case (Cons s xs)
  show ?case
  proof (cases "sacked s")
    case True
    let ?r = "r + 1" and ?b = "b + unat (sg_end s - sg_sequence s)"
    show ?thesis
    proof (cases "provenBy mss ?r ?b")
      case p: True
      then show ?thesis using True provenBy_mono [OF p, of "r + sackedRanges (s # xs)" "b + sackedSize (s # xs)"] by simp
    next
      case False
      then show ?thesis using True Cons.IH [OF False] by (simp add: add.assoc)
    qed
  next
    case False
    then show ?thesis using Cons.IH [OF Cons.prems] by simp
  qed
qed simp

lemma segmentLost_iff:
  "i < length xs \<Longrightarrow> sackSegmentLost xs (int i) mss \<longleftrightarrow> lostIn mss (xs ! i) (drop (Suc i) xs)"
  using lostAbove_iff [OF not_proven_0, of mss "drop (Suc i) xs"] by (simp add: sackSegmentLost_def lostIn_def)

lemma find_upt_Suc: "find P [0 ..< Suc n] = (if P 0 then Some 0 else map_option Suc (find (\<lambda>i. P (Suc i)) [0 ..< n]))"
proof -
  have "find P (map Suc xs) = map_option Suc (find (\<lambda>i. P (Suc i)) xs)" for xs by (induction xs) auto
  moreover have "[0 ..< Suc n] = 0 # map Suc [0 ..< n]" by (simp add: map_Suc_upt upt_conv_Cons)
  ultimately show ?thesis by simp
qed

definition firstLost :: "int \<Rightarrow> sentTCPSegment list \<Rightarrow> nat option" where
  "firstLost mss xs = find (\<lambda>i. \<not> retried (xs ! i) \<and> lostIn mss (xs ! i) (drop (Suc i) xs)) [0 ..< length xs]"

lemma firstLost_Cons:
  "firstLost mss (s # xs) = (if \<not> retried s \<and> lostIn mss s xs then Some 0 else map_option Suc (firstLost mss xs))"
  unfolding firstLost_def length_Cons find_upt_Suc by simp

lemma lossScan_rev:
  "lossScan mss (rev xs @ zs) 0 0 index =
   lossScan mss zs (sackedRanges xs) (sackedSize xs) (case firstLost mss xs of Some i \<Rightarrow> int (i + length zs) | None \<Rightarrow> index)"
proof (induction xs arbitrary: zs)
  case Nil
  then show ?case by (simp add: firstLost_def)
next
  case (Cons s xs)
  show ?case
    using Cons.IH [of "s # zs"] by (auto simp: firstLost_Cons lostIn_def ac_simps split: option.splits)
qed

lemma firstUnretriedLoss_iff:
  "firstUnretriedLoss xs mss = (case firstLost mss xs of Some i \<Rightarrow> int i | None \<Rightarrow> -1)"
  using lossScan_rev [of mss xs "[]" "-1"] by (simp add: firstUnretriedLoss_def split: option.splits)

fun lostRanges :: "int \<Rightarrow> sentTCPSegment list \<Rightarrow> nat" where
  "lostRanges mss [] = 0"
| "lostRanges mss (s # xs) = (if lostIn mss s xs then 1 else 0) + lostRanges mss xs"

lemma lostCount_rev: "lostCount mss (rev xs @ zs) 0 0 c = lostCount mss zs (sackedRanges xs) (sackedSize xs) (c + lostRanges mss xs)"
proof (induction xs arbitrary: zs)
  case (Cons s xs)
  show ?case using Cons.IH [of "s # zs"] by (auto simp: lostIn_def ac_simps)
qed simp

lemma lostRanges_card: "lostRanges mss xs = card {i. i < length xs \<and> lostIn mss (xs ! i) (drop (Suc i) xs)}"
proof (induction xs)
  case (Cons s xs)
  let ?A = "{i. i < length xs \<and> lostIn mss (xs ! i) (drop (Suc i) xs)}"
  have "{i. i < length (s # xs) \<and> lostIn mss ((s # xs) ! i) (drop (Suc i) (s # xs))} = (if lostIn mss s xs then {0} else {}) \<union> Suc ` ?A"
    by (auto simp: image_iff less_Suc_eq_0_disj)
  moreover have "card (Suc ` ?A) = card ?A" by (simp add: card_image)
  ultimately show ?case using Cons.IH by (simp add: card_insert_if)
qed simp

text \<open>RFC 6675's Pipe: a range not lost counts, and a retransmitted one counts again.\<close>

definition pipeShare :: "int \<Rightarrow> sentTCPSegment \<Rightarrow> sentTCPSegment list \<Rightarrow> nat" where
  "pipeShare mss s later =
     (if sacked s then 0
      else (if lostIn mss s later then 0 else unat (sg_end s - sg_sequence s)) + (if retried s then unat (sg_end s - sg_sequence s) else 0))"

fun pipeSum :: "int \<Rightarrow> sentTCPSegment list \<Rightarrow> nat" where
  "pipeSum mss [] = 0"
| "pipeSum mss (s # xs) = pipeShare mss s xs + pipeSum mss xs"

lemma unat_grow: "unat (growCongestionWindow w d) = min 1073725440 (unat w + unat d)" if "unat w \<le> 1073725440"
proof -
  have m: "unat tcpMaximumScaledWindow = 1073725440" by (simp add: tcpMaximumScaledWindow_val)
  have s: "unat (tcpMaximumScaledWindow - w) = 1073725440 - unat w" using that m by (simp add: unat_sub word_le_nat_alt)
  show ?thesis
  proof (cases "w \<ge> tcpMaximumScaledWindow \<or> d \<ge> tcpMaximumScaledWindow - w")
    case True
    then show ?thesis using that m s by (auto simp: growCongestionWindow_def word_le_nat_alt)
  next
    case False
    then have "unat d < 1073725440 - unat w" using m s by (auto simp: word_le_nat_alt not_le)
    then have "unat w + unat d < 1073725440" by linarith
    moreover from this have "unat (w + d) = unat w + unat d" by (intro unat_add_lem [THEN iffD1]) simp
    ultimately show ?thesis using False by (simp add: growCongestionWindow_def)
  qed
qed

lemma pipeScan_rev:
  "unat p \<le> 1073725440 \<Longrightarrow>
   \<exists>q. pipeScan mss (rev xs @ zs) 0 0 p = pipeScan mss zs (sackedRanges xs) (sackedSize xs) q \<and>
     unat q = min 1073725440 (unat p + pipeSum mss xs)"
proof (induction xs arbitrary: zs)
  case (Cons s xs)
  obtain q where q: "pipeScan mss (rev xs @ s # zs) 0 0 p = pipeScan mss (s # zs) (sackedRanges xs) (sackedSize xs) q"
    "unat q = min 1073725440 (unat p + pipeSum mss xs)"
    using Cons.IH [OF Cons.prems, of "s # zs"] by auto
  then have le: "unat q \<le> 1073725440" by simp
  define q' where "q' = (if lostIn mss s xs then q else growCongestionWindow q (sg_end s - sg_sequence s))"
  have q': "unat q' = min 1073725440 (unat q + (if lostIn mss s xs then 0 else unat (sg_end s - sg_sequence s)))"
    using unat_grow [OF le] le by (simp add: q'_def)
  then have le': "unat q' \<le> 1073725440" by simp
  define q'' where "q'' = (if retried s then growCongestionWindow q' (sg_end s - sg_sequence s) else q')"
  have q'': "unat q'' = min 1073725440 (unat q' + (if retried s then unat (sg_end s - sg_sequence s) else 0))"
    using unat_grow [OF le'] le' by (simp add: q''_def)
  show ?case
  proof (cases "sacked s")
    case True
    then show ?thesis using q by (auto simp: pipeShare_def ac_simps)
  next
    case False
    have "pipeScan mss (s # zs) (sackedRanges xs) (sackedSize xs) q = pipeScan mss zs (sackedRanges xs) (sackedSize xs) q''"
      using False by (simp add: q''_def q'_def lostIn_def Let_def)
    moreover have "unat q'' = min 1073725440 (unat p + pipeSum mss (s # xs))"
      unfolding q'' q' q(2) using False by (auto simp: pipeShare_def)
    ultimately show ?thesis using q(1) False by auto
  qed
qed auto

lemma sackRecoveryPipe_unat: "unat (sackRecoveryPipe xs mss) = min 1073725440 (pipeSum mss xs)"
  using pipeScan_rev [of 0 mss xs "[]"] by (auto simp: sackRecoveryPipe_def)

section \<open>Resegmentation\<close>

lemma off_add: "off una x + k < 2 ^ 32 \<Longrightarrow> off una (x + of_nat k) = off una x + k"
proof -
  assume a: "off una x + k < 2 ^ 32"
  have e: "x + of_nat k - una = (x - una) + of_nat k" by simp
  have k: "unat (of_nat k :: u32) = k" using a by (simp add: unat_of_nat take_bit_nat_eq_self)
  show ?thesis using a unfolding off_def e by (subst unat_plus_simple [THEN iffD1]) (auto simp: word_le_nat_alt unat_word_ariths k)
qed

lemma off_diff: "off una x \<le> off una y \<Longrightarrow> unat (y - x) = off una y - off una x"
proof -
  assume a: "off una x \<le> off una y"
  have e: "y - x = (y - una) - (x - una)" by simp
  have "unat ((y - una) - (x - una)) = unat (y - una) - unat (x - una)"
    using a by (intro unat_sub) (simp add: off_def word_le_nat_alt)
  then show ?thesis unfolding off_def by (subst e)
qed

lemma fin_cleared: "(f AND NOT TCPFlagPSH AND NOT TCPFlagFIN) AND TCPFlagFIN = (0 :: u8)"
  by (rule bit_word_eqI) (auto simp: bit_simps TCPFlagPSH_def TCPFlagFIN_def)

lemma dataSize_plain: "sg_flags s AND TCPFlagFIN = 0 \<Longrightarrow> dataSize s = unat (sg_end s - sg_sequence s)"
  by (simp add: dataSize_def Let_def)

lemma dataSize_fin: "sg_flags s AND TCPFlagFIN \<noteq> 0 \<Longrightarrow> sg_end s \<noteq> sg_sequence s \<Longrightarrow> dataSize s = unat (sg_end s - sg_sequence s) - 1"
proof -
  assume f: "sg_flags s AND TCPFlagFIN \<noteq> 0" "sg_end s \<noteq> sg_sequence s"
  then have "sg_end s - sg_sequence s \<noteq> 0" by simp
  then have "1 \<le> unat (sg_end s - sg_sequence s)" by (metis One_nat_def Suc_leI gr0I unat_0 unat_eq_zero)
  then have "unat (sg_end s - sg_sequence s - 1) = unat (sg_end s - sg_sequence s) - 1"
    by (simp add: unat_sub word_le_nat_alt)
  then show ?thesis using f by (simp add: dataSize_def Let_def)
qed

lemma segment_size:
  assumes "off una (sg_sequence s) < off una (sg_end s)"
  shows "dataSize s = (if sg_flags s AND TCPFlagFIN \<noteq> 0 then off una (sg_end s) - off una (sg_sequence s) - 1 else off una (sg_end s) - off una (sg_sequence s))"
proof -
  have "sg_end s \<noteq> sg_sequence s" "unat (sg_end s - sg_sequence s) = off una (sg_end s) - off una (sg_sequence s)"
    using assms off_diff [of una "sg_sequence s" "sg_end s"] by auto
  then show ?thesis using dataSize_plain [of s] dataSize_fin [of s] by auto
qed

text \<open>One part carries the payload from \<open>offset\<close> to \<open>stop\<close>, and the last one ends where the segment ends.\<close>

lemma segmentPart_range:
  assumes s: "off una (sg_sequence s) < off una (sg_end s)" "off una (sg_end s) < 2 ^ 31"
    and o: "0 \<le> offset" "offset < stop" "stop \<le> int (dataSize s)"
  defines "part \<equiv> segmentPart s (int (dataSize s)) offset stop"
  shows "off una (sg_sequence part) = off una (sg_sequence s) + nat offset"
    and "off una (sg_end part) = (if stop = int (dataSize s) then off una (sg_end s) else off una (sg_sequence s) + nat stop)"
    and "sacked part = sacked s" and "dataSize part = nat (stop - offset)"
proof -
  let ?b = "off una (sg_sequence s)" and ?e = "off una (sg_end s)"
  note P = segment_size [OF s(1)]
  show q: "off una (sg_sequence part) = ?b + nat offset"
    using off_add [of una "sg_sequence s" "nat offset"] o P s by (auto simp: part_def segmentPart_def Let_def split: if_splits)
  have stp: "off una (sg_sequence s + of_int stop) = ?b + nat stop"
    using off_add [of una "sg_sequence s" "nat stop"] o P s by (auto split: if_splits)
  have fin: "off una (sg_sequence s + of_int stop + 1) = ?b + nat stop + 1"
    using off_add [of una "sg_sequence s + of_int stop" 1] stp o P s by (auto split: if_splits)
  show en: "off una (sg_end part) = (if stop = int (dataSize s) then ?e else ?b + nat stop)"
    using stp fin P s by (auto simp: part_def segmentPart_def Let_def)
  show "sacked part = sacked s" by (simp add: part_def segmentPart_def Let_def)
  have lt: "off una (sg_sequence part) < off una (sg_end part)" using q en o P s by (auto split: if_splits)
  have fl: "sg_flags part AND TCPFlagFIN \<noteq> 0 \<longleftrightarrow> stop = int (dataSize s) \<and> sg_flags s AND TCPFlagFIN \<noteq> 0"
    by (auto simp: part_def segmentPart_def Let_def fin_cleared)
  show "dataSize part = nat (stop - offset)"
  proof (cases "stop = int (dataSize s)")
    case True
    then have f: "(sg_flags part AND TCPFlagFIN \<noteq> 0) = (sg_flags s AND TCPFlagFIN \<noteq> 0)" using fl by simp
    show ?thesis unfolding segment_size [OF lt] q en f if_P [OF True] using True P o s(1)
      by (cases "sg_flags s AND TCPFlagFIN = 0") (simp_all add: nat_diff_distrib)
  next
    case False
    then have f: "(sg_flags part AND TCPFlagFIN \<noteq> 0) = False" using fl by simp
    show ?thesis unfolding segment_size [OF lt] q en f if_not_P [OF False] using o by simp
  qed
qed

lemma segmentParts_flight:
  assumes s: "off una (sg_sequence s) < off una (sg_end s)" "off una (sg_end s) < 2 ^ 31"
    and m: "1 \<le> mss" and o: "offset < int (dataSize s)" "0 \<le> offset" and f: "int (dataSize s) - offset \<le> int fuel"
  shows "\<exists>ps. segmentParts fuel s mss (int (dataSize s)) offset = Some ps \<and>
    (\<forall>rest. flightFrom una (off una (sg_end s)) n rest \<and> off una (sg_end s) \<le> n \<longrightarrow> flightFrom una (off una (sg_sequence s) + nat offset) n (ps @ rest)) \<and>
    (\<forall>p \<in> set ps. int (dataSize p) \<le> mss \<and> sacked p = sacked s) \<and>
    (\<Union>p \<in> set ps. segmentOctets una p) = {off una (sg_sequence s) + nat offset ..< off una (sg_end s)}"
  using o f
proof (induction fuel arbitrary: offset)
  case 0
  then show ?case by simp
next
  case (Suc fuel)
  let ?b = "off una (sg_sequence s)" and ?e = "off una (sg_end s)" and ?P = "int (dataSize s)"
  define stop where "stop = (if offset + mss > ?P then ?P else offset + mss)"
  have st: "offset < stop" "stop \<le> ?P" "stop - offset \<le> mss" using Suc.prems m by (auto simp: stop_def)
  define part where "part = segmentPart s ?P offset stop"
  note p = segmentPart_range [OF s Suc.prems(2) st(1,2), folded part_def]
  have d: "int (dataSize part) \<le> mss" using p(4) st by simp
  have lt: "?b + nat stop \<le> ?e" using segment_size [OF s(1)] st s by (auto split: if_splits)
  show ?case
  proof (cases "stop = ?P")
    case True
    have "segmentParts fuel s mss ?P (offset + mss) = Some []"
      using True st by (cases fuel) (auto simp: stop_def split: if_splits)
    then have sp: "segmentParts (Suc fuel) s mss ?P offset = Some [part]"
      using Suc.prems(1) by (simp add: part_def stop_def Let_def)
    have "?b + nat offset < ?e" using lt st Suc.prems by linarith
    then show ?thesis unfolding sp using p d True by (auto simp: segmentOctets_def)
  next
    case False
    then have nxt: "offset + mss < ?P" "stop = offset + mss" using st(2) by (auto simp: stop_def split: if_splits)
    obtain ps where ps: "segmentParts fuel s mss ?P (offset + mss) = Some ps"
      "\<And>rest. flightFrom una ?e n rest \<Longrightarrow> ?e \<le> n \<Longrightarrow> flightFrom una (?b + nat (offset + mss)) n (ps @ rest)"
      "\<And>p. p \<in> set ps \<Longrightarrow> int (dataSize p) \<le> mss \<and> sacked p = sacked s"
      "(\<Union>p \<in> set ps. segmentOctets una p) = {?b + nat (offset + mss) ..< ?e}"
      using Suc.IH [of "offset + mss"] nxt m Suc.prems by auto
    have sp: "segmentParts (Suc fuel) s mss ?P offset = Some (part # ps)"
      using Suc.prems(1) ps(1) by (simp add: part_def stop_def Let_def)
    have le: "?b + nat offset < ?b + nat (offset + mss)" using m Suc.prems by simp
    show ?thesis unfolding sp using ps(2-4) p d False lt le nxt(2) by (auto simp: segmentOctets_def)
  qed
qed

lemma sackedOctets_append [simp]: "sackedOctets una (xs @ ys) = sackedOctets una xs \<union> sackedOctets una ys"
  by (auto simp: sackedOctets_def)

lemma sackedOctets_uniform:
  "(\<forall>p \<in> set ps. sacked p = v) \<Longrightarrow> sackedOctets una ps = (if v then (\<Union>p \<in> set ps. segmentOctets una p) else {})"
  by (auto simp: sackedOctets_def)

lemma splitTCPSegments_flight:
  assumes "flightFrom una i n xs" "n < 2 ^ 31" "1 \<le> mss"
  shows "\<exists>ys. splitTCPSegments xs mss = Some ys \<and> flightFrom una i n ys \<and> (\<forall>s \<in> set ys. int (dataSize s) \<le> mss) \<and>
    sackedOctets una ys = sackedOctets una xs"
  using assms(1)
proof (induction xs arbitrary: i)
  case Nil
  then show ?case by simp
next
  case (Cons s rest)
  have s: "off una (sg_sequence s) = i" "i < off una (sg_end s)" "off una (sg_end s) \<le> n" "flightFrom una (off una (sg_end s)) n rest"
    using Cons.prems by auto
  obtain ys where ys: "splitTCPSegments rest mss = Some ys" "flightFrom una (off una (sg_end s)) n ys" "\<forall>s \<in> set ys. int (dataSize s) \<le> mss"
    "sackedOctets una ys = sackedOctets una rest"
    using Cons.IH [OF s(4)] by blast
  show ?case
  proof (cases "int (dataSize s) \<le> mss")
    case True
    then show ?thesis using ys s by simp
  next
    case False
    obtain ps where ps: "segmentParts (dataSize s) s mss (int (dataSize s)) 0 = Some ps" "flightFrom una i n (ps @ ys)"
      "\<forall>p \<in> set ps. int (dataSize p) \<le> mss" "\<forall>p \<in> set ps. sacked p = sacked s" "(\<Union>p \<in> set ps. segmentOctets una p) = segmentOctets una s"
      using segmentParts_flight [of una s mss 0 "dataSize s" n] s assms(2,3) False ys(2) by (auto simp: segmentOctets_def)
    have "sackedOctets una ps = (if sacked s then segmentOctets una s else {})"
      using sackedOctets_uniform [OF ps(4)] ps(5) by simp
    then show ?thesis using ps ys False by (auto simp del: segment_bits)
  qed
qed

lemma trim_flight:
  assumes "flightFrom una i n (s # rest)" "n < 2 ^ 31" "i < off una a" "off una a < off una (sg_end s)"
  shows "flightFrom una (off una a) n (trimAcknowledgedTCPSegment s a # rest)"
proof -
  have cmp: "tcpSequenceGreater a (sg_sequence s)" "tcpSequenceLess a (sg_end s)"
    using less_offs [of una "sg_sequence s" a] less_offs [of una a "sg_end s"] assms by (auto simp: tcpSequenceGreater_def)
  then show ?thesis using assms by (simp add: trimAcknowledgedTCPSegment_def Let_def)
qed

section \<open>Proportional rate reduction\<close>

lemma unat_small: "unat (ucast (x :: u64) :: u32) = unat x" if "unat x \<le> 1073725440"
  using that by (simp add: take_bit_nat_eq_self unsigned_ucast_eq)

lemma unat_ucast_up: "unat (ucast (x :: u32) :: u64) = unat x"
  using unat_lt_u32 [of x] by (simp add: unsigned_ucast_eq take_bit_nat_eq_self)

lemma allowance_cap: "unat (prrAllowance pipe threshold priorFlight delivered sent newlyDelivered cumulativeACK newlyLost mss) \<le> 1073725440"
  unfolding prrAllowance_def Let_def
  by (auto simp: tcpMaximumScaledWindow_val word_le_nat_alt word_less_nat_alt not_less)

lemma prr_unat:
  assumes "unat pipe \<le> 1073725440" "newlyDelivered \<noteq> 0" "priorFlight \<noteq> 0" "1 \<le> mss"
  shows "unat (prrCongestionWindow pipe threshold priorFlight delivered sent newlyDelivered cumulativeACK newlyLost mss) =
    min 1073725440 (unat pipe + unat (prrAllowance pipe threshold priorFlight delivered sent newlyDelivered cumulativeACK newlyLost mss))"
  using assms unat_grow [OF assms(1)] unat_small [OF allowance_cap] by (simp add: prrCongestionWindow_def)

lemma allowance_below:
  assumes "pipe \<le> threshold"
  shows "unat (prrAllowance pipe threshold priorFlight delivered sent newlyDelivered cumulativeACK newlyLost mss) \<le> unat threshold - unat pipe"
proof -
  have a: "unat (ucast (threshold - pipe) :: u64) = unat threshold - unat pipe"
    using assms by (simp add: unat_ucast_up unat_sub)
  show ?thesis using assms a unfolding prrAllowance_def Let_def
    by (auto simp: word_le_nat_alt word_less_nat_alt not_less tcpMaximumScaledWindow_val)
qed

lemma allowance_proportional:
  assumes "threshold < pipe" "priorFlight \<noteq> 0" "unat threshold * unat delivered + unat priorFlight < 2 ^ 64"
  shows "unat (prrAllowance pipe threshold priorFlight delivered sent newlyDelivered cumulativeACK newlyLost mss) =
    min 1073725440 ((unat threshold * unat delivered + unat priorFlight - 1) div unat priorFlight - unat sent)"
proof -
  let ?t = "(ucast threshold * delivered + ucast priorFlight - 1) div ucast priorFlight :: u64"
  have p: "0 < unat priorFlight" using assms(2) by (metis gr0I unat_eq_zero)
  have "unat (ucast threshold * delivered) = unat threshold * unat delivered"
    using assms(3) unat_ucast_up [of threshold] by (simp add: unat_word_ariths take_bit_nat_eq_self)
  then have "unat (ucast threshold * delivered + ucast priorFlight) = unat threshold * unat delivered + unat priorFlight"
    using assms(3) unat_ucast_up [of priorFlight] by (simp add: unat_word_ariths take_bit_nat_eq_self)
  then have n: "unat (ucast threshold * delivered + ucast priorFlight - 1) = unat threshold * unat delivered + unat priorFlight - 1"
    using p by (subst unat_sub) (auto simp: word_le_nat_alt)
  have t: "unat ?t = (unat threshold * unat delivered + unat priorFlight - 1) div unat priorFlight"
    unfolding unat_div n unat_ucast_up ..
  have "unat (if x > sent then x - sent else 0) = unat x - unat sent" for x :: u64
    using unat_sub [of sent x] by (auto simp: word_less_nat_alt word_le_nat_alt)
  from this [of ?t] have "unat (if ?t > sent then ?t - sent else 0) = unat ?t - unat sent" .
  then show ?thesis using assms(1) t unfolding prrAllowance_def Let_def
    by (auto simp: word_less_nat_alt tcpMaximumScaledWindow_val)
qed

section \<open>The scoreboard is a partition of the flight\<close>

lemma flight_map: "(\<And>s. sg_sequence (f s) = sg_sequence s \<and> sg_end (f s) = sg_end s) \<Longrightarrow> flightFrom una i n (map f xs) = flightFrom una i n xs"
  by (induction xs arbitrary: i) auto

lemma rackExpire_range: "sg_sequence (rackExpire d now w epoch s) = sg_sequence s \<and> sg_end (rackExpire d now w epoch s) = sg_end s"
  by (simp add: rackExpire_def)

lemma provenLosses_ranges: "map (\<lambda>s. (sg_sequence s, sg_end s)) (fst (provenLosses mss xs r b l)) = map (\<lambda>s. (sg_sequence s, sg_end s)) xs"
proof (induction xs arbitrary: r b l)
  case (Cons s xs)
  show ?case
    by (auto simp: recordTCPSegmentLoss_def Let_def case_prod_beta Cons.IH)
qed simp

lemma flight_ranges: "map (\<lambda>s. (sg_sequence s, sg_end s)) xs = map (\<lambda>s. (sg_sequence s, sg_end s)) ys \<Longrightarrow> flightFrom una i n xs = flightFrom una i n ys"
  by (induction xs ys arbitrary: i rule: list_induct2') auto

lemma recordProven_flight: "flightFrom una i n (fst (recordProvenTCPLosses xs mss)) = flightFrom una i n xs"
proof (rule flight_ranges)
  have "map (\<lambda>s. (sg_sequence s, sg_end s)) (rev (fst (provenLosses mss (rev xs) 0 0 0))) = map (\<lambda>s. (sg_sequence s, sg_end s)) xs"
    using provenLosses_ranges [of mss "rev xs" 0 0 0] by (simp add: rev_map [symmetric])
  then show "map (\<lambda>s. (sg_sequence s, sg_end s)) (fst (recordProvenTCPLosses xs mss)) = map (\<lambda>s. (sg_sequence s, sg_end s)) xs"
    by (simp add: recordProvenTCPLosses_def recordProvenTCPLossesWith_def Let_def case_prod_beta)
qed

text \<open>
  C17: Every operation keeps the scoreboard a partition of the flight into nonempty ranges without gaps:
  SACK processing, resegmentation, RACK marking, loss accounting, and the trimming of a partly
  acknowledged range. Resegmentation returns for every positive segment size, with no part above it.
\<close>

theorem scoreboard_partitions_flight:
  assumes f: "flightFrom una 0 n xs" "n < 2 ^ 31"
  shows "((\<forall>b \<in> set bs. blockIn una n b) \<longrightarrow> flightFrom una 0 n (fst (applyTCPSACK xs bs epoch))) \<and>
    (1 \<le> mss \<longrightarrow> (\<exists>ys. splitTCPSegments xs mss = Some ys \<and> flightFrom una 0 n ys \<and> (\<forall>s \<in> set ys. int (dataSize s) \<le> mss))) \<and>
    flightFrom una 0 n (fst (markRACKLoss xs delivered now window epoch)) \<and>
    flightFrom una 0 n (fst (recordProvenTCPLosses xs mss)) \<and>
    (\<forall>s rest a. xs = s # rest \<and> 0 < unat (a - una) \<and> unat (a - una) < unat (sg_end s - una) \<longrightarrow>
      flightFrom una (unat (a - una)) n (trimAcknowledgedTCPSegment s a # rest))"
proof (intro conjI impI allI)
  show "flightFrom una 0 n (fst (applyTCPSACK xs bs epoch))" if "\<forall>b \<in> set bs. blockIn una n b"
    using applyTCPSACK_effect(1) [OF f that] by (cases "applyTCPSACK xs bs epoch") auto
  show "\<exists>ys. splitTCPSegments xs mss = Some ys \<and> flightFrom una 0 n ys \<and> (\<forall>s \<in> set ys. int (dataSize s) \<le> mss)" if "1 \<le> mss"
    using splitTCPSegments_flight [OF f that] by blast
  show "flightFrom una 0 n (fst (markRACKLoss xs delivered now window epoch))"
    using f(1) by (simp add: markRACKLoss_def Let_def flight_map rackExpire_range)
  show "flightFrom una 0 n (fst (recordProvenTCPLosses xs mss))" using f(1) by (simp add: recordProven_flight)
  show "flightFrom una (unat (a - una)) n (trimAcknowledgedTCPSegment s a # rest)"
    if "xs = s # rest \<and> 0 < unat (a - una) \<and> unat (a - una) < unat (sg_end s - una)" for s rest a
    using trim_flight [of una 0 n s rest a] f that by (simp add: off_def)
qed


section \<open>The scans\<close>

lemma pipeSum_sum: "pipeSum mss xs = (\<Sum>i < length xs. pipeShare mss (xs ! i) (drop (Suc i) xs))"
  by (induction xs) (simp_all add: sum.lessThan_Suc_shift del: sum.lessThan_Suc)

text \<open>
  C15: The single-pass scans agree with RFC 6675's loss test \<open>sackSegmentLost\<close> applied to each range on its own:
  the next range to retransmit is the oldest lost one not yet retried, the lost ranges are counted right, and
  the pipe is the sum of the ranges not lost and of the retransmitted ones, bounded by the maximum window.
\<close>

theorem scoreboard_scans_agree:
  "firstUnretriedLoss xs mss =
     (case find (\<lambda>i. \<not> retried (xs ! i) \<and> sackSegmentLost xs (int i) mss) [0 ..< length xs] of Some i \<Rightarrow> int i | None \<Rightarrow> -1) \<and>
   sackLostRangeCount xs mss = card {i. i < length xs \<and> sackSegmentLost xs (int i) mss} \<and>
   unat (sackRecoveryPipe xs mss) = min (unat tcpMaximumScaledWindow)
     (\<Sum>i < length xs. if sacked (xs ! i) then 0
        else (if sackSegmentLost xs (int i) mss then 0 else unat (sg_end (xs ! i) - sg_sequence (xs ! i))) +
             (if retried (xs ! i) then unat (sg_end (xs ! i) - sg_sequence (xs ! i)) else 0))"
proof (intro conjI)
  have "firstLost mss xs = find (\<lambda>i. \<not> retried (xs ! i) \<and> sackSegmentLost xs (int i) mss) [0 ..< length xs]"
    unfolding firstLost_def by (rule find_cong) (auto simp: segmentLost_iff)
  then show "firstUnretriedLoss xs mss =
     (case find (\<lambda>i. \<not> retried (xs ! i) \<and> sackSegmentLost xs (int i) mss) [0 ..< length xs] of Some i \<Rightarrow> int i | None \<Rightarrow> -1)"
    by (simp only: firstUnretriedLoss_iff)
  have "lostRanges mss xs = card {i. i < length xs \<and> sackSegmentLost xs (int i) mss}"
    unfolding lostRanges_card by (rule arg_cong [where f = card]) (auto simp: segmentLost_iff)
  then show "sackLostRangeCount xs mss = card {i. i < length xs \<and> sackSegmentLost xs (int i) mss}"
    using lostCount_rev [of mss xs "[]" 0] by (simp add: sackLostRangeCount_def)
  have "pipeSum mss xs = (\<Sum>i < length xs. if sacked (xs ! i) then 0
        else (if sackSegmentLost xs (int i) mss then 0 else unat (sg_end (xs ! i) - sg_sequence (xs ! i))) +
             (if retried (xs ! i) then unat (sg_end (xs ! i) - sg_sequence (xs ! i)) else 0))"
    unfolding pipeSum_sum by (rule sum.cong) (auto simp: pipeShare_def segmentLost_iff)
  then show "unat (sackRecoveryPipe xs mss) = min (unat tcpMaximumScaledWindow)
     (\<Sum>i < length xs. if sacked (xs ! i) then 0
        else (if sackSegmentLost xs (int i) mss then 0 else unat (sg_end (xs ! i) - sg_sequence (xs ! i))) +
             (if retried (xs ! i) then unat (sg_end (xs ! i) - sg_sequence (xs ! i)) else 0))"
    unfolding sackRecoveryPipe_unat by (simp add: tcpMaximumScaledWindow_val)
qed

text \<open>
  C31: Proportional rate reduction. While the pipe is at most the threshold, an acknowledgement opens the window
  beyond the pipe but never beyond the threshold; above the threshold the window exceeds the pipe by
  exactly what is left of the share \<open>threshold / priorFlight\<close> of the delivered octets (rounded up), so that what is sent in the
  recovery stays within that share.
\<close>

theorem prr_window_bounds:
  assumes "unat pipe \<le> unat tcpMaximumScaledWindow" "newlyDelivered \<noteq> 0" "priorFlight \<noteq> 0" "1 \<le> mss"
    "unat threshold * unat delivered + unat priorFlight < 2 ^ 64"
    and w_def: "w = unat (prrCongestionWindow pipe threshold priorFlight delivered sent newlyDelivered cumulativeACK newlyLost mss)"
  shows "unat pipe \<le> w \<and> w \<le> unat tcpMaximumScaledWindow \<and> (pipe \<le> threshold \<longrightarrow> w \<le> unat threshold) \<and>
    (threshold < pipe \<longrightarrow>
       w = min (unat tcpMaximumScaledWindow)
             (unat pipe + ((unat threshold * unat delivered + unat priorFlight - 1) div unat priorFlight - unat sent)))"
proof -
  have m: "unat tcpMaximumScaledWindow = 1073725440" by (simp add: tcpMaximumScaledWindow_val)
  have p: "unat pipe \<le> 1073725440" using assms(1) m by simp
  note w = prr_unat [OF p assms(2-4), of threshold delivered sent cumulativeACK newlyLost, folded w_def]
  have capped: "min c (k + min c x) = min c (k + x)" for c k x :: nat by (simp add: min_def)
  have "pipe \<le> threshold \<longrightarrow> w \<le> unat threshold"
    using w allowance_below [of pipe threshold priorFlight delivered sent newlyDelivered cumulativeACK newlyLost mss]
    by (auto simp: word_le_nat_alt)
  moreover have "threshold < pipe \<longrightarrow> w = min 1073725440
      (unat pipe + ((unat threshold * unat delivered + unat priorFlight - 1) div unat priorFlight - unat sent))"
    using w allowance_proportional [OF _ assms(3,5), of pipe sent newlyDelivered cumulativeACK newlyLost mss] by (simp add: capped)
  ultimately show ?thesis using w p unfolding m by auto
qed

section \<open>Instances\<close>

definition sampleSegment :: "u32 \<Rightarrow> u32 \<Rightarrow> sentTCPSegment" where
  "sampleSegment sequence stop =
     \<lparr>sg_sequence = sequence, sg_end = stop, sg_timestamp = 1, sg_state = sentTCPSegmentInitialState False False False False, sg_flags = 0,
      sg_firstSent = 0, sg_hostQueue = \<lparr>pt_token = 0, pt_queuedAt = 1\<rparr>, sg_congestionPacketState = 0,
      sg_delivery = \<lparr>ds_firstSent = 0, ds_deliveredStamp = 0, ds_deliveredFlags = 0\<rparr>, sg_transmissionOrder = 1\<rparr>"

definition sampleFlight :: "sentTCPSegment list" where
  "sampleFlight = [sampleSegment 1000 2000, sampleSegment 2000 3000]"

lemma sampleFlight_ok: "flightFrom 1000 0 2000 sampleFlight" "sackedOctets 1000 sampleFlight = {}" "length (filter sackSplit sampleFlight) = 0"
proof -
  have s: "sg_state (sampleSegment a b) = push_bit 8 1" for a b
    by (simp add: sampleSegment_def sentTCPSegmentInitialState_def sentTCPSegmentTransmitted_def)
  have n: "\<not> bit (push_bit 8 1 :: u16) 0" "\<not> bit (push_bit 8 1 :: u16) 5" by (simp_all add: bit_push_bit_iff)
  show "flightFrom 1000 0 2000 sampleFlight" by (simp add: sampleFlight_def sampleSegment_def off_def)
  show "sackedOctets 1000 sampleFlight = {}" "length (filter sackSplit sampleFlight) = 0"
    using n by (simp_all only: sampleFlight_def sackedOctets_Cons sackedOctets_Nil s segment_bits filter.simps) simp_all
qed

theorem scoreboard_partitions_flight_witness:
  "flightFrom 1000 0 2000 sampleFlight \<and>
   flightFrom 1000 0 2000 (fst (applyTCPSACK sampleFlight [\<lparr>LeftEdge = 2000, RightEdge = 2500\<rparr>] 0)) \<and>
   (\<exists>ys. splitTCPSegments sampleFlight 536 = Some ys \<and> flightFrom 1000 0 2000 ys)"
  using scoreboard_partitions_flight [OF sampleFlight_ok(1), of "[\<lparr>LeftEdge = 2000, RightEdge = 2500\<rparr>]" 0 536 noRACKSample 0 0] sampleFlight_ok(1)
  by (auto simp: blockIn_def)


theorem prr_window_bounds_witness:
  "unat (prrCongestionWindow 8000 10000 20000 1000 0 1000 True False 1000) \<le> 10000"
  using prr_window_bounds [of 8000 1000 20000 1000 10000 1000 _ 0 True False, OF _ _ _ _ _ refl]
  by (simp add: tcpMaximumScaledWindow_val)

end
