(* ===== verification/Tcp_Timer.thy ===== *)
theory Tcp_Timer
  imports Tcp_Recovery
begin

text \<open>
  The retransmission timer of \<^verbatim>\<open>src/tcp.go\<close>: the RFC 6298 estimator with its running minimum, the
  bounded exponential backoff and its reversal, the delayed Eifel response, the delays derived from the
  smoothed RTT, and the path MTU searches that the timer drives.
\<close>

section \<open>Constants\<close>

definition tcpInitialRTO :: duration where "tcpInitialRTO = second"
definition tcpMinimumRTO :: duration where "tcpMinimumRTO = 200 * millisecond"
definition tcpMaximumRTO :: duration where "tcpMaximumRTO = 120 * second"
definition tcpMinimumRTTWindow :: duration where "tcpMinimumRTTWindow = 300 * second"
definition tcpTailLossProbeACKDelay :: duration where "tcpTailLossProbeACKDelay = 200 * millisecond"
definition tcpMaximumCompressedSACKDelay :: duration where "tcpMaximumCompressedSACKDelay = millisecond"

lemmas rto_constants = tcpInitialRTO_def tcpMinimumRTO_def tcpMaximumRTO_def

section \<open>The estimator\<close>

record tcpMinimumRTTSample =
  ms_at :: int
  ms_value :: duration

record tcpMinimumRTTFilter =
  mf_0 :: tcpMinimumRTTSample
  mf_1 :: tcpMinimumRTTSample
  mf_2 :: tcpMinimumRTTSample
  mf_initialized :: bool

definition filterShift :: "tcpMinimumRTTFilter \<Rightarrow> tcpMinimumRTTSample \<Rightarrow> tcpMinimumRTTFilter" where
  "filterShift f candidate = f\<lparr>mf_0 := mf_1 f, mf_1 := mf_2 f, mf_2 := candidate\<rparr>"

definition filterObserve :: "tcpMinimumRTTFilter \<Rightarrow> int \<Rightarrow> duration \<Rightarrow> tcpMinimumRTTFilter \<times> duration" where
  "filterObserve f now v =
     (let candidate = \<lparr>ms_at = now, ms_value = v\<rparr>
      in if \<not> mf_initialized f \<or> v \<le> ms_value (mf_0 f) \<or> now - ms_at (mf_2 f) > tcpMinimumRTTWindow
         then (\<lparr>mf_0 = candidate, mf_1 = candidate, mf_2 = candidate, mf_initialized = True\<rparr>, v)
         else
           let f = (if v \<le> ms_value (mf_1 f) then f\<lparr>mf_1 := candidate, mf_2 := candidate\<rparr>
                    else if v \<le> ms_value (mf_2 f) then f\<lparr>mf_2 := candidate\<rparr>
                    else f);
               delta = now - ms_at (mf_0 f);
               f = (if delta > tcpMinimumRTTWindow then
                      let f = filterShift f candidate
                      in if now - ms_at (mf_0 f) > tcpMinimumRTTWindow then filterShift f candidate else f
                    else if ms_at (mf_1 f) = ms_at (mf_0 f) \<and> delta > tcpMinimumRTTWindow div 4
                    then f\<lparr>mf_1 := candidate, mf_2 := candidate\<rparr>
                    else if ms_at (mf_2 f) = ms_at (mf_1 f) \<and> delta > tcpMinimumRTTWindow div 2
                    then f\<lparr>mf_2 := candidate\<rparr>
                    else f)
           in (f, ms_value (mf_0 f)))"

record rttEstimator =
  rt_initialized :: bool
  rt_samples :: u64
  rt_minimum :: duration
  rt_minimums :: tcpMinimumRTTFilter
  rt_srtt :: duration
  rt_variation :: duration
  rt_baseRTO :: duration
  rt_rto :: duration
  rt_backoffs :: u8

definition newRTTEstimator :: "duration \<Rightarrow> rttEstimator" where
  "newRTTEstimator initial =
     (let zero = \<lparr>ms_at = 0, ms_value = 0\<rparr>
      in \<lparr>rt_initialized = False, rt_samples = 0, rt_minimum = 0,
          rt_minimums = \<lparr>mf_0 = zero, mf_1 = zero, mf_2 = zero, mf_initialized = False\<rparr>, rt_srtt = 0, rt_variation = 0,
          rt_baseRTO = initial, rt_rto = initial, rt_backoffs = 0\<rparr>)"

definition updateRTO :: "rttEstimator \<Rightarrow> rttEstimator" where
  "updateRTO r =
     (let base = rt_srtt r + 4 * rt_variation r;
          base = (if base < tcpMinimumRTO then tcpMinimumRTO else if base > tcpMaximumRTO then tcpMaximumRTO else base)
      in r\<lparr>rt_baseRTO := base, rt_rto := base, rt_backoffs := 0\<rparr>)"

definition normalizedRTTSample :: "duration \<Rightarrow> duration" where
  "normalizedRTTSample sample = (if sample > tcpMaximumRTO then tcpMaximumRTO else sample)"

definition observeAt :: "rttEstimator \<Rightarrow> duration \<Rightarrow> int \<Rightarrow> rttEstimator" where
  "observeAt r sample receivedAt =
     (if sample \<le> 0 then r
      else
        let r = r\<lparr>rt_samples := rt_samples r + 1\<rparr>;
            sample = normalizedRTTSample sample;
            (filter, minimum) = filterObserve (rt_minimums r) receivedAt sample;
            r = r\<lparr>rt_minimums := filter, rt_minimum := minimum\<rparr>;
            r = (if \<not> rt_initialized r then r\<lparr>rt_srtt := sample, rt_variation := sample div 2, rt_initialized := True\<rparr>
                 else
                   let difference = rt_srtt r - sample;
                       difference = (if difference < 0 then - difference else difference)
                   in r\<lparr>rt_variation := (3 * rt_variation r + difference) div 4, rt_srtt := (7 * rt_srtt r + sample) div 8\<rparr>)
        in updateRTO r)"

definition elapsedRTTSampleAt :: "int \<Rightarrow> int \<Rightarrow> duration" where
  "elapsedRTTSampleAt sentAt receivedAt =
     (if sentAt = 0 then 0
      else let sample = timeSub receivedAt sentAt in if sample < 1000 then 1000 else sample)"

fun backoffLoop :: "nat \<Rightarrow> duration \<Rightarrow> duration" where
  "backoffLoop 0 result = (if result > tcpMaximumRTO then tcpMaximumRTO else result)"
| "backoffLoop (Suc n) result = (if result \<ge> tcpMaximumRTO div 2 then tcpMaximumRTO else backoffLoop n (result * 2))"

definition backedOffRTO :: "duration \<Rightarrow> u8 \<Rightarrow> duration" where
  "backedOffRTO base backoffs = backoffLoop (unat backoffs) (if base \<le> 0 then tcpInitialRTO else base)"

definition backoff :: "rttEstimator \<Rightarrow> rttEstimator" where
  "backoff r =
     (let r = (if rt_baseRTO r \<le> 0 then r\<lparr>rt_baseRTO := (if rt_rto r \<le> 0 then tcpInitialRTO else rt_rto r)\<rparr> else r);
          r = (if rt_backoffs r \<noteq> NOT 0 then r\<lparr>rt_backoffs := rt_backoffs r + 1\<rparr> else r)
      in r\<lparr>rt_rto := backedOffRTO (rt_baseRTO r) (rt_backoffs r)\<rparr>)"

definition revertBackoff :: "rttEstimator \<Rightarrow> rttEstimator \<times> bool" where
  "revertBackoff r =
     (if rt_backoffs r = 0 then (r, False)
      else let r = r\<lparr>rt_backoffs := rt_backoffs r - 1\<rparr> in (r\<lparr>rt_rto := backedOffRTO (rt_baseRTO r) (rt_backoffs r)\<rparr>, True))"

section \<open>The Eifel response\<close>

definition tcpEifelClockGranularity :: duration where "tcpEifelClockGranularity = millisecond"

record tcpEifelRTOResponse =
  ef_point :: u32
  ef_previousSRTT :: duration
  ef_previousRTTVar :: duration
  ef_pending :: bool

definition eifelRTOResponse :: "tcpRecoveryUndo \<Rightarrow> tcpEifelRTOResponse" where
  "eifelRTOResponse u =
     (if \<not> un_timeout u then \<lparr>ef_point = 0, ef_previousSRTT = 0, ef_previousRTTVar = 0, ef_pending = False\<rparr>
      else \<lparr>ef_point = un_point u, ef_previousSRTT = un_priorSRTT u + 2 * tcpEifelClockGranularity,
            ef_previousRTTVar = un_priorRTTVar u, ef_pending = True\<rparr>)"

definition eifelObserve :: "tcpEifelRTOResponse \<Rightarrow> u32 \<Rightarrow> duration \<Rightarrow> rttEstimator \<Rightarrow> tcpEifelRTOResponse \<times> rttEstimator \<times> bool" where
  "eifelObserve e acknowledgement sample r =
     (if \<not> ef_pending e \<or> sample \<le> 0 \<or> \<not> tcpSequenceGreater acknowledgement (ef_point e) then (e, r, False)
      else
        let sample = normalizedRTTSample sample;
            r = r\<lparr>rt_srtt := (if ef_previousSRTT e < sample then sample else ef_previousSRTT e)\<rparr>;
            half = sample div 2;
            r = r\<lparr>rt_variation := (if ef_previousRTTVar e < half then half else ef_previousRTTVar e), rt_initialized := True\<rparr>
        in (e\<lparr>ef_pending := False\<rparr>, updateRTO r, True))"

section \<open>Delays\<close>

definition tailLossProbeDelay :: "duration \<Rightarrow> duration \<Rightarrow> bool \<Rightarrow> duration" where
  "tailLossProbeDelay smoothedRTT rto singleSegment =
     (let delay = 2 * smoothedRTT;
          delay = (if smoothedRTT = 0 then rto else if singleSegment then delay + tcpTailLossProbeACKDelay else delay);
          delay = (if delay < 10 * millisecond then 10 * millisecond else delay)
      in if delay > rto then rto else delay)"

definition tcpSACKRenegingDelay :: "duration \<Rightarrow> duration" where
  "tcpSACKRenegingDelay smoothedRTT =
     (let delay = smoothedRTT div 2 in if delay < 10 * millisecond then 10 * millisecond else delay)"

definition tcpCompressedSACKDelay :: "duration \<Rightarrow> duration" where
  "tcpCompressedSACKDelay smoothedRTT =
     (if smoothedRTT \<le> 0 then tcpMaximumCompressedSACKDelay
      else
        let delay = smoothedRTT div 100 * 33 + smoothedRTT mod 100 * 33 div 100
        in if delay > tcpMaximumCompressedSACKDelay then tcpMaximumCompressedSACKDelay else delay)"

section \<open>Path MTU\<close>

definition ipv6MinimumMTU :: int where "ipv6MinimumMTU = 1280"

definition nextBlackHoleMTU :: "int \<Rightarrow> bool \<Rightarrow> int" where
  "nextBlackHoleMTU current ipv6 =
     (if ipv6 then (if current > ipv6MinimumMTU then ipv6MinimumMTU else current)
      else case find (\<lambda>candidate. candidate < current) [1500, 1280, 1006, 576, 508, 296, 68] of
          Some candidate \<Rightarrow> candidate
        | None \<Rightarrow> current)"

text \<open>Each round takes a smaller plateau, so the loop ends.\<close>

lemma nextBlackHoleMTU_pos: "nextBlackHoleMTU current ipv6 < current \<Longrightarrow> 0 < nextBlackHoleMTU current ipv6"
  by (auto simp: nextBlackHoleMTU_def ipv6MinimumMTU_def split: if_splits)

function blackHoleProbe :: "int \<Rightarrow> bool \<Rightarrow> int \<Rightarrow> bool \<Rightarrow> int \<Rightarrow> int" where
  "blackHoleProbe current ipv6 payloadSize timestamp probe =
     (let next = nextBlackHoleMTU probe ipv6
      in if next \<ge> probe then current
         else
           let maximumPayload = tcpMSSForMTU next (if ipv6 then Addr6 0 [] else Addr4 0);
               maximumPayload = (if timestamp then maximumPayload - 12 else maximumPayload)
           in if payloadSize > maximumPayload then next
              else blackHoleProbe current ipv6 payloadSize timestamp next)"
  by pat_completeness auto
termination blackHoleProbe
proof (relation "measure (\<lambda>(current, ipv6, payloadSize, timestamp, probe). nat probe)")
  fix current payloadSize probe x :: int and ipv6 timestamp
  assume "x = nextBlackHoleMTU probe ipv6" "\<not> x \<ge> probe"
  then show "((current, ipv6, payloadSize, timestamp, x), current, ipv6, payloadSize, timestamp, probe)
      \<in> measure (\<lambda>(current, ipv6, payloadSize, timestamp, probe). nat probe)"
    using nextBlackHoleMTU_pos [of probe ipv6] by simp
qed simp

declare blackHoleProbe.simps [simp del]

definition nextBlackHoleProbeMTU :: "int \<Rightarrow> bool \<Rightarrow> int \<Rightarrow> bool \<Rightarrow> int" where
  "nextBlackHoleProbeMTU current ipv6 payloadSize timestamp = blackHoleProbe current ipv6 payloadSize timestamp current"

definition tcpPLPMTUProbeThreshold :: int where "tcpPLPMTUProbeThreshold = 8"
definition tcpPLPMTUProbeMinimumInterval :: duration where "tcpPLPMTUProbeMinimumInterval = second"

record tcpPLPMTU =
  pl_searchLow :: int
  pl_searchHigh :: int
  pl_probeMTU :: int
  pl_probeStart :: u32
  pl_probeEnd :: u32
  pl_nextProbe :: int
  pl_searching :: bool
  pl_active :: bool

definition noPLPMTU :: tcpPLPMTU where
  "noPLPMTU = \<lparr>pl_searchLow = 0, pl_searchHigh = 0, pl_probeMTU = 0, pl_probeStart = 0, pl_probeEnd = 0, pl_nextProbe = 0,
     pl_searching = False, pl_active = False\<rparr>"

definition plpmtuStart :: "int \<Rightarrow> int \<Rightarrow> int \<Rightarrow> tcpPLPMTU" where
  "plpmtuStart base maximum now =
     (if maximum - base < tcpPLPMTUProbeThreshold then noPLPMTU
      else noPLPMTU\<lparr>pl_searchLow := base, pl_searchHigh := maximum, pl_nextProbe := now, pl_searching := True\<rparr>)"

definition plpmtuCandidate :: "tcpPLPMTU \<Rightarrow> int \<Rightarrow> int option" where
  "plpmtuCandidate p now =
     (if \<not> pl_searching p \<or> pl_active p \<or> now < pl_nextProbe p \<or> pl_searchHigh p - pl_searchLow p < tcpPLPMTUProbeThreshold then None
      else Some (pl_searchLow p + (pl_searchHigh p - pl_searchLow p + 1) div 2))"

definition plpmtuSent :: "tcpPLPMTU \<Rightarrow> int \<Rightarrow> u32 \<Rightarrow> u32 \<Rightarrow> tcpPLPMTU" where
  "plpmtuSent p mtu start stop = p\<lparr>pl_probeMTU := mtu, pl_probeStart := start, pl_probeEnd := stop, pl_active := True\<rparr>"

definition plpmtuSuccess :: "tcpPLPMTU \<Rightarrow> int \<Rightarrow> tcpPLPMTU \<times> int" where
  "plpmtuSuccess p now =
     (let mtu = pl_probeMTU p;
          p = p\<lparr>pl_searchLow := mtu, pl_active := False, pl_probeMTU := 0, pl_nextProbe := now\<rparr>
      in (if pl_searchHigh p - pl_searchLow p < tcpPLPMTUProbeThreshold then p\<lparr>pl_searching := False\<rparr> else p, mtu))"

definition plpmtuFailed :: "tcpPLPMTU \<Rightarrow> int \<Rightarrow> duration \<Rightarrow> tcpPLPMTU" where
  "plpmtuFailed p now headway =
     (let p = (if pl_probeMTU p > 0 \<and> pl_probeMTU p - 1 < pl_searchHigh p then p\<lparr>pl_searchHigh := pl_probeMTU p - 1\<rparr> else p);
          headway = (if headway < tcpPLPMTUProbeMinimumInterval then tcpPLPMTUProbeMinimumInterval else headway);
          p = p\<lparr>pl_active := False, pl_probeMTU := 0, pl_nextProbe := now + headway\<rparr>
      in if pl_searchHigh p - pl_searchLow p < tcpPLPMTUProbeThreshold then p\<lparr>pl_searching := False\<rparr> else p)"

definition plpmtuInconclusive :: "tcpPLPMTU \<Rightarrow> int \<Rightarrow> duration \<Rightarrow> tcpPLPMTU" where
  "plpmtuInconclusive p now delay =
     (let delay = (if delay < tcpPLPMTUProbeMinimumInterval then tcpPLPMTUProbeMinimumInterval else delay)
      in p\<lparr>pl_active := False, pl_probeMTU := 0, pl_nextProbe := now + delay\<rparr>)"

definition maximumDuration :: duration where "maximumDuration = 2 ^ 63 - 1"

definition tcpPLPMTUProbeHeadway :: "u32 \<Rightarrow> int \<Rightarrow> duration \<Rightarrow> duration" where
  "tcpPLPMTUProbeHeadway window mss roundTrip =
     (let mss = (if mss < 1 then 1 else mss);
          roundTrip = (if roundTrip \<le> 0 then tcpInitialRTO else roundTrip);
          packets = (uint window + mss - 1) div mss;
          packets = (if packets = 0 then 1 else packets)
      in if packets > maximumDuration div roundTrip then maximumDuration
         else
           let headway = packets * roundTrip
           in if headway < tcpPLPMTUProbeMinimumInterval then tcpPLPMTUProbeMinimumInterval else headway)"

definition tcpPLPMTUTimeoutDelay :: "duration \<Rightarrow> duration" where
  "tcpPLPMTUTimeoutDelay headway = (if headway > maximumDuration div 5 then maximumDuration else 5 * headway)"

definition tcpCongestionValueForMSS :: "u32 \<Rightarrow> int \<Rightarrow> int \<Rightarrow> bool \<Rightarrow> u32" where
  "tcpCongestionValueForMSS v oldMSS newMSS floor =
     (if v = 0 \<or> oldMSS < 1 \<or> newMSS < 1 \<or> newMSS \<ge> oldMSS then v
      else
        let v = ucast ((ucast v * of_int newMSS :: u64) div of_int oldMSS)
        in if floor \<and> v < of_int newMSS then of_int newMSS else v)"

definition pathMTULifetime :: duration where "pathMTULifetime = 600 * second"

definition plpmtuReduce :: "int \<Rightarrow> int \<Rightarrow> int \<Rightarrow> int \<Rightarrow> tcpPLPMTU" where
  "plpmtuReduce mtu prior maximum now =
     (let high = (if prior > mtu \<and> prior - 1 < maximum then prior - 1 else maximum)
      in plpmtuStart mtu high (now + pathMTULifetime))"

section \<open>The retransmission timeout\<close>

lemma backoffLoop_eq: "0 < result \<Longrightarrow> backoffLoop n result = min tcpMaximumRTO (result * 2 ^ n)"
proof (induction n arbitrary: result)
  case (Suc n)
  show ?case
  proof (cases "result \<ge> tcpMaximumRTO div 2")
    case True
    have "tcpMaximumRTO \<le> result * 2" using True by (simp add: rto_constants)
    also have "\<dots> \<le> result * 2 * 2 ^ n" using Suc.prems by simp
    finally show ?thesis using True by (simp add: mult.assoc)
  next
    case False
    then show ?thesis using Suc.IH [of "result * 2"] Suc.prems by (simp add: mult.assoc)
  qed
qed simp

lemma backedOffRTO_eq: "0 < base \<Longrightarrow> backedOffRTO base n = min tcpMaximumRTO (base * 2 ^ unat n)"
  by (simp add: backedOffRTO_def backoffLoop_eq)

text \<open>The running minimum keeps its three samples in order, and never exceeds the newest sample.\<close>

definition filter_ok :: "tcpMinimumRTTFilter \<Rightarrow> bool" where
  "filter_ok f \<longleftrightarrow> mf_initialized f \<longrightarrow> 0 < ms_value (mf_0 f) \<and> ms_value (mf_0 f) \<le> ms_value (mf_1 f) \<and> ms_value (mf_1 f) \<le> ms_value (mf_2 f)"

lemma filterObserve_ok:
  assumes "filter_ok f" "0 < v" "filterObserve f now v = (g, m)"
  shows "filter_ok g" "0 < m" "m \<le> v"
proof -
  have "filter_ok g \<and> 0 < m \<and> m \<le> v"
  proof (cases "\<not> mf_initialized f \<or> v \<le> ms_value (mf_0 f) \<or> now - ms_at (mf_2 f) > tcpMinimumRTTWindow")
    case True
    then show ?thesis using assms(2,3) unfolding filterObserve_def Let_def if_P [OF True] by (auto simp: filter_ok_def)
  next
    case False
    let ?c = "\<lparr>ms_at = now, ms_value = v\<rparr>"
    define h where "h = (if v \<le> ms_value (mf_1 f) then f\<lparr>mf_1 := ?c, mf_2 := ?c\<rparr> else if v \<le> ms_value (mf_2 f) then f\<lparr>mf_2 := ?c\<rparr> else f)"
    have h: "0 < ms_value (mf_0 h)" "ms_value (mf_0 h) \<le> ms_value (mf_1 h)" "ms_value (mf_1 h) \<le> ms_value (mf_2 h)" "ms_value (mf_2 h) \<le> v"
      using False assms(1) by (auto simp: h_def filter_ok_def)
    have "filterObserve f now v =
      (let delta = now - ms_at (mf_0 h);
           f = (if delta > tcpMinimumRTTWindow then
                  let f = filterShift h ?c in if now - ms_at (mf_0 f) > tcpMinimumRTTWindow then filterShift f ?c else f
                else if ms_at (mf_1 h) = ms_at (mf_0 h) \<and> delta > tcpMinimumRTTWindow div 4 then h\<lparr>mf_1 := ?c, mf_2 := ?c\<rparr>
                else if ms_at (mf_2 h) = ms_at (mf_1 h) \<and> delta > tcpMinimumRTTWindow div 2 then h\<lparr>mf_2 := ?c\<rparr>
                else h)
       in (f, ms_value (mf_0 f)))"
      unfolding filterObserve_def if_not_P [OF False] h_def Let_def by (rule refl)
    then show ?thesis using assms(3) h by (auto simp: Let_def filterShift_def filter_ok_def split: if_splits)
  qed
  then show "filter_ok g" "0 < m" "m \<le> v" by auto
qed

text \<open>What holds of an estimator at every moment.\<close>

definition rtt_ok :: "rttEstimator \<Rightarrow> bool" where
  "rtt_ok r \<longleftrightarrow>
     tcpMinimumRTO \<le> rt_baseRTO r \<and> rt_baseRTO r \<le> tcpMaximumRTO \<and>
     rt_rto r = min tcpMaximumRTO (rt_baseRTO r * 2 ^ unat (rt_backoffs r)) \<and>
     0 \<le> rt_srtt r \<and> rt_srtt r \<le> tcpMaximumRTO \<and> 0 \<le> rt_variation r \<and> rt_variation r \<le> tcpMaximumRTO \<and> filter_ok (rt_minimums r)"

lemma rtt_ok_new: "tcpMinimumRTO \<le> initial \<Longrightarrow> initial \<le> tcpMaximumRTO \<Longrightarrow> rtt_ok (newRTTEstimator initial)"
  by (simp add: rtt_ok_def newRTTEstimator_def Let_def filter_ok_def rto_constants)

lemma updateRTO_ok:
  assumes "0 \<le> rt_srtt r" "rt_srtt r \<le> tcpMaximumRTO" "0 \<le> rt_variation r" "rt_variation r \<le> tcpMaximumRTO" "filter_ok (rt_minimums r)"
  shows "rtt_ok (updateRTO r)"
  using assms by (auto simp: rtt_ok_def updateRTO_def Let_def rto_constants)

lemma rtt_ok_observe:
  assumes "rtt_ok r" shows "rtt_ok (observeAt r sample at)"
proof (cases "sample \<le> 0")
  case True
  then show ?thesis using assms by (simp add: observeAt_def)
next
  case False
  define v where "v = normalizedRTTSample sample"
  have v: "0 < v" "v \<le> tcpMaximumRTO" using False by (auto simp: v_def normalizedRTTSample_def rto_constants)
  obtain f m where f: "filterObserve (rt_minimums r) at v = (f, m)" by fastforce
  have fo: "filter_ok f" using filterObserve_ok [OF _ v(1) f] assms by (simp add: rtt_ok_def)
  have s: "0 \<le> rt_srtt r" "rt_srtt r \<le> tcpMaximumRTO" "0 \<le> rt_variation r" "rt_variation r \<le> tcpMaximumRTO"
    using assms by (auto simp: rtt_ok_def)
  have d: "0 \<le> (if rt_srtt r - v < 0 then - (rt_srtt r - v) else rt_srtt r - v)"
    "(if rt_srtt r - v < 0 then - (rt_srtt r - v) else rt_srtt r - v) \<le> tcpMaximumRTO"
    using s v by auto
  show ?thesis
    unfolding observeAt_def if_not_P [OF False] Let_def v_def [symmetric]
    using False s v d fo by (auto simp: f intro!: updateRTO_ok)
qed

lemma rtt_ok_backoff:
  assumes "rtt_ok r" shows "rtt_ok (backoff r)"
proof -
  have b: "0 < rt_baseRTO r" using assms by (auto simp: rtt_ok_def rto_constants)
  then show ?thesis using assms backedOffRTO_eq [OF b] by (auto simp: rtt_ok_def backoff_def Let_def)
qed

lemma rtt_ok_revert:
  assumes "rtt_ok r" shows "rtt_ok (fst (revertBackoff r))"
proof -
  have b: "0 < rt_baseRTO r" using assms by (auto simp: rtt_ok_def rto_constants)
  then show ?thesis using assms backedOffRTO_eq [OF b] by (auto simp: rtt_ok_def revertBackoff_def Let_def)
qed

text \<open>The estimators a connection can have: samples, timeouts and their reversal in any order.\<close>

inductive rtt_reach :: "rttEstimator \<Rightarrow> bool" where
  new: "tcpMinimumRTO \<le> initial \<Longrightarrow> initial \<le> tcpMaximumRTO \<Longrightarrow> rtt_reach (newRTTEstimator initial)"
| sample: "rtt_reach r \<Longrightarrow> rtt_reach (observeAt r sample at)"
| timeout: "rtt_reach r \<Longrightarrow> rtt_reach (backoff r)"
| revert: "rtt_reach r \<Longrightarrow> rtt_reach (fst (revertBackoff r))"

lemma rtt_reach_ok: "rtt_reach r \<Longrightarrow> rtt_ok r"
  by (induction rule: rtt_reach.induct) (auto intro: rtt_ok_new rtt_ok_observe rtt_ok_backoff rtt_ok_revert)



end
