(* ===== verification/Sip_Hash.thy ===== *)
theory Sip_Hash
  imports Prelude
begin

text \<open>
  SipHash-2-4 as in \<^verbatim>\<open>src/siphash.go\<close>, and a reference definition that works on the padded message
  as a list of 64-bit words. The routine of the source consumes the message eight bytes at a time
  and builds the last word separately; the two agree on every input.
\<close>

section \<open>The routine\<close>

type_synonym sipState = "u64 \<times> u64 \<times> u64 \<times> u64"

definition sipHashRound :: "sipState \<Rightarrow> sipState" where
  "sipHashRound = (\<lambda>(v0, v1, v2, v3).
     let v0 = v0 + v1;
         v1 = word_rotl 13 v1;
         v1 = v1 XOR v0;
         v0 = word_rotl 32 v0;
         v2 = v2 + v3;
         v3 = word_rotl 16 v3;
         v3 = v3 XOR v2;
         v0 = v0 + v3;
         v3 = word_rotl 21 v3;
         v3 = v3 XOR v0;
         v2 = v2 + v1;
         v1 = word_rotl 17 v1;
         v1 = v1 XOR v2;
         v2 = word_rotl 32 v2
     in (v0, v1, v2, v3))"

definition sipAbsorb :: "u64 \<Rightarrow> sipState \<Rightarrow> sipState" where
  "sipAbsorb word = (\<lambda>(v0, v1, v2, v3).
     let (v0, v1, v2, v3) = sipHashRound (sipHashRound (v0, v1, v2, v3 XOR word))
     in (v0 XOR word, v1, v2, v3))"

text \<open>The loop over whole words; the result has the bytes that remain.\<close>

function sipWords :: "bytes \<Rightarrow> sipState \<Rightarrow> sipState \<times> bytes" where
  "sipWords message v =
     (if length message \<ge> 8 then sipWords (drop 8 message) (sipAbsorb (le_get64 message) v) else (v, message))"
  by pat_completeness auto
termination
  by (relation "measure (\<lambda>(message, v). length message)") auto

declare sipWords.simps [simp del]

definition sipInit :: "bytes \<Rightarrow> sipState" where
  "sipInit key =
     (let k0 = le_get64 (take 8 key); k1 = le_get64 (drop 8 key)
      in (0x736f6d6570736575 XOR k0, 0x646f72616e646f6d XOR k1,
          0x6c7967656e657261 XOR k0, 0x7465646279746573 XOR k1))"

definition sipFinish :: "sipState \<Rightarrow> u64" where
  "sipFinish = (\<lambda>(v0, v1, v2, v3).
     let (v0, v1, v2, v3) = (sipHashRound ^^ 4) (v0, v1, v2 XOR 0xff, v3)
     in v0 XOR v1 XOR v2 XOR v3)"

definition sipHash24 :: "bytes \<Rightarrow> bytes \<Rightarrow> u64" where
  "sipHash24 key message =
     (let (v, rest) = sipWords message (sipInit key);
          latest = push_bit 56 (of_nat (length message)) OR le_join 0 rest
      in sipFinish (sipAbsorb latest v))"

section \<open>Reference\<close>

text \<open>
  The message is padded with zero bytes and closed with its length modulo 256 so that it splits into
  64-bit words, each of which is absorbed.
\<close>

definition sipPad :: "bytes \<Rightarrow> bytes" where
  "sipPad m = m @ replicate (7 - length m mod 8) 0 @ [of_nat (length m)]"

fun wordsOf :: "bytes \<Rightarrow> u64 list" where
  "wordsOf (a # b # c # d # e # f # g # h # rest) = le_get64 [a, b, c, d, e, f, g, h] # wordsOf rest"
| "wordsOf _ = []"

text \<open>
  The compression round in the order of its published description, in which the two halves run in
  parallel, and the initial state as the octets of the string "somepseudorandomlygeneratedbytes".
\<close>

definition sipRound_ref :: "sipState \<Rightarrow> sipState" where
  "sipRound_ref = (\<lambda>(v0, v1, v2, v3).
     let (v0, v2) = (v0 + v1, v2 + v3);
         (v1, v3) = (word_rotl 13 v1, word_rotl 16 v3);
         (v1, v3) = (v1 XOR v0, v3 XOR v2);
         v0 = word_rotl 32 v0;
         (v2, v0) = (v2 + v1, v0 + v3);
         (v1, v3) = (word_rotl 17 v1, word_rotl 21 v3);
         (v1, v3) = (v1 XOR v2, v3 XOR v0);
         v2 = word_rotl 32 v2
     in (v0, v1, v2, v3))"

definition sipSeed :: bytes where
  "sipSeed = map of_char ''somepseudorandomlygeneratedbytes''"

definition sipAbsorb_ref :: "u64 \<Rightarrow> sipState \<Rightarrow> sipState" where
  "sipAbsorb_ref w = (\<lambda>(v0, v1, v2, v3).
     let (v0, v1, v2, v3) = (sipRound_ref ^^ 2) (v0, v1, v2, v3 XOR w) in (v0 XOR w, v1, v2, v3))"

definition sipHash_ref :: "bytes \<Rightarrow> bytes \<Rightarrow> u64" where
  "sipHash_ref key m =
     (let k = wordsOf key;
          s = wordsOf (concat (map (\<lambda>i. rev (take 8 (drop (8 * i) sipSeed))) [0..<4]));
          (v0, v1, v2, v3) = fold sipAbsorb_ref (wordsOf (sipPad m)) 
            (s ! 0 XOR k ! 0, s ! 1 XOR k ! 1, s ! 2 XOR k ! 0, s ! 3 XOR k ! 1);
          (v0, v1, v2, v3) = (sipRound_ref ^^ 4) (v0, v1, v2 XOR 0xff, v3)
      in v0 XOR v1 XOR v2 XOR v3)"

lemma wordsOf_step: "8 \<le> length m \<Longrightarrow> wordsOf m = le_get64 m # wordsOf (drop 8 m)"
  by (cases m rule: wordsOf.cases) (auto simp: le_get64_def)

lemma wordsOf_short: "length m < 8 \<Longrightarrow> wordsOf m = []"
  by (cases m rule: wordsOf.cases) auto

lemma push_56_len: "push_bit 56 (ucast (of_nat n :: u8)) = (push_bit 56 (of_nat n) :: u64)"
  by (rule bit_word_eqI) (auto simp: bit_simps)

lemma last_word:
  assumes "length rest < 8"
  shows "le_get64 (rest @ replicate (7 - length rest) 0 @ [of_nat n]) = push_bit 56 (of_nat n) OR le_join 0 rest"
  using assms by (simp add: le_get64_def le_join_append le_join_zero push_56_len or.commute)

lemma sipWords_ref:
  "length m mod 8 = n mod 8 \<Longrightarrow>
   (let (v', rest) = sipWords m v in sipAbsorb (push_bit 56 (of_nat n) OR le_join 0 rest) v') =
   fold sipAbsorb (wordsOf (m @ replicate (7 - length m mod 8) 0 @ [of_nat n])) v"
proof (induction m v rule: sipWords.induct)
  case (1 m v)
  show ?case
  proof (cases "8 \<le> length m")
    case True
    let ?pad = "replicate (7 - length m mod 8) 0 @ [of_nat n]"
    have len: "length (drop 8 m) mod 8 = length m mod 8"
      using le_mod_geq [OF True] by simp
    have "wordsOf (m @ ?pad) = le_get64 m # wordsOf (drop 8 m @ ?pad)"
      using True wordsOf_step [of "m @ ?pad"] by (simp add: le_get64_def)
    then show ?thesis using 1 True len
      by (subst sipWords.simps) simp
  next
    case False
    let ?p = "m @ replicate (7 - length m) 0 @ [of_nat n]"
    have "length ?p = 8" using False by simp
    then have "wordsOf ?p = [le_get64 ?p]" by (simp add: wordsOf_step wordsOf_short)
    then show ?thesis using False last_word [of m n]
      by (subst sipWords.simps) simp
  qed
qed

lemma sipRound_ref_eq: "sipRound_ref = sipHashRound"
  by (rule ext) (auto simp: sipRound_ref_def sipHashRound_def Let_def)

lemma sipAbsorb_ref_eq: "sipAbsorb_ref = sipAbsorb"
  by (intro ext) (auto simp: sipAbsorb_ref_def sipAbsorb_def sipRound_ref_eq numeral_2_eq_2)

lemma sipSeed_words:
  "wordsOf (concat (map (\<lambda>i. rev (take 8 (drop (8 * i) sipSeed))) [0..<4])) =
   [0x736f6d6570736575, 0x646f72616e646f6d, 0x6c7967656e657261, 0x7465646279746573]"
  by code_simp

lemma wordsOf_key: "length key = 16 \<Longrightarrow> wordsOf key = [le_get64 (take 8 key), le_get64 (drop 8 key)]"
  by (simp add: wordsOf_step wordsOf_short le_get64_def)

lemma sipHash24_fold: "sipHash24 key m = sipFinish (fold sipAbsorb (wordsOf (sipPad m)) (sipInit key))"
  using sipWords_ref [of m "length m" "sipInit key"]
  by (simp add: sipHash24_def sipPad_def split_def Let_def)

lemma sipHash_ref_fold:
  assumes "length key = 16"
  shows "sipHash_ref key m = sipFinish (fold sipAbsorb (wordsOf (sipPad m)) (sipInit key))"
  unfolding sipHash_ref_def sipSeed_words sipAbsorb_ref_eq wordsOf_key [OF assms] sipFinish_def sipInit_def
    sipRound_ref_eq
  by (simp add: Let_def)

text \<open>
  C27: for every 16-byte key and every message, the incremental SipHash-2-4 of the source, which
  consumes the message eight bytes at a time and builds the last word separately, equals the
  published definition: the padded message split into words, each absorbed by two rounds written
  in their published order, with the published initial state and finalisation.
\<close>

theorem sipHash24_reference:
  assumes "length key = 16"
  shows "sipHash24 key message = sipHash_ref key message"
  by (simp add: sipHash24_fold sipHash_ref_fold assms)

theorem sipHash24_reference_witness:
  "length (replicate 16 (7 :: u8)) = 16 \<and>
   sipHash24 (replicate 16 7) [1, 2, 3] = sipHash_ref (replicate 16 7) [1, 2, 3]"
  using sipHash24_reference [of "replicate 16 7" "[1, 2, 3]"] by simp

end
