(* ===== verification/Socket_Defaults.thy ===== *)
theory Socket_Defaults
  imports Prelude
begin

text \<open>
  The socket defaults of a configuration (\<^verbatim>\<open>src/stack.go\<close>), which the stack's snapshot keeps and which
  listeners and connections inherit.
\<close>

record keepAliveConfig =
  ka_idle :: duration
  ka_interval :: duration
  ka_count :: int

text \<open>A congestion-control factory is known here by its identity only.\<close>

record tcpSocketDefaults =
  td_congestionControl :: string
  td_congestionFactory :: "nat option"
  td_receiveBuffer :: int
  td_maximumReceiveBuffer :: int
  td_sendBuffer :: int
  td_maximumSendBuffer :: int
  td_maximumPacingRate :: u64
  td_acceptQueue :: int
  td_synBacklog :: int
  td_keepAlive :: bool
  td_keepAliveConfig :: keepAliveConfig
  td_idleTimeout :: duration
  td_userTimeout :: duration
  td_disableNoDelay :: bool
  td_trafficClass :: u8
  td_flowLabel :: u32

record datagramSocketDefaults =
  dd_receiveBuffer :: int
  dd_receiveErrors :: bool
  dd_pathMTUDiscovery :: int
  dd_hopLimit :: int
  dd_multicastHopLimit :: int
  dd_disableMulticastLoopback :: bool
  dd_disableBroadcast :: bool
  dd_trafficClass :: u8
  dd_flowLabel :: u32

record ipSocketDefaults =
  id_datagram :: datagramSocketDefaults
  id_headerOnWrite :: bool
  id_headerOnRead :: bool

end
