(* ===== verification/Syn_Cookie.thy ===== *)
theory Syn_Cookie
  imports Tcp_Options Sip_Hash Socket_Defaults
begin

text \<open>
  SYN cookies: \<^verbatim>\<open>src/syn_cookie.go\<close> and the per-listener receive scales of \<^verbatim>\<open>src/tcp.go\<close>
  (\<open>recordSYNCookieScale\<close>, \<open>lookupSYNCookieScale\<close>). A listener whose backlog is full answers a SYN
  without keeping state: the offered options are packed into the low eight bits of its initial
  sequence number, and the upper 24 bits authenticate the connection, the client's sequence number,
  the period and the options with SipHash.

  A \<open>time.Time\<close> is its monotonic reading in nanoseconds, and \<open>Sub\<close> saturates at the range of
  \<open>time.Duration\<close>. The bytes of \<open>rand.Read\<close> are an argument (\<open>None\<close> is its error), as are the MTU
  towards the peer and the timestamp clock. The state that the source protects by \<open>cookieMu\<close> and by
  the listener's mutex is passed explicitly. \<open>sendSYNCookie\<close> returns the arguments of its call of
  \<open>tryWriteTCPControl\<close>, whose own result belongs to the device's output queue.
\<close>

section \<open>Socket options\<close>

text \<open>\<open>socketOptionOverride\<close> and \<open>socketOptionBoolOverride\<close> are options: unset is \<open>None\<close>.\<close>

record tcpSocketOptionSet =
  to_readBuffer :: "int option"
  to_writeBuffer :: "int option"
  to_keepAlive :: "bool option"
  to_keepAliveConfig :: "keepAliveConfig option"
  to_noDelay :: "bool option"
  to_idleTimeout :: "duration option"
  to_userTimeout :: "duration option"
  to_congestionControl :: "nat option option"
  to_maximumPacingRate :: "u64 option"
  to_trafficClass :: "int option"
  to_flowLabel :: "u32 option"
  to_acceptQueue :: "int option"
  to_synBacklog :: "int option"

definition override :: "'v option \<Rightarrow> 'v \<Rightarrow> 'v" where
  "override opt value = (case opt of None \<Rightarrow> value | Some v \<Rightarrow> v)"

definition applyTCPSocketOptions :: "tcpSocketDefaults \<Rightarrow> tcpSocketOptionSet \<Rightarrow> tcpSocketDefaults" where
  "applyTCPSocketOptions d opts = d\<lparr>
     td_receiveBuffer := override (to_readBuffer opts) (td_receiveBuffer d),
     td_maximumReceiveBuffer := override (to_readBuffer opts) (td_maximumReceiveBuffer d),
     td_sendBuffer := override (to_writeBuffer opts) (td_sendBuffer d),
     td_maximumSendBuffer := override (to_writeBuffer opts) (td_maximumSendBuffer d),
     td_keepAlive := override (to_keepAlive opts) (td_keepAlive d),
     td_keepAliveConfig := override (to_keepAliveConfig opts) (td_keepAliveConfig d),
     td_disableNoDelay := (case to_noDelay opts of None \<Rightarrow> td_disableNoDelay d | Some v \<Rightarrow> \<not> v),
     td_idleTimeout := override (to_idleTimeout opts) (td_idleTimeout d),
     td_userTimeout := override (to_userTimeout opts) (td_userTimeout d),
     td_congestionFactory := override (to_congestionControl opts) (td_congestionFactory d),
     td_maximumPacingRate := override (to_maximumPacingRate opts) (td_maximumPacingRate d),
     td_trafficClass := (case to_trafficClass opts of None \<Rightarrow> td_trafficClass d
                         | Some v \<Rightarrow> of_int v AND 0xfc),
     td_flowLabel := override (to_flowLabel opts) (td_flowLabel d)\<rparr>"

section \<open>State\<close>

definition synCookiePeriod :: duration where "synCookiePeriod = 64 * 1000000000"
definition synCookieDataBits :: nat where "synCookieDataBits = 8"
definition synCookieDataMask :: u32 where "synCookieDataMask = push_bit synCookieDataBits 1 - 1"

definition synCookieMSSValues :: "int list" where
  "synCookieMSSValues = [tcpMinimumPeerMSS, 256, 536, 1200, 1220, 1360, 1440, 8960]"

record synCookieOptions =
  ck_mss :: int
  ck_windowScale :: u8
  ck_localWindowScale :: u8
  ck_windowScaling :: bool
  ck_sack :: bool
  ck_timestamp :: bool
  ck_ecn :: bool
  ck_timestampNow :: u32

definition synCookieOptions_zero :: synCookieOptions where
  "synCookieOptions_zero = \<lparr>ck_mss = 0, ck_windowScale = 0, ck_localWindowScale = 0, ck_windowScaling = False,
     ck_sack = False, ck_timestamp = False, ck_ecn = False, ck_timestampNow = 0\<rparr>"

text \<open>The cookie fields of \<open>tcpPassiveState\<close>.\<close>

record tcpPassiveState =
  ps_cookieKey :: bytes
  ps_cookieSet :: bool
  ps_cookieEpoch :: int
  ps_cookiePeriod :: u64
  ps_cookieActive :: bool

text \<open>The fields of \<open>TCPListener\<close> that cookies use.\<close>

record tcpListener =
  ln_options :: tcpSocketOptionSet
  ln_closed :: bool
  ln_cookieWindowScale :: u8
  ln_previousWindowScale :: u8
  ln_cookieScaleSet :: bool
  ln_previousScaleSet :: bool
  ln_cookieScalePeriod :: u64
  ln_previousScalePeriod :: u64
  ln_cookieGeneration :: u64

record tcpKey =
  tk_local :: addrPort
  tk_remote :: addrPort

section \<open>Periods and the secret\<close>

definition synCookiePeriodNumber :: "int \<Rightarrow> int \<Rightarrow> u64" where
  "synCookiePeriodNumber now epoch =
     (let elapsed = timeSub now epoch
      in if elapsed \<le> 0 then 0 else of_int (elapsed div synCookiePeriod))"

datatype cookieError = RandomSource | MTUTooSmall

definition synCookieKey ::
  "bytes option \<Rightarrow> int \<Rightarrow> tcpPassiveState \<Rightarrow> (cookieError + bytes \<times> u64) \<times> tcpPassiveState" where
  "synCookieKey rnd now st =
     (if ps_cookieSet st
      then (Inr (ps_cookieKey st, synCookiePeriodNumber now (ps_cookieEpoch st)), st)
      else case rnd of
        None \<Rightarrow> (Inl RandomSource, st)
      | Some key \<Rightarrow> (let st = st\<lparr>ps_cookieKey := key, ps_cookieEpoch := now, ps_cookieSet := True\<rparr>
                    in (Inr (ps_cookieKey st, synCookiePeriodNumber now (ps_cookieEpoch st)), st)))"

definition noteSYNCookie :: "u64 \<Rightarrow> tcpPassiveState \<Rightarrow> tcpPassiveState" where
  "noteSYNCookie period st =
     (let st = (if \<not> ps_cookieActive st \<or> period > ps_cookiePeriod st then st\<lparr>ps_cookiePeriod := period\<rparr> else st)
      in st\<lparr>ps_cookieActive := True\<rparr>)"

definition recentSYNCookieState :: "int \<Rightarrow> tcpPassiveState \<Rightarrow> (bytes \<times> u64) option" where
  "recentSYNCookieState now st =
     (let period = synCookiePeriodNumber now (ps_cookieEpoch st)
      in if \<not> ps_cookieSet st \<or> \<not> ps_cookieActive st \<or> period < ps_cookiePeriod st \<or>
            period - ps_cookiePeriod st > 1
         then None else Some (ps_cookieKey st, period))"

definition recordSYNCookieScale :: "u64 \<Rightarrow> u8 \<Rightarrow> tcpListener \<Rightarrow> u8 \<times> tcpListener" where
  "recordSYNCookieScale period scale l =
     (if ln_closed l then (scale, l)
      else
        let l = (if \<not> ln_cookieScaleSet l \<or> period > ln_cookieScalePeriod l
                 then (if ln_cookieScaleSet l
                       then l\<lparr>ln_previousScaleSet := True, ln_previousScalePeriod := ln_cookieScalePeriod l,
                              ln_previousWindowScale := ln_cookieWindowScale l\<rparr>
                       else l)\<lparr>ln_cookieScaleSet := True, ln_cookieScalePeriod := period, ln_cookieWindowScale := scale\<rparr>
                 else l)
        in (ln_cookieWindowScale l, l))"

definition lookupSYNCookieScale :: "u64 \<Rightarrow> tcpListener \<Rightarrow> u8 option" where
  "lookupSYNCookieScale period l =
     (if ln_cookieScaleSet l \<and> ln_cookieScalePeriod l = period then Some (ln_cookieWindowScale l)
      else if ln_previousScaleSet l \<and> ln_previousScalePeriod l = period then Some (ln_previousWindowScale l)
      else None)"

section \<open>Encoding\<close>

text \<open>The loop that picks the last table entry not above the offer, with its \<open>break\<close>.\<close>

primrec mssIndexFrom :: "int \<Rightarrow> int list \<Rightarrow> nat \<Rightarrow> nat \<Rightarrow> nat" where
  "mssIndexFrom mss [] index mssIndex = mssIndex"
| "mssIndexFrom mss (value # rest) index mssIndex =
     (if value > mss then mssIndex else mssIndexFrom mss rest (Suc index) index)"

definition encodeSYNCookieOptions :: "tcpSegment \<Rightarrow> addr \<Rightarrow> (synCookieOptions \<times> u32) option" where
  "encodeSYNCookieOptions syn remoteAddress = do {
     parsed \<leftarrow> parseTCPOptions (optionBytes syn) (defaultTCPPeerMSS remoteAddress) 65535;
     let timestamp = so_timestamp parsed;
     let (scale, scaling, sack) =
       (if timestamp then (so_scale parsed, so_windowScaling parsed, so_sack parsed) else (0, False, False));
     let mssIndex = mssIndexFrom (so_mss parsed) synCookieMSSValues 0 0;
     let encodedScale = (if scaling then ucast scale else 15);
     let data = of_nat mssIndex OR push_bit 3 encodedScale;
     let data = (if sack then data OR push_bit 7 1 else data);
     let ecn = (timestamp \<and> seg_flags syn AND (TCPFlagECE OR TCPFlagCWR) = TCPFlagECE OR TCPFlagCWR);
     mss \<leftarrow> go_index synCookieMSSValues mssIndex;
     Some (\<lparr>ck_mss = mss, ck_windowScale = scale, ck_localWindowScale = 0, ck_windowScaling = scaling,
            ck_sack = sack, ck_timestamp = timestamp, ck_ecn = ecn,
            ck_timestampNow = so_timestampValue parsed\<rparr>, data) }"

text \<open>The inner option is the source's \<open>ok\<close>; the outer one is the index panic on the table.\<close>

definition decodeSYNCookieOptions :: "u32 \<Rightarrow> synCookieOptions option option" where
  "decodeSYNCookieOptions data =
     (if data AND NOT synCookieDataMask \<noteq> 0 then Some None
      else do {
        let mssIndex = unat (data AND 7);
        let encodedScale = (ucast (drop_bit 3 data AND 15) :: u8);
        mss \<leftarrow> go_index synCookieMSSValues mssIndex;
        let options = synCookieOptions_zero\<lparr>ck_mss := mss, ck_sack := data AND push_bit 7 1 \<noteq> 0\<rparr>;
        Some (Some (if encodedScale \<noteq> 15
                    then options\<lparr>ck_windowScaling := True, ck_windowScale := encodedScale\<rparr> else options)) })"

definition synCookieAuthenticatedData :: "u32 \<Rightarrow> bool \<Rightarrow> bool \<Rightarrow> u32" where
  "synCookieAuthenticatedData data timestamp ecn =
     (let data = (if timestamp then data OR push_bit 8 1 else data)
      in if ecn then data OR push_bit 9 1 else data)"

definition cookieInput :: "tcpKey \<Rightarrow> u64 \<Rightarrow> u32 \<Rightarrow> u64 \<Rightarrow> u32 \<Rightarrow> bytes" where
  "cookieInput key generation clientSequence period authenticatedData =
     [if is6 (ap_addr (tk_local key)) then 6 else 4] @ as16 (ap_addr (tk_local key)) @ as16 (ap_addr (tk_remote key)) @
     be_put16 (ap_port (tk_local key)) @ be_put16 (ap_port (tk_remote key)) @ be_put64 generation @
     be_put32 clientSequence @ be_put64 period @ be_put16 (ucast authenticatedData)"

definition synCookieSequence ::
  "bytes \<Rightarrow> tcpKey \<Rightarrow> u64 \<Rightarrow> u32 \<Rightarrow> u64 \<Rightarrow> u32 \<Rightarrow> u32 \<Rightarrow> u32" where
  "synCookieSequence secret key generation clientSequence period data authenticatedData =
     (let tag = ucast (sipHash24 secret (cookieInput key generation clientSequence period authenticatedData))
                AND NOT synCookieDataMask
      in tag OR data)"

definition synCookieTimestamp :: "u32 \<Rightarrow> bool \<Rightarrow> u32" where
  "synCookieTimestamp raw ecn =
     (let timestamp = raw AND NOT 1;
          timestamp = (if ecn then timestamp OR 1 else timestamp)
      in if tcpSequenceGreater timestamp raw then timestamp - 2 else timestamp)"

section \<open>Issuing\<close>

text \<open>The arguments of \<open>tryWriteTCPControl\<close> that a cookie reply sets; the payload is empty and ECN is zero.\<close>

record tcpControl =
  tw_source :: addr
  tw_target :: addr
  tw_sourcePort :: u16
  tw_targetPort :: u16
  tw_sequence :: u32
  tw_acknowledgement :: u32
  tw_flags :: u8
  tw_window :: u16
  tw_options :: bytes
  tw_mtu :: int
  tw_trafficClass :: u8
  tw_flowLabel :: u32
  tw_flowLabelSet :: bool

record cookieContext =
  cc_defaults :: tcpSocketDefaults
  cc_random :: "bytes option"
  cc_mtu :: "addr \<Rightarrow> int"
  cc_timestamp :: u32

definition listenerGeneration :: "tcpListener option \<Rightarrow> u64" where
  "listenerGeneration listener = (case listener of None \<Rightarrow> 0 | Some l \<Rightarrow> ln_cookieGeneration l)"

definition listenerDefaults :: "tcpSocketDefaults \<Rightarrow> tcpListener option \<Rightarrow> tcpSocketDefaults" where
  "listenerDefaults d listener = (case listener of None \<Rightarrow> d | Some l \<Rightarrow> applyTCPSocketOptions d (ln_options l))"

definition advertiseScale :: "u64 \<Rightarrow> u8 \<Rightarrow> tcpListener option \<Rightarrow> u8 \<times> tcpListener option" where
  "advertiseScale period configuredScale listener =
     (case listener of None \<Rightarrow> (configuredScale, None)
      | Some l \<Rightarrow> (let (scale, l) = recordSYNCookieScale period configuredScale l in (scale, Some l)))"

text \<open>
  \<open>None\<close> is a panic of the option parsers. The error returns leave the listener as it was; the
  secret may have been drawn.
\<close>

definition sendSYNCookie ::
  "cookieContext \<Rightarrow> tcpKey \<Rightarrow> tcpSegment \<Rightarrow> int \<Rightarrow> tcpPassiveState \<times> tcpListener option \<Rightarrow>
   ((cookieError + tcpControl) \<times> tcpPassiveState \<times> tcpListener option) option" where
  "sendSYNCookie ctx key syn now = (\<lambda>(st, listener).
     let defaults = listenerDefaults (cc_defaults ctx) listener;
         configuredScale = of_nat (tcpReceiveWindowScaleFor (td_maximumReceiveBuffer defaults));
         remote = ap_addr (tk_remote key)
     in case synCookieKey (cc_random ctx) now st of
          (Inl err, st) \<Rightarrow> Some (Inl err, st, listener)
        | (Inr (secret, period), st) \<Rightarrow> do {
            (options, data) \<leftarrow> encodeSYNCookieOptions syn remote;
            let authenticatedData = synCookieAuthenticatedData data (ck_timestamp options) (ck_ecn options);
            let sequence = synCookieSequence secret key (listenerGeneration listener) (seg_sequence syn) period data
                             authenticatedData;
            let localMSS = tcpMSSForMTU (cc_mtu ctx remote) (ap_addr (tk_local key));
            if localMSS < 1 then Some (Inl MTUTooSmall, st, listener)
            else do {
              let timestamp = (if ck_timestamp options then synCookieTimestamp (cc_timestamp ctx) (ck_ecn options)
                               else cc_timestamp ctx);
              let (advertisedScale, listener') = advertiseScale period configuredScale listener;
              let tcpOptions = tcpPassiveSYNOptions localMSS (ck_sack options) (ck_windowScaling options)
                                 (ck_timestamp options) advertisedScale timestamp (ck_timestampNow options);
              let flags = TCPFlagSYN OR TCPFlagACK;
              let flags = (if ck_ecn options then flags OR TCPFlagECE else flags);
              let receiveWindow = min 65535 (td_receiveBuffer defaults);
              Some (Inr \<lparr>tw_source = ap_addr (tk_local key), tw_target = remote, tw_sourcePort = ap_port (tk_local key),
                         tw_targetPort = ap_port (tk_remote key), tw_sequence = sequence,
                         tw_acknowledgement = seg_sequence syn + 1, tw_flags = flags,
                         tw_window = of_int receiveWindow, tw_options = tcpOptions, tw_mtu = cc_mtu ctx remote,
                         tw_trafficClass = td_trafficClass defaults, tw_flowLabel = td_flowLabel defaults,
                         tw_flowLabelSet = (case listener of None \<Rightarrow> False | Some l \<Rightarrow> to_flowLabel (ln_options l) \<noteq> None)\<rparr>,
                    noteSYNCookie period st, listener') } })"

section \<open>Validating\<close>

text \<open>The negotiations an ACK can stand for, given its timestamp option.\<close>

definition cookieCandidates :: "(u32 \<times> u32) option \<Rightarrow> (bool \<times> bool) list" where
  "cookieCandidates echo =
     (case echo of
        Some (_, timestampEcho) \<Rightarrow>
          if timestampEcho = 0 then [(True, True), (True, False)] else [(True, timestampEcho AND 1 \<noteq> 0)]
      | None \<Rightarrow> [(True, True), (True, False), (False, False)])"

text \<open>The periods tried: \<open>attempt > period\<close> leaves the loop.\<close>

definition cookiePeriods :: "u64 \<Rightarrow> u64 list" where
  "cookiePeriods period = (if period = 0 then [0] else [period, period - 1])"

text \<open>The two nested loops run to their end, so the last match is the one kept.\<close>

definition matchCookie ::
  "(u64 \<Rightarrow> bool \<times> bool \<Rightarrow> u32) \<Rightarrow> u32 \<Rightarrow> (bool \<times> bool) list \<Rightarrow> u64 list \<Rightarrow> (u64 \<times> bool \<times> bool) option" where
  "matchCookie expected serverSequence candidates periods =
     fold (\<lambda>period. fold (\<lambda>candidate found.
             if expected period candidate = serverSequence then Some (period, candidate) else found) candidates)
       periods None"

datatype cookieVerdict = NotAttempted | Rejected | Accepted u32 synCookieOptions

definition restoreOptions ::
  "(u32 \<times> u32) option \<Rightarrow> bool \<times> bool \<Rightarrow> synCookieOptions \<Rightarrow> synCookieOptions" where
  "restoreOptions echo = (\<lambda>(matchedTimestamp, matchedECN) options.
     case echo of
       Some (timestampValue, _) \<Rightarrow>
         options\<lparr>ck_timestamp := matchedTimestamp,
                 ck_timestampNow := (if matchedTimestamp then timestampValue else ck_timestampNow options),
                 ck_ecn := matchedECN\<rparr>
     | None \<Rightarrow> options\<lparr>ck_timestamp := False, ck_ecn := False\<rparr>)"

definition validateSYNCookie ::
  "tcpKey \<Rightarrow> tcpSegment \<Rightarrow> int \<Rightarrow> tcpListener option \<Rightarrow> tcpPassiveState \<Rightarrow> cookieVerdict option" where
  "validateSYNCookie key ack now listener st =
     (if seg_flags ack AND TCPFlagACK = 0 \<or> seg_flags ack AND (TCPFlagSYN OR TCPFlagRST) \<noteq> 0 then Some NotAttempted
      else case recentSYNCookieState now st of
        None \<Rightarrow> Some NotAttempted
      | Some (secret, period) \<Rightarrow> do {
          let serverSequence = seg_acknowledgement ack - 1;
          let clientSequence = seg_sequence ack - 1;
          let data = serverSequence AND synCookieDataMask;
          echo \<leftarrow> parseTCPTimestamp (optionBytes ack);
          case matchCookie (\<lambda>candidatePeriod (ts, ecn). synCookieSequence secret key (listenerGeneration listener)
                               clientSequence candidatePeriod data (synCookieAuthenticatedData data ts ecn))
                 serverSequence (cookieCandidates echo) (cookiePeriods period) of
            None \<Rightarrow> Some Rejected
          | Some (matchedPeriod, matched) \<Rightarrow> do {
              decoded \<leftarrow> decodeSYNCookieOptions data;
              case decoded of
                None \<Rightarrow> Some Rejected
              | Some options \<Rightarrow>
                  let options = restoreOptions echo matched options;
                      localScale = (case listener of
                          Some l \<Rightarrow> if ck_windowScaling options then lookupSYNCookieScale matchedPeriod l
                                   else Some (ck_localWindowScale options)
                        | None \<Rightarrow> Some (ck_localWindowScale options))
                  in case localScale of
                       None \<Rightarrow> Some Rejected
                     | Some scale \<Rightarrow>
                         let options = options\<lparr>ck_localWindowScale := scale\<rparr>
                         in Some (Accepted serverSequence
                              (if echo = None
                               then options\<lparr>ck_sack := False, ck_windowScaling := False, ck_windowScale := 0,
                                            ck_localWindowScale := 0\<rparr>
                               else options)) } })"

section \<open>Packing the options\<close>

lemma mssIndexFrom_ok:
  assumes "i0 < length t" "t ! i0 \<le> m" "vs = drop i t"
  shows "mssIndexFrom m vs i i0 < length t \<and> t ! mssIndexFrom m vs i i0 \<le> m"
  using assms
proof (induction vs arbitrary: i i0)
  case (Cons v vs)
  then have v: "v = t ! i" "vs = drop (Suc i) t" "i < length t"
    using drop_eq_Cons_conv [of i t v vs] by auto
  show ?case using Cons.IH [of i "Suc i"] Cons.prems(1,2) v by simp
qed simp

lemma mssIndex_le:
  assumes "48 \<le> m"
  shows "mssIndexFrom m synCookieMSSValues 0 0 < 8"
    "synCookieMSSValues ! mssIndexFrom m synCookieMSSValues 0 0 \<le> m"
  using mssIndexFrom_ok [of 0 synCookieMSSValues m synCookieMSSValues 0] assms
  by (simp_all add: synCookieMSSValues_def tcpMinimumPeerMSS_def)

lemma bit_maskw: "k \<le> LENGTH('a::len) \<Longrightarrow> bit (mask k :: 'a word) n \<longleftrightarrow> n < k"
  by (simp only: bit_mask_iff possible_bit_word) auto

lemma bit_flag: "k < LENGTH('a::len) \<Longrightarrow> bit (push_bit k 1 :: 'a word) n \<longleftrightarrow> n = k"
  by (simp only: bit_push_bit_iff bit_1_iff possible_bit_word) auto

lemma cookie_masks: "synCookieDataMask = mask 8" "(7 :: u32) = mask 3" "(15 :: u32) = mask 4"
  by code_simp+

lemma small_word_bit: "i < 2 ^ k \<Longrightarrow> bit (of_nat i :: 'a::len word) n \<Longrightarrow> n < k"
  by (metis bit_of_nat_iff bit_take_bit_iff take_bit_nat_eq_self)

definition packData :: "nat \<Rightarrow> u32 \<Rightarrow> bool \<Rightarrow> u32" where
  "packData i sc sack = (let data = of_nat i OR push_bit 3 sc in if sack then data OR push_bit 7 1 else data)"

lemma bit_packData:
  assumes "i < 8" "sc < (16 :: u32)"
  shows "bit (packData i sc sack) n \<longleftrightarrow>
    n < 3 \<and> bit (of_nat i :: u32) n \<or> 3 \<le> n \<and> n < 7 \<and> bit sc (n - 3) \<or> sack \<and> n = 7"
proof -
  have i: "n < 3" if "bit (of_nat i :: u32) n" for n
    using that assms(1) small_word_bit [of i 3 n] by simp
  have "unat sc < 16" using assms(2) by (simp add: word_less_nat_alt)
  then have s: "n < 4" if "bit sc n" for n
    using that small_word_bit [of "unat sc" 4 n, where 'a = 32] by simp
  have f: "bit (push_bit 7 1 :: u32) n \<longleftrightarrow> n = 7" for n
    by (rule bit_flag) simp
  have g: "bit (push_bit 3 sc) n \<longleftrightarrow> 3 \<le> n \<and> n < 7 \<and> bit sc (n - 3)"
    using s [of "n - 3"] by (auto simp: bit_push_bit_iff)
  show ?thesis
    unfolding packData_def Let_def
    using i [of n] by (cases sack) (simp_all only: bit_or_iff f g if_True if_False simp_thms, blast+)
qed

lemma packData_fields:
  assumes "i < 8" "sc < (16 :: u32)"
  shows "packData i sc sack AND mask 3 = of_nat i" "drop_bit 3 (packData i sc sack) AND mask 4 = sc"
    "packData i sc sack AND push_bit 7 1 \<noteq> 0 \<longleftrightarrow> sack" "packData i sc sack AND NOT (mask 8) = 0"
proof -
  have "unat sc < 16" using assms(2) by (simp add: word_less_nat_alt)
  then have s: "n < 4" if "bit sc n" for n
    using that small_word_bit [of "unat sc" 4 n, where 'a = 32] by simp
  have i: "n < 3" if "bit (of_nat i :: u32) n" for n
    using that assms(1) small_word_bit [of i 3 n] by simp
  show "packData i sc sack AND mask 3 = of_nat i"
    by (rule bit_word_eqI) (use i in \<open>auto simp only: bit_and_iff bit_packData [OF assms] bit_maskw len_bit0 len_num1\<close>)
  show "drop_bit 3 (packData i sc sack) AND mask 4 = sc"
    by (rule bit_word_eqI) (use s in \<open>auto simp: bit_and_iff bit_drop_bit_eq bit_maskw bit_packData [OF assms]\<close>)
  show "packData i sc sack AND push_bit 7 1 \<noteq> 0 \<longleftrightarrow> sack"
    by (simp only: and_push_bit_iff bit_packData [OF assms]) simp
  show "packData i sc sack AND NOT (mask 8) = 0"
    by (rule bit_word_eqI) (auto simp: bit_and_iff bit_not_iff bit_maskw bit_packData [OF assms])
qed

lemma encode_ok:
  assumes "encodeSYNCookieOptions syn remote = Some (o1, d)"
  obtains p i sc where "parseTCPOptions (optionBytes syn) (defaultTCPPeerMSS remote) 65535 = Some p"
    "i < 8" "sc < 16" "d = packData i sc (ck_sack o1)" "ck_mss o1 = synCookieMSSValues ! i"
    "ck_mss o1 \<le> so_mss p" "sc = (if ck_windowScaling o1 then ucast (ck_windowScale o1) else 15)"
    "ck_windowScale o1 \<le> 14" "\<not> ck_windowScaling o1 \<Longrightarrow> ck_windowScale o1 = 0"
    "ck_timestamp o1 = so_timestamp p" "ck_windowScaling o1 = (so_timestamp p \<and> so_windowScaling p)"
    "ck_sack o1 = (so_timestamp p \<and> so_sack p)" "ck_ecn o1 \<Longrightarrow> ck_timestamp o1"
    "ck_windowScale o1 = (if so_timestamp p then so_scale p else 0)"
    "ck_localWindowScale o1 = 0" "ck_timestampNow o1 = so_timestampValue p"
proof -
  from assms obtain p where p: "parseTCPOptions (optionBytes syn) (defaultTCPPeerMSS remote) 65535 = Some p"
    by (auto simp: encodeSYNCookieOptions_def Option.bind_eq_Some_conv)
  note b = parse_bounds [OF p]
  let ?i = "mssIndexFrom (so_mss p) synCookieMSSValues 0 0"
  have i: "?i < 8" "synCookieMSSValues ! ?i \<le> so_mss p"
    using mssIndex_le [of "so_mss p"] b by auto
  have l: "length synCookieMSSValues = 8" by (simp add: synCookieMSSValues_def)
  let ?sc = "if so_timestamp p \<and> so_windowScaling p then ucast (so_scale p) else 15 :: u32"
  have "ucast (so_scale p) \<le> (14 :: u32)" using b
    by (simp add: word_le_nat_alt unsigned_ucast_eq take_bit_nat_eq_self)
  then have sc: "?sc < 16"
    by (auto simp: word_less_nat_alt word_le_nat_alt)
  show ?thesis
  proof (rule that [of p ?i ?sc])
    show "d = packData ?i ?sc (ck_sack o1)" using assms p
      by (auto simp: encodeSYNCookieOptions_def Let_def packData_def Option.bind_eq_Some_conv split: if_splits)
  qed (use assms p b i l sc in \<open>auto simp: encodeSYNCookieOptions_def Let_def go_index_def Option.bind_eq_Some_conv split: if_splits\<close>)
qed

lemma low_nibble: "sc < (16 :: u32) \<Longrightarrow> bit sc n \<Longrightarrow> n < 4"
  using small_word_bit [of "unat sc" 4 n, where 'a = 32] by (simp add: word_less_nat_alt)

lemma ucast_up_down_u8: "ucast (ucast (x :: u8) :: u32) = x"
  by (rule bit_word_eqI) (auto simp: bit_simps dest: bit_imp_le_length)

lemma decode_pack:
  assumes "i < 8" "sc < (16 :: u32)"
  shows "decodeSYNCookieOptions (packData i sc sack) = Some (Some (
     synCookieOptions_zero\<lparr>ck_mss := synCookieMSSValues ! i, ck_sack := sack,
       ck_windowScaling := (sc \<noteq> 15), ck_windowScale := (if sc \<noteq> 15 then ucast sc else 0)\<rparr>))"
proof -
  have u: "unat (of_nat i :: u32) = i" using assms(1) by (simp add: unat_of_nat_u32)
  have s: "(ucast sc = (15 :: u8)) = (sc = 15)"
  proof
    assume "ucast sc = (15 :: u8)"
    then have "ucast (ucast sc :: u8) = (15 :: u32)" by simp
    moreover have "ucast (ucast sc :: u8) = sc"
      by (rule bit_word_eqI) (use low_nibble [OF assms(2)] in \<open>force simp: bit_simps\<close>)
    ultimately show "sc = 15" by simp
  qed simp
  have l: "length synCookieMSSValues = 8" by (simp add: synCookieMSSValues_def)
  show ?thesis
    unfolding decodeSYNCookieOptions_def cookie_masks packData_fields [OF assms] u Let_def
    using assms(1) by (simp add: go_index_def l s synCookieOptions_zero_def flip: cookie_masks(3))
qed

lemma decode_encode:
  assumes "encodeSYNCookieOptions syn remote = Some (o1, d)"
  shows "decodeSYNCookieOptions d = Some (Some (o1\<lparr>ck_timestamp := False, ck_ecn := False, ck_timestampNow := 0\<rparr>))"
proof -
  obtain p i sc where *: "i < 8" "sc < 16" "d = packData i sc (ck_sack o1)" "ck_mss o1 = synCookieMSSValues ! i"
    "sc = (if ck_windowScaling o1 then ucast (ck_windowScale o1) else 15)"
    "ck_windowScale o1 \<le> 14" "\<not> ck_windowScaling o1 \<Longrightarrow> ck_windowScale o1 = 0" "ck_localWindowScale o1 = 0"
    using encode_ok [OF assms] by metis
  have "ck_windowScaling o1 \<Longrightarrow> sc \<noteq> 15"
    using * by (auto simp: word_le_nat_alt unat_eq_u32 unsigned_ucast_eq take_bit_nat_eq_self)
  with * show ?thesis
    by (cases o1; cases "ck_windowScaling o1") (simp_all add: decode_pack synCookieOptions_zero_def ucast_up_down_u8)
qed

lemma bit_authenticated:
  "bit (synCookieAuthenticatedData d ts ecn) n \<longleftrightarrow> bit d n \<or> ts \<and> n = 8 \<or> ecn \<and> n = 9"
proof -
  have f: "bit (push_bit 8 1 :: u32) n \<longleftrightarrow> n = 8" "bit (push_bit 9 1 :: u32) n \<longleftrightarrow> n = 9"
    by (rule bit_flag; simp)+
  show ?thesis by (cases ts; cases ecn; simp only: synCookieAuthenticatedData_def Let_def if_True if_False bit_or_iff f) auto
qed

text \<open>The low byte of a cookie is its data.\<close>

lemma cookie_data:
  assumes "d AND NOT synCookieDataMask = 0"
  shows "synCookieSequence secret key gen cs p d ad AND synCookieDataMask = d"
proof (rule bit_word_eqI)
  fix n assume "n < LENGTH(32)"
  have "\<not> bit (d AND NOT synCookieDataMask) n" by (simp only: assms bit_0_eq bot_apply bot_bool_def not_False_eq_True)
  then show "bit (synCookieSequence secret key gen cs p d ad AND synCookieDataMask) n = bit d n"
    using \<open>n < LENGTH(32)\<close> unfolding synCookieSequence_def Let_def by (auto simp only: bit_and_iff bit_or_iff bit_not_iff possible_bit_word)
qed

lemma synCookieTimestamp_eq: "synCookieTimestamp raw ecn = (if bit raw 0 = ecn then raw else raw - 1)"
proof -
  have ev: "even (raw AND NOT 1)"
    by (simp only: even_and_iff even_not_iff) simp
  have e: "raw AND NOT 1 = (if bit raw 0 then raw - 1 else raw)"
  proof (cases "bit raw 0")
    case True
    have "(raw AND NOT 1) + 1 = (raw AND NOT 1) OR 1"
      using ev by (simp only: or_one_eq of_bool_eq simp_thms)
    also have "\<dots> = raw"
      by (rule bit_word_eqI) (use True in \<open>auto simp: bit_simps\<close>)
    finally have "(raw AND NOT 1) = raw - 1" by (simp add: eq_diff_eq)
    with True show ?thesis by simp
  next
    case False
    have "(raw AND NOT 1) = raw"
      by (rule bit_word_eqI) (use False in \<open>auto simp: bit_simps intro: gr0I\<close>)
    with False show ?thesis by simp
  qed
  have o: "(raw AND NOT 1) OR 1 = (raw AND NOT 1) + 1"
    using ev by (simp only: or_one_eq of_bool_eq simp_thms)
  have g: "\<not> tcpSequenceGreater raw raw" "\<not> tcpSequenceGreater (raw - 1) raw" "tcpSequenceGreater (raw + 1) raw"
    by (simp_all add: tcpSequenceGreater_def tcpSequenceLess_def sint_neg_u32 )
  show ?thesis
    unfolding synCookieTimestamp_def Let_def o unfolding e using g by auto
qed

section \<open>Periods\<close>

lemma period_unat: "unat (synCookiePeriodNumber now epoch) = nat (max 0 (timeSub now epoch) div synCookiePeriod)"
proof -
  have "max 0 (timeSub now epoch) div synCookiePeriod < 2 ^ 63"
    by (auto simp: timeSub_def synCookiePeriod_def max_def min_def)
  moreover have "0 \<le> max 0 (timeSub now epoch) div synCookiePeriod"
    by (simp add: pos_imp_zdiv_nonneg_iff synCookiePeriod_def)
  ultimately show ?thesis
    by (auto simp: synCookiePeriodNumber_def Let_def unsigned_of_int take_bit_int_eq_self max_def
        simp flip: take_bit_of_int)
qed

lemma period_mono: "now \<le> now' \<Longrightarrow> synCookiePeriodNumber now epoch \<le> synCookiePeriodNumber now' epoch"
  unfolding word_le_nat_alt period_unat
  by (intro nat_mono zdiv_mono1) (auto simp: timeSub_def synCookiePeriod_def)

lemma period_next:
  assumes "now' \<le> now + synCookiePeriod"
  shows "unat (synCookiePeriodNumber now' epoch) \<le> unat (synCookiePeriodNumber now epoch) + 1"
proof -
  have "max 0 (timeSub now' epoch) \<le> max 0 (timeSub now epoch) + synCookiePeriod"
    using assms by (auto simp: timeSub_def synCookiePeriod_def)
  then have "max 0 (timeSub now' epoch) div synCookiePeriod \<le> (max 0 (timeSub now epoch) + synCookiePeriod) div synCookiePeriod"
    by (intro zdiv_mono1) (auto simp: synCookiePeriod_def)
  also have "\<dots> = max 0 (timeSub now epoch) div synCookiePeriod + 1"
    by (simp add: synCookiePeriod_def)
  finally show ?thesis unfolding period_unat
    by (simp add: nat_le_iff synCookiePeriod_def) 
qed

section \<open>A run of SYNs\<close>

text \<open>
  Several listeners share one passive state; a SYN that matches no listener, in forwarding mode, is
  answered with no listener at all. An event is one SYN answered with a cookie.
\<close>

record cookieEvent =
  ev_listener :: "nat option"
  ev_context :: cookieContext
  ev_key :: tcpKey
  ev_syn :: tcpSegment
  ev_now :: int

type_synonym cookieState = "tcpPassiveState \<times> (nat \<Rightarrow> tcpListener)"

definition cookieStep :: "cookieEvent \<Rightarrow> cookieState \<Rightarrow> ((cookieError + tcpControl) \<times> cookieState) option" where
  "cookieStep e = (\<lambda>(st, ls). do {
     (r, st', l') \<leftarrow> sendSYNCookie (ev_context e) (ev_key e) (ev_syn e) (ev_now e) (st, map_option ls (ev_listener e));
     Some (r, st', (case (ev_listener e, l') of (Some i, Some l) \<Rightarrow> ls(i := l) | _ \<Rightarrow> ls)) })"

primrec cookieRun :: "cookieEvent list \<Rightarrow> cookieState \<Rightarrow> cookieState option" where
  "cookieRun [] s = Some s"
| "cookieRun (e # es) s = Option.bind (cookieStep e s) (\<lambda>(r, s'). cookieRun es s')"

text \<open>
  \<open>cookie_ok t\<close> is the invariant at time \<open>t\<close>: recorded periods are not ahead of the clock, and
  recorded scales are expressible.
\<close>

definition cookie_ok :: "int \<Rightarrow> cookieState \<Rightarrow> bool" where
  "cookie_ok t = (\<lambda>(st, ls).
     (ps_cookieActive st \<longrightarrow> ps_cookieSet st \<and> ps_cookiePeriod st \<le> synCookiePeriodNumber t (ps_cookieEpoch st)) \<and>
     (\<forall>i. ln_cookieScaleSet (ls i) \<longrightarrow>
        ps_cookieSet st \<and> ln_cookieWindowScale (ls i) \<le> 14 \<and>
        ln_cookieScalePeriod (ls i) \<le> synCookiePeriodNumber t (ps_cookieEpoch st)))"

definition scale_held :: "u64 \<Rightarrow> u8 \<Rightarrow> tcpListener \<Rightarrow> bool" where
  "scale_held p s l \<longleftrightarrow> ln_cookieScaleSet l \<and> p \<le> ln_cookieScalePeriod l \<and>
     (ln_cookieScalePeriod l = p \<longrightarrow> ln_cookieWindowScale l = s) \<and>
     (unat (ln_cookieScalePeriod l) = unat p + 1 \<longrightarrow>
        ln_previousScaleSet l \<and> ln_previousScalePeriod l = p \<and> ln_previousWindowScale l = s)"

text \<open>What later SYNs keep of a cookie issued in period \<open>p\<close>.\<close>

definition issued :: "bytes \<Rightarrow> int \<Rightarrow> u64 \<Rightarrow> tcpPassiveState \<Rightarrow> bool" where
  "issued secret epoch p st \<longleftrightarrow> ps_cookieSet st \<and> ps_cookieActive st \<and> ps_cookieKey st = secret \<and>
     ps_cookieEpoch st = epoch \<and> p \<le> ps_cookiePeriod st"

lemma unat_eq_u64: "(a :: u64) = b \<longleftrightarrow> unat a = unat b"
  by (simp add: unsigned_word_eqI word_eq_iff_unsigned)

lemma record_held: "scale_held p s l \<Longrightarrow> scale_held p s (snd (recordSYNCookieScale q c l))"
  by (auto simp: scale_held_def recordSYNCookieScale_def Let_def unat_eq_u64 word_le_nat_alt word_less_nat_alt split: if_splits)

lemma record_new:
  assumes "\<not> ln_closed l" "ln_cookieScaleSet l \<Longrightarrow> ln_cookieScalePeriod l \<le> p"
    "recordSYNCookieScale p c l = (s, l')"
  shows "scale_held p s l'"
  using assms by (auto simp: scale_held_def recordSYNCookieScale_def Let_def word_le_nat_alt word_less_nat_alt
      unat_eq_u64 split: if_splits)

lemma lookup_held:
  assumes "scale_held p s l" "unat (ln_cookieScalePeriod l) \<le> unat p + 1"
  shows "lookupSYNCookieScale p l = Some s"
  using assms by (auto simp: scale_held_def lookupSYNCookieScale_def unat_eq_u64 word_le_nat_alt)


lemma synCookieKey_ok:
  assumes "synCookieKey rnd now st = (Inr (secret, period), st1)"
  shows "ps_cookieSet st1" "ps_cookieKey st1 = secret" "period = synCookiePeriodNumber now (ps_cookieEpoch st1)"
    "ps_cookieActive st1 = ps_cookieActive st" "ps_cookiePeriod st1 = ps_cookiePeriod st"
    "ps_cookieSet st \<Longrightarrow> st1 = st"
  using assms by (auto simp: synCookieKey_def Let_def split: if_splits option.splits)

lemma synCookieKey_err: "synCookieKey rnd now st = (Inl err, st1) \<Longrightarrow> st1 = st"
  by (auto simp: synCookieKey_def Let_def split: if_splits option.splits)

lemma send_Inr:
  assumes "sendSYNCookie ctx key syn now (st, listener) = Some (Inr reply, st', l')"
  obtains secret period st1 o1 d scale where
    "synCookieKey (cc_random ctx) now st = (Inr (secret, period), st1)"
    "encodeSYNCookieOptions syn (ap_addr (tk_remote key)) = Some (o1, d)"
    "advertiseScale period (of_nat (tcpReceiveWindowScaleFor
       (td_maximumReceiveBuffer (listenerDefaults (cc_defaults ctx) listener)))) listener = (scale, l')"
    "st' = noteSYNCookie period st1"
    "tw_sequence reply = synCookieSequence secret key (listenerGeneration listener) (seg_sequence syn) period d
       (synCookieAuthenticatedData d (ck_timestamp o1) (ck_ecn o1))"
    "1 \<le> tcpMSSForMTU (cc_mtu ctx (ap_addr (tk_remote key))) (ap_addr (tk_local key))"
    "tw_options reply = tcpPassiveSYNOptions (tcpMSSForMTU (cc_mtu ctx (ap_addr (tk_remote key))) (ap_addr (tk_local key)))
       (ck_sack o1) (ck_windowScaling o1) (ck_timestamp o1) scale
       (if ck_timestamp o1 then synCookieTimestamp (cc_timestamp ctx) (ck_ecn o1) else cc_timestamp ctx)
       (ck_timestampNow o1)"
    "tw_acknowledgement reply = seg_sequence syn + 1"
    "tw_flags reply = (if ck_ecn o1 then TCPFlagSYN OR TCPFlagACK OR TCPFlagECE else TCPFlagSYN OR TCPFlagACK)"
proof -
  let ?remote = "ap_addr (tk_remote key)"
  let ?mss = "tcpMSSForMTU (cc_mtu ctx ?remote) (ap_addr (tk_local key))"
  from assms obtain secret period st1 where k: "synCookieKey (cc_random ctx) now st = (Inr (secret, period), st1)"
    unfolding sendSYNCookie_def Let_def by (auto split: prod.splits sum.splits)
  from assms k obtain o1 d where e: "encodeSYNCookieOptions syn ?remote = Some (o1, d)" and m: "\<not> ?mss < 1"
    unfolding sendSYNCookie_def Let_def by (auto simp: Option.bind_eq_Some_conv split: if_splits)
  obtain scale l1 where a: "advertiseScale period (of_nat (tcpReceiveWindowScaleFor
       (td_maximumReceiveBuffer (listenerDefaults (cc_defaults ctx) listener)))) listener = (scale, l1)"
    by fastforce
  note r = assms [unfolded sendSYNCookie_def Let_def prod.case k sum.case e Option.bind.bind_lunit a if_not_P [OF m]]
  show ?thesis
    by (rule that [OF k e _ _ _ _ _ _ _]) (use a r m in \<open>auto simp: or.assoc\<close>)
qed

lemma send_Inl:
  assumes "sendSYNCookie ctx key syn now (st, listener) = Some (Inl err, st', l')"
  shows "l' = listener \<and> (st' = st \<or> (\<exists>x. synCookieKey (cc_random ctx) now st = (Inr x, st')))"
proof (cases "synCookieKey (cc_random ctx) now st")
  case (Pair x st1)
  show ?thesis
  proof (cases x)
    case (Inl e)
    with Pair assms synCookieKey_err [of "cc_random ctx" now st e st1] show ?thesis
      by (auto simp: sendSYNCookie_def Let_def)
  next
    case (Inr y)
    obtain secret period where y: "y = (secret, period)" by fastforce
    from assms Pair show ?thesis unfolding sendSYNCookie_def Let_def Inr y
      by (auto simp: Option.bind_eq_Some_conv split: if_splits prod.splits)
  qed
qed

lemma scale_le_14: "of_nat (tcpReceiveWindowScaleFor m) \<le> (14 :: u8)"
proof -
  have "tcpReceiveWindowScaleFor m \<le> 14"
    using scaleFrom_le [of 0 m] by (simp add: tcpReceiveWindowScaleFor_def tcpMaximumWindowScale_def)
  then show ?thesis by (simp add: word_le_nat_alt unat_of_nat take_bit_nat_eq_self)
qed

lemma step_shape:
  assumes "cookieStep e (st, ls) = Some (r, st', ls')"
  shows "st' = st \<and> ls' = ls \<or>
    (\<exists>secret q st1. synCookieKey (cc_random (ev_context e)) (ev_now e) st = (Inr (secret, q), st1) \<and>
       (st' = st1 \<and> ls' = ls \<or> st' = noteSYNCookie q st1 \<and>
        (\<forall>i. ls' i = ls i \<or> (\<exists>c\<le>14. ls' i = snd (recordSYNCookieScale q c (ls i))))))"
proof -
  from assms obtain l' where s: "sendSYNCookie (ev_context e) (ev_key e) (ev_syn e) (ev_now e)
      (st, map_option ls (ev_listener e)) = Some (r, st', l')"
    and ls': "ls' = (case (ev_listener e, l') of (Some i, Some l) \<Rightarrow> ls(i := l) | _ \<Rightarrow> ls)"
    by (auto simp: cookieStep_def Option.bind_eq_Some_conv)
  show ?thesis
  proof (cases r)
    case (Inl err)
    from send_Inl [OF s [unfolded Inl]] ls' show ?thesis
      by (auto split: option.splits)
  next
    case (Inr reply)
    from send_Inr [OF s [unfolded Inr]] obtain secret q st1 c scale where
      k: "synCookieKey (cc_random (ev_context e)) (ev_now e) st = (Inr (secret, q), st1)"
      and a: "advertiseScale q c (map_option ls (ev_listener e)) = (scale, l')" and n: "st' = noteSYNCookie q st1"
      and c: "c = of_nat (tcpReceiveWindowScaleFor
         (td_maximumReceiveBuffer (listenerDefaults (cc_defaults (ev_context e)) (map_option ls (ev_listener e)))))"
      by metis
    have "c \<le> 14" unfolding c by (rule scale_le_14)
    then have "ls' i = ls i \<or> (\<exists>c\<le>14. ls' i = snd (recordSYNCookieScale q c (ls i)))" for i
      using a ls' by (cases "ev_listener e") (auto simp: advertiseScale_def split_def Let_def, blast)
    with k n show ?thesis by blast
  qed
qed

lemma noteSYNCookie_simps [simp]:
  "ps_cookieSet (noteSYNCookie q st) = ps_cookieSet st" "ps_cookieKey (noteSYNCookie q st) = ps_cookieKey st"
  "ps_cookieEpoch (noteSYNCookie q st) = ps_cookieEpoch st" "ps_cookieActive (noteSYNCookie q st)"
  by (simp_all add: noteSYNCookie_def Let_def)

lemma note_period: "ps_cookiePeriod (noteSYNCookie q st) = (if ps_cookieActive st then max q (ps_cookiePeriod st) else q)"
  by (auto simp: noteSYNCookie_def Let_def max_def not_less)

lemma record_bounds:
  assumes "ln_cookieScaleSet (snd (recordSYNCookieScale q c l))" "c \<le> 14"
    "ln_cookieScaleSet l \<Longrightarrow> ln_cookieScalePeriod l \<le> q \<and> ln_cookieWindowScale l \<le> 14"
  shows "ln_cookieScalePeriod (snd (recordSYNCookieScale q c l)) \<le> q \<and>
    ln_cookieWindowScale (snd (recordSYNCookieScale q c l)) \<le> 14"
  using assms by (auto simp: recordSYNCookieScale_def Let_def split: if_splits)

lemma record_scale:
  assumes "c \<le> 14" "ln_cookieScaleSet l \<Longrightarrow> ln_cookieWindowScale l \<le> 14"
  shows "fst (recordSYNCookieScale q c l) \<le> 14"
  using assms by (auto simp: recordSYNCookieScale_def Let_def split: if_splits)

lemma record_const:
  "ln_cookieGeneration (snd (recordSYNCookieScale q c l)) = ln_cookieGeneration l"
  "ln_closed (snd (recordSYNCookieScale q c l)) = ln_closed l"
  by (simp_all add: recordSYNCookieScale_def Let_def)

lemma step_generation:
  assumes "cookieStep e (st, ls) = Some (r, st', ls')"
  shows "ln_cookieGeneration (ls' i) = ln_cookieGeneration (ls i)" "ln_closed (ls' i) = ln_closed (ls i)"
  using step_shape [OF assms] record_const by metis+

lemma step_held:
  assumes "cookieStep e (st, ls) = Some (r, st', ls')" "scale_held p s (ls i)"
  shows "scale_held p s (ls' i)"
  using step_shape [OF assms(1)] assms(2) record_held by metis

lemma step_issued:
  assumes "cookieStep e (st, ls) = Some (r, st', ls')" "issued secret epoch p st"
  shows "issued secret epoch p st'"
  using step_shape [OF assms(1)] assms(2) synCookieKey_ok(6) [of "cc_random (ev_context e)" "ev_now e" st]
  by (auto simp: issued_def note_period max_def)

lemma step_ok:
  assumes "cookieStep e (st, ls) = Some (r, st', ls')" "cookie_ok t (st, ls)" "t \<le> ev_now e"
  shows "cookie_ok (ev_now e) (st', ls')"
proof -
  note m = period_mono [OF assms(3)]
  have ok: "cookie_ok (ev_now e) (st, ls)"
    using assms(2) m order_trans by (fastforce simp: cookie_ok_def)
  have key: "cookie_ok (ev_now e) (st1, ls)" if k: "synCookieKey (cc_random (ev_context e)) (ev_now e) st = (Inr (secret, q), st1)" for secret q st1
    using ok synCookieKey_ok [OF k] by (cases "ps_cookieSet st") (auto simp: cookie_ok_def)
  have rec: "cookie_ok (ev_now e) (noteSYNCookie q st1, ls')"
    if k: "synCookieKey (cc_random (ev_context e)) (ev_now e) st = (Inr (secret, q), st1)"
      and l: "\<And>i. ls' i = ls i \<or> (\<exists>c\<le>14. ls' i = snd (recordSYNCookieScale q c (ls i)))" for secret q st1
  proof -
    note p = synCookieKey_ok [OF k] and o1 = key [OF k]
    have "ln_cookieScalePeriod (ls' i) \<le> q \<and> ln_cookieWindowScale (ls' i) \<le> 14"
      if "ln_cookieScaleSet (ls' i)" for i
    proof -
      have old: "ln_cookieScaleSet (ls i) \<Longrightarrow> ln_cookieScalePeriod (ls i) \<le> q \<and> ln_cookieWindowScale (ls i) \<le> 14"
        using o1 p(3) by (auto simp: cookie_ok_def)
      show ?thesis using l [of i] that old record_bounds [OF _ _ old] by metis
    qed
    then show ?thesis using o1 p by (auto simp: cookie_ok_def note_period)
  qed
  show ?thesis using step_shape [OF assms(1)] ok key rec by blast
qed

lemma run_keeps:
  assumes "cookieRun es (st, ls) = Some (st', ls')" "cookie_ok t (st, ls)" "sorted (t # map ev_now es)"
  shows "cookie_ok (last (t # map ev_now es)) (st', ls')"
    "issued secret epoch p st \<longrightarrow> issued secret epoch p st'"
    "scale_held p s (ls i) \<longrightarrow> scale_held p s (ls' i)"
    "ln_cookieGeneration (ls' i) = ln_cookieGeneration (ls i)" "ln_closed (ls' i) = ln_closed (ls i)"
proof -
  have "cookie_ok (last (t # map ev_now es)) (st', ls') \<and> (issued secret epoch p st \<longrightarrow> issued secret epoch p st') \<and>
    (scale_held p s (ls i) \<longrightarrow> scale_held p s (ls' i)) \<and> ln_cookieGeneration (ls' i) = ln_cookieGeneration (ls i) \<and>
    ln_closed (ls' i) = ln_closed (ls i)"
    using assms
  proof (induction es arbitrary: st ls t)
    case (Cons e es)
    from Cons.prems(1) obtain r st1 ls1 where s: "cookieStep e (st, ls) = Some (r, st1, ls1)"
      and run: "cookieRun es (st1, ls1) = Some (st', ls')"
      by (auto simp: Option.bind_eq_Some_conv)
    have "cookie_ok (ev_now e) (st1, ls1)" using step_ok [OF s Cons.prems(2)] Cons.prems(3) by simp
    from Cons.IH [OF run this] Cons.prems(3) step_issued [OF s, of secret epoch p] step_held [OF s, of p _ i] step_generation [OF s, of i]
    show ?case by simp
  qed simp
  then show "cookie_ok (last (t # map ev_now es)) (st', ls')"
    "issued secret epoch p st \<longrightarrow> issued secret epoch p st'"
    "scale_held p s (ls i) \<longrightarrow> scale_held p s (ls' i)"
    "ln_cookieGeneration (ls' i) = ln_cookieGeneration (ls i)" "ln_closed (ls' i) = ln_closed (ls i)"
    by simp_all
qed

section \<open>Matching\<close>

lemma matchOne_last:
  "cs \<noteq> [] \<Longrightarrow> f (last cs) = s \<Longrightarrow>
   fold (\<lambda>c found. if f c = s then Some (p, c) else found) cs init = Some (p, last cs)"
  by (induction cs rule: rev_induct) auto

lemma matchOne_some:
  "c \<in> set cs \<Longrightarrow> f c = s \<Longrightarrow>
   \<exists>c'\<in>set cs. fold (\<lambda>c found. if f c = s then Some (p, c) else found) cs init = Some (p, c')"
  by (induction cs rule: rev_induct) auto

lemma matchOne_none:
  "\<forall>c\<in>set cs. f c \<noteq> s \<Longrightarrow> fold (\<lambda>c found. if f c = s then Some (p, c) else found) cs init = init"
  by (induction cs arbitrary: init) auto

lemma matchOne_sound:
  "fold (\<lambda>c found. if f c = s then Some (p, c) else found) cs init = Some r \<Longrightarrow>
   init = Some r \<or> (\<exists>c\<in>set cs. r = (p, c) \<and> f c = s)"
  by (induction cs arbitrary: init) (force split: if_splits)+

lemma matchCookie_sound:
  "matchCookie f s cs ps = Some (p, c) \<Longrightarrow> p \<in> set ps \<and> c \<in> set cs \<and> f p c = s"
  unfolding matchCookie_def
proof (induction ps rule: rev_induct)
  case (snoc q ps)
  from matchOne_sound [where f = "f q"] snoc show ?case by fastforce
qed simp

text \<open>
  The period wins that matches last: the earlier one when it matches, and the current one when the
  earlier one does not.
\<close>

lemma matchCookie_period:
  assumes "c \<in> set cs" "f p c = s" "ps = ps1 @ p # ps2" "\<forall>q\<in>set ps2. \<forall>c\<in>set cs. f q c \<noteq> s"
  obtains c' where "c' \<in> set cs" "matchCookie f s cs ps = Some (p, c')" "f p (last cs) = s \<longrightarrow> c' = last cs"
proof -
  have "cs \<noteq> []" using assms(1) by auto
  have tail: "fold (\<lambda>q. fold (\<lambda>c found. if f q c = s then Some (q, c) else found) cs) ps2 init = init" for init
    using assms(4) by (induction ps2 arbitrary: init) (simp_all add: matchOne_none)
  show ?thesis
  proof (cases "f p (last cs) = s")
    case True
    show ?thesis
      by (rule that [of "last cs"]) (use \<open>cs \<noteq> []\<close> True in \<open>simp_all add: matchCookie_def assms(3) tail matchOne_last\<close>)
  next
    case False
    obtain c' where "c' \<in> set cs"
      "fold (\<lambda>c found. if f p c = s then Some (p, c) else found) cs
         (fold (\<lambda>q. fold (\<lambda>c found. if f q c = s then Some (q, c) else found) cs) ps1 None) = Some (p, c')"
      using matchOne_some [where f = "f p", OF assms(1,2)] by metis
    then show ?thesis
      by (intro that [of c']) (simp_all add: matchCookie_def assms(3) tail False)
  qed
qed

lemma recent_ok:
  assumes "issued secret epoch p st" "cookie_ok t (st, ls)" "t \<le> now"
    "unat (synCookiePeriodNumber now epoch) \<le> unat p + 1"
  shows "recentSYNCookieState now st = Some (secret, synCookiePeriodNumber now epoch)"
proof -
  have "ps_cookiePeriod st \<le> synCookiePeriodNumber now epoch"
    using assms(1,2) period_mono [OF assms(3), of epoch] by (auto simp: issued_def cookie_ok_def)
  moreover have "unat (synCookiePeriodNumber now epoch - ps_cookiePeriod st) \<le> 1"
    using assms(1,4) calculation by (auto simp: unat_sub word_le_nat_alt issued_def)
  ultimately show ?thesis
    using assms(1) by (auto simp: recentSYNCookieState_def issued_def Let_def word_less_nat_alt word_le_nat_alt)
qed

lemma cookiePeriods_split:
  assumes "p \<le> q" "unat q \<le> unat p + 1"
  obtains ps1 ps2 where "cookiePeriods q = ps1 @ p # ps2" "ps2 \<noteq> [] \<Longrightarrow> ps2 = [p - 1] \<and> p \<noteq> 0 \<and> q = p"
proof (cases "q = p")
  case True
  then show ?thesis
    by (intro that [of "[]" "if p = 0 then [] else [p - 1]"]) (auto simp: cookiePeriods_def)
next
  case False
  then have u: "unat q = unat p + 1" using assms by (auto simp: word_le_nat_alt unat_eq_u64)
  then have "q \<noteq> 0" by auto
  moreover have "q - 1 = p"
    using u \<open>q \<noteq> 0\<close> by (simp add: unat_eq_u64 unat_minus_one)
  ultimately show ?thesis
    by (intro that [of "[q]" "[]"]) (auto simp: cookiePeriods_def)
qed

text \<open>
  \<open>cookie_clash\<close>: the cookie of the period before \<open>p\<close>, for one of the negotiations the ACK can stand
  for, has the same 24-bit tag as the one sent.
\<close>

definition cookie_clash ::
  "bytes \<Rightarrow> tcpKey \<Rightarrow> u64 \<Rightarrow> u32 \<Rightarrow> u64 \<Rightarrow> (u32 \<times> u32) option \<Rightarrow> u32 \<Rightarrow> bool" where
  "cookie_clash secret key gen clientSequence p echo sequence \<longleftrightarrow> p \<noteq> 0 \<and>
     (\<exists>(ts, ecn) \<in> set (cookieCandidates echo).
        synCookieSequence secret key gen clientSequence (p - 1) (sequence AND synCookieDataMask)
          (synCookieAuthenticatedData (sequence AND synCookieDataMask) ts ecn) = sequence)"

definition recovered :: "(u32 \<times> u32) option \<Rightarrow> u8 option \<Rightarrow> synCookieOptions \<Rightarrow> synCookieOptions" where
  "recovered echo scale o1 = (case echo of
     None \<Rightarrow> synCookieOptions_zero\<lparr>ck_mss := ck_mss o1\<rparr>
   | Some (tv, _) \<Rightarrow> o1\<lparr>ck_timestampNow := tv, ck_localWindowScale :=
       (if ck_windowScaling o1 then (case scale of None \<Rightarrow> 0 | Some s \<Rightarrow> s) else 0)\<rparr>)"

lemma candidates_cover:
  assumes "ecn \<longrightarrow> ts" "case echo of None \<Rightarrow> True | Some (tv, te) \<Rightarrow> ts \<and> (te AND 1 \<noteq> 0) = ecn"
  shows "(ts, ecn) \<in> set (cookieCandidates echo)" "echo \<noteq> None \<Longrightarrow> last (cookieCandidates echo) = (ts, ecn)"
  using assms by (auto simp: cookieCandidates_def split: option.splits prod.splits if_splits)

lemma validate_accepts:
  assumes recent: "recentSYNCookieState now st = Some (secret, q)"
    and flags: "seg_flags ack AND TCPFlagACK \<noteq> 0" "seg_flags ack AND (TCPFlagSYN OR TCPFlagRST) = 0"
    and enc: "encodeSYNCookieOptions syn remote = Some (o1, d)"
    and sq: "sq = synCookieSequence secret key (listenerGeneration listener) cs p d
               (synCookieAuthenticatedData d (ck_timestamp o1) (ck_ecn o1))"
    and ack: "seg_acknowledgement ack = sq + 1" "seg_sequence ack = cs + 1"
    and pq: "p \<le> q" "unat q \<le> unat p + 1"
    and echo: "parseTCPTimestamp (optionBytes ack) = Some echo"
      "case echo of None \<Rightarrow> True | Some (tv, te) \<Rightarrow> ck_timestamp o1 \<and> (te AND 1 \<noteq> 0) = ck_ecn o1"
    and noclash: "q = p \<longrightarrow> \<not> cookie_clash secret key (listenerGeneration listener) cs p echo sq"
    and scale: "\<And>l. listener = Some l \<Longrightarrow> ck_windowScaling o1 \<Longrightarrow> lookupSYNCookieScale p l = Some s"
  shows "validateSYNCookie key ack now listener st =
    Some (Accepted sq (recovered echo (map_option (\<lambda>_. s) listener) o1))"
proof -
  obtain pr i sc where enc': "i < 8" "sc < 16" "d = packData i sc (ck_sack o1)" "ck_ecn o1 \<longrightarrow> ck_timestamp o1"
    "ck_localWindowScale o1 = 0" "\<not> ck_windowScaling o1 \<longrightarrow> ck_windowScale o1 = 0"
    using encode_ok [OF enc] by metis
  have "d AND NOT synCookieDataMask = 0"
    using packData_fields(4) [OF enc'(1,2)] enc'(3) by (simp only: cookie_masks)
  then have d: "sq AND synCookieDataMask = d" unfolding sq by (rule cookie_data)
  let ?f = "\<lambda>period (ts, ecn). synCookieSequence secret key (listenerGeneration listener) cs period d
      (synCookieAuthenticatedData d ts ecn)"
  note cover = candidates_cover [OF enc'(4) echo(2)]
  have f: "?f p (ck_timestamp o1, ck_ecn o1) = sq" by (simp add: sq)
  obtain ps1 ps2 where ps: "cookiePeriods q = ps1 @ p # ps2" "ps2 \<noteq> [] \<Longrightarrow> ps2 = [p - 1] \<and> p \<noteq> 0 \<and> q = p"
    using cookiePeriods_split [OF pq] by metis
  have "\<forall>r\<in>set ps2. \<forall>c\<in>set (cookieCandidates echo). ?f r c \<noteq> sq"
    using ps(2) noclash by (cases ps2) (auto simp: cookie_clash_def d)
  from matchCookie_period [where f = ?f, OF cover(1) f ps(1) this] obtain c where
    c: "matchCookie ?f sq (cookieCandidates echo) (cookiePeriods q) = Some (p, c)"
      "?f p (last (cookieCandidates echo)) = sq \<longrightarrow> c = last (cookieCandidates echo)" by metis
  have c': "echo \<noteq> None \<Longrightarrow> c = (ck_timestamp o1, ck_ecn o1)" using c(2) cover(2) f by auto
  have flags': "\<not> (seg_flags ack AND TCPFlagACK = 0 \<or> seg_flags ack AND (TCPFlagSYN OR TCPFlagRST) \<noteq> 0)"
    using flags by simp
  have arith: "sq + 1 - 1 = sq" "cs + 1 - 1 = cs" by simp_all
  show ?thesis
    unfolding validateSYNCookie_def if_not_P [OF flags'] recent option.case prod.case ack arith Let_def d
      echo(1) Option.bind.bind_lunit c(1) decode_encode [OF enc]
    using scale enc'(5,6) c' echo(2)
    by (cases o1; cases listener; cases echo; cases c; cases "ck_windowScaling o1")
      (auto simp: restoreOptions_def recovered_def synCookieOptions_zero_def)
qed

lemma and_one_iff: "(w AND 1 \<noteq> 0) = bit (w :: 'a::len word) 0"
  using and_push_bit_iff [of w 0] by (simp only: push_bit_0_id id_apply)

lemma synCookieTimestamp_parity: "bit (synCookieTimestamp raw ecn) 0 = ecn"
proof -
  have "odd (raw - 1) = even raw"
    using even_add [of "raw - 1" 1] by simp
  then show ?thesis by (simp add: synCookieTimestamp_eq bit_0)
qed

lemma clock_split:
  assumes "sorted (ts @ t # rest)"
  shows "sorted (hd (ts @ [t]) # ts)" "last (hd (ts @ [t]) # ts) \<le> (t :: int)"
proof -
  have s: "sorted ts" "\<forall>x\<in>set ts. x \<le> t" using assms by (simp_all add: sorted_append)
  from s(1) show "sorted (hd (ts @ [t]) # ts)" by (cases ts) simp_all
  show "last (hd (ts @ [t]) # ts) \<le> t" using s(2) by (cases ts) auto
qed

lemma clock_after:
  assumes "sorted (ts @ t # rest @ [now])"
  shows "sorted (t # rest)" "last (t # rest) \<le> now" "t \<le> (now :: int)"
proof -
  have s: "sorted (t # rest)" "\<forall>x\<in>set (t # rest). x \<le> now"
    using assms by (simp_all add: sorted_append)
  from s(1) show "sorted (t # rest)" .
  from s(2) show "last (t # rest) \<le> now" using last_in_set [of "t # rest"] by blast
  from s(2) show "t \<le> now" by simp
qed

lemma issue_keeps:
  assumes "cookieStep e (st, ls) = Some (Inr reply, st', ls')" "cookie_ok t (st, ls)" "t \<le> ev_now e"
    and "\<And>i. ev_listener e = Some i \<Longrightarrow> \<not> ln_closed (ls i)"
  obtains secret period o1 d scale where
    "issued secret (ps_cookieEpoch st') period st'" "period = synCookiePeriodNumber (ev_now e) (ps_cookieEpoch st')"
    "encodeSYNCookieOptions (ev_syn e) (ap_addr (tk_remote (ev_key e))) = Some (o1, d)"
    "tw_sequence reply = synCookieSequence secret (ev_key e) (listenerGeneration (map_option ls (ev_listener e)))
       (seg_sequence (ev_syn e)) period d (synCookieAuthenticatedData d (ck_timestamp o1) (ck_ecn o1))"
    "\<And>i. ev_listener e = Some i \<Longrightarrow> scale_held period scale (ls' i)" "scale \<le> 14"
    "tw_flags reply AND TCPFlagECE \<noteq> 0 \<longleftrightarrow> ck_ecn o1"
    "\<And>fb mx. \<exists>mss. parseTCPOptions (tw_options reply) fb mx = Some
       \<lparr>so_mss = mss, so_scale = (if ck_windowScaling o1 then scale else 0), so_windowScaling = ck_windowScaling o1,
        so_sack = ck_sack o1, so_timestamp = ck_timestamp o1, so_timestampValue =
          (if ck_timestamp o1 then synCookieTimestamp (cc_timestamp (ev_context e)) (ck_ecn o1) else 0)\<rparr>"
proof -
  from assms(1) obtain l' where s: "sendSYNCookie (ev_context e) (ev_key e) (ev_syn e) (ev_now e)
      (st, map_option ls (ev_listener e)) = Some (Inr reply, st', l')"
    and ls': "ls' = (case (ev_listener e, l') of (Some i, Some l) \<Rightarrow> ls(i := l) | _ \<Rightarrow> ls)"
    by (auto simp: cookieStep_def Option.bind_eq_Some_conv)
  let ?conf = "of_nat (tcpReceiveWindowScaleFor
       (td_maximumReceiveBuffer (listenerDefaults (cc_defaults (ev_context e)) (map_option ls (ev_listener e))))) :: u8"
  let ?mss = "tcpMSSForMTU (cc_mtu (ev_context e) (ap_addr (tk_remote (ev_key e)))) (ap_addr (tk_local (ev_key e)))"
  obtain secret period st1 o1 d scale where
    k: "synCookieKey (cc_random (ev_context e)) (ev_now e) st = (Inr (secret, period), st1)"
    and enc: "encodeSYNCookieOptions (ev_syn e) (ap_addr (tk_remote (ev_key e))) = Some (o1, d)"
    and adv: "advertiseScale period ?conf (map_option ls (ev_listener e)) = (scale, l')"
    and st': "st' = noteSYNCookie period st1"
    and sq: "tw_sequence reply = synCookieSequence secret (ev_key e) (listenerGeneration (map_option ls (ev_listener e)))
       (seg_sequence (ev_syn e)) period d (synCookieAuthenticatedData d (ck_timestamp o1) (ck_ecn o1))"
    and mss: "1 \<le> ?mss"
    and opts: "tw_options reply = tcpPassiveSYNOptions ?mss (ck_sack o1) (ck_windowScaling o1) (ck_timestamp o1) scale
       (if ck_timestamp o1 then synCookieTimestamp (cc_timestamp (ev_context e)) (ck_ecn o1)
        else cc_timestamp (ev_context e)) (ck_timestampNow o1)"
    and fl: "tw_flags reply = (if ck_ecn o1 then TCPFlagSYN OR TCPFlagACK OR TCPFlagECE else TCPFlagSYN OR TCPFlagACK)"
    by (rule send_Inr [OF s])
  note kk = synCookieKey_ok [OF k]
  have held: "ln_cookieScaleSet (ls i) \<Longrightarrow> ln_cookieScalePeriod (ls i) \<le> period \<and> ln_cookieWindowScale (ls i) \<le> 14" for i
    using assms(2) kk(3,6) period_mono [OF assms(3), of "ps_cookieEpoch st"] order_trans
    by (fastforce simp: cookie_ok_def)
  have rec: "recordSYNCookieScale period ?conf (ls i) = (scale, ls' i)" if "ev_listener e = Some i" for i
    using adv ls' that by (auto simp: advertiseScale_def split_def Let_def)
  have sc: "scale_held period scale (ls' i)" if "ev_listener e = Some i" for i
    using record_new [OF assms(4) [OF that] _ rec [OF that]] held by blast
  have le: "scale \<le> 14"
  proof (cases "ev_listener e")
    case None
    with adv scale_le_14 show ?thesis by (auto simp: advertiseScale_def)
  next
    case (Some i)
    have "fst (recordSYNCookieScale period ?conf (ls i)) \<le> 14"
      by (rule record_scale [OF scale_le_14]) (use held in blast)
    with rec [OF Some] show ?thesis by simp
  qed
  have ece: "(tw_flags reply AND TCPFlagECE \<noteq> 0) = ck_ecn o1"
    unfolding fl by (cases "ck_ecn o1"; simp only: if_True if_False; code_simp)
  have "?mss \<le> 65535" by (simp add: tcpMSSForMTU_def Let_def)
  then have parse: "\<exists>mss. parseTCPOptions (tw_options reply) fb mx = Some
       \<lparr>so_mss = mss, so_scale = (if ck_windowScaling o1 then scale else 0), so_windowScaling = ck_windowScaling o1,
        so_sack = ck_sack o1, so_timestamp = ck_timestamp o1, so_timestampValue =
          (if ck_timestamp o1 then synCookieTimestamp (cc_timestamp (ev_context e)) (ck_ecn o1) else 0)\<rparr>" for fb mx
    unfolding opts using le by (simp add: parse_passive [OF mss] min_def)
  have iss: "issued secret (ps_cookieEpoch st') period st'" "period = synCookiePeriodNumber (ev_now e) (ps_cookieEpoch st')"
    using kk st' by (auto simp: issued_def note_period)
  show ?thesis by (rule that [OF iss enc sq sc le ece parse])
qed

text \<open>
  C4: a handshake through a cookie. Any number of SYNs are answered before and after the cookie,
  through any of the listeners that share the secret, while the clock advances. When the client
  completes the handshake within one period of 64 seconds, echoing the timestamp it was sent, the
  cookie is accepted, and both ends hold the same options: what the server reconstructs from the
  ACK is what the client read in the SYN-ACK (window scaling, the receive scale, SACK, timestamps,
  ECN), the peer's scale is the one it offered and the reconstructed MSS is not above its offer.
  The only other hypothesis excludes that the cookie of the previous period has the same 24-bit tag.
\<close>

theorem cookie_handshake:
  assumes fresh: "\<not> ps_cookieActive st0" "\<And>i. \<not> ln_cookieScaleSet (ls0 i)"
    and before: "cookieRun es1 (st0, ls0) = Some s1"
    and issue: "cookieStep e s1 = Some (Inr reply, s2)"
    and after: "cookieRun es2 s2 = Some (st3, ls3)"
    and clock: "sorted (map ev_now es1 @ ev_now e # map ev_now es2 @ [now])" "now \<le> ev_now e + synCookiePeriod"
    and live: "\<And>i. ev_listener e = Some i \<Longrightarrow> \<not> ln_closed (ls0 i)"
    and req: "parseTCPOptions (optionBytes (ev_syn e)) (defaultTCPPeerMSS (ap_addr (tk_remote (ev_key e)))) 65535 = Some req"
    and offer: "parseTCPOptions (tw_options reply) fb mx = Some offer"
    and ack: "seg_sequence ack = seg_sequence (ev_syn e) + 1" "seg_acknowledgement ack = tw_sequence reply + 1"
      "seg_flags ack AND TCPFlagACK \<noteq> 0" "seg_flags ack AND (TCPFlagSYN OR TCPFlagRST) = 0"
    and echo: "parseTCPTimestamp (optionBytes ack) =
      Some (if so_timestamp offer then Some (tv, so_timestampValue offer) else None)"
    and noclash: "\<not> cookie_clash (ps_cookieKey st3) (ev_key e) (listenerGeneration (map_option ls3 (ev_listener e)))
      (seg_sequence (ev_syn e)) (synCookiePeriodNumber (ev_now e) (ps_cookieEpoch st3))
      (if so_timestamp offer then Some (tv, so_timestampValue offer) else None) (tw_sequence reply)"
  shows "\<exists>opts. validateSYNCookie (ev_key e) ack now (map_option ls3 (ev_listener e)) st3 =
      Some (Accepted (tw_sequence reply) opts) \<and>
    ck_mss opts \<le> so_mss req \<and> ck_windowScaling opts = so_windowScaling offer \<and>
    ck_sack opts = so_sack offer \<and> ck_timestamp opts = so_timestamp offer \<and>
    ck_ecn opts = (tw_flags reply AND TCPFlagECE \<noteq> 0) \<and>
    (so_windowScaling offer \<longrightarrow> ck_windowScale opts = so_scale req \<and>
       (ev_listener e \<noteq> None \<longrightarrow> ck_localWindowScale opts = so_scale offer)) \<and>
    (so_timestamp offer \<longrightarrow> ck_timestampNow opts = tv)"
proof -
  obtain st1 ls1 where s1: "s1 = (st1, ls1)" by fastforce
  obtain st2 ls2 where s2: "s2 = (st2, ls2)" by fastforce
  define t0 where "t0 = hd (map ev_now es1 @ [ev_now e])"
  note t0 = clock_split [OF clock(1), folded t0_def]
  have ok0: "cookie_ok t0 (st0, ls0)" using fresh by (simp add: cookie_ok_def)
  note r1 = run_keeps [OF before [unfolded s1] ok0 t0(1)]
  obtain secret p o1 d scale where i: "issued secret (ps_cookieEpoch st2) p st2"
    "p = synCookiePeriodNumber (ev_now e) (ps_cookieEpoch st2)"
    and enc: "encodeSYNCookieOptions (ev_syn e) (ap_addr (tk_remote (ev_key e))) = Some (o1, d)"
    and sq: "tw_sequence reply = synCookieSequence secret (ev_key e) (listenerGeneration (map_option ls1 (ev_listener e)))
       (seg_sequence (ev_syn e)) p d (synCookieAuthenticatedData d (ck_timestamp o1) (ck_ecn o1))"
    and held: "\<And>i. ev_listener e = Some i \<Longrightarrow> scale_held p scale (ls2 i)" and le: "scale \<le> 14"
    and ece: "tw_flags reply AND TCPFlagECE \<noteq> 0 \<longleftrightarrow> ck_ecn o1"
    and parse: "\<And>fb mx. \<exists>mss. parseTCPOptions (tw_options reply) fb mx = Some
       \<lparr>so_mss = mss, so_scale = (if ck_windowScaling o1 then scale else 0), so_windowScaling = ck_windowScaling o1,
        so_sack = ck_sack o1, so_timestamp = ck_timestamp o1, so_timestampValue =
          (if ck_timestamp o1 then synCookieTimestamp (cc_timestamp (ev_context e)) (ck_ecn o1) else 0)\<rparr>"
    by (rule issue_keeps [OF issue [unfolded s1 s2] r1(1) t0(2)]) (use live r1(5) in auto)
  have ok2: "cookie_ok (ev_now e) (st2, ls2)"
    using step_ok [OF issue [unfolded s1 s2] r1(1) t0(2)] .
  have sorted2: "sorted (ev_now e # map ev_now es2)" and last2: "last (ev_now e # map ev_now es2) \<le> now"
    and now: "ev_now e \<le> now"
    using clock_after [OF clock(1)] by simp_all
  note r2 = run_keeps [OF after [unfolded s2] ok2 sorted2]
  have i3: "issued secret (ps_cookieEpoch st2) p st3" using r2(2) i(1) by blast
  define q where "q = synCookiePeriodNumber now (ps_cookieEpoch st2)"
  have q: "p \<le> q" "unat q \<le> unat p + 1"
    using period_mono [OF now] period_next [OF clock(2)] by (simp_all add: q_def i(2))
  have recent: "recentSYNCookieState now st3 = Some (secret, q)"
    unfolding q_def by (rule recent_ok [OF i3 r2(1) last2]) (use q in \<open>simp add: q_def\<close>)
  have gen: "listenerGeneration (map_option ls3 (ev_listener e)) = listenerGeneration (map_option ls1 (ev_listener e))"
    using r2(4) step_generation(1) [OF issue [unfolded s1 s2]]
    by (cases "ev_listener e") (simp_all add: listenerGeneration_def)
  have look: "lookupSYNCookieScale p l = Some scale" if "map_option ls3 (ev_listener e) = Some l" for l
  proof -
    from that obtain j where j: "ev_listener e = Some j" "l = ls3 j" by auto
    have h: "scale_held p scale (ls3 j)" using r2(3) held [OF j(1)] by blast
    have "ln_cookieScalePeriod (ls3 j) \<le> q"
      using r2(1) h i3 period_mono [OF last2, of "ps_cookieEpoch st2"] order_trans
      by (fastforce simp: cookie_ok_def scale_held_def issued_def q_def)
    then have "unat (ln_cookieScalePeriod (ls3 j)) \<le> unat p + 1" using q(2) by (simp add: word_le_nat_alt)
    from lookup_held [OF h this] j(2) show ?thesis by simp
  qed
  from parse [of fb mx] offer obtain mss where off: "offer = \<lparr>so_mss = mss,
        so_scale = (if ck_windowScaling o1 then scale else 0), so_windowScaling = ck_windowScaling o1,
        so_sack = ck_sack o1, so_timestamp = ck_timestamp o1, so_timestampValue =
          (if ck_timestamp o1 then synCookieTimestamp (cc_timestamp (ev_context e)) (ck_ecn o1) else 0)\<rparr>" by auto
  have o_facts: "ck_mss o1 \<le> so_mss req \<and> ck_windowScaling o1 = (so_timestamp req \<and> so_windowScaling req) \<and>
    ck_windowScale o1 = (if so_timestamp req then so_scale req else 0) \<and> (ck_ecn o1 \<longrightarrow> ck_timestamp o1) \<and>
    (ck_sack o1 \<longrightarrow> so_timestamp req) \<and> ck_timestamp o1 = so_timestamp req"
    by (rule encode_ok [OF enc]) (use req in simp)
  let ?echo = "if ck_timestamp o1 then Some (tv, synCookieTimestamp (cc_timestamp (ev_context e)) (ck_ecn o1)) else None"
  have echo': "parseTCPTimestamp (optionBytes ack) = Some ?echo" using echo by (simp add: off)
  have parity: "(synCookieTimestamp raw ecn AND 1 \<noteq> 0) = ecn" for raw ecn
    by (simp only: and_one_iff synCookieTimestamp_parity)
  have "validateSYNCookie (ev_key e) ack now (map_option ls3 (ev_listener e)) st3 = Some (Accepted (tw_sequence reply)
      (recovered ?echo (map_option (\<lambda>_. scale) (map_option ls3 (ev_listener e))) o1))"
    by (rule validate_accepts [OF recent ack(3,4) enc _ ack(2,1) q echo' _ _ look])
      (use sq gen noclash i3 i(2) parity in \<open>auto simp: off issued_def split: if_splits\<close>)
  then show ?thesis
    using o_facts ece by (auto simp: recovered_def off synCookieOptions_zero_def)
qed

definition sampleListener :: tcpListener where
  "sampleListener = \<lparr>ln_options = \<lparr>to_readBuffer = Some 1000000, to_writeBuffer = None, to_keepAlive = None,
     to_keepAliveConfig = None, to_noDelay = None, to_idleTimeout = None, to_userTimeout = None,
     to_congestionControl = None, to_maximumPacingRate = None, to_trafficClass = None, to_flowLabel = None,
     to_acceptQueue = None, to_synBacklog = None\<rparr>, ln_closed = False, ln_cookieWindowScale = 0,
     ln_previousWindowScale = 0, ln_cookieScaleSet = False, ln_previousScaleSet = False, ln_cookieScalePeriod = 0,
     ln_previousScalePeriod = 0, ln_cookieGeneration = 4\<rparr>"

definition samplePassive :: tcpPassiveState where
  "samplePassive = \<lparr>ps_cookieKey = replicate 16 0, ps_cookieSet = False, ps_cookieEpoch = 0, ps_cookiePeriod = 0,
     ps_cookieActive = False\<rparr>"

definition sampleSYN :: tcpSegment where
  "sampleSYN = \<lparr>seg_sequence = 500, seg_acknowledgement = 0, seg_flags = 0xc2, seg_window = 1000, seg_ecn = 0,
     seg_options = tcpSYNOptions 1460 7 77, seg_payload = [], seg_retainedBytes = 0, seg_receivedAt = 0\<rparr>"

definition sampleEvent :: cookieEvent where
  "sampleEvent = \<lparr>ev_listener = Some 0, ev_context = \<lparr>cc_defaults =
       \<lparr>td_congestionControl = [], td_congestionFactory = None, td_receiveBuffer = 65536,
        td_maximumReceiveBuffer = 4194304, td_sendBuffer = 65536, td_maximumSendBuffer = 65536,
        td_maximumPacingRate = 0, td_acceptQueue = 128, td_synBacklog = 128, td_keepAlive = False,
        td_keepAliveConfig = \<lparr>ka_idle = 0, ka_interval = 0, ka_count = 0\<rparr>, td_idleTimeout = 0,
        td_userTimeout = 0, td_disableNoDelay = False, td_trafficClass = 0, td_flowLabel = 0\<rparr>,
       cc_random = Some (replicate 16 9), cc_mtu = (\<lambda>_. 1500), cc_timestamp = 1000\<rparr>,
     ev_key = \<lparr>tk_local = \<lparr>ap_addr = Addr4 0x0a000001, ap_port = 80\<rparr>,
               tk_remote = \<lparr>ap_addr = Addr4 0x0a000002, ap_port = 4000\<rparr>\<rparr>,
     ev_syn = sampleSYN, ev_now = 5\<rparr>"

definition sampleACK :: "u32 \<Rightarrow> tcpSegment" where
  "sampleACK cookie = sampleSYN\<lparr>seg_sequence := 501, seg_acknowledgement := cookie + 1, seg_flags := TCPFlagACK,
     seg_options := tcpTimestampOptions 78 999\<rparr>"

lemma sample_encode:
  "encodeSYNCookieOptions sampleSYN (Addr4 0x0a000002) = Some
     (\<lparr>ck_mss = 1440, ck_windowScale = 7, ck_localWindowScale = 0, ck_windowScaling = True, ck_sack = True,
       ck_timestamp = True, ck_ecn = True, ck_timestampNow = 77\<rparr>, 0xbe)"
  by code_simp

lemma sample_step:
  "\<exists>reply st ls. cookieStep sampleEvent (samplePassive, \<lambda>_. sampleListener) = Some (Inr reply, st, ls) \<and>
    tw_options reply = tcpPassiveSYNOptions 1460 True True True 4 999 77 \<and>
    ps_cookieEpoch st = 5 \<and> tw_flags reply = 0x52"
proof -
  have t: "synCookieTimestamp 1000 True = 999" by code_simp
  have sc: "(of_nat (tcpReceiveWindowScaleFor 1000000) :: u8) = 4" by code_simp
  have m: "tcpMSSForMTU 1500 (Addr4 0x0a000001) = 1460" by code_simp
  have f: "(TCPFlagSYN OR TCPFlagACK) OR TCPFlagECE = (0x52 :: u8)" by code_simp
  show ?thesis
    by (simp add: cookieStep_def sampleEvent_def sendSYNCookie_def samplePassive_def sampleListener_def synCookieKey_def
      sample_encode t sc m f listenerDefaults_def applyTCPSocketOptions_def override_def advertiseScale_def
      recordSYNCookieScale_def Let_def)
qed

theorem cookie_handshake_witness:
  "\<exists>reply st ls opts. cookieStep sampleEvent (samplePassive, \<lambda>_. sampleListener) = Some (Inr reply, st, ls) \<and>
     validateSYNCookie (ev_key sampleEvent) (sampleACK (tw_sequence reply)) 60000000005 (Some (ls 0)) st =
       Some (Accepted (tw_sequence reply) opts) \<and>
     ck_mss opts \<le> 1460 \<and> ck_windowScale opts = 7 \<and> ck_localWindowScale opts = 4 \<and> ck_sack opts \<and>
     ck_ecn opts \<and> ck_timestampNow opts = 78"
proof -
  from sample_step obtain reply st ls where step: "cookieStep sampleEvent (samplePassive, \<lambda>_. sampleListener) = Some (Inr reply, st, ls)"
    and o1: "tw_options reply = tcpPassiveSYNOptions 1460 True True True 4 999 77"
    and e: "ps_cookieEpoch st = 5" and f: "tw_flags reply = 0x52"
    by auto
  have req: "parseTCPOptions (optionBytes (ev_syn sampleEvent)) (defaultTCPPeerMSS (ap_addr (tk_remote (ev_key sampleEvent)))) 65535
     = Some \<lparr>so_mss = 1460, so_scale = 7, so_windowScaling = True, so_sack = True, so_timestamp = True, so_timestampValue = 77\<rparr>"
    by code_simp
  have offer: "parseTCPOptions (tw_options reply) 536 65535 =
    Some \<lparr>so_mss = 1460, so_scale = 4, so_windowScaling = True, so_sack = True, so_timestamp = True, so_timestampValue = 999\<rparr>"
    unfolding o1 by code_simp
  have echo: "parseTCPTimestamp (optionBytes (sampleACK (tw_sequence reply))) = Some (Some (78, 999))"
    unfolding sampleACK_def optionBytes_def by (simp, code_simp)
  have p0: "synCookiePeriodNumber 5 5 = 0" by code_simp
  have fl: "TCPFlagACK AND (TCPFlagSYN OR TCPFlagRST) = (0 :: u8)" "(0x52 :: u8) AND TCPFlagECE \<noteq> 0" "TCPFlagACK AND TCPFlagACK \<noteq> (0 :: u8)"
    by code_simp+
  have sc: "now \<le> 5 + synCookiePeriod" if "now \<le> 64000000005" for now using that by (simp add: synCookiePeriod_def)
  have "\<exists>opts. validateSYNCookie (ev_key sampleEvent) (sampleACK (tw_sequence reply)) 60000000005
      (map_option ls (ev_listener sampleEvent)) st = Some (Accepted (tw_sequence reply) opts) \<and>
     ck_mss opts \<le> 1460 \<and> ck_windowScale opts = 7 \<and> ck_localWindowScale opts = 4 \<and> ck_sack opts \<and>
     ck_ecn opts \<and> ck_timestampNow opts = 78"
    using cookie_handshake [of samplePassive "\<lambda>_. sampleListener" "[]" "(samplePassive, \<lambda>_. sampleListener)" sampleEvent reply
        "(st, ls)" "[]" st ls 60000000005 _ 536 65535 _ "sampleACK (tw_sequence reply)" 78, OF _ _ _ step _ _ _ _ req offer]
      e f echo p0 fl sc
    by (simp add: samplePassive_def sampleListener_def sampleEvent_def sampleACK_def sampleSYN_def cookie_clash_def) blast
  then show ?thesis using step by (auto simp: sampleEvent_def)
qed

lemma mssIndexFrom_greatest:
  assumes "sorted t" "vs = drop i t" "\<And>j. j < i \<Longrightarrow> j \<le> i0" "j < length t" "t ! j \<le> m"
  shows "j \<le> mssIndexFrom m vs i i0"
  using assms
proof (induction vs arbitrary: i i0)
  case Nil
  then show ?case by simp
next
  case (Cons v vs)
  then have v: "v = t ! i" "vs = drop (Suc i) t" "i < length t"
    using drop_eq_Cons_conv [of i t v vs] by auto
  show ?case
  proof (cases "v > m")
    case True
    then have "j < i" using v Cons.prems sorted_nth_mono [of t i j] by (cases "j < i") auto
    then show ?thesis using True Cons.prems(3) by simp
  next
    case False
    have "j \<le> mssIndexFrom m vs (Suc i) i"
      by (rule Cons.IH) (use Cons.prems v in auto)
    then show ?thesis using False by simp
  qed
qed

lemma encode_total:
  "\<exists>o1 d. encodeSYNCookieOptions syn remote = Some (o1, d)"
proof -
  obtain p where p: "parseTCPOptions (optionBytes syn) (defaultTCPPeerMSS remote) 65535 = Some p"
    unfolding parseTCPOptions_def using bind_total syn.walk_total by metis
  have "mssIndexFrom (so_mss p) synCookieMSSValues 0 0 < length synCookieMSSValues"
    using mssIndex_le(1) [of "so_mss p"] parse_bounds [OF p] by (simp add: synCookieMSSValues_def)
  then show ?thesis by (simp add: encodeSYNCookieOptions_def p go_index_in split_def Let_def)
qed

lemma decode_total: "\<exists>r. decodeSYNCookieOptions d = Some r"
proof -
  have "unat (d AND 7) \<le> unat (7 :: u32)" by (rule word_le_nat_alt [THEN iffD1]) (simp add: word_and_le1)
  then have "unat (d AND 7) < length synCookieMSSValues" by (simp add: synCookieMSSValues_def)
  then show ?thesis by (simp add: decodeSYNCookieOptions_def go_index_in Let_def)
qed

text \<open>
  No SYN and no ACK makes the cookie code panic: neither the option parsers nor the table of MSS
  values is accessed out of range, whatever the segment and the state.
\<close>

theorem cookie_never_panics:
  "(\<exists>r. sendSYNCookie ctx key syn now s = Some r) \<and> (\<exists>v. validateSYNCookie key ack now listener st = Some v)"
proof
  obtain st0 l0 where s: "s = (st0, l0)" by fastforce
  obtain o1 d where e: "encodeSYNCookieOptions syn (ap_addr (tk_remote key)) = Some (o1, d)"
    using encode_total by blast
  show "\<exists>r. sendSYNCookie ctx key syn now s = Some r"
    unfolding sendSYNCookie_def s by (simp add: e Let_def split: prod.splits sum.splits)
next
  obtain echo where p: "parseTCPTimestamp (optionBytes ack) = Some echo"
    unfolding parseTCPTimestamp_def using tsopt.walk_total by metis
  obtain r where "decodeSYNCookieOptions ((seg_acknowledgement ack - 1) AND synCookieDataMask) = Some r"
    using decode_total by blast
  then show "\<exists>v. validateSYNCookie key ack now listener st = Some v"
    unfolding validateSYNCookie_def Let_def by (auto simp: p split: option.splits prod.splits)
qed

text \<open>
  Packing a SYN's options into a cookie loses nothing but what the timestamp echo carries:
  decoding the data gives back the options, with the greatest MSS of the table that is not above
  the peer's offer, and options are kept only when the peer offered timestamps.
\<close>

theorem decode_encode_options:
  "\<exists>req o1 d. parseTCPOptions (optionBytes syn) (defaultTCPPeerMSS remote) 65535 = Some req \<and>
     encodeSYNCookieOptions syn remote = Some (o1, d) \<and>
     decodeSYNCookieOptions d = Some (Some (o1\<lparr>ck_timestamp := False, ck_ecn := False, ck_timestampNow := 0\<rparr>)) \<and>
     ck_mss o1 \<in> set synCookieMSSValues \<and> ck_mss o1 \<le> so_mss req \<and>
     filter (\<lambda>v. ck_mss o1 < v \<and> v \<le> so_mss req) synCookieMSSValues = [] \<and>
     ck_windowScaling o1 = (so_timestamp req \<and> so_windowScaling req) \<and> ck_sack o1 = (so_timestamp req \<and> so_sack req) \<and>
     ck_windowScale o1 = (if so_timestamp req then so_scale req else 0)"
proof -
  obtain o1 d where e: "encodeSYNCookieOptions syn remote = Some (o1, d)" using encode_total by blast
  obtain req where r: "parseTCPOptions (optionBytes syn) (defaultTCPPeerMSS remote) 65535 = Some req"
    "ck_mss o1 \<le> so_mss req \<and> ck_windowScaling o1 = (so_timestamp req \<and> so_windowScaling req) \<and>
     ck_sack o1 = (so_timestamp req \<and> so_sack req) \<and>
     ck_windowScale o1 = (if so_timestamp req then so_scale req else 0)"
    by (rule encode_ok [OF e]) blast
  let ?i = "mssIndexFrom (so_mss req) synCookieMSSValues 0 0"
  have l: "length synCookieMSSValues = 8" "sorted synCookieMSSValues"
    by (simp_all add: synCookieMSSValues_def tcpMinimumPeerMSS_def)
  have i: "?i < length synCookieMSSValues" using mssIndex_le(1) [of "so_mss req"] parse_bounds [OF r(1)] l by simp
  then have m: "ck_mss o1 = synCookieMSSValues ! ?i"
    using e by (auto simp: encodeSYNCookieOptions_def r(1) go_index_in split_def Let_def)
  have g: "v \<le> ck_mss o1" if "v \<in> set synCookieMSSValues" "v \<le> so_mss req" for v
  proof -
    from that obtain j where j: "j < length synCookieMSSValues" "v = synCookieMSSValues ! j" by (metis in_set_conv_nth)
    have "j \<le> ?i"
      by (rule mssIndexFrom_greatest [OF l(2), of _ 0]) (use j that in auto)
    then show ?thesis using i l(2) j m by (simp add: sorted_nth_mono)
  qed
  show ?thesis
    by (intro exI3 [of _ req o1 d] conjI) (use r e decode_encode [OF e] m i g in \<open>auto simp: filter_empty_conv not_less\<close>)
qed

text \<open>
  The timestamp of a cookie carries ECN in its low bit, and is the stack's clock or one tick
  before it, so it is never ahead of the clock, also where the clock wraps.
\<close>

theorem synCookieTimestamp_encodes:
  "bit (synCookieTimestamp raw ecn) 0 = ecn \<and> raw - synCookieTimestamp raw ecn \<le> 1 \<and>
   \<not> tcpSequenceGreater (synCookieTimestamp raw ecn) raw"
  by (rule conjI, rule synCookieTimestamp_parity)
    (simp add: synCookieTimestamp_eq tcpSequenceGreater_def tcpSequenceLess_def sint_neg_u32)

lemma validate_Accepted:
  assumes "validateSYNCookie key ack now listener st = Some (Accepted sq opts)"
  obtains secret q echo p ts ecn o1 scale where
    "seg_flags ack AND TCPFlagACK \<noteq> 0" "seg_flags ack AND (TCPFlagSYN OR TCPFlagRST) = 0"
    "recentSYNCookieState now st = Some (secret, q)" "sq = seg_acknowledgement ack - 1"
    "matchCookie (\<lambda>candidatePeriod (ts, ecn). synCookieSequence secret key (listenerGeneration listener)
           (seg_sequence ack - 1) candidatePeriod (sq AND synCookieDataMask)
           (synCookieAuthenticatedData (sq AND synCookieDataMask) ts ecn))
         sq (cookieCandidates echo) (cookiePeriods q) = Some (p, ts, ecn)"
    "ck_timestamp opts \<longrightarrow> ts" "ck_ecn opts \<longrightarrow> ecn"
proof -
  have f: "\<not> (seg_flags ack AND TCPFlagACK = 0 \<or> seg_flags ack AND (TCPFlagSYN OR TCPFlagRST) \<noteq> 0)"
    using assms by (metis cookieVerdict.distinct(3) option.inject validateSYNCookie_def)
  note v = assms [unfolded validateSYNCookie_def if_not_P [OF f]]
  obtain secret q where r: "recentSYNCookieState now st = Some (secret, q)"
    using v by (cases "recentSYNCookieState now st") auto
  obtain echo where e: "parseTCPTimestamp (optionBytes ack) = Some echo"
    unfolding parseTCPTimestamp_def using tsopt.walk_total by metis
  note v = v [unfolded r e option.case prod.case Let_def Option.bind.bind_lunit]
  let ?sq = "seg_acknowledgement ack - 1"
  let ?m = "matchCookie (\<lambda>candidatePeriod (ts, ecn). synCookieSequence secret key (listenerGeneration listener)
           (seg_sequence ack - 1) candidatePeriod (?sq AND synCookieDataMask)
           (synCookieAuthenticatedData (?sq AND synCookieDataMask) ts ecn))
         ?sq (cookieCandidates echo) (cookiePeriods q)"
  obtain p ts ecn where m: "?m = Some (p, ts, ecn)"
    using v by (cases ?m) auto
  note v = v [unfolded m option.case prod.case]
  obtain o1 where d: "decodeSYNCookieOptions (?sq AND synCookieDataMask) = Some (Some o1)"
  proof -
    obtain dec where dec: "decodeSYNCookieOptions (?sq AND synCookieDataMask) = Some dec"
      using decode_total by blast
    from v [unfolded dec Option.bind.bind_lunit] dec that show ?thesis by (cases dec) simp_all
  qed
  note v = v [unfolded d option.case Option.bind.bind_lunit]
  have sq: "sq = ?sq" using v by (auto split: option.splits if_splits)
  have "ck_timestamp opts \<longrightarrow> ts" "ck_ecn opts \<longrightarrow> ecn"
    using v by (cases echo; auto simp: restoreOptions_def split: option.splits if_splits)+
  with f r sq m show ?thesis by (intro that) auto
qed

text \<open>
  C12: an ACK is accepted only when its acknowledgement number is the cookie that this stack, with
  its secret and this listener's generation, computes for the connection, the client's sequence
  number and the current or the previous period, within one period of the last cookie issued; and
  timestamps and ECN are restored only when they are among what that tag covers.
\<close>

theorem validateSYNCookie_sound:
  assumes "validateSYNCookie key ack now listener st = Some (Accepted sq opts)"
  shows "seg_acknowledgement ack = sq + 1 \<and> seg_flags ack AND TCPFlagACK \<noteq> 0 \<and>
    seg_flags ack AND (TCPFlagSYN OR TCPFlagRST) = 0 \<and> ps_cookieSet st \<and> ps_cookieActive st \<and>
    synCookiePeriodNumber now (ps_cookieEpoch st) - ps_cookiePeriod st \<le> 1 \<and>
    (\<exists>p ts ecn. p \<in> {synCookiePeriodNumber now (ps_cookieEpoch st), synCookiePeriodNumber now (ps_cookieEpoch st) - 1} \<and>
       p \<le> synCookiePeriodNumber now (ps_cookieEpoch st) \<and>
       sq = synCookieSequence (ps_cookieKey st) key (listenerGeneration listener) (seg_sequence ack - 1) p
              (sq AND synCookieDataMask) (synCookieAuthenticatedData (sq AND synCookieDataMask) ts ecn) \<and>
       (ck_timestamp opts \<longrightarrow> ts) \<and> (ck_ecn opts \<longrightarrow> ecn))"
proof -
  let ?per = "synCookiePeriodNumber now (ps_cookieEpoch st)"
  obtain secret q echo p ts ecn where
    f: "seg_flags ack AND TCPFlagACK \<noteq> 0" "seg_flags ack AND (TCPFlagSYN OR TCPFlagRST) = 0" and
    r: "recentSYNCookieState now st = Some (secret, q)" and sq: "sq = seg_acknowledgement ack - 1" and
    m: "matchCookie (\<lambda>candidatePeriod (ts, ecn). synCookieSequence secret key (listenerGeneration listener)
           (seg_sequence ack - 1) candidatePeriod (sq AND synCookieDataMask)
           (synCookieAuthenticatedData (sq AND synCookieDataMask) ts ecn))
         sq (cookieCandidates echo) (cookiePeriods q) = Some (p, ts, ecn)" and
    o1: "ck_timestamp opts \<longrightarrow> ts" "ck_ecn opts \<longrightarrow> ecn"
    by (rule validate_Accepted [OF assms])
  have st: "ps_cookieSet st" "ps_cookieActive st" "secret = ps_cookieKey st" "q = ?per" "\<not> ?per - ps_cookiePeriod st > 1"
    using r by (auto simp: recentSYNCookieState_def Let_def split: if_splits)
  from matchCookie_sound [OF m] have p: "p \<in> set (cookiePeriods q)" "sq = synCookieSequence secret key (listenerGeneration listener)
           (seg_sequence ack - 1) p (sq AND synCookieDataMask)
           (synCookieAuthenticatedData (sq AND synCookieDataMask) ts ecn)"
    by auto
  have "p \<in> {q, q - 1}" "p \<le> q"
    using p(1) by (auto simp: cookiePeriods_def word_le_nat_alt unat_minus_one split: if_splits)
  with o1 f st p(2) sq show ?thesis by (auto simp: not_less)
qed


theorem validateSYNCookie_sound_witness:
  "\<exists>sq opts. validateSYNCookie (ev_key sampleEvent) (sampleACK sq) 5 None
     \<lparr>ps_cookieKey = replicate 16 9, ps_cookieSet = True, ps_cookieEpoch = 5, ps_cookiePeriod = 0, ps_cookieActive = True\<rparr> =
       Some (Accepted sq opts) \<and>
     (\<exists>p ts ecn. p \<in> {0, 0 - 1} \<and> p \<le> 0 \<and>
       sq = synCookieSequence (replicate 16 9) (ev_key sampleEvent) 0 500 p
              (sq AND synCookieDataMask) (synCookieAuthenticatedData (sq AND synCookieDataMask) ts ecn))"
proof -
  let ?st = "\<lparr>ps_cookieKey = replicate 16 9, ps_cookieSet = True, ps_cookieEpoch = 5, ps_cookiePeriod = 0, ps_cookieActive = True\<rparr>"
  have p0: "synCookiePeriodNumber 5 5 = 0" by code_simp
  let ?sq = "synCookieSequence (replicate 16 9) (ev_key sampleEvent) 0 500 0 0xbe (synCookieAuthenticatedData 0xbe True True)"
  have echo: "parseTCPTimestamp (optionBytes (sampleACK ?sq)) = Some (Some (78, 999))"
    unfolding sampleACK_def optionBytes_def by (simp, code_simp)
  have fl: "TCPFlagACK AND (TCPFlagSYN OR TCPFlagRST) = (0 :: u8)" "TCPFlagACK \<noteq> (0 :: u8)" "(999 AND 1 :: u32) = 1"
    by code_simp+
  have "\<exists>opts. validateSYNCookie (ev_key sampleEvent) (sampleACK ?sq) 5 None ?st = Some (Accepted ?sq opts)"
    by (rule exI, rule validate_accepts [OF _ _ _ sample_encode _ _ _ _ _ echo, where secret = "replicate 16 9" and q = 0 and p = 0 and cs = 500])
      (simp_all add: recentSYNCookieState_def p0 sampleACK_def sampleSYN_def fl cookie_clash_def listenerGeneration_def)
  then obtain opts where v: "validateSYNCookie (ev_key sampleEvent) (sampleACK ?sq) 5 None ?st = Some (Accepted ?sq opts)" by blast
  have s: "seg_sequence (sampleACK ?sq) - 1 = 500" by (simp add: sampleACK_def)
  from validateSYNCookie_sound [OF v, unfolded s] v show ?thesis
    by (intro exI [of _ ?sq] exI [of _ opts]) (auto simp: p0 listenerGeneration_def)
qed

text \<open>Two connections that differ in the zone of the remote address only, which the octets do not show.\<close>

definition sampleKey :: "string \<Rightarrow> tcpKey" where
  "sampleKey zone = \<lparr>tk_local = \<lparr>ap_addr = Addr6 2 [], ap_port = 80\<rparr>, tk_remote = \<lparr>ap_addr = Addr6 1 zone, ap_port = 4000\<rparr>\<rparr>"

lemma be_put_inj:
  "be_put16 a = be_put16 b \<Longrightarrow> a = b" "be_put32 c = be_put32 d \<Longrightarrow> c = d" "be_put64 e = be_put64 f \<Longrightarrow> e = f"
proof -
  show "a = b" if "be_put16 a = be_put16 b"
    using be_get16_put [of a "[]"] be_get16_put [of b "[]"] that by simp
  show "c = d" if "be_put32 c = be_put32 d"
    using be_get32_put [of c "[]"] be_get32_put [of d "[]"] that by simp
  show "e = f" if "be_put64 e = be_put64 f"
  proof -
    have split: "be_put64 w = be_put32 (ucast (drop_bit 32 w)) @ be_put32 (ucast w)" for w
      by (simp add: be_put64_def be_put32_def) (intro conjI bit_word_eqI; simp add: bit_simps)
    have "be_put32 (ucast (drop_bit 32 e)) = be_put32 (ucast (drop_bit 32 f))" "be_put32 (ucast e) = be_put32 (ucast f)"
      using that unfolding split by simp_all
    then have h: "(ucast (drop_bit 32 e) :: u32) = ucast (drop_bit 32 f)" "(ucast e :: u32) = ucast f"
      using be_get32_put [of _ "[]"] by (metis append_Nil2 option.inject)+
    show ?thesis
    proof (rule bit_word_eqI)
      fix n assume n: "n < LENGTH(64)"
      show "bit e n = bit f n"
      proof (cases "n < 32")
        case True
        then show ?thesis using arg_cong [OF h(2), of "\<lambda>w. bit w n"] by (simp add: bit_simps)
      next
        case False
        then have "n - 32 < 32" using n by simp
        with False show ?thesis using arg_cong [OF h(1), of "\<lambda>w. bit w (n - 32)"] by (simp add: bit_simps)
      qed
    qed
  qed
qed

text \<open>
  The input of the cookie's tag determines everything the tag is meant to cover: the address
  family, both addresses and ports, the listener's generation, the client's sequence number, the
  period, the packed options and the timestamp and ECN flags. No two of these tuples are encoded as
  the same octets.
\<close>

theorem cookieInput_covers:
  assumes "cookieInput key gen cs p (synCookieAuthenticatedData d ts ecn) =
      cookieInput key' gen' cs' p' (synCookieAuthenticatedData d' ts' ecn')"
    and "d AND NOT synCookieDataMask = 0" "d' AND NOT synCookieDataMask = 0"
  shows "is6 (ap_addr (tk_local key)) = is6 (ap_addr (tk_local key')) \<and>
    as16 (ap_addr (tk_local key)) = as16 (ap_addr (tk_local key')) \<and>
    as16 (ap_addr (tk_remote key)) = as16 (ap_addr (tk_remote key')) \<and>
    ap_port (tk_local key) = ap_port (tk_local key') \<and> ap_port (tk_remote key) = ap_port (tk_remote key') \<and>
    gen = gen' \<and> cs = cs' \<and> p = p' \<and> d = d' \<and> ts = ts' \<and> ecn = ecn'"
proof -
  let ?a = "synCookieAuthenticatedData d ts ecn" and ?a' = "synCookieAuthenticatedData d' ts' ecn'"
  have eqs: "is6 (ap_addr (tk_local key)) = is6 (ap_addr (tk_local key'))"
    "as16 (ap_addr (tk_local key)) = as16 (ap_addr (tk_local key'))"
    "as16 (ap_addr (tk_remote key)) = as16 (ap_addr (tk_remote key'))"
    "be_put16 (ap_port (tk_local key)) = be_put16 (ap_port (tk_local key'))"
    "be_put16 (ap_port (tk_remote key)) = be_put16 (ap_port (tk_remote key'))"
    "be_put64 gen = be_put64 gen'" "be_put32 cs = be_put32 cs'" "be_put64 p = be_put64 p'"
    "be_put16 (ucast ?a) = be_put16 (ucast ?a')"
    using assms(1) unfolding cookieInput_def by (simp_all split: if_splits)
  have low: "n < 8" if "bit x n" "x AND NOT synCookieDataMask = 0" for x :: u32 and n
  proof -
    have "\<not> bit (x AND NOT synCookieDataMask) n" by (simp only: that(2) bit_0_eq bot_apply bot_bool_def not_False_eq_True)
    then show ?thesis using that(1) bit_imp_le_length [OF that(1)]
      by (simp add: bit_and_iff bit_not_iff cookie_masks(1) bit_maskw)
  qed
  have u: "(ucast ?a :: u16) = ucast ?a'" by (rule be_put_inj(1) [OF eqs(9)])
  have b: "bit ?a n = bit ?a' n" if "n < 16" for n
    using arg_cong [OF u, of "\<lambda>w. bit w n"] that by (simp add: bit_simps)
  have bits: "bit d n = bit d' n" for n
    using b [of n] low [OF _ assms(2), of n] low [OF _ assms(3), of n] by (cases "n < 8") (auto simp: bit_authenticated)
  have z: "\<not> bit d 8" "\<not> bit d 9" "\<not> bit d' 8" "\<not> bit d' 9"
    using low [OF _ assms(2), of 8] low [OF _ assms(2), of 9] low [OF _ assms(3), of 8] low [OF _ assms(3), of 9] by auto
  have "ts = ts'" "ecn = ecn'"
    using b [of 8] b [of 9] by (simp_all add: bit_authenticated z)
  moreover have "d = d'" by (rule bit_word_eqI) (rule bits)
  ultimately show ?thesis using eqs(1-3) be_put_inj(1) [OF eqs(4)] be_put_inj(1) [OF eqs(5)]
      be_put_inj(2) [OF eqs(7)] be_put_inj(3) [OF eqs(6)] be_put_inj(3) [OF eqs(8)] by blast
qed

theorem cookieInput_covers_witness:
  "(190 AND NOT synCookieDataMask = 0) \<and>
   cookieInput (sampleKey ''eth0'') 4 500 3 (synCookieAuthenticatedData 190 True True) =
     cookieInput (sampleKey ''eth1'') 4 500 3 (synCookieAuthenticatedData 190 True True) \<and>
   sampleKey ''eth0'' \<noteq> sampleKey ''eth1'' \<and>
   ap_port (tk_local (sampleKey ''eth0'')) = ap_port (tk_local (sampleKey ''eth1''))"
proof -
  have d: "190 AND NOT synCookieDataMask = 0" by code_simp
  have e: "cookieInput (sampleKey ''eth0'') 4 500 3 (synCookieAuthenticatedData 190 True True) =
     cookieInput (sampleKey ''eth1'') 4 500 3 (synCookieAuthenticatedData 190 True True)"
    by (simp add: cookieInput_def sampleKey_def)
  from cookieInput_covers [OF e d d] d e show ?thesis by (simp add: sampleKey_def)
qed

end
