(* ===== verification/Checksum.thy ===== *)
theory Checksum
  imports Netip
begin

text \<open>
  The Internet checksum of \<^verbatim>\<open>src/packet.go\<close> (lines 1026 to 1292): the wide accumulation of
  \<open>checksumSum\<close>, checksums over several regions, and the pseudo-header checksums of TCP, UDP and
  ICMPv6. The source sums 64-bit words in the byte order of the target and corrects the folded
  result; the theorems show that it computes the one's-complement sum of RFC 1071 on 16-bit words
  in network order, for both byte orders and for every split of the data into regions.

  \<open>checksumTargetBigEndian\<close>, a constant of the build, is the parameter \<open>big\<close>.
\<close>

section \<open>The routine\<close>

text \<open>The loop \<open>for sum>>16 != 0\<close>, which the source writes at each of its uses.\<close>

function foldSum :: "'a::len word \<Rightarrow> 'a word" where
  "foldSum sm = (if drop_bit 16 sm \<noteq> 0 then foldSum ((sm AND 0xffff) + drop_bit 16 sm) else sm)"
  by pat_completeness auto

lemma and_ffff: "(sm :: 'a::len word) AND 0xffff = take_bit 16 sm"
proof -
  have "(0xffff :: 'a word) = mask 16" by (simp add: mask_eq_exp_minus_1)
  then show ?thesis by (simp only: take_bit_eq_mask)
qed

lemma unat_fold_step:
  "unat ((sm AND 0xffff) + drop_bit 16 sm) = unat (sm :: 'a::len word) mod 65536 + unat sm div 65536"
proof -
  have parts: "unat (sm AND 0xffff) = unat sm mod 65536" "unat (drop_bit 16 sm) = unat sm div 65536"
    by (simp_all only: and_ffff unsigned_take_bit_eq unat_drop_bit_eq)
      (simp_all add: take_bit_eq_mod drop_bit_eq_div)
  have "unat sm mod 65536 + unat sm div 65536 \<le> unat sm"
    using mult_div_mod_eq [of 65536 "unat sm"] by linarith
  then show ?thesis
    using unsigned_less [of sm] parts unat_plus_if' by (metis (no_types, lifting) order_le_less_trans unat_add_lem)
qed

lemma drop_16_zero: "drop_bit 16 (sm :: 'a::len word) = 0 \<longleftrightarrow> unat sm < 65536"
proof -
  have "drop_bit 16 sm = 0 \<longleftrightarrow> unat (drop_bit 16 sm) = 0" by (simp add: unat_eq_0)
  also have "\<dots> \<longleftrightarrow> unat sm div 65536 = 0"
    by (simp only: unat_drop_bit_eq) (simp add: drop_bit_eq_div)
  finally show ?thesis by (simp add: div_eq_0_iff)
qed

termination foldSum
proof (relation "measure unat")
  fix sm :: "'a word" assume "drop_bit 16 sm \<noteq> 0"
  then have "65536 \<le> unat sm" by (simp add: drop_16_zero)
  then have "unat sm mod 65536 + unat sm div 65536 < unat sm"
    using mult_div_mod_eq [of 65536 "unat sm"] by linarith
  then show "((sm AND 0xffff) + drop_bit 16 sm, sm) \<in> measure unat" by (simp add: unat_fold_step)
qed simp

declare foldSum.simps [simp del]

definition load64 :: "bool \<Rightarrow> bytes \<Rightarrow> u64" where
  "load64 big bs = (if big then be_get64 bs else le_get64 bs)"

definition load16 :: "bool \<Rightarrow> u8 \<Rightarrow> u8 \<Rightarrow> u16" where
  "load16 big a b = (if big then join16 a b else join16 b a)"

function checksumWide :: "bool \<Rightarrow> bytes \<Rightarrow> u64 \<Rightarrow> u64 \<times> bytes" where
  "checksumWide big data sm =
     (if length data \<ge> 16 then
        let first = load64 big (take 8 data); second = load64 big (take 8 (drop 8 data))
        in checksumWide big (drop 16 data)
             (sm + (drop_bit 32 first + (first AND 0xffffffff) + drop_bit 32 second + (second AND 0xffffffff)))
      else (sm, data))"
  by pat_completeness auto
termination
  by (relation "measure (\<lambda>(big, data, sm). length data)") auto

declare checksumWide.simps [simp del]

fun checksumNarrow :: "bool \<Rightarrow> bytes \<Rightarrow> u64 \<Rightarrow> u64" where
  "checksumNarrow big (a # b # data) sm = checksumNarrow big data (sm + ucast (load16 big a b))"
| "checksumNarrow big [a] sm = sm + (if big then push_bit 8 (ucast a) else ucast a)"
| "checksumNarrow big [] sm = sm"

definition reverseBytes16 :: "u16 \<Rightarrow> u16" where
  "reverseBytes16 w = join16 (ucast w) (ucast (drop_bit 8 w))"

definition checksumSum :: "bool \<Rightarrow> bytes \<Rightarrow> u32" where
  "checksumSum big data =
     (let (sm, data) = checksumWide big data 0;
          sm = foldSum (checksumNarrow big data sm)
      in if big then ucast (ucast sm :: u16) else ucast (reverseBytes16 (ucast sm)))"

definition checksum :: "bool \<Rightarrow> bytes \<Rightarrow> u16" where
  "checksum big data = NOT (ucast (foldSum (checksumSum big data)))"

definition InternetChecksum :: "bool \<Rightarrow> bytes \<Rightarrow> u16" where
  "InternetChecksum big data = checksum big data"

text \<open>
  One step of the loop of \<open>checksumParts\<close>; the trailing byte of an odd region is \<open>Some\<close>. The index
  expressions are in range: the region is not empty when its first byte is read, and \<open>even\<close> is below
  its length when the last one is.
\<close>

definition checksumPart :: "bool \<Rightarrow> u32 \<times> u8 option \<Rightarrow> bytes \<Rightarrow> u32 \<times> u8 option" where
  "checksumPart big = (\<lambda>(sm, trailing) part.
     if part = [] then (sm, trailing)
     else
       let (sm, part) = (case trailing of
             Some t \<Rightarrow> (sm + (push_bit 8 (ucast t) OR ucast (hd part)), tl part)
           | None \<Rightarrow> (sm, part));
           even = length part - length part mod 2;
           sm = (if even \<noteq> 0 then sm + checksumSum big (take even part) else sm);
           trailing = (if even \<noteq> length part then Some (part ! even) else None)
       in (foldSum sm, trailing))"

definition checksumParts :: "bool \<Rightarrow> u32 \<Rightarrow> bytes list \<Rightarrow> u16" where
  "checksumParts big sm parts =
     (let (sm, trailing) = foldl (checksumPart big) (sm, None) parts;
          sm = (case trailing of Some t \<Rightarrow> sm + push_bit 8 (ucast t) | None \<Rightarrow> sm)
      in NOT (ucast (foldSum sm)))"

definition InternetChecksumParts :: "bool \<Rightarrow> bytes list \<Rightarrow> u16" where
  "InternetChecksumParts big parts =
     (case parts of [part] \<Rightarrow> checksum big part | _ \<Rightarrow> checksumParts big 0 parts)"

text \<open>The pseudo-header sum of \<open>transportChecksumParts\<close>; \<open>None\<close> is the mixed-family case that returns 0.\<close>

definition pseudoSum :: "bool \<Rightarrow> addr \<Rightarrow> addr \<Rightarrow> u8 \<Rightarrow> nat \<Rightarrow> u32 option" where
  "pseudoSum big source target protocol payloadLength =
     (if is4 source \<and> is4 target then do {
        s \<leftarrow> as4 source;
        t \<leftarrow> as4 target;
        Some (checksumSum big s + checksumSum big t + ucast protocol + of_nat payloadLength) }
      else if is6 source \<and> is6 target then
        Some (checksumSum big (as16 source) + checksumSum big (as16 target) + of_nat (payloadLength div 65536) +
              of_nat (payloadLength mod 65536) + ucast protocol)
      else None)"

definition transportChecksumParts :: "bool \<Rightarrow> addr \<Rightarrow> addr \<Rightarrow> u8 \<Rightarrow> nat \<Rightarrow> bytes \<Rightarrow> bytes \<Rightarrow> u16" where
  "transportChecksumParts big source target protocol payloadLength first second =
     (case pseudoSum big (unmapAddr source) (unmapAddr target) protocol payloadLength of
        None \<Rightarrow> 0
      | Some sm \<Rightarrow>
          let sm = sm + checksumSum big first;
              (sm, second) =
                (if length first mod 2 \<noteq> 0 \<and> second \<noteq> [] then
                   let l = push_bit 8 (ucast (last first))
                   in (sm - l + (l OR ucast (hd second)), tl second)
                 else (sm, second));
              sm = sm + checksumSum big second
          in NOT (ucast (foldSum sm)))"

definition transportChecksum :: "bool \<Rightarrow> addr \<Rightarrow> addr \<Rightarrow> u8 \<Rightarrow> bytes \<Rightarrow> u16" where
  "transportChecksum big source target protocol payload =
     transportChecksumParts big source target protocol (length payload) payload []"

text \<open>The argument checks of the two exported functions.\<close>

definition checksumArguments :: "addr \<Rightarrow> addr \<Rightarrow> int \<Rightarrow> errno + addr \<times> addr" where
  "checksumArguments source destination protocol =
     (if addrZone source \<noteq> [] \<or> addrZone destination \<noteq> [] then Inl EINVAL
      else
        let source = unmapAddr source; destination = unmapAddr destination
        in if \<not> isValidAddr source \<or> \<not> isValidAddr destination \<or> is4 source \<noteq> is4 destination \<or>
              protocol < 0 \<or> protocol > 255 then Inl EINVAL
           else Inr (source, destination))"

definition IPTransportChecksum :: "bool \<Rightarrow> addr \<Rightarrow> addr \<Rightarrow> int \<Rightarrow> bytes \<Rightarrow> errno + u16" where
  "IPTransportChecksum big source destination protocol payload =
     (case checksumArguments source destination protocol of
        Inl e \<Rightarrow> Inl e
      | Inr (source, destination) \<Rightarrow>
          if length payload > 65535 then Inl EMSGSIZE
          else Inr (transportChecksum big source destination (of_int protocol) payload))"

fun partsLength :: "bytes list \<Rightarrow> nat \<Rightarrow> errno + nat" where
  "partsLength [] payloadLength = Inr payloadLength"
| "partsLength (part # parts) payloadLength =
     (if length part > 65535 - payloadLength then Inl EMSGSIZE
      else partsLength parts (payloadLength + length part))"

definition IPTransportChecksumParts :: "bool \<Rightarrow> addr \<Rightarrow> addr \<Rightarrow> int \<Rightarrow> bytes list \<Rightarrow> errno + u16" where
  "IPTransportChecksumParts big source destination protocol parts =
     (case checksumArguments source destination protocol of
        Inl e \<Rightarrow> Inl e
      | Inr (source, destination) \<Rightarrow>
          (case partsLength parts 0 of
             Inl e \<Rightarrow> Inl e
           | Inr payloadLength \<Rightarrow>
               (case parts of
                  [part] \<Rightarrow> Inr (transportChecksum big source destination (of_int protocol) part)
                | [first, second] \<Rightarrow>
                    Inr (transportChecksumParts big source destination (of_int protocol) payloadLength first second)
                | _ \<Rightarrow>
                    (case pseudoSum big source destination (of_int protocol) payloadLength of
                       None \<Rightarrow> Inr 0
                     | Some sm \<Rightarrow> Inr (checksumParts big sm parts)))))"

section \<open>One's-complement arithmetic\<close>

text \<open>
  RFC 1071: the checksum is the complement of the one's-complement sum of the 16-bit words in
  network order, an odd last byte being padded with zero.
\<close>

fun words16 :: "bytes \<Rightarrow> u16 list" where
  "words16 (a # b # r) = join16 a b # words16 r"
| "words16 [a] = [join16 a 0]"
| "words16 [] = []"

definition oc_add :: "u16 \<Rightarrow> u16 \<Rightarrow> u16" where
  "oc_add a b = (let n = unat a + unat b in of_nat (if n < 65536 then n else n - 65535))"

definition checksum_ref :: "bytes \<Rightarrow> u16" where
  "checksum_ref data = NOT (foldl oc_add 0 (words16 data))"

text \<open>
  Folding a sum gives its canonical representative modulo \<open>2^16 - 1\<close>, in which zero stands for the
  empty sum only.
\<close>

definition oc :: "nat \<Rightarrow> nat" where
  "oc n = (if n = 0 then 0 else if n mod 65535 = 0 then 65535 else n mod 65535)"

definition oceq :: "nat \<Rightarrow> nat \<Rightarrow> bool" where
  "oceq a b \<longleftrightarrow> a mod 65535 = b mod 65535 \<and> (a = 0 \<longleftrightarrow> b = 0)"

lemma oceq_refl [simp]: "oceq a a"
  by (simp add: oceq_def)

lemma oceq_sym: "oceq a b \<Longrightarrow> oceq b a"
  by (simp add: oceq_def)

lemma oceq_trans: "oceq a b \<Longrightarrow> oceq b c \<Longrightarrow> oceq a c"
  by (simp add: oceq_def)

lemma oceq_add: "oceq a b \<Longrightarrow> oceq c d \<Longrightarrow> oceq (a + c) (b + d)"
  unfolding oceq_def by (metis add_is_0 mod_add_cong)

lemma oceq_oc: "oceq a b \<Longrightarrow> oc a = oc b"
  by (simp add: oceq_def oc_def)

lemma oceq_mult_65536: "oceq (65536 * a) a"
  using mod_mult_self1 [of a a 65535] by (simp add: oceq_def algebra_simps)

lemma oc_unique: "v \<le> 65535 \<Longrightarrow> oceq v n \<Longrightarrow> v = oc n"
  by (cases "v = 65535") (auto simp: oceq_def oc_def)

lemma oc_le [simp]: "oc n \<le> 65535"
  by (simp add: oc_def mod_less_divisor less_imp_le)

lemma oceq_oc_self [simp]: "oceq (oc n) n"
  by (simp add: oceq_def oc_def)

lemma oceq_halves: "oceq (n mod 65536 + n div 65536) n"
proof -
  have "oceq (n mod 65536 + n div 65536) (n mod 65536 + 65536 * (n div 65536))"
    by (intro oceq_add oceq_refl oceq_sym [OF oceq_mult_65536])
  then show ?thesis by simp
qed

lemma unat_foldSum: "unat (foldSum w) = oc (unat w)"
proof (induction w rule: foldSum.induct)
  case (1 w)
  show ?case
  proof (cases "drop_bit 16 w = 0")
    case True
    then have "unat w \<le> 65535" by (simp add: drop_16_zero)
    then show ?thesis using True by (simp add: foldSum.simps [of w] oc_unique)
  next
    case False
    then have "unat (foldSum w) = oc (unat ((w AND 0xffff) + drop_bit 16 w))"
      using 1 by (simp add: foldSum.simps [of w])
    then show ?thesis by (simp only: unat_fold_step oceq_oc [OF oceq_halves])
  qed
qed

lemma unat_join16: "unat (join16 a b) = 256 * unat a + unat b"
proof -
  have "join16 a b = push_bit 8 (ucast a) + ucast b"
    unfolding join16_def by (rule disjunctive_add [symmetric]) (auto simp: bit_simps dest: bit_imp_le_length)
  then have "join16 a b = 2 ^ 8 * ucast a + ucast b" by (simp add: push_bit_eq_mult mult.commute)
  moreover have "unat (ucast x :: u16) = unat x" for x :: u8
    using unat_lt_u8 [of x] by (simp add: unsigned_ucast_eq take_bit_nat_eq_self)
  ultimately show ?thesis using unat_lt_u8 [of a] unat_lt_u8 [of b] by (simp add: unat_word_ariths)
qed

text \<open>The sum of the 16-bit words in either byte order, without wrap-around.\<close>

fun wsum :: "bool \<Rightarrow> bytes \<Rightarrow> nat" where
  "wsum big (a # b # r) = unat (load16 big a b) + wsum big r"
| "wsum big [a] = (if big then 256 * unat a else unat a)"
| "wsum big [] = 0"

lemma wsum_append: "even (length xs) \<Longrightarrow> wsum big (xs @ ys) = wsum big xs + wsum big ys"
  by (induction big xs rule: wsum.induct) auto

lemma wsum_le: "wsum big xs \<le> 65535 * length xs"
proof (induction big xs rule: wsum.induct)
  case (1 big a b r)
  then show ?case using unat_lt_u16 [of "load16 big a b"] by simp
next
  case (2 big a)
  then show ?case using unat_lt_u8 [of a] by simp
qed simp

lemma unat_load16: "unat (load16 big a b) = (if big then 256 * unat a + unat b else unat a + 256 * unat b)"
  by (simp add: load16_def unat_join16)

text \<open>Swapping the bytes of every word multiplies the sum by \<open>2^8\<close> modulo \<open>2^16 - 1\<close>.\<close>

lemma wsum_swap: "oceq (wsum False xs) (256 * wsum True xs)"
proof (induction True xs rule: wsum.induct)
  case (1 a b r)
  have "oceq (unat a + 256 * unat b) (65536 * unat a + 256 * unat b)"
    by (intro oceq_add oceq_refl oceq_sym [OF oceq_mult_65536])
  from oceq_add [OF this 1] show ?case by (simp add: unat_load16 algebra_simps)
next
  case (2 a)
  show ?case using oceq_sym [OF oceq_mult_65536 [of "unat a"]] by simp
qed simp

lemma oceq_256: "oceq a b \<Longrightarrow> oceq (256 * a) (256 * b)"
  unfolding oceq_def by (metis mod_mult_right_eq mult_eq_0_iff)

lemma oceq_swap: "oceq (unat (reverseBytes16 w)) (256 * unat w)"
proof -
  let ?hi = "unat w div 256" and ?lo = "unat w mod 256"
  have p: "unat (ucast w :: u8) = ?lo" "unat (ucast (drop_bit 8 w) :: u8) = ?hi"
    using unat_lt_u16 [of w] by (simp_all only: unsigned_ucast_eq unat_drop_bit_eq)
      (simp_all add: take_bit_eq_mod drop_bit_eq_div)
  have "oceq (256 * ?lo + ?hi) (256 * ?lo + 65536 * ?hi)"
    by (intro oceq_add oceq_refl oceq_sym [OF oceq_mult_65536])
  also have "256 * ?lo + 65536 * ?hi = 256 * unat w"
    using mult_div_mod_eq [of 256 "unat w"] by linarith
  finally show ?thesis by (simp add: reverseBytes16_def unat_join16 p)
qed

section \<open>The wide loop\<close>

definition halves :: "nat \<Rightarrow> nat" where
  "halves v = v div 4294967296 + v mod 4294967296"

lemma halves_split: "l < 4294967296 \<Longrightarrow> halves (l + 4294967296 * h) = l + h"
  by (simp add: halves_def)

lemma list8: "length xs = 8 \<Longrightarrow> \<exists>a b c d e f g h. xs = [a, b, c, d, e, f, g, h]"
  by (auto simp: numeral_eq_Suc length_Suc_conv)

lemma unat_le8:
  "unat (le_join 0 [a, b, c, d, e, f, g, h]) =
   (unat a + 256 * unat b + 65536 * (unat c + 256 * unat d)) +
   4294967296 * (unat e + 256 * unat f + 65536 * (unat g + 256 * unat h))"
  by (simp add: unat_le_join(2) del: le_join.simps) (simp add: unsigned_ucast_eq take_bit_nat_eq_self)

lemma unat_le_u8: "unat (w :: u8) \<le> 255"
  using unat_lt_u8 [of w] by linarith

lemma halves_le8:
  "halves (unat (le_join 0 [a, b, c, d, e, f, g, h])) =
   (unat a + 256 * unat b) + 65536 * (unat c + 256 * unat d) + (unat e + 256 * unat f) + 65536 * (unat g + 256 * unat h)"
proof -
  have "unat a + 256 * unat b + 65536 * (unat c + 256 * unat d) < 4294967296"
    using unat_le_u8 [of a] unat_le_u8 [of b] unat_le_u8 [of c] unat_le_u8 [of d]
    unfolding distrib_left by (simp del: of_nat_numeral)
  from halves_split [OF this, of "unat e + 256 * unat f + 65536 * (unat g + 256 * unat h)"]
  show ?thesis unfolding unat_le8 by (simp only: add.assoc)
qed

lemma list8_take: "take 8 [a, b, c, d, e, f, g, h] = [a, b, c, d, e, f, g, h]"
  by simp

lemma rev8: "rev [a, b, c, d, e, f, g, h] = [h, g, f, e, d, c, b, a]"
  by simp

lemma halves_load64:
  assumes "length xs = 8"
  shows "oceq (halves (unat (load64 big xs))) (wsum big xs)"
proof -
  obtain a b c d e f g h where xs: "xs = [a, b, c, d, e, f, g, h]" using list8 [OF assms] by blast
  have four: "oceq (p + 65536 * q + r + 65536 * s) (p + q + r + s)" for p q r s
    by (intro oceq_add oceq_refl oceq_mult_65536)
  show ?thesis
  proof (cases big)
    case True
    have "oceq (halves (unat (load64 big xs)))
      ((unat h + 256 * unat g) + (unat f + 256 * unat e) + (unat d + 256 * unat c) + (unat b + 256 * unat a))"
      unfolding load64_def be_get64_def xs list8_take rev8 using True by (simp only: if_True halves_le8 four)
    then show ?thesis by (simp add: True xs unat_load16 algebra_simps)
  next
    case False
    have "oceq (halves (unat (load64 big xs)))
      ((unat a + 256 * unat b) + (unat c + 256 * unat d) + (unat e + 256 * unat f) + (unat g + 256 * unat h))"
      unfolding load64_def le_get64_def xs list8_take using False by (simp only: if_False halves_le8 four)
    then show ?thesis by (simp add: False xs unat_load16 algebra_simps)
  qed
qed

lemma unat_halves: "unat (drop_bit 32 w) + unat (w AND 0xffffffff) = halves (unat (w :: u64))"
proof -
  have "(0xffffffff :: u64) = mask 32" by (simp add: mask_eq_exp_minus_1)
  then have "w AND 0xffffffff = take_bit 32 w" by (simp only: take_bit_eq_mask)
  then show ?thesis unfolding halves_def
    by (simp only: unat_drop_bit_eq unsigned_take_bit_eq) (simp add: take_bit_eq_mod drop_bit_eq_div)
qed

lemma halves_lt: "halves (unat (w :: u64)) < 8589934592"
proof -
  have "unat w div 4294967296 < 4294967296" using unat_lt_u64 [of w] by (simp add: less_mult_imp_div_less)
  moreover have "unat w mod 4294967296 < 4294967296" by simp
  ultimately show ?thesis unfolding halves_def by linarith
qed

text \<open>The accumulator of the wide loop does not wrap on data of up to \<open>2^32\<close> bytes.\<close>

lemma checksumWide_sum:
  assumes "unat s + 2147483648 * length data < 18446744073709551616"
  shows "\<exists>x s' rest. checksumWide big data s = (s', rest) \<and> unat s' = unat s + x \<and>
    oceq (x + wsum big rest) (wsum big data) \<and> x + 2147483648 * length rest \<le> 2147483648 * length data"
  using assms
proof (induction big data s rule: checksumWide.induct)
  case (1 big data s)
  show ?case
  proof (cases "16 \<le> length data")
    case False
    then show ?thesis by (simp add: checksumWide.simps [of big data s])
  next
    case True
    let ?f = "load64 big (take 8 data)" and ?g = "load64 big (take 8 (drop 8 data))"
    let ?d = "drop_bit 32 ?f + (?f AND 0xffffffff) + drop_bit 32 ?g + (?g AND 0xffffffff)"
    let ?x = "halves (unat ?f) + halves (unat ?g)"
    have x: "?x < 17179869184" using halves_lt [of ?f] halves_lt [of ?g] by linarith
    have parts: "unat (drop_bit 32 ?f) + unat (?f AND 0xffffffff) + unat (drop_bit 32 ?g) + unat (?g AND 0xffffffff) = ?x"
      using unat_halves [of ?f] unat_halves [of ?g] by linarith
    have d: "unat ?d = ?x"
      using x parts by (simp only: unat_word_ariths len_bit0 len_num1) (simp add: mod_add_left_eq)
    have sd: "unat (s + ?d) = unat s + ?x"
      using d x "1.prems" True by (simp add: unat_word_ariths)
    have bound: "unat (s + ?d) + 2147483648 * length (drop 16 data) < 18446744073709551616"
      using sd x "1.prems" True by simp
    obtain y s' rest where ih: "checksumWide big (drop 16 data) (s + ?d) = (s', rest)" "unat s' = unat (s + ?d) + y"
      "oceq (y + wsum big rest) (wsum big (drop 16 data))"
      "y + 2147483648 * length rest \<le> 2147483648 * length (drop 16 data)"
      using "1.IH" [OF True refl refl bound] by blast
    have split: "data = take 8 data @ take 8 (drop 8 data) @ drop 16 data"
      by (metis append_take_drop_id drop_drop numeral_Bit0)
    have "wsum big data = wsum big (take 8 data) + (wsum big (take 8 (drop 8 data)) + wsum big (drop 16 data))"
      by (subst split) (use True in \<open>simp add: wsum_append del: append_take_drop_id\<close>)
    moreover have "oceq (halves (unat ?f) + (halves (unat ?g) + (y + wsum big rest)))
      (wsum big (take 8 data) + (wsum big (take 8 (drop 8 data)) + wsum big (drop 16 data)))"
      by (intro oceq_add halves_load64 ih(3)) (use True in simp_all)
    ultimately have "oceq (?x + y + wsum big rest) (wsum big data)" by (simp add: algebra_simps)
    moreover have "?x + y + 2147483648 * length rest \<le> 2147483648 * length data"
      using ih(4) x True by (simp add: algebra_simps)
    moreover have "checksumWide big data s = (s', rest)"
      using True ih(1) by (simp add: checksumWide.simps [of big data s] Let_def)
    ultimately show ?thesis
      by (intro exI3 [of _ "?x + y" s' rest]) (use ih(2) sd in simp)
  qed
qed

lemma checksumNarrow_sum:
  "unat s + wsum big data < 18446744073709551616 \<Longrightarrow> unat (checksumNarrow big data s) = unat s + wsum big data"
proof (induction big data s rule: checksumNarrow.induct)
  case (1 big a b data s)
  have u: "unat (ucast (load16 big a b) :: u64) = unat (load16 big a b)"
    using unat_lt_u16 [of "load16 big a b"] by (simp add: unsigned_ucast_eq take_bit_nat_eq_self)
  have "unat (s + ucast (load16 big a b)) = unat s + unat (load16 big a b)"
    using "1.prems" u by (simp add: unat_word_ariths)
  then show ?case using 1 by simp
next
  case (2 big a s)
  have u: "unat (ucast a :: u64) = unat a"
    using unat_lt_u8 [of a] by (simp add: unsigned_ucast_eq take_bit_nat_eq_self)
  have "push_bit 8 (ucast a :: u64) = 2 ^ 8 * ucast a" by (simp add: push_bit_eq_mult mult.commute)
  then have "unat (push_bit 8 (ucast a :: u64)) = 256 * unat a"
    using u unat_lt_u8 [of a] by (simp add: unat_word_ariths)
  then show ?case using 2 u by (cases big) (simp_all add: unat_word_ariths)
qed simp

lemma unat_checksumSum:
  assumes "length data \<le> 4294967296"
  shows "unat (checksumSum big data) = oc (wsum True data)"
proof -
  obtain x s rest where w: "checksumWide big data 0 = (s, rest)" "unat s = x"
    "oceq (x + wsum big rest) (wsum big data)" "x + 2147483648 * length rest \<le> 2147483648 * length data"
    using checksumWide_sum [of 0 data big] assms by auto
  have "unat s + wsum big rest < 18446744073709551616"
    using w(2,4) wsum_le [of big rest] assms by linarith
  then have n: "unat (checksumNarrow big rest s) = x + wsum big rest"
    using checksumNarrow_sum w(2) by simp
  define v where "v = foldSum (checksumNarrow big rest s)"
  have v: "unat v = oc (wsum big data)" using n oceq_oc [OF w(3)] by (simp add: v_def unat_foldSum)
  then have "unat v < 65536" using oc_le [of "wsum big data"] by linarith
  then have u: "unat (ucast v :: u16) = unat v" by (simp add: unsigned_ucast_eq take_bit_nat_eq_self)
  have up: "unat (ucast y :: u32) = unat y" for y :: u16
    using unat_lt_u16 [of y] by (simp add: unsigned_ucast_eq take_bit_nat_eq_self)
  show ?thesis
  proof (cases big)
    case True
    then show ?thesis using w(1) v u up by (simp add: checksumSum_def v_def Let_def)
  next
    case False
    have "oceq (unat (reverseBytes16 (ucast v))) (256 * unat v)" using oceq_swap [of "ucast v"] u by simp
    also have "256 * unat v = 256 * oc (wsum False data)" using v False by simp
    finally have "oceq (unat (reverseBytes16 (ucast v))) (256 * wsum False data)"
      using oceq_trans oceq_256 oceq_oc_self by blast
    moreover have "oceq (256 * wsum False data) (256 * (256 * wsum True data))"
      by (rule oceq_256 [OF wsum_swap])
    moreover have "oceq (256 * (256 * wsum True data)) (wsum True data)"
      using oceq_mult_65536 [of "wsum True data"] by simp
    ultimately have "oceq (unat (reverseBytes16 (ucast v))) (wsum True data)" using oceq_trans by blast
    moreover have "unat (reverseBytes16 (ucast v)) \<le> 65535" using unat_lt_u16 [of "reverseBytes16 (ucast v)"] by linarith
    ultimately have "unat (reverseBytes16 (ucast v)) = oc (wsum True data)" by (intro oc_unique)
    then show ?thesis using w(1) up False by (simp add: checksumSum_def v_def Let_def)
  qed
qed

section \<open>Equivalence with RFC 1071\<close>

lemma unat_le_u16: "unat (w :: u16) \<le> 65535"
  using unat_lt_u16 [of w] by linarith

lemma oc_id: "n \<le> 65535 \<Longrightarrow> oc n = n"
  using oc_unique [of n n] by simp

lemma unat_of_nat_u16: "n < 65536 \<Longrightarrow> unat (of_nat n :: u16) = n"
  by (simp add: unat_of_nat take_bit_nat_eq_self)

lemma unat_oc_add: "unat (oc_add a b) = oc (unat a + unat b)"
proof (cases "unat a + unat b < 65536")
  case True
  then show ?thesis using oc_id [of "unat a + unat b"]
    by (simp only: oc_add_def Let_def if_True unat_of_nat_u16)
next
  case False
  let ?n = "unat a + unat b"
  have le: "?n - 65535 \<le> 65535" using unat_lt_u16 [of a] unat_lt_u16 [of b] by linarith
  have "oceq (?n - 65535) ?n"
    using False mod_add_self2 [of "?n - 65535" 65535] by (auto simp: oceq_def)
  with le have "?n - 65535 = oc ?n" by (rule oc_unique)
  moreover have "unat (of_nat (?n - 65535) :: u16) = ?n - 65535"
    using le by (intro unat_of_nat_u16) linarith
  ultimately show ?thesis using False by (simp only: oc_add_def Let_def if_False)
qed

lemma unat_oc_fold: "unat (foldl oc_add a ws) = oc (unat a + sum_list (map unat ws))"
proof (induction ws arbitrary: a)
  case Nil
  then show ?case by (simp add: oc_id unat_le_u16)
next
  case (Cons w ws)
  have "oceq (oc (unat a + unat w) + sum_list (map unat ws)) (unat a + unat w + sum_list (map unat ws))"
    by (intro oceq_add oceq_refl oceq_oc_self)
  then show ?case using Cons [of "oc_add a w"] by (simp add: unat_oc_add oceq_oc algebra_simps)
qed

lemma wsum_words: "wsum True data = sum_list (map unat (words16 data))"
  by (induction data rule: words16.induct) (auto simp: load16_def unat_join16)

lemma checksum_ref_oc: "checksum_ref data = NOT (of_nat (oc (wsum True data)))"
proof -
  have "foldl oc_add 0 (words16 data) = of_nat (oc (wsum True data))"
    using unat_oc_fold [of 0 "words16 data"] by (simp add: wsum_words) (metis of_nat_unat_ucast)
  then show ?thesis by (simp add: checksum_ref_def)
qed

lemma finish_oc: "(ucast (foldSum (s :: u32)) :: u16) = of_nat (oc (unat s))"
proof -
  have "unat (foldSum s) = oc (unat s)" by (rule unat_foldSum)
  then have "(of_nat (unat (foldSum s)) :: u16) = of_nat (oc (unat s))" by simp
  then show ?thesis by (simp add: of_nat_unat)
qed

lemma checksum_eq_ref: "length data \<le> 4294967296 \<Longrightarrow> checksum big data = checksum_ref data"
  by (simp add: checksum_def finish_oc unat_checksumSum checksum_ref_oc oc_id)

text \<open>
  C28: the checksum over data of up to \<open>2^32\<close> bytes, computed by 64-bit accumulation in the byte
  order of the target, is the Internet checksum of RFC 1071, on big- and on little-endian targets.
\<close>

theorem checksum_rfc1071:
  assumes "length data \<le> 4294967296"
  shows "checksum big data = checksum_ref data \<and> InternetChecksum big data = checksum_ref data"
  using checksum_eq_ref [OF assms] by (simp add: InternetChecksum_def)

theorem checksum_rfc1071_witness:
  "length [0x45, 0x00, 0x00, 0x73, 0x00, 0x00, 0x40, 0x00, 0x40, 0x11, 0, 0, 0xc0, 0xa8, 0x00, 0x01, 0xc0, 0xa8, 0x00, 0xc7 :: u8]
     \<le> 4294967296 \<and>
   checksum False [0x45, 0x00, 0x00, 0x73, 0x00, 0x00, 0x40, 0x00, 0x40, 0x11, 0, 0, 0xc0, 0xa8, 0x00, 0x01, 0xc0, 0xa8, 0x00, 0xc7]
     = 0xb861"
proof -
  let ?d = "[0x45, 0x00, 0x00, 0x73, 0x00, 0x00, 0x40, 0x00, 0x40, 0x11, 0, 0, 0xc0, 0xa8, 0x00, 0x01, 0xc0, 0xa8, 0x00, 0xc7] :: bytes"
  have "checksum_ref ?d = 0xb861" by (simp add: checksum_ref_oc unat_load16 oc_def)
  then show ?thesis using checksum_rfc1071 [of ?d False] by simp
qed

section \<open>Several regions\<close>

lemma wsum_odd: "odd (length xs) \<Longrightarrow> wsum True (xs @ b # ys) = wsum True xs + unat b + wsum True ys"
proof (induction True xs rule: wsum.induct)
  case (2 a)
  show ?case by (simp add: unat_load16)
qed auto

lemma wsum_take_even:
  "wsum True r = wsum True (take (length r - length r mod 2) r) +
     (if length r - length r mod 2 \<noteq> length r then 256 * unat (r ! (length r - length r mod 2)) else 0)"
proof (cases "even (length r)")
  case False
  then obtain ys z where r: "r = ys @ [z]" by (cases r rule: rev_cases) auto
  with False have "even (length ys)" by simp
  then have "length r - length r mod 2 = length ys" by (simp add: r mod_2_eq_odd)
  with r \<open>even (length ys)\<close> show ?thesis by (simp add: wsum_append)
qed simp

lemma even_part: "n - n mod 2 \<noteq> n \<longleftrightarrow> odd (n :: nat)"
  by presburger

lemma odd_tl: "part \<noteq> [] \<Longrightarrow> odd (length (tl part)) = even (length part)"
  by (cases part) auto

definition pending :: "u8 option \<Rightarrow> nat" where
  "pending t = (case t of Some b \<Rightarrow> 256 * unat b | None \<Rightarrow> 0)"

lemma push_or8: "push_bit 8 (ucast t) OR ucast b = (of_nat (256 * unat (t :: u8) + unat (b :: u8)) :: u32)"
proof -
  have "push_bit 8 (ucast t) OR ucast b = (push_bit 8 (ucast t) + ucast b :: u32)"
    by (rule disjunctive_add [symmetric]) (auto simp: bit_simps dest: bit_imp_le_length)
  then show ?thesis by (simp add: push_bit_eq_mult of_nat_unat mult.commute)
qed

lemma push8: "push_bit 8 (ucast (t :: u8)) = (of_nat (256 * unat t) :: u32)"
  using push_or8 [of t 0] by simp

lemma checksumPart_step:
  assumes "unat s \<le> 3000000000" "length part \<le> 4294967296"
    "checksumPart big (s, trailing) part = (s', trailing')"
  shows "unat s' \<le> max 65535 (unat s)"
    "oceq (unat s' + pending trailing') (unat s + pending trailing + (if part = [] then 0 else
       (case trailing of None \<Rightarrow> wsum True part | Some _ \<Rightarrow> unat (hd part) + wsum True (tl part))))"
    "trailing' \<noteq> None \<longleftrightarrow> (odd (length part) \<noteq> (trailing \<noteq> None))"
proof -
  have "unat s' \<le> max 65535 (unat s) \<and>
    oceq (unat s' + pending trailing') (unat s + pending trailing + (if part = [] then 0 else
       (case trailing of None \<Rightarrow> wsum True part | Some _ \<Rightarrow> unat (hd part) + wsum True (tl part)))) \<and>
    (trailing' \<noteq> None \<longleftrightarrow> (odd (length part) \<noteq> (trailing \<noteq> None)))"
  proof (cases "part = []")
    case True
    then show ?thesis using assms(3) by (simp add: checksumPart_def)
  next
    case False
    define r where "r = (case trailing of None \<Rightarrow> part | Some _ \<Rightarrow> tl part)"
    define s1 where "s1 = (case trailing of None \<Rightarrow> s | Some t \<Rightarrow> s + of_nat (256 * unat t + unat (hd part)))"
    define e where "e = length r - length r mod 2"
    define s2 where "s2 = (if e \<noteq> 0 then s1 + checksumSum big (take e r) else s1)"
    have u1: "unat s1 = unat s + pending trailing + (case trailing of None \<Rightarrow> 0 | Some _ \<Rightarrow> unat (hd part))"
    proof (cases trailing)
      case (Some t)
      have "unat (of_nat (256 * unat t + unat (hd part)) :: u32) = 256 * unat t + unat (hd part)"
        using unat_le_u8 [of t] unat_le_u8 [of "hd part"] by (intro unat_of_nat_u32) linarith
      then show ?thesis using Some assms(1) unat_le_u8 [of t] unat_le_u8 [of "hd part"]
        by (simp add: s1_def pending_def unat_word_ariths)
    qed (simp add: s1_def pending_def)
    have p: "pending trailing \<le> 65280" "(case trailing of None \<Rightarrow> 0 | Some _ \<Rightarrow> unat (hd part)) \<le> 255"
      using unat_le_u8 [of "hd part"] by (auto simp: pending_def split: option.splits) (use unat_le_u8 in force)
    have c: "unat (checksumSum big (take e r)) = oc (wsum True (take e r))"
      by (rule unat_checksumSum) (use assms(2) in \<open>auto simp: r_def split: option.splits\<close>)
    have u2: "oceq (unat s2) (unat s1 + wsum True (take e r))"
    proof (cases "e = 0")
      case False
      have "unat s2 = unat s1 + oc (wsum True (take e r))"
      proof -
        have "unat s1 + oc (wsum True (take e r)) < 4294967296"
          using u1 p assms(1) oc_le [of "wsum True (take e r)"] by linarith
        then show ?thesis using False c by (simp add: s2_def unat_word_ariths)
      qed
      then show ?thesis by (simp add: oceq_add)
    qed (simp add: s2_def)
    have res: "s' = foldSum s2" "trailing' = (if e \<noteq> length r then Some (r ! e) else None)"
      using assms(3) False by (auto simp: checksumPart_def Let_def s2_def e_def s1_def r_def push_or8 split: option.splits)
    have "oceq (unat s') (unat s1 + wsum True (take e r))"
      using u2 by (simp add: res(1) unat_foldSum) (meson oceq_oc_self oceq_trans)
    then have "oceq (unat s' + pending trailing') (unat s1 + wsum True (take e r) + pending trailing')"
      by (rule oceq_add) simp
    moreover have "wsum True (take e r) + pending trailing' = wsum True r"
      using wsum_take_even [of r] by (auto simp: res(2) pending_def e_def)
    moreover have "unat s' \<le> 65535" by (simp add: res(1) unat_foldSum)
    moreover have "trailing' \<noteq> None \<longleftrightarrow> odd (length r)"
      by (simp add: res(2) e_def even_part)
    moreover have "odd (length r) \<longleftrightarrow> (odd (length part) \<noteq> (trailing \<noteq> None))"
      using odd_tl [OF False] by (cases trailing) (simp_all add: r_def)
    ultimately show ?thesis using False u1
      by (cases trailing) (simp_all add: r_def add.assoc)
  qed
  then show "unat s' \<le> max 65535 (unat s)"
    "oceq (unat s' + pending trailing') (unat s + pending trailing + (if part = [] then 0 else
       (case trailing of None \<Rightarrow> wsum True part | Some _ \<Rightarrow> unat (hd part) + wsum True (tl part))))"
    "trailing' \<noteq> None \<longleftrightarrow> (odd (length part) \<noteq> (trailing \<noteq> None))" by auto
qed

lemma wsum_extend:
  assumes "p \<noteq> []"
  shows "wsum True (d @ p) = wsum True d + (if even (length d) then wsum True p else unat (hd p) + wsum True (tl p))"
  using assms by (cases p) (auto simp: wsum_append wsum_odd)

lemma checksumParts_fold:
  assumes "unat s \<le> 2000000000" "\<forall>p \<in> set parts. length p \<le> 4294967296"
  shows "\<exists>s' t. foldl (checksumPart big) (s, None) parts = (s', t) \<and> unat s' \<le> 2000000000 \<and>
    (t \<noteq> None \<longleftrightarrow> odd (length (concat parts))) \<and> oceq (unat s' + pending t) (unat s + wsum True (concat parts))"
  using assms(2)
proof (induction parts rule: rev_induct)
  case Nil
  then show ?case using assms(1) by (simp add: pending_def)
next
  case (snoc p parts)
  then obtain s1 t1 where ih: "foldl (checksumPart big) (s, None) parts = (s1, t1)" "unat s1 \<le> 2000000000"
    "t1 \<noteq> None \<longleftrightarrow> odd (length (concat parts))" "oceq (unat s1 + pending t1) (unat s + wsum True (concat parts))"
    by auto
  obtain s2 t2 where st: "checksumPart big (s1, t1) p = (s2, t2)" by fastforce
  have len: "length p \<le> 4294967296" using snoc.prems by simp
  note step = checksumPart_step [OF order_trans [OF ih(2)] len st, simplified]
  define x where "x = (if p = [] then 0 else
       (case t1 of None \<Rightarrow> wsum True p | Some _ \<Rightarrow> unat (hd p) + wsum True (tl p)))"
  have a: "oceq (unat s2 + pending t2) (unat s1 + pending t1 + x)"
    using step(2) by (simp add: x_def)
  have b: "oceq (unat s1 + pending t1 + x) (unat s + wsum True (concat parts) + x)"
    by (rule oceq_add [OF ih(4)]) simp
  have c: "wsum True (concat (parts @ [p])) = wsum True (concat parts) + x"
  proof (cases "p = []")
    case False
    then show ?thesis using ih(3) wsum_extend [OF False, of "concat parts"]
      by (cases t1) (simp_all add: x_def)
  qed (simp add: x_def)
  have "oceq (unat s2 + pending t2) (unat s + wsum True (concat (parts @ [p])))"
    using oceq_trans [OF a b] by (simp only: c add.assoc)
  moreover have "unat s2 \<le> 2000000000" using step(1) ih(2) by simp
  moreover have "t2 \<noteq> None \<longleftrightarrow> odd (length (concat (parts @ [p])))"
    using checksumPart_step(3) [OF _ len st] ih(2,3) by auto
  ultimately show ?case using ih(1) st by simp
qed

lemma checksumParts_eq:
  assumes "unat s \<le> 2000000000" "\<forall>p \<in> set parts. length p \<le> 4294967296"
  shows "checksumParts big s parts = NOT (of_nat (oc (unat s + wsum True (concat parts))))"
proof -
  obtain s' t where f: "foldl (checksumPart big) (s, None) parts = (s', t)" "unat s' \<le> 2000000000"
    "oceq (unat s' + pending t) (unat s + wsum True (concat parts))"
    using checksumParts_fold [OF assms] by blast
  define s2 where "s2 = (case t of Some b \<Rightarrow> s' + push_bit 8 (ucast b) | None \<Rightarrow> s')"
  have "unat s2 = unat s' + pending t"
  proof (cases t)
    case (Some b)
    have "unat (of_nat (256 * unat b) :: u32) = 256 * unat b"
      using unat_le_u8 [of b] by (intro unat_of_nat_u32) linarith
    then have "unat (s' + of_nat (256 * unat b)) = unat s' + 256 * unat b"
      using f(2) unat_le_u8 [of b] by (simp add: unat_add_u32)
    then show ?thesis using Some by (simp add: s2_def pending_def push8)
  qed (simp add: s2_def pending_def)
  then have "oc (unat s2) = oc (unat s + wsum True (concat parts))" using oceq_oc [OF f(3)] by simp
  then show ?thesis using f(1) by (simp add: checksumParts_def s2_def finish_oc)
qed

text \<open>The pseudo-headers of RFC 793 and RFC 8200.\<close>

definition pseudoHeader :: "addr \<Rightarrow> addr \<Rightarrow> u8 \<Rightarrow> nat \<Rightarrow> bytes" where
  "pseudoHeader source target protocol len =
     (case (source, target) of
        (Addr4 s, Addr4 t) \<Rightarrow> be_put32 s @ be_put32 t @ [0, protocol] @ be_put16 (of_nat len)
      | (s, t) \<Rightarrow> as16 s @ as16 t @ be_put32 (of_nat len) @ [0, 0, 0, protocol])"

lemma unat_hi_lo16: "256 * unat (ucast (drop_bit 8 w) :: u8) + unat (ucast w :: u8) = unat (w :: u16)"
proof -
  have "unat (join16 (ucast (drop_bit 8 w)) (ucast w)) = unat w" by (simp only: join16_split)
  then show ?thesis by (simp only: unat_join16)
qed

lemma wsum_put16: "n < 65536 \<Longrightarrow> wsum True (be_put16 (of_nat n)) = n"
  by (simp add: be_put16_def unat_load16 unat_hi_lo16 unat_of_nat_u16)

lemma wsum_put32: "n < 65536 \<Longrightarrow> wsum True (be_put32 (of_nat n)) = n"
proof -
  assume n: "n < 65536"
  have z: "ucast (drop_bit 24 (of_nat n :: u32)) = (0 :: u8)" "ucast (drop_bit 16 (of_nat n :: u32)) = (0 :: u8)"
  proof -
    have d: "drop_bit 16 (of_nat n :: u32) = 0" using n by (simp only: drop_16_zero) (simp add: unat_of_nat_u32)
    have "drop_bit 24 (of_nat n :: u32) = drop_bit 8 (drop_bit 16 (of_nat n))" by (simp only: drop_bit_drop_bit) simp
    then show "ucast (drop_bit 24 (of_nat n :: u32)) = (0 :: u8)" by (simp only: d drop_bit_of_0 unsigned_0)
    show "ucast (drop_bit 16 (of_nat n :: u32)) = (0 :: u8)" by (simp only: d unsigned_0)
  qed
  have e: "ucast (drop_bit 8 (of_nat n :: u32)) = (ucast (drop_bit 8 (of_nat n :: u16)) :: u8)"
    "ucast (of_nat n :: u32) = (ucast (of_nat n :: u16) :: u8)"
    by (intro bit_word_eqI; auto simp: bit_simps)+
  show ?thesis using n by (simp add: be_put32_def z e unat_load16 unat_hi_lo16 unat_of_nat_u16)
qed

definition same_family :: "addr \<Rightarrow> addr \<Rightarrow> bool" where
  "same_family a b \<longleftrightarrow> is4 a \<and> is4 b \<or> is6 a \<and> is6 b"

lemma wsum_pair: "wsum True [0, p] = unat p" "wsum True [0, 0, 0, p] = unat p"
  by (simp_all add: unat_load16)

lemma unat_ucast_u8: "unat (ucast (p :: u8) :: u32) = unat p"
  using unat_lt_u8 [of p] by (simp add: unsigned_ucast_eq take_bit_nat_eq_self)

lemma unat_add_small: "unat a + unat b < 4294967296 \<Longrightarrow> unat (a + b :: u32) = unat a + unat b"
  by (simp add: unat_add_u32)

lemma unat_add_le: "unat a = x \<Longrightarrow> unat b = y \<Longrightarrow> x + y < 4294967296 \<Longrightarrow> unat (a + b :: u32) = x + y"
  by (simp add: unat_add_u32)

lemma even_pseudoHeader: "same_family s t \<Longrightarrow> even (length (pseudoHeader s t p n))"
  by (cases s; cases t) (auto simp: same_family_def pseudoHeader_def)

lemma pseudoSum_eq:
  assumes "same_family s t" "len \<le> 65535"
  shows "\<exists>x. pseudoSum big s t p len = Some x \<and> unat x \<le> 1000000 \<and> oceq (unat x) (wsum True (pseudoHeader s t p len))"
proof -
  have p: "unat p \<le> 255" by (rule unat_le_u8)
  have l: "unat (of_nat len :: u32) = len" "unat (of_nat (len mod 65536) :: u32) = len" "len div 65536 = 0"
    using assms(2) by (simp_all add: unat_of_nat_u32)
  from assms(1) consider (v4) a b where "s = Addr4 a" "t = Addr4 b" | (v6) a z b y where "s = Addr6 a z" "t = Addr6 b y"
    by (cases s; cases t) (auto simp: same_family_def)
  then show ?thesis
  proof cases
    case v4
    let ?a = "oc (wsum True (be_put32 a))" and ?b = "oc (wsum True (be_put32 b))"
    have c: "unat (checksumSum big (be_put32 w)) = oc (wsum True (be_put32 w))" for w by (rule unat_checksumSum) simp
    note b = oc_le [of "wsum True (be_put32 a)"] oc_le [of "wsum True (be_put32 b)"]
    have s1: "unat (checksumSum big (be_put32 a) + checksumSum big (be_put32 b)) = ?a + ?b"
      by (rule unat_add_le [OF c c]) (use b in linarith)
    have s2: "unat (checksumSum big (be_put32 a) + checksumSum big (be_put32 b) + ucast p) = ?a + ?b + unat p"
      by (rule unat_add_le [OF s1 unat_ucast_u8]) (use b p in linarith)
    have s3: "unat (checksumSum big (be_put32 a) + checksumSum big (be_put32 b) + ucast p + of_nat len) = ?a + ?b + unat p + len"
      by (rule unat_add_le [OF s2 l(1)]) (use b p assms(2) in linarith)
    have w: "wsum True (pseudoHeader s t p len) = wsum True (be_put32 a) + wsum True (be_put32 b) + unat p + len"
      using assms(2) unfolding pseudoHeader_def v4 by (simp only: addr.case prod.case)
        (simp add: wsum_append wsum_put16 wsum_pair del: wsum.simps append.simps append_Cons)
    have "oceq (?a + ?b + unat p + len) (wsum True (be_put32 a) + wsum True (be_put32 b) + unat p + len)"
      by (intro oceq_add oceq_refl oceq_oc_self)
    moreover have "?a + ?b + unat p + len \<le> 1000000" using b p assms(2) by linarith
    ultimately show ?thesis using s3 unfolding w by (simp add: pseudoSum_def v4)
  next
    case v6
    let ?a = "oc (wsum True (bytes16 a))" and ?b = "oc (wsum True (bytes16 b))"
    have c: "unat (checksumSum big (bytes16 w)) = oc (wsum True (bytes16 w))" for w by (rule unat_checksumSum) simp
    note b = oc_le [of "wsum True (bytes16 a)"] oc_le [of "wsum True (bytes16 b)"]
    have s1: "unat (checksumSum big (bytes16 a) + checksumSum big (bytes16 b)) = ?a + ?b"
      by (rule unat_add_le [OF c c]) (use b in linarith)
    have s2: "unat (checksumSum big (bytes16 a) + checksumSum big (bytes16 b) + of_nat (len mod 65536)) = ?a + ?b + len"
      by (rule unat_add_le [OF s1 l(2)]) (use b assms(2) in linarith)
    have s3: "unat (checksumSum big (bytes16 a) + checksumSum big (bytes16 b) + of_nat (len mod 65536) + ucast p) = ?a + ?b + len + unat p"
      by (rule unat_add_le [OF s2 unat_ucast_u8]) (use b p assms(2) in linarith)
    have w: "wsum True (pseudoHeader s t p len) = wsum True (bytes16 a) + wsum True (bytes16 b) + len + unat p"
      using assms(2) unfolding pseudoHeader_def v6 by (simp only: addr.case prod.case as16.simps)
        (simp add: wsum_append wsum_put32 wsum_pair del: wsum.simps append.simps append_Cons)
    have "oceq (?a + ?b + len + unat p) (wsum True (bytes16 a) + wsum True (bytes16 b) + len + unat p)"
      by (intro oceq_add oceq_refl oceq_oc_self)
    moreover have "?a + ?b + len + unat p \<le> 1000000" using b p assms(2) by linarith
    ultimately show ?thesis using s3 l(3) unfolding w by (simp add: pseudoSum_def v6)
  qed
qed

text \<open>
  The correction for an odd first region subtracts the padded last byte and adds the joined word;
  the subtraction may wrap, and the addition undoes it.
\<close>

lemma transportChecksumParts_eq:
  assumes "same_family s t" "unmapAddr s = s" "unmapAddr t = t" "length first + length second \<le> 65535"
  shows "transportChecksumParts big s t p (length first + length second) first second =
    checksum_ref (pseudoHeader s t p (length first + length second) @ first @ second)"
proof -
  let ?n = "length first + length second" and ?ph = "pseudoHeader s t p (length first + length second)"
  obtain x where x: "pseudoSum big s t p ?n = Some x" "unat x \<le> 1000000" "oceq (unat x) (wsum True ?ph)"
    using pseudoSum_eq [OF assms(1,4)] by blast
  have cs: "unat (checksumSum big d) = oc (wsum True d)" if "length d \<le> 65535" for d
    using that by (intro unat_checksumSum) simp
  define s1 where "s1 = x + checksumSum big first"
  have s1: "unat s1 = unat x + oc (wsum True first)"
    unfolding s1_def by (rule unat_add_le [OF refl cs]) (use assms(4) x(2) oc_le [of "wsum True first"] in linarith)+
  define joined where "joined \<longleftrightarrow> length first mod 2 \<noteq> 0 \<and> second \<noteq> []"
  define s2 where "s2 = (if joined then s1 + ucast (hd second) else s1)"
  define rest where "rest = (if joined then tl second else second)"
  have s2: "unat s2 = unat s1 + (if joined then unat (hd second) else 0)"
  proof (cases joined)
    case True
    have "unat (s1 + ucast (hd second)) = unat s1 + unat (hd second)"
      by (rule unat_add_le [OF refl unat_ucast_u8])
        (use s1 x(2) oc_le [of "wsum True first"] unat_le_u8 [of "hd second"] in linarith)
    with True show ?thesis by (simp add: s2_def)
  qed (simp add: s2_def)
  have rl: "length rest \<le> 65535" using assms(4) by (auto simp: rest_def)
  define s3 where "s3 = s2 + checksumSum big rest"
  have "unat s2 + oc (wsum True rest) < 4294967296"
  proof -
    have "(if joined then unat (hd second) else 0) \<le> 255" using unat_le_u8 [of "hd second"] by simp
    then show ?thesis
      using s2 s1 x(2) oc_le [of "wsum True first"] oc_le [of "wsum True rest"] by linarith
  qed
  then have s3: "unat s3 = unat s2 + oc (wsum True rest)"
    unfolding s3_def by (rule unat_add_le [OF refl cs [OF rl]])
  have w: "wsum True (first @ second) = wsum True first + (if joined then unat (hd second) else 0) + wsum True rest"
  proof (cases "second = []")
    case False
    then show ?thesis using wsum_extend [OF False, of first]
      by (auto simp: joined_def rest_def mod_2_eq_odd)
  qed (simp add: joined_def rest_def)
  have "oceq (unat s3) (wsum True ?ph + wsum True first + (if joined then unat (hd second) else 0) + wsum True rest)"
    unfolding s3 s2 s1 by (intro oceq_add x(3) oceq_refl oceq_oc_self)
  then have "oc (unat s3) = oc (wsum True (?ph @ first @ second))"
    using even_pseudoHeader [OF assms(1)] by (intro oceq_oc) (simp add: wsum_append w add.assoc)
  moreover have "transportChecksumParts big s t p ?n first second = NOT (ucast (foldSum s3))"
  proof -
    have split: "push_bit 8 (ucast (last first)) OR ucast (hd second) =
        (push_bit 8 (ucast (last first)) + ucast (hd second) :: u32)"
      by (subst push_or8) (simp only: push8 of_nat_add of_nat_unat)
    have "s1 - l + (l + y) = s1 + y" for l y by simp
    then show ?thesis
      unfolding transportChecksumParts_def assms(2,3) x(1) option.case Let_def s3_def s2_def rest_def s1_def split
      by (cases joined) (auto simp: joined_def add.assoc)
  qed
  ultimately show ?thesis by (simp add: finish_oc checksum_ref_oc)
qed

lemma transportChecksum_eq:
  assumes "same_family s t" "unmapAddr s = s" "unmapAddr t = t" "length payload \<le> 65535"
  shows "transportChecksum big s t p payload = checksum_ref (pseudoHeader s t p (length payload) @ payload)"
  using transportChecksumParts_eq [of s t payload "[]" big p] assms by (simp add: transportChecksum_def)

definition badArguments :: "addr \<Rightarrow> addr \<Rightarrow> int \<Rightarrow> bool" where
  "badArguments s d p \<longleftrightarrow> addrZone s \<noteq> [] \<or> addrZone d \<noteq> [] \<or> \<not> same_family (unmapAddr s) (unmapAddr d) \<or> p \<notin> {0..255}"

lemma checksumArguments_eq:
  "checksumArguments s d p = (if badArguments s d p then Inl EINVAL else Inr (unmapAddr s, unmapAddr d))"
  by (cases s; cases d) (auto simp: checksumArguments_def badArguments_def same_family_def isValidAddr_def Let_def)

lemma partsLength_eq:
  "n \<le> 65535 \<Longrightarrow> partsLength parts n = (if n + length (concat parts) > 65535 then Inl EMSGSIZE else Inr (n + length (concat parts)))"
  by (induction parts arbitrary: n) auto

text \<open>
  C29: the exported transport checksum over any list of regions is the RFC 1071 checksum of the
  pseudo-header followed by the regions joined together: odd boundaries, empty regions and the
  special cases for one and two regions make no difference. Zoned, invalid or mixed-family
  addresses and protocols outside 0 to 255 give EINVAL, and more than 65535 bytes EMSGSIZE.
\<close>

theorem IPTransportChecksumParts_eq:
  "IPTransportChecksumParts big s d p parts =
     (if badArguments s d p then Inl EINVAL
      else if length (concat parts) > 65535 then Inl EMSGSIZE
      else Inr (checksum_ref (pseudoHeader (unmapAddr s) (unmapAddr d) (of_int p) (length (concat parts)) @ concat parts)))"
proof (cases "badArguments s d p \<or> length (concat parts) > 65535")
  case True
  then show ?thesis
    by (auto simp: IPTransportChecksumParts_def checksumArguments_eq partsLength_eq)
next
  case False
  let ?s = "unmapAddr s" and ?d = "unmapAddr d" and ?n = "length (concat parts)" and ?p = "of_int p :: u8"
  have fam: "same_family ?s ?d" and n: "?n \<le> 65535" using False by (auto simp: badArguments_def)
  have part: "length x \<le> 65535" if "x \<in> set parts" for x
    using that n by (auto simp: length_concat dest!: split_list)
  obtain x where x: "pseudoSum big ?s ?d ?p ?n = Some x" "unat x \<le> 1000000"
      "oceq (unat x) (wsum True (pseudoHeader ?s ?d ?p ?n))"
    using pseudoSum_eq [OF fam n] by blast
  have "oceq (unat x + wsum True (concat parts)) (wsum True (pseudoHeader ?s ?d ?p ?n) + wsum True (concat parts))"
    by (rule oceq_add [OF x(3)]) simp
  then have gen: "checksumParts big x parts = checksum_ref (pseudoHeader ?s ?d ?p ?n @ concat parts)"
    using x(2) part even_pseudoHeader [OF fam, of ?p ?n]
    by (subst checksumParts_eq) (force simp: checksum_ref_oc wsum_append oceq_oc)+
  have two: "transportChecksumParts big ?s ?d ?p ?n a b = checksum_ref (pseudoHeader ?s ?d ?p ?n @ concat parts)"
    if "parts = [a, b]" for a b
    using transportChecksumParts_eq [OF fam, of a b big ?p] n that by simp
  have one: "transportChecksum big ?s ?d ?p a = checksum_ref (pseudoHeader ?s ?d ?p ?n @ concat parts)"
    if "parts = [a]" for a
    using transportChecksum_eq [OF fam, of a big ?p] n that by simp
  have start: "IPTransportChecksumParts big s d p parts = (case parts of
        [part] \<Rightarrow> Inr (transportChecksum big ?s ?d ?p part)
      | [first, second] \<Rightarrow> Inr (transportChecksumParts big ?s ?d ?p ?n first second)
      | _ \<Rightarrow> Inr (checksumParts big x parts))"
    using False x(1) by (auto simp: IPTransportChecksumParts_def checksumArguments_eq partsLength_eq split: list.splits)
  show ?thesis unfolding start using False gen one two by (auto split: list.splits)
qed

section \<open>Verification\<close>

lemma checksum_insert_zero:
  assumes "even (length p)" "length p + length q \<le> 4294967000"
  shows "checksum big (p @ be_put16 (checksum big (p @ 0 # 0 # q)) @ q) = 0"
proof -
  let ?n = "wsum True (p @ 0 # 0 # q)"
  have n: "?n = wsum True p + wsum True q" using assms(1) by (simp add: wsum_append unat_load16)
  have "(NOT (of_nat (oc ?n)) :: u16) = of_nat (65535 - oc ?n)"
  proof -
    have "(NOT (of_nat (oc ?n)) :: u16) = 65535 - of_nat (oc ?n)"
    proof -
      have "(65535 :: u16) = - 1" by simp
      then show ?thesis by (simp only: not_eq_complement) simp
    qed
    then show ?thesis using oc_le [of ?n] by (simp add: of_nat_diff)
  qed
  then have c: "checksum big (p @ 0 # 0 # q) = of_nat (65535 - oc ?n)"
    using assms(2) by (simp add: checksum_eq_ref checksum_ref_oc)
  define k where "k = 65535 - oc ?n"
  let ?m = "wsum True (p @ be_put16 (of_nat k) @ q)"
  have "wsum True (be_put16 (of_nat k)) = k" by (rule wsum_put16) (simp add: k_def)
  then have "?m = wsum True p + (k + wsum True q)"
    using assms(1) by (simp add: wsum_append)
  then have m: "?m = ?n + (65535 - oc ?n)" using n k_def by linarith
  have "oceq (?n + (65535 - oc ?n)) (oc ?n + (65535 - oc ?n))"
    by (intro oceq_add oceq_sym [OF oceq_oc_self] oceq_refl)
  then have "oceq ?m 65535" using m oc_le [of ?n] by simp
  then have "oc ?m = 65535" using oceq_oc [of ?m 65535] by (simp add: oc_def)
  then show ?thesis unfolding c k_def [symmetric] using assms(2) by (subst checksum_eq_ref) (simp_all add: checksum_ref_oc)
qed

end
