(* ===== verification/Ip_Options.thy ===== *)
theory Ip_Options
  imports Checksum
begin

text \<open>
  IPv4 header options and IPv6 extension headers of \<^verbatim>\<open>src/packet.go\<close>: the option codecs, the length
  rules of the extension headers, and the option inspections of the receive path.

  The loops over an IPv4 option area share one shape (End, NOP, a length that is validated, a body
  per option), and so do the loops over IPv6 options. \<open>walk4\<close> and \<open>walk6\<close> are these loops; the
  arguments are what the routine does at each exit. A read of the area goes through \<open>go_index\<close> or
  \<open>go_slice\<close>, so \<open>None\<close> is an index panic.
\<close>

section \<open>Constants\<close>

definition ProtocolICMPv4 :: u8 where "ProtocolICMPv4 = 1"
definition ProtocolIGMP :: u8 where "ProtocolIGMP = 2"
definition ProtocolTCP :: u8 where "ProtocolTCP = 6"
definition ProtocolUDP :: u8 where "ProtocolUDP = 17"
definition ProtocolESP :: u8 where "ProtocolESP = 50"
definition ProtocolICMPv6 :: u8 where "ProtocolICMPv6 = 58"
definition ProtocolNoNextHeader :: u8 where "ProtocolNoNextHeader = 59"

definition IPv4HeaderOptionEnd :: u8 where "IPv4HeaderOptionEnd = 0"
definition IPv4HeaderOptionNOP :: u8 where "IPv4HeaderOptionNOP = 1"
definition IPv4HeaderOptionRecordRoute :: u8 where "IPv4HeaderOptionRecordRoute = 7"
definition IPv4HeaderOptionTimestamp :: u8 where "IPv4HeaderOptionTimestamp = 68"
definition IPv4HeaderOptionLooseSourceRoute :: u8 where "IPv4HeaderOptionLooseSourceRoute = 131"
definition IPv4HeaderOptionStrictSourceRoute :: u8 where "IPv4HeaderOptionStrictSourceRoute = 137"
definition IPv4HeaderOptionRouterAlert :: u8 where "IPv4HeaderOptionRouterAlert = 148"

definition IPv6ExtensionHeaderHopByHop :: u8 where "IPv6ExtensionHeaderHopByHop = 0"
definition IPv6ExtensionHeaderRouting :: u8 where "IPv6ExtensionHeaderRouting = 43"
definition IPv6ExtensionHeaderFragment :: u8 where "IPv6ExtensionHeaderFragment = 44"
definition IPv6ExtensionHeaderAuthentication :: u8 where "IPv6ExtensionHeaderAuthentication = 51"
definition IPv6ExtensionHeaderDestination :: u8 where "IPv6ExtensionHeaderDestination = 60"
definition IPv6ExtensionHeaderMobility :: u8 where "IPv6ExtensionHeaderMobility = 135"

definition IPv6ExtensionOptionPad1 :: u8 where "IPv6ExtensionOptionPad1 = 0"
definition IPv6ExtensionOptionPadN :: u8 where "IPv6ExtensionOptionPadN = 1"
definition IPv6ExtensionOptionRouterAlert :: u8 where "IPv6ExtensionOptionRouterAlert = 5"
definition IPv6ExtensionOptionJumboPayload :: u8 where "IPv6ExtensionOptionJumboPayload = 194"
definition IPv6ExtensionOptionHomeAddress :: u8 where "IPv6ExtensionOptionHomeAddress = 201"

definition ipv6MaximumFlowLabel :: u32 where "ipv6MaximumFlowLabel = push_bit 20 1 - 1"

lemmas ipv4_option_kinds = IPv4HeaderOptionEnd_def IPv4HeaderOptionNOP_def IPv4HeaderOptionRecordRoute_def
  IPv4HeaderOptionTimestamp_def IPv4HeaderOptionLooseSourceRoute_def IPv4HeaderOptionStrictSourceRoute_def
  IPv4HeaderOptionRouterAlert_def

lemmas ipv6_header_kinds = IPv6ExtensionHeaderHopByHop_def IPv6ExtensionHeaderRouting_def
  IPv6ExtensionHeaderFragment_def IPv6ExtensionHeaderAuthentication_def IPv6ExtensionHeaderDestination_def
  IPv6ExtensionHeaderMobility_def ProtocolNoNextHeader_def

lemmas ipv6_option_kinds = IPv6ExtensionOptionPad1_def IPv6ExtensionOptionPadN_def
  IPv6ExtensionOptionRouterAlert_def IPv6ExtensionOptionJumboPayload_def IPv6ExtensionOptionHomeAddress_def

section \<open>IPv4 options\<close>

record ipv4HeaderOption =
  o4_type :: u8
  o4_data :: bytes

text \<open>Zero reports malformed framing.\<close>

definition ipv4HeaderOptionLength :: "bytes \<Rightarrow> nat" where
  "ipv4HeaderOptionLength option =
     (if length option < 2 then 0
      else let len = unat (option ! 1)
           in if len < 2 \<or> len > length option then 0 else len)"

datatype ('s, 'r) walk = Next 's | Stop 'r

function walk4 ::
  "('s \<Rightarrow> 's) \<Rightarrow> (nat \<Rightarrow> 's \<Rightarrow> 'r) \<Rightarrow> (nat \<Rightarrow> 's \<Rightarrow> 'r) \<Rightarrow> ('s \<Rightarrow> 'r) \<Rightarrow>
   (u8 \<Rightarrow> nat \<Rightarrow> nat \<Rightarrow> 's \<Rightarrow> ('s, 'r) walk option) \<Rightarrow> bytes \<Rightarrow> nat \<Rightarrow> 's \<Rightarrow> 'r option" where
  "walk4 nop onEnd bad fin body options offset st =
     (if offset < length options then do {
        kind \<leftarrow> go_index options offset;
        if kind = IPv4HeaderOptionEnd then Some (onEnd offset st)
        else if kind = IPv4HeaderOptionNOP then walk4 nop onEnd bad fin body options (Suc offset) (nop st)
        else let len = ipv4HeaderOptionLength (drop offset options)
             in if len = 0 then Some (bad offset st)
                else do {
                  r \<leftarrow> body kind offset len st;
                  case r of Stop v \<Rightarrow> Some v
                  | Next st' \<Rightarrow> walk4 nop onEnd bad fin body options (offset + len) st' } }
      else Some (fin st))"
  by pat_completeness auto
termination
  by (relation "measure (\<lambda>(nop, onEnd, bad, fin, body, options, offset, st). length options - offset)")
    (auto simp: Let_def)

declare walk4.simps [simp del]

text \<open>\<open>IPPacket.IPv4HeaderOptions\<close> after its address check: the descriptors, or EINVAL.\<close>

definition ipv4HeaderOptionBody ::
  "bytes \<Rightarrow> u8 \<Rightarrow> nat \<Rightarrow> nat \<Rightarrow> ipv4HeaderOption list \<Rightarrow> (ipv4HeaderOption list, errno + ipv4HeaderOption list) walk option" where
  "ipv4HeaderOptionBody options kind offset len result = do {
     data \<leftarrow> go_slice options (offset + 2) (offset + len);
     Some (Next (result @ [\<lparr>o4_type = kind, o4_data = data\<rparr>])) }"

definition IPv4HeaderOptions :: "addr \<Rightarrow> addr \<Rightarrow> bytes \<Rightarrow> (errno + ipv4HeaderOption list) option" where
  "IPv4HeaderOptions source destination options =
     (if \<not> is4 (unmapAddr source) \<or> \<not> is4 (unmapAddr destination) then Some (Inl EAFNOSUPPORT)
      else if length options > 40 then Some (Inl EMSGSIZE)
      else walk4 (\<lambda>result. result @ [\<lparr>o4_type = IPv4HeaderOptionNOP, o4_data = []\<rparr>])
             (\<lambda>offset result. Inr (result @ [\<lparr>o4_type = IPv4HeaderOptionEnd, o4_data = []\<rparr>]))
             (\<lambda>offset result. Inl EINVAL) Inr (ipv4HeaderOptionBody options) options 0 [])"

fun sizeIPv4Options :: "ipv4HeaderOption list \<Rightarrow> nat \<Rightarrow> bool \<Rightarrow> errno + nat" where
  "sizeIPv4Options [] sz ended = Inr sz"
| "sizeIPv4Options (opt # options) sz ended =
     (if ended then Inl EINVAL
      else if o4_type opt = IPv4HeaderOptionEnd \<or> o4_type opt = IPv4HeaderOptionNOP then
        (if length (o4_data opt) \<noteq> 0 then Inl EINVAL
         else if sz + 1 > 40 then Inl EMSGSIZE
         else sizeIPv4Options options (sz + 1) (o4_type opt = IPv4HeaderOptionEnd))
      else if length (o4_data opt) > 253 then Inl EINVAL
      else if sz + (2 + length (o4_data opt)) > 40 then Inl EMSGSIZE
      else sizeIPv4Options options (sz + (2 + length (o4_data opt))) ended)"

definition encodeIPv4Option :: "ipv4HeaderOption \<Rightarrow> bytes" where
  "encodeIPv4Option opt =
     (if o4_type opt = IPv4HeaderOptionEnd \<or> o4_type opt = IPv4HeaderOptionNOP then [o4_type opt]
      else [o4_type opt, of_nat (2 + length (o4_data opt))] @ o4_data opt)"

text \<open>The new option area; an error leaves the packet as it was.\<close>

definition SetIPv4HeaderOptions :: "addr \<Rightarrow> addr \<Rightarrow> ipv4HeaderOption list \<Rightarrow> errno + bytes" where
  "SetIPv4HeaderOptions source destination options =
     (if \<not> is4 (unmapAddr source) \<or> \<not> is4 (unmapAddr destination) then Inl EAFNOSUPPORT
      else case sizeIPv4Options options 0 False of
             Inl e \<Rightarrow> Inl e
           | Inr sz \<Rightarrow> Inr (concat (map encodeIPv4Option options)))"

definition o4_copied :: "ipv4HeaderOption \<Rightarrow> bool" where "o4_copied opt \<longleftrightarrow> o4_type opt AND 0x80 \<noteq> 0"
definition o4_class :: "ipv4HeaderOption \<Rightarrow> u8" where "o4_class opt = drop_bit 5 (o4_type opt) AND 3"
definition o4_number :: "ipv4HeaderOption \<Rightarrow> u8" where "o4_number opt = o4_type opt AND 0x1f"

definition o4_routerAlert :: "ipv4HeaderOption \<Rightarrow> u16 option" where
  "o4_routerAlert opt =
     (if o4_type opt \<noteq> IPv4HeaderOptionRouterAlert \<or> length (o4_data opt) \<noteq> 2 then None else be_get16 (o4_data opt))"

definition o4_setRouterAlert :: "u16 \<Rightarrow> ipv4HeaderOption" where
  "o4_setRouterAlert value = \<lparr>o4_type = IPv4HeaderOptionRouterAlert, o4_data = be_put16 value\<rparr>"

text \<open>\<open>ipv4OptionsContentLength\<close>; its framing check is \<open>ipv4HeaderOptionLength\<close> written in line.\<close>

definition ipv4OptionsContentLength :: "bytes \<Rightarrow> nat option option" where
  "ipv4OptionsContentLength options =
     walk4 (\<lambda>_. ()) (\<lambda>offset _. Some (offset + 1)) (\<lambda>_ _. None) (\<lambda>_. Some (length options))
       (\<lambda>kind offset len _. Some (Next ())) options 0 ()"

definition validIPv4OptionsForCodec :: "bytes \<Rightarrow> bool option" where
  "validIPv4OptionsForCodec options = map_option (\<lambda>r. r \<noteq> None) (ipv4OptionsContentLength options)"

definition sourceRouteBody :: "bytes \<Rightarrow> u8 \<Rightarrow> nat \<Rightarrow> nat \<Rightarrow> unit \<Rightarrow> (unit, bool) walk option" where
  "sourceRouteBody options kind offset len _ =
     (if kind = IPv4HeaderOptionLooseSourceRoute \<or> kind = IPv4HeaderOptionStrictSourceRoute then
        (if len < 3 then Some (Stop True)
         else do {
           pointer \<leftarrow> go_index options (offset + 2);
           Some (if unat pointer < 4 \<or> unat pointer \<le> len then Stop True else Next ()) })
      else Some (Next ()))"

definition hasActiveIPv4SourceRoute :: "bytes \<Rightarrow> bool option" where
  "hasActiveIPv4SourceRoute options =
     walk4 (\<lambda>_. ()) (\<lambda>_ _. False) (\<lambda>_ _. False) (\<lambda>_. False) (sourceRouteBody options) options 0 ()"

definition routerAlert4Body :: "bytes \<Rightarrow> u8 \<Rightarrow> nat \<Rightarrow> nat \<Rightarrow> bool \<Rightarrow> (bool, bool) walk option" where
  "routerAlert4Body options kind offset len found =
     (if kind = IPv4HeaderOptionRouterAlert then
        (if found \<or> len \<noteq> 4 then Some (Stop False)
         else do {
           a \<leftarrow> go_index options (offset + 2);
           b \<leftarrow> go_index options (offset + 3);
           Some (if a \<noteq> 0 \<or> b \<noteq> 0 then Stop False else Next True) })
      else Some (Next found))"

definition ipv4RouterAlert :: "bytes \<Rightarrow> bool option" where
  "ipv4RouterAlert options =
     walk4 (\<lambda>found. found) (\<lambda>_ found. found) (\<lambda>_ _. False) (\<lambda>found. found) (routerAlert4Body options) options 0 False"

text \<open>
  \<open>malformedIPv4Option\<close>: the offset to report, or \<open>None\<close>. The flags say which options were seen.
\<close>

record seenOptions =
  se_sourceRoute :: bool
  se_recordRoute :: bool
  se_timestamp :: bool
  se_routerAlert :: bool

definition recordRouteBody :: "bytes \<Rightarrow> nat \<Rightarrow> nat \<Rightarrow> seenOptions \<Rightarrow> (seenOptions, nat option) walk option" where
  "recordRouteBody options offset len seen =
     (if se_recordRoute seen then Some (Stop (Some offset))
      else if len < 3 then Some (Stop (Some (offset + 1)))
      else do {
        p \<leftarrow> go_index options (offset + 2);
        let pointer = unat p;
        Some (if pointer < 4 then Stop (Some (offset + 2))
              else if pointer \<le> len \<and> pointer + 3 > len then Stop (Some (offset + 2))
              else Next (seen\<lparr>se_recordRoute := True\<rparr>)) })"

definition timestampOptionBody :: "bytes \<Rightarrow> nat \<Rightarrow> nat \<Rightarrow> seenOptions \<Rightarrow> (seenOptions, nat option) walk option" where
  "timestampOptionBody options offset len seen =
     (if se_timestamp seen then Some (Stop (Some offset))
      else if len < 4 then Some (Stop (Some (offset + 1)))
      else do {
        p \<leftarrow> go_index options (offset + 2);
        f \<leftarrow> go_index options (offset + 3);
        let pointer = unat p;
        let flag = f AND 0x0f;
        let required = (if flag = 1 \<or> flag = 3 then 8 else 4);
        Some (if pointer < 5 then Stop (Some (offset + 2))
              else if pointer \<le> len then
                (if pointer + required - 1 > len then Stop (Some (offset + 2)) else Next (seen\<lparr>se_timestamp := True\<rparr>))
              else if flag \<noteq> 3 \<and> drop_bit 4 f = 15 then Stop (Some (offset + 3))
              else Next (seen\<lparr>se_timestamp := True\<rparr>)) })"

definition malformedBody :: "bytes \<Rightarrow> u8 \<Rightarrow> nat \<Rightarrow> nat \<Rightarrow> seenOptions \<Rightarrow> (seenOptions, nat option) walk option" where
  "malformedBody options kind offset len seen =
     (if kind = IPv4HeaderOptionLooseSourceRoute \<or> kind = IPv4HeaderOptionStrictSourceRoute then
        (if len < 3 then Some (Stop (Some (offset + 1)))
         else do {
           p \<leftarrow> go_index options (offset + 2);
           Some (if p < 4 then Stop (Some (offset + 2))
                 else if se_sourceRoute seen then Stop (Some offset)
                 else Next (seen\<lparr>se_sourceRoute := True\<rparr>)) })
      else if kind = IPv4HeaderOptionRecordRoute then recordRouteBody options offset len seen
      else if kind = IPv4HeaderOptionTimestamp then timestampOptionBody options offset len seen
      else if kind = IPv4HeaderOptionRouterAlert then
        Some (if len \<noteq> 4 then Stop (Some (offset + 1))
              else if se_routerAlert seen then Stop (Some offset)
              else Next (seen\<lparr>se_routerAlert := True\<rparr>))
      else Some (Next seen))"

definition malformedIPv4Option :: "bytes \<Rightarrow> nat option option" where
  "malformedIPv4Option options =
     walk4 (\<lambda>seen. seen) (\<lambda>_ _. None) (\<lambda>offset _. Some offset) (\<lambda>_. None) (malformedBody options) options 0
       \<lparr>se_sourceRoute = False, se_recordRoute = False, se_timestamp = False, se_routerAlert = False\<rparr>"

text \<open>\<open>validateIPv4Options\<close> looks at the kind before the length.\<close>

function validateFrom :: "bytes \<Rightarrow> nat \<Rightarrow> bool option" where
  "validateFrom options offset =
     (if offset < length options then do {
        kind \<leftarrow> go_index options offset;
        if kind = IPv4HeaderOptionEnd then Some True
        else if kind = IPv4HeaderOptionNOP then validateFrom options (Suc offset)
        else if kind = IPv4HeaderOptionLooseSourceRoute \<or> kind = IPv4HeaderOptionStrictSourceRoute then Some False
        else if length options - offset < 2 then Some False
        else do {
          l \<leftarrow> go_index options (offset + 1);
          if unat l < 2 \<or> unat l > length options - offset then Some False
          else validateFrom options (offset + unat l) } }
      else Some True)"
  by pat_completeness auto
termination
  by (relation "measure (\<lambda>(options, offset). length options - offset)") auto

declare validateFrom.simps [simp del]

definition validateIPv4Options :: "bytes \<Rightarrow> bool option" where
  "validateIPv4Options options = validateFrom options 0"

section \<open>IPv6 options\<close>

record ipv6ExtensionOption =
  o6_type :: u8
  o6_data :: bytes

definition ipv6ExtensionOptionLength :: "u8 \<Rightarrow> bytes \<Rightarrow> nat option" where
  "ipv6ExtensionOptionLength optionType remaining =
     (if optionType = IPv6ExtensionOptionPad1 then Some 1
      else if length remaining < 2 then None
      else let len = 2 + unat (remaining ! 1)
           in if len \<le> length remaining then Some len else None)"

lemma ipv6ExtensionOptionLength_pos: "ipv6ExtensionOptionLength k r = Some len \<Longrightarrow> 0 < len"
  by (auto simp: ipv6ExtensionOptionLength_def Let_def split: if_splits)

function walk6 ::
  "(nat \<Rightarrow> 's \<Rightarrow> 'r) \<Rightarrow> ('s \<Rightarrow> 'r) \<Rightarrow> (u8 \<Rightarrow> nat \<Rightarrow> nat \<Rightarrow> 's \<Rightarrow> ('s, 'r) walk option) \<Rightarrow>
   bytes \<Rightarrow> nat \<Rightarrow> 's \<Rightarrow> 'r option" where
  "walk6 bad fin body options offset st =
     (if offset < length options then do {
        kind \<leftarrow> go_index options offset;
        case ipv6ExtensionOptionLength kind (drop offset options) of
          None \<Rightarrow> Some (bad offset st)
        | Some len \<Rightarrow> do {
            r \<leftarrow> body kind offset len st;
            case r of Stop v \<Rightarrow> Some v
            | Next st' \<Rightarrow> walk6 bad fin body options (offset + len) st' } }
      else Some (fin st))"
  by pat_completeness auto
termination
  by (relation "measure (\<lambda>(bad, fin, body, options, offset, st). length options - offset)")
    (auto dest: ipv6ExtensionOptionLength_pos)

declare walk6.simps [simp del]

definition parse6Body ::
  "bytes \<Rightarrow> u8 \<Rightarrow> nat \<Rightarrow> nat \<Rightarrow> ipv6ExtensionOption list \<Rightarrow>
   (ipv6ExtensionOption list, errno + ipv6ExtensionOption list) walk option" where
  "parse6Body options kind offset len result =
     (if len \<noteq> 1 then do {
        data \<leftarrow> go_slice options (offset + 2) (offset + len);
        Some (Next (result @ [\<lparr>o6_type = kind, o6_data = data\<rparr>])) }
      else Some (Next (result @ [\<lparr>o6_type = kind, o6_data = []\<rparr>])))"

definition parseIPv6ExtensionOptions :: "bytes \<Rightarrow> (errno + ipv6ExtensionOption list) option" where
  "parseIPv6ExtensionOptions options = walk6 (\<lambda>_ _. Inl EINVAL) Inr (parse6Body options) options 0 []"

text \<open>The result is \<open>(homeAddress, jumboPayload)\<close>, or \<open>None\<close> when the framing is invalid.\<close>

definition codec6Body :: "u8 \<Rightarrow> nat \<Rightarrow> nat \<Rightarrow> bool \<times> bool \<Rightarrow> (bool \<times> bool, (bool \<times> bool) option) walk option" where
  "codec6Body kind offset len = (\<lambda>(homeAddress, jumboPayload).
     Some (Next (homeAddress \<or> kind = IPv6ExtensionOptionHomeAddress,
                 jumboPayload \<or> kind = IPv6ExtensionOptionJumboPayload)))"

definition inspectIPv6OptionBytesForCodec :: "bytes \<Rightarrow> (bool \<times> bool) option option" where
  "inspectIPv6OptionBytesForCodec options = walk6 (\<lambda>_ _. None) Some codec6Body options 0 (False, False)"

definition inspectIPv6OptionsForCodec :: "bytes \<Rightarrow> (bool \<times> bool) option option" where
  "inspectIPv6OptionsForCodec header =
     (if length header < 8 \<or> length header mod 8 \<noteq> 0 then Some None
      else inspectIPv6OptionBytesForCodec (drop 2 header))"

definition routerAlert6Body :: "bytes \<Rightarrow> u8 \<Rightarrow> nat \<Rightarrow> nat \<Rightarrow> bool \<Rightarrow> (bool, bool) walk option" where
  "routerAlert6Body options kind offset len found =
     (if kind = IPv6ExtensionOptionRouterAlert then
        (if found \<or> len \<noteq> 4 then Some (Stop False)
         else do {
           a \<leftarrow> go_index options (offset + 2);
           b \<leftarrow> go_index options (offset + 3);
           Some (if a \<noteq> 0 \<or> b \<noteq> 0 then Stop False else Next True) })
      else Some (Next found))"

definition ipv6RouterAlert :: "bytes \<Rightarrow> bool option" where
  "ipv6RouterAlert header =
     (if length header < 2 then Some False
      else walk6 (\<lambda>_ _. False) (\<lambda>found. found) (routerAlert6Body (drop 2 header)) (drop 2 header) 0 False)"

text \<open>\<open>Inl (action, offset)\<close> is the source's \<open>false\<close> with its two results.\<close>

definition inspect6Body :: "u8 \<Rightarrow> nat \<Rightarrow> nat \<Rightarrow> unit \<Rightarrow> (unit, (u8 \<times> nat) + unit) walk option" where
  "inspect6Body kind offset len _ =
     Some (if drop_bit 6 kind \<noteq> 0 then Stop (Inl (drop_bit 6 kind, offset)) else Next ())"

definition inspectIPv6Options :: "bytes \<Rightarrow> ((u8 \<times> nat) + unit) option" where
  "inspectIPv6Options header =
     (if length header < 8 then Some (Inl (0, 0))
      else walk6 (\<lambda>offset _. Inl (0, offset)) Inr inspect6Body header 2 ())"

definition o6_action :: "ipv6ExtensionOption \<Rightarrow> u8" where "o6_action opt = drop_bit 6 (o6_type opt)"
definition o6_mayChange :: "ipv6ExtensionOption \<Rightarrow> bool" where "o6_mayChange opt \<longleftrightarrow> o6_type opt AND 0x20 \<noteq> 0"

definition o6_routerAlert :: "ipv6ExtensionOption \<Rightarrow> u16 option" where
  "o6_routerAlert opt =
     (if o6_type opt \<noteq> IPv6ExtensionOptionRouterAlert \<or> length (o6_data opt) \<noteq> 2 then None else be_get16 (o6_data opt))"

definition o6_setRouterAlert :: "u16 \<Rightarrow> ipv6ExtensionOption" where
  "o6_setRouterAlert value = \<lparr>o6_type = IPv6ExtensionOptionRouterAlert, o6_data = be_put16 value\<rparr>"

section \<open>The loops never panic\<close>

text \<open>
  The contract between a loop and its body: a body that stays inside the option it was given makes
  the whole loop panic-free.
\<close>

locale ipv4_walk =
  fixes options :: bytes
    and body :: "u8 \<Rightarrow> nat \<Rightarrow> nat \<Rightarrow> 's \<Rightarrow> ('s, 'r) walk option"
  assumes body_total: "2 \<le> len \<Longrightarrow> offset + len \<le> length options \<Longrightarrow> \<exists>r. body kind offset len st = Some r"
begin

lemma walk_total: "\<exists>r. walk4 nop onEnd bad fin body options offset st = Some r"
proof (induction "length options - offset" arbitrary: offset st rule: less_induct)
  case less
  show ?case
  proof (cases "offset < length options")
    case True
    let ?len = "ipv4HeaderOptionLength (drop offset options)"
    have nop: "\<exists>r. walk4 nop onEnd bad fin body options (Suc offset) st' = Some r" for st'
      by (rule less) (use True in linarith)
    have "\<exists>v. (body (options ! offset) offset ?len st \<bind>
        (\<lambda>r. case r of Next st' \<Rightarrow> walk4 nop onEnd bad fin body options (offset + ?len) st' | Stop v \<Rightarrow> Some v)) = Some v"
      if "?len \<noteq> 0"
    proof -
      have "2 \<le> ?len" "offset + ?len \<le> length options"
        using that by (auto simp: ipv4HeaderOptionLength_def Let_def split: if_splits)
      then obtain r where r: "body (options ! offset) offset ?len st = Some r" using body_total by blast
      have "\<exists>r. walk4 nop onEnd bad fin body options (offset + ?len) st' = Some r" for st'
        by (rule less) (use True that in linarith)
      then show ?thesis using r by (cases r) auto
    qed
    then show ?thesis using True nop by (subst walk4.simps) (auto simp: go_index_in Let_def)
  qed (subst walk4.simps, simp)
qed

end

locale ipv6_walk =
  fixes options :: bytes
    and body :: "u8 \<Rightarrow> nat \<Rightarrow> nat \<Rightarrow> 's \<Rightarrow> ('s, 'r) walk option"
  assumes body_total:
    "ipv6ExtensionOptionLength kind (drop offset options) = Some len \<Longrightarrow> offset + len \<le> length options \<Longrightarrow>
     \<exists>r. body kind offset len st = Some r"
begin

lemma walk_total: "\<exists>r. walk6 bad fin body options offset st = Some r"
proof (induction "length options - offset" arbitrary: offset st rule: less_induct)
  case less
  show ?case
  proof (cases "offset < length options")
    case True
    show ?thesis
    proof (cases "ipv6ExtensionOptionLength (options ! offset) (drop offset options)")
      case None
      then show ?thesis using True by (subst walk6.simps) (simp add: go_index_in)
    next
      case (Some len)
      have "offset + len \<le> length options"
        using Some True by (auto simp: ipv6ExtensionOptionLength_def Let_def split: if_splits)
      then obtain r where r: "body (options ! offset) offset len st = Some r" using body_total [OF Some] by blast
      have "\<exists>r. walk6 bad fin body options (offset + len) st' = Some r" for st'
        by (rule less) (use True ipv6ExtensionOptionLength_pos [OF Some] in linarith)
      then show ?thesis using True Some r by (subst walk6.simps, cases r) (auto simp: go_index_in)
    qed
  qed (subst walk6.simps, simp)
qed

end

interpretation headerOptions4: ipv4_walk options "ipv4HeaderOptionBody options" for options
  by unfold_locales (simp add: ipv4HeaderOptionBody_def go_slice_in)

interpretation content4: ipv4_walk options "\<lambda>kind offset len st. Some (Next ())" for options
  by unfold_locales simp

interpretation sourceRoute4: ipv4_walk options "sourceRouteBody options" for options
  by unfold_locales (auto simp: sourceRouteBody_def go_index_in)

interpretation alert4: ipv4_walk options "routerAlert4Body options" for options
  by unfold_locales (auto simp: routerAlert4Body_def go_index_in)

interpretation malformed4: ipv4_walk options "malformedBody options" for options
  by unfold_locales (auto simp: malformedBody_def recordRouteBody_def timestampOptionBody_def go_index_in Let_def)

interpretation parse6: ipv6_walk options "parse6Body options" for options
  by unfold_locales (auto simp: parse6Body_def go_slice_in ipv6ExtensionOptionLength_def Let_def split: if_splits)

interpretation codec6: ipv6_walk options codec6Body for options
  by unfold_locales (auto simp: codec6Body_def split: prod.splits)

interpretation alert6: ipv6_walk options "routerAlert6Body options" for options
  by unfold_locales (auto simp: routerAlert6Body_def go_index_in)

interpretation inspect6: ipv6_walk options inspect6Body for options
  by unfold_locales (simp add: inspect6Body_def)

lemma validateFrom_total: "\<exists>r. validateFrom options offset = Some r"
proof (induction options offset rule: validateFrom.induct)
  case (1 options offset)
  then show ?case by (subst validateFrom.simps) (auto simp: go_index_in)
qed

lemma option_loops_total:
  "\<exists>r. ipv4OptionsContentLength options = Some r" "\<exists>r. validIPv4OptionsForCodec options = Some r"
  "\<exists>r. hasActiveIPv4SourceRoute options = Some r" "\<exists>r. ipv4RouterAlert options = Some r"
  "\<exists>r. malformedIPv4Option options = Some r" "\<exists>r. validateIPv4Options options = Some r"
  "\<exists>r. parseIPv6ExtensionOptions options = Some r" "\<exists>r. inspectIPv6OptionBytesForCodec options = Some r"
  "\<exists>r. inspectIPv6OptionsForCodec options = Some r" "\<exists>r. ipv6RouterAlert options = Some r"
  "\<exists>r. inspectIPv6Options options = Some r" "\<exists>r. IPv4HeaderOptions s d options = Some r"
  using content4.walk_total sourceRoute4.walk_total alert4.walk_total malformed4.walk_total validateFrom_total
    parse6.walk_total codec6.walk_total alert6.walk_total inspect6.walk_total headerOptions4.walk_total
  by (auto simp: ipv4OptionsContentLength_def validIPv4OptionsForCodec_def hasActiveIPv4SourceRoute_def
      ipv4RouterAlert_def malformedIPv4Option_def validateIPv4Options_def parseIPv6ExtensionOptions_def
      inspectIPv6OptionBytesForCodec_def inspectIPv6OptionsForCodec_def ipv6RouterAlert_def inspectIPv6Options_def
      IPv4HeaderOptions_def)

end
