(* ===== verification/Ip_Packet.thy ===== *)
theory Ip_Packet
  imports Ip_Options
begin

text \<open>
  IPv4 and IPv6 packets of \<^verbatim>\<open>src/packet.go\<close>: the extension-header chain, the public codec
  (\<open>ParseIPPacket\<close>, \<open>UpperLayer\<close>, \<open>AppendBinary\<close>, \<open>AppendRawBinary\<close>), the parser of the receive path
  (\<open>parseIPPacket\<close>) and the header writer of the send path (\<open>marshalIPHeader\<close>).

  A packet under construction is the list of its bytes: the source fills a buffer of the computed
  size, and the model returns what it holds then. That the output may share storage with the
  payload is not modelled.
\<close>

section \<open>Extension headers\<close>

record ipv6ExtensionHeader =
  xh_type :: u8
  xh_data :: bytes

definition ipv6NextHeaderFieldOffset :: "nat option \<Rightarrow> nat" where
  "ipv6NextHeaderFieldOffset previous = (case previous of None \<Rightarrow> 6 | Some p \<Rightarrow> 40 + p)"

definition isTraversableIPv6ExtensionHeader :: "u8 \<Rightarrow> bool" where
  "isTraversableIPv6ExtensionHeader headerType \<longleftrightarrow>
     headerType \<in> {IPv6ExtensionHeaderHopByHop, IPv6ExtensionHeaderRouting, IPv6ExtensionHeaderFragment,
       IPv6ExtensionHeaderAuthentication, IPv6ExtensionHeaderDestination, IPv6ExtensionHeaderMobility}"

definition ipv6ExtensionHeaderUnit8LengthField :: "u8 \<Rightarrow> nat" where
  "ipv6ExtensionHeaderUnit8LengthField lengthField = (unat lengthField + 1) * 8"

definition ipv6AuthenticationHeaderLength :: "u8 \<Rightarrow> nat" where
  "ipv6AuthenticationHeaderLength lengthField =
     (if lengthField < 2 \<or> lengthField AND 1 \<noteq> 0 then 0 else (unat lengthField + 2) * 4)"

definition ipv6ExtensionHeaderLengthField :: "u8 \<Rightarrow> u8 \<Rightarrow> nat" where
  "ipv6ExtensionHeaderLengthField headerType lengthField =
     (if headerType = IPv6ExtensionHeaderAuthentication then ipv6AuthenticationHeaderLength lengthField
      else if headerType \<in> {IPv6ExtensionHeaderHopByHop, IPv6ExtensionHeaderRouting,
          IPv6ExtensionHeaderDestination, IPv6ExtensionHeaderMobility}
      then ipv6ExtensionHeaderUnit8LengthField lengthField
      else 0)"

text \<open>An invalid length is \<open>None\<close>.\<close>

definition ipv6ExtensionHeaderLength :: "u8 \<Rightarrow> bytes \<Rightarrow> nat option" where
  "ipv6ExtensionHeaderLength headerType header =
     (if headerType = IPv6ExtensionHeaderFragment then (if length header \<ge> 8 then Some 8 else None)
      else if length header < 2 then None
      else let len = ipv6ExtensionHeaderLengthField headerType (header ! 1)
           in if len \<noteq> 0 \<and> len \<le> length header then Some len else None)"

definition ipv6ExtensionHeaderUnit8Length :: "bytes \<Rightarrow> nat option" where
  "ipv6ExtensionHeaderUnit8Length header =
     (if length header < 2 then None
      else let len = ipv6ExtensionHeaderUnit8LengthField (header ! 1)
           in if len \<le> length header then Some len else None)"

definition ipv6ExtensionHeaderDataLength :: "u8 \<Rightarrow> bytes \<Rightarrow> nat option" where
  "ipv6ExtensionHeaderDataLength headerType data =
     (if length data < 1 \<or> \<not> isTraversableIPv6ExtensionHeader headerType then None
      else let len = (if headerType \<noteq> IPv6ExtensionHeaderFragment
                      then ipv6ExtensionHeaderLengthField headerType (data ! 0) else 8)
           in if len \<noteq> 0 \<and> length data \<ge> len - 1 then Some len else None)"

definition validFragmentPayload :: "int \<Rightarrow> bool \<Rightarrow> int \<Rightarrow> int \<Rightarrow> bool" where
  "validFragmentPayload offset mf payloadSize maximum =
     (if offset < 0 \<or> offset > 65528 \<or> offset mod 8 \<noteq> 0 \<or> payloadSize < 0 \<or> maximum < 0 then False
      else if (offset \<noteq> 0 \<or> mf) \<and> payloadSize = 0 then False
      else if mf \<and> payloadSize mod 8 \<noteq> 0 then False
      else payloadSize \<le> maximum \<and> offset \<le> maximum - payloadSize)"

definition fragmentField :: "u16 \<Rightarrow> int \<times> bool" where
  "fragmentField field = (int (unat (field AND 0xfff8)), field AND 1 \<noteq> 0)"

text \<open>\<open>IPv6ExtensionHeader.Fragment\<close> and \<open>SetFragment\<close>.\<close>

definition xh_fragment :: "ipv6ExtensionHeader \<Rightarrow> (int \<times> bool \<times> u32) option" where
  "xh_fragment h =
     (if xh_type h \<noteq> IPv6ExtensionHeaderFragment \<or> length (xh_data h) \<noteq> 7 then None
      else do {
        field \<leftarrow> read16 (xh_data h) 1;
        identification \<leftarrow> read32 (xh_data h) 3;
        let (offset, mf) = fragmentField field;
        Some (offset, mf, identification) })"

definition xh_setFragment :: "int \<Rightarrow> bool \<Rightarrow> u32 \<Rightarrow> errno + ipv6ExtensionHeader" where
  "xh_setFragment offset moreFragments identification =
     (if offset < 0 \<or> offset > 65528 \<or> offset mod 8 \<noteq> 0 then Inl EINVAL
      else let field = of_int offset; field = (if moreFragments then field OR 1 else field)
           in Inr \<lparr>xh_type = IPv6ExtensionHeaderFragment, xh_data = [0] @ be_put16 field @ be_put32 identification\<rparr>)"

text \<open>\<open>IPv6ExtensionHeader.Options\<close> and \<open>SetOptions\<close>.\<close>

definition xh_options :: "ipv6ExtensionHeader \<Rightarrow> (errno + ipv6ExtensionOption list) option" where
  "xh_options h =
     (if xh_type h \<noteq> IPv6ExtensionHeaderHopByHop \<and> xh_type h \<noteq> IPv6ExtensionHeaderDestination then Some (Inl EPROTONOSUPPORT)
      else if ipv6ExtensionHeaderDataLength (xh_type h) (xh_data h) \<noteq> Some (1 + length (xh_data h)) then Some (Inl EINVAL)
      else parseIPv6ExtensionOptions (drop 1 (xh_data h)))"

fun sizeIPv6Options :: "ipv6ExtensionOption list \<Rightarrow> nat \<Rightarrow> errno + nat" where
  "sizeIPv6Options [] optionSize = Inr optionSize"
| "sizeIPv6Options (opt # options) optionSize =
     (if o6_type opt = IPv6ExtensionOptionPad1 then
        (if length (o6_data opt) \<noteq> 0 then Inl EINVAL
         else if optionSize + 1 > 2046 then Inl EMSGSIZE
         else sizeIPv6Options options (optionSize + 1))
      else if length (o6_data opt) > 255 then Inl EINVAL
      else if optionSize + (2 + length (o6_data opt)) > 2046 then Inl EMSGSIZE
      else sizeIPv6Options options (optionSize + (2 + length (o6_data opt))))"

definition encodeIPv6Option :: "ipv6ExtensionOption \<Rightarrow> bytes" where
  "encodeIPv6Option opt =
     (if o6_type opt = IPv6ExtensionOptionPad1 then [o6_type opt]
      else [o6_type opt, of_nat (length (o6_data opt))] @ o6_data opt)"

definition padding6 :: "nat \<Rightarrow> bytes" where
  "padding6 padding =
     (if padding = 0 then [] else if padding = 1 then [IPv6ExtensionOptionPad1]
      else [IPv6ExtensionOptionPadN, of_nat (padding - 2)] @ replicate (padding - 2) 0)"

definition xh_setOptions :: "ipv6ExtensionHeader \<Rightarrow> ipv6ExtensionOption list \<Rightarrow> errno + ipv6ExtensionHeader" where
  "xh_setOptions h options =
     (if xh_type h \<noteq> IPv6ExtensionHeaderHopByHop \<and> xh_type h \<noteq> IPv6ExtensionHeaderDestination then Inl EPROTONOSUPPORT
      else case sizeIPv6Options options 0 of
          Inl e \<Rightarrow> Inl e
        | Inr optionSize \<Rightarrow>
            let total = 2 + optionSize;
                padding = nat ((- int total) mod 8);
                total = total + padding
            in if total > 2048 then Inl EMSGSIZE
               else Inr (h\<lparr>xh_data := [of_nat (total div 8 - 1)] @ concat (map encodeIPv6Option options) @ padding6 padding\<rparr>))"

section \<open>The extension chain\<close>

text \<open>
  \<open>walkIPv6UpperLayer\<close>. The result is \<open>(protocol, upper, pseudoHeaderUnsafe, nonAtomicFragment)\<close>,
  \<open>Some None\<close> is \<open>ok = false\<close> and \<open>None\<close> a panic.
\<close>

lemma ipv6ExtensionHeaderLength_pos: "ipv6ExtensionHeaderLength k h = Some len \<Longrightarrow> 0 < len"
  by (auto simp: ipv6ExtensionHeaderLength_def Let_def split: if_splits)

lemma ipv6ExtensionHeaderLength_le: "ipv6ExtensionHeaderLength k h = Some len \<Longrightarrow> len \<le> length h"
  by (auto simp: ipv6ExtensionHeaderLength_def Let_def split: if_splits)

lemma chain_step:
  assumes "ipv6ExtensionHeaderLength k (drop offset payload) = Some len"
  shows "length payload - (offset + len) < length payload - offset"
  using ipv6ExtensionHeaderLength_pos [OF assms] ipv6ExtensionHeaderLength_le [OF assms] by simp

lemma chain_step_0:
  "ipv6ExtensionHeaderLength k payload = Some len \<Longrightarrow> length payload - len < length payload"
  using chain_step [of k 0 payload len] by simp

type_synonym upperView = "u8 \<times> bytes \<times> bool \<times> bool"

function walkUpper :: "bytes \<Rightarrow> u8 \<Rightarrow> nat \<Rightarrow> bool \<Rightarrow> bool \<Rightarrow> bool \<Rightarrow> upperView option option" where
  "walkUpper payload next offset seenHop seenFragment pseudoHeaderUnsafe =
     (if next = ProtocolNoNextHeader then Some (Some (next, [], pseudoHeaderUnsafe, False))
      else if \<not> isTraversableIPv6ExtensionHeader next then Some (Some (next, drop offset payload, pseudoHeaderUnsafe, False))
      else if next = IPv6ExtensionHeaderHopByHop \<and> (offset \<noteq> 0 \<or> seenHop) then Some None
      else case ipv6ExtensionHeaderLength next (drop offset payload) of
        None \<Rightarrow> Some None
      | Some len \<Rightarrow> do {
          header \<leftarrow> go_slice payload offset (offset + len);
          following \<leftarrow> go_index header 0;
          if next = IPv6ExtensionHeaderHopByHop \<or> next = IPv6ExtensionHeaderDestination then do {
            inspected \<leftarrow> inspectIPv6OptionsForCodec header;
            case inspected of
              Some (homeAddress, False) \<Rightarrow>
                walkUpper payload following (offset + len) (seenHop \<or> next = IPv6ExtensionHeaderHopByHop) seenFragment
                  (pseudoHeaderUnsafe \<or> homeAddress)
            | _ \<Rightarrow> Some None }
          else if next = IPv6ExtensionHeaderRouting then do {
            segmentsLeft \<leftarrow> go_index header 3;
            walkUpper payload following (offset + len) seenHop seenFragment (pseudoHeaderUnsafe \<or> segmentsLeft \<noteq> 0) }
          else if next = IPv6ExtensionHeaderFragment then
            (if seenFragment then Some None
             else do {
               field \<leftarrow> read16 header 2;
               let (fragmentOffset, mf) = fragmentField field;
               let fragmentPayload = drop (offset + len) payload;
               if \<not> validFragmentPayload fragmentOffset mf (int (length fragmentPayload)) 65535 then Some None
               else if fragmentOffset \<noteq> 0 \<or> mf then Some (Some (following, fragmentPayload, pseudoHeaderUnsafe, True))
               else walkUpper payload following (offset + len) seenHop True pseudoHeaderUnsafe })
          else walkUpper payload following (offset + len) seenHop seenFragment pseudoHeaderUnsafe })"
  by pat_completeness auto
termination
  by (relation "measure (\<lambda>(payload, next, offset, seenHop, seenFragment, unsafe). length payload - offset)")
    (auto intro: chain_step chain_step_0)

declare walkUpper.simps [simp del]

definition walkIPv6UpperLayer :: "u8 \<Rightarrow> bytes \<Rightarrow> upperView option option" where
  "walkIPv6UpperLayer first payload = walkUpper payload first 0 False False False"


section \<open>Packets\<close>

record ipPacketPub =
  pk_source :: addr
  pk_destination :: addr
  pk_protocol :: int
  pk_hopLimit :: int
  pk_trafficClass :: int
  pk_flowLabel :: u32
  pk_identification :: u16
  pk_dontFragment :: bool
  pk_moreFragments :: bool
  pk_fragmentOffset :: int
  pk_ipv4Options :: bytes
  pk_payload :: bytes

text \<open>The address test of the IPv6 methods: an IPv6 address that is not IPv4-mapped.\<close>

definition plain6 :: "addr \<Rightarrow> bool" where
  "plain6 a \<longleftrightarrow> is6 a \<and> \<not> is4In6 a"

function extensionHeadersFrom ::
  "bytes \<Rightarrow> u8 \<Rightarrow> nat \<Rightarrow> bool \<Rightarrow> bool \<Rightarrow> ipv6ExtensionHeader list \<Rightarrow>
   (errno + ipv6ExtensionHeader list \<times> u8 \<times> bytes) option" where
  "extensionHeadersFrom payload next offset seenHop seenFragment headers =
     (if \<not> isTraversableIPv6ExtensionHeader next then Some (Inr (headers, next, drop offset payload))
      else if next = IPv6ExtensionHeaderHopByHop \<and> (offset \<noteq> 0 \<or> seenHop) then Some (Inl EINVAL)
      else case ipv6ExtensionHeaderLength next (drop offset payload) of
        None \<Rightarrow> Some (Inl EINVAL)
      | Some len \<Rightarrow> do {
          header \<leftarrow> go_slice payload offset (offset + len);
          following \<leftarrow> go_index header 0;
          inspected \<leftarrow> (if next = IPv6ExtensionHeaderHopByHop \<or> next = IPv6ExtensionHeaderDestination
                        then inspectIPv6OptionsForCodec header else Some (Some (False, False)));
          (case inspected of
             Some (_, False) \<Rightarrow>
               let descriptor = \<lparr>xh_type = next, xh_data = drop 1 header\<rparr>;
                   headers = headers @ [descriptor];
                   seenHop = (seenHop \<or> next = IPv6ExtensionHeaderHopByHop)
               in if next = IPv6ExtensionHeaderFragment then
                    (if seenFragment then Some (Inl EINVAL)
                     else case xh_fragment descriptor of
                         None \<Rightarrow> Some (Inl EINVAL)
                       | Some (fragmentOffset, mf, _) \<Rightarrow>
                           let fragmentPayload = drop (offset + len) payload
                           in if \<not> validFragmentPayload fragmentOffset mf (int (length fragmentPayload)) 65535
                              then Some (Inl EINVAL)
                              else if fragmentOffset \<noteq> 0 \<or> mf then Some (Inr (headers, following, fragmentPayload))
                              else extensionHeadersFrom payload following (offset + len) seenHop True headers)
                  else extensionHeadersFrom payload following (offset + len) seenHop seenFragment headers
           | _ \<Rightarrow> Some (Inl EINVAL)) })"
  by pat_completeness auto
termination
  by (relation "measure (\<lambda>(payload, next, offset, seenHop, seenFragment, headers). length payload - offset)")
    (auto intro: chain_step chain_step_0 split: if_splits)

declare extensionHeadersFrom.simps [simp del]

definition IPv6ExtensionHeaders :: "ipPacketPub \<Rightarrow> (errno + ipv6ExtensionHeader list \<times> u8 \<times> bytes) option" where
  "IPv6ExtensionHeaders p =
     (if \<not> plain6 (pk_source p) \<or> \<not> plain6 (pk_destination p) then Some (Inl EAFNOSUPPORT)
      else if pk_protocol p < 0 \<or> pk_protocol p > 255 \<or> pk_identification p \<noteq> 0 \<or> pk_dontFragment p \<or>
         pk_moreFragments p \<or> pk_fragmentOffset p \<noteq> 0 \<or> length (pk_ipv4Options p) \<noteq> 0 then Some (Inl EINVAL)
      else extensionHeadersFrom (pk_payload p) (of_int (pk_protocol p)) 0 False False [])"

text \<open>
  The checking loop of \<open>setIPv6ExtensionHeaders\<close>; \<open>index\<close> counts the headers already seen and the
  result has the total size and whether the chain ends in a non-atomic fragment.
\<close>

definition strictHeader ::
  "ipv6ExtensionHeader \<Rightarrow> nat \<Rightarrow> nat \<Rightarrow> bytes \<Rightarrow> bool \<Rightarrow> bool \<Rightarrow> bool \<Rightarrow> (errno + bool \<times> bool \<times> bool) option" where
  "strictHeader header index count payload seenHop seenFragment nonAtomic =
     (if xh_type header = IPv6ExtensionHeaderHopByHop \<and> (index \<noteq> 0 \<or> seenHop) then Some (Inl EINVAL)
      else if ipv6ExtensionHeaderDataLength (xh_type header) (xh_data header) \<noteq> Some (1 + length (xh_data header))
      then Some (Inl EINVAL)
      else do {
        let seenHop = (seenHop \<or> xh_type header = IPv6ExtensionHeaderHopByHop);
        inspected \<leftarrow> (if xh_type header = IPv6ExtensionHeaderHopByHop \<or> xh_type header = IPv6ExtensionHeaderDestination
                      then inspectIPv6OptionBytesForCodec (drop 1 (xh_data header)) else Some (Some (False, False)));
        case inspected of
          Some (_, False) \<Rightarrow>
            if xh_type header = IPv6ExtensionHeaderFragment then
              (if seenFragment then Some (Inl EINVAL)
               else case xh_fragment header of
                   None \<Rightarrow> Some (Inl EINVAL)
                 | Some (fragmentOffset, mf, _) \<Rightarrow>
                     if (fragmentOffset \<noteq> 0 \<or> mf) \<and>
                        (index \<noteq> count - 1 \<or> \<not> validFragmentPayload fragmentOffset mf (int (length payload)) 65535)
                     then Some (Inl EINVAL)
                     else Some (Inr (seenHop, True, fragmentOffset \<noteq> 0 \<or> mf)))
            else Some (Inr (seenHop, seenFragment, nonAtomic))
        | _ \<Rightarrow> Some (Inl EINVAL) })"

fun checkHeaders ::
  "bool \<Rightarrow> bytes \<Rightarrow> nat \<Rightarrow> ipv6ExtensionHeader list \<Rightarrow> nat \<Rightarrow> nat \<Rightarrow> bool \<times> bool \<times> bool \<Rightarrow> (errno + bool) option" where
  "checkHeaders strict payload count [] index tot (seenHop, seenFragment, nonAtomic) = Some (Inr nonAtomic)"
| "checkHeaders strict payload count (header # headers) index tot (seenHop, seenFragment, nonAtomic) =
     (if \<not> isTraversableIPv6ExtensionHeader (xh_type header) then Some (Inl EPROTONOSUPPORT)
      else do {
        checked \<leftarrow> (if strict then strictHeader header index count payload seenHop seenFragment nonAtomic
                    else Some (Inr (seenHop, seenFragment, nonAtomic)));
        case checked of
          Inl e \<Rightarrow> Some (Inl e)
        | Inr seen \<Rightarrow>
            if int (length (xh_data header)) \<ge> 65535 - int tot then Some (Inl EMSGSIZE)
            else checkHeaders strict payload count headers (Suc index) (tot + (1 + length (xh_data header))) seen })"

fun linkHeaders :: "u8 \<Rightarrow> ipv6ExtensionHeader list \<Rightarrow> bytes" where
  "linkHeaders protocol [] = []"
| "linkHeaders protocol (header # headers) =
     (case headers of [] \<Rightarrow> protocol | next # _ \<Rightarrow> xh_type next) # xh_data header @ linkHeaders protocol headers"

text \<open>The new protocol and payload; an error leaves the packet as it was.\<close>

definition setIPv6ExtensionHeaders ::
  "ipPacketPub \<Rightarrow> ipv6ExtensionHeader list \<Rightarrow> int \<Rightarrow> bytes \<Rightarrow> bool \<Rightarrow> (errno + ipPacketPub) option" where
  "setIPv6ExtensionHeaders p headers protocol payload strict =
     (if \<not> plain6 (pk_source p) \<or> \<not> plain6 (pk_destination p) then Some (Inl EAFNOSUPPORT)
      else if protocol < 0 \<or> protocol > 255 then Some (Inl EINVAL)
      else if length payload > 65535 then Some (Inl EMSGSIZE)
      else do {
        checked \<leftarrow> checkHeaders strict payload (length headers) headers 0 (length payload) (False, False, False);
        case checked of
          Inl e \<Rightarrow> Some (Inl e)
        | Inr nonAtomicFragment \<Rightarrow>
            if strict \<and> isTraversableIPv6ExtensionHeader (of_int protocol) \<and> \<not> nonAtomicFragment then Some (Inl EINVAL)
            else Some (Inr (p\<lparr>pk_protocol := (case headers of [] \<Rightarrow> protocol | h # _ \<Rightarrow> int (unat (xh_type h))),
                              pk_payload := linkHeaders (of_int protocol) headers @ payload\<rparr>)) })"

text \<open>\<open>IPPacket.Fragment\<close>: the view is \<open>(protocol, identification, offset, moreFragments, payload)\<close>.\<close>

record ipPacketFragmentView =
  fv_protocol :: int
  fv_identification :: u32
  fv_offset :: int
  fv_moreFragments :: bool
  fv_payload :: bytes

definition isAtomic :: "ipPacketFragmentView \<Rightarrow> bool" where
  "isAtomic f \<longleftrightarrow> fv_offset f = 0 \<and> \<not> fv_moreFragments f"

function fragmentFrom :: "bytes \<Rightarrow> u8 \<Rightarrow> nat \<Rightarrow> ipPacketFragmentView option option" where
  "fragmentFrom payload next offset =
     (if \<not> isTraversableIPv6ExtensionHeader next then Some None
      else case ipv6ExtensionHeaderLength next (drop offset payload) of
        None \<Rightarrow> Some None
      | Some len \<Rightarrow> do {
          header \<leftarrow> go_slice payload offset (offset + len);
          following \<leftarrow> go_index header 0;
          if next = IPv6ExtensionHeaderFragment then
            (case xh_fragment \<lparr>xh_type = next, xh_data = drop 1 header\<rparr> of
               None \<Rightarrow> Some None
             | Some (fragmentOffset, mf, identification) \<Rightarrow>
                 Some (Some \<lparr>fv_protocol = int (unat following), fv_identification = identification,
                             fv_offset = fragmentOffset, fv_moreFragments = mf,
                             fv_payload = drop (offset + len) payload\<rparr>))
          else fragmentFrom payload following (offset + len) })"
  by pat_completeness auto
termination
  by (relation "measure (\<lambda>(payload, next, offset). length payload - offset)")
    (auto intro: chain_step chain_step_0)

declare fragmentFrom.simps [simp del]

definition packetFragment :: "ipPacketPub \<Rightarrow> ipPacketFragmentView option option" where
  "packetFragment p =
     (if is4 (unmapAddr (pk_source p)) \<and> is4 (unmapAddr (pk_destination p)) then
        (if \<not> pk_moreFragments p \<and> pk_fragmentOffset p = 0 then Some None
         else Some (Some \<lparr>fv_protocol = pk_protocol p, fv_identification = ucast (pk_identification p),
                          fv_offset = pk_fragmentOffset p, fv_moreFragments = pk_moreFragments p,
                          fv_payload = pk_payload p\<rparr>))
      else if \<not> plain6 (pk_source p) \<or> \<not> plain6 (pk_destination p) \<or> pk_protocol p < 0 \<or> pk_protocol p > 255 then Some None
      else fragmentFrom (pk_payload p) (of_int (pk_protocol p)) 0)"

section \<open>Parsing\<close>

text \<open>\<open>big\<close> is the byte order of the checksum loads.\<close>

definition parse4 :: "bool \<Rightarrow> bytes \<Rightarrow> (errno + ipPacketPub) option" where
  "parse4 big packet =
     (if length packet < 20 then Some (Inl EINVAL)
      else do {
        b0 \<leftarrow> go_index packet 0;
        let headerSize = unat (b0 AND 0x0f) * 4;
        total \<leftarrow> read16 packet 2;
        let totalSize = unat total;
        fragment \<leftarrow> read16 packet 6;
        let fragmentOffset = int (unat (fragment AND 0x1fff)) * 8;
        let moreFragments = (fragment AND 0x2000 \<noteq> 0);
        if headerSize < 20 \<or> totalSize < headerSize \<or> totalSize > length packet \<or> fragment AND 0x8000 \<noteq> 0 \<or>
           fragment AND 0x3fff \<noteq> 0 \<and>
             \<not> validFragmentPayload fragmentOffset moreFragments (int totalSize - int headerSize) (65535 - 20)
        then Some (Inl EINVAL)
        else do {
          header \<leftarrow> go_slice packet 0 headerSize;
          if checksum big header \<noteq> 0 then Some (Inl EINVAL)
          else do {
            options \<leftarrow> go_slice packet 20 headerSize;
            valid \<leftarrow> validIPv4OptionsForCodec options;
            if \<not> valid then Some (Inl EINVAL)
            else do {
              source \<leftarrow> go_slice packet 12 16;
              destination \<leftarrow> go_slice packet 16 20;
              protocol \<leftarrow> go_index packet 9;
              hopLimit \<leftarrow> go_index packet 8;
              trafficClass \<leftarrow> go_index packet 1;
              identification \<leftarrow> read16 packet 4;
              payload \<leftarrow> go_slice packet headerSize totalSize;
              Some (Inr \<lparr>pk_source = addrFrom4 source, pk_destination = addrFrom4 destination,
                pk_protocol = int (unat protocol), pk_hopLimit = int (unat hopLimit),
                pk_trafficClass = int (unat trafficClass), pk_flowLabel = 0, pk_identification = identification,
                pk_dontFragment = (fragment AND 0x4000 \<noteq> 0), pk_moreFragments = moreFragments,
                pk_fragmentOffset = fragmentOffset, pk_ipv4Options = options, pk_payload = payload\<rparr>) } } } })"

text \<open>The traffic class and flow label of the first four bytes.\<close>

definition trafficClass6 :: "u8 \<Rightarrow> u8 \<Rightarrow> u8" where
  "trafficClass6 b0 b1 = push_bit 4 (b0 AND 0x0f) OR drop_bit 4 b1"

definition flowLabel6 :: "u8 \<Rightarrow> u16 \<Rightarrow> u32" where
  "flowLabel6 b1 w = push_bit 16 (ucast (b1 AND 0x0f)) OR ucast w"

definition parse6 :: "bytes \<Rightarrow> (errno + ipPacketPub) option" where
  "parse6 packet =
     (if length packet < 40 then Some (Inl EINVAL)
      else do {
        size16 \<leftarrow> read16 packet 4;
        let stop = 40 + unat size16;
        if stop > length packet then Some (Inl EINVAL)
        else do {
          s \<leftarrow> go_slice packet 8 24;
          d \<leftarrow> go_slice packet 24 40;
          let source = addrFrom16 s; destination = addrFrom16 d
          in if is4In6 source \<or> is4In6 destination then Some (Inl EINVAL)
          else do {
            b0 \<leftarrow> go_index packet 0;
            b1 \<leftarrow> go_index packet 1;
            low \<leftarrow> read16 packet 2;
            protocol \<leftarrow> go_index packet 6;
            hopLimit \<leftarrow> go_index packet 7;
            payload \<leftarrow> go_slice packet 40 stop;
            walked \<leftarrow> walkIPv6UpperLayer protocol payload;
            if walked = None then Some (Inl EINVAL)
            else Some (Inr \<lparr>pk_source = source, pk_destination = destination, pk_protocol = int (unat protocol),
              pk_hopLimit = int (unat hopLimit), pk_trafficClass = int (unat (trafficClass6 b0 b1)),
              pk_flowLabel = flowLabel6 b1 low, pk_identification = 0, pk_dontFragment = False,
              pk_moreFragments = False, pk_fragmentOffset = 0, pk_ipv4Options = [], pk_payload = payload\<rparr>) } } })"

definition ParseIPPacket :: "bool \<Rightarrow> bytes \<Rightarrow> (errno + ipPacketPub) option" where
  "ParseIPPacket big packet =
     (if length packet = 0 then Some (Inl EINVAL)
      else do {
        b0 \<leftarrow> go_index packet 0;
        if drop_bit 4 b0 = 4 then parse4 big packet
        else if drop_bit 4 b0 = 6 then parse6 packet
        else Some (Inl EINVAL) })"

text \<open>The result of \<open>upperLayer\<close> is \<open>(protocol, payload, pseudoHeaderSafe)\<close>.\<close>

definition upperLayer :: "ipPacketPub \<Rightarrow> (errno + int \<times> bytes \<times> bool) option" where
  "upperLayer p =
     (let source = unmapAddr (pk_source p); destination = unmapAddr (pk_destination p)
      in if \<not> isValidAddr source \<or> \<not> isValidAddr destination \<or> addrZone (pk_source p) \<noteq> [] \<or>
            addrZone (pk_destination p) \<noteq> [] \<or> is4 source \<noteq> is4 destination \<or> pk_protocol p < 0 \<or> pk_protocol p > 255
         then Some (Inl EINVAL)
         else if is4 source then
           (if pk_moreFragments p \<or> pk_fragmentOffset p \<noteq> 0 \<or> length (pk_ipv4Options p) > 40 then Some (Inl EINVAL)
            else do {
              valid \<leftarrow> validIPv4OptionsForCodec (pk_ipv4Options p);
              if \<not> valid then Some (Inl EINVAL)
              else do {
                active \<leftarrow> hasActiveIPv4SourceRoute (pk_ipv4Options p);
                Some (Inr (pk_protocol p, pk_payload p, \<not> active)) } })
         else if pk_identification p \<noteq> 0 \<or> pk_dontFragment p \<or> pk_moreFragments p \<or> pk_fragmentOffset p \<noteq> 0 \<or>
                 length (pk_ipv4Options p) \<noteq> 0 then Some (Inl EINVAL)
         else do {
           walked \<leftarrow> walkIPv6UpperLayer (of_int (pk_protocol p)) (pk_payload p);
           case walked of
             Some (next, upper, pseudoHeaderUnsafe, False) \<Rightarrow> Some (Inr (int (unat next), upper, \<not> pseudoHeaderUnsafe))
           | _ \<Rightarrow> Some (Inl EINVAL) })"

definition UpperLayer :: "ipPacketPub \<Rightarrow> (errno + int \<times> bytes) option" where
  "UpperLayer p = map_option (map_sum id (\<lambda>(protocol, payload, _). (protocol, payload))) (upperLayer p)"

definition upperLayerForProtocol :: "ipPacketPub \<Rightarrow> u8 \<Rightarrow> (errno + bytes \<times> bool) option" where
  "upperLayerForProtocol p protocol = do {
     r \<leftarrow> upperLayer p;
     case r of
       Inl e \<Rightarrow> Some (Inl e)
     | Inr (actual, payload, safe) \<Rightarrow>
         Some (if actual \<noteq> int (unat protocol) then Inl EPROTONOSUPPORT else Inr (payload, safe)) }"

section \<open>Round trips of the option codecs\<close>

lemma unat_option_length: "n \<le> 253 \<Longrightarrow> unat (of_nat (2 + n) :: u8) = 2 + n"
  by (simp add: unat_of_nat take_bit_nat_eq_self del: of_nat_add of_nat_Suc)

lemma walk4_done: "length options \<le> offset \<Longrightarrow> walk4 nop onEnd bad fin body options offset st = Some (fin st)"
  by (subst walk4.simps) simp

lemma headerOptions4_encode:
  "sizeIPv4Options os n False = Inr m \<Longrightarrow>
   walk4 (\<lambda>result. result @ [\<lparr>o4_type = IPv4HeaderOptionNOP, o4_data = []\<rparr>])
     (\<lambda>offset result. Inr (result @ [\<lparr>o4_type = IPv4HeaderOptionEnd, o4_data = []\<rparr>]))
     (\<lambda>offset result. Inl EINVAL) Inr (ipv4HeaderOptionBody (p @ concat (map encodeIPv4Option os)))
     (p @ concat (map encodeIPv4Option os)) (length p) acc = Some (Inr (acc @ os))"
proof (induction os arbitrary: n m p acc)
  case Nil
  then show ?case by (simp add: walk4_done)
next
  case (Cons o1 os)
  let ?k = "o4_type o1" and ?all = "p @ concat (map encodeIPv4Option (o1 # os))"
  have i: "go_index ?all (length p) = Some ?k" by (simp add: go_index_def encodeIPv4Option_def)
  have lt: "length p < length ?all" by (simp add: encodeIPv4Option_def)
  show ?case
  proof (cases "?k = IPv4HeaderOptionEnd \<or> ?k = IPv4HeaderOptionNOP")
    case True
    then have d: "o4_data o1 = []" using Cons.prems by (auto split: if_splits)
    have all: "?all = (p @ [?k]) @ concat (map encodeIPv4Option os)" using True by (simp add: encodeIPv4Option_def)
    show ?thesis
    proof (cases "?k = IPv4HeaderOptionEnd")
      case True
      then have "os = []" using Cons.prems by (cases os) (auto split: if_splits)
      then show ?thesis using True i lt d
        by (subst walk4.simps) (simp add: ipv4HeaderOption.equality)
    next
      case False
      with True have nop: "?k = IPv4HeaderOptionNOP" by simp
      have e: "encodeIPv4Option o1 = [IPv4HeaderOptionNOP]" using nop by (simp add: encodeIPv4Option_def)
      have o1: "o1 = \<lparr>o4_type = IPv4HeaderOptionNOP, o4_data = []\<rparr>" using nop d by simp
      have "\<exists>m'. sizeIPv4Options os (n + 1) False = Inr m'"
        using Cons.prems nop False by (auto split: if_splits)
      then obtain m' where "sizeIPv4Options os (n + 1) False = Inr m'" by blast
      from Cons.IH [OF this, of "p @ [?k]" "acc @ [o1]"] show ?thesis
        using i lt nop False o1 e by (subst walk4.simps) simp
    qed
  next
    case False
    let ?n = "length (o4_data o1)"
    have n: "?n \<le> 253" and "\<exists>m'. sizeIPv4Options os (n + (2 + ?n)) False = Inr m'"
      using Cons.prems False by (auto split: if_splits)
    then obtain m' where m': "sizeIPv4Options os (n + (2 + ?n)) False = Inr m'" by blast
    let ?e = "encodeIPv4Option o1" and ?rest = "concat (map encodeIPv4Option os)"
    have e: "?e = [?k, of_nat (2 + ?n)] @ o4_data o1" using False by (simp add: encodeIPv4Option_def)
    have all: "?all = (p @ ?e) @ ?rest" by simp
    have len: "ipv4HeaderOptionLength (drop (length p) ?all) = 2 + ?n"
      using unat_option_length [OF n] by (simp add: e ipv4HeaderOptionLength_def Let_def del: of_nat_add of_nat_Suc)
    have body: "ipv4HeaderOptionBody ?all ?k (length p) (2 + ?n) acc = Some (Next (acc @ [o1]))"
      by (simp add: ipv4HeaderOptionBody_def go_slice_def e del: of_nat_add of_nat_Suc)
    have "length (p @ ?e) = length p + (2 + ?n)" by (simp add: e)
    with Cons.IH [OF m', of "p @ ?e" "acc @ [o1]"] show ?thesis
      using i lt False len body by (subst walk4.simps) (simp add: Let_def)
  qed
qed

lemma sizeIPv4Options_length:
  "sizeIPv4Options os n e = Inr m \<Longrightarrow> n \<le> 40 \<Longrightarrow> m = n + length (concat (map encodeIPv4Option os)) \<and> m \<le> 40"
proof (induction os n e rule: sizeIPv4Options.induct)
  case (2 o1 os n e)
  then show ?case by (auto simp: encodeIPv4Option_def split: if_splits)
qed simp

lemma unat_option6_length: "n \<le> 255 \<Longrightarrow> unat (of_nat n :: u8) = n"
  by (simp add: unat_of_nat take_bit_nat_eq_self)

definition padOptions :: "nat \<Rightarrow> ipv6ExtensionOption list" where
  "padOptions padding =
     (if padding = 0 then [] else if padding = 1 then [\<lparr>o6_type = IPv6ExtensionOptionPad1, o6_data = []\<rparr>]
      else [\<lparr>o6_type = IPv6ExtensionOptionPadN, o6_data = replicate (padding - 2) 0\<rparr>])"

definition option6_ok :: "ipv6ExtensionOption \<Rightarrow> bool" where
  "option6_ok opt \<longleftrightarrow> length (o6_data opt) \<le> 255 \<and> (o6_type opt = IPv6ExtensionOptionPad1 \<longrightarrow> o6_data opt = [])"

lemma parse6_encode:
  "\<forall>opt \<in> set os. option6_ok opt \<Longrightarrow>
   walk6 (\<lambda>_ _. Inl EINVAL) Inr (parse6Body (p @ concat (map encodeIPv6Option os)))
     (p @ concat (map encodeIPv6Option os)) (length p) acc = Some (Inr (acc @ os))"
proof (induction os arbitrary: p acc)
  case Nil
  then show ?case by (subst walk6.simps) simp
next
  case (Cons o1 os)
  let ?k = "o6_type o1" and ?e = "encodeIPv6Option o1" and ?n = "length (o6_data o1)"
  let ?all = "p @ concat (map encodeIPv6Option (o1 # os))"
  have ok: "?n \<le> 255" "?k = IPv6ExtensionOptionPad1 \<Longrightarrow> o6_data o1 = []" using Cons.prems by (auto simp: option6_ok_def)
  have i: "go_index ?all (length p) = Some ?k" by (simp add: go_index_def encodeIPv6Option_def)
  have lt: "length p < length ?all" by (simp add: encodeIPv6Option_def)
  have len: "ipv6ExtensionOptionLength ?k (drop (length p) ?all) = Some (length ?e)"
    using ok unat_option6_length [OF ok(1)] by (simp add: ipv6ExtensionOptionLength_def encodeIPv6Option_def Let_def)
  have body: "parse6Body ?all ?k (length p) (length ?e) acc = Some (Next (acc @ [o1]))"
  proof (cases "?k = IPv6ExtensionOptionPad1")
    case True
    then show ?thesis using ok(2) by (simp add: parse6Body_def encodeIPv6Option_def)
  next
    case False
    then show ?thesis by (simp add: parse6Body_def encodeIPv6Option_def go_slice_def)
  qed
  have "\<forall>opt \<in> set os. option6_ok opt" using Cons.prems by simp
  from Cons.IH [OF this, of "p @ ?e" "acc @ [o1]"] show ?case
    using i lt len body by (subst walk6.simps) simp
qed

lemma sizeIPv6Options_ok:
  "sizeIPv6Options os n = Inr m \<Longrightarrow> (\<forall>opt \<in> set os. option6_ok opt) \<and> m = n + length (concat (map encodeIPv6Option os))"
proof (induction os n rule: sizeIPv6Options.induct)
  case (2 o1 os n)
  show ?case
  proof (cases "o6_type o1 = IPv6ExtensionOptionPad1")
    case True
    with 2(3) have "o6_data o1 = []" "sizeIPv6Options os (n + 1) = Inr m" "\<not> n + 1 > 2046"
      by (simp_all split: if_splits)
    with 2(1) True show ?thesis by (simp add: encodeIPv6Option_def option6_ok_def)
  next
    case False
    with 2(3) have "\<not> length (o6_data o1) > 255" "sizeIPv6Options os (n + (2 + length (o6_data o1))) = Inr m"
      "\<not> n + (2 + length (o6_data o1)) > 2046"
      by (simp_all split: if_splits)
    with 2(2) False show ?thesis by (simp add: encodeIPv6Option_def option6_ok_def)
  qed
qed simp

lemma padding6_options: "concat (map encodeIPv6Option (padOptions k)) = padding6 k"
  by (simp add: padOptions_def padding6_def encodeIPv6Option_def ipv6_option_kinds)

lemma padOptions_ok: "k < 8 \<Longrightarrow> \<forall>opt \<in> set (padOptions k). option6_ok opt"
  by (auto simp: padOptions_def option6_ok_def ipv6_option_kinds)

text \<open>
  An IPv4 option list accepted by \<open>SetIPv4HeaderOptions\<close> is read back unchanged by
  \<open>IPv4HeaderOptions\<close>, and an IPv6 option list accepted by \<open>SetOptions\<close> is read back by
  \<open>Options\<close> with the padding option that aligns the header appended, the header being a multiple of eight
  octets long.
\<close>

theorem ip_options_roundtrip:
  "(SetIPv4HeaderOptions s d opts4 = Inr area \<longrightarrow> IPv4HeaderOptions s d area = Some (Inr opts4)) \<and>
   (xh_setOptions h opts6 = Inr h' \<longrightarrow> (1 + length (xh_data h')) mod 8 = 0 \<and> xh_type h' = xh_type h \<and>
      (\<exists>k < 8. xh_options h' = Some (Inr (opts6 @ padOptions k))))"
proof (intro conjI impI)
  assume "SetIPv4HeaderOptions s d opts4 = Inr area"
  then obtain m where m: "sizeIPv4Options opts4 0 False = Inr m" and a: "area = concat (map encodeIPv4Option opts4)"
    and s: "is4 (unmapAddr s)" "is4 (unmapAddr d)"
    by (auto simp: SetIPv4HeaderOptions_def split: if_splits sum.splits)
  have "length area \<le> 40" using sizeIPv4Options_length [OF m] a by simp
  then show "IPv4HeaderOptions s d area = Some (Inr opts4)"
    using headerOptions4_encode [OF m, of "[]" "[]"] s by (simp add: IPv4HeaderOptions_def a)
next
  assume h': "xh_setOptions h opts6 = Inr h'"
  then obtain m where t: "xh_type h = IPv6ExtensionHeaderHopByHop \<or> xh_type h = IPv6ExtensionHeaderDestination"
    and m: "sizeIPv6Options opts6 0 = Inr m"
    by (auto simp: xh_setOptions_def split: if_splits sum.splits)
  define k where "k = nat ((- int (2 + m)) mod 8)"
  have k: "k < 8" "(2 + m + k) mod 8 = 0"
  proof -
    have i: "int k = (- int (2 + m)) mod 8" by (simp add: k_def)
    have "(- int (2 + m)) mod 8 < 8" by simp
    then show "k < 8" using i by linarith
    have "int ((2 + m + k) mod 8) = (int (2 + m) + (- int (2 + m)) mod 8) mod 8"
      by (simp only: zmod_int of_nat_add i) simp
    also have "\<dots> = 0" by (simp add: mod_add_right_eq)
    finally show "(2 + m + k) mod 8 = 0" by simp
  qed
  have h: "h' = h\<lparr>xh_data := [of_nat ((2 + m + k) div 8 - 1)] @ concat (map encodeIPv6Option opts6) @ padding6 k\<rparr>"
    and le: "2 + m + k \<le> 2048"
    using h' t m by (auto simp: xh_setOptions_def k_def Let_def split: if_splits)
  note ok = sizeIPv6Options_ok [OF m]
  have pad: "length (padding6 k) = k" by (auto simp: padding6_def)
  have len: "1 + length (xh_data h') = 2 + m + k" using ok pad by (simp add: h)
  then show "(1 + length (xh_data h')) mod 8 = 0" using k(2) by simp
  show "xh_type h' = xh_type h" by (simp add: h)
  have unit: "(unat (of_nat ((2 + m + k) div 8 - 1) :: u8) + 1) * 8 = 2 + m + k"
  proof -
    have "(2 + m + k) div 8 - 1 \<le> 255" "1 \<le> (2 + m + k) div 8" using le k(2) by presburger+
    then have "(unat (of_nat ((2 + m + k) div 8 - 1) :: u8) + 1) * 8 = (2 + m + k) div 8 * 8"
      by (subst unat_option6_length) auto
    then show ?thesis using k(2) by presburger
  qed
  have dl: "ipv6ExtensionHeaderDataLength (xh_type h') (xh_data h') = Some (1 + length (xh_data h'))"
  proof -
    have f: "ipv6ExtensionHeaderLengthField (xh_type h) x = (unat x + 1) * 8" for x
      using t by (auto simp: ipv6ExtensionHeaderLengthField_def ipv6ExtensionHeaderUnit8LengthField_def ipv6_header_kinds)
    have tr: "isTraversableIPv6ExtensionHeader (xh_type h)" "xh_type h \<noteq> IPv6ExtensionHeaderFragment"
      using t by (auto simp: isTraversableIPv6ExtensionHeader_def ipv6_header_kinds)
    have d0: "xh_data h' ! 0 = of_nat ((2 + m + k) div 8 - 1)" "xh_data h' \<noteq> []" "xh_type h' = xh_type h" by (simp_all add: h)
    show ?thesis
      unfolding ipv6ExtensionHeaderDataLength_def d0(1,3) f unit len Let_def using tr d0(2) len by simp
  qed
  have "drop 1 (xh_data h') = concat (map encodeIPv6Option (opts6 @ padOptions k))"
    by (simp add: h padding6_options)
  moreover have "\<forall>opt \<in> set (opts6 @ padOptions k). option6_ok opt" using ok padOptions_ok [OF k(1)] by auto
  ultimately have "parseIPv6ExtensionOptions (drop 1 (xh_data h')) = Some (Inr (opts6 @ padOptions k))"
    using parse6_encode [of "opts6 @ padOptions k" "[]" "[]"] by (simp add: parseIPv6ExtensionOptions_def)
  then show "\<exists>k < 8. xh_options h' = Some (Inr (opts6 @ padOptions k))"
    using t dl k(1) by (intro exI [of _ k]) (auto simp: xh_options_def h)
qed

theorem ip_options_roundtrip_witness:
  "SetIPv4HeaderOptions (Addr4 1) (Addr4 2) [o4_setRouterAlert 0, \<lparr>o4_type = 0, o4_data = []\<rparr>] = Inr [148, 4, 0, 0, 0] \<and>
   IPv4HeaderOptions (Addr4 1) (Addr4 2) [148, 4, 0, 0, 0] = Some (Inr [o4_setRouterAlert 0, \<lparr>o4_type = 0, o4_data = []\<rparr>]) \<and>
   xh_setOptions \<lparr>xh_type = 0, xh_data = []\<rparr> [o6_setRouterAlert 0] = Inr \<lparr>xh_type = 0, xh_data = [0, 5, 2, 0, 0, 1, 0]\<rparr> \<and>
   (\<exists>k < 8. xh_options \<lparr>xh_type = 0, xh_data = [0, 5, 2, 0, 0, 1, 0]\<rparr> = Some (Inr ([o6_setRouterAlert 0] @ padOptions k)))"
proof -
  have a: "SetIPv4HeaderOptions (Addr4 1) (Addr4 2) [o4_setRouterAlert 0, \<lparr>o4_type = 0, o4_data = []\<rparr>] = Inr [148, 4, 0, 0, 0]"
    by code_simp
  have b: "xh_setOptions \<lparr>xh_type = 0, xh_data = []\<rparr> [o6_setRouterAlert 0] = Inr \<lparr>xh_type = 0, xh_data = [0, 5, 2, 0, 0, 1, 0]\<rparr>"
    by code_simp
  show ?thesis
    using a b ip_options_roundtrip [of "Addr4 1" "Addr4 2" "[o4_setRouterAlert 0, \<lparr>o4_type = 0, o4_data = []\<rparr>]"
        "[148, 4, 0, 0, 0]" "\<lparr>xh_type = 0, xh_data = []\<rparr>" "[o6_setRouterAlert 0]"
        "\<lparr>xh_type = 0, xh_data = [0, 5, 2, 0, 0, 1, 0]\<rparr>"]
    by blast
qed

section \<open>Round trip of the extension chain\<close>

text \<open>A header of complete length, read with its Next Header byte in front.\<close>

lemma headerLength_data:
  assumes "ipv6ExtensionHeaderDataLength k d = Some (1 + length d)"
  shows "ipv6ExtensionHeaderLength k (n # d @ rest) = Some (1 + length d)"
  using assms by (auto simp: ipv6ExtensionHeaderDataLength_def ipv6ExtensionHeaderLength_def nth_append Let_def
      split: if_splits)

lemma unit8_options:
  assumes "ipv6ExtensionHeaderDataLength k d = Some (1 + length d)"
    "k = IPv6ExtensionHeaderHopByHop \<or> k = IPv6ExtensionHeaderDestination"
  shows "inspectIPv6OptionsForCodec (n # d) = inspectIPv6OptionBytesForCodec (drop 1 d)"
proof -
  have "1 + length d = (unat (d ! 0) + 1) * 8"
    using assms by (auto simp: ipv6ExtensionHeaderDataLength_def ipv6ExtensionHeaderLengthField_def
        ipv6ExtensionHeaderUnit8LengthField_def ipv6_header_kinds Let_def split: if_splits)
  then have "8 \<le> length (n # d)" "length (n # d) mod 8 = 0" by simp_all
  then show ?thesis by (simp add: inspectIPv6OptionsForCodec_def drop_Cons')
qed

lemma linkHeaders_step:
  "linkHeaders protocol (h # hs) @ payload =
   (case hs of [] \<Rightarrow> protocol | n # _ \<Rightarrow> xh_type n) # xh_data h @ (linkHeaders protocol hs @ payload)"
  by simp

definition firstHeader :: "u8 \<Rightarrow> ipv6ExtensionHeader list \<Rightarrow> u8" where
  "firstHeader protocol hs = (case hs of [] \<Rightarrow> protocol | h # _ \<Rightarrow> xh_type h)"

text \<open>What the checking loop accepts in one step.\<close>

lemma strictHeader_ok:
  assumes "strictHeader h index cnt payload sh sf na = Some (Inr (sh', sf', na'))"
  shows "ipv6ExtensionHeaderDataLength (xh_type h) (xh_data h) = Some (1 + length (xh_data h))"
    "xh_type h = IPv6ExtensionHeaderHopByHop \<longrightarrow> index = 0 \<and> \<not> sh" "sh' = (sh \<or> xh_type h = IPv6ExtensionHeaderHopByHop)"
    "xh_type h = IPv6ExtensionHeaderHopByHop \<or> xh_type h = IPv6ExtensionHeaderDestination \<longrightarrow>
       (\<exists>ha. inspectIPv6OptionBytesForCodec (drop 1 (xh_data h)) = Some (Some (ha, False)))"
    "xh_type h \<noteq> IPv6ExtensionHeaderFragment \<longrightarrow> sf' = sf \<and> na' = na"
    "xh_type h = IPv6ExtensionHeaderFragment \<longrightarrow> \<not> sf \<and> sf' \<and> (\<exists>off mf i. xh_fragment h = Some (off, mf, i) \<and>
       na' = (off \<noteq> 0 \<or> mf) \<and> (na' \<longrightarrow> index = cnt - 1 \<and> validFragmentPayload off mf (int (length payload)) 65535))"
proof -
  have c1: "\<not> (xh_type h = IPv6ExtensionHeaderHopByHop \<and> (index \<noteq> 0 \<or> sh))"
    using assms unfolding strictHeader_def by (cases "xh_type h = IPv6ExtensionHeaderHopByHop \<and> (index \<noteq> 0 \<or> sh)") simp_all
  note v = assms [unfolded strictHeader_def Let_def if_not_P [OF c1]]
  have c2: "\<not> ipv6ExtensionHeaderDataLength (xh_type h) (xh_data h) \<noteq> Some (1 + length (xh_data h))"
    using v by (cases "ipv6ExtensionHeaderDataLength (xh_type h) (xh_data h) \<noteq> Some (1 + length (xh_data h))") simp_all
  note v = v [unfolded if_not_P [OF c2]]
  obtain ins where ins: "(if xh_type h = IPv6ExtensionHeaderHopByHop \<or> xh_type h = IPv6ExtensionHeaderDestination
     then inspectIPv6OptionBytesForCodec (drop 1 (xh_data h)) else Some (Some (False, False))) = Some ins"
    using option_loops_total(8) [of "drop 1 (xh_data h)"] by (cases "xh_type h = IPv6ExtensionHeaderHopByHop \<or> xh_type h = IPv6ExtensionHeaderDestination") auto
  note v = v [unfolded ins Option.bind.bind_lunit]
  obtain ha where ha: "ins = Some (ha, False)"
  proof (cases ins)
    case None
    from v [unfolded None option.case] show ?thesis by simp
  next
    case (Some y)
    obtain a b where y: "y = (a, b)" by fastforce
    show ?thesis
    proof (cases b)
      case True
      with v [unfolded Some y option.case prod.case] show ?thesis by simp
    next
      case False
      with Some y that show ?thesis by simp
    qed
  qed
  note v = v [unfolded ha option.case prod.case bool.case]
  show "ipv6ExtensionHeaderDataLength (xh_type h) (xh_data h) = Some (1 + length (xh_data h))" using c2 by blast
  show "xh_type h = IPv6ExtensionHeaderHopByHop \<longrightarrow> index = 0 \<and> \<not> sh" using c1 by blast
  show "xh_type h = IPv6ExtensionHeaderHopByHop \<or> xh_type h = IPv6ExtensionHeaderDestination \<longrightarrow>
       (\<exists>ha. inspectIPv6OptionBytesForCodec (drop 1 (xh_data h)) = Some (Some (ha, False)))"
    using ins ha by (cases "xh_type h = IPv6ExtensionHeaderHopByHop \<or> xh_type h = IPv6ExtensionHeaderDestination") simp_all
  have rest: "(if xh_type h = IPv6ExtensionHeaderFragment
      then \<not> sf \<and> sf' \<and> (\<exists>off mf i. xh_fragment h = Some (off, mf, i) \<and>
       na' = (off \<noteq> 0 \<or> mf) \<and> (na' \<longrightarrow> index = cnt - 1 \<and> validFragmentPayload off mf (int (length payload)) 65535))
      else sf' = sf \<and> na' = na) \<and> sh' = (sh \<or> xh_type h = IPv6ExtensionHeaderHopByHop)"
  proof (cases "xh_type h = IPv6ExtensionHeaderFragment")
    case True
    note v = v [unfolded if_P [OF True]]
    have sf: "\<not> sf" using v by (cases sf) simp_all
    obtain off mf i where f: "xh_fragment h = Some (off, mf, i)" using v sf by (cases "xh_fragment h") auto
    show ?thesis using v True sf f by (cases "off \<noteq> 0 \<or> mf") (auto split: if_splits)
  qed (use v in simp)
  show "sh' = (sh \<or> xh_type h = IPv6ExtensionHeaderHopByHop)" using rest by blast
  show "xh_type h \<noteq> IPv6ExtensionHeaderFragment \<longrightarrow> sf' = sf \<and> na' = na"
    "xh_type h = IPv6ExtensionHeaderFragment \<longrightarrow> \<not> sf \<and> sf' \<and> (\<exists>off mf i. xh_fragment h = Some (off, mf, i) \<and>
       na' = (off \<noteq> 0 \<or> mf) \<and> (na' \<longrightarrow> index = cnt - 1 \<and> validFragmentPayload off mf (int (length payload)) 65535))"
    using rest by (simp_all split: if_splits)
qed


lemma checkHeaders_step:
  assumes "checkHeaders True payload cnt (h # hs) index tot (sh, sf, na) = Some (Inr na')"
  obtains sh1 sf1 na1 where "isTraversableIPv6ExtensionHeader (xh_type h)"
    "strictHeader h index cnt payload sh sf na = Some (Inr (sh1, sf1, na1))" "tot + (1 + length (xh_data h)) \<le> 65535"
    "checkHeaders True payload cnt hs (Suc index) (tot + (1 + length (xh_data h))) (sh1, sf1, na1) = Some (Inr na')"
proof -
  have c: "isTraversableIPv6ExtensionHeader (xh_type h)"
    using assms by (cases "isTraversableIPv6ExtensionHeader (xh_type h)") simp_all
  obtain r where r: "strictHeader h index cnt payload sh sf na = Some r"
    using assms c by (cases "strictHeader h index cnt payload sh sf na") simp_all
  obtain s where s: "r = Inr s" using assms c r by (cases r) simp_all
  obtain sh1 sf1 na1 where t: "s = (sh1, sf1, na1)" by (cases s) auto
  show ?thesis using that [of sh1 sf1 na1] assms c r s t by (simp split: if_splits)
qed

lemma checkHeaders_total_size:
  "checkHeaders True payload cnt hs index tot seen = Some (Inr na') \<Longrightarrow> tot \<le> 65535 \<Longrightarrow>
   tot + length (linkHeaders protocol hs) \<le> 65535"
proof (induction hs arbitrary: index tot seen)
  case Nil
  then show ?case by simp
next
  case (Cons h hs)
  obtain sh sf na where seen: "seen = (sh, sf, na)" by (cases seen) auto
  obtain sh1 sf1 na1 where s: "tot + (1 + length (xh_data h)) \<le> 65535"
    "checkHeaders True payload cnt hs (Suc index) (tot + (1 + length (xh_data h))) (sh1, sf1, na1) = Some (Inr na')"
    using checkHeaders_step [OF Cons.prems(1) [unfolded seen]] by metis
  show ?case using Cons.IH [OF s(2,1)] by simp
qed


lemma headers_step_facts:
  assumes full: "full = pre @ (n # d @ rest)"
    and len: "ipv6ExtensionHeaderDataLength k d = Some (1 + length d)"
  shows "ipv6ExtensionHeaderLength k (drop (length pre) full) = Some (1 + length d)"
    "go_slice full (length pre) (length pre + (1 + length d)) = Some (n # d)"
    "drop (length pre + (1 + length d)) full = rest"
  using headerLength_data [OF len] by (simp_all add: full go_slice_def)

lemma extensionHeaders_link:
  assumes "checkHeaders True payload cnt hs index tot (sh, sf, False) = Some (Inr na')" "index + length hs = cnt"
    "length payload \<le> tot" "tot \<le> 65535" "index = 0 \<longleftrightarrow> pre = []" "isTraversableIPv6ExtensionHeader protocol \<Longrightarrow> na'"
  shows "extensionHeadersFrom (pre @ (linkHeaders protocol hs @ payload)) (firstHeader protocol hs) (length pre) sh sf acc =
    Some (Inr (acc @ hs, protocol, payload))"
  using assms
proof (induction hs arbitrary: index tot sh sf pre acc)
  case Nil
  then show ?case by (subst extensionHeadersFrom.simps) (auto simp: firstHeader_def)
next
  case (Cons h hs)
  let ?k = "xh_type h" and ?d = "xh_data h" and ?n = "firstHeader protocol hs" and ?rest = "linkHeaders protocol hs @ payload"
  let ?full = "pre @ (linkHeaders protocol (h # hs) @ payload)"
  have full: "?full = pre @ (?n # ?d @ ?rest)" by (simp add: firstHeader_def)
  obtain sh1 sf1 na1 where s: "isTraversableIPv6ExtensionHeader ?k"
    "strictHeader h index cnt payload sh sf False = Some (Inr (sh1, sf1, na1))" "tot + (1 + length ?d) \<le> 65535"
    "checkHeaders True payload cnt hs (Suc index) (tot + (1 + length ?d)) (sh1, sf1, na1) = Some (Inr na')"
    using checkHeaders_step [OF Cons.prems(1)] by metis
  note ok = strictHeader_ok [OF s(2)]
  note facts = headers_step_facts [OF full ok(1)]
  obtain ha where ins: "(if ?k = IPv6ExtensionHeaderHopByHop \<or> ?k = IPv6ExtensionHeaderDestination
      then inspectIPv6OptionsForCodec (?n # ?d) else Some (Some (False, False))) = Some (Some (ha, False))"
    using ok(4) unit8_options [OF ok(1), of ?n]
    by (cases "?k = IPv6ExtensionHeaderHopByHop \<or> ?k = IPv6ExtensionHeaderDestination") auto
  have hop: "\<not> (?k = IPv6ExtensionHeaderHopByHop \<and> (length pre \<noteq> 0 \<or> sh))" using ok(2) Cons.prems(5) by auto
  have small: "length ?rest \<le> 65535"
    using checkHeaders_total_size [OF s(4,3), of protocol] Cons.prems(3) by simp
  have rec: "extensionHeadersFrom ?full ?n (length pre + (1 + length ?d)) sh1 sf1 (acc @ [h]) =
      Some (Inr (acc @ h # hs, protocol, payload))" if "\<not> na1"
    using Cons.IH [of "Suc index" "tot + (1 + length ?d)" sh1 sf1 "pre @ (?n # ?d)" "acc @ [h]"] s(3,4) Cons.prems that
    by (simp add: firstHeader_def del: linkHeaders.simps(1))
  have first: "firstHeader protocol (h # hs) = ?k" by (simp add: firstHeader_def)
  have h: "\<lparr>xh_type = ?k, xh_data = ?d\<rparr> = h" by simp
  have step: "extensionHeadersFrom ?full ?k (length pre) sh sf acc =
      (if ?k = IPv6ExtensionHeaderFragment then
        (if sf then Some (Inl EINVAL)
         else case xh_fragment h of
             None \<Rightarrow> Some (Inl EINVAL)
           | Some (fragmentOffset, mf, _) \<Rightarrow>
               if \<not> validFragmentPayload fragmentOffset mf (int (length ?rest)) 65535
               then Some (Inl EINVAL)
               else if fragmentOffset \<noteq> 0 \<or> mf then Some (Inr (acc @ [h], ?n, ?rest))
               else extensionHeadersFrom ?full ?n (length pre + (1 + length ?d)) (sh \<or> ?k = IPv6ExtensionHeaderHopByHop) True (acc @ [h]))
       else extensionHeadersFrom ?full ?n (length pre + (1 + length ?d)) (sh \<or> ?k = IPv6ExtensionHeaderHopByHop) sf (acc @ [h]))"
    apply (subst extensionHeadersFrom.simps)
    using s(1) hop apply (simp only: if_P if_not_P not_not simp_thms facts option.case Option.bind.bind_lunit go_index_def)
    apply (simp only: length_Cons nth_Cons_0 zero_less_Suc if_True Option.bind.bind_lunit ins option.case prod.case bool.case drop_Suc_Cons drop_0 One_nat_def Let_def h facts [unfolded One_nat_def])
    done
  show ?case
  proof (cases "?k = IPv6ExtensionHeaderFragment")
    case False
    then have "sf1 = sf" "\<not> na1" using ok(5) by auto
    then show ?thesis using rec step False ok(3) unfolding first by simp
  next
    case True
    then obtain off mf i where f: "\<not> sf" "sf1" "xh_fragment h = Some (off, mf, i)" "na1 = (off \<noteq> 0 \<or> mf)"
      "na1 \<longrightarrow> index = cnt - 1 \<and> validFragmentPayload off mf (int (length payload)) 65535"
      using ok(6) by auto
    show ?thesis
    proof (cases na1)
      case True
      then have "index = cnt - 1" using f(5) by blast
      moreover have "index + Suc (length hs) = cnt" using Cons.prems(2) by simp
      ultimately have "hs = []" by (cases hs) simp_all
      then show ?thesis using step f True \<open>?k = IPv6ExtensionHeaderFragment\<close> unfolding first by (auto simp: firstHeader_def)
    next
      case False
      then have "validFragmentPayload off mf (int (length ?rest)) 65535"
        using f(4) small by (simp add: validFragmentPayload_def)
      then show ?thesis using step f False rec ok(3) True unfolding first by simp
    qed
  qed
qed

text \<open>
  C30: Extension headers accepted by \<open>SetIPv6ExtensionHeaders\<close> are read back unchanged, in order and with
  the same final protocol and payload, by \<open>IPv6ExtensionHeaders\<close>.
\<close>

theorem extension_headers_roundtrip:
  assumes set: "setIPv6ExtensionHeaders p headers protocol payload True = Some (Inr q)"
    and fields: "pk_identification p = 0" "\<not> pk_dontFragment p" "\<not> pk_moreFragments p" "pk_fragmentOffset p = 0"
      "pk_ipv4Options p = []"
  shows "IPv6ExtensionHeaders q = Some (Inr (headers, of_int protocol, payload))"
proof -
  have a: "plain6 (pk_source p)" "plain6 (pk_destination p)" "0 \<le> protocol" "protocol \<le> 255" "length payload \<le> 65535"
    using set unfolding setIPv6ExtensionHeaders_def by (auto split: if_splits)
  obtain r where r: "checkHeaders True payload (length headers) headers 0 (length payload) (False, False, False) = Some r"
    using set a unfolding setIPv6ExtensionHeaders_def
    by (cases "checkHeaders True payload (length headers) headers 0 (length payload) (False, False, False)") auto
  obtain na where na: "r = Inr na" using set a r unfolding setIPv6ExtensionHeaders_def by (cases r) auto
  have q: "\<not> (isTraversableIPv6ExtensionHeader (of_int protocol) \<and> \<not> na)"
    "q = p\<lparr>pk_protocol := (case headers of [] \<Rightarrow> protocol | h # _ \<Rightarrow> int (unat (xh_type h))),
      pk_payload := linkHeaders (of_int protocol) headers @ payload\<rparr>"
    using set a r na unfolding setIPv6ExtensionHeaders_def by (auto split: if_splits)
  have "extensionHeadersFrom ([] @ (linkHeaders (of_int protocol) headers @ payload)) (firstHeader (of_int protocol) headers)
      (length ([] :: bytes)) False False [] = Some (Inr ([] @ headers, of_int protocol, payload))"
    by (rule extensionHeaders_link [OF r [unfolded na]]) (use q(1) a in auto)
  moreover have "of_int (pk_protocol q) = firstHeader (of_int protocol) headers \<and> 0 \<le> pk_protocol q \<and> pk_protocol q \<le> 255"
  proof (cases headers)
    case Nil
    then show ?thesis using a by (simp add: q(2) firstHeader_def)
  next
    case (Cons h hs)
    moreover have "int (unat (xh_type h)) \<le> int 255" using unat_le_u8 by (rule of_nat_mono)
    ultimately show ?thesis by (simp add: q(2) firstHeader_def)
  qed
  ultimately show ?thesis using a fields by (simp add: IPv6ExtensionHeaders_def q(2))
qed


theorem extension_headers_roundtrip_witness:
  "\<exists>p q. setIPv6ExtensionHeaders p [\<lparr>xh_type = 0, xh_data = [0, 5, 2, 0, 0, 1, 0]\<rparr>, \<lparr>xh_type = 44, xh_data = [0, 0, 1, 0, 0, 0, 7]\<rparr>]
       17 [1, 2, 3, 4, 5, 6, 7, 8] True = Some (Inr q) \<and>
     IPv6ExtensionHeaders q =
       Some (Inr ([\<lparr>xh_type = 0, xh_data = [0, 5, 2, 0, 0, 1, 0]\<rparr>, \<lparr>xh_type = 44, xh_data = [0, 0, 1, 0, 0, 0, 7]\<rparr>],
         of_int 17, [1, 2, 3, 4, 5, 6, 7, 8]))"
proof -
  let ?p = "\<lparr>pk_source = Addr6 1 [], pk_destination = Addr6 2 [], pk_protocol = 0, pk_hopLimit = 0, pk_trafficClass = 0,
    pk_flowLabel = 0, pk_identification = 0, pk_dontFragment = False, pk_moreFragments = False, pk_fragmentOffset = 0,
    pk_ipv4Options = [], pk_payload = []\<rparr>"
  let ?q = "?p\<lparr>pk_protocol := 0, pk_payload := [44, 0, 5, 2, 0, 0, 1, 0, 17, 0, 0, 1, 0, 0, 0, 7, 1, 2, 3, 4, 5, 6, 7, 8]\<rparr>"
  let ?hs = "[\<lparr>xh_type = 0, xh_data = [0, 5, 2, 0, 0, 1, 0]\<rparr>, \<lparr>xh_type = 44, xh_data = [0, 0, 1, 0, 0, 0, 7]\<rparr>] :: ipv6ExtensionHeader list"
  have a: "plain6 (Addr6 1 [])" "plain6 (Addr6 2 [])" by code_simp+
  have b: "checkHeaders True [1, 2, 3, 4, 5, 6, 7, 8] (length ?hs) ?hs 0 (length [1, 2, 3, 4, 5, 6, 7, 8 :: u8]) (False, False, False) =
      Some (Inr True)" by code_simp
  have "setIPv6ExtensionHeaders ?p ?hs 17 [1, 2, 3, 4, 5, 6, 7, 8] True = Some (Inr ?q)"
    unfolding setIPv6ExtensionHeaders_def b using a by simp
  then show ?thesis using extension_headers_roundtrip [of ?p ?hs 17 "[1, 2, 3, 4, 5, 6, 7, 8]" ?q] by auto
qed

end
