(* ===== verification/Ip_Wire.thy ===== *)
theory Ip_Wire
  imports Ip_Packet
begin

text \<open>
  Writing packets and the receive path of \<^verbatim>\<open>src/packet.go\<close>: \<open>wireLayout\<close>, \<open>AppendBinary\<close> and
  \<open>AppendRawBinary\<close> with the sender's normalisation of IPv6 extension headers, \<open>marshalIPHeader\<close> of
  the send path, and \<open>parseIPPacket\<close>, which every received packet goes through.
\<close>

section \<open>Layout\<close>

definition wireLayout :: "ipPacketPub \<Rightarrow> bool \<Rightarrow> (errno + ipPacketPub \<times> nat \<times> nat) option" where
  "wireLayout p strict =
     (if addrZone (pk_source p) \<noteq> [] \<or> addrZone (pk_destination p) \<noteq> [] then Some (Inl EINVAL)
      else
        let p = p\<lparr>pk_source := unmapAddr (pk_source p), pk_destination := unmapAddr (pk_destination p)\<rparr>
        in if \<not> isValidAddr (pk_source p) \<or> \<not> isValidAddr (pk_destination p) \<or>
              is4 (pk_source p) \<noteq> is4 (pk_destination p) \<or> pk_protocol p < 0 \<or> pk_protocol p > 255 \<or>
              pk_hopLimit p < 0 \<or> pk_hopLimit p > 255 \<or> pk_trafficClass p < 0 \<or> pk_trafficClass p > 255
           then Some (Inl EINVAL)
           else if is4 (pk_source p) then
             (if pk_flowLabel p \<noteq> 0 \<or> length (pk_ipv4Options p) > 40 then Some (Inl EINVAL)
              else do {
                valid \<leftarrow> (if strict then validIPv4OptionsForCodec (pk_ipv4Options p) else Some True);
                let headerSize = 20 + (length (pk_ipv4Options p) + 3) div 4 * 4;
                if \<not> valid then Some (Inl EINVAL)
                else if length (pk_payload p) > 65535 - headerSize then Some (Inl EMSGSIZE)
                else if strict \<and> \<not> validFragmentPayload (pk_fragmentOffset p) (pk_moreFragments p)
                         (int (length (pk_payload p))) (65535 - 20) then Some (Inl EINVAL)
                else if \<not> strict \<and> (pk_fragmentOffset p < 0 \<or> pk_fragmentOffset p > 65528 \<or> pk_fragmentOffset p mod 8 \<noteq> 0)
                then Some (Inl EINVAL)
                else Some (Inr (p, headerSize, headerSize + length (pk_payload p))) })
           else if pk_flowLabel p > ipv6MaximumFlowLabel \<or> pk_identification p \<noteq> 0 \<or> pk_dontFragment p \<or>
                   pk_moreFragments p \<or> pk_fragmentOffset p \<noteq> 0 \<or> length (pk_ipv4Options p) \<noteq> 0
           then Some (Inl EINVAL)
           else if length (pk_payload p) > 65535 then Some (Inl EMSGSIZE)
           else do {
             walked \<leftarrow> (if strict then map_option (\<lambda>r. r \<noteq> None) (walkIPv6UpperLayer (of_int (pk_protocol p)) (pk_payload p))
                        else Some True);
             if \<not> walked then Some (Inl EINVAL)
             else Some (Inr (p, 40, 40 + length (pk_payload p))) })"

section \<open>Normalisation\<close>

text \<open>
  The loop that clears the data of PadN options, on one option area: the area, and whether the loop
  came to its end (\<open>return\<close> on invalid framing leaves the whole routine).
\<close>

function clearPadN :: "bytes \<Rightarrow> nat \<Rightarrow> (bytes \<times> bool) option" where
  "clearPadN options offset =
     (if offset < length options then do {
        optionType \<leftarrow> go_index options offset;
        case ipv6ExtensionOptionLength optionType (drop offset options) of
          None \<Rightarrow> Some (options, False)
        | Some len \<Rightarrow>
            clearPadN (if optionType = IPv6ExtensionOptionPadN
                       then take (offset + 2) options @ replicate (len - 2) 0 @ drop (offset + len) options
                       else options) (offset + len) }
      else Some (options, True))"
  by pat_completeness auto

lemma ipv6ExtensionOptionLength_le:
  "ipv6ExtensionOptionLength k r = Some len \<Longrightarrow> r \<noteq> [] \<Longrightarrow> len \<le> length r"
  by (cases r) (auto simp: ipv6ExtensionOptionLength_def Let_def split: if_splits)

lemma ipv6ExtensionOptionLength_PadN:
  "ipv6ExtensionOptionLength IPv6ExtensionOptionPadN r = Some len \<Longrightarrow> 2 \<le> len"
  by (auto simp: ipv6ExtensionOptionLength_def ipv6_option_kinds Let_def split: if_splits)

lemma length_clear:
  assumes "ipv6ExtensionOptionLength IPv6ExtensionOptionPadN (drop offset options) = Some len" "offset < length options"
  shows "length (take (offset + 2) options @ replicate (len - 2) 0 @ drop (offset + len) options) = length options"
  using ipv6ExtensionOptionLength_PadN [OF assms(1)] ipv6ExtensionOptionLength_le [OF assms(1)] assms(2) by simp

termination clearPadN
proof (relation "measure (\<lambda>(options, offset). length options - offset)")
  fix options :: bytes and offset x len
  assume a: "offset < length options" "ipv6ExtensionOptionLength x (drop offset options) = Some len"
  show "((if x = IPv6ExtensionOptionPadN then take (offset + 2) options @ replicate (len - 2) 0 @ drop (offset + len) options
      else options, offset + len), options, offset) \<in> measure (\<lambda>(options, offset). length options - offset)"
    using ipv6ExtensionOptionLength_pos [OF a(2)] length_clear [of offset options len] a by auto
qed simp

declare clearPadN.simps [simp del]

lemma clearPadN_length: "clearPadN options offset = Some (options', f) \<Longrightarrow> length options' = length options"
proof (induction options offset rule: clearPadN.induct)
  case (1 options offset)
  show ?case
  proof (cases "offset < length options")
    case True
    then obtain k where k: "go_index options offset = Some k" by (simp add: go_index_in)
    show ?thesis
    proof (cases "ipv6ExtensionOptionLength k (drop offset options)")
      case None
      then show ?thesis using "1.prems" True k by (simp add: clearPadN.simps [of options offset])
    next
      case (Some len)
      then show ?thesis using "1.prems" "1.IH" [OF True k Some] True k length_clear [of offset options len]
        by (auto simp: clearPadN.simps [of options offset] split: if_splits)
    qed
  qed (use 1 in \<open>simp add: clearPadN.simps [of options offset]\<close>)
qed

text \<open>\<open>header[1] = 0\<close> and the two reserved bits of the offset field.\<close>

definition clearReserved :: "bytes \<Rightarrow> u16 \<Rightarrow> bytes" where
  "clearReserved header field = header[1 := 0, 2 := ucast (drop_bit 8 (field AND NOT 6)), 3 := ucast (field AND NOT 6)]"

text \<open>Writing back a changed header.\<close>

definition replaceHeader :: "bytes \<Rightarrow> nat \<Rightarrow> nat \<Rightarrow> bytes \<Rightarrow> bytes" where
  "replaceHeader payload offset len header = take offset payload @ header @ drop (offset + len) payload"

function normalizeFrom :: "u8 \<Rightarrow> bytes \<Rightarrow> nat \<Rightarrow> bytes option" where
  "normalizeFrom next payload offset =
     (if \<not> isTraversableIPv6ExtensionHeader next then Some payload
      else case ipv6ExtensionHeaderLength next (drop offset payload) of
        None \<Rightarrow> Some payload
      | Some len \<Rightarrow> do {
          header \<leftarrow> go_slice payload offset (offset + len);
          following \<leftarrow> go_index header 0;
          if next = IPv6ExtensionHeaderHopByHop \<or> next = IPv6ExtensionHeaderDestination then do {
            (options, finished) \<leftarrow> clearPadN (drop 2 header) 0;
            let payload' = replaceHeader payload offset len (take 2 header @ options);
            if finished then normalizeFrom following payload' (offset + len) else Some payload' }
          else if next = IPv6ExtensionHeaderFragment then do {
            field \<leftarrow> read16 header 2;
            let payload' = replaceHeader payload offset len (clearReserved header field);
            if field AND 0xfff9 \<noteq> 0 then Some payload'
            else normalizeFrom following payload' (offset + len) }
          else normalizeFrom following payload (offset + len) })"
  by pat_completeness auto

lemma length_replaceHeader:
  "go_slice payload offset (offset + len) = Some header \<Longrightarrow> length h = length header \<Longrightarrow>
   length (replaceHeader payload offset len h) = length payload"
  by (auto simp: replaceHeader_def go_slice_def split: if_splits)

lemma normalize_shrinks:
  assumes "ipv6ExtensionHeaderLength next (drop offset payload) = Some len"
    "go_slice payload offset (offset + len) = Some header" "length h = length header"
  shows "length (replaceHeader payload offset len h) - (offset + len) < length payload - offset"
  using chain_step [OF assms(1)] length_replaceHeader [OF assms(2,3)] by simp

termination normalizeFrom
proof (relation "measure (\<lambda>(next, payload, offset). length payload - offset)", goal_cases)
  case (2 nxt payload offset len header following x options finished payload')
  then have "length (take 2 header @ options) = length header"
    using clearPadN_length [of "drop 2 header" 0 options finished] by auto
  with 2 show ?case using normalize_shrinks [of nxt offset payload len header "take 2 header @ options"] by simp
next
  case (3 nxt payload offset len header following field payload')
  then show ?case using normalize_shrinks [of nxt offset payload len header "clearReserved header field"]
    by (simp add: clearReserved_def)
qed (auto intro: chain_step)

declare normalizeFrom.simps [simp del]

definition normalizeIPv6ExtensionFields :: "u8 \<Rightarrow> bytes \<Rightarrow> bytes option" where
  "normalizeIPv6ExtensionFields first payload = normalizeFrom first payload 0"

section \<open>Writing packets\<close>

definition header4 ::
  "bool \<Rightarrow> u8 \<Rightarrow> u8 \<Rightarrow> u16 \<Rightarrow> u16 \<Rightarrow> u16 \<Rightarrow> u8 \<Rightarrow> u8 \<Rightarrow> bytes \<Rightarrow> bytes \<Rightarrow> bytes \<Rightarrow> bytes" where
  "header4 big b0 trafficClass totalSize identification fragment hopLimit protocol source destination options =
     (let front = [b0, trafficClass] @ be_put16 totalSize @ be_put16 identification @ be_put16 fragment @ [hopLimit, protocol];
          back = source @ destination @ options
      in front @ be_put16 (checksum big (front @ [0, 0] @ back)) @ back)"

definition fragmentWord :: "int \<Rightarrow> bool \<Rightarrow> bool \<Rightarrow> u16" where
  "fragmentWord offset dontFragment moreFragments =
     (let fragment = of_int (offset div 8);
          fragment = (if dontFragment then fragment OR 0x4000 else fragment)
      in if moreFragments then fragment OR 0x2000 else fragment)"

text \<open>The option area as it is written: the content, and zeroes up to the header's end.\<close>

definition writtenOptions :: "bytes \<Rightarrow> nat \<Rightarrow> bool \<Rightarrow> bytes option" where
  "writtenOptions options headerSize canonical = do {
     content \<leftarrow> (if canonical then do {
         r \<leftarrow> ipv4OptionsContentLength options;
         (case r of Some n \<Rightarrow> go_slice options 0 n | None \<Rightarrow> go_slice options 0 0) }
       else Some options);
     Some (content @ replicate (headerSize - 20 - length content) 0) }"

definition marshalPublicIPv6BaseHeader :: "ipPacketPub \<Rightarrow> u8 \<Rightarrow> nat \<Rightarrow> bytes" where
  "marshalPublicIPv6BaseHeader p protocol payloadSize =
     (let tc = of_int (pk_trafficClass p) :: u8
      in [0x60 OR drop_bit 4 tc, push_bit 4 tc OR ucast (drop_bit 16 (pk_flowLabel p))] @ be_put16 (ucast (pk_flowLabel p)) @
         be_put16 (of_nat payloadSize) @ [protocol, of_int (pk_hopLimit p)] @ as16 (pk_source p) @ as16 (pk_destination p))"

definition marshalPublicIPPacket :: "bool \<Rightarrow> ipPacketPub \<Rightarrow> nat \<Rightarrow> bool \<Rightarrow> bytes option" where
  "marshalPublicIPPacket big p headerSize canonical =
     (if is4 (pk_source p) then do {
        options \<leftarrow> writtenOptions (pk_ipv4Options p) headerSize canonical;
        source \<leftarrow> as4 (pk_source p);
        destination \<leftarrow> as4 (pk_destination p);
        Some (header4 big (0x40 OR of_nat (headerSize div 4)) (of_int (pk_trafficClass p))
                (of_nat (headerSize + length (pk_payload p))) (pk_identification p)
                (fragmentWord (pk_fragmentOffset p) (pk_dontFragment p) (pk_moreFragments p))
                (of_int (pk_hopLimit p)) (of_int (pk_protocol p)) source destination options @ pk_payload p) }
      else do {
        payload \<leftarrow> (if canonical then normalizeIPv6ExtensionFields (of_int (pk_protocol p)) (pk_payload p)
                    else Some (pk_payload p));
        Some (marshalPublicIPv6BaseHeader p (of_int (pk_protocol p)) (length (pk_payload p)) @ payload) })"

text \<open>\<open>AppendBinary\<close> (\<open>strict\<close>) and \<open>AppendRawBinary\<close>: an error leaves \<open>dst\<close> as it was.\<close>

definition appendPacket :: "bool \<Rightarrow> bool \<Rightarrow> ipPacketPub \<Rightarrow> bytes \<Rightarrow> (bytes \<times> errno option) option" where
  "appendPacket big strict p dst = do {
     layout \<leftarrow> wireLayout p strict;
     case layout of
       Inl e \<Rightarrow> Some (dst, Some e)
     | Inr (normalized, headerSize, totalSize) \<Rightarrow> do {
         written \<leftarrow> marshalPublicIPPacket big normalized headerSize strict;
         Some (dst @ written, None) } }"

definition AppendBinary :: "bool \<Rightarrow> ipPacketPub \<Rightarrow> bytes \<Rightarrow> (bytes \<times> errno option) option" where
  "AppendBinary big = appendPacket big True"

definition AppendRawBinary :: "bool \<Rightarrow> ipPacketPub \<Rightarrow> bytes \<Rightarrow> (bytes \<times> errno option) option" where
  "AppendRawBinary big = appendPacket big False"

section \<open>The send path\<close>

record ipPacketOptions =
  po_hopLimit :: u8
  po_trafficClass :: u8
  po_flowLabel :: u32
  po_hopLimitSet :: bool
  po_trafficClassSet :: bool
  po_flowLabelSet :: bool

definition withDefaults :: "ipPacketOptions \<Rightarrow> ipPacketOptions \<Rightarrow> bool \<Rightarrow> ipPacketOptions" where
  "withDefaults opts defaults multicast =
     (let opts = (if \<not> multicast \<and> \<not> po_hopLimitSet opts \<and> po_hopLimit opts = 0
                  then opts\<lparr>po_hopLimit := po_hopLimit defaults, po_hopLimitSet := po_hopLimitSet defaults\<rparr> else opts);
          opts = (if \<not> po_trafficClassSet opts \<and> po_trafficClass opts = 0
                  then opts\<lparr>po_trafficClass := po_trafficClass defaults, po_trafficClassSet := po_trafficClassSet defaults\<rparr>
                  else opts)
      in if \<not> po_flowLabelSet opts
         then opts\<lparr>po_flowLabel := po_flowLabel defaults, po_flowLabelSet := po_flowLabelSet defaults\<rparr> else opts)"

definition normalizedOptions :: "ipPacketOptions \<Rightarrow> ipPacketOptions" where
  "normalizedOptions opts =
     (let opts = (if \<not> po_hopLimitSet opts \<and> po_hopLimit opts = 0 then opts\<lparr>po_hopLimit := 64\<rparr> else opts)
      in opts\<lparr>po_flowLabel := po_flowLabel opts AND ipv6MaximumFlowLabel\<rparr>)"

definition ipHeaderSize :: "addr \<Rightarrow> addr \<Rightarrow> int \<Rightarrow> nat" where
  "ipHeaderSize source target payloadSize =
     (let source = unmapAddr source; target = unmapAddr target
      in if \<not> isValidAddr source \<or> \<not> isValidAddr target \<or> is4 source \<noteq> is4 target then 0
         else if is4 source then (if payloadSize < 0 \<or> payloadSize > 65515 then 0 else 20)
         else if payloadSize < 0 \<or> payloadSize > 65535 then 0 else 40)"

text \<open>\<open>None\<close> is \<open>false\<close>; otherwise the packet with its header written over the first bytes.\<close>

definition marshalIPHeader ::
  "bool \<Rightarrow> bytes \<Rightarrow> addr \<Rightarrow> addr \<Rightarrow> u8 \<Rightarrow> u16 \<Rightarrow> bool \<Rightarrow> ipPacketOptions \<Rightarrow> bytes option" where
  "marshalIPHeader big packet source target protocol identification dontFragment opts =
     (let source = unmapAddr source; target = unmapAddr target;
          headerSize = (if is6 source then 40 else 20)
      in if length packet < headerSize \<or> ipHeaderSize source target (int (length packet) - int headerSize) \<noteq> headerSize
         then None
         else
           let opts = normalizedOptions opts
           in if is4 source then do {
                s \<leftarrow> as4 source;
                t \<leftarrow> as4 target;
                Some (header4 big 0x45 (po_trafficClass opts) (of_nat (length packet)) identification
                        (if dontFragment then 0x4000 else 0) (po_hopLimit opts) protocol s t [] @ drop 20 packet) }
              else Some ([0x60 OR drop_bit 4 (po_trafficClass opts),
                          push_bit 4 (po_trafficClass opts) OR ucast (drop_bit 16 (po_flowLabel opts))] @
                         be_put16 (ucast (po_flowLabel opts)) @ be_put16 (of_nat (length packet - 40)) @
                         [protocol, po_hopLimit opts] @ as16 source @ as16 target @ drop 40 packet))"


section \<open>The receive path\<close>

definition packetDestination :: "bytes \<Rightarrow> addr option" where
  "packetDestination packet =
     (if length packet < 1 then None
      else if drop_bit 4 (packet ! 0) = 4 then
        (if length packet < 20 then None else Some (addrFrom4 (take 4 (drop 16 packet))))
      else if drop_bit 4 (packet ! 0) = 6 then
        (if length packet < 40 then None else Some (addrFrom16 (take 16 (drop 24 packet))))
      else None)"

text \<open>\<open>ipPacket\<close>; a parameter problem is its code and the offset to report.\<close>

record ipPacket =
  ip_source :: addr
  ip_target :: addr
  ip_protocol :: u8
  ip_protocolOffset :: nat
  ip_parameter :: "(u8 \<times> nat) option"
  ip_ecn :: u8
  ip_hopLimit :: u8
  ip_trafficClass :: u8
  ip_flowLabel :: u32
  ip_payload :: bytes
  ip_original :: bytes

definition receive4 :: "bool \<Rightarrow> bytes \<Rightarrow> bool \<Rightarrow> ipPacket option option" where
  "receive4 big packet skipChecksum =
     (if length packet < 20 then Some None
      else do {
        b0 \<leftarrow> go_index packet 0;
        let headerSize = unat (b0 AND 0x0f) * 4;
        t \<leftarrow> read16 packet 2;
        let totalSize = unat t;
        fragment \<leftarrow> read16 packet 6;
        if headerSize < 20 \<or> totalSize < headerSize \<or> totalSize > length packet \<or> fragment AND 0xbfff \<noteq> 0 then Some None
        else do {
          header \<leftarrow> go_slice packet 0 headerSize;
          if \<not> skipChecksum \<and> checksum big header \<noteq> 0 then Some None
          else do {
            s \<leftarrow> go_slice packet 12 16;
            d \<leftarrow> go_slice packet 16 20;
            tos \<leftarrow> go_index packet 1;
            hop \<leftarrow> go_index packet 8;
            protocol \<leftarrow> go_index packet 9;
            payload \<leftarrow> go_slice packet headerSize totalSize;
            original \<leftarrow> go_slice packet 0 totalSize;
            options \<leftarrow> go_slice packet 20 headerSize;
            malformed \<leftarrow> (if headerSize > 20 then malformedIPv4Option options else Some None);
            valid \<leftarrow> (if headerSize > 20 then validateIPv4Options options else Some True);
            Some (case malformed of
                Some optionAt \<Rightarrow>
                  Some \<lparr>ip_source = addrFrom4 s, ip_target = addrFrom4 d, ip_protocol = 0, ip_protocolOffset = 0,
                    ip_parameter = Some (0, 20 + optionAt), ip_ecn = 0, ip_hopLimit = 0, ip_trafficClass = 0,
                    ip_flowLabel = 0, ip_payload = [], ip_original = original\<rparr>
              | None \<Rightarrow>
                  if \<not> valid then None
                  else Some \<lparr>ip_source = addrFrom4 s, ip_target = addrFrom4 d, ip_protocol = protocol,
                    ip_protocolOffset = 9, ip_parameter = None, ip_ecn = tos AND 3, ip_hopLimit = hop,
                    ip_trafficClass = tos, ip_flowLabel = 0, ip_payload = payload, ip_original = original\<rparr>) } } })"

text \<open>
  The loop over the extension headers. \<open>base\<close> is the result with the fields that do not depend on
  the chain; \<open>previous\<close> is \<open>None\<close> for the source's \<open>-1\<close>.
\<close>

definition accept6 :: "ipPacket \<Rightarrow> u8 \<Rightarrow> nat option \<Rightarrow> bytes \<Rightarrow> ipPacket" where
  "accept6 base next previous upper =
     base\<lparr>ip_protocol := next, ip_protocolOffset := ipv6NextHeaderFieldOffset previous, ip_payload := upper\<rparr>"

definition problem6 :: "ipPacket \<Rightarrow> u8 \<Rightarrow> nat \<Rightarrow> ipPacket" where
  "problem6 base code at = base\<lparr>ip_parameter := Some (code, at)\<rparr>"

lemma ipv6ExtensionHeaderUnit8Length_le:
  "ipv6ExtensionHeaderUnit8Length h = Some len \<Longrightarrow> 8 \<le> len \<and> len \<le> length h"
  by (auto simp: ipv6ExtensionHeaderUnit8Length_def ipv6ExtensionHeaderUnit8LengthField_def Let_def split: if_splits)

lemma unit8_step:
  assumes "ipv6ExtensionHeaderUnit8Length (drop offset payload) = Some len"
  shows "length payload - (offset + len) < length payload - offset"
  using ipv6ExtensionHeaderUnit8Length_le [OF assms] by auto

function receiveChain :: "ipPacket \<Rightarrow> bytes \<Rightarrow> u8 \<Rightarrow> nat \<Rightarrow> nat option \<Rightarrow> bool \<Rightarrow> ipPacket option option" where
  "receiveChain base payload next offset previous seenHop =
     (if next = IPv6ExtensionHeaderHopByHop \<or> next = IPv6ExtensionHeaderDestination then
        (if next = IPv6ExtensionHeaderHopByHop \<and> (offset \<noteq> 0 \<or> seenHop)
         then Some (Some (problem6 base 1 (ipv6NextHeaderFieldOffset previous)))
         else case ipv6ExtensionHeaderUnit8Length (drop offset payload) of
             None \<Rightarrow> Some None
           | Some len \<Rightarrow> do {
               header \<leftarrow> go_slice payload offset (offset + len);
               following \<leftarrow> go_index header 0;
               inspected \<leftarrow> inspectIPv6Options header;
               (case inspected of
                  Inl (action, optionOffset) \<Rightarrow>
                    if action \<ge> 2 \<and> (action = 2 \<or> \<not> isMulticastAddr (ip_target base))
                    then Some (Some (problem6 base 2 (40 + offset + optionOffset)))
                    else Some None
                | Inr _ \<Rightarrow> receiveChain base payload following (offset + len) (Some offset)
                            (seenHop \<or> next = IPv6ExtensionHeaderHopByHop)) })
      else if next = IPv6ExtensionHeaderRouting then
        (case ipv6ExtensionHeaderUnit8Length (drop offset payload) of
           None \<Rightarrow> Some None
         | Some len \<Rightarrow> do {
             header \<leftarrow> go_slice payload offset (offset + len);
             following \<leftarrow> go_index header 0;
             segmentsLeft \<leftarrow> go_index header 3;
             if segmentsLeft \<noteq> 0 then Some (Some (problem6 base 0 (40 + offset + 2)))
             else receiveChain base payload following (offset + len) (Some offset) seenHop })
      else if next = IPv6ExtensionHeaderFragment then
        (if length payload - offset < 8 then Some None
         else do {
           header \<leftarrow> go_slice payload offset (offset + 8);
           following \<leftarrow> go_index header 0;
           field \<leftarrow> read16 header 2;
           if field AND 0xfff9 \<noteq> 0 then Some None
           else receiveChain base payload following (offset + 8) (Some offset) seenHop })
      else Some (Some (accept6 base next previous (drop offset payload))))"
  by pat_completeness auto
termination
  by (relation "measure (\<lambda>(base, payload, next, offset, previous, seenHop). length payload - offset)")
    (auto intro: unit8_step)

declare receiveChain.simps [simp del]

definition receive6 :: "bytes \<Rightarrow> ipPacket option option" where
  "receive6 packet =
     (if length packet < 40 then Some None
      else do {
        size16 \<leftarrow> read16 packet 4;
        let stop = 40 + unat size16;
        if stop > length packet then Some None
        else do {
          s \<leftarrow> go_slice packet 8 24;
          d \<leftarrow> go_slice packet 24 40;
          if is4In6 (addrFrom16 s) \<or> is4In6 (addrFrom16 d) then Some None
          else do {
            b0 \<leftarrow> go_index packet 0;
            b1 \<leftarrow> go_index packet 1;
            low \<leftarrow> read16 packet 2;
            next \<leftarrow> go_index packet 6;
            hop \<leftarrow> go_index packet 7;
            payload \<leftarrow> go_slice packet 40 stop;
            original \<leftarrow> go_slice packet 0 stop;
            receiveChain \<lparr>ip_source = addrFrom16 s, ip_target = addrFrom16 d, ip_protocol = 0, ip_protocolOffset = 0,
                ip_parameter = None, ip_ecn = drop_bit 4 b1 AND 3, ip_hopLimit = hop,
                ip_trafficClass = trafficClass6 b0 b1, ip_flowLabel = flowLabel6 b1 low, ip_payload = [],
                ip_original = original\<rparr> payload next 0 None False } } })"

definition parseIPPacket :: "bool \<Rightarrow> bytes \<Rightarrow> bool \<Rightarrow> ipPacket option option" where
  "parseIPPacket big packet skipChecksum =
     (if length packet = 0 then Some None
      else do {
        b0 \<leftarrow> go_index packet 0;
        if drop_bit 4 b0 = 4 then receive4 big packet skipChecksum
        else if drop_bit 4 b0 = 6 then receive6 packet
        else Some None })"

definition hasRouterAlert :: "ipPacket \<Rightarrow> bool option" where
  "hasRouterAlert p =
     (if is4 (ip_source p) then
        (if length (ip_original p) < 20 then Some False
         else do {
           b0 \<leftarrow> go_index (ip_original p) 0;
           let headerSize = unat (b0 AND 0x0f) * 4;
           if headerSize \<ge> 20 \<and> headerSize \<le> length (ip_original p) then do {
             options \<leftarrow> go_slice (ip_original p) 20 headerSize;
             ipv4RouterAlert options }
           else Some False })
      else if \<not> is6 (ip_source p) \<or> length (ip_original p) < 48 then Some False
      else do {
        b6 \<leftarrow> go_index (ip_original p) 6;
        if b6 \<noteq> IPv6ExtensionHeaderHopByHop then Some False
        else case ipv6ExtensionHeaderUnit8Length (drop 40 (ip_original p)) of
            None \<Rightarrow> Some False
          | Some len \<Rightarrow> do {
              header \<leftarrow> go_slice (ip_original p) 40 (40 + len);
              ipv6RouterAlert header } })"

end
