(* ===== verification/Ip_Safety.thy ===== *)
theory Ip_Safety
  imports Ip_Wire
begin

text \<open>
  The packet code of \<^verbatim>\<open>src/packet.go\<close> returns on every input: each index and slice expression is in
  range and each loop over options or extension headers ends. The option loops are covered by the
  interpretations of \<open>ipv4_walk\<close> and \<open>ipv6_walk\<close>; the loops over extension headers are shown total here.
\<close>

section \<open>No packet makes the codec panic\<close>

lemma chain_header:
  assumes "ipv6ExtensionHeaderLength k (drop offset payload) = Some len"
  obtains header where "go_slice payload offset (offset + len) = Some header" "length header = len"
    "go_index header 0 = Some (header ! 0)"
    "k \<noteq> IPv6ExtensionHeaderAuthentication \<Longrightarrow> 8 \<le> len"
proof -
  have len: "0 < len" "len \<le> length (drop offset payload)"
    using ipv6ExtensionHeaderLength_pos ipv6ExtensionHeaderLength_le assms by blast+
  have "k \<noteq> IPv6ExtensionHeaderAuthentication \<Longrightarrow> 8 \<le> len"
    using assms by (auto simp: ipv6ExtensionHeaderLength_def ipv6ExtensionHeaderLengthField_def
        ipv6ExtensionHeaderUnit8LengthField_def Let_def split: if_splits)
  then show ?thesis
    using that [of "take len (drop offset payload)"] len by (simp add: go_slice_def go_index_def)
qed

lemma walkUpper_total: "\<exists>r. walkUpper payload nxt offset sh sf unsafe = Some r"
proof (induction "length payload - offset" arbitrary: nxt offset sh sf unsafe rule: less_induct)
  case less
  show ?case
  proof (cases "ipv6ExtensionHeaderLength nxt (drop offset payload)")
    case None
    then show ?thesis by (subst walkUpper.simps) simp
  next
    case (Some len)
    obtain header where h: "go_slice payload offset (offset + len) = Some header" "length header = len"
      "go_index header 0 = Some (header ! 0)" "nxt \<noteq> IPv6ExtensionHeaderAuthentication \<Longrightarrow> 8 \<le> len"
      using chain_header [OF Some] by metis
    have ih: "\<exists>r. walkUpper payload nxt' (offset + len) sh' sf' unsafe' = Some r" for nxt' sh' sf' unsafe'
      by (rule less) (rule chain_step [OF Some])
    obtain ins where ins: "inspectIPv6OptionsForCodec header = Some ins" using option_loops_total(9) by blast
    have f: "\<exists>w. read16 header 2 = Some w" "go_index header 3 = Some (header ! 3)" if "nxt \<noteq> IPv6ExtensionHeaderAuthentication"
      using h(2,4) that by (simp_all add: read16_total go_index_in)
    show ?thesis
      by (subst walkUpper.simps)
        (use ih f in \<open>auto simp: Some h ins ipv6_header_kinds Let_def split: option.split prod.split bool.split\<close>)
  qed
qed

lemma xh_fragment_total: "length (xh_data h) = 7 \<Longrightarrow> xh_type h = IPv6ExtensionHeaderFragment \<Longrightarrow> xh_fragment h \<noteq> None"
  using read16_total [of 1 "xh_data h"] read32_total [of 3 "xh_data h"] by (auto simp: xh_fragment_def split: prod.split)

lemma extensionHeadersFrom_total: "\<exists>r. extensionHeadersFrom payload nxt offset sh sf acc = Some r"
proof (induction "length payload - offset" arbitrary: nxt offset sh sf acc rule: less_induct)
  case less
  show ?case
  proof (cases "ipv6ExtensionHeaderLength nxt (drop offset payload)")
    case None
    then show ?thesis by (subst extensionHeadersFrom.simps) simp
  next
    case (Some len)
    obtain header where h: "go_slice payload offset (offset + len) = Some header" "length header = len"
      "go_index header 0 = Some (header ! 0)"
      using chain_header [OF Some] by metis
    have ih: "\<exists>r. extensionHeadersFrom payload nxt' (offset + len) sh' sf' acc' = Some r" for nxt' sh' sf' acc'
      by (rule less) (rule chain_step [OF Some])
    obtain ins where ins: "inspectIPv6OptionsForCodec header = Some ins" using option_loops_total(9) by blast
    show ?thesis
      by (subst extensionHeadersFrom.simps)
        (use ih in \<open>auto simp: Some h ins ipv6_header_kinds Let_def split: option.split prod.split bool.split\<close>)
  qed
qed

lemma fragmentFrom_total: "\<exists>r. fragmentFrom payload nxt offset = Some r"
proof (induction "length payload - offset" arbitrary: nxt offset rule: less_induct)
  case less
  show ?case
  proof (cases "ipv6ExtensionHeaderLength nxt (drop offset payload)")
    case None
    then show ?thesis by (subst fragmentFrom.simps) simp
  next
    case (Some len)
    obtain header where h: "go_slice payload offset (offset + len) = Some header" "go_index header 0 = Some (header ! 0)"
      using chain_header [OF Some] by metis
    have ih: "\<exists>r. fragmentFrom payload nxt' (offset + len) = Some r" for nxt'
      by (rule less) (rule chain_step [OF Some])
    show ?thesis
      by (subst fragmentFrom.simps) (use ih in \<open>auto simp: Some h split: option.split\<close>)
  qed
qed


lemma strictHeader_total: "\<exists>r. strictHeader h index cnt payload sh sf na = Some r"
proof -
  obtain ins where ins: "(if xh_type h = IPv6ExtensionHeaderHopByHop \<or> xh_type h = IPv6ExtensionHeaderDestination
     then inspectIPv6OptionBytesForCodec (drop 1 (xh_data h)) else Some (Some (False, False))) = Some ins"
    using option_loops_total(8) [of "drop 1 (xh_data h)"]
    by (cases "xh_type h = IPv6ExtensionHeaderHopByHop \<or> xh_type h = IPv6ExtensionHeaderDestination") auto
  have some: "\<exists>r. (if b then Some x else y) = Some r" if "\<exists>r. y = Some r" for b and x :: 'a and y using that by simp
  show ?thesis
    unfolding strictHeader_def Let_def ins Option.bind.bind_lunit
    by (intro some; cases ins; cases "xh_fragment h") (auto split: bool.split)
qed

lemma checkHeaders_total: "\<exists>r. checkHeaders strict payload cnt hs index tot seen = Some r"
proof (induction hs arbitrary: index tot seen)
  case Nil
  then show ?case by (cases seen) simp
next
  case (Cons h hs)
  obtain sh sf na where seen: "seen = (sh, sf, na)" by (cases seen) auto
  obtain c where "strictHeader h index cnt payload sh sf na = Some c" using strictHeader_total by blast
  then show ?case using Cons by (auto simp: seen split: sum.split)
qed

lemma clearPadN_total: "\<exists>r. clearPadN options offset = Some r"
proof (induction "length options - offset" arbitrary: options offset rule: less_induct)
  case less
  show ?case
  proof (cases "offset < length options")
    case True
    show ?thesis
    proof (cases "ipv6ExtensionOptionLength (options ! offset) (drop offset options)")
      case None
      then show ?thesis using True by (subst clearPadN.simps) (auto simp: go_index_in)
    next
      case (Some len)
      let ?o = "if options ! offset = IPv6ExtensionOptionPadN
        then take (offset + 2) options @ replicate (len - 2) 0 @ drop (offset + len) options else options"
      have "length ?o = length options"
        using length_clear [OF _ True, of len] Some by (cases "options ! offset = IPv6ExtensionOptionPadN") simp_all
      then have "\<exists>r. clearPadN ?o (offset + len) = Some r"
        using less [of ?o "offset + len"] True ipv6ExtensionOptionLength_pos [OF Some] by simp
      then show ?thesis using True Some by (subst clearPadN.simps) (simp add: go_index_in)
    qed
  qed (subst clearPadN.simps, auto)
qed

lemma normalizeFrom_total: "\<exists>r. normalizeFrom nxt payload offset = Some r"
proof (induction "length payload - offset" arbitrary: nxt payload offset rule: less_induct)
  case less
  show ?case
  proof (cases "ipv6ExtensionHeaderLength nxt (drop offset payload)")
    case None
    then show ?thesis by (subst normalizeFrom.simps) simp
  next
    case (Some len)
    obtain header where h: "go_slice payload offset (offset + len) = Some header" "length header = len"
      "go_index header 0 = Some (header ! 0)" "nxt \<noteq> IPv6ExtensionHeaderAuthentication \<Longrightarrow> 8 \<le> len"
      using chain_header [OF Some] by metis
    obtain options fin where c: "clearPadN (drop 2 header) 0 = Some (options, fin)" using clearPadN_total by fastforce
    have rep: "\<exists>r. normalizeFrom nxt' (replaceHeader payload offset len hd') (offset + len) = Some r"
      if "length hd' = length header" for nxt' hd'
      by (rule less) (rule normalize_shrinks [OF Some h(1) that])
    have keep: "\<exists>r. normalizeFrom nxt' payload (offset + len) = Some r" for nxt'
      by (rule less) (rule chain_step [OF Some])
    have o: "nxt \<noteq> IPv6ExtensionHeaderAuthentication \<Longrightarrow> length (take 2 header @ options) = length header"
      using clearPadN_length [OF c] h by simp
    have f: "nxt \<noteq> IPv6ExtensionHeaderAuthentication \<Longrightarrow> \<exists>w. read16 header 2 = Some w"
      using h by (simp add: read16_total)
    have r: "length (clearReserved header field) = length header" for field by (simp add: clearReserved_def)
    consider "nxt = IPv6ExtensionHeaderHopByHop \<or> nxt = IPv6ExtensionHeaderDestination" | "nxt = IPv6ExtensionHeaderFragment"
      | "nxt \<notin> {IPv6ExtensionHeaderHopByHop, IPv6ExtensionHeaderDestination, IPv6ExtensionHeaderFragment}" by blast
    then show ?thesis
    proof cases
      case 1
      then have "nxt \<noteq> IPv6ExtensionHeaderAuthentication" by (auto simp: ipv6_header_kinds)
      with 1 show ?thesis using rep [OF o, of "header ! 0"] by (subst normalizeFrom.simps) (simp add: Some h(1,3) c Let_def)
    next
      case 2
      then have k: "nxt \<noteq> IPv6ExtensionHeaderAuthentication" "nxt \<noteq> IPv6ExtensionHeaderHopByHop" "nxt \<noteq> IPv6ExtensionHeaderDestination"
        by (simp_all add: ipv6_header_kinds)
      then obtain field where "read16 header 2 = Some field" using f by blast
      with 2 k show ?thesis using rep [OF r, of "header ! 0"]
        by (subst normalizeFrom.simps) (simp add: Some [unfolded 2] h(1,3) Let_def)
    next
      case 3
      then show ?thesis using keep by (subst normalizeFrom.simps) (simp add: Some h(1,3))
    qed
  qed
qed

lemma receiveChain_total: "\<exists>r. receiveChain base payload nxt offset previous sh = Some r"
proof (induction "length payload - offset" arbitrary: nxt offset previous sh rule: less_induct)
  case less
  have unit8: "\<exists>header. go_slice payload offset (offset + len) = Some header \<and> go_index header 0 = Some (header ! 0) \<and>
      go_index header 3 = Some (header ! 3) \<and> (\<forall>nxt' previous' sh'. \<exists>r. receiveChain base payload nxt' (offset + len) previous' sh' = Some r)"
    if len: "ipv6ExtensionHeaderUnit8Length (drop offset payload) = Some len" for len
    using ipv6ExtensionHeaderUnit8Length_le [OF len] less [OF unit8_step [OF len]] by (auto simp: go_slice_def go_index_def)
  consider "nxt = IPv6ExtensionHeaderHopByHop \<or> nxt = IPv6ExtensionHeaderDestination" | "nxt = IPv6ExtensionHeaderRouting"
    | "nxt = IPv6ExtensionHeaderFragment" | "nxt \<notin> {IPv6ExtensionHeaderHopByHop, IPv6ExtensionHeaderDestination,
      IPv6ExtensionHeaderRouting, IPv6ExtensionHeaderFragment}" by blast
  then show ?case
  proof cases
    case 1
    show ?thesis
    proof (cases "ipv6ExtensionHeaderUnit8Length (drop offset payload)")
      case None
      with 1 show ?thesis by (subst receiveChain.simps) simp
    next
      case (Some len)
      obtain header where h: "go_slice payload offset (offset + len) = Some header" "go_index header 0 = Some (header ! 0)"
        "\<And>nxt' previous' sh'. \<exists>r. receiveChain base payload nxt' (offset + len) previous' sh' = Some r"
        using unit8 [OF Some] by blast
      obtain ins where ins: "inspectIPv6Options header = Some ins" using option_loops_total(11) by blast
      show ?thesis by (subst receiveChain.simps) (simp add: 1 Some h ins split: sum.split prod.split)
    qed
  next
    case 2
    then have k: "nxt \<noteq> IPv6ExtensionHeaderHopByHop" "nxt \<noteq> IPv6ExtensionHeaderDestination" by (simp_all add: ipv6_header_kinds)
    show ?thesis
    proof (cases "ipv6ExtensionHeaderUnit8Length (drop offset payload)")
      case None
      with 2 k show ?thesis by (subst receiveChain.simps) simp
    next
      case (Some len)
      obtain header where h: "go_slice payload offset (offset + len) = Some header" "go_index header 0 = Some (header ! 0)"
        "go_index header 3 = Some (header ! 3)"
        "\<And>nxt' previous' sh'. \<exists>r. receiveChain base payload nxt' (offset + len) previous' sh' = Some r"
        using unit8 [OF Some] by blast
      show ?thesis using 2 k by (subst receiveChain.simps) (simp add: Some h)
    qed
  next
    case 3
    then have k: "nxt \<noteq> IPv6ExtensionHeaderHopByHop" "nxt \<noteq> IPv6ExtensionHeaderDestination" "nxt \<noteq> IPv6ExtensionHeaderRouting"
      by (simp_all add: ipv6_header_kinds)
    show ?thesis
    proof (cases "length payload - offset < 8")
      case True
      with 3 k show ?thesis by (subst receiveChain.simps) simp
    next
      case False
      let ?h = "take 8 (drop offset payload)"
      have h: "go_slice payload offset (offset + 8) = Some ?h" "go_index ?h 0 = Some (?h ! 0)"
        using False by (simp_all add: go_slice_def go_index_def)
      obtain field where f: "read16 ?h 2 = Some field" using False read16_total [of 2 ?h] by auto
      have ih: "\<exists>r. receiveChain base payload nxt' (offset + 8) previous' sh' = Some r" for nxt' previous' sh'
        by (rule less) (use False in linarith)
      show ?thesis using 3 k False by (subst receiveChain.simps) (simp add: h f ih)
    qed
  next
    case 4
    then show ?thesis by (subst receiveChain.simps) simp
  qed
qed


lemma contentLength_le: "ipv4OptionsContentLength options = Some (Some n) \<Longrightarrow> n \<le> length options"
proof -
  have "walk4 (\<lambda>_. ()) (\<lambda>offset _. Some (offset + 1)) (\<lambda>_ _. None) (\<lambda>_. Some (length options))
     (\<lambda>kind offset len _. Some (Next ())) options offset () = Some (Some n) \<Longrightarrow> n \<le> length options" for offset
  proof (induction "length options - offset" arbitrary: offset rule: less_induct)
    case less
    let ?len = "ipv4HeaderOptionLength (drop offset options)"
    have nop: "offset < length options \<Longrightarrow> length options - Suc offset < length options - offset" by simp
    have step: "offset < length options \<Longrightarrow> ?len \<noteq> 0 \<Longrightarrow> length options - (offset + ?len) < length options - offset" by simp
    show ?case
      using less.prems [unfolded walk4.simps [of _ _ _ _ _ options offset "()"]] less.hyps [OF nop] less.hyps [OF step]
      by (auto simp: go_index_in Let_def split: if_splits)
  qed
  then show "ipv4OptionsContentLength options = Some (Some n) \<Longrightarrow> n \<le> length options"
    unfolding ipv4OptionsContentLength_def by blast
qed

lemma parse4_total: "\<exists>r. parse4 big packet = Some r"
proof (cases "length packet < 20")
  case False
  then have i: "go_index packet k = Some (packet ! k)" if "k < 20" for k using that by (simp add: go_index_in)
  obtain t where t: "read16 packet 2 = Some t" using False read16_total [of 2 packet] by auto
  obtain f where f: "read16 packet 6 = Some f" using False read16_total [of 6 packet] by auto
  obtain d where d: "read16 packet 4 = Some d" using False read16_total [of 4 packet] by auto
  let ?h = "unat (packet ! 0 AND 0x0f) * 4"
  show ?thesis
  proof (cases "?h < 20 \<or> unat t < ?h \<or> unat t > length packet")
    case True
    then show ?thesis using False by (auto simp: parse4_def i t f Let_def)
  next
    case ok: False
    obtain v where v: "validIPv4OptionsForCodec (take (?h - 20) (drop 20 packet)) = Some v" using option_loops_total(2) by blast
    show ?thesis using False ok v by (simp add: parse4_def i t f d Let_def go_slice_in)
  qed
qed (simp add: parse4_def)

lemma parse6_total: "\<exists>r. Ip_Packet.parse6 packet = Some r"
proof (cases "length packet < 40")
  case False
  then have i: "go_index packet k = Some (packet ! k)" if "k < 40" for k using that by (simp add: go_index_in)
  obtain z where z: "read16 packet 4 = Some z" using False read16_total [of 4 packet] by auto
  obtain f where f: "read16 packet 2 = Some f" using False read16_total [of 2 packet] by auto
  obtain w where w: "walkIPv6UpperLayer (packet ! 6) (take (unat z) (drop 40 packet)) = Some w"
    unfolding walkIPv6UpperLayer_def using walkUpper_total by blast
  show ?thesis using False by (simp add: Ip_Packet.parse6_def i z f Let_def go_slice_in w)
qed (simp add: Ip_Packet.parse6_def)

lemma receive4_total: "\<exists>r. receive4 big packet skip = Some r"
proof (cases "length packet < 20")
  case False
  then have i: "go_index packet k = Some (packet ! k)" if "k < 20" for k using that by (simp add: go_index_in)
  obtain t where t: "read16 packet 2 = Some t" using False read16_total [of 2 packet] by auto
  obtain f where f: "read16 packet 6 = Some f" using False read16_total [of 6 packet] by auto
  let ?h = "unat (packet ! 0 AND 0x0f) * 4"
  obtain m v where v: "malformedIPv4Option (take (?h - 20) (drop 20 packet)) = Some m"
    "validateIPv4Options (take (?h - 20) (drop 20 packet)) = Some v" using option_loops_total(5,6) by blast
  show ?thesis using False v by (simp add: receive4_def i t f Let_def go_slice_in)
qed (simp add: receive4_def)

lemma receive6_total: "\<exists>r. receive6 packet = Some r"
proof (cases "length packet < 40")
  case False
  then have i: "go_index packet k = Some (packet ! k)" if "k < 40" for k using that by (simp add: go_index_in)
  obtain z where z: "read16 packet 4 = Some z" using False read16_total [of 4 packet] by auto
  obtain f where f: "read16 packet 2 = Some f" using False read16_total [of 2 packet] by auto
  show ?thesis using False receiveChain_total by (simp add: receive6_def i z f Let_def go_slice_in)
qed (simp add: receive6_def)

lemma hasRouterAlert_total: "\<exists>r. hasRouterAlert p = Some r"
proof -
  have a: "\<exists>r. ipv4RouterAlert o1 = Some r" "\<exists>r. ipv6RouterAlert o1 = Some r" for o1
    using option_loops_total(4,10) by blast+
  show ?thesis
  proof (cases "is4 (ip_source p)")
    case True
    show ?thesis
    proof (cases "length (ip_original p) < 20")
      case False
      then have "go_index (ip_original p) 0 = Some (ip_original p ! 0)" by (intro go_index_in) linarith
      then show ?thesis using True False a by (auto simp: hasRouterAlert_def go_slice_in Let_def)
    qed (auto simp: hasRouterAlert_def True)
  next
    case no4: False
    show ?thesis
    proof (cases "\<not> is6 (ip_source p) \<or> length (ip_original p) < 48")
      case False
      then have "go_index (ip_original p) 6 = Some (ip_original p ! 6)" by (intro go_index_in) linarith
      then show ?thesis using no4 False a ipv6ExtensionHeaderUnit8Length_le [of "drop 40 (ip_original p)"]
        by (cases "ipv6ExtensionHeaderUnit8Length (drop 40 (ip_original p))") (auto simp: hasRouterAlert_def go_slice_in)
    qed (auto simp: hasRouterAlert_def no4)
  qed
qed

lemma wireLayout_total: "\<exists>r. wireLayout p strict = Some r"
proof -
  obtain v where v: "validIPv4OptionsForCodec (pk_ipv4Options p) = Some v" using option_loops_total(2) by blast
  obtain w where w: "walkIPv6UpperLayer (of_int (pk_protocol p)) (pk_payload p) = Some w"
    unfolding walkIPv6UpperLayer_def using walkUpper_total by blast
  show ?thesis by (cases strict; cases "is4 (unmapAddr (pk_source p))") (simp_all add: wireLayout_def Let_def v w)
qed

lemma wireLayout_families:
  assumes "wireLayout p strict = Some (Inr (q, headerSize, totalSize))"
  shows "is4 (pk_source q) = is4 (pk_destination q)"
proof -
  obtain v where v: "validIPv4OptionsForCodec (pk_ipv4Options p) = Some v" using option_loops_total(2) by blast
  obtain w where w: "walkIPv6UpperLayer (of_int (pk_protocol p)) (pk_payload p) = Some w"
    unfolding walkIPv6UpperLayer_def using walkUpper_total by blast
  show ?thesis using assms
    by (cases strict; cases "is4 (unmapAddr (pk_source p))") (auto simp: wireLayout_def Let_def v w split: if_splits)
qed

lemma appendPacket_total: "\<exists>r. appendPacket big strict p dst = Some r"
proof -
  obtain r where r: "wireLayout p strict = Some r" using wireLayout_total by blast
  show ?thesis
  proof (cases r)
    case (Inl e)
    then show ?thesis by (simp add: appendPacket_def r)
  next
    case (Inr y)
    obtain q headerSize totalSize where y: "y = (q, headerSize, totalSize)" by (cases y) auto
    have fam: "is4 (pk_source q) = is4 (pk_destination q)" using wireLayout_families r Inr y by blast
    have as4: "is4 a \<Longrightarrow> \<exists>b. as4 a = Some b" for a by (cases a) auto
    obtain c where c: "ipv4OptionsContentLength (pk_ipv4Options q) = Some c" using option_loops_total(1) by blast
    have "\<exists>w. writtenOptions (pk_ipv4Options q) headerSize strict = Some w"
      using contentLength_le c by (cases c) (auto simp: writtenOptions_def go_slice_in)
    moreover obtain n where "normalizeIPv6ExtensionFields (of_int (pk_protocol q)) (pk_payload q) = Some n"
      unfolding normalizeIPv6ExtensionFields_def using normalizeFrom_total by blast
    ultimately have "\<exists>w. marshalPublicIPPacket big q headerSize strict = Some w"
      using fam as4 [of "pk_source q"] as4 [of "pk_destination q"]
      by (cases "is4 (pk_source q)") (auto simp: marshalPublicIPPacket_def)
    then show ?thesis by (auto simp: appendPacket_def r Inr y)
  qed
qed


end
