(* ===== verification/Ip_Roundtrip.thy ===== *)
theory Ip_Roundtrip
  imports Ip_Wire
begin

text \<open>
  The header writer of the send path and the parser of the receive path of \<^verbatim>\<open>src/packet.go\<close> agree:
  the fields of a written header, read back bit by bit, and the checksum of a written IPv4 header.
\<close>

section \<open>What is sent is what is received\<close>

lemma word16_step:
  assumes "n < 16"
  shows "push_bit 8 (drop_bit (8 * (16 - n)) w) OR ucast (ucast (drop_bit (8 * (15 - n)) w) :: u8) = drop_bit (8 * (15 - n)) (w :: 128 word)"
proof -
  have e: "8 * (16 - n) = 8 * (15 - n) + 8" using assms by simp
  define k where "k = 8 * (15 - n)"
  have "push_bit 8 (drop_bit (k + 8) w) OR ucast (ucast (drop_bit k w) :: u8) = drop_bit k w"
    by (rule bit_word_eqI) (auto simp: bit_simps)
  then show ?thesis unfolding e k_def .
qed

lemma word16_bytes16 [simp]: "word16 (bytes16 w) = w"
proof -
  have "foldl (\<lambda>w b. push_bit 8 w OR ucast b) 0 (map (\<lambda>i. ucast (drop_bit (8 * (15 - i)) w) :: u8) [0..<n]) =
      drop_bit (8 * (16 - n)) w" if "n \<le> 16" for n
    using that
  proof (induction n)
    case 0
    have "drop_bit 128 w = 0" by (rule bit_word_eqI) (auto simp: bit_simps dest: bit_imp_le_length)
    then show ?case by simp
  next
    case (Suc n)
    then show ?case using word16_step [of n w] by simp
  qed
  from this [of 16] show ?thesis by (simp add: word16_def bytes16_def)
qed

lemma addrFrom16_as16: "addrFrom16 (as16 (Addr6 w z)) = Addr6 w []"
  by (simp add: addrFrom16_def)

lemma addrFrom4_put [simp]: "addrFrom4 (be_put32 w) = Addr4 w"
  by (simp add: be_put32_def join32_split)


lemma length_header4:
  "length s = 4 \<Longrightarrow> length d = 4 \<Longrightarrow> length (header4 big b0 tc tot ident frag hop proto s d options) = 20 + length options"
  by (simp add: header4_def Let_def)

lemma header4_checksum:
  assumes "length s = 4" "length d = 4" "length options \<le> 40"
  shows "checksum big (header4 big b0 tc tot ident frag hop proto s d options) = 0"
proof -
  define front where "front = [b0, tc] @ be_put16 tot @ be_put16 ident @ be_put16 frag @ [hop, proto]"
  have "checksum big (front @ be_put16 (checksum big (front @ 0 # 0 # (s @ d @ options))) @ (s @ d @ options)) = 0"
    by (rule checksum_insert_zero) (use assms in \<open>simp_all add: front_def\<close>)
  then show ?thesis by (simp add: header4_def front_def Let_def)
qed

lemma header4_reads:
  fixes big b0 tc tot ident frag hop proto s d options payload
  defines "w \<equiv> header4 big b0 tc tot ident frag hop proto s d options @ payload"
  assumes l: "length s = 4" "length d = 4"
  shows "w ! 0 = b0" "go_index w 0 = Some b0" "go_index w 1 = Some tc" "read16 w 2 = Some tot" "read16 w 4 = Some ident" "read16 w 6 = Some frag"
    "go_index w 8 = Some hop" "go_index w 9 = Some proto" "go_slice w 12 16 = Some s" "go_slice w 16 20 = Some d"
    "go_slice w 20 (20 + length options) = Some options"
proof -
  obtain c where c: "header4 big b0 tc tot ident frag hop proto s d options =
      [b0, tc] @ be_put16 tot @ be_put16 ident @ be_put16 frag @ [hop, proto] @ be_put16 c @ s @ d @ options"
    by (simp add: header4_def Let_def)
  obtain s1 s2 s3 s4 where s: "s = [s1, s2, s3, s4]" using l(1) by (auto simp: numeral_eq_Suc length_Suc_conv)
  obtain d1 d2 d3 d4 where d: "d = [d1, d2, d3, d4]" using l(2) by (auto simp: numeral_eq_Suc length_Suc_conv)
  note expand = w_def c [unfolded s d] s d be_put16_def go_index_def go_slice_def read16_def
  show "w ! 0 = b0" "go_index w 0 = Some b0" "go_index w 1 = Some tc" "read16 w 2 = Some tot" "read16 w 4 = Some ident"
    "read16 w 6 = Some frag" "go_index w 8 = Some hop" "go_index w 9 = Some proto" "go_slice w 12 16 = Some s"
    "go_slice w 16 20 = Some d" "go_slice w 20 (20 + length options) = Some options"
    by (simp_all add: expand join16_split)
qed


lemma header6_reads:
  fixes b0 b1 :: u8 and low size :: u16 and proto hop :: u8 and s d payload :: bytes
  defines "w \<equiv> [b0, b1] @ be_put16 low @ be_put16 size @ [proto, hop] @ s @ d @ payload"
  assumes l: "length s = 16" "length d = 16"
  shows "w ! 0 = b0" "go_index w 0 = Some b0" "go_index w 1 = Some b1" "read16 w 2 = Some low" "read16 w 4 = Some size"
    "go_index w 6 = Some proto" "go_index w 7 = Some hop" "go_slice w 8 24 = Some s" "go_slice w 24 40 = Some d"
    "length w = 40 + length payload" "go_slice w 40 (40 + length payload) = Some payload"
    "go_slice w 0 (40 + length payload) = Some w"
proof -
  note expand = w_def be_put16_def go_index_def go_slice_def read16_def
  show "w ! 0 = b0" "go_index w 0 = Some b0" "go_index w 1 = Some b1" "read16 w 2 = Some low" "read16 w 4 = Some size"
    "go_index w 6 = Some proto" "go_index w 7 = Some hop" "go_slice w 8 24 = Some s" "go_slice w 24 40 = Some d"
    "length w = 40 + length payload" "go_slice w 40 (40 + length payload) = Some payload"
    "go_slice w 0 (40 + length payload) = Some w"
    using l by (simp_all add: expand join16_split)
qed

lemma nibble_mask: "(15 :: u8) = mask 4"
  by (simp add: mask_eq_exp_minus_1)

lemma no_high_bits: "drop_bit k x = 0 \<Longrightarrow> \<not> bit x (n + k)" for x :: "'a::len word"
proof -
  assume "drop_bit k x = 0"
  then have "bit (drop_bit k x) n = False" by simp
  then show ?thesis by (simp add: bit_drop_bit_eq add.commute)
qed

lemma high_nibble_60: "bit (0x60 :: u8) n \<longleftrightarrow> n = 5 \<or> n = 6"
proof -
  have e: "(0x60 :: u8) = push_bit 5 1 OR push_bit 6 1" by (simp add: push_bit_eq_mult)
  show ?thesis unfolding e by (auto simp only: bit_or_iff bit_push_bit_iff bit_1_iff possible_bit_word) auto
qed

lemma trafficClass6_split:
  fixes tc x :: u8
  assumes "drop_bit 4 x = 0"
  shows "trafficClass6 (0x60 OR drop_bit 4 tc) (push_bit 4 tc OR x) = tc"
proof (rule bit_word_eqI)
  fix n assume n: "n < LENGTH(8)"
  have x: "\<not> bit x (n + 4)" by (rule no_high_bits [OF assms])
  define h :: u8 where "h = 0x60"
  have h: "bit h m \<longleftrightarrow> m = 5 \<or> m = 6" for m unfolding h_def by (rule high_nibble_60)
  show "bit (trafficClass6 (0x60 OR drop_bit 4 tc) (push_bit 4 tc OR x)) n = bit tc n"
    using n x unfolding trafficClass6_def nibble_mask h_def [symmetric] by (auto simp: bit_simps h add.commute)
qed

lemma flowLabel6_split:
  fixes tc :: u8 and fl :: u32
  assumes "drop_bit 20 fl = 0"
  shows "flowLabel6 (push_bit 4 tc OR ucast (drop_bit 16 fl)) (ucast fl) = fl"
proof (rule bit_word_eqI)
  fix n assume n: "n < LENGTH(32)"
  have x: "bit fl n \<Longrightarrow> n < 20" using no_high_bits [OF assms, of "n - 20"] by (cases "n < 20") auto
  show "bit (flowLabel6 (push_bit 4 tc OR ucast (drop_bit 16 fl)) (ucast fl)) n = bit fl n"
    using n x unfolding flowLabel6_def nibble_mask by (auto simp: bit_simps)
qed

lemma flowLabel_high:
  fixes fl :: u32
  assumes "drop_bit 20 fl = 0"
  shows "drop_bit 4 (ucast (drop_bit 16 fl) :: u8) = 0"
proof (rule bit_word_eqI)
  fix n assume n: "n < LENGTH(8)"
  show "bit (drop_bit 4 (ucast (drop_bit 16 fl) :: u8)) n = bit (0 :: u8) n"
    using no_high_bits [OF assms, of n] by (simp add: bit_simps add.commute)
qed

lemma version_bits: "drop_bit 4 (0x60 OR drop_bit 4 tc) = (6 :: u8)"
proof (rule bit_word_eqI)
  fix n assume "n < LENGTH(8)"
  have "(6 :: u8) = push_bit 1 1 OR push_bit 2 1" by (simp add: push_bit_eq_mult)
  then show "bit (drop_bit 4 (0x60 OR drop_bit 4 tc)) n = bit (6 :: u8) n"
    by (auto simp: bit_simps high_nibble_60 dest: bit_imp_le_length)
qed

lemma flowLabel_mask: "drop_bit 20 (fl AND ipv6MaximumFlowLabel) = 0"
proof -
  have "ipv6MaximumFlowLabel = mask 20" by (simp add: ipv6MaximumFlowLabel_def mask_eq_exp_minus_1 push_bit_eq_mult)
  then show ?thesis unfolding \<open>ipv6MaximumFlowLabel = mask 20\<close> by (auto intro!: bit_word_eqI simp: bit_simps)
qed


lemma receive4_header:
  assumes l: "length s = 4" "length d = 4" and small: "20 + length payload < 65536" and df: "frag = 0 \<or> frag = 0x4000"
    and w: "w = header4 big 0x45 tc (of_nat (20 + length payload)) ident frag hop proto s d [] @ payload"
  shows "parseIPPacket big w skip = Some (Some \<lparr>ip_source = addrFrom4 s, ip_target = addrFrom4 d, ip_protocol = proto,
    ip_protocolOffset = 9, ip_parameter = None, ip_ecn = tc AND 3, ip_hopLimit = hop, ip_trafficClass = tc,
    ip_flowLabel = 0, ip_payload = payload, ip_original = w\<rparr>)"
proof -
  note r = header4_reads [OF l, where big = big and ?b0.0 = "0x45" and tc = tc and tot = "of_nat (20 + length payload)" and ident = ident and
      frag = frag and hop = hop and proto = proto and options = "[]" and payload = payload, folded w]
  have tot: "unat (of_nat (20 + length payload) :: u16) = 20 + length payload"
    using small by (simp only: unat_of_nat) (simp add: take_bit_nat_eq_self)
  have len: "length w = 20 + length payload" using length_header4 [OF l] by (simp add: w)
  have nib: "unat ((0x45 :: u8) AND 0x0f) * 4 = 20" "drop_bit 4 (0x45 :: u8) = 4" by code_simp+
  have fr: "\<not> frag AND 0xbfff \<noteq> 0" using df by auto
  have sl: "go_slice w 0 20 = Some (header4 big 0x45 tc (of_nat (20 + length payload)) ident frag hop proto s d [])"
    "go_slice w 20 (20 + length payload) = Some payload" "go_slice w 0 (20 + length payload) = Some w"
    "go_slice w 20 20 = Some []"
    using length_header4 [OF l, of big "0x45" tc "of_nat (20 + length payload)" ident frag hop proto "[]"] len
    by (simp_all add: go_slice_def w)
  have ck: "checksum big (header4 big 0x45 tc (of_nat (20 + length payload)) ident frag hop proto s d []) = 0"
    by (rule header4_checksum [OF l]) simp
  show ?thesis
    unfolding parseIPPacket_def receive4_def r Option.bind.bind_lunit Let_def tot nib ck sl
    using len fr by simp
qed

lemma receive6_header:
  assumes small: "length payload < 65536" and fl: "drop_bit 20 fl = 0"
    and mapped: "drop_bit 32 s \<noteq> 0xffff" "drop_bit 32 d \<noteq> 0xffff"
    and proto: "proto \<notin> {IPv6ExtensionHeaderHopByHop, IPv6ExtensionHeaderDestination, IPv6ExtensionHeaderRouting, IPv6ExtensionHeaderFragment}"
    and w: "w = [0x60 OR drop_bit 4 tc, push_bit 4 tc OR ucast (drop_bit 16 fl)] @ be_put16 (ucast fl) @
      be_put16 (of_nat (length payload)) @ [proto, hop] @ bytes16 s @ bytes16 d @ payload"
  shows "\<exists>ecn. parseIPPacket big w skip = Some (Some \<lparr>ip_source = Addr6 s [], ip_target = Addr6 d [], ip_protocol = proto,
    ip_protocolOffset = 6, ip_parameter = None, ip_ecn = ecn, ip_hopLimit = hop, ip_trafficClass = tc,
    ip_flowLabel = fl, ip_payload = payload, ip_original = w\<rparr>)"
proof -
  note r = header6_reads [where ?b0.0 = "0x60 OR drop_bit 4 tc" and ?b1.0 = "push_bit 4 tc OR ucast (drop_bit 16 fl)" and low = "ucast fl" and
      size = "of_nat (length payload)" and proto = proto and hop = hop and s = "bytes16 s" and d = "bytes16 d" and payload = payload,
      folded w, OF length_bytes16 length_bytes16]
  have n: "unat (of_nat (length payload) :: u16) = length payload"
    using small by (simp only: unat_of_nat) (simp add: take_bit_nat_eq_self)
  have chain: "receiveChain base payload proto 0 None False = Some (Some (accept6 base proto None payload))" for base
    using proto by (subst receiveChain.simps) simp
  have v4: "(6 :: u8) \<noteq> 4" by simp
  show ?thesis
    unfolding parseIPPacket_def receive6_def r Option.bind.bind_lunit Let_def n chain version_bits
      trafficClass6_split [OF flowLabel_high [OF fl]] flowLabel6_split [OF fl]
    using mapped by (simp add: addrFrom16_def accept6_def ipv6NextHeaderFieldOffset_def)
qed

lemma unmapAddr_6: "unmapAddr a = Addr6 w z \<Longrightarrow> drop_bit 32 w \<noteq> 0xffff"
  by (cases a) (auto split: if_splits)

text \<open>
  C13: What the send path writes is what the receive path reads: a packet with a header written by
  \<open>marshalIPHeader\<close> is accepted by \<open>parseIPPacket\<close> with its checksum verified, for both families, and shows
  the same addresses, protocol, hop limit, traffic class, flow label and payload.
\<close>

theorem ip_send_receive:
  assumes m: "marshalIPHeader big packet source target protocol identification dontFragment opts = Some wire"
    and zones: "addrZone source = []" "addrZone target = []"
    and proto: "protocol \<notin> {IPv6ExtensionHeaderHopByHop, IPv6ExtensionHeaderDestination, IPv6ExtensionHeaderRouting, IPv6ExtensionHeaderFragment}"
  shows "\<exists>r. parseIPPacket big wire False = Some (Some r) \<and> ip_source r = unmapAddr source \<and> ip_target r = unmapAddr target \<and>
    ip_protocol r = protocol \<and> ip_parameter r = None \<and> ip_hopLimit r = po_hopLimit (normalizedOptions opts) \<and>
    ip_trafficClass r = po_trafficClass opts \<and> ip_flowLabel r = (if is4 (unmapAddr source) then 0 else po_flowLabel (normalizedOptions opts)) \<and>
    ip_payload r = drop (if is4 (unmapAddr source) then 20 else 40) packet \<and> ip_original r = wire"
proof -
  have tc: "po_trafficClass (normalizedOptions opts) = po_trafficClass opts" by (simp add: normalizedOptions_def Let_def)
  have fl: "drop_bit 20 (po_flowLabel (normalizedOptions opts)) = 0"
  proof -
    have "po_flowLabel (normalizedOptions opts) = po_flowLabel opts AND ipv6MaximumFlowLabel"
      by (simp add: normalizedOptions_def Let_def)
    then show ?thesis by (simp only: flowLabel_mask)
  qed
  show ?thesis
  proof (cases "unmapAddr source")
    case AddrZero
    with m show ?thesis by (simp add: marshalIPHeader_def Let_def ipHeaderSize_def isValidAddr_def)
  next
    case (Addr4 a)
    obtain b where b: "unmapAddr target = Addr4 b"
      using m Addr4 unmapAddr_6 [of target] by (cases "unmapAddr target") (auto simp: marshalIPHeader_def Let_def ipHeaderSize_def isValidAddr_def split: if_splits)
    have "20 \<le> length packet" "length packet < 65536"
      and w: "wire = header4 big 0x45 (po_trafficClass opts) (of_nat (20 + length (drop 20 packet))) identification
         (if dontFragment then 0x4000 else 0) (po_hopLimit (normalizedOptions opts)) protocol (be_put32 a) (be_put32 b) [] @ drop 20 packet"
      using m Addr4 b tc by (auto simp: marshalIPHeader_def Let_def ipHeaderSize_def isValidAddr_def split: if_splits)
    then show ?thesis using receive4_header [OF _ _ _ _ w, of False] Addr4 b by simp
  next
    case (Addr6 a z)
    obtain b z' where b: "unmapAddr target = Addr6 b z'"
      using m Addr6 unmapAddr_6 [of source] by (cases "unmapAddr target") (auto simp: marshalIPHeader_def Let_def ipHeaderSize_def isValidAddr_def split: if_splits)
    have z: "z = []" "z' = []" using zones Addr6 b by (cases source; cases target; simp split: if_splits)+
    have u: "drop_bit 32 a \<noteq> 0xffff" "drop_bit 32 b \<noteq> 0xffff"
      using Addr6 b unmapAddr_6 by blast+
    have "40 \<le> length packet" and small: "length (drop 40 packet) < 65536"
      and w: "wire = [0x60 OR drop_bit 4 (po_trafficClass opts),
          push_bit 4 (po_trafficClass opts) OR ucast (drop_bit 16 (po_flowLabel (normalizedOptions opts)))] @
          be_put16 (ucast (po_flowLabel (normalizedOptions opts))) @ be_put16 (of_nat (length (drop 40 packet))) @
          [protocol, po_hopLimit (normalizedOptions opts)] @ bytes16 a @ bytes16 b @ drop 40 packet"
      using m Addr6 b tc u by (auto simp: marshalIPHeader_def Let_def ipHeaderSize_def isValidAddr_def split: if_splits)
    from receive6_header [OF small fl u proto w, of big False] show ?thesis using Addr6 b z by auto
  qed
qed


theorem ip_send_receive_witness:
  "\<exists>wire r. marshalIPHeader False (replicate 20 0 @ [1, 2, 3]) (Addr4 0x0a000001) (Addr4 0x0a000002) 17 7 True
      \<lparr>po_hopLimit = 0, po_trafficClass = 0, po_flowLabel = 0, po_hopLimitSet = False, po_trafficClassSet = False, po_flowLabelSet = False\<rparr> =
      Some wire \<and> parseIPPacket False wire False = Some (Some r) \<and> ip_hopLimit r = 64 \<and> ip_payload r = [1, 2, 3]"
proof -
  let ?o = "\<lparr>po_hopLimit = 0, po_trafficClass = 0, po_flowLabel = 0, po_hopLimitSet = False, po_trafficClassSet = False, po_flowLabelSet = False\<rparr>"
  obtain wire where w: "marshalIPHeader False (replicate 20 0 @ [1, 2, 3]) (Addr4 0x0a000001) (Addr4 0x0a000002) 17 7 True ?o = Some wire"
    by (simp add: marshalIPHeader_def Let_def ipHeaderSize_def isValidAddr_def)
  have "17 \<notin> {IPv6ExtensionHeaderHopByHop, IPv6ExtensionHeaderDestination, IPv6ExtensionHeaderRouting, IPv6ExtensionHeaderFragment}"
    by (simp add: ipv6_header_kinds)
  from ip_send_receive [OF w _ _ this] show ?thesis using w by (auto simp: normalizedOptions_def)
qed

end
