(* ===== verification/Fragment_Core.thy ===== *)
theory Fragment_Core
  imports Ip_Wire
begin

text \<open>
  Fragmentation and reassembly of one datagram, \<^verbatim>\<open>src/fragment.go\<close>: the range cursor of the
  fragmenting side, and \<open>ipPacketReassemblyState\<close> with \<open>start\<close>, \<open>matches\<close> and \<open>addFragment\<close>, the state
  machine that the public reassembler and the stack's fragment table share.

  A state that failed or completed is terminal in the source; the model returns it with the outcome,
  as the caller still reads its byte count. Ownership of the retained slices is not modelled.
\<close>

section \<open>Constants\<close>

definition fragmentMaximumSets :: nat where "fragmentMaximumSets = 128"
definition fragmentMaximumPieces :: nat where "fragmentMaximumPieces = 256"
definition fragmentMaximumBytes :: int where "fragmentMaximumBytes = 4 * 1024 * 1024"
definition fragmentMaximumDatagram :: int where "fragmentMaximumDatagram = 65535"
definition fragmentIPv4Lifetime :: duration where "fragmentIPv4Lifetime = 30 * 1000000000"
definition fragmentIPv6Lifetime :: duration where "fragmentIPv6Lifetime = 60 * 1000000000"

section \<open>Ranges of the fragmenting side\<close>

record fragmentRangeCursor =
  rc_total :: int
  rc_capacity :: int
  rc_alignedCapacity :: int
  rc_offset :: int

definition newFragmentRangeCursor :: "int \<Rightarrow> int \<Rightarrow> fragmentRangeCursor option" where
  "newFragmentRangeCursor tot capacity =
     (let alignedCapacity = capacity div 8 * 8
      in if tot \<le> 0 \<or> alignedCapacity < 8 then None
         else Some \<lparr>rc_total = tot, rc_capacity = capacity, rc_alignedCapacity = alignedCapacity, rc_offset = 0\<rparr>)"

text \<open>The range \<open>(offset, size, more)\<close> and the advanced cursor; \<open>None\<close> is \<open>ok = false\<close>.\<close>

definition cursorNext :: "fragmentRangeCursor \<Rightarrow> ((int \<times> int \<times> bool) \<times> fragmentRangeCursor) option" where
  "cursorNext c =
     (if rc_offset c \<ge> rc_total c then None
      else let offset = rc_offset c;
               sz = rc_total c - offset;
               sz = (if sz > rc_capacity c then rc_alignedCapacity c else sz);
               c' = c\<lparr>rc_offset := rc_offset c + sz\<rparr>
           in Some ((offset, sz, rc_offset c' < rc_total c'), c'))"

text \<open>The \<open>for\<close> loop of the builders over a cursor. Fuel bounds the iterations.\<close>

fun cursorRanges :: "nat \<Rightarrow> fragmentRangeCursor \<Rightarrow> (int \<times> int \<times> bool) list option" where
  "cursorRanges 0 c = None"
| "cursorRanges (Suc fuel) c =
     (case cursorNext c of
        None \<Rightarrow> Some []
      | Some (r, c') \<Rightarrow> map_option (\<lambda>rest. r # rest) (cursorRanges fuel c'))"

section \<open>Reassembly state\<close>

record fragmentKey =
  fk_source :: addr
  fk_target :: addr
  fk_identification :: u32
  fk_protocol :: u8
  fk_v6 :: bool
  fk_loopback :: bool

record fragmentPiece =
  fp_offset :: nat
  fp_data :: bytes

record ipPacketReassemblyState =
  rs_pieces :: "fragmentPiece list"
  rs_total :: int
  rs_bytes :: int
  rs_protocol :: u8
  rs_source :: addr
  rs_target :: addr
  rs_identifier :: u32
  rs_v6 :: bool
  rs_ecnMask :: u8
  rs_maximum :: int
  rs_maxSize :: int
  rs_maxDFSize :: int
  rs_header :: bytes
  rs_nextHeader :: nat
  rs_firstPacket :: bytes

record ipPacketReassemblyFragment =
  fr_source :: addr
  fr_target :: addr
  fr_protocol :: u8
  fr_offset :: nat
  fr_more :: bool
  fr_payload :: bytes
  fr_identifier :: u32
  fr_v6 :: bool
  fr_ecn :: u8
  fr_maximum :: int
  fr_packetSize :: int
  fr_df :: bool
  fr_header :: bytes
  fr_nextHeader :: nat
  fr_original :: bytes

definition reassemblyKey :: "ipPacketReassemblyFragment \<Rightarrow> bool \<Rightarrow> fragmentKey" where
  "reassemblyKey f loopback =
     \<lparr>fk_source = fr_source f, fk_target = fr_target f, fk_identification = fr_identifier f,
      fk_protocol = (if \<not> fr_v6 f then fr_protocol f else 0), fk_v6 = fr_v6 f, fk_loopback = loopback\<rparr>"

definition rs_start :: "ipPacketReassemblyFragment \<Rightarrow> ipPacketReassemblyState" where
  "rs_start f =
     \<lparr>rs_pieces = [], rs_total = -1, rs_bytes = 0, rs_protocol = fr_protocol f, rs_source = fr_source f,
      rs_target = fr_target f, rs_identifier = fr_identifier f, rs_v6 = fr_v6 f,
      rs_ecnMask = push_bit (unat (fr_ecn f)) 1,
      rs_maximum = (if fr_v6 f \<or> fr_offset f = 0 then fr_maximum f else fragmentMaximumDatagram - 20),
      rs_maxSize = 0, rs_maxDFSize = 0, rs_header = [], rs_nextHeader = 0, rs_firstPacket = []\<rparr>"

definition rs_matches :: "ipPacketReassemblyState \<Rightarrow> ipPacketReassemblyFragment \<Rightarrow> bool" where
  "rs_matches r f \<longleftrightarrow>
     rs_v6 r = fr_v6 f \<and> rs_source r = fr_source f \<and> rs_target r = fr_target f \<and>
     rs_identifier r = fr_identifier f \<and> (rs_v6 r \<or> rs_protocol r = fr_protocol f)"

section \<open>Ranges of the reassembling side\<close>

text \<open>\<open>sort.Search\<close>: binary search for the least index that satisfies a monotone predicate.\<close>

function sortSearch :: "(nat \<Rightarrow> bool) \<Rightarrow> nat \<Rightarrow> nat \<Rightarrow> nat" where
  "sortSearch found i j =
     (if i < j then
        let h = (i + j) div 2
        in if \<not> found h then sortSearch found (h + 1) j else sortSearch found i h
      else i)"
  by pat_completeness auto
termination
  by (relation "measure (\<lambda>(found, i, j). j - i)") auto

declare sortSearch.simps [simp del]

definition pieceEnd :: "fragmentPiece \<Rightarrow> nat" where
  "pieceEnd p = fp_offset p + length (fp_data p)"

text \<open>The scan of \<open>fragmentRangeState\<close> from the first piece that ends after the start.\<close>

fun rangeScan :: "fragmentPiece list \<Rightarrow> nat \<Rightarrow> nat \<Rightarrow> bool \<times> bool" where
  "rangeScan [] cursor stop = (False, True)"
| "rangeScan (piece # pieces) cursor stop =
     (if fp_offset piece \<ge> stop then (False, True)
      else if fp_offset piece > cursor then (False, True)
      else if pieceEnd piece \<ge> stop then (True, True)
      else rangeScan pieces (pieceEnd piece) stop)"

definition fragmentRangeState :: "fragmentPiece list \<Rightarrow> nat \<Rightarrow> nat \<Rightarrow> bool \<times> bool" where
  "fragmentRangeState pieces start stop =
     (if start \<ge> stop then (False, False)
      else let first = sortSearch (\<lambda>index. pieceEnd (pieces ! index) > start) 0 (length pieces)
           in if first = length pieces \<or> fp_offset (pieces ! first) \<ge> stop then (False, False)
              else rangeScan (drop first pieces) start stop)"

section \<open>Completion\<close>

definition fragmentECN :: "u8 \<Rightarrow> u8 option" where
  "fragmentECN ecnMask =
     (if ecnMask \<in> {1, 2, 4, 6} then Some 0
      else if ecnMask \<in> {8, 10, 12, 14} then Some 3
      else None)"

definition rs_complete :: "ipPacketReassemblyState \<Rightarrow> bool" where
  "rs_complete r \<longleftrightarrow>
     (let overhead = int (length (rs_header r));
          overhead = (if rs_v6 r \<and> overhead \<noteq> 0 then overhead + 8 else overhead)
      in rs_total r \<ge> 0 \<and> rs_bytes r - overhead = rs_total r)"

text \<open>\<open>copy(dst[at:], src)\<close>: a panic when \<open>at\<close> is outside, otherwise as many bytes as fit.\<close>

definition copyAt :: "bytes \<Rightarrow> nat \<Rightarrow> bytes \<Rightarrow> bytes option" where
  "copyAt dst at src =
     (if at > length dst then None
      else let n = min (length src) (length dst - at)
           in Some (take at dst @ take n src @ drop (at + n) dst))"

fun copyPieces :: "nat \<Rightarrow> fragmentPiece list \<Rightarrow> bytes \<Rightarrow> bytes option" where
  "copyPieces base [] packet = Some packet"
| "copyPieces base (piece # pieces) packet = do {
     packet \<leftarrow> copyAt packet (base + fp_offset piece) (fp_data piece);
     copyPieces base pieces packet }"

text \<open>\<open>binary.BigEndian.PutUint16(dst[at:at+2], w)\<close> and an assignment \<open>dst[at] = v\<close>, in range.\<close>

definition putAt16 :: "bytes \<Rightarrow> nat \<Rightarrow> u16 \<Rightarrow> bytes" where
  "putAt16 dst at w = dst[at := ucast (drop_bit 8 w), Suc at := ucast w]"

definition buildReassembledPacket :: "bool \<Rightarrow> ipPacketReassemblyState \<Rightarrow> bool \<Rightarrow> u8 \<Rightarrow> bytes option option" where
  "buildReassembledPacket big r dontFragment ecn =
     (let headerSize = length (rs_header r)
      in if \<not> rs_v6 r then
           (if headerSize < 20 \<or> int headerSize + rs_total r > 65535 then Some None
            else do {
              let packet = rs_header r @ replicate (nat (rs_total r)) 0;
              let packet = packet[1 := packet ! 1 OR ecn];
              packet \<leftarrow> copyPieces headerSize (rs_pieces r) packet;
              let packet = putAt16 packet 2 (of_nat (length packet));
              let packet = putAt16 packet 6 (if dontFragment then 0x4000 else 0);
              let packet = packet[10 := 0, 11 := 0];
              Some (Some (putAt16 packet 10 (checksum big (take headerSize packet)))) })
         else
           (if headerSize < 40 \<or> rs_nextHeader r \<ge> headerSize \<or> int headerSize - 40 + rs_total r > 65535 then Some None
            else do {
              let packet = rs_header r @ replicate (nat (rs_total r)) 0;
              let packet = packet[1 := packet ! 1 OR push_bit 4 ecn];
              let packet = packet[rs_nextHeader r := rs_protocol r];
              packet \<leftarrow> copyPieces headerSize (rs_pieces r) packet;
              Some (Some (putAt16 packet 4 (of_nat (length packet - 40)))) }))"

definition finishWire :: "bool \<Rightarrow> ipPacketReassemblyState \<Rightarrow> bytes option option" where
  "finishWire big r =
     (case fragmentECN (rs_ecnMask r) of
        None \<Rightarrow> Some None
      | Some ecn \<Rightarrow>
          let dontFragment = (\<not> rs_v6 r \<and> rs_maxDFSize r \<noteq> 0 \<and> rs_maxDFSize r = rs_maxSize r)
          in buildReassembledPacket big r dontFragment ecn)"

section \<open>Adding a fragment\<close>

datatype reassemblyError = Invalid | ResourceLimit

text \<open>
  \<open>Failed\<close> is \<open>err \<noteq> nil\<close>, \<open>Pending added\<close> is \<open>pending\<close> with the flag \<open>added\<close>, \<open>Completed\<close> has the packet.
\<close>

datatype addResult = Failed reassemblyError | Pending bool | Completed bytes

definition trimFragment :: "ipPacketReassemblyFragment \<Rightarrow> ipPacketReassemblyFragment option" where
  "trimFragment f =
     (if \<not> fr_v6 f \<and> fr_more f \<and> length (fr_payload f) mod 8 \<noteq> 0 then do {
        let trimmed = length (fr_payload f) div 8 * 8;
        let discarded = length (fr_payload f) - trimmed;
        original \<leftarrow> (if discarded \<le> length (fr_original f)
                     then go_slice (fr_original f) 0 (length (fr_original f) - discarded) else None);
        Some (f\<lparr>fr_payload := take trimmed (fr_payload f), fr_original := original,
                fr_packetSize := fr_packetSize f - int discarded\<rparr>) }
      else Some f)"

definition insertPiece :: "fragmentPiece list \<Rightarrow> fragmentPiece \<Rightarrow> fragmentPiece list" where
  "insertPiece pieces piece =
     (let insertAt = sortSearch (\<lambda>index. fp_offset (pieces ! index) > fp_offset piece) 0 (length pieces)
      in take insertAt pieces @ [piece] @ drop insertAt pieces)"

definition beyond :: "fragmentPiece list \<Rightarrow> int \<Rightarrow> bool" where
  "beyond pieces limit \<longleftrightarrow> list_ex (\<lambda>p. int (pieceEnd p) > limit) pieces"

text \<open>The checks on the original packet of an offset-zero fragment.\<close>

definition badFirst :: "ipPacketReassemblyFragment \<Rightarrow> bool" where
  "badFirst f \<longleftrightarrow>
     length (fr_original f) = 0 \<or> length (fr_header f) < 20 \<or> length (fr_header f) > length (fr_original f) \<or>
     length (fr_payload f) > length (fr_original f) - length (fr_header f)"

text \<open>From the point where the fragment is known to be new and acceptable: copy it and finish.\<close>

definition retainFragment ::
  "bool \<Rightarrow> ipPacketReassemblyState \<Rightarrow> ipPacketReassemblyFragment \<Rightarrow> (ipPacketReassemblyState \<times> addResult) option" where
  "retainFragment big r f = do {
     (r, data, retainedBytes) \<leftarrow>
       (if fr_offset f = 0 then do {
          header \<leftarrow> go_slice (fr_original f) 0 (length (fr_header f));
          data \<leftarrow> go_slice (fr_original f) (length (fr_original f) - length (fr_payload f)) (length (fr_original f));
          Some (r\<lparr>rs_firstPacket := fr_original f, rs_header := header\<rparr>, data, length (fr_original f)) }
        else Some (r, fr_payload f, length (fr_payload f)));
     let r = r\<lparr>rs_pieces := insertPiece (rs_pieces r) \<lparr>fp_offset = fr_offset f, fp_data = data\<rparr>,
               rs_bytes := rs_bytes r + int retainedBytes,
               rs_maxSize := max (rs_maxSize r) (fr_packetSize f),
               rs_maxDFSize := (if fr_df f \<and> fr_packetSize f > rs_maxDFSize r then fr_packetSize f else rs_maxDFSize r)\<rparr>;
     if \<not> rs_complete r then Some (r, Pending True)
     else do {
       wire \<leftarrow> finishWire big r;
       Some (r, case wire of None \<Rightarrow> Failed Invalid | Some packet \<Rightarrow> Completed packet) } }"

text \<open>The checks that only concern a fragment with a new range.\<close>

definition admitFragment ::
  "bool \<Rightarrow> ipPacketReassemblyState \<Rightarrow> ipPacketReassemblyFragment \<Rightarrow> nat \<Rightarrow> (ipPacketReassemblyState \<times> addResult) option" where
  "admitFragment big r f maximumPieces =
     (let r = (if fr_offset f = 0
               then r\<lparr>rs_protocol := fr_protocol f, rs_nextHeader := fr_nextHeader f, rs_maximum := fr_maximum f\<rparr> else r)
      in if fr_offset f = 0 \<and> (rs_total r > rs_maximum r \<or> beyond (rs_pieces r) (rs_maximum r)) then Some (r, Failed Invalid)
         else if maximumPieces > 0 \<and> length (rs_pieces r) \<ge> maximumPieces then Some (r, Failed ResourceLimit)
         else
           let candidateECN = rs_ecnMask r OR push_bit (unat (fr_ecn f)) 1
           in if candidateECN AND 1 \<noteq> 0 \<and> candidateECN \<noteq> 1 then Some (r, Failed Invalid)
              else
                let r = r\<lparr>rs_ecnMask := candidateECN\<rparr>
                in if fr_offset f = 0 \<and> badFirst f then Some (r, Failed Invalid)
                   else retainFragment big r f)"

definition addFragment ::
  "bool \<Rightarrow> ipPacketReassemblyState \<Rightarrow> ipPacketReassemblyFragment \<Rightarrow> nat \<Rightarrow> (ipPacketReassemblyState \<times> addResult) option" where
  "addFragment big r fragment maximumPieces = do {
     f \<leftarrow> trimFragment fragment;
     let stop = fr_offset f + length (fr_payload f);
     if length (fr_payload f) = 0 \<or> int stop > rs_maximum r \<or> rs_total r > rs_maximum r \<or>
        rs_total r \<ge> 0 \<and> int stop > rs_total r then Some (r, Failed Invalid)
     else
       let (duplicate, overlaps) = fragmentRangeState (rs_pieces r) (fr_offset f) stop
       in if overlaps \<and> \<not> duplicate then Some (r, Failed Invalid)
          else if \<not> fr_more f \<and> rs_total r \<ge> 0 \<and> rs_total r \<noteq> int stop then Some (r, Failed Invalid)
          else
            let r = (if \<not> fr_more f then r\<lparr>rs_total := int stop\<rparr> else r)
            in if \<not> fr_more f \<and> beyond (rs_pieces r) (rs_total r) then Some (r, Failed Invalid)
               else if duplicate then Some (r, Pending False)
               else admitFragment big r f maximumPieces }"

end
