(* ===== verification/Fragment_Ranges.thy ===== *)
theory Fragment_Ranges
  imports Fragment_Core
begin

text \<open>
  The ranges held by a reassembly: the binary search, the overlap test and the insertion of
  \<^verbatim>\<open>src/fragment.go\<close> against the set of octets the pieces stand for, and the copy of the pieces
  into the reassembled payload.
\<close>

section \<open>Binary search\<close>

lemma sortSearch_from:
  assumes "i \<le> j" "j \<le> n" "\<And>a. a < i \<Longrightarrow> \<not> found a" "\<And>a. j \<le> a \<Longrightarrow> a < n \<Longrightarrow> found a"
    and mono: "\<And>a b. a \<le> b \<Longrightarrow> b < n \<Longrightarrow> found a \<Longrightarrow> found b"
  shows "sortSearch found i j \<le> n \<and> (\<forall>a < sortSearch found i j. \<not> found a) \<and>
    (\<forall>a. sortSearch found i j \<le> a \<and> a < n \<longrightarrow> found a)"
  using assms(1-4)
proof (induction "j - i" arbitrary: i j rule: less_induct)
  case less
  show ?case
  proof (cases "i < j")
    case True
    let ?h = "(i + j) div 2"
    have h: "i \<le> ?h" "?h < j" using True by auto
    show ?thesis
    proof (cases "found ?h")
      case f: True
      have "\<And>a. ?h \<le> a \<Longrightarrow> a < n \<Longrightarrow> found a" using mono [of ?h] f by blast
      then have "sortSearch found i ?h \<le> n \<and> (\<forall>a < sortSearch found i ?h. \<not> found a) \<and>
          (\<forall>a. sortSearch found i ?h \<le> a \<and> a < n \<longrightarrow> found a)"
        by (intro less.hyps) (use less.prems h in auto)
      then show ?thesis using True f by (subst (1 2 3) sortSearch.simps) (simp add: Let_def)
    next
      case f: False
      have "\<And>a. a < ?h + 1 \<Longrightarrow> \<not> found a" using mono [of _ ?h] f h less.prems by (metis Suc_eq_plus1 less_Suc_eq_le order_less_le_trans)
      then have "sortSearch found (?h + 1) j \<le> n \<and> (\<forall>a < sortSearch found (?h + 1) j. \<not> found a) \<and>
          (\<forall>a. sortSearch found (?h + 1) j \<le> a \<and> a < n \<longrightarrow> found a)"
        by (intro less.hyps) (use less.prems h in auto)
      then show ?thesis using True f by (subst (1 2 3) sortSearch.simps) (simp add: Let_def)
    qed
  next
    case False
    then show ?thesis using less.prems by (subst (1 2 3) sortSearch.simps) auto
  qed
qed

lemma sortSearch_least:
  assumes "\<And>a b. a \<le> b \<Longrightarrow> b < n \<Longrightarrow> found a \<Longrightarrow> found b"
  shows "sortSearch found 0 n \<le> n" "a < sortSearch found 0 n \<Longrightarrow> \<not> found a"
    "sortSearch found 0 n \<le> a \<Longrightarrow> a < n \<Longrightarrow> found a"
  using sortSearch_from [of 0 n n found] assms by auto

section \<open>Retained ranges\<close>

definition pieces_ok :: "fragmentPiece list \<Rightarrow> bool" where
  "pieces_ok ps \<longleftrightarrow> sorted_wrt (\<lambda>p q. pieceEnd p \<le> fp_offset q) ps \<and> (\<forall>p \<in> set ps. fp_data p \<noteq> [])"

definition octets :: "fragmentPiece list \<Rightarrow> nat set" where
  "octets ps = (\<Union>p \<in> set ps. {fp_offset p ..< pieceEnd p})"

lemma pieces_ok_Nil [simp]: "pieces_ok []"
  by (simp add: pieces_ok_def)

lemma pieces_ok_Cons:
  "pieces_ok (p # ps) \<longleftrightarrow> fp_data p \<noteq> [] \<and> (\<forall>q \<in> set ps. pieceEnd p \<le> fp_offset q) \<and> pieces_ok ps"
  by (auto simp: pieces_ok_def)

lemma octets_Cons [simp]: "octets (p # ps) = {fp_offset p ..< pieceEnd p} \<union> octets ps"
  by (simp add: octets_def)

lemma octets_Nil [simp]: "octets [] = {}"
  by (simp add: octets_def)

lemma pieceEnd_gt: "fp_data p \<noteq> [] \<Longrightarrow> fp_offset p < pieceEnd p"
  by (simp add: pieceEnd_def)

lemma pieces_ok_append: "pieces_ok (ps @ qs) \<longleftrightarrow> pieces_ok ps \<and> pieces_ok qs \<and> (\<forall>p \<in> set ps. \<forall>q \<in> set qs. pieceEnd p \<le> fp_offset q)"
  by (auto simp: pieces_ok_def sorted_wrt_append)

lemma octets_append: "octets (ps @ qs) = octets ps \<union> octets qs"
  by (simp add: octets_def)

lemma rangeScan_spec:
  assumes "pieces_ok ps" "\<forall>p \<in> set ps. cursor < pieceEnd p" "cursor < stop"
  shows "rangeScan ps cursor stop = ({cursor ..< stop} \<subseteq> octets ps, True)"
  using assms
proof (induction ps arbitrary: cursor)
  case Nil
  then show ?case by auto
next
  case (Cons p ps)
  note ok = Cons.prems(1) [unfolded pieces_ok_Cons]
  have below: "x \<notin> octets (p # ps)" if "x < fp_offset p" for x
    using that ok pieceEnd_gt [of p] by (force simp: octets_def)
  show ?case
  proof (cases "fp_offset p \<le> cursor")
    case False
    then have "cursor \<notin> octets (p # ps)" using below by simp
    then show ?thesis using False Cons.prems(3) by (auto simp del: octets_Cons)
  next
    case le: True
    show ?thesis
    proof (cases "stop \<le> pieceEnd p")
      case True
      then show ?thesis using le Cons.prems(3) by auto
    next
      case False
      have "rangeScan ps (pieceEnd p) stop = ({pieceEnd p ..< stop} \<subseteq> octets ps, True)"
        by (rule Cons.IH) (use ok False pieceEnd_gt in \<open>force simp: pieces_ok_def\<close>)+
      moreover have "{cursor ..< stop} \<subseteq> octets (p # ps) \<longleftrightarrow> {pieceEnd p ..< stop} \<subseteq> octets ps"
      proof
        assume a: "{cursor ..< stop} \<subseteq> octets (p # ps)"
        show "{pieceEnd p ..< stop} \<subseteq> octets ps"
        proof
          fix x assume x: "x \<in> {pieceEnd p ..< stop}"
          moreover have "cursor < pieceEnd p" using Cons.prems(2) by simp
          ultimately have "x \<in> octets (p # ps)" using a by (intro subsetD [OF a]) simp
          then show "x \<in> octets ps" using x by simp
        qed
      next
        assume "{pieceEnd p ..< stop} \<subseteq> octets ps"
        then show "{cursor ..< stop} \<subseteq> octets (p # ps)" using le by (auto simp: subset_iff not_less)
      qed
      ultimately show ?thesis using le False Cons.prems(3) by simp
    qed
  qed
qed


lemma pieces_ok_nth:
  assumes "pieces_ok ps" "a < b" "b < length ps"
  shows "pieceEnd (ps ! a) \<le> fp_offset (ps ! b)"
  using assms by (auto simp: pieces_ok_def sorted_wrt_iff_nth_less)

lemma pieces_ok_mono:
  assumes "pieces_ok ps" "a \<le> b" "b < length ps"
  shows "fp_offset (ps ! a) \<le> fp_offset (ps ! b)" "pieceEnd (ps ! a) \<le> pieceEnd (ps ! b)"
  using pieces_ok_nth [OF assms(1), of a b] assms
  by (cases "a = b"; auto simp: pieceEnd_def)+

lemma pieces_ok_take: "pieces_ok ps \<Longrightarrow> pieces_ok (take n ps)" "pieces_ok ps \<Longrightarrow> pieces_ok (drop n ps)"
  using pieces_ok_append [of "take n ps" "drop n ps"] by simp_all

lemma fragmentRangeState_spec:
  assumes ok: "pieces_ok ps" and less: "start < stop"
  shows "fragmentRangeState ps start stop = ({start ..< stop} \<subseteq> octets ps, octets ps \<inter> {start ..< stop} \<noteq> {})"
proof -
  let ?f = "\<lambda>index. pieceEnd (ps ! index) > start"
  let ?k = "sortSearch ?f 0 (length ps)"
  have mono: "\<And>a b. a \<le> b \<Longrightarrow> b < length ps \<Longrightarrow> ?f a \<Longrightarrow> ?f b"
    using pieces_ok_mono(2) [OF ok] by (meson order_less_le_trans)
  have k: "?k \<le> length ps" "\<And>a. a < ?k \<Longrightarrow> \<not> ?f a" "\<And>a. ?k \<le> a \<Longrightarrow> a < length ps \<Longrightarrow> ?f a"
    using sortSearch_least [of "length ps" ?f] mono by blast+
  have before: "pieceEnd p \<le> start" if p: "p \<in> set (take ?k ps)" for p
  proof -
    from p obtain i where "i < ?k" "p = ps ! i" using k(1) by (auto simp: in_set_conv_nth)
    then show ?thesis using k(2) [of i] by simp
  qed
  have after: "start < pieceEnd p" if p: "p \<in> set (drop ?k ps)" for p
  proof -
    from p obtain i where "i < length ps - ?k" "p = ps ! (?k + i)" by (auto simp: in_set_conv_nth)
    then show ?thesis using k(3) [of "?k + i"] by simp
  qed
  have split: "octets ps = octets (take ?k ps) \<union> octets (drop ?k ps)"
    by (simp add: octets_append [symmetric])
  have none: "octets (take ?k ps) \<inter> {start ..< stop} = {}" using before by (fastforce simp: octets_def)
  show ?thesis
  proof (cases "?k = length ps \<or> fp_offset (ps ! ?k) \<ge> stop")
    case True
    have "octets (drop ?k ps) \<inter> {start ..< stop} = {}"
    proof (cases "?k = length ps")
      case False
      then have "fp_offset (ps ! ?k) \<ge> stop" "?k < length ps" using True k(1) by auto
      moreover have "fp_offset (ps ! ?k) \<le> fp_offset q" if "q \<in> set (drop ?k ps)" for q
        using that pieces_ok_mono(1) [OF ok, of ?k] by (auto simp: in_set_conv_nth)
      ultimately show ?thesis by (fastforce simp: octets_def)
    qed simp
    with none have "octets ps \<inter> {start ..< stop} = {}" using split by auto
    moreover from this have "\<not> {start ..< stop} \<subseteq> octets ps" using less atLeastLessThan_iff [of start start stop] by blast
    ultimately show ?thesis using True less by (simp add: fragmentRangeState_def Let_def)
  next
    case False
    then have kl: "?k < length ps" "fp_offset (ps ! ?k) < stop" using k(1) by auto
    have "rangeScan (drop ?k ps) start stop = ({start ..< stop} \<subseteq> octets (drop ?k ps), True)"
      using rangeScan_spec [OF pieces_ok_take(2) [OF ok] _ less] after by blast
    moreover have "{start ..< stop} \<subseteq> octets (drop ?k ps) \<longleftrightarrow> {start ..< stop} \<subseteq> octets ps"
    proof -
      have "A \<inter> S = {} \<Longrightarrow> S \<subseteq> B \<longleftrightarrow> S \<subseteq> A \<union> B" for A B S :: "nat set" by blast
      from this [OF none, of "octets (drop ?k ps)"] show ?thesis unfolding split [symmetric] .
    qed
    moreover have "max start (fp_offset (ps ! ?k)) \<in> octets ps \<inter> {start ..< stop}"
      using kl less k(3) [of ?k] ok pieceEnd_gt [of "ps ! ?k"]
      by (auto simp: octets_def pieces_ok_def intro!: bexI [of _ "ps ! ?k"])
    ultimately show ?thesis using False less by (auto simp: fragmentRangeState_def Let_def)
  qed
qed

lemma insertPiece_ok:
  assumes ok: "pieces_ok ps" and new: "fp_data p \<noteq> []" "octets ps \<inter> {fp_offset p ..< pieceEnd p} = {}"
  shows "pieces_ok (insertPiece ps p)" "set (insertPiece ps p) = insert p (set ps)"
    "length (insertPiece ps p) = Suc (length ps)"
proof -
  let ?f = "\<lambda>index. fp_offset (ps ! index) > fp_offset p"
  let ?k = "sortSearch ?f 0 (length ps)"
  have mono: "\<And>a b. a \<le> b \<Longrightarrow> b < length ps \<Longrightarrow> ?f a \<Longrightarrow> ?f b"
    using pieces_ok_mono(1) [OF ok] by (meson order_less_le_trans)
  have k: "?k \<le> length ps" "\<And>a. a < ?k \<Longrightarrow> \<not> ?f a" "\<And>a. ?k \<le> a \<Longrightarrow> a < length ps \<Longrightarrow> ?f a"
    using sortSearch_least [of "length ps" ?f] mono by blast+
  have disj: "pieceEnd q \<le> fp_offset p \<or> pieceEnd p \<le> fp_offset q" if "q \<in> set ps" for q
  proof (rule ccontr)
    assume "\<not> ?thesis"
    then have "max (fp_offset p) (fp_offset q) \<in> octets ps \<inter> {fp_offset p ..< pieceEnd p}"
      using that new(1) ok pieceEnd_gt [of p] pieceEnd_gt [of q] by (auto simp: octets_def pieces_ok_def intro!: bexI [of _ q])
    with new(2) show False by blast
  qed
  have before: "pieceEnd q \<le> fp_offset p" if q: "q \<in> set (take ?k ps)" for q
  proof -
    from q obtain i where "i < ?k" "q = ps ! i" using k(1) by (auto simp: in_set_conv_nth)
    moreover have "q \<in> set ps" using q by (rule in_set_takeD)
    ultimately show ?thesis using k(2) [of i] disj [of q] pieceEnd_gt [OF new(1)] by auto
  qed
  have after: "pieceEnd p \<le> fp_offset q" if q: "q \<in> set (drop ?k ps)" for q
  proof -
    from q obtain i where "?k + i < length ps" "q = ps ! (?k + i)" by (auto simp: in_set_conv_nth less_diff_conv add.commute)
    moreover from this have "fp_offset p < fp_offset q" using k(3) [of "?k + i"] by simp
    moreover have "q \<in> set ps" "fp_data q \<noteq> []" using q ok by (auto simp: pieces_ok_def dest: in_set_dropD)
    ultimately show ?thesis using disj [of q] pieceEnd_gt [of q] by linarith
  qed
  have sets: "set (take ?k ps) \<union> set (drop ?k ps) = set ps" by (metis append_take_drop_id set_append)
  show "pieces_ok (insertPiece ps p)"
    using before after new(1) pieces_ok_take [OF ok] pieces_ok_append [of "take ?k ps" "drop ?k ps"] ok
    by (auto simp: insertPiece_def Let_def pieces_ok_append pieces_ok_Cons)
  show "set (insertPiece ps p) = insert p (set ps)" using sets by (auto simp: insertPiece_def Let_def)
  show "length (insertPiece ps p) = Suc (length ps)" using k(1) by (simp add: insertPiece_def Let_def)
qed

section \<open>Copying the pieces\<close>

definition retained :: "fragmentPiece list \<Rightarrow> nat" where
  "retained ps = sum_list (map (\<lambda>p. length (fp_data p)) ps)"

lemma finite_octets [simp]: "finite (octets ps)"
  by (simp add: octets_def)

lemma card_octets: "pieces_ok ps \<Longrightarrow> card (octets ps) = retained ps"
proof (induction ps)
  case (Cons p ps)
  then have "{fp_offset p ..< pieceEnd p} \<inter> octets ps = {}"
    by (fastforce simp: pieces_ok_Cons octets_def)
  then have "card (octets (p # ps)) = card {fp_offset p ..< pieceEnd p} + card (octets ps)"
    by (simp add: card_Un_disjoint)
  then show ?case using Cons by (simp add: pieces_ok_Cons retained_def pieceEnd_def)
qed (simp add: retained_def)

lemma retained_full:
  assumes "pieces_ok ps" "octets ps \<subseteq> {..< n}" "retained ps = n"
  shows "octets ps = {..< n}"
  using card_octets [OF assms(1)] assms by (intro card_subset_eq) auto

lemma retained_insert:
  assumes "pieces_ok ps" "fp_data p \<noteq> []" "octets ps \<inter> {fp_offset p ..< pieceEnd p} = {}"
  shows "retained (insertPiece ps p) = retained ps + length (fp_data p)"
    "octets (insertPiece ps p) = octets ps \<union> {fp_offset p ..< pieceEnd p}"
proof -
  note i = insertPiece_ok [OF assms]
  show o: "octets (insertPiece ps p) = octets ps \<union> {fp_offset p ..< pieceEnd p}" using i(2) by (auto simp: octets_def)
  have "card (octets (insertPiece ps p)) = card (octets ps) + card {fp_offset p ..< pieceEnd p}"
    unfolding o using assms(3) by (intro card_Un_disjoint) auto
  then show "retained (insertPiece ps p) = retained ps + length (fp_data p)"
    using card_octets [OF assms(1)] card_octets [OF i(1)] by (simp add: pieceEnd_def)
qed

lemma copyAt_in:
  "at + length src \<le> length dst \<Longrightarrow> copyAt dst at src = Some (take at dst @ src @ drop (at + length src) dst)"
  by (simp add: copyAt_def Let_def min_absorb1)

lemma copyAt_header: "copyAt (h @ b) (length h + at) src = map_option ((@) h) (copyAt b at src)"
  by (auto simp: copyAt_def Let_def)

lemma copyPieces_header: "copyPieces (length h) ps (h @ b) = map_option ((@) h) (copyPieces 0 ps b)"
proof (induction ps arbitrary: b)
  case (Cons p ps)
  show ?case
    by (cases "copyAt b (fp_offset p) (fp_data p)") (simp_all add: copyAt_header Cons)
qed simp

lemma copyPieces_spec:
  assumes "pieces_ok ps" "octets ps \<subseteq> {..< length b}"
  shows "\<exists>r. copyPieces 0 ps b = Some r \<and> length r = length b \<and>
    (\<forall>p \<in> set ps. take (length (fp_data p)) (drop (fp_offset p) r) = fp_data p) \<and>
    (\<forall>i < length b. i \<notin> octets ps \<longrightarrow> r ! i = b ! i)"
  using assms
proof (induction ps arbitrary: b)
  case Nil
  then show ?case by simp
next
  case (Cons p ps)
  note ok = Cons.prems(1) [unfolded pieces_ok_Cons]
  let ?c = "take (fp_offset p) b @ fp_data p @ drop (pieceEnd p) b"
  have "pieceEnd p - 1 \<in> octets (p # ps)" using ok pieceEnd_gt [of p] by auto
  then have e: "pieceEnd p \<le> length b" using Cons.prems(2) pieceEnd_gt [of p] ok by fastforce
  then have c: "copyAt b (fp_offset p) (fp_data p) = Some ?c" using copyAt_in [of "fp_offset p" "fp_data p" b] by (simp add: pieceEnd_def)
  have l: "length ?c = length b" using e by (simp add: pieceEnd_def)
  obtain r where r: "copyPieces 0 ps ?c = Some r" "length r = length ?c"
    "\<forall>p \<in> set ps. take (length (fp_data p)) (drop (fp_offset p) r) = fp_data p"
    "\<forall>i < length ?c. i \<notin> octets ps \<longrightarrow> r ! i = ?c ! i"
    using Cons.IH [of ?c] ok Cons.prems(2) l by auto
  have out: "i \<notin> octets ps" if "i < pieceEnd p" for i using that ok by (fastforce simp: octets_def)
  have "take (length (fp_data p)) (drop (fp_offset p) r) = fp_data p"
  proof (rule nth_equalityI)
    show "length (take (length (fp_data p)) (drop (fp_offset p) r)) = length (fp_data p)"
      using e r(2) l by (simp add: pieceEnd_def)
    fix i assume "i < length (take (length (fp_data p)) (drop (fp_offset p) r))"
    then have i: "i < length (fp_data p)" by simp
    then have "r ! (fp_offset p + i) = ?c ! (fp_offset p + i)"
      using r(4) e l out [of "fp_offset p + i"] by (simp add: pieceEnd_def)
    then show "take (length (fp_data p)) (drop (fp_offset p) r) ! i = fp_data p ! i"
      using i e r(2) l by (simp add: nth_append pieceEnd_def)
  qed
  moreover have "r ! i = b ! i" if "i < length b" "i \<notin> octets (p # ps)" for i
  proof -
    have "r ! i = ?c ! i" using r(4) l that by simp
    moreover have "i < fp_offset p \<or> pieceEnd p \<le> i" using that by auto
    ultimately show ?thesis using e that by (auto simp: nth_append pieceEnd_def)
  qed
  ultimately show ?case using r c l by (simp add: pieceEnd_def)
qed

text \<open>Pieces that all come from one payload, and cover it, give that payload.\<close>

lemma copyPieces_payload:
  assumes ok: "pieces_ok ps" and cover: "octets ps = {..< length P}"
    and src: "\<forall>p \<in> set ps. fp_data p = take (length (fp_data p)) (drop (fp_offset p) P)"
  shows "copyPieces 0 ps (replicate (length P) 0) = Some P"
proof -
  obtain r where r: "copyPieces 0 ps (replicate (length P) 0) = Some r" "length r = length P"
    "\<forall>p \<in> set ps. take (length (fp_data p)) (drop (fp_offset p) r) = fp_data p"
    using copyPieces_spec [OF ok, of "replicate (length P) 0"] cover by auto
  have "r = P"
  proof (rule nth_equalityI)
    fix i assume "i < length r"
    then have "i \<in> octets ps" using cover r(2) by simp
    then obtain p where p: "p \<in> set ps" "fp_offset p \<le> i" "i < pieceEnd p" by (auto simp: octets_def)
    define j where "j = i - fp_offset p"
    have j: "j < length (fp_data p)" "i = fp_offset p + j" using p by (simp_all add: j_def pieceEnd_def)
    have "take (length (fp_data p)) (drop (fp_offset p) r) ! j = take (length (fp_data p)) (drop (fp_offset p) P) ! j"
      using r(3) src p(1) by simp
    then show "r ! i = P ! i" using j \<open>i < length r\<close> r(2) by simp
  qed (rule r(2))
  then show ?thesis using r(1) by simp
qed

end
