(* ===== verification/Fragment_State.thy ===== *)
theory Fragment_State
  imports Fragment_Ranges
begin

text \<open>
  The invariant of \<open>ipPacketReassemblyState\<close> and the outcomes of \<open>addFragment\<close>: a duplicate, a range
  that is kept, a range that completes the datagram, and a failure that keeps the ranges as they
  were.
\<close>

section \<open>The invariant\<close>

text \<open>What is not payload in the bytes retained for the offset-zero fragment.\<close>

definition overhead :: "ipPacketReassemblyState \<Rightarrow> nat" where
  "overhead r = (if rs_header r = [] then 0 else length (rs_header r) + (if rs_v6 r then 8 else 0))"

definition headerRoom :: "bool \<Rightarrow> nat" where
  "headerRoom v6 = (if v6 then 40 else 0)"

definition header_fits :: "bool \<Rightarrow> bytes \<Rightarrow> nat \<Rightarrow> int \<Rightarrow> bool" where
  "header_fits v6 header nextHeader maximum \<longleftrightarrow>
     (if v6 then 40 else 20) \<le> length header \<and> nextHeader < length header \<and>
     maximum = fragmentMaximumDatagram - (int (length header) - int (headerRoom v6))"

definition ecn_consistent :: "u8 \<Rightarrow> bool" where
  "ecn_consistent m \<longleftrightarrow> m \<in> {1, 2, 4, 6, 8, 10, 12, 14}"

definition rs_ok :: "ipPacketReassemblyState \<Rightarrow> bool" where
  "rs_ok r \<longleftrightarrow>
     pieces_ok (rs_pieces r) \<and> -1 \<le> rs_total r \<and> rs_total r \<le> rs_maximum r \<and> rs_maximum r \<le> 65535 \<and>
     (\<forall>p \<in> set (rs_pieces r). int (pieceEnd p) \<le> rs_maximum r \<and> (0 \<le> rs_total r \<longrightarrow> int (pieceEnd p) \<le> rs_total r)) \<and>
     rs_bytes r = int (retained (rs_pieces r) + overhead r) \<and>
     (rs_header r = [] \<longleftrightarrow> 0 \<notin> octets (rs_pieces r)) \<and>
     (rs_header r \<noteq> [] \<longrightarrow> header_fits (rs_v6 r) (rs_header r) (rs_nextHeader r) (rs_maximum r)) \<and>
     ecn_consistent (rs_ecnMask r)"

text \<open>What the two parsers guarantee of a fragment.\<close>

definition fragment_ok :: "ipPacketReassemblyFragment \<Rightarrow> bool" where
  "fragment_ok f \<longleftrightarrow>
     fr_ecn f < 4 \<and> fr_maximum f \<le> 65535 \<and> -1 \<le> fr_maximum f \<and>
     (\<not> fr_v6 f \<and> fr_more f \<and> length (fr_payload f) mod 8 \<noteq> 0 \<longrightarrow> length (fr_payload f) \<le> length (fr_original f)) \<and>
     (fr_offset f = 0 \<longrightarrow>
        (\<exists>mid. fr_original f = fr_header f @ mid @ fr_payload f \<and> length mid = (if fr_v6 f then 8 else 0)) \<and>
        header_fits (fr_v6 f) (fr_header f) (fr_nextHeader f) (fr_maximum f) \<and> int (length (fr_payload f)) \<le> fr_maximum f)"

lemma rs_start_ok:
  assumes "fragment_ok f" shows "rs_ok (rs_start f)" "rs_v6 (rs_start f) = fr_v6 f"
proof -
  have "fr_ecn f \<in> {0, 1, 2, 3}"
  proof -
    have "unat (fr_ecn f) < 4" using assms by (simp add: fragment_ok_def word_less_nat_alt)
    then have "unat (fr_ecn f) \<in> {unat (0 :: u8), unat (1 :: u8), unat (2 :: u8), unat (3 :: u8)}" by auto
    then show ?thesis by (auto simp only: insert_iff empty_iff word_unat_eq_iff)
  qed
  then have "ecn_consistent (push_bit (unat (fr_ecn f)) 1)" by (auto simp: ecn_consistent_def push_bit_eq_mult)
  then show "rs_ok (rs_start f)" using assms
    by (simp add: rs_ok_def rs_start_def fragment_ok_def retained_def overhead_def fragmentMaximumDatagram_def)
qed (simp add: rs_start_def)

lemma trimFragment_ok:
  assumes "fragment_ok f"
  obtains g n where "trimFragment f = Some g" "fragment_ok g" "fr_payload g = take n (fr_payload f)"
    "fr_offset g = fr_offset f" "fr_v6 g = fr_v6 f" "fr_more g = fr_more f" "fr_ecn g = fr_ecn f"
    "fr_header g = fr_header f" "fr_nextHeader g = fr_nextHeader f" "fr_maximum g = fr_maximum f" "fr_protocol g = fr_protocol f"
    "fr_v6 f \<or> \<not> fr_more f \<or> length (fr_payload f) mod 8 = 0 \<Longrightarrow> g = f"
proof (cases "\<not> fr_v6 f \<and> fr_more f \<and> length (fr_payload f) mod 8 \<noteq> 0")
  case False
  then show ?thesis using that [of f "length (fr_payload f)"] assms unfolding trimFragment_def by auto
next
  case True
  let ?t = "length (fr_payload f) div 8 * 8"
  let ?d = "length (fr_payload f) - ?t"
  let ?g = "f\<lparr>fr_payload := take ?t (fr_payload f), fr_original := take (length (fr_original f) - ?d) (fr_original f),
    fr_packetSize := fr_packetSize f - int ?d\<rparr>"
  have d: "?d \<le> length (fr_original f)" using assms True by (auto simp: fragment_ok_def intro: le_trans [OF diff_le_self])
  have t: "trimFragment f = Some ?g" using True d by (simp add: trimFragment_def Let_def go_slice_def)
  have m: "length (take ?t (fr_payload f)) mod 8 = 0" by simp
  have first: "\<exists>mid. fr_original ?g = fr_header ?g @ mid @ fr_payload ?g \<and> length mid = (if fr_v6 ?g then 8 else 0)" if "fr_offset f = 0"
  proof -
    have "fr_original f = fr_header f @ fr_payload f" using assms True that by (simp add: fragment_ok_def)
    then have "fr_original ?g = fr_header ?g @ [] @ fr_payload ?g" by simp
    then show ?thesis using True by auto
  qed
  have "int (length (fr_payload ?g)) \<le> fr_maximum f" if "fr_offset f = 0"
  proof -
    have "length (fr_payload ?g) \<le> length (fr_payload f)" by simp
    moreover have "int (length (fr_payload f)) \<le> fr_maximum f" using assms that by (simp add: fragment_ok_def)
    ultimately show ?thesis by linarith
  qed
  then have "fragment_ok ?g" using assms first m unfolding fragment_ok_def by simp
  then show ?thesis using t True by (intro that [of ?g ?t]) auto
qed


section \<open>Completion\<close>

definition finishedHeader4 :: "bool \<Rightarrow> bytes \<Rightarrow> nat \<Rightarrow> u8 \<Rightarrow> bool \<Rightarrow> bytes" where
  "finishedHeader4 big header n ecn df =
     (let h = header[1 := header ! 1 OR ecn];
          h = putAt16 h 2 (of_nat (length header + n));
          h = putAt16 h 6 (if df then 0x4000 else 0);
          h = h[10 := 0, 11 := 0]
      in putAt16 h 10 (checksum big h))"

definition finishedHeader6 :: "bytes \<Rightarrow> nat \<Rightarrow> u8 \<Rightarrow> nat \<Rightarrow> u8 \<Rightarrow> bytes" where
  "finishedHeader6 header nextHeader protocol n ecn =
     putAt16 (header[1 := header ! 1 OR push_bit 4 ecn, nextHeader := protocol]) 4 (of_nat (length header + n - 40))"

definition finishedHeader :: "bool \<Rightarrow> ipPacketReassemblyState \<Rightarrow> u8 \<Rightarrow> bytes" where
  "finishedHeader big r ecn =
     (if rs_v6 r then finishedHeader6 (rs_header r) (rs_nextHeader r) (rs_protocol r) (nat (rs_total r)) ecn
      else finishedHeader4 big (rs_header r) (nat (rs_total r)) ecn (rs_maxDFSize r \<noteq> 0 \<and> rs_maxDFSize r = rs_maxSize r))"

lemma putAt16_append: "Suc at < length h \<Longrightarrow> putAt16 (h @ b) at w = putAt16 h at w @ b"
  by (simp add: putAt16_def list_update_append1)

lemma length_putAt16 [simp]: "length (putAt16 h at w) = length h"
  by (simp add: putAt16_def)

lemma build4_eq:
  assumes "\<not> rs_v6 r" "20 \<le> length (rs_header r)" "int (length (rs_header r)) + rs_total r \<le> 65535" "0 \<le> rs_total r"
    and c: "copyPieces 0 (rs_pieces r) (replicate (nat (rs_total r)) 0) = Some body" "length body = nat (rs_total r)"
  shows "buildReassembledPacket big r df ecn = Some (Some (finishedHeader4 big (rs_header r) (nat (rs_total r)) ecn df @ body))"
proof -
  let ?h = "rs_header r" and ?n = "nat (rs_total r)"
  have a: "(?h @ replicate ?n 0)[1 := (?h @ replicate ?n 0) ! 1 OR ecn] = ?h[1 := ?h ! 1 OR ecn] @ replicate ?n 0"
    using assms(2) by (simp add: list_update_append1 nth_append)
  have b: "copyPieces (length ?h) (rs_pieces r) (?h[1 := ?h ! 1 OR ecn] @ replicate ?n 0) = Some (?h[1 := ?h ! 1 OR ecn] @ body)"
    using copyPieces_header [of "?h[1 := ?h ! 1 OR ecn]" "rs_pieces r" "replicate ?n 0"] c(1) by simp
  show ?thesis
    using assms by (simp add: buildReassembledPacket_def Let_def a [simplified] b [simplified] finishedHeader4_def
        putAt16_append list_update_append1)
qed

lemma build6_eq:
  assumes "rs_v6 r" "40 \<le> length (rs_header r)" "rs_nextHeader r < length (rs_header r)"
    "int (length (rs_header r)) - 40 + rs_total r \<le> 65535" "0 \<le> rs_total r"
    and c: "copyPieces 0 (rs_pieces r) (replicate (nat (rs_total r)) 0) = Some body" "length body = nat (rs_total r)"
  shows "buildReassembledPacket big r df ecn =
    Some (Some (finishedHeader6 (rs_header r) (rs_nextHeader r) (rs_protocol r) (nat (rs_total r)) ecn @ body))"
proof -
  let ?h = "rs_header r" and ?n = "nat (rs_total r)"
  let ?h1 = "?h[1 := ?h ! 1 OR push_bit 4 ecn, rs_nextHeader r := rs_protocol r]"
  have a: "(?h @ replicate ?n 0)[1 := (?h @ replicate ?n 0) ! 1 OR push_bit 4 ecn, rs_nextHeader r := rs_protocol r] =
      ?h1 @ replicate ?n 0"
    using assms(2,3) by (simp add: list_update_append1 nth_append)
  have b: "copyPieces (length ?h) (rs_pieces r) (?h1 @ replicate ?n 0) = Some (?h1 @ body)"
    using copyPieces_header [of ?h1 "rs_pieces r" "replicate ?n 0"] c(1) by simp
  show ?thesis
    using assms by (simp add: buildReassembledPacket_def Let_def a [simplified] b [simplified] finishedHeader6_def putAt16_append)
qed

lemma fragmentECN_total: "ecn_consistent m \<Longrightarrow> \<exists>ecn. fragmentECN m = Some ecn"
  by (auto simp: ecn_consistent_def fragmentECN_def)

lemma octets_bound: "(\<And>p. p \<in> set ps \<Longrightarrow> pieceEnd p \<le> n) \<Longrightarrow> octets ps \<subseteq> {..< n}"
  by (fastforce simp: octets_def)

lemma finishWire_ok:
  assumes ok: "rs_ok r" and c: "rs_complete r" and ne: "rs_pieces r \<noteq> []"
  shows "\<exists>ecn body. fragmentECN (rs_ecnMask r) = Some ecn \<and>
    finishWire big r = Some (Some (finishedHeader big r ecn @ body)) \<and>
    copyPieces 0 (rs_pieces r) (replicate (nat (rs_total r)) 0) = Some body \<and> octets (rs_pieces r) = {..< nat (rs_total r)}"
proof -
  have t: "0 \<le> rs_total r" "int (retained (rs_pieces r)) = rs_total r"
    using c ok by (auto simp: rs_complete_def rs_ok_def overhead_def Let_def split: if_splits)
  have full: "octets (rs_pieces r) = {..< nat (rs_total r)}"
    by (rule retained_full, use ok in \<open>simp add: rs_ok_def\<close>, rule octets_bound)
      (use ok t in \<open>auto simp: rs_ok_def\<close>)
  obtain p where p: "p \<in> set (rs_pieces r)" using ne by (meson list.set_sel(1))
  then have "fp_offset p < pieceEnd p" using ok pieceEnd_gt [of p] by (auto simp: rs_ok_def pieces_ok_def)
  then have "fp_offset p \<in> octets (rs_pieces r)" using p by (auto simp: octets_def)
  then have "0 \<in> octets (rs_pieces r)" using full by simp
  then have h: "header_fits (rs_v6 r) (rs_header r) (rs_nextHeader r) (rs_maximum r)" "rs_total r \<le> rs_maximum r"
    using ok by (auto simp: rs_ok_def)
  obtain body where body: "copyPieces 0 (rs_pieces r) (replicate (nat (rs_total r)) 0) = Some body" "length body = nat (rs_total r)"
    using copyPieces_spec [of "rs_pieces r" "replicate (nat (rs_total r)) 0"] ok full by (auto simp: rs_ok_def)
  obtain ecn where ecn: "fragmentECN (rs_ecnMask r) = Some ecn" using fragmentECN_total ok by (auto simp: rs_ok_def)
  have "finishWire big r = Some (Some (finishedHeader big r ecn @ body))"
  proof (cases "rs_v6 r")
    case True
    then show ?thesis using h t build6_eq [OF True _ _ _ t(1) body]
      by (simp add: finishWire_def ecn Let_def header_fits_def headerRoom_def fragmentMaximumDatagram_def finishedHeader_def)
  next
    case False
    then show ?thesis using h t build4_eq [OF False _ _ t(1) body]
      by (simp add: finishWire_def ecn Let_def header_fits_def headerRoom_def fragmentMaximumDatagram_def finishedHeader_def)
  qed
  then show ?thesis using ecn body full by blast
qed

section \<open>Adding a fragment\<close>

text \<open>The state after a fragment with a new range was kept.\<close>

definition keepFragment :: "ipPacketReassemblyState \<Rightarrow> ipPacketReassemblyFragment \<Rightarrow> ipPacketReassemblyState" where
  "keepFragment r f =
     (let r = (if fr_offset f = 0 then r\<lparr>rs_firstPacket := fr_original f, rs_header := fr_header f\<rparr> else r)
      in r\<lparr>rs_pieces := insertPiece (rs_pieces r) \<lparr>fp_offset = fr_offset f, fp_data = fr_payload f\<rparr>,
           rs_bytes := rs_bytes r + int (if fr_offset f = 0 then length (fr_original f) else length (fr_payload f)),
           rs_maxSize := max (rs_maxSize r) (fr_packetSize f),
           rs_maxDFSize := (if fr_df f \<and> fr_packetSize f > rs_maxDFSize r then fr_packetSize f else rs_maxDFSize r)\<rparr>)"

lemma retainFragment_eq:
  assumes "fragment_ok f"
  shows "retainFragment big r f =
    (if \<not> rs_complete (keepFragment r f) then Some (keepFragment r f, Pending True)
     else do {
       wire \<leftarrow> finishWire big (keepFragment r f);
       Some (keepFragment r f, case wire of None \<Rightarrow> Failed Invalid | Some packet \<Rightarrow> Completed packet) })"
proof (cases "fr_offset f = 0")
  case True
  then obtain mid where m: "fr_original f = fr_header f @ mid @ fr_payload f" using assms by (auto simp: fragment_ok_def)
  have "go_slice (fr_original f) 0 (length (fr_header f)) = Some (fr_header f)"
    "go_slice (fr_original f) (length (fr_original f) - length (fr_payload f)) (length (fr_original f)) = Some (fr_payload f)"
    by (simp_all add: m go_slice_def)
  then show ?thesis using True by (simp add: retainFragment_def keepFragment_def Let_def)
next
  case False
  then show ?thesis by (simp add: retainFragment_def keepFragment_def Let_def)
qed

definition fragmentRange :: "ipPacketReassemblyFragment \<Rightarrow> nat set" where
  "fragmentRange f = {fr_offset f ..< fr_offset f + length (fr_payload f)}"

definition fragmentPieceOf :: "ipPacketReassemblyFragment \<Rightarrow> fragmentPiece" where
  "fragmentPieceOf f = \<lparr>fp_offset = fr_offset f, fp_data = fr_payload f\<rparr>"

lemma range_piece: "{fp_offset (fragmentPieceOf f) ..< pieceEnd (fragmentPieceOf f)} = fragmentRange f"
  by (simp add: fragmentPieceOf_def pieceEnd_def fragmentRange_def)

lemma keepFragment_ok:
  assumes ok: "rs_ok r" and f: "fragment_ok f" "fr_v6 f = rs_v6 r" "fr_payload f \<noteq> []"
    and new: "octets (rs_pieces r) \<inter> fragmentRange f = {}"
    and fit: "int (fr_offset f + length (fr_payload f)) \<le> rs_maximum r"
      "0 \<le> rs_total r \<Longrightarrow> int (fr_offset f + length (fr_payload f)) \<le> rs_total r"
    and first: "fr_offset f = 0 \<Longrightarrow> rs_maximum r = fr_maximum f \<and> rs_nextHeader r = fr_nextHeader f"
  shows "rs_ok (keepFragment r f)" "rs_pieces (keepFragment r f) = insertPiece (rs_pieces r) (fragmentPieceOf f)"
    "set (rs_pieces (keepFragment r f)) = insert (fragmentPieceOf f) (set (rs_pieces r))"
    "octets (rs_pieces (keepFragment r f)) = octets (rs_pieces r) \<union> fragmentRange f"
proof -
  let ?p = "fragmentPieceOf f"
  have p: "pieces_ok (rs_pieces r)" "fp_data ?p \<noteq> []" "octets (rs_pieces r) \<inter> {fp_offset ?p ..< pieceEnd ?p} = {}"
    using ok f(3) new range_piece by (auto simp: rs_ok_def fragmentPieceOf_def)
  note i = insertPiece_ok [OF p] retained_insert [OF p, unfolded range_piece]
  show e: "rs_pieces (keepFragment r f) = insertPiece (rs_pieces r) ?p"
    by (simp add: keepFragment_def Let_def fragmentPieceOf_def)
  show s: "set (rs_pieces (keepFragment r f)) = insert ?p (set (rs_pieces r))" unfolding e by (rule i(2))
  show o: "octets (rs_pieces (keepFragment r f)) = octets (rs_pieces r) \<union> fragmentRange f" unfolding e by (rule i(5))
  have end': "pieceEnd ?p = fr_offset f + length (fr_payload f)" by (simp add: fragmentPieceOf_def pieceEnd_def)
  have keep: "rs_total (keepFragment r f) = rs_total r" "rs_maximum (keepFragment r f) = rs_maximum r"
    "rs_nextHeader (keepFragment r f) = rs_nextHeader r" "rs_v6 (keepFragment r f) = rs_v6 r"
    "rs_ecnMask (keepFragment r f) = rs_ecnMask r"
    by (simp_all add: keepFragment_def Let_def)
  have header: "rs_bytes (keepFragment r f) = int (retained (rs_pieces (keepFragment r f)) + overhead (keepFragment r f)) \<and>
     (rs_header (keepFragment r f) = [] \<longleftrightarrow> 0 \<notin> octets (rs_pieces (keepFragment r f))) \<and>
     (rs_header (keepFragment r f) \<noteq> [] \<longrightarrow>
        header_fits (rs_v6 r) (rs_header (keepFragment r f)) (rs_nextHeader r) (rs_maximum r))"
  proof (cases "fr_offset f = 0")
    case True
    then have zero: "0 \<in> fragmentRange f" using f(3) by (simp add: fragmentRange_def)
    then have "0 \<notin> octets (rs_pieces r)" using new by blast
    then have none: "rs_header r = []" using ok by (simp add: rs_ok_def)
    obtain mid where m: "fr_original f = fr_header f @ mid @ fr_payload f" "length mid = (if fr_v6 f then 8 else 0)"
      and fits: "header_fits (fr_v6 f) (fr_header f) (fr_nextHeader f) (fr_maximum f)"
      using f(1) True by (auto simp: fragment_ok_def)
    have hd: "rs_header (keepFragment r f) = fr_header f" "fr_header f \<noteq> []"
      "rs_bytes (keepFragment r f) = rs_bytes r + int (length (fr_original f))"
      using True fits by (auto simp: keepFragment_def Let_def header_fits_def split: if_splits)
    have ov: "overhead (keepFragment r f) = length (fr_header f) + length mid" "overhead r = 0"
      using hd keep(4) m(2) f(2) none by (auto simp: overhead_def)
    have "rs_bytes (keepFragment r f) = int (retained (rs_pieces (keepFragment r f)) + overhead (keepFragment r f))"
      using ok hd(3) ov m(1) unfolding e i(4) by (simp add: rs_ok_def fragmentPieceOf_def)
    then show ?thesis using hd fits first True zero o f(2) by simp
  next
    case False
    have hd: "rs_header (keepFragment r f) = rs_header r" "rs_bytes (keepFragment r f) = rs_bytes r + int (length (fr_payload f))"
      using False by (simp_all add: keepFragment_def Let_def)
    moreover have "overhead (keepFragment r f) = overhead r" using hd keep(4) by (simp add: overhead_def)
    ultimately show ?thesis using ok False o unfolding e i(4) by (simp add: rs_ok_def fragmentPieceOf_def fragmentRange_def)
  qed
  show "rs_ok (keepFragment r f)"
    unfolding rs_ok_def keep s using ok i(1) fit header end' unfolding e by (auto simp: rs_ok_def)
qed

lemma ecn_bits: "e < 4 \<Longrightarrow> push_bit (unat e) 1 \<in> {1, 2, 4, 8 :: u8}" for e :: u8
proof -
  assume "e < 4"
  then have "unat e < 4" by (simp add: word_less_nat_alt)
  then consider "unat e = 0" | "unat e = 1" | "unat e = 2" | "unat e = 3" by linarith
  then show ?thesis by cases (simp_all add: push_bit_eq_mult)
qed

lemma ecn_join:
  fixes m e :: u8
  assumes "ecn_consistent m" "e < 4" "\<not> ((m OR push_bit (unat e) 1) AND 1 \<noteq> 0 \<and> m OR push_bit (unat e) 1 \<noteq> 1)"
  shows "ecn_consistent (m OR push_bit (unat e) 1)"
  using assms(1,3) ecn_bits [OF assms(2)] unfolding ecn_consistent_def by (elim insertE emptyE) (simp_all only:, simp_all)

lemma beyond_iff: "beyond ps limit \<longleftrightarrow> (\<exists>p \<in> set ps. limit < int (pieceEnd p))"
  by (simp add: beyond_def list_ex_iff)

lemma rs_ok_total:
  assumes "rs_ok r" "0 \<le> t" "t \<le> rs_maximum r" "\<not> beyond (rs_pieces r) t"
  shows "rs_ok (r\<lparr>rs_total := t\<rparr>)"
  using assms by (auto simp: rs_ok_def beyond_iff not_less overhead_def)

lemma rs_ok_first:
  assumes "rs_ok r" "rs_header r = []" "rs_total r \<le> fr_maximum f" "\<not> beyond (rs_pieces r) (fr_maximum f)" "fr_maximum f \<le> 65535"
  shows "rs_ok (r\<lparr>rs_protocol := pr, rs_nextHeader := nh, rs_maximum := fr_maximum f\<rparr>)"
  using assms by (auto simp: rs_ok_def beyond_iff not_less overhead_def)

lemma rs_ok_ecn: "rs_ok r \<Longrightarrow> ecn_consistent m \<Longrightarrow> rs_ok (r\<lparr>rs_ecnMask := m\<rparr>)"
  by (simp add: rs_ok_def overhead_def)

text \<open>The state just before the new range is kept.\<close>

definition admitted :: "ipPacketReassemblyState \<Rightarrow> ipPacketReassemblyFragment \<Rightarrow> ipPacketReassemblyState" where
  "admitted r f =
     (let r = (if fr_offset f = 0
               then r\<lparr>rs_protocol := fr_protocol f, rs_nextHeader := fr_nextHeader f, rs_maximum := fr_maximum f\<rparr> else r)
      in r\<lparr>rs_ecnMask := rs_ecnMask r OR push_bit (unat (fr_ecn f)) 1\<rparr>)"

definition admissible :: "ipPacketReassemblyState \<Rightarrow> ipPacketReassemblyFragment \<Rightarrow> nat \<Rightarrow> bool" where
  "admissible r f maximumPieces \<longleftrightarrow>
     (fr_offset f = 0 \<longrightarrow> rs_total r \<le> fr_maximum f \<and> \<not> beyond (rs_pieces r) (fr_maximum f)) \<and>
     (maximumPieces = 0 \<or> length (rs_pieces r) < maximumPieces) \<and>
     (let c = rs_ecnMask r OR push_bit (unat (fr_ecn f)) 1 in c AND 1 = 0 \<or> c = 1)"

lemma admitFragment_eq:
  assumes "fragment_ok f"
  shows "admissible r f m \<Longrightarrow> admitFragment big r f m = retainFragment big (admitted r f) f"
    "\<not> admissible r f m \<Longrightarrow> \<exists>r' e. admitFragment big r f m = Some (r', Failed e) \<and> rs_pieces r' = rs_pieces r"
proof -
  have b: "\<not> badFirst f" if "fr_offset f = 0"
    using assms that by (auto simp: badFirst_def fragment_ok_def header_fits_def split: if_splits)
  show "admissible r f m \<Longrightarrow> admitFragment big r f m = retainFragment big (admitted r f) f"
    using b by (cases "fr_offset f = 0") (auto simp: admitFragment_def admitted_def admissible_def Let_def)
  show "\<not> admissible r f m \<Longrightarrow> \<exists>r' e. admitFragment big r f m = Some (r', Failed e) \<and> rs_pieces r' = rs_pieces r"
    using b by (cases "fr_offset f = 0") (auto simp: admitFragment_def admissible_def Let_def not_le)
qed

lemma admitted_ok:
  assumes "rs_ok r" "fragment_ok f" "admissible r f m" "fr_offset f = 0 \<Longrightarrow> rs_header r = []"
  shows "rs_ok (admitted r f)"
proof -
  have e: "ecn_consistent (rs_ecnMask r OR push_bit (unat (fr_ecn f)) 1)"
    by (rule ecn_join) (use assms in \<open>auto simp: rs_ok_def fragment_ok_def admissible_def Let_def\<close>)
  show ?thesis
  proof (cases "fr_offset f = 0")
    case True
    have "rs_ok (r\<lparr>rs_protocol := fr_protocol f, rs_nextHeader := fr_nextHeader f, rs_maximum := fr_maximum f\<rparr>)"
      by (rule rs_ok_first) (use assms True in \<open>auto simp: admissible_def fragment_ok_def\<close>)
    from rs_ok_ecn [OF this e] show ?thesis using True by (simp add: admitted_def)
  next
    case False
    then show ?thesis using rs_ok_ecn [OF assms(1) e] by (simp add: admitted_def)
  qed
qed


text \<open>Whether a fragment passes the checks that do not need its range to be new.\<close>

definition in_bounds :: "ipPacketReassemblyState \<Rightarrow> ipPacketReassemblyFragment \<Rightarrow> bool" where
  "in_bounds r f \<longleftrightarrow>
     (let stop = int (fr_offset f + length (fr_payload f))
      in fr_payload f \<noteq> [] \<and> stop \<le> rs_maximum r \<and> rs_total r \<le> rs_maximum r \<and> (0 \<le> rs_total r \<longrightarrow> stop \<le> rs_total r) \<and>
         (fr_more f \<or> (rs_total r < 0 \<or> rs_total r = stop) \<and> \<not> beyond (rs_pieces r) stop))"

definition noteTotal :: "ipPacketReassemblyState \<Rightarrow> ipPacketReassemblyFragment \<Rightarrow> ipPacketReassemblyState" where
  "noteTotal r f = (if \<not> fr_more f then r\<lparr>rs_total := int (fr_offset f + length (fr_payload f))\<rparr> else r)"

lemma addFragment_eq:
  assumes ok: "rs_ok r" and t: "trimFragment fragment = Some f"
  shows "\<not> in_bounds r f \<Longrightarrow> \<exists>r'. addFragment big r fragment m = Some (r', Failed Invalid) \<and> rs_pieces r' = rs_pieces r"
    "in_bounds r f \<Longrightarrow> addFragment big r fragment m =
       (if fragmentRange f \<subseteq> octets (rs_pieces r) then Some (noteTotal r f, Pending False)
        else if octets (rs_pieces r) \<inter> fragmentRange f \<noteq> {} then Some (r, Failed Invalid)
        else admitFragment big (noteTotal r f) f m)"
proof -
  let ?stop = "fr_offset f + length (fr_payload f)"
  have state: "fragmentRangeState (rs_pieces r) (fr_offset f) ?stop =
      (fragmentRange f \<subseteq> octets (rs_pieces r), octets (rs_pieces r) \<inter> fragmentRange f \<noteq> {})" if "fr_payload f \<noteq> []"
    using fragmentRangeState_spec [of "rs_pieces r" "fr_offset f" ?stop] that ok by (simp add: rs_ok_def fragmentRange_def)
  have ne: "fr_payload f \<noteq> [] \<Longrightarrow> fragmentRange f \<noteq> {}" by (simp add: fragmentRange_def)
  show "\<exists>r'. addFragment big r fragment m = Some (r', Failed Invalid) \<and> rs_pieces r' = rs_pieces r" if "\<not> in_bounds r f"
  proof (cases "fr_payload f = [] \<or> int ?stop > rs_maximum r \<or> rs_total r > rs_maximum r \<or> rs_total r \<ge> 0 \<and> int ?stop > rs_total r")
    case True
    then show ?thesis by (auto simp: addFragment_def t Let_def)
  next
    case False
    then have "\<not> fr_more f \<and> (rs_total r \<ge> 0 \<and> rs_total r \<noteq> int ?stop \<or> beyond (rs_pieces r) (int ?stop))"
      using that by (auto simp: in_bounds_def Let_def)
    then show ?thesis using False state by (auto simp: addFragment_def t Let_def)
  qed
  show "addFragment big r fragment m =
       (if fragmentRange f \<subseteq> octets (rs_pieces r) then Some (noteTotal r f, Pending False)
        else if octets (rs_pieces r) \<inter> fragmentRange f \<noteq> {} then Some (r, Failed Invalid)
        else admitFragment big (noteTotal r f) f m)" if b: "in_bounds r f"
  proof -
    have c: "\<not> (length (fr_payload f) = 0 \<or> int ?stop > rs_maximum r \<or> rs_total r > rs_maximum r \<or> rs_total r \<ge> 0 \<and> int ?stop > rs_total r)"
      using b by (auto simp: in_bounds_def Let_def)
    then have d: "\<not> (\<not> fr_more f \<and> rs_total r \<ge> 0 \<and> rs_total r \<noteq> int ?stop)" "\<not> (\<not> fr_more f \<and> beyond (rs_pieces r) (int ?stop))"
      using b by (auto simp: in_bounds_def Let_def)
    have e: "(if \<not> fr_more f then r\<lparr>rs_total := int ?stop\<rparr> else r) = noteTotal r f" by (simp add: noteTotal_def)
    have g: "\<not> (\<not> fr_more f \<and> beyond (rs_pieces (noteTotal r f)) (rs_total (noteTotal r f)))"
      using d(2) by (auto simp: noteTotal_def)
    have s: "fr_payload f \<noteq> []" using c by auto
    show ?thesis
      unfolding addFragment_def t Option.bind.bind_lunit Let_def if_not_P [OF c] state [OF s] prod.case e if_not_P [OF d(1)] if_not_P [OF g]
      using ne [OF s] by auto
  qed
qed

lemma noteTotal_ok:
  assumes "rs_ok r" "in_bounds r f" shows "rs_ok (noteTotal r f)" "rs_pieces (noteTotal r f) = rs_pieces r"
    "rs_header (noteTotal r f) = rs_header r" "rs_v6 (noteTotal r f) = rs_v6 r" "rs_maximum (noteTotal r f) = rs_maximum r"
    "0 \<le> rs_total (noteTotal r f) \<Longrightarrow> int (fr_offset f + length (fr_payload f)) \<le> rs_total (noteTotal r f)"
proof -
  show "rs_ok (noteTotal r f)"
  proof (cases "fr_more f")
    case False
    then show ?thesis using rs_ok_total [OF assms(1), of "int (fr_offset f + length (fr_payload f))"] assms(2)
      by (auto simp: in_bounds_def noteTotal_def Let_def)
  qed (use assms in \<open>simp add: noteTotal_def\<close>)
qed (use assms in \<open>auto simp: noteTotal_def in_bounds_def Let_def\<close>)

lemma admitted_fields [simp]:
  "rs_pieces (admitted r f) = rs_pieces r" "rs_v6 (admitted r f) = rs_v6 r" "rs_total (admitted r f) = rs_total r"
  "rs_header (admitted r f) = rs_header r" "rs_maximum (admitted r f) = (if fr_offset f = 0 then fr_maximum f else rs_maximum r)"
  by (simp_all add: admitted_def Let_def)

text \<open>When a fragment with a new range is kept, and the state that holds it.\<close>

definition accepts :: "ipPacketReassemblyState \<Rightarrow> ipPacketReassemblyFragment \<Rightarrow> nat \<Rightarrow> bool" where
  "accepts r f m \<longleftrightarrow> in_bounds r f \<and> octets (rs_pieces r) \<inter> fragmentRange f = {} \<and> admissible (noteTotal r f) f m"

definition accepted :: "ipPacketReassemblyState \<Rightarrow> ipPacketReassemblyFragment \<Rightarrow> ipPacketReassemblyState" where
  "accepted r f = keepFragment (admitted (noteTotal r f) f) f"


lemma accepted_ok:
  assumes ok: "rs_ok r" and f: "fragment_ok f" "fr_v6 f = rs_v6 r" and a: "accepts r f m"
  shows "rs_ok (accepted r f)" "rs_pieces (accepted r f) = insertPiece (rs_pieces r) (fragmentPieceOf f)"
    "set (rs_pieces (accepted r f)) = insert (fragmentPieceOf f) (set (rs_pieces r))"
    "octets (rs_pieces (accepted r f)) = octets (rs_pieces r) \<union> fragmentRange f"
    "rs_v6 (accepted r f) = rs_v6 r" "rs_total (accepted r f) = rs_total (noteTotal r f)"
proof -
  have b: "in_bounds r f" "octets (rs_pieces r) \<inter> fragmentRange f = {}" "admissible (noteTotal r f) f m"
    using a by (auto simp: accepts_def)
  note n = noteTotal_ok [OF ok b(1)]
  have ne: "fr_payload f \<noteq> []" using b(1) by (auto simp: in_bounds_def Let_def)
  have none: "rs_header r = []" if "fr_offset f = 0"
  proof -
    have "0 \<in> fragmentRange f" using that ne by (simp add: fragmentRange_def)
    then have "0 \<notin> octets (rs_pieces r)" using b(2) by blast
    then show ?thesis using ok by (simp add: rs_ok_def)
  qed
  have ad: "rs_ok (admitted (noteTotal r f) f)"
    using admitted_ok [OF n(1) f(1) b(3)] none n(3) by simp
  note k = keepFragment_ok [OF ad f(1), simplified, unfolded n]
  have fit: "int (fr_offset f) + int (length (fr_payload f)) \<le> (if fr_offset f = 0 then fr_maximum f else rs_maximum r)"
    using f(1) b(1) by (auto simp: fragment_ok_def in_bounds_def Let_def)
  have fit2: "0 \<le> rs_total (noteTotal r f) \<Longrightarrow> int (fr_offset f) + int (length (fr_payload f)) \<le> rs_total (noteTotal r f)"
    using n(6) by simp
  have nh: "fr_offset f = 0 \<Longrightarrow> rs_nextHeader (admitted (noteTotal r f) f) = fr_nextHeader f" by (simp add: admitted_def)
  note k = k [OF f(2) ne b(2) fit fit2 nh]
  show "rs_ok (accepted r f)" "rs_pieces (accepted r f) = insertPiece (rs_pieces r) (fragmentPieceOf f)"
    "set (rs_pieces (accepted r f)) = insert (fragmentPieceOf f) (set (rs_pieces r))"
    "octets (rs_pieces (accepted r f)) = octets (rs_pieces r) \<union> fragmentRange f"
    unfolding accepted_def by (rule k; assumption)+
  show "rs_v6 (accepted r f) = rs_v6 r" "rs_total (accepted r f) = rs_total (noteTotal r f)"
    using n(4) by (simp_all add: accepted_def keepFragment_def Let_def)
qed

lemma insertPiece_nonempty: "insertPiece ps p \<noteq> []"
  by (simp add: insertPiece_def Let_def)

text \<open>The four outcomes of \<open>addFragment\<close> on a consistent state and a parsed fragment.\<close>

lemma addFragment_step:
  assumes ok: "rs_ok r" and f: "fragment_ok fragment" "fr_v6 fragment = rs_v6 r" and t: "trimFragment fragment = Some f"
    and g: "fragment_ok f" "fr_v6 f = rs_v6 r"
  shows "in_bounds r f \<and> fragmentRange f \<subseteq> octets (rs_pieces r) \<Longrightarrow>
      addFragment big r fragment m = Some (noteTotal r f, Pending False)"
    "accepts r f m \<Longrightarrow> \<not> rs_complete (accepted r f) \<Longrightarrow> addFragment big r fragment m = Some (accepted r f, Pending True)"
    "accepts r f m \<Longrightarrow> rs_complete (accepted r f) \<Longrightarrow>
      \<exists>ecn body. addFragment big r fragment m = Some (accepted r f, Completed (finishedHeader big (accepted r f) ecn @ body)) \<and>
        fragmentECN (rs_ecnMask (accepted r f)) = Some ecn \<and>
        copyPieces 0 (rs_pieces (accepted r f)) (replicate (nat (rs_total (accepted r f))) 0) = Some body \<and>
        octets (rs_pieces (accepted r f)) = {..< nat (rs_total (accepted r f))}"
    "\<not> accepts r f m \<Longrightarrow> \<not> (in_bounds r f \<and> fragmentRange f \<subseteq> octets (rs_pieces r)) \<Longrightarrow>
      \<exists>r' e. addFragment big r fragment m = Some (r', Failed e) \<and> rs_pieces r' = rs_pieces r"
proof -
  note e = addFragment_eq [OF ok t, where big = big and m = m]
  show "addFragment big r fragment m = Some (noteTotal r f, Pending False)"
    if "in_bounds r f \<and> fragmentRange f \<subseteq> octets (rs_pieces r)" using e(2) that by simp
  have acc: "addFragment big r fragment m = retainFragment big (admitted (noteTotal r f) f) f" if a: "accepts r f m"
  proof -
    have "fragmentRange f \<noteq> {}" using a by (auto simp: accepts_def in_bounds_def fragmentRange_def Let_def)
    then have "\<not> fragmentRange f \<subseteq> octets (rs_pieces r)" using a by (auto simp: accepts_def)
    then show ?thesis using e(2) a admitFragment_eq(1) [OF g(1), of "noteTotal r f" m big] by (simp add: accepts_def)
  qed
  show "addFragment big r fragment m = Some (accepted r f, Pending True)"
    if "accepts r f m" "\<not> rs_complete (accepted r f)"
    using acc [OF that(1)] that(2) by (simp add: retainFragment_eq [OF g(1)] accepted_def)
  show "\<exists>ecn body. addFragment big r fragment m = Some (accepted r f, Completed (finishedHeader big (accepted r f) ecn @ body)) \<and>
        fragmentECN (rs_ecnMask (accepted r f)) = Some ecn \<and>
        copyPieces 0 (rs_pieces (accepted r f)) (replicate (nat (rs_total (accepted r f))) 0) = Some body \<and>
        octets (rs_pieces (accepted r f)) = {..< nat (rs_total (accepted r f))}"
    if a: "accepts r f m" and c: "rs_complete (accepted r f)"
  proof -
    note k = accepted_ok [OF ok g a]
    obtain ecn body where w: "fragmentECN (rs_ecnMask (accepted r f)) = Some ecn"
      "finishWire big (accepted r f) = Some (Some (finishedHeader big (accepted r f) ecn @ body))"
      "copyPieces 0 (rs_pieces (accepted r f)) (replicate (nat (rs_total (accepted r f))) 0) = Some body"
      "octets (rs_pieces (accepted r f)) = {..< nat (rs_total (accepted r f))}"
      using finishWire_ok [OF k(1) c] k(2) insertPiece_nonempty by metis
    then show ?thesis using acc [OF a] c by (auto simp: retainFragment_eq [OF g(1)] accepted_def)
  qed
  show "\<exists>r' e. addFragment big r fragment m = Some (r', Failed e) \<and> rs_pieces r' = rs_pieces r"
    if "\<not> accepts r f m" "\<not> (in_bounds r f \<and> fragmentRange f \<subseteq> octets (rs_pieces r))"
  proof (cases "in_bounds r f")
    case False
    then show ?thesis using e(1) by blast
  next
    case True
    show ?thesis
    proof (cases "octets (rs_pieces r) \<inter> fragmentRange f = {}")
      case False
      then show ?thesis using e(2) [OF True] that True by simp
    next
      case n: True
      then have "\<not> admissible (noteTotal r f) f m" using that True by (simp add: accepts_def)
      from admitFragment_eq(2) [OF g(1) this, of big] show ?thesis
        using e(2) [OF True] that True n noteTotal_ok(2) [OF ok True] by simp
    qed
  qed
qed

end
