(* ===== verification/Fragment_Wire.thy ===== *)
theory Fragment_Wire
  imports Fragment_Core
begin

text \<open>
  Fragments on the wire, \<^verbatim>\<open>src/fragment.go\<close>: \<open>parseFragment\<close> of the receive path, and the source
  fragmentation of the send path (\<open>ipFragmentLayoutForMTU\<close>, \<open>marshalIPFragmentHeader\<close>,
  \<open>buildIPFragmentPackets\<close>). As in the packet codec, an outer \<open>None\<close> is an index panic.
\<close>

section \<open>The receive path\<close>

text \<open>The result is \<open>(required, complete)\<close>.\<close>

definition ipv6FirstFragmentUpperLayerLength :: "u8 \<Rightarrow> bytes \<Rightarrow> (nat \<times> bool) option" where
  "ipv6FirstFragmentUpperLayerLength protocol payload =
     (let checked = (\<lambda>required. Some (required, required \<le> length payload))
      in if protocol = ProtocolNoNextHeader then Some (0, True)
         else if protocol = ProtocolTCP then
           (if length payload < 20 then Some (0, False)
            else do { b \<leftarrow> go_index payload 12; checked (max 20 (unat (drop_bit 4 b) * 4)) })
         else if protocol \<in> {ProtocolIGMP, ProtocolUDP, ProtocolICMPv4, ProtocolICMPv6, ProtocolESP, 136} then checked 8
         else if protocol = 4 then
           (if length payload < 20 then Some (0, False)
            else do { b \<leftarrow> go_index payload 0; checked (max 20 (unat (b AND 0x0f) * 4)) })
         else if protocol = 33 then
           (if length payload < 12 then Some (0, False)
            else do {
              b \<leftarrow> go_index payload 4;
              x \<leftarrow> go_index payload 8;
              checked (max (if x AND 1 \<noteq> 0 then 16 else 12) (unat b * 4)) })
         else if protocol = 41 then checked 40
         else if protocol = 132 then checked 12
         else Some (0, True))"

function firstHeaderCompleteFrom :: "bytes \<Rightarrow> u8 \<Rightarrow> nat \<Rightarrow> bool option" where
  "firstHeaderCompleteFrom payload next offset =
     (if next = IPv6ExtensionHeaderFragment then Some False
      else if isTraversableIPv6ExtensionHeader next then
        (case ipv6ExtensionHeaderLength next (drop offset payload) of
           None \<Rightarrow> Some False
         | Some len \<Rightarrow> do {
             following \<leftarrow> go_index payload offset;
             firstHeaderCompleteFrom payload following (offset + len) })
      else map_option snd (ipv6FirstFragmentUpperLayerLength next (drop offset payload)))"
  by pat_completeness auto
termination
  by (relation "measure (\<lambda>(payload, next, offset). length payload - offset)") (auto intro: chain_step)

declare firstHeaderCompleteFrom.simps [simp del]

definition ipv6FirstFragmentHeaderComplete :: "u8 \<Rightarrow> bytes \<Rightarrow> bool option" where
  "ipv6FirstFragmentHeaderComplete next payload = firstHeaderCompleteFrom payload next 0"

record parsedFragment =
  pf_fragment :: ipPacketReassemblyFragment
  pf_truncated :: bool
  pf_parameter :: bool
  pf_parameterCode :: u8
  pf_parameterAt :: nat

text \<open>The fields of a fragment that is only reported in an ICMP error.\<close>

definition reportedFragment :: "addr \<Rightarrow> addr \<Rightarrow> bool \<Rightarrow> bytes \<Rightarrow> ipPacketReassemblyFragment" where
  "reportedFragment source target v6 original =
     \<lparr>fr_source = source, fr_target = target, fr_protocol = 0, fr_offset = 0, fr_more = False, fr_payload = [],
      fr_identifier = 0, fr_v6 = v6, fr_ecn = 0, fr_maximum = 0, fr_packetSize = 0, fr_df = False, fr_header = [],
      fr_nextHeader = 0, fr_original = original\<rparr>"

definition fragmentProblem :: "ipPacketReassemblyFragment \<Rightarrow> u8 \<Rightarrow> nat \<Rightarrow> parsedFragment" where
  "fragmentProblem f code at =
     \<lparr>pf_fragment = f, pf_truncated = False, pf_parameter = True, pf_parameterCode = code, pf_parameterAt = at\<rparr>"

definition parseFragment4 :: "bool \<Rightarrow> bytes \<Rightarrow> bool \<Rightarrow> parsedFragment option option" where
  "parseFragment4 big packet skipChecksum =
     (if length packet < 20 then Some None
      else do {
        b0 \<leftarrow> go_index packet 0;
        let headerSize = unat (b0 AND 0x0f) * 4;
        t \<leftarrow> read16 packet 2;
        let totalSize = unat t;
        field \<leftarrow> read16 packet 6;
        if headerSize < 20 \<or> totalSize \<le> headerSize \<or> totalSize > length packet then Some None
        else do {
          header \<leftarrow> go_slice packet 0 headerSize;
          if \<not> skipChecksum \<and> checksum big header \<noteq> 0 \<or> field AND 0x3fff = 0 \<or> field AND 0x8000 \<noteq> 0 then Some None
          else do {
            s \<leftarrow> go_slice packet 12 16;
            d \<leftarrow> go_slice packet 16 20;
            ident \<leftarrow> read16 packet 4;
            protocol \<leftarrow> go_index packet 9;
            tos \<leftarrow> go_index packet 1;
            options \<leftarrow> go_slice packet 20 headerSize;
            original \<leftarrow> go_slice packet 0 totalSize;
            payload \<leftarrow> go_slice packet headerSize totalSize;
            malformed \<leftarrow> malformedIPv4Option options;
            valid \<leftarrow> validateIPv4Options options;
            let offset = unat (field AND 0x1fff) * 8;
            Some (case malformed of
                Some optionAt \<Rightarrow>
                  Some (fragmentProblem ((reportedFragment (addrFrom4 s) (addrFrom4 d) False original)
                    \<lparr>fr_protocol := protocol, fr_offset := offset, fr_identifier := ucast ident\<rparr>) 0 (20 + optionAt))
              | None \<Rightarrow>
                  if \<not> valid then None
                  else Some \<lparr>pf_fragment =
                    \<lparr>fr_source = addrFrom4 s, fr_target = addrFrom4 d, fr_protocol = protocol, fr_offset = offset,
                     fr_more = (field AND 0x2000 \<noteq> 0), fr_payload = payload, fr_identifier = ucast ident, fr_v6 = False,
                     fr_ecn = tos AND 3, fr_maximum = fragmentMaximumDatagram - int headerSize, fr_packetSize = int totalSize,
                     fr_df = (field AND 0x4000 \<noteq> 0), fr_header = header, fr_nextHeader = 9, fr_original = original\<rparr>,
                    pf_truncated = False, pf_parameter = False, pf_parameterCode = 0, pf_parameterAt = 0\<rparr>) } } })"

text \<open>
  A non-atomic Fragment header found at \<open>headerOffset\<close>; \<open>preceding\<close> is the header before it.
\<close>

definition foundFragment6 ::
  "addr \<Rightarrow> addr \<Rightarrow> u8 \<Rightarrow> bytes \<Rightarrow> bytes \<Rightarrow> nat \<Rightarrow> nat option \<Rightarrow> u8 \<Rightarrow> u16 \<Rightarrow> u32 \<Rightarrow> parsedFragment option" where
  "foundFragment6 source target b1 original payload6 headerOffset preceding protocol field identifier = do {
     let fragmentOffset = unat (field AND 0xfff8);
     let mf = (field AND 1 \<noteq> 0);
     let payload = drop (headerOffset + 8) payload6;
     let maximum = (if fragmentOffset = 0 then fragmentMaximumDatagram - int headerOffset else fragmentMaximumDatagram);
     header \<leftarrow> go_slice original 0 (40 + headerOffset);
     complete \<leftarrow> (if fragmentOffset = 0 \<and> mf then ipv6FirstFragmentHeaderComplete protocol payload else Some True);
     let outside = (int fragmentOffset > maximum - int (length payload));
     Some \<lparr>pf_fragment =
         \<lparr>fr_source = source, fr_target = target, fr_protocol = protocol, fr_offset = fragmentOffset, fr_more = mf,
          fr_payload = payload, fr_identifier = identifier, fr_v6 = True, fr_ecn = drop_bit 4 b1 AND 3,
          fr_maximum = maximum, fr_packetSize = 0, fr_df = False, fr_header = header,
          fr_nextHeader = ipv6NextHeaderFieldOffset preceding, fr_original = original\<rparr>,
       pf_truncated = \<not> complete, pf_parameter = (mf \<and> length payload mod 8 \<noteq> 0 \<or> outside), pf_parameterCode = 0,
       pf_parameterAt = (if outside then 40 + headerOffset + 2 else 4)\<rparr> }"

function fragmentChain6 ::
  "addr \<Rightarrow> addr \<Rightarrow> u8 \<Rightarrow> bytes \<Rightarrow> bytes \<Rightarrow> u8 \<Rightarrow> nat \<Rightarrow> nat option \<Rightarrow> bool \<Rightarrow> parsedFragment option option" where
  "fragmentChain6 source target b1 original payload6 next offset previous seenHop =
     (let problem = (\<lambda>code at. Some (Some (fragmentProblem (reportedFragment source target True original) code at)))
      in if next = IPv6ExtensionHeaderHopByHop \<or> next = IPv6ExtensionHeaderDestination then
        (if next = IPv6ExtensionHeaderHopByHop \<and> (offset \<noteq> 0 \<or> seenHop)
         then problem 1 (ipv6NextHeaderFieldOffset previous)
         else case ipv6ExtensionHeaderUnit8Length (drop offset payload6) of
             None \<Rightarrow> Some None
           | Some len \<Rightarrow> do {
               header \<leftarrow> go_slice payload6 offset (offset + len);
               following \<leftarrow> go_index header 0;
               inspected \<leftarrow> inspectIPv6Options header;
               (case inspected of
                  Inl (action, optionOffset) \<Rightarrow>
                    if action \<ge> 2 \<and> (action = 2 \<or> \<not> isMulticastAddr target)
                    then problem 2 (40 + offset + optionOffset)
                    else Some None
                | Inr _ \<Rightarrow> fragmentChain6 source target b1 original payload6 following (offset + len) (Some offset)
                            (seenHop \<or> next = IPv6ExtensionHeaderHopByHop)) })
      else if next = IPv6ExtensionHeaderRouting then
        (case ipv6ExtensionHeaderUnit8Length (drop offset payload6) of
           None \<Rightarrow> Some None
         | Some len \<Rightarrow> do {
             header \<leftarrow> go_slice payload6 offset (offset + len);
             following \<leftarrow> go_index header 0;
             segmentsLeft \<leftarrow> go_index header 3;
             if segmentsLeft \<noteq> 0 then problem 0 (40 + offset + 2)
             else fragmentChain6 source target b1 original payload6 following (offset + len) (Some offset) seenHop })
      else if next = IPv6ExtensionHeaderFragment then
        (if length payload6 - offset < 8 then Some None
         else do {
           header \<leftarrow> go_slice payload6 offset (offset + 8);
           following \<leftarrow> go_index header 0;
           field \<leftarrow> read16 header 2;
           identifier \<leftarrow> read32 header 4;
           if field AND 0xfff9 = 0 then Some None
           else map_option Some
                  (foundFragment6 source target b1 original payload6 offset previous following field identifier) })
      else Some None)"
  by pat_completeness auto
termination
  by (relation "measure (\<lambda>(source, target, b1, original, payload6, next, offset, previous, seenHop). length payload6 - offset)")
    (auto intro: unit8_step)

declare fragmentChain6.simps [simp del]

definition parseFragment6 :: "bytes \<Rightarrow> parsedFragment option option" where
  "parseFragment6 packet = do {
     size16 \<leftarrow> read16 packet 4;
     let stop = 40 + unat size16;
     if stop > length packet then Some None
     else do {
       s \<leftarrow> go_slice packet 8 24;
       d \<leftarrow> go_slice packet 24 40;
       payload6 \<leftarrow> go_slice packet 40 stop;
       original \<leftarrow> go_slice packet 0 stop;
       b1 \<leftarrow> go_index packet 1;
       next \<leftarrow> go_index packet 6;
       fragmentChain6 (addrFrom16 s) (addrFrom16 d) b1 original payload6 next 0 None False } }"

definition parseFragment :: "bool \<Rightarrow> bytes \<Rightarrow> bool \<Rightarrow> parsedFragment option option" where
  "parseFragment big packet skipChecksum =
     (if length packet < 1 then Some None
      else do {
        b0 \<leftarrow> go_index packet 0;
        if drop_bit 4 b0 = 4 then parseFragment4 big packet skipChecksum
        else if drop_bit 4 b0 \<noteq> 6 \<or> length packet < 48 then Some None
        else parseFragment6 packet })"

section \<open>The send path\<close>

text \<open>The modes of \<open>PathMTUDiscovery\<close>, with any other value of the integer type.\<close>

datatype pathMTUDiscovery =
  PathMTUDiscoveryDont | PathMTUDiscoveryWant | PathMTUDiscoveryDo | PathMTUDiscoveryProbe
| PathMTUDiscoveryInterface | PathMTUDiscoveryOmit | PathMTUDiscoveryOther int

record sourceFragmentation =
  sf_allow :: bool
  sf_dontFragment :: bool

definition requiresIPv4ID :: "sourceFragmentation \<Rightarrow> bool" where
  "requiresIPv4ID policy \<longleftrightarrow> sf_allow policy \<or> \<not> sf_dontFragment policy"

definition sourceFragmentationForMode :: "pathMTUDiscovery \<Rightarrow> sourceFragmentation" where
  "sourceFragmentationForMode mode =
     (case mode of
        PathMTUDiscoveryWant \<Rightarrow> \<lparr>sf_allow = True, sf_dontFragment = True\<rparr>
      | PathMTUDiscoveryDo \<Rightarrow> \<lparr>sf_allow = False, sf_dontFragment = True\<rparr>
      | PathMTUDiscoveryProbe \<Rightarrow> \<lparr>sf_allow = False, sf_dontFragment = True\<rparr>
      | PathMTUDiscoveryInterface \<Rightarrow> \<lparr>sf_allow = False, sf_dontFragment = False\<rparr>
      | _ \<Rightarrow> \<lparr>sf_allow = True, sf_dontFragment = False\<rparr>)"

definition acceptsPathMTU :: "pathMTUDiscovery \<Rightarrow> bool" where
  "acceptsPathMTU mode \<longleftrightarrow> mode \<noteq> PathMTUDiscoveryInterface \<and> mode \<noteq> PathMTUDiscoveryOmit"

record ipFragmentLayout =
  fl_options :: ipPacketOptions
  fl_identification :: u32
  fl_payloadSize :: u16
  fl_fragmentCapacity :: u16
  fl_headerSize :: u8

text \<open>The stack's identification counters.\<close>

record fragmentIDs =
  id_ipv4ID :: u32
  id_ipv6FragmentID :: u32

definition ipFragmentLayoutForMTU ::
  "fragmentIDs \<Rightarrow> addr \<Rightarrow> addr \<Rightarrow> int \<Rightarrow> sourceFragmentation \<Rightarrow> ipPacketOptions \<Rightarrow> int \<Rightarrow> fragmentIDs \<times> (errno + ipFragmentLayout)" where
  "ipFragmentLayoutForMTU ids source target payloadSize fragmentation opts mtu =
     (if \<not> sf_allow fragmentation then (ids, Inl EMSGSIZE)
      else
        let baseHeaderSize = ipHeaderSize source target payloadSize
        in if baseHeaderSize = 0 \<or> int baseHeaderSize + payloadSize \<le> mtu then (ids, Inl EMSGSIZE)
           else
             let fragmentHeaderSize = (if is6 source then baseHeaderSize + 8 else baseHeaderSize)
             in case newFragmentRangeCursor payloadSize (mtu - int fragmentHeaderSize) of
                 None \<Rightarrow> (ids, Inl EMSGSIZE)
               | Some ranges \<Rightarrow>
                   let ids = (if is4 source then ids\<lparr>id_ipv4ID := id_ipv4ID ids + 1\<rparr>
                              else ids\<lparr>id_ipv6FragmentID := id_ipv6FragmentID ids + 1\<rparr>)
                   in (ids, Inr \<lparr>fl_options = opts,
                        fl_identification = (if is4 source then ucast (ucast (id_ipv4ID ids) :: u16) else id_ipv6FragmentID ids),
                        fl_payloadSize = of_int payloadSize, fl_fragmentCapacity = of_int (rc_capacity ranges),
                        fl_headerSize = of_nat fragmentHeaderSize\<rparr>))"

text \<open>\<open>Some None\<close> is \<open>false\<close>; the packet is given with its header area unwritten.\<close>

definition marshalIPFragmentHeader ::
  "bool \<Rightarrow> bytes \<Rightarrow> addr \<Rightarrow> addr \<Rightarrow> u8 \<Rightarrow> u32 \<Rightarrow> int \<Rightarrow> bool \<Rightarrow> ipPacketOptions \<Rightarrow> bytes option option" where
  "marshalIPFragmentHeader big packet source target protocol identification offset mf opts =
     (if is4 source then
        (case marshalIPHeader big packet source target protocol (ucast identification) False opts of
           None \<Rightarrow> Some None
         | Some packet \<Rightarrow>
             let field = of_int (offset div 8);
                 field = (if mf then field OR 0x2000 else field);
                 packet = putAt16 packet 6 field;
                 packet = packet[10 := 0, 11 := 0]
             in Some (Some (putAt16 packet 10 (checksum big (take 20 packet)))))
      else
        (case marshalIPHeader big packet source target IPv6ExtensionHeaderFragment 0 False opts of
           None \<Rightarrow> Some None
         | Some packet \<Rightarrow> do {
             fragment \<leftarrow> go_slice packet 40 48;
             let field = of_int offset;
             let field = (if mf then field OR 1 else field);
             Some (Some (take 40 packet @ ([protocol, 0] @ be_put16 field @ be_put32 identification) @ drop 48 packet)) }))"

fun buildFragments ::
  "bool \<Rightarrow> addr \<Rightarrow> addr \<Rightarrow> u8 \<Rightarrow> bytes \<Rightarrow> ipFragmentLayout \<Rightarrow> (int \<times> int \<times> bool) list \<Rightarrow> bytes list option option" where
  "buildFragments big source target protocol payload layout [] = Some (Some [])"
| "buildFragments big source target protocol payload layout ((offset, sz, mf) # ranges) = do {
     let headerSize = unat (fl_headerSize layout);
     marshalled \<leftarrow> marshalIPFragmentHeader big (replicate (headerSize + nat sz) 0) source target protocol
                     (fl_identification layout) offset mf (fl_options layout);
     case marshalled of
       None \<Rightarrow> Some None
     | Some packet \<Rightarrow> do {
         data \<leftarrow> go_slice payload (nat offset) (nat (offset + sz));
         packet \<leftarrow> copyAt packet headerSize data;
         rest \<leftarrow> buildFragments big source target protocol payload layout ranges;
         Some (map_option (\<lambda>packets. packet # packets) rest) } }"

text \<open>
  \<open>Some None\<close> is \<open>nil\<close>. The cursor yields at most one range per eight octets, so \<open>length payload + 1\<close>
  iterations are enough.
\<close>

definition buildIPFragmentPackets ::
  "bool \<Rightarrow> addr \<Rightarrow> addr \<Rightarrow> u8 \<Rightarrow> bytes \<Rightarrow> ipFragmentLayout \<Rightarrow> bytes list option option" where
  "buildIPFragmentPackets big source target protocol payload layout =
     (if length payload \<noteq> unat (fl_payloadSize layout) then Some None
      else case newFragmentRangeCursor (int (unat (fl_payloadSize layout))) (int (unat (fl_fragmentCapacity layout))) of
          None \<Rightarrow> Some None
        | Some c \<Rightarrow> do {
            ranges \<leftarrow> cursorRanges (Suc (length payload)) c;
            buildFragments big source target protocol payload layout ranges })"

end
