(* ===== verification/Fragment_Safety.thy ===== *)
theory Fragment_Safety
  imports Fragment_State Fragment_Wire Ip_Safety
begin

text \<open>
  What the receive path can rely on for arbitrary fragments from the wire: \<open>parseFragment\<close> returns and
  gives well-formed fragments, and adding them to a reassembly never corrupts it.
\<close>

section \<open>Parsed fragments are well formed\<close>

lemma and_3_less_4: "(w AND 3 :: u8) < 4"
proof -
  have "unat (w AND 3) \<le> 3" using word_and_le1 [of w 3] by (simp add: word_le_nat_alt)
  then show ?thesis by (simp add: word_less_nat_alt)
qed

lemma nibble_le_15: "unat (w AND 15 :: u8) \<le> 15"
  using word_and_le1 [of w 15] by (simp add: word_le_nat_alt)

text \<open>A guard that rejects was not taken when the parser accepts.\<close>

lemma guard:
  "(if c then Some None else e) = Some (Some y) \<Longrightarrow> \<not> c"
  "(if c then Some None else e) = Some (Some y) \<Longrightarrow> e = Some (Some y)"
  by (simp_all split: if_splits)

lemma wire4_ok:
  assumes h: "20 \<le> h" "h \<le> 60" "h < n" "n \<le> 65535" "n \<le> length packet"
    and f: "\<not> fr_v6 f" "fr_ecn f < 4" "fr_payload f = take (n - h) (drop h packet)" "fr_header f = take h packet" "fr_nextHeader f = 9"
      "fr_original f = take n packet" "fr_maximum f = fragmentMaximumDatagram - int h"
  shows "fragment_ok f"
proof -
  have "take n packet = take h packet @ [] @ take (n - h) (drop h packet)" using h take_add [of h "n - h" packet] by simp
  then have "\<exists>mid. fr_original f = fr_header f @ mid @ fr_payload f \<and> length mid = 0" using f by auto
  then show ?thesis unfolding fragment_ok_def header_fits_def using h f by (simp add: fragmentMaximumDatagram_def headerRoom_def)
qed

lemma parseFragment4_ok:
  assumes p: "parseFragment4 big packet skip = Some (Some pf)" and n: "\<not> pf_parameter pf"
  shows "fragment_ok (pf_fragment pf) \<and> \<not> fr_v6 (pf_fragment pf)"
proof -
  note v = p [unfolded parseFragment4_def]
  note long = guard(1) [OF v]
  then have i: "go_index packet k = Some (packet ! k)" if "k < 20" for k using that by (simp add: go_index_in)
  have i0: "go_index packet 0 = Some (packet ! 0)" "go_index packet 1 = Some (packet ! 1)" "go_index packet 9 = Some (packet ! 9)"
    by (rule i; simp)+
  obtain t where t: "read16 packet 2 = Some t" using long read16_total [of 2 packet] by auto
  obtain f where f: "read16 packet 6 = Some f" using long read16_total [of 6 packet] by auto
  obtain d where d: "read16 packet 4 = Some d" using long read16_total [of 4 packet] by auto
  let ?h = "unat (packet ! 0 AND 0x0f) * 4"
  note v = guard(2) [OF v, unfolded i0 t f Option.bind.bind_lunit Let_def]
  note ok = guard(1) [OF v]
  note v = guard(2) [OF v]
  have sl: "go_slice packet 0 ?h = Some (take ?h packet)" "go_slice packet 0 (unat t) = Some (take (unat t) packet)"
    "go_slice packet ?h (unat t) = Some (take (unat t - ?h) (drop ?h packet))" "go_slice packet 20 ?h = Some (take (?h - 20) (drop 20 packet))"
    "go_slice packet 12 16 = Some (take 4 (drop 12 packet))" "go_slice packet 16 20 = Some (take 4 (drop 16 packet))"
    using ok long by (simp_all add: go_slice_def)
  obtain m where m: "malformedIPv4Option (take (?h - 20) (drop 20 packet)) = Some m" using option_loops_total(5) by blast
  obtain w where w: "validateIPv4Options (take (?h - 20) (drop 20 packet)) = Some w" using option_loops_total(6) by blast
  note v = v [unfolded sl Option.bind.bind_lunit]
  note c = guard(1) [OF v]
  note v = guard(2) [OF v, unfolded sl d Option.bind.bind_lunit i0 m w option.inject]
  have m0: "m = None" using v n by (cases m) (auto simp: fragmentProblem_def)
  note v = v [unfolded m0 option.case]
  have w1: "w" using v by (cases w) simp_all
  have pf: "pf_fragment pf = \<lparr>fr_source = addrFrom4 (take 4 (drop 12 packet)), fr_target = addrFrom4 (take 4 (drop 16 packet)),
      fr_protocol = packet ! 9, fr_offset = unat (f AND 0x1fff) * 8,
      fr_more = (f AND 0x2000 \<noteq> 0), fr_payload = take (unat t - ?h) (drop ?h packet), fr_identifier = ucast d, fr_v6 = False,
      fr_ecn = packet ! 1 AND 3, fr_maximum = fragmentMaximumDatagram - int ?h, fr_packetSize = int (unat t),
      fr_df = (f AND 0x4000 \<noteq> 0), fr_header = take ?h packet, fr_nextHeader = 9, fr_original = take (unat t) packet\<rparr>"
    using v w1 by auto
  have "?h \<le> 60" "unat t \<le> 65535" using nibble_le_15 [of "packet ! 0"] unat_lt_u16 [of t] by linarith+
  then have "fragment_ok (pf_fragment pf)"
    using ok wire4_ok [of ?h "unat t" packet "pf_fragment pf"] and_3_less_4 by (simp add: pf)
  then show ?thesis using pf by simp
qed

lemma foundFragment6_ok:
  assumes p: "foundFragment6 source target b1 original payload6 headerOffset preceding protocol field identifier = Some pf"
    and o: "drop 40 original = payload6" "40 \<le> length original" "length payload6 \<le> 65535" "headerOffset + 8 \<le> length payload6"
    and prev: "\<And>k. preceding = Some k \<Longrightarrow> k < headerOffset"
  shows "fragment_ok (pf_fragment pf) \<and> fr_v6 (pf_fragment pf)"
proof -
  let ?P = "drop (headerOffset + 8) payload6" and ?off = "unat (field AND 0xfff8)"
  have h: "go_slice original 0 (40 + headerOffset) = Some (take (40 + headerOffset) original)"
    using o by (auto simp: go_slice_def)
  obtain c where c: "(if ?off = 0 \<and> field AND 1 \<noteq> 0 then ipv6FirstFragmentHeaderComplete protocol ?P else Some True) = Some c"
    using p by (cases "if ?off = 0 \<and> field AND 1 \<noteq> 0 then ipv6FirstFragmentHeaderComplete protocol ?P else Some True")
      (simp_all add: foundFragment6_def Let_def h)
  have len: "length original = 40 + length payload6" using o by auto
  have pf: "pf_fragment pf = \<lparr>fr_source = source, fr_target = target, fr_protocol = protocol, fr_offset = ?off, fr_more = (field AND 1 \<noteq> 0),
      fr_payload = ?P, fr_identifier = identifier, fr_v6 = True, fr_ecn = drop_bit 4 b1 AND 3,
      fr_maximum = (if ?off = 0 then fragmentMaximumDatagram - int headerOffset else fragmentMaximumDatagram), fr_packetSize = 0,
      fr_df = False, fr_header = take (40 + headerOffset) original,
      fr_nextHeader = ipv6NextHeaderFieldOffset preceding, fr_original = original\<rparr>"
    using p [unfolded foundFragment6_def Let_def h Option.bind.bind_lunit c option.inject] by auto
  have "original = take (40 + headerOffset) original @ take 8 (drop (40 + headerOffset) original) @ ?P"
  proof -
    have "?P = drop 8 (drop (40 + headerOffset) original)" using o(1) by (simp add: drop_drop ac_simps flip: o(1))
    then show ?thesis by (simp only: append_take_drop_id)
  qed
  moreover have "length (take 8 (drop (40 + headerOffset) original)) = 8" using o len by simp
  moreover have "ipv6NextHeaderFieldOffset preceding < 40 + headerOffset"
    using prev by (auto simp: ipv6NextHeaderFieldOffset_def split: option.split)
  ultimately have "\<exists>mid. original = take (40 + headerOffset) original @ mid @ ?P \<and> length mid = 8"
    "ipv6NextHeaderFieldOffset preceding < 40 + headerOffset" by blast+
  then have "fragment_ok (pf_fragment pf)"
    unfolding fragment_ok_def pf header_fits_def
    using o(2-4) len and_3_less_4 [of "drop_bit 4 b1"] by (simp add: fragmentMaximumDatagram_def headerRoom_def)
  then show ?thesis using pf by simp
qed

lemma fragmentChain6_ok:
  assumes "fragmentChain6 source target b1 original payload6 nxt offset previous sh = Some (Some pf)" "\<not> pf_parameter pf"
    and o: "drop 40 original = payload6" "40 \<le> length original" "length payload6 \<le> 65535"
    and "offset \<le> length payload6" "\<And>k. previous = Some k \<Longrightarrow> k < offset"
  shows "fragment_ok (pf_fragment pf) \<and> fr_v6 (pf_fragment pf)"
  using assms(1,2,6,7)
proof (induction "length payload6 - offset" arbitrary: nxt offset previous sh rule: less_induct)
  case less
  note v = less.prems(1) [unfolded fragmentChain6.simps [of _ _ _ _ _ nxt offset previous sh] Let_def]
  have report: "\<not> pf_parameter pf \<Longrightarrow> (Some (Some (fragmentProblem f code at)) = Some (Some pf)) = False" for f code at
    by (auto simp: fragmentProblem_def)
  have rec: "fragment_ok (pf_fragment pf) \<and> fr_v6 (pf_fragment pf)"
    if len: "ipv6ExtensionHeaderUnit8Length (drop offset payload6) = Some len"
      and r: "fragmentChain6 source target b1 original payload6 following (offset + len) (Some offset) sh' = Some (Some pf)" for len following sh'
    by (rule less.hyps [OF unit8_step [OF len] r less.prems(2)])
      (use ipv6ExtensionHeaderUnit8Length_le [OF len] less.prems(3) in auto)
  consider "nxt = IPv6ExtensionHeaderHopByHop \<or> nxt = IPv6ExtensionHeaderDestination" | "nxt = IPv6ExtensionHeaderRouting"
    | "nxt = IPv6ExtensionHeaderFragment" | "nxt \<notin> {IPv6ExtensionHeaderHopByHop, IPv6ExtensionHeaderDestination,
      IPv6ExtensionHeaderRouting, IPv6ExtensionHeaderFragment}" by blast
  then show ?case
  proof cases
    case 1
    note v = v [unfolded if_P [OF 1]]
    have h: "\<not> (nxt = IPv6ExtensionHeaderHopByHop \<and> (offset \<noteq> 0 \<or> sh))"
      using v report [OF less.prems(2)] by (cases "nxt = IPv6ExtensionHeaderHopByHop \<and> (offset \<noteq> 0 \<or> sh)") auto
    note v = v [unfolded if_not_P [OF h]]
    obtain len where len: "ipv6ExtensionHeaderUnit8Length (drop offset payload6) = Some len"
      using v by (cases "ipv6ExtensionHeaderUnit8Length (drop offset payload6)") simp_all
    let ?hd = "take len (drop offset payload6)"
    have s: "go_slice payload6 offset (offset + len) = Some ?hd" "go_index ?hd 0 = Some (?hd ! 0)"
      using ipv6ExtensionHeaderUnit8Length_le [OF len] by (auto simp: go_slice_def go_index_def)
    obtain ins where ins: "inspectIPv6Options ?hd = Some ins" using option_loops_total(11) by blast
    note v = v [unfolded len option.case s Option.bind.bind_lunit ins]
    show ?thesis
    proof (cases ins)
      case (Inl ao)
      obtain action at where ao: "ao = (action, at)" by (cases ao) auto
      from v [unfolded Inl ao sum.case prod.case] show ?thesis using report [OF less.prems(2)] by (simp split: if_splits)
    next
      case (Inr u)
      from v [unfolded Inr sum.case] show ?thesis by (rule rec [OF len])
    qed
  next
    case 2
    then have k: "\<not> (nxt = IPv6ExtensionHeaderHopByHop \<or> nxt = IPv6ExtensionHeaderDestination)" by (simp add: ipv6_header_kinds)
    note v = v [unfolded if_not_P [OF k] if_P [OF 2]]
    obtain len where len: "ipv6ExtensionHeaderUnit8Length (drop offset payload6) = Some len"
      using v by (cases "ipv6ExtensionHeaderUnit8Length (drop offset payload6)") simp_all
    let ?hd = "take len (drop offset payload6)"
    have s: "go_slice payload6 offset (offset + len) = Some ?hd" "go_index ?hd 0 = Some (?hd ! 0)" "go_index ?hd 3 = Some (?hd ! 3)"
      using ipv6ExtensionHeaderUnit8Length_le [OF len] by (auto simp: go_slice_def go_index_def)
    note v = v [unfolded len option.case s Option.bind.bind_lunit]
    have "\<not> ?hd ! 3 \<noteq> 0" using v report [OF less.prems(2)] by (cases "?hd ! 3 \<noteq> 0") simp_all
    from v [unfolded if_not_P [OF this]] show ?thesis by (rule rec [OF len])
  next
    case 3
    then have k: "\<not> (nxt = IPv6ExtensionHeaderHopByHop \<or> nxt = IPv6ExtensionHeaderDestination)" "\<not> nxt = IPv6ExtensionHeaderRouting"
      by (simp_all add: ipv6_header_kinds)
    note v = v [unfolded if_not_P [OF k(1)] if_not_P [OF k(2)] if_P [OF 3]]
    note l = guard(1) [OF v]
    note v = guard(2) [OF v]
    let ?hd = "take 8 (drop offset payload6)"
    have s: "go_slice payload6 offset (offset + 8) = Some ?hd" "go_index ?hd 0 = Some (?hd ! 0)"
      using l by (auto simp: go_slice_def go_index_def)
    obtain field where field: "read16 ?hd 2 = Some field" using l read16_total [of 2 ?hd] by auto
    obtain ident where ident: "read32 ?hd 4 = Some ident" using l read32_total [of 4 ?hd] by auto
    note v = v [unfolded s field ident Option.bind.bind_lunit]
    have "foundFragment6 source target b1 original payload6 offset previous (?hd ! 0) field ident = Some pf"
      using guard(2) [OF v] by auto
    then show ?thesis by (rule foundFragment6_ok) (use o l less.prems(4) in auto)
  next
    case 4
    then show ?thesis using v by simp
  qed
qed

theorem parseFragment_ok:
  assumes p: "parseFragment big packet skip = Some (Some pf)" and n: "\<not> pf_parameter pf"
  shows "fragment_ok (pf_fragment pf)"
proof -
  note v = p [unfolded parseFragment_def]
  note l = guard(1) [OF v]
  have i: "go_index packet 0 = Some (packet ! 0)" using l by (simp add: go_index_def)
  note v = guard(2) [OF v, unfolded i Option.bind.bind_lunit]
  show ?thesis
  proof (cases "drop_bit 4 (packet ! 0) = 4")
    case True
    from v [unfolded if_P [OF True]] n show ?thesis using parseFragment4_ok by blast
  next
    case False
    note v = v [unfolded if_not_P [OF False]]
    note c = guard(1) [OF v]
    note v = guard(2) [OF v, unfolded parseFragment6_def]
    have i: "go_index packet 1 = Some (packet ! 1)" "go_index packet 6 = Some (packet ! 6)" using c by (simp_all add: go_index_def)
    obtain z where z: "read16 packet 4 = Some z" using c read16_total [of 4 packet] by auto
    note v = v [unfolded z Option.bind.bind_lunit Let_def]
    note e = guard(1) [OF v]
    have sl: "go_slice packet 8 24 = Some (take 16 (drop 8 packet))" "go_slice packet 24 40 = Some (take 16 (drop 24 packet))"
      "go_slice packet 40 (40 + unat z) = Some (take (unat z) (drop 40 packet))"
      "go_slice packet 0 (40 + unat z) = Some (take (40 + unat z) packet)"
      using e c by (simp_all add: go_slice_def)
    note v = guard(2) [OF v, unfolded sl i Option.bind.bind_lunit]
    have "fragment_ok (pf_fragment pf) \<and> fr_v6 (pf_fragment pf)"
      by (rule fragmentChain6_ok [OF v n])
        (use e c unat_lt_u16 [of z] in \<open>auto simp: drop_take\<close>)
    then show ?thesis by blast
  qed
qed

section \<open>Parsing returns\<close>

lemma total_if: "(c \<Longrightarrow> \<exists>r. a = Some r) \<Longrightarrow> (\<not> c \<Longrightarrow> \<exists>r. b = Some r) \<Longrightarrow> \<exists>r. (if c then a else b) = Some r"
  by simp

lemma total_index: "k < length xs \<Longrightarrow> (\<And>b. \<exists>r. f b = Some r) \<Longrightarrow> \<exists>r. Option.bind (go_index xs k) f = Some r"
  by (simp add: go_index_in)

lemma upperLength_total: "\<exists>r. ipv6FirstFragmentUpperLayerLength nxt payload = Some r"
  unfolding ipv6FirstFragmentUpperLayerLength_def Let_def
  by (intro total_if total_index; (rule exI, rule refl | linarith))
lemma firstHeaderComplete_total: "\<exists>r. firstHeaderCompleteFrom payload nxt offset = Some r"
proof (induction "length payload - offset" arbitrary: nxt offset rule: less_induct)
  case less
  have upper: "\<exists>r. ipv6FirstFragmentUpperLayerLength nxt (drop offset payload) = Some r"
    by (rule upperLength_total)
  show ?case
  proof (cases "ipv6ExtensionHeaderLength nxt (drop offset payload)")
    case None
    then show ?thesis using upper by (subst firstHeaderCompleteFrom.simps) auto
  next
    case (Some len)
    then have "offset < length payload" using ipv6ExtensionHeaderLength_le [OF Some] ipv6ExtensionHeaderLength_pos [OF Some] by simp
    moreover have "\<exists>r. firstHeaderCompleteFrom payload nxt' (offset + len) = Some r" for nxt'
      by (rule less) (rule chain_step [OF Some])
    ultimately show ?thesis using upper by (subst firstHeaderCompleteFrom.simps) (auto simp: Some go_index_def)
  qed
qed

lemma foundFragment6_total:
  assumes "40 + headerOffset \<le> length original"
  shows "\<exists>r. foundFragment6 source target b1 original payload6 headerOffset preceding protocol field identifier = Some r"
proof -
  obtain c where "ipv6FirstFragmentHeaderComplete protocol (drop (headerOffset + 8) payload6) = Some c"
    unfolding ipv6FirstFragmentHeaderComplete_def using firstHeaderComplete_total by blast
  then show ?thesis using assms by (simp add: foundFragment6_def Let_def go_slice_in)
qed

lemma fragmentChain6_total:
  assumes o: "drop 40 original = payload6" "40 \<le> length original"
  shows "\<exists>r. fragmentChain6 source target b1 original payload6 nxt offset previous sh = Some r"
proof (induction "length payload6 - offset" arbitrary: nxt offset previous sh rule: less_induct)
  case less
  have unit8: "\<exists>header. go_slice payload6 offset (offset + len) = Some header \<and> go_index header 0 = Some (header ! 0) \<and>
      go_index header 3 = Some (header ! 3) \<and>
      (\<forall>nxt' previous' sh'. \<exists>r. fragmentChain6 source target b1 original payload6 nxt' (offset + len) previous' sh' = Some r)"
    if len: "ipv6ExtensionHeaderUnit8Length (drop offset payload6) = Some len" for len
    using ipv6ExtensionHeaderUnit8Length_le [OF len] less [OF unit8_step [OF len]] by (auto simp: go_slice_def go_index_def)
  consider "nxt = IPv6ExtensionHeaderHopByHop \<or> nxt = IPv6ExtensionHeaderDestination" | "nxt = IPv6ExtensionHeaderRouting"
    | "nxt = IPv6ExtensionHeaderFragment" | "nxt \<notin> {IPv6ExtensionHeaderHopByHop, IPv6ExtensionHeaderDestination,
      IPv6ExtensionHeaderRouting, IPv6ExtensionHeaderFragment}" by blast
  then show ?case
  proof cases
    case 1
    show ?thesis
    proof (cases "ipv6ExtensionHeaderUnit8Length (drop offset payload6)")
      case None
      with 1 show ?thesis by (subst fragmentChain6.simps) (simp add: Let_def)
    next
      case (Some len)
      obtain header where h: "go_slice payload6 offset (offset + len) = Some header" "go_index header 0 = Some (header ! 0)"
        "\<And>nxt' previous' sh'. \<exists>r. fragmentChain6 source target b1 original payload6 nxt' (offset + len) previous' sh' = Some r"
        using unit8 [OF Some] by blast
      obtain ins where ins: "inspectIPv6Options header = Some ins" using option_loops_total(11) by blast
      show ?thesis by (subst fragmentChain6.simps) (simp add: 1 Some h ins Let_def split: sum.split prod.split)
    qed
  next
    case 2
    then have k: "nxt \<noteq> IPv6ExtensionHeaderHopByHop" "nxt \<noteq> IPv6ExtensionHeaderDestination" by (simp_all add: ipv6_header_kinds)
    show ?thesis
    proof (cases "ipv6ExtensionHeaderUnit8Length (drop offset payload6)")
      case None
      with 2 k show ?thesis by (subst fragmentChain6.simps) (simp add: Let_def)
    next
      case (Some len)
      obtain header where h: "go_slice payload6 offset (offset + len) = Some header" "go_index header 0 = Some (header ! 0)"
        "go_index header 3 = Some (header ! 3)"
        "\<And>nxt' previous' sh'. \<exists>r. fragmentChain6 source target b1 original payload6 nxt' (offset + len) previous' sh' = Some r"
        using unit8 [OF Some] by blast
      show ?thesis using 2 k by (subst fragmentChain6.simps) (simp add: Some h Let_def)
    qed
  next
    case 3
    then have k: "nxt \<noteq> IPv6ExtensionHeaderHopByHop" "nxt \<noteq> IPv6ExtensionHeaderDestination" "nxt \<noteq> IPv6ExtensionHeaderRouting"
      by (simp_all add: ipv6_header_kinds)
    show ?thesis
    proof (cases "length payload6 - offset < 8")
      case True
      with 3 k show ?thesis by (subst fragmentChain6.simps) (simp add: Let_def)
    next
      case False
      let ?h = "take 8 (drop offset payload6)"
      have h: "go_slice payload6 offset (offset + 8) = Some ?h" "go_index ?h 0 = Some (?h ! 0)"
        using False by (simp_all add: go_slice_def go_index_def)
      obtain field where f: "read16 ?h 2 = Some field" using False read16_total [of 2 ?h] by auto
      obtain ident where d: "read32 ?h 4 = Some ident" using False read32_total [of 4 ?h] by auto
      obtain found where "foundFragment6 source target b1 original payload6 offset previous (?h ! 0) field ident = Some found"
      proof -
        have "40 + offset \<le> length original" using False o by auto
        then show ?thesis using foundFragment6_total that by blast
      qed
      then show ?thesis using 3 k False by (subst fragmentChain6.simps) (simp add: h f d Let_def)
    qed
  next
    case 4
    then show ?thesis by (subst fragmentChain6.simps) (simp add: Let_def)
  qed
qed

lemma parseFragment4_total: "\<exists>r. parseFragment4 big packet skip = Some r"
proof (cases "length packet < 20")
  case False
  then have i: "go_index packet k = Some (packet ! k)" if "k < 20" for k using that by (simp add: go_index_in)
  obtain t where t: "read16 packet 2 = Some t" using False read16_total [of 2 packet] by auto
  obtain f where f: "read16 packet 6 = Some f" using False read16_total [of 6 packet] by auto
  obtain d where d: "read16 packet 4 = Some d" using False read16_total [of 4 packet] by auto
  let ?h = "unat (packet ! 0 AND 0x0f) * 4"
  obtain m v where v: "malformedIPv4Option (take (?h - 20) (drop 20 packet)) = Some m"
    "validateIPv4Options (take (?h - 20) (drop 20 packet)) = Some v" using option_loops_total(5,6) by blast
  show ?thesis using False v by (simp add: parseFragment4_def i t f d Let_def go_slice_in)
qed (simp add: parseFragment4_def)

lemma parseFragment_total: "\<exists>r. parseFragment big packet skip = Some r"
proof (cases "length packet < 48")
  case True
  then show ?thesis using parseFragment4_total by (auto simp: parseFragment_def go_index_def)
next
  case False
  obtain z where z: "read16 packet 4 = Some z" using False read16_total [of 4 packet] by auto
  have "\<exists>r. parseFragment6 packet = Some r"
  proof (cases "40 + unat z > length packet")
    case True
    then show ?thesis by (simp add: parseFragment6_def z Let_def)
  next
    case small: False
    have "\<exists>r. fragmentChain6 (addrFrom16 (take 16 (drop 8 packet))) (addrFrom16 (take 16 (drop 24 packet))) (packet ! 1)
        (take (40 + unat z) packet) (take (unat z) (drop 40 packet)) (packet ! 6) 0 None False = Some r"
      by (rule fragmentChain6_total) (use small False in \<open>auto simp: drop_take\<close>)
    then show ?thesis using False small by (simp add: parseFragment6_def z Let_def go_slice_in go_index_in)
  qed
  then show ?thesis using parseFragment4_total False by (simp add: parseFragment_def go_index_in)
qed

section \<open>No fragment corrupts a reassembly\<close>

text \<open>
  The states of a reassembly that is fed with packets from the wire, whatever they hold. The stack
  finds the state by the fragment's key, so the family always agrees.
\<close>

inductive reassembling :: "bool \<Rightarrow> nat \<Rightarrow> ipPacketReassemblyState \<Rightarrow> bool" for big maximumPieces where
  first: "parseFragment big packet skip = Some (Some pf) \<Longrightarrow> \<not> pf_parameter pf \<Longrightarrow>
    reassembling big maximumPieces (rs_start (pf_fragment pf))"
| more: "reassembling big maximumPieces r \<Longrightarrow> parseFragment big packet skip = Some (Some pf) \<Longrightarrow> \<not> pf_parameter pf \<Longrightarrow>
    fr_v6 (pf_fragment pf) = rs_v6 r \<Longrightarrow> addFragment big r (pf_fragment pf) maximumPieces = Some (r', Pending added) \<Longrightarrow>
    reassembling big maximumPieces r'"

lemma addFragment_cases:
  assumes ok: "rs_ok r" and f: "fragment_ok f" "fr_v6 f = rs_v6 r"
  obtains (dup) g where "trimFragment f = Some g" "in_bounds r g" "fragmentRange g \<subseteq> octets (rs_pieces r)"
      "addFragment big r f m = Some (noteTotal r g, Pending False)"
  | (kept) g where "trimFragment f = Some g" "accepts r g m" "fragment_ok g" "fr_v6 g = rs_v6 r"
      "addFragment big r f m = Some (accepted r g, Pending True)"
  | (complete) g ecn body where "trimFragment f = Some g" "accepts r g m" "fragment_ok g" "fr_v6 g = rs_v6 r" "rs_complete (accepted r g)"
      "addFragment big r f m = Some (accepted r g, Completed (finishedHeader big (accepted r g) ecn @ body))"
      "copyPieces 0 (rs_pieces (accepted r g)) (replicate (nat (rs_total (accepted r g))) 0) = Some body"
      "octets (rs_pieces (accepted r g)) = {..< nat (rs_total (accepted r g))}"
  | (failed) r' e where "addFragment big r f m = Some (r', Failed e)" "rs_pieces r' = rs_pieces r"
proof -
  obtain g where g: "trimFragment f = Some g" "fragment_ok g" "fr_v6 g = rs_v6 r"
    using trimFragment_ok [OF f(1)] f(2) by metis
  note s = addFragment_step [OF ok f g, where big = big and m = m]
  show ?thesis
  proof (cases "accepts r g m")
    case True
    then show ?thesis using s(2,3) g kept [of g] complete [of g] by (cases "rs_complete (accepted r g)") blast+
  next
    case False
    then show ?thesis using s(1,4) g(1) dup [of g] failed by blast
  qed
qed

lemma reassembling_ok: "reassembling big m r \<Longrightarrow> rs_ok r"
proof (induction rule: reassembling.induct)
  case (first packet skip pf)
  then show ?case using rs_start_ok parseFragment_ok by blast
next
  case (more r packet skip pf r' added)
  from more.IH parseFragment_ok [OF more.hyps(2,3)] more.hyps(4) show ?case
  proof (cases rule: addFragment_cases [where big = big and m = m])
    case (dup g)
    then show ?thesis using more noteTotal_ok(1) by auto
  next
    case (kept g)
    then show ?thesis using more accepted_ok(1) by auto
  qed (use more in auto)
qed

lemma length_finishedHeader: "length (finishedHeader big r ecn) = length (rs_header r)"
  by (simp add: finishedHeader_def finishedHeader4_def finishedHeader6_def Let_def)




text \<open>Two fragments of a UDP datagram from 10.0.0.1 to 10.0.0.2; the second repeats the first and goes on.\<close>

definition sampleHeader :: "u8 \<Rightarrow> bytes" where
  "sampleHeader n = [0x45, 0, 0, n, 0, 7, 0x20, 0, 64, 17, 0, 0, 10, 0, 0, 1, 10, 0, 0, 2]"

definition sampleFragment :: bytes where "sampleFragment = sampleHeader 28 @ [1, 2, 3, 4, 5, 6, 7, 8]"
definition sampleOverlap :: bytes where "sampleOverlap = sampleHeader 36 @ replicate 16 9"

lemma sample_parses:
  "case parseFragment False sampleFragment True of Some (Some pf) \<Rightarrow> \<not> pf_parameter pf \<and> \<not> fr_v6 (pf_fragment pf) | _ \<Rightarrow> False"
  "case parseFragment False sampleOverlap True of Some (Some pf) \<Rightarrow> \<not> pf_parameter pf \<and> \<not> fr_v6 (pf_fragment pf) \<and>
     fr_offset (pf_fragment pf) = 0 \<and> length (fr_payload (pf_fragment pf)) = 16 | _ \<Rightarrow> False"
  "case parseFragment False sampleFragment True of Some (Some pf) \<Rightarrow>
     (case addFragment False (rs_start (pf_fragment pf)) (pf_fragment pf) 0 of Some (r, Pending added) \<Rightarrow>
        map fp_offset (rs_pieces r) = [0] \<and> map pieceEnd (rs_pieces r) = [8] \<and> \<not> rs_v6 r | _ \<Rightarrow> False) | _ \<Rightarrow> False"
  by code_simp+


lemma sample_obtain:
  obtains pf q r where "parseFragment False sampleFragment True = Some (Some pf)" "\<not> pf_parameter pf" "\<not> fr_v6 (pf_fragment pf)"
    "parseFragment False sampleOverlap True = Some (Some q)" "\<not> pf_parameter q" "\<not> fr_v6 (pf_fragment q)"
    "fr_offset (pf_fragment q) = 0" "length (fr_payload (pf_fragment q)) = 16"
    "reassembling False 0 (rs_start (pf_fragment pf))" "reassembling False 0 r" "\<not> rs_v6 r"
    "map fp_offset (rs_pieces r) = [0]" "map pieceEnd (rs_pieces r) = [8]"
proof -
  obtain pf where p: "parseFragment False sampleFragment True = Some (Some pf)" "\<not> pf_parameter pf" "\<not> fr_v6 (pf_fragment pf)"
    using sample_parses(1) by (auto split: option.splits)
  obtain q where q: "parseFragment False sampleOverlap True = Some (Some q)" "\<not> pf_parameter q" "\<not> fr_v6 (pf_fragment q)"
    "fr_offset (pf_fragment q) = 0" "length (fr_payload (pf_fragment q)) = 16"
    using sample_parses(2) by (auto split: option.splits)
  have s: "reassembling False 0 (rs_start (pf_fragment pf))" by (rule reassembling.first [OF p(1,2)])
  obtain r added where r: "addFragment False (rs_start (pf_fragment pf)) (pf_fragment pf) 0 = Some (r, Pending added)"
    "map fp_offset (rs_pieces r) = [0]" "map pieceEnd (rs_pieces r) = [8]" "\<not> rs_v6 r"
    using sample_parses(3) p(1) by (auto split: option.splits prod.splits addResult.splits)
  have "reassembling False 0 r" by (rule reassembling.more [OF s p(1,2) _ r(1)]) (simp add: rs_start_def)
  then show ?thesis by (rule that [OF p q s _ r(4,2,3)])
qed



end
