(* ===== verification/Fragment_Progress.thy ===== *)
theory Fragment_Progress
  imports Fragment_Safety
begin

text \<open>
  The reassembly of \<^verbatim>\<open>src/fragment.go\<close> makes progress: a reassembly that is fed, in any order and with
  repetitions, with all the fragments that cut a payload into disjoint ranges returns the datagram.
  What it needs of the fragments is the locale \<open>fragmented\<close>.
\<close>

section \<open>Every fragment of a datagram gives the datagram\<close>

text \<open>A reassembly that is fed with a sequence of fragments, up to the first that ends it.\<close>

fun reassemble ::
  "bool \<Rightarrow> nat \<Rightarrow> ipPacketReassemblyState \<Rightarrow> ipPacketReassemblyFragment list \<Rightarrow> (ipPacketReassemblyState \<times> addResult) option" where
  "reassemble big maximumPieces r [] = Some (r, Pending False)"
| "reassemble big maximumPieces r (f # fs) = do {
     (r', res) \<leftarrow> addFragment big r f maximumPieces;
     case res of Pending added \<Rightarrow> reassemble big maximumPieces r' fs | _ \<Rightarrow> Some (r', res) }"

text \<open>
  The contract between the fragmenting and the reassembling side: a set of fragments that cut the
  payload \<open>P\<close> into disjoint ranges, each carrying its octets, its offset and a correct M flag, with
  one ECN codepoint, and no more of them than the reassembly admits.
\<close>

locale fragmented =
  fixes valid :: "'d \<Rightarrow> nat \<Rightarrow> bool" and P :: "'d \<Rightarrow> bytes" and F :: "'d \<Rightarrow> ipPacketReassemblyFragment set" and v6 :: bool
    and ecn :: "'d \<Rightarrow> u8" and first :: "'d \<Rightarrow> ipPacketReassemblyFragment"
  assumes parsed: "valid d m \<Longrightarrow> f \<in> F d \<Longrightarrow> fragment_ok f \<and> fr_v6 f = v6 \<and> fr_ecn f = ecn d \<and> \<not> fr_df f"
    and aligned: "valid d m \<Longrightarrow> f \<in> F d \<Longrightarrow> fr_more f \<Longrightarrow> length (fr_payload f) mod 8 = 0"
    and carries: "valid d m \<Longrightarrow> f \<in> F d \<Longrightarrow> fr_payload f \<noteq> [] \<and> fr_payload f = take (length (fr_payload f)) (drop (fr_offset f) (P d)) \<and>
      fr_offset f + length (fr_payload f) \<le> length (P d)"
    and flag: "valid d m \<Longrightarrow> f \<in> F d \<Longrightarrow> fr_more f \<longleftrightarrow> fr_offset f + length (fr_payload f) < length (P d)"
    and disjoint: "valid d m \<Longrightarrow> f \<in> F d \<Longrightarrow> g \<in> F d \<Longrightarrow> f = g \<or> fragmentRange f \<inter> fragmentRange g = {}"
    and cover: "valid d m \<Longrightarrow> (\<Union>f \<in> F d. fragmentRange f) = {..< length (P d)}"
    and room: "valid d m \<Longrightarrow> f \<in> F d \<Longrightarrow> int (length (P d)) \<le> fr_maximum f" "valid d m \<Longrightarrow> \<not> v6 \<Longrightarrow> length (P d) \<le> 65515"
    and count: "valid d m \<Longrightarrow> finite (F d) \<and> (m = 0 \<or> card (F d) \<le> m)"
    and head: "valid d m \<Longrightarrow> first d \<in> F d \<and> fr_offset (first d) = 0"
begin

text \<open>Between two fragments: the pieces are those of the fragments received so far.\<close>

definition progress :: "'d \<Rightarrow> ipPacketReassemblyState \<Rightarrow> ipPacketReassemblyFragment set \<Rightarrow> bool" where
  "progress d r G \<longleftrightarrow>
     rs_ok r \<and> rs_v6 r = v6 \<and> G \<subseteq> F d \<and> set (rs_pieces r) = fragmentPieceOf ` G \<and>
     (if \<exists>g \<in> G. \<not> fr_more g then rs_total r = int (length (P d)) else rs_total r = -1) \<and>
     int (length (P d)) \<le> rs_maximum r \<and> rs_ecnMask r = push_bit (unat (ecn d)) 1 \<and> rs_maxDFSize r = 0 \<and>
     (first d \<in> G \<longrightarrow> rs_header r = fr_header (first d) \<and> rs_nextHeader r = fr_nextHeader (first d) \<and> rs_protocol r = fr_protocol (first d))"

lemma untrimmed: "valid d m \<Longrightarrow> f \<in> F d \<Longrightarrow> trimFragment f = Some f"
  using aligned [of d m f] by (auto simp: trimFragment_def)

lemma pieces_of: "progress d r G \<Longrightarrow> octets (rs_pieces r) = (\<Union>g \<in> G. fragmentRange g)"
  unfolding progress_def octets_def using range_piece by auto

lemma start_progress:
  assumes d: "valid d m" and f: "f \<in> F d" shows "progress d (rs_start f) {}"
proof -
  have "int (length (P d)) \<le> rs_maximum (rs_start f)"
    using room(1) [OF d f] room(2) [OF d] parsed [OF d f] by (auto simp: rs_start_def fragmentMaximumDatagram_def)
  moreover have "rs_ok (rs_start f)" "rs_v6 (rs_start f) = v6" using rs_start_ok parsed [OF d f] by auto
  moreover have "rs_pieces (rs_start f) = []" "rs_total (rs_start f) = -1" "rs_maxDFSize (rs_start f) = 0"
    "rs_ecnMask (rs_start f) = push_bit (unat (ecn d)) 1"
    using parsed [OF d f] by (simp_all add: rs_start_def)
  ultimately show ?thesis by (simp add: progress_def)
qed

lemma bounds:
  assumes d: "valid d m" and r: "progress d r G" and f: "f \<in> F d"
  shows "in_bounds r f"
proof -
  have b: "\<not> beyond (rs_pieces r) (int (length (P d)))"
    using r carries [OF d] by (fastforce simp: progress_def beyond_iff fragmentPieceOf_def pieceEnd_def not_less)
  show ?thesis
  proof (cases "fr_more f")
    case True
    then show ?thesis using r f carries [OF d f] by (auto simp: in_bounds_def progress_def Let_def split: if_splits)
  next
    case False
    then have "fr_offset f + length (fr_payload f) = length (P d)" using flag [OF d f] carries [OF d f] by linarith
    then show ?thesis using r f b carries [OF d f] False by (auto simp: in_bounds_def progress_def Let_def split: if_splits)
  qed
qed

lemma noteTotal_progress:
  assumes d: "valid d m" and r: "progress d r G" and f: "f \<in> F d"
  shows "rs_total (noteTotal r f) = (if \<exists>g \<in> insert f G. \<not> fr_more g then int (length (P d)) else -1)"
proof -
  have "\<not> fr_more f \<Longrightarrow> fr_offset f + length (fr_payload f) = length (P d)" using flag [OF d f] carries [OF d f] by linarith
  then show ?thesis using r by (auto simp: noteTotal_def progress_def)
qed

lemma payload_nonempty: assumes d: "valid d m" shows "P d \<noteq> []"
  using carries [OF d conjunct1 [OF head [OF d]]] by auto

lemma zero_first: assumes d: "valid d m" shows "f \<in> F d \<Longrightarrow> 0 \<in> fragmentRange f \<Longrightarrow> f = first d"
  using disjoint [OF d _ conjunct1 [OF head [OF d]], of f] carries [OF d conjunct1 [OF head [OF d]]] conjunct2 [OF head [OF d]] by (auto simp: fragmentRange_def)

lemma offset_zero_first: assumes d: "valid d m" shows "f \<in> F d \<Longrightarrow> fr_offset f = 0 \<Longrightarrow> f = first d"
  using zero_first [OF d, of f] carries [OF d, of f] by (auto simp: fragmentRange_def)

lemma last_exists: assumes d: "valid d m" shows "\<exists>f \<in> F d. \<not> fr_more f"
proof -
  have "length (P d) - 1 \<in> (\<Union>f \<in> F d. fragmentRange f)" using payload_nonempty [OF d] unfolding cover [OF d] by simp
  then obtain f where f: "f \<in> F d" "length (P d) - 1 < fr_offset f + length (fr_payload f)" by (auto simp: fragmentRange_def)
  then show ?thesis using flag [OF d f(1)] by (intro bexI [of _ f]) auto
qed

lemma pieces_distinct: "pieces_ok ps \<Longrightarrow> distinct ps"
proof (induction ps)
  case (Cons p ps)
  then have "p \<notin> set ps" using pieceEnd_gt [of p] by (fastforce simp: pieces_ok_Cons)
  then show ?case using Cons by (simp add: pieces_ok_Cons)
qed simp

lemma new_accepted:
  assumes d: "valid d m" and r: "progress d r G" and f: "f \<in> F d" "f \<notin> G"
  shows "accepts r f m" "progress d (accepted r f) (insert f G)"
proof -
  have ok: "rs_ok r" "rs_v6 r = v6" "G \<subseteq> F d" using r by (auto simp: progress_def)
  note b = bounds [OF d r f(1)] and t = noteTotal_progress [OF d r f(1)]
  note n = noteTotal_ok [OF ok(1) b]
  have sep: "octets (rs_pieces r) \<inter> fragmentRange f = {}"
    unfolding pieces_of [OF r] using disjoint [OF d] f ok(3) by fastforce
  have beyond: "\<not> beyond (rs_pieces r) (int (length (P d)))"
    using r carries [OF d] by (fastforce simp: progress_def beyond_iff fragmentPieceOf_def pieceEnd_def not_less)
  have "length (rs_pieces r) = card (fragmentPieceOf ` G)"
    using r pieces_distinct [of "rs_pieces r"] distinct_card [of "rs_pieces r"] by (auto simp: progress_def rs_ok_def)
  also have "\<dots> \<le> card G" by (rule card_image_le) (use count [OF d] ok(3) finite_subset in blast)
  also have "\<dots> < card (F d)" by (rule psubset_card_mono) (use count [OF d] ok(3) f in auto)
  finally have few: "m = 0 \<or> length (rs_pieces r) < m" using count [OF d] by linarith
  have e: "rs_ecnMask r = push_bit (unat (ecn d)) 1" "fr_ecn f = ecn d" using r parsed [OF d] f by (auto simp: progress_def)
  have lt4: "ecn d < 4" using parsed [OF d f(1)] by (auto simp: fragment_ok_def)
  have total: "rs_total (noteTotal r f) \<le> int (length (P d))" using t by (simp split: if_splits)
  have adm: "admissible (noteTotal r f) f m"
  proof -
    have "\<not> beyond (rs_pieces r) (fr_maximum f)" using beyond room(1) [OF d f(1)] by (auto simp: beyond_iff)
    moreover have "push_bit (unat (ecn d)) (1 :: u8) AND 1 = 0 \<or> push_bit (unat (ecn d)) (1 :: u8) = 1" using ecn_bits [OF lt4] by auto
    moreover have "rs_ecnMask (noteTotal r f) = push_bit (unat (ecn d)) 1" using e by (simp add: noteTotal_def)
    ultimately show ?thesis using total room(1) [OF d f(1)] few n(2) e(2) unfolding admissible_def Let_def by auto
  qed
  show a: "accepts r f m" using b sep adm by (simp add: accepts_def)
  have p: "fragment_ok f" "fr_v6 f = rs_v6 r" using parsed [OF d f(1)] ok(2) by auto
  note k = accepted_ok [OF ok(1) p a]
  have fields: "rs_maximum (accepted r f) = (if fr_offset f = 0 then fr_maximum f else rs_maximum r)"
    "rs_ecnMask (accepted r f) = push_bit (unat (ecn d)) 1"
    "rs_maxDFSize (accepted r f) = 0"
    "rs_header (accepted r f) = (if fr_offset f = 0 then fr_header f else rs_header r)"
    "rs_nextHeader (accepted r f) = (if fr_offset f = 0 then fr_nextHeader f else rs_nextHeader r)"
    "rs_protocol (accepted r f) = (if fr_offset f = 0 then fr_protocol f else rs_protocol r)"
    using r e parsed [OF d f(1)]
    by (auto simp: accepted_def keepFragment_def admitted_def noteTotal_def progress_def Let_def)
  have hd: "first d \<in> insert f G \<longrightarrow> rs_header (accepted r f) = fr_header (first d) \<and> rs_nextHeader (accepted r f) = fr_nextHeader (first d) \<and>
      rs_protocol (accepted r f) = fr_protocol (first d)"
  proof (cases "f = first d")
    case True
    then show ?thesis using fields conjunct2 [OF head [OF d]] by simp
  next
    case False
    then have "fr_offset f \<noteq> 0" using offset_zero_first [OF d f(1)] by blast
    then show ?thesis using False r fields by (simp add: progress_def)
  qed
  have "int (length (P d)) \<le> rs_maximum (accepted r f)"
    using fields(1) room(1) [OF d f(1)] r by (simp add: progress_def)
  moreover have "set (rs_pieces (accepted r f)) = fragmentPieceOf ` insert f G" using k(3) r by (simp add: progress_def)
  moreover have "if \<exists>g \<in> insert f G. \<not> fr_more g then rs_total (accepted r f) = int (length (P d)) else rs_total (accepted r f) = -1"
    unfolding k(6) t by simp
  ultimately show "progress d (accepted r f) (insert f G)"
    unfolding progress_def using k(1,5) ok f(1) fields(2,3) hd by blast
qed

lemma progress_complete:
  assumes d: "valid d m" and r: "progress d r (F d)" shows "rs_complete r"
proof -
  have "octets (rs_pieces r) = {..< length (P d)}" using pieces_of [OF r] cover [OF d] by simp
  moreover have ok: "rs_ok r" using r by (simp add: progress_def)
  ultimately have "retained (rs_pieces r) = length (P d)" using card_octets [of "rs_pieces r"] by (simp add: rs_ok_def)
  moreover have "rs_total r = int (length (P d))" using r last_exists [OF d] by (auto simp: progress_def split: if_splits)
  ultimately show ?thesis using ok by (auto simp: rs_complete_def rs_ok_def overhead_def Let_def)
qed

lemma complete_payload:
  assumes d: "valid d m" and r: "progress d r G" and c: "rs_complete r" and o: "octets (rs_pieces r) = {..< nat (rs_total r)}"
    and b: "copyPieces 0 (rs_pieces r) (replicate (nat (rs_total r)) 0) = Some body"
  shows "body = P d" "rs_total r = int (length (P d))" "first d \<in> G"
proof -
  show t: "rs_total r = int (length (P d))"
    using r c by (auto simp: rs_complete_def progress_def Let_def split: if_splits)
  have "\<forall>p \<in> set (rs_pieces r). fp_data p = take (length (fp_data p)) (drop (fp_offset p) (P d))"
    using r carries [OF d] by (fastforce simp: progress_def fragmentPieceOf_def)
  then show "body = P d" using copyPieces_payload [of "rs_pieces r" "P d"] r o b t by (simp add: progress_def rs_ok_def)
  have "0 \<in> octets (rs_pieces r)" using o t payload_nonempty [OF d] by simp
  then obtain g where "g \<in> G" "0 \<in> fragmentRange g" unfolding pieces_of [OF r] by blast
  then show "first d \<in> G" using zero_first [OF d] r by (auto simp: progress_def)
qed

lemma reassemble_rest:
  assumes d: "valid d m" and "progress d r G" "set fs \<subseteq> F d" "G \<union> set fs = F d" "G \<noteq> F d"
  shows "\<exists>r' e. reassemble big m r fs = Some (r', Completed (finishedHeader big r' e @ P d)) \<and>
    fragmentECN (push_bit (unat (ecn d)) 1) = Some e \<and> rs_header r' = fr_header (first d) \<and> rs_nextHeader r' = fr_nextHeader (first d) \<and>
    rs_protocol r' = fr_protocol (first d) \<and> rs_total r' = int (length (P d)) \<and> rs_v6 r' = v6 \<and> rs_maxDFSize r' = 0"
  using assms(2-)
proof (induction fs arbitrary: r G)
  case Nil
  then show ?case by simp
next
  case (Cons f fs)
  have f: "f \<in> F d" "set fs \<subseteq> F d" using Cons.prems(2) by auto
  have ok: "rs_ok r" "fragment_ok f" "fr_v6 f = rs_v6 r" using Cons.prems(1) parsed [OF d f(1)] by (auto simp: progress_def)
  note step = addFragment_step [OF ok untrimmed [OF d f(1)] ok(2,3), where big = big and m = m]
  show ?case
  proof (cases "f \<in> G")
    case True
    then have "fragmentRange f \<subseteq> octets (rs_pieces r)" using pieces_of [OF Cons.prems(1)] by auto
    moreover have "noteTotal r f = r" if "\<not> fr_more f"
    proof -
      have "rs_total r = int (length (P d))" using Cons.prems(1) True that by (auto simp: progress_def split: if_splits)
      moreover have "fr_offset f + length (fr_payload f) = length (P d)" using flag [OF d f(1)] carries [OF d f(1)] that by linarith
      ultimately show ?thesis by (simp add: noteTotal_def)
    qed
    moreover have "fr_more f \<Longrightarrow> noteTotal r f = r" by (simp add: noteTotal_def)
    ultimately have "addFragment big r f m = Some (r, Pending False)"
      using step(1) bounds [OF d Cons.prems(1) f(1)] by (cases "fr_more f") auto
    moreover have "G \<union> set fs = F d" using Cons.prems(3) True by auto
    ultimately show ?thesis using Cons.IH [OF Cons.prems(1) f(2)] Cons.prems(4) by simp
  next
    case False
    note a = new_accepted [OF d Cons.prems(1) f(1) False]
    show ?thesis
    proof (cases "rs_complete (accepted r f)")
      case True
      obtain e body where e: "addFragment big r f m =
          Some (accepted r f, Completed (finishedHeader big (accepted r f) e @ body))"
        "fragmentECN (rs_ecnMask (accepted r f)) = Some e"
        "copyPieces 0 (rs_pieces (accepted r f)) (replicate (nat (rs_total (accepted r f))) 0) = Some body"
        "octets (rs_pieces (accepted r f)) = {..< nat (rs_total (accepted r f))}"
        using step(3) [OF a(1) True] by blast
      note c = complete_payload [OF d a(2) True e(4,3)]
      show ?thesis using e(1,2) c a(2) by (auto simp: progress_def)
    next
      case c: False
      then have "insert f G \<noteq> F d" using progress_complete [OF d] a(2) by auto
      moreover have "insert f G \<union> set fs = F d" using Cons.prems(3) by auto
      ultimately show ?thesis using Cons.IH [OF a(2) f(2)] step(2) [OF a(1) c] by simp
    qed
  qed
qed

lemma reassemble_all:
  assumes d: "valid d m" and fs: "set fs = F d"
  shows "\<exists>r' e. reassemble big m (rs_start (hd fs)) fs = Some (r', Completed (finishedHeader big r' e @ P d)) \<and>
    fragmentECN (push_bit (unat (ecn d)) 1) = Some e \<and> rs_header r' = fr_header (first d) \<and> rs_nextHeader r' = fr_nextHeader (first d) \<and>
    rs_protocol r' = fr_protocol (first d) \<and> rs_total r' = int (length (P d)) \<and> rs_v6 r' = v6 \<and> rs_maxDFSize r' = 0"
proof (rule reassemble_rest [OF d])
  have "fs \<noteq> []" using fs conjunct1 [OF head [OF d]] by auto
  then have "hd fs \<in> F d" unfolding fs [symmetric] by (rule hd_in_set)
  then show "progress d (rs_start (hd fs)) {}" by (rule start_progress [OF d])
qed (use fs conjunct1 [OF head [OF d]] in auto)

end

end
