(* ===== verification/Fragment_Built.thy ===== *)
theory Fragment_Built
  imports Fragment_Progress Ip_Roundtrip
begin

text \<open>
  The fragments that \<open>buildIPFragmentPackets\<close> of \<^verbatim>\<open>src/fragment.go\<close> sends, read by \<open>parseFragment\<close>: the
  ranges of the cursor, the fragment fields of both families, and the interpretations of the locale
  \<open>fragmented\<close> on the fragments of IPv4 and of IPv6.
\<close>

section \<open>The ranges of the source fragmenter\<close>

text \<open>
  The ranges \<open>(offset, size, more)\<close> partition \<open>[a, n)\<close> in order, each at an aligned offset, of at most
  \<open>cap\<close> octets, with all the whole eight-octet units that fit in all but the last.
\<close>

fun tiles :: "int \<Rightarrow> int \<Rightarrow> int \<Rightarrow> (int \<times> int \<times> bool) list \<Rightarrow> bool" where
  "tiles cap n a [] \<longleftrightarrow> a = n"
| "tiles cap n a ((offset, sz, m) # rs) \<longleftrightarrow>
     offset = a \<and> a mod 8 = 0 \<and> 0 < sz \<and> sz \<le> cap \<and> a + sz \<le> n \<and> (m \<longleftrightarrow> a + sz < n) \<and> (m \<longrightarrow> sz mod 8 = 0 \<and> cap < sz + 8) \<and>
     tiles cap n (a + sz) rs"

lemma tiles_le: "tiles cap n a rs \<Longrightarrow> a \<le> n"
  by (induction cap n a rs rule: tiles.induct) auto

lemma tiles_elem:
  "tiles cap n a rs \<Longrightarrow> (offset, sz, m) \<in> set rs \<Longrightarrow>
     a \<le> offset \<and> offset mod 8 = 0 \<and> 0 < sz \<and> sz \<le> cap \<and> offset + sz \<le> n \<and> (m \<longleftrightarrow> offset + sz < n) \<and> (m \<longrightarrow> sz mod 8 = 0 \<and> cap < sz + 8)"
  by (induction cap n a rs rule: tiles.induct) fastforce+

lemma tiles_cover: "tiles cap n a rs \<Longrightarrow> (\<Union>(offset, sz, m) \<in> set rs. {offset ..< offset + sz}) = {a ..< n}"
proof (induction cap n a rs rule: tiles.induct)
  case (2 cap n a offset sz m rs)
  then show ?case by auto
qed simp

lemma tiles_disjoint:
  "tiles cap n a rs \<Longrightarrow> x \<in> set rs \<Longrightarrow> y \<in> set rs \<Longrightarrow>
     x = y \<or> fst x + fst (snd x) \<le> fst y \<or> fst y + fst (snd y) \<le> fst x"
proof (induction cap n a rs rule: tiles.induct)
  case (2 cap n a offset sz m rs)
  have later: "a + sz \<le> fst z" if "z \<in> set rs" for z
    using tiles_elem [of cap n "a + sz" rs "fst z" "fst (snd z)" "snd (snd z)"] 2(2) that by simp
  from 2 show ?case using later by fastforce
qed simp

lemma cursorRanges_tiles:
  assumes "rc_alignedCapacity c = rc_capacity c div 8 * 8" "8 \<le> rc_alignedCapacity c" "rc_offset c mod 8 = 0 \<or> rc_offset c = rc_total c"
    "rc_offset c \<le> rc_total c" "rc_total c - rc_offset c < int fuel"
  shows "\<exists>rs. cursorRanges fuel c = Some rs \<and> tiles (rc_capacity c) (rc_total c) (rc_offset c) rs"
  using assms
proof (induction fuel arbitrary: c)
  case 0
  then show ?case by simp
next
  case (Suc fuel)
  show ?case
  proof (cases "rc_offset c \<ge> rc_total c")
    case True
    then show ?thesis using Suc.prems(4) by (simp add: cursorNext_def)
  next
    case False
    define sz where "sz = (if rc_total c - rc_offset c > rc_capacity c then rc_alignedCapacity c else rc_total c - rc_offset c)"
    define c' where "c' = c\<lparr>rc_offset := rc_offset c + sz\<rparr>"
    have n: "cursorNext c = Some ((rc_offset c, sz, rc_offset c' < rc_total c'), c')"
      using False by (simp add: cursorNext_def sz_def c'_def Let_def)
    have le: "rc_alignedCapacity c \<le> rc_capacity c" using Suc.prems(1) by presburger
    have near: "rc_capacity c < rc_alignedCapacity c + 8" using Suc.prems(1) by presburger
    have "rc_alignedCapacity c mod 8 = 0" using Suc.prems(1) by simp
    then have s: "0 < sz" "sz \<le> rc_capacity c" "rc_offset c + sz \<le> rc_total c" "rc_offset c + sz < rc_total c \<Longrightarrow> sz mod 8 = 0 \<and> rc_capacity c < sz + 8"
      using Suc.prems(2) False le near by (auto simp: sz_def split: if_splits)
    have o: "rc_offset c mod 8 = 0" using Suc.prems(3) False by auto
    have "rc_offset c' mod 8 = 0 \<or> rc_offset c' = rc_total c'"
      using o s(3,4) by (cases "rc_offset c + sz < rc_total c") (auto simp: c'_def mod_add_eq [of "rc_offset c" 8, symmetric])
    then obtain rs where rs: "cursorRanges fuel c' = Some rs" "tiles (rc_capacity c) (rc_total c) (rc_offset c + sz) rs"
      using Suc.IH [of c'] Suc.prems s by (auto simp: c'_def)
    then show ?thesis using n s o by (auto simp: c'_def)
  qed
qed

lemma cursor_ranges:
  assumes "newFragmentRangeCursor n cap = Some c" "n < int fuel"
  shows "\<exists>rs. cursorRanges fuel c = Some rs \<and> tiles cap n 0 rs"
proof -
  have c: "c = \<lparr>rc_total = n, rc_capacity = cap, rc_alignedCapacity = cap div 8 * 8, rc_offset = 0\<rparr>" "0 < n" "8 \<le> cap div 8 * 8"
    using assms(1) by (auto simp: newFragmentRangeCursor_def Let_def split: if_splits)
  show ?thesis using cursorRanges_tiles [of c fuel] assms(2) c by simp
qed

section \<open>The fragment field of the IPv4 header\<close>

lemma below_bits: "x < 2 ^ k \<Longrightarrow> bit x n \<Longrightarrow> n < k" for x :: "'a::len word"
proof -
  assume "x < 2 ^ k" and b: "bit x n"
  show ?thesis
  proof (cases "k < LENGTH('a)")
    case True
    then have "take_bit k x = x" using \<open>x < 2 ^ k\<close> by (simp add: less_mask_eq take_bit_eq_mask)
    then show ?thesis using b by (metis bit_take_bit_iff)
  next
    case False
    then show ?thesis using bit_imp_le_length [OF b] by linarith
  qed
qed

lemma bit_masks16:
  "bit (0x1fff :: u16) n \<longleftrightarrow> n < 13" "bit (0x2000 :: u16) n \<longleftrightarrow> n = 13" "bit (0x4000 :: u16) n \<longleftrightarrow> n = 14"
  "bit (0x8000 :: u16) n \<longleftrightarrow> n = 15" "bit (0x3fff :: u16) n \<longleftrightarrow> n < 14" "bit (7 :: u16) n \<longleftrightarrow> n < 3"
  "bit (0xfff8 :: u16) n \<longleftrightarrow> 3 \<le> n \<and> n < 16" "bit (0xfff9 :: u16) n \<longleftrightarrow> n = 0 \<or> 3 \<le> n \<and> n < 16"
proof -
  have c: "(0x1fff :: u16) = mask 13" "(0x2000 :: u16) = push_bit 13 1" "(0x4000 :: u16) = push_bit 14 1" "(0x8000 :: u16) = push_bit 15 1"
    "(0x3fff :: u16) = mask 14" "(7 :: u16) = mask 3" "(0xfff8 :: u16) = push_bit 3 (mask 13)" "(0xfff9 :: u16) = push_bit 3 (mask 13) OR push_bit 0 1"
    by (simp_all add: mask_eq_exp_minus_1 push_bit_eq_mult)
  note rules = bit_mask_iff bit_push_bit_iff bit_1_iff bit_or_iff possible_bit_word
  show "bit (0x1fff :: u16) n \<longleftrightarrow> n < 13" "bit (0x2000 :: u16) n \<longleftrightarrow> n = 13" "bit (0x4000 :: u16) n \<longleftrightarrow> n = 14"
    "bit (0x8000 :: u16) n \<longleftrightarrow> n = 15" "bit (0x3fff :: u16) n \<longleftrightarrow> n < 14" "bit (7 :: u16) n \<longleftrightarrow> n < 3"
    "bit (0xfff8 :: u16) n \<longleftrightarrow> 3 \<le> n \<and> n < 16" "bit (0xfff9 :: u16) n \<longleftrightarrow> n = 0 \<or> 3 \<le> n \<and> n < 16"
    unfolding c rules by auto
qed

lemma fragment_field4:
  fixes x :: u16 and m :: bool
  assumes x: "x < 2 ^ 13"
  defines "w \<equiv> (if m then x OR 0x2000 else x)"
  shows "w AND 0x1fff = x" "w AND 0x2000 \<noteq> 0 \<longleftrightarrow> m" "w AND 0x4000 = 0" "w AND 0x8000 = 0" "w AND 0x3fff = 0 \<longleftrightarrow> x = 0 \<and> \<not> m"
proof -
  note b = below_bits [OF x]
  have w: "bit w n \<longleftrightarrow> bit x n \<or> m \<and> n = 13" for n
    unfolding w_def by (cases m) (simp_all only: bit_or_iff bit_masks16 if_True if_False simp_thms)
  have a: "bit (w AND k) n \<longleftrightarrow> (bit x n \<or> m \<and> n = 13) \<and> bit k n" for k n by (simp only: bit_and_iff w)
  show one: "w AND 0x1fff = x" by (rule bit_word_eqI) (use b in \<open>auto simp only: a bit_masks16\<close>)
  have "bit (w AND 0x2000) 13 \<longleftrightarrow> m" using b [of 13] by (auto simp only: a bit_masks16)
  moreover have "bit (w AND 0x2000) n \<Longrightarrow> m" for n using b [of n] by (auto simp only: a bit_masks16)
  ultimately show two: "w AND 0x2000 \<noteq> 0 \<longleftrightarrow> m" by (metis bit_0_eq bot_apply bot_bool_def bit_eq_iff)
  have z: "w AND k = 0" if "\<And>n. bit k n \<Longrightarrow> 14 \<le> n" for k
    by (rule bit_word_eqI) (use b that in \<open>fastforce simp only: a bit_0_eq bot_apply bot_bool_def\<close>)
  show "w AND 0x4000 = 0" "w AND 0x8000 = 0" by (rule z, simp only: bit_masks16)+
  have three: "w AND 0x3fff = w" by (rule bit_word_eqI) (use b in \<open>fastforce simp only: a w bit_masks16\<close>)
  show "w AND 0x3fff = 0 \<longleftrightarrow> x = 0 \<and> \<not> m" unfolding three using one two w_def by (cases m) auto
qed

lemma fragment_field6:
  fixes x :: u16 and m :: bool
  assumes x: "x AND 7 = 0"
  defines "w \<equiv> (if m then x OR 1 else x)"
  shows "w AND 0xfff8 = x" "w AND 1 \<noteq> 0 \<longleftrightarrow> m" "w AND 0xfff9 = 0 \<longleftrightarrow> x = 0 \<and> \<not> m"
proof -
  have b: "bit x n \<Longrightarrow> 3 \<le> n \<and> n < 16" for n
  proof -
    assume n: "bit x n"
    moreover have "\<not> bit (x AND 7) n" unfolding x by simp
    moreover have "n < 16" using bit_imp_le_length [OF n] by simp
    ultimately show "3 \<le> n \<and> n < 16" by (simp only: bit_and_iff bit_masks16) auto
  qed
  have w: "bit w n \<longleftrightarrow> bit x n \<or> m \<and> n = 0" for n
    unfolding w_def by (cases m) (simp_all add: bit_or_iff bit_1_iff)
  have a: "bit (w AND k) n \<longleftrightarrow> (bit x n \<or> m \<and> n = 0) \<and> bit k n" for k n by (simp only: bit_and_iff w)
  show one: "w AND 0xfff8 = x" by (rule bit_word_eqI) (use b in \<open>fastforce simp only: a bit_masks16\<close>)
  have "bit (w AND 1) 0 \<longleftrightarrow> m" using b [of 0] by (auto simp: a bit_1_iff)
  moreover have "bit (w AND 1) n \<Longrightarrow> m" for n using b [of n] by (cases "n = 0") (auto simp: a bit_1_iff)
  ultimately show two: "w AND 1 \<noteq> 0 \<longleftrightarrow> m" by (metis bit_0_eq bot_apply bot_bool_def bit_eq_iff)
  have three: "w AND 0xfff9 = w" by (rule bit_word_eqI) (use b in \<open>fastforce simp only: a w bit_masks16\<close>)
  show "w AND 0xfff9 = 0 \<longleftrightarrow> x = 0 \<and> \<not> m" unfolding three using one two w_def by (cases m) auto
qed

section \<open>The fragments of a datagram\<close>

text \<open>
  What the source fragmenter is given, with the addresses as their octets, and the packets it is
  expected to send; \<open>frag4\<close> and \<open>frag6\<close> are the fragments that the receiving side should read.
\<close>

record sentDatagram =
  sd_big :: bool
  sd_source :: bytes
  sd_target :: bytes
  sd_protocol :: u8
  sd_identification :: u32
  sd_capacity :: int
  sd_options :: ipPacketOptions
  sd_payload :: bytes

definition sd_ranges :: "sentDatagram \<Rightarrow> (int \<times> int \<times> bool) list" where
  "sd_ranges d =
     (case newFragmentRangeCursor (int (length (sd_payload d))) (sd_capacity d) of
        None \<Rightarrow> []
      | Some c \<Rightarrow> (case cursorRanges (Suc (length (sd_payload d))) c of None \<Rightarrow> [] | Some rs \<Rightarrow> rs))"

fun chunk :: "sentDatagram \<Rightarrow> int \<times> int \<times> bool \<Rightarrow> bytes" where
  "chunk d (offset, sz, m) = take (nat sz) (drop (nat offset) (sd_payload d))"

fun head4 :: "sentDatagram \<Rightarrow> int \<times> int \<times> bool \<Rightarrow> bytes" where
  "head4 d (offset, sz, m) =
     header4 (sd_big d) 0x45 (po_trafficClass (normalizedOptions (sd_options d))) (of_nat (20 + nat sz)) (ucast (sd_identification d))
       (if m then of_int (offset div 8) OR 0x2000 else of_int (offset div 8)) (po_hopLimit (normalizedOptions (sd_options d)))
       (sd_protocol d) (sd_source d) (sd_target d) []"

fun frag4 :: "sentDatagram \<Rightarrow> int \<times> int \<times> bool \<Rightarrow> ipPacketReassemblyFragment" where
  "frag4 d (offset, sz, m) =
     \<lparr>fr_source = addrFrom4 (sd_source d), fr_target = addrFrom4 (sd_target d), fr_protocol = sd_protocol d, fr_offset = nat offset,
      fr_more = m, fr_payload = chunk d (offset, sz, m), fr_identifier = ucast (ucast (sd_identification d) :: u16), fr_v6 = False,
      fr_ecn = po_trafficClass (normalizedOptions (sd_options d)) AND 3, fr_maximum = fragmentMaximumDatagram - 20,
      fr_packetSize = 20 + sz, fr_df = False, fr_header = head4 d (offset, sz, m), fr_nextHeader = 9,
      fr_original = head4 d (offset, sz, m) @ chunk d (offset, sz, m)\<rparr>"

fun head6 :: "sentDatagram \<Rightarrow> int \<times> int \<times> bool \<Rightarrow> bytes" where
  "head6 d (offset, sz, m) =
     (let opts = normalizedOptions (sd_options d)
      in [0x60 OR drop_bit 4 (po_trafficClass opts), push_bit 4 (po_trafficClass opts) OR ucast (drop_bit 16 (po_flowLabel opts))] @
         be_put16 (ucast (po_flowLabel opts)) @ be_put16 (of_nat (8 + nat sz)) @ [IPv6ExtensionHeaderFragment, po_hopLimit opts] @
         sd_source d @ sd_target d)"

fun middle6 :: "sentDatagram \<Rightarrow> int \<times> int \<times> bool \<Rightarrow> bytes" where
  "middle6 d (offset, sz, m) =
     [sd_protocol d, 0] @ be_put16 (if m then of_int offset OR 1 else of_int offset) @ be_put32 (sd_identification d)"

fun frag6 :: "sentDatagram \<Rightarrow> int \<times> int \<times> bool \<Rightarrow> ipPacketReassemblyFragment" where
  "frag6 d (offset, sz, m) =
     \<lparr>fr_source = addrFrom16 (sd_source d), fr_target = addrFrom16 (sd_target d), fr_protocol = sd_protocol d, fr_offset = nat offset,
      fr_more = m, fr_payload = chunk d (offset, sz, m), fr_identifier = sd_identification d, fr_v6 = True,
      fr_ecn = po_trafficClass (normalizedOptions (sd_options d)) AND 3, fr_maximum = fragmentMaximumDatagram,
      fr_packetSize = 0, fr_df = False, fr_header = head6 d (offset, sz, m), fr_nextHeader = 6,
      fr_original = head6 d (offset, sz, m) @ middle6 d (offset, sz, m) @ chunk d (offset, sz, m)\<rparr>"

definition packet4 :: "sentDatagram \<Rightarrow> int \<times> int \<times> bool \<Rightarrow> bytes" where
  "packet4 d r = head4 d r @ chunk d r"

definition packet6 :: "sentDatagram \<Rightarrow> int \<times> int \<times> bool \<Rightarrow> bytes" where
  "packet6 d r = head6 d r @ middle6 d r @ chunk d r"

definition sent4 :: "sentDatagram \<Rightarrow> nat \<Rightarrow> bool" where
  "sent4 d m \<longleftrightarrow> length (sd_source d) = 4 \<and> length (sd_target d) = 4 \<and> 8 \<le> sd_capacity d \<and>
     sd_capacity d < int (length (sd_payload d)) \<and> length (sd_payload d) \<le> 65515 \<and> (m = 0 \<or> length (sd_ranges d) \<le> m)"

definition sent6 :: "sentDatagram \<Rightarrow> nat \<Rightarrow> bool" where
  "sent6 d m \<longleftrightarrow> length (sd_source d) = 16 \<and> length (sd_target d) = 16 \<and> 8 \<le> sd_capacity d \<and>
     sd_capacity d < int (length (sd_payload d)) \<and> sd_capacity d \<le> 65527 \<and> length (sd_payload d) \<le> 65535 \<and>
     (m = 0 \<or> length (sd_ranges d) \<le> m)"

lemma ranges_tiles:
  assumes "8 \<le> sd_capacity d" "sd_capacity d < int (length (sd_payload d))"
  shows "tiles (sd_capacity d) (int (length (sd_payload d))) 0 (sd_ranges d)"
proof -
  have "1 \<le> sd_capacity d div 8" "sd_payload d \<noteq> []" using assms by (presburger, auto)
  then obtain c where c: "newFragmentRangeCursor (int (length (sd_payload d))) (sd_capacity d) = Some c"
    by (simp add: newFragmentRangeCursor_def Let_def)
  from cursor_ranges [OF c, of "Suc (length (sd_payload d))"] show ?thesis by (auto simp: sd_ranges_def c)
qed

lemma length_chunk:
  assumes "tiles cap (int (length (sd_payload d))) 0 rs" "(offset, sz, m) \<in> set rs"
  shows "length (chunk d (offset, sz, m)) = nat sz"
  using tiles_elem [OF assms] by simp linarith

lemma offset_word4:
  assumes "0 \<le> offset" "offset < 65536"
  shows "(of_int (offset div 8) :: u16) < 2 ^ 13" "unat (of_int (offset div 8) :: u16) = nat (offset div 8)"
proof -
  have u: "unat (of_int (offset div 8) :: u16) = nat (offset div 8)"
    using assms by (simp add: unat_eq_nat_uint word_of_int_eq_iff uint_word_of_int take_bit_int_eq_self)
  then show "unat (of_int (offset div 8) :: u16) = nat (offset div 8)" .
  show "(of_int (offset div 8) :: u16) < 2 ^ 13" using assms by (simp add: word_less_nat_alt u)
qed

lemma offset_word6:
  assumes "0 \<le> offset" "offset < 65536" "offset mod 8 = 0"
  shows "(of_int offset :: u16) AND 7 = 0" "unat (of_int offset :: u16) = nat offset"
proof -
  have u: "uint (of_int offset :: u16) = offset"
    using assms by (simp add: uint_word_of_int take_bit_int_eq_self)
  then show "unat (of_int offset :: u16) = nat offset" by (simp add: unat_eq_nat_uint)
  have "(of_int offset :: u16) AND 7 = take_bit 3 (of_int offset)" by (simp add: take_bit_eq_mask mask_eq_exp_minus_1)
  also have "\<dots> = 0" unfolding word_uint_eq_iff using u assms(3) by (simp add: unsigned_take_bit_eq take_bit_eq_mod uint_mod_distrib)
  finally show "(of_int offset :: u16) AND 7 = 0" .
qed

lemma nibbles45: "unat ((0x45 :: u8) AND 0x0f) * 4 = 20" "drop_bit 4 (0x45 :: u8) = 4"
  by code_simp+

lemma unat_total: "n < 65536 \<Longrightarrow> unat (of_nat n :: u16) = n"
  by (simp only: unat_of_nat) (simp add: take_bit_nat_eq_self)

lemma malformed_nil: "malformedIPv4Option [] = Some None" "validateIPv4Options [] = Some True"
  by code_simp+

lemma parse_packet4:
  assumes d: "sent4 d n" and r: "r \<in> set (sd_ranges d)"
  shows "parseFragment (sd_big d) (packet4 d r) False =
    Some (Some \<lparr>pf_fragment = frag4 d r, pf_truncated = False, pf_parameter = False, pf_parameterCode = 0, pf_parameterAt = 0\<rparr>)"
proof -
  obtain offset sz m where e: "r = (offset, sz, m)" by (cases r)
  have t: "tiles (sd_capacity d) (int (length (sd_payload d))) 0 (sd_ranges d)"
    by (rule ranges_tiles) (use d in \<open>simp_all add: sent4_def\<close>)
  note b = tiles_elem [OF t r [unfolded e]] and len = length_chunk [OF t r [unfolded e]]
  have l: "length (sd_source d) = 4" "length (sd_target d) = 4" and cap: "sz < int (length (sd_payload d))" and small: "length (sd_payload d) \<le> 65515"
    using d b by (auto simp: sent4_def)
  let ?x = "of_int (offset div 8) :: u16"
  let ?field = "if m then ?x OR 0x2000 else ?x"
  define w where "w = packet4 d r"
  have w: "w = header4 (sd_big d) 0x45 (po_trafficClass (normalizedOptions (sd_options d))) (of_nat (20 + nat sz)) (ucast (sd_identification d))
      ?field (po_hopLimit (normalizedOptions (sd_options d))) (sd_protocol d) (sd_source d) (sd_target d) [] @ chunk d r"
    by (simp add: w_def packet4_def e)
  note reads = header4_reads [OF l, where big = "sd_big d" and ?b0.0 = "0x45" and tc = "po_trafficClass (normalizedOptions (sd_options d))" and
      tot = "of_nat (20 + nat sz)" and ident = "ucast (sd_identification d)" and frag = "?field" and
      hop = "po_hopLimit (normalizedOptions (sd_options d))" and proto = "sd_protocol d" and options = "[]" and payload = "chunk d r", folded w]
  have x: "?x < 2 ^ 13" "unat ?x = nat (offset div 8)" using offset_word4 b small by simp_all
  note field = fragment_field4 [OF x(1), where m = m]
  have notAtomic: "\<not> ?field AND 0x3fff = 0"
  proof
    assume "?field AND 0x3fff = 0"
    then have "?x = 0" "\<not> m" using field(5) by blast+
    then have "nat (offset div 8) = 0" using x(2) by (metis unat_0)
    then show False using b cap \<open>\<not> m\<close> by auto
  qed
  have hl: "length (head4 d r) = 20" using length_header4 [OF l] by (simp add: e)
  have lw: "length w = 20 + nat sz" using hl len by (simp add: w_def packet4_def e del: head4.simps chunk.simps)
  have tot: "unat (of_nat (20 + nat sz) :: u16) = 20 + nat sz" by (rule unat_total) (use b small in linarith)
  have sl: "go_slice w 0 20 = Some (head4 d r)" "go_slice w 20 (20 + nat sz) = Some (chunk d r)" "go_slice w 0 (20 + nat sz) = Some w"
    "go_slice w 20 20 = Some []"
    using hl len lw by (simp_all add: go_slice_def w_def packet4_def e del: head4.simps chunk.simps)
  have ck: "checksum (sd_big d) (head4 d r) = 0" unfolding e head4.simps by (rule header4_checksum [OF l]) simp
  have pos: "0 < nat sz" using b by simp
  have off: "unat ?x * 8 = nat offset"
  proof -
    have "offset div 8 * 8 = offset" using b by auto
    then have "nat (offset div 8) * 8 = nat offset" using nat_mult_distrib [of "offset div 8" 8] b by simp
    then show ?thesis unfolding x(2) .
  qed
  have "parseFragment4 (sd_big d) w False =
    Some (Some \<lparr>pf_fragment = frag4 d r, pf_truncated = False, pf_parameter = False, pf_parameterCode = 0, pf_parameterAt = 0\<rparr>)"
    unfolding parseFragment4_def reads Option.bind.bind_lunit Let_def tot nibbles45 sl ck malformed_nil field off
    using lw pos notAtomic [unfolded field(5)] by (simp add: e w_def packet4_def del: head4.simps chunk.simps)
  then show ?thesis
    unfolding parseFragment_def w_def [symmetric] reads Option.bind.bind_lunit nibbles45 using lw by simp
qed

lemma length_head6: "length (sd_source d) = 16 \<Longrightarrow> length (sd_target d) = 16 \<Longrightarrow> length (head6 d r) = 40" "length (middle6 d r) = 8"
  by (cases r, simp add: Let_def)+

lemma done_if:
  "(c \<Longrightarrow> map_option f a = v) \<Longrightarrow> (\<not> c \<Longrightarrow> map_option f b = v) \<Longrightarrow> map_option f (if c then a else b) = v"
  by simp

lemma upper_complete:
  assumes "1020 \<le> length payload" "\<not> isTraversableIPv6ExtensionHeader next" "next \<noteq> IPv6ExtensionHeaderFragment"
  shows "ipv6FirstFragmentHeaderComplete next payload = Some True"
proof -
  have nib: "unat x * 4 \<le> length payload" for x :: u8 using unsigned_less [of x, where 'a = nat] assms(1) by simp
  have i: "go_index payload k = Some (payload ! k)" if "k < 20" for k using assms(1) that by (simp add: go_index_def)
  note idx = i [of 0, simplified] i [of 4, simplified] i [of 8, simplified] i [of 12, simplified]
  have "map_option snd (ipv6FirstFragmentUpperLayerLength next payload) = Some True"
    unfolding ipv6FirstFragmentUpperLayerLength_def Let_def idx Option.bind.bind_lunit
    by (intro done_if) (use assms(1) nib in simp_all)
  then show ?thesis using assms(2,3) by (simp add: ipv6FirstFragmentHeaderComplete_def firstHeaderCompleteFrom.simps)
qed

lemma middle6_reads:
  fixes proto :: u8 and field :: u16 and ident :: u32
  defines "mid \<equiv> [proto, 0] @ be_put16 field @ be_put32 ident"
  shows "go_slice (mid @ xs) 0 8 = Some mid" "go_index mid 0 = Some proto" "read16 mid 2 = Some field" "read32 mid 4 = Some ident"
    "drop 8 (mid @ xs) = xs"
  by (simp_all add: mid_def go_slice_def go_index_def read16_def read32_def be_put16_def be_put32_def join16_split join32_split)

lemma ecn6:
  fixes tc x :: u8
  assumes "drop_bit 4 x = 0"
  shows "drop_bit 4 (push_bit 4 tc OR x) AND 3 = tc AND 3"
proof -
  have c: "(3 :: u8) = mask 2" by (simp add: mask_eq_exp_minus_1)
  show ?thesis unfolding c
  proof (rule bit_word_eqI)
    fix n assume "n < LENGTH(8)"
    have "\<not> bit x (n + 4)" by (rule no_high_bits [OF assms])
    then show "bit (drop_bit 4 (push_bit 4 tc OR x) AND mask 2) n = bit (tc AND mask 2) n" by (auto simp: bit_simps add.commute)
  qed
qed

lemma normalized_flow: "drop_bit 20 (po_flowLabel (normalizedOptions opts)) = 0"
proof -
  have "po_flowLabel (normalizedOptions opts) = po_flowLabel opts AND ipv6MaximumFlowLabel"
    by (simp add: normalizedOptions_def Let_def)
  then show ?thesis by (simp only: flowLabel_mask)
qed

lemma parse_packet6:
  assumes d: "sent6 d n" and r: "r \<in> set (sd_ranges d)"
  obtains pf where "parseFragment big (packet6 d r) skip = Some (Some pf)" "pf_fragment pf = frag6 d r" "\<not> pf_parameter pf"
    "1027 \<le> sd_capacity d \<Longrightarrow> \<not> isTraversableIPv6ExtensionHeader (sd_protocol d) \<Longrightarrow> sd_protocol d \<noteq> IPv6ExtensionHeaderFragment \<Longrightarrow>
     \<not> pf_truncated pf"
proof -
  obtain offset sz m where e: "r = (offset, sz, m)" by (cases r)
  have t: "tiles (sd_capacity d) (int (length (sd_payload d))) 0 (sd_ranges d)"
    by (rule ranges_tiles) (use d in \<open>simp_all add: sent6_def\<close>)
  note b = tiles_elem [OF t r [unfolded e]] and len = length_chunk [OF t r [unfolded e]]
  have l: "length (sd_source d) = 16" "length (sd_target d) = 16" and cap: "sz < int (length (sd_payload d))" "sz \<le> 65527"
    and small: "length (sd_payload d) \<le> 65535"
    using d b by (auto simp: sent6_def)
  let ?o = "normalizedOptions (sd_options d)" and ?x = "of_int offset :: u16"
  let ?field = "if m then ?x OR 1 else ?x"
  have x: "?x AND 7 = 0" "unat ?x = nat offset" using offset_word6 b small by simp_all
  note field = fragment_field6 [OF x(1), where m = m]
  have notAtomic: "\<not> (?x = 0 \<and> \<not> m)"
  proof
    assume a: "?x = 0 \<and> \<not> m"
    then have "nat offset = 0" using x(2) by (metis unat_0)
    then show False using b cap a by auto
  qed
  have lp: "length (middle6 d r @ chunk d r) = 8 + nat sz" using length_head6(2) len by (simp add: e del: chunk.simps middle6.simps)
  have w: "packet6 d r = [0x60 OR drop_bit 4 (po_trafficClass ?o), push_bit 4 (po_trafficClass ?o) OR ucast (drop_bit 16 (po_flowLabel ?o))] @
         be_put16 (ucast (po_flowLabel ?o)) @ be_put16 (of_nat (length (middle6 d r @ chunk d r))) @ [IPv6ExtensionHeaderFragment, po_hopLimit ?o] @
         sd_source d @ sd_target d @ middle6 d r @ chunk d r"
    unfolding lp by (simp add: packet6_def e Let_def del: chunk.simps middle6.simps)
  note reads = header6_reads [where ?b0.0 = "0x60 OR drop_bit 4 (po_trafficClass ?o)" and
      ?b1.0 = "push_bit 4 (po_trafficClass ?o) OR ucast (drop_bit 16 (po_flowLabel ?o))" and low = "ucast (po_flowLabel ?o)" and
      size = "of_nat (length (middle6 d r @ chunk d r))" and proto = IPv6ExtensionHeaderFragment and hop = "po_hopLimit ?o" and s = "sd_source d" and
      d = "sd_target d" and payload = "middle6 d r @ chunk d r", folded w, OF l]
  have tot: "unat (of_nat (length (middle6 d r @ chunk d r)) :: u16) = length (middle6 d r @ chunk d r)"
    by (rule unat_total) (use lp cap in linarith)
  have mid: "middle6 d r = [sd_protocol d, 0] @ be_put16 ?field @ be_put32 (sd_identification d)" by (simp add: e)
  note mr = middle6_reads [where proto = "sd_protocol d" and field = ?field and ident = "sd_identification d", folded mid]
  note ecn = ecn6 [OF flowLabel_high [OF normalized_flow], of "po_trafficClass ?o" "sd_options d"]
  have "\<exists>complete. (if nat offset = 0 \<and> m then ipv6FirstFragmentHeaderComplete (sd_protocol d) (chunk d r) else Some True) = Some complete"
    using firstHeaderComplete_total [of "chunk d r" "sd_protocol d" 0] by (intro total_if) (auto simp: ipv6FirstFragmentHeaderComplete_def)
  then obtain complete where c: "(if nat offset = 0 \<and> m then ipv6FirstFragmentHeaderComplete (sd_protocol d) (chunk d r) else Some True) = Some complete" ..
  have whole: "complete" if "1027 \<le> sd_capacity d" "\<not> isTraversableIPv6ExtensionHeader (sd_protocol d)" "sd_protocol d \<noteq> IPv6ExtensionHeaderFragment"
  proof (cases "nat offset = 0 \<and> m")
    case True
    then have "1020 \<le> length (chunk d r)" using that(1) b unfolding len [folded e] by linarith
    then show ?thesis using c True upper_complete [of "chunk d r" "sd_protocol d"] that by simp
  qed (use c in \<open>auto split: if_splits\<close>)
  have sl: "go_slice (packet6 d r) 0 40 = Some (head6 d r)"
    using length_head6(1) [OF l] by (simp add: go_slice_def packet6_def)
  let ?s = "addrFrom16 (sd_source d)" and ?t = "addrFrom16 (sd_target d)"
  let ?b1 = "push_bit 4 (po_trafficClass ?o) OR ucast (drop_bit 16 (po_flowLabel ?o))"
  let ?pf = "\<lparr>pf_fragment = frag6 d r, pf_truncated = \<not> complete, pf_parameter = False, pf_parameterCode = 0, pf_parameterAt = 4\<rparr>"
  have inside: "\<not> int (nat offset) > fragmentMaximumDatagram - int (length (chunk d r))"
    using b small unfolding len [folded e] by (simp add: fragmentMaximumDatagram_def)
  have align: "\<not> (m \<and> length (chunk d r) mod 8 \<noteq> 0)"
    using b nat_mod_distrib [of sz 8] unfolding len [folded e] by auto
  have mx: "(if nat offset = 0 then fragmentMaximumDatagram - int 0 else fragmentMaximumDatagram) = fragmentMaximumDatagram" by simp
  have found: "foundFragment6 ?s ?t ?b1 (packet6 d r) (middle6 d r @ chunk d r) 0 None (sd_protocol d) ?field (sd_identification d) = Some ?pf"
    unfolding foundFragment6_def Let_def field x(2) add_0 add_0_right mr(5) sl Option.bind.bind_lunit c ecn mx
      Eq_FalseI [OF inside] Eq_FalseI [OF align]
    by (simp add: e packet6_def ipv6NextHeaderFieldOffset_def del: chunk.simps middle6.simps head6.simps)
  have "fragmentChain6 ?s ?t ?b1 (packet6 d r) (middle6 d r @ chunk d r) IPv6ExtensionHeaderFragment 0 None False = Some (Some ?pf)"
    unfolding fragmentChain6.simps [of ?s ?t ?b1 "packet6 d r" "middle6 d r @ chunk d r" IPv6ExtensionHeaderFragment 0 None False]
      Let_def add_0 mr Option.bind.bind_lunit field found if_not_P [OF notAtomic]
    using lp by (simp add: ipv6_header_kinds)
  then have "parseFragment big (packet6 d r) skip =
     Some (Some \<lparr>pf_fragment = frag6 d r, pf_truncated = \<not> complete, pf_parameter = False, pf_parameterCode = 0, pf_parameterAt = 4\<rparr>)"
    unfolding parseFragment_def parseFragment6_def reads Option.bind.bind_lunit Let_def tot version_bits
    using lp by simp
  from that [OF this] whole show ?thesis by simp
qed

lemma nat_interval: "0 \<le> a \<Longrightarrow> nat ` {a ..< b} = {nat a ..< nat b}"
proof (rule set_eqI)
  fix x assume "0 \<le> a"
  then show "x \<in> nat ` {a ..< b} \<longleftrightarrow> x \<in> {nat a ..< nat b}" by (auto intro!: image_eqI [of x nat "int x"])
qed

lemma tile_laws:
  assumes t: "tiles cap (int (length P)) 0 rs" and P: "P \<noteq> []"
    and g: "\<And>offset sz m. fr_offset (g (offset, sz, m)) = nat offset \<and> fr_more (g (offset, sz, m)) = m \<and>
      fr_payload (g (offset, sz, m)) = take (nat sz) (drop (nat offset) P)"
  shows "f \<in> g ` set rs \<Longrightarrow> fr_more f \<Longrightarrow> length (fr_payload f) mod 8 = 0"
    and "f \<in> g ` set rs \<Longrightarrow> fr_payload f \<noteq> [] \<and> fr_payload f = take (length (fr_payload f)) (drop (fr_offset f) P) \<and>
      fr_offset f + length (fr_payload f) \<le> length P"
    and "f \<in> g ` set rs \<Longrightarrow> fr_more f \<longleftrightarrow> fr_offset f + length (fr_payload f) < length P"
    and "f \<in> g ` set rs \<Longrightarrow> f' \<in> g ` set rs \<Longrightarrow> f = f' \<or> fragmentRange f \<inter> fragmentRange f' = {}"
    and "(\<Union>f \<in> g ` set rs. fragmentRange f) = {..< length P}"
    and "g (hd rs) \<in> g ` set rs \<and> fr_offset (g (hd rs)) = 0"
proof -
  have el: "0 \<le> offset \<and> 0 < sz \<and> nat offset + nat sz \<le> length P \<and> (m \<longleftrightarrow> nat offset + nat sz < length P) \<and> (m \<longrightarrow> nat sz mod 8 = 0) \<and>
      length (fr_payload (g (offset, sz, m))) = nat sz" if "(offset, sz, m) \<in> set rs" for offset sz m
    using tiles_elem [OF t that] g [of offset sz m] nat_mod_distrib [of sz 8] by auto
  have fr: "fragmentRange (g x) = {nat (fst x) ..< nat (fst x + fst (snd x))}" if "x \<in> set rs" for x
  proof -
    obtain offset sz m where e: "x = (offset, sz, m)" by (cases x)
    show ?thesis using el [of offset sz m] g [of offset sz m] that unfolding e by (simp add: fragmentRange_def nat_add_distrib)
  qed
  show "f \<in> g ` set rs \<Longrightarrow> fr_more f \<Longrightarrow> length (fr_payload f) mod 8 = 0" using el g by fastforce
  show "f \<in> g ` set rs \<Longrightarrow> fr_payload f \<noteq> [] \<and> fr_payload f = take (length (fr_payload f)) (drop (fr_offset f) P) \<and>
      fr_offset f + length (fr_payload f) \<le> length P" using el g by fastforce
  show "f \<in> g ` set rs \<Longrightarrow> fr_more f \<longleftrightarrow> fr_offset f + length (fr_payload f) < length P" using el g by fastforce
  show "f = f' \<or> fragmentRange f \<inter> fragmentRange f' = {}" if f: "f \<in> g ` set rs" "f' \<in> g ` set rs"
  proof -
    obtain x y where x: "f = g x" "f' = g y" "x \<in> set rs" "y \<in> set rs" using f by blast
    have "x = y \<or> nat (fst x + fst (snd x)) \<le> nat (fst y) \<or> nat (fst y + fst (snd y)) \<le> nat (fst x)"
      using tiles_disjoint [OF t x(3,4)] by auto
    then show ?thesis unfolding x(1,2) fr [OF x(3)] fr [OF x(4)] by auto
  qed
  show "(\<Union>f \<in> g ` set rs. fragmentRange f) = {..< length P}"
  proof -
    have "(\<Union>f \<in> g ` set rs. fragmentRange f) = (\<Union>x \<in> set rs. {nat (fst x) ..< nat (fst x + fst (snd x))})" using fr by simp
    also have "\<dots> = nat ` (\<Union>x \<in> set rs. {fst x ..< fst x + fst (snd x)})"
    proof -
      have "{nat (fst x) ..< nat (fst x + fst (snd x))} = nat ` {fst x ..< fst x + fst (snd x)}" if "x \<in> set rs" for x
        using el [of "fst x" "fst (snd x)" "snd (snd x)"] that by (simp add: nat_interval)
      then show ?thesis by (simp add: image_UN)
    qed
    also have "\<dots> = nat ` {0 ..< int (length P)}" using tiles_cover [OF t] by (simp add: case_prod_beta)
    also have "\<dots> = {..< length P}" by (simp add: nat_interval lessThan_atLeast0)
    finally show ?thesis .
  qed
  obtain x rs' where x: "rs = x # rs'" using t P by (cases rs) auto
  obtain offset sz m where e: "x = (offset, sz, m)" by (cases x)
  have "offset = 0" using t unfolding x e by simp
  then show "g (hd rs) \<in> g ` set rs \<and> fr_offset (g (hd rs)) = 0" using g [of offset sz m] by (simp add: x e)
qed

lemma sent4_tiles: "sent4 d m \<Longrightarrow> tiles (sd_capacity d) (int (length (sd_payload d))) 0 (sd_ranges d)"
  and sent4_nonempty: "sent4 d m \<Longrightarrow> sd_payload d \<noteq> []"
  by (auto simp: sent4_def intro: ranges_tiles)

lemma sent6_tiles: "sent6 d m \<Longrightarrow> tiles (sd_capacity d) (int (length (sd_payload d))) 0 (sd_ranges d)"
  and sent6_nonempty: "sent6 d m \<Longrightarrow> sd_payload d \<noteq> []"
  by (auto simp: sent6_def intro: ranges_tiles)

lemma frag4_ranges:
  "fr_offset (frag4 d (offset, sz, m)) = nat offset \<and> fr_more (frag4 d (offset, sz, m)) = m \<and>
     fr_payload (frag4 d (offset, sz, m)) = take (nat sz) (drop (nat offset) (sd_payload d))"
  by simp

lemma frag6_ranges:
  "fr_offset (frag6 d (offset, sz, m)) = nat offset \<and> fr_more (frag6 d (offset, sz, m)) = m \<and>
     fr_payload (frag6 d (offset, sz, m)) = take (nat sz) (drop (nat offset) (sd_payload d))"
  by simp

lemmas laws4 = tile_laws [OF sent4_tiles sent4_nonempty frag4_ranges]
lemmas laws6 = tile_laws [OF sent6_tiles sent6_nonempty frag6_ranges]

lemma count_fragments: "finite (g ` set rs) \<and> (m = 0 \<or> card (g ` set rs) \<le> m)" if "m = 0 \<or> length rs \<le> m"
  using that card_image_le [of "set rs" g] card_length [of rs] by auto

lemma frag4_parsed:
  assumes "sent4 d n" "f \<in> frag4 d ` set (sd_ranges d)"
  shows "fragment_ok f \<and> fr_v6 f = False \<and> fr_ecn f = po_trafficClass (normalizedOptions (sd_options d)) AND 3 \<and> \<not> fr_df f"
proof -
  obtain r where r: "f = frag4 d r" "r \<in> set (sd_ranges d)" using assms(2) by blast
  show ?thesis using parseFragment_ok [OF parse_packet4 [OF assms(1) r(2)]] by (cases r) (simp add: r(1) del: head4.simps)
qed

lemma frag6_parsed:
  assumes "sent6 d n" "f \<in> frag6 d ` set (sd_ranges d)"
  shows "fragment_ok f \<and> fr_v6 f = True \<and> fr_ecn f = po_trafficClass (normalizedOptions (sd_options d)) AND 3 \<and> \<not> fr_df f"
proof -
  obtain r where r: "f = frag6 d r" "r \<in> set (sd_ranges d)" using assms(2) by blast
  obtain pf where "parseFragment False (packet6 d r) False = Some (Some pf)" "pf_fragment pf = frag6 d r" "\<not> pf_parameter pf"
    by (rule parse_packet6 [OF assms(1) r(2)])
  then have "fragment_ok (frag6 d r)" using parseFragment_ok by metis
  then show ?thesis by (cases r) (simp add: r(1) del: head6.simps)
qed

interpretation ipv4_fragments: fragmented sent4 sd_payload "\<lambda>d. frag4 d ` set (sd_ranges d)" False
  "\<lambda>d. po_trafficClass (normalizedOptions (sd_options d)) AND 3" "\<lambda>d. frag4 d (hd (sd_ranges d))"
proof unfold_locales
  fix d m f f'
  assume d: "sent4 d m"
  show "f \<in> frag4 d ` set (sd_ranges d) \<Longrightarrow> int (length (sd_payload d)) \<le> fr_maximum f"
    using d by (auto simp: sent4_def fragmentMaximumDatagram_def)
  show "length (sd_payload d) \<le> 65515" using d by (simp add: sent4_def)
  show "finite (frag4 d ` set (sd_ranges d)) \<and> (m = 0 \<or> card (frag4 d ` set (sd_ranges d)) \<le> m)"
    using d by (intro count_fragments) (simp add: sent4_def)
qed (rule laws4 frag4_parsed; assumption)+

interpretation ipv6_fragments: fragmented sent6 sd_payload "\<lambda>d. frag6 d ` set (sd_ranges d)" True
  "\<lambda>d. po_trafficClass (normalizedOptions (sd_options d)) AND 3" "\<lambda>d. frag6 d (hd (sd_ranges d))"
proof unfold_locales
  fix d m f f'
  assume d: "sent6 d m"
  show "f \<in> frag6 d ` set (sd_ranges d) \<Longrightarrow> int (length (sd_payload d)) \<le> fr_maximum f"
    using d by (auto simp: sent6_def fragmentMaximumDatagram_def)
  show "finite (frag6 d ` set (sd_ranges d)) \<and> (m = 0 \<or> card (frag6 d ` set (sd_ranges d)) \<le> m)"
    using d by (intro count_fragments) (simp add: sent6_def)
qed ((rule laws6 frag6_parsed; assumption) | simp)+

end
