(* ===== verification/Fragment_Roundtrip.thy ===== *)
theory Fragment_Roundtrip
  imports Fragment_Built
begin

text \<open>
  The source fragmenter and the reassembly of \<^verbatim>\<open>src/fragment.go\<close> against each other, with the packet
  parser of \<^verbatim>\<open>src/packet.go\<close> on the result: a datagram that is sent in fragments arrives.
\<close>

section \<open>Headers that are written over\<close>

lemma header4_rewritten:
  assumes "length s = 4" "length d = 4"
  shows "putAt16 ((putAt16 (header4 big b0 tc tot ident frag hop proto s d [] @ xs) 6 frag')[10 := 0, 11 := 0]) 10
      (checksum big (take 20 ((putAt16 (header4 big b0 tc tot ident frag hop proto s d [] @ xs) 6 frag')[10 := 0, 11 := 0]))) =
    header4 big b0 tc tot ident frag' hop proto s d [] @ xs" (is ?built)
    and "finishedHeader4 big (header4 big b0 tc tot ident frag hop proto s d []) n e False =
      header4 big b0 (tc OR e) (of_nat (20 + n)) ident 0 hop proto s d []" (is ?finished)
proof -
  obtain c where c: "header4 big b0 tc tot ident frag hop proto s d [] =
      [b0, tc] @ be_put16 tot @ be_put16 ident @ be_put16 frag @ [hop, proto] @ be_put16 c @ s @ d"
    by (simp add: header4_def Let_def)
  obtain s1 s2 s3 s4 where s: "s = [s1, s2, s3, s4]" using assms(1) by (auto simp: numeral_eq_Suc length_Suc_conv)
  obtain d1 d2 d3 d4 where d: "d = [d1, d2, d3, d4]" using assms(2) by (auto simp: numeral_eq_Suc length_Suc_conv)
  show ?built unfolding c by (simp add: header4_def Let_def s d be_put16_def putAt16_def)
  show ?finished unfolding c by (simp add: finishedHeader4_def header4_def Let_def s d be_put16_def putAt16_def)
qed

lemma header6_rewritten:
  fixes nxt :: u8 and sz :: u16
  shows "finishedHeader6 ([b0, b1] @ be_put16 low @ be_put16 sz @ [nxt, hop] @ s @ d) 6 proto n e =
     [b0, b1 OR push_bit 4 e] @ be_put16 low @ be_put16 (of_nat (length s + length d + n - 32)) @ [proto, hop] @ s @ d"
  by (simp add: finishedHeader6_def be_put16_def putAt16_def)

lemma ecn_kept:
  assumes "fragmentECN (push_bit (unat (tc AND 3)) 1) = Some e"
  shows "tc OR e = tc"
proof -
  have "unat (tc AND 3) < 4" using and_3_less_4 [of tc] by (simp add: word_less_nat_alt)
  then consider "unat (tc AND 3) = 0" | "unat (tc AND 3) = 1" | "unat (tc AND 3) = 2" | "unat (tc AND 3) = 3" by linarith
  then show ?thesis
  proof cases
    case 4
    then have "tc AND 3 = 3" by (simp add: word_unat_eq_iff)
    moreover have "e = 3" using assms unfolding 4 by (simp add: fragmentECN_def push_bit_eq_mult split: if_splits)
    ultimately show ?thesis by (metis or.commute word_ao_absorbs)
  qed (use assms in \<open>simp add: fragmentECN_def push_bit_eq_mult\<close>)+
qed

lemma ecn_kept6: "tc OR e = tc \<Longrightarrow> (push_bit 4 tc OR x) OR push_bit 4 e = push_bit 4 tc OR (x :: u8)"
proof -
  assume a: "tc OR e = tc"
  have "(push_bit 4 tc OR x) OR push_bit 4 e = push_bit 4 (tc OR e) OR x" by (simp add: push_bit_or ac_simps)
  then show ?thesis unfolding a .
qed

lemma copy_whole:
  assumes "length h = k" "length xs = length data"
  shows "copyAt (h @ xs) k data = Some (h @ data)"
  using assms by (simp add: copyAt_def)

lemma build_step:
  assumes m: "marshalIPFragmentHeader big (replicate (unat (fl_headerSize layout) + nat sz) 0) source target protocol
       (fl_identification layout) offset mf (fl_options layout) = Some (Some (h @ replicate (nat sz) 0))"
    and l: "length h = unat (fl_headerSize layout)" and b: "0 \<le> offset" "0 \<le> sz" "offset + sz \<le> int (length payload)"
    and rest: "buildFragments big source target protocol payload layout rs = Some (Some packets)"
  shows "buildFragments big source target protocol payload layout ((offset, sz, mf) # rs) =
    Some (Some ((h @ take (nat sz) (drop (nat offset) payload)) # packets))"
proof -
  have g: "go_slice payload (nat offset) (nat (offset + sz)) = Some (take (nat sz) (drop (nat offset) payload))"
    using b by (simp add: go_slice_def nat_add_distrib)
  have n: "length (take (nat sz) (drop (nat offset) payload)) = nat sz" using b by simp
  show ?thesis using m rest copy_whole [OF l, of "replicate (nat sz) 0" "take (nat sz) (drop (nat offset) payload)"] n by (simp add: g Let_def)
qed

lemma build4:
  assumes d: "sent4 d n" "sd_source d = be_put32 a" "sd_target d = be_put32 b"
    and layout: "fl_headerSize layout = 20" "fl_identification layout = sd_identification d" "fl_options layout = sd_options d"
    and rs: "set rs \<subseteq> set (sd_ranges d)"
  shows "buildFragments (sd_big d) (Addr4 a) (Addr4 b) (sd_protocol d) (sd_payload d) layout rs = Some (Some (map (packet4 d) rs))"
  using rs
proof (induction rs)
  case (Cons r rs)
  obtain offset sz m where e: "r = (offset, sz, m)" by (cases r)
  note t = sent4_tiles [OF d(1)]
  have r: "(offset, sz, m) \<in> set (sd_ranges d)" using Cons.prems e by simp
  note b = tiles_elem [OF t r]
  have small: "length (sd_payload d) \<le> 65515" using d by (simp add: sent4_def)
  have h: "length (head4 d r) = 20" using length_header4 d(2,3) by (simp add: e)
  have "marshalIPHeader (sd_big d) (replicate (20 + nat sz) 0) (Addr4 a) (Addr4 b) (sd_protocol d) (ucast (sd_identification d)) False (sd_options d) =
      Some (header4 (sd_big d) 0x45 (po_trafficClass (normalizedOptions (sd_options d))) (of_nat (20 + nat sz)) (ucast (sd_identification d))
        0 (po_hopLimit (normalizedOptions (sd_options d))) (sd_protocol d) (be_put32 a) (be_put32 b) [] @ replicate (nat sz) 0)"
    using b small by (simp add: marshalIPHeader_def Let_def ipHeaderSize_def isValidAddr_def)
  then have "marshalIPFragmentHeader (sd_big d) (replicate (20 + nat sz) 0) (Addr4 a) (Addr4 b) (sd_protocol d) (sd_identification d) offset m (sd_options d) =
      Some (Some (head4 d r @ replicate (nat sz) 0))"
    by (simp add: marshalIPFragmentHeader_def Let_def header4_rewritten(1) e d(2,3))
  from build_step [of "sd_big d" layout sz "Addr4 a" "Addr4 b" "sd_protocol d" offset m "head4 d r" "sd_payload d"] this show ?case
    using Cons b h layout by (simp add: e packet4_def del: head4.simps)
qed simp

lemma build6:
  assumes d: "sent6 d n" "sd_source d = bytes16 a" "sd_target d = bytes16 b" "drop_bit 32 a \<noteq> 0xffff" "drop_bit 32 b \<noteq> 0xffff"
    and layout: "fl_headerSize layout = 48" "fl_identification layout = sd_identification d" "fl_options layout = sd_options d"
    and rs: "set rs \<subseteq> set (sd_ranges d)"
  shows "buildFragments (sd_big d) (Addr6 a z) (Addr6 b z') (sd_protocol d) (sd_payload d) layout rs = Some (Some (map (packet6 d) rs))"
  using rs
proof (induction rs)
  case (Cons r rs)
  obtain offset sz m where e: "r = (offset, sz, m)" by (cases r)
  note t = sent6_tiles [OF d(1)]
  have r: "(offset, sz, m) \<in> set (sd_ranges d)" using Cons.prems e by simp
  note b = tiles_elem [OF t r]
  have small: "sz \<le> 65527" using d b by (simp add: sent6_def)
  have h: "length (head6 d r) = 40" "length (middle6 d r) = 8" using length_head6 d(2,3) by simp_all
  have rep: "replicate (48 + nat sz) (0 :: u8) = replicate 40 0 @ replicate 8 0 @ replicate (nat sz) 0"
    by (simp add: replicate_add [symmetric])
  have "marshalIPHeader (sd_big d) (replicate (48 + nat sz) 0) (Addr6 a z) (Addr6 b z') IPv6ExtensionHeaderFragment 0 False (sd_options d) =
      Some (head6 d r @ replicate 8 0 @ replicate (nat sz) 0)"
    unfolding rep using b small d by (simp add: marshalIPHeader_def Let_def ipHeaderSize_def isValidAddr_def e)
  then have "marshalIPFragmentHeader (sd_big d) (replicate (48 + nat sz) 0) (Addr6 a z) (Addr6 b z') (sd_protocol d) (sd_identification d) offset m (sd_options d) =
      Some (Some ((head6 d r @ middle6 d r) @ replicate (nat sz) 0))"
    using h(1) by (simp add: marshalIPFragmentHeader_def Let_def go_slice_def e)
  from build_step [of "sd_big d" layout sz "Addr6 a z" "Addr6 b z'" "sd_protocol d" offset m "head6 d r @ middle6 d r" "sd_payload d"] this show ?case
    using Cons b h layout by (simp add: e packet6_def del: head6.simps middle6.simps)
qed simp

section \<open>The round trip\<close>

text \<open>The fragments of received packets, none of which is reported as malformed or truncated.\<close>

definition readFragment :: "bool \<Rightarrow> bytes \<Rightarrow> ipPacketReassemblyFragment option" where
  "readFragment big packet =
     (case parseFragment big packet False of
        Some (Some pf) \<Rightarrow> if pf_parameter pf \<or> pf_truncated pf then None else Some (pf_fragment pf)
      | _ \<Rightarrow> None)"

definition readFragments :: "bool \<Rightarrow> bytes list \<Rightarrow> ipPacketReassemblyFragment list option" where
  "readFragments big packets = those (map (readFragment big) packets)"

lemma those_map: "(\<And>x. x \<in> set xs \<Longrightarrow> f x = Some (g x)) \<Longrightarrow> those (map f xs) = Some (map g xs)"
  by (induction xs) auto

lemma read_all:
  assumes r: "\<And>r. r \<in> R \<Longrightarrow> readFragment big (p r) = Some (f r)" and a: "set arrival = p ` R"
  obtains fs where "readFragments big arrival = Some fs" "set fs = f ` R"
proof
  have s: "readFragment big x = Some (the (readFragment big x))" if "x \<in> set arrival" for x using that r a by auto
  then show "readFragments big arrival = Some (map (\<lambda>x. the (readFragment big x)) arrival)"
    unfolding readFragments_def by (rule those_map)
  show "set (map (\<lambda>x. the (readFragment big x)) arrival) = f ` R" using r by (auto simp: a image_image)
qed

lemma reassembled4:
  assumes d: "sent4 d m" "sd_source d = be_put32 a" "sd_target d = be_put32 b" and arrival: "set arrival = packet4 d ` set (sd_ranges d)"
  shows "\<exists>fs r wire ip. readFragments (sd_big d) arrival = Some fs \<and>
    reassemble (sd_big d) m (rs_start (hd fs)) fs = Some (r, Completed wire) \<and> parseIPPacket (sd_big d) wire False = Some (Some ip) \<and>
    ip_source ip = Addr4 a \<and> ip_target ip = Addr4 b \<and> ip_protocol ip = sd_protocol d \<and> ip_parameter ip = None \<and>
    ip_hopLimit ip = po_hopLimit (normalizedOptions (sd_options d)) \<and> ip_trafficClass ip = po_trafficClass (normalizedOptions (sd_options d)) \<and>
    ip_payload ip = sd_payload d"
proof -
  let ?big = "sd_big d" and ?o = "normalizedOptions (sd_options d)" and ?s = "be_put32 a" and ?t = "be_put32 b"
  have "readFragment ?big (packet4 d r) = Some (frag4 d r)" if "r \<in> set (sd_ranges d)" for r
    unfolding readFragment_def parse_packet4 [OF d(1) that] by simp
  then obtain fs where fs: "readFragments ?big arrival = Some fs" "set fs = frag4 d ` set (sd_ranges d)"
    using arrival by (rule read_all)
  obtain r e where r: "reassemble ?big m (rs_start (hd fs)) fs = Some (r, Completed (finishedHeader ?big r e @ sd_payload d))"
    "fragmentECN (push_bit (unat (po_trafficClass ?o AND 3)) 1) = Some e" "rs_header r = fr_header (frag4 d (hd (sd_ranges d)))"
    "rs_total r = int (length (sd_payload d))" "rs_v6 r = False" "rs_maxDFSize r = 0"
    using ipv4_fragments.reassemble_all [OF d(1) fs(2)] by blast
  obtain offset sz mf where e: "hd (sd_ranges d) = (offset, sz, mf)" by (cases "hd (sd_ranges d)")
  have w: "finishedHeader ?big r e @ sd_payload d = header4 ?big 0x45 (po_trafficClass ?o) (of_nat (20 + length (sd_payload d)))
      (ucast (sd_identification d)) 0 (po_hopLimit ?o) (sd_protocol d) ?s ?t [] @ sd_payload d"
    using r(3-6) by (simp add: finishedHeader_def e header4_rewritten(2) ecn_kept [OF r(2)] d)
  have small: "20 + length (sd_payload d) < 65536" using d(1) by (simp add: sent4_def)
  from receive4_header [OF _ _ small disjI1 [OF refl] w] show ?thesis using fs(1) r(1) by simp
qed

lemma reassembled6:
  assumes d: "sent6 d m" "sd_source d = bytes16 a" "sd_target d = bytes16 b" "drop_bit 32 a \<noteq> 0xffff" "drop_bit 32 b \<noteq> 0xffff" "1027 \<le> sd_capacity d"
    and proto: "\<not> isTraversableIPv6ExtensionHeader (sd_protocol d)"
    and arrival: "set arrival = packet6 d ` set (sd_ranges d)"
  shows "\<exists>fs r wire ip. readFragments big arrival = Some fs \<and>
    reassemble big m (rs_start (hd fs)) fs = Some (r, Completed wire) \<and> parseIPPacket big wire False = Some (Some ip) \<and>
    ip_source ip = Addr6 a [] \<and> ip_target ip = Addr6 b [] \<and> ip_protocol ip = sd_protocol d \<and> ip_parameter ip = None \<and>
    ip_hopLimit ip = po_hopLimit (normalizedOptions (sd_options d)) \<and> ip_trafficClass ip = po_trafficClass (normalizedOptions (sd_options d)) \<and>
    ip_payload ip = sd_payload d"
proof -
  let ?o = "normalizedOptions (sd_options d)"
  have proto': "sd_protocol d \<noteq> IPv6ExtensionHeaderFragment" and
    up: "sd_protocol d \<notin> {IPv6ExtensionHeaderHopByHop, IPv6ExtensionHeaderDestination, IPv6ExtensionHeaderRouting, IPv6ExtensionHeaderFragment}"
    using proto by (auto simp: isTraversableIPv6ExtensionHeader_def)
  have "readFragment big (packet6 d r) = Some (frag6 d r)" if "r \<in> set (sd_ranges d)" for r
    by (rule parse_packet6 [OF d(1) that, of big False]) (use d(6) proto proto' in \<open>simp add: readFragment_def\<close>)
  then obtain fs where fs: "readFragments big arrival = Some fs" "set fs = frag6 d ` set (sd_ranges d)"
    using arrival by (rule read_all)
  obtain r e where r: "reassemble big m (rs_start (hd fs)) fs = Some (r, Completed (finishedHeader big r e @ sd_payload d))"
    "fragmentECN (push_bit (unat (po_trafficClass ?o AND 3)) 1) = Some e" "rs_header r = fr_header (frag6 d (hd (sd_ranges d)))"
    "rs_total r = int (length (sd_payload d))" "rs_v6 r = True" "rs_nextHeader r = fr_nextHeader (frag6 d (hd (sd_ranges d)))"
    "rs_protocol r = fr_protocol (frag6 d (hd (sd_ranges d)))"
    using ipv6_fragments.reassemble_all [OF d(1) fs(2)] by blast
  obtain offset sz mf where e: "hd (sd_ranges d) = (offset, sz, mf)" by (cases "hd (sd_ranges d)")
  have f: "rs_nextHeader r = 6" "rs_protocol r = sd_protocol d" using r(6,7) by (simp_all add: e)
  have w: "finishedHeader big r e @ sd_payload d = [0x60 OR drop_bit 4 (po_trafficClass ?o),
      push_bit 4 (po_trafficClass ?o) OR ucast (drop_bit 16 (po_flowLabel ?o))] @ be_put16 (ucast (po_flowLabel ?o)) @
      be_put16 (of_nat (length (sd_payload d))) @ [sd_protocol d, po_hopLimit ?o] @ bytes16 a @ bytes16 b @ sd_payload d"
    unfolding finishedHeader_def r(3-5) f using header6_rewritten ecn_kept6 [OF ecn_kept [OF r(2)]]
    by (simp add: e Let_def d)
  have small: "length (sd_payload d) < 65536" using d(1) by (simp add: sent6_def)
  from receive6_header [OF small normalized_flow d(4,5) up w] show ?thesis using fs(1) r(1) by fastforce
qed

lemma layout_fields:
  assumes l: "ipFragmentLayoutForMTU ids source target (int n) fragmentation opts mtu = (ids', Inr layout)"
    and u: "unmapAddr source = source" "unmapAddr target = target"
  defines "h \<equiv> if is6 source then 48 else 20"
  shows "isValidAddr source \<and> isValidAddr target \<and> is4 source = is4 target \<and> n \<le> (if is4 source then 65515 else 65535)"
    and "fl_options layout = opts" and "unat (fl_payloadSize layout) = n" and "unat (fl_headerSize layout) = h"
    and "int (unat (fl_fragmentCapacity layout)) = mtu - int h" and "8 \<le> mtu - int h" and "mtu - int h < int n" and "mtu - int h \<le> 65527"
    and "newFragmentRangeCursor (int n) (mtu - int h) \<noteq> None"
proof -
  define base where "base = ipHeaderSize source target (int n)"
  define fh where "fh = (if is6 source then base + 8 else base)"
  have ne: "base \<noteq> 0" "\<not> int base + int n \<le> mtu"
    and c: "newFragmentRangeCursor (int n) (mtu - int fh) \<noteq> None"
    and f: "fl_options layout = opts" "fl_payloadSize layout = of_int (int n)" "fl_headerSize layout = of_nat fh"
      "newFragmentRangeCursor (int n) (mtu - int fh) = Some c \<Longrightarrow> fl_fragmentCapacity layout = of_int (rc_capacity c)" for c
    using l by (auto simp: ipFragmentLayoutForMTU_def Let_def base_def fh_def split: if_splits option.splits)
  have ok: "isValidAddr source \<and> isValidAddr target \<and> is4 source = is4 target \<and> n \<le> (if is4 source then 65515 else 65535)"
    and b: "base = (if is4 source then 20 else 40)"
    using ne(1) u by (auto simp: base_def ipHeaderSize_def Let_def split: if_splits)
  then show "isValidAddr source \<and> isValidAddr target \<and> is4 source = is4 target \<and> n \<le> (if is4 source then 65515 else 65535)" by blast
  have h: "fh = h" using ok b by (cases source) (auto simp: fh_def h_def isValidAddr_def)
  show "fl_options layout = opts" by (rule f(1))
  show "unat (fl_payloadSize layout) = n" using ok f(2) by (simp add: unat_total split: if_splits)
  show "unat (fl_headerSize layout) = h" using f(3) unfolding h h_def by (simp split: if_splits)
  obtain cur where cur: "newFragmentRangeCursor (int n) (mtu - int h) = Some cur" using c h by auto
  then have cap: "rc_capacity cur = mtu - int h" "8 \<le> mtu - int h"
    by (auto simp: newFragmentRangeCursor_def Let_def split: if_splits)
  show "8 \<le> mtu - int h" by (rule cap(2))
  show lt: "mtu - int h < int n" using ne(2) b h ok by (cases source) (auto simp: h_def isValidAddr_def)
  show "mtu - int h \<le> 65527" using ne(2) b ok by (cases source) (auto simp: h_def isValidAddr_def)
  have small: "mtu - int h < 65536" using lt ok by (simp split: if_splits)
  have "uint (word_of_int (mtu - int h) :: u16) = mtu - int h"
    using cap(2) small unfolding uint_word_of_int by (intro mod_pos_pos_trivial) simp_all
  then show "int (unat (fl_fragmentCapacity layout)) = mtu - int h"
    using f(4) [of cur] cur cap h by simp
  show "newFragmentRangeCursor (int n) (mtu - int h) \<noteq> None" using c h by simp
qed

lemma build_packets:
  assumes "length payload = unat (fl_payloadSize layout)" "newFragmentRangeCursor (int (length payload)) (int (unat (fl_fragmentCapacity layout))) \<noteq> None"
    and d: "sd_payload d = payload" "sd_capacity d = int (unat (fl_fragmentCapacity layout))"
  shows "buildIPFragmentPackets big source target protocol payload layout = buildFragments big source target protocol payload layout (sd_ranges d)"
proof -
  obtain c where c: "newFragmentRangeCursor (int (length payload)) (int (unat (fl_fragmentCapacity layout))) = Some c" using assms(2) by auto
  obtain rs where rs: "cursorRanges (Suc (length payload)) c = Some rs" using cursor_ranges [OF c, of "Suc (length payload)"] by auto
  have "sd_ranges d = rs" unfolding sd_ranges_def d c by (simp add: rs del: cursorRanges.simps)
  then show ?thesis unfolding buildIPFragmentPackets_def assms(1) [symmetric] c by (simp add: rs del: cursorRanges.simps)
qed

definition arrives :: "bool \<Rightarrow> addr \<Rightarrow> addr \<Rightarrow> u8 \<Rightarrow> ipPacketOptions \<Rightarrow> bytes \<Rightarrow> int \<Rightarrow> bytes list \<Rightarrow> bool" where
  "arrives big source target protocol opts payload mtu packets \<longleftrightarrow>
    (\<forall>packet \<in> set packets. int (length packet) \<le> mtu) \<and>
    (\<forall>arrival m. set arrival = set packets \<and> (m = 0 \<or> length packets \<le> m) \<longrightarrow>
       (\<exists>fs r wire ip. readFragments big arrival = Some fs \<and>
          reassemble big m (rs_start (hd fs)) fs = Some (r, Completed wire) \<and> parseIPPacket big wire False = Some (Some ip) \<and>
          ip_source ip = source \<and> ip_target ip = target \<and> ip_protocol ip = protocol \<and> ip_parameter ip = None \<and>
          ip_hopLimit ip = po_hopLimit (normalizedOptions opts) \<and> ip_trafficClass ip = po_trafficClass (normalizedOptions opts) \<and>
          ip_payload ip = payload))"

lemma build_ranges:
  assumes l: "ipFragmentLayoutForMTU ids source target (int (length payload)) fragmentation opts mtu = (ids', Inr layout)"
    and u: "unmapAddr source = source" "unmapAddr target = target" and d: "sd_payload d = payload" "sd_capacity d = mtu - (if is6 source then 48 else 20)"
  shows "buildIPFragmentPackets big source target protocol payload layout = buildFragments big source target protocol payload layout (sd_ranges d)"
proof -
  have e: "int (if is6 source then 48 else 20) = (if is6 source then 48 else 20)" by simp
  note f = layout_fields [OF l u, unfolded e]
  show ?thesis by (rule build_packets) (simp_all only: f(3,5,9) d not_False_eq_True)
qed

lemma arrives4:
  assumes l: "ipFragmentLayoutForMTU ids source target (int (length payload)) fragmentation opts mtu = (ids', Inr layout)"
    and ab: "source = Addr4 a" "target = Addr4 b"
  shows "\<exists>packets. buildIPFragmentPackets big source target protocol payload layout = Some (Some packets) \<and>
    arrives big source target protocol opts payload mtu packets"
proof -
  have u: "unmapAddr source = source" "unmapAddr target = target" "\<not> is6 source" by (simp_all add: ab)
  note f = layout_fields [OF l u(1,2), unfolded if_not_P [OF u(3)]] and build = build_ranges [OF l u(1,2), unfolded if_not_P [OF u(3)]]
  have f4: "fl_headerSize layout = 20" using f(4) by (simp add: word_unat_eq_iff)
  define d where "d = \<lparr>sd_big = big, sd_source = be_put32 a, sd_target = be_put32 b, sd_protocol = protocol,
    sd_identification = fl_identification layout, sd_capacity = mtu - 20, sd_options = opts, sd_payload = payload\<rparr>"
  have d: "sent4 d m" if "m = 0 \<or> length (sd_ranges d) \<le> m" for m
    using f(1,6,7) that ab by (simp add: sent4_def d_def)
  have dd: "sd_big d = big" "sd_source d = be_put32 a" "sd_target d = be_put32 b" "sd_protocol d = protocol" "sd_payload d = payload"
    "sd_identification d = fl_identification layout" "sd_options d = opts" "sd_capacity d = mtu - 20"
    by (simp_all add: d_def)
  have opts: "fl_options layout = sd_options d" using f(2) dd(7) by simp
  have "buildIPFragmentPackets big source target protocol payload layout = Some (Some (map (packet4 d) (sd_ranges d)))"
    unfolding build [OF dd(5,8)] unfolding ab
    by (rule build4 [OF d [of 0, simplified] dd(2,3) f4 dd(6) [symmetric] opts subset_refl, unfolded dd])
  moreover have "int (length (packet4 d r)) \<le> mtu" if r: "r \<in> set (sd_ranges d)" for r
  proof -
    obtain offset sz m where e: "r = (offset, sz, m)" by (cases r)
    note t = sent4_tiles [OF d [of 0, simplified]]
    have "length (head4 d r) = 20" using length_header4 by (simp add: e dd)
    then show ?thesis using tiles_elem [OF t r [unfolded e]] length_chunk [OF t r [unfolded e]]
      by (simp add: packet4_def e dd del: head4.simps chunk.simps)
  qed
  moreover note reassembled4 [OF d dd(2,3), unfolded dd, folded ab]
  ultimately show ?thesis by (intro exI [of _ "map (packet4 d) (sd_ranges d)"]) (auto simp: arrives_def)
qed

lemma arrives6:
  assumes l: "ipFragmentLayoutForMTU ids source target (int (length payload)) fragmentation opts mtu = (ids', Inr layout)"
    and ab: "source = Addr6 a []" "target = Addr6 b []" and u: "unmapAddr source = source" "unmapAddr target = target"
    and v6: "1280 \<le> mtu" "\<not> isTraversableIPv6ExtensionHeader protocol"
  shows "\<exists>packets. buildIPFragmentPackets big source target protocol payload layout = Some (Some packets) \<and>
    arrives big source target protocol opts payload mtu packets"
proof -
  have six: "is6 source" by (simp add: ab)
  note f = layout_fields [OF l u, unfolded if_P [OF six]] and build = build_ranges [OF l u, unfolded if_P [OF six]]
  have f6: "fl_headerSize layout = 48" using f(4) by (simp add: word_unat_eq_iff)
  have map: "drop_bit 32 a \<noteq> 0xffff" "drop_bit 32 b \<noteq> 0xffff" using u(1,2) ab by (auto split: if_splits)
  define d where "d = \<lparr>sd_big = big, sd_source = bytes16 a, sd_target = bytes16 b, sd_protocol = protocol,
    sd_identification = fl_identification layout, sd_capacity = mtu - 48, sd_options = opts, sd_payload = payload\<rparr>"
  have d: "sent6 d m" if "m = 0 \<or> length (sd_ranges d) \<le> m" for m
    using f(1,6,7,8) that ab by (simp add: sent6_def d_def)
  have dd: "sd_big d = big" "sd_source d = bytes16 a" "sd_target d = bytes16 b" "sd_protocol d = protocol" "sd_payload d = payload"
    "sd_identification d = fl_identification layout" "sd_options d = opts" "sd_capacity d = mtu - 48"
    by (simp_all add: d_def)
  have opts: "fl_options layout = sd_options d" using f(2) dd(7) by simp
  have "buildIPFragmentPackets big source target protocol payload layout = Some (Some (map (packet6 d) (sd_ranges d)))"
    unfolding build [OF dd(5,8)] unfolding ab
    by (rule build6 [OF d [of 0, simplified] dd(2,3) map f6 dd(6) [symmetric] opts subset_refl, unfolded dd])
  moreover have "int (length (packet6 d r)) \<le> mtu" if r: "r \<in> set (sd_ranges d)" for r
  proof -
    obtain offset sz m where e: "r = (offset, sz, m)" by (cases r)
    note t = sent6_tiles [OF d [of 0, simplified]]
    have "length (head6 d r) = 40" "length (middle6 d r) = 8" using length_head6 by (simp_all add: dd)
    then show ?thesis using tiles_elem [OF t r [unfolded e]] length_chunk [OF t r [unfolded e]]
      by (simp add: packet6_def e dd del: head6.simps middle6.simps chunk.simps)
  qed
  moreover have "1027 \<le> sd_capacity d" "\<not> isTraversableIPv6ExtensionHeader (sd_protocol d)" using v6 by (simp_all add: dd)
  note reassembled6 [OF d dd(2,3) map this, where big = big, unfolded dd, folded ab]
  ultimately show ?thesis by (intro exI [of _ "map (packet6 d) (sd_ranges d)"]) (auto simp: arrives_def)
qed

text \<open>
  C2: A datagram that is sent in fragments arrives. Whenever the source may fragment and the MTU leaves
  room (\<open>ipFragmentLayoutForMTU\<close>), \<open>buildIPFragmentPackets\<close> succeeds, no packet exceeds the MTU, and a
  receiver that gets the packets in any order, some of them more than once, completes the reassembly and
  returns a packet that \<open>parseIPPacket\<close> accepts with the sender's addresses, protocol, hop limit,
  traffic class and payload.
\<close>

theorem fragmented_datagram_arrives:
  assumes l: "ipFragmentLayoutForMTU ids source target (int (length payload)) fragmentation opts mtu = (ids', Inr layout)"
    and u: "unmapAddr source = source" "unmapAddr target = target" "addrZone source = []" "addrZone target = []"
    and v6: "is6 source \<longrightarrow> 1280 \<le> mtu \<and> \<not> isTraversableIPv6ExtensionHeader protocol"
  shows "\<exists>packets. buildIPFragmentPackets big source target protocol payload layout = Some (Some packets) \<and>
    (\<forall>packet \<in> set packets. int (length packet) \<le> mtu) \<and>
    (\<forall>arrival m. set arrival = set packets \<and> (m = 0 \<or> length packets \<le> m) \<longrightarrow>
       (\<exists>fs r wire ip. readFragments big arrival = Some fs \<and>
          reassemble big m (rs_start (hd fs)) fs = Some (r, Completed wire) \<and> parseIPPacket big wire False = Some (Some ip) \<and>
          ip_source ip = source \<and> ip_target ip = target \<and> ip_protocol ip = protocol \<and> ip_parameter ip = None \<and>
          ip_hopLimit ip = po_hopLimit (normalizedOptions opts) \<and> ip_trafficClass ip = po_trafficClass (normalizedOptions opts) \<and>
          ip_payload ip = payload))"
proof (cases "is4 source")
  case True
  then obtain a b where "source = Addr4 a" "target = Addr4 b"
    using layout_fields(1) [OF l u(1,2)] by (cases source; cases target) auto
  from arrives4 [OF l this] show ?thesis unfolding arrives_def .
next
  case False
  then obtain a b where ab: "source = Addr6 a []" "target = Addr6 b []"
    using layout_fields(1) [OF l u(1,2)] u(3,4) by (cases source; cases target) (auto simp: isValidAddr_def)
  then have "1280 \<le> mtu" "\<not> isTraversableIPv6ExtensionHeader protocol" using v6 by simp_all
  from arrives6 [OF l ab u(1,2) this] show ?thesis unfolding arrives_def .
qed

theorem fragmented_datagram_arrives_witness:
  "\<exists>layout packets fs r wire ip.
     snd (ipFragmentLayoutForMTU \<lparr>id_ipv4ID = 0xffff, id_ipv6FragmentID = 0\<rparr> (Addr4 0x0a000001) (Addr4 0x0a000002) 24
       \<lparr>sf_allow = True, sf_dontFragment = False\<rparr>
       \<lparr>po_hopLimit = 0, po_trafficClass = 0, po_flowLabel = 0, po_hopLimitSet = False, po_trafficClassSet = False, po_flowLabelSet = False\<rparr> 36) =
       Inr layout \<and>
     buildIPFragmentPackets False (Addr4 0x0a000001) (Addr4 0x0a000002) 17 (replicate 24 7) layout = Some (Some packets) \<and>
     readFragments False (rev packets @ packets) = Some fs \<and>
     reassemble False 0 (rs_start (hd fs)) fs = Some (r, Completed wire) \<and> parseIPPacket False wire False = Some (Some ip) \<and>
     ip_hopLimit ip = 64 \<and> ip_payload ip = replicate 24 7"
proof -
  let ?ids = "\<lparr>id_ipv4ID = 0xffff, id_ipv6FragmentID = 0\<rparr>" and ?s = "Addr4 0x0a000001" and ?t = "Addr4 0x0a000002"
  let ?f = "\<lparr>sf_allow = True, sf_dontFragment = False\<rparr>" and ?p = "replicate 24 7 :: bytes"
  let ?o = "\<lparr>po_hopLimit = 0, po_trafficClass = 0, po_flowLabel = 0, po_hopLimitSet = False, po_trafficClassSet = False, po_flowLabelSet = False\<rparr>"
  obtain ids' layout where l: "ipFragmentLayoutForMTU ?ids ?s ?t (int (length ?p)) ?f ?o 36 = (ids', Inr layout)"
    by (simp add: ipFragmentLayoutForMTU_def Let_def ipHeaderSize_def isValidAddr_def newFragmentRangeCursor_def)
  have u: "unmapAddr ?s = ?s" "unmapAddr ?t = ?t" "addrZone ?s = []" "addrZone ?t = []" by simp_all
  have v: "is6 ?s \<longrightarrow> 1280 \<le> (36 :: int) \<and> \<not> isTraversableIPv6ExtensionHeader 17" by simp
  have r: "snd (ipFragmentLayoutForMTU ?ids ?s ?t 24 ?f ?o 36) = Inr layout" "po_hopLimit (normalizedOptions ?o) = 64"
    using l by (simp, simp add: normalizedOptions_def)
  from fragmented_datagram_arrives [OF l u v, of False] show ?thesis
  proof (elim exE conjE, goal_cases)
    case (1 packets)
    from 1(3) have "\<exists>fs r wire ip. readFragments False (rev packets @ packets) = Some fs \<and>
       reassemble False 0 (rs_start (hd fs)) fs = Some (r, Completed wire) \<and> parseIPPacket False wire False = Some (Some ip) \<and>
       ip_hopLimit ip = 64 \<and> ip_payload ip = ?p"
      unfolding r(2) by (elim allE [of _ "rev packets @ packets"] allE [of _ 0]) auto
    then show ?case using r(1) 1(1) by blast
  qed
qed

end
