(* ===== verification/Netip_Prefix.thy ===== *)
theory Netip_Prefix
  imports Netip
begin

text \<open>
  What \<open>config.go\<close> uses of \<open>netip.Prefix\<close> and of the address classes of \<open>net/netip\<close>. A prefix is an
  address without its zone and a length, which is \<open>-1\<close> in a prefix that is not valid. Go programs
  build prefixes with \<open>PrefixFrom\<close> only, which \<open>prefix_ok\<close> states.
\<close>

fun bitLen :: "addr \<Rightarrow> int" where
  "bitLen (Addr4 _) = 32"
| "bitLen (Addr6 _ _) = 128"
| "bitLen AddrZero = 0"

fun withoutZone :: "addr \<Rightarrow> addr" where
  "withoutZone (Addr6 w _) = Addr6 w []"
| "withoutZone a = a"

record prefix =
  px_addr :: addr
  px_bits :: int

definition prefixFrom :: "addr \<Rightarrow> int \<Rightarrow> prefix" where
  "prefixFrom ip bits =
     \<lparr>px_addr = withoutZone ip, px_bits = (if isValidAddr ip \<and> bits \<ge> 0 \<and> bits \<le> bitLen ip then bits else -1)\<rparr>"

definition prefixIsValid :: "prefix \<Rightarrow> bool" where
  "prefixIsValid p \<longleftrightarrow> px_bits p \<ge> 0"

definition clearBits :: "nat \<Rightarrow> 'a::len word \<Rightarrow> 'a word" where
  "clearBits n w = push_bit n (drop_bit n w)"

fun addrPrefix :: "addr \<Rightarrow> int \<Rightarrow> prefix option" where
  "addrPrefix AddrZero b = (if b < 0 then None else Some \<lparr>px_addr = AddrZero, px_bits = -1\<rparr>)"
| "addrPrefix (Addr4 w) b = (if b < 0 \<or> b > 32 then None else Some (prefixFrom (Addr4 (clearBits (nat (32 - b)) w)) b))"
| "addrPrefix (Addr6 w z) b = (if b < 0 \<or> b > 128 then None else Some (prefixFrom (Addr6 (clearBits (nat (128 - b)) w) []) b))"

definition prefixMasked :: "prefix \<Rightarrow> prefix" where
  "prefixMasked p = (case addrPrefix (px_addr p) (px_bits p) of None \<Rightarrow> \<lparr>px_addr = AddrZero, px_bits = -1\<rparr> | Some m \<Rightarrow> m)"

fun containsBits :: "addr \<Rightarrow> int \<Rightarrow> addr \<Rightarrow> bool" where
  "containsBits (Addr4 w) bits (Addr4 v) = (drop_bit (nat (32 - bits)) (w XOR v) = 0)"
| "containsBits (Addr6 w _) bits (Addr6 v _) = (drop_bit (nat (128 - bits)) (w XOR v) = 0)"
| "containsBits _ _ _ = False"

definition prefixContains :: "prefix \<Rightarrow> addr \<Rightarrow> bool" where
  "prefixContains p ip \<longleftrightarrow> prefixIsValid p \<and> addrZone ip = [] \<and> containsBits (px_addr p) (px_bits p) ip"

fun isLoopback :: "addr \<Rightarrow> bool" where
  "isLoopback (Addr4 w) = (drop_bit 24 w = 127)"
| "isLoopback (Addr6 w _) = (if drop_bit 32 w = 0xffff then drop_bit 24 (ucast w :: u32) = 127 else w = 1)"
| "isLoopback AddrZero = False"

fun isLinkLocalUnicast :: "addr \<Rightarrow> bool" where
  "isLinkLocalUnicast (Addr4 w) = (drop_bit 16 w = 0xa9fe)"
| "isLinkLocalUnicast (Addr6 w _) =
     (if drop_bit 32 w = 0xffff then drop_bit 16 (ucast w :: u32) = 0xa9fe else drop_bit 118 w = 0x3fa)"
| "isLinkLocalUnicast AddrZero = False"

definition broadcast4 :: addr where
  "broadcast4 = Addr4 0xffffffff"

text \<open>The values that \<open>PrefixFrom\<close> returns.\<close>

definition prefix_ok :: "prefix \<Rightarrow> bool" where
  "prefix_ok p \<longleftrightarrow> addrZone (px_addr p) = [] \<and> px_bits p \<ge> -1 \<and> px_bits p \<le> bitLen (px_addr p) \<and>
     (px_bits p \<ge> 0 \<longrightarrow> isValidAddr (px_addr p))"

lemma withoutZone_simps [simp]:
  "addrZone (withoutZone a) = []" "bitLen (withoutZone a) = bitLen a" "isValidAddr (withoutZone a) = isValidAddr a"
  "is4 (withoutZone a) = is4 a" "is6 (withoutZone a) = is6 a"
  by (cases a; simp add: isValidAddr_def)+

lemma bitLen_ge0 [simp]: "0 \<le> bitLen a"
  by (cases a) auto

lemma prefixFrom_ok [simp]: "prefix_ok (prefixFrom a b)"
  by (cases a) (auto simp: prefix_ok_def prefixFrom_def isValidAddr_def)

lemma zone_free [simp]: "addrZone a = [] \<Longrightarrow> withoutZone a = a"
  by (cases a) auto

lemma addr_kinds: "isValidAddr a \<longleftrightarrow> is4 a \<or> is6 a"
  by (cases a) (auto simp: isValidAddr_def)

lemma clearBits_simps [simp]:
  fixes w :: "'a::len word"
  shows "clearBits n (clearBits n w) = clearBits n w" "drop_bit n (clearBits n w) = drop_bit n w"
  by (rule bit_word_eqI, auto simp: clearBits_def bit_simps dest: bit_imp_le_length)+

end
