(* ===== verification/Network_State.thy ===== *)
theory Network_State
  imports Netip_Prefix Socket_Defaults Tcp_Buffers Tcp_Timer Ip_Options "HOL-Library.AList"
begin

text \<open>
  \<open>config.go\<close>: the immutable snapshot of addresses, routes and defaults (\<open>networkState\<close>), its
  construction from a configuration (\<open>buildNetworkState\<close>), routing and RFC 6724 source selection,
  with the admission tests of \<open>stack.go\<close> that read it. The set of local addresses and the set of
  broadcast addresses are sets; the address properties are an association list with distinct keys.
  The registry of congestion control factories and the test of a factory are arguments. \<open>None\<close> is a panic (\<open>As4\<close> of an address that is not IPv4, or an index out of range).
\<close>

section \<open>Socket defaults\<close>

datatype configError =
    BadMTU | NegativeConnections | NameAndFactory | BadFactory | UnknownCongestion | NegativeTCPDefault
  | TCPFlowLabel | BufferMaximum | WindowLimit | NegativeKeepAlive
  | BadBufferOrHops | BadDiscovery | FlowLabelBits | UDPDefaults configError | IPDefaults configError
  | BadLocalAddress | BadLocalPrefix | BroadcastLocal | BadPropertiesKey | NonlocalProperties
  | TemporaryIPv4 | ConflictingProperties | NoLocalAddress | BadRouteDestination | BadRouteSource
  | NonlocalRouteSource | RouteFamily | IPv6MTU

definition tcpReceiveCapacity :: int where "tcpReceiveCapacity = 1048576"
definition tcpMaximumReceiveCapacity :: int where "tcpMaximumReceiveCapacity = 16777216"
definition tcpMaximumSendCapacity :: int where "tcpMaximumSendCapacity = 16777216"
definition tcpAcceptQueue :: int where "tcpAcceptQueue = 128"
definition tcpSYNBacklog :: int where "tcpSYNBacklog = 256"
definition tcpDefaultKeepAliveIdle :: int where "tcpDefaultKeepAliveIdle = 7200000000000"
definition tcpDefaultKeepAliveInterval :: int where "tcpDefaultKeepAliveInterval = 75000000000"
definition tcpDefaultKeepAliveCount :: int where "tcpDefaultKeepAliveCount = 9"
definition udpDefaultReceiveCapacity :: int where "udpDefaultReceiveCapacity = 4194304"
definition udpDatagramMetadataSize :: int where "udpDatagramMetadataSize = 96"
definition ipDefaultReceiveCapacity :: int where "ipDefaultReceiveCapacity = 4194304"
definition ipDatagramMetadataSize :: int where "ipDatagramMetadataSize = 96"

text \<open>\<open>PathMTUDiscovery.valid\<close>: the values are 0 to 5.\<close>

definition pathMTUDiscoveryValid :: "int \<Rightarrow> bool" where
  "pathMTUDiscoveryValid mode \<longleftrightarrow> 0 \<le> mode \<and> mode \<le> 5"

definition orDefault :: "int \<Rightarrow> int \<Rightarrow> int" where
  "orDefault value fallback = (if value = 0 then fallback else value)"

definition selectFactory ::
  "(string \<Rightarrow> nat option) \<Rightarrow> (nat \<Rightarrow> bool) \<Rightarrow> tcpSocketDefaults \<Rightarrow> configError + tcpSocketDefaults" where
  "selectFactory registry valid value =
     (case td_congestionFactory value of
        Some factory \<Rightarrow>
          if td_congestionControl value \<noteq> [] then Inl NameAndFactory
          else if \<not> valid factory then Inl BadFactory
          else Inr value
      | None \<Rightarrow>
          let name = (if td_congestionControl value = [] then ''cubic'' else td_congestionControl value)
          in case registry name of
               None \<Rightarrow> Inl UnknownCongestion
             | Some factory \<Rightarrow> Inr (value\<lparr>td_congestionControl := [], td_congestionFactory := Some factory\<rparr>))"

definition keepAliveDefaults :: "keepAliveConfig \<Rightarrow> keepAliveConfig" where
  "keepAliveDefaults k =
     \<lparr>ka_idle = orDefault (ka_idle k) tcpDefaultKeepAliveIdle, ka_interval = orDefault (ka_interval k) tcpDefaultKeepAliveInterval,
      ka_count = orDefault (ka_count k) tcpDefaultKeepAliveCount\<rparr>"

definition normalizeTCPSocketDefaults ::
  "(string \<Rightarrow> nat option) \<Rightarrow> (nat \<Rightarrow> bool) \<Rightarrow> tcpSocketDefaults \<Rightarrow> configError + tcpSocketDefaults" where
  "normalizeTCPSocketDefaults registry valid value =
     (case selectFactory registry valid value of
        Inl e \<Rightarrow> Inl e
      | Inr value \<Rightarrow>
          if td_receiveBuffer value < 0 \<or> td_maximumReceiveBuffer value < 0 \<or> td_sendBuffer value < 0 \<or> td_maximumSendBuffer value < 0 \<or>
             td_acceptQueue value < 0 \<or> td_synBacklog value < 0 \<or> td_idleTimeout value < 0 \<or> td_userTimeout value < 0
          then Inl NegativeTCPDefault
          else if td_flowLabel value > ipv6MaximumFlowLabel then Inl TCPFlowLabel
          else
            let value = value\<lparr>td_receiveBuffer := orDefault (td_receiveBuffer value) tcpReceiveCapacity,
                  td_maximumReceiveBuffer := orDefault (td_maximumReceiveBuffer value) tcpMaximumReceiveCapacity,
                  td_sendBuffer := orDefault (td_sendBuffer value) (int tcpSendCapacity),
                  td_maximumSendBuffer := orDefault (td_maximumSendBuffer value) tcpMaximumSendCapacity\<rparr>
            in if td_maximumReceiveBuffer value < td_receiveBuffer value \<or> td_maximumSendBuffer value < td_sendBuffer value
               then Inl BufferMaximum
               else if td_maximumReceiveBuffer value > uint tcpMaximumScaledWindow then Inl WindowLimit
               else
                 let value = value\<lparr>td_acceptQueue := orDefault (td_acceptQueue value) tcpAcceptQueue,
                       td_synBacklog := orDefault (td_synBacklog value) tcpSYNBacklog,
                       td_keepAliveConfig := keepAliveDefaults (td_keepAliveConfig value)\<rparr>;
                     k = td_keepAliveConfig value
                 in if ka_idle k < 0 \<or> ka_interval k < 0 \<or> ka_count k < 0 then Inl NegativeKeepAlive
                    else Inr (value\<lparr>td_trafficClass := td_trafficClass value AND 0xfc\<rparr>))"

definition normalizeDatagramSocketDefaults ::
  "datagramSocketDefaults \<Rightarrow> int \<Rightarrow> int \<Rightarrow> configError + datagramSocketDefaults" where
  "normalizeDatagramSocketDefaults value defaultReceiveBuffer minimumReceiveBuffer =
     (if dd_receiveBuffer value < 0 \<or> dd_hopLimit value < 0 \<or> dd_hopLimit value > 255 \<or>
         dd_multicastHopLimit value < 0 \<or> dd_multicastHopLimit value > 255 then Inl BadBufferOrHops
      else if \<not> pathMTUDiscoveryValid (dd_pathMTUDiscovery value) then Inl BadDiscovery
      else if dd_flowLabel value > ipv6MaximumFlowLabel then Inl FlowLabelBits
      else
        Inr (value\<lparr>dd_receiveBuffer := (if dd_receiveBuffer value = 0 then defaultReceiveBuffer
                      else if dd_receiveBuffer value < minimumReceiveBuffer then minimumReceiveBuffer else dd_receiveBuffer value),
               dd_hopLimit := orDefault (dd_hopLimit value) 64,
               dd_multicastHopLimit := orDefault (dd_multicastHopLimit value) 1\<rparr>))"

definition normalizeUDPSocketDefaults :: "datagramSocketDefaults \<Rightarrow> configError + datagramSocketDefaults" where
  "normalizeUDPSocketDefaults value = normalizeDatagramSocketDefaults value udpDefaultReceiveCapacity udpDatagramMetadataSize"

definition normalizeIPSocketDefaults :: "ipSocketDefaults \<Rightarrow> configError + ipSocketDefaults" where
  "normalizeIPSocketDefaults value =
     (case normalizeDatagramSocketDefaults (id_datagram value) ipDefaultReceiveCapacity ipDatagramMetadataSize of
        Inl e \<Rightarrow> Inl e
      | Inr defaults \<Rightarrow> Inr (value\<lparr>id_datagram := defaults\<rparr>))"

section \<open>Configuration and snapshot\<close>

record addressProperties =
  pr_deprecated :: bool
  pr_temporary :: bool

record route =
  ro_destination :: prefix
  ro_source :: addr
  ro_metric :: u32

text \<open>\<open>cf_routes\<close> is \<open>None\<close> for a nil slice; \<open>cf_addressProperties\<close> lists the entries of the map in the order
  in which \<open>range\<close> visits them.\<close>

record config =
  cf_localAddresses :: "prefix list"
  cf_addressProperties :: "(addr \<times> addressProperties) list"
  cf_preferTemporary :: bool
  cf_promiscuous :: bool
  cf_mtu :: u32
  cf_routes :: "route list option"
  cf_maxTCPConnections :: int
  cf_tcp :: "tcpSocketDefaults"
  cf_udp :: datagramSocketDefaults
  cf_ip :: ipSocketDefaults

record networkState =
  ns_mtu :: int
  ns_maxTCPConnections :: int
  ns_promiscuous :: bool
  ns_tcpDefaults :: "tcpSocketDefaults"
  ns_udpDefaults :: datagramSocketDefaults
  ns_ipDefaults :: ipSocketDefaults
  ns_local :: "addr set"
  ns_broadcast :: "addr set"
  ns_sources :: "addr list"
  ns_sourcePrefixBits :: "int list"
  ns_localPrefixes :: "prefix list"
  ns_routes :: "route list"
  ns_addressProperties :: "(addr \<times> addressProperties) list"
  ns_preferTemporary :: bool

definition defaultMTU :: int where "defaultMTU = 1500"

definition hostMask :: "int \<Rightarrow> u32" where
  "hostMask bits = ucast ((push_bit (nat (32 - bits)) 1 :: u64) - 1)"

text \<open>\<open>binary.BigEndian.Uint32\<close> of \<open>As4\<close>.\<close>

definition as4Word :: "addr \<Rightarrow> u32 option" where
  "as4Word a = Option.bind (as4 a) be_get32"

definition ipv4BroadcastAddress :: "prefix \<Rightarrow> addr option option" where
  "ipv4BroadcastAddress p =
     (if \<not> prefixIsValid p \<or> \<not> is4 (px_addr p) \<or> isLoopback (px_addr p) \<or> px_bits p \<ge> 31 then Some None
      else map_option (\<lambda>network. Some (Addr4 (network OR hostMask (px_bits p)))) (as4Word (px_addr (prefixMasked p))))"

definition isIPv4Broadcast :: "prefix \<Rightarrow> addr \<Rightarrow> int \<Rightarrow> bool option" where
  "isIPv4Broadcast p address bits =
     Option.bind (as4Word address) (\<lambda>value.
       if value = NOT 0 then Some True
       else if bits \<ge> 31 then Some False
       else map_option (\<lambda>network. value = network OR hostMask bits) (as4Word (unmapAddr (px_addr (prefixMasked p)))))"

section \<open>Construction\<close>

text \<open>The body of the loop over \<open>LocalAddresses\<close>, with the set of prefixes already seen.\<close>

fun raiseBits :: "addr \<Rightarrow> int \<Rightarrow> addr list \<Rightarrow> int list \<Rightarrow> int list option" where
  "raiseBits address bits [] stored = Some stored"
| "raiseBits address bits (source # sources) [] = (if source = address then None else raiseBits address bits sources [])"
| "raiseBits address bits (source # sources) (b # stored) =
     (if source = address then Some ((if bits > b then bits else b) # stored)
      else map_option ((#) b) (raiseBits address bits sources stored))"

definition recordLocal :: "addr \<Rightarrow> int \<Rightarrow> networkState \<Rightarrow> networkState option" where
  "recordLocal address bits state = do {
     state \<leftarrow> (if address \<notin> ns_local state
       then Some (state\<lparr>ns_local := insert address (ns_local state), ns_sources := ns_sources state @ [address],
                   ns_sourcePrefixBits := ns_sourcePrefixBits state @ [bits]\<rparr>)
       else map_option (\<lambda>b. state\<lparr>ns_sourcePrefixBits := b\<rparr>)
              (raiseBits address bits (ns_sources state) (ns_sourcePrefixBits state)));
     let masked = prefixMasked (prefixFrom address bits);
     broadcast \<leftarrow> ipv4BroadcastAddress masked;
     let state = state\<lparr>ns_localPrefixes := ns_localPrefixes state @ [masked]\<rparr>;
     Some (case broadcast of None \<Rightarrow> state | Some b \<Rightarrow> state\<lparr>ns_broadcast := insert b (ns_broadcast state)\<rparr>) }"

text \<open>The bits of a prefix whose address was unmapped.\<close>

definition unmappedBits :: "prefix \<Rightarrow> int" where
  "unmappedBits p = (if is6 (px_addr p) \<and> is4 (unmapAddr (px_addr p)) then px_bits p - 96 else px_bits p)"

definition usableAddress :: "addr \<Rightarrow> bool" where
  "usableAddress a \<longleftrightarrow> isValidAddr a \<and> \<not> isUnspecified a \<and> \<not> isMulticastAddr a \<and> addrZone a = []"

fun addLocals :: "prefix list \<Rightarrow> prefix set \<Rightarrow> networkState \<Rightarrow> (configError + networkState) option" where
  "addLocals [] configured state = Some (Inr state)"
| "addLocals (p # ps) configured state =
     (let address = unmapAddr (px_addr p);
          bits = unmappedBits p
      in if \<not> prefixIsValid p \<or> \<not> usableAddress address then Some (Inl BadLocalAddress)
         else if bits < 0 \<or> bits > bitLen address then Some (Inl BadLocalPrefix)
         else do {
           broadcast \<leftarrow> (if is4 address then isIPv4Broadcast p address bits else Some False);
           if broadcast then Some (Inl BroadcastLocal)
           else if prefixFrom address bits \<in> configured then addLocals ps configured state
           else do {
             state \<leftarrow> recordLocal address bits state;
             addLocals ps (insert (prefixFrom address bits) configured) state } })"

fun addProperties ::
  "(addr \<times> addressProperties) list \<Rightarrow> networkState \<Rightarrow> configError + networkState" where
  "addProperties [] state = Inr state"
| "addProperties ((address, properties) # rest) state =
     (let normalized = unmapAddr address
      in if \<not> isValidAddr address \<or> addrZone address \<noteq> [] \<or> \<not> isValidAddr normalized \<or> isUnspecified normalized \<or> isMulticastAddr normalized
         then Inl BadPropertiesKey
         else if normalized \<notin> ns_local state then Inl NonlocalProperties
         else if pr_temporary properties \<and> is4 normalized then Inl TemporaryIPv4
         else case map_of (ns_addressProperties state) normalized of
                Some existing \<Rightarrow>
                  if existing \<noteq> properties then Inl ConflictingProperties
                  else addProperties rest (state\<lparr>ns_addressProperties := AList.update normalized properties (ns_addressProperties state)\<rparr>)
              | None \<Rightarrow> addProperties rest (state\<lparr>ns_addressProperties := AList.update normalized properties (ns_addressProperties state)\<rparr>))"

definition normalizeRoutePrefix :: "prefix \<Rightarrow> configError + prefix" where
  "normalizeRoutePrefix p =
     (if \<not> prefixIsValid p \<or> addrZone (px_addr p) \<noteq> [] then Inl BadRouteDestination
      else
        let address = unmapAddr (px_addr p);
            bits = unmappedBits p
        in if bits < 0 \<or> bits > bitLen address then Inl BadRouteDestination
           else Inr (prefixMasked (prefixFrom address bits)))"

text \<open>The loop over the configured routes; the flag is \<open>haveIPv6Output\<close>.\<close>

definition routeSource :: "networkState \<Rightarrow> prefix \<Rightarrow> addr \<Rightarrow> configError + addr" where
  "routeSource state destination requested =
     (let source = unmapAddr requested
      in if isValidAddr requested then
           if \<not> usableAddress source \<or> is6 source \<noteq> is6 (px_addr destination) then Inl BadRouteSource
           else if source \<notin> ns_local state then Inl NonlocalRouteSource
           else Inr source
         else Inr AddrZero)"

fun addRoutes :: "bool \<Rightarrow> bool \<Rightarrow> route list \<Rightarrow> bool \<Rightarrow> networkState \<Rightarrow> configError + networkState \<times> bool" where
  "addRoutes have4 have6 [] output6 state = Inr (state, output6)"
| "addRoutes have4 have6 (r # rs) output6 state =
     (case normalizeRoutePrefix (ro_destination r) of
        Inl e \<Rightarrow> Inl e
      | Inr destination \<Rightarrow>
          (case routeSource state destination (ro_source r) of
             Inl e \<Rightarrow> Inl e
           | Inr source \<Rightarrow>
               let familyAvailable = (if is6 (px_addr destination) then have6 else have4);
                   output6 = (output6 \<or> is6 (px_addr destination))
               in if \<not> familyAvailable \<and> \<not> ns_promiscuous state then Inl RouteFamily
                  else addRoutes have4 have6 rs output6
                         (state\<lparr>ns_routes := ns_routes state @ [\<lparr>ro_destination = destination, ro_source = source, ro_metric = ro_metric r\<rparr>]\<rparr>)))"

definition defaultRoutes :: "bool \<Rightarrow> bool \<Rightarrow> bool \<Rightarrow> bool \<Rightarrow> networkState \<Rightarrow> networkState \<times> bool" where
  "defaultRoutes addressless have4 have6 output6 state =
     (let default4 = (addressless \<or> have4);
          default6 = (addressless \<or> have6);
          state = (if default4 then state\<lparr>ns_routes := ns_routes state @
                     [\<lparr>ro_destination = prefixFrom addr_unspecified4 0, ro_source = AddrZero, ro_metric = 0\<rparr>]\<rparr> else state);
          state = (if default6 then state\<lparr>ns_routes := ns_routes state @
                     [\<lparr>ro_destination = prefixFrom addr_unspecified6 0, ro_source = AddrZero, ro_metric = 0\<rparr>]\<rparr> else state)
      in (state, output6 \<or> default6))"

definition finishRoutes :: "config \<Rightarrow> networkState \<Rightarrow> configError + networkState" where
  "finishRoutes config state =
     (let addressless = (ns_local state = {})
      in if addressless \<and> \<not> ns_promiscuous state then Inl NoLocalAddress
         else
           let have4 = list_ex is4 (ns_sources state);
               have6 = list_ex (\<lambda>source. \<not> is4 source) (ns_sources state)
           in case addRoutes have4 have6 (case cf_routes config of None \<Rightarrow> [] | Some rs \<Rightarrow> rs) have6 state of
                Inl e \<Rightarrow> Inl e
              | Inr (state, output6) \<Rightarrow>
                  let (state, output6) = (if cf_routes config = None then defaultRoutes addressless have4 have6 output6 state
                                          else (state, output6))
                  in if ns_mtu state < ipv6MinimumMTU \<and> output6 then Inl IPv6MTU else Inr state)"

definition emptyState ::
  "int \<Rightarrow> config \<Rightarrow> tcpSocketDefaults \<Rightarrow> datagramSocketDefaults \<Rightarrow> ipSocketDefaults \<Rightarrow> networkState" where
  "emptyState mtu config tcp udp ip =
     \<lparr>ns_mtu = mtu, ns_maxTCPConnections = cf_maxTCPConnections config, ns_promiscuous = cf_promiscuous config,
      ns_tcpDefaults = tcp, ns_udpDefaults = udp, ns_ipDefaults = ip, ns_local = {}, ns_broadcast = {}, ns_sources = [],
      ns_sourcePrefixBits = [], ns_localPrefixes = [], ns_routes = [], ns_addressProperties = [],
      ns_preferTemporary = cf_preferTemporary config\<rparr>"

definition populateState :: "config \<Rightarrow> networkState \<Rightarrow> (configError + networkState) option" where
  "populateState config state =
     map_option (\<lambda>r. case r of
         Inl e \<Rightarrow> Inl e
       | Inr state \<Rightarrow>
           if ns_local state \<inter> ns_broadcast state \<noteq> {} then Inl BroadcastLocal
           else case addProperties (cf_addressProperties config) state of
                  Inl e \<Rightarrow> Inl e
                | Inr state \<Rightarrow> finishRoutes config state)
       (addLocals (cf_localAddresses config) {} state)"

definition buildNetworkState ::
  "(string \<Rightarrow> nat option) \<Rightarrow> (nat \<Rightarrow> bool) \<Rightarrow> config \<Rightarrow> (configError + networkState) option" where
  "buildNetworkState registry valid config =
     (let mtu = (if cf_mtu config = 0 then defaultMTU else uint (cf_mtu config))
      in if mtu < 68 \<or> mtu > 65535 then Some (Inl BadMTU)
         else if cf_maxTCPConnections config < 0 then Some (Inl NegativeConnections)
         else case normalizeTCPSocketDefaults registry valid (cf_tcp config) of
           Inl e \<Rightarrow> Some (Inl e)
         | Inr tcp \<Rightarrow> (case normalizeUDPSocketDefaults (cf_udp config) of
             Inl e \<Rightarrow> Some (Inl (UDPDefaults e))
           | Inr udp \<Rightarrow> (case normalizeIPSocketDefaults (cf_ip config) of
               Inl e \<Rightarrow> Some (Inl (IPDefaults e))
             | Inr ip \<Rightarrow> populateState config (emptyState mtu config tcp udp ip))))"

end
