(* ===== verification/Network_Source.thy ===== *)
theory Network_Source
  imports Network_State "HOL-Library.Product_Lexorder"
begin

text \<open>
  The operations of \<open>config.go\<close> and \<open>stack.go\<close> that read a network snapshot: routing, RFC 6724 source
  selection for unicast, multicast and broadcast output, and the admission of inbound addresses. A
  result \<open>Inl\<close> is the error the code returns; \<open>None\<close> is a panic.
\<close>

section \<open>Comparison of snapshots\<close>

definition sameSourceProperties :: "networkState \<Rightarrow> networkState \<Rightarrow> bool" where
  "sameSourceProperties state other \<longleftrightarrow>
     ns_preferTemporary state = ns_preferTemporary other \<and>
     length (ns_addressProperties state) = length (ns_addressProperties other) \<and>
     list_all (\<lambda>(address, properties). map_of (ns_addressProperties other) address = Some properties) (ns_addressProperties state)"

definition samePathConfiguration :: "networkState \<Rightarrow> networkState \<Rightarrow> bool" where
  "samePathConfiguration state other \<longleftrightarrow>
     ns_mtu state = ns_mtu other \<and> sameSourceProperties state other \<and> ns_sources state = ns_sources other \<and>
     ns_localPrefixes state = ns_localPrefixes other \<and> ns_routes state = ns_routes other"

definition sameMulticastConfiguration :: "networkState \<Rightarrow> networkState \<Rightarrow> bool" where
  "sameMulticastConfiguration state other \<longleftrightarrow>
     sameSourceProperties state other \<and> ns_sources state = ns_sources other \<and> ns_localPrefixes state = ns_localPrefixes other"

section \<open>Address classes\<close>

definition validMulticastGroup :: "addr \<Rightarrow> bool" where
  "validMulticastGroup address =
     (let address = unmapAddr address
      in if \<not> isValidAddr address \<or> \<not> isMulticastAddr address \<or> addrZone address \<noteq> [] then False
         else if is4 address then True
         else
           let raw = as16 address ! 1;
               flags = drop_bit 4 raw;
               scope = raw AND 0x0f
           in if scope = 0 \<or> scope = 0x0f \<or> flags AND 8 \<noteq> 0 then False
              else
                let transient = (flags AND 1 \<noteq> 0);
                    prefixBased = (flags AND 2 \<noteq> 0);
                    embeddedRP = (flags AND 4 \<noteq> 0)
                in \<not> (prefixBased \<and> \<not> transient \<or> embeddedRP \<and> \<not> prefixBased))"

definition isInterfaceLocalMulticast :: "addr \<Rightarrow> bool" where
  "isInterfaceLocalMulticast address =
     (let address = unmapAddr address
      in is6 address \<and> isMulticastAddr address \<and> as16 address ! 1 AND 0x0f = 1)"

definition multicastScope4 :: "bytes \<Rightarrow> u8" where
  "multicastScope4 value =
     (if value ! 0 = 224 \<and> value ! 1 = 0 \<and> value ! 2 = 0 then 2
      else if value ! 0 = 239 \<and> value ! 1 = 255 then 3
      else if value ! 0 = 239 \<and> value ! 1 AND 0xfc = 192 then 8
      else 14)"

text \<open>The last four bytes of \<open>As16\<close> are those of \<open>As4\<close>.\<close>

definition addressScope :: "addr \<Rightarrow> u8" where
  "addressScope address =
     (let address = unmapAddr address;
          value = as16 address
      in if isLoopback address then 2
         else if isMulticastAddr address then (if is4 address then multicastScope4 (drop 12 value) else value ! 1 AND 0x0f)
         else if isLinkLocalUnicast address then 2
         else if is6 address \<and> value ! 0 = 0xfe \<and> value ! 1 AND 0xc0 = 0xc0 then 5
         else 14)"

definition addressLabel :: "addr \<Rightarrow> u8" where
  "addressLabel address =
     (let address = unmapAddr address;
          value = as16 address
      in if is4 address then 4
         else if isLoopback address then 0
         else if value ! 0 = 0x20 \<and> value ! 1 = 0x02 then 2
         else if value ! 0 = 0x20 \<and> value ! 1 = 0x01 \<and> value ! 2 = 0 \<and> value ! 3 = 0 then 5
         else if value ! 0 AND 0xfe = 0xfc then 13
         else if value ! 0 = 0xfe \<and> value ! 1 AND 0xc0 = 0xc0 then 11
         else if value ! 0 = 0x3f \<and> value ! 1 = 0xfe then 12
         else if take 12 value = replicate 12 0 then 3
         else 1)"

text \<open>The loop over \<open>mask\<close>, which starts at \<open>0x80 = 1 << 7\<close> and is shifted right.\<close>

fun equalHighBits :: "nat \<Rightarrow> u8 \<Rightarrow> int" where
  "equalHighBits 0 difference = 0"
| "equalHighBits (Suc n) difference = (if difference AND push_bit n 1 = 0 then 1 + equalHighBits n difference else 0)"

fun commonBytes :: "bytes \<Rightarrow> bytes \<Rightarrow> int" where
  "commonBytes (l # ls) (r # rs) = (if l XOR r = 0 then 8 + commonBytes ls rs else equalHighBits 8 (l XOR r))"
| "commonBytes _ _ = 0"

definition commonPrefixBits :: "addr \<Rightarrow> addr \<Rightarrow> int \<Rightarrow> int" where
  "commonPrefixBits left right limit =
     (let left = unmapAddr left;
          right = unmapAddr right
      in if \<not> isValidAddr left \<or> \<not> isValidAddr right \<or> is4 left \<noteq> is4 right \<or> limit \<le> 0 then 0
         else
           let start = (if is4 left then 12 else 0);
               result = commonBytes (drop start (as16 left)) (drop start (as16 right))
           in if result > limit then limit else result)"

definition sourceScopeUsable :: "addr \<Rightarrow> addr \<Rightarrow> bool" where
  "sourceScopeUsable source destination \<longleftrightarrow> addressScope source \<ge> addressScope destination \<or> isLoopback destination"

section \<open>Membership\<close>

definition networkStateHasLocal :: "networkState \<Rightarrow> addr \<Rightarrow> bool" where
  "networkStateHasLocal state address \<longleftrightarrow> unmapAddr address \<in> ns_local state"

definition networkStateHasFamily :: "networkState \<Rightarrow> bool \<Rightarrow> bool" where
  "networkStateHasFamily state v6 \<longleftrightarrow> list_ex (\<lambda>source. is6 source = v6) (ns_sources state)"

definition invalidInboundSource :: "networkState \<Rightarrow> addr \<Rightarrow> bool" where
  "invalidInboundSource state address \<longleftrightarrow> unmapAddr address \<in> ns_broadcast state"

definition broadcastDestination :: "networkState \<Rightarrow> addr \<Rightarrow> bool" where
  "broadcastDestination state address =
     (let address = unmapAddr address
      in if \<not> is4 address then False
         else if address = broadcast4 then True
         else address \<in> ns_broadcast state)"

definition acceptsNonlocalDestination :: "networkState \<Rightarrow> addr \<Rightarrow> bool" where
  "acceptsNonlocalDestination state address =
     (let address = unmapAddr address
      in if \<not> ns_promiscuous state \<or> \<not> isValidAddr address \<or> isUnspecified address \<or> isMulticastAddr address \<or> isLoopback address
         then False
         else \<not> broadcastDestination state address)"

definition acceptsInboundDestination :: "networkState \<Rightarrow> addr \<Rightarrow> bool" where
  "acceptsInboundDestination state address =
     (let address = unmapAddr address
      in if address \<in> ns_local state then True else acceptsNonlocalDestination state address)"

section \<open>Routes\<close>

definition routeMatches :: "addr \<Rightarrow> route \<Rightarrow> bool" where
  "routeMatches destination r \<longleftrightarrow>
     is6 (px_addr (ro_destination r)) = is6 destination \<and> prefixContains (ro_destination r) destination"

definition preferRoute :: "route \<Rightarrow> route \<Rightarrow> bool" where
  "preferRoute r selected \<longleftrightarrow>
     px_bits (ro_destination r) > px_bits (ro_destination selected) \<or>
     px_bits (ro_destination r) = px_bits (ro_destination selected) \<and> ro_metric r < ro_metric selected"

fun selectRoute :: "addr \<Rightarrow> route list \<Rightarrow> route option \<Rightarrow> route option" where
  "selectRoute destination [] selected = selected"
| "selectRoute destination (r # rs) selected =
     (if \<not> routeMatches destination r then selectRoute destination rs selected
      else selectRoute destination rs
             (case selected of None \<Rightarrow> Some r | Some s \<Rightarrow> if preferRoute r s then Some r else selected))"

definition routeFor :: "networkState \<Rightarrow> addr \<Rightarrow> route option" where
  "routeFor state destination =
     (let destination = unmapAddr destination
      in if destination \<in> ns_local state
         then Some \<lparr>ro_destination = prefixFrom destination (bitLen destination), ro_source = destination, ro_metric = 0\<rparr>
         else selectRoute destination (ns_routes state) None)"

text \<open>\<open>Stack.RouteFor\<close>.\<close>

definition RouteFor :: "networkState \<Rightarrow> addr \<Rightarrow> errno + route" where
  "RouteFor state destination =
     (let destination = unmapAddr destination
      in if \<not> usableAddress destination then Inl EINVAL
         else if broadcastDestination state destination then Inl EACCES
         else case routeFor state destination of None \<Rightarrow> Inl ENETUNREACH | Some r \<Rightarrow> Inr r)"

definition hasOutputPath :: "networkState \<Rightarrow> addr \<Rightarrow> bool" where
  "hasOutputPath state destination =
     (let destination = unmapAddr destination
      in if isMulticastAddr destination \<or> broadcastDestination state destination
         then networkStateHasFamily state (is6 destination)
         else routeFor state destination \<noteq> None)"

section \<open>Source selection\<close>

definition propertiesOf :: "networkState \<Rightarrow> addr \<Rightarrow> addressProperties" where
  "propertiesOf state address =
     (case map_of (ns_addressProperties state) address of None \<Rightarrow> \<lparr>pr_deprecated = False, pr_temporary = False\<rparr> | Some p \<Rightarrow> p)"

definition preferSource :: "networkState \<Rightarrow> addr \<Rightarrow> int \<Rightarrow> addr \<Rightarrow> int \<Rightarrow> addr \<Rightarrow> bool" where
  "preferSource state candidate candidatePrefixBits current currentPrefixBits destination =
     (if candidate = destination \<or> current = destination then candidate = destination
      else
        let candidateScope = addressScope candidate;
            currentScope = addressScope current;
            destinationScope = addressScope destination
        in if candidateScope \<noteq> currentScope then
             let candidateAppropriate = (candidateScope \<ge> destinationScope);
                 currentAppropriate = (currentScope \<ge> destinationScope)
             in if candidateAppropriate \<noteq> currentAppropriate then candidateAppropriate
                else if candidateAppropriate then candidateScope < currentScope
                else candidateScope > currentScope
           else
             let candidateProperties = propertiesOf state candidate;
                 currentProperties = propertiesOf state current
             in if pr_deprecated candidateProperties \<noteq> pr_deprecated currentProperties then \<not> pr_deprecated candidateProperties
                else if (addressLabel candidate = addressLabel destination) \<noteq> (addressLabel current = addressLabel destination)
                then addressLabel candidate = addressLabel destination
                else if pr_temporary candidateProperties \<noteq> pr_temporary currentProperties
                then pr_temporary candidateProperties = ns_preferTemporary state
                else commonPrefixBits candidate destination candidatePrefixBits > commonPrefixBits current destination currentPrefixBits)"

text \<open>The loop over \<open>state.sources\<close>, the same in both selections: \<open>index\<close> is the index of the first remaining
  source, and an index beyond \<open>sourcePrefixBits\<close> panics.\<close>

fun selectSource :: "networkState \<Rightarrow> addr \<Rightarrow> addr list \<Rightarrow> nat \<Rightarrow> addr \<Rightarrow> int \<Rightarrow> addr option" where
  "selectSource state destination [] index selected selectedPrefixBits = Some selected"
| "selectSource state destination (candidate # rest) index selected selectedPrefixBits =
     (if is6 candidate \<noteq> is6 destination then selectSource state destination rest (index + 1) selected selectedPrefixBits
      else do {
        candidatePrefixBits \<leftarrow> go_index (ns_sourcePrefixBits state) index;
        if \<not> isValidAddr selected \<or> preferSource state candidate candidatePrefixBits selected selectedPrefixBits destination
        then selectSource state destination rest (index + 1) candidate candidatePrefixBits
        else selectSource state destination rest (index + 1) selected selectedPrefixBits })"

definition automaticSource :: "networkState \<Rightarrow> addr \<Rightarrow> (errno + addr) option" where
  "automaticSource state destination =
     map_option (\<lambda>selected. if \<not> isValidAddr selected then Inl EADDRNOTAVAIL else Inr selected)
       (selectSource state destination (ns_sources state) 0 AddrZero 0)"

definition sourceForUnicast :: "networkState \<Rightarrow> addr \<Rightarrow> addr \<Rightarrow> (errno + addr) option" where
  "sourceForUnicast state destination requested =
     (let destination = unmapAddr destination
      in if \<not> usableAddress destination then Some (Inl EINVAL)
         else case routeFor state destination of
           None \<Rightarrow> Some (Inl ENETUNREACH)
         | Some r \<Rightarrow>
             if isLoopback destination \<and> destination \<notin> ns_local state then Some (Inl ENETUNREACH)
             else
               let requested = unmapAddr requested
               in if isValidAddr requested \<and> \<not> isUnspecified requested then
                    if is6 requested \<noteq> is6 destination then Some (Inl EAFNOSUPPORT)
                    else if requested \<notin> ns_local state then Some (Inl EADDRNOTAVAIL)
                    else Some (Inr requested)
                  else if isValidAddr (ro_source r) then Some (Inr (ro_source r))
                  else automaticSource state destination)"

text \<open>The first configured IPv4 address that is not a loopback address.\<close>

definition usable4 :: "addr \<Rightarrow> bool" where
  "usable4 candidate \<longleftrightarrow> is4 candidate \<and> \<not> isLoopback candidate"

definition primarySource :: "networkState \<Rightarrow> errno + addr" where
  "primarySource state = (case find usable4 (ns_sources state) of None \<Rightarrow> Inl EADDRNOTAVAIL | Some a \<Rightarrow> Inr a)"

fun subnetSource :: "addr list \<Rightarrow> addr \<Rightarrow> prefix list \<Rightarrow> addr option option" where
  "subnetSource sources destination [] = Some None"
| "subnetSource sources destination (p # ps) = do {
     match \<leftarrow> (if \<not> is4 (px_addr p) then Some False else isIPv4Broadcast p destination (px_bits p));
     if \<not> match then subnetSource sources destination ps
     else case find (\<lambda>candidate. usable4 candidate \<and> prefixContains p candidate) sources of
            Some candidate \<Rightarrow> Some (Some candidate)
          | None \<Rightarrow> subnetSource sources destination ps }"

definition requestedNonUnicast :: "networkState \<Rightarrow> addr \<Rightarrow> addr \<Rightarrow> errno + addr" where
  "requestedNonUnicast state destination requested =
     (if addrZone requested \<noteq> [] \<or> isMulticastAddr requested \<or> is6 requested \<noteq> is6 destination then Inl EAFNOSUPPORT
      else if requested \<notin> ns_local state then Inl EADDRNOTAVAIL
      else if broadcastDestination state destination \<and> isLoopback requested then Inl ENETUNREACH
      else if isMulticastAddr destination \<and> \<not> sourceScopeUsable requested destination then Inl ENETUNREACH
      else Inr requested)"

definition broadcastSource :: "networkState \<Rightarrow> addr \<Rightarrow> (errno + addr) option" where
  "broadcastSource state destination =
     map_option (\<lambda>found. case found of Some candidate \<Rightarrow> Inr candidate | None \<Rightarrow> primarySource state)
       (if destination \<noteq> broadcast4 then subnetSource (ns_sources state) destination (ns_localPrefixes state) else Some None)"

definition sourceForNonUnicast :: "networkState \<Rightarrow> addr \<Rightarrow> addr \<Rightarrow> (errno + addr) option" where
  "sourceForNonUnicast state destination requested =
     (let destination = unmapAddr destination
      in if \<not> isValidAddr destination \<or> isUnspecified destination \<or> addrZone destination \<noteq> [] \<or>
            \<not> isMulticastAddr destination \<and> \<not> broadcastDestination state destination then Some (Inl EINVAL)
         else if isMulticastAddr destination \<and> \<not> validMulticastGroup destination then Some (Inl EINVAL)
         else
           let requested = unmapAddr requested
           in if isValidAddr requested \<and> \<not> isUnspecified requested then Some (requestedNonUnicast state destination requested)
              else if broadcastDestination state destination then broadcastSource state destination
              else if is4 destination then Some (primarySource state)
              else automaticSource state destination)"

definition sourceForOutput :: "networkState \<Rightarrow> addr \<Rightarrow> addr \<Rightarrow> ((errno + addr) \<times> bool) option" where
  "sourceForOutput state destination requested =
     (let destination = unmapAddr destination
      in if isMulticastAddr destination \<or> broadcastDestination state destination
         then map_option (\<lambda>r. (r, True)) (sourceForNonUnicast state destination requested)
         else map_option (\<lambda>r. (r, False)) (sourceForUnicast state destination requested))"

fun connectedSource :: "addr \<Rightarrow> addr list \<Rightarrow> int list \<Rightarrow> addr option" where
  "connectedSource source (candidate # rest) (bits # others) =
     (if usable4 candidate \<and> prefixContains (prefixFrom candidate bits) source then Some candidate
      else connectedSource source rest others)"
| "connectedSource source _ _ = None"

definition firstUsable :: "networkState \<Rightarrow> addr" where
  "firstUsable state = (case find usable4 (ns_sources state) of None \<Rightarrow> AddrZero | Some a \<Rightarrow> a)"

definition inboundIPv4PacketInfoSource :: "networkState \<Rightarrow> addr \<Rightarrow> addr \<Rightarrow> addr option" where
  "inboundIPv4PacketInfoSource state source destination =
     (let source = unmapAddr source;
          destination = unmapAddr destination
      in if \<not> is4 destination then Some AddrZero
         else if destination \<in> ns_local state then Some destination
         else if is4 source \<and> \<not> isUnspecified source then
           map_option (\<lambda>r. case r of
               Inr selected \<Rightarrow> selected
             | Inl _ \<Rightarrow> (case connectedSource source (ns_sources state) (ns_sourcePrefixBits state) of
                 Some candidate \<Rightarrow> candidate | None \<Rightarrow> firstUsable state))
             (sourceForUnicast state source AddrZero)
         else Some (firstUsable state))"

section \<open>Admission of inbound packets\<close>

datatype inboundDestinationClass =
  DestinationRejected | DestinationLocalUnicast | DestinationBroadcast | DestinationMulticast | DestinationPromiscuousUnicast

definition isAllHostsGroup :: "addr \<Rightarrow> bool" where
  "isAllHostsGroup address =
     (if is4 address then address = Addr4 0xe0000001
      else
        let value = as16 address
        in value ! 0 = 0xff \<and> (value ! 1 = 1 \<or> value ! 1 = 2) \<and> take 13 (drop 2 value) = replicate 13 0 \<and> value ! 15 = 1)"

text \<open>\<open>member\<close> is the membership test of the optional multicast component.\<close>

definition classifyInboundDestination ::
  "(addr \<Rightarrow> bool) \<Rightarrow> networkState \<Rightarrow> addr \<Rightarrow> bool \<Rightarrow> inboundDestinationClass" where
  "classifyInboundDestination member state destination loopback =
     (if is4In6 destination then DestinationRejected
      else
        let destination = unmapAddr destination
        in if networkStateHasLocal state destination then DestinationLocalUnicast
           else if broadcastDestination state destination then
             (if \<not> networkStateHasFamily state False then DestinationRejected else DestinationBroadcast)
           else if isMulticastAddr destination then
             (if \<not> validMulticastGroup destination \<or> isInterfaceLocalMulticast destination \<and> \<not> loopback then DestinationRejected
              else if isAllHostsGroup destination \<and> networkStateHasFamily state (is6 destination) then DestinationMulticast
              else if member destination then DestinationMulticast
              else DestinationRejected)
           else if acceptsNonlocalDestination state destination then DestinationPromiscuousUnicast
           else DestinationRejected)"

definition validInboundSource :: "networkState \<Rightarrow> addr \<Rightarrow> addr \<Rightarrow> bool" where
  "validInboundSource state source destination =
     (if is4In6 source then False
      else
        let source = unmapAddr source;
            destination = unmapAddr destination
        in if is4 source \<and> as16 source ! 12 = 0 then isUnspecified source \<and> destination = broadcast4
           else if \<not> isValidAddr source \<or> isUnspecified source \<or> isMulticastAddr source \<or> source = broadcast4 \<or>
                   invalidInboundSource state source then False
           else \<not> isLoopback source \<or> networkStateHasLocal state source)"

definition validInboundFragmentSource :: "networkState \<Rightarrow> addr \<Rightarrow> addr \<Rightarrow> u8 \<Rightarrow> bool" where
  "validInboundFragmentSource state source destination protocol =
     (if validInboundSource state source destination then True
      else
        let source = unmapAddr source
        in protocol = ProtocolIGMP \<and> is4 source \<and> isUnspecified source)"

definition igmpV1MembershipReport :: u8 where "igmpV1MembershipReport = 0x12"
definition igmpV2MembershipReport :: u8 where "igmpV2MembershipReport = 0x16"
definition igmpV3MembershipReport :: u8 where "igmpV3MembershipReport = 0x22"

definition validInboundPacketSource :: "networkState \<Rightarrow> addr \<Rightarrow> addr \<Rightarrow> u8 \<Rightarrow> bytes \<Rightarrow> bool" where
  "validInboundPacketSource state source target protocol payload =
     (if validInboundSource state source target then True
      else
        let source = unmapAddr source
        in if protocol \<noteq> ProtocolIGMP \<or> \<not> is4 source \<or> \<not> isUnspecified source \<or> payload = [] then False
           else payload ! 0 \<in> {igmpV1MembershipReport, igmpV2MembershipReport, igmpV3MembershipReport})"

end
