(* ===== verification/Fragment_Table.thy ===== *)
theory Fragment_Table
  imports Network_Source Fragment_Wire
begin

text \<open>
  The stack's table of incomplete datagrams: \<open>reassembleParsedFragmentStatus\<close>, the expiry, eviction and
  removal of entries, \<open>discardFragment\<close> and \<open>pruneFragments\<close> of \<^verbatim>\<open>src/fragment.go\<close>. The Go map is an
  association list with distinct keys, and an entry's identity is its key. Go leaves the iteration
  order of a map open: the argument \<open>visit\<close> gives the order of each iteration as a rank of the keys, so
  that every order is an instance. The state protected by \<open>fragmentMu\<close> is passed explicitly; the wake-up of
  the cleaner goroutine has no effect on it. \<open>None\<close> is a panic.
\<close>

record ipPacketReassemblyEntry =
  en_created :: int
  en_updated :: int
  en_accountedBytes :: int
  en_state :: ipPacketReassemblyState

record fragmentTable =
  ft_fragments :: "(fragmentKey \<times> ipPacketReassemblyEntry) list"
  ft_bytes :: int
  ft_timeouts :: u64
  ft_evictions :: u64

type_synonym visit = "nat \<Rightarrow> fragmentKey \<Rightarrow> nat"

definition visited :: "(fragmentKey \<Rightarrow> nat) \<Rightarrow> (fragmentKey \<times> ipPacketReassemblyEntry) list \<Rightarrow> (fragmentKey \<times> ipPacketReassemblyEntry) list" where
  "visited rank entries = sort_key (\<lambda>e. rank (fst e)) entries"

definition removeFragmentLocked :: "fragmentKey \<Rightarrow> fragmentTable \<Rightarrow> fragmentTable" where
  "removeFragmentLocked key t =
     (case map_of (ft_fragments t) key of
        None \<Rightarrow> t
      | Some entry \<Rightarrow> t\<lparr>ft_fragments := AList.delete key (ft_fragments t), ft_bytes := ft_bytes t - en_accountedBytes entry\<rparr>)"

definition fragmentExpiry :: "ipPacketReassemblyEntry \<Rightarrow> int" where
  "fragmentExpiry entry =
     en_created entry + (if rs_v6 (en_state entry) then fragmentIPv6Lifetime else fragmentIPv4Lifetime)"

text \<open>The loop of \<open>cleanFragmentsLocked\<close> over the entries in the order they are visited.\<close>

fun cleanLoop :: "int \<Rightarrow> (fragmentKey \<times> ipPacketReassemblyEntry) list \<Rightarrow> fragmentTable \<Rightarrow> ipPacketReassemblyEntry list \<Rightarrow>
    fragmentTable \<times> ipPacketReassemblyEntry list" where
  "cleanLoop now [] t expired = (t, expired)"
| "cleanLoop now ((key, entry) # rest) t expired =
     (if \<not> now < fragmentExpiry entry then
        let t = removeFragmentLocked key t;
            t = t\<lparr>ft_timeouts := ft_timeouts t + 1\<rparr>
        in cleanLoop now rest t
             (if rs_firstPacket (en_state entry) \<noteq> [] then expired @ [entry\<lparr>en_accountedBytes := 0\<rparr>] else expired)
      else cleanLoop now rest t expired)"

definition cleanFragmentsLocked :: "visit \<Rightarrow> int \<Rightarrow> fragmentTable \<Rightarrow> fragmentTable \<times> ipPacketReassemblyEntry list" where
  "cleanFragmentsLocked visit now t = cleanLoop now (visited (visit 0) (ft_fragments t)) t []"

fun nextExpiry :: "(fragmentKey \<times> ipPacketReassemblyEntry) list \<Rightarrow> int option \<Rightarrow> int option" where
  "nextExpiry [] soonest = soonest"
| "nextExpiry ((key, entry) # rest) soonest =
     nextExpiry rest (case soonest of
         None \<Rightarrow> Some (fragmentExpiry entry)
       | Some s \<Rightarrow> if fragmentExpiry entry < s then Some (fragmentExpiry entry) else soonest)"

definition nextFragmentExpiryLocked :: "visit \<Rightarrow> fragmentTable \<Rightarrow> int option" where
  "nextFragmentExpiryLocked visit t = nextExpiry (visited (visit 0) (ft_fragments t)) None"

fun oldestLoop :: "fragmentKey option \<Rightarrow> (fragmentKey \<times> ipPacketReassemblyEntry) list \<Rightarrow> (fragmentKey \<times> ipPacketReassemblyEntry) option \<Rightarrow>
    (fragmentKey \<times> ipPacketReassemblyEntry) option" where
  "oldestLoop except [] oldest = oldest"
| "oldestLoop except ((key, entry) # rest) oldest =
     (if except = Some key then oldestLoop except rest oldest
      else oldestLoop except rest
             (case oldest of
                None \<Rightarrow> Some (key, entry)
              | Some o' \<Rightarrow> if en_updated entry < en_updated (snd o') then Some (key, entry) else oldest))"

definition evictOldestFragmentExceptLocked :: "visit \<Rightarrow> fragmentKey option \<Rightarrow> fragmentTable \<Rightarrow> bool \<times> fragmentTable" where
  "evictOldestFragmentExceptLocked visit except t =
     (case oldestLoop except (visited (visit (length (ft_fragments t))) (ft_fragments t)) None of
        None \<Rightarrow> (False, t)
      | Some (key, entry) \<Rightarrow>
          let t = removeFragmentLocked key t
          in (True, t\<lparr>ft_evictions := ft_evictions t + 1\<rparr>))"

lemma set_visited [simp]: "set (visited rank es) = set es"
  by (simp add: visited_def)

lemma oldestLoop_member: "oldestLoop except es s = Some x \<Longrightarrow> x \<in> set es \<and> except \<noteq> Some (fst x) \<or> s = Some x"
  by (induction except es s rule: oldestLoop.induct) (auto split: if_splits option.splits)

lemma removeFragment_eq:
  assumes "map_of (ft_fragments t) key = Some entry"
  shows "removeFragmentLocked key t = t\<lparr>ft_fragments := filter (\<lambda>x. fst x \<noteq> key) (ft_fragments t), ft_bytes := ft_bytes t - en_accountedBytes entry\<rparr>"
proof -
  have "AList.delete key (ft_fragments t) = filter (\<lambda>x. fst x \<noteq> key) (ft_fragments t)"
    unfolding AList.delete_eq by (rule filter_cong) (auto split: prod.splits)
  then show ?thesis using assms by (simp add: removeFragmentLocked_def)
qed

lemma member_map_of: "x \<in> set es \<Longrightarrow> \<exists>e. map_of es (fst x) = Some e"
  using weak_map_of_SomeI [of "fst x" "snd x" es] by simp

lemma length_removeFragment: "x \<in> set (ft_fragments t) \<Longrightarrow> length (ft_fragments (removeFragmentLocked (fst x) t)) < length (ft_fragments t)"
  using member_map_of [of x "ft_fragments t"] by (auto simp: removeFragment_eq intro: length_filter_less)

lemma oldestLoop_None: "oldestLoop except es s = None \<Longrightarrow> s = None \<and> (\<forall>x\<in>set es. except = Some (fst x))"
  by (induction except es s rule: oldestLoop.induct) (auto split: if_splits option.splits)

lemma evict_cases:
  fixes visit t except
  defines "x \<equiv> oldestLoop except (visited (visit (length (ft_fragments t))) (ft_fragments t)) None"
  shows "(x = None \<and> evictOldestFragmentExceptLocked visit except t = (False, t) \<and> (\<forall>y\<in>set (ft_fragments t). except = Some (fst y))) \<or>
    (\<exists>y\<in>set (ft_fragments t). x = Some y \<and> except \<noteq> Some (fst y) \<and> evictOldestFragmentExceptLocked visit except t =
      (True, (removeFragmentLocked (fst y) t)\<lparr>ft_evictions := ft_evictions (removeFragmentLocked (fst y) t) + 1\<rparr>))"
proof (cases x)
  case None
  then show ?thesis using oldestLoop_None [OF None [unfolded x_def]] by (simp add: evictOldestFragmentExceptLocked_def x_def)
next
  case (Some y)
  then show ?thesis using oldestLoop_member [OF Some [unfolded x_def]]
    by (cases y) (auto simp: evictOldestFragmentExceptLocked_def x_def Let_def)
qed

lemma evict_shorter:
  "evictOldestFragmentExceptLocked visit except t = (True, t') \<Longrightarrow> length (ft_fragments t') < length (ft_fragments t)"
  using evict_cases [of except visit t] length_removeFragment by fastforce

lemma evict_any: "ft_fragments t \<noteq> [] \<Longrightarrow> fst (evictOldestFragmentExceptLocked visit None t)"
  using evict_cases [of None visit t] by (fastforce simp: neq_Nil_conv)

text \<open>\<open>for len(s.fragments) >= fragmentMaximumSets\<close>.\<close>

function evictSets :: "visit \<Rightarrow> fragmentTable \<Rightarrow> fragmentTable" where
  "evictSets visit t =
     (if length (ft_fragments t) \<ge> fragmentMaximumSets
      then evictSets visit (snd (evictOldestFragmentExceptLocked visit None t)) else t)"
  by pat_completeness auto

termination evictSets
proof (relation "measure (\<lambda>(_, t). length (ft_fragments t))")
  fix visit :: visit and t :: fragmentTable
  assume "length (ft_fragments t) \<ge> fragmentMaximumSets"
  then have "ft_fragments t \<noteq> []" by (auto simp: fragmentMaximumSets_def)
  from evict_any [OF this, of visit] evict_shorter [of visit None t]
  show "((visit, snd (evictOldestFragmentExceptLocked visit None t)), visit, t) \<in> measure (\<lambda>(_, t). length (ft_fragments t))"
    by (cases "evictOldestFragmentExceptLocked visit None t") auto
qed simp

declare evictSets.simps [simp del]

text \<open>The loop that makes room for the retained bytes, for a fragment that is still pending.\<close>

function evictBytes :: "visit \<Rightarrow> fragmentKey \<Rightarrow> fragmentTable \<Rightarrow> fragmentTable" where
  "evictBytes visit key t =
     (if ft_bytes t > fragmentMaximumBytes \<and> length (ft_fragments t) > 1
      then case evictOldestFragmentExceptLocked visit (Some key) t of
             (False, t') \<Rightarrow> t'
           | (True, t') \<Rightarrow> evictBytes visit key t'
      else t)"
  by pat_completeness auto

termination evictBytes
  by (relation "measure (\<lambda>(_, _, t). length (ft_fragments t))") (auto intro: evict_shorter)

declare evictBytes.simps [simp del]

section \<open>Adding a fragment\<close>

record fragmentOutcome =
  fo_table :: fragmentTable
  fo_expired :: "ipPacketReassemblyEntry list"
  fo_packet :: "bytes option"
  fo_pending :: bool

definition setEntry :: "fragmentKey \<Rightarrow> ipPacketReassemblyEntry \<Rightarrow> fragmentTable \<Rightarrow> fragmentTable" where
  "setEntry key entry t = t\<lparr>ft_fragments := AList.update key entry (ft_fragments t)\<rparr>"

text \<open>After \<open>addFragment\<close>: the accounting, the times of the entry, the byte limit and the result.\<close>

definition settleFragment ::
  "visit \<Rightarrow> fragmentKey \<Rightarrow> ipPacketReassemblyEntry \<Rightarrow> int \<Rightarrow> ipPacketReassemblyState \<Rightarrow> addResult \<Rightarrow> fragmentTable \<Rightarrow>
   fragmentTable \<times> bytes option \<times> bool" where
  "settleFragment visit key entry now state result t =
     (let t = t\<lparr>ft_bytes := ft_bytes t + (rs_bytes state - en_accountedBytes entry)\<rparr>;
          entry = entry\<lparr>en_state := state, en_accountedBytes := rs_bytes state\<rparr>
      in case result of
           Failed _ \<Rightarrow> (removeFragmentLocked key (setEntry key entry t), None, False)
         | Completed packet \<Rightarrow> (removeFragmentLocked key (setEntry key entry t), Some packet, False)
         | Pending added \<Rightarrow>
             let entry = (if now < en_created entry then entry\<lparr>en_created := now\<rparr> else entry);
                 entry = (if added \<and> now > en_updated entry then entry\<lparr>en_updated := now\<rparr> else entry);
                 t = evictBytes visit key (setEntry key entry t)
             in if ft_bytes t > fragmentMaximumBytes then (removeFragmentLocked key t, None, False)
                else (t, None, True))"

definition reassembleParsedFragmentStatus ::
  "bool \<Rightarrow> visit \<Rightarrow> (addr \<Rightarrow> bool) \<Rightarrow> networkState \<Rightarrow> bool \<Rightarrow> parsedFragment \<Rightarrow> int \<Rightarrow> bool \<Rightarrow> fragmentTable \<Rightarrow> fragmentOutcome option" where
  "reassembleParsedFragmentStatus big visit member network closed fragment now loopback t =
     (let f = pf_fragment fragment;
          ignored = \<lparr>fo_table = t, fo_expired = [], fo_packet = None, fo_pending = False\<rparr>
      in if pf_truncated fragment \<or> pf_parameter fragment \<or>
            classifyInboundDestination member network (fr_target f) loopback = DestinationRejected \<or>
            \<not> validInboundFragmentSource network (fr_source f) (fr_target f) (fr_protocol f) then Some ignored
         else if closed then Some ignored
         else
           let key = reassemblyKey f loopback;
               (t, expired) = cleanFragmentsLocked visit now t;
               (entry, t) = (case map_of (ft_fragments t) key of
                   Some entry \<Rightarrow> (entry, t)
                 | None \<Rightarrow>
                     let entry = \<lparr>en_created = now, en_updated = now, en_accountedBytes = 0, en_state = rs_start f\<rparr>
                     in (entry, setEntry key entry (evictSets visit t)))
           in map_option (\<lambda>(state, result).
                  let (t, packet, pending) = settleFragment visit key entry now state result t
                  in \<lparr>fo_table = t, fo_expired = expired, fo_packet = packet, fo_pending = pending\<rparr>)
                (addFragment big (en_state entry) f fragmentMaximumPieces))"

definition discardFragment :: "fragmentKey \<Rightarrow> fragmentTable \<Rightarrow> fragmentTable" where
  "discardFragment key t = removeFragmentLocked key t"

fun pruneLoop :: "(fragmentKey \<Rightarrow> bool) \<Rightarrow> (fragmentKey \<times> ipPacketReassemblyEntry) list \<Rightarrow> fragmentTable \<Rightarrow> fragmentTable" where
  "pruneLoop keep [] t = t"
| "pruneLoop keep ((key, entry) # rest) t = pruneLoop keep rest (if keep key then t else removeFragmentLocked key t)"

definition pruneFragments :: "visit \<Rightarrow> (addr \<Rightarrow> bool) \<Rightarrow> networkState \<Rightarrow> fragmentTable \<Rightarrow> fragmentTable" where
  "pruneFragments visit member network t =
     pruneLoop (\<lambda>key. classifyInboundDestination member network (fk_target key) (fk_loopback key) \<noteq> DestinationRejected)
       (visited (visit 0) (ft_fragments t)) t"

end
