(* ===== verification/Selection.thy ===== *)
theory Selection
  imports Prelude
begin

text \<open>
  The route and the source selection and the eviction of fragments loop in one shape: a candidate replaces the one selected so far when it
  is preferred. When the preference compares a key, the result is the first candidate of least key.
\<close>

fun keepBest :: "('a \<Rightarrow> 'a \<Rightarrow> bool) \<Rightarrow> 'a list \<Rightarrow> 'a option \<Rightarrow> 'a option" where
  "keepBest better [] selected = selected"
| "keepBest better (x # xs) selected =
     keepBest better xs (case selected of None \<Rightarrow> Some x | Some s \<Rightarrow> if better x s then Some x else selected)"

locale preference =
  fixes better :: "'a \<Rightarrow> 'a \<Rightarrow> bool" and key :: "'a \<Rightarrow> 'k::linorder" and carrier :: "'a set"
  assumes better_key: "x \<in> carrier \<Longrightarrow> y \<in> carrier \<Longrightarrow> x \<noteq> y \<Longrightarrow> better x y \<longleftrightarrow> key x < key y"
begin

lemma keepBest_least:
  assumes "set (pre @ xs) \<subseteq> carrier" "pre = [] \<Longrightarrow> s = None"
    and "pre \<noteq> [] \<Longrightarrow> \<exists>b. s = Some b \<and> find (\<lambda>x. \<forall>y\<in>set pre. key x \<le> key y) pre = Some b"
  shows "keepBest better xs s = find (\<lambda>x. \<forall>y\<in>set (pre @ xs). key x \<le> key y) (pre @ xs)"
  using assms
proof (induction xs arbitrary: pre s)
  case Nil
  then show ?case by (cases "pre = []") auto
next
  case (Cons a xs)
  let ?s = "case s of None \<Rightarrow> Some a | Some b \<Rightarrow> if better a b then Some a else s"
  have "\<exists>b. ?s = Some b \<and> find (\<lambda>x. \<forall>y\<in>set (pre @ [a]). key x \<le> key y) (pre @ [a]) = Some b"
  proof (cases "pre = []")
    case True
    then show ?thesis using Cons.prems by simp
  next
    case False
    with Cons.prems obtain b where b: "s = Some b" "find (\<lambda>x. \<forall>y\<in>set pre. key x \<le> key y) pre = Some b" by blast
    from b(2) obtain i where i: "i < length pre" "b = pre ! i" "\<forall>y\<in>set pre. key b \<le> key y"
      "\<forall>j<i. \<not> (\<forall>y\<in>set pre. key (pre ! j) \<le> key y)" by (auto simp: find_Some_iff)
    have c: "a \<in> carrier" "b \<in> carrier" using Cons.prems(1) i(1,2) by auto
    have "better a b \<and> a \<noteq> b \<longleftrightarrow> key a < key b" using better_key [OF c] by auto
    show ?thesis
    proof (cases "key a < key b")
      case True
      moreover have "\<not> key (pre ! j) \<le> key a" if "j < length pre" for j
        using less_le_trans [OF True bspec [OF i(3) nth_mem [OF that]]] by (simp add: not_le)
      ultimately have "find (\<lambda>x. \<forall>y\<in>set (pre @ [a]). key x \<le> key y) (pre @ [a]) = Some a"
        unfolding find_Some_iff using i(3) by (intro exI [of _ "length pre"]) (auto simp: nth_append)
      then show ?thesis using True b(1) \<open>better a b \<and> a \<noteq> b \<longleftrightarrow> key a < key b\<close> by auto
    next
      case False
      then have "find (\<lambda>x. \<forall>y\<in>set (pre @ [a]). key x \<le> key y) (pre @ [a]) = Some b"
        unfolding find_Some_iff using i by (intro exI [of _ i]) (auto simp: nth_append)
      then show ?thesis using False b(1) \<open>better a b \<and> a \<noteq> b \<longleftrightarrow> key a < key b\<close> by auto
    qed
  qed
  with Cons.IH [of "pre @ [a]" ?s] Cons.prems(1) show ?case by auto
qed

lemma keepBest_first_least:
  "set xs \<subseteq> carrier \<Longrightarrow> keepBest better xs None = find (\<lambda>x. \<forall>y\<in>set xs. key x \<le> key y) xs"
  using keepBest_least [of "[]" xs None] by simp

end

end
