(* ===== verification/Network_Selection.thy ===== *)
theory Network_Selection
  imports Network_Source Selection
begin

text \<open>
  The selection loops of \<open>Network_Source\<close> as minimisation: interpretations of the locale \<open>preference\<close> on
  the route comparison and on the RFC 6724 comparison of \<open>preferSource\<close>.
\<close>

section \<open>Routes\<close>

definition routeKey :: "route \<Rightarrow> int \<times> u32" where
  "routeKey r = (- px_bits (ro_destination r), ro_metric r)"

interpretation routes: preference preferRoute routeKey UNIV
  by unfold_locales (auto simp: preferRoute_def routeKey_def less_prod_def')

lemma selectRoute_keepBest: "selectRoute destination rs s = keepBest preferRoute (filter (routeMatches destination) rs) s"
  by (induction rs arbitrary: s) auto

section \<open>Sources\<close>

text \<open>The rules of RFC 6724 in their order: the same address; the appropriate and smallest scope; not deprecated; a
  matching label; the preferred kind of address; the longest common prefix.\<close>

definition scopeKey :: "u8 \<Rightarrow> u8 \<Rightarrow> bool \<times> int" where
  "scopeKey destination scope =
     (if scope \<ge> destination then (False, uint scope) else (True, - uint scope))"

definition sourceKey :: "networkState \<Rightarrow> addr \<Rightarrow> addr \<times> int \<Rightarrow> bool \<times> (bool \<times> int) \<times> bool \<times> bool \<times> bool \<times> int" where
  "sourceKey state destination candidate =
     (if fst candidate = destination then (False, (False, 0), False, False, False, 0)
      else (True, scopeKey (addressScope destination) (addressScope (fst candidate)),
            pr_deprecated (propertiesOf state (fst candidate)),
            addressLabel (fst candidate) \<noteq> addressLabel destination,
            pr_temporary (propertiesOf state (fst candidate)) \<noteq> ns_preferTemporary state,
            - commonPrefixBits (fst candidate) destination (snd candidate)))"

definition preferred :: "networkState \<Rightarrow> addr \<Rightarrow> addr \<times> int \<Rightarrow> addr \<times> int \<Rightarrow> bool" where
  "preferred state destination candidate current =
     preferSource state (fst candidate) (snd candidate) (fst current) (snd current) destination"

lemma scopeKey_less:
  "scopeKey d s < scopeKey d t \<longleftrightarrow> s \<noteq> t \<and> (if (s \<ge> d) \<noteq> (t \<ge> d) then s \<ge> d else if s \<ge> d then s < t else s > t)"
  "scopeKey d s = scopeKey d t \<longleftrightarrow> s = t"
  by (auto simp: scopeKey_def less_prod_def' word_less_def word_le_def intro: unsigned_word_eqI)

lemma rank_less:
  "((dx::bool), (lx::bool), (tx::bool), (cx::int)) < (dy, ly, ty, cy) \<longleftrightarrow>
     (if dx \<noteq> dy then \<not> dx else if lx \<noteq> ly then \<not> lx else if tx \<noteq> ty then \<not> tx else cx < cy)"
  by (cases dx; cases dy; cases lx; cases ly; cases tx; cases ty; simp add: less_prod_def')

lemma lex_second: "(a :: 'x::linorder) \<noteq> c \<Longrightarrow> (True, a, b :: 'y::linorder) < (True, c, d) \<longleftrightarrow> a < c"
  by (simp add: less_prod_def')

lemma preferred_key:
  assumes "fst x \<noteq> fst y"
  shows "preferred state destination x y \<longleftrightarrow> sourceKey state destination x < sourceKey state destination y"
proof (cases "fst x = destination \<or> fst y = destination")
  case True
  then show ?thesis using assms by (auto simp: preferred_def preferSource_def sourceKey_def less_prod_def')
next
  case False
  then have n: "fst x \<noteq> destination" "fst y \<noteq> destination" by auto
  show ?thesis
  proof (cases "addressScope (fst x) = addressScope (fst y)")
    case True
    have k: "sourceKey state destination x < sourceKey state destination y \<longleftrightarrow>
      (pr_deprecated (propertiesOf state (fst x)), addressLabel (fst x) \<noteq> addressLabel destination,
       pr_temporary (propertiesOf state (fst x)) \<noteq> ns_preferTemporary state, - commonPrefixBits (fst x) destination (snd x)) <
      (pr_deprecated (propertiesOf state (fst y)), addressLabel (fst y) \<noteq> addressLabel destination,
       pr_temporary (propertiesOf state (fst y)) \<noteq> ns_preferTemporary state, - commonPrefixBits (fst y) destination (snd y))"
      using n True by (simp add: sourceKey_def)
    show ?thesis unfolding k rank_less using n True by (simp add: preferred_def preferSource_def Let_def) blast
  next
    case False
    then have "sourceKey state destination x < sourceKey state destination y \<longleftrightarrow>
      scopeKey (addressScope destination) (addressScope (fst x)) < scopeKey (addressScope destination) (addressScope (fst y))"
      unfolding sourceKey_def if_not_P [OF n(1)] if_not_P [OF n(2)] by (subst lex_second) (simp_all add: scopeKey_less(2))
    then show ?thesis using n False by (simp add: preferred_def preferSource_def Let_def scopeKey_less)
  qed
qed

definition candidates :: "networkState \<Rightarrow> addr \<Rightarrow> (addr \<times> int) list" where
  "candidates state destination = filter (\<lambda>c. is6 (fst c) = is6 destination) (zip (ns_sources state) (ns_sourcePrefixBits state))"

interpretation sources: preference "preferred state destination" "sourceKey state destination"
    "{c. distinct (ns_sources state) \<and> c \<in> set (zip (ns_sources state) (ns_sourcePrefixBits state))}"
  for state :: "networkState" and destination
proof unfold_locales
  fix x y :: "addr \<times> int"
  assume x: "x \<in> {c. distinct (ns_sources state) \<and> c \<in> set (zip (ns_sources state) (ns_sourcePrefixBits state))}"
    and y: "y \<in> {c. distinct (ns_sources state) \<and> c \<in> set (zip (ns_sources state) (ns_sourcePrefixBits state))}" and n: "x \<noteq> y"
  have "fst x \<noteq> fst y"
    using x y n by (auto simp: set_zip nth_eq_iff_index_eq)
  then show "preferred state destination x y \<longleftrightarrow> sourceKey state destination x < sourceKey state destination y" by (rule preferred_key)
qed

lemma selectSource_keepBest:
  assumes "drop index (ns_sourcePrefixBits state) = bs" "length bs = length xs" "\<forall>x\<in>set xs. isValidAddr x"
    and "case s of None \<Rightarrow> selected = AddrZero | Some c \<Rightarrow> c = (selected, bits) \<and> isValidAddr selected"
  shows "selectSource state destination xs index selected bits =
    Some (case keepBest (preferred state destination) (filter (\<lambda>c. is6 (fst c) = is6 destination) (zip xs bs)) s of
            None \<Rightarrow> AddrZero | Some c \<Rightarrow> fst c)"
  using assms
proof (induction xs arbitrary: index bs s selected bits)
  case Nil
  then show ?case by (cases s) auto
next
  case (Cons x xs)
  then obtain b bs' where bs: "bs = b # bs'" by (cases bs) auto
  with Cons.prems(1) have g: "go_index (ns_sourcePrefixBits state) index = Some b" and t: "drop (index + 1) (ns_sourcePrefixBits state) = bs'"
    by (auto simp: go_index_def drop_eq_Cons_conv)
  have v: "isValidAddr x" "\<forall>x\<in>set xs. isValidAddr x" "length bs' = length xs" using Cons.prems(2,3) bs by auto
  note IH = Cons.IH [OF t v(3,2)]
  show ?case
  proof (cases "is6 x = is6 destination")
    case False
    then show ?thesis using IH [OF Cons.prems(4)] by (simp add: bs)
  next
    case True
    show ?thesis
    proof (cases s)
      case None
      then have "selected = AddrZero" using Cons.prems(4) by simp
      then show ?thesis using True None g v(1) IH [where s = "Some (x, b)" and selected = x and bits = b] by (simp add: bs isValidAddr_def)
    next
      case (Some c)
      then have c: "c = (selected, bits)" "isValidAddr selected" using Cons.prems(4) by auto
      show ?thesis
      proof (cases "preferSource state x b selected bits destination")
        case p: True
        then show ?thesis using True Some c g v(1) IH [where s = "Some (x, b)" and selected = x and bits = b] by (simp add: bs preferred_def)
      next
        case p: False
        then show ?thesis using True Some c g v(1) IH [where s = s and selected = selected and bits = bits] by (simp add: bs preferred_def)
      qed
    qed
  qed
qed

end
