(* ===== verification/Network_Build.thy ===== *)
theory Network_Build
  imports Network_Selection
begin

text \<open>
  The invariant of a network snapshot and the lemmas that \<open>buildNetworkState\<close> establishes it: the loops over
  local prefixes, address properties and routes, each with what it keeps.
\<close>

section \<open>Addresses and prefixes\<close>

lemma hostMask_mask: "0 \<le> bits \<Longrightarrow> hostMask bits = mask (nat (32 - bits))"
proof -
  assume "0 \<le> bits"
  then have n: "nat (32 - bits) \<le> 32" by simp
  have "(push_bit (nat (32 - bits)) 1 :: u64) - 1 = mask (nat (32 - bits))"
    by (simp add: mask_eq_exp_minus_1 push_bit_eq_mult)
  then show ?thesis using n by (auto simp: hostMask_def bit_eq_iff bit_simps)
qed

lemma drop_clearBits: "n \<le> m \<Longrightarrow> drop_bit m (clearBits n w) = drop_bit m (w :: 'a::len word)"
  by (rule bit_word_eqI) (auto simp: clearBits_def bit_simps dest: bit_imp_le_length)

lemma as4Word_4 [simp]: "as4Word (Addr4 w) = Some w"
  using be_get32_put [of w "[]"] by (simp add: as4Word_def)

definition localAddr :: "prefix \<Rightarrow> addr" where
  "localAddr p = unmapAddr (px_addr p)"

definition goodLocal :: "prefix \<Rightarrow> bool" where
  "goodLocal p \<longleftrightarrow> prefixIsValid p \<and> usableAddress (localAddr p) \<and> 0 \<le> unmappedBits p \<and> unmappedBits p \<le> bitLen (localAddr p)"

lemma localAddr_simps [simp]: "unmapAddr (localAddr p) = localAddr p"
  by (simp add: localAddr_def)

lemma masked_4: "prefixMasked (prefixFrom (Addr4 w) b) = (if 0 \<le> b \<and> b \<le> 32 then \<lparr>px_addr = Addr4 (clearBits (nat (32 - b)) w), px_bits = b\<rparr> else \<lparr>px_addr = AddrZero, px_bits = -1\<rparr>)"
  by (auto simp: prefixMasked_def prefixFrom_def isValidAddr_def)

lemma masked_6: "prefixMasked (prefixFrom (Addr6 w z) b) = (if 0 \<le> b \<and> b \<le> 128 then \<lparr>px_addr = Addr6 (clearBits (nat (128 - b)) w) [], px_bits = b\<rparr> else \<lparr>px_addr = AddrZero, px_bits = -1\<rparr>)"
  by (auto simp: prefixMasked_def prefixFrom_def isValidAddr_def)

lemma prefixFrom_fields:
  "isValidAddr a \<Longrightarrow> 0 \<le> b \<Longrightarrow> b \<le> bitLen a \<Longrightarrow> prefixFrom a b = \<lparr>px_addr = withoutZone a, px_bits = b\<rparr>"
  by (simp add: prefixFrom_def)

lemma masked_valid:
  assumes "isValidAddr a" "0 \<le> b" "b \<le> bitLen a"
  shows "prefixIsValid (prefixMasked (prefixFrom a b))" "px_bits (prefixMasked (prefixFrom a b)) = b"
    "prefixMasked (prefixMasked (prefixFrom a b)) = prefixMasked (prefixFrom a b)"
    "is4 (px_addr (prefixMasked (prefixFrom a b))) = is4 a" "is6 (px_addr (prefixMasked (prefixFrom a b))) = is6 a"
    "addrZone (px_addr (prefixMasked (prefixFrom a b))) = []"
  using assms by (cases a; simp add: masked_4 masked_6 prefixIsValid_def isValidAddr_def; simp add: prefixMasked_def prefixFrom_def isValidAddr_def)+

lemma masked_contains:
  assumes "isValidAddr a" "0 \<le> b" "b \<le> bitLen a" "addrZone a = []"
  shows "prefixContains (prefixMasked (prefixFrom a b)) a"
  using assms by (cases a) (auto simp: masked_4 masked_6 prefixContains_def prefixIsValid_def drop_bit_xor isValidAddr_def)

lemma broadcast_total: "\<exists>r. ipv4BroadcastAddress (prefixMasked (prefixFrom a b)) = Some r"
  by (cases a) (auto simp: ipv4BroadcastAddress_def masked_4 masked_6 prefixMasked_def prefixFrom_def prefixIsValid_def isValidAddr_def)

lemma isIPv4Broadcast_4:
  assumes "0 \<le> b" "b \<le> 32"
  shows "\<exists>r. isIPv4Broadcast (prefixFrom (Addr4 v) b) (Addr4 w) b' = Some r"
  using assms by (auto simp: isIPv4Broadcast_def masked_4) 

lemma isIPv4Broadcast_total:
  assumes "prefix_ok p" "goodLocal p" "is4 (localAddr p)"
  shows "\<exists>r. isIPv4Broadcast p (localAddr p) (unmappedBits p) = Some r"
proof (cases "px_addr p")
  case (Addr6 w z)
  then have w: "drop_bit 32 w = 0xffff" using assms(3) by (auto simp: localAddr_def split: if_splits)
  have b: "unmappedBits p = px_bits p - 96" "96 \<le> px_bits p" "px_bits p \<le> 128"
    using assms Addr6 w by (auto simp: unmappedBits_def goodLocal_def prefix_ok_def)
  then have "drop_bit 32 (clearBits (nat (128 - px_bits p)) w) = 0xffff" using w by (simp add: drop_clearBits)
  then show ?thesis using Addr6 w b
    by (auto simp: isIPv4Broadcast_def localAddr_def prefixMasked_def prefixFrom_def)
qed (use assms in \<open>auto simp: isIPv4Broadcast_def localAddr_def prefixMasked_def prefixFrom_def goodLocal_def unmappedBits_def\<close>)

section \<open>Local addresses\<close>

text \<open>The prefixes \<open>ps\<close> have been recorded: one source per address, with the longest of its prefixes.\<close>

definition recorded :: "prefix list \<Rightarrow> addr \<Rightarrow> int \<Rightarrow> bool" where
  "recorded ps a b \<longleftrightarrow> (\<exists>p\<in>set ps. localAddr p = a \<and> unmappedBits p = b) \<and> (\<forall>p\<in>set ps. localAddr p = a \<longrightarrow> unmappedBits p \<le> b)"

definition maskedPrefix :: "prefix \<Rightarrow> prefix" where
  "maskedPrefix p = prefixMasked (prefixFrom (localAddr p) (unmappedBits p))"

definition locals_ok :: "prefix list \<Rightarrow> networkState \<Rightarrow> bool" where
  "locals_ok ps st \<longleftrightarrow>
     ns_local st = set (ns_sources st) \<and> set (ns_sources st) = localAddr ` set ps \<and> distinct (ns_sources st) \<and>
     list_all2 (recorded ps) (ns_sources st) (ns_sourcePrefixBits st) \<and>
     set (ns_localPrefixes st) = maskedPrefix ` set ps \<and>
     ns_broadcast st = {b. \<exists>p\<in>set ps. ipv4BroadcastAddress (maskedPrefix p) = Some (Some b)} \<and>
     (\<forall>p\<in>set ps. goodLocal p \<and> localAddr p \<noteq> broadcast4)"

lemma goodLocal_prefix:
  "goodLocal p \<Longrightarrow> goodLocal q \<Longrightarrow>
   prefixFrom (localAddr p) (unmappedBits p) = prefixFrom (localAddr q) (unmappedBits q) \<longleftrightarrow>
   localAddr p = localAddr q \<and> unmappedBits p = unmappedBits q"
  by (auto simp: goodLocal_def usableAddress_def prefixFrom_def)

lemma recorded_other: "localAddr p \<noteq> a \<Longrightarrow> recorded (ps @ [p]) a b = recorded ps a b"
  by (auto simp: recorded_def)

lemma recorded_same:
  assumes "recorded ps (localAddr p) b"
  shows "recorded (ps @ [p]) (localAddr p) (if unmappedBits p > b then unmappedBits p else b)"
  using assms by (fastforce simp: recorded_def)

lemma recorded_again: "q \<in> set ps \<Longrightarrow> localAddr p = localAddr q \<Longrightarrow> unmappedBits p = unmappedBits q \<Longrightarrow> recorded (ps @ [p]) a b = recorded ps a b"
  by (auto simp: recorded_def)

lemma raiseBits_recorded:
  assumes "list_all2 (recorded ps) xs bs" "distinct xs"
  shows "\<exists>bs'. raiseBits (localAddr p) (unmappedBits p) xs bs = Some bs' \<and> list_all2 (recorded (ps @ [p])) xs bs'"
  using assms
proof (induction xs bs rule: list_all2_induct)
  case (Cons x xs b bs)
  show ?case
  proof (cases "x = localAddr p")
    case True
    have "list_all2 (recorded (ps @ [p])) xs bs"
      using Cons.hyps(2) by (rule list.rel_mono_strong) (metis True Cons.prems distinct.simps(2) recorded_other)
    then show ?thesis using True recorded_same Cons.hyps(1) by auto
  next
    case False
    then show ?thesis using Cons recorded_other [of p x] by auto
  qed
qed simp

definition sameFrame :: "networkState \<Rightarrow> networkState \<Rightarrow> bool" where
  "sameFrame st st' \<longleftrightarrow> ns_promiscuous st' = ns_promiscuous st \<and> ns_mtu st' = ns_mtu st \<and> ns_routes st' = ns_routes st \<and>
     ns_addressProperties st' = ns_addressProperties st \<and> ns_preferTemporary st' = ns_preferTemporary st"

lemma sameFrame_refl [simp]: "sameFrame st st"
  by (simp add: sameFrame_def)

lemma sameFrame_trans: "sameFrame a b \<Longrightarrow> sameFrame b c \<Longrightarrow> sameFrame a c"
  by (simp add: sameFrame_def)

lemma recordLocal_ok:
  assumes st: "locals_ok ps st" and p: "goodLocal p" "localAddr p \<noteq> broadcast4"
  shows "\<exists>st'. recordLocal (localAddr p) (unmappedBits p) st = Some st' \<and> locals_ok (ps @ [p]) st' \<and>
    sameFrame st st'"
proof -
  obtain br where br: "ipv4BroadcastAddress (maskedPrefix p) = Some br"
    using broadcast_total unfolding maskedPrefix_def by blast
  show ?thesis
  proof (cases "localAddr p \<in> ns_local st")
    case True
    obtain bs where bs: "raiseBits (localAddr p) (unmappedBits p) (ns_sources st) (ns_sourcePrefixBits st) = Some bs"
      "list_all2 (recorded (ps @ [p])) (ns_sources st) bs"
      using raiseBits_recorded [of ps "ns_sources st" "ns_sourcePrefixBits st" p] st by (auto simp: locals_ok_def)
    show ?thesis
      using True st bs br p
      by (cases br) (auto simp: sameFrame_def recordLocal_def maskedPrefix_def [symmetric] locals_ok_def)
  next
    case False
    have "list_all2 (recorded (ps @ [p])) (ns_sources st @ [localAddr p]) (ns_sourcePrefixBits st @ [unmappedBits p])"
    proof (rule list_all2_appendI)
      show "list_all2 (recorded (ps @ [p])) (ns_sources st) (ns_sourcePrefixBits st)"
        by (rule list.rel_mono_strong [where R = "recorded ps"]) (use False st recorded_other [of p _ ps] in \<open>auto simp: locals_ok_def\<close>)
      show "list_all2 (recorded (ps @ [p])) [localAddr p] [unmappedBits p]"
        using False st by (auto simp: locals_ok_def recorded_def image_iff)
    qed
    then show ?thesis
      using False st br p
      by (cases br) (auto simp: sameFrame_def recordLocal_def maskedPrefix_def [symmetric] locals_ok_def)
  qed
qed

lemma locals_ok_again:
  assumes "locals_ok ps st" "q \<in> set ps" "localAddr p = localAddr q" "unmappedBits p = unmappedBits q" "goodLocal p" "localAddr p \<noteq> broadcast4"
  shows "locals_ok (ps @ [p]) st"
proof -
  have m: "maskedPrefix p = maskedPrefix q" using assms by (simp add: maskedPrefix_def)
  have "recorded (ps @ [p]) = recorded ps" using assms recorded_again by (intro ext) blast
  then show ?thesis using assms m by (auto simp: locals_ok_def)
qed

lemma addLocals_ok:
  assumes "locals_ok ps st" "\<forall>p\<in>set qs. prefix_ok p" 
    and "configured = (\<lambda>p. prefixFrom (localAddr p) (unmappedBits p)) ` set ps"
  shows "\<exists>r. addLocals qs configured st = Some r \<and> (case r of Inl _ \<Rightarrow> True | Inr st' \<Rightarrow> locals_ok (ps @ qs) st' \<and>
    sameFrame st st')"
  using assms
proof (induction qs arbitrary: ps st configured)
  case (Cons p qs)
  show ?case
  proof (cases "goodLocal p")
    case False
    then show ?thesis by (auto simp: goodLocal_def localAddr_def Let_def)
  next
    case good: True
    obtain b where b: "(if is4 (localAddr p) then isIPv4Broadcast p (localAddr p) (unmappedBits p) else Some False) = Some b"
      using isIPv4Broadcast_total [OF _ good] Cons.prems(2) by (cases "is4 (localAddr p)") auto
    have guard: "\<not> (\<not> prefixIsValid p \<or> \<not> usableAddress (localAddr p))" "\<not> (unmappedBits p < 0 \<or> unmappedBits p > bitLen (localAddr p))"
      using good by (auto simp: goodLocal_def)
    have step: "addLocals (p # qs) configured st = (if b then Some (Inl BroadcastLocal)
        else if prefixFrom (localAddr p) (unmappedBits p) \<in> configured then addLocals qs configured st
        else Option.bind (recordLocal (localAddr p) (unmappedBits p) st)
               (addLocals qs (insert (prefixFrom (localAddr p) (unmappedBits p)) configured)))"
      unfolding addLocals.simps Let_def localAddr_def [symmetric] if_not_P [OF guard(1)] if_not_P [OF guard(2)] b by simp
    show ?thesis
    proof (cases b)
      case True
      then show ?thesis unfolding step by simp
    next
      case nb: False
      then have nb4: "localAddr p \<noteq> broadcast4" using b by (auto simp: broadcast4_def isIPv4Broadcast_def)
      show ?thesis
      proof (cases "prefixFrom (localAddr p) (unmappedBits p) \<in> configured")
        case True
        then obtain q where q: "q \<in> set ps" "localAddr p = localAddr q" "unmappedBits p = unmappedBits q"
          using Cons.prems(1,3) good goodLocal_prefix by (auto simp: locals_ok_def)
        have "locals_ok (ps @ [p]) st" by (rule locals_ok_again [OF Cons.prems(1) q good nb4])
        from Cons.IH [OF this, of configured] show ?thesis
          unfolding step using True nb Cons.prems(2,3) q by (auto simp: insert_absorb split: sum.splits)
      next
        case False
        obtain st' where st': "recordLocal (localAddr p) (unmappedBits p) st = Some st'" "locals_ok (ps @ [p]) st'"
          "sameFrame st st'"
          using recordLocal_ok [OF Cons.prems(1) good nb4] by blast
        from Cons.IH [OF st'(2), of "insert (prefixFrom (localAddr p) (unmappedBits p)) configured"] obtain r
          where r: "addLocals qs (insert (prefixFrom (localAddr p) (unmappedBits p)) configured) st' = Some r"
            "case r of Inl _ \<Rightarrow> True | Inr st'' \<Rightarrow> locals_ok ((ps @ [p]) @ qs) st'' \<and> sameFrame st' st''"
          using Cons.prems(2,3) by auto
        show ?thesis
          unfolding step using False nb st' r sameFrame_trans [OF st'(3)] by (cases r) auto
      qed
    qed
  qed
qed simp

section \<open>Properties and routes\<close>

text \<open>The entries of the configured map that were merged: keys are local, and every entry is stored.\<close>

definition properties_ok :: "networkState \<Rightarrow> bool" where
  "properties_ok st \<longleftrightarrow> distinct (map fst (ns_addressProperties st)) \<and>
     (\<forall>a p. map_of (ns_addressProperties st) a = Some p \<longrightarrow> a \<in> ns_local st \<and> \<not> (pr_temporary p \<and> is4 a))"

lemma addProperties_ok:
  assumes "addProperties es st = Inr st'" "properties_ok st"
  shows "properties_ok st' \<and> st' = st\<lparr>ns_addressProperties := ns_addressProperties st'\<rparr> \<and>
    (\<forall>a p. map_of (ns_addressProperties st) a = Some p \<longrightarrow> map_of (ns_addressProperties st') a = Some p) \<and>
    (\<forall>e\<in>set es. map_of (ns_addressProperties st') (unmapAddr (fst e)) = Some (snd e))"
  using assms
proof (induction es arbitrary: st)
  case (Cons e es)
  obtain a p where e: "e = (a, p)" by (cases e)
  let ?n = "unmapAddr a"
  let ?st = "st\<lparr>ns_addressProperties := AList.update ?n p (ns_addressProperties st)\<rparr>"
  from Cons.prems(1) have g: "?n \<in> ns_local st" "\<not> (pr_temporary p \<and> is4 ?n)"
    and o: "map_of (ns_addressProperties st) ?n = None \<or> map_of (ns_addressProperties st) ?n = Some p"
    and r: "addProperties es ?st = Inr st'"
    by (auto simp: e Let_def split: if_splits option.splits)
  have "properties_ok ?st"
    using Cons.prems(2) g by (auto simp: properties_ok_def AList.distinct_update AList.update_conv')
  moreover have "map_of (ns_addressProperties ?st) b = Some q" if "map_of (ns_addressProperties st) b = Some q" for b q
    using that o by (auto simp: AList.update_conv')
  ultimately show ?case using Cons.IH [OF r] by (auto simp: e AList.update_conv')
qed simp

definition route_ok :: "networkState \<Rightarrow> route \<Rightarrow> bool" where
  "route_ok st r \<longleftrightarrow> prefix_ok (ro_destination r) \<and> prefixIsValid (ro_destination r) \<and> prefixMasked (ro_destination r) = ro_destination r \<and>
     (ro_source r = AddrZero \<or> ro_source r \<in> ns_local st \<and> is6 (ro_source r) = is6 (px_addr (ro_destination r))) \<and>
     (ns_promiscuous st \<or> (\<exists>a\<in>ns_local st. is6 a = is6 (px_addr (ro_destination r))))"

lemma prefixMasked_ok [simp]: "prefix_ok (prefixMasked p)"
  by (cases "px_addr p") (auto simp: prefixMasked_def prefix_ok_def prefixFrom_def isValidAddr_def)

lemma normalizeRoutePrefix_ok:
  "normalizeRoutePrefix p = Inr d \<Longrightarrow> isValidAddr (px_addr p) \<Longrightarrow> prefixIsValid d \<and> prefixMasked d = d \<and> prefix_ok d"
  using masked_valid [of "unmapAddr (px_addr p)" "unmappedBits p"]
  by (cases "px_addr p") (auto simp: normalizeRoutePrefix_def Let_def isValidAddr_def split: if_splits)

lemma routeSource_ok: "routeSource st d a = Inr s \<Longrightarrow> s = AddrZero \<or> s \<in> ns_local st \<and> is6 s = is6 (px_addr d)"
  by (auto simp: routeSource_def Let_def split: if_splits)

lemma addRoutes_ok:
  assumes "addRoutes have4 have6 rs output6 st = Inr (st', output6')" "\<forall>r\<in>set rs. prefix_ok (ro_destination r)" "\<forall>r\<in>set (ns_routes st). route_ok st r"
    and "have4 \<Longrightarrow> \<exists>a\<in>ns_local st. \<not> is6 a" "have6 \<Longrightarrow> \<exists>a\<in>ns_local st. is6 a" "\<forall>r\<in>set (ns_routes st). is6 (px_addr (ro_destination r)) \<longrightarrow> output6"
  shows "st' = st\<lparr>ns_routes := ns_routes st'\<rparr> \<and> (\<forall>r\<in>set (ns_routes st'). route_ok st r) \<and> (output6 \<longrightarrow> output6') \<and>
    (\<forall>r\<in>set (ns_routes st'). is6 (px_addr (ro_destination r)) \<longrightarrow> output6')"
  using assms
proof (induction rs arbitrary: output6 st)
  case (Cons r rs)
  from Cons.prems(1) obtain d s where d: "normalizeRoutePrefix (ro_destination r) = Inr d" and s: "routeSource st d (ro_source r) = Inr s"
    and f: "\<not> (\<not> (if is6 (px_addr d) then have6 else have4) \<and> \<not> ns_promiscuous st)"
    by (auto simp: Let_def split: sum.splits if_splits)
  let ?r = "\<lparr>ro_destination = d, ro_source = s, ro_metric = ro_metric r\<rparr>"
  let ?st = "st\<lparr>ns_routes := ns_routes st @ [?r]\<rparr>"
  have v: "isValidAddr (px_addr (ro_destination r))" 
    using d Cons.prems(2) by (auto simp: normalizeRoutePrefix_def prefix_ok_def prefixIsValid_def split: if_splits)
  have ok: "route_ok st ?r"
    using normalizeRoutePrefix_ok [OF d v] routeSource_ok [OF s] f Cons.prems(4,5) by (auto simp: route_ok_def split: if_splits)
  have same: "route_ok ?st = route_ok st" by (intro ext) (simp add: route_ok_def)
  have go: "addRoutes have4 have6 rs (output6 \<or> is6 (px_addr d)) ?st = Inr (st', output6')"
    using Cons.prems(1) d s f by (simp add: Let_def)
  from Cons.IH [OF go] show ?case using Cons.prems(2-6) ok same by auto
qed simp

section \<open>The snapshot\<close>

definition net_ok :: "config \<Rightarrow> networkState \<Rightarrow> bool" where
  "net_ok c st \<longleftrightarrow> locals_ok (cf_localAddresses c) st \<and> properties_ok st \<and> ns_local st \<inter> ns_broadcast st = {} \<and>
     (\<forall>e\<in>set (cf_addressProperties c). map_of (ns_addressProperties st) (unmapAddr (fst e)) = Some (snd e)) \<and>
     (\<forall>r\<in>set (ns_routes st). route_ok st r) \<and> 68 \<le> ns_mtu st \<and> ns_mtu st \<le> 65535 \<and>
     ((\<exists>a\<in>ns_local st. is6 a) \<or> (\<exists>r\<in>set (ns_routes st). is6 (px_addr (ro_destination r))) \<longrightarrow> 1280 \<le> ns_mtu st) \<and>
     (ns_local st = {} \<longrightarrow> ns_promiscuous st)"

text \<open>Prefixes come from \<open>netip.PrefixFrom\<close>.\<close>

definition config_ok :: "config \<Rightarrow> bool" where
  "config_ok c \<longleftrightarrow> (\<forall>p\<in>set (cf_localAddresses c). prefix_ok p) \<and>
     (case cf_routes c of None \<Rightarrow> True | Some rs \<Rightarrow> \<forall>r\<in>set rs. prefix_ok (ro_destination r))"

lemma default_route_ok:
  "masked = prefixFrom addr_unspecified4 0 \<or> masked = prefixFrom addr_unspecified6 0 \<Longrightarrow>
   prefix_ok masked \<and> prefixIsValid masked \<and> prefixMasked masked = masked"
  by (auto simp: addr_unspecified4_def addr_unspecified6_def prefixFrom_def prefix_ok_def prefixIsValid_def prefixMasked_def
      isValidAddr_def clearBits_def)

lemma defaultRoutes_ok:
  assumes "defaultRoutes addressless have4 have6 output6 st = (st', output6')" "ns_routes st = []" "addressless \<longrightarrow> ns_promiscuous st"
    and "have4 \<Longrightarrow> \<exists>a\<in>ns_local st. \<not> is6 a" "have6 \<Longrightarrow> \<exists>a\<in>ns_local st. is6 a"
  shows "st' = st\<lparr>ns_routes := ns_routes st'\<rparr> \<and> (\<forall>r\<in>set (ns_routes st'). route_ok st r) \<and> (output6 \<longrightarrow> output6') \<and>
    (\<forall>r\<in>set (ns_routes st'). is6 (px_addr (ro_destination r)) \<longrightarrow> output6')"
proof -
  let ?r4 = "\<lparr>ro_destination = prefixFrom addr_unspecified4 0, ro_source = AddrZero, ro_metric = 0\<rparr>"
  let ?r6 = "\<lparr>ro_destination = prefixFrom addr_unspecified6 0, ro_source = AddrZero, ro_metric = 0\<rparr>"
  have k: "is6 (px_addr (prefixFrom addr_unspecified4 0)) = False" "is6 (px_addr (prefixFrom addr_unspecified6 0)) = True"
    by (simp_all add: prefixFrom_def addr_unspecified4_def addr_unspecified6_def)
  have r4: "addressless \<or> have4 \<Longrightarrow> route_ok st ?r4" using assms(3,4) default_route_ok k by (auto simp: route_ok_def)
  have r6: "addressless \<or> have6 \<Longrightarrow> route_ok st ?r6" using assms(3,5) default_route_ok k by (auto simp: route_ok_def)
  have e: "ns_routes st' = (if addressless \<or> have4 then [?r4] else []) @ (if addressless \<or> have6 then [?r6] else [])"
    "st' = st\<lparr>ns_routes := ns_routes st'\<rparr>" "output6' = (output6 \<or> addressless \<or> have6)"
    using assms(1,2) by (auto simp: defaultRoutes_def Let_def)
  show ?thesis using e(2,3) r4 r6 k unfolding e(1) by (cases "addressless \<or> have4"; cases "addressless \<or> have6"; simp)
qed

lemma locals_kinds:
  assumes "locals_ok ps st"
  shows "list_ex is4 (ns_sources st) \<longleftrightarrow> (\<exists>a\<in>ns_local st. \<not> is6 a)" "list_ex (\<lambda>a. \<not> is4 a) (ns_sources st) \<longleftrightarrow> (\<exists>a\<in>ns_local st. is6 a)"
proof -
  have "is4 a \<longleftrightarrow> \<not> is6 a" if "a \<in> set (ns_sources st)" for a
    using assms that addr_kinds [of a] is4_not_is6 [of a] by (auto simp: locals_ok_def goodLocal_def usableAddress_def)
  then show "list_ex is4 (ns_sources st) \<longleftrightarrow> (\<exists>a\<in>ns_local st. \<not> is6 a)" "list_ex (\<lambda>a. \<not> is4 a) (ns_sources st) \<longleftrightarrow> (\<exists>a\<in>ns_local st. is6 a)"
    using assms by (auto simp: locals_ok_def list_ex_iff)
qed

lemma finishRoutes_ok:
  assumes "finishRoutes c st = Inr st'" "locals_ok ps st" "config_ok c" "ns_routes st = []"
  shows "st' = st\<lparr>ns_routes := ns_routes st'\<rparr> \<and> (\<forall>r\<in>set (ns_routes st'). route_ok st r) \<and>
    ((\<exists>a\<in>ns_local st. is6 a) \<or> (\<exists>r\<in>set (ns_routes st'). is6 (px_addr (ro_destination r))) \<longrightarrow> 1280 \<le> ns_mtu st) \<and>
    (ns_local st = {} \<longrightarrow> ns_promiscuous st)"
proof -
  let ?have4 = "list_ex is4 (ns_sources st)" and ?have6 = "list_ex (\<lambda>a. \<not> is4 a) (ns_sources st)"
  let ?rs = "case cf_routes c of None \<Rightarrow> [] | Some rs \<Rightarrow> rs"
  have p: "ns_local st = {} \<longrightarrow> ns_promiscuous st" using assms(1) by (auto simp: finishRoutes_def Let_def split: if_splits)
  from assms(1) obtain st1 o1 where a: "addRoutes ?have4 ?have6 ?rs ?have6 st = Inr (st1, o1)"
    by (auto simp: finishRoutes_def Let_def split: if_splits sum.splits)
  define st2 o2 where "st2 = fst (if cf_routes c = None then defaultRoutes (ns_local st = {}) ?have4 ?have6 o1 st1 else (st1, o1))"
    and "o2 = snd (if cf_routes c = None then defaultRoutes (ns_local st = {}) ?have4 ?have6 o1 st1 else (st1, o1))"
  have e: "st' = st2" "\<not> (ns_mtu st2 < ipv6MinimumMTU \<and> o2)"
    using assms(1) a by (auto simp: finishRoutes_def Let_def st2_def o2_def case_prod_beta split: if_splits)
  have c: "\<forall>r\<in>set ?rs. prefix_ok (ro_destination r)" using assms(3) by (auto simp: config_ok_def split: option.splits)
  note k = locals_kinds [OF assms(2)]
  note r1 = addRoutes_ok [OF a c]
  have r1: "st1 = st\<lparr>ns_routes := ns_routes st1\<rparr> \<and> (\<forall>r\<in>set (ns_routes st1). route_ok st r) \<and> (?have6 \<longrightarrow> o1) \<and>
    (\<forall>r\<in>set (ns_routes st1). is6 (px_addr (ro_destination r)) \<longrightarrow> o1)"
    by (rule r1) (use assms(4) k in auto)
  have r2: "st2 = st\<lparr>ns_routes := ns_routes st2\<rparr> \<and> (\<forall>r\<in>set (ns_routes st2). route_ok st r) \<and> (?have6 \<longrightarrow> o2) \<and>
    (\<forall>r\<in>set (ns_routes st2). is6 (px_addr (ro_destination r)) \<longrightarrow> o2)"
  proof (cases "cf_routes c = None")
    case True
    then have "st1 = st" "o1 = ?have6" using a by auto
    then show ?thesis using True defaultRoutes_ok [of "ns_local st = {}" ?have4 ?have6 ?have6 st st2 o2] assms(4) k p
      by (auto simp: st2_def o2_def)
  next
    case False
    then have "st2 = st1" "o2 = o1" by (simp_all only: st2_def o2_def if_False fst_conv snd_conv)
    then show ?thesis using r1 by simp
  qed
  then have m: "ns_mtu st2 = ns_mtu st" by (metis networkState.select_convs(1) networkState.surjective networkState.update_convs(12))
  show ?thesis using e r2 m p k by (auto simp: ipv6MinimumMTU_def)
qed

lemma locals_ok_cong:
  "ns_local st' = ns_local st \<Longrightarrow> ns_sources st' = ns_sources st \<Longrightarrow> ns_sourcePrefixBits st' = ns_sourcePrefixBits st \<Longrightarrow>
   ns_localPrefixes st' = ns_localPrefixes st \<Longrightarrow> ns_broadcast st' = ns_broadcast st \<Longrightarrow> locals_ok ps st' = locals_ok ps st"
  by (simp add: locals_ok_def)

lemma populateState_ok:
  assumes c: "config_ok c" and st: "locals_ok [] st" "ns_routes st = []" "ns_addressProperties st = []"
    and mtu: "68 \<le> ns_mtu st" "ns_mtu st \<le> 65535"
  shows "\<exists>r. populateState c st = Some r \<and> (case r of Inl _ \<Rightarrow> True | Inr st' \<Rightarrow> net_ok c st')"
proof -
  from addLocals_ok [OF st(1), of "cf_localAddresses c" "{}", unfolded append_Nil] obtain r where r: "addLocals (cf_localAddresses c) {} st = Some r"
    "case r of Inl _ \<Rightarrow> True | Inr st' \<Rightarrow> locals_ok (cf_localAddresses c) st' \<and> sameFrame st st'"
    using c by (auto simp: config_ok_def)
  let ?r = "the (populateState c st)"
  have some: "populateState c st = Some ?r" by (simp add: populateState_def r(1))
  have "net_ok c st'" if built: "populateState c st = Some (Inr st')" for st'
  proof -
    from built r(1) obtain st1 where st1: "r = Inr st1" "ns_local st1 \<inter> ns_broadcast st1 = {}"
      by (auto simp: populateState_def split: sum.splits if_splits)
    from built r(1) st1 obtain st2 where st2: "addProperties (cf_addressProperties c) st1 = Inr st2" "finishRoutes c st2 = Inr st'"
      by (auto simp: populateState_def split: sum.splits if_splits)
    have l1: "locals_ok (cf_localAddresses c) st1" "sameFrame st st1" using r(2) st1(1) by auto
    have "properties_ok st1" using l1(2) st(3) by (simp add: properties_ok_def sameFrame_def)
    note p = addProperties_ok [OF st2(1) this]
    then obtain props where props: "st2 = st1\<lparr>ns_addressProperties := props\<rparr>" by metis
    have l2: "locals_ok (cf_localAddresses c) st2" using l1(1) unfolding props by (simp add: locals_ok_def)
    have "ns_routes st2 = []" using l1(2) st(2) unfolding props by (simp add: sameFrame_def)
    note f = finishRoutes_ok [OF st2(2) l2 c this]
    then obtain routes where routes: "st' = st2\<lparr>ns_routes := routes\<rparr>" by metis
    have "route_ok st' = route_ok st2" unfolding routes by (intro ext) (simp add: route_ok_def)
    then show ?thesis
      using p f l2 st1(2) mtu l1(2) unfolding routes
      by (simp add: net_ok_def locals_ok_def properties_ok_def props sameFrame_def)
  qed
  with some show ?thesis by (cases ?r) auto
qed

end
