(* ===== verification/Network_Routing.thy ===== *)
theory Network_Routing
  imports Network_Build
begin

text \<open>
  What routing and source selection promise on the snapshot of any configuration, and the witnesses on a
  configuration with two IPv4 addresses, one of them deprecated, and an IPv6 address.
\<close>

lemma buildNetworkState_net_ok:
  assumes "config_ok c"
  shows "\<exists>r. buildNetworkState registry valid c = Some r \<and> (case r of Inl _ \<Rightarrow> True | Inr st \<Rightarrow> net_ok c st)"
proof -
  define mtu where "mtu = (if cf_mtu c = 0 then defaultMTU else uint (cf_mtu c))"
  show ?thesis
  proof (cases "mtu < 68 \<or> mtu > 65535")
    case True
    then show ?thesis unfolding buildNetworkState_def Let_def mtu_def [symmetric] if_P [OF True] by simp
  next
    case False
    have "\<exists>r. populateState c (emptyState mtu c tcp udp ip) = Some r \<and> (case r of Inl _ \<Rightarrow> True | Inr st \<Rightarrow> net_ok c st)" for tcp udp ip
      using False by (intro populateState_ok [OF assms]) (auto simp: emptyState_def locals_ok_def)
    then show ?thesis unfolding buildNetworkState_def Let_def mtu_def [symmetric] if_not_P [OF False]
      by (auto split: sum.split)
  qed
qed

lemma built_ok: "config_ok c \<Longrightarrow> buildNetworkState registry valid c = Some (Inr st) \<Longrightarrow> net_ok c st"
  using buildNetworkState_net_ok [of c registry valid] by auto

lemma net_ok_sources:
  assumes "net_ok c st"
  shows "ns_local st = set (ns_sources st)" "distinct (ns_sources st)" "length (ns_sourcePrefixBits st) = length (ns_sources st)"
    "a \<in> set (ns_sources st) \<Longrightarrow> isValidAddr a"
  using assms list_all2_lengthD [of "recorded (cf_localAddresses c)" "ns_sources st" "ns_sourcePrefixBits st"]
  by (auto simp: net_ok_def locals_ok_def goodLocal_def usableAddress_def)

lemma candidates_fst:
  assumes "net_ok c st"
  shows "fst ` set (candidates st d) = {a \<in> ns_local st. is6 a = is6 d}"
proof -
  have "fst ` set (zip (ns_sources st) (ns_sourcePrefixBits st)) = set (ns_sources st)"
    using net_ok_sources(3) [OF assms] by (metis list.set_map map_fst_zip)
  moreover have "fst ` {x \<in> A. is6 (fst x) = is6 d} = {a \<in> fst ` A. is6 a = is6 d}" for A :: "(addr \<times> int) set" by auto
  ultimately show ?thesis using net_ok_sources(1) [OF assms] by (simp add: candidates_def)
qed

lemma find_first: "find P xs = Some x \<Longrightarrow> x \<in> set xs \<and> P x"
  by (auto simp: find_Some_iff)

lemma automaticSource_least:
  assumes "net_ok c st"
  shows "automaticSource st d =
    Some (case find (\<lambda>x. \<forall>y\<in>set (candidates st d). sourceKey st d x \<le> sourceKey st d y) (candidates st d) of
            None \<Rightarrow> Inl EADDRNOTAVAIL | Some x \<Rightarrow> Inr (fst x))"
proof -
  note n = net_ok_sources [OF assms]
  let ?k = "keepBest (preferred st d) (candidates st d) None"
  have k: "?k = find (\<lambda>x. \<forall>y\<in>set (candidates st d). sourceKey st d x \<le> sourceKey st d y) (candidates st d)"
    by (rule sources.keepBest_first_least) (use n(2) in \<open>auto simp: candidates_def\<close>)
  have "selectSource st d (ns_sources st) 0 AddrZero 0 = Some (case ?k of None \<Rightarrow> AddrZero | Some x \<Rightarrow> fst x)"
    unfolding candidates_def by (rule selectSource_keepBest) (use n(3,4) in auto)
  moreover have "isValidAddr (fst x)" if "?k = Some x" for x
    using imageI [OF conjunct1 [OF find_first [OF that [unfolded k]]], of fst] n(1,4) unfolding candidates_fst [OF assms] by simp
  ultimately show ?thesis unfolding k [symmetric] by (cases ?k) (auto simp: automaticSource_def isValidAddr_def)
qed

lemma least_exists:
  fixes key :: "'a \<Rightarrow> 'k::linorder"
  assumes "xs \<noteq> []"
  shows "find (\<lambda>x. \<forall>y\<in>set xs. key x \<le> key y) xs \<noteq> None"
proof -
  have "finite (key ` set xs)" "key ` set xs \<noteq> {}" using assms by auto
  then obtain x where "x \<in> set xs" "key x = Min (key ` set xs)" using Min_in by (metis imageE)
  then show ?thesis by (auto simp: find_None_iff)
qed

lemma automaticSource_result:
  assumes "net_ok c st"
  shows "\<exists>r. automaticSource st d = Some r \<and> (case r of Inr a \<Rightarrow> a \<in> ns_local st \<and> is6 a = is6 d
    | Inl e \<Rightarrow> e = EADDRNOTAVAIL \<and> (\<forall>a\<in>ns_local st. is6 a \<noteq> is6 d))"
proof -
  let ?f = "find (\<lambda>x. \<forall>y\<in>set (candidates st d). sourceKey st d x \<le> sourceKey st d y) (candidates st d)"
  note f = candidates_fst [OF assms, of d]
  show ?thesis
  proof (cases ?f)
    case None
    then have "candidates st d = []" using least_exists [of "candidates st d" "sourceKey st d"] by auto
    then show ?thesis using None f by (auto simp: automaticSource_least [OF assms])
  next
    case (Some x)
    then have "fst x \<in> {a \<in> ns_local st. is6 a = is6 d}" using imageI [OF conjunct1 [OF find_first [OF Some]], of fst] unfolding f by simp
    then show ?thesis using Some by (auto simp: automaticSource_least [OF assms])
  qed
qed

section \<open>Selected sources\<close>

definition explicit :: "addr \<Rightarrow> bool" where
  "explicit requested \<longleftrightarrow> isValidAddr (unmapAddr requested) \<and> \<not> isUnspecified (unmapAddr requested)"

text \<open>A source is local, of the family of the destination, the requested one if one is requested, and never a loopback
  address for broadcast; no address is available only when the request is not local or no local address can serve.\<close>

definition source_ok :: "networkState \<Rightarrow> addr \<Rightarrow> addr \<Rightarrow> bool \<Rightarrow> errno + addr \<Rightarrow> bool" where
  "source_ok st d requested nonUnicast r =
     (case r of
        Inr a \<Rightarrow> a \<in> ns_local st \<and> is6 a = is6 d \<and> (explicit requested \<longrightarrow> a = unmapAddr requested) \<and>
          (broadcastDestination st d \<longrightarrow> \<not> isLoopback a) \<and> (nonUnicast \<or> routeFor st d \<noteq> None)
      | Inl e \<Rightarrow> e = EADDRNOTAVAIL \<longrightarrow>
          (if explicit requested then unmapAddr requested \<notin> ns_local st
           else \<forall>a\<in>ns_local st. is6 a = is6 d \<longrightarrow> nonUnicast \<and> isLoopback a))"

lemma selectRoute_mem: "selectRoute d rs s = Some r \<Longrightarrow> r \<in> set rs \<and> routeMatches d r \<or> s = Some r"
  by (induction rs arbitrary: s) (auto split: if_splits option.splits)

lemma routeFor_source:
  assumes "net_ok c st" "routeFor st d = Some r" "isValidAddr (ro_source r)" "unmapAddr d = d"
  shows "ro_source r \<in> ns_local st \<and> is6 (ro_source r) = is6 d"
  using assms selectRoute_mem [of d "ns_routes st" None r]
  by (auto simp: routeFor_def Let_def net_ok_def route_ok_def routeMatches_def isValidAddr_def split: if_splits)

lemma broadcastDestination_unmap [simp]: "broadcastDestination st (unmapAddr d) = broadcastDestination st d"
  by (simp add: broadcastDestination_def)

lemma sourceForUnicast_ok:
  assumes n: "net_ok c st" and d: "unmapAddr d = d" "\<not> broadcastDestination st d"
  shows "\<exists>r. sourceForUnicast st d requested = Some r \<and> source_ok st d requested False r"
proof (cases "usableAddress d")
  case False
  then show ?thesis by (simp add: sourceForUnicast_def Let_def d source_ok_def)
next
  case usable: True
  show ?thesis
  proof (cases "routeFor st d")
    case None
    then show ?thesis using usable by (simp add: sourceForUnicast_def Let_def d source_ok_def)
  next
    case (Some r)
    note e = sourceForUnicast_def Let_def d(1) explicit_def [symmetric]
    show ?thesis
    proof (cases "isLoopback d \<and> d \<notin> ns_local st")
      case True
      then show ?thesis using usable Some by (simp add: e source_ok_def)
    next
      case False
      show ?thesis
      proof (cases "explicit requested")
        case True
        then show ?thesis using usable Some False d by (auto simp: e source_ok_def)
      next
        case ex: False
        show ?thesis
        proof (cases "isValidAddr (ro_source r)")
          case True
          then show ?thesis using usable Some False ex d routeFor_source [OF n Some True d(1)] by (auto simp: e source_ok_def)
        next
          case nv: False
          obtain a where a: "automaticSource st d = Some a" "case a of Inr a \<Rightarrow> a \<in> ns_local st \<and> is6 a = is6 d
            | Inl e \<Rightarrow> e = EADDRNOTAVAIL \<and> (\<forall>a\<in>ns_local st. is6 a \<noteq> is6 d)" using automaticSource_result [OF n, of d] by blast
          have "sourceForUnicast st d requested = automaticSource st d"
            unfolding e if_not_P [OF False] using usable Some ex nv by simp
          then show ?thesis using a Some ex d(2) by (cases a) (simp_all add: source_ok_def)
        qed
      qed
    qed
  qed
qed

lemma net_ok_prefixes:
  assumes "net_ok c st" "p \<in> set (ns_localPrefixes st)"
  shows "\<exists>q. goodLocal q \<and> p = maskedPrefix q"
  using assms by (auto simp: net_ok_def locals_ok_def)

lemma isIPv4Broadcast_some: "as4Word a = Some v \<Longrightarrow> as4Word (unmapAddr (px_addr (prefixMasked p))) = Some u \<Longrightarrow> \<exists>m. isIPv4Broadcast p a b = Some m"
  by (auto simp: isIPv4Broadcast_def)

lemma subnetSource_ok:
  assumes "net_ok c st" "set ps \<subseteq> set (ns_localPrefixes st)" "is4 d"
  shows "\<exists>r. subnetSource (ns_sources st) d ps = Some r \<and> (\<forall>a. r = Some a \<longrightarrow> a \<in> set (ns_sources st) \<and> usable4 a)"
  using assms(2)
proof (induction ps)
  case (Cons p ps)
  obtain q where q: "goodLocal q" "p = maskedPrefix q" using net_ok_prefixes [OF assms(1)] Cons.prems by auto
  obtain w where w: "d = Addr4 w" using assms(3) by (cases d) auto
  have "\<exists>m. (if \<not> is4 (px_addr p) then Some False else isIPv4Broadcast p d (px_bits p)) = Some m"
  proof (cases "is4 (px_addr p)")
    case True
    then obtain v where v: "localAddr q = Addr4 v"
      using q by (cases "localAddr q") (auto simp: maskedPrefix_def masked_6 goodLocal_def usableAddress_def isValidAddr_def split: if_splits)
    have "p = prefixMasked p" "px_addr p = Addr4 (clearBits (nat (32 - unmappedBits q)) v)" "px_bits p = unmappedBits q"
      using q v by (auto simp: maskedPrefix_def masked_4 goodLocal_def isValidAddr_def prefixMasked_def prefixFrom_def)
    then have "as4Word (unmapAddr (px_addr (prefixMasked p))) = Some (clearBits (nat (32 - unmappedBits q)) v)" by simp
    from isIPv4Broadcast_some [OF as4Word_4 this] show ?thesis using True by (simp add: w)
  qed auto
  then obtain m where m: "(if \<not> is4 (px_addr p) then Some False else isIPv4Broadcast p d (px_bits p)) = Some m" by blast
  show ?case using Cons.IH Cons.prems find_first [of _ "ns_sources st"] unfolding subnetSource.simps m
    by (auto split: option.split)
qed simp

lemma primarySource_ok:
  assumes n: "net_ok c st" and d: "is4 d" and ne: "\<not> explicit requested"
  shows "source_ok st d requested True (primarySource st)"
proof (cases "find usable4 (ns_sources st)")
  case None
  have "isLoopback a" if "a \<in> ns_local st" "is6 a = is6 d" for a
    using None that net_ok_sources(1,4) [OF n] addr_kinds [of a] is4_not_is6 [OF d] by (auto simp: find_None_iff usable4_def)
  then show ?thesis using None ne by (simp add: primarySource_def source_ok_def)
next
  case (Some a)
  then have "a \<in> set (ns_sources st)" "usable4 a" using find_first by fastforce+
  then show ?thesis using Some ne net_ok_sources(1) [OF n] is4_not_is6 [OF d] is4_not_is6 [of a]
    by (simp add: primarySource_def source_ok_def usable4_def)
qed

lemma sourceForNonUnicast_ok:
  assumes n: "net_ok c st" and d: "unmapAddr d = d" "isMulticastAddr d \<or> broadcastDestination st d"
  shows "\<exists>r. sourceForNonUnicast st d requested = Some r \<and> source_ok st d requested True r"
proof -
  note e = sourceForNonUnicast_def Let_def d(1) explicit_def [symmetric]
  let ?bad = "\<not> isValidAddr d \<or> isUnspecified d \<or> addrZone d \<noteq> [] \<or> \<not> isMulticastAddr d \<and> \<not> broadcastDestination st d"
  let ?group = "isMulticastAddr d \<and> \<not> validMulticastGroup d"
  have b4: "is4 d" if "broadcastDestination st d" using that d(1) by (auto simp: broadcastDestination_def Let_def split: if_splits)
  consider (bad) ?bad | (grp) "\<not> ?bad" ?group | (req) "\<not> ?bad" "\<not> ?group" "explicit requested"
    | (bc) "\<not> ?bad" "\<not> ?group" "\<not> explicit requested" "broadcastDestination st d"
    | (v4) "\<not> ?bad" "\<not> ?group" "\<not> explicit requested" "\<not> broadcastDestination st d" "is4 d"
    | (v6) "\<not> ?bad" "\<not> ?group" "\<not> explicit requested" "\<not> broadcastDestination st d" "\<not> is4 d" by blast
  then show ?thesis
  proof cases
    case bad
    then show ?thesis unfolding e if_P [OF bad] by (simp add: source_ok_def)
  next
    case grp
    then show ?thesis unfolding e if_not_P [OF grp(1)] if_P [OF grp(2)] by (simp add: source_ok_def)
  next
    case req
    have "source_ok st d requested True (requestedNonUnicast st d (unmapAddr requested))"
      using req(3) by (auto simp: requestedNonUnicast_def source_ok_def split: if_splits)
    then show ?thesis unfolding e if_not_P [OF req(1)] if_not_P [OF req(2)] if_P [OF req(3)] by simp
  next
    case bc
    obtain r where r: "(if d \<noteq> broadcast4 then subnetSource (ns_sources st) d (ns_localPrefixes st) else Some None) = Some r"
      "\<forall>a. r = Some a \<longrightarrow> a \<in> set (ns_sources st) \<and> usable4 a"
      using subnetSource_ok [OF n subset_refl b4 [OF bc(4)]] by (cases "d = broadcast4") auto
    have "source_ok st d requested True (case r of Some a \<Rightarrow> Inr a | None \<Rightarrow> primarySource st)"
    proof (cases r)
      case None
      then show ?thesis using primarySource_ok [OF n b4 [OF bc(4)] bc(3)] by simp
    next
      case (Some a)
      then show ?thesis using r(2) bc(3) net_ok_sources(1) [OF n] is4_not_is6 [OF b4 [OF bc(4)]] is4_not_is6 [of a]
        by (simp add: source_ok_def usable4_def)
    qed
    moreover have "broadcastSource st d = Some (case r of Some a \<Rightarrow> Inr a | None \<Rightarrow> primarySource st)"
      unfolding broadcastSource_def r(1) by simp
    ultimately show ?thesis unfolding e if_not_P [OF bc(1)] if_not_P [OF bc(2)] if_not_P [OF bc(3)] if_P [OF bc(4)] by simp
  next
    case v4
    then show ?thesis unfolding e if_not_P [OF v4(1)] if_not_P [OF v4(2)] if_not_P [OF v4(3)] if_not_P [OF v4(4)] if_P [OF v4(5)]
      using primarySource_ok [OF n v4(5) v4(3)] by simp
  next
    case v6
    obtain a where a: "automaticSource st d = Some a" "case a of Inr a \<Rightarrow> a \<in> ns_local st \<and> is6 a = is6 d
      | Inl e \<Rightarrow> e = EADDRNOTAVAIL \<and> (\<forall>a\<in>ns_local st. is6 a \<noteq> is6 d)" using automaticSource_result [OF n, of d] by blast
    then show ?thesis unfolding e if_not_P [OF v6(1)] if_not_P [OF v6(2)] if_not_P [OF v6(3)] if_not_P [OF v6(4)] if_not_P [OF v6(5)]
      using v6(3,4) by (cases a) (simp_all add: source_ok_def)
  qed
qed

section \<open>Properties\<close>

text \<open>
  C19: a configuration never makes \<open>buildNetworkState\<close> panic, and a snapshot it returns is consistent with the
  configuration: there is one source per configured address, with its longest prefix length; the local prefixes are
  the masked prefixes and the broadcast addresses are theirs; no local address is a broadcast address; every address
  property is stored for a local address; every route has a masked destination, a local preferred source of its
  family or none, and a usable family; and IPv6 implies an MTU of at least 1280.
\<close>

theorem buildNetworkState_consistent:
  assumes "config_ok c"
  shows "\<exists>r. buildNetworkState registry valid c = Some r \<and> (case r of Inl _ \<Rightarrow> True | Inr st \<Rightarrow> net_ok c st)"
  by (rule buildNetworkState_net_ok [OF assms])

text \<open>
  C20: the route of a destination that is not local is the first of the matching routes that have the longest prefix
  and, among those, the least metric; there is none exactly when no route matches.
\<close>

theorem routeFor_longest_prefix:
  "routeFor st destination =
     (let d = unmapAddr destination;
          ms = filter (routeMatches d) (ns_routes st)
      in if d \<in> ns_local st then Some \<lparr>ro_destination = prefixFrom d (bitLen d), ro_source = d, ro_metric = 0\<rparr>
         else find (\<lambda>r. \<forall>q\<in>set ms. routeKey r \<le> routeKey q) ms)"
  by (simp add: routeFor_def Let_def selectRoute_keepBest routes.keepBest_first_least)

text \<open>
  C18: automatic source selection is RFC 6724: over the configured addresses of the destination's family, the loop
  returns the first that is least under the lexicographic order of the rules (same address, scope, deprecation, label,
  temporary preference, longest common prefix), and fails exactly when there is none.
\<close>

theorem automaticSource_rfc6724:
  assumes "config_ok c" "buildNetworkState registry valid c = Some (Inr st)"
  shows "automaticSource st d =
    Some (case find (\<lambda>x. \<forall>y\<in>set (candidates st d). sourceKey st d x \<le> sourceKey st d y) (candidates st d) of
            None \<Rightarrow> Inl EADDRNOTAVAIL | Some x \<Rightarrow> Inr (fst x))"
  by (rule automaticSource_least [OF built_ok [OF assms]])

text \<open>
  C9: on the snapshot of any configuration and for every destination and requested source, source selection does not
  panic; a source it returns is local, has the destination's family, is the requested one when one is requested, is
  never a loopback address for a broadcast, and a unicast destination then has a route. It reports that no address is
  available only when the requested address is not local or no local address of the family can serve.
\<close>

theorem sourceForOutput_sound:
  assumes "config_ok c" "buildNetworkState registry valid c = Some (Inr st)"
  shows "\<exists>r nonUnicast. sourceForOutput st destination requested = Some (r, nonUnicast) \<and>
    (nonUnicast \<longleftrightarrow> isMulticastAddr (unmapAddr destination) \<or> broadcastDestination st destination) \<and>
    source_ok st (unmapAddr destination) requested nonUnicast r"
proof (cases "isMulticastAddr (unmapAddr destination) \<or> broadcastDestination st destination")
  case True
  then show ?thesis
    using sourceForNonUnicast_ok [OF built_ok [OF assms], of "unmapAddr destination" requested] by (auto simp: sourceForOutput_def)
next
  case False
  then show ?thesis
    using sourceForUnicast_ok [OF built_ok [OF assms], of "unmapAddr destination" requested] by (auto simp: sourceForOutput_def)
qed

section \<open>Witnesses\<close>

definition sampleConfig :: "config" where
  "sampleConfig =
     \<lparr>cf_localAddresses = [prefixFrom (Addr4 0x0a000001) 24, prefixFrom (Addr4 0x0a000102) 24, prefixFrom (Addr6 0x20010db8000000000000000000000001 []) 64],
      cf_addressProperties = [(Addr4 0x0a000001, \<lparr>pr_deprecated = True, pr_temporary = False\<rparr>)],
      cf_preferTemporary = False, cf_promiscuous = False, cf_mtu = 0, cf_routes = None, cf_maxTCPConnections = 0,
      cf_tcp = \<lparr>td_congestionControl = [], td_congestionFactory = None, td_receiveBuffer = 0, td_maximumReceiveBuffer = 0, td_sendBuffer = 0,
        td_maximumSendBuffer = 0, td_maximumPacingRate = 0, td_acceptQueue = 0, td_synBacklog = 0, td_keepAlive = False,
        td_keepAliveConfig = \<lparr>ka_idle = 0, ka_interval = 0, ka_count = 0\<rparr>, td_idleTimeout = 0, td_userTimeout = 0,
        td_disableNoDelay = False, td_trafficClass = 0, td_flowLabel = 0\<rparr>,
      cf_udp = \<lparr>dd_receiveBuffer = 0, dd_receiveErrors = False, dd_pathMTUDiscovery = 0, dd_hopLimit = 0, dd_multicastHopLimit = 0,
        dd_disableMulticastLoopback = False, dd_disableBroadcast = False, dd_trafficClass = 0, dd_flowLabel = 0\<rparr>,
      cf_ip = \<lparr>id_datagram = \<lparr>dd_receiveBuffer = 0, dd_receiveErrors = False, dd_pathMTUDiscovery = 0, dd_hopLimit = 0,
          dd_multicastHopLimit = 0, dd_disableMulticastLoopback = False, dd_disableBroadcast = False, dd_trafficClass = 0, dd_flowLabel = 0\<rparr>,
        id_headerOnWrite = False, id_headerOnRead = False\<rparr>\<rparr>"

definition cubicOnly :: "string \<Rightarrow> nat option" where
  "cubicOnly name = (if name = ''cubic'' then Some 1 else None)"


definition sampleTCP :: "tcpSocketDefaults" where
  "sampleTCP = (cf_tcp sampleConfig)\<lparr>td_congestionFactory := Some 1, td_receiveBuffer := 1048576, td_maximumReceiveBuffer := 16777216,
     td_sendBuffer := 262144, td_maximumSendBuffer := 16777216, td_acceptQueue := 128, td_synBacklog := 256,
     td_keepAliveConfig := \<lparr>ka_idle = 7200000000000, ka_interval = 75000000000, ka_count = 9\<rparr>\<rparr>"

lemma sample_tcp: "normalizeTCPSocketDefaults cubicOnly (\<lambda>_. True) (cf_tcp sampleConfig) = Inr sampleTCP"
  by (simp add: normalizeTCPSocketDefaults_def selectFactory_def sampleConfig_def sampleTCP_def cubicOnly_def orDefault_def Let_def
      tcpReceiveCapacity_def tcpMaximumReceiveCapacity_def tcpSendCapacity_def tcpMaximumSendCapacity_def tcpMaximumScaledWindow_val
      tcpAcceptQueue_def tcpSYNBacklog_def keepAliveDefaults_def tcpDefaultKeepAliveIdle_def tcpDefaultKeepAliveInterval_def
      tcpDefaultKeepAliveCount_def ipv6MaximumFlowLabel_def)

definition sampleUDP :: datagramSocketDefaults where
  "sampleUDP = (cf_udp sampleConfig)\<lparr>dd_receiveBuffer := 4194304, dd_hopLimit := 64, dd_multicastHopLimit := 1\<rparr>"

lemma sample_datagram:
  "normalizeUDPSocketDefaults (cf_udp sampleConfig) = Inr sampleUDP"
  "normalizeIPSocketDefaults (cf_ip sampleConfig) = Inr \<lparr>id_datagram = sampleUDP, id_headerOnWrite = False, id_headerOnRead = False\<rparr>"
  by (simp_all add: normalizeUDPSocketDefaults_def normalizeIPSocketDefaults_def normalizeDatagramSocketDefaults_def sampleConfig_def
      sampleUDP_def pathMTUDiscoveryValid_def orDefault_def udpDefaultReceiveCapacity_def ipDefaultReceiveCapacity_def)

definition samplePopulated :: "(configError + networkState) option" where
  "samplePopulated = populateState sampleConfig (emptyState 1500 sampleConfig sampleTCP sampleUDP
     \<lparr>id_datagram = sampleUDP, id_headerOnWrite = False, id_headerOnRead = False\<rparr>)"

definition sampleState :: "networkState" where
  "sampleState = (case samplePopulated of Some (Inr st) \<Rightarrow> st | _ \<Rightarrow> emptyState 0 sampleConfig sampleTCP sampleUDP (cf_ip sampleConfig))"

lemma sample_populated: "case samplePopulated of Some (Inr _) \<Rightarrow> True | _ \<Rightarrow> False"
  by code_simp

lemma sample_built: "buildNetworkState cubicOnly (\<lambda>_. True) sampleConfig = Some (Inr sampleState)"
proof -
  obtain st where st: "samplePopulated = Some (Inr st)" using sample_populated by (auto split: option.splits sum.splits)
  have "samplePopulated = Some (Inr sampleState)" unfolding sampleState_def st by simp
  moreover have "cf_mtu sampleConfig = 0" "cf_maxTCPConnections sampleConfig = 0" by (simp_all add: sampleConfig_def)
  ultimately show ?thesis
    by (simp add: buildNetworkState_def Let_def sample_tcp sample_datagram defaultMTU_def samplePopulated_def)
qed

lemma sample_config_ok: "config_ok sampleConfig"
  by (simp add: config_ok_def sampleConfig_def)

lemma sample_reads:
  "ns_local sampleState = {Addr4 0x0a000001, Addr4 0x0a000102, Addr6 0x20010db8000000000000000000000001 []}"
  "sourceForOutput sampleState (Addr4 0x08080808) AddrZero = Some (Inr (Addr4 0x0a000102), False)"
  "automaticSource sampleState (Addr4 0x08080808) = Some (Inr (Addr4 0x0a000102))"
  by code_simp+

theorem buildNetworkState_consistent_witness: "net_ok sampleConfig sampleState"
  using buildNetworkState_consistent [OF sample_config_ok, of cubicOnly "\<lambda>_. True"] by (simp add: sample_built)

lemma sample_route:
  "routeFor sampleState (Addr4 0x08080808) = Some \<lparr>ro_destination = prefixFrom addr_unspecified4 0, ro_source = AddrZero, ro_metric = 0\<rparr>"
  by code_simp

theorem routeFor_longest_prefix_witness:
  "(let ms = filter (routeMatches (Addr4 0x08080808)) (ns_routes sampleState)
    in find (\<lambda>r. \<forall>q\<in>set ms. routeKey r \<le> routeKey q) ms) =
   Some \<lparr>ro_destination = prefixFrom addr_unspecified4 0, ro_source = AddrZero, ro_metric = 0\<rparr>"
  using routeFor_longest_prefix [of sampleState "Addr4 0x08080808"] by (simp add: sample_route sample_reads Let_def)

theorem automaticSource_rfc6724_witness:
  "find (\<lambda>x. \<forall>y\<in>set (candidates sampleState (Addr4 0x08080808)).
      sourceKey sampleState (Addr4 0x08080808) x \<le> sourceKey sampleState (Addr4 0x08080808) y) (candidates sampleState (Addr4 0x08080808)) \<noteq> None"
  using automaticSource_rfc6724 [OF sample_config_ok sample_built, of "Addr4 0x08080808"] by (auto simp: sample_reads split: option.splits)

theorem sourceForOutput_sound_witness:
  "source_ok sampleState (Addr4 0x08080808) AddrZero False (Inr (Addr4 0x0a000102))"
  using sourceForOutput_sound [OF sample_config_ok sample_built, of "Addr4 0x08080808" AddrZero] by (auto simp: sample_reads)

end
