(* ===== verification/Fragment_Bounds.thy ===== *)
theory Fragment_Bounds
  imports Fragment_Table Fragment_Safety Network_Routing Selection
begin

text \<open>
  The bounds of the fragment table: its accounting, the limits on datagrams, ranges and bytes, the expiry of
  entries, and the choice of the evicted entry, for every sequence of operations and every map order.
\<close>

section \<open>Accounting\<close>

definition accounted :: "(fragmentKey \<times> ipPacketReassemblyEntry) list \<Rightarrow> int" where
  "accounted es = sum_list (map (\<lambda>x. en_accountedBytes (snd x)) es)"

definition entry_ok :: "fragmentKey \<Rightarrow> ipPacketReassemblyEntry \<Rightarrow> bool" where
  "entry_ok key e \<longleftrightarrow> rs_ok (en_state e) \<and> en_accountedBytes e = rs_bytes (en_state e) \<and> rs_v6 (en_state e) = fk_v6 key \<and>
     length (rs_pieces (en_state e)) \<le> fragmentMaximumPieces"

definition books_ok :: "fragmentTable \<Rightarrow> bool" where
  "books_ok t \<longleftrightarrow> distinct (map fst (ft_fragments t)) \<and> (\<forall>x\<in>set (ft_fragments t). entry_ok (fst x) (snd x)) \<and>
     ft_bytes t = accounted (ft_fragments t)"

definition table_ok :: "fragmentTable \<Rightarrow> bool" where
  "table_ok t \<longleftrightarrow> books_ok t \<and> length (ft_fragments t) \<le> fragmentMaximumSets \<and> ft_bytes t \<le> fragmentMaximumBytes"

lemma entry_ok_ge0: "entry_ok k e \<Longrightarrow> 0 \<le> en_accountedBytes e"
  by (simp add: entry_ok_def rs_ok_def)

lemma map_of_entry: "books_ok t \<Longrightarrow> map_of (ft_fragments t) k = Some e \<longleftrightarrow> (k, e) \<in> set (ft_fragments t)"
  by (simp add: books_ok_def)

lemma accounted_remove:
  "distinct (map fst es) \<Longrightarrow> map_of es k = Some e \<Longrightarrow> accounted (filter (\<lambda>x. fst x \<noteq> k) es) = accounted es - en_accountedBytes e"
proof (induction es)
  case (Cons x es)
  show ?case
  proof (cases "fst x = k")
    case True
    then have "filter (\<lambda>x. fst x \<noteq> k) es = es" using Cons.prems(1) by (auto simp: filter_id_conv intro: rev_image_eqI)
    then show ?thesis using True Cons.prems(2) by (cases x) (simp add: accounted_def)
  next
    case False
    then show ?thesis using Cons by (cases x) (simp add: accounted_def)
  qed
qed simp

lemma remove_ok:
  assumes "books_ok t"
  shows "books_ok (removeFragmentLocked k t)" "ft_fragments (removeFragmentLocked k t) = filter (\<lambda>x. fst x \<noteq> k) (ft_fragments t)"
    "ft_bytes (removeFragmentLocked k t) \<le> ft_bytes t"
proof -
  have "books_ok (removeFragmentLocked k t) \<and> ft_fragments (removeFragmentLocked k t) = filter (\<lambda>x. fst x \<noteq> k) (ft_fragments t) \<and>
    ft_bytes (removeFragmentLocked k t) \<le> ft_bytes t"
  proof (cases "map_of (ft_fragments t) k")
    case None
    then have "filter (\<lambda>x. fst x \<noteq> k) (ft_fragments t) = ft_fragments t" by (force simp: filter_id_conv map_of_eq_None_iff)
    then show ?thesis using assms None by (simp add: removeFragmentLocked_def)
  next
    case (Some e)
    have "0 \<le> en_accountedBytes e" using assms Some map_of_entry [OF assms] entry_ok_ge0 [of k e] by (force simp: books_ok_def)
    moreover have "distinct (map fst (filter (\<lambda>x. fst x \<noteq> k) (ft_fragments t)))" using assms by (simp add: books_ok_def distinct_map_filter)
    ultimately show ?thesis using assms accounted_remove [OF _ Some] by (simp add: removeFragment_eq [OF Some] books_ok_def)
  qed
  then show "books_ok (removeFragmentLocked k t)" "ft_fragments (removeFragmentLocked k t) = filter (\<lambda>x. fst x \<noteq> k) (ft_fragments t)"
    "ft_bytes (removeFragmentLocked k t) \<le> ft_bytes t" by simp_all
qed

lemma counters_ok [simp]:
  "books_ok (t\<lparr>ft_timeouts := n\<rparr>) = books_ok t" "books_ok (t\<lparr>ft_evictions := n\<rparr>) = books_ok t"
  by (simp_all add: books_ok_def)

section \<open>Expiry\<close>

lemma cleanLoop_ok:
  assumes "books_ok t" "\<forall>x\<in>set es. \<forall>y\<in>set (ft_fragments t). fst x = fst y \<longrightarrow> x = y" "cleanLoop now es t expired = (t', expired')"
  shows "books_ok t' \<and> set (ft_fragments t') = set (ft_fragments t) - {x \<in> set es. fragmentExpiry (snd x) \<le> now} \<and>
    length (ft_fragments t') \<le> length (ft_fragments t) \<and> ft_bytes t' \<le> ft_bytes t"
  using assms
proof (induction es arbitrary: t expired)
  case (Cons x es)
  obtain k e where x: "x = (k, e)" by (cases x)
  show ?case
  proof (cases "now < fragmentExpiry e")
    case True
    then show ?thesis using Cons.IH [of t expired] Cons.prems by (auto simp: x)
  next
    case False
    let ?t = "(removeFragmentLocked k t)\<lparr>ft_timeouts := ft_timeouts (removeFragmentLocked k t) + 1\<rparr>"
    note r = remove_ok [OF Cons.prems(1), of k]
    have s: "set (ft_fragments ?t) = set (ft_fragments t) - {x}" using r(2) Cons.prems(2) by (auto simp: x)
    have "length (ft_fragments ?t) \<le> length (ft_fragments t)" by (simp add: r(2))
    moreover have "\<exists>ex. cleanLoop now es ?t ex = (t', expired')" using Cons.prems(3) False by (auto simp: x Let_def)
    moreover have "\<forall>x\<in>set es. \<forall>y\<in>set (ft_fragments ?t). fst x = fst y \<longrightarrow> x = y" using Cons.prems(2) s by auto
    ultimately show ?thesis using Cons.IH [of ?t] r(1,3) s False x by fastforce
  qed
qed simp

lemma clean_ok:
  assumes "books_ok t" "cleanFragmentsLocked visit now t = (t', expired)"
  shows "books_ok t'" "set (ft_fragments t') = {x \<in> set (ft_fragments t). now < fragmentExpiry (snd x)}"
    "length (ft_fragments t') \<le> length (ft_fragments t)" "ft_bytes t' \<le> ft_bytes t"
proof -
  have "\<forall>x\<in>set (visited (visit 0) (ft_fragments t)). \<forall>y\<in>set (ft_fragments t). fst x = fst y \<longrightarrow> x = y"
    using assms(1) unfolding set_visited books_ok_def distinct_map by (meson inj_onD)
  note c = cleanLoop_ok [OF assms(1) this assms(2) [unfolded cleanFragmentsLocked_def], unfolded set_visited]
  show "books_ok t'" "length (ft_fragments t') \<le> length (ft_fragments t)" "ft_bytes t' \<le> ft_bytes t" using c by blast+
  have "set (ft_fragments t') = set (ft_fragments t) - {x \<in> set (ft_fragments t). fragmentExpiry (snd x) \<le> now}" using c by blast
  also have "\<dots> = {x \<in> set (ft_fragments t). now < fragmentExpiry (snd x)}" by auto
  finally show "set (ft_fragments t') = {x \<in> set (ft_fragments t). now < fragmentExpiry (snd x)}" .
qed

section \<open>Eviction\<close>

lemma evict_ok:
  assumes "books_ok t" "evictOldestFragmentExceptLocked visit except t = (found, t')"
  shows "books_ok t'" "set (ft_fragments t') \<subseteq> set (ft_fragments t)" "ft_bytes t' \<le> ft_bytes t"
    "\<And>k. except = Some k \<Longrightarrow> map_of (ft_fragments t') k = map_of (ft_fragments t) k"
    "\<not> found \<Longrightarrow> t' = t \<and> (\<forall>x\<in>set (ft_fragments t). except = Some (fst x))"
proof -
  have "books_ok t' \<and> set (ft_fragments t') \<subseteq> set (ft_fragments t) \<and> ft_bytes t' \<le> ft_bytes t \<and>
    (\<forall>k. except = Some k \<longrightarrow> map_of (ft_fragments t') k = map_of (ft_fragments t) k) \<and>
    (\<not> found \<longrightarrow> t' = t \<and> (\<forall>x\<in>set (ft_fragments t). except = Some (fst x)))"
    using evict_cases [of except visit t]
  proof (elim disjE conjE bexE)
    assume "evictOldestFragmentExceptLocked visit except t = (False, t)" "\<forall>y\<in>set (ft_fragments t). except = Some (fst y)"
    then show ?thesis using assms by auto
  next
    fix y assume y: "y \<in> set (ft_fragments t)" "except \<noteq> Some (fst y)" "evictOldestFragmentExceptLocked visit except t =
      (True, (removeFragmentLocked (fst y) t)\<lparr>ft_evictions := ft_evictions (removeFragmentLocked (fst y) t) + 1\<rparr>)"
    have "map_of (filter (\<lambda>x. fst x \<noteq> fst y) es) k = map_of es k" if "k \<noteq> fst y" for k and es :: "(fragmentKey \<times> ipPacketReassemblyEntry) list"
      using that by (induction es) auto
    then show ?thesis using y assms remove_ok [OF assms(1), of "fst y"] by auto
  qed
  then show "books_ok t'" "set (ft_fragments t') \<subseteq> set (ft_fragments t)" "ft_bytes t' \<le> ft_bytes t"
    "\<And>k. except = Some k \<Longrightarrow> map_of (ft_fragments t') k = map_of (ft_fragments t) k"
    "\<not> found \<Longrightarrow> t' = t \<and> (\<forall>x\<in>set (ft_fragments t). except = Some (fst x))" by blast+
qed

lemma evictSets_ok:
  assumes "books_ok t"
  shows "books_ok (evictSets visit t) \<and> set (ft_fragments (evictSets visit t)) \<subseteq> set (ft_fragments t) \<and>
    ft_bytes (evictSets visit t) \<le> ft_bytes t \<and> length (ft_fragments (evictSets visit t)) < fragmentMaximumSets"
  using assms
proof (induction visit t rule: evictSets.induct)
  case (1 visit t)
  show ?case
  proof (cases "length (ft_fragments t) \<ge> fragmentMaximumSets")
    case True
    obtain found t' where e: "evictOldestFragmentExceptLocked visit None t = (found, t')" by fastforce
    note o = evict_ok [OF 1(2) e]
    show ?thesis using 1(1) [OF True] o(1-3) e True by (subst (1 2 3 4) evictSets.simps) auto
  next
    case False
    then show ?thesis using 1(2) by (simp add: evictSets.simps [of visit t])
  qed
qed

lemma single_key: "distinct (map fst es) \<Longrightarrow> \<forall>x\<in>set es. fst x = k \<Longrightarrow> length es \<le> 1"
  by (cases es; cases "tl es") auto

lemma evictBytes_ok:
  assumes "books_ok t"
  shows "books_ok (evictBytes visit key t) \<and> set (ft_fragments (evictBytes visit key t)) \<subseteq> set (ft_fragments t) \<and>
    map_of (ft_fragments (evictBytes visit key t)) key = map_of (ft_fragments t) key \<and>
    length (ft_fragments (evictBytes visit key t)) \<le> length (ft_fragments t) \<and>
    (ft_bytes (evictBytes visit key t) \<le> fragmentMaximumBytes \<or> length (ft_fragments (evictBytes visit key t)) \<le> 1)"
  using assms
proof (induction visit key t rule: evictBytes.induct)
  case (1 visit key t)
  show ?case
  proof (cases "ft_bytes t > fragmentMaximumBytes \<and> length (ft_fragments t) > 1")
    case True
    obtain found t' where e: "evictOldestFragmentExceptLocked visit (Some key) t = (found, t')" by fastforce
    note o = evict_ok [OF 1(2) e]
    have "length (ft_fragments t') \<le> length (ft_fragments t)" if found using evict_shorter [of visit "Some key" t t'] e that by simp
    moreover have found
      using o(5) True single_key [of "ft_fragments t" key] 1(2) by (cases found) (auto simp: books_ok_def)
    ultimately show ?thesis using 1(1) [OF True e [symmetric]] o(1-4) e True
      by (subst (1 2 3 4 5 6) evictBytes.simps) auto
  next
    case False
    then show ?thesis using 1(2) by (auto simp: evictBytes.simps [of visit key t])
  qed
qed

interpretation ages: preference "\<lambda>x y. en_updated (snd x) < en_updated (snd y)" "\<lambda>x. en_updated (snd x)" "UNIV :: (fragmentKey \<times> ipPacketReassemblyEntry) set"
  by unfold_locales auto

lemma oldestLoop_keepBest:
  "oldestLoop except es s = keepBest (\<lambda>x y. en_updated (snd x) < en_updated (snd y)) (filter (\<lambda>x. except \<noteq> Some (fst x)) es) s"
  by (induction except es s rule: oldestLoop.induct) (auto split: option.splits)

text \<open>The evicted entry is the first visited one of those updated least recently.\<close>

lemma evicted_least_recent:
  "oldestLoop except es None =
     (let xs = filter (\<lambda>x. except \<noteq> Some (fst x)) es
      in find (\<lambda>x. \<forall>y\<in>set xs. en_updated (snd x) \<le> en_updated (snd y)) xs)"
  by (simp add: oldestLoop_keepBest ages.keepBest_first_least Let_def)

section \<open>Adding a fragment\<close>

lemma remove_setEntry:
  assumes "map_of (ft_fragments t) key = Some e"
  shows "removeFragmentLocked key (setEntry key (e\<lparr>en_state := r, en_accountedBytes := b\<rparr>) (t\<lparr>ft_bytes := ft_bytes t + (b - en_accountedBytes e)\<rparr>)) =
    removeFragmentLocked key t"
  using assms by (simp add: removeFragmentLocked_def setEntry_def AList.update_conv' AList.delete_update_same)

lemma update_present: "map_of es k = Some e \<Longrightarrow> map fst (AList.update k e' es) = map fst es"
  by (induction es) auto

lemma accounted_update: "map_of es k = Some e \<Longrightarrow> accounted (AList.update k e' es) = accounted es - en_accountedBytes e + en_accountedBytes e'"
  by (induction es) (auto simp: accounted_def)

lemma accounted_insert: "map_of es k = None \<Longrightarrow> AList.update k e es = es @ [(k, e)]"
  by (induction es) auto

lemma set_update_present: "set (AList.update k e es) \<subseteq> insert (k, e) (set es)"
  by (induction es) auto

lemma setEntry_ok:
  assumes "books_ok t" "map_of (ft_fragments t) key = Some e" "entry_ok key e'" "en_accountedBytes e' = b"
  shows "books_ok (setEntry key e' (t\<lparr>ft_bytes := ft_bytes t + (b - en_accountedBytes e)\<rparr>))"
  using assms update_present [OF assms(2), of e'] accounted_update [OF assms(2), of e'] set_update_present [of key e' "ft_fragments t"]
  by (auto simp: books_ok_def setEntry_def)

lemma settle_ok:
  assumes t: "books_ok t" "length (ft_fragments t) \<le> fragmentMaximumSets" "map_of (ft_fragments t) key = Some e"
    and others: "ft_bytes t - en_accountedBytes e \<le> fragmentMaximumBytes"
    and fresh: "\<forall>x\<in>set (ft_fragments t). now < fragmentExpiry (snd x)"
    and r: "case result of Pending _ \<Rightarrow> rs_ok r \<and> rs_v6 r = fk_v6 key \<and> length (rs_pieces r) \<le> fragmentMaximumPieces | _ \<Rightarrow> True"
    and s: "settleFragment visit key e now r result t = (t', packet, held)"
  shows "table_ok t' \<and> (\<forall>x\<in>set (ft_fragments t'). now < fragmentExpiry (snd x)) \<and>
    (held \<longleftrightarrow> packet = None \<and> key \<in> fst ` set (ft_fragments t'))"
proof -
  have e: "(key, e) \<in> set (ft_fragments t)" using t(1,3) map_of_entry by auto
  have gone: ?thesis if "t' = removeFragmentLocked key t" "\<not> held"
  proof -
    note o = remove_ok [OF t(1), of key]
    have "length (ft_fragments t') \<le> fragmentMaximumSets" using le_trans [OF length_filter_le t(2)] o(2) that(1) by simp
    moreover have "ft_bytes t' \<le> fragmentMaximumBytes" using others that(1) by (simp add: removeFragment_eq [OF t(3)])
    ultimately show ?thesis using o(1,2) that fresh by (auto simp: table_ok_def)
  qed
  show ?thesis
  proof (cases result)
    case (Pending added)
    define e1 where "e1 = e\<lparr>en_state := r, en_accountedBytes := rs_bytes r\<rparr>"
    define e2 where "e2 = (if now < en_created e1 then e1\<lparr>en_created := now\<rparr> else e1)"
    define e3 where "e3 = (if added \<and> now > en_updated e2 then e2\<lparr>en_updated := now\<rparr> else e2)"
    define t1 where "t1 = setEntry key e3 (t\<lparr>ft_bytes := ft_bytes t + (rs_bytes r - en_accountedBytes e)\<rparr>)"
    define t2 where "t2 = evictBytes visit key t1"
    have rr: "rs_ok r" "rs_v6 r = fk_v6 key" "length (rs_pieces r) \<le> fragmentMaximumPieces" using r Pending by auto
    have f3: "en_state e3 = r" "en_accountedBytes e3 = rs_bytes r" by (simp_all add: e3_def e2_def e1_def)
    have "rs_v6 (en_state e) = fk_v6 key" using t(1) e by (auto simp: books_ok_def entry_ok_def)
    then have x3: "now < fragmentExpiry e3" using bspec [OF fresh e] rr(2)
      by (auto simp: e3_def e2_def e1_def fragmentExpiry_def fragmentIPv4Lifetime_def fragmentIPv6Lifetime_def)
    have b1: "books_ok t1" unfolding t1_def by (rule setEntry_ok [OF t(1,3)]) (use rr f3 in \<open>simp_all add: entry_ok_def\<close>)
    have m1: "map_of (ft_fragments t1) key = Some e3" by (simp add: t1_def setEntry_def AList.update_conv')
    have "length (ft_fragments t1) = length (ft_fragments t)"
      using arg_cong [OF update_present [OF t(3), of e3], of length] by (simp add: t1_def setEntry_def)
    then have l1: "length (ft_fragments t1) \<le> fragmentMaximumSets" using t(2) by simp
    have fr1: "\<forall>x\<in>set (ft_fragments t1). now < fragmentExpiry (snd x)"
      using fresh x3 set_update_present [of key e3 "ft_fragments t"] by (auto simp: t1_def setEntry_def)
    note o = evictBytes_ok [OF b1, of visit key, folded t2_def]
    have fr2: "\<forall>x\<in>set (ft_fragments t2). now < fragmentExpiry (snd x)" using o fr1 by blast
    have k2: "(key, e3) \<in> set (ft_fragments t2)" using o m1 map_of_entry [of t2 key e3] by simp
    have s': "(t', packet, held) = (if ft_bytes t2 > fragmentMaximumBytes then (removeFragmentLocked key t2, None, False) else (t2, None, True))"
      unfolding s [symmetric] settleFragment_def Let_def Pending addResult.case e1_def [symmetric] e2_def [symmetric] e3_def [symmetric]
        t1_def [symmetric] t2_def [symmetric] by (rule refl)
    show ?thesis
    proof (cases "ft_bytes t2 > fragmentMaximumBytes")
      case True
      then have "length (ft_fragments t2) \<le> 1" using o by simp
      then have "ft_fragments t2 = [(key, e3)]" using k2 by (cases "ft_fragments t2") auto
      then have "ft_fragments t' = []" using True s' o remove_ok(2) [of t2 key] by simp
      moreover have "books_ok t'" using True s' o remove_ok(1) [of t2 key] by simp
      ultimately show ?thesis using True s' by (auto simp: table_ok_def books_ok_def accounted_def fragmentMaximumBytes_def)
    next
      case False
      then have "t' = t2" "packet = None" held using s' by simp_all
      then show ?thesis using False o l1 fr2 k2 by (force simp: table_ok_def)
    qed
  qed (use s t(3) gone remove_setEntry [OF t(3)] in \<open>auto simp: settleFragment_def Let_def\<close>)
qed

lemma addFragment_bounded:
  assumes "rs_ok r" "fragment_ok f" "fr_v6 f = rs_v6 r" "length (rs_pieces r) \<le> m" "0 < m"
  shows "\<exists>r' result. addFragment big r f m = Some (r', result) \<and>
    (case result of Pending _ \<Rightarrow> rs_ok r' \<and> rs_v6 r' = rs_v6 r \<and> length (rs_pieces r') \<le> m | _ \<Rightarrow> True)"
  using assms(1-3)
proof (cases rule: addFragment_cases [where big = big and m = m])
  case (dup g)
  then show ?thesis using noteTotal_ok [OF assms(1) dup(2)] assms(4) by simp
next
  case (kept g)
  have "rs_pieces (noteTotal r g) = rs_pieces r" by (simp add: noteTotal_def)
  then have "length (rs_pieces r) < m" using kept(2) assms(5) by (simp add: accepts_def admissible_def)
  then show ?thesis using kept accepted_ok [OF assms(1) kept(3,4,2)] by (simp add: insertPiece_def Let_def)
qed auto

lemma reassemble_ok:
  assumes t: "table_ok t" and f: "pf_parameter pf \<or> fragment_ok (pf_fragment pf)"
  shows "\<exists>o'. reassembleParsedFragmentStatus big visit member network closed pf now loopback t = Some o' \<and> table_ok (fo_table o') \<and>
    (fo_table o' = t \<and> fo_packet o' = None \<and> \<not> fo_pending o' \<or>
     (\<forall>x\<in>set (ft_fragments (fo_table o')). now < fragmentExpiry (snd x)) \<and>
     (fo_pending o' \<longleftrightarrow> fo_packet o' = None \<and> reassemblyKey (pf_fragment pf) loopback \<in> fst ` set (ft_fragments (fo_table o'))))"
proof -
  let ?f = "pf_fragment pf"
  define key where "key = reassemblyKey ?f loopback"
  let ?skip = "pf_truncated pf \<or> pf_parameter pf \<or> classifyInboundDestination member network (fr_target ?f) loopback = DestinationRejected \<or>
    \<not> validInboundFragmentSource network (fr_source ?f) (fr_target ?f) (fr_protocol ?f)"
  show ?thesis
  proof (cases "?skip \<or> closed")
    case True
    then show ?thesis using t by (cases ?skip) (auto simp: reassembleParsedFragmentStatus_def Let_def)
  next
    case False
    then have ns: "\<not> ?skip" "\<not> closed" and ok: "fragment_ok ?f" using f by auto
    obtain t1 expired where c: "cleanFragmentsLocked visit now t = (t1, expired)" by fastforce
    have b: "books_ok t" "length (ft_fragments t) \<le> fragmentMaximumSets" "ft_bytes t \<le> fragmentMaximumBytes" using t by (auto simp: table_ok_def)
    note cl = clean_ok [OF b(1) c]
    define fresh where "fresh = \<lparr>en_created = now, en_updated = now, en_accountedBytes = 0, en_state = rs_start ?f\<rparr>"
    obtain e t2 where e: "(case map_of (ft_fragments t1) key of Some entry \<Rightarrow> (entry, t1) | None \<Rightarrow> (fresh, setEntry key fresh (evictSets visit t1))) = (e, t2)"
      by fastforce
    have k6: "fk_v6 key = fr_v6 ?f" by (simp add: key_def reassemblyKey_def)
    have "books_ok t2 \<and> length (ft_fragments t2) \<le> fragmentMaximumSets \<and> map_of (ft_fragments t2) key = Some e \<and>
      ft_bytes t2 - en_accountedBytes e \<le> fragmentMaximumBytes \<and> (\<forall>x\<in>set (ft_fragments t2). now < fragmentExpiry (snd x))"
    proof (cases "map_of (ft_fragments t1) key")
      case None
      note ev = evictSets_ok [OF cl(1), of visit]
      have n: "map_of (ft_fragments (evictSets visit t1)) key = None"
        using None ev by (auto simp: map_of_eq_None_iff)
      have "entry_ok key fresh" using rs_start_ok [OF ok] k6 by (simp add: entry_ok_def fresh_def rs_start_def)
      moreover have "now < fragmentExpiry fresh"
        by (simp add: fresh_def fragmentExpiry_def fragmentIPv4Lifetime_def fragmentIPv6Lifetime_def)
      moreover have "key \<notin> fst ` set (ft_fragments (evictSets visit t1))" using n by (simp add: map_of_eq_None_iff)
      moreover have "e = fresh" "t2 = setEntry key fresh (evictSets visit t1)" using e None by auto
      moreover have "en_accountedBytes fresh = 0" by (simp add: fresh_def)
      ultimately show ?thesis using ev cl n b(3)
        by (auto simp: setEntry_def accounted_insert [OF n] books_ok_def accounted_def map_add_def)
    next
      case (Some e')
      then have "e = e'" "t2 = t1" using e by auto
      moreover have "0 \<le> en_accountedBytes e'" using cl(1) Some map_of_entry [OF cl(1)] entry_ok_ge0 [of key e'] by (force simp: books_ok_def)
      ultimately show ?thesis using Some cl b by auto
    qed
    then have t2: "books_ok t2" "length (ft_fragments t2) \<le> fragmentMaximumSets" "map_of (ft_fragments t2) key = Some e"
      "ft_bytes t2 - en_accountedBytes e \<le> fragmentMaximumBytes" "\<forall>x\<in>set (ft_fragments t2). now < fragmentExpiry (snd x)" by blast+
    have eo: "entry_ok key e" using t2(1,3) map_of_entry [OF t2(1)] by (auto simp: books_ok_def)
    obtain r result where r: "addFragment big (en_state e) ?f fragmentMaximumPieces = Some (r, result)"
      "case result of Pending _ \<Rightarrow> rs_ok r \<and> rs_v6 r = rs_v6 (en_state e) \<and> length (rs_pieces r) \<le> fragmentMaximumPieces | _ \<Rightarrow> True"
      using addFragment_bounded [of "en_state e" ?f fragmentMaximumPieces big] eo ok k6 by (auto simp: entry_ok_def fragmentMaximumPieces_def)
    obtain t3 packet held where s: "settleFragment visit key e now r result t2 = (t3, packet, held)" by (cases "settleFragment visit key e now r result t2") auto
    have "case result of Pending _ \<Rightarrow> rs_ok r \<and> rs_v6 r = fk_v6 key \<and> length (rs_pieces r) \<le> fragmentMaximumPieces | _ \<Rightarrow> True"
      using r(2) eo by (auto simp: entry_ok_def split: addResult.splits)
    note fin = settle_ok [OF t2(1-5) this s]
    have "reassembleParsedFragmentStatus big visit member network closed pf now loopback t =
      Some \<lparr>fo_table = t3, fo_expired = expired, fo_packet = packet, fo_pending = held\<rparr>"
      unfolding reassembleParsedFragmentStatus_def Let_def if_not_P [OF ns(1)] if_not_P [OF ns(2)] key_def [symmetric] fresh_def [symmetric]
        c split_conv e r(1) option.map s by simp
    then show ?thesis using fin by (simp add: key_def)
  qed
qed

section \<open>Every reachable table\<close>

lemma pruneLoop_ok:
  assumes "table_ok t"
  shows "table_ok (pruneLoop keep es t) \<and> set (ft_fragments (pruneLoop keep es t)) \<subseteq> set (ft_fragments t) \<and>
    (\<forall>x\<in>set es. \<not> keep (fst x) \<longrightarrow> fst x \<notin> fst ` set (ft_fragments (pruneLoop keep es t)))"
  using assms
proof (induction es arbitrary: t)
  case (Cons x es)
  obtain k e where x: "x = (k, e)" by (cases x)
  have b: "books_ok t" using Cons.prems by (simp add: table_ok_def)
  note r = remove_ok [OF b, of k]
  have "table_ok (removeFragmentLocked k t)"
    using Cons.prems r le_trans [OF length_filter_le] by (auto simp: table_ok_def)
  then show ?case using Cons.IH [of t] Cons.IH [of "removeFragmentLocked k t"] Cons.prems r(2) by (cases "keep k") (auto simp: x)
qed simp

definition noFragments :: fragmentTable where
  "noFragments = \<lparr>ft_fragments = [], ft_bytes = 0, ft_timeouts = 0, ft_evictions = 0\<rparr>"

text \<open>The tables of a stack: any packets at any times, the cleaner, and discards and prunes.\<close>

inductive fragment_table :: "bool \<Rightarrow> fragmentTable \<Rightarrow> bool" for big where
  start: "fragment_table big noFragments"
| add: "fragment_table big t \<Longrightarrow> parseFragment big packet skip = Some (Some pf) \<Longrightarrow>
    reassembleParsedFragmentStatus big visit member network closed pf now loopback t = Some outcome \<Longrightarrow> fragment_table big (fo_table outcome)"
| clean: "fragment_table big t \<Longrightarrow> fragment_table big (fst (cleanFragmentsLocked visit now t))"
| discard: "fragment_table big t \<Longrightarrow> fragment_table big (discardFragment key t)"
| prune: "fragment_table big t \<Longrightarrow> fragment_table big (pruneFragments visit member network t)"

lemma parsed_ok: "parseFragment big packet skip = Some (Some pf) \<Longrightarrow> pf_parameter pf \<or> fragment_ok (pf_fragment pf)"
  using parseFragment_ok by blast

lemma fragment_table_ok: "fragment_table big t \<Longrightarrow> table_ok t"
proof (induction rule: fragment_table.induct)
  case start
  show ?case by (simp add: noFragments_def table_ok_def books_ok_def accounted_def fragmentMaximumBytes_def)
next
  case (add t packet skip pf visit member network closed now loopback outcome)
  then show ?case using reassemble_ok [OF add.IH parsed_ok [OF add.hyps(2)], of big visit member network closed now loopback] by auto
next
  case (clean t visit now)
  then show ?case using clean_ok [of t visit now] by (cases "cleanFragmentsLocked visit now t") (auto simp: table_ok_def)
next
  case (discard t key)
  then show ?case using remove_ok [of t key] le_trans [OF length_filter_le] by (auto simp: table_ok_def discardFragment_def)
next
  case (prune t visit member network)
  then show ?case using pruneLoop_ok by (simp add: pruneFragments_def)
qed

text \<open>
  C8: whatever packets arrive and in whatever order the map is visited, the fragment table stays within its bounds: at
  most 128 datagrams, at most 256 ranges each, and at most 4 MiB retained, which is exactly what the entries hold.
  Adding one more fragment does not panic, keeps all of that, and leaves only entries whose lifetime has not ended;
  it reports a pending fragment exactly when its datagram is kept and incomplete.
\<close>

theorem fragment_table_bounded:
  assumes "fragment_table big t" "parseFragment big packet skip = Some (Some pf)"
  shows "length (ft_fragments t) \<le> 128 \<and> ft_bytes t \<le> 4194304 \<and>
    ft_bytes t = (\<Sum>x\<leftarrow>ft_fragments t. rs_bytes (en_state (snd x))) \<and>
    (\<forall>x\<in>set (ft_fragments t). length (rs_pieces (en_state (snd x))) \<le> 256) \<and>
    (\<exists>outcome. reassembleParsedFragmentStatus big visit member network closed pf now loopback t = Some outcome \<and>
      table_ok (fo_table outcome) \<and>
      (fo_table outcome = t \<and> fo_packet outcome = None \<and> \<not> fo_pending outcome \<or>
       (\<forall>x\<in>set (ft_fragments (fo_table outcome)). now < fragmentExpiry (snd x)) \<and>
       (fo_pending outcome \<longleftrightarrow>
          fo_packet outcome = None \<and> reassemblyKey (pf_fragment pf) loopback \<in> fst ` set (ft_fragments (fo_table outcome)))))"
proof -
  have t: "table_ok t" by (rule fragment_table_ok [OF assms(1)])
  then have e: "entry_ok (fst x) (snd x)" if "x \<in> set (ft_fragments t)" for x using that by (simp add: table_ok_def books_ok_def)
  have "ft_bytes t = (\<Sum>x\<leftarrow>ft_fragments t. rs_bytes (en_state (snd x)))"
  proof -
    have m: "map (\<lambda>x. en_accountedBytes (snd x)) (ft_fragments t) = map (\<lambda>x. rs_bytes (en_state (snd x))) (ft_fragments t)"
      using e by (auto simp: entry_ok_def)
    show ?thesis using t unfolding table_ok_def books_ok_def accounted_def m by blast
  qed
  moreover have "length (rs_pieces (en_state (snd x))) \<le> 256" if "x \<in> set (ft_fragments t)" for x
    using e [OF that] by (simp add: entry_ok_def fragmentMaximumPieces_def)
  ultimately show ?thesis
    using t reassemble_ok [OF t parsed_ok [OF assms(2)], of big visit member network closed now loopback]
    by (simp add: table_ok_def fragmentMaximumSets_def fragmentMaximumBytes_def)
qed

text \<open>A promiscuous stack that receives the first fragment of a datagram for another host.\<close>

definition sampleOutcome :: "parsedFragment \<Rightarrow> fragmentOutcome option" where
  "sampleOutcome pf = reassembleParsedFragmentStatus False (\<lambda>_ _. 0) (\<lambda>_. False) (sampleState\<lparr>ns_promiscuous := True\<rparr>) False pf 5 False noFragments"

lemma sample_outcome:
  "case parseFragment False sampleFragment True of Some (Some pf) \<Rightarrow>
     (case sampleOutcome pf of Some outcome \<Rightarrow> fo_pending outcome \<and> ft_bytes (fo_table outcome) = 28 | None \<Rightarrow> False) | _ \<Rightarrow> False"
  by code_simp

theorem fragment_table_bounded_witness:
  "\<exists>pf outcome. parseFragment False sampleFragment True = Some (Some pf) \<and> sampleOutcome pf = Some outcome \<and>
     fo_pending outcome \<and> ft_bytes (fo_table outcome) = 28 \<and> table_ok (fo_table outcome)"
proof -
  obtain pf outcome where p: "parseFragment False sampleFragment True = Some (Some pf)" "sampleOutcome pf = Some outcome"
    "fo_pending outcome" "ft_bytes (fo_table outcome) = 28"
    using sample_outcome by (auto split: option.splits)
  from fragment_table_bounded [OF fragment_table.start p(1), of "\<lambda>_ _. 0" "\<lambda>_. False" "sampleState\<lparr>ns_promiscuous := True\<rparr>" False 5 False]
  have "table_ok (fo_table outcome)" using p(2) unfolding sampleOutcome_def by auto
  then show ?thesis using p by blast
qed

end
