(* ===== verification/Control.thy ===== *)
theory Control
  imports Netip Ip_Wire
begin

text \<open>
  Linux ancillary data, \<^verbatim>\<open>src/control.go\<close>: the socket-error record, the IPv4 and IPv6 packet metadata of
  message reads and writes, and the reporting policy for ICMP errors. An outer \<open>None\<close> is an index panic, \<open>Inl\<close>
  the error that is returned. The nil receivers of the pointer methods are not modelled.
\<close>

section \<open>Records\<close>

definition linuxControlHeaderSize :: nat where "linuxControlHeaderSize = 16"
definition linuxControlAlignment :: nat where "linuxControlAlignment = 8"
definition linuxLevelIP :: u32 where "linuxLevelIP = 0"
definition linuxIPTypeOfService :: u32 where "linuxIPTypeOfService = 1"
definition linuxIPTimeToLive :: u32 where "linuxIPTimeToLive = 2"
definition linuxIPPacketInfo :: u32 where "linuxIPPacketInfo = 8"
definition linuxIPReceiveError :: u32 where "linuxIPReceiveError = 11"
definition linuxLevelIPv6 :: u32 where "linuxLevelIPv6 = 41"
definition linuxIPv6FlowInfo :: u32 where "linuxIPv6FlowInfo = 11"
definition linuxIPv6FlowInfoMask :: u32 where "linuxIPv6FlowInfoMask = 0x0fffffff"
definition linuxIPv6ReceiveError :: u32 where "linuxIPv6ReceiveError = 25"
definition linuxIPv6PacketInfo :: u32 where "linuxIPv6PacketInfo = 50"
definition linuxIPv6HopLimit :: u32 where "linuxIPv6HopLimit = 52"
definition linuxIPv6TrafficClass :: u32 where "linuxIPv6TrafficClass = 67"

datatype controlError =
    InvalidOffender | InvalidControlLength | DuplicateSocketError | InvalidSocketError | InvalidOffender6 | InvalidOffender4
  | SocketErrorNotFound | InterfaceIndexUnsupported | InvalidSource | InvalidDestination | TTLRange | TOSRange
  | HopLimitRange | TrafficClassRange | FlowLabelRange | InvalidPacketInfo4 | InterfaceIndexNonzero | InvalidPacketInfo6
  | InvalidTTL | InvalidTOS | InvalidHopLimit | InvalidTrafficClass | InvalidFlowInfo | ConflictingFlowInfo
  | UnsupportedControl | NoICMPMetadata

text \<open>\<open>binary.LittleEndian\<close>.\<close>

definition le_put16 :: "u16 \<Rightarrow> bytes" where "le_put16 w = rev (be_put16 w)"
definition le_put32 :: "u32 \<Rightarrow> bytes" where "le_put32 w = rev (be_put32 w)"
definition le_put64 :: "u64 \<Rightarrow> bytes" where "le_put64 w = rev (be_put64 w)"

definition readLE16 :: "bytes \<Rightarrow> nat \<Rightarrow> u16 option" where
  "readLE16 bs lo = Option.bind (go_slice bs lo (lo + 2)) (be_get16 \<circ> rev)"

definition readLE32 :: "bytes \<Rightarrow> nat \<Rightarrow> u32 option" where
  "readLE32 bs lo = Option.bind (go_slice bs lo (lo + 4)) (be_get32 \<circ> rev)"

definition readLE64 :: "bytes \<Rightarrow> nat \<Rightarrow> u64 option" where
  "readLE64 bs lo = map_option le_get64 (go_slice bs lo (lo + 8))"

definition alignControl :: "nat \<Rightarrow> nat" where
  "alignControl n = (n + linuxControlAlignment - 1) div linuxControlAlignment * linuxControlAlignment"

definition appendLinuxControl :: "bytes \<Rightarrow> u32 \<Rightarrow> u32 \<Rightarrow> bytes \<Rightarrow> bytes" where
  "appendLinuxControl control level kind data =
     (let len = linuxControlHeaderSize + length data;
          space = alignControl len
      in control @ le_put64 (of_nat len) @ le_put32 level @ le_put32 kind @ data @ replicate (space - len) 0)"

definition appendLinuxControlInt32 :: "bytes \<Rightarrow> u32 \<Rightarrow> u32 \<Rightarrow> int \<Rightarrow> bytes" where
  "appendLinuxControlInt32 control level kind value = appendLinuxControl control level kind (le_put32 (of_int value))"

text \<open>The loop of both parsers: the framing of each record, then \<open>body\<close> with its level, type and data.\<close>

function walkControl ::
  "(u32 \<Rightarrow> u32 \<Rightarrow> bytes \<Rightarrow> 's \<Rightarrow> (controlError + 's) option) \<Rightarrow> bytes \<Rightarrow> 's \<Rightarrow> (controlError + 's) option" where
  "walkControl body control st =
     (if length control < linuxControlHeaderSize then Some (Inr st)
      else do {
        length64 \<leftarrow> readLE64 control 0;
        if length64 < of_nat linuxControlHeaderSize \<or> length64 > of_nat (length control) then Some (Inl InvalidControlLength)
        else do {
          let len = unat length64;
          level \<leftarrow> readLE32 control 8;
          kind \<leftarrow> readLE32 control 12;
          data \<leftarrow> go_slice control linuxControlHeaderSize len;
          r \<leftarrow> body level kind data st;
          case r of
            Inl e \<Rightarrow> Some (Inl e)
          | Inr st' \<Rightarrow>
              if alignControl len > length control then Some (Inr st')
              else walkControl body (drop (alignControl len) control) st' } })"
  by pat_completeness auto

termination walkControl
proof (relation "measure (\<lambda>(_, control, _). length control)")
  fix body :: "u32 \<Rightarrow> u32 \<Rightarrow> bytes \<Rightarrow> 's \<Rightarrow> (controlError + 's) option" and control :: bytes and st st' :: 's and length64 :: u64 and len
  assume a: "\<not> length control < linuxControlHeaderSize" "\<not> (length64 < of_nat linuxControlHeaderSize \<or> length64 > of_nat (length control))"
    "len = unat length64"
  have "0 < alignControl len"
    using a by (auto simp: alignControl_def linuxControlAlignment_def linuxControlHeaderSize_def word_less_nat_alt)
  then show "((body, drop (alignControl len) control, st'), body, control, st) \<in> measure (\<lambda>(_, control, _). length control)"
    using a by (simp add: linuxControlHeaderSize_def)
qed simp

declare walkControl.simps [simp del]

section \<open>Socket errors\<close>

record socketErrorControlMessage =
  se_errno :: u32
  se_origin :: u8
  se_type :: u8
  se_code :: u8
  se_info :: u32
  se_data :: u32
  se_offender :: addr

definition socketErrorAppendBinary :: "socketErrorControlMessage \<Rightarrow> bytes \<Rightarrow> controlError + bytes" where
  "socketErrorAppendBinary m dst =
     (let offender = se_offender m
      in if \<not> isValidAddr offender \<or> addrZone offender \<noteq> [] then Inl InvalidOffender
         else
           let head = le_put32 (se_errno m) @ [se_origin m, se_type m, se_code m, 0] @ le_put32 (se_info m) @ le_put32 (se_data m)
           in Inr (if is4 offender
                   then appendLinuxControl dst linuxLevelIP linuxIPReceiveError (head @ le_put16 2 @ [0, 0] @ drop 12 (as16 offender) @ replicate 8 0)
                   else appendLinuxControl dst linuxLevelIPv6 linuxIPv6ReceiveError
                          (head @ le_put16 10 @ replicate 6 0 @ as16 offender @ replicate 4 0)))"

definition parseSocketErrorControl :: "bool \<Rightarrow> bytes \<Rightarrow> (controlError + socketErrorControlMessage) option" where
  "parseSocketErrorControl v6 data =
     (if length data \<noteq> (if v6 then 44 else 32) then Some (Inl InvalidSocketError)
      else do {
        errno \<leftarrow> readLE32 data 0;
        origin \<leftarrow> go_index data 4;
        type \<leftarrow> go_index data 5;
        code \<leftarrow> go_index data 6;
        info \<leftarrow> readLE32 data 8;
        value \<leftarrow> readLE32 data 12;
        family \<leftarrow> readLE16 data 16;
        let message = \<lparr>se_errno = errno, se_origin = origin, se_type = type, se_code = code, se_info = info, se_data = value,
                       se_offender = AddrZero\<rparr>;
        if v6 then
          if family \<noteq> 10 then Some (Inl InvalidOffender6)
          else do { a \<leftarrow> go_slice data 24 40; Some (Inr (message\<lparr>se_offender := addrFrom16 a\<rparr>)) }
        else
          if family \<noteq> 2 then Some (Inl InvalidOffender4)
          else do { a \<leftarrow> go_slice data 20 24; Some (Inr (message\<lparr>se_offender := addrFrom4 a\<rparr>)) } })"

definition socketErrorRecord ::
  "u32 \<Rightarrow> u32 \<Rightarrow> bytes \<Rightarrow> socketErrorControlMessage option \<Rightarrow> (controlError + socketErrorControlMessage option) option" where
  "socketErrorRecord level kind data found =
     (if level = linuxLevelIP \<and> kind = linuxIPReceiveError \<or> level = linuxLevelIPv6 \<and> kind = linuxIPv6ReceiveError then
        if found \<noteq> None then Some (Inl DuplicateSocketError)
        else map_option (\<lambda>r. case r of Inl e \<Rightarrow> Inl e | Inr value \<Rightarrow> Inr (Some value))
               (parseSocketErrorControl (level = linuxLevelIPv6) data)
      else Some (Inr found))"

definition socketErrorParse :: "bytes \<Rightarrow> (controlError + socketErrorControlMessage) option" where
  "socketErrorParse control =
     map_option (\<lambda>r. case r of Inl e \<Rightarrow> Inl e | Inr None \<Rightarrow> Inl SocketErrorNotFound | Inr (Some value) \<Rightarrow> Inr value)
       (walkControl socketErrorRecord control None)"

section \<open>Packet metadata\<close>

record ipv4ControlMessage =
  c4_ttl :: int
  c4_tos :: int
  c4_src :: addr
  c4_dst :: addr
  c4_ifIndex :: int

record ipv6ControlMessage =
  c6_trafficClass :: int
  c6_hopLimit :: int
  c6_flowLabel :: u32
  c6_src :: addr
  c6_dst :: addr
  c6_ifIndex :: int

definition addressField4 :: "addr \<Rightarrow> bytes" where
  "addressField4 address = (let address = unmapAddr address in if is4 address then drop 12 (as16 address) else replicate 4 0)"

definition appendLinuxIPv4PacketInfoControl :: "bytes \<Rightarrow> addr \<Rightarrow> addr \<Rightarrow> bytes" where
  "appendLinuxIPv4PacketInfoControl control specDst destination =
     appendLinuxControl control linuxLevelIP linuxIPPacketInfo (replicate 4 0 @ addressField4 specDst @ addressField4 destination)"

definition appendLinuxIPv6PacketInfoControl :: "bytes \<Rightarrow> addr \<Rightarrow> bytes" where
  "appendLinuxIPv6PacketInfoControl control address =
     appendLinuxControl control linuxLevelIPv6 linuxIPv6PacketInfo (as16 (unmapAddr address) @ replicate 4 0)"

definition badIPv4Field :: "addr \<Rightarrow> bool" where
  "badIPv4Field address \<longleftrightarrow> isValidAddr address \<and> (\<not> is4 address \<or> addrZone address \<noteq> [])"

definition c4_marshal :: "ipv4ControlMessage \<Rightarrow> addr \<Rightarrow> addr \<Rightarrow> bool \<Rightarrow> controlError + bytes" where
  "c4_marshal m specDst destination receiving =
     (if c4_ifIndex m \<noteq> 0 then Inl InterfaceIndexUnsupported
      else
        let specDst = unmapAddr specDst;
            destination = unmapAddr destination
        in if isValidAddr specDst \<and> (\<not> is4 specDst \<or> addrZone specDst \<noteq> [] \<or> isMulticastAddr specDst) then Inl InvalidSource
           else if receiving \<and> badIPv4Field destination then Inl InvalidDestination
           else if c4_ttl m < 0 \<or> c4_ttl m > 255 then Inl TTLRange
           else if c4_tos m < 0 \<or> c4_tos m > 255 then Inl TOSRange
           else
             let control = [];
                 control = (if isValidAddr specDst \<or> receiving \<and> isValidAddr destination
                            then appendLinuxIPv4PacketInfoControl control specDst (if receiving then destination else AddrZero) else control);
                 control = (if receiving \<or> c4_ttl m \<noteq> 0
                            then appendLinuxControlInt32 control linuxLevelIP linuxIPTimeToLive (c4_ttl m) else control);
                 control = (if receiving then appendLinuxControl control linuxLevelIP linuxIPTypeOfService [of_int (c4_tos m)]
                            else if c4_tos m \<noteq> 0 then appendLinuxControlInt32 control linuxLevelIP linuxIPTypeOfService (c4_tos m)
                            else control)
             in Inr control)"

definition c4_Marshal :: "ipv4ControlMessage \<Rightarrow> controlError + bytes" where
  "c4_Marshal m = c4_marshal m (c4_src m) AddrZero False"

definition c4_marshalForRead :: "ipv4ControlMessage \<Rightarrow> addr \<Rightarrow> controlError + bytes" where
  "c4_marshalForRead m specDst = c4_marshal m specDst (c4_dst m) True"

definition flowInfo6 :: "ipv6ControlMessage \<Rightarrow> u32" where
  "flowInfo6 m =
     (let trafficClass = (if c6_trafficClass m \<ge> 0 then of_int (c6_trafficClass m) else 0)
      in push_bit 20 trafficClass OR c6_flowLabel m)"

definition c6_marshal :: "ipv6ControlMessage \<Rightarrow> addr \<Rightarrow> bool \<Rightarrow> controlError + bytes" where
  "c6_marshal m address receiving =
     (if c6_ifIndex m \<noteq> 0 then Inl InterfaceIndexUnsupported
      else
        let address = unmapAddr address
        in if isValidAddr address \<and> (\<not> is6 address \<or> addrZone address \<noteq> [] \<or> \<not> receiving \<and> isMulticastAddr address)
           then Inl (if receiving then InvalidDestination else InvalidSource)
           else if c6_hopLimit m < -1 \<or> c6_hopLimit m > 255 then Inl HopLimitRange
           else if c6_trafficClass m < -1 \<or> c6_trafficClass m > 255 then Inl TrafficClassRange
           else if c6_flowLabel m > ipv6MaximumFlowLabel then Inl FlowLabelRange
           else
             let control = [];
                 control = (if isValidAddr address then appendLinuxIPv6PacketInfoControl control address else control);
                 control = (if receiving \<or> c6_hopLimit m \<noteq> 0
                            then appendLinuxControlInt32 control linuxLevelIPv6 linuxIPv6HopLimit (c6_hopLimit m) else control);
                 control = (if receiving \<or> c6_trafficClass m \<noteq> 0
                            then appendLinuxControlInt32 control linuxLevelIPv6 linuxIPv6TrafficClass (c6_trafficClass m) else control);
                 control = (if c6_flowLabel m \<noteq> 0 \<or> receiving \<and> c6_trafficClass m \<noteq> 0
                            then appendLinuxControl control linuxLevelIPv6 linuxIPv6FlowInfo (be_put32 (flowInfo6 m)) else control)
             in Inr control)"

definition c6_Marshal :: "ipv6ControlMessage \<Rightarrow> controlError + bytes" where
  "c6_Marshal m = c6_marshal m (c6_src m) False"

definition c6_marshalForRead :: "ipv6ControlMessage \<Rightarrow> controlError + bytes" where
  "c6_marshalForRead m = c6_marshal m (c6_dst m) True"

definition controlMessageForRead :: "addr \<Rightarrow> addr \<Rightarrow> ipPacketOptions \<Rightarrow> controlError + bytes" where
  "controlMessageForRead specDst destination opts =
     (let destination = unmapAddr destination
      in if is4 destination then
           c4_marshalForRead \<lparr>c4_ttl = int (unat (po_hopLimit opts)), c4_tos = int (unat (po_trafficClass opts)), c4_src = AddrZero,
             c4_dst = destination, c4_ifIndex = 0\<rparr> (unmapAddr specDst)
         else
           c6_marshalForRead \<lparr>c6_trafficClass = int (unat (po_trafficClass opts)), c6_hopLimit = int (unat (po_hopLimit opts)),
             c6_flowLabel = po_flowLabel opts, c6_src = AddrZero, c6_dst = destination, c6_ifIndex = 0\<rparr>)"

section \<open>Parsing packet metadata\<close>

text \<open>\<open>None\<close> is the error of a length that is not four, or for the type of service not one or four.\<close>

definition linuxControlInt32 :: "bytes \<Rightarrow> int option" where
  "linuxControlInt32 data = (if length data \<noteq> 4 then None else map_option sint (readLE32 data 0))"

definition linuxControlByteOrInt32 :: "bytes \<Rightarrow> int option" where
  "linuxControlByteOrInt32 data = (if length data = 1 then Some (int (unat (data ! 0))) else linuxControlInt32 data)"

record controlValues =
  cv_address :: addr
  cv_options :: ipPacketOptions
  cv_flowInfo :: u32

definition noOptions :: ipPacketOptions where
  "noOptions = \<lparr>po_hopLimit = 0, po_trafficClass = 0, po_flowLabel = 0, po_hopLimitSet = False, po_trafficClassSet = False, po_flowLabelSet = False\<rparr>"

definition packetInfo4 :: "bool \<Rightarrow> bool \<Rightarrow> bytes \<Rightarrow> controlValues \<Rightarrow> (controlError + controlValues) option" where
  "packetInfo4 v6 receiving data v =
     (if v6 \<or> length data \<noteq> 12 then Some (Inl InvalidPacketInfo4)
      else do {
        index \<leftarrow> readLE32 data 0;
        if index \<noteq> 0 then Some (Inl InterfaceIndexNonzero)
        else do {
          spec \<leftarrow> go_slice data 4 8;
          header \<leftarrow> go_slice data 8 12;
          let candidate = addrFrom4 (if receiving then header else spec);
          Some (Inr (v\<lparr>cv_address := (if \<not> receiving \<and> isUnspecified candidate then AddrZero else candidate)\<rparr>)) } })"

definition packetInfo6 :: "bool \<Rightarrow> bool \<Rightarrow> bytes \<Rightarrow> controlValues \<Rightarrow> (controlError + controlValues) option" where
  "packetInfo6 v6 receiving data v =
     (if \<not> v6 \<or> length data < 20 then Some (Inl InvalidPacketInfo6)
      else do {
        index \<leftarrow> readLE32 data 16;
        if index \<noteq> 0 then Some (Inl InterfaceIndexNonzero)
        else do {
          raw \<leftarrow> go_slice data 0 16;
          let candidate = addrFrom16 raw;
          Some (Inr (if receiving \<or> \<not> isUnspecified candidate then v\<lparr>cv_address := candidate\<rparr> else v)) } })"

definition setHopLimit :: "int \<Rightarrow> controlValues \<Rightarrow> controlValues" where
  "setHopLimit value v =
     v\<lparr>cv_options := (if value = -1 then (cv_options v)\<lparr>po_hopLimit := 0, po_hopLimitSet := False\<rparr>
                      else (cv_options v)\<lparr>po_hopLimit := of_int value, po_hopLimitSet := True\<rparr>)\<rparr>"

definition setTrafficClass :: "int \<Rightarrow> controlValues \<Rightarrow> controlValues" where
  "setTrafficClass value v =
     v\<lparr>cv_options := (if value = -1 then (cv_options v)\<lparr>po_trafficClass := 0, po_trafficClassSet := False\<rparr>
                      else (cv_options v)\<lparr>po_trafficClass := of_int value, po_trafficClassSet := True\<rparr>)\<rparr>"

definition flowInfoRecord :: "bool \<Rightarrow> bytes \<Rightarrow> controlValues \<Rightarrow> (controlError + controlValues) option" where
  "flowInfoRecord v6 data v =
     (if \<not> v6 \<or> length data < 4 then Some (Inl InvalidFlowInfo)
      else do {
        rawFlowInfo \<leftarrow> read32 data 0;
        if cv_flowInfo v \<noteq> 0 \<and> (cv_flowInfo v XOR rawFlowInfo) AND NOT linuxIPv6FlowInfoMask \<noteq> 0 then Some (Inl ConflictingFlowInfo)
        else
          let flowInfo = rawFlowInfo AND linuxIPv6FlowInfoMask
          in Some (Inr (v\<lparr>cv_flowInfo := flowInfo,
               cv_options := (cv_options v)\<lparr>po_flowLabel := flowInfo AND ipv6MaximumFlowLabel, po_flowLabelSet := True\<rparr>\<rparr>)) })"

definition controlRecord :: "bool \<Rightarrow> bool \<Rightarrow> u32 \<Rightarrow> u32 \<Rightarrow> bytes \<Rightarrow> controlValues \<Rightarrow> (controlError + controlValues) option" where
  "controlRecord v6 receiving level kind data v =
     (if level = linuxLevelIP \<and> kind = linuxIPPacketInfo then packetInfo4 v6 receiving data v
      else if level = linuxLevelIPv6 \<and> kind = linuxIPv6PacketInfo then packetInfo6 v6 receiving data v
      else if level = linuxLevelIP \<and> kind = linuxIPTimeToLive then
        (case linuxControlInt32 data of
           Some value \<Rightarrow> Some (if v6 \<or> value < 0 \<or> \<not> receiving \<and> value = 0 \<or> value > 255 then Inl InvalidTTL else Inr (setHopLimit value v))
         | None \<Rightarrow> Some (Inl InvalidTTL))
      else if level = linuxLevelIP \<and> kind = linuxIPTypeOfService then
        (case linuxControlByteOrInt32 data of
           Some value \<Rightarrow> Some (if v6 \<or> value < 0 \<or> value > 255 then Inl InvalidTOS else Inr (setTrafficClass value v))
         | None \<Rightarrow> Some (Inl InvalidTOS))
      else if level = linuxLevelIPv6 \<and> kind = linuxIPv6HopLimit then
        (case linuxControlInt32 data of
           Some value \<Rightarrow> Some (if \<not> v6 \<or> value < -1 \<or> value > 255 \<or> receiving \<and> value = -1 then Inl InvalidHopLimit else Inr (setHopLimit value v))
         | None \<Rightarrow> Some (Inl InvalidHopLimit))
      else if level = linuxLevelIPv6 \<and> kind = linuxIPv6TrafficClass then
        (case linuxControlInt32 data of
           Some value \<Rightarrow> Some (if \<not> v6 \<or> value < -1 \<or> value > 255 \<or> receiving \<and> value = -1 then Inl InvalidTrafficClass
                               else Inr (setTrafficClass value v))
         | None \<Rightarrow> Some (Inl InvalidTrafficClass))
      else if level = linuxLevelIPv6 \<and> kind = linuxIPv6FlowInfo then flowInfoRecord v6 data v
      else Some (Inl UnsupportedControl))"

definition parseLinuxIPControlValues :: "bytes \<Rightarrow> bool \<Rightarrow> bool \<Rightarrow> (controlError + addr \<times> ipPacketOptions) option" where
  "parseLinuxIPControlValues oob v6 receiving =
     map_option (\<lambda>r. case r of Inl e \<Rightarrow> Inl e | Inr v \<Rightarrow> Inr (cv_address v, cv_options v))
       (walkControl (controlRecord v6 receiving) oob \<lparr>cv_address = AddrZero, cv_options = noOptions, cv_flowInfo = 0\<rparr>)"

definition c4_Parse :: "bytes \<Rightarrow> (controlError + ipv4ControlMessage) option" where
  "c4_Parse control =
     map_option (\<lambda>r. case r of Inl e \<Rightarrow> Inl e | Inr (address, opts) \<Rightarrow>
         Inr \<lparr>c4_ttl = int (unat (po_hopLimit opts)), c4_tos = int (unat (po_trafficClass opts)), c4_src = AddrZero, c4_dst = address, c4_ifIndex = 0\<rparr>)
       (parseLinuxIPControlValues control False True)"

definition c4_parseForWrite :: "bytes \<Rightarrow> (controlError + ipv4ControlMessage \<times> ipPacketOptions) option" where
  "c4_parseForWrite control =
     map_option (\<lambda>r. case r of Inl e \<Rightarrow> Inl e | Inr (address, opts) \<Rightarrow>
         Inr (\<lparr>c4_ttl = int (unat (po_hopLimit opts)), c4_tos = int (unat (po_trafficClass opts)), c4_src = address, c4_dst = AddrZero, c4_ifIndex = 0\<rparr>, opts))
       (parseLinuxIPControlValues control False False)"

definition c6_Parse :: "bytes \<Rightarrow> (controlError + ipv6ControlMessage) option" where
  "c6_Parse control =
     map_option (\<lambda>r. case r of Inl e \<Rightarrow> Inl e | Inr (address, opts) \<Rightarrow>
         Inr \<lparr>c6_trafficClass = int (unat (po_trafficClass opts)), c6_hopLimit = int (unat (po_hopLimit opts)), c6_flowLabel = po_flowLabel opts,
              c6_src = AddrZero, c6_dst = address, c6_ifIndex = 0\<rparr>)
       (parseLinuxIPControlValues control True True)"

definition c6_parseForWrite :: "bytes \<Rightarrow> (controlError + ipv6ControlMessage \<times> ipPacketOptions) option" where
  "c6_parseForWrite control =
     map_option (\<lambda>r. case r of Inl e \<Rightarrow> Inl e | Inr (address, opts) \<Rightarrow>
         Inr (\<lparr>c6_trafficClass = int (unat (po_trafficClass opts)), c6_hopLimit = int (unat (po_hopLimit opts)), c6_flowLabel = po_flowLabel opts,
              c6_src = address, c6_dst = AddrZero, c6_ifIndex = 0\<rparr>, opts))
       (parseLinuxIPControlValues control True False)"

definition parseControlMessageForWrite :: "bytes \<Rightarrow> bool \<Rightarrow> (controlError + addr \<times> ipPacketOptions) option" where
  "parseControlMessageForWrite control v6 =
     (if v6 then map_option (\<lambda>r. case r of Inl e \<Rightarrow> Inl e | Inr (m, opts) \<Rightarrow> Inr (c6_src m, opts)) (c6_parseForWrite control)
      else map_option (\<lambda>r. case r of Inl e \<Rightarrow> Inl e | Inr (m, opts) \<Rightarrow> Inr (c4_src m, opts)) (c4_parseForWrite control))"

section \<open>ICMP errors\<close>

definition ICMPv4TypeDestinationUnreachable :: u8 where "ICMPv4TypeDestinationUnreachable = 3"
definition ICMPv4TypeTimeExceeded :: u8 where "ICMPv4TypeTimeExceeded = 11"
definition ICMPv4TypeParameterProblem :: u8 where "ICMPv4TypeParameterProblem = 12"
definition ICMPv6TypeDestinationUnreachable :: u8 where "ICMPv6TypeDestinationUnreachable = 1"
definition ICMPv6TypePacketTooBig :: u8 where "ICMPv6TypePacketTooBig = 2"
definition ICMPv6TypeTimeExceeded :: u8 where "ICMPv6TypeTimeExceeded = 3"
definition ICMPv6TypeParameterProblem :: u8 where "ICMPv6TypeParameterProblem = 4"
definition FragmentationNeeded :: u8 where "FragmentationNeeded = 4"

definition PathMTUDiscoveryDont :: int where "PathMTUDiscoveryDont = 0"
definition PathMTUDiscoveryDo :: int where "PathMTUDiscoveryDo = 2"
definition PathMTUDiscoveryInterface :: int where "PathMTUDiscoveryInterface = 4"
definition PathMTUDiscoveryOmit :: int where "PathMTUDiscoveryOmit = 5"

definition acceptsPathMTU :: "int \<Rightarrow> bool" where
  "acceptsPathMTU mode \<longleftrightarrow> mode \<noteq> PathMTUDiscoveryInterface \<and> mode \<noteq> PathMTUDiscoveryOmit"

record icmpError =
  ie_reporter :: addr
  ie_type :: u8
  ie_code :: u8
  ie_mtu :: u32
  ie_pointer :: u32
  ie_extensions :: bytes
  ie_quotedSource :: addr
  ie_quotedTarget :: addr
  ie_quotedProtocol :: u8
  ie_quotedPacket :: bytes
  ie_quotedPayload :: bytes
  ie_quotedSourcePort :: u16
  ie_quotedTargetPort :: u16

text \<open>The Linux errno and whether the error is hard.\<close>

definition unreachable4 :: "(u32 \<times> bool) list" where
  "unreachable4 =
     [(101, False), (113, False), (92, True), (111, True), (90, False), (95, False), (101, True), (112, True),
      (64, True), (101, True), (113, True), (101, False), (113, False), (113, True), (113, True), (113, True)]"

definition unreachable6 :: "(u32 \<times> bool) list" where
  "unreachable6 = [(101, False), (13, True), (113, False), (113, False), (111, True), (13, True), (13, True)]"

definition linuxICMPErrorConversion :: "icmpError \<Rightarrow> u32 \<times> bool" where
  "linuxICMPErrorConversion e =
     (if is4 (ie_reporter e) then
        if ie_type e = ICMPv4TypeDestinationUnreachable then
          if unat (ie_code e) < length unreachable4 then unreachable4 ! unat (ie_code e) else (113, False)
        else if ie_type e = ICMPv4TypeTimeExceeded then (113, False)
        else if ie_type e = ICMPv4TypeParameterProblem then (71, True)
        else (71, False)
      else if ie_type e = ICMPv6TypeDestinationUnreachable then
        if unat (ie_code e) < length unreachable6 then unreachable6 ! unat (ie_code e) else (71, True)
      else if ie_type e = ICMPv6TypePacketTooBig then (90, False)
      else if ie_type e = ICMPv6TypeTimeExceeded then (113, False)
      else if ie_type e = ICMPv6TypeParameterProblem then (71, True)
      else (71, False))"

definition linuxICMPErrno :: "icmpError \<Rightarrow> u32" where
  "linuxICMPErrno e = fst (linuxICMPErrorConversion e)"

definition linuxDatagramICMPReport :: "icmpError \<Rightarrow> bool \<Rightarrow> bool \<Rightarrow> bool \<Rightarrow> int \<Rightarrow> bool \<times> bool" where
  "linuxDatagramICMPReport e connected receiveErrors raw mode =
     (if \<not> connected \<and> \<not> receiveErrors then (False, False)
      else if is4 (ie_reporter e) \<and> ie_type e = ICMPv4TypeDestinationUnreachable \<and> ie_code e = FragmentationNeeded then
        if \<not> raw \<and> mode = PathMTUDiscoveryDont then (False, False)
        else (receiveErrors \<or> mode \<noteq> PathMTUDiscoveryDont, receiveErrors)
      else if is6 (ie_reporter e) \<and> ie_type e = ICMPv6TypePacketTooBig then
        if \<not> raw \<and> \<not> acceptsPathMTU mode then (False, False)
        else
          let hard = (if raw then mode = PathMTUDiscoveryDo else mode \<noteq> PathMTUDiscoveryDont)
          in (receiveErrors \<or> hard, receiveErrors)
      else if receiveErrors then (True, True)
      else (snd (linuxICMPErrorConversion e), False))"

text \<open>The argument is the result of \<open>errors.As\<close>; the origins are 2 and 3.\<close>

definition socketErrorControlForRead :: "icmpError option \<Rightarrow> controlError + bytes" where
  "socketErrorControlForRead err =
     (case err of
        None \<Rightarrow> Inl NoICMPMetadata
      | Some e \<Rightarrow>
          if \<not> isValidAddr (ie_reporter e) then Inl NoICMPMetadata
          else
            let reporter = ie_reporter e;
                e = e\<lparr>ie_reporter := unmapAddr reporter\<rparr>;
                origin = (if is6 (ie_reporter e) then 3 else 2);
                info = (if ie_mtu e = 0 then ie_pointer e else ie_mtu e)
            in socketErrorAppendBinary \<lparr>se_errno = linuxICMPErrno e, se_origin = origin, se_type = ie_type e, se_code = ie_code e,
                 se_info = info, se_data = 0, se_offender = reporter\<rparr> [])"

end
