(* ===== verification/Control_Roundtrip.thy ===== *)
theory Control_Roundtrip
  imports Control Ip_Roundtrip
begin

text \<open>
  Ancillary data is read back as it was written: the framing of records, the round trips of packet metadata and
  of socket errors, and that no control buffer makes a parser panic.
\<close>

section \<open>Framing\<close>

lemma length_le_put [simp]: "length (le_put16 a) = 2" "length (le_put32 b) = 4" "length (le_put64 c) = 8"
  by (simp_all add: le_put16_def le_put32_def le_put64_def)

lemma go_slice_middle: "length pre = lo \<Longrightarrow> length mid = n \<Longrightarrow> go_slice (pre @ mid @ post) lo (lo + n) = Some mid"
  by (auto simp: go_slice_def)

lemma bit_le_join: "length bs \<le> 8 \<Longrightarrow> bit (le_join 0 bs) n \<longleftrightarrow> n div 8 < length bs \<and> bit (bs ! (n div 8)) (n mod 8)"
proof (induction bs arbitrary: n)
  case (Cons b bs)
  show ?case
  proof (cases "n < 8")
    case True
    then show ?thesis using le_join_shift [of 1 bs] by (simp add: bit_simps)
  next
    case False
    then have d: "n div 8 = Suc ((n - 8) div 8)" "n mod 8 = (n - 8) mod 8" by (simp_all add: le_div_geq le_mod_geq)
    have "\<not> bit b n" using False bit_imp_le_length [of b n] by auto
    moreover have "n < 64" if "(n - 8) div 8 < length bs" using that Cons.prems False by simp
    ultimately show ?thesis using Cons.IH [of "n - 8"] Cons.prems False le_join_shift [of 1 bs] d
      by (auto simp: bit_simps)
  qed
qed simp

lemma le_get64_put: "le_get64 (le_put64 w) = w"
proof (rule bit_word_eqI)
  fix n assume n: "n < LENGTH(64)"
  have "le_put64 w ! (n div 8) = ucast (drop_bit (8 * (n div 8)) w)"
  proof -
    have "n div 8 \<in> {0, 1, 2, 3, 4, 5, 6, 7}" using n by auto
    then show ?thesis by (auto simp: le_put64_def be_put64_def)
  qed
  moreover have "n div 8 < 8" using n by simp
  ultimately show "bit (le_get64 (le_put64 w)) n = bit w n"
    using n by (simp add: le_get64_def bit_le_join bit_simps)
qed

lemma read_put:
  "length pre = lo \<Longrightarrow> readLE16 (pre @ le_put16 a @ post) lo = Some a"
  "length pre = lo \<Longrightarrow> readLE32 (pre @ le_put32 b @ post) lo = Some b"
  "length pre = lo \<Longrightarrow> readLE64 (pre @ le_put64 c @ post) lo = Some c"
proof -
  show "readLE16 (pre @ le_put16 a @ post) lo = Some a" if "length pre = lo"
    unfolding readLE16_def using go_slice_middle [OF that, of "le_put16 a" 2 post] be_get16_put [of a "[]"] by (simp add: le_put16_def)
  show "readLE32 (pre @ le_put32 b @ post) lo = Some b" if "length pre = lo"
    unfolding readLE32_def using go_slice_middle [OF that, of "le_put32 b" 4 post] be_get32_put [of b "[]"] by (simp add: le_put32_def)
  show "readLE64 (pre @ le_put64 c @ post) lo = Some c" if "length pre = lo"
    unfolding readLE64_def using go_slice_middle [OF that, of "le_put64 c" 8 post] by (simp add: le_get64_put)
qed

definition controlBytes :: "u32 \<Rightarrow> u32 \<Rightarrow> bytes \<Rightarrow> bytes" where
  "controlBytes level kind data = appendLinuxControl [] level kind data"

lemma append_controlBytes: "appendLinuxControl control level kind data = control @ controlBytes level kind data"
  by (simp add: appendLinuxControl_def controlBytes_def Let_def)

lemma unat_of_nat_u64: "n < 2 ^ 64 \<Longrightarrow> unat (of_nat n :: u64) = n"
  by (simp add: unat_of_nat)

lemma alignControl_ge: "n \<le> alignControl n"
  unfolding alignControl_def linuxControlAlignment_def by linarith

lemma length_controlBytes: "length (controlBytes level kind data) = alignControl (16 + length data)"
  using alignControl_ge [of "16 + length data"]
  by (simp add: controlBytes_def appendLinuxControl_def Let_def linuxControlHeaderSize_def)

lemma walk_done [simp]: "walkControl body [] st = Some (Inr st)"
  by (simp add: walkControl.simps linuxControlHeaderSize_def)

lemma walk_record:
  assumes "length data < 2 ^ 32" "length rest < 2 ^ 32"
  shows "walkControl body (controlBytes level kind data @ rest) st =
    Option.bind (body level kind data st) (\<lambda>r. case r of Inl e \<Rightarrow> Some (Inl e) | Inr st' \<Rightarrow> walkControl body rest st')"
proof -
  let ?n = "16 + length data"
  let ?pad = "replicate (alignControl ?n - ?n) 0"
  have e: "controlBytes level kind data @ rest = le_put64 (of_nat ?n) @ le_put32 level @ le_put32 kind @ data @ ?pad @ rest"
    by (simp add: controlBytes_def appendLinuxControl_def Let_def linuxControlHeaderSize_def)
  have l: "length (controlBytes level kind data @ rest) = alignControl ?n + length rest" by (simp add: length_controlBytes)
  have a: "?n \<le> alignControl ?n" by (rule alignControl_ge)
  have u: "unat (of_nat ?n :: u64) = ?n" by (rule unat_of_nat_u64) (use assms in simp)
  have r64: "readLE64 (controlBytes level kind data @ rest) 0 = Some (of_nat ?n)" unfolding e using read_put(3) [of "[]" 0] by simp
  have r8: "readLE32 (controlBytes level kind data @ rest) 8 = Some level" unfolding e by (rule read_put(2)) simp
  have r12: "readLE32 (controlBytes level kind data @ rest) 12 = Some kind"
    unfolding e using read_put(2) [of "le_put64 (of_nat ?n) @ le_put32 level" 12 kind] by simp
  have d: "go_slice (controlBytes level kind data @ rest) 16 ?n = Some data"
    unfolding e using go_slice_middle [of "le_put64 (of_nat ?n) @ le_put32 level @ le_put32 kind" 16 data "length data"] by simp
  have a2: "alignControl ?n < 2 ^ 33" using assms(1) unfolding alignControl_def linuxControlAlignment_def by simp
  have ul: "unat (of_nat (alignControl ?n + length rest) :: u64) = alignControl ?n + length rest"
    by (rule unat_of_nat_u64) (use a2 assms(2) in simp)
  have g: "\<not> (of_nat ?n < (of_nat 16 :: u64) \<or> of_nat ?n > (of_nat (alignControl ?n + length rest) :: u64))"
    unfolding word_less_nat_alt ul u using a by simp
  have l16: "\<not> alignControl ?n + length rest < 16" using a by simp
  have na: "\<not> alignControl ?n > alignControl ?n + length rest" by simp
  have dr: "drop (alignControl ?n) (controlBytes level kind data @ rest) = rest" by (simp add: length_controlBytes)
  show ?thesis
    by (subst walkControl.simps)
      (simp only: linuxControlHeaderSize_def l if_not_P [OF l16] r64 r8 r12 Option.bind.bind_lunit if_not_P [OF g] Let_def u d dr if_not_P [OF na])
qed

section \<open>Records of packet metadata\<close>

lemmas control_consts = linuxLevelIP_def linuxLevelIPv6_def linuxIPPacketInfo_def linuxIPv6PacketInfo_def linuxIPTimeToLive_def
  linuxIPTypeOfService_def linuxIPv6HopLimit_def linuxIPv6TrafficClass_def linuxIPv6FlowInfo_def linuxIPReceiveError_def linuxIPv6ReceiveError_def

lemma int32_written: "- (2 ^ 31) \<le> v \<Longrightarrow> v < 2 ^ 31 \<Longrightarrow> linuxControlInt32 (le_put32 (of_int v)) = Some v"
  using read_put(2) [of "[]" 0 "of_int v" "[]"] by (simp add: linuxControlInt32_def sint_sbintrunc' signed_take_bit_int_eq_self)

lemma readLE32_zero: "readLE32 (replicate 4 0 @ post) 0 = Some 0" "length pre = 16 \<Longrightarrow> readLE32 (pre @ replicate 4 0) 16 = Some 0"
proof -
  have z: "replicate 4 0 = le_put32 0" by (simp add: le_put32_def be_put32_def numeral_eq_Suc)
  show "readLE32 (replicate 4 0 @ post) 0 = Some 0" unfolding z using read_put(2) [of "[]" 0 0 post] by simp
  show "length pre = 16 \<Longrightarrow> readLE32 (pre @ replicate 4 0) 16 = Some 0" unfolding z using read_put(2) [of pre 16 0 "[]"] by simp
qed

lemma packetInfo4_written:
  "packetInfo4 False receiving (replicate 4 0 @ be_put32 a @ be_put32 b) v =
     Some (Inr (v\<lparr>cv_address := (if \<not> receiving \<and> a = 0 then AddrZero else Addr4 (if receiving then b else a))\<rparr>))"
proof -
  let ?d = "replicate 4 0 @ be_put32 a @ be_put32 b"
  have s: "go_slice ?d 4 8 = Some (be_put32 a)" "go_slice ?d 8 12 = Some (be_put32 b)"
    using go_slice_middle [of "replicate 4 0" 4 "be_put32 a" 4 "be_put32 b"] go_slice_middle [of "replicate 4 0 @ be_put32 a" 8 "be_put32 b" 4 "[]"] by simp_all
  have l: "length ?d = 12" by simp
  show ?thesis unfolding packetInfo4_def l readLE32_zero(1) s by (simp add: Let_def)
qed

lemma packetInfo6_written:
  "packetInfo6 True receiving (bytes16 w @ replicate 4 0) v =
     Some (Inr (if receiving \<or> w \<noteq> 0 then v\<lparr>cv_address := Addr6 w []\<rparr> else v))"
proof -
  let ?d = "bytes16 w @ replicate 4 0"
  have s: "go_slice ?d 0 16 = Some (bytes16 w)" using go_slice_middle [of "[]" 0 "bytes16 w" 16 "replicate 4 0"] by simp
  have l: "length ?d = 20" by simp
  have a: "addrFrom16 (bytes16 w) = Addr6 w []" using addrFrom16_as16 [of w] by simp
  show ?thesis unfolding packetInfo6_def l readLE32_zero(2) [OF length_bytes16] s by (simp add: Let_def a)
qed

lemma flowInfo_written:
  assumes "cv_flowInfo v = 0"
  shows "flowInfoRecord True (be_put32 f) v = Some (Inr (v\<lparr>cv_flowInfo := f AND linuxIPv6FlowInfoMask,
    cv_options := (cv_options v)\<lparr>po_flowLabel := (f AND linuxIPv6FlowInfoMask) AND ipv6MaximumFlowLabel, po_flowLabelSet := True\<rparr>\<rparr>))"
proof -
  have "read32 (be_put32 f) 0 = Some f" using read32_append [of 0 "[]" f "[]"] by simp
  then show ?thesis using assms by (simp add: flowInfoRecord_def Let_def)
qed

lemma flowInfo6_label: "c6_flowLabel m \<le> ipv6MaximumFlowLabel \<Longrightarrow> (flowInfo6 m AND linuxIPv6FlowInfoMask) AND ipv6MaximumFlowLabel = c6_flowLabel m"
proof -
  assume a: "c6_flowLabel m \<le> ipv6MaximumFlowLabel"
  have m: "ipv6MaximumFlowLabel = mask 20" "linuxIPv6FlowInfoMask = mask 28"
    by (simp_all add: ipv6MaximumFlowLabel_def linuxIPv6FlowInfoMask_def mask_eq_exp_minus_1 push_bit_eq_mult)
  have "unat (c6_flowLabel m) < 2 ^ 20" using a by (simp add: m mask_eq_exp_minus_1 word_le_nat_alt)
  then have t: "take_bit 20 (c6_flowLabel m) = c6_flowLabel m"
    by (simp add: word_unat_eq_iff unsigned_take_bit_eq take_bit_nat_eq_self)
  have "(flowInfo6 m AND mask 28) AND mask 20 = take_bit 20 (c6_flowLabel m)"
    by (rule bit_word_eqI) (auto simp: flowInfo6_def Let_def bit_simps)
  then show ?thesis by (simp only: m t)
qed

section \<open>Running the records\<close>

text \<open>A record that its parser accepts is one step of the loop.\<close>

lemma walk_accepted:
  assumes "length data < 2 ^ 32" "length rest < 2 ^ 32" "body level kind data v = Some (Inr w)"
  shows "walkControl body (controlBytes level kind data @ rest) v = walkControl body rest w"
  using walk_record [OF assms(1,2), of body level kind v] assms(3) by simp

lemma run_packetInfo4:
  assumes "length rest < 2 ^ 32"
  shows "walkControl (controlRecord False receiving) (controlBytes linuxLevelIP linuxIPPacketInfo (replicate 4 0 @ be_put32 a @ be_put32 b) @ rest) v =
    walkControl (controlRecord False receiving) rest (v\<lparr>cv_address := (if \<not> receiving \<and> a = 0 then AddrZero else Addr4 (if receiving then b else a))\<rparr>)"
  by (rule walk_accepted) (use assms packetInfo4_written [of receiving a b v] in \<open>simp_all add: controlRecord_def\<close>)

lemma run_ttl4:
  assumes "length rest < 2 ^ 32" "0 \<le> n" "n \<le> 255" "receiving \<or> n \<noteq> 0"
  shows "walkControl (controlRecord False receiving) (controlBytes linuxLevelIP linuxIPTimeToLive (le_put32 (of_int n)) @ rest) v =
    walkControl (controlRecord False receiving) rest (setHopLimit n v)"
  by (rule walk_accepted) (use assms int32_written [of n] in \<open>auto simp add: controlRecord_def control_consts\<close>)

lemma run_tos4:
  assumes "length rest < 2 ^ 32" "0 \<le> n" "n \<le> 255" "data = le_put32 (of_int n) \<or> data = [of_int n]"
  shows "walkControl (controlRecord False receiving) (controlBytes linuxLevelIP linuxIPTypeOfService data @ rest) v =
    walkControl (controlRecord False receiving) rest (setTrafficClass n v)"
proof (rule walk_accepted)
  have "int (unat (of_int n :: u8)) = n" using assms(2,3) by (simp add: uint_word_of_int)
  then have "linuxControlByteOrInt32 data = Some n" using assms int32_written [of n] by (auto simp: linuxControlByteOrInt32_def)
  then show "controlRecord False receiving linuxLevelIP linuxIPTypeOfService data v = Some (Inr (setTrafficClass n v))"
    using assms by (simp add: controlRecord_def control_consts)
qed (use assms in auto)

lemma run_packetInfo6:
  assumes "length rest < 2 ^ 32"
  shows "walkControl (controlRecord True receiving) (controlBytes linuxLevelIPv6 linuxIPv6PacketInfo (bytes16 w @ replicate 4 0) @ rest) v =
    walkControl (controlRecord True receiving) rest (if receiving \<or> w \<noteq> 0 then v\<lparr>cv_address := Addr6 w []\<rparr> else v)"
  by (rule walk_accepted) (use assms packetInfo6_written [of receiving w v] in \<open>simp_all add: controlRecord_def control_consts\<close>)

lemma run_hop6:
  assumes "length rest < 2 ^ 32" "-1 \<le> n" "n \<le> 255" "\<not> receiving \<or> n \<noteq> -1"
  shows "walkControl (controlRecord True receiving) (controlBytes linuxLevelIPv6 linuxIPv6HopLimit (le_put32 (of_int n)) @ rest) v =
    walkControl (controlRecord True receiving) rest (setHopLimit n v)"
  by (rule walk_accepted) (use assms int32_written [of n] in \<open>auto simp add: controlRecord_def control_consts\<close>)

lemma run_class6:
  assumes "length rest < 2 ^ 32" "-1 \<le> n" "n \<le> 255" "\<not> receiving \<or> n \<noteq> -1"
  shows "walkControl (controlRecord True receiving) (controlBytes linuxLevelIPv6 linuxIPv6TrafficClass (le_put32 (of_int n)) @ rest) v =
    walkControl (controlRecord True receiving) rest (setTrafficClass n v)"
  by (rule walk_accepted) (use assms int32_written [of n] in \<open>auto simp add: controlRecord_def control_consts\<close>)

lemma run_flow6:
  assumes "length rest < 2 ^ 32" "cv_flowInfo v = 0" "c6_flowLabel m \<le> ipv6MaximumFlowLabel"
  shows "walkControl (controlRecord True receiving) (controlBytes linuxLevelIPv6 linuxIPv6FlowInfo (be_put32 (flowInfo6 m)) @ rest) v =
    walkControl (controlRecord True receiving) rest (v\<lparr>cv_flowInfo := flowInfo6 m AND linuxIPv6FlowInfoMask,
      cv_options := (cv_options v)\<lparr>po_flowLabel := c6_flowLabel m, po_flowLabelSet := True\<rparr>\<rparr>)"
  by (rule walk_accepted)
    (use assms flowInfo_written [OF assms(2), of "flowInfo6 m"] flowInfo6_label [OF assms(3)] in \<open>simp_all add: controlRecord_def control_consts\<close>)

lemmas run_records = run_packetInfo4 run_ttl4 run_tos4 run_packetInfo6 run_hop6 run_class6 run_flow6

lemmas control_length = length_controlBytes alignControl_def linuxControlAlignment_def

lemma walk_optional:
  "(c \<Longrightarrow> walkControl body (x @ rest) v = walkControl body rest w) \<Longrightarrow>
     walkControl body ((if c then x else []) @ rest) v = walkControl body rest (if c then w else v)"
  by simp

lemma addressField4_some: "\<exists>w. addressField4 a = be_put32 w \<and> (unmapAddr a = Addr4 w \<or> \<not> is4 (unmapAddr a) \<and> w = 0)"
proof -
  have "replicate 4 0 = be_put32 0" by (simp add: be_put32_def numeral_eq_Suc)
  then show ?thesis by (cases "unmapAddr a") (auto simp: addressField4_def)
qed

lemma u8_le: "int (unat (w :: u8)) \<le> 255" "-1 \<le> int (unat (w :: u8))" "int (unat (w :: u8)) \<noteq> -1" "uint w \<noteq> -1"
proof -
  have "0 \<le> uint w" "uint w < 256" "int (unat w) = uint w" using uint_lt2p [of w] by (simp_all del: uint_ge_0 add: uint_ge_0)
  note b = this
  show "int (unat w) \<le> 255" using b by linarith
  show "-1 \<le> int (unat w)" using b by linarith
  show "int (unat w) \<noteq> -1" using b by linarith
  show "uint w \<noteq> -1" using b by linarith
qed

lemma unmap_Addr6: "unmapAddr a = Addr6 w z \<Longrightarrow> drop_bit 32 w \<noteq> 0xffff"
  by (cases a) (auto split: if_splits)

section \<open>Round trips of packet metadata\<close>

lemma read4_roundtrip:
  assumes m: "controlMessageForRead specDst destination opts = Inr control" and d: "unmapAddr destination = Addr4 d"
  shows "c4_Parse control = Some (Inr \<lparr>c4_ttl = int (unat (po_hopLimit opts)), c4_tos = int (unat (po_trafficClass opts)), c4_src = AddrZero,
    c4_dst = Addr4 d, c4_ifIndex = 0\<rparr>)"
proof -
  let ?ttl = "int (unat (po_hopLimit opts))" and ?tos = "int (unat (po_trafficClass opts))"
  obtain s where s: "addressField4 (unmapAddr specDst) = be_put32 s" using addressField4_some by blast
  have dd: "addressField4 (Addr4 d) = be_put32 d" by (simp add: addressField4_def)
  have b: "?ttl \<le> 255" "?tos \<le> 255" by (rule u8_le(1))+
  let ?a = "controlBytes linuxLevelIP linuxIPPacketInfo (replicate 4 0 @ be_put32 s @ be_put32 d)"
  let ?b = "controlBytes linuxLevelIP linuxIPTimeToLive (le_put32 (of_int ?ttl))"
  let ?c = "controlBytes linuxLevelIP linuxIPTypeOfService [of_int ?tos]"
  have c: "control = ?a @ ?b @ ?c @ []"
    using m s dd by (auto simp: controlMessageForRead_def c4_marshalForRead_def c4_marshal_def d Let_def isValidAddr_def
        appendLinuxIPv4PacketInfoControl_def appendLinuxControlInt32_def append_controlBytes split: if_splits)
  have l: "length (?b @ ?c @ []) < 2 ^ 32" "length (?c @ []) < 2 ^ 32" "length [] < 2 ^ 32"
    by (simp_all add: control_length)
  show ?thesis
    unfolding c4_Parse_def parseLinuxIPControlValues_def c
      run_packetInfo4 [OF l(1)] run_ttl4 [OF l(2) of_nat_0_le_iff b(1) disjI1 [OF TrueI]]
      run_tos4 [OF l(3) of_nat_0_le_iff b(2) disjI2 [OF refl]]
    by (simp add: setHopLimit_def setTrafficClass_def noOptions_def u8_le)
qed

lemma read6_roundtrip:
  assumes m: "controlMessageForRead specDst destination opts = Inr control" and d: "\<not> is4 (unmapAddr destination)"
  shows "c6_Parse control = Some (Inr \<lparr>c6_trafficClass = int (unat (po_trafficClass opts)), c6_hopLimit = int (unat (po_hopLimit opts)),
    c6_flowLabel = po_flowLabel opts, c6_src = AddrZero, c6_dst = unmapAddr destination, c6_ifIndex = 0\<rparr>)"
proof -
  let ?m = "\<lparr>c6_trafficClass = int (unat (po_trafficClass opts)), c6_hopLimit = int (unat (po_hopLimit opts)),
             c6_flowLabel = po_flowLabel opts, c6_src = AddrZero, c6_dst = unmapAddr destination, c6_ifIndex = 0\<rparr>"
  let ?hop = "int (unat (po_hopLimit opts))" and ?tclass = "int (unat (po_trafficClass opts))"
  obtain w where w: "unmapAddr destination = AddrZero \<or> unmapAddr destination = Addr6 w []"
    using m d by (cases "unmapAddr destination")
      (auto simp: controlMessageForRead_def c6_marshalForRead_def c6_marshal_def Let_def isValidAddr_def split: if_splits)
  have b: "-1 \<le> ?hop" "?hop \<le> 255" "\<not> True \<or> ?hop \<noteq> -1" "-1 \<le> ?tclass" "?tclass \<le> 255" "\<not> True \<or> ?tclass \<noteq> -1" by (rule u8_le disjI2)+
  have f: "c6_flowLabel ?m \<le> ipv6MaximumFlowLabel"
    using m d by (auto simp: controlMessageForRead_def c6_marshalForRead_def c6_marshal_def Let_def split: if_splits)
  note w' = unmap_Addr6 [of _ w "[]"]
  let ?a = "controlBytes linuxLevelIPv6 linuxIPv6PacketInfo (bytes16 w @ replicate 4 0)"
  let ?b = "controlBytes linuxLevelIPv6 linuxIPv6HopLimit (le_put32 (of_int ?hop))"
  let ?c = "controlBytes linuxLevelIPv6 linuxIPv6TrafficClass (le_put32 (of_int ?tclass))"
  let ?d = "controlBytes linuxLevelIPv6 linuxIPv6FlowInfo (be_put32 (flowInfo6 ?m))"
  let ?flow = "po_flowLabel opts \<noteq> 0 \<or> ?tclass \<noteq> 0"
  have c: "control = (if unmapAddr destination \<noteq> AddrZero then ?a else []) @ ?b @ ?c @ (if ?flow then ?d else []) @ []"
    using m d w w' by (auto simp: controlMessageForRead_def c6_marshalForRead_def c6_marshal_def Let_def isValidAddr_def
        appendLinuxIPv6PacketInfoControl_def appendLinuxControlInt32_def append_controlBytes split: if_splits)
  have l: "length (?b @ ?c @ (if ?flow then ?d else []) @ []) < 2 ^ 32" "length (?c @ (if ?flow then ?d else []) @ []) < 2 ^ 32"
    "length ((if ?flow then ?d else []) @ []) < 2 ^ 32" "length [] < 2 ^ 32" by (simp_all add: control_length)
  show ?thesis
    unfolding c6_Parse_def parseLinuxIPControlValues_def c
      walk_optional [OF run_packetInfo6 [OF l(1)]] run_hop6 [OF l(2) b(1,2,3)] run_class6 [OF l(3) b(4,5,6)]
    apply (subst walk_optional [OF run_flow6 [OF l(4) _ f]])
    using w by (auto simp: setHopLimit_def setTrafficClass_def noOptions_def u8_le)
qed

lemma write4_roundtrip:
  assumes m: "c4_Marshal m = Inr control"
  shows "parseControlMessageForWrite control False = Some (Inr
    (if isUnspecified (unmapAddr (c4_src m)) then AddrZero else unmapAddr (c4_src m),
     \<lparr>po_hopLimit = of_int (c4_ttl m), po_trafficClass = of_int (c4_tos m), po_flowLabel = 0,
      po_hopLimitSet = (c4_ttl m \<noteq> 0), po_trafficClassSet = (c4_tos m \<noteq> 0), po_flowLabelSet = False\<rparr>))"
proof -
  let ?ttl = "c4_ttl m" and ?tos = "c4_tos m"
  have b: "0 \<le> ?ttl" "?ttl \<le> 255" "0 \<le> ?tos" "?tos \<le> 255"
    using m by (auto simp: c4_Marshal_def c4_marshal_def Let_def split: if_splits)
  obtain s where s: "unmapAddr (c4_src m) = AddrZero \<or> unmapAddr (c4_src m) = Addr4 s"
    using m by (cases "unmapAddr (c4_src m)") (auto simp: c4_Marshal_def c4_marshal_def Let_def isValidAddr_def split: if_splits)
  have z: "addressField4 AddrZero = be_put32 0" by (simp add: addressField4_def be_put32_def numeral_eq_Suc)
  have ss: "addressField4 (Addr4 s) = be_put32 s" by (simp add: addressField4_def)
  let ?a = "controlBytes linuxLevelIP linuxIPPacketInfo (replicate 4 0 @ be_put32 s @ be_put32 0)"
  let ?b = "controlBytes linuxLevelIP linuxIPTimeToLive (le_put32 (of_int ?ttl))"
  let ?c = "controlBytes linuxLevelIP linuxIPTypeOfService (le_put32 (of_int ?tos))"
  let ?rc = "(if ?tos \<noteq> 0 then ?c else []) @ []"
  let ?rb = "(if ?ttl \<noteq> 0 then ?b else []) @ ?rc"
  have c: "control = (if unmapAddr (c4_src m) \<noteq> AddrZero then ?a else []) @ ?rb"
    using m s z ss by (auto simp: c4_Marshal_def c4_marshal_def Let_def isValidAddr_def
        appendLinuxIPv4PacketInfoControl_def appendLinuxControlInt32_def append_controlBytes split: if_splits)
  have l: "length ?rb < 2 ^ 32" "length ?rc < 2 ^ 32" "length [] < 2 ^ 32" by (simp_all add: control_length)
  have t: "walkControl (controlRecord False False) ?rb v = walkControl (controlRecord False False) ?rc (if ?ttl \<noteq> 0 then setHopLimit ?ttl v else v)" for v
    by (rule walk_optional, rule run_ttl4 [OF l(2) b(1,2)]) simp
  show ?thesis
    unfolding parseControlMessageForWrite_def c4_parseForWrite_def parseLinuxIPControlValues_def c
      walk_optional [OF run_packetInfo4 [OF l(1)]] t
      walk_optional [OF run_tos4 [OF l(3) b(3,4) disjI1 [OF refl]]]
    using s b by (auto simp: setHopLimit_def setTrafficClass_def noOptions_def)
qed

lemma write6_roundtrip:
  assumes m: "c6_Marshal m = Inr control"
  shows "parseControlMessageForWrite control True = Some (Inr
    (if isUnspecified (unmapAddr (c6_src m)) then AddrZero else unmapAddr (c6_src m),
     \<lparr>po_hopLimit = (if c6_hopLimit m = -1 then 0 else of_int (c6_hopLimit m)),
      po_trafficClass = (if c6_trafficClass m = -1 then 0 else of_int (c6_trafficClass m)), po_flowLabel = c6_flowLabel m,
      po_hopLimitSet = (c6_hopLimit m \<notin> {0, -1}), po_trafficClassSet = (c6_trafficClass m \<notin> {0, -1}), po_flowLabelSet = (c6_flowLabel m \<noteq> 0)\<rparr>))"
proof -
  let ?hop = "c6_hopLimit m" and ?tclass = "c6_trafficClass m"
  have b: "-1 \<le> ?hop" "?hop \<le> 255" "-1 \<le> ?tclass" "?tclass \<le> 255" and f: "c6_flowLabel m \<le> ipv6MaximumFlowLabel"
    using m by (auto simp: c6_Marshal_def c6_marshal_def Let_def split: if_splits)
  obtain w where w: "unmapAddr (c6_src m) = AddrZero \<or> unmapAddr (c6_src m) = Addr6 w []"
    using m by (cases "unmapAddr (c6_src m)") (auto simp: c6_Marshal_def c6_marshal_def Let_def isValidAddr_def split: if_splits)
  note w' = unmap_Addr6 [of _ w "[]"]
  let ?a = "controlBytes linuxLevelIPv6 linuxIPv6PacketInfo (bytes16 w @ replicate 4 0)"
  let ?b = "controlBytes linuxLevelIPv6 linuxIPv6HopLimit (le_put32 (of_int ?hop))"
  let ?c = "controlBytes linuxLevelIPv6 linuxIPv6TrafficClass (le_put32 (of_int ?tclass))"
  let ?d = "controlBytes linuxLevelIPv6 linuxIPv6FlowInfo (be_put32 (flowInfo6 m))"
  let ?rd = "(if c6_flowLabel m \<noteq> 0 then ?d else []) @ []"
  let ?rc = "(if ?tclass \<noteq> 0 then ?c else []) @ ?rd"
  let ?rb = "(if ?hop \<noteq> 0 then ?b else []) @ ?rc"
  have c: "control = (if unmapAddr (c6_src m) \<noteq> AddrZero then ?a else []) @ ?rb"
    using m w w' by (auto simp: c6_Marshal_def c6_marshal_def Let_def isValidAddr_def
        appendLinuxIPv6PacketInfoControl_def appendLinuxControlInt32_def append_controlBytes split: if_splits)
  have l: "length ?rb < 2 ^ 32" "length ?rc < 2 ^ 32" "length ?rd < 2 ^ 32" "length [] < 2 ^ 32" by (simp_all add: control_length)
  have n: "\<not> False" by simp
  show ?thesis
    unfolding parseControlMessageForWrite_def c6_parseForWrite_def parseLinuxIPControlValues_def c
      walk_optional [OF run_packetInfo6 [OF l(1)]] 
      walk_optional [OF run_hop6 [OF l(2) b(1,2) disjI1 [OF n]]] walk_optional [OF run_class6 [OF l(3) b(3,4) disjI1 [OF n]]]
    apply (subst walk_optional [OF run_flow6 [OF l(4) _ f]])
    using w by (auto simp: setHopLimit_def setTrafficClass_def noOptions_def u8_le)
qed

section \<open>Round trip of a socket error\<close>

definition socketErrorData :: "socketErrorControlMessage \<Rightarrow> bytes" where
  "socketErrorData m =
     le_put32 (se_errno m) @ [se_origin m, se_type m, se_code m, 0] @ le_put32 (se_info m) @ le_put32 (se_data m) @
     (if is4 (se_offender m) then le_put16 2 @ [0, 0] @ drop 12 (as16 (se_offender m)) @ replicate 8 0
      else le_put16 10 @ replicate 6 0 @ as16 (se_offender m) @ replicate 4 0)"

lemma parse_socketErrorData:
  assumes "isValidAddr (se_offender m)" "addrZone (se_offender m) = []"
  shows "parseSocketErrorControl (\<not> is4 (se_offender m)) (socketErrorData m) = Some (Inr m)"
proof -
  let ?d = "socketErrorData m" and ?o = "se_offender m"
  let ?tail = "if is4 ?o then [0, 0] @ drop 12 (as16 ?o) @ replicate 8 0 else replicate 6 0 @ as16 ?o @ replicate 4 0"
  let ?fam = "if is4 ?o then 2 else 10 :: u16"
  let ?b = "[se_origin m, se_type m, se_code m, 0]"
  have e: "?d = le_put32 (se_errno m) @ ?b @ le_put32 (se_info m) @ le_put32 (se_data m) @ le_put16 ?fam @ ?tail"
    by (simp add: socketErrorData_def)
  have l: "length ?d = (if \<not> is4 ?o then 44 else 32)" by (simp add: e)
  have r: "readLE32 ?d 0 = Some (se_errno m)" "readLE32 ?d 8 = Some (se_info m)" "readLE32 ?d 12 = Some (se_data m)" "readLE16 ?d 16 = Some ?fam"
    unfolding e using read_put(2) [of "[]" 0 "se_errno m"] read_put(2) [of "le_put32 (se_errno m) @ ?b" 8 "se_info m"]
      read_put(2) [of "le_put32 (se_errno m) @ ?b @ le_put32 (se_info m)" 12 "se_data m"]
      read_put(1) [of "le_put32 (se_errno m) @ ?b @ le_put32 (se_info m) @ le_put32 (se_data m)" 16 ?fam ?tail] by simp_all
  have i: "go_index ?d 4 = Some (se_origin m)" "go_index ?d 5 = Some (se_type m)" "go_index ?d 6 = Some (se_code m)"
    unfolding e by (simp_all add: go_index_def nth_append)
  show ?thesis
  proof (cases ?o)
    case (Addr4 w)
    have "go_slice ?d 20 24 = Some (be_put32 w)"
      unfolding e using Addr4 go_slice_middle [of "le_put32 (se_errno m) @ ?b @ le_put32 (se_info m) @ le_put32 (se_data m) @ le_put16 2 @ [0, 0]" 20
        "be_put32 w" 4 "replicate 8 0"] by simp
    then show ?thesis unfolding parseSocketErrorControl_def r i
      using Addr4 l by (simp add: Let_def)
  next
    case (Addr6 w z)
    have "go_slice ?d 24 40 = Some (bytes16 w)"
      unfolding e using Addr6 go_slice_middle [of "le_put32 (se_errno m) @ ?b @ le_put32 (se_info m) @ le_put32 (se_data m) @ le_put16 10 @ replicate 6 0" 24
        "bytes16 w" 16 "replicate 4 0"] by simp
    then show ?thesis unfolding parseSocketErrorControl_def r i
      using Addr6 l assms addrFrom16_as16 [of w] by (simp add: Let_def)
  qed (use assms in \<open>simp add: isValidAddr_def\<close>)
qed

lemma socketErrorAppendBinary_eq:
  "socketErrorAppendBinary m dst =
     (if \<not> isValidAddr (se_offender m) \<or> addrZone (se_offender m) \<noteq> [] then Inl InvalidOffender
      else Inr (dst @ controlBytes (if is4 (se_offender m) then linuxLevelIP else linuxLevelIPv6)
                        (if is4 (se_offender m) then linuxIPReceiveError else linuxIPv6ReceiveError) (socketErrorData m)))"
  by (simp add: socketErrorAppendBinary_def socketErrorData_def append_controlBytes Let_def)

text \<open>The concatenation of complete records.\<close>

definition controlBuffer :: "(u32 \<times> u32 \<times> bytes) list \<Rightarrow> bytes" where
  "controlBuffer rs = concat (map (\<lambda>(level, kind, data). controlBytes level kind data) rs)"

definition isErrorRecord :: "u32 \<times> u32 \<times> bytes \<Rightarrow> bool" where
  "isErrorRecord r \<longleftrightarrow> fst r = linuxLevelIP \<and> fst (snd r) = linuxIPReceiveError \<or> fst r = linuxLevelIPv6 \<and> fst (snd r) = linuxIPv6ReceiveError"

lemma walk_ignored:
  assumes "\<forall>r \<in> set rs. \<not> isErrorRecord r" "length (controlBuffer rs @ rest) < 2 ^ 32"
  shows "walkControl socketErrorRecord (controlBuffer rs @ rest) found = walkControl socketErrorRecord rest found"
  using assms
proof (induction rs)
  case (Cons r rs)
  obtain level kind data where r: "r = (level, kind, data)" by (cases r)
  have "length data < 2 ^ 32" "length (controlBuffer rs @ rest) < 2 ^ 32"
    using Cons.prems(2) alignControl_ge [of "16 + length data"] by (simp_all add: controlBuffer_def r length_controlBytes)
  moreover have "socketErrorRecord level kind data found = Some (Inr found)"
    using Cons.prems(1) by (auto simp: r isErrorRecord_def socketErrorRecord_def)
  ultimately have "walkControl socketErrorRecord (controlBytes level kind data @ controlBuffer rs @ rest) found =
      walkControl socketErrorRecord (controlBuffer rs @ rest) found" by (rule walk_accepted)
  then show ?case using Cons.IH Cons.prems by (simp add: controlBuffer_def r)
qed (simp add: controlBuffer_def)

lemma socketErrorRecord_written:
  assumes "isValidAddr (se_offender m)" "addrZone (se_offender m) = []"
  shows "socketErrorRecord (if is4 (se_offender m) then linuxLevelIP else linuxLevelIPv6)
     (if is4 (se_offender m) then linuxIPReceiveError else linuxIPv6ReceiveError) (socketErrorData m) None = Some (Inr (Some m))"
  using parse_socketErrorData [OF assms] by (cases "is4 (se_offender m)") (simp_all add: socketErrorRecord_def control_consts)

lemma length_socketErrorData: "length (socketErrorData m) \<le> 44"
  by (simp add: socketErrorData_def)

section \<open>Parsers do not panic\<close>

lemma readLE_total:
  "lo + 2 \<le> length bs \<Longrightarrow> readLE16 bs lo \<noteq> None" "lo + 4 \<le> length bs \<Longrightarrow> readLE32 bs lo \<noteq> None" "lo + 8 \<le> length bs \<Longrightarrow> readLE64 bs lo \<noteq> None"
  using be_get16_total [of "rev (take 2 (drop lo bs))"] be_get32_total [of "rev (take 4 (drop lo bs))"]
  by (auto simp: readLE16_def readLE32_def readLE64_def go_slice_in)

lemma walkControl_total:
  assumes "\<And>level kind data st. body level kind data st \<noteq> None" "length control < 2 ^ 64"
  shows "walkControl body control st \<noteq> None"
  using assms(2)
proof (induction "length control" arbitrary: control st rule: less_induct)
  case less
  show ?case
  proof (cases "length control < 16")
    case True
    then show ?thesis by (simp add: walkControl.simps linuxControlHeaderSize_def)
  next
    case False
    obtain n where n: "readLE64 control 0 = Some n" using readLE_total(3) [of 0 control] False by force
    show ?thesis
    proof (cases "n < 16 \<or> n > of_nat (length control)")
      case True
      then show ?thesis using n False by (subst walkControl.simps) (simp add: linuxControlHeaderSize_def)
    next
      case bad: False
      have u: "16 \<le> unat n" "unat n \<le> length control"
        using bad unat_of_nat_u64 [OF less.prems] by (auto simp: word_less_nat_alt)
      obtain level kind where r: "readLE32 control 8 = Some level" "readLE32 control 12 = Some kind"
        using readLE_total(2) [of 8 control] readLE_total(2) [of 12 control] False by force
      obtain data where d: "go_slice control 16 (unat n) = Some data" using u by (simp add: go_slice_def)
      obtain x where x: "body level kind data st = Some x" using assms(1) by blast
      have "walkControl body (drop (alignControl (unat n)) control) st' \<noteq> None" for st'
        using less.hyps [of "drop (alignControl (unat n)) control" st'] less.prems u alignControl_ge [of "unat n"] by simp
      then show ?thesis using n bad r d x False
        by (subst walkControl.simps) (auto simp: linuxControlHeaderSize_def Let_def split: sum.split)
    qed
  qed
qed

lemma go_index_total: "i < length bs \<Longrightarrow> go_index bs i \<noteq> None"
  by (simp add: go_index_def)

lemma parseSocketErrorControl_total: "parseSocketErrorControl v6 data \<noteq> None"
proof (cases "length data = (if v6 then 44 else 32)")
  case True
  then have "40 \<le> length data \<or> \<not> v6" "32 \<le> length data" by (auto split: if_splits)
  then show ?thesis
    using readLE_total(2) [of 0 data] readLE_total(2) [of 8 data] readLE_total(2) [of 12 data] readLE_total(1) [of 16 data]
      go_index_total [of 4 data] go_index_total [of 5 data] go_index_total [of 6 data] True
    by (auto simp: parseSocketErrorControl_def Let_def go_slice_def split: if_splits)
qed (simp add: parseSocketErrorControl_def)

lemma socketErrorRecord_total: "socketErrorRecord level kind data found \<noteq> None"
  using parseSocketErrorControl_total by (simp add: socketErrorRecord_def)

lemma packetInfo_total: "packetInfo4 v6 receiving data v \<noteq> None" "packetInfo6 v6 receiving data v \<noteq> None" "flowInfoRecord v6 data v \<noteq> None"
proof -
  show "packetInfo4 v6 receiving data v \<noteq> None"
    using readLE_total(2) [of 0 data] by (auto simp: packetInfo4_def go_slice_def Let_def)
  show "packetInfo6 v6 receiving data v \<noteq> None"
    using readLE_total(2) [of 16 data] by (auto simp: packetInfo6_def go_slice_def Let_def)
  show "flowInfoRecord v6 data v \<noteq> None"
  proof (cases "\<not> v6 \<or> length data < 4")
    case False
    then obtain w where "read32 data 0 = Some w" using read32_total [of 0 data] by auto
    then show ?thesis using False by (simp add: flowInfoRecord_def Let_def)
  qed (simp add: flowInfoRecord_def)
qed

lemma controlRecord_total: "controlRecord v6 receiving level kind data v \<noteq> None"
  using packetInfo_total by (simp add: controlRecord_def split: option.split)

section \<open>Properties\<close>

text \<open>
  C32: packet metadata survives the ancillary encoding in both directions. What a message read attaches to a datagram
  is recovered by the address family's \<^verbatim>\<open>Parse\<close> (hop limit, traffic class, flow label and destination), and what a
  caller marshals for a write is recovered by \<^verbatim>\<open>parseControlMessageForWrite\<close>: an unspecified source selects none, and an
  option counts as set exactly when its field is neither zero nor the IPv6 sentinel \<open>-1\<close>.
\<close>

theorem control_metadata_roundtrip:
  assumes "controlMessageForRead specDst destination opts = Inr readControl"
    and "c4_Marshal m4 = Inr control4" and "c6_Marshal m6 = Inr control6"
  shows "(if is4 (unmapAddr destination)
      then c4_Parse readControl = Some (Inr \<lparr>c4_ttl = int (unat (po_hopLimit opts)), c4_tos = int (unat (po_trafficClass opts)),
        c4_src = AddrZero, c4_dst = unmapAddr destination, c4_ifIndex = 0\<rparr>)
      else c6_Parse readControl = Some (Inr \<lparr>c6_trafficClass = int (unat (po_trafficClass opts)), c6_hopLimit = int (unat (po_hopLimit opts)),
        c6_flowLabel = po_flowLabel opts, c6_src = AddrZero, c6_dst = unmapAddr destination, c6_ifIndex = 0\<rparr>)) \<and>
    parseControlMessageForWrite control4 False = Some (Inr
      (if isUnspecified (unmapAddr (c4_src m4)) then AddrZero else unmapAddr (c4_src m4),
       \<lparr>po_hopLimit = of_int (c4_ttl m4), po_trafficClass = of_int (c4_tos m4), po_flowLabel = 0,
        po_hopLimitSet = (c4_ttl m4 \<noteq> 0), po_trafficClassSet = (c4_tos m4 \<noteq> 0), po_flowLabelSet = False\<rparr>)) \<and>
    parseControlMessageForWrite control6 True = Some (Inr
      (if isUnspecified (unmapAddr (c6_src m6)) then AddrZero else unmapAddr (c6_src m6),
       \<lparr>po_hopLimit = (if c6_hopLimit m6 = -1 then 0 else of_int (c6_hopLimit m6)),
        po_trafficClass = (if c6_trafficClass m6 = -1 then 0 else of_int (c6_trafficClass m6)), po_flowLabel = c6_flowLabel m6,
        po_hopLimitSet = (c6_hopLimit m6 \<notin> {0, -1}), po_trafficClassSet = (c6_trafficClass m6 \<notin> {0, -1}),
        po_flowLabelSet = (c6_flowLabel m6 \<noteq> 0)\<rparr>))"
proof -
  have r: "is4 a \<Longrightarrow> \<exists>d. a = Addr4 d" for a by (cases a) auto
  show ?thesis
  proof (intro conjI)
    show "if is4 (unmapAddr destination)
      then c4_Parse readControl = Some (Inr \<lparr>c4_ttl = int (unat (po_hopLimit opts)), c4_tos = int (unat (po_trafficClass opts)),
        c4_src = AddrZero, c4_dst = unmapAddr destination, c4_ifIndex = 0\<rparr>)
      else c6_Parse readControl = Some (Inr \<lparr>c6_trafficClass = int (unat (po_trafficClass opts)), c6_hopLimit = int (unat (po_hopLimit opts)),
        c6_flowLabel = po_flowLabel opts, c6_src = AddrZero, c6_dst = unmapAddr destination, c6_ifIndex = 0\<rparr>)"
      using r [of "unmapAddr destination"] read4_roundtrip [OF assms(1)] read6_roundtrip [OF assms(1)] by auto
  qed (rule write4_roundtrip [OF assms(2)] write6_roundtrip [OF assms(3)])+
qed

theorem control_metadata_roundtrip_witness:
  "\<exists>readControl control4 control6. c4_Parse readControl = Some (Inr \<lparr>c4_ttl = 64, c4_tos = 184, c4_src = AddrZero, c4_dst = Addr4 0x0a000001, c4_ifIndex = 0\<rparr>) \<and>
     parseControlMessageForWrite control4 False = Some (Inr (Addr4 0x0a000002,
       \<lparr>po_hopLimit = 3, po_trafficClass = 0, po_flowLabel = 0, po_hopLimitSet = True, po_trafficClassSet = False, po_flowLabelSet = False\<rparr>)) \<and>
     parseControlMessageForWrite control6 True = Some (Inr (AddrZero,
       \<lparr>po_hopLimit = 0, po_trafficClass = 8, po_flowLabel = 5, po_hopLimitSet = False, po_trafficClassSet = True, po_flowLabelSet = True\<rparr>))"
proof -
  let ?o = "noOptions\<lparr>po_hopLimit := 64, po_trafficClass := 184\<rparr>"
  let ?m4 = "\<lparr>c4_ttl = 3, c4_tos = 0, c4_src = Addr4 0x0a000002, c4_dst = AddrZero, c4_ifIndex = 0\<rparr>"
  let ?m6 = "\<lparr>c6_trafficClass = 8, c6_hopLimit = -1, c6_flowLabel = 5, c6_src = AddrZero, c6_dst = AddrZero, c6_ifIndex = 0\<rparr>"
  obtain a where a: "controlMessageForRead AddrZero (Addr4 0x0a000001) ?o = Inr a"
    by (simp add: controlMessageForRead_def c4_marshalForRead_def c4_marshal_def noOptions_def badIPv4Field_def isValidAddr_def Let_def)
  obtain b where b: "c4_Marshal ?m4 = Inr b" by (simp add: c4_Marshal_def c4_marshal_def isValidAddr_def Let_def)
  obtain c where c: "c6_Marshal ?m6 = Inr c" by (simp add: c6_Marshal_def c6_marshal_def isValidAddr_def ipv6MaximumFlowLabel_def Let_def push_bit_eq_mult)
  show ?thesis
    using control_metadata_roundtrip [OF a b c] by (intro exI [of _ a] exI [of _ b] exI [of _ c]) (simp add: noOptions_def)
qed

text \<open>
  C33: a socket error appended to a buffer of other ancillary records is the one that \<^verbatim>\<open>Parse\<close> returns, for every numeric
  field and both address families (an IPv4-mapped offender keeps its IPv6 form), and a second error record is refused.
\<close>

theorem socket_error_roundtrip:
  assumes "\<forall>r \<in> set rs. \<not> isErrorRecord r" and "length (controlBuffer rs) < 2 ^ 31"
    and "socketErrorAppendBinary m (controlBuffer rs) = Inr control"
  shows "socketErrorParse control = Some (Inr m) \<and>
    (case socketErrorAppendBinary m control of Inl e \<Rightarrow> False | Inr twice \<Rightarrow> socketErrorParse twice = Some (Inl DuplicateSocketError))"
proof -
  let ?o = "se_offender m"
  let ?l = "if is4 ?o then linuxLevelIP else linuxLevelIPv6" and ?k = "if is4 ?o then linuxIPReceiveError else linuxIPv6ReceiveError"
  let ?r = "controlBytes ?l ?k (socketErrorData m)"
  have v: "isValidAddr ?o" "addrZone ?o = []" and c: "control = controlBuffer rs @ ?r"
    using assms(3) unfolding socketErrorAppendBinary_eq by (auto split: if_splits)
  have t: "socketErrorAppendBinary m control = Inr (controlBuffer rs @ ?r @ ?r)" using v c by (simp add: socketErrorAppendBinary_eq)
  have d: "length (socketErrorData m) < 2 ^ 32" using length_socketErrorData [of m] by simp
  have r: "length ?r < 2 ^ 7" using length_socketErrorData [of m] by (simp add: control_length)
  have l: "length (controlBuffer rs @ ?r) < 2 ^ 32" "length (controlBuffer rs @ ?r @ ?r) < 2 ^ 32" "length ?r < 2 ^ 32" using assms(2) r by simp_all
  have one: "walkControl socketErrorRecord (?r @ rest) None = walkControl socketErrorRecord rest (Some m)" if "length rest < 2 ^ 32" for rest
    by (rule walk_accepted, rule d, rule that, rule socketErrorRecord_written [OF v])
  have dup: "socketErrorRecord ?l ?k (socketErrorData m) (Some m) = Some (Inl DuplicateSocketError)" by (simp add: socketErrorRecord_def)
  have "walkControl socketErrorRecord ?r (Some m) = Some (Inl DuplicateSocketError)"
    using walk_record [OF d, of "[]" socketErrorRecord ?l ?k "Some m"] dup by simp
  then show ?thesis
    using walk_ignored [OF assms(1) l(1)] walk_ignored [OF assms(1) l(2)] one [of "[]"] one [OF l(3)] t
    by (simp add: socketErrorParse_def c)
qed

theorem socket_error_roundtrip_witness:
  "\<exists>control. socketErrorParse control = Some (Inr \<lparr>se_errno = 111, se_origin = 2, se_type = 3, se_code = 3, se_info = 0, se_data = 0, se_offender = Addr4 0x0a000001\<rparr>)"
proof -
  let ?m = "\<lparr>se_errno = 111, se_origin = 2, se_type = 3, se_code = 3, se_info = 0, se_data = 0, se_offender = Addr4 0x0a000001\<rparr>"
  let ?rs = "[(linuxLevelIP, linuxIPTimeToLive, le_put32 64)]"
  have "\<forall>r \<in> set ?rs. \<not> isErrorRecord r" by (simp add: isErrorRecord_def control_consts)
  moreover have "length (controlBuffer ?rs) < 2 ^ 31" by (simp add: controlBuffer_def control_length)
  moreover obtain c where "socketErrorAppendBinary ?m (controlBuffer ?rs) = Inr c" by (simp add: socketErrorAppendBinary_eq isValidAddr_def)
  ultimately show ?thesis using socket_error_roundtrip by blast
qed

text \<open>
  No ancillary buffer makes a control parser panic.
\<close>

theorem control_parsers_total:
  assumes "length control < 2 ^ 63"
  shows "socketErrorParse control \<noteq> None \<and> parseLinuxIPControlValues control v6 receiving \<noteq> None \<and>
    parseControlMessageForWrite control v6 \<noteq> None \<and> c4_Parse control \<noteq> None \<and> c6_Parse control \<noteq> None"
proof -
  have l: "length control < 2 ^ 64" using assms by simp
  have p: "parseLinuxIPControlValues control v r \<noteq> None" for v r
    using walkControl_total [OF controlRecord_total l] by (simp add: parseLinuxIPControlValues_def)
  have "socketErrorParse control \<noteq> None" using walkControl_total [OF socketErrorRecord_total l] by (simp add: socketErrorParse_def)
  then show ?thesis using p
    by (simp add: parseControlMessageForWrite_def c4_parseForWrite_def c6_parseForWrite_def c4_Parse_def c6_Parse_def)
qed

theorem control_parsers_total_witness: "socketErrorParse [1, 2, 3] \<noteq> None \<and> c6_Parse (replicate 40 255) \<noteq> None"
  using control_parsers_total [of "[1, 2, 3]"] control_parsers_total [of "replicate 40 255"] by simp

end
