(* ===== verification/Multicast_Filter.thy ===== *)
theory Multicast_Filter
  imports Network_Source "HOL-Library.List_Lexorder" "HOL-Library.Char_ord"
begin

text \<open>
  Multicast source filters, \<^verbatim>\<open>src/multicast.go\<close>: the filter of one socket, the merge of a group's filters into the
  filter of the interface, and the validation of groups and sources. A Go set \<open>map[netip.Addr]struct{}\<close> is an
  \<open>addr set\<close>, nil being the empty set. Addresses are ordered as \<open>netip.Addr.Compare\<close> orders them.
\<close>

section \<open>The order of addresses\<close>

fun addrLe :: "addr \<Rightarrow> addr \<Rightarrow> bool" where
  "addrLe AddrZero b = True"
| "addrLe (Addr4 v) b = (case b of AddrZero \<Rightarrow> False | Addr4 w \<Rightarrow> v \<le> w | Addr6 _ _ \<Rightarrow> True)"
| "addrLe (Addr6 v z) b = (case b of Addr6 w y \<Rightarrow> v < w \<or> v = w \<and> z \<le> y | _ \<Rightarrow> False)"

instantiation addr :: linorder
begin

definition less_eq_addr :: "addr \<Rightarrow> addr \<Rightarrow> bool" where
  "less_eq_addr = addrLe"

definition less_addr :: "addr \<Rightarrow> addr \<Rightarrow> bool" where
  "less_addr a b \<longleftrightarrow> addrLe a b \<and> \<not> addrLe b a"

instance
proof
  fix a b c :: addr
  show "a < b \<longleftrightarrow> a \<le> b \<and> \<not> b \<le> a" by (simp add: less_eq_addr_def less_addr_def)
  show "a \<le> a" by (cases a) (simp_all add: less_eq_addr_def)
  show "a \<le> c" if "a \<le> b" "b \<le> c"
    using that by (cases a; cases b; cases c) (auto simp: less_eq_addr_def)
  show "a = b" if "a \<le> b" "b \<le> a"
    using that by (cases a; cases b) (auto simp: less_eq_addr_def)
  show "a \<le> b \<or> b \<le> a"
    by (cases a; cases b) (auto simp: less_eq_addr_def)
qed

end

section \<open>Filters\<close>

datatype multicastFilterMode = multicastFilterInclude | multicastFilterExclude

datatype multicastMembershipOperation =
    multicastJoinAnySource | multicastLeaveGroup | multicastJoinSource | multicastLeaveSource | multicastExcludeSource | multicastIncludeSource

record multicastFilter =
  mf_mode :: multicastFilterMode
  mf_sources :: "addr set"

definition accepts :: "multicastFilter \<Rightarrow> addr \<Rightarrow> bool" where
  "accepts f source =
     (let listed = (unmapAddr source \<in> mf_sources f)
      in if mf_mode f = multicastFilterInclude then listed else \<not> listed)"

definition cloneMulticastFilter :: "multicastFilter \<Rightarrow> multicastFilter" where
  "cloneMulticastFilter f = \<lparr>mf_mode = mf_mode f, mf_sources = mf_sources f\<rparr>"

definition multicastFiltersEqual :: "multicastFilter \<Rightarrow> bool \<Rightarrow> multicastFilter \<Rightarrow> bool \<Rightarrow> bool" where
  "multicastFiltersEqual left leftExists right rightExists =
     (if leftExists \<noteq> rightExists \<or> mf_mode left \<noteq> mf_mode right \<or> card (mf_sources left) \<noteq> card (mf_sources right) then False
      else mf_sources left \<subseteq> mf_sources right)"

definition multicastSourceDifference :: "addr set \<Rightarrow> addr set \<Rightarrow> addr set" where
  "multicastSourceDifference left right = left - right"

text \<open>The loop of \<open>aggregateMulticastFilter\<close> over the members' filters in the order they are visited.\<close>

fun aggregateLoop :: "multicastFilter list \<Rightarrow> multicastFilter \<Rightarrow> bool \<Rightarrow> addr set \<Rightarrow> multicastFilter \<times> addr set" where
  "aggregateLoop [] result firstExclude incl = (result, incl)"
| "aggregateLoop (f # rest) result firstExclude incl =
     (if mf_mode f = multicastFilterInclude then aggregateLoop rest result firstExclude (incl \<union> mf_sources f)
      else
        let result = result\<lparr>mf_mode := multicastFilterExclude\<rparr>
        in if firstExclude then aggregateLoop rest (result\<lparr>mf_sources := mf_sources f\<rparr>) False incl
           else aggregateLoop rest (result\<lparr>mf_sources := mf_sources result \<inter> mf_sources f\<rparr>) False incl)"

definition aggregateMulticastFilter :: "multicastFilter list \<Rightarrow> multicastFilter" where
  "aggregateMulticastFilter members =
     (if length members = 1 then hd members
      else
        let (result, incl) = aggregateLoop members \<lparr>mf_mode = multicastFilterInclude, mf_sources = {}\<rparr> True {}
        in if mf_mode result = multicastFilterInclude then result\<lparr>mf_sources := incl\<rparr>
           else result\<lparr>mf_sources := mf_sources result - incl\<rparr>)"

definition sortedMulticastSources :: "addr set \<Rightarrow> addr list" where
  "sortedMulticastSources sources = sorted_list_of_set sources"

section \<open>Groups and sources\<close>

definition validMulticastSourceSyntax :: "addr \<Rightarrow> bool \<Rightarrow> bool" where
  "validMulticastSourceSyntax source v6 =
     (let source = unmapAddr source
      in isValidAddr source \<and> \<not> isUnspecified source \<and> \<not> isMulticastAddr source \<and> addrZone source = [] \<and> is6 source = v6)"

definition validMulticastSourceAddress :: "networkState \<Rightarrow> addr \<Rightarrow> bool \<Rightarrow> bool" where
  "validMulticastSourceAddress network source v6 =
     (if \<not> validMulticastSourceSyntax source v6 then False
      else
        let source = unmapAddr source
        in if is4 source \<and> broadcastDestination network source then False else True)"

definition isSourceSpecificMulticast :: "addr \<Rightarrow> bool" where
  "isSourceSpecificMulticast g =
     (let g = unmapAddr g
      in if \<not> isMulticastAddr g then False
         else if is4 g then as16 g ! 12 = 232
         else
           let raw = as16 g
           in drop_bit 4 (raw ! 1) = 3 \<and> raw ! 2 = 0 \<and> raw ! 3 = 0)"

definition allHosts4 :: addr where "allHosts4 = Addr4 0xe0000001"

definition multicastGroupNeedsReport :: "addr \<Rightarrow> bool" where
  "multicastGroupNeedsReport g =
     (let g = unmapAddr g
      in if \<not> validMulticastGroup g then False
         else if is4 g then g \<noteq> allHosts4
         else as16 g ! 1 AND 0x0f > 1 \<and> \<not> isAllHostsGroup g)"

section \<open>The merge accepts what some member accepts\<close>

definition unionInclude :: "multicastFilter list \<Rightarrow> addr set" where
  "unionInclude fs = (\<Union>f\<in>{f \<in> set fs. mf_mode f = multicastFilterInclude}. mf_sources f)"

definition excludes :: "multicastFilter list \<Rightarrow> multicastFilter list" where
  "excludes fs = filter (\<lambda>f. mf_mode f = multicastFilterExclude) fs"

lemma mode_not_include [simp]: "m \<noteq> multicastFilterInclude \<longleftrightarrow> m = multicastFilterExclude"
  by (cases m) simp_all

lemma aggregateLoop_include: "snd (aggregateLoop fs result firstExclude incl) = incl \<union> unionInclude fs"
  by (induction fs result firstExclude incl rule: aggregateLoop.induct) (auto simp: unionInclude_def Let_def)

lemma excludes_simps [simp]:
  "excludes [] = []" "mf_mode f = multicastFilterInclude \<Longrightarrow> excludes (f # fs) = excludes fs"
  "mf_mode f = multicastFilterExclude \<Longrightarrow> excludes (f # fs) = f # excludes fs"
  by (simp_all add: excludes_def)

lemma aggregateLoop_later:
  "mf_mode result = multicastFilterExclude \<Longrightarrow>
   fst (aggregateLoop fs result False incl) = result\<lparr>mf_sources := mf_sources result \<inter> (\<Inter>f\<in>set (excludes fs). mf_sources f)\<rparr>"
proof (induction fs arbitrary: result incl)
  case (Cons f rest)
  show ?case
  proof (cases "mf_mode f")
    case multicastFilterInclude
    then show ?thesis using Cons.IH [OF Cons.prems] by simp
  next
    case multicastFilterExclude
    then show ?thesis
      using Cons.IH [of "result\<lparr>mf_mode := multicastFilterExclude, mf_sources := mf_sources result \<inter> mf_sources f\<rparr>" incl] Cons.prems
      by (simp add: Int_assoc)
  qed
qed simp

lemma aggregateLoop_first:
  "mf_mode result = multicastFilterInclude \<Longrightarrow>
   fst (aggregateLoop fs result True incl) =
     (if excludes fs = [] then result
      else result\<lparr>mf_mode := multicastFilterExclude, mf_sources := (\<Inter>f\<in>set (excludes fs). mf_sources f)\<rparr>)"
proof (induction fs arbitrary: result incl)
  case (Cons f rest)
  show ?case
  proof (cases "mf_mode f")
    case multicastFilterInclude
    then show ?thesis using Cons.IH [OF Cons.prems] by simp
  next
    case multicastFilterExclude
    then show ?thesis
      using aggregateLoop_later [of "result\<lparr>mf_mode := multicastFilterExclude, mf_sources := mf_sources f\<rparr>" rest incl] by simp
  qed
qed simp

lemma excludes_set: "set (excludes fs) = {f \<in> set fs. mf_mode f = multicastFilterExclude}"
  by (auto simp: excludes_def)

lemma aggregate_mode: "mf_mode (aggregateMulticastFilter fs) = (if excludes fs = [] then multicastFilterInclude else multicastFilterExclude)"
proof (cases "length fs = 1")
  case True
  then obtain f where "fs = [f]" by (auto simp: length_Suc_conv)
  then show ?thesis by (cases "mf_mode f") (simp_all add: aggregateMulticastFilter_def)
next
  case False
  then show ?thesis
    using aggregateLoop_first [of "\<lparr>mf_mode = multicastFilterInclude, mf_sources = {}\<rparr>" fs "{}"]
    by (simp add: aggregateMulticastFilter_def Let_def split_def)
qed

lemma aggregate_sources:
  "mf_sources (aggregateMulticastFilter fs) =
     (if excludes fs = [] then unionInclude fs else (\<Inter>f\<in>set (excludes fs). mf_sources f) - unionInclude fs)"
proof (cases "length fs = 1")
  case True
  then obtain f where f: "fs = [f]" by (auto simp: length_Suc_conv)
  then show ?thesis by (cases "mf_mode f") (auto simp: aggregateMulticastFilter_def unionInclude_def)
next
  case False
  then show ?thesis
    using aggregateLoop_first [of "\<lparr>mf_mode = multicastFilterInclude, mf_sources = {}\<rparr>" fs "{}"]
      aggregateLoop_include [of fs "\<lparr>mf_mode = multicastFilterInclude, mf_sources = {}\<rparr>" True "{}"]
    by (simp add: aggregateMulticastFilter_def Let_def split_def)
qed

lemma aggregate_accepts: "accepts (aggregateMulticastFilter fs) source \<longleftrightarrow> list_ex (\<lambda>f. accepts f source) fs"
proof (cases "excludes fs = []")
  case True
  then have "f \<in> set fs \<Longrightarrow> mf_mode f = multicastFilterInclude" for f by (cases "mf_mode f") (auto simp: excludes_def filter_empty_conv)
  then show ?thesis using True
    by (auto simp: accepts_def aggregate_mode aggregate_sources unionInclude_def list_ex_iff)
next
  case False
  have a: "accepts f source \<longleftrightarrow> (if mf_mode f = multicastFilterInclude then unmapAddr source \<in> mf_sources f else unmapAddr source \<notin> mf_sources f)" for f
    by (simp add: accepts_def)
  have "accepts (aggregateMulticastFilter fs) source \<longleftrightarrow>
      (\<exists>f\<in>set (excludes fs). unmapAddr source \<notin> mf_sources f) \<or> unmapAddr source \<in> unionInclude fs"
    using False by (auto simp: a aggregate_mode aggregate_sources)
  also have "\<dots> \<longleftrightarrow> (\<exists>f\<in>set fs. accepts f source)"
    unfolding a excludes_set unionInclude_def by (auto split: if_splits) (metis multicastFilterMode.distinct(1))
  finally show ?thesis by (simp add: list_ex_iff)
qed

lemma aggregate_permuted: "set fs = set gs \<Longrightarrow> aggregateMulticastFilter fs = aggregateMulticastFilter gs"
proof -
  assume "set fs = set gs"
  then have "set (excludes fs) = set (excludes gs)" "unionInclude fs = unionInclude gs" by (auto simp: excludes_set unionInclude_def)
  moreover from this have "excludes fs = [] \<longleftrightarrow> excludes gs = []" by (metis set_empty)
  ultimately show ?thesis
    by (intro multicastFilter.equality) (simp_all add: aggregate_mode aggregate_sources)
qed

end
