(* ===== verification/Multicast_Group.thy ===== *)
theory Multicast_Group
  imports Multicast_Filter
begin

text \<open>
  The membership state of \<^verbatim>\<open>src/multicast.go\<close>: the members of each group, the merged filter, the dispatch entries that
  the data plane reads without the lock, the pending reports, and the older-querier timers. A Go map is an
  association list with distinct keys (\<open>visit\<close> ranks the keys of an iteration, since Go leaves its order open), a
  \<open>[2]\<close> array indexed by family a function of \<^verbatim>\<open>Is6\<close>, a zero \<^verbatim>\<open>time.Time\<close> is \<open>None\<close>. The object a pointer to a
  group state denotes is a number, under which the entry that its atomic pointer holds is stored.
\<close>

section \<open>State\<close>

definition multicastDefaultRobustness :: u8 where "multicastDefaultRobustness = 2"
definition multicastDefaultQueryInterval :: int where "multicastDefaultQueryInterval = 125 * 1000000000"
definition multicastDefaultResponseInterval :: int where "multicastDefaultResponseInterval = 10 * 1000000000"

datatype endpointKind = UDPEndpoint | IPEndpoint

text \<open>A socket, a pointer in the code: \<open>me_id\<close> is its identity; a raw socket's peer has port zero.\<close>

record multicastEndpoint =
  me_id :: nat
  me_kind :: endpointKind
  me_dual :: bool
  me_v6 :: bool
  me_local :: addr
  me_port :: u16
  me_protocol :: u8
  me_remote :: "addr \<times> u16"

record multicastPendingQuery =
  pq_deadline :: "int option"
  pq_sources :: "addr set"
  pq_sourceQuery :: bool

record multicastGroupState =
  gs_object :: nat
  gs_members :: "(multicastEndpoint \<times> multicastFilter) list"
  gs_aggregate :: multicastFilter
  gs_query :: multicastPendingQuery
  gs_lastReporter :: bool

record multicastDispatchGroup =
  dg_filter :: multicastFilter
  dg_udp :: "(multicastEndpoint \<times> multicastFilter) list"
  dg_ip :: "(multicastEndpoint \<times> multicastFilter) list"

record multicastRetransmission =
  rt_filter :: multicastFilter
  rt_exists :: bool
  rt_lastReporter :: bool
  rt_modeRemaining :: u8
  rt_allow :: "(addr \<times> u8) list"
  rt_block :: "(addr \<times> u8) list"
  rt_due :: "int option"

record multicastQuerierState =
  qs_robustness :: "bool \<Rightarrow> u8"
  qs_queryInterval :: "bool \<Rightarrow> int"
  qs_responseInterval :: "bool \<Rightarrow> int"
  qs_compatibility :: "bool \<Rightarrow> u8"
  qs_igmpV1Until :: "int option"
  qs_igmpV2Until :: "int option"
  qs_mldV1Until :: "int option"

record multicastState = multicastQuerierState +
  ms_groups :: "(addr \<times> multicastGroupState) list"
  ms_retransmissions :: "(addr \<times> multicastRetransmission) list"
  ms_familyGroups :: "bool \<Rightarrow> int"
  ms_generalQuery :: "bool \<Rightarrow> int option"
  ms_random :: u64
  ms_wake :: bool
  ms_closed :: bool
  ms_index :: "(addr \<times> nat) list option"
  ms_reportCancel :: "bool \<Rightarrow> nat"
  ms_entries :: "nat \<Rightarrow> multicastDispatchGroup option"
  ms_objects :: nat

text \<open>
  \<open>ms_index\<close> is the published snapshot, \<open>ms_entries\<close> the dispatch pointer of each group object, \<open>ms_objects\<close> the number
  of objects made so far, and \<open>ms_reportCancel\<close> numbers the channels, so that closing one and making the next is a
  successor.
\<close>

definition emptyPendingQuery :: multicastPendingQuery where
  "emptyPendingQuery = \<lparr>pq_deadline = None, pq_sources = {}, pq_sourceQuery = False\<rparr>"

definition emptyRetransmission :: multicastRetransmission where
  "emptyRetransmission = \<lparr>rt_filter = \<lparr>mf_mode = multicastFilterInclude, mf_sources = {}\<rparr>, rt_exists = False, rt_lastReporter = False,
     rt_modeRemaining = 0, rt_allow = [], rt_block = [], rt_due = None\<rparr>"

definition defaultMulticastQuerierState :: multicastQuerierState where
  "defaultMulticastQuerierState =
     \<lparr>qs_robustness = (\<lambda>_. multicastDefaultRobustness), qs_queryInterval = (\<lambda>_. multicastDefaultQueryInterval),
      qs_responseInterval = (\<lambda>_. multicastDefaultResponseInterval), qs_compatibility = (\<lambda>v6. if v6 then 2 else 3),
      qs_igmpV1Until = None, qs_igmpV2Until = None, qs_mldV1Until = None\<rparr>"

definition inOrder :: "('k \<Rightarrow> nat) \<Rightarrow> ('k \<times> 'v) list \<Rightarrow> ('k \<times> 'v) list" where
  "inOrder rank entries = sort_key (\<lambda>e. rank (fst e)) entries"

section \<open>Older queriers\<close>

definition expired :: "int \<Rightarrow> int option \<Rightarrow> int option" where
  "expired now until = (case until of None \<Rightarrow> None | Some t \<Rightarrow> if \<not> now < t then None else Some t)"

definition refresh :: "int \<Rightarrow> 'a multicastQuerierState_scheme \<Rightarrow> (bool \<Rightarrow> bool) \<times> 'a multicastQuerierState_scheme" where
  "refresh now s =
     (let s = s\<lparr>qs_igmpV1Until := expired now (qs_igmpV1Until s)\<rparr>;
          s = s\<lparr>qs_igmpV2Until := expired now (qs_igmpV2Until s)\<rparr>;
          s = s\<lparr>qs_mldV1Until := expired now (qs_mldV1Until s)\<rparr>;
          mode4 = (3 :: u8);
          mode4 = (if qs_igmpV2Until s \<noteq> None then 2 else mode4);
          mode4 = (if qs_igmpV1Until s \<noteq> None then 1 else mode4);
          mode6 = (2 :: u8);
          mode6 = (if qs_mldV1Until s \<noteq> None then 1 else mode6);
          mode = (\<lambda>v6. if v6 then mode6 else mode4)
      in (\<lambda>v6. qs_compatibility s v6 \<noteq> mode v6, s\<lparr>qs_compatibility := mode\<rparr>))"

definition latestVersion :: "bool \<Rightarrow> u8" where
  "latestVersion v6 = (if v6 then 2 else 3)"

definition legacyVersionLocked :: "bool \<Rightarrow> 'a multicastQuerierState_scheme \<Rightarrow> u8" where
  "legacyVersionLocked v6 s = (if qs_compatibility s v6 = latestVersion v6 then 0 else qs_compatibility s v6)"

definition cancelPendingFamilyLocked :: "bool \<Rightarrow> multicastState \<Rightarrow> multicastState" where
  "cancelPendingFamilyLocked v6 s =
     s\<lparr>ms_generalQuery := (ms_generalQuery s)(v6 := None),
       ms_groups := map (\<lambda>(g, state). (g, if is6 g = v6 then state\<lparr>gs_query := emptyPendingQuery\<rparr> else state)) (ms_groups s),
       ms_retransmissions := filter (\<lambda>(g, _). is6 g \<noteq> v6) (ms_retransmissions s)\<rparr>"

definition modeChanged :: "bool \<Rightarrow> (bool \<Rightarrow> bool) \<Rightarrow> multicastState \<Rightarrow> multicastState" where
  "modeChanged v6 changed s =
     (if changed v6 then cancelPendingFamilyLocked v6 (s\<lparr>ms_reportCancel := (ms_reportCancel s)(v6 := ms_reportCancel s v6 + 1)\<rparr>) else s)"

definition refreshCompatibilityLocked :: "int \<Rightarrow> multicastState \<Rightarrow> multicastState" where
  "refreshCompatibilityLocked now s =
     (if ms_closed s then s
      else
        let (changed, s) = refresh now s
        in modeChanged True changed (modeChanged False changed s))"

section \<open>Dispatch entries\<close>

definition rebuildDispatchIndexLocked :: "multicastState \<Rightarrow> multicastState" where
  "rebuildDispatchIndexLocked s = s\<lparr>ms_index := Some (map (\<lambda>(g, state). (g, gs_object state)) (ms_groups s))\<rparr>"

definition dispatchGroup :: "(multicastEndpoint \<Rightarrow> nat) \<Rightarrow> (multicastEndpoint \<times> multicastFilter) list \<Rightarrow> multicastFilter \<Rightarrow> multicastDispatchGroup" where
  "dispatchGroup rank members aggregate =
     (let members = inOrder rank members
      in \<lparr>dg_filter = aggregate, dg_udp = filter (\<lambda>(c, _). me_kind c = UDPEndpoint) members,
          dg_ip = filter (\<lambda>(c, _). me_kind c = IPEndpoint) members\<rparr>)"

type_synonym member_visit = "nat \<Rightarrow> addr \<Rightarrow> multicastEndpoint \<Rightarrow> nat"

definition rebuildGroupDispatchLocked :: "member_visit \<Rightarrow> addr \<Rightarrow> multicastState \<Rightarrow> multicastState" where
  "rebuildGroupDispatchLocked visit address s =
     (case map_of (ms_groups s) address of
        None \<Rightarrow> rebuildDispatchIndexLocked s
      | Some state \<Rightarrow>
          let s = s\<lparr>ms_entries := (ms_entries s)(gs_object state := Some (dispatchGroup (visit 1 address) (gs_members state) (gs_aggregate state)))\<rparr>
          in if ms_index s = None \<or> map_of (the (ms_index s)) address \<noteq> Some (gs_object state) then rebuildDispatchIndexLocked s else s)"

definition loadDispatchGroup :: "addr \<Rightarrow> multicastState \<Rightarrow> multicastDispatchGroup option" where
  "loadDispatchGroup address s =
     (case ms_index s of
        None \<Rightarrow> None
      | Some groups \<Rightarrow> (case map_of groups address of None \<Rightarrow> None | Some object \<Rightarrow> ms_entries s object))"

definition removeGroupLocked :: "addr \<Rightarrow> multicastState \<Rightarrow> multicastState" where
  "removeGroupLocked g s =
     (let s = (case map_of (ms_groups s) g of None \<Rightarrow> s | Some state \<Rightarrow> s\<lparr>ms_entries := (ms_entries s)(gs_object state := None)\<rparr>);
          s = s\<lparr>ms_groups := AList.delete g (ms_groups s)\<rparr>
      in if multicastGroupNeedsReport g then s\<lparr>ms_familyGroups := (ms_familyGroups s)(is6 g := ms_familyGroups s (is6 g) - 1)\<rparr> else s)"

section \<open>State-change reports\<close>

definition multicastInterfaceFilter :: "multicastGroupState option \<Rightarrow> multicastFilter \<times> bool" where
  "multicastInterfaceFilter state =
     (case state of
        None \<Rightarrow> (\<lparr>mf_mode = multicastFilterInclude, mf_sources = {}\<rparr>, False)
      | Some state \<Rightarrow>
          if gs_members state = [] then (\<lparr>mf_mode = multicastFilterInclude, mf_sources = {}\<rparr>, False) else (gs_aggregate state, True))"

definition setCounters :: "addr set \<Rightarrow> u8 \<Rightarrow> (addr \<times> u8) list \<Rightarrow> (addr \<times> u8) list" where
  "setCounters sources robustness counters = fold (\<lambda>source. AList.update source robustness) (sorted_list_of_set sources) counters"

definition dropCounters :: "addr set \<Rightarrow> (addr \<times> u8) list \<Rightarrow> (addr \<times> u8) list" where
  "dropCounters sources counters = filter (\<lambda>(source, _). source \<notin> sources) counters"

definition mergeTransition :: "multicastFilter \<Rightarrow> multicastFilter \<Rightarrow> u8 \<Rightarrow> multicastRetransmission \<Rightarrow> multicastRetransmission" where
  "mergeTransition old current robustness r =
     (if mf_mode old \<noteq> mf_mode current then r\<lparr>rt_modeRemaining := robustness, rt_allow := [], rt_block := []\<rparr>
      else
        let (allow, block) =
              (if mf_mode current = multicastFilterInclude
               then (multicastSourceDifference (mf_sources current) (mf_sources old), multicastSourceDifference (mf_sources old) (mf_sources current))
               else (multicastSourceDifference (mf_sources old) (mf_sources current), multicastSourceDifference (mf_sources current) (mf_sources old)));
            r = r\<lparr>rt_allow := setCounters allow robustness (rt_allow r), rt_block := dropCounters allow (rt_block r)\<rparr>
        in r\<lparr>rt_block := setCounters block robustness (rt_block r), rt_allow := dropCounters block (rt_allow r)\<rparr>)"

definition interfaceStateChangedLocked :: "int \<Rightarrow> addr \<Rightarrow> multicastFilter \<Rightarrow> bool \<Rightarrow> bool \<Rightarrow> multicastState \<Rightarrow> multicastState" where
  "interfaceStateChangedLocked now g old oldExists oldLastReporter s =
     (let groupState = map_of (ms_groups s) g;
          (current, currentExists) = multicastInterfaceFilter groupState
      in if multicastFiltersEqual old oldExists current currentExists \<or> \<not> multicastGroupNeedsReport g then s
         else
           let s = refreshCompatibilityLocked now s;
               v6 = is6 g
           in if qs_compatibility s v6 < latestVersion v6 \<and> oldExists = currentExists then s
              else
                let robustness = (if qs_robustness s v6 = 0 then multicastDefaultRobustness else qs_robustness s v6);
                    r = (case map_of (ms_retransmissions s) g of None \<Rightarrow> emptyRetransmission | Some r \<Rightarrow> r);
                    r = r\<lparr>rt_filter := current, rt_exists := currentExists,
                          rt_lastReporter := (case groupState of Some state \<Rightarrow> if currentExists then gs_lastReporter state else oldLastReporter
                                              | None \<Rightarrow> oldLastReporter)\<rparr>;
                    r = (mergeTransition old current robustness r)\<lparr>rt_due := Some now\<rparr>
                in s\<lparr>ms_retransmissions := AList.update g r (ms_retransmissions s), ms_wake := True\<rparr>)"

section \<open>Membership operations\<close>

text \<open>The first \<open>switch\<close> of \<open>change\<close> and the copy of an existing filter.\<close>

definition requestedFilter :: "multicastMembershipOperation \<Rightarrow> multicastFilter option \<Rightarrow> addr \<Rightarrow> errno + multicastFilter" where
  "requestedFilter operation f source =
     (case operation of
        multicastJoinAnySource \<Rightarrow> (if f \<noteq> None then Inl EADDRINUSE else Inr \<lparr>mf_mode = multicastFilterExclude, mf_sources = {}\<rparr>)
      | multicastLeaveGroup \<Rightarrow> (case f of None \<Rightarrow> Inl EADDRNOTAVAIL | Some f \<Rightarrow> Inr f)
      | multicastJoinSource \<Rightarrow>
          (case f of
             None \<Rightarrow> Inr \<lparr>mf_mode = multicastFilterInclude, mf_sources = {}\<rparr>
           | Some f \<Rightarrow> if mf_mode f \<noteq> multicastFilterInclude then Inl EINVAL
                       else if source \<in> mf_sources f then Inl EADDRINUSE else Inr (cloneMulticastFilter f))
      | multicastLeaveSource \<Rightarrow>
          (case f of
             None \<Rightarrow> Inl EINVAL
           | Some f \<Rightarrow> if mf_mode f \<noteq> multicastFilterInclude then Inl EINVAL
                       else if source \<notin> mf_sources f then Inl EADDRNOTAVAIL else Inr (cloneMulticastFilter f))
      | multicastExcludeSource \<Rightarrow>
          (case f of
             None \<Rightarrow> Inl EINVAL
           | Some f \<Rightarrow> if mf_mode f \<noteq> multicastFilterExclude then Inl EINVAL
                       else if source \<in> mf_sources f then Inl EADDRINUSE else Inr (cloneMulticastFilter f))
      | multicastIncludeSource \<Rightarrow>
          (case f of
             None \<Rightarrow> Inl EINVAL
           | Some f \<Rightarrow> if mf_mode f \<noteq> multicastFilterExclude then Inl EINVAL
                       else if source \<notin> mf_sources f then Inl EADDRNOTAVAIL else Inr (cloneMulticastFilter f)))"

text \<open>The second \<open>switch\<close> of \<open>change\<close>.\<close>

definition changedMembers ::
  "multicastMembershipOperation \<Rightarrow> multicastEndpoint \<Rightarrow> addr \<Rightarrow> multicastFilter \<Rightarrow> (multicastEndpoint \<times> multicastFilter) list \<Rightarrow>
     (multicastEndpoint \<times> multicastFilter) list" where
  "changedMembers operation endpoint source f members =
     (case operation of
        multicastLeaveGroup \<Rightarrow> AList.delete endpoint members
      | multicastJoinSource \<Rightarrow> AList.update endpoint (f\<lparr>mf_sources := insert source (mf_sources f)\<rparr>) members
      | multicastExcludeSource \<Rightarrow> AList.update endpoint (f\<lparr>mf_sources := insert source (mf_sources f)\<rparr>) members
      | multicastLeaveSource \<Rightarrow>
          let f = f\<lparr>mf_sources := mf_sources f - {source}\<rparr>
          in if mf_sources f = {} then AList.delete endpoint members else AList.update endpoint f members
      | multicastIncludeSource \<Rightarrow> AList.update endpoint (f\<lparr>mf_sources := mf_sources f - {source}\<rparr>) members
      | multicastJoinAnySource \<Rightarrow> AList.update endpoint f members)"

text \<open>The end of every operation on a group: its members are replaced, the interface filter and the dispatch follow.\<close>

definition installMembers :: "member_visit \<Rightarrow> addr \<Rightarrow> multicastGroupState \<Rightarrow> multicastState \<Rightarrow> multicastState" where
  "installMembers visit g state s =
     (if gs_members state = [] then removeGroupLocked g (s\<lparr>ms_groups := AList.update g state (ms_groups s)\<rparr>)
      else s\<lparr>ms_groups := AList.update g
               (state\<lparr>gs_aggregate := aggregateMulticastFilter (map snd (inOrder (visit 0 g) (gs_members state)))\<rparr>) (ms_groups s)\<rparr>)"

definition membershipChange ::
  "member_visit \<Rightarrow> int \<Rightarrow> multicastEndpoint \<Rightarrow> multicastMembershipOperation \<Rightarrow> addr \<Rightarrow> addr \<Rightarrow> multicastState \<Rightarrow> errno + multicastState" where
  "membershipChange visit now endpoint operation g source s =
     (let groupState = map_of (ms_groups s) g;
          (old, oldExists) = multicastInterfaceFilter groupState;
          oldLastReporter = (case groupState of None \<Rightarrow> False | Some state \<Rightarrow> gs_lastReporter state);
          f = (case groupState of None \<Rightarrow> None | Some state \<Rightarrow> map_of (gs_members state) endpoint)
      in case requestedFilter operation f source of
           Inl e \<Rightarrow> Inl e
         | Inr f \<Rightarrow>
             let (state, s) =
                   (case groupState of
                      Some state \<Rightarrow> (state, s)
                    | None \<Rightarrow>
                        (\<lparr>gs_object = ms_objects s, gs_members = [], gs_aggregate = \<lparr>mf_mode = multicastFilterInclude, mf_sources = {}\<rparr>,
                          gs_query = emptyPendingQuery, gs_lastReporter = False\<rparr>,
                         let s = s\<lparr>ms_objects := ms_objects s + 1\<rparr>
                         in if multicastGroupNeedsReport g
                            then s\<lparr>ms_familyGroups := (ms_familyGroups s)(is6 g := ms_familyGroups s (is6 g) + 1)\<rparr> else s));
                 state = state\<lparr>gs_members := changedMembers operation endpoint source f (gs_members state)\<rparr>;
                 s = installMembers visit g state s;
                 s = interfaceStateChangedLocked now g old oldExists oldLastReporter s
             in Inr (rebuildGroupDispatchLocked visit g s))"

definition membershipSet ::
  "member_visit \<Rightarrow> int \<Rightarrow> multicastEndpoint \<Rightarrow> addr \<Rightarrow> multicastFilterMode \<Rightarrow> addr set \<Rightarrow> multicastState \<Rightarrow> errno + multicastState" where
  "membershipSet visit now endpoint g mode sources s =
     (case map_of (ms_groups s) g of
        None \<Rightarrow> Inl (if mode = multicastFilterInclude \<and> sources = {} then EADDRNOTAVAIL else EINVAL)
      | Some state \<Rightarrow>
          if map_of (gs_members state) endpoint = None
          then Inl (if mode = multicastFilterInclude \<and> sources = {} then EADDRNOTAVAIL else EINVAL)
          else
            let (old, oldExists) = multicastInterfaceFilter (Some state);
                oldLastReporter = gs_lastReporter state;
                members = (if mode = multicastFilterInclude \<and> sources = {} then AList.delete endpoint (gs_members state)
                           else AList.update endpoint \<lparr>mf_mode = mode, mf_sources = sources\<rparr> (gs_members state));
                s = installMembers visit g (state\<lparr>gs_members := members\<rparr>) s;
                s = interfaceStateChangedLocked now g old oldExists oldLastReporter s
            in Inr (rebuildGroupDispatchLocked visit g s))"

text \<open>The loops of \<open>removeEndpoint\<close> and \<open>removeInvalidSourcesLocked\<close>: \<open>update\<close> gives a group's new members, \<open>None\<close> skips it.\<close>

fun updateGroups ::
  "member_visit \<Rightarrow> int \<Rightarrow> (addr \<Rightarrow> (multicastEndpoint \<times> multicastFilter) list \<Rightarrow> (multicastEndpoint \<times> multicastFilter) list option) \<Rightarrow>
     (addr \<times> multicastGroupState) list \<Rightarrow> multicastState \<Rightarrow> bool \<Rightarrow> multicastState \<times> bool" where
  "updateGroups visit now update [] s indexChanged = (s, indexChanged)"
| "updateGroups visit now update ((g, _) # rest) s indexChanged =
     (case map_of (ms_groups s) g of
        None \<Rightarrow> updateGroups visit now update rest s indexChanged
      | Some state \<Rightarrow>
          (case update g (gs_members state) of
             None \<Rightarrow> updateGroups visit now update rest s indexChanged
           | Some members \<Rightarrow>
               let (old, oldExists) = multicastInterfaceFilter (Some state);
                   removed = (members = []);
                   s = installMembers visit g (state\<lparr>gs_members := members\<rparr>) s;
                   s = interfaceStateChangedLocked now g old oldExists (gs_lastReporter state) s;
                   s = (if removed then s else rebuildGroupDispatchLocked visit g s)
               in updateGroups visit now update rest s (indexChanged \<or> removed)))"

definition updateEveryGroup ::
  "(addr \<Rightarrow> nat) \<Rightarrow> member_visit \<Rightarrow> int \<Rightarrow>
     (addr \<Rightarrow> (multicastEndpoint \<times> multicastFilter) list \<Rightarrow> (multicastEndpoint \<times> multicastFilter) list option) \<Rightarrow> multicastState \<Rightarrow> multicastState" where
  "updateEveryGroup groups visit now update s =
     (let (s, indexChanged) = updateGroups visit now update (inOrder groups (ms_groups s)) s False
      in if indexChanged then rebuildDispatchIndexLocked s else s)"

definition withoutEndpoint ::
  "multicastEndpoint \<Rightarrow> (multicastEndpoint \<times> multicastFilter) list \<Rightarrow> (multicastEndpoint \<times> multicastFilter) list option" where
  "withoutEndpoint endpoint members = (if map_of members endpoint = None then None else Some (AList.delete endpoint members))"

definition removeEndpoint :: "(addr \<Rightarrow> nat) \<Rightarrow> member_visit \<Rightarrow> int \<Rightarrow> multicastEndpoint \<Rightarrow> multicastState \<Rightarrow> multicastState" where
  "removeEndpoint groups visit now endpoint s = updateEveryGroup groups visit now (\<lambda>_. withoutEndpoint endpoint) s"

definition validSourcesOnly ::
  "networkState \<Rightarrow> addr \<Rightarrow> (multicastEndpoint \<times> multicastFilter) list \<Rightarrow> (multicastEndpoint \<times> multicastFilter) list option" where
  "validSourcesOnly network g members =
     (let valid = (\<lambda>f. {source \<in> mf_sources f. validMulticastSourceAddress network source (is6 g)});
          changed = list_ex (\<lambda>(_, f). valid f \<noteq> mf_sources f) members;
          updated = List.map_filter (\<lambda>(c, f).
              if valid f = mf_sources f then Some (c, f)
              else
                let f = (cloneMulticastFilter f)\<lparr>mf_sources := valid f\<rparr>
                in if mf_mode f = multicastFilterInclude \<and> mf_sources f = {} then None else Some (c, f)) members
      in if changed then Some updated else None)"

definition removeInvalidSourcesLocked :: "(addr \<Rightarrow> nat) \<Rightarrow> member_visit \<Rightarrow> int \<Rightarrow> networkState \<Rightarrow> multicastState \<Rightarrow> multicastState" where
  "removeInvalidSourcesLocked groups visit now network s = updateEveryGroup groups visit now (validSourcesOnly network) s"

definition updateConfig :: "(addr \<Rightarrow> nat) \<Rightarrow> member_visit \<Rightarrow> int \<Rightarrow> networkState \<Rightarrow> multicastState \<Rightarrow> multicastState" where
  "updateConfig groups visit now network s =
     (if ms_closed s then s
      else
        let s = removeInvalidSourcesLocked groups visit now network s
        in s\<lparr>ms_generalQuery := (\<lambda>v6. if ms_familyGroups s v6 \<noteq> 0 \<and> networkStateHasFamily network v6 then Some now else ms_generalQuery s v6),
             ms_wake := True\<rparr>)"

definition closeState :: "multicastState \<Rightarrow> multicastState" where
  "closeState s =
     (if ms_closed s then s
      else s\<lparr>ms_closed := True, ms_reportCancel := (\<lambda>v6. ms_reportCancel s v6 + 1),
             ms_entries := (\<lambda>object. if object \<in> gs_object ` snd ` set (ms_groups s) then None else ms_entries s object),
             ms_groups := [], ms_retransmissions := [], ms_index := None, ms_familyGroups := (\<lambda>_. 0), ms_generalQuery := (\<lambda>_. None)\<rparr>)"

section \<open>The data plane\<close>

definition acceptsSource :: "addr \<Rightarrow> addr \<Rightarrow> multicastState \<Rightarrow> bool" where
  "acceptsSource g source s =
     (let g = unmapAddr g;
          source = unmapAddr source
      in if isAllHostsGroup g then True
         else case loadDispatchGroup g s of None \<Rightarrow> False | Some d \<Rightarrow> accepts (dg_filter d) source)"

definition acceptsDestination :: "networkState \<Rightarrow> addr \<Rightarrow> multicastState \<Rightarrow> bool" where
  "acceptsDestination network g s =
     (let g = unmapAddr g
      in if \<not> networkStateHasFamily network (is6 g) then False
         else case loadDispatchGroup g s of None \<Rightarrow> False | Some d \<Rightarrow> dg_udp d \<noteq> [] \<or> dg_ip d \<noteq> [])"

text \<open>The sockets a datagram is queued on, in order.\<close>

definition deliverUDP :: "addr \<Rightarrow> addr \<Rightarrow> u16 \<Rightarrow> u16 \<Rightarrow> multicastState \<Rightarrow> multicastEndpoint list" where
  "deliverUDP target source sourcePort targetPort s =
     (case loadDispatchGroup target s of
        None \<Rightarrow> []
      | Some d \<Rightarrow>
          map fst (filter (\<lambda>(c, f). \<not> (\<not> isUnspecified (me_local c) \<or> me_port c \<noteq> targetPort \<or>
              isValidAddr (fst (me_remote c)) \<and> me_remote c \<noteq> (source, sourcePort) \<or> \<not> accepts f source)) (dg_udp d)))"

definition deliverIP :: "addr \<Rightarrow> addr \<Rightarrow> u8 \<Rightarrow> multicastState \<Rightarrow> multicastEndpoint list \<times> bool" where
  "deliverIP target source protocol s =
     (case loadDispatchGroup target s of
        None \<Rightarrow> ([], False)
      | Some d \<Rightarrow>
          let connections = map fst (filter (\<lambda>(c, f). \<not> (\<not> isUnspecified (me_local c) \<or> me_protocol c \<noteq> protocol \<or>
                isValidAddr (fst (me_remote c)) \<and> fst (me_remote c) \<noteq> source \<or> \<not> accepts f source)) (dg_ip d))
          in (connections, connections \<noteq> []))"

text \<open>\<open>connections\<close> is what \<open>connectionsForLocked\<close> returns.\<close>

definition deliverImplicitIP :: "multicastEndpoint list \<Rightarrow> addr \<Rightarrow> addr \<Rightarrow> multicastState \<Rightarrow> multicastEndpoint list \<times> bool" where
  "deliverImplicitIP connections target source s =
     (let explicit = (case loadDispatchGroup target s of None \<Rightarrow> [] | Some d \<Rightarrow> dg_ip d);
          allowed = (\<lambda>c. case map_of explicit c of None \<Rightarrow> True | Some f \<Rightarrow> accepts f source);
          queued = filter (\<lambda>c. \<not> (isValidAddr (fst (me_remote c)) \<and> fst (me_remote c) \<noteq> source) \<and> allowed c) connections
      in (queued, queued \<noteq> []))"

end
