(* ===== verification/Multicast_Dispatch.thy ===== *)
theory Multicast_Dispatch
  imports Multicast_Group
begin

text \<open>
  The entries that the data plane reads without the lock describe the memberships: an invariant of every operation on
  the membership state, and what it says of admission and delivery.
\<close>

section \<open>The invariant\<close>

type_synonym members = "(multicastEndpoint \<times> multicastFilter) list"

definition gcore :: "multicastState \<Rightarrow> addr \<Rightarrow> (nat \<times> members \<times> multicastFilter) option" where
  "gcore s g = map_option (\<lambda>state. (gs_object state, gs_members state, gs_aggregate state)) (map_of (ms_groups s) g)"

definition reported :: "bool \<Rightarrow> addr list \<Rightarrow> int" where
  "reported v6 gs = int (length (filter (\<lambda>g. is6 g = v6 \<and> multicastGroupNeedsReport g) gs))"

definition published :: "multicastState \<Rightarrow> addr \<Rightarrow> nat \<Rightarrow> members \<Rightarrow> multicastFilter \<Rightarrow> bool" where
  "published s g object ms a \<longleftrightarrow>
     (\<exists>rank. ms_entries s object = Some (dispatchGroup rank ms a)) \<and> (\<exists>idx. ms_index s = Some idx \<and> map_of idx g = Some object)"

text \<open>The entries of the groups in \<open>X\<close> may be out of date.\<close>

definition dispatch_but :: "addr set \<Rightarrow> multicastState \<Rightarrow> bool" where
  "dispatch_but X s \<longleftrightarrow>
     distinct (map fst (ms_groups s)) \<and>
     (\<forall>v6. ms_familyGroups s v6 = reported v6 (map fst (ms_groups s))) \<and>
     (\<forall>g object ms a. gcore s g = Some (object, ms, a) \<longrightarrow>
        ms \<noteq> [] \<and> distinct (map fst ms) \<and> a = aggregateMulticastFilter (map snd ms) \<and> object < ms_objects s \<and>
        (g \<notin> X \<longrightarrow> published s g object ms a)) \<and>
     (\<forall>g g' object ms a ms' a'. gcore s g = Some (object, ms, a) \<longrightarrow> gcore s g' = Some (object, ms', a') \<longrightarrow> g = g') \<and>
     (\<forall>g. gcore s g = None \<longrightarrow> loadDispatchGroup g s = None) \<and>
     (\<forall>idx g object. ms_index s = Some idx \<longrightarrow> map_of idx g = Some object \<longrightarrow> object < ms_objects s) \<and>
     (\<forall>idx g g' object ms a. ms_index s = Some idx \<longrightarrow> map_of idx g' = Some object \<longrightarrow> gcore s g = Some (object, ms, a) \<longrightarrow> g' = g)"

definition dispatch_ok :: "multicastState \<Rightarrow> bool" where
  "dispatch_ok s \<longleftrightarrow> dispatch_but {} s"

lemma dispatch_butD:
  assumes "dispatch_but X s"
  shows "distinct (map fst (ms_groups s))" "ms_familyGroups s v6 = reported v6 (map fst (ms_groups s))"
    "gcore s g = Some (object, ms, a) \<Longrightarrow> ms \<noteq> []" "gcore s g = Some (object, ms, a) \<Longrightarrow> distinct (map fst ms)"
    "gcore s g = Some (object, ms, a) \<Longrightarrow> a = aggregateMulticastFilter (map snd ms)"
    "gcore s g = Some (object, ms, a) \<Longrightarrow> object < ms_objects s"
    "gcore s g = Some (object, ms, a) \<Longrightarrow> g \<notin> X \<Longrightarrow> published s g object ms a"
    "gcore s g = Some (object, ms, a) \<Longrightarrow> gcore s g' = Some (object, ms', a') \<Longrightarrow> g = g'"
    "gcore s g = None \<Longrightarrow> loadDispatchGroup g s = None"
    "ms_index s = Some idx \<Longrightarrow> map_of idx g = Some object \<Longrightarrow> object < ms_objects s"
    "ms_index s = Some idx \<Longrightarrow> map_of idx g' = Some object \<Longrightarrow> gcore s g = Some (object, ms, a) \<Longrightarrow> g' = g"
proof -
  note c = assms [unfolded dispatch_but_def]
  note c1 = c [THEN conjunct1] and d1 = c [THEN conjunct2]
  note c2 = d1 [THEN conjunct1, rule_format] and d2 = d1 [THEN conjunct2]
  note c3 = d2 [THEN conjunct1, rule_format] and d3 = d2 [THEN conjunct2]
  note c4 = d3 [THEN conjunct1, rule_format] and d4 = d3 [THEN conjunct2]
  note c5 = d4 [THEN conjunct1, rule_format] and d5 = d4 [THEN conjunct2]
  note c6 = d5 [THEN conjunct1, rule_format] and c7 = d5 [THEN conjunct2, rule_format]
  show "distinct (map fst (ms_groups s))" by (rule c1)
  show "ms_familyGroups s v6 = reported v6 (map fst (ms_groups s))" by (rule c2)
  { assume g: "gcore s g = Some (object, ms, a)"
    note c3 [OF g]
    then show "ms \<noteq> []" "distinct (map fst ms)" "a = aggregateMulticastFilter (map snd ms)" "object < ms_objects s"
      "g \<notin> X \<Longrightarrow> published s g object ms a" by blast+ }
  show "gcore s g = Some (object, ms, a) \<Longrightarrow> gcore s g' = Some (object, ms', a') \<Longrightarrow> g = g'" by (rule c4)
  show "gcore s g = None \<Longrightarrow> loadDispatchGroup g s = None" by (rule c5)
  show "ms_index s = Some idx \<Longrightarrow> map_of idx g = Some object \<Longrightarrow> object < ms_objects s" by (rule c6)
  show "ms_index s = Some idx \<Longrightarrow> map_of idx g' = Some object \<Longrightarrow> gcore s g = Some (object, ms, a) \<Longrightarrow> g' = g" by (rule c7)
qed

text \<open>What the invariant depends on.\<close>

lemma dispatch_but_cong:
  assumes "map fst (ms_groups t) = map fst (ms_groups s)" "gcore t = gcore s" "ms_familyGroups t = ms_familyGroups s"
    "ms_index t = ms_index s" "ms_entries t = ms_entries s" "ms_objects t = ms_objects s"
  shows "dispatch_but X t = dispatch_but X s"
  unfolding dispatch_but_def published_def loadDispatchGroup_def assms ..

section \<open>Reports and timers leave it alone\<close>

definition sameDispatch :: "multicastState \<Rightarrow> multicastState \<Rightarrow> bool" where
  "sameDispatch s t \<longleftrightarrow> map fst (ms_groups t) = map fst (ms_groups s) \<and> gcore t = gcore s \<and> ms_familyGroups t = ms_familyGroups s \<and>
     ms_index t = ms_index s \<and> ms_entries t = ms_entries s \<and> ms_objects t = ms_objects s"

lemma sameDispatch_refl [simp]: "sameDispatch s s"
  by (simp add: sameDispatch_def)

lemma sameDispatch_trans [trans]: "sameDispatch s t \<Longrightarrow> sameDispatch t u \<Longrightarrow> sameDispatch s u"
  by (simp add: sameDispatch_def)

lemma sameDispatch_but: "sameDispatch s t \<Longrightarrow> dispatch_but X t = dispatch_but X s"
  by (rule dispatch_but_cong) (simp_all add: sameDispatch_def)

lemma gcore_map_groups:
  assumes "\<And>g state. gs_object (upd g state) = gs_object state \<and> gs_members (upd g state) = gs_members state \<and> gs_aggregate (upd g state) = gs_aggregate state"
    and "ms_groups t = map (\<lambda>(g, state). (g, upd g state)) (ms_groups s)"
  shows "gcore t = gcore s"
proof
  fix g
  have "map_of (map (\<lambda>(g, state). (g, upd g state)) xs) g = map_option (upd g) (map_of xs g)" for xs
    by (induction xs) auto
  then show "gcore t g = gcore s g" using assms by (cases "map_of (ms_groups s) g") (simp_all add: gcore_def)
qed

lemma map_fst_map_groups: "map fst (map (\<lambda>(g, state). (g, upd g state)) xs) = map fst xs"
  by (induction xs) auto

lemma cancelPending_same: "sameDispatch s (cancelPendingFamilyLocked v6 s)"
proof -
  let ?upd = "\<lambda>g state. if is6 g = v6 then state\<lparr>gs_query := emptyPendingQuery\<rparr> else state"
  have "gcore (cancelPendingFamilyLocked v6 s) = gcore s"
    by (rule gcore_map_groups [of ?upd]) (simp_all add: cancelPendingFamilyLocked_def)
  then show ?thesis by (simp add: sameDispatch_def cancelPendingFamilyLocked_def map_fst_map_groups del: map_map)
qed

lemma gcore_fields [simp]: "gcore (s\<lparr>ms_reportCancel := x1\<rparr>) = gcore s" "gcore (s\<lparr>ms_retransmissions := x2\<rparr>) = gcore s"
  "gcore (s\<lparr>ms_wake := x3\<rparr>) = gcore s" "gcore (s\<lparr>ms_generalQuery := x4\<rparr>) = gcore s" "gcore (s\<lparr>ms_random := x5\<rparr>) = gcore s"
  "gcore (s\<lparr>ms_entries := x6\<rparr>) = gcore s" "gcore (s\<lparr>ms_index := x7\<rparr>) = gcore s" "gcore (s\<lparr>ms_familyGroups := x8\<rparr>) = gcore s"
  "gcore (s\<lparr>ms_objects := x9\<rparr>) = gcore s"
  by (simp_all add: gcore_def fun_eq_iff)

lemma modeChanged_same: "sameDispatch s (modeChanged v6 changed s)"
proof (cases "changed v6")
  case True
  let ?s = "s\<lparr>ms_reportCancel := (ms_reportCancel s)(v6 := ms_reportCancel s v6 + 1)\<rparr>"
  have "sameDispatch s ?s" by (simp add: sameDispatch_def)
  then show ?thesis using True cancelPending_same [of ?s v6] by (auto simp: modeChanged_def intro: sameDispatch_trans)
qed (simp add: modeChanged_def)

lemma refresh_same: "sameDispatch s (snd (refresh now s))"
  by (simp add: sameDispatch_def refresh_def Let_def gcore_def fun_eq_iff)

lemma refreshCompatibility_same: "sameDispatch s (refreshCompatibilityLocked now s)"
proof (cases "ms_closed s")
  case False
  obtain c t where r: "refresh now s = (c, t)" by (cases "refresh now s")
  have "sameDispatch s t" using refresh_same [of s now] r by simp
  also have "sameDispatch t (modeChanged False c t)" by (rule modeChanged_same)
  also have "sameDispatch \<dots> (modeChanged True c (modeChanged False c t))" by (rule modeChanged_same)
  finally show ?thesis using False r by (simp add: refreshCompatibilityLocked_def)
qed (simp add: refreshCompatibilityLocked_def)

lemma interfaceStateChanged_same: "sameDispatch s (interfaceStateChangedLocked now g old oldExists oldLastReporter s)"
proof -
  have "sameDispatch t (t\<lparr>ms_retransmissions := x, ms_wake := y\<rparr>)" for t x y by (simp add: sameDispatch_def)
  then show ?thesis
    using refreshCompatibility_same [of s now] sameDispatch_trans [OF refreshCompatibility_same [of s now]]
    unfolding interfaceStateChangedLocked_def Let_def split_def by (simp only: split: if_splits) simp
qed

section \<open>Operations on one group\<close>

lemma rebuildIndex_ok:
  assumes "dispatch_but X s" shows "dispatch_but X (rebuildDispatchIndexLocked s)"
proof -
  let ?t = "rebuildDispatchIndexLocked s"
  have g: "gcore ?t = gcore s" by (simp add: rebuildDispatchIndexLocked_def)
  have i: "ms_index ?t = Some (map (\<lambda>(g, state). (g, gs_object state)) (ms_groups s))" by (simp add: rebuildDispatchIndexLocked_def)
  have m: "map_of (map (\<lambda>(g, state). (g, gs_object state)) xs) g = map_option gs_object (map_of xs g)" for xs g by (induction xs) auto
  have o: "map_of (map (\<lambda>(g, state). (g, gs_object state)) (ms_groups s)) g = map_option fst (gcore s g)" for g
    by (simp add: m gcore_def option.map_comp comp_def)
  have e: "ms_entries ?t = ms_entries s" "ms_objects ?t = ms_objects s" "ms_groups ?t = ms_groups s" "ms_familyGroups ?t = ms_familyGroups s"
    by (simp_all add: rebuildDispatchIndexLocked_def)
  show ?thesis
    unfolding dispatch_but_def g e
  proof (intro conjI allI impI)
    fix g object ms a assume c: "gcore s g = Some (object, ms, a)"
    note dispatch_butD(3-6) [OF assms c]
    then show "ms \<noteq> []" "distinct (map fst ms)" "a = aggregateMulticastFilter (map snd ms)" "object < ms_objects s" by blast+
    assume "g \<notin> X"
    then show "published ?t g object ms a" using dispatch_butD(7) [OF assms c] c by (auto simp: published_def e i o)
  next
    fix g assume "gcore s g = None"
    then show "loadDispatchGroup g ?t = None" by (simp add: loadDispatchGroup_def i o)
  next
    fix idx g object assume "ms_index ?t = Some idx" "map_of idx g = Some object"
    then obtain ms a where "gcore s g = Some (object, ms, a)" using i o by (auto simp: map_option_case split: option.splits)
    then show "object < ms_objects s" by (rule dispatch_butD(6) [OF assms])
  next
    fix idx g g' object ms a assume "ms_index ?t = Some idx" "map_of idx g' = Some object" and c: "gcore s g = Some (object, ms, a)"
    then obtain ms' a' where "gcore s g' = Some (object, ms', a')" using i o by (auto simp: map_option_case split: option.splits)
    then show "g' = g" using dispatch_butD(8) [OF assms c] by blast
  qed (use dispatch_butD(1,2,8) [OF assms] in blast)+
qed

text \<open>Publishing a group's entry makes it current.\<close>

lemma publish_ok:
  assumes s: "dispatch_but {g} s" and c: "gcore s g = Some (object, ms, a)"
  shows "dispatch_ok (rebuildGroupDispatchLocked visit g s)" and "gcore (rebuildGroupDispatchLocked visit g s) = gcore s"
proof -
  obtain state where st: "map_of (ms_groups s) g = Some state" "gs_object state = object" "gs_members state = ms" "gs_aggregate state = a"
    using c by (auto simp: gcore_def)
  let ?d = "dispatchGroup (visit 1 g) ms a"
  let ?e = "s\<lparr>ms_entries := (ms_entries s)(object := Some ?d)\<rparr>"
  have old: "g' = g" if "ms_index s = Some idx" "map_of idx g' = Some object" for idx g'
    using dispatch_butD(11) [OF s that c] .
  show "gcore (rebuildGroupDispatchLocked visit g s) = gcore s"
    by (simp add: rebuildGroupDispatchLocked_def st Let_def rebuildDispatchIndexLocked_def)
  have ge: "gcore ?e = gcore s" and
    e: "ms_index ?e = ms_index s" "ms_objects ?e = ms_objects s" "ms_groups ?e = ms_groups s" "ms_familyGroups ?e = ms_familyGroups s" by simp_all
  have other: "ms_entries ?e o' = ms_entries s o'" if "o' \<noteq> object" for o' using that by simp
  have but: "dispatch_but {g} ?e"
    unfolding dispatch_but_def ge e
  proof (intro conjI allI impI)
    fix g' object' ms' a' assume c': "gcore s g' = Some (object', ms', a')"
    note dispatch_butD(3-6) [OF s c']
    then show "ms' \<noteq> []" "distinct (map fst ms')" "a' = aggregateMulticastFilter (map snd ms')" "object' < ms_objects s" by blast+
    assume "g' \<notin> {g}"
    moreover from this have "object' \<noteq> object" using dispatch_butD(8) [OF s c] c' by blast
    ultimately show "published ?e g' object' ms' a'" using dispatch_butD(7) [OF s c'] by (simp add: published_def)
  next
    fix g' assume n: "gcore s g' = None"
    then show "loadDispatchGroup g' ?e = None"
      using dispatch_butD(9) [OF s n] old c by (auto simp: loadDispatchGroup_def split: option.splits)
  qed (use dispatch_butD(1,2,8,10,11) [OF s] in blast)+
  have final: "dispatch_ok t" if "dispatch_but {g} t" "gcore t = gcore s" "ms_entries t = ms_entries ?e" "\<exists>idx. ms_index t = Some idx \<and> map_of idx g = Some object" for t
  proof -
    have "published t g object ms a" using that(3,4) by (auto simp: published_def)
    then have "published t g' object' ms' a'" if "gcore t g' = Some (object', ms', a')" for g' object' ms' a'
      using that \<open>gcore t = gcore s\<close> c dispatch_butD(7) [OF \<open>dispatch_but {g} t\<close> that] by (cases "g' = g") auto
    then show ?thesis unfolding dispatch_ok_def dispatch_but_def
      using dispatch_butD [OF that(1)] by (intro conjI allI impI) blast+
  qed
  show "dispatch_ok (rebuildGroupDispatchLocked visit g s)"
  proof (cases "ms_index s = None \<or> map_of (the (ms_index s)) g \<noteq> Some object")
    case True
    then have t: "rebuildGroupDispatchLocked visit g s = rebuildDispatchIndexLocked ?e"
      by (simp add: rebuildGroupDispatchLocked_def st Let_def)
    have m: "map_of (map (\<lambda>(g, state). (g, gs_object state)) xs) g = map_option gs_object (map_of xs g)" for xs by (induction xs) auto
    show ?thesis unfolding t
      by (rule final [OF rebuildIndex_ok [OF but]]) (simp_all add: rebuildDispatchIndexLocked_def m st)
  next
    case False
    then have t: "rebuildGroupDispatchLocked visit g s = ?e" by (auto simp: rebuildGroupDispatchLocked_def st Let_def)
    show ?thesis unfolding t by (rule final [OF but]) (use False in auto)
  qed
qed

lemma reported_simps:
  "reported v6 (gs @ [g]) = reported v6 gs + (if is6 g = v6 \<and> multicastGroupNeedsReport g then 1 else 0)"
  "distinct gs \<Longrightarrow> g \<in> set gs \<Longrightarrow> reported v6 (removeAll g gs) = reported v6 gs - (if is6 g = v6 \<and> multicastGroupNeedsReport g then 1 else 0)"
proof -
  show "reported v6 (gs @ [g]) = reported v6 gs + (if is6 g = v6 \<and> multicastGroupNeedsReport g then 1 else 0)"
    by (simp add: reported_def)
  show "distinct gs \<Longrightarrow> g \<in> set gs \<Longrightarrow> reported v6 (removeAll g gs) = reported v6 gs - (if is6 g = v6 \<and> multicastGroupNeedsReport g then 1 else 0)"
    by (induction gs) (auto simp: reported_def)
qed

lemma gcore_put: "gcore (s\<lparr>ms_groups := AList.update g state (ms_groups s)\<rparr>) = (gcore s)(g := Some (gs_object state, gs_members state, gs_aggregate state))"
  by (simp add: gcore_def update_conv' fun_eq_iff)

lemma gcore_known: "gcore s g = Some (object, ms, a) \<Longrightarrow> g \<in> set (map fst (ms_groups s))"
  by (force simp: gcore_def dest: map_of_SomeD)

lemma gcore_unknown: "gcore s g = None \<Longrightarrow> g \<notin> set (map fst (ms_groups s))"
  by (simp add: gcore_def map_of_eq_None_iff)

text \<open>A group gets members \<open>ms\<close>; \<open>s\<close> already counts it, and its object is known or the last one made.\<close>

lemma put_ok:
  assumes d: "distinct (map fst (ms_groups s))" and ms: "ms \<noteq> []" "distinct (map fst ms)" "a = aggregateMulticastFilter (map snd ms)"
    and st: "gs_object state = object" "gs_members state = ms" "gs_aggregate state = a"
    and f: "\<And>v6. ms_familyGroups s v6 = reported v6 (map fst (AList.update g state (ms_groups s)))"
    and o: "object < ms_objects s" "\<And>g' ms' a'. gcore s g' = Some (object, ms', a') \<Longrightarrow> g' = g"
      "\<And>idx g'. ms_index s = Some idx \<Longrightarrow> map_of idx g' = Some object \<Longrightarrow> g' = g"
    and old: "\<And>g' object ms a. gcore s g' = Some (object, ms, a) \<Longrightarrow> ms \<noteq> [] \<and> distinct (map fst ms) \<and>
        a = aggregateMulticastFilter (map snd ms) \<and> object < ms_objects s \<and> published s g' object ms a"
      "\<And>g' g'' object ms a ms' a'. gcore s g' = Some (object, ms, a) \<Longrightarrow> gcore s g'' = Some (object, ms', a') \<Longrightarrow> g' = g''"
      "\<And>g'. gcore s g' = None \<Longrightarrow> loadDispatchGroup g' s = None"
      "\<And>idx g' object. ms_index s = Some idx \<Longrightarrow> map_of idx g' = Some object \<Longrightarrow> object < ms_objects s"
      "\<And>idx g' g'' object ms a. ms_index s = Some idx \<Longrightarrow> map_of idx g' = Some object \<Longrightarrow> gcore s g'' = Some (object, ms, a) \<Longrightarrow> g' = g''"
  shows "dispatch_but {g} (s\<lparr>ms_groups := AList.update g state (ms_groups s)\<rparr>)"
proof -
  let ?t = "s\<lparr>ms_groups := AList.update g state (ms_groups s)\<rparr>"
  have gc: "gcore ?t = (gcore s)(g := Some (object, ms, a))" using gcore_put st by simp
  have l: "loadDispatchGroup g' ?t = loadDispatchGroup g' s" for g' by (simp add: loadDispatchGroup_def cong: option.case_cong)
  have p: "published ?t g' ob m b = published s g' ob m b" for g' ob m b by (simp add: published_def)
  have e: "ms_index ?t = ms_index s" "ms_objects ?t = ms_objects s" "ms_groups ?t = AList.update g state (ms_groups s)" "ms_familyGroups ?t = ms_familyGroups s" by simp_all
  show ?thesis
    unfolding dispatch_but_def p l e
  proof (intro conjI allI impI)
    show "distinct (map fst (AList.update g state (ms_groups s)))" using d by (rule distinct_update)
    show "ms_familyGroups s v6 = reported v6 (map fst (AList.update g state (ms_groups s)))" for v6 by (rule f)
  next
    fix g' ob m b assume c: "gcore ?t g' = Some (ob, m, b)"
    have "m \<noteq> [] \<and> distinct (map fst m) \<and> b = aggregateMulticastFilter (map snd m) \<and> ob < ms_objects s \<and> (g' \<noteq> g \<longrightarrow> published s g' ob m b)"
    proof (cases "g' = g")
      case True then show ?thesis using c gc ms o(1) by auto
    next
      case False
      then have "gcore s g' = Some (ob, m, b)" using c gc by simp
      from old(1) [OF this] show ?thesis by blast
    qed
    then show "m \<noteq> []" "distinct (map fst m)" "b = aggregateMulticastFilter (map snd m)" "ob < ms_objects s"
      "g' \<notin> {g} \<Longrightarrow> published s g' ob m b" by blast+
  next
    fix g' g'' ob m b m' b' assume c: "gcore ?t g' = Some (ob, m, b)" "gcore ?t g'' = Some (ob, m', b')"
    show "g' = g''" using c o(2) old(2) unfolding gc by (auto split: if_splits)
  next
    fix g' assume "gcore ?t g' = None"
    then show "loadDispatchGroup g' s = None" using old(3) gc by (auto split: if_splits)
  next
    fix idx g' ob assume "ms_index s = Some idx" "map_of idx g' = Some ob"
    then show "ob < ms_objects s" by (rule old(4))
  next
    fix idx g' g'' ob m b assume c: "ms_index s = Some idx" "map_of idx g'' = Some ob" "gcore ?t g' = Some (ob, m, b)"
    show "g'' = g'" using c(3) o(3) [OF c(1)] c(2) old(5) [OF c(1,2)] unfolding gc by (auto split: if_splits)
  qed
qed

lemma aggregate_inOrder: "aggregateMulticastFilter (map snd (inOrder rank ms)) = aggregateMulticastFilter (map snd ms)"
  by (rule aggregate_permuted) (simp add: inOrder_def)

lemma install_known:
  fixes visit :: member_visit
  assumes s: "dispatch_ok s" and g: "map_of (ms_groups s) g = Some state" and ms: "distinct (map fst ms)"
  defines "t \<equiv> installMembers visit g (state\<lparr>gs_members := ms\<rparr>) s"
  shows "dispatch_but (if ms = [] then {} else {g}) t"
    and "gcore t = (gcore s)(g := if ms = [] then None else Some (gs_object state, ms, aggregateMulticastFilter (map snd ms)))"
proof -
  let ?o = "gs_object state"
  have c: "gcore s g = Some (?o, gs_members state, gs_aggregate state)" by (simp add: gcore_def g)
  note b = s [unfolded dispatch_ok_def]
  have mem: "g \<in> fst ` set (ms_groups s)" using gcore_known [OF c] by simp
  have pub: "published s g' object ms a" if "gcore s g' = Some (object, ms, a)" for g' object ms a
    using dispatch_butD(7) [OF b that] by simp
  have "dispatch_but (if ms = [] then {} else {g}) t \<and>
      gcore t = (gcore s)(g := if ms = [] then None else Some (?o, ms, aggregateMulticastFilter (map snd ms)))"
  proof (cases "ms = []")
    case False
    let ?state = "state\<lparr>gs_members := ms, gs_aggregate := aggregateMulticastFilter (map snd ms)\<rparr>"
    have t: "t = s\<lparr>ms_groups := AList.update g ?state (ms_groups s)\<rparr>" using False by (simp add: t_def installMembers_def aggregate_inOrder)
    have "dispatch_but {g} t"
      unfolding t
    proof (rule put_ok [where ms = ms and a = "aggregateMulticastFilter (map snd ms)" and object = ?o])
      show "ms_familyGroups s v6 = reported v6 (map fst (AList.update g ?state (ms_groups s)))" for v6
        using mem dispatch_butD(2) [OF b, of v6] by (simp add: update_keys)
      show "g' = g" if "gcore s g' = Some (?o, ms', a')" for g' ms' a' using dispatch_butD(8) [OF b c that] by simp
      show "g' = g" if "ms_index s = Some idx" "map_of idx g' = Some ?o" for idx g' using dispatch_butD(11) [OF b that c] .
      show "m \<noteq> [] \<and> distinct (map fst m) \<and> a = aggregateMulticastFilter (map snd m) \<and> ob < ms_objects s \<and> published s g' ob m a"
        if "gcore s g' = Some (ob, m, a)" for g' ob m a using dispatch_butD(3-6) [OF b that] pub [OF that] by blast
    qed ((rule dispatch_butD(1) [OF b] False ms refl dispatch_butD(6) [OF b c]) | simp | (erule (1) dispatch_butD(8) [OF b])
        | (erule dispatch_butD(9) [OF b]) | (erule (1) dispatch_butD(10) [OF b]) | (erule (2) dispatch_butD(11) [OF b]))+
    then show ?thesis using False gcore_put [of g ?state s] by (simp add: t)
  next
    case True
    let ?s = "s\<lparr>ms_entries := (ms_entries s)(?o := None), ms_groups := AList.delete g (ms_groups s)\<rparr>"
    let ?f = "if multicastGroupNeedsReport g then (ms_familyGroups s)(is6 g := ms_familyGroups s (is6 g) - 1) else ms_familyGroups s"
    have del: "AList.delete g (AList.update g x xs) = AList.delete g xs" for x and xs :: "(addr \<times> multicastGroupState) list"
      by (induction xs) auto
    have t: "t = ?s\<lparr>ms_familyGroups := ?f\<rparr>"
      using True by (simp add: t_def installMembers_def removeGroupLocked_def Let_def update_conv' del)
    have gc: "gcore t = (gcore s)(g := None)" by (simp add: t gcore_def fun_eq_iff delete_conv')
    have "dispatch_but {} t"
      unfolding dispatch_but_def
    proof (intro conjI allI impI)
      show "distinct (map fst (ms_groups t))" using dispatch_butD(1) [OF b] by (simp add: t distinct_delete)
      show "ms_familyGroups t v6 = reported v6 (map fst (ms_groups t))" for v6
        using dispatch_butD(1) [OF b] dispatch_butD(2) [OF b, of v6] mem reported_simps(2) [of "map fst (ms_groups s)" g v6]
        by (auto simp: t delete_keys split: if_splits)
    next
      fix g' ob m a assume c': "gcore t g' = Some (ob, m, a)"
      then have n: "g' \<noteq> g" "gcore s g' = Some (ob, m, a)" using gc by (auto split: if_splits)
      note dispatch_butD(3-6) [OF b n(2)]
      then show "m \<noteq> []" "distinct (map fst m)" "a = aggregateMulticastFilter (map snd m)" "ob < ms_objects t" by (simp_all add: t)
      have "ob \<noteq> ?o" using dispatch_butD(8) [OF b n(2)] c n(1) by blast
      then show "published t g' ob m a" using pub [OF n(2)] by (simp add: published_def t)
    next
      fix g1 g2 ob m a m' a' assume "gcore t g1 = Some (ob, m, a)" "gcore t g2 = Some (ob, m', a')"
      then have "gcore s g1 = Some (ob, m, a)" "gcore s g2 = Some (ob, m', a')" using gc by (auto split: if_splits)
      then show "g1 = g2" by (rule dispatch_butD(8) [OF b])
    next
      fix g' assume n: "gcore t g' = None"
      show "loadDispatchGroup g' t = None"
      proof (cases "g' = g")
        case True then show ?thesis using pub [OF c] by (auto simp: published_def loadDispatchGroup_def t)
      next
        case False
        then have "loadDispatchGroup g' s = None" using n gc dispatch_butD(9) [OF b] by auto
        then show ?thesis by (auto simp: loadDispatchGroup_def t split: option.splits)
      qed
    next
      fix idx g' ob assume "ms_index t = Some idx" "map_of idx g' = Some ob"
      then show "ob < ms_objects t" using dispatch_butD(10) [OF b, of idx g' ob] by (simp add: t)
    next
      fix idx g1 g2 ob m a assume "ms_index t = Some idx" "map_of idx g2 = Some ob" "gcore t g1 = Some (ob, m, a)"
      then show "g2 = g1" using dispatch_butD(11) [OF b, of idx g2 ob g1 m a] gc by (auto simp: t split: if_splits)
    qed
    then show ?thesis using True gc by simp
  qed
  then show "dispatch_but (if ms = [] then {} else {g}) t"
    and "gcore t = (gcore s)(g := if ms = [] then None else Some (gs_object state, ms, aggregateMulticastFilter (map snd ms)))" by blast+
qed

lemma finish_ok:
  fixes visit :: member_visit and old :: multicastFilter and oldExists oldLastReporter :: bool and now :: int
  assumes "dispatch_but (if ms = [] then {} else {g}) t"
    and "gcore t = c(g := if ms = [] then None else Some (object, ms, a))"
  defines "u \<equiv> rebuildGroupDispatchLocked visit g (interfaceStateChangedLocked now g old oldExists oldLastReporter t)"
  shows "dispatch_ok u" and "gcore u = gcore t"
proof -
  let ?i = "interfaceStateChangedLocked now g old oldExists oldLastReporter t"
  have i: "sameDispatch t ?i" by (rule interfaceStateChanged_same)
  have b: "dispatch_but (if ms = [] then {} else {g}) ?i" using sameDispatch_but [OF i] assms(1) by simp
  have c: "gcore ?i = gcore t" using i by (simp add: sameDispatch_def)
  have "dispatch_ok u \<and> gcore u = gcore t"
  proof (cases "ms = []")
    case True
    then have "gcore ?i g = None" using c assms(2) by simp
    then have "map_of (ms_groups ?i) g = None" by (simp add: gcore_def)
    then have "u = rebuildDispatchIndexLocked ?i" by (simp add: u_def rebuildGroupDispatchLocked_def)
    then show ?thesis using rebuildIndex_ok [OF b] True c by (simp add: dispatch_ok_def rebuildDispatchIndexLocked_def)
  next
    case False
    then have g: "dispatch_but {g} ?i" "gcore ?i g = Some (object, ms, a)" using b c assms(2) by simp_all
    show ?thesis using publish_ok [OF g] c by (simp add: u_def)
  qed
  then show "dispatch_ok u" "gcore u = gcore t" by blast+
qed

lemma operation_known:
  fixes visit :: member_visit and old :: multicastFilter and oldExists oldLastReporter :: bool and now :: int
  assumes s: "dispatch_ok s" and g: "map_of (ms_groups s) g = Some state" and ms: "distinct (map fst ms)"
  defines "u \<equiv> rebuildGroupDispatchLocked visit g
      (interfaceStateChangedLocked now g old oldExists oldLastReporter (installMembers visit g (state\<lparr>gs_members := ms\<rparr>) s))"
  shows "dispatch_ok u"
    and "gcore u = (gcore s)(g := if ms = [] then None else Some (gs_object state, ms, aggregateMulticastFilter (map snd ms)))"
proof -
  note i = install_known [OF s g ms, of visit]
  show "dispatch_ok u" unfolding u_def by (rule finish_ok(1) [OF i])
  show "gcore u = (gcore s)(g := if ms = [] then None else Some (gs_object state, ms, aggregateMulticastFilter (map snd ms)))"
    unfolding u_def finish_ok(2) [OF i] by (rule i(2))
qed

lemma install_new:
  fixes visit :: member_visit
  assumes s: "dispatch_ok s" and g: "map_of (ms_groups s) g = None" and ms: "distinct (map fst ms)" "ms \<noteq> []"
    and o: "gs_object state = ms_objects s"
  defines "s' \<equiv> s\<lparr>ms_objects := ms_objects s + 1,
      ms_familyGroups := (if multicastGroupNeedsReport g then (ms_familyGroups s)(is6 g := ms_familyGroups s (is6 g) + 1) else ms_familyGroups s)\<rparr>"
  defines "t \<equiv> installMembers visit g (state\<lparr>gs_members := ms\<rparr>) s'"
  shows "dispatch_but (if ms = [] then {} else {g}) t"
    and "gcore t = (gcore s)(g := if ms = [] then None else Some (ms_objects s, ms, aggregateMulticastFilter (map snd ms)))"
proof -
  let ?o = "ms_objects s"
  let ?a = "aggregateMulticastFilter (map snd ms)"
  let ?state = "state\<lparr>gs_members := ms, gs_aggregate := ?a\<rparr>"
  have c: "gcore s g = None" by (simp add: gcore_def g)
  note b = s [unfolded dispatch_ok_def]
  have mem: "g \<notin> fst ` set (ms_groups s)" using gcore_unknown [OF c] by simp
  have c': "gcore s' = gcore s" by (simp add: s'_def gcore_def fun_eq_iff)
  have l': "loadDispatchGroup g' s' = loadDispatchGroup g' s" for g' by (simp add: s'_def loadDispatchGroup_def cong: option.case_cong)
  have e': "ms_groups s' = ms_groups s" "ms_index s' = ms_index s" "ms_objects s' = ?o + 1" by (simp_all add: s'_def)
  have p': "published s' g' ob m a = published s g' ob m a" for g' ob m a by (simp add: published_def s'_def)
  have t: "t = s'\<lparr>ms_groups := AList.update g ?state (ms_groups s')\<rparr>" using ms by (simp add: t_def installMembers_def aggregate_inOrder)
  have "dispatch_but {g} t"
    unfolding t
  proof (rule put_ok [where ms = ms and a = ?a and object = ?o])
    show "ms_familyGroups s' v6 = reported v6 (map fst (AList.update g ?state (ms_groups s')))" for v6
      using mem dispatch_butD(2) [OF b, of v6] by (cases "multicastGroupNeedsReport g"; cases "is6 g = v6") (auto simp: s'_def update_keys reported_simps)
    show "distinct (map fst (ms_groups s'))" using dispatch_butD(1) [OF b] e' by simp
    show "g' = g" if "gcore s' g' = Some (?o, ms', a')" for g' ms' a' using dispatch_butD(6) [OF b] that c' by auto
    show "g' = g" if "ms_index s' = Some idx" "map_of idx g' = Some ?o" for idx g' using dispatch_butD(10) [OF b] that e' by auto
    show "m \<noteq> [] \<and> distinct (map fst m) \<and> a = aggregateMulticastFilter (map snd m) \<and> ob < ms_objects s' \<and> published s' g' ob m a"
      if "gcore s' g' = Some (ob, m, a)" for g' ob m a
    proof -
      have q: "gcore s g' = Some (ob, m, a)" using that c' by simp
      show ?thesis unfolding p' e' using dispatch_butD(3-6) [OF b q] dispatch_butD(7) [OF b q] by (intro conjI) simp_all
    qed
    show "g' = g''" if "gcore s' g' = Some (ob, m, a)" "gcore s' g'' = Some (ob, m', a')" for g' g'' ob m a m' a'
      using dispatch_butD(8) [OF b] that c' by metis
    show "loadDispatchGroup g' s' = None" if "gcore s' g' = None" for g' using dispatch_butD(9) [OF b] that c' l' by simp
    show "ob < ms_objects s'" if "ms_index s' = Some idx" "map_of idx g' = Some ob" for idx g' ob
      using dispatch_butD(10) [OF b, of idx g' ob] that e' by simp
    show "g' = g''" if "ms_index s' = Some idx" "map_of idx g' = Some ob" "gcore s' g'' = Some (ob, m, a)" for idx g' g'' ob m a
      using dispatch_butD(11) [OF b, of idx g' ob g'' m a] that c' e' by simp
  qed (use ms o e' in simp_all)
  then show "dispatch_but (if ms = [] then {} else {g}) t" using ms by simp
  show "gcore t = (gcore s)(g := if ms = [] then None else Some (ms_objects s, ms, ?a))"
    using ms o gcore_put [of g ?state s'] c' by (simp add: t)
qed

lemma operation_new:
  fixes visit :: member_visit and old :: multicastFilter and oldExists oldLastReporter :: bool and now :: int
  assumes s: "dispatch_ok s" and g: "map_of (ms_groups s) g = None" and ms: "distinct (map fst ms)" "ms \<noteq> []"
    and o: "gs_object state = ms_objects s"
  defines "s' \<equiv> s\<lparr>ms_objects := ms_objects s + 1,
      ms_familyGroups := (if multicastGroupNeedsReport g then (ms_familyGroups s)(is6 g := ms_familyGroups s (is6 g) + 1) else ms_familyGroups s)\<rparr>"
  defines "u \<equiv> rebuildGroupDispatchLocked visit g
      (interfaceStateChangedLocked now g old oldExists oldLastReporter (installMembers visit g (state\<lparr>gs_members := ms\<rparr>) s'))"
  shows "dispatch_ok u" and "gcore u = (gcore s)(g := Some (ms_objects s, ms, aggregateMulticastFilter (map snd ms)))"
proof -
  note i = install_new [OF s g ms o, of visit, folded s'_def]
  show "dispatch_ok u" unfolding u_def by (rule finish_ok(1) [OF i])
  show "gcore u = (gcore s)(g := Some (ms_objects s, ms, aggregateMulticastFilter (map snd ms)))"
    unfolding u_def finish_ok(2) [OF i] using i(2) ms by simp
qed

section \<open>The membership operations\<close>

text \<open>What the sockets see: the filter of a socket in a group.\<close>

definition memberships :: "multicastState \<Rightarrow> addr \<Rightarrow> multicastEndpoint \<Rightarrow> multicastFilter option" where
  "memberships s g c = (case gcore s g of None \<Rightarrow> None | Some (_, ms, _) \<Rightarrow> map_of ms c)"

text \<open>The filter a successful operation leaves, given the one the first \<open>switch\<close> of \<open>change\<close> selected.\<close>

definition changedFilter :: "multicastMembershipOperation \<Rightarrow> addr \<Rightarrow> multicastFilter \<Rightarrow> multicastFilter option" where
  "changedFilter operation source f =
     (case operation of
        multicastLeaveGroup \<Rightarrow> None
      | multicastJoinSource \<Rightarrow> Some (f\<lparr>mf_sources := insert source (mf_sources f)\<rparr>)
      | multicastExcludeSource \<Rightarrow> Some (f\<lparr>mf_sources := insert source (mf_sources f)\<rparr>)
      | multicastLeaveSource \<Rightarrow> if mf_sources f - {source} = {} then None else Some (f\<lparr>mf_sources := mf_sources f - {source}\<rparr>)
      | multicastIncludeSource \<Rightarrow> Some (f\<lparr>mf_sources := mf_sources f - {source}\<rparr>)
      | multicastJoinAnySource \<Rightarrow> Some f)"

lemma map_of_changedMembers: "map_of (changedMembers operation c source f ms) = (map_of ms)(c := changedFilter operation source f)"
  by (cases operation) (auto simp: changedMembers_def changedFilter_def Let_def update_conv' delete_conv')

lemma distinct_changedMembers: "distinct (map fst ms) \<Longrightarrow> distinct (map fst (changedMembers operation c source f ms))"
  by (cases operation) (auto simp: changedMembers_def Let_def distinct_update distinct_delete)

lemma requestedFilter_new: "requestedFilter operation None source = Inr f \<Longrightarrow> changedFilter operation source f \<noteq> None"
  by (cases operation) (auto simp: requestedFilter_def changedFilter_def split: if_splits)

lemma memberships_put:
  assumes "gcore u = (gcore s)(g := if ms = [] then None else Some (object, ms, a))"
  shows "memberships u = (memberships s)(g := map_of ms)"
  using assms by (auto simp: memberships_def fun_eq_iff)

lemma membershipChange_ok:
  assumes s: "dispatch_ok s" and u: "membershipChange visit now endpoint operation g source s = Inr u"
  shows "dispatch_ok u \<and> (\<exists>f. requestedFilter operation (memberships s g endpoint) source = Inr f \<and>
    memberships u = (memberships s)(g := (memberships s g)(endpoint := changedFilter operation source f)))"
proof (cases "map_of (ms_groups s) g")
  case (Some state)
  have m: "memberships s g = map_of (gs_members state)" by (simp add: memberships_def gcore_def Some fun_eq_iff)
  obtain f where f: "requestedFilter operation (memberships s g endpoint) source = Inr f"
    using u Some by (auto simp: membershipChange_def m Let_def split: sum.splits prod.splits)
  let ?ms = "changedMembers operation endpoint source f (gs_members state)"
  have d: "distinct (map fst ?ms)"
    using dispatch_butD(4) [OF s [unfolded dispatch_ok_def], of g] Some by (intro distinct_changedMembers) (simp add: gcore_def)
  obtain old oldExists where o: "multicastInterfaceFilter (Some state) = (old, oldExists)" by (cases "multicastInterfaceFilter (Some state)")
  have "u = rebuildGroupDispatchLocked visit g
      (interfaceStateChangedLocked now g old oldExists (gs_lastReporter state) (installMembers visit g (state\<lparr>gs_members := ?ms\<rparr>) s))"
    using u Some f o by (simp add: membershipChange_def m Let_def)
  then have u': "dispatch_ok u" "gcore u = (gcore s)(g := if ?ms = [] then None else Some (gs_object state, ?ms, aggregateMulticastFilter (map snd ?ms)))"
    using operation_known [OF s Some d, of visit now old oldExists "gs_lastReporter state"] by simp_all
  then show ?thesis using f memberships_put [OF u'(2)] by (simp add: map_of_changedMembers m)
next
  case None
  have m: "memberships s g = Map.empty" by (simp add: memberships_def gcore_def None fun_eq_iff)
  obtain f where f: "requestedFilter operation None source = Inr f"
    using u None by (auto simp: membershipChange_def Let_def split: sum.splits prod.splits)
  let ?ms = "changedMembers operation endpoint source f []"
  have d: "distinct (map fst ?ms)" by (rule distinct_changedMembers) simp
  have "map_of ?ms endpoint \<noteq> None" using requestedFilter_new [OF f] by (simp add: map_of_changedMembers)
  then have n: "?ms \<noteq> []" by auto
  let ?state = "\<lparr>gs_object = ms_objects s, gs_members = [], gs_aggregate = \<lparr>mf_mode = multicastFilterInclude, mf_sources = {}\<rparr>,
                  gs_query = emptyPendingQuery, gs_lastReporter = False\<rparr>"
  obtain old oldExists where o: "multicastInterfaceFilter None = (old, oldExists)" by (cases "multicastInterfaceFilter None")
  have "u = rebuildGroupDispatchLocked visit g (interfaceStateChangedLocked now g old oldExists False (installMembers visit g (?state\<lparr>gs_members := ?ms\<rparr>)
      (s\<lparr>ms_objects := ms_objects s + 1, ms_familyGroups :=
         (if multicastGroupNeedsReport g then (ms_familyGroups s)(is6 g := ms_familyGroups s (is6 g) + 1) else ms_familyGroups s)\<rparr>)))"
    using u None f o by (auto simp: membershipChange_def Let_def)
  then have u': "dispatch_ok u" "gcore u = (gcore s)(g := Some (ms_objects s, ?ms, aggregateMulticastFilter (map snd ?ms)))"
    using operation_new [OF s None d n, of ?state visit now old oldExists False] by simp_all
  have "memberships u = (memberships s)(g := map_of ?ms)" using u'(2) by (auto simp: memberships_def fun_eq_iff)
  then show ?thesis using u'(1) f by (simp add: map_of_changedMembers m)
qed

lemma membershipSet_ok:
  assumes s: "dispatch_ok s" and u: "membershipSet visit now endpoint g mode sources s = Inr u"
  shows "dispatch_ok u \<and> memberships s g endpoint \<noteq> None \<and>
    memberships u = (memberships s)(g := (memberships s g)(endpoint :=
      if mode = multicastFilterInclude \<and> sources = {} then None else Some \<lparr>mf_mode = mode, mf_sources = sources\<rparr>))"
proof -
  obtain state where g: "map_of (ms_groups s) g = Some state" and e: "map_of (gs_members state) endpoint \<noteq> None"
    using u by (auto simp: membershipSet_def split: option.splits if_splits)
  let ?ms = "if mode = multicastFilterInclude \<and> sources = {} then AList.delete endpoint (gs_members state)
    else AList.update endpoint \<lparr>mf_mode = mode, mf_sources = sources\<rparr> (gs_members state)"
  have m: "memberships s g = map_of (gs_members state)" by (simp add: memberships_def gcore_def g fun_eq_iff)
  have "distinct (map fst (gs_members state))" using dispatch_butD(4) [OF s [unfolded dispatch_ok_def], of g] g by (simp add: gcore_def)
  then have d: "distinct (map fst ?ms)" by (simp add: distinct_update distinct_delete)
  obtain old oldExists where o: "multicastInterfaceFilter (Some state) = (old, oldExists)" by (cases "multicastInterfaceFilter (Some state)")
  have "u = rebuildGroupDispatchLocked visit g
      (interfaceStateChangedLocked now g old oldExists (gs_lastReporter state) (installMembers visit g (state\<lparr>gs_members := ?ms\<rparr>) s))"
    using u g e o by (auto simp: membershipSet_def Let_def)
  then have u': "dispatch_ok u" "gcore u = (gcore s)(g := if ?ms = [] then None else Some (gs_object state, ?ms, aggregateMulticastFilter (map snd ?ms)))"
    using operation_known [OF s g d, of visit now old oldExists "gs_lastReporter state"] by simp_all
  then show ?thesis using e memberships_put [OF u'(2)] by (simp add: m update_conv' delete_conv')
qed

section \<open>Operations on every group\<close>

definition updated ::
  "(addr \<Rightarrow> members \<Rightarrow> members option) \<Rightarrow> addr \<Rightarrow> (nat \<times> members \<times> multicastFilter) option \<Rightarrow> (nat \<times> members \<times> multicastFilter) option" where
  "updated update g c =
     (case c of
        None \<Rightarrow> None
      | Some (object, ms, a) \<Rightarrow>
          (case update g ms of
             None \<Rightarrow> c
           | Some ms' \<Rightarrow> if ms' = [] then None else Some (object, ms', aggregateMulticastFilter (map snd ms'))))"

lemma updateGroups_ok:
  assumes "\<And>g ms ms'. update g ms = Some ms' \<Longrightarrow> distinct (map fst ms) \<Longrightarrow> distinct (map fst ms')"
  shows "dispatch_ok s \<Longrightarrow> distinct (map fst entries) \<Longrightarrow> updateGroups visit now update entries s indexChanged = (t, changed) \<Longrightarrow>
    dispatch_ok t \<and> gcore t = (\<lambda>g. if g \<in> set (map fst entries) then updated update g (gcore s g) else gcore s g)"
proof (induction entries arbitrary: s indexChanged)
  case (Cons e rest)
  obtain g x where e: "e = (g, x)" by (cases e)
  have next_ok: "dispatch_ok t \<and> gcore t = (\<lambda>g'. if g' \<in> set (map fst (e # rest)) then updated update g' (gcore s g') else gcore s g')"
    if "dispatch_ok s'" "updateGroups visit now update rest s' ic = (t, changed)" "gcore s' = (gcore s)(g := updated update g (gcore s g))" for s' ic
    using Cons.IH [OF that(1) _ that(2)] Cons.prems(2) that(3) by (auto simp: e fun_eq_iff)
  show ?case
  proof (cases "map_of (ms_groups s) g")
    case None
    then have "updateGroups visit now update rest s indexChanged = (t, changed)" using Cons.prems(3) by (simp add: e)
    moreover have "updated update g (gcore s g) = gcore s g" by (simp add: updated_def gcore_def None)
    ultimately show ?thesis using next_ok [OF Cons.prems(1)] by (simp add: fun_upd_idem)
  next
    case (Some state)
    show ?thesis
    proof (cases "update g (gs_members state)")
      case None
      then have "updateGroups visit now update rest s indexChanged = (t, changed)" using Cons.prems(3) Some by (simp add: e)
      moreover have "updated update g (gcore s g) = gcore s g" by (simp add: updated_def gcore_def None Some)
      ultimately show ?thesis using next_ok [OF Cons.prems(1)] by (simp add: fun_upd_idem)
    next
      case u: (Some ms)
      have "distinct (map fst (gs_members state))"
        using dispatch_butD(4) [OF Cons.prems(1) [unfolded dispatch_ok_def], of g] Some by (simp add: gcore_def)
      then have d: "distinct (map fst ms)" using assms u by blast
      obtain old oldExists where o: "multicastInterfaceFilter (Some state) = (old, oldExists)" by (cases "multicastInterfaceFilter (Some state)")
      let ?i = "installMembers visit g (state\<lparr>gs_members := ms\<rparr>) s"
      let ?c = "interfaceStateChangedLocked now g old oldExists (gs_lastReporter state) ?i"
      let ?s = "if ms = [] then ?c else rebuildGroupDispatchLocked visit g ?c"
      have r: "updateGroups visit now update rest ?s (indexChanged \<or> ms = []) = (t, changed)" using Cons.prems(3) Some u o by (simp add: e Let_def)
      have up: "updated update g (gcore s g) = (if ms = [] then None else Some (gs_object state, ms, aggregateMulticastFilter (map snd ms)))"
        by (simp add: updated_def gcore_def Some u)
      have "dispatch_ok ?s \<and> gcore ?s = (gcore s)(g := updated update g (gcore s g))"
      proof (cases "ms = []")
        case True
        have same: "sameDispatch ?i ?c" by (rule interfaceStateChanged_same)
        note k = install_known [OF Cons.prems(1) Some d, of visit]
        show ?thesis using k True same sameDispatch_but [OF same, of "{}"] up by (simp add: dispatch_ok_def sameDispatch_def)
      next
        case False
        then show ?thesis using operation_known [OF Cons.prems(1) Some d, of visit now old oldExists "gs_lastReporter state"] up by simp
      qed
      then show ?thesis using next_ok r by blast
    qed
  qed
qed simp

lemma updateEveryGroup_ok:
  assumes d: "\<And>g ms ms'. update g ms = Some ms' \<Longrightarrow> distinct (map fst ms) \<Longrightarrow> distinct (map fst ms')" and s: "dispatch_ok s"
  shows "dispatch_ok (updateEveryGroup groups visit now update s)"
    and "gcore (updateEveryGroup groups visit now update s) = (\<lambda>g. updated update g (gcore s g))"
proof -
  obtain t changed where t: "updateGroups visit now update (inOrder groups (ms_groups s)) s False = (t, changed)" by (cases "updateGroups visit now update (inOrder groups (ms_groups s)) s False")
  have dist: "distinct (map fst (inOrder groups (ms_groups s)))"
    using dispatch_butD(1) [OF s [unfolded dispatch_ok_def]] by (simp add: inOrder_def distinct_map)
  have u: "dispatch_ok t" "gcore t = (\<lambda>g. if g \<in> set (map fst (ms_groups s)) then updated update g (gcore s g) else gcore s g)"
    using updateGroups_ok [OF d s dist t] by (simp_all add: inOrder_def)
  have "updated update g (gcore s g) = gcore s g" if "g \<notin> set (map fst (ms_groups s))" for g
    using that by (simp add: gcore_def updated_def map_of_eq_None_iff [THEN iffD2])
  then have g: "gcore t = (\<lambda>g. updated update g (gcore s g))" using u(2) by (auto simp: fun_eq_iff)
  have e: "updateEveryGroup groups visit now update s = (if changed then rebuildDispatchIndexLocked t else t)" by (simp add: updateEveryGroup_def t)
  show "dispatch_ok (updateEveryGroup groups visit now update s)"
    unfolding e using u(1) rebuildIndex_ok [of "{}" t] by (simp add: dispatch_ok_def)
  show "gcore (updateEveryGroup groups visit now update s) = (\<lambda>g. updated update g (gcore s g))"
    unfolding e using g by (simp add: rebuildDispatchIndexLocked_def)
qed

lemma removeEndpoint_ok:
  assumes "dispatch_ok s"
  shows "dispatch_ok (removeEndpoint groups visit now endpoint s)"
    and "memberships (removeEndpoint groups visit now endpoint s) = (\<lambda>g. (memberships s g)(endpoint := None))"
proof -
  have d: "withoutEndpoint endpoint ms = Some ms' \<Longrightarrow> distinct (map fst ms) \<Longrightarrow> distinct (map fst ms')" for ms ms'
    by (auto simp: withoutEndpoint_def distinct_delete split: if_splits)
  note u = updateEveryGroup_ok [of "\<lambda>_. withoutEndpoint endpoint" s groups visit now, OF d assms]
  show "dispatch_ok (removeEndpoint groups visit now endpoint s)" unfolding removeEndpoint_def by (rule u(1))
  show "memberships (removeEndpoint groups visit now endpoint s) = (\<lambda>g. (memberships s g)(endpoint := None))"
  proof (intro ext)
    fix g c
    have n: "map_of ms c = None" if "AList.delete endpoint ms = []" "c \<noteq> endpoint" for ms :: members
      using that map_of_delete [of c endpoint ms] by simp
    have n': "map_of ms c = None" if "AList.delete endpoint ms = []" "map_of ms endpoint = None" for ms :: members
      using n [OF that(1)] that(2) by (cases "c = endpoint") simp_all
    show "memberships (removeEndpoint groups visit now endpoint s) g c = ((memberships s g)(endpoint := None)) c"
      unfolding memberships_def removeEndpoint_def
      by (subst u(2)) (auto simp: updated_def withoutEndpoint_def delete_conv' n n' split: option.splits prod.splits if_splits)
  qed
qed

lemma map_filter_members:
  assumes "distinct (map fst ms)" "\<And>c f c' f'. h (c, f) = Some (c', f') \<Longrightarrow> c' = c"
  shows "distinct (map fst (List.map_filter h ms))"
    and "map_of (List.map_filter h ms) c = (case map_of ms c of None \<Rightarrow> None | Some f \<Rightarrow> map_option snd (h (c, f)))"
proof -
  have k: "set (map fst (List.map_filter h xs)) \<subseteq> set (map fst xs)" for xs
    using assms(2) by (force simp: map_filter_def)
  show "distinct (map fst (List.map_filter h ms))"
    using assms(1)
  proof (induction ms)
    case (Cons p ms)
    obtain c f where p: "p = (c, f)" by (cases p)
    show ?case
    proof (cases "h (c, f)")
      case (Some q)
      obtain f' where q: "q = (c, f')" using Some assms(2) by (cases q) auto
      have "c \<notin> set (map fst (List.map_filter h ms))" using Cons.prems k [of ms] by (auto simp: p)
      then show ?thesis using Cons Some by (simp add: p q)
    qed (use Cons in \<open>simp add: p\<close>)
  qed simp
  show "map_of (List.map_filter h ms) c = (case map_of ms c of None \<Rightarrow> None | Some f \<Rightarrow> map_option snd (h (c, f)))"
    using assms(1)
  proof (induction ms)
    case (Cons p ms)
    obtain c' f where p: "p = (c', f)" by (cases p)
    have n: "map_of (List.map_filter h ms) c' = None" if "c' \<notin> set (map fst ms)"
      using k [of ms] that by (auto simp: map_of_eq_None_iff)
    show ?case
    proof (cases "h (c', f)")
      case None
      then show ?thesis using Cons n by (cases "c = c'") (simp_all add: p)
    next
      case (Some q)
      obtain f' where q: "q = (c', f')" using Some assms(2) by (cases q) auto
      then show ?thesis using Cons Some by (auto simp: p)
    qed
  qed simp
qed

text \<open>The filter that stays of a socket's filter when sources became invalid.\<close>

definition validFilter :: "networkState \<Rightarrow> addr \<Rightarrow> multicastFilter \<Rightarrow> multicastFilter option" where
  "validFilter network g f =
     (let sources = {source \<in> mf_sources f. validMulticastSourceAddress network source (is6 g)}
      in if sources = mf_sources f then Some f
         else if mf_mode f = multicastFilterInclude \<and> sources = {} then None
         else Some \<lparr>mf_mode = mf_mode f, mf_sources = sources\<rparr>)"

lemma removeInvalidSources_ok:
  assumes "dispatch_ok s"
  shows "dispatch_ok (removeInvalidSourcesLocked groups visit now network s)"
    and "memberships (removeInvalidSourcesLocked groups visit now network s) =
      (\<lambda>g c. Option.bind (memberships s g c) (validFilter network g))"
proof -
  let ?h = "\<lambda>g (c, f). map_option (Pair c) (validFilter network g f)"
  have upd: "validSourcesOnly network g ms =
      (if list_ex (\<lambda>(_, f). validFilter network g f \<noteq> Some f) ms then Some (List.map_filter (?h g) ms) else None)" for g ms
  proof -
    have h: "(\<lambda>(c :: multicastEndpoint, f). if {source \<in> mf_sources f. validMulticastSourceAddress network source (is6 g)} = mf_sources f then Some (c, f)
        else let f = (cloneMulticastFilter f)\<lparr>mf_sources := {source \<in> mf_sources f. validMulticastSourceAddress network source (is6 g)}\<rparr>
          in if mf_mode f = multicastFilterInclude \<and> mf_sources f = {} then None else Some (c, f)) = ?h g"
      by (auto simp: validFilter_def Let_def cloneMulticastFilter_def fun_eq_iff)
    have v: "validFilter network g f \<noteq> Some f \<longleftrightarrow> {source \<in> mf_sources f. validMulticastSourceAddress network source (is6 g)} \<noteq> mf_sources f" for f
      by (cases f) (auto simp: validFilter_def Let_def)
    show ?thesis unfolding validSourcesOnly_def Let_def v h [unfolded Let_def] ..
  qed
  have hk: "?h g (c, f) = Some (c', f') \<Longrightarrow> c' = c" for g c f c' f' by auto
  have d: "validSourcesOnly network g ms = Some ms' \<Longrightarrow> distinct (map fst ms) \<Longrightarrow> distinct (map fst ms')" for g ms ms'
    unfolding upd using map_filter_members(1) [of ms "?h g"] by (auto split: if_splits)
  have u: "dispatch_ok (updateEveryGroup groups visit now (validSourcesOnly network) s)"
    "gcore (updateEveryGroup groups visit now (validSourcesOnly network) s) = (\<lambda>g. updated (validSourcesOnly network) g (gcore s g))"
    by (rule updateEveryGroup_ok [OF _ assms], erule (1) d)+
  show "dispatch_ok (removeInvalidSourcesLocked groups visit now network s)" unfolding removeInvalidSourcesLocked_def by (rule u(1))
  show "memberships (removeInvalidSourcesLocked groups visit now network s) = (\<lambda>g c. Option.bind (memberships s g c) (validFilter network g))"
  proof (intro ext)
    fix g c
    show "memberships (removeInvalidSourcesLocked groups visit now network s) g c = Option.bind (memberships s g c) (validFilter network g)"
    proof (cases "gcore s g")
      case None
      then have "gcore (removeInvalidSourcesLocked groups visit now network s) g = None"
        unfolding removeInvalidSourcesLocked_def u(2) by (simp add: updated_def)
      then show ?thesis using None by (simp add: memberships_def)
    next
      case (Some x)
      obtain object ms a where x: "x = (object, ms, a)" by (cases x)
      have dm: "distinct (map fst ms)" using dispatch_butD(4) [OF assms [unfolded dispatch_ok_def]] Some x by blast
      have m: "map_of (List.map_filter (?h g) ms) c = Option.bind (map_of ms c) (validFilter network g)"
        using map_filter_members(2) [OF dm, of "?h g" c] hk by (auto simp: option.map_comp comp_def option.map_ident split: option.splits)
      have same: "Option.bind (map_of ms c) (validFilter network g) = map_of ms c" if "\<not> list_ex (\<lambda>(_, f). validFilter network g f \<noteq> Some f) ms"
        using that by (cases "map_of ms c") (auto simp: list_ex_iff dest: map_of_SomeD)
      show ?thesis
      proof (cases "list_ex (\<lambda>(_, f). validFilter network g f \<noteq> Some f) ms")
        case False
        then have "validSourcesOnly network g ms = None" by (simp add: upd)
        then show ?thesis unfolding memberships_def removeInvalidSourcesLocked_def
          by (subst u(2)) (use same [OF False] in \<open>simp add: updated_def Some x\<close>)
      next
        case True
        then have v: "validSourcesOnly network g ms = Some (List.map_filter (?h g) ms)" by (simp add: upd)
        have e: "Option.bind (map_of ms c) (validFilter network g) = None" if "List.map_filter (?h g) ms = []" using m that by simp
        show ?thesis unfolding memberships_def removeInvalidSourcesLocked_def
          by (subst u(2)) (use m v e in \<open>auto simp: updated_def Some x\<close>)
      qed
    qed
  qed
qed

lemma updateConfig_ok:
  assumes "dispatch_ok s"
  shows "dispatch_ok (updateConfig groups visit now network s)"
proof (cases "ms_closed s")
  case False
  let ?s = "removeInvalidSourcesLocked groups visit now network s"
  have "sameDispatch ?s (updateConfig groups visit now network s)" using False by (simp add: updateConfig_def Let_def sameDispatch_def)
  then show ?thesis using removeInvalidSources_ok(1) [OF assms, of groups visit now network] sameDispatch_but by (simp add: dispatch_ok_def)
qed (use assms in \<open>simp add: updateConfig_def\<close>)

lemma closeState_ok:
  assumes "dispatch_ok s"
  shows "dispatch_ok (closeState s)"
proof (cases "ms_closed s")
  case False
  then show ?thesis
    by (simp add: closeState_def dispatch_ok_def dispatch_but_def gcore_def reported_def loadDispatchGroup_def)
qed (use assms in \<open>simp add: closeState_def\<close>)

end
