(* ===== verification/Multicast_Query.thy ===== *)
theory Multicast_Query
  imports Multicast_Group Ip_Wire
begin

text \<open>
  IGMP and MLD messages that the host receives, \<^verbatim>\<open>src/multicast.go\<close>: parsing of queries, the older-querier timers,
  the scheduling of responses and the suppression by legacy reports. The argument \<open>big\<close> is the host's byte order,
  an outer \<open>None\<close> an index panic, and \<open>now\<close> what the clock returns.
\<close>

definition igmpMembershipQuery :: u8 where "igmpMembershipQuery = 0x11"
definition igmpV1MembershipReport :: u8 where "igmpV1MembershipReport = 0x12"
definition igmpV2MembershipReport :: u8 where "igmpV2MembershipReport = 0x16"
definition mldMembershipQuery :: u8 where "mldMembershipQuery = 130"
definition mldV1MembershipReport :: u8 where "mldV1MembershipReport = 131"
definition mldV1ListenerDone :: u8 where "mldV1ListenerDone = 132"
definition mldV2MembershipReport :: u8 where "mldV2MembershipReport = 143"
definition multicastMaximumQuerySources :: nat where "multicastMaximumQuerySources = 4096"

abbreviation "msec \<equiv> (1000000 :: int)"
abbreviation "sec \<equiv> (1000000000 :: int)"

record multicastQuery =
  mq_v6 :: bool
  mq_version :: u8
  mq_group :: addr
  mq_sources :: "addr list"
  mq_maximum :: int
  mq_legacyMaximum :: int
  mq_robustness :: u8
  mq_queryInterval :: int

section \<open>Coded times\<close>

definition decodeIGMPv2Time :: "u8 \<Rightarrow> int" where
  "decodeIGMPv2Time code = uint code * (100 * msec)"

definition floatingCode :: "u8 \<Rightarrow> u32" where
  "floatingCode code =
     (if code \<ge> 128 then push_bit (unat (drop_bit 4 code AND 7) + 3) (ucast (code AND 0x0f OR 0x10)) else ucast code)"

definition decodeIGMPTime :: "u8 \<Rightarrow> int" where
  "decodeIGMPTime code = uint (floatingCode code) * (100 * msec)"

definition decodeIGMPQueryInterval :: "u8 \<Rightarrow> int" where
  "decodeIGMPQueryInterval code = uint (floatingCode code) * sec"

definition decodeMLDTime :: "u16 \<Rightarrow> int" where
  "decodeMLDTime code =
     uint (if code \<ge> 0x8000 then push_bit (unat (drop_bit 12 code AND 7) + 3) (ucast (code AND 0x0fff OR 0x1000)) else (ucast code :: u32)) * msec"

section \<open>Queries\<close>

text \<open>The loops over the source vector; \<open>Some None\<close> refuses the query.\<close>

fun querySources :: "networkState \<Rightarrow> bool \<Rightarrow> bytes \<Rightarrow> nat \<Rightarrow> nat \<Rightarrow> addr list option option" where
  "querySources network v6 payload 0 offset = Some (Some [])"
| "querySources network v6 payload (Suc count) offset =
     do {
       raw \<leftarrow> go_slice payload offset (offset + (if v6 then 16 else 4));
       let source = (if v6 then addrFrom16 raw else addrFrom4 raw);
       if \<not> validMulticastSourceAddress network source v6 then Some None
       else map_option (map_option (Cons source)) (querySources network v6 payload count (offset + (if v6 then 16 else 4))) }"

text \<open>The checks of the group that end both parsers, and the destination the query must have.\<close>

definition queryGroup :: "multicastQuery \<Rightarrow> addr \<Rightarrow> (multicastQuery \<times> addr) option" where
  "queryGroup query expected =
     (if mq_version query = 1 \<and> \<not> mq_v6 query \<and> \<not> isUnspecified (mq_group query) \<or>
         \<not> isUnspecified (mq_group query) \<and> \<not> validMulticastGroup (mq_group query) \<or>
         mq_sources query \<noteq> [] \<and> isUnspecified (mq_group query) then None
      else Some (query, if isUnspecified (mq_group query) then expected else mq_group query))"

definition allNodes6 :: addr where "allNodes6 = Addr6 0xff020000000000000000000000000001 []"

text \<open>The version of an IGMP query by its length, and the fields of a version 3 query.\<close>

definition igmpQueryForm :: "networkState \<Rightarrow> bytes \<Rightarrow> u8 \<Rightarrow> multicastQuery option option" where
  "igmpQueryForm network payload code =
     (let query = \<lparr>mq_v6 = False, mq_version = 3, mq_group = AddrZero, mq_sources = [], mq_maximum = decodeIGMPTime code,
                   mq_legacyMaximum = 0, mq_robustness = 0, mq_queryInterval = 0\<rparr>
      in if length payload = 8 then
           Some (Some (if code = 0 then query\<lparr>mq_version := 1, mq_maximum := multicastDefaultResponseInterval\<rparr>
                       else query\<lparr>mq_version := 2, mq_maximum := decodeIGMPv2Time code\<rparr>))
         else if length payload < 12 then Some None
         else do {
           b8 \<leftarrow> go_index payload 8;
           b9 \<leftarrow> go_index payload 9;
           field \<leftarrow> read16 payload 10;
           let query = query\<lparr>mq_robustness := b8 AND 7, mq_queryInterval := decodeIGMPQueryInterval b9\<rparr>;
           let count = unat field;
           if count > multicastMaximumQuerySources \<or> length payload - 12 < count * 4 then Some None
           else map_option (map_option (\<lambda>sources. query\<lparr>mq_sources := sources\<rparr>)) (querySources network False payload count 12) })"

definition parseIGMPQuery :: "bool \<Rightarrow> ipPacket \<Rightarrow> networkState \<Rightarrow> bool \<Rightarrow> (multicastQuery \<times> addr) option option" where
  "parseIGMPQuery big packet network skipChecksum =
     (let payload = ip_payload packet
      in if length payload < 8 then Some None
         else do {
           b0 \<leftarrow> go_index payload 0;
           if b0 \<noteq> igmpMembershipQuery \<or> ip_hopLimit packet \<noteq> 1 \<or> \<not> skipChecksum \<and> checksum big payload \<noteq> 0 then Some None
           else do {
             code \<leftarrow> go_index payload 1;
             parsed \<leftarrow> igmpQueryForm network payload code;
             case parsed of
               None \<Rightarrow> Some None
             | Some query \<Rightarrow> do {
                 alert \<leftarrow> (if mq_version query \<ge> 2 then hasRouterAlert packet else Some True);
                 if \<not> alert then Some None
                 else do {
                   raw \<leftarrow> go_slice payload 4 8;
                   let query = query\<lparr>mq_group := addrFrom4 raw\<rparr>;
                   Some (queryGroup (query\<lparr>mq_legacyMaximum := mq_maximum query\<rparr>) allHosts4) } } } })"

text \<open>The version of an MLD query by its length, and the fields of a version 2 query.\<close>

definition mldQueryForm :: "networkState \<Rightarrow> bytes \<Rightarrow> u16 \<Rightarrow> multicastQuery option option" where
  "mldQueryForm network payload field =
     (let legacyResponse = uint field * msec;
          query = \<lparr>mq_v6 = True, mq_version = 1, mq_group = AddrZero, mq_sources = [], mq_maximum = legacyResponse,
                   mq_legacyMaximum = legacyResponse, mq_robustness = 0, mq_queryInterval = 0\<rparr>
      in if length payload = 24 then Some (Some query)
         else if length payload < 28 then Some None
         else do {
           b24 \<leftarrow> go_index payload 24;
           b25 \<leftarrow> go_index payload 25;
           number \<leftarrow> read16 payload 26;
           let query = query\<lparr>mq_version := 2, mq_maximum := decodeMLDTime field, mq_robustness := b24 AND 7,
                             mq_queryInterval := decodeIGMPQueryInterval b25\<rparr>;
           let count = unat number;
           if count > multicastMaximumQuerySources \<or> length payload - 28 < count * 16 then Some None
           else map_option (map_option (\<lambda>sources. query\<lparr>mq_sources := sources\<rparr>)) (querySources network True payload count 28) })"

text \<open>The two length checks come first in the model; \<open>hasRouterAlert\<close> and the checksum have no effect.\<close>

definition parseMLDQuery :: "bool \<Rightarrow> ipPacket \<Rightarrow> networkState \<Rightarrow> bool \<Rightarrow> (multicastQuery \<times> addr) option option" where
  "parseMLDQuery big packet network skipChecksum =
     (let payload = ip_payload packet
      in if length payload < 24 then Some None
         else do {
           b0 \<leftarrow> go_index payload 0;
           b1 \<leftarrow> go_index payload 1;
           if b0 \<noteq> mldMembershipQuery \<or> b1 \<noteq> 0 \<or> ip_hopLimit packet \<noteq> 1 then Some None
           else do {
             alert \<leftarrow> hasRouterAlert packet;
             if \<not> alert \<or> \<not> isLinkLocalUnicast (ip_source packet) \<or>
                \<not> skipChecksum \<and> transportChecksum big (ip_source packet) (ip_target packet) ProtocolICMPv6 payload \<noteq> 0 then Some None
             else do {
               field \<leftarrow> read16 payload 4;
               parsed \<leftarrow> mldQueryForm network payload field;
               case parsed of
                 None \<Rightarrow> Some None
               | Some query \<Rightarrow> do {
                   raw \<leftarrow> go_slice payload 8 24;
                   Some (queryGroup (query\<lparr>mq_group := addrFrom16 raw\<rparr>) allNodes6) } } } })"

definition acceptsMulticastControlDestination :: "networkState \<Rightarrow> multicastState option \<Rightarrow> addr \<Rightarrow> addr \<Rightarrow> bool" where
  "acceptsMulticastControlDestination network members target expected =
     (let target = unmapAddr target
      in if target = expected \<or> networkStateHasLocal network target then True
         else if isAllHostsGroup target \<and> networkStateHasFamily network (is6 target) then True
         else isMulticastAddr target \<and> (case members of None \<Rightarrow> False | Some s \<Rightarrow> acceptsDestination network target s))"

definition isMulticastControlPacket :: "ipPacket \<Rightarrow> bool" where
  "isMulticastControlPacket packet =
     (if ip_protocol packet = ProtocolIGMP \<and> is4 (ip_source packet) then True
      else if ip_protocol packet = ProtocolICMPv6 \<and> ip_payload packet \<noteq> [] then
        hd (ip_payload packet) \<in> {mldMembershipQuery, mldV1MembershipReport, mldV1ListenerDone, mldV2MembershipReport}
      else False)"

section \<open>Querier timers and response scheduling\<close>

definition noteQueryVersion ::
  "bool \<Rightarrow> u8 \<Rightarrow> bool \<Rightarrow> u8 \<Rightarrow> int \<Rightarrow> int \<Rightarrow> int \<Rightarrow> 'a multicastQuerierState_scheme \<Rightarrow> 'a multicastQuerierState_scheme" where
  "noteQueryVersion v6 version general robustness queryInterval responseInterval now s =
     (let s = (if version = latestVersion v6 then
                 let robustness = (if robustness = 0 then multicastDefaultRobustness else robustness);
                     queryInterval = (if queryInterval = 0 then multicastDefaultQueryInterval else queryInterval)
                 in s\<lparr>qs_robustness := (qs_robustness s)(v6 := robustness), qs_queryInterval := (qs_queryInterval s)(v6 := queryInterval),
                      qs_responseInterval := (qs_responseInterval s)(v6 := responseInterval)\<rparr>
               else s);
          timeout = uint (qs_robustness s v6) * qs_queryInterval s v6 + qs_responseInterval s v6;
          timeout = (if \<not> v6 then uint (qs_robustness s v6) * qs_queryInterval s v6 + 10 * responseInterval else timeout)
      in if \<not> v6 then
           if version = 1 then s\<lparr>qs_igmpV1Until := Some (now + timeout)\<rparr>
           else if version = 2 \<and> general then s\<lparr>qs_igmpV2Until := Some (now + timeout)\<rparr> else s
         else if version = 1 then s\<lparr>qs_mldV1Until := Some (now + timeout)\<rparr> else s)"

definition noteQueryVersionLocked :: "bool \<Rightarrow> u8 \<Rightarrow> bool \<Rightarrow> u8 \<Rightarrow> int \<Rightarrow> int \<Rightarrow> int \<Rightarrow> multicastState \<Rightarrow> multicastState" where
  "noteQueryVersionLocked v6 version general robustness queryInterval responseInterval now s =
     refreshCompatibilityLocked now
       (noteQueryVersion v6 version general robustness queryInterval responseInterval now (refreshCompatibilityLocked now s))"

definition noteQuery :: "multicastQuery \<Rightarrow> int \<Rightarrow> multicastQuerierState \<Rightarrow> multicastQuerierState" where
  "noteQuery query now s =
     (let s = snd (refresh now s);
          v6 = mq_v6 query
      in if mq_version query = latestVersion v6 \<and> qs_compatibility s v6 < latestVersion v6 then s
         else snd (refresh now (noteQueryVersion v6 (mq_version query) (isUnspecified (mq_group query)) (mq_robustness query)
                (mq_queryInterval query) (mq_maximum query) now s)))"

definition randomDelayLocked :: "int \<Rightarrow> multicastState \<Rightarrow> int \<times> multicastState" where
  "randomDelayLocked maximum s =
     (if maximum \<le> 0 then (0, s)
      else
        let r = ms_random s + 0x9e3779b97f4a7c15;
            value = (r XOR drop_bit 30 r) * 0xbf58476d1ce4e5b9;
            value = (value XOR drop_bit 27 value) * 0x94d049bb133111eb;
            value = value XOR drop_bit 31 value
        in (uint value mod maximum + 1, s\<lparr>ms_random := r\<rparr>))"

definition before :: "int \<Rightarrow> int option \<Rightarrow> bool" where
  "before deadline current = (case current of None \<Rightarrow> True | Some t \<Rightarrow> deadline < t)"

definition setQuery :: "addr \<Rightarrow> multicastPendingQuery \<Rightarrow> multicastState \<Rightarrow> multicastState" where
  "setQuery g query s = s\<lparr>ms_groups := AList.map_entry g (\<lambda>state. state\<lparr>gs_query := query\<rparr>) (ms_groups s)\<rparr>"

fun legacyQueryLoop :: "bool \<Rightarrow> int \<Rightarrow> int \<Rightarrow> (addr \<times> multicastGroupState) list \<Rightarrow> multicastState \<Rightarrow> multicastState" where
  "legacyQueryLoop v6 maximum now [] s = s"
| "legacyQueryLoop v6 maximum now ((g, state) # rest) s =
     (if is6 g \<noteq> v6 \<or> \<not> multicastGroupNeedsReport g then legacyQueryLoop v6 maximum now rest s
      else
        let (delay, s) = randomDelayLocked maximum s;
            deadline = now + delay
        in legacyQueryLoop v6 maximum now rest
             (if before deadline (pq_deadline (gs_query state))
              then setQuery g \<lparr>pq_deadline = Some deadline, pq_sources = {}, pq_sourceQuery = False\<rparr> s else s))"

text \<open>The source set grows up to its limit.\<close>

fun addSources :: "addr list \<Rightarrow> addr set \<Rightarrow> addr set" where
  "addSources [] sources = sources"
| "addSources (source # rest) sources =
     (if card sources \<ge> multicastMaximumQuerySources then sources else addSources rest (insert source sources))"

definition mergeQuery :: "multicastQuery \<Rightarrow> int \<Rightarrow> multicastPendingQuery \<Rightarrow> multicastPendingQuery" where
  "mergeQuery query deadline p =
     (case pq_deadline p of
        None \<Rightarrow>
          let p = p\<lparr>pq_deadline := Some deadline, pq_sourceQuery := mq_sources query \<noteq> []\<rparr>
          in if pq_sourceQuery p then p\<lparr>pq_sources := set (mq_sources query)\<rparr> else p
      | Some current \<Rightarrow>
          let p = (if mq_sources query = [] \<or> \<not> pq_sourceQuery p then p\<lparr>pq_sourceQuery := False, pq_sources := {}\<rparr>
                   else p\<lparr>pq_sources := addSources (mq_sources query) (pq_sources p)\<rparr>)
          in if deadline < current then p\<lparr>pq_deadline := Some deadline\<rparr> else p)"

definition compatibleQuery :: "multicastQuery \<Rightarrow> u8 \<Rightarrow> multicastQuery" where
  "compatibleQuery query compatibility =
     (let query = query\<lparr>mq_sources := []\<rparr>
      in if mq_v6 query then query\<lparr>mq_maximum := mq_legacyMaximum query\<rparr>
         else if compatibility = 1 then query\<lparr>mq_group := Addr4 0, mq_maximum := multicastDefaultResponseInterval\<rparr>
         else query)"

text \<open>The query as the host's compatibility mode sees it, after the querier's variables are noted.\<close>

definition effectiveQuery :: "multicastQuery \<Rightarrow> int \<Rightarrow> multicastState \<Rightarrow> multicastQuery \<times> multicastState" where
  "effectiveQuery query now s =
     (let v6 = mq_v6 query;
          latest = latestVersion v6;
          s = refreshCompatibilityLocked now s;
          (query, s) =
            (if mq_version query = latest \<and> qs_compatibility s v6 < latest then (compatibleQuery query (qs_compatibility s v6), s)
             else (query, noteQueryVersionLocked v6 (mq_version query) (isUnspecified (mq_group query)) (mq_robustness query)
                            (mq_queryInterval query) (mq_maximum query) now s))
      in (if mq_maximum query \<le> 0 then query\<lparr>mq_maximum := 1\<rparr> else query, s))"

definition scheduleGeneral :: "(addr \<Rightarrow> nat) \<Rightarrow> multicastQuery \<Rightarrow> int \<Rightarrow> multicastState \<Rightarrow> multicastState" where
  "scheduleGeneral groups query now s =
     (let v6 = mq_v6 query
      in if qs_compatibility s v6 < latestVersion v6 then legacyQueryLoop v6 (mq_maximum query) now (inOrder groups (ms_groups s)) s
         else if ms_familyGroups s v6 \<noteq> 0 then
           let (delay, s) = randomDelayLocked (mq_maximum query) s
           in if before (now + delay) (ms_generalQuery s v6)
              then s\<lparr>ms_generalQuery := (ms_generalQuery s)(v6 := Some (now + delay))\<rparr> else s
         else s)"

definition scheduleGroup :: "multicastQuery \<Rightarrow> int \<Rightarrow> multicastState \<Rightarrow> multicastState" where
  "scheduleGroup query now s =
     (case map_of (ms_groups s) (mq_group query) of
        None \<Rightarrow> s
      | Some state \<Rightarrow>
          if \<not> multicastGroupNeedsReport (mq_group query) then s
          else
            let (delay, s) = randomDelayLocked (mq_maximum query) s
            in if \<not> before (now + delay) (ms_generalQuery s (mq_v6 query)) then s
               else (setQuery (mq_group query) (mergeQuery query (now + delay) (gs_query state)) s)\<lparr>ms_wake := True\<rparr>)"

definition scheduleQuery :: "(addr \<Rightarrow> nat) \<Rightarrow> multicastQuery \<Rightarrow> int \<Rightarrow> multicastState \<Rightarrow> multicastState" where
  "scheduleQuery groups query now s =
     (if ms_closed s then s
      else
        let (query, s) = effectiveQuery query now s
        in if isUnspecified (mq_group query) then (scheduleGeneral groups query now s)\<lparr>ms_wake := True\<rparr>
           else scheduleGroup query now s)"

definition heardLegacyReport :: "int \<Rightarrow> addr \<Rightarrow> multicastState \<Rightarrow> multicastState" where
  "heardLegacyReport now g s =
     (if isSourceSpecificMulticast g then s
      else if ms_closed s then s
      else
        let s = refreshCompatibilityLocked now s
        in if qs_compatibility s (is6 g) = latestVersion (is6 g) then s
           else
             let s = (case map_of (ms_groups s) g of
                        None \<Rightarrow> s
                      | Some state \<Rightarrow>
                          let s = s\<lparr>ms_groups := AList.map_entry g (\<lambda>state. state\<lparr>gs_query := emptyPendingQuery, gs_lastReporter := False\<rparr>) (ms_groups s)\<rparr>
                          in (case map_of (ms_retransmissions s) g of
                                None \<Rightarrow> s
                              | Some r \<Rightarrow> if rt_exists r then s\<lparr>ms_retransmissions := AList.delete g (ms_retransmissions s)\<rparr> else s))
             in s\<lparr>ms_wake := True\<rparr>)"

section \<open>Handlers\<close>

definition handleIGMP ::
  "bool \<Rightarrow> (addr \<Rightarrow> nat) \<Rightarrow> networkState \<Rightarrow> ipPacket \<Rightarrow> int \<Rightarrow> int \<Rightarrow> bool \<Rightarrow> multicastState \<Rightarrow> multicastState option" where
  "handleIGMP big groups network packet receivedAt now skipChecksum s =
     (let payload = ip_payload packet
      in if payload \<noteq> [] \<and> hd payload = igmpMembershipQuery then do {
           parsed \<leftarrow> parseIGMPQuery big packet network skipChecksum;
           Some (case parsed of
                   None \<Rightarrow> s
                 | Some (query, expected) \<Rightarrow>
                     if acceptsMulticastControlDestination network (Some s) (ip_target packet) expected then scheduleQuery groups query receivedAt s else s) }
         else if length payload < 8 \<or> ip_hopLimit packet \<noteq> 1 \<or> \<not> skipChecksum \<and> checksum big payload \<noteq> 0 then Some s
         else do {
           b0 \<leftarrow> go_index payload 0;
           if b0 = igmpV1MembershipReport \<or> b0 = igmpV2MembershipReport then do {
             alert \<leftarrow> (if b0 = igmpV2MembershipReport then hasRouterAlert packet else Some True);
             if \<not> alert then Some s
             else do {
               raw \<leftarrow> go_slice payload 4 8;
               let g = addrFrom4 raw;
               Some (if isMulticastAddr g \<and> acceptsMulticastControlDestination network (Some s) (ip_target packet) g
                     then heardLegacyReport now g s else s) } }
           else Some s })"

definition handleMLD ::
  "bool \<Rightarrow> (addr \<Rightarrow> nat) \<Rightarrow> networkState \<Rightarrow> ipPacket \<Rightarrow> int \<Rightarrow> int \<Rightarrow> bool \<Rightarrow> multicastState \<Rightarrow> multicastState option" where
  "handleMLD big groups network packet receivedAt now skipChecksum s =
     (let payload = ip_payload packet
      in if payload \<noteq> [] \<and> hd payload = mldMembershipQuery then do {
           parsed \<leftarrow> parseMLDQuery big packet network skipChecksum;
           Some (case parsed of
                   None \<Rightarrow> s
                 | Some (query, expected) \<Rightarrow>
                     if acceptsMulticastControlDestination network (Some s) (ip_target packet) expected then scheduleQuery groups query receivedAt s else s) }
         else if length payload < 8 then Some s
         else do {
           b0 \<leftarrow> go_index payload 0;
           b1 \<leftarrow> go_index payload 1;
           if b1 \<noteq> 0 \<or> ip_hopLimit packet \<noteq> 1 then Some s
           else do {
             alert \<leftarrow> hasRouterAlert packet;
             if \<not> alert \<or> \<not> isLinkLocalUnicast (ip_source packet) \<or>
                \<not> skipChecksum \<and> transportChecksum big (ip_source packet) (ip_target packet) ProtocolICMPv6 payload \<noteq> 0 then Some s
             else if b0 = mldV1MembershipReport \<and> length payload \<ge> 24 then do {
               raw \<leftarrow> go_slice payload 8 24;
               let g = addrFrom16 raw;
               Some (if isMulticastAddr g \<and> acceptsMulticastControlDestination network (Some s) (ip_target packet) g
                     then heardLegacyReport now g s else s) }
             else Some s } })"

definition handleControl ::
  "bool \<Rightarrow> (addr \<Rightarrow> nat) \<Rightarrow> networkState \<Rightarrow> ipPacket \<Rightarrow> int \<Rightarrow> int \<Rightarrow> bool \<Rightarrow> multicastState \<Rightarrow> multicastState option" where
  "handleControl big groups network packet receivedAt now skipChecksum s =
     (if ip_protocol packet = ProtocolIGMP then handleIGMP big groups network packet receivedAt now skipChecksum s
      else handleMLD big groups network packet receivedAt now skipChecksum s)"

end
