(* ===== verification/Multicast_Report.thy ===== *)
theory Multicast_Report
  imports Multicast_Query
begin

text \<open>
  Membership reports, \<^verbatim>\<open>src/multicast.go\<close>: the retransmission of state changes, the answers to queries, the packing
  of records into reports and their encoding. Queueing a packet on the link is not modelled: a report is the list of
  its destinations and payloads.
\<close>

definition multicastRecordModeIsInclude :: u8 where "multicastRecordModeIsInclude = 1"
definition multicastRecordModeIsExclude :: u8 where "multicastRecordModeIsExclude = 2"
definition multicastRecordChangeToIncludeMode :: u8 where "multicastRecordChangeToIncludeMode = 3"
definition multicastRecordChangeToExcludeMode :: u8 where "multicastRecordChangeToExcludeMode = 4"
definition multicastRecordAllowNewSources :: u8 where "multicastRecordAllowNewSources = 5"
definition multicastRecordBlockOldSources :: u8 where "multicastRecordBlockOldSources = 6"
definition multicastUnsolicitedReportInterval :: int where "multicastUnsolicitedReportInterval = sec"
definition igmpV2LeaveGroup :: u8 where "igmpV2LeaveGroup = 0x17"
definition igmpV3MembershipReport :: u8 where "igmpV3MembershipReport = 0x22"

record multicastReportRecord =
  rr_type :: u8
  rr_group :: addr
  rr_sources :: "addr list"

record multicastReportBatch =
  rb_v6 :: bool
  rb_legacy :: u8
  rb_group :: addr
  rb_exists :: bool
  rb_lastReporter :: bool
  rb_records :: "multicastReportRecord list"
  rb_cancel :: nat

section \<open>Records\<close>

definition advanceMulticastSourceCounters :: "(addr \<times> u8) list \<Rightarrow> addr list \<times> (addr \<times> u8) list" where
  "advanceMulticastSourceCounters counters =
     (sort (map fst counters),
      List.map_filter (\<lambda>(source, remaining). if remaining \<le> 1 then None else Some (source, remaining - 1)) counters)"

definition advanceRetransmissionLocked ::
  "multicastRetransmission \<Rightarrow> multicastReportRecord list \<times> bool \<times> multicastRetransmission" where
  "advanceRetransmissionLocked r =
     (if rt_modeRemaining r \<noteq> 0 then
        let recordType = (if mf_mode (rt_filter r) = multicastFilterExclude then multicastRecordChangeToExcludeMode
                          else multicastRecordChangeToIncludeMode);
            r = r\<lparr>rt_modeRemaining := rt_modeRemaining r - 1\<rparr>
        in ([\<lparr>rr_type = recordType, rr_group = AddrZero, rr_sources = sortedMulticastSources (mf_sources (rt_filter r))\<rparr>],
            rt_modeRemaining r \<noteq> 0 \<or> rt_allow r \<noteq> [] \<or> rt_block r \<noteq> [], r)
      else
        let (allowed, allow) = advanceMulticastSourceCounters (rt_allow r);
            (blocked, block) = advanceMulticastSourceCounters (rt_block r);
            records = (if rt_allow r \<noteq> [] then [\<lparr>rr_type = multicastRecordAllowNewSources, rr_group = AddrZero, rr_sources = allowed\<rparr>] else []) @
                      (if rt_block r \<noteq> [] then [\<lparr>rr_type = multicastRecordBlockOldSources, rr_group = AddrZero, rr_sources = blocked\<rparr>] else []);
            r = r\<lparr>rt_allow := allow, rt_block := block\<rparr>
        in (records, rt_allow r \<noteq> [] \<or> rt_block r \<noteq> [], r))"

definition multicastCurrentStateRecord :: "addr \<Rightarrow> multicastFilter \<Rightarrow> bool \<Rightarrow> addr set \<Rightarrow> multicastReportRecord" where
  "multicastCurrentStateRecord g f sourceQuery queried =
     (let recordType = (if \<not> sourceQuery \<and> mf_mode f = multicastFilterExclude then multicastRecordModeIsExclude else multicastRecordModeIsInclude);
          sources =
            (if sourceQuery then
               sorted_list_of_set {source \<in> queried. mf_mode f = multicastFilterInclude \<and> source \<in> mf_sources f \<or>
                                                     mf_mode f = multicastFilterExclude \<and> source \<notin> mf_sources f}
             else sortedMulticastSources (mf_sources f))
      in \<lparr>rr_type = recordType, rr_group = g, rr_sources = sources\<rparr>)"

section \<open>Collecting what is due\<close>

definition setLastReporter :: "addr \<Rightarrow> multicastState \<Rightarrow> multicastState" where
  "setLastReporter g s = s\<lparr>ms_groups := AList.map_entry g (\<lambda>state. state\<lparr>gs_lastReporter := True\<rparr>) (ms_groups s)\<rparr>"

definition retransmit :: "int \<Rightarrow> addr \<Rightarrow> multicastRetransmission \<Rightarrow> multicastState \<Rightarrow> multicastState \<times> multicastReportBatch list" where
  "retransmit now g r s =
     (let (records, remains, r) = advanceRetransmissionLocked r;
          legacy = legacyVersionLocked (is6 g) s;
          records = map (\<lambda>record. record\<lparr>rr_group := g\<rparr>) records;
          batch = \<lparr>rb_v6 = is6 g, rb_legacy = legacy, rb_group = g, rb_exists = rt_exists r, rb_lastReporter = rt_lastReporter r,
                   rb_records = records, rb_cancel = ms_reportCancel s (is6 g)\<rparr>;
          s = (if legacy \<noteq> 0 \<and> rt_exists r then setLastReporter g s else s);
          batches = (if legacy \<noteq> 0 \<or> records \<noteq> [] then [batch] else []);
          remains = (if legacy \<noteq> 0 \<and> \<not> rt_exists r then False else remains)
      in if remains then
           let (delay, s) = randomDelayLocked (if legacy \<noteq> 0 then 10 * sec else multicastUnsolicitedReportInterval) s
           in (s\<lparr>ms_retransmissions := AList.update g (r\<lparr>rt_due := Some (now + delay)\<rparr>) (ms_retransmissions s)\<rparr>, batches)
         else (s\<lparr>ms_retransmissions := AList.delete g (ms_retransmissions s)\<rparr>, batches))"

fun collectRetransmissions ::
  "int \<Rightarrow> (addr \<times> multicastRetransmission) list \<Rightarrow> multicastState \<Rightarrow> multicastReportBatch list \<Rightarrow> multicastState \<times> multicastReportBatch list" where
  "collectRetransmissions now [] s batches = (s, batches)"
| "collectRetransmissions now ((g, r) # rest) s batches =
     (if (case rt_due r of None \<Rightarrow> False | Some due \<Rightarrow> due > now) then collectRetransmissions now rest s batches
      else collectRetransmissions now rest (fst (retransmit now g r s)) (batches @ snd (retransmit now g r s)))"

text \<open>The body of the loop over the groups of a due General Query.\<close>

definition reportGroup ::
  "bool \<Rightarrow> u8 \<Rightarrow> addr \<Rightarrow> multicastGroupState \<Rightarrow> multicastState \<Rightarrow> multicastState \<times> multicastReportBatch list \<times> multicastReportRecord list" where
  "reportGroup v6 legacy g state s =
     (if is6 g \<noteq> v6 \<or> \<not> multicastGroupNeedsReport g then (s, [], [])
      else
        let s' = (if legacy \<noteq> 0 then setLastReporter g s else s);
            s' = (if pq_deadline (gs_query state) \<noteq> None
                  then setQuery g ((gs_query state)\<lparr>pq_sourceQuery := False, pq_sources := {}\<rparr>) s' else s')
        in if legacy \<noteq> 0 then
             (s', [\<lparr>rb_v6 = v6, rb_legacy = legacy, rb_group = g, rb_exists = True, rb_lastReporter = False, rb_records = [],
                    rb_cancel = ms_reportCancel s v6\<rparr>], [])
           else (s', [], [multicastCurrentStateRecord g (gs_aggregate state) False {}]))"

fun generalReport ::
  "bool \<Rightarrow> u8 \<Rightarrow> (addr \<times> multicastGroupState) list \<Rightarrow> multicastState \<Rightarrow> multicastState \<times> multicastReportBatch list \<times> multicastReportRecord list" where
  "generalReport v6 legacy [] s = (s, [], [])"
| "generalReport v6 legacy ((g, state) # rest) s =
     (let (s, batches, records) = reportGroup v6 legacy g state s;
          (s, batches', records') = generalReport v6 legacy rest s
      in (s, batches @ batches', records @ records'))"

definition isDue :: "int \<Rightarrow> int option \<Rightarrow> bool" where
  "isDue now deadline = (case deadline of None \<Rightarrow> False | Some t \<Rightarrow> \<not> t > now)"

definition collectGeneral ::
  "(addr \<Rightarrow> nat) \<Rightarrow> int \<Rightarrow> bool \<Rightarrow> multicastState \<times> multicastReportBatch list \<Rightarrow> multicastState \<times> multicastReportBatch list" where
  "collectGeneral groups now v6 sb =
     (let (s, batches) = sb
      in if \<not> isDue now (ms_generalQuery s v6) then (s, batches)
         else
           let legacy = legacyVersionLocked v6 s;
               (s, reports, records) = generalReport v6 legacy (inOrder groups (ms_groups s)) s;
               batches = batches @ reports;
               batches = (if legacy = 0 \<and> records \<noteq> []
                          then batches @ [\<lparr>rb_v6 = v6, rb_legacy = 0, rb_group = AddrZero, rb_exists = False, rb_lastReporter = False,
                                           rb_records = records, rb_cancel = ms_reportCancel s v6\<rparr>] else batches)
           in (s\<lparr>ms_generalQuery := (ms_generalQuery s)(v6 := None)\<rparr>, batches))"

text \<open>The answer to a group's due query.\<close>

definition answerQuery :: "addr \<Rightarrow> multicastGroupState \<Rightarrow> multicastState \<Rightarrow> multicastState \<times> multicastReportBatch list" where
  "answerQuery g state s =
     (let query = gs_query state;
          s = setQuery g emptyPendingQuery s;
          legacy = legacyVersionLocked (is6 g) s;
          record = multicastCurrentStateRecord g (gs_aggregate state) (pq_sourceQuery query) (pq_sources query)
      in if legacy \<noteq> 0 then
           (setLastReporter g s, [\<lparr>rb_v6 = is6 g, rb_legacy = legacy, rb_group = g, rb_exists = True, rb_lastReporter = False, rb_records = [],
                                    rb_cancel = ms_reportCancel s (is6 g)\<rparr>])
         else (s, if \<not> pq_sourceQuery query \<or> rr_sources record \<noteq> []
                  then [\<lparr>rb_v6 = is6 g, rb_legacy = 0, rb_group = AddrZero, rb_exists = False, rb_lastReporter = False,
                         rb_records = [record], rb_cancel = ms_reportCancel s (is6 g)\<rparr>]
                  else []))"

fun collectQueries ::
  "int \<Rightarrow> (addr \<times> multicastGroupState) list \<Rightarrow> multicastState \<Rightarrow> multicastReportBatch list \<Rightarrow> multicastState \<times> multicastReportBatch list" where
  "collectQueries now [] s batches = (s, batches)"
| "collectQueries now ((g, state) # rest) s batches =
     (if \<not> isDue now (pq_deadline (gs_query state)) then collectQueries now rest s batches
      else collectQueries now rest (fst (answerQuery g state s)) (batches @ snd (answerQuery g state s)))"

fun earliest :: "int option list \<Rightarrow> int option \<Rightarrow> int option" where
  "earliest [] soonest = soonest"
| "earliest (candidate # rest) soonest =
     earliest rest (case candidate of None \<Rightarrow> soonest
                    | Some t \<Rightarrow> (case soonest of None \<Rightarrow> Some t | Some u \<Rightarrow> if t < u then Some t else Some u))"

definition collectReports ::
  "(addr \<Rightarrow> nat) \<Rightarrow> int \<Rightarrow> multicastState \<Rightarrow> multicastState \<times> multicastReportBatch list \<times> int option" where
  "collectReports groups now s =
     (if ms_closed s then (s, [], None)
      else
        let s = refreshCompatibilityLocked now s;
            sb = collectRetransmissions now (inOrder groups (ms_retransmissions s)) s [];
            sb = collectGeneral groups now False sb;
            (s, batches) = collectGeneral groups now True sb;
            (s, batches) = collectQueries now (inOrder groups (ms_groups s)) s batches
        in (s, batches,
            earliest (map (rt_due \<circ> snd) (ms_retransmissions s) @ [ms_generalQuery s False, ms_generalQuery s True] @
                      map (pq_deadline \<circ> gs_query \<circ> snd) (ms_groups s) @ [qs_igmpV1Until s, qs_igmpV2Until s, qs_mldV1Until s]) None))"

section \<open>Packing\<close>

definition recordSize :: "nat \<Rightarrow> nat \<Rightarrow> multicastReportRecord \<Rightarrow> nat" where
  "recordSize recordHeader addressSize record = recordHeader + addressSize * length (rr_sources record)"

fun chunks :: "nat \<Rightarrow> 'a list \<Rightarrow> 'a list list" where
  "chunks n xs = (if n = 0 \<or> xs = [] then [] else take n xs # chunks n (drop n xs))"

declare chunks.simps [simp del]

fun packLoop ::
  "int \<Rightarrow> nat \<Rightarrow> nat \<Rightarrow> nat \<Rightarrow> nat \<Rightarrow> multicastReportRecord list \<Rightarrow> multicastReportRecord list list \<Rightarrow> multicastReportRecord list \<Rightarrow> nat \<Rightarrow>
     multicastReportRecord list list" where
  "packLoop maximum reportHeader recordHeader addressSize maximumSources [] reports current currentSize =
     (if current \<noteq> [] then reports @ [current] else reports)"
| "packLoop maximum reportHeader recordHeader addressSize maximumSources (record # rest) reports current currentSize =
     (if length (rr_sources record) > maximumSources then
        let reports = (if current \<noteq> [] then reports @ [current] else reports);
            (current, currentSize) = (if current \<noteq> [] then ([], reportHeader) else (current, currentSize))
        in if rr_type record = multicastRecordModeIsExclude \<or> rr_type record = multicastRecordChangeToExcludeMode then
             packLoop maximum reportHeader recordHeader addressSize maximumSources rest
               (reports @ [[record\<lparr>rr_sources := take maximumSources (rr_sources record)\<rparr>]]) current currentSize
           else
             packLoop maximum reportHeader recordHeader addressSize maximumSources rest
               (reports @ map (\<lambda>part. [record\<lparr>rr_sources := part\<rparr>]) (chunks maximumSources (rr_sources record))) current currentSize
      else
        let size = recordSize recordHeader addressSize record;
            (reports, current, currentSize) =
              (if int (currentSize + size) > maximum \<and> current \<noteq> [] then (reports @ [current], [], reportHeader) else (reports, current, currentSize))
        in packLoop maximum reportHeader recordHeader addressSize maximumSources rest reports (current @ [record]) (currentSize + size))"

definition packMulticastRecords :: "multicastReportRecord list \<Rightarrow> int \<Rightarrow> nat \<Rightarrow> nat \<Rightarrow> nat \<Rightarrow> multicastReportRecord list list" where
  "packMulticastRecords records maximum reportHeader recordHeader addressSize =
     (if maximum < int (reportHeader + recordHeader) then []
      else
        let maximumSources = nat ((maximum - int reportHeader - int recordHeader) div int addressSize)
        in packLoop maximum reportHeader recordHeader addressSize maximumSources records [] [] reportHeader)"

section \<open>Encoding\<close>

definition as4 :: "addr \<Rightarrow> bytes" where
  "as4 a = drop 12 (as16 a)"

text \<open>\<open>As4\<close> of an IPv6 address panics; the groups and sources of IGMP records are IPv4 addresses.\<close>

definition encodeIGMPv3 :: "bool \<Rightarrow> multicastReportRecord list \<Rightarrow> bytes" where
  "encodeIGMPv3 big report =
     (let body = be_put16 (of_nat (length report)) @
            concat (map (\<lambda>record. [rr_type record, 0] @ be_put16 (of_nat (length (rr_sources record))) @ as4 (rr_group record) @
                                  concat (map as4 (rr_sources record))) report);
          payload = [igmpV3MembershipReport, 0, 0, 0, 0, 0] @ body
      in take 2 payload @ be_put16 (checksum big payload) @ drop 4 payload)"

definition encodeMLDv2 :: "multicastReportRecord list \<Rightarrow> bytes" where
  "encodeMLDv2 report =
     [mldV2MembershipReport, 0, 0, 0, 0, 0] @ be_put16 (of_nat (length report)) @
     concat (map (\<lambda>record. [rr_type record, 0] @ be_put16 (of_nat (length (rr_sources record))) @ as16 (rr_group record) @
                           concat (map as16 (rr_sources record))) report)"

definition sendIGMPv3Records :: "bool \<Rightarrow> int \<Rightarrow> multicastReportRecord list \<Rightarrow> (addr \<times> bytes) list" where
  "sendIGMPv3Records big mtu records =
     map (\<lambda>report. (Addr4 0xe0000016, encodeIGMPv3 big report)) (packMulticastRecords records (mtu - 24) 8 8 4)"

definition sendMLDv2Records :: "int \<Rightarrow> multicastReportRecord list \<Rightarrow> (addr \<times> bytes) list" where
  "sendMLDv2Records mtu records =
     map (\<lambda>report. (Addr6 0xff020000000000000000000000000016 [], encodeMLDv2 report)) (packMulticastRecords records (mtu - 48) 8 20 16)"

definition sendIGMPLegacyReport :: "bool \<Rightarrow> addr \<Rightarrow> u8 \<Rightarrow> bool \<Rightarrow> bool \<Rightarrow> (addr \<times> bytes) list" where
  "sendIGMPLegacyReport big g version exists lastReporter =
     (if \<not> is4 g \<or> \<not> isMulticastAddr g then []
      else
        let messageType = (if version \<ge> 2 then igmpV2MembershipReport else igmpV1MembershipReport)
        in if \<not> exists \<and> (version < 2 \<or> \<not> lastReporter) then []
           else
             let (messageType, target) = (if \<not> exists then (igmpV2LeaveGroup, Addr4 0xe0000002) else (messageType, g));
                 payload = [messageType, 0, 0, 0] @ as4 g
             in [(target, take 2 payload @ be_put16 (checksum big payload) @ drop 4 payload)])"

definition sendMLDv1Report :: "addr \<Rightarrow> bool \<Rightarrow> bool \<Rightarrow> (addr \<times> bytes) list" where
  "sendMLDv1Report g exists lastReporter =
     (if \<not> is6 g \<or> \<not> isMulticastAddr g \<or> \<not> exists \<and> \<not> lastReporter then []
      else
        let (messageType, target) = (if \<not> exists then (mldV1ListenerDone, Addr6 0xff020000000000000000000000000002 []) else (mldV1MembershipReport, g))
        in [(target, [messageType] @ replicate 7 0 @ as16 g)])"

definition sendReport :: "bool \<Rightarrow> int \<Rightarrow> multicastReportBatch \<Rightarrow> (addr \<times> bytes) list" where
  "sendReport big mtu batch =
     (if rb_legacy batch \<noteq> 0 then
        if rb_v6 batch then sendMLDv1Report (rb_group batch) (rb_exists batch) (rb_lastReporter batch)
        else sendIGMPLegacyReport big (rb_group batch) (rb_legacy batch) (rb_exists batch) (rb_lastReporter batch)
      else if rb_v6 batch then sendMLDv2Records mtu (rb_records batch) else sendIGMPv3Records big mtu (rb_records batch))"

definition reportSource :: "networkState \<Rightarrow> bool \<Rightarrow> addr option" where
  "reportSource network v6 =
     (if \<not> v6 then find (\<lambda>source. is4 source \<and> \<not> isLoopback source) (ns_sources network)
      else case find (\<lambda>source. is6 source \<and> isLinkLocalUnicast source) (ns_sources network) of
          Some source \<Rightarrow> Some source
        | None \<Rightarrow> if networkStateHasFamily network True then Some (Addr6 0 []) else None)"

end
