(* ===== verification/Multicast_Stack.thy ===== *)
theory Multicast_Stack
  imports Multicast_Report Fragment_Table Sip_Hash
begin

text \<open>
  Group membership at the stack, \<^verbatim>\<open>src/multicast.go\<close>: the validation of membership requests, the creation of the
  membership state, its replacement and snapshots, and the queries that arrive before the first membership. The tables
  of sockets are the argument \<open>registered\<close>. A successful request ends with \<open>pruneFragments\<close>.
\<close>

datatype multicastError = Errno errno | ErrClosed

record multicastStack =
  sk_closed :: bool
  sk_network :: networkState
  sk_multicast :: "multicastState option"
  sk_multicastSeed :: "multicastQuerierState option"
  sk_flowLabelSecret :: bytes
  sk_fragments :: fragmentTable

definition multicastReportSeed :: bytes where
  "multicastReportSeed = [109, 117, 108, 116, 105, 99, 97, 115, 116, 45, 114, 101, 112, 111, 114, 116]"

definition newMulticastState :: "int \<Rightarrow> u64 \<Rightarrow> multicastStack \<Rightarrow> multicastState \<times> multicastStack" where
  "newMulticastState now unixNano k =
     (let (querier, k) =
            (case sk_multicastSeed k of
               None \<Rightarrow> (defaultMulticastQuerierState, k)
             | Some seed \<Rightarrow> (snd (refresh now seed), k\<lparr>sk_multicastSeed := None\<rparr>))
      in (\<lparr>qs_robustness = qs_robustness querier, qs_queryInterval = qs_queryInterval querier, qs_responseInterval = qs_responseInterval querier,
           qs_compatibility = qs_compatibility querier, qs_igmpV1Until = qs_igmpV1Until querier, qs_igmpV2Until = qs_igmpV2Until querier,
           qs_mldV1Until = qs_mldV1Until querier,
           ms_groups = [], ms_retransmissions = [], ms_familyGroups = (\<lambda>_. 0), ms_generalQuery = (\<lambda>_. None),
           ms_random = unixNano XOR sipHash24 (sk_flowLabelSecret k) multicastReportSeed,
           ms_wake = False, ms_closed = False, ms_index = Some [], ms_reportCancel = (\<lambda>_. 0), ms_entries = (\<lambda>_. None), ms_objects = 0\<rparr>, k))"

definition multicastEndpointSupportsGroup :: "multicastEndpoint \<Rightarrow> addr \<Rightarrow> bool" where
  "multicastEndpointSupportsGroup endpoint g \<longleftrightarrow> me_dual endpoint \<or> me_v6 endpoint = is6 g"

definition pruned :: "visit \<Rightarrow> multicastStack \<Rightarrow> multicastStack" where
  "pruned fvisit k =
     k\<lparr>sk_fragments := pruneFragments fvisit
         (\<lambda>g. case sk_multicast k of None \<Rightarrow> False | Some s \<Rightarrow> acceptsDestination (sk_network k) g s) (sk_network k) (sk_fragments k)\<rparr>"

definition changeMulticastMembership ::
  "(multicastEndpoint \<Rightarrow> bool) \<Rightarrow> visit \<Rightarrow> member_visit \<Rightarrow> int \<Rightarrow> u64 \<Rightarrow> multicastEndpoint \<Rightarrow> multicastMembershipOperation \<Rightarrow> addr \<Rightarrow> addr \<Rightarrow>
     multicastStack \<Rightarrow> multicastError option \<times> multicastStack" where
  "changeMulticastMembership registered fvisit visit now unixNano endpoint operation g source k =
     (let g = unmapAddr g;
          source = unmapAddr source
      in if \<not> validMulticastGroup g then (Some (Errno EINVAL), k)
         else if isSourceSpecificMulticast g \<and> operation \<in> {multicastJoinAnySource, multicastExcludeSource, multicastIncludeSource}
           then (Some (Errno EINVAL), k)
         else if isValidAddr source \<and> \<not> validMulticastSourceSyntax source (is6 g) then (Some (Errno EINVAL), k)
         else if operation \<notin> {multicastJoinAnySource, multicastLeaveGroup} \<and> \<not> isValidAddr source then (Some (Errno EINVAL), k)
         else if sk_closed k \<or> \<not> registered endpoint then (Some ErrClosed, k)
         else if \<not> multicastEndpointSupportsGroup endpoint g then (Some (Errno EAFNOSUPPORT), k)
         else if isValidAddr source \<and> \<not> validMulticastSourceAddress (sk_network k) source (is6 g) then (Some (Errno EINVAL), k)
         else
           (case sk_multicast k of
              Some s \<Rightarrow>
                (case membershipChange visit now endpoint operation g source s of
                   Inl e \<Rightarrow> (Some (Errno e), k)
                 | Inr s \<Rightarrow> (None, pruned fvisit (k\<lparr>sk_multicast := Some s\<rparr>)))
            | None \<Rightarrow>
                if operation \<in> {multicastJoinAnySource, multicastJoinSource} then
                  let (s, k) = newMulticastState now unixNano k
                  in (case membershipChange visit now endpoint operation g source s of
                        Inl e \<Rightarrow> (Some (Errno e), k\<lparr>sk_multicast := Some s\<rparr>)
                      | Inr s \<Rightarrow> (None, pruned fvisit (k\<lparr>sk_multicast := Some s\<rparr>)))
                else if operation = multicastLeaveGroup then (Some (Errno EADDRNOTAVAIL), k)
                else (Some (Errno EINVAL), k)))"

text \<open>The mode of the request is the exported type; only its two values exist here, so the check of other values has no branch.\<close>

definition setMulticastSourceFilter ::
  "(multicastEndpoint \<Rightarrow> bool) \<Rightarrow> visit \<Rightarrow> member_visit \<Rightarrow> int \<Rightarrow> multicastEndpoint \<Rightarrow> addr \<Rightarrow> multicastFilterMode \<Rightarrow> addr list \<Rightarrow>
     multicastStack \<Rightarrow> multicastError option \<times> multicastStack" where
  "setMulticastSourceFilter registered fvisit visit now endpoint g mode requested k =
     (let g = unmapAddr g
      in if \<not> validMulticastGroup g then (Some (Errno EINVAL), k)
         else if mode = multicastFilterExclude \<and> isSourceSpecificMulticast g then (Some (Errno EINVAL), k)
         else if list_ex (\<lambda>source. \<not> validMulticastSourceSyntax (unmapAddr source) (is6 g)) requested then (Some (Errno EINVAL), k)
         else
           let sources = set (map unmapAddr requested)
           in if sk_closed k \<or> \<not> registered endpoint then (Some ErrClosed, k)
              else if \<not> multicastEndpointSupportsGroup endpoint g then (Some (Errno EAFNOSUPPORT), k)
              else if list_ex (\<lambda>source. \<not> validMulticastSourceAddress (sk_network k) source (is6 g)) (map unmapAddr requested) then (Some (Errno EINVAL), k)
              else
                (case sk_multicast k of
                   None \<Rightarrow> (Some (Errno (if mode = multicastFilterInclude \<and> sources = {} then EADDRNOTAVAIL else EINVAL)), k)
                 | Some s \<Rightarrow>
                     (case membershipSet visit now endpoint g mode sources s of
                        Inl e \<Rightarrow> (Some (Errno e), k)
                      | Inr s \<Rightarrow> (None, pruned fvisit (k\<lparr>sk_multicast := Some s\<rparr>)))))"

definition multicastSourceFilter ::
  "(multicastEndpoint \<Rightarrow> bool) \<Rightarrow> multicastEndpoint \<Rightarrow> addr \<Rightarrow> multicastStack \<Rightarrow> multicastError + multicastFilterMode \<times> addr list" where
  "multicastSourceFilter registered endpoint g k =
     (let g = unmapAddr g
      in if \<not> validMulticastGroup g then Inl (Errno EINVAL)
         else if sk_closed k \<or> \<not> registered endpoint then Inl ErrClosed
         else
           (case sk_multicast k of
              None \<Rightarrow> Inl (Errno EADDRNOTAVAIL)
            | Some s \<Rightarrow>
                (case map_of (ms_groups s) g of
                   None \<Rightarrow> Inl (Errno EADDRNOTAVAIL)
                 | Some state \<Rightarrow>
                     (case map_of (gs_members state) endpoint of
                        None \<Rightarrow> Inl (Errno EADDRNOTAVAIL)
                      | Some f \<Rightarrow> Inr (mf_mode f, sorted_list_of_set (mf_sources f))))))"

text \<open>
  \<open>current\<close> is the caller's snapshot, and the result what it goes on with; the stack's own state may have been
  published since.
\<close>

definition multicastStateForQuery ::
  "bool \<Rightarrow> ipPacket \<Rightarrow> multicastState option \<Rightarrow> int \<Rightarrow> bool \<Rightarrow> multicastStack \<Rightarrow> (multicastState option \<times> multicastStack) option" where
  "multicastStateForQuery big packet current receivedAt skipChecksum k =
     (if current \<noteq> None \<or> ip_payload packet = [] then Some (current, k)
      else do {
        parsed \<leftarrow>
          (if ip_protocol packet = ProtocolIGMP then
             if hd (ip_payload packet) \<noteq> igmpMembershipQuery then Some None else parseIGMPQuery big packet (sk_network k) skipChecksum
           else if ip_protocol packet = ProtocolICMPv6 then
             if hd (ip_payload packet) \<noteq> mldMembershipQuery then Some None else parseMLDQuery big packet (sk_network k) skipChecksum
           else Some None);
        Some (case parsed of
                None \<Rightarrow> (None, k)
              | Some (query, expected) \<Rightarrow>
                  if \<not> acceptsMulticastControlDestination (sk_network k) None (ip_target packet) expected then (None, k)
                  else if sk_closed k then (None, k)
                  else if sk_multicast k \<noteq> None then (sk_multicast k, k)
                  else
                    let seed = (case sk_multicastSeed k of None \<Rightarrow> defaultMulticastQuerierState | Some seed \<Rightarrow> seed)
                    in (None, k\<lparr>sk_multicastSeed := Some (noteQuery query receivedAt seed)\<rparr>)) })"

end
