(* ===== verification/Multicast_Safety.thy ===== *)
theory Multicast_Safety
  imports Multicast_Dispatch Multicast_Stack Ip_Safety
begin

text \<open>
  Every reachable membership state keeps the dispatch entries exact; the effect of the membership operations; that
  control messages cannot make the host panic.
\<close>

section \<open>Queries and reports leave the dispatch alone\<close>

lemma keys_map_entry [simp]: "map fst (AList.map_entry k f xs) = map fst xs"
  by (induction xs) auto

lemma sameDispatch_groups:
  assumes "\<And>state. gs_object (f state) = gs_object state \<and> gs_members (f state) = gs_members state \<and> gs_aggregate (f state) = gs_aggregate state"
  shows "sameDispatch s (s\<lparr>ms_groups := AList.map_entry g f (ms_groups s)\<rparr>)"
proof -
  have "map_of (AList.map_entry g f xs) g' = (if g' = g then map_option f (map_of xs g') else map_of xs g')" for g' xs
    by (induction xs) auto
  then have "gcore (s\<lparr>ms_groups := AList.map_entry g f (ms_groups s)\<rparr>) = gcore s"
    using assms by (auto simp: gcore_def fun_eq_iff option.map_comp comp_def)
  then show ?thesis by (simp add: sameDispatch_def)
qed

lemma sameDispatch_fields:
  "sameDispatch s (s\<lparr>ms_wake := a\<rparr>)" "sameDispatch s (s\<lparr>ms_generalQuery := b\<rparr>)" "sameDispatch s (s\<lparr>ms_random := c\<rparr>)"
  "sameDispatch s (s\<lparr>ms_retransmissions := d\<rparr>)"
  by (simp_all add: sameDispatch_def)

lemma setQuery_same: "sameDispatch s (setQuery g q s)"
  unfolding setQuery_def by (rule sameDispatch_groups) simp

lemma setLastReporter_same: "sameDispatch s (setLastReporter g s)"
  unfolding setLastReporter_def by (rule sameDispatch_groups) simp

lemma randomDelay_same: "randomDelayLocked maximum s = (d, t) \<Longrightarrow> sameDispatch s t"
  by (auto simp: randomDelayLocked_def Let_def sameDispatch_fields split: if_splits)

lemma noteQueryVersion_same: "sameDispatch s (noteQueryVersion v6 version general robustness qi ri now s)"
  by (auto simp: sameDispatch_def noteQueryVersion_def Let_def gcore_def fun_eq_iff)

lemma noteQueryVersionLocked_same: "sameDispatch s (noteQueryVersionLocked v6 version general robustness qi ri now s)"
  unfolding noteQueryVersionLocked_def
  by (rule sameDispatch_trans [OF sameDispatch_trans [OF refreshCompatibility_same noteQueryVersion_same] refreshCompatibility_same])

lemma legacyQueryLoop_same: "sameDispatch s (legacyQueryLoop v6 maximum now entries s)"
proof (induction v6 maximum now entries s rule: legacyQueryLoop.induct)
  case (2 v6 maximum now g state rest s)
  obtain d t where r: "randomDelayLocked maximum s = (d, t)" by (cases "randomDelayLocked maximum s")
  show ?case
  proof (cases "is6 g \<noteq> v6 \<or> \<not> multicastGroupNeedsReport g")
    case True then show ?thesis using 2(1) by simp
  next
    case False
    let ?u = "if before (now + d) (pq_deadline (gs_query state))
      then setQuery g \<lparr>pq_deadline = Some (now + d), pq_sources = {}, pq_sourceQuery = False\<rparr> t else t"
    have "sameDispatch s ?u" using randomDelay_same [OF r] setQuery_same by (auto intro: sameDispatch_trans)
    also have "sameDispatch ?u (legacyQueryLoop v6 maximum now rest ?u)" by (rule 2(2)) (use False r in auto)
    finally show ?thesis using False r by (simp add: Let_def)
  qed
qed simp

lemma effectiveQuery_same: "effectiveQuery query now s = (q, t) \<Longrightarrow> sameDispatch s t"
  using refreshCompatibility_same [of s now] sameDispatch_trans [OF refreshCompatibility_same noteQueryVersionLocked_same]
  by (auto simp: effectiveQuery_def Let_def split: if_splits)

lemma scheduleGeneral_same: "sameDispatch s (scheduleGeneral groups query now s)"
proof -
  obtain d t where r: "randomDelayLocked (mq_maximum query) s = (d, t)" by (cases "randomDelayLocked (mq_maximum query) s")
  show ?thesis
    using legacyQueryLoop_same randomDelay_same [OF r] sameDispatch_trans [OF randomDelay_same [OF r] sameDispatch_fields(2)]
    by (simp add: scheduleGeneral_def Let_def r)
qed

lemma scheduleGroup_same: "sameDispatch s (scheduleGroup query now s)"
proof -
  obtain d t where r: "randomDelayLocked (mq_maximum query) s = (d, t)" by (cases "randomDelayLocked (mq_maximum query) s")
  show ?thesis
    using randomDelay_same [OF r] sameDispatch_trans [OF randomDelay_same [OF r] sameDispatch_trans [OF setQuery_same sameDispatch_fields(1)]]
    by (simp add: scheduleGroup_def Let_def r split: option.split)
qed

lemma scheduleQuery_same: "sameDispatch s (scheduleQuery groups query now s)"
proof -
  obtain q t where q: "effectiveQuery query now s = (q, t)" by (cases "effectiveQuery query now s")
  note t = effectiveQuery_same [OF q]
  show ?thesis
    using sameDispatch_trans [OF t sameDispatch_trans [OF scheduleGeneral_same sameDispatch_fields(1)]] sameDispatch_trans [OF t scheduleGroup_same]
    by (simp add: scheduleQuery_def q)
qed

lemma heardLegacyReport_same: "sameDispatch s (heardLegacyReport now g s)"
proof -
  let ?t = "refreshCompatibilityLocked now s"
  let ?f = "\<lambda>state. state\<lparr>gs_query := emptyPendingQuery, gs_lastReporter := False\<rparr>"
  have t: "sameDispatch s ?t" by (rule refreshCompatibility_same)
  have u: "sameDispatch s (?t\<lparr>ms_groups := AList.map_entry g ?f (ms_groups ?t)\<rparr>)"
    by (rule sameDispatch_trans [OF t sameDispatch_groups]) simp
  note f = sameDispatch_trans [OF t sameDispatch_fields(1)] sameDispatch_trans [OF u sameDispatch_fields(1)]
    sameDispatch_trans [OF u sameDispatch_trans [OF sameDispatch_fields(4) sameDispatch_fields(1)]]
  show ?thesis
    unfolding heardLegacyReport_def Let_def using t u f
    by (simp only: split: if_splits option.splits) simp
qed

lemma retransmit_same: "sameDispatch s (fst (retransmit now g r s))"
proof -
  obtain records remains r' where a: "advanceRetransmissionLocked r = (records, remains, r')" by (cases "advanceRetransmissionLocked r")
  let ?legacy = "legacyVersionLocked (is6 g) s"
  let ?t = "if ?legacy \<noteq> 0 \<and> rt_exists r' then setLastReporter g s else s"
  obtain d w where w: "randomDelayLocked (if ?legacy \<noteq> 0 then 10 * sec else multicastUnsolicitedReportInterval) ?t = (d, w)"
    by (cases "randomDelayLocked (if ?legacy \<noteq> 0 then 10 * sec else multicastUnsolicitedReportInterval) ?t")
  have t: "sameDispatch s ?t" by (simp add: setLastReporter_same)
  note u = sameDispatch_trans [OF t sameDispatch_fields(4)] sameDispatch_trans [OF t sameDispatch_trans [OF randomDelay_same [OF w] sameDispatch_fields(4)]]
  have same_if: "sameDispatch s x \<Longrightarrow> sameDispatch s y \<Longrightarrow> sameDispatch s (if c then x else y)" for x y c by simp
  show ?thesis unfolding retransmit_def Let_def a split_conv w if_distrib [of fst] fst_conv by (rule same_if; rule u)
qed

lemma collectRetransmissions_same: "sameDispatch s (fst (collectRetransmissions now entries s batches))"
proof (induction now entries s batches rule: collectRetransmissions.induct)
  case (2 now g r rest s batches)
  show ?case
  proof (cases "case rt_due r of None \<Rightarrow> False | Some due \<Rightarrow> due > now")
    case True then show ?thesis using 2(1) by simp
  next
    case False then show ?thesis using sameDispatch_trans [OF retransmit_same 2(2) [OF False]] by simp
  qed
qed simp

lemma reportGroup_same: "sameDispatch s (fst (reportGroup v6 legacy g state s))"
  using setQuery_same setLastReporter_same sameDispatch_trans [OF setLastReporter_same setQuery_same]
  by (simp add: reportGroup_def Let_def)

lemma generalReport_same: "sameDispatch s (fst (generalReport v6 legacy entries s))"
proof (induction v6 legacy entries s rule: generalReport.induct)
  case (2 v6 legacy g state rest s)
  obtain t b r where t: "reportGroup v6 legacy g state s = (t, b, r)" by (cases "reportGroup v6 legacy g state s")
  then show ?case using 2 [OF t [symmetric] refl] reportGroup_same [of s v6 legacy g state] by (auto simp: t split_def Let_def intro: sameDispatch_trans)
qed simp

lemma collectGeneral_same: "sameDispatch (fst sb) (fst (collectGeneral groups now v6 sb))"
proof (cases sb)
  case (Pair s batches)
  let ?g = "generalReport v6 (legacyVersionLocked v6 s) (inOrder groups (ms_groups s)) s"
  obtain t b r where t: "?g = (t, b, r)" by (cases ?g)
  have "sameDispatch s t" using generalReport_same [of s v6 "legacyVersionLocked v6 s" "inOrder groups (ms_groups s)"] t by simp
  then have "sameDispatch s (t\<lparr>ms_generalQuery := (ms_generalQuery t)(v6 := None)\<rparr>)" by (rule sameDispatch_trans [OF _ sameDispatch_fields(2)])
  then show ?thesis by (simp add: Pair collectGeneral_def Let_def t)
qed

lemma answerQuery_same: "sameDispatch s (fst (answerQuery g state s))"
  using setQuery_same sameDispatch_trans [OF setQuery_same setLastReporter_same] by (simp add: answerQuery_def Let_def)

lemma collectQueries_same: "sameDispatch s (fst (collectQueries now entries s batches))"
proof (induction now entries s batches rule: collectQueries.induct)
  case (2 now g state rest s batches)
  show ?case
  proof (cases "isDue now (pq_deadline (gs_query state))")
    case False then show ?thesis using 2(1) by simp
  next
    case True then show ?thesis using sameDispatch_trans [OF answerQuery_same 2(2)] by simp
  qed
qed simp

lemma collectReports_same: "sameDispatch s (fst (collectReports groups now s))"
proof (cases "ms_closed s")
  case False
  let ?a = "refreshCompatibilityLocked now s"
  let ?b = "collectRetransmissions now (inOrder groups (ms_retransmissions ?a)) ?a []"
  let ?c = "collectGeneral groups now False ?b"
  let ?d = "collectGeneral groups now True ?c"
  let ?e = "collectQueries now (inOrder groups (ms_groups (fst ?d))) (fst ?d) (snd ?d)"
  have "sameDispatch s ?a" by (rule refreshCompatibility_same)
  also have "sameDispatch ?a (fst ?b)" by (rule collectRetransmissions_same)
  also have "sameDispatch (fst ?b) (fst ?c)" by (rule collectGeneral_same)
  also have "sameDispatch (fst ?c) (fst ?d)" by (rule collectGeneral_same)
  also have "sameDispatch (fst ?d) (fst ?e)" by (rule collectQueries_same)
  finally have "sameDispatch s (fst ?e)" .
  then show ?thesis using False by (simp add: collectReports_def Let_def split_def)
qed (simp add: collectReports_def)

section \<open>Control messages do not panic\<close>

lemma go_slice_total: "lo \<le> hi \<Longrightarrow> hi \<le> length xs \<Longrightarrow> \<exists>ys. go_slice xs lo hi = Some ys"
  by (simp add: go_slice_def)

lemma querySources_total:
  "offset + count * (if v6 then 16 else 4) \<le> length payload \<Longrightarrow> \<exists>r. querySources network v6 payload count offset = Some r"
proof (induction network v6 payload count offset rule: querySources.induct)
  case (2 network v6 payload count offset)
  obtain raw where raw: "go_slice payload offset (offset + (if v6 then 16 else 4)) = Some raw"
    using go_slice_total [of offset "offset + (if v6 then 16 else 4)" payload] 2(2) by (auto split: if_splits)
  show ?case
  proof (cases "validMulticastSourceAddress network (if v6 then addrFrom16 raw else addrFrom4 raw) v6")
    case True
    have "offset + (if v6 then 16 else 4) + count * (if v6 then 16 else 4) \<le> length payload" using 2(2) by (simp split: if_splits)
    then show ?thesis using 2(1) [OF raw refl] True raw by (auto simp: Let_def)
  qed (simp add: raw Let_def)
qed simp

lemma go_index_some: "i < length xs \<Longrightarrow> \<exists>x. go_index xs i = Some x"
  by (simp add: go_index_def)

lemma igmpQueryForm_total: "\<exists>r. igmpQueryForm network payload code = Some r"
proof (cases "length payload = 8 \<or> length payload < 12")
  case False
  obtain b8 b9 field where b: "go_index payload 8 = Some b8" "go_index payload 9 = Some b9" "read16 payload 10 = Some field"
    using go_index_some [of 8 payload] go_index_some [of 9 payload] read16_total [of 10 payload] False by auto
  have "\<exists>r. querySources network False payload (unat field) 12 = Some r" if "\<not> length payload - 12 < unat field * 4"
  proof -
    have "12 \<le> length payload" using False by auto
    then show ?thesis using querySources_total [of 12 "unat field"] that by simp
  qed
  then show ?thesis using False b by (auto simp: igmpQueryForm_def Let_def)
qed (auto simp: igmpQueryForm_def Let_def)

lemma mldQueryForm_total: "\<exists>r. mldQueryForm network payload field = Some r"
proof (cases "length payload = 24 \<or> length payload < 28")
  case False
  obtain b8 b9 number where b: "go_index payload 24 = Some b8" "go_index payload 25 = Some b9" "read16 payload 26 = Some number"
    using go_index_some [of 24 payload] go_index_some [of 25 payload] read16_total [of 26 payload] False by auto
  have "\<exists>r. querySources network True payload (unat number) 28 = Some r" if "\<not> length payload - 28 < unat number * 16"
  proof -
    have "28 \<le> length payload" using False by auto
    then show ?thesis using querySources_total [of 28 "unat number"] that by simp
  qed
  then show ?thesis using False b by (auto simp: mldQueryForm_def Let_def)
qed (auto simp: mldQueryForm_def Let_def)

lemma parseIGMPQuery_total: "\<exists>r. parseIGMPQuery big packet network skipChecksum = Some r"
proof (cases "length (ip_payload packet) < 8")
  case False
  let ?p = "ip_payload packet"
  obtain b0 where b0: "go_index ?p 0 = Some b0" using go_index_some [of 0 ?p] False by force
  obtain code where code: "go_index ?p 1 = Some code" using go_index_some [of 1 ?p] False by force
  obtain raw where raw: "go_slice ?p 4 8 = Some raw" using go_slice_total [of 4 8 ?p] False by force
  obtain alert where a: "hasRouterAlert packet = Some alert" using hasRouterAlert_total by blast
  obtain f where f: "igmpQueryForm network ?p code = Some f" using igmpQueryForm_total by blast
  show ?thesis unfolding parseIGMPQuery_def Let_def b0 code raw a Option.bind.bind_lunit f using False by (simp split: option.split)
qed (simp add: parseIGMPQuery_def)

lemma parseMLDQuery_total: "\<exists>r. parseMLDQuery big packet network skipChecksum = Some r"
proof (cases "length (ip_payload packet) < 24")
  case False
  let ?p = "ip_payload packet"
  obtain b0 where b0: "go_index ?p 0 = Some b0" using go_index_some [of 0 ?p] False by force
  obtain b1 where b1: "go_index ?p 1 = Some b1" using go_index_some [of 1 ?p] False by force
  obtain raw where raw: "go_slice ?p 8 24 = Some raw" using go_slice_total [of 8 24 ?p] False by force
  obtain field where field: "read16 ?p 4 = Some field" using read16_total [of 4 ?p] False by force
  obtain alert where a: "hasRouterAlert packet = Some alert" using hasRouterAlert_total by blast
  obtain f where f: "mldQueryForm network ?p field = Some f" using mldQueryForm_total by blast
  show ?thesis unfolding parseMLDQuery_def Let_def b0 b1 raw a field Option.bind.bind_lunit f using False by (simp split: option.split)
qed (simp add: parseMLDQuery_def)

lemma handleIGMP_total: "\<exists>t. handleIGMP big groups network packet receivedAt now skipChecksum s = Some t"
proof -
  let ?p = "ip_payload packet"
  obtain q where q: "parseIGMPQuery big packet network skipChecksum = Some q" using parseIGMPQuery_total by blast
  obtain alert where a: "hasRouterAlert packet = Some alert" using hasRouterAlert_total by blast
  show ?thesis
  proof (cases "length ?p < 8")
    case True then show ?thesis using q by (auto simp: handleIGMP_def Let_def)
  next
    case False
    obtain b0 where b0: "go_index ?p 0 = Some b0" using go_index_some [of 0 ?p] False by force
    obtain raw where raw: "go_slice ?p 4 8 = Some raw" using go_slice_total [of 4 8 ?p] False by force
    show ?thesis unfolding handleIGMP_def Let_def q a b0 raw Option.bind.bind_lunit by auto
  qed
qed

lemma handleMLD_total: "\<exists>t. handleMLD big groups network packet receivedAt now skipChecksum s = Some t"
proof -
  let ?p = "ip_payload packet"
  obtain q where q: "parseMLDQuery big packet network skipChecksum = Some q" using parseMLDQuery_total by blast
  obtain alert where a: "hasRouterAlert packet = Some alert" using hasRouterAlert_total by blast
  show ?thesis
  proof (cases "length ?p < 8")
    case True then show ?thesis using q by (auto simp: handleMLD_def Let_def)
  next
    case False
    obtain b0 where b0: "go_index ?p 0 = Some b0" using go_index_some [of 0 ?p] False by force
    obtain b1 where b1: "go_index ?p 1 = Some b1" using go_index_some [of 1 ?p] False by force
    have raw: "\<exists>raw. go_slice ?p 8 24 = Some raw" if "24 \<le> length ?p" using go_slice_total [of 8 24 ?p] that by force
    show ?thesis unfolding handleMLD_def Let_def q a b0 b1 Option.bind.bind_lunit using raw by auto
  qed
qed

lemma handleControl_same: "handleControl big groups network packet receivedAt now skipChecksum s = Some t \<Longrightarrow> sameDispatch s t"
  using scheduleQuery_same heardLegacyReport_same
  by (auto simp: handleControl_def handleIGMP_def handleMLD_def Let_def split: if_splits option.splits bind_splits)

section \<open>Reachable states\<close>

inductive multicast_reach :: "multicastState \<Rightarrow> bool" where
  created: "newMulticastState now unixNano k = (s, k') \<Longrightarrow> multicast_reach s"
| changed: "multicast_reach s \<Longrightarrow> membershipChange visit now endpoint operation g source s = Inr t \<Longrightarrow> multicast_reach t"
| replaced: "multicast_reach s \<Longrightarrow> membershipSet visit now endpoint g mode sources s = Inr t \<Longrightarrow> multicast_reach t"
| removed: "multicast_reach s \<Longrightarrow> multicast_reach (removeEndpoint groups visit now endpoint s)"
| configured: "multicast_reach s \<Longrightarrow> multicast_reach (updateConfig groups visit now network s)"
| controlled: "multicast_reach s \<Longrightarrow> handleControl big groups network packet receivedAt now skipChecksum s = Some t \<Longrightarrow> multicast_reach t"
| collected: "multicast_reach s \<Longrightarrow> multicast_reach (fst (collectReports groups now s))"
| closed: "multicast_reach s \<Longrightarrow> multicast_reach (closeState s)"

lemma new_ok: "newMulticastState now unixNano k = (s, k') \<Longrightarrow> dispatch_ok s"
  by (auto simp: newMulticastState_def Let_def dispatch_ok_def dispatch_but_def gcore_def reported_def loadDispatchGroup_def split: option.splits)

lemma reach_dispatch_ok: "multicast_reach s \<Longrightarrow> dispatch_ok s"
proof (induction rule: multicast_reach.induct)
  case (created now unixNano k s k') then show ?case by (rule new_ok)
next
  case (changed s visit now endpoint operation g source t) then show ?case using membershipChange_ok by blast
next
  case (replaced s visit now endpoint g mode sources t) then show ?case using membershipSet_ok by blast
next
  case (removed s groups visit now endpoint) then show ?case using removeEndpoint_ok(1) by blast
next
  case (configured s groups visit now network) then show ?case using updateConfig_ok by blast
next
  case (controlled s big groups network packet receivedAt now skipChecksum t)
  then show ?case using sameDispatch_but [OF handleControl_same] by (simp add: dispatch_ok_def)
next
  case (collected s groups now)
  then show ?case using sameDispatch_but [OF collectReports_same] by (simp add: dispatch_ok_def)
next
  case (closed s) then show ?case using closeState_ok by blast
qed

section \<open>What the data plane sees\<close>

lemma load_member:
  assumes "dispatch_ok s"
  shows "(case loadDispatchGroup g s of
      None \<Rightarrow> memberships s g = Map.empty
    | Some d \<Rightarrow> (\<exists>ms rank. ms \<noteq> [] \<and> distinct (map fst ms) \<and> memberships s g = map_of ms \<and>
        d = dispatchGroup rank ms (aggregateMulticastFilter (map snd ms))))"
proof (cases "gcore s g")
  case None
  have "loadDispatchGroup g s = None" using dispatch_butD(9) [OF assms [unfolded dispatch_ok_def] None] .
  then show ?thesis using None by (simp add: memberships_def fun_eq_iff)
next
  case (Some x)
  obtain object ms a where x: "x = (object, ms, a)" by (cases x)
  note c = Some [unfolded x]
  note b = assms [unfolded dispatch_ok_def]
  obtain rank idx where "ms_entries s object = Some (dispatchGroup rank ms a)" "ms_index s = Some idx" "map_of idx g = Some object"
    using dispatch_butD(7) [OF b c] by (auto simp: published_def)
  then have l: "loadDispatchGroup g s = Some (dispatchGroup rank ms a)" by (simp add: loadDispatchGroup_def)
  have "memberships s g = map_of ms" using c by (simp add: memberships_def fun_eq_iff)
  then show ?thesis using l dispatch_butD(3,4,5) [OF b c] by auto
qed

lemma inOrder_set [simp]: "set (inOrder rank ms) = set ms"
  by (simp add: inOrder_def)

lemma inOrder_distinct: "distinct (map fst ms) \<Longrightarrow> distinct (map fst (inOrder rank ms))"
  by (simp add: inOrder_def distinct_map)

lemma accepts_unmap [simp]: "accepts f (unmapAddr source) = accepts f source"
  by (simp add: accepts_def)

lemma acceptsSource_members:
  assumes "dispatch_ok s"
  shows "acceptsSource g source s \<longleftrightarrow>
    isAllHostsGroup (unmapAddr g) \<or> (\<exists>c f. memberships s (unmapAddr g) c = Some f \<and> accepts f source)"
proof (cases "loadDispatchGroup (unmapAddr g) s")
  case None
  then show ?thesis using load_member [OF assms, of "unmapAddr g"] by (simp add: acceptsSource_def Let_def)
next
  case (Some d)
  then obtain ms rank where ms: "distinct (map fst ms)" "memberships s (unmapAddr g) = map_of ms"
      "d = dispatchGroup rank ms (aggregateMulticastFilter (map snd ms))"
    using load_member [OF assms, of "unmapAddr g"] by auto
  have "(\<exists>c f. map_of ms c = Some f \<and> accepts f source) \<longleftrightarrow> list_ex (\<lambda>f. accepts f source) (map snd ms)"
    using ms(1) by (force simp: list_ex_iff)
  then show ?thesis using Some ms by (simp add: acceptsSource_def Let_def dispatchGroup_def aggregate_accepts)
qed

lemma acceptsDestination_members:
  assumes "dispatch_ok s"
  shows "acceptsDestination network g s \<longleftrightarrow>
    networkStateHasFamily network (is6 (unmapAddr g)) \<and> (\<exists>c. memberships s (unmapAddr g) c \<noteq> None)"
proof (cases "loadDispatchGroup (unmapAddr g) s")
  case None
  then show ?thesis using load_member [OF assms, of "unmapAddr g"] by (simp add: acceptsDestination_def Let_def)
next
  case (Some d)
  then obtain ms rank where ms: "ms \<noteq> []" "memberships s (unmapAddr g) = map_of ms"
      "d = dispatchGroup rank ms (aggregateMulticastFilter (map snd ms))"
    using load_member [OF assms, of "unmapAddr g"] by auto
  obtain c f rest where m: "ms = (c, f) # rest" using ms(1) by (cases ms) auto
  have "(c, f) \<in> set (inOrder rank ms)" by (simp add: m)
  then have "dg_udp d \<noteq> [] \<or> dg_ip d \<noteq> []"
    using ms(3) by (cases "me_kind c") (force simp: dispatchGroup_def Let_def filter_empty_conv)+
  moreover have "map_of ms c \<noteq> None" by (simp add: m)
  ultimately show ?thesis using Some ms(2) by (auto simp: acceptsDestination_def Let_def)
qed

lemma deliverUDP_members:
  assumes "dispatch_ok s"
  shows "distinct (deliverUDP target source sourcePort targetPort s)"
    and "c \<in> set (deliverUDP target source sourcePort targetPort s) \<longleftrightarrow>
      (\<exists>f. memberships s target c = Some f \<and> accepts f source) \<and> me_kind c = UDPEndpoint \<and> isUnspecified (me_local c) \<and>
      me_port c = targetPort \<and> (isValidAddr (fst (me_remote c)) \<longrightarrow> me_remote c = (source, sourcePort))"
proof -
  have "distinct (deliverUDP target source sourcePort targetPort s) \<and> (c \<in> set (deliverUDP target source sourcePort targetPort s) \<longleftrightarrow>
      (\<exists>f. memberships s target c = Some f \<and> accepts f source) \<and> me_kind c = UDPEndpoint \<and> isUnspecified (me_local c) \<and>
      me_port c = targetPort \<and> (isValidAddr (fst (me_remote c)) \<longrightarrow> me_remote c = (source, sourcePort)))"
  proof (cases "loadDispatchGroup target s")
    case None
    then show ?thesis using load_member [OF assms, of target] by (simp add: deliverUDP_def)
  next
    case (Some d)
    then obtain ms rank where ms: "distinct (map fst ms)" "memberships s target = map_of ms"
        "d = dispatchGroup rank ms (aggregateMulticastFilter (map snd ms))"
      using load_member [OF assms, of target] by auto
    have in_ms: "map_of ms c = Some f \<longleftrightarrow> (c, f) \<in> set ms" for f using ms(1) by simp
    have dist: "distinct (map fst (filter P (filter Q (inOrder rank ms))))" for P Q
      using inOrder_distinct [OF ms(1), of rank] by (intro distinct_map_filter)
    show ?thesis unfolding deliverUDP_def Some ms(2) in_ms
      by (simp only: option.case ms(3) dispatchGroup_def Let_def multicastDispatchGroup.simps dist) (force)
  qed
  then show "distinct (deliverUDP target source sourcePort targetPort s)"
    and "c \<in> set (deliverUDP target source sourcePort targetPort s) \<longleftrightarrow>
      (\<exists>f. memberships s target c = Some f \<and> accepts f source) \<and> me_kind c = UDPEndpoint \<and> isUnspecified (me_local c) \<and>
      me_port c = targetPort \<and> (isValidAddr (fst (me_remote c)) \<longrightarrow> me_remote c = (source, sourcePort))" by blast+
qed

section \<open>Properties\<close>

text \<open>
  C5: in every reachable membership state the lock-free dispatch entries are exact. The interface admits a source for a
  group exactly when the group is an all-hosts group or the filter of some member accepts the source; a destination is
  accepted exactly when the family is configured and the group has a member; a datagram is queued exactly once on
  every UDP socket that is bound to the wildcard address and the port, whose peer matches and whose filter accepts the source;
  and the count of groups to report is exact for both families.
\<close>

theorem multicast_dispatch_exact:
  assumes "multicast_reach s"
  shows "(acceptsSource g source s \<longleftrightarrow> isAllHostsGroup (unmapAddr g) \<or> (\<exists>c f. memberships s (unmapAddr g) c = Some f \<and> accepts f source)) \<and>
    (acceptsDestination network g s \<longleftrightarrow> networkStateHasFamily network (is6 (unmapAddr g)) \<and> (\<exists>c. memberships s (unmapAddr g) c \<noteq> None)) \<and>
    distinct (deliverUDP target source sourcePort targetPort s) \<and>
    (c \<in> set (deliverUDP target source sourcePort targetPort s) \<longleftrightarrow>
      (\<exists>f. memberships s target c = Some f \<and> accepts f source) \<and> me_kind c = UDPEndpoint \<and> isUnspecified (me_local c) \<and>
      me_port c = targetPort \<and> (\<not> isValidAddr (fst (me_remote c)) \<or> me_remote c = (source, sourcePort))) \<and>
    ms_familyGroups s v6 = int (length (filter (\<lambda>g. is6 g = v6 \<and> multicastGroupNeedsReport g) (map fst (ms_groups s))))"
proof -
  note d = reach_dispatch_ok [OF assms]
  show ?thesis
    using acceptsSource_members [OF d, of g source] acceptsDestination_members [OF d, of network g]
      deliverUDP_members(1) [OF d, of target source sourcePort targetPort]
      deliverUDP_members(2) [OF d, where target = target and source = source and sourcePort = sourcePort and targetPort = targetPort and c = c]
      dispatch_butD(2) [OF d [unfolded dispatch_ok_def], of v6]
    by (auto simp: reported_def)
qed

theorem multicast_dispatch_exact_witness:
  "\<exists>s. multicast_reach s \<and> acceptsSource (Addr4 0xe8000001) (Addr4 0x0a000001) s \<and> \<not> acceptsSource (Addr4 0xe8000001) (Addr4 0x0a000002) s"
proof -
  let ?k = "\<lparr>sk_closed = False, sk_network = undefined, sk_multicast = None, sk_multicastSeed = None, sk_flowLabelSecret = [], sk_fragments = undefined\<rparr>"
  let ?e = "\<lparr>me_id = 0, me_kind = UDPEndpoint, me_dual = False, me_v6 = False, me_local = Addr4 0, me_port = 9, me_protocol = 17, me_remote = (AddrZero, 0)\<rparr>"
  let ?g = "Addr4 0xe8000001" and ?x = "Addr4 0x0a000001"
  obtain s k where n: "newMulticastState 0 0 ?k = (s, k)" by (cases "newMulticastState 0 0 ?k")
  have g: "ms_groups s = []" using n by (auto simp: newMulticastState_def)
  obtain t where t: "membershipChange (\<lambda>_ _ _. 0) 0 ?e multicastJoinSource ?g ?x s = Inr t"
    by (simp add: membershipChange_def g requestedFilter_def multicastInterfaceFilter_def Let_def)
  have r: "multicast_reach s" "multicast_reach t" using multicast_reach.created [OF n] multicast_reach.changed t by blast+
  have m0: "memberships s = (\<lambda>_ _. None)" by (simp add: memberships_def gcore_def g fun_eq_iff)
  have "memberships t = (\<lambda>_ _. None)(?g := (\<lambda>_. None)(?e := Some \<lparr>mf_mode = multicastFilterInclude, mf_sources = {?x}\<rparr>))"
    using membershipChange_ok [OF reach_dispatch_ok [OF r(1)] t] by (auto simp: m0 requestedFilter_def changedFilter_def)
  then have m: "memberships t ?g c = Some f \<longleftrightarrow> c = ?e \<and> f = \<lparr>mf_mode = multicastFilterInclude, mf_sources = {?x}\<rparr>" for c f by auto
  have d: "acceptsSource ?g y t \<longleftrightarrow> unmapAddr y = ?x" for y
    using multicast_dispatch_exact [OF r(2), of ?g y] by (auto simp: m isAllHostsGroup_def accepts_def)
  show ?thesis using r(2) by (intro exI [of _ t]) (simp add: d)
qed

text \<open>
  C34: the effect of a successful membership operation on a socket's filter, as RFC 3678 states it: joining any source admits
  every source, leaving admits none, joining or including a source adds it to what the socket admits, leaving or excluding
  one removes it; no other socket and no other group is affected.
\<close>

theorem membership_change_effect:
  assumes "multicast_reach s" and "unmapAddr source = source"
    and "membershipChange visit now endpoint operation g source s = Inr t"
  shows "(case memberships t g endpoint of None \<Rightarrow> False | Some f \<Rightarrow> accepts f x) =
      (let admitted = (case memberships s g endpoint of None \<Rightarrow> False | Some f \<Rightarrow> accepts f x)
       in case operation of
            multicastJoinAnySource \<Rightarrow> True
          | multicastLeaveGroup \<Rightarrow> False
          | multicastJoinSource \<Rightarrow> admitted \<or> unmapAddr x = source
          | multicastIncludeSource \<Rightarrow> admitted \<or> unmapAddr x = source
          | multicastLeaveSource \<Rightarrow> admitted \<and> unmapAddr x \<noteq> source
          | multicastExcludeSource \<Rightarrow> admitted \<and> unmapAddr x \<noteq> source) \<and>
    (if (g', c) = (g, endpoint) then True else memberships t g' c = memberships s g' c)"
proof -
  obtain f where f: "requestedFilter operation (memberships s g endpoint) source = Inr f"
    and t: "memberships t = (memberships s)(g := (memberships s g)(endpoint := changedFilter operation source f))"
    using membershipChange_ok [OF reach_dispatch_ok [OF assms(1)] assms(3)] by blast
  have "(case changedFilter operation source f of None \<Rightarrow> False | Some f \<Rightarrow> accepts f x) =
      (let admitted = (case memberships s g endpoint of None \<Rightarrow> False | Some f \<Rightarrow> accepts f x)
       in case operation of
            multicastJoinAnySource \<Rightarrow> True
          | multicastLeaveGroup \<Rightarrow> False
          | multicastJoinSource \<Rightarrow> admitted \<or> unmapAddr x = source
          | multicastIncludeSource \<Rightarrow> admitted \<or> unmapAddr x = source
          | multicastLeaveSource \<Rightarrow> admitted \<and> unmapAddr x \<noteq> source
          | multicastExcludeSource \<Rightarrow> admitted \<and> unmapAddr x \<noteq> source)"
    using f by (cases operation; cases "memberships s g endpoint")
      (auto simp: requestedFilter_def changedFilter_def accepts_def cloneMulticastFilter_def Let_def split: if_splits)
  then show ?thesis by (simp add: t)
qed

theorem membership_change_effect_witness:
  "\<exists>s t e. multicast_reach s \<and> membershipChange (\<lambda>_ _ _. 0) 0 e multicastJoinAnySource (Addr4 0xe0000009) AddrZero s = Inr t \<and>
     (case memberships t (Addr4 0xe0000009) e of None \<Rightarrow> False | Some f \<Rightarrow> accepts f (Addr4 7))"
proof -
  let ?k = "\<lparr>sk_closed = False, sk_network = undefined, sk_multicast = None, sk_multicastSeed = None, sk_flowLabelSecret = [], sk_fragments = undefined\<rparr>"
  let ?e = "\<lparr>me_id = 0, me_kind = UDPEndpoint, me_dual = False, me_v6 = False, me_local = Addr4 0, me_port = 9, me_protocol = 17, me_remote = (AddrZero, 0)\<rparr>"
  obtain s k where n: "newMulticastState 0 0 ?k = (s, k)" by (cases "newMulticastState 0 0 ?k")
  have g: "ms_groups s = []" using n by (auto simp: newMulticastState_def)
  obtain t where t: "membershipChange (\<lambda>_ _ _. 0) 0 ?e multicastJoinAnySource (Addr4 0xe0000009) AddrZero s = Inr t"
    by (simp add: membershipChange_def g requestedFilter_def multicastInterfaceFilter_def Let_def)
  have r: "multicast_reach s" by (rule multicast_reach.created [OF n])
  have "unmapAddr AddrZero = AddrZero" by simp
  from membership_change_effect [OF r this t, of "Addr4 7" "Addr4 0" ?e] have
    "case memberships t (Addr4 0xe0000009) ?e of None \<Rightarrow> False | Some f \<Rightarrow> accepts f (Addr4 7)" by simp
  then show ?thesis using r t by blast
qed


end
