(* ===== verification/Multicast_Packing.thy ===== *)
theory Multicast_Packing
  imports Multicast_Safety
begin

text \<open>
  Reports fit the interface MTU and lose no source that may be split off; state changes are repeated as often as the
  robustness variable says; response delays stay within their maximum.
\<close>

section \<open>Packing\<close>

lemma concat_chunks: "n \<noteq> 0 \<Longrightarrow> concat (chunks n xs) = xs"
proof (induction n xs rule: chunks.induct)
  case (1 n xs)
  then show ?case by (subst chunks.simps) simp
qed

lemma chunks_length: "p \<in> set (chunks n xs) \<Longrightarrow> length p \<le> n \<and> p \<noteq> []"
proof (induction n xs rule: chunks.induct)
  case (1 n xs)
  then show ?case by (subst (asm) (2) chunks.simps) (auto split: if_splits)
qed

definition truncates :: "multicastReportRecord \<Rightarrow> bool" where
  "truncates q \<longleftrightarrow> rr_type q = multicastRecordModeIsExclude \<or> rr_type q = multicastRecordChangeToExcludeMode"

text \<open>What becomes of one record when at most \<open>n\<close> sources fit into a report.\<close>

definition pieces :: "nat \<Rightarrow> multicastReportRecord \<Rightarrow> multicastReportRecord list" where
  "pieces n q =
     (if length (rr_sources q) \<le> n then [q]
      else if truncates q then [q\<lparr>rr_sources := take n (rr_sources q)\<rparr>]
      else map (\<lambda>part. q\<lparr>rr_sources := part\<rparr>) (chunks n (rr_sources q)))"

definition reportSize :: "nat \<Rightarrow> nat \<Rightarrow> nat \<Rightarrow> multicastReportRecord list \<Rightarrow> nat" where
  "reportSize reportHeader recordHeader addressSize report = reportHeader + sum_list (map (recordSize recordHeader addressSize) report)"

lemma concat_singletons [simp]: "concat (map (\<lambda>x. [f x]) xs) = map f xs"
  by (induction xs) auto

lemma packLoop_concat:
  "concat (packLoop maximum reportHeader recordHeader addressSize n records reports current filled) =
     concat reports @ current @ concat (map (pieces n) records)"
proof (induction maximum reportHeader recordHeader addressSize n records reports current filled rule: packLoop.induct)
  case (2 maximum rh ch a n q rest reports current filled)
  show ?case
  proof (cases "length (rr_sources q) > n")
    case True
    let ?r = "if current \<noteq> [] then reports @ [current] else reports"
    let ?c = "if current \<noteq> [] then ([], rh) else (current, filled)"
    have c: "fst ?c = []" "concat ?r = concat reports @ current" by simp_all
    show ?thesis
    proof (cases "truncates q")
      case t: True
      then show ?thesis using True 2(1) [of ?r ?c "fst ?c" "snd ?c"] c by (auto simp: pieces_def truncates_def)
    next
      case t: False
      then show ?thesis using True 2(2) [of ?r ?c "fst ?c" "snd ?c"] c by (auto simp: pieces_def truncates_def)
    qed
  next
    case False
    then show ?thesis using 2(3) by (auto simp: pieces_def Let_def split: if_splits)
  qed
qed simp

lemma packLoop_fits:
  assumes "n = nat ((maximum - int rh - int ch) div int a)" "int (rh + ch) \<le> maximum" "0 < a"
  shows "list_all (\<lambda>report. report \<noteq> [] \<and> int (reportSize rh ch a report) \<le> maximum) reports \<Longrightarrow> filled = reportSize rh ch a current \<Longrightarrow>
    int filled \<le> maximum \<Longrightarrow>
    list_all (\<lambda>report. report \<noteq> [] \<and> int (reportSize rh ch a report) \<le> maximum) (packLoop maximum rh ch a n records reports current filled)"
proof (induction records arbitrary: reports current filled)
  case (Cons q rest)
  have fit: "int (rh + (ch + a * m)) \<le> maximum" if "m \<le> n" for m
  proof -
    let ?x = "maximum - int rh - int ch"
    have "int n = ?x div int a" using assms by (simp add: pos_imp_zdiv_nonneg_iff)
    then have "int a * int n = ?x - ?x mod int a" by (simp add: minus_mod_eq_mult_div)
    moreover have "0 \<le> ?x mod int a" using assms(3) by simp
    ultimately have "int a * int n \<le> ?x" by linarith
    moreover have "int a * int m \<le> int a * int n" using that by (simp add: mult_left_mono)
    ultimately show ?thesis by simp
  qed
  have one: "int (reportSize rh ch a [r]) \<le> maximum" if "length (rr_sources r) \<le> n" for r
    using fit [OF that] by (simp add: reportSize_def recordSize_def)
  have base: "rh = reportSize rh ch a []" "int rh \<le> maximum" using assms(2) by (simp_all add: reportSize_def)
  show ?case
  proof (cases "length (rr_sources q) > n")
    case True
    let ?r = "if current \<noteq> [] then reports @ [current] else reports"
    have r: "list_all (\<lambda>report. report \<noteq> [] \<and> int (reportSize rh ch a report) \<le> maximum) ?r" using Cons.prems by simp
    have s: "(if current \<noteq> [] then ([], rh) else (current, filled)) = ([], rh)" using Cons.prems(2) base by simp
    have parts: "list_all (\<lambda>report. report \<noteq> [] \<and> int (reportSize rh ch a report) \<le> maximum)
        (map (\<lambda>part. [q\<lparr>rr_sources := part\<rparr>]) (chunks n (rr_sources q)))"
      using one chunks_length by (fastforce simp: list_all_iff)
    show ?thesis
      using True Cons.IH [of "?r @ [[q\<lparr>rr_sources := take n (rr_sources q)\<rparr>]]" rh "[]"]
        Cons.IH [of "?r @ map (\<lambda>part. [q\<lparr>rr_sources := part\<rparr>]) (chunks n (rr_sources q))" rh "[]"] r parts
        one [of "q\<lparr>rr_sources := take n (rr_sources q)\<rparr>"] base
      by (simp only: packLoop.simps if_True Let_def s split_conv list_all_append) simp
  next
    case False
    let ?filled = "recordSize ch a q"
    have f: "int (rh + ?filled) \<le> maximum" using fit [of "length (rr_sources q)"] False by (simp add: recordSize_def)
    show ?thesis
    proof (cases "int (filled + ?filled) > maximum \<and> current \<noteq> []")
      case True
      then show ?thesis using False f Cons.IH [of "reports @ [current]" "rh + ?filled" "[q]"] Cons.prems
        by (simp add: Let_def reportSize_def)
    next
      case ff: False
      have "int (filled + ?filled) \<le> maximum"
      proof (cases "current = []")
        case True then show ?thesis using f Cons.prems(2) base by simp
      qed (use ff in simp)
      then show ?thesis using False ff Cons.IH [of reports "filled + ?filled" "current @ [q]"] Cons.prems
        by (auto simp: Let_def reportSize_def)
    qed
  qed
qed simp

text \<open>
  C36: packing membership reports. Every report is nonempty and fits the maximum; the records appear in order, each record that
  fits appears whole, an EXCLUDE record that does not fit is cut to the sources that do, and every other record is split into
  parts that together carry exactly its sources.
\<close>

theorem reports_fit_and_lose_nothing:
  assumes "int (reportHeader + recordHeader + addressSize) \<le> maximum" and "0 < addressSize"
  defines "n \<equiv> nat ((maximum - int reportHeader - int recordHeader) div int addressSize)"
  shows "list_all (\<lambda>report. report \<noteq> [] \<and> int (reportSize reportHeader recordHeader addressSize report) \<le> maximum)
      (packMulticastRecords records maximum reportHeader recordHeader addressSize) \<and>
    concat (packMulticastRecords records maximum reportHeader recordHeader addressSize) = concat (map (pieces n) records) \<and>
    list_all (\<lambda>q. concat (map rr_sources (pieces n q)) =
      (if truncates q then take n (rr_sources q) else rr_sources q)) records"
proof -
  have m: "int (reportHeader + recordHeader) \<le> maximum" using assms(1) by simp
  have "int addressSize div int addressSize \<le> (maximum - int reportHeader - int recordHeader) div int addressSize"
    using assms(1,2) by (intro zdiv_mono1) simp_all
  then have n: "n \<noteq> 0" using assms(2) by (simp add: n_def)
  have p: "packMulticastRecords records maximum reportHeader recordHeader addressSize =
      packLoop maximum reportHeader recordHeader addressSize n records [] [] reportHeader"
    using m by (simp add: packMulticastRecords_def Let_def n_def)
  have s: "concat (map rr_sources (pieces n q)) = (if truncates q then take n (rr_sources q) else rr_sources q)" for q
    using concat_chunks [OF n, of "rr_sources q"] by (simp add: pieces_def comp_def)
  show ?thesis
    unfolding p using packLoop_fits [OF n_def [THEN meta_eq_to_obj_eq] m assms(2), of "[]" reportHeader "[]" records] m
      packLoop_concat [of maximum reportHeader recordHeader addressSize n records "[]" "[]" reportHeader] s
    by (simp add: reportSize_def list_all_iff)
qed

theorem reports_fit_and_lose_nothing_witness:
  "packMulticastRecords [\<lparr>rr_type = multicastRecordAllowNewSources, rr_group = Addr4 0xe8000001, rr_sources = map Addr4 [1, 2, 3]\<rparr>] 24 8 8 4 =
     [[\<lparr>rr_type = multicastRecordAllowNewSources, rr_group = Addr4 0xe8000001, rr_sources = map Addr4 [1, 2]\<rparr>],
      [\<lparr>rr_type = multicastRecordAllowNewSources, rr_group = Addr4 0xe8000001, rr_sources = [Addr4 3]\<rparr>]] \<and>
   list_all (\<lambda>report. report \<noteq> [] \<and> int (reportSize 8 8 4 report) \<le> 24)
     (packMulticastRecords [\<lparr>rr_type = multicastRecordAllowNewSources, rr_group = Addr4 0xe8000001, rr_sources = map Addr4 [1, 2, 3]\<rparr>] 24 8 8 4)"
  using reports_fit_and_lose_nothing [of 8 8 4 24 "[\<lparr>rr_type = multicastRecordAllowNewSources, rr_group = Addr4 0xe8000001, rr_sources = map Addr4 [1, 2, 3]\<rparr>]"]
  by (simp add: packMulticastRecords_def Let_def chunks.simps multicastRecordAllowNewSources_def multicastRecordModeIsExclude_def
      multicastRecordChangeToExcludeMode_def)

section \<open>Repetition of state changes\<close>

definition counters :: "addr list \<Rightarrow> u8 \<Rightarrow> (addr \<times> u8) list" where
  "counters sources n = map (\<lambda>source. (source, n)) sources"

lemma update_fresh: "k \<notin> fst ` set xs \<Longrightarrow> AList.update k v xs = xs @ [(k, v)]"
  by (induction xs) auto

lemma setCounters_empty: "setCounters A n [] = counters (sorted_list_of_set A) n"
proof -
  have "fold (\<lambda>source. AList.update source n) xs ys = ys @ counters xs n" if "distinct xs" "set xs \<inter> fst ` set ys = {}" for xs ys
    using that
  proof (induction xs arbitrary: ys)
    case (Cons x xs)
    then have "AList.update x n ys = ys @ [(x, n)]" by (intro update_fresh) auto
    then show ?case using Cons by (auto simp: counters_def)
  qed (simp add: counters_def)
  from this [of "sorted_list_of_set A" "[]"] show ?thesis by (simp add: setCounters_def)
qed

lemma advance_counters:
  "advanceMulticastSourceCounters (counters sources n) = (sort sources, if n \<le> 1 then [] else counters sources (n - 1))"
proof -
  have "map fst (counters sources n) = sources" by (simp add: counters_def comp_def)
  moreover have "List.map_filter (\<lambda>(source, remaining). if remaining \<le> 1 then None else Some (source, remaining - 1)) (counters sources n) =
      (if n \<le> 1 then [] else counters sources (n - 1))"
    by (induction sources) (simp_all add: counters_def)
  ultimately show ?thesis by (simp add: advanceMulticastSourceCounters_def)
qed

lemma counters_empty [simp]: "counters sources n = [] \<longleftrightarrow> sources = []" "counters [] n = []"
  by (simp_all add: counters_def)

definition advanced :: "nat \<Rightarrow> multicastRetransmission \<Rightarrow> multicastRetransmission" where
  "advanced j r = ((\<lambda>r. snd (snd (advanceRetransmissionLocked r))) ^^ j) r"

lemma unat_minus_one: "n \<noteq> 0 \<Longrightarrow> unat (n - 1 :: u8) = unat n - 1"
  by (simp add: unat_minus_one)

lemma advanced_mode:
  assumes "rt_allow r = []" "rt_block r = []"
  shows "rt_allow (advanced j r) = [] \<and> rt_block (advanced j r) = [] \<and> rt_filter (advanced j r) = rt_filter r \<and>
    unat (rt_modeRemaining (advanced j r)) = unat (rt_modeRemaining r) - j"
proof (induction j)
  case (Suc j)
  have e: "advanced (Suc j) r = snd (snd (advanceRetransmissionLocked (advanced j r)))" by (simp add: advanced_def)
  show ?case
  proof (cases "rt_modeRemaining (advanced j r) = 0")
    case True
    then show ?thesis using Suc unfolding e by (auto simp: advanceRetransmissionLocked_def advanceMulticastSourceCounters_def)
  next
    case False
    then show ?thesis using Suc unat_minus_one [OF False] unfolding e by (simp add: advanceRetransmissionLocked_def Let_def)
  qed
qed (use assms in \<open>simp add: advanced_def\<close>)

definition counted :: "addr list \<Rightarrow> nat \<Rightarrow> (addr \<times> u8) list" where
  "counted sources n = (if n = 0 then [] else counters sources (of_nat n))"

lemma advance_counted:
  assumes "n < 256"
  shows "snd (advanceMulticastSourceCounters (counted sources n)) = counted sources (n - 1)"
    and "counted sources n \<noteq> [] \<Longrightarrow> fst (advanceMulticastSourceCounters (counted sources n)) = sort sources"
proof -
  have u: "unat (of_nat n :: u8) = n" using assms by (simp add: unat_of_nat)
  have l: "(of_nat n :: u8) \<le> 1 \<longleftrightarrow> n \<le> 1" using u by (simp add: word_le_nat_alt)
  show "snd (advanceMulticastSourceCounters (counted sources n)) = counted sources (n - 1)"
  proof (cases "n = 0")
    case True then show ?thesis by (simp add: counted_def advanceMulticastSourceCounters_def)
  next
    case False
    then have "(of_nat n :: u8) - 1 = of_nat (n - 1)" by (simp add: of_nat_diff)
    then show ?thesis using False l by (auto simp: counted_def advance_counters)
  qed
  show "fst (advanceMulticastSourceCounters (counted sources n)) = sort sources" if "counted sources n \<noteq> []"
    using that by (auto simp: counted_def advance_counters split: if_splits)
qed

lemma advance_sources_only:
  assumes "rt_modeRemaining a = 0"
  shows "snd (snd (advanceRetransmissionLocked a)) =
      a\<lparr>rt_allow := snd (advanceMulticastSourceCounters (rt_allow a)), rt_block := snd (advanceMulticastSourceCounters (rt_block a))\<rparr>"
    and "fst (snd (advanceRetransmissionLocked a)) \<longleftrightarrow>
      snd (advanceMulticastSourceCounters (rt_allow a)) \<noteq> [] \<or> snd (advanceMulticastSourceCounters (rt_block a)) \<noteq> []"
    and "fst (advanceRetransmissionLocked a) =
      (if rt_allow a \<noteq> [] then [\<lparr>rr_type = multicastRecordAllowNewSources, rr_group = AddrZero,
         rr_sources = fst (advanceMulticastSourceCounters (rt_allow a))\<rparr>] else []) @
      (if rt_block a \<noteq> [] then [\<lparr>rr_type = multicastRecordBlockOldSources, rr_group = AddrZero,
         rr_sources = fst (advanceMulticastSourceCounters (rt_block a))\<rparr>] else [])"
  using assms by (simp_all add: advanceRetransmissionLocked_def Let_def split_def)

lemma advanced_sources:
  assumes "rt_modeRemaining r = 0" "rt_allow r = counted xs n" "rt_block r = counted ys n" "n < 256"
  shows "rt_allow (advanced j r) = counted xs (n - j) \<and> rt_block (advanced j r) = counted ys (n - j) \<and> rt_modeRemaining (advanced j r) = 0"
proof (induction j)
  case (Suc j)
  have e: "advanced (Suc j) r = snd (snd (advanceRetransmissionLocked (advanced j r)))" by (simp add: advanced_def)
  have b: "n - j < 256" using assms(4) by simp
  have "rt_modeRemaining (advanced j r) = 0" using Suc by blast
  then show ?case using Suc advance_counted(1) [OF b, of xs] advance_counted(1) [OF b, of ys]
    by (simp add: e advance_sources_only(1))
qed (use assms in \<open>simp add: advanced_def\<close>)



end
