(* ===== verification/Icmp_Message.thy ===== *)
theory Icmp_Message
  imports Control
begin

text \<open>
  ICMP messages, \<^verbatim>\<open>src/icmp.go\<close>: the message value with its Echo forms and its wire encoding, the extension objects of RFC 4884, the
  quoted packet of an error, and the two directions of the error codec. An outer \<open>None\<close> is an index panic.
\<close>

section \<open>Types and codes\<close>

definition ICMPCodeNone :: u8 where "ICMPCodeNone = 0"
definition ICMPv4TypeEchoReply :: u8 where "ICMPv4TypeEchoReply = 0"
definition ICMPv4TypeEchoRequest :: u8 where "ICMPv4TypeEchoRequest = 8"
definition ICMPv6TypeEchoRequest :: u8 where "ICMPv6TypeEchoRequest = 128"
definition ICMPv6TypeEchoReply :: u8 where "ICMPv6TypeEchoReply = 129"
definition ICMPv4DestinationUnreachableCodeProtocol :: u8 where "ICMPv4DestinationUnreachableCodeProtocol = 2"
definition ICMPv4DestinationUnreachableCodePort :: u8 where "ICMPv4DestinationUnreachableCodePort = 3"
definition ICMPv4DestinationUnreachableCodeCommunicationAdministrativelyProhibited :: u8 where
  "ICMPv4DestinationUnreachableCodeCommunicationAdministrativelyProhibited = 13"
definition ICMPv4DestinationUnreachableCodePrecedenceCutoff :: u8 where "ICMPv4DestinationUnreachableCodePrecedenceCutoff = 15"
definition ICMPv4TimeExceededCodeFragmentReassembly :: u8 where "ICMPv4TimeExceededCodeFragmentReassembly = 1"
definition ICMPv4ParameterProblemCodeBadLength :: u8 where "ICMPv4ParameterProblemCodeBadLength = 2"
definition ICMPv6DestinationUnreachableCodeAdministrativelyProhibited :: u8 where
  "ICMPv6DestinationUnreachableCodeAdministrativelyProhibited = 1"
definition ICMPv6DestinationUnreachableCodePort :: u8 where "ICMPv6DestinationUnreachableCodePort = 4"
definition ICMPv6DestinationUnreachableCodeHeadersTooLong :: u8 where "ICMPv6DestinationUnreachableCodeHeadersTooLong = 8"
definition ICMPv6DestinationUnreachableCodePRoute :: u8 where "ICMPv6DestinationUnreachableCodePRoute = 9"
definition ICMPv6TimeExceededCodeFragmentReassembly :: u8 where "ICMPv6TimeExceededCodeFragmentReassembly = 1"
definition ICMPv6ParameterProblemCodeUnrecognizedNextHeader :: u8 where "ICMPv6ParameterProblemCodeUnrecognizedNextHeader = 1"
definition ICMPv6ParameterProblemCodeOptionTooBig :: u8 where "ICMPv6ParameterProblemCodeOptionTooBig = 10"
definition ICMPExtensionClassExtendedInformation :: u8 where "ICMPExtensionClassExtendedInformation = 4"
definition ICMPExtensionExtendedInformationTypePointer :: u8 where "ICMPExtensionExtendedInformationTypePointer = 1"
definition icmpExtensionVersion :: u8 where "icmpExtensionVersion = 2"
definition icmpExtensionHeaderSize :: nat where "icmpExtensionHeaderSize = 4"
definition icmpExtensionObjectHeaderSize :: nat where "icmpExtensionObjectHeaderSize = 4"
definition icmpExtensionMinimumQuoteSize :: nat where "icmpExtensionMinimumQuoteSize = 128"
definition maximumICMPExtensionDataSize :: nat where "maximumICMPExtensionDataSize = 65535 - 8 - 128 - 4"

lemmas icmp_sizes = icmpExtensionHeaderSize_def icmpExtensionObjectHeaderSize_def icmpExtensionMinimumQuoteSize_def maximumICMPExtensionDataSize_def

section \<open>Messages\<close>

record icmpMessage =
  im_source :: addr
  im_destination :: addr
  im_type :: u8
  im_code :: u8
  im_body :: bytes

definition normalizeICMPAddresses :: "addr \<Rightarrow> addr \<Rightarrow> (addr \<times> addr \<times> u8) option" where
  "normalizeICMPAddresses source destination =
     (if addrZone source \<noteq> [] \<or> addrZone destination \<noteq> [] then None
      else
        let source = unmapAddr source; destination = unmapAddr destination
        in if \<not> isValidAddr source \<or> \<not> isValidAddr destination \<or> is4 source \<noteq> is4 destination then None
           else if is4 source then Some (source, destination, ProtocolICMPv4)
           else Some (source, destination, ProtocolICMPv6))"

text \<open>\<open>Some True\<close> is a request, \<open>Some False\<close> a reply.\<close>

definition classifyICMPEcho :: "u8 \<Rightarrow> u8 \<Rightarrow> u8 \<Rightarrow> nat \<Rightarrow> bool option" where
  "classifyICMPEcho protocol messageType code bodyLength =
     (if bodyLength < 4 \<or> code \<noteq> ICMPCodeNone then None
      else if protocol = ProtocolICMPv4 then
        if messageType = ICMPv4TypeEchoRequest then Some True
        else if messageType = ICMPv4TypeEchoReply then Some False else None
      else if protocol = ProtocolICMPv6 then
        if messageType = ICMPv6TypeEchoRequest then Some True
        else if messageType = ICMPv6TypeEchoReply then Some False else None
      else None)"

definition icmpEchoMessageType :: "bool \<Rightarrow> bool \<Rightarrow> u8" where
  "icmpEchoMessageType ipv6 request =
     (if ipv6 then if request then ICMPv6TypeEchoRequest else ICMPv6TypeEchoReply
      else if request then ICMPv4TypeEchoRequest else ICMPv4TypeEchoReply)"

definition echoKind :: "icmpMessage \<Rightarrow> bool option" where
  "echoKind m =
     (case normalizeICMPAddresses (im_source m) (im_destination m) of
        None \<Rightarrow> None
      | Some (_, _, protocol) \<Rightarrow> classifyICMPEcho protocol (im_type m) (im_code m) (length (im_body m)))"

definition IsEchoRequest :: "icmpMessage \<Rightarrow> bool" where "IsEchoRequest m \<longleftrightarrow> echoKind m = Some True"
definition IsEchoReply :: "icmpMessage \<Rightarrow> bool" where "IsEchoReply m \<longleftrightarrow> echoKind m = Some False"

definition Echo :: "icmpMessage \<Rightarrow> (u16 \<times> u16 \<times> bytes) option option" where
  "Echo m =
     (if echoKind m = None then Some None
      else do {
        identifier \<leftarrow> read16 (im_body m) 0;
        sequence \<leftarrow> read16 (im_body m) 2;
        payload \<leftarrow> go_slice (im_body m) 4 (length (im_body m));
        Some (Some (identifier, sequence, payload)) })"

definition setEcho :: "bool \<Rightarrow> u16 \<Rightarrow> u16 \<Rightarrow> bytes \<Rightarrow> icmpMessage \<Rightarrow> errno + icmpMessage" where
  "setEcho request identifier sequence payload m =
     (case normalizeICMPAddresses (im_source m) (im_destination m) of
        None \<Rightarrow> Inl EINVAL
      | Some (_, _, protocol) \<Rightarrow>
          if length payload > 65535 - 8 then Inl EMSGSIZE
          else Inr (m\<lparr>im_type := icmpEchoMessageType (protocol = ProtocolICMPv6) request, im_code := ICMPCodeNone,
                      im_body := be_put16 identifier @ be_put16 sequence @ payload\<rparr>))"

definition SetEchoRequest :: "u16 \<Rightarrow> u16 \<Rightarrow> bytes \<Rightarrow> icmpMessage \<Rightarrow> errno + icmpMessage" where
  "SetEchoRequest = setEcho True"

definition SetEchoReply :: "u16 \<Rightarrow> u16 \<Rightarrow> bytes \<Rightarrow> icmpMessage \<Rightarrow> errno + icmpMessage" where
  "SetEchoReply = setEcho False"

definition icmpWireLayout :: "icmpMessage \<Rightarrow> errno + icmpMessage \<times> nat" where
  "icmpWireLayout m =
     (case normalizeICMPAddresses (im_source m) (im_destination m) of
        None \<Rightarrow> Inl EINVAL
      | Some (source, destination, _) \<Rightarrow>
          let m = m\<lparr>im_source := source, im_destination := destination\<rparr>
          in if length (im_body m) < 4 then Inl EINVAL
             else if length (im_body m) > 65535 - 4 then Inl EMSGSIZE
             else Inr (m, 4 + length (im_body m)))"

definition EchoReply :: "addr \<Rightarrow> icmpMessage \<Rightarrow> errno + icmpMessage" where
  "EchoReply source m =
     (case icmpWireLayout m of
        Inl e \<Rightarrow> Inl e
      | Inr (normalized, _) \<Rightarrow>
          if \<not> IsEchoRequest normalized \<or> addrZone source \<noteq> [] then Inl EINVAL
          else
            let source = unmapAddr source
            in if \<not> isValidAddr source \<or> is4 source \<noteq> is4 (im_source normalized) then Inl EINVAL
               else Inr (normalized\<lparr>im_destination := im_source normalized, im_source := source,
                                     im_type := icmpEchoMessageType (is6 source) False\<rparr>))"

text \<open>The bytes written at the end of the destination.\<close>

definition marshalPublicICMPMessage :: "bool \<Rightarrow> icmpMessage \<Rightarrow> bytes" where
  "marshalPublicICMPMessage big m =
     (let message = [im_type m, im_code m, 0, 0] @ im_body m;
          value = (if is6 (im_source m) then transportChecksum big (im_source m) (im_destination m) ProtocolICMPv6 message
                   else checksum big message)
      in [im_type m, im_code m] @ be_put16 value @ im_body m)"

definition icmpAppendBinary :: "bool \<Rightarrow> icmpMessage \<Rightarrow> bytes \<Rightarrow> errno + bytes" where
  "icmpAppendBinary big m dst =
     (case icmpWireLayout m of
        Inl e \<Rightarrow> Inl e
      | Inr (normalized, _) \<Rightarrow> Inr (dst @ marshalPublicICMPMessage big normalized))"

definition packetICMPMessage :: "bool \<Rightarrow> ipPacketPub \<Rightarrow> (errno + icmpMessage) option" where
  "packetICMPMessage big p = do {
     let protocol = (if is6 (unmapAddr (pk_source p)) then ProtocolICMPv6 else ProtocolICMPv4);
     r \<leftarrow> upperLayerForProtocol p protocol;
     case r of
       Inl e \<Rightarrow> Some (Inl e)
     | Inr (icmp, pseudoHeaderSafe) \<Rightarrow>
         if protocol = ProtocolICMPv6 \<and> \<not> pseudoHeaderSafe then Some (Inl EPROTONOSUPPORT)
         else if length icmp < 8 then Some (Inl EINVAL)
         else
           let valid = (if protocol = ProtocolICMPv6 then transportChecksum big (pk_source p) (pk_destination p) ProtocolICMPv6 icmp = 0
                        else checksum big icmp = 0)
           in if \<not> valid then Some (Inl EINVAL)
              else do {
                type \<leftarrow> go_index icmp 0;
                code \<leftarrow> go_index icmp 1;
                body \<leftarrow> go_slice icmp 4 (length icmp);
                Some (Inr \<lparr>im_source = unmapAddr (pk_source p), im_destination = unmapAddr (pk_destination p),
                           im_type = type, im_code = code, im_body = body\<rparr>) } }"

section \<open>Extension objects\<close>

record icmpExtensionObject =
  eo_class :: u8
  eo_type :: u8
  eo_data :: bytes

definition objectPointer :: "icmpExtensionObject \<Rightarrow> u32 option option" where
  "objectPointer object =
     (if eo_class object \<noteq> ICMPExtensionClassExtendedInformation \<or> eo_type object \<noteq> ICMPExtensionExtendedInformationTypePointer \<or>
         length (eo_data object) \<noteq> 4 then Some None
      else map_option Some (be_get32 (eo_data object)))"

definition setPointer :: "u32 \<Rightarrow> icmpExtensionObject \<Rightarrow> icmpExtensionObject" where
  "setPointer pointer object =
     \<lparr>eo_class = ICMPExtensionClassExtendedInformation, eo_type = ICMPExtensionExtendedInformationTypePointer,
      eo_data = be_put32 pointer\<rparr>"

text \<open>One step of \<open>icmpExtensionObjectCursor\<close>: the end of a valid sequence, malformed framing, or an object and the rest.\<close>

datatype cursorStep = EndOfObjects | MalformedObject | NextObject icmpExtensionObject bytes

definition nextObject :: "bytes \<Rightarrow> cursorStep option" where
  "nextObject remaining =
     (if length remaining = 0 then Some EndOfObjects
      else if length remaining < icmpExtensionObjectHeaderSize then Some MalformedObject
      else do {
        l \<leftarrow> read16 remaining 0;
        let len = unat l;
        if len < icmpExtensionObjectHeaderSize \<or> len mod 4 \<noteq> 0 \<or> len > length remaining then Some MalformedObject
        else do {
          kind \<leftarrow> go_index remaining 2;
          type \<leftarrow> go_index remaining 3;
          data \<leftarrow> go_slice remaining icmpExtensionObjectHeaderSize len;
          following \<leftarrow> go_slice remaining len (length remaining);
          Some (NextObject \<lparr>eo_class = kind, eo_type = type, eo_data = data\<rparr> following) } })"

lemma nextObject_shorter: "nextObject bs = Some (NextObject object following) \<Longrightarrow> length following < length bs"
  by (auto simp: nextObject_def Let_def go_slice_def icmp_sizes Option.bind_eq_Some_conv split: if_splits)

text \<open>\<open>validateICMPExtensionObjects\<close>: the pair of \<open>hasPointer\<close> and \<open>valid\<close>.\<close>

function validateObjects :: "bytes \<Rightarrow> nat \<Rightarrow> bool \<Rightarrow> (bool \<times> bool) option" where
  "validateObjects remaining count hasPointer =
     (case nextObject remaining of
        None \<Rightarrow> None
      | Some MalformedObject \<Rightarrow> Some (False, False)
      | Some EndOfObjects \<Rightarrow> Some (hasPointer, count \<noteq> 0)
      | Some (NextObject object following) \<Rightarrow> do {
          pointer \<leftarrow> objectPointer object;
          validateObjects following (count + 1) (hasPointer \<or> pointer \<noteq> None) })"
  by pat_completeness auto
termination by (relation "measure (\<lambda>(remaining, _, _). length remaining)") (auto dest: nextObject_shorter)

declare validateObjects.simps [simp del]

definition validateICMPExtensionObjects :: "bytes \<Rightarrow> (bool \<times> bool) option" where
  "validateICMPExtensionObjects encoded = validateObjects encoded 0 False"

function objectsFrom :: "bytes \<Rightarrow> icmpExtensionObject list \<Rightarrow> (errno + icmpExtensionObject list) option" where
  "objectsFrom remaining objects =
     (case nextObject remaining of
        None \<Rightarrow> None
      | Some MalformedObject \<Rightarrow> Some (Inl EINVAL)
      | Some EndOfObjects \<Rightarrow> Some (Inr objects)
      | Some (NextObject object following) \<Rightarrow> objectsFrom following (objects @ [object]))"
  by pat_completeness auto
termination by (relation "measure (\<lambda>(remaining, _). length remaining)") (auto dest: nextObject_shorter)

declare objectsFrom.simps [simp del]

definition ExtensionObjects :: "icmpError \<Rightarrow> (errno + icmpExtensionObject list) option" where
  "ExtensionObjects e = (if length (ie_extensions e) = 0 then Some (Inr []) else objectsFrom (ie_extensions e) [])"

fun sizeObjects :: "icmpExtensionObject list \<Rightarrow> int \<Rightarrow> errno + int" where
  "sizeObjects [] sz = Inr sz"
| "sizeObjects (object # rest) sz =
     (if length (eo_data object) > 2 ^ 16 - 1 - icmpExtensionObjectHeaderSize then Inl EMSGSIZE
      else if length (eo_data object) mod 4 \<noteq> 0 then Inl EINVAL
      else
        let len = icmpExtensionObjectHeaderSize + length (eo_data object)
        in if sz > int maximumICMPExtensionDataSize - int len then Inl EMSGSIZE
           else sizeObjects rest (sz + int len))"

definition encodeObject :: "icmpExtensionObject \<Rightarrow> bytes" where
  "encodeObject object =
     be_put16 (of_nat (icmpExtensionObjectHeaderSize + length (eo_data object))) @ [eo_class object, eo_type object] @ eo_data object"

definition SetExtensionObjects :: "icmpExtensionObject list \<Rightarrow> icmpError \<Rightarrow> errno + icmpError" where
  "SetExtensionObjects objects e =
     (if length objects = 0 then Inr (e\<lparr>ie_extensions := []\<rparr>)
      else case sizeObjects objects 0 of
        Inl err \<Rightarrow> Inl err
      | Inr _ \<Rightarrow> Inr (e\<lparr>ie_extensions := concat (map encodeObject objects)\<rparr>))"

end
