(* ===== verification/Icmp_Error.thy ===== *)
theory Icmp_Error
  imports Icmp_Message
begin

text \<open>
  ICMP errors, \<^verbatim>\<open>src/icmp.go\<close>: the quoted packet, the extension structure that follows it, the construction of an error message
  and its two parsers.
\<close>

section \<open>The quoted packet\<close>

definition validICMPErrorCode :: "u8 \<Rightarrow> u8 \<Rightarrow> u8 \<Rightarrow> bool" where
  "validICMPErrorCode protocol messageType code =
     (if protocol = ProtocolICMPv4 then
        if messageType = ICMPv4TypeDestinationUnreachable then code \<le> ICMPv4DestinationUnreachableCodePrecedenceCutoff
        else if messageType = ICMPv4TypeTimeExceeded then code \<le> ICMPv4TimeExceededCodeFragmentReassembly
        else if messageType = ICMPv4TypeParameterProblem then code \<le> ICMPv4ParameterProblemCodeBadLength
        else False
      else if protocol = ProtocolICMPv6 then
        if messageType = ICMPv6TypeDestinationUnreachable then code \<le> ICMPv6DestinationUnreachableCodePRoute
        else if messageType = ICMPv6TypePacketTooBig then code = ICMPCodeNone
        else if messageType = ICMPv6TypeTimeExceeded then code \<le> ICMPv6TimeExceededCodeFragmentReassembly
        else if messageType = ICMPv6TypeParameterProblem then code \<le> ICMPv6ParameterProblemCodeOptionTooBig
        else False
      else False)"

definition IsError :: "icmpMessage \<Rightarrow> bool" where
  "IsError m =
     (case normalizeICMPAddresses (im_source m) (im_destination m) of
        None \<Rightarrow> False
      | Some (_, _, protocol) \<Rightarrow> validICMPErrorCode protocol (im_type m) (im_code m))"

fun nextPlateau :: "u32 list \<Rightarrow> u32 \<Rightarrow> u32" where
  "nextPlateau [] whole = 68"
| "nextPlateau (plateau # rest) whole = (if plateau < whole then plateau else nextPlateau rest whole)"

definition legacyIPv4PathMTU :: "bytes \<Rightarrow> u32 option" where
  "legacyIPv4PathMTU quoted =
     (if length quoted < 20 then Some 0
      else do {
        b0 \<leftarrow> go_index quoted 0;
        if drop_bit 4 b0 \<noteq> 4 then Some 0
        else do {
          t \<leftarrow> read16 quoted 2;
          let whole = (ucast t :: u32);
          let headerSize = ucast (b0 AND 0x0f) * (4 :: u32);
          if headerSize < 20 \<or> whole < headerSize then Some 0
          else Some (nextPlateau [65535, 32000, 17914, 8166, 4352, 2002, 1492, 1006, 508, 296, 68] whole) } })"

type_synonym quoteView = "addr \<times> addr \<times> u8 \<times> bytes"

text \<open>The loop over the extension headers of a quoted IPv6 packet.\<close>

function quotedUpper :: "addr \<Rightarrow> addr \<Rightarrow> bytes \<Rightarrow> u8 \<Rightarrow> nat \<Rightarrow> quoteView option option" where
  "quotedUpper source target payload following offset =
     (if following = ProtocolNoNextHeader then Some (Some (source, target, following, []))
      else if following \<in> {IPv6ExtensionHeaderHopByHop, IPv6ExtensionHeaderRouting, IPv6ExtensionHeaderDestination,
                            IPv6ExtensionHeaderAuthentication} then
        (case ipv6ExtensionHeaderLength following (drop offset payload) of
           None \<Rightarrow> Some None
         | Some len \<Rightarrow> do {
             b \<leftarrow> go_index payload offset;
             quotedUpper source target payload b (offset + len) })
      else if following = IPv6ExtensionHeaderFragment then
        (if length payload < offset + 8 then Some None
         else do {
           header \<leftarrow> go_slice payload offset (offset + 8);
           b \<leftarrow> go_index header 0;
           field \<leftarrow> read16 header 2;
           if field AND 0xfff8 \<noteq> 0 then Some None
           else quotedUpper source target payload b (offset + 8) })
      else do {
        upper \<leftarrow> go_slice payload offset (length payload);
        Some (Some (source, target, following, upper)) })"
  by pat_completeness auto
termination
  by (relation "measure (\<lambda>(_, _, payload, _, offset). length payload - offset)") (auto intro: chain_step chain_step_0)

declare quotedUpper.simps [simp del]

definition quotedIPPayload :: "bytes \<Rightarrow> quoteView option option" where
  "quotedIPPayload packet =
     (if length packet < 1 then Some None
      else do {
        b0 \<leftarrow> go_index packet 0;
        if drop_bit 4 b0 = 4 then
          if length packet < 20 then Some None
          else do {
            let headerSize = unat (b0 AND 0x0f) * 4;
            field \<leftarrow> read16 packet 6;
            if headerSize < 20 \<or> headerSize > length packet \<or> field AND 0x1fff \<noteq> 0 then Some None
            else do {
              source \<leftarrow> go_slice packet 12 16;
              target \<leftarrow> go_slice packet 16 20;
              protocol \<leftarrow> go_index packet 9;
              payload \<leftarrow> go_slice packet headerSize (length packet);
              Some (Some (addrFrom4 source, addrFrom4 target, protocol, payload)) } }
        else if drop_bit 4 b0 = 6 \<and> length packet \<ge> 40 then do {
          s \<leftarrow> go_slice packet 8 24;
          t \<leftarrow> go_slice packet 24 40;
          let source = addrFrom16 s; target = addrFrom16 t in
          if is4In6 source \<or> is4In6 target then Some None
          else do {
            following \<leftarrow> go_index packet 6;
            quotedUpper source target (drop 40 packet) following 0 } }
        else Some None })"

section \<open>The extension structure\<close>

definition icmpErrorFieldKinds :: "u8 \<Rightarrow> u8 \<Rightarrow> u8 \<Rightarrow> bool \<times> bool" where
  "icmpErrorFieldKinds protocol messageType code =
     (protocol = ProtocolICMPv4 \<and> messageType = ICMPv4TypeDestinationUnreachable \<and> code = FragmentationNeeded \<or>
        protocol = ProtocolICMPv6 \<and> messageType = ICMPv6TypePacketTooBig,
      protocol = ProtocolICMPv4 \<and> messageType = ICMPv4TypeParameterProblem \<or>
        protocol = ProtocolICMPv6 \<and> messageType = ICMPv6TypeParameterProblem)"

text \<open>The body has at least four bytes; \<open>copy\<close> stops at its end.\<close>

definition marshalICMPErrorBody :: "bytes \<Rightarrow> u8 \<Rightarrow> u8 \<Rightarrow> u8 \<Rightarrow> u32 \<Rightarrow> u32 \<Rightarrow> bytes \<Rightarrow> bytes" where
  "marshalICMPErrorBody body protocol messageType code mtu pointer quote =
     (let (mtuField, pointerField) = icmpErrorFieldKinds protocol messageType code;
          fields =
            (if mtuField then if protocol = ProtocolICMPv4 then [0, 0] @ be_put16 (ucast mtu) else be_put32 mtu
             else if pointerField then if protocol = ProtocolICMPv4 then [ucast pointer, 0, 0, 0] else be_put32 pointer
             else [0, 0, 0, 0])
      in fields @ take (length body - 4) quote @ drop (4 + length quote) body)"

text \<open>The offset of the length field and its unit.\<close>

definition icmpExtensionLayout :: "u8 \<Rightarrow> u8 \<Rightarrow> (nat \<times> nat) option" where
  "icmpExtensionLayout protocol messageType =
     (if protocol = ProtocolICMPv4 \<and>
         messageType \<in> {ICMPv4TypeDestinationUnreachable, ICMPv4TypeTimeExceeded, ICMPv4TypeParameterProblem} then Some (1, 4)
      else if protocol = ProtocolICMPv6 \<and> messageType \<in> {ICMPv6TypeDestinationUnreachable, ICMPv6TypeTimeExceeded} then Some (0, 8)
      else None)"

definition parseICMPExtensionStructure :: "bool \<Rightarrow> bytes \<Rightarrow> (bytes \<times> bool) option option" where
  "parseICMPExtensionStructure big structure =
     (if length structure < icmpExtensionHeaderSize + icmpExtensionObjectHeaderSize then Some None
      else do {
        b0 \<leftarrow> go_index structure 0;
        if drop_bit 4 b0 \<noteq> icmpExtensionVersion then Some None
        else do {
          c \<leftarrow> read16 structure 2;
          if c \<noteq> 0 \<and> checksum big structure \<noteq> 0 then Some None
          else do {
            objects \<leftarrow> go_slice structure icmpExtensionHeaderSize (length structure);
            v \<leftarrow> validateICMPExtensionObjects objects;
            let (hasPointer, valid) = v;
            if \<not> valid then Some None else Some (Some (objects, hasPointer)) } } })"

definition quotedIPDeclaredLength :: "bytes \<Rightarrow> nat option option" where
  "quotedIPDeclaredLength quote =
     (if length quote = 0 then Some None
      else do {
        b0 \<leftarrow> go_index quote 0;
        if drop_bit 4 b0 = 4 then
          if length quote < 20 then Some None
          else do {
            let headerSize = unat (b0 AND 0x0f) * 4;
            t \<leftarrow> read16 quote 2;
            if headerSize < 20 \<or> unat t < headerSize then Some None else Some (Some (unat t)) }
        else if drop_bit 4 b0 = 6 then
          if length quote < 40 then Some None
          else do {
            p \<leftarrow> read16 quote 4;
            if unat p = 0 then do {
              following \<leftarrow> go_index quote 6;
              if following = IPv6ExtensionHeaderHopByHop then Some None else Some (Some 40) }
            else Some (Some (40 + unat p)) }
        else Some None })"

definition trimICMPExtensionQuote :: "bytes \<Rightarrow> bytes option option" where
  "trimICMPExtensionQuote quote = do {
     d \<leftarrow> quotedIPDeclaredLength quote;
     case d of
       None \<Rightarrow> Some (Some quote)
     | Some declared \<Rightarrow>
         if declared > length quote then Some (Some quote)
         else do {
           padding \<leftarrow> go_slice quote declared (length quote);
           if list_ex (\<lambda>value. value \<noteq> 0) padding then Some None
           else map_option Some (go_slice quote 0 declared) } }"

text \<open>\<open>None\<close> inside stands for a refused body.\<close>

definition splitICMPErrorQuote :: "bool \<Rightarrow> u8 \<Rightarrow> u8 \<Rightarrow> bytes \<Rightarrow> (bytes \<times> bytes \<times> bool) option option" where
  "splitICMPErrorQuote big protocol messageType body =
     (case icmpExtensionLayout protocol messageType of
        None \<Rightarrow> map_option (\<lambda>quote. Some (quote, [], False)) (go_slice body 4 (length body))
      | Some (lengthOffset, unit) \<Rightarrow> do {
          l \<leftarrow> go_index body lengthOffset;
          if l = 0 then map_option (\<lambda>quote. Some (quote, [], False)) (go_slice body 4 (length body))
          else do {
            let paddedLength = unat l * unit;
            if paddedLength < icmpExtensionMinimumQuoteSize \<or>
               length body < 4 + paddedLength + icmpExtensionHeaderSize + icmpExtensionObjectHeaderSize then Some None
            else do {
              structure \<leftarrow> go_slice body (4 + paddedLength) (length body);
              parsed \<leftarrow> parseICMPExtensionStructure big structure;
              case parsed of
                None \<Rightarrow> Some None
              | Some (extensions, hasPointer) \<Rightarrow> do {
                  padded \<leftarrow> go_slice body 4 (4 + paddedLength);
                  trimmed \<leftarrow> trimICMPExtensionQuote padded;
                  Some (map_option (\<lambda>quote. (quote, extensions, hasPointer)) trimmed) } } } })"

definition icmpExtensionQuoteLength :: "u8 \<Rightarrow> u8 \<Rightarrow> bytes \<Rightarrow> (errno + nat) option" where
  "icmpExtensionQuoteLength protocol messageType quote =
     (case icmpExtensionLayout protocol messageType of
        None \<Rightarrow> Some (Inl EINVAL)
      | Some (_, unit) \<Rightarrow> do {
          d \<leftarrow> quotedIPDeclaredLength quote;
          refused \<leftarrow>
            (case d of
               None \<Rightarrow> Some (length quote < icmpExtensionMinimumQuoteSize)
             | Some declared \<Rightarrow>
                 if declared \<le> length quote
                 then map_option (list_ex (\<lambda>value. value \<noteq> 0)) (go_slice quote declared (length quote))
                 else Some (length quote < icmpExtensionMinimumQuoteSize));
          if refused then Some (Inl EINVAL)
          else do {
            let paddedLength = (if length quote < icmpExtensionMinimumQuoteSize then icmpExtensionMinimumQuoteSize else length quote);
            let paddedLength = (paddedLength + unit - 1) div unit * unit;
            if paddedLength div unit > 255 then Some (Inl EMSGSIZE) else Some (Inr paddedLength) } })"

definition marshalICMPExtensionStructure :: "bool \<Rightarrow> bytes \<Rightarrow> bytes" where
  "marshalICMPExtensionStructure big objects =
     (let b0 = push_bit 4 icmpExtensionVersion
      in [b0, 0] @ be_put16 (checksum big ([b0, 0, 0, 0] @ objects)) @ objects)"

section \<open>Errors\<close>

definition quoteInFamily :: "u8 \<Rightarrow> addr \<Rightarrow> addr \<Rightarrow> bool" where
  "quoteInFamily protocol source target \<longleftrightarrow>
     \<not> (protocol = ProtocolICMPv4 \<and> (\<not> is4 source \<or> \<not> is4 target) \<or> protocol = ProtocolICMPv6 \<and> (\<not> is6 source \<or> \<not> is6 target))"

definition headersTooLong :: "u8 \<Rightarrow> u8 \<Rightarrow> u8 \<Rightarrow> bool" where
  "headersTooLong protocol messageType code \<longleftrightarrow>
     protocol = ProtocolICMPv6 \<and> messageType = ICMPv6TypeDestinationUnreachable \<and> code = ICMPv6DestinationUnreachableCodeHeadersTooLong"

text \<open>The body of an error with extensions, once the quote is known to fit.\<close>

definition extendedErrorMessage :: "bool \<Rightarrow> icmpError \<Rightarrow> addr \<Rightarrow> addr \<Rightarrow> u8 \<Rightarrow> (errno + icmpMessage) option" where
  "extendedErrorMessage big e reporter destination protocol =
     (if length (ie_extensions e) > maximumICMPExtensionDataSize then Some (Inl EMSGSIZE)
      else do {
        v \<leftarrow> validateICMPExtensionObjects (ie_extensions e);
        let (hasPointer, validExtensions) = v;
        if \<not> validExtensions \<or> headersTooLong protocol (ie_type e) (ie_code e) \<and> \<not> hasPointer then Some (Inl EINVAL)
        else do {
          padded \<leftarrow> icmpExtensionQuoteLength protocol (ie_type e) (ie_quotedPacket e);
          case padded of
            Inl err \<Rightarrow> Some (Inl err)
          | Inr paddedQuoteLength \<Rightarrow>
              let bodyLength = 4 + paddedQuoteLength + icmpExtensionHeaderSize + length (ie_extensions e)
              in if bodyLength > 65535 - 4 then Some (Inl EMSGSIZE)
                 else do {
                   let body = marshalICMPErrorBody (replicate bodyLength 0) protocol (ie_type e) (ie_code e) (ie_mtu e) (ie_pointer e)
                                (ie_quotedPacket e);
                   (lengthOffset, unit) \<leftarrow> icmpExtensionLayout protocol (ie_type e);
                   let body = body[lengthOffset := of_nat (paddedQuoteLength div unit)];
                   front \<leftarrow> go_slice body 0 (4 + paddedQuoteLength);
                   Some (Inr \<lparr>im_source = reporter, im_destination = destination, im_type = ie_type e, im_code = ie_code e,
                              im_body = front @ marshalICMPExtensionStructure big (ie_extensions e)\<rparr>) } } })"

definition errorICMPMessage :: "bool \<Rightarrow> icmpError \<Rightarrow> addr \<Rightarrow> (errno + icmpMessage) option" where
  "errorICMPMessage big e destination =
     (case normalizeICMPAddresses (ie_reporter e) destination of
        None \<Rightarrow> Some (Inl EINVAL)
      | Some (reporter, destination, protocol) \<Rightarrow>
          if \<not> validICMPErrorCode protocol (ie_type e) (ie_code e) then Some (Inl EINVAL)
          else if length (ie_quotedPacket e) > 65535 - 8 then Some (Inl EMSGSIZE)
          else do {
            q \<leftarrow> quotedIPPayload (ie_quotedPacket e);
            case q of
              None \<Rightarrow> Some (Inl EINVAL)
            | Some (quotedSource, quotedTarget, _, _) \<Rightarrow>
                let (mtuField, pointerField) = icmpErrorFieldKinds protocol (ie_type e) (ie_code e)
                in if \<not> quoteInFamily protocol quotedSource quotedTarget then Some (Inl EINVAL)
                   else if \<not> mtuField \<and> ie_mtu e \<noteq> 0 \<or> \<not> pointerField \<and> ie_pointer e \<noteq> 0 \<or>
                           protocol = ProtocolICMPv4 \<and> mtuField \<and> ie_mtu e > 65535 \<or>
                           protocol = ProtocolICMPv4 \<and> pointerField \<and> ie_pointer e > 255 then Some (Inl EINVAL)
                   else if length (ie_extensions e) = 0 then
                     if headersTooLong protocol (ie_type e) (ie_code e) then Some (Inl EINVAL)
                     else Some (Inr \<lparr>im_source = reporter, im_destination = destination, im_type = ie_type e, im_code = ie_code e,
                                     im_body = marshalICMPErrorBody (replicate (4 + length (ie_quotedPacket e)) 0) protocol (ie_type e)
                                                 (ie_code e) (ie_mtu e) (ie_pointer e) (ie_quotedPacket e)\<rparr>)
                   else extendedErrorMessage big e reporter destination protocol })"

text \<open>The end of \<open>parseICMPErrorFields\<close>: the ports of the quoted packet and the fields of the body.\<close>

definition quotedPorts :: "icmpError \<Rightarrow> icmpError option" where
  "quotedPorts e =
     (if ie_quotedProtocol e \<in> {ProtocolTCP, ProtocolUDP} \<and> length (ie_quotedPayload e) \<ge> 4 then do {
        s \<leftarrow> read16 (ie_quotedPayload e) 0;
        t \<leftarrow> read16 (ie_quotedPayload e) 2;
        Some (e\<lparr>ie_quotedSourcePort := s, ie_quotedTargetPort := t\<rparr>) }
      else Some e)"

definition bodyFields :: "u8 \<Rightarrow> bytes \<Rightarrow> icmpError \<Rightarrow> icmpError option" where
  "bodyFields protocol body e =
     (if protocol = ProtocolICMPv4 then do {
        e \<leftarrow> (if ie_type e = ICMPv4TypeDestinationUnreachable \<and> ie_code e = FragmentationNeeded then do {
               m \<leftarrow> read16 body 2;
               let mtu = (ucast m :: u32);
               mtu \<leftarrow> (if mtu = 0 then legacyIPv4PathMTU (ie_quotedPacket e) else Some mtu);
               Some (e\<lparr>ie_mtu := mtu\<rparr>) } else Some e);
        if ie_type e = ICMPv4TypeParameterProblem then do { b \<leftarrow> go_index body 0; Some (e\<lparr>ie_pointer := ucast b\<rparr>) } else Some e }
      else do {
        e \<leftarrow> (if ie_type e = ICMPv6TypePacketTooBig then do { m \<leftarrow> read32 body 0; Some (e\<lparr>ie_mtu := m\<rparr>) } else Some e);
        if ie_type e = ICMPv6TypeParameterProblem then do { w \<leftarrow> read32 body 0; Some (e\<lparr>ie_pointer := w\<rparr>) } else Some e })"

definition parseICMPErrorFields :: "bool \<Rightarrow> addr \<Rightarrow> u8 \<Rightarrow> u8 \<Rightarrow> u8 \<Rightarrow> bytes \<Rightarrow> icmpError option option" where
  "parseICMPErrorFields big reporter protocol messageType code body =
     (if length body < 4 \<or> \<not> validICMPErrorCode protocol messageType code then Some None
      else do {
        split \<leftarrow> splitICMPErrorQuote big protocol messageType body;
        case split of
          None \<Rightarrow> Some None
        | Some (quote, extensions, hasExtensionPointer) \<Rightarrow>
            if headersTooLong protocol messageType code \<and> \<not> hasExtensionPointer then Some None
            else do {
              q \<leftarrow> quotedIPPayload quote;
              case q of
                None \<Rightarrow> Some None
              | Some (source, target, quotedProtocol, payload) \<Rightarrow>
                  if \<not> quoteInFamily protocol source target \<or> protocol \<noteq> ProtocolICMPv4 \<and> protocol \<noteq> ProtocolICMPv6 then Some None
                  else do {
                    e \<leftarrow> quotedPorts \<lparr>ie_reporter = reporter, ie_type = messageType, ie_code = code, ie_mtu = 0, ie_pointer = 0,
                           ie_extensions = extensions, ie_quotedSource = source, ie_quotedTarget = target,
                           ie_quotedProtocol = quotedProtocol, ie_quotedPacket = quote, ie_quotedPayload = payload,
                           ie_quotedSourcePort = 0, ie_quotedTargetPort = 0\<rparr>;
                    map_option Some (bodyFields protocol body e) } } })"

definition parseICMPError :: "bool \<Rightarrow> ipPacket \<Rightarrow> icmpError option option" where
  "parseICMPError big packet =
     (let icmp = ip_payload packet
      in if length icmp < 8 then Some None
         else do {
           type \<leftarrow> go_index icmp 0;
           code \<leftarrow> go_index icmp 1;
           body \<leftarrow> go_slice icmp 4 (length icmp);
           parseICMPErrorFields big (ip_source packet) (ip_protocol packet) type code body })"

definition messageICMPError :: "bool \<Rightarrow> icmpMessage \<Rightarrow> (errno + icmpError) option" where
  "messageICMPError big m =
     (case icmpWireLayout m of
        Inl e \<Rightarrow> Some (Inl e)
      | Inr (normalized, _) \<Rightarrow> do {
          let protocol = (if is6 (im_source normalized) then ProtocolICMPv6 else ProtocolICMPv4);
          parsed \<leftarrow> parseICMPErrorFields big (im_source normalized) protocol (im_type normalized) (im_code normalized) (im_body normalized);
          Some (case parsed of None \<Rightarrow> Inl EINVAL | Some e \<Rightarrow> Inr e) })"

end
