(* ===== verification/Icmp_Stack.thy ===== *)
theory Icmp_Stack
  imports Icmp_Error Network_Source Fragment_Wire
begin

text \<open>
  What the stack does with ICMP, \<^verbatim>\<open>src/icmp.go\<close>: Echo replies, the suppression of errors about errors, and the errors that it sends. A
  message to be sent is the argument list of \<open>writeIPPayload\<close>; \<open>allow\<close> is the answer of the rate limiter, which counts
  in floating point and is not modelled.
\<close>

record icmpSend =
  sn_source :: addr
  sn_target :: addr
  sn_protocol :: u8
  sn_payload :: bytes
  sn_allowFragment :: bool

type_synonym icmpReply = "(errno + icmpSend option) option"

section \<open>Echo\<close>

definition makeICMPEchoReply :: "u8 \<Rightarrow> bytes \<Rightarrow> bytes option option" where
  "makeICMPEchoReply protocol request =
     (if length request < 4 then Some None
      else do {
        type \<leftarrow> go_index request 0;
        code \<leftarrow> go_index request 1;
        if classifyICMPEcho protocol type code (length request - 4) \<noteq> Some True then Some None
        else Some (Some (request[0 := icmpEchoMessageType (protocol = ProtocolICMPv6) False, 2 := 0, 3 := 0])) })"

definition putChecksum :: "bytes \<Rightarrow> u16 \<Rightarrow> bytes" where
  "putChecksum message value = take 2 message @ be_put16 value @ drop 4 message"

definition replyChecksum :: "bool \<Rightarrow> u8 \<Rightarrow> addr \<Rightarrow> addr \<Rightarrow> bytes \<Rightarrow> bytes" where
  "replyChecksum big protocol source target reply =
     putChecksum reply (if protocol = ProtocolICMPv4 then checksum big reply else transportChecksum big source target ProtocolICMPv6 reply)"

text \<open>
  The outcome of \<open>handleICMP\<close>: nothing, an Echo reply, or a message for the sockets and the forwarder, with the error that it
  carries if it is one.
\<close>

datatype icmpOutcome = IgnoreICMP | ReplyICMP icmpSend | OfferICMP "icmpError option"

definition handleICMP :: "bool \<Rightarrow> bool \<Rightarrow> ipPacket \<Rightarrow> bool \<Rightarrow> bool \<Rightarrow> icmpOutcome option" where
  "handleICMP big allow packet localDestination skipChecksum =
     (let icmp = ip_payload packet;
          v4 = (ip_protocol packet = ProtocolICMPv4);
          protocol = (if v4 then ProtocolICMPv4 else ProtocolICMPv6)
      in if length icmp < 8 \<or> v4 \<and> \<not> skipChecksum \<and> checksum big icmp \<noteq> 0 then Some IgnoreICMP
         else do {
           reply \<leftarrow> (if localDestination then makeICMPEchoReply (ip_protocol packet) icmp else Some None);
           case reply of
             Some reply \<Rightarrow>
               Some (if \<not> allow then IgnoreICMP
                     else ReplyICMP \<lparr>sn_source = ip_target packet, sn_target = ip_source packet, sn_protocol = protocol,
                            sn_payload = replyChecksum big protocol (ip_target packet) (ip_source packet) reply, sn_allowFragment = True\<rparr>)
           | None \<Rightarrow> map_option OfferICMP (parseICMPError big packet) })"

text \<open>\<open>source\<close> is the result of the source selection for the requesting address.\<close>

definition handleMulticastICMPv6 :: "bool \<Rightarrow> bool \<Rightarrow> errno + addr \<Rightarrow> ipPacket \<Rightarrow> icmpSend option option" where
  "handleMulticastICMPv6 big allow selected packet =
     (let icmp = ip_payload packet
      in if length icmp < 8 then Some None
         else do {
           reply \<leftarrow> makeICMPEchoReply ProtocolICMPv6 icmp;
           Some (case (reply, selected) of
                   (Some reply, Inr source) \<Rightarrow>
                     if \<not> allow then None
                     else Some \<lparr>sn_source = source, sn_target = ip_source packet, sn_protocol = ProtocolICMPv6,
                                sn_payload = replyChecksum big ProtocolICMPv6 source (ip_source packet) reply, sn_allowFragment = True\<rparr>
                 | _ \<Rightarrow> None) })"

definition validateICMPForwarderReplyPayload :: "bool \<Rightarrow> bytes \<Rightarrow> (errno + unit) option" where
  "validateICMPForwarderReplyPayload ipv6 payload =
     (if length payload < 8 then Some (Inl EINVAL)
      else
        let maximum = (if ipv6 then 65535 else 65535 - 20)
        in if length payload > maximum then Some (Inl EMSGSIZE)
           else do {
             type \<leftarrow> go_index payload 0;
             if ipv6 \<and> type < 128 \<and> int (length payload) > ipv6MinimumMTU - 40 then Some (Inl EMSGSIZE) else Some (Inr ()) })"

definition writeOwnedICMPReply :: "bool \<Rightarrow> networkState \<Rightarrow> ipPacket \<Rightarrow> bytes \<Rightarrow> icmpReply" where
  "writeOwnedICMPReply big network packet reply = do {
     v \<leftarrow> validateICMPForwarderReplyPayload (is6 (ip_source packet)) reply;
     case v of
       Inl e \<Rightarrow> Some (Inl e)
     | Inr _ \<Rightarrow>
         if routeFor network (ip_source packet) = None then Some (Inl ENETUNREACH)
         else if \<not> acceptsInboundDestination network (ip_target packet) then Some (Inl EADDRNOTAVAIL)
         else
           let protocol = (if is4 (ip_source packet) then ProtocolICMPv4 else ProtocolICMPv6)
           in Some (Inr (Some \<lparr>sn_source = ip_target packet, sn_target = ip_source packet, sn_protocol = protocol,
                     sn_payload = replyChecksum big protocol (ip_target packet) (ip_source packet) (reply[2 := 0, 3 := 0]),
                     sn_allowFragment = True\<rparr>)) }"

definition writeICMPReply :: "bool \<Rightarrow> networkState \<Rightarrow> ipPacket \<Rightarrow> bytes \<Rightarrow> icmpReply" where
  "writeICMPReply big network packet payload =
     (if length payload < 8 then Some (Inl EINVAL) else writeOwnedICMPReply big network packet payload)"

section \<open>Errors\<close>

definition packetInvokesICMPError :: "bytes \<Rightarrow> bool option" where
  "packetInvokesICMPError packet = do {
     q \<leftarrow> quotedIPPayload packet;
     case q of
       None \<Rightarrow> Some False
     | Some (source, _, protocol, payload) \<Rightarrow>
         if length payload = 0 then Some False
         else if is4 source then
           if protocol \<noteq> ProtocolICMPv4 then Some False
           else map_option (\<lambda>b. b \<in> {ICMPv4TypeDestinationUnreachable, 4, 5, ICMPv4TypeTimeExceeded, ICMPv4TypeParameterProblem})
                  (go_index payload 0)
         else if protocol \<noteq> ProtocolICMPv6 then Some False
         else map_option (\<lambda>b. b < 128) (go_index payload 0) }"

definition icmpErrorQuote :: "bytes \<Rightarrow> bool \<Rightarrow> bytes option" where
  "icmpErrorQuote packet ipv6 =
     (if \<not> ipv6 then do {
        b0 \<leftarrow> go_index packet 0;
        let headerSize = unat (b0 AND 0x0f) * 4;
        go_slice packet 0 (if length packet > headerSize + 8 then headerSize + 8 else length packet) }
      else go_slice packet 0 (if int (length packet) > ipv6MinimumMTU - 48 then nat (ipv6MinimumMTU - 48) else length packet))"

definition writeICMPError :: "bool \<Rightarrow> addr \<Rightarrow> addr \<Rightarrow> u8 \<Rightarrow> u8 \<Rightarrow> u32 \<Rightarrow> u32 \<Rightarrow> bytes \<Rightarrow> icmpSend" where
  "writeICMPError big source target messageType code mtu pointer quote =
     (let protocol = (if is6 source then ProtocolICMPv6 else ProtocolICMPv4);
          body = marshalICMPErrorBody (replicate (4 + length quote) 0) protocol messageType code mtu pointer quote
      in \<lparr>sn_source = source, sn_target = target, sn_protocol = protocol,
          sn_payload = marshalPublicICMPMessage big \<lparr>im_source = source, im_destination = target, im_type = messageType, im_code = code, im_body = body\<rparr>,
          sn_allowFragment = False\<rparr>)"

text \<open>The end of the senders: an error from the packet's destination to its source that quotes it.\<close>

definition answerWithError :: "bool \<Rightarrow> ipPacket \<Rightarrow> u8 \<times> u8 \<times> u32 \<Rightarrow> u8 \<times> u8 \<times> u32 \<Rightarrow> icmpReply" where
  "answerWithError big packet v4 v6 =
     (let (type, code, pointer) = (if is4 (ip_source packet) then v4 else v6)
      in map_option (\<lambda>quote. Inr (Some (writeICMPError big (ip_target packet) (ip_source packet) type code 0 pointer quote)))
           (icmpErrorQuote (ip_original packet) (\<not> is4 (ip_source packet))))"

definition sendAdministrativeUnreachable :: "bool \<Rightarrow> networkState \<Rightarrow> bool \<Rightarrow> ipPacket \<Rightarrow> icmpReply" where
  "sendAdministrativeUnreachable big network allow packet =
     (if \<not> acceptsInboundDestination network (ip_target packet) then Some (Inl EADDRNOTAVAIL)
      else do {
        recursive \<leftarrow> packetInvokesICMPError (ip_original packet);
        if recursive then Some (Inr None)
        else if routeFor network (ip_source packet) = None then Some (Inl ENETUNREACH)
        else if \<not> allow then Some (Inr None)
        else answerWithError big packet
          (ICMPv4TypeDestinationUnreachable, ICMPv4DestinationUnreachableCodeCommunicationAdministrativelyProhibited, 0)
          (ICMPv6TypeDestinationUnreachable, ICMPv6DestinationUnreachableCodeAdministrativelyProhibited, 0) })"

definition sendPortUnreachable :: "bool \<Rightarrow> networkState \<Rightarrow> bool \<Rightarrow> ipPacket \<Rightarrow> icmpReply" where
  "sendPortUnreachable big network allow packet =
     (if \<not> acceptsInboundDestination network (ip_target packet) then Some (Inl EADDRNOTAVAIL)
      else if routeFor network (ip_source packet) = None then Some (Inl ENETUNREACH)
      else if \<not> allow then Some (Inr None)
      else answerWithError big packet (ICMPv4TypeDestinationUnreachable, ICMPv4DestinationUnreachableCodePort, 0)
             (ICMPv6TypeDestinationUnreachable, ICMPv6DestinationUnreachableCodePort, 0))"

definition sendProtocolUnreachable :: "bool \<Rightarrow> networkState \<Rightarrow> bool \<Rightarrow> ipPacket \<Rightarrow> icmpReply" where
  "sendProtocolUnreachable big network allow packet =
     (if \<not> acceptsInboundDestination network (ip_target packet) then Some (Inl EADDRNOTAVAIL)
      else if routeFor network (ip_source packet) = None then Some (Inl ENETUNREACH)
      else if \<not> allow then Some (Inr None)
      else answerWithError big packet (ICMPv4TypeDestinationUnreachable, ICMPv4DestinationUnreachableCodeProtocol, 0)
             (ICMPv6TypeParameterProblem, ICMPv6ParameterProblemCodeUnrecognizedNextHeader, of_nat (ip_protocolOffset packet)))"

text \<open>Called for a packet with a parameter problem; without one its fields are zero.\<close>

definition sendParameterProblem :: "bool \<Rightarrow> bool \<Rightarrow> ipPacket \<Rightarrow> icmpReply" where
  "sendParameterProblem big allow packet =
     (let (code, at) = (case ip_parameter packet of None \<Rightarrow> (0, 0) | Some p \<Rightarrow> p);
          send = do {
            recursive \<leftarrow> packetInvokesICMPError (ip_original packet);
            if recursive \<or> \<not> allow then Some (Inr None)
            else answerWithError big packet (ICMPv4TypeParameterProblem, code, of_nat at) (ICMPv6TypeParameterProblem, code, of_nat at) }
      in if \<not> is4 (ip_source packet) \<and> \<not> is6 (ip_source packet) then Some (Inr None)
         else if is4 (ip_source packet) then
           if length (ip_original packet) < 20 then Some (Inr None)
           else do {
             field \<leftarrow> read16 (ip_original packet) 6;
             if field AND 0x1fff \<noteq> 0 then Some (Inr None) else send }
         else send)"

definition sendFragmentReassemblyTimeout :: "bool \<Rightarrow> networkState \<Rightarrow> bool \<Rightarrow> ipPacketReassemblyState \<Rightarrow> icmpReply" where
  "sendFragmentReassemblyTimeout big network allow state =
     (if \<not> networkStateHasLocal network (rs_target state) then Some (Inr None)
      else do {
        parsed \<leftarrow> parseFragment big (rs_firstPacket state) True;
        case parsed of
          None \<Rightarrow> Some (Inr None)
        | Some f \<Rightarrow>
            if fr_offset (pf_fragment f) \<noteq> 0 then Some (Inr None)
            else do {
              recursive \<leftarrow> packetInvokesICMPError (rs_firstPacket state);
              if recursive \<or> \<not> allow then Some (Inr None)
              else map_option (\<lambda>quote. Inr (Some (writeICMPError big (rs_target state) (rs_source state)
                       (if rs_v6 state then ICMPv6TypeTimeExceeded else ICMPv4TypeTimeExceeded)
                       (if rs_v6 state then ICMPv6TimeExceededCodeFragmentReassembly else ICMPv4TimeExceededCodeFragmentReassembly) 0 0 quote)))
                     (icmpErrorQuote (rs_firstPacket state) (rs_v6 state)) } })"

end
