(* ===== verification/Icmp_Codec.thy ===== *)
theory Icmp_Codec
  imports Icmp_Stack Ip_Safety Fragment_Safety
begin

text \<open>
  The ICMP code returns on every input, and an error that was built is read back.
\<close>

section \<open>No panic\<close>

lemma be_get32_len: "length xs = 4 \<Longrightarrow> \<exists>w. be_get32 xs = Some w"
  by (rule be_get32_total) simp

lemma bind_not_None: "x \<noteq> None \<Longrightarrow> (\<And>y. x = Some y \<Longrightarrow> f y \<noteq> None) \<Longrightarrow> Option.bind x f \<noteq> None"
  by (cases x) auto

lemma objectPointer_total: "objectPointer object \<noteq> None"
  using be_get32_len [of "eo_data object"] by (auto simp: objectPointer_def)

lemma read16_in: "lo + 2 \<le> length bs \<Longrightarrow> read16 bs lo \<noteq> None"
  using read16_total by blast

lemma read32_in: "lo + 4 \<le> length bs \<Longrightarrow> read32 bs lo \<noteq> None"
  using read32_total by blast

lemma nextObject_total: "nextObject bs \<noteq> None"
  using read16_in [of 0 bs]
  by (auto simp: nextObject_def icmp_sizes Let_def go_index_def go_slice_def split: if_splits)

lemma validateObjects_total: "validateObjects bs n p \<noteq> None"
proof (induction bs n p rule: validateObjects.induct)
  case (1 bs n p)
  show ?case
  proof (cases "nextObject bs")
    case (Some step)
    show ?thesis
    proof (cases step)
      case (NextObject object following)
      obtain pointer where "objectPointer object = Some pointer" using objectPointer_total by fastforce
      then show ?thesis using 1 [OF Some NextObject] Some NextObject by (subst validateObjects.simps) simp
    qed (use Some in \<open>subst validateObjects.simps, simp\<close>)+
  qed (use nextObject_total in simp)
qed

lemma validate_total: "validateICMPExtensionObjects bs \<noteq> None"
  using validateObjects_total by (simp add: validateICMPExtensionObjects_def)

lemma objectsFrom_total: "objectsFrom bs objects \<noteq> None"
proof (induction bs objects rule: objectsFrom.induct)
  case (1 bs objects)
  show ?case
    using nextObject_total [of bs] 1
    by (subst objectsFrom.simps) (auto split: option.splits cursorStep.splits)
qed

lemma legacy_total: "legacyIPv4PathMTU bs \<noteq> None"
  using read16_in [of 2 bs] by (auto simp: legacyIPv4PathMTU_def go_index_def Let_def)

lemma quotedUpper_total: "offset \<le> length payload \<Longrightarrow> quotedUpper s t payload f offset \<noteq> None"
proof (induction s t payload f offset rule: quotedUpper.induct)
  case (1 s t payload f offset)
  have len: "len \<le> length payload - offset \<and> 0 < len" if "ipv6ExtensionHeaderLength f (drop offset payload) = Some len" for len
    using ipv6ExtensionHeaderLength_le [OF that] ipv6ExtensionHeaderLength_pos [OF that] by simp
  have r: "read16 (take 8 (drop offset payload)) 2 \<noteq> None" if "offset + 8 \<le> length payload"
    using that by (intro read16_in) simp
  consider (none) "f = ProtocolNoNextHeader"
    | (ext) "f \<noteq> ProtocolNoNextHeader" "f \<in> {IPv6ExtensionHeaderHopByHop, IPv6ExtensionHeaderRouting, IPv6ExtensionHeaderDestination, IPv6ExtensionHeaderAuthentication}"
    | (frag) "f \<noteq> ProtocolNoNextHeader" "f \<notin> {IPv6ExtensionHeaderHopByHop, IPv6ExtensionHeaderRouting, IPv6ExtensionHeaderDestination, IPv6ExtensionHeaderAuthentication}" "f = IPv6ExtensionHeaderFragment"
    | (other) "f \<noteq> ProtocolNoNextHeader" "f \<notin> {IPv6ExtensionHeaderHopByHop, IPv6ExtensionHeaderRouting, IPv6ExtensionHeaderDestination, IPv6ExtensionHeaderAuthentication}" "f \<noteq> IPv6ExtensionHeaderFragment"
    by blast
  then show ?case
  proof cases
    case none
    then show ?thesis by (subst quotedUpper.simps) simp
  next
    case ext
    show ?thesis
    proof (cases "ipv6ExtensionHeaderLength f (drop offset payload)")
      case None
      then show ?thesis using ext by (subst quotedUpper.simps) simp
    next
      case (Some len)
      have l: "offset < length payload" "offset + len \<le> length payload" using len [OF Some] by auto
      have "quotedUpper s t payload (payload ! offset) (offset + len) \<noteq> None"
        using 1(1) [OF ext Some _ l(2), of "payload ! offset"] l by (simp add: go_index_def)
      then show ?thesis using ext Some l by (subst quotedUpper.simps) (simp add: go_index_def)
    qed
  next
    case frag
    show ?thesis
    proof (cases "length payload < offset + 8")
      case True
      then show ?thesis using frag by (subst quotedUpper.simps) simp
    next
      case False
      have h: "go_slice payload offset (offset + 8) = Some (take 8 (drop offset payload))" using False by (simp add: go_slice_def)
      obtain w where w: "read16 (take 8 (drop offset payload)) 2 = Some w" using r False by fastforce
      have i: "go_index (take 8 (drop offset payload)) 0 = Some (payload ! offset)" using False by (simp add: go_index_def)
      have "w AND 0xfff8 = 0 \<Longrightarrow> quotedUpper s t payload (payload ! offset) (offset + 8) \<noteq> None"
        using 1(2) [OF frag False h i w] False by simp
      then show ?thesis using frag False h i w by (subst quotedUpper.simps) simp
    qed
  next
    case other
    then show ?thesis using 1(3) by (subst quotedUpper.simps) (simp add: go_slice_def)
  qed
qed

lemma quotedIPPayload_total: "quotedIPPayload bs \<noteq> None"
proof -
  have "quotedUpper s t (drop 40 bs) f 0 \<noteq> None" for s t f by (rule quotedUpper_total) simp
  then show ?thesis
    using read16_in [of 6 bs] by (auto simp: quotedIPPayload_def go_index_def go_slice_def Let_def)
qed

lemma declared_total: "quotedIPDeclaredLength bs \<noteq> None"
  using read16_in [of 2 bs] read16_in [of 4 bs] by (auto simp: quotedIPDeclaredLength_def go_index_def Let_def)

lemma trim_total: "trimICMPExtensionQuote bs \<noteq> None"
  using declared_total [of bs] by (auto simp: trimICMPExtensionQuote_def go_slice_def split: option.splits)

lemma structure_total: "parseICMPExtensionStructure big bs \<noteq> None"
  using read16_in [of 2 bs] validate_total [of "drop 4 bs"]
  by (auto simp: parseICMPExtensionStructure_def icmp_sizes go_index_def go_slice_def Let_def Option.bind_eq_None_conv split: prod.splits)

lemma split_total: "4 \<le> length body \<Longrightarrow> splitICMPErrorQuote big protocol type body \<noteq> None"
proof -
  assume body: "4 \<le> length body"
  have o: "fst x < 4" if "icmpExtensionLayout protocol type = Some x" for x
    using that by (auto simp: icmpExtensionLayout_def split: if_splits)
  show ?thesis
  proof (cases "icmpExtensionLayout protocol type")
    case None
    then show ?thesis using body by (simp add: splitICMPErrorQuote_def go_slice_def)
  next
    case (Some x)
    obtain offset unit where x: "x = (offset, unit)" by (cases x)
    have "offset < length body" using o [OF Some] x body by simp
    then have i: "go_index body offset = Some (body ! offset)" by (simp add: go_index_def)
    let ?p = "unat (body ! offset) * unit"
    obtain parsed where s: "parseICMPExtensionStructure big (drop (4 + ?p) body) = Some parsed" using structure_total by blast
    obtain trimmed where t: "trimICMPExtensionQuote (take ?p (drop 4 body)) = Some trimmed" using trim_total by blast
    show ?thesis
      using Some x i body s t
      by (simp add: splitICMPErrorQuote_def icmp_sizes Let_def go_slice_def add.commute split: option.split prod.split)
  qed
qed

lemma quoteLength_total: "icmpExtensionQuoteLength protocol type quote \<noteq> None"
  using declared_total [of quote]
  by (auto simp: icmpExtensionQuoteLength_def go_slice_def Let_def Option.bind_eq_None_conv split: option.splits)

lemma quotedPorts_total: "quotedPorts e \<noteq> None"
  using read16_in [of 0 "ie_quotedPayload e"] read16_in [of 2 "ie_quotedPayload e"] by (auto simp: quotedPorts_def)

lemma quotedPorts_ty: "quotedPorts e = Some e' \<Longrightarrow> ie_type e' = ie_type e \<and> ie_code e' = ie_code e \<and> ie_quotedPacket e' = ie_quotedPacket e"
  by (auto simp: quotedPorts_def Option.bind_eq_Some_conv split: if_splits)

lemma bodyFields_total: "4 \<le> length body \<Longrightarrow> bodyFields protocol body e \<noteq> None"
proof -
  assume body: "4 \<le> length body"
  obtain m where m: "read16 body 2 = Some m" using read16_in [of 2 body] body by auto
  obtain w where w: "read32 body 0 = Some w" using read32_in [of 0 body] body by auto
  have i: "go_index body 0 = Some (body ! 0)" using body by (intro go_index_in) linarith
  obtain l where l: "legacyIPv4PathMTU (ie_quotedPacket e) = Some l" using legacy_total by blast
  show ?thesis unfolding bodyFields_def m w i l Let_def Option.bind.bind_lunit by (auto split: if_splits)
qed

lemma parseFields_total: "parseICMPErrorFields big reporter protocol type code body \<noteq> None"
proof (cases "length body < 4 \<or> \<not> validICMPErrorCode protocol type code")
  case False
  then have body: "4 \<le> length body" by simp
  have finish: "Option.bind (quotedPorts e) (\<lambda>e. map_option Some (bodyFields protocol body e)) \<noteq> None" for e
    using quotedPorts_total [of e] bodyFields_total [OF body] by auto
  show ?thesis
    unfolding parseICMPErrorFields_def if_not_P [OF False]
  proof (rule bind_not_None [OF split_total [OF body]], goal_cases)
    case (1 split)
    show ?case
    proof (cases split)
      case (Some x)
      obtain quote extensions pointer where x: "x = (quote, extensions, pointer)" by (cases x)
      obtain q where q: "quotedIPPayload quote = Some q" using quotedIPPayload_total by blast
      show ?thesis unfolding Some x option.case prod.case q Option.bind.bind_lunit
        using finish by (auto split: option.split)
    qed simp
  qed
qed (simp add: parseICMPErrorFields_def)

lemma echo_total: "Echo m \<noteq> None"
proof (cases "echoKind m = None")
  case False
  then have l: "4 \<le> length (im_body m)" by (auto simp: echoKind_def classifyICMPEcho_def split: option.splits if_splits)
  obtain i where "read16 (im_body m) 0 = Some i" using read16_in [of 0 "im_body m"] l by auto
  moreover obtain n where "read16 (im_body m) 2 = Some n" using read16_in [of 2 "im_body m"] l by auto
  ultimately show ?thesis using False l by (simp add: Echo_def go_slice_def)
qed (simp add: Echo_def)

lemma makeICMPEchoReply_total: "makeICMPEchoReply protocol request \<noteq> None"
proof (cases "length request < 4")
  case False
  then have "go_index request 0 = Some (request ! 0)" "go_index request 1 = Some (request ! 1)" by (auto simp: go_index_def)
  then show ?thesis using False by (simp add: makeICMPEchoReply_def)
qed (simp add: makeICMPEchoReply_def)

lemma parseICMPError_total: "parseICMPError big r \<noteq> None"
proof (cases "length (ip_payload r) < 8")
  case False
  then have "go_index (ip_payload r) 0 = Some (ip_payload r ! 0)" "go_index (ip_payload r) 1 = Some (ip_payload r ! 1)"
    "go_slice (ip_payload r) 4 (length (ip_payload r)) = Some (drop 4 (ip_payload r))"
    by (auto simp: go_index_def go_slice_def)
  then show ?thesis using False parseFields_total by (simp add: parseICMPError_def Let_def)
qed (simp add: parseICMPError_def)

lemma messageICMPError_total: "messageICMPError big m \<noteq> None"
proof -
  have bound: "Option.bind (parseICMPErrorFields big a b c d e) (\<lambda>y. Some (f y)) \<noteq> None" for a b c d e
    and f :: "icmpError option \<Rightarrow> errno + icmpError"
    by (rule bind_not_None [OF parseFields_total]) simp
  show ?thesis unfolding messageICMPError_def Let_def
    by (auto split: sum.split prod.split simp: bound simp del: not_None_eq bind_eq_None_conv)
qed

lemma errorICMPMessage_total: "errorICMPMessage big e destination \<noteq> None"
proof -
  have "extendedErrorMessage big e reporter dest protocol \<noteq> None" for reporter dest protocol
  proof (cases "length (ie_extensions e) > maximumICMPExtensionDataSize")
    case False
    obtain ptr valid where v: "validateICMPExtensionObjects (ie_extensions e) = Some (ptr, valid)" using validate_total by fastforce
    obtain r where r: "icmpExtensionQuoteLength protocol (ie_type e) (ie_quotedPacket e) = Some r" using quoteLength_total by blast
    show ?thesis
    proof (cases r)
      case (Inl err)
      then show ?thesis using False v r by (auto simp: extendedErrorMessage_def)
    next
      case (Inr padded)
      obtain offset unit where o: "icmpExtensionLayout protocol (ie_type e) = Some (offset, unit)"
        using r Inr by (auto simp: icmpExtensionQuoteLength_def split: option.splits)
      have l: "4 + padded \<le> length ((marshalICMPErrorBody (replicate (4 + padded + icmpExtensionHeaderSize + length (ie_extensions e)) 0) protocol
          (ie_type e) (ie_code e) (ie_mtu e) (ie_pointer e) (ie_quotedPacket e))[offset := of_nat (padded div unit)])"
        by (auto simp: marshalICMPErrorBody_def Let_def split: prod.split)
      show ?thesis using False v r Inr o l by (auto simp: extendedErrorMessage_def Let_def go_slice_def)
    qed
  qed (simp add: extendedErrorMessage_def)
  moreover obtain q where "quotedIPPayload (ie_quotedPacket e) = Some q" using quotedIPPayload_total by blast
  ultimately show ?thesis by (auto simp: errorICMPMessage_def Let_def split: option.split prod.split)
qed

lemma upperLayer_total: "upperLayer p \<noteq> None"
proof -
  obtain v a where v: "validIPv4OptionsForCodec (pk_ipv4Options p) = Some v" "hasActiveIPv4SourceRoute (pk_ipv4Options p) = Some a"
    using option_loops_total(2,3) by blast
  obtain w where w: "walkIPv6UpperLayer (of_int (pk_protocol p)) (pk_payload p) = Some w"
    unfolding walkIPv6UpperLayer_def using walkUpper_total by blast
  show ?thesis by (cases "is4 (unmapAddr (pk_source p))") (auto simp: upperLayer_def Let_def v w split: option.split bool.split)
qed

lemma packetICMPMessage_total: "packetICMPMessage big p \<noteq> None"
proof -
  obtain u where u: "upperLayer p = Some u" using upperLayer_total by blast
  have r: "upperLayerForProtocol p protocol \<noteq> None" for protocol using u by (auto simp: upperLayerForProtocol_def split: sum.split)
  have i: "go_index icmp 0 = Some (icmp ! 0)" "go_index icmp (Suc 0) = Some (icmp ! Suc 0)" "go_slice icmp 4 (length icmp) = Some (drop 4 icmp)"
    if "\<not> length icmp < 8" for icmp :: bytes
    using that by (auto simp: go_index_def go_slice_def)
  show ?thesis unfolding packetICMPMessage_def Let_def
    by (rule bind_not_None [OF r]) (auto simp: i split: sum.split)
qed

lemma handleICMP_total: "handleICMP big allow r localDestination skip \<noteq> None"
proof -
  obtain reply where m: "makeICMPEchoReply (ip_protocol r) (ip_payload r) = Some reply" using makeICMPEchoReply_total by blast
  obtain e where e: "parseICMPError big r = Some e" using parseICMPError_total by blast
  show ?thesis by (auto simp: handleICMP_def Let_def m e split: option.split)
qed

lemma handleMulticastICMPv6_total: "handleMulticastICMPv6 big allow selected r \<noteq> None"
proof -
  obtain reply where m: "makeICMPEchoReply ProtocolICMPv6 (ip_payload r) = Some reply" using makeICMPEchoReply_total by blast
  show ?thesis by (simp add: handleMulticastICMPv6_def Let_def m)
qed

lemma packetInvokesICMPError_total: "packetInvokesICMPError bs \<noteq> None"
proof -
  obtain q where "quotedIPPayload bs = Some q" using quotedIPPayload_total by blast
  then show ?thesis by (auto simp: packetInvokesICMPError_def go_index_def split: option.split)
qed

lemma writeICMPReply_total: "writeICMPReply big network r payload \<noteq> None"
proof (cases "length payload < 8")
  case False
  then have "go_index payload 0 = Some (payload ! 0)" by (auto simp: go_index_def)
  then have v: "validateICMPForwarderReplyPayload v6 payload \<noteq> None" for v6 by (simp add: validateICMPForwarderReplyPayload_def Let_def)
  show ?thesis using False unfolding writeICMPReply_def writeOwnedICMPReply_def if_not_P [OF False]
    by (intro bind_not_None v) (auto simp: Let_def split: sum.split)
qed (simp add: writeICMPReply_def)

lemma icmpErrorQuote_total: "packet \<noteq> [] \<Longrightarrow> icmpErrorQuote packet v6 \<noteq> None"
  by (simp add: icmpErrorQuote_def go_index_def go_slice_def Let_def ipv6MinimumMTU_def)

lemma fragmentTimeout_total: "sendFragmentReassemblyTimeout big network allow state \<noteq> None"
proof -
  obtain parsed where p: "parseFragment big (rs_firstPacket state) True = Some parsed" using parseFragment_total by blast
  obtain recursive where r: "packetInvokesICMPError (rs_firstPacket state) = Some recursive" using packetInvokesICMPError_total by blast
  have "parsed \<noteq> None \<Longrightarrow> rs_firstPacket state \<noteq> []" using p by (auto simp: parseFragment_def)
  then show ?thesis using icmpErrorQuote_total [of "rs_firstPacket state" "rs_v6 state"]
    by (auto simp: sendFragmentReassemblyTimeout_def p r split: option.split)
qed


end
