(* ===== verification/Icmp_Roundtrip.thy ===== *)
theory Icmp_Roundtrip
  imports Icmp_Codec
begin

text \<open>
  An ICMP error that was built is read back, through the wire and the extension structure; Echo messages and the errors that
  the stack sends.
\<close>

section \<open>The extension structure\<close>

lemma validateObjects_length: "validateObjects bs 0 p = Some (q, True) \<Longrightarrow> 4 \<le> length bs"
  by (subst (asm) validateObjects.simps) (auto simp: nextObject_def icmp_sizes split: if_splits)

lemma structure_roundtrip:
  assumes "validateICMPExtensionObjects objects = Some (hasPointer, True)" "length objects \<le> 65535"
  shows "parseICMPExtensionStructure big (marshalICMPExtensionStructure big objects) = Some (Some (objects, hasPointer))"
proof -
  let ?c = "checksum big ([0x20, 0, 0, 0] @ objects)"
  have l: "4 \<le> length objects" using assms(1) validateObjects_length by (auto simp: validateICMPExtensionObjects_def)
  have "checksum big ([0x20, 0] @ be_put16 (checksum big ([0x20, 0] @ 0 # 0 # objects)) @ objects) = 0"
    using assms(2) by (intro checksum_insert_zero) auto
  then have z: "checksum big ([0x20, 0] @ be_put16 ?c @ objects) = 0" by simp
  have r: "read16 ([0x20, 0] @ be_put16 ?c @ objects) 2 = Some ?c" by (rule read16_append) simp
  have m: "marshalICMPExtensionStructure big objects = [0x20, 0] @ be_put16 ?c @ objects"
    by (simp add: marshalICMPExtensionStructure_def icmpExtensionVersion_def)
  have s: "go_slice ([0x20, 0] @ be_put16 ?c @ objects) 4 (length ([0x20, 0] @ be_put16 ?c @ objects)) = Some objects"
    by (simp add: go_slice_def be_put16_def)
  have i: "go_index ([0x20, 0] @ be_put16 ?c @ objects) 0 = Some 0x20" by (simp add: go_index_def)
  have n: "\<not> length ([0x20, 0] @ be_put16 ?c @ objects) < 4 + 4" using l by simp
  show ?thesis
    unfolding m parseICMPExtensionStructure_def icmp_sizes if_not_P [OF n] i Option.bind.bind_lunit r z s assms(1)
    by (simp add: icmpExtensionVersion_def)
qed

section \<open>Quotes with padding\<close>

lemma extension_length_append:
  "ipv6ExtensionHeaderLength k h = Some len \<Longrightarrow> ipv6ExtensionHeaderLength k (h @ zs) = Some len"
  by (auto simp: ipv6ExtensionHeaderLength_def Let_def nth_append split: if_splits)

lemma read16_append_in: "lo + 2 \<le> length xs \<Longrightarrow> read16 (xs @ zs) lo = read16 xs lo"
  by (simp add: read16_def go_slice_def)

lemma quotedUpper_pad:
  "quotedUpper s t payload f offset = Some (Some (s', t', p, u)) \<Longrightarrow> offset \<le> length payload \<Longrightarrow>
   \<exists>u'. quotedUpper s t (payload @ zs) f offset = Some (Some (s', t', p, u')) \<and> take (length u) u' = u"
proof (induction s t payload f offset rule: quotedUpper.induct)
  case (1 s t payload f offset)
  let ?ext = "{IPv6ExtensionHeaderHopByHop, IPv6ExtensionHeaderRouting, IPv6ExtensionHeaderDestination, IPv6ExtensionHeaderAuthentication}"
  consider (none) "f = ProtocolNoNextHeader"
    | (ext) "f \<noteq> ProtocolNoNextHeader" "f \<in> ?ext"
    | (frag) "f \<noteq> ProtocolNoNextHeader" "f \<notin> ?ext" "f = IPv6ExtensionHeaderFragment"
    | (other) "f \<noteq> ProtocolNoNextHeader" "f \<notin> ?ext" "f \<noteq> IPv6ExtensionHeaderFragment"
    by blast
  then show ?case
  proof cases
    case none
    then show ?thesis using 1(3) by (subst quotedUpper.simps, subst (asm) quotedUpper.simps) simp
  next
    case ext
    from 1(3) ext obtain len where len: "ipv6ExtensionHeaderLength f (drop offset payload) = Some len"
      by (subst (asm) quotedUpper.simps) (auto split: option.splits)
    have l: "offset < length payload" "offset + len \<le> length payload"
      using ipv6ExtensionHeaderLength_le [OF len] ipv6ExtensionHeaderLength_pos [OF len] by auto
    have i: "go_index payload offset = Some (payload ! offset)" "go_index (payload @ zs) offset = Some (payload ! offset)"
      using l by (simp_all add: go_index_def nth_append)
    have q: "quotedUpper s t payload (payload ! offset) (offset + len) = Some (Some (s', t', p, u))"
      using 1(3) ext len i by (subst (asm) quotedUpper.simps) simp
    have "ipv6ExtensionHeaderLength f (drop offset (payload @ zs)) = Some len"
      using extension_length_append [OF len] l by simp
    then show ?thesis using 1(1) [OF ext len i(1) q l(2)] ext i by (subst quotedUpper.simps) simp
  next
    case frag
    have l: "offset + 8 \<le> length payload" using 1(3) frag by (subst (asm) quotedUpper.simps) (auto split: if_splits)
    let ?h = "take 8 (drop offset payload)"
    have h: "go_slice payload offset (offset + 8) = Some ?h" "go_slice (payload @ zs) offset (offset + 8) = Some ?h"
      using l by (simp_all add: go_slice_def)
    obtain w where w: "read16 ?h 2 = Some w" using read16_in [of 2 ?h] l by fastforce
    have i: "go_index ?h 0 = Some (payload ! offset)" using l by (simp add: go_index_def)
    have q: "w AND 0xfff8 = 0" "quotedUpper s t payload (payload ! offset) (offset + 8) = Some (Some (s', t', p, u))"
      using 1(3) frag l h w i by (subst (asm) quotedUpper.simps, simp split: if_splits)+
    show ?thesis using 1(2) [OF frag _ h(1) i w _ q(2)] frag h w i q l by (subst quotedUpper.simps) simp
  next
    case other
    then show ?thesis using 1(3,4)
      by (subst quotedUpper.simps, subst (asm) quotedUpper.simps) (auto simp: go_slice_def)
  qed
qed

lemma quotedIPPayload_long:
  "quotedIPPayload bs = Some (Some v) \<Longrightarrow> drop_bit 4 (bs ! 0) = 4 \<and> 20 \<le> length bs \<or> drop_bit 4 (bs ! 0) = 6 \<and> 40 \<le> length bs"
  by (auto simp: quotedIPPayload_def go_index_def split: if_splits)

lemma quotedIPPayload_pad:
  assumes "quotedIPPayload bs = Some (Some (s, t, p, u))"
  shows "\<exists>u'. quotedIPPayload (bs @ zs) = Some (Some (s, t, p, u')) \<and> take (length u) u' = u"
proof -
  have n: "bs \<noteq> []" "go_index bs 0 = Some (bs ! 0)" "go_index (bs @ zs) 0 = Some (bs ! 0)"
    using quotedIPPayload_long [OF assms] by (auto simp: go_index_def nth_append)
  consider (v4) "drop_bit 4 (bs ! 0) = 4" "20 \<le> length bs" | (v6) "drop_bit 4 (bs ! 0) = 6" "40 \<le> length bs"
    using quotedIPPayload_long [OF assms] by blast
  then show ?thesis
  proof cases
    case v4
    obtain w where w: "read16 bs 6 = Some w" "read16 (bs @ zs) 6 = Some w"
      using read16_in [of 6 bs] read16_append_in [of 6 bs zs] v4(2) by fastforce
    show ?thesis using assms v4 n w
      by (auto simp: quotedIPPayload_def Let_def go_slice_def go_index_def nth_append split: if_splits)
  next
    case v6
    let ?s = "addrFrom16 (take 16 (drop 8 bs))" and ?t = "addrFrom16 (take 16 (drop 24 bs))"
    have i: "go_index bs 6 = Some (bs ! 6)" "go_index (bs @ zs) 6 = Some (bs ! 6)" using v6 by (simp_all add: go_index_def nth_append)
    have d: "go_slice bs 8 24 = Some (take 16 (drop 8 bs))" "go_slice (bs @ zs) 8 24 = Some (take 16 (drop 8 bs))"
      "go_slice bs 24 40 = Some (take 16 (drop 24 bs))" "go_slice (bs @ zs) 24 40 = Some (take 16 (drop 24 bs))"
      using v6 by (simp_all add: go_slice_def)
    have q: "\<not> (is4In6 ?s \<or> is4In6 ?t)" "quotedUpper ?s ?t (drop 40 bs) (bs ! 6) 0 = Some (Some (s, t, p, u))"
      using assms v6 n i d by (auto simp: quotedIPPayload_def Let_def split: if_splits)
    from quotedUpper_pad [OF q(2), of zs] show ?thesis using v6 n i d q(1) by (simp add: quotedIPPayload_def Let_def)
  qed
qed

lemma declared_pad:
  assumes "quotedIPPayload bs = Some (Some v)"
  shows "quotedIPDeclaredLength (bs @ zs) = quotedIPDeclaredLength bs"
proof -
  have n: "bs \<noteq> []" "go_index bs 0 = Some (bs ! 0)" "go_index (bs @ zs) 0 = Some (bs ! 0)"
    using quotedIPPayload_long [OF assms] by (auto simp: go_index_def nth_append)
  have i: "40 \<le> length bs \<Longrightarrow> go_index (bs @ zs) 6 = go_index bs 6" by (simp add: go_index_def nth_append)
  show ?thesis using quotedIPPayload_long [OF assms] n i
    by (auto simp: quotedIPDeclaredLength_def read16_append_in cong: if_cong)
qed

lemma trim_pad:
  assumes "quotedIPPayload bs = Some (Some v)" "\<And>d. quotedIPDeclaredLength bs = Some (Some d) \<Longrightarrow> length bs \<le> d"
  shows "\<exists>j \<le> k. trimICMPExtensionQuote (bs @ replicate k 0) = Some (Some (bs @ replicate j 0)) \<and>
     (\<forall>d. quotedIPDeclaredLength bs = Some (Some d) \<longrightarrow> length bs + j \<le> d)"
proof -
  obtain d where d: "quotedIPDeclaredLength bs = Some d" using declared_total by blast
  show ?thesis
  proof (cases d)
    case None
    then show ?thesis using d declared_pad [OF assms(1)] by (auto simp: trimICMPExtensionQuote_def)
  next
    case (Some n)
    have n: "length bs \<le> n" using assms(2) d Some by simp
    show ?thesis
    proof (cases "n > length bs + k")
      case True
      then show ?thesis using d Some declared_pad [OF assms(1), of "replicate k 0"] by (auto simp: trimICMPExtensionQuote_def)
    next
      case False
      have "list_ex (\<lambda>value. value \<noteq> 0) (replicate m (0 :: u8)) = False" for m by (auto simp: list_ex_iff)
      then show ?thesis using d Some n False declared_pad [OF assms(1), of "replicate k 0"]
        by (intro exI [of _ "n - length bs"]) (simp add: trimICMPExtensionQuote_def go_slice_def min_absorb1)
    qed
  qed
qed

section \<open>The four bytes before the quote\<close>

definition errorFields :: "u8 \<Rightarrow> u8 \<Rightarrow> u8 \<Rightarrow> u32 \<Rightarrow> u32 \<Rightarrow> bytes" where
  "errorFields protocol messageType code mtu pointer = marshalICMPErrorBody [] protocol messageType code mtu pointer []"

lemma length_errorFields [simp]: "length (errorFields protocol messageType code mtu pointer) = 4"
  by (auto simp: errorFields_def marshalICMPErrorBody_def Let_def split: prod.split)

lemma marshal_body:
  assumes "4 + length quote \<le> n"
  shows "marshalICMPErrorBody (replicate n 0) protocol messageType code mtu pointer quote =
     errorFields protocol messageType code mtu pointer @ quote @ replicate (n - 4 - length quote) 0"
  using assms by (auto simp: errorFields_def marshalICMPErrorBody_def Let_def split: prod.split)

text \<open>What the parser reads back from these bytes, with or without the length of an extended quote.\<close>

definition writtenMTU :: "u8 \<Rightarrow> u8 \<Rightarrow> u8 \<Rightarrow> bytes \<Rightarrow> u32 \<Rightarrow> u32" where
  "writtenMTU protocol messageType code quote mtu =
     (if protocol = ProtocolICMPv4 \<and> messageType = ICMPv4TypeDestinationUnreachable \<and> code = FragmentationNeeded \<and> mtu = 0
      then the (legacyIPv4PathMTU quote) else mtu)"

lemmas icmp_kinds = ICMPv4TypeDestinationUnreachable_def ICMPv4TypeTimeExceeded_def ICMPv4TypeParameterProblem_def
  ICMPv6TypeDestinationUnreachable_def ICMPv6TypePacketTooBig_def ICMPv6TypeTimeExceeded_def ICMPv6TypeParameterProblem_def
  FragmentationNeeded_def ProtocolICMPv4_def ProtocolICMPv6_def

lemma ucast_small16: "w \<le> 65535 \<Longrightarrow> ucast (ucast (w :: u32) :: u16) = w"
proof -
  assume "w \<le> 65535"
  then have "unat w < 65536" by (simp add: word_le_nat_alt)
  then have "take_bit 16 (unat w) = unat w" by (simp add: take_bit_nat_eq_self)
  then show ?thesis by (intro word_unat_eq_iff [THEN iffD2]) (simp add: unsigned_ucast_eq unsigned_take_bit_eq)
qed

lemma ucast_small8: "w \<le> 255 \<Longrightarrow> ucast (ucast (w :: u32) :: u8) = w"
proof -
  assume "w \<le> 255"
  then have "unat w < 256" by (simp add: word_le_nat_alt)
  then have "take_bit 8 (unat w) = unat w" by (simp add: take_bit_nat_eq_self)
  then show ?thesis by (intro word_unat_eq_iff [THEN iffD2]) (simp add: unsigned_ucast_eq unsigned_take_bit_eq)
qed

lemma ucast_zero16: "w \<le> 65535 \<Longrightarrow> ucast (w :: u32) = (0 :: u16) \<longleftrightarrow> w = 0"
  using ucast_small16 [of w] by auto

definition fieldsFit :: "u8 \<Rightarrow> u8 \<Rightarrow> u8 \<Rightarrow> u32 \<Rightarrow> u32 \<Rightarrow> bool" where
  "fieldsFit protocol messageType code mtu pointer \<longleftrightarrow>
     (fst (icmpErrorFieldKinds protocol messageType code) \<or> mtu = 0) \<and> (snd (icmpErrorFieldKinds protocol messageType code) \<or> pointer = 0) \<and>
     (protocol = ProtocolICMPv4 \<and> fst (icmpErrorFieldKinds protocol messageType code) \<longrightarrow> mtu \<le> 65535) \<and>
     (protocol = ProtocolICMPv4 \<and> snd (icmpErrorFieldKinds protocol messageType code) \<longrightarrow> pointer \<le> 255)"

lemma bodyFields_written:
  assumes "validICMPErrorCode protocol (ie_type e) (ie_code e)" and e: "ie_mtu e = 0" "ie_pointer e = 0"
    and fit: "fieldsFit protocol (ie_type e) (ie_code e) mtu pointer"
    and body: "body = errorFields protocol (ie_type e) (ie_code e) mtu pointer @ following \<or>
      icmpExtensionLayout protocol (ie_type e) = Some (offset, unit) \<and>
      body = (errorFields protocol (ie_type e) (ie_code e) mtu pointer)[offset := x] @ following"
  shows "bodyFields protocol body e = Some (e\<lparr>ie_mtu := writtenMTU protocol (ie_type e) (ie_code e) (ie_quotedPacket e) mtu, ie_pointer := pointer\<rparr>)"
proof -
  obtain l where l: "legacyIPv4PathMTU (ie_quotedPacket e) = Some l" using legacy_total by blast
  have r: "e\<lparr>ie_mtu := 0, ie_pointer := 0\<rparr> = e" "e\<lparr>ie_pointer := 0\<rparr> = e" "e\<lparr>ie_mtu := 0\<rparr> = e" "e\<lparr>ie_mtu := m, ie_pointer := 0\<rparr> = e\<lparr>ie_mtu := m\<rparr>"
    "e\<lparr>ie_mtu := 0, ie_pointer := m'\<rparr> = e\<lparr>ie_pointer := m'\<rparr>" for m m'
    using e by simp_all
  have rd: "read16 (a # b # be_put16 w @ following) 2 = Some w" for a b w using read16_append [of 2 "[a, b]" w following] by simp
  have rd32: "read32 (be_put32 w @ following) 0 = Some w" for w using read32_append [of 0 "[]" w following] by simp
  consider (v4) "protocol = ProtocolICMPv4" | (v6) "protocol = ProtocolICMPv6"
    using assms(1) by (auto simp: validICMPErrorCode_def split: if_splits)
  then show ?thesis
  proof cases
    case v4
    show ?thesis using assms(1) fit body l unfolding v4
      by (auto simp: validICMPErrorCode_def fieldsFit_def icmpErrorFieldKinds_def errorFields_def marshalICMPErrorBody_def icmpExtensionLayout_def
          bodyFields_def writtenMTU_def icmp_kinds rd r go_index_def ucast_small16 ucast_small8 ucast_zero16 split: if_splits)
  next
    case v6
    show ?thesis using assms(1) fit body unfolding v6
      by (auto simp: validICMPErrorCode_def fieldsFit_def icmpErrorFieldKinds_def errorFields_def marshalICMPErrorBody_def icmpExtensionLayout_def
          bodyFields_def writtenMTU_def icmp_kinds rd32 r split: if_splits)
  qed
qed

section \<open>Splitting what was joined\<close>

lemma layout_offset: "icmpExtensionLayout protocol type = Some (offset, unit) \<Longrightarrow> offset < 4 \<and> (unit = 4 \<or> unit = 8)"
  by (auto simp: icmpExtensionLayout_def split: if_splits)

lemma length_field_zero:
  "icmpExtensionLayout protocol type = Some (offset, unit) \<Longrightarrow> errorFields protocol type code mtu pointer ! offset = 0"
  by (auto simp: icmpExtensionLayout_def errorFields_def marshalICMPErrorBody_def icmpErrorFieldKinds_def icmp_kinds split: if_splits)

lemma split_plain:
  "splitICMPErrorQuote big protocol type (errorFields protocol type code mtu pointer @ quote) = Some (Some (quote, [], False))"
proof (cases "icmpExtensionLayout protocol type")
  case None
  then show ?thesis by (simp add: splitICMPErrorQuote_def go_slice_def)
next
  case (Some x)
  obtain offset unit where x: "x = (offset, unit)" by (cases x)
  have "go_index (errorFields protocol type code mtu pointer @ quote) offset = Some 0"
    using length_field_zero [of protocol type offset unit code mtu pointer] layout_offset [of protocol type offset unit] Some x
    by (simp add: go_index_def nth_append trans_less_add1)
  then show ?thesis using Some x by (simp add: splitICMPErrorQuote_def go_slice_def)
qed

lemma quoteLength_facts:
  assumes "icmpExtensionQuoteLength protocol type quote = Some (Inr padded)" "icmpExtensionLayout protocol type = Some (offset, unit)"
  shows "length quote \<le> padded" "128 \<le> padded" "padded mod unit = 0" "padded div unit \<le> 255"
    "128 \<le> length quote \<Longrightarrow> padded < length quote + unit" "128 \<le> length quote \<Longrightarrow> length quote mod 8 = 0 \<Longrightarrow> padded = length quote"
    "length quote < 128 \<Longrightarrow> \<exists>d \<le> length quote. quotedIPDeclaredLength quote = Some (Some d)"
proof -
  have u: "unit = 4 \<or> unit = 8" using layout_offset [OF assms(2)] by blast
  let ?n = "if length quote < 128 then 128 else length quote"
  have p: "padded = (?n + unit - 1) div unit * unit" "padded div unit \<le> 255"
    using assms by (auto simp: icmpExtensionQuoteLength_def Let_def icmp_sizes Option.bind_eq_Some_conv split: if_splits)
  have r: "n \<le> (n + unit - 1) div unit * unit \<and> (n + unit - 1) div unit * unit < n + unit \<and> (n mod 8 = 0 \<longrightarrow> (n + unit - 1) div unit * unit = n)"
    for n
  proof (cases "unit = 4")
    case True
    have "n \<le> (3 + n) div 4 * 4 \<and> (3 + n) div 4 * 4 < n + 4 \<and> (n mod 8 = 0 \<longrightarrow> (3 + n) div 4 * 4 = n)" by presburger
    then show ?thesis using True by simp
  next
    case False
    have "n \<le> (7 + n) div 8 * 8 \<and> (7 + n) div 8 * 8 < n + 8 \<and> (n mod 8 = 0 \<longrightarrow> (7 + n) div 8 * 8 = n)" by presburger
    then show ?thesis using False u by simp
  qed
  have b: "?n \<le> padded" "padded < ?n + unit" "?n mod 8 = 0 \<longrightarrow> padded = ?n" using r [of ?n, folded p(1)] by linarith+
  show "length quote \<le> padded" "128 \<le> padded" using b by (auto split: if_splits)
  show "padded mod unit = 0" unfolding p(1) by simp
  show "padded div unit \<le> 255" by (rule p(2))
  show "128 \<le> length quote \<Longrightarrow> padded < length quote + unit" using b by (auto split: if_splits)
  show "128 \<le> length quote \<Longrightarrow> length quote mod 8 = 0 \<Longrightarrow> padded = length quote" using b by (auto split: if_splits)
  obtain d where d: "quotedIPDeclaredLength quote = Some d" using declared_total by blast
  show "length quote < 128 \<Longrightarrow> \<exists>d \<le> length quote. quotedIPDeclaredLength quote = Some (Some d)"
    using assms d by (cases d) (auto simp: icmpExtensionQuoteLength_def icmp_sizes split: if_splits)
qed

lemma split_extended:
  assumes view: "quotedIPPayload quote = Some (Some v)"
    and complete: "\<And>d. quotedIPDeclaredLength quote = Some (Some d) \<Longrightarrow> length quote \<le> d"
    and len: "icmpExtensionQuoteLength protocol type quote = Some (Inr padded)"
    and layout: "icmpExtensionLayout protocol type = Some (offset, unit)"
    and valid: "validateICMPExtensionObjects objects = Some (hasPointer, True)" "length objects \<le> 65535"
  shows "\<exists>j. splitICMPErrorQuote big protocol type
      ((errorFields protocol type code mtu pointer)[offset := of_nat (padded div unit)] @ (quote @ replicate (padded - length quote) 0) @
        marshalICMPExtensionStructure big objects) = Some (Some (quote @ replicate j 0, objects, hasPointer)) \<and>
    j < 8 \<and> (128 \<le> length quote \<and> length quote mod 8 = 0 \<or> quotedIPDeclaredLength quote = Some (Some (length quote)) \<longrightarrow> j = 0)"
proof -
  note f = quoteLength_facts [OF len layout]
  let ?f = "(errorFields protocol type code mtu pointer)[offset := of_nat (padded div unit)]"
  let ?q = "quote @ replicate (padded - length quote) 0" and ?s = "marshalICMPExtensionStructure big objects"
  obtain j where j: "j \<le> padded - length quote" "trimICMPExtensionQuote ?q = Some (Some (quote @ replicate j 0))"
    "\<forall>d. quotedIPDeclaredLength quote = Some (Some d) \<longrightarrow> length quote + j \<le> d"
    using trim_pad [OF view complete] by blast
  have u: "unit = 4 \<or> unit = 8" "offset < 4" using layout_offset [OF layout] by blast+
  have "unat (of_nat (padded div unit) :: u8) = padded div unit" using f(4) by (simp add: unat_of_nat take_bit_nat_eq_self)
  then have p: "unat (of_nat (padded div unit) :: u8) * unit = padded" using f(3) by (simp add: mult.commute [of _ unit] mult_div_mod_eq [symmetric] mod_eq_0_iff_dvd)
  have "padded div unit \<noteq> 0" using f(2) u by auto
  then have nz: "(of_nat (padded div unit) :: u8) \<noteq> 0" using p f(2) by auto
  have i: "go_index (?f @ ?q @ ?s) offset = Some (of_nat (padded div unit))" using u by (simp add: go_index_def nth_append)
  have l: "length ?q = padded" using f(1) by simp
  have o: "8 \<le> length ?s" using validateObjects_length valid(1)
    by (auto simp: marshalICMPExtensionStructure_def Let_def validateICMPExtensionObjects_def)
  have n: "\<not> (padded < 128 \<or> length (?f @ ?q @ ?s) < 4 + padded + 4 + 4)" using f(1,2) o by simp
  have s: "go_slice (?f @ ?q @ ?s) (4 + padded) (length (?f @ ?q @ ?s)) = Some ?s" "go_slice (?f @ ?q @ ?s) 4 (4 + padded) = Some ?q"
    using l by (simp_all add: go_slice_def)
  have e: "splitICMPErrorQuote big protocol type (?f @ ?q @ ?s) = Some (Some (quote @ replicate j 0, objects, hasPointer))"
    unfolding splitICMPErrorQuote_def layout option.case prod.case i Option.bind.bind_lunit if_not_P [OF nz] Let_def p icmp_sizes if_not_P [OF n] s
      structure_roundtrip [OF valid] j(2) by simp
  have "j < 8 \<and> (128 \<le> length quote \<and> length quote mod 8 = 0 \<or> quotedIPDeclaredLength quote = Some (Some (length quote)) \<longrightarrow> j = 0)"
  proof (cases "128 \<le> length quote")
    case True
    then show ?thesis using f(5,6) j(1,3) u by auto
  next
    case False
    then obtain d where "d \<le> length quote" "quotedIPDeclaredLength quote = Some (Some d)" using f(7) by auto
    then have "j = 0" using j(3) by fastforce
    then show ?thesis by simp
  qed
  then show ?thesis using e by blast
qed

end
