(* ===== verification/Icmp_Error_Roundtrip.thy ===== *)
theory Icmp_Error_Roundtrip
  imports Icmp_Roundtrip
begin

text \<open>
  An ICMP error that was built is read back: the fields, the extensions and the quoted packet, through the message and through
  the receive path.
\<close>

section \<open>What was built\<close>

definition extendedBody :: "bool \<Rightarrow> u8 \<Rightarrow> icmpError \<Rightarrow> nat \<Rightarrow> nat \<Rightarrow> nat \<Rightarrow> bytes" where
  "extendedBody big protocol e padded offset unit =
     (errorFields protocol (ie_type e) (ie_code e) (ie_mtu e) (ie_pointer e))[offset := of_nat (padded div unit)] @
     (ie_quotedPacket e @ replicate (padded - length (ie_quotedPacket e)) 0) @ marshalICMPExtensionStructure big (ie_extensions e)"

lemma length_structure [simp]: "length (marshalICMPExtensionStructure big objects) = 4 + length objects"
  by (simp add: marshalICMPExtensionStructure_def Let_def)

lemma built_extended:
  assumes "extendedErrorMessage big e reporter destination protocol = Some (Inr m)"
  obtains hasPointer padded offset unit where
    "validateICMPExtensionObjects (ie_extensions e) = Some (hasPointer, True)" "length (ie_extensions e) \<le> 65535"
    "\<not> (headersTooLong protocol (ie_type e) (ie_code e) \<and> \<not> hasPointer)"
    "icmpExtensionQuoteLength protocol (ie_type e) (ie_quotedPacket e) = Some (Inr padded)"
    "icmpExtensionLayout protocol (ie_type e) = Some (offset, unit)"
    "m = \<lparr>im_source = reporter, im_destination = destination, im_type = ie_type e, im_code = ie_code e,
          im_body = extendedBody big protocol e padded offset unit\<rparr>" "length (im_body m) \<le> 65531"
proof -
  let ?ext = "ie_extensions e" and ?quote = "ie_quotedPacket e"
  have l: "\<not> length ?ext > maximumICMPExtensionDataSize" using assms by (auto simp: extendedErrorMessage_def split: if_splits)
  obtain hasPointer valid where v: "validateICMPExtensionObjects ?ext = Some (hasPointer, valid)" using validate_total by fastforce
  have g: "\<not> (\<not> valid \<or> headersTooLong protocol (ie_type e) (ie_code e) \<and> \<not> hasPointer)"
    using assms l v by (auto simp: extendedErrorMessage_def split: if_splits)
  obtain r where r: "icmpExtensionQuoteLength protocol (ie_type e) ?quote = Some r" using quoteLength_total by blast
  obtain padded where p: "icmpExtensionQuoteLength protocol (ie_type e) ?quote = Some (Inr padded)"
    using assms l v g r by (cases r) (auto simp: extendedErrorMessage_def)
  let ?n = "4 + padded + 4 + length ?ext"
  have n: "\<not> ?n > 65535 - 4" using assms l v g p by (auto simp: extendedErrorMessage_def Let_def icmp_sizes split: if_splits)
  obtain offset unit where o: "icmpExtensionLayout protocol (ie_type e) = Some (offset, unit)"
    using assms l v g p n by (auto simp: extendedErrorMessage_def Let_def icmp_sizes Option.bind_eq_Some_conv split: if_splits)
  have q: "length ?quote \<le> padded" by (rule quoteLength_facts(1) [OF p o])
  let ?f = "errorFields protocol (ie_type e) (ie_code e) (ie_mtu e) (ie_pointer e)"
  have off: "offset < 4" using layout_offset [OF o] by blast
  have b: "marshalICMPErrorBody (replicate ?n 0) protocol (ie_type e) (ie_code e) (ie_mtu e) (ie_pointer e) ?quote =
      ?f @ ?quote @ replicate (padded + 4 + length ?ext - length ?quote) 0"
    using q by (subst marshal_body) simp_all
  have s: "go_slice ((?f @ ?quote @ replicate (padded + 4 + length ?ext - length ?quote) 0)[offset := of_nat (padded div unit)]) 0 (4 + padded) =
      Some (?f[offset := of_nat (padded div unit)] @ ?quote @ replicate (padded - length ?quote) 0)"
    using q off by (simp add: go_slice_def list_update_append min_absorb1)
  have m: "m = \<lparr>im_source = reporter, im_destination = destination, im_type = ie_type e, im_code = ie_code e,
      im_body = extendedBody big protocol e padded offset unit\<rparr>"
    using assms unfolding extendedErrorMessage_def if_not_P [OF l] v Option.bind.bind_lunit Let_def prod.case if_not_P [OF g] p sum.case
    unfolding icmp_sizes if_not_P [OF n] b o Option.bind.bind_lunit prod.case s
    by (simp add: extendedBody_def)
  show thesis
  proof (rule that [OF _ _ _ p o m])
    show "length (im_body m) \<le> 65531" using n q off by (simp add: m extendedBody_def)
    show "length ?ext \<le> 65535" using l by (simp add: icmp_sizes)
    show "validateICMPExtensionObjects ?ext = Some (hasPointer, True)" using v g by simp
    show "\<not> (headersTooLong protocol (ie_type e) (ie_code e) \<and> \<not> hasPointer)" using g by simp
  qed
qed

lemma built:
  assumes "errorICMPMessage big e destination = Some (Inr m)"
  obtains reporter destination' protocol s t p u where
    "normalizeICMPAddresses (ie_reporter e) destination = Some (reporter, destination', protocol)"
    "validICMPErrorCode protocol (ie_type e) (ie_code e)" "length (ie_quotedPacket e) \<le> 65527"
    "quotedIPPayload (ie_quotedPacket e) = Some (Some (s, t, p, u))" "quoteInFamily protocol s t"
    "fieldsFit protocol (ie_type e) (ie_code e) (ie_mtu e) (ie_pointer e)"
    "ie_extensions e = [] \<and> \<not> headersTooLong protocol (ie_type e) (ie_code e) \<and>
       m = \<lparr>im_source = reporter, im_destination = destination', im_type = ie_type e, im_code = ie_code e,
            im_body = errorFields protocol (ie_type e) (ie_code e) (ie_mtu e) (ie_pointer e) @ ie_quotedPacket e\<rparr> \<or>
     extendedErrorMessage big e reporter destination' protocol = Some (Inr m)"
proof -
  obtain reporter destination' protocol where n: "normalizeICMPAddresses (ie_reporter e) destination = Some (reporter, destination', protocol)"
    using assms by (auto simp: errorICMPMessage_def split: option.splits)
  have v: "validICMPErrorCode protocol (ie_type e) (ie_code e)" "\<not> length (ie_quotedPacket e) > 65535 - 8"
    using assms n by (auto simp: errorICMPMessage_def split: if_splits)
  obtain s t p u where q: "quotedIPPayload (ie_quotedPacket e) = Some (Some (s, t, p, u))"
    using assms n v by (auto simp: errorICMPMessage_def Option.bind_eq_Some_conv split: option.splits)
  obtain mf pf where k: "icmpErrorFieldKinds protocol (ie_type e) (ie_code e) = (mf, pf)" by (cases "icmpErrorFieldKinds protocol (ie_type e) (ie_code e)")
  have f: "quoteInFamily protocol s t"
    "\<not> (\<not> mf \<and> ie_mtu e \<noteq> 0 \<or> \<not> pf \<and> ie_pointer e \<noteq> 0 \<or> protocol = ProtocolICMPv4 \<and> mf \<and> ie_mtu e > 65535 \<or>
        protocol = ProtocolICMPv4 \<and> pf \<and> ie_pointer e > 255)"
    using assms n v q k by (auto simp: errorICMPMessage_def split: if_splits)
  have r: "(if length (ie_extensions e) = 0 then
       if headersTooLong protocol (ie_type e) (ie_code e) then Some (Inl EINVAL)
       else Some (Inr \<lparr>im_source = reporter, im_destination = destination', im_type = ie_type e, im_code = ie_code e,
              im_body = marshalICMPErrorBody (replicate (4 + length (ie_quotedPacket e)) 0) protocol (ie_type e)
                          (ie_code e) (ie_mtu e) (ie_pointer e) (ie_quotedPacket e)\<rparr>)
     else extendedErrorMessage big e reporter destination' protocol) = Some (Inr m)"
    using assms unfolding errorICMPMessage_def n option.case prod.case if_not_P [OF v(2)] q Option.bind.bind_lunit k Let_def if_not_P [OF f(2)]
    using v(1) f(1) by simp
  have b: "marshalICMPErrorBody (replicate (4 + length (ie_quotedPacket e)) 0) protocol (ie_type e) (ie_code e) (ie_mtu e) (ie_pointer e) (ie_quotedPacket e) =
      errorFields protocol (ie_type e) (ie_code e) (ie_mtu e) (ie_pointer e) @ ie_quotedPacket e"
    by (subst marshal_body) simp_all
  show thesis
  proof (rule that [OF n v(1) _ q f(1)])
    show "length (ie_quotedPacket e) \<le> 65527" using v(2) by simp
    show "fieldsFit protocol (ie_type e) (ie_code e) (ie_mtu e) (ie_pointer e)" using f(2) k by (auto simp: fieldsFit_def)
  qed (use r b in \<open>auto split: if_splits\<close>)
qed

section \<open>What is read back\<close>

lemma parse_written:
  assumes valid: "validICMPErrorCode protocol messageType code"
    and split: "splitICMPErrorQuote big protocol messageType body = Some (Some (quote, extensions, pointed))"
    and htl: "\<not> (headersTooLong protocol messageType code \<and> \<not> pointed)"
    and view: "quotedIPPayload quote = Some (Some (s, t, p, u))" and family: "quoteInFamily protocol s t"
    and fit: "fieldsFit protocol messageType code mtu pointer"
    and body: "body = errorFields protocol messageType code mtu pointer @ following \<or>
      icmpExtensionLayout protocol messageType = Some (offset, unit) \<and>
      body = (errorFields protocol messageType code mtu pointer)[offset := x] @ following"
  obtains e where "parseICMPErrorFields big reporter protocol messageType code body = Some (Some e)"
    "ie_reporter e = reporter" "ie_type e = messageType" "ie_code e = code" "ie_mtu e = writtenMTU protocol messageType code quote mtu"
    "ie_pointer e = pointer" "ie_extensions e = extensions" "ie_quotedSource e = s" "ie_quotedTarget e = t" "ie_quotedProtocol e = p"
    "ie_quotedPacket e = quote" "ie_quotedPayload e = u"
    "if p \<in> {ProtocolTCP, ProtocolUDP} \<and> 4 \<le> length u then read16 u 0 = Some (ie_quotedSourcePort e) \<and> read16 u 2 = Some (ie_quotedTargetPort e)
     else ie_quotedSourcePort e = 0 \<and> ie_quotedTargetPort e = 0"
proof -
  let ?e = "\<lparr>ie_reporter = reporter, ie_type = messageType, ie_code = code, ie_mtu = 0, ie_pointer = 0, ie_extensions = extensions,
     ie_quotedSource = s, ie_quotedTarget = t, ie_quotedProtocol = p, ie_quotedPacket = quote, ie_quotedPayload = u,
     ie_quotedSourcePort = 0, ie_quotedTargetPort = 0\<rparr>"
  have p: "protocol = ProtocolICMPv4 \<or> protocol = ProtocolICMPv6" using valid by (auto simp: validICMPErrorCode_def split: if_splits)
  have "4 \<le> length body" using body by auto
  then have g: "\<not> (length body < 4 \<or> \<not> validICMPErrorCode protocol messageType code)"
    "\<not> (\<not> quoteInFamily protocol s t \<or> protocol \<noteq> ProtocolICMPv4 \<and> protocol \<noteq> ProtocolICMPv6)"
    using valid family p by auto
  obtain e where e: "quotedPorts ?e = Some e" using quotedPorts_total by blast
  have k: "ie_mtu e = 0" "ie_pointer e = 0" "ie_type e = messageType" "ie_code e = code" "ie_quotedPacket e = quote" "ie_reporter e = reporter"
    "ie_extensions e = extensions" "ie_quotedSource e = s" "ie_quotedTarget e = t" "ie_quotedProtocol e = p" "ie_quotedPayload e = u"
    "if p \<in> {ProtocolTCP, ProtocolUDP} \<and> 4 \<le> length u then read16 u 0 = Some (ie_quotedSourcePort e) \<and> read16 u 2 = Some (ie_quotedTargetPort e)
     else ie_quotedSourcePort e = 0 \<and> ie_quotedTargetPort e = 0"
    using e by (auto simp: quotedPorts_def Option.bind_eq_Some_conv split: if_splits)
  have b: "bodyFields protocol body e = Some (e\<lparr>ie_mtu := writtenMTU protocol messageType code quote mtu, ie_pointer := pointer\<rparr>)"
    using bodyFields_written [of protocol e mtu pointer body following offset unit x] valid fit body k by simp
  have "parseICMPErrorFields big reporter protocol messageType code body =
      Some (Some (e\<lparr>ie_mtu := writtenMTU protocol messageType code quote mtu, ie_pointer := pointer\<rparr>))"
    unfolding parseICMPErrorFields_def if_not_P [OF g(1)] split Option.bind.bind_lunit option.case prod.case if_not_P [OF htl] view
      if_not_P [OF g(2)] e b by simp
  then show thesis using k by (intro that [of "e\<lparr>ie_mtu := writtenMTU protocol messageType code quote mtu, ie_pointer := pointer\<rparr>"]) simp_all
qed

lemma legacy_pad: "20 \<le> length bs \<Longrightarrow> legacyIPv4PathMTU (bs @ zs) = legacyIPv4PathMTU bs"
  by (auto simp: legacyIPv4PathMTU_def read16_append_in go_index_def nth_append)

lemma normalized:
  assumes "normalizeICMPAddresses a b = Some (s, t, protocol)"
  shows "s = unmapAddr a" "t = unmapAddr b" "addrZone s = []" "addrZone t = []" "is4 s = is4 t" "is4 s \<noteq> is6 s" "is4 t \<noteq> is6 t"
    "protocol = (if is4 s then ProtocolICMPv4 else ProtocolICMPv6)" "normalizeICMPAddresses s t = Some (s, t, protocol)"
proof -
  have z: "addrZone (unmapAddr x) = []" if "addrZone x = []" for x using that by (cases x) auto
  have k: "is4 x \<noteq> is6 x" if "isValidAddr x" for x using that by (cases x) (auto simp: isValidAddr_def)
  show "s = unmapAddr a" "t = unmapAddr b" "addrZone s = []" "addrZone t = []" "is4 s = is4 t" "is4 s \<noteq> is6 s" "is4 t \<noteq> is6 t"
    "protocol = (if is4 s then ProtocolICMPv4 else ProtocolICMPv6)" "normalizeICMPAddresses s t = Some (s, t, protocol)"
    using assms z k by (auto simp: normalizeICMPAddresses_def Let_def split: if_splits)
qed

text \<open>
  \<open>e'\<close> is what should be read back from an error built of \<open>e\<close>: the same type, code, pointer and extensions; the MTU, where an IPv4
  error without one gets the plateau below the quoted packet's length; the quoted packet, behind which at most seven zero octets of
  padding remain, and none when there are no extensions, when the quote is complete or when its length is a multiple of eight; and the
  addresses, protocol and payload that this quote shows.
\<close>

definition readBack :: "u8 \<Rightarrow> icmpError \<Rightarrow> icmpError \<Rightarrow> bool" where
  "readBack protocol e e' \<longleftrightarrow>
     ie_type e' = ie_type e \<and> ie_code e' = ie_code e \<and> ie_pointer e' = ie_pointer e \<and> ie_extensions e' = ie_extensions e \<and>
     ie_mtu e' = writtenMTU protocol (ie_type e) (ie_code e) (ie_quotedPacket e) (ie_mtu e) \<and>
     (\<exists>k. ie_quotedPacket e' = ie_quotedPacket e @ replicate k 0 \<and> k < 8 \<and>
        (ie_extensions e = [] \<or> 128 \<le> length (ie_quotedPacket e) \<and> length (ie_quotedPacket e) mod 8 = 0 \<or>
           quotedIPDeclaredLength (ie_quotedPacket e) = Some (Some (length (ie_quotedPacket e))) \<longrightarrow> k = 0)) \<and>
     quotedIPPayload (ie_quotedPacket e') =
       Some (Some (ie_quotedSource e', ie_quotedTarget e', ie_quotedProtocol e', ie_quotedPayload e')) \<and>
     (\<exists>u. quotedIPPayload (ie_quotedPacket e) = Some (Some (ie_quotedSource e', ie_quotedTarget e', ie_quotedProtocol e', u)) \<and>
        take (length u) (ie_quotedPayload e') = u)"

lemma read_plain:
  assumes v: "validICMPErrorCode protocol (ie_type e) (ie_code e)"
    and q: "quotedIPPayload (ie_quotedPacket e) = Some (Some (s, t, p, u))" "quoteInFamily protocol s t"
    and fit: "fieldsFit protocol (ie_type e) (ie_code e) (ie_mtu e) (ie_pointer e)"
    and plain: "ie_extensions e = []" "\<not> headersTooLong protocol (ie_type e) (ie_code e)"
  shows "\<exists>e'. parseICMPErrorFields big reporter protocol (ie_type e) (ie_code e)
      (errorFields protocol (ie_type e) (ie_code e) (ie_mtu e) (ie_pointer e) @ ie_quotedPacket e) = Some (Some e') \<and>
    ie_reporter e' = reporter \<and> readBack protocol e e'"
proof -
  have h: "\<not> (headersTooLong protocol (ie_type e) (ie_code e) \<and> \<not> False)" using plain by simp
  show ?thesis
    by (rule parse_written [OF v split_plain h q fit, where following = "ie_quotedPacket e" and reporter = reporter])
      (use q plain in \<open>auto simp: readBack_def\<close>)
qed

lemma writtenMTU_pad: "20 \<le> length quote \<Longrightarrow> writtenMTU protocol type code (quote @ zs) mtu = writtenMTU protocol type code quote mtu"
  by (simp add: writtenMTU_def legacy_pad)

lemma read_extended:
  assumes v: "validICMPErrorCode protocol (ie_type e) (ie_code e)"
    and q: "quotedIPPayload (ie_quotedPacket e) = Some (Some (s, t, p, u))" "quoteInFamily protocol s t"
    and fit: "fieldsFit protocol (ie_type e) (ie_code e) (ie_mtu e) (ie_pointer e)"
    and complete: "\<And>d. quotedIPDeclaredLength (ie_quotedPacket e) = Some (Some d) \<Longrightarrow> length (ie_quotedPacket e) \<le> d"
    and ext: "validateICMPExtensionObjects (ie_extensions e) = Some (hasPointer, True)" "length (ie_extensions e) \<le> 65535"
      "\<not> (headersTooLong protocol (ie_type e) (ie_code e) \<and> \<not> hasPointer)"
      "icmpExtensionQuoteLength protocol (ie_type e) (ie_quotedPacket e) = Some (Inr padded)"
      "icmpExtensionLayout protocol (ie_type e) = Some (offset, unit)"
  shows "\<exists>e'. parseICMPErrorFields big reporter protocol (ie_type e) (ie_code e) (extendedBody big protocol e padded offset unit) = Some (Some e') \<and>
    ie_reporter e' = reporter \<and> readBack protocol e e'"
proof -
  obtain j where j: "splitICMPErrorQuote big protocol (ie_type e) (extendedBody big protocol e padded offset unit) =
      Some (Some (ie_quotedPacket e @ replicate j 0, ie_extensions e, hasPointer))" "j < 8"
    "128 \<le> length (ie_quotedPacket e) \<and> length (ie_quotedPacket e) mod 8 = 0 \<or>
       quotedIPDeclaredLength (ie_quotedPacket e) = Some (Some (length (ie_quotedPacket e))) \<longrightarrow> j = 0"
    using split_extended [OF q(1) complete ext(4,5,1,2)] unfolding extendedBody_def by blast
  obtain u' where u': "quotedIPPayload (ie_quotedPacket e @ replicate j 0) = Some (Some (s, t, p, u'))" "take (length u) u' = u"
    using quotedIPPayload_pad [OF q(1)] by blast
  have l: "20 \<le> length (ie_quotedPacket e)" using quotedIPPayload_long [OF q(1)] by auto
  have b: "extendedBody big protocol e padded offset unit =
      (errorFields protocol (ie_type e) (ie_code e) (ie_mtu e) (ie_pointer e))[offset := of_nat (padded div unit)] @
      (ie_quotedPacket e @ replicate (padded - length (ie_quotedPacket e)) 0) @ marshalICMPExtensionStructure big (ie_extensions e)"
    by (simp add: extendedBody_def)
  have nonempty: "ie_extensions e \<noteq> []"
    using validateObjects_length [of "ie_extensions e" False hasPointer] ext(1) by (auto simp: validateICMPExtensionObjects_def)
  show ?thesis
    by (rule parse_written [OF v j(1) ext(3) u'(1) q(2) fit, where reporter = reporter])
      (use ext(5) b in blast, use q u' j l nonempty in \<open>auto simp: readBack_def writtenMTU_pad\<close>)
qed

text \<open>
  C6: an ICMP error that \<open>ICMPMessage\<close> builds is read back by \<open>ICMPMessage.ICMPError\<close> and, from its wire encoding, by the
  receive path of the stack alike, with the same reporter, type, code, pointer, MTU, extensions and quoted packet (up to the padding
  that \<open>readBack\<close> describes), provided the quote is not longer than the packet it quotes.
\<close>

theorem icmp_error_roundtrip:
  assumes built: "errorICMPMessage big e destination = Some (Inr m)"
    and quote: "\<And>d. quotedIPDeclaredLength (ie_quotedPacket e) = Some (Some d) \<Longrightarrow> length (ie_quotedPacket e) \<le> d"
    and received: "ip_payload r = marshalPublicICMPMessage big m" "ip_source r = im_source m"
      "ip_protocol r = (if is4 (im_source m) then ProtocolICMPv4 else ProtocolICMPv6)"
  shows "icmpAppendBinary big m [] = Inr (ip_payload r) \<and>
    (\<exists>e'. messageICMPError big m = Some (Inr e') \<and> parseICMPError big r = Some (Some e') \<and>
       ie_reporter e' = unmapAddr (ie_reporter e) \<and> readBack (ip_protocol r) e e')"
proof -
  obtain reporter dest protocol s t p u where
    n: "normalizeICMPAddresses (ie_reporter e) destination = Some (reporter, dest, protocol)"
    and v: "validICMPErrorCode protocol (ie_type e) (ie_code e)" and len: "length (ie_quotedPacket e) \<le> 65527"
    and q: "quotedIPPayload (ie_quotedPacket e) = Some (Some (s, t, p, u))" "quoteInFamily protocol s t"
    and fit: "fieldsFit protocol (ie_type e) (ie_code e) (ie_mtu e) (ie_pointer e)"
    and cases: "ie_extensions e = [] \<and> \<not> headersTooLong protocol (ie_type e) (ie_code e) \<and>
       m = \<lparr>im_source = reporter, im_destination = dest, im_type = ie_type e, im_code = ie_code e,
            im_body = errorFields protocol (ie_type e) (ie_code e) (ie_mtu e) (ie_pointer e) @ ie_quotedPacket e\<rparr> \<or>
     extendedErrorMessage big e reporter dest protocol = Some (Inr m)"
    by (rule Icmp_Error_Roundtrip.built [OF built]) blast
  note nm = normalized [OF n]
  have message: "im_source m = reporter \<and> im_destination m = dest \<and> im_type m = ie_type e \<and> im_code m = ie_code e \<and>
      4 \<le> length (im_body m) \<and> length (im_body m) \<le> 65531 \<and>
      (\<exists>e'. parseICMPErrorFields big reporter protocol (ie_type e) (ie_code e) (im_body m) = Some (Some e') \<and>
        ie_reporter e' = reporter \<and> readBack protocol e e')"
    using cases
  proof (elim disjE conjE)
    assume "ie_extensions e = []" "\<not> headersTooLong protocol (ie_type e) (ie_code e)"
      "m = \<lparr>im_source = reporter, im_destination = dest, im_type = ie_type e, im_code = ie_code e,
            im_body = errorFields protocol (ie_type e) (ie_code e) (ie_mtu e) (ie_pointer e) @ ie_quotedPacket e\<rparr>"
    then show ?thesis
      using read_plain [OF v q fit] len by simp
  next
    assume "extendedErrorMessage big e reporter dest protocol = Some (Inr m)"
    then show ?thesis
    proof (rule built_extended, goal_cases)
      case (1 hasPointer padded offset unit)
      have "4 \<le> length (extendedBody big protocol e padded offset unit)" by (simp add: extendedBody_def)
      then show ?case using read_extended [OF v q fit quote 1(1-5)] 1(6,7) by simp
    qed
  qed
  then have shape: "im_source m = reporter" "im_destination m = dest" "im_type m = ie_type e" "im_code m = ie_code e"
      "4 \<le> length (im_body m)" "length (im_body m) \<le> 65531"
    by simp_all
  obtain e' where e': "parseICMPErrorFields big reporter protocol (ie_type e) (ie_code e) (im_body m) = Some (Some e')"
    "ie_reporter e' = reporter" "readBack protocol e e'" using message by blast
  have w: "icmpWireLayout m = Inr (m, 4 + length (im_body m))" using shape nm(9) by (simp add: icmpWireLayout_def)
  have k: "(if is6 reporter then ProtocolICMPv6 else ProtocolICMPv4) = protocol" "ip_protocol r = protocol"
    using nm received(3) shape(1) by auto
  have "messageICMPError big m = Some (Inr e')" using w e'(1) shape k(1) by (simp add: messageICMPError_def)
  moreover have "parseICMPError big r = Some (Some e')"
    using e'(1) shape received k(2) by (simp add: parseICMPError_def marshalPublicICMPMessage_def Let_def go_index_def go_slice_def)
  moreover have "icmpAppendBinary big m [] = Inr (ip_payload r)" using w received(1) by (simp add: icmpAppendBinary_def)
  ultimately show ?thesis using e' nm(1) k(2) by auto
qed

theorem icmp_error_roundtrip_witness:
  "\<exists>m e'. errorICMPMessage False
       \<lparr>ie_reporter = Addr4 0xc0000201, ie_type = 3, ie_code = 3, ie_mtu = 0, ie_pointer = 0, ie_extensions = [0, 8, 1, 1, 1, 2, 3, 4],
        ie_quotedSource = AddrZero, ie_quotedTarget = AddrZero, ie_quotedProtocol = 0,
        ie_quotedPacket = [0x45, 0, 0, 28, 0, 0, 0, 0, 64, 17, 0, 0, 10, 0, 0, 1, 10, 0, 0, 2, 0, 53, 0, 80, 0, 8, 0, 0],
        ie_quotedPayload = [], ie_quotedSourcePort = 0, ie_quotedTargetPort = 0\<rparr> (Addr4 0x0a000001) = Some (Inr m) \<and>
     messageICMPError False m = Some (Inr e') \<and> ie_extensions e' = [0, 8, 1, 1, 1, 2, 3, 4] \<and> ie_quotedTarget e' = Addr4 0x0a000002 \<and>
     ie_quotedPacket e' = [0x45, 0, 0, 28, 0, 0, 0, 0, 64, 17, 0, 0, 10, 0, 0, 1, 10, 0, 0, 2, 0, 53, 0, 80, 0, 8, 0, 0]"
proof -
  let ?q = "[0x45, 0, 0, 28, 0, 0, 0, 0, 64, 17, 0, 0, 10, 0, 0, 1, 10, 0, 0, 2, 0, 53, 0, 80, 0, 8, 0, 0] :: bytes"
  let ?e = "\<lparr>ie_reporter = Addr4 0xc0000201, ie_type = 3, ie_code = 3, ie_mtu = 0, ie_pointer = 0, ie_extensions = [0, 8, 1, 1, 1, 2, 3, 4],
        ie_quotedSource = AddrZero, ie_quotedTarget = AddrZero, ie_quotedProtocol = 0, ie_quotedPacket = ?q,
        ie_quotedPayload = [], ie_quotedSourcePort = 0, ie_quotedTargetPort = 0\<rparr>"
  have d: "quotedIPDeclaredLength ?q = Some (Some 28)" by (simp add: quotedIPDeclaredLength_def go_index_def read16_def go_slice_def join16_def)
  have v: "quotedIPPayload ?q = Some (Some (Addr4 0x0a000001, Addr4 0x0a000002, 17, [0, 53, 0, 80, 0, 8, 0, 0]))"
    by (simp add: quotedIPPayload_def go_index_def read16_def go_slice_def join16_def join32_def)
  have x: "validateICMPExtensionObjects [0, 8, 1, 1, 1, 2, 3, 4] = Some (False, True)"
    by (simp add: validateICMPExtensionObjects_def validateObjects.simps nextObject_def icmp_sizes read16_def go_slice_def join16_def go_index_def
        objectPointer_def ICMPExtensionClassExtendedInformation_def)
  have l: "icmpExtensionLayout ProtocolICMPv4 3 = Some (1, 4)" by (simp add: icmpExtensionLayout_def icmp_kinds)
  have p: "icmpExtensionQuoteLength ProtocolICMPv4 3 ?q = Some (Inr 128)"
    by (simp add: icmpExtensionQuoteLength_def l d go_slice_def icmp_sizes)
  obtain m where m: "errorICMPMessage False ?e (Addr4 0x0a000001) = Some (Inr m)" and s: "im_source m = Addr4 0xc0000201"
    by (simp add: errorICMPMessage_def normalizeICMPAddresses_def isValidAddr_def validICMPErrorCode_def v icmpErrorFieldKinds_def quoteInFamily_def
        extendedErrorMessage_def x headersTooLong_def p [unfolded ProtocolICMPv4_def] l [unfolded ProtocolICMPv4_def] icmp_sizes icmp_kinds ICMPv4DestinationUnreachableCodePrecedenceCutoff_def go_slice_def marshal_body)
  show ?thesis
    using icmp_error_roundtrip [OF m, of "\<lparr>ip_source = im_source m, ip_target = AddrZero, ip_protocol = ProtocolICMPv4, ip_protocolOffset = 0, ip_parameter = None,
        ip_ecn = 0, ip_hopLimit = 0, ip_trafficClass = 0, ip_flowLabel = 0, ip_payload = marshalPublicICMPMessage False m, ip_original = []\<rparr>"] m d v s
    by (auto simp: readBack_def)
qed

end
