(* ===== verification/Icmp_Echo.thy ===== *)
theory Icmp_Echo
  imports Icmp_Error_Roundtrip
begin

text \<open>
  Echo: the checksum of a marshalled message verifies, the reply of the stack to an Echo request is the encoding of the semantic
  Echo reply, and the requester reads its identifier, sequence and data in it.
\<close>

section \<open>Checksums\<close>

definition icmpChecksum :: "bool \<Rightarrow> u8 \<Rightarrow> addr \<Rightarrow> addr \<Rightarrow> bytes \<Rightarrow> u16" where
  "icmpChecksum big protocol source target message =
     (if protocol = ProtocolICMPv4 then checksum big message else transportChecksum big source target ProtocolICMPv6 message)"

lemma icmp_checksum_valid:
  assumes n: "normalizeICMPAddresses a b = Some (s, t, protocol)" and l: "length body \<le> 65531"
  shows "icmpChecksum big protocol s t ([type, code] @ be_put16 (icmpChecksum big protocol s t ([type, code, 0, 0] @ body)) @ body) = 0"
proof (cases "is4 s")
  case True
  then have "protocol = ProtocolICMPv4" using normalized [OF n] by simp
  moreover have "checksum big ([type, code] @ be_put16 (checksum big ([type, code] @ 0 # 0 # body)) @ body) = 0"
    using l by (intro checksum_insert_zero) auto
  ultimately show ?thesis by (simp add: icmpChecksum_def)
next
  case False
  then have p: "protocol \<noteq> ProtocolICMPv4" using normalized [OF n] by (simp add: ProtocolICMPv4_def ProtocolICMPv6_def)
  have f: "same_family s t" using normalized [OF n] False by (auto simp: same_family_def)
  have u: "unmapAddr s = s" "unmapAddr t = t" using normalized(1,2) [OF n] by simp_all
  have r: "transportChecksum big s t ProtocolICMPv6 m = checksum big (pseudoHeader s t ProtocolICMPv6 (length m) @ m)" if "length m \<le> 65535" for m
    using that transportChecksum_eq [OF f u that] by (subst checksum_eq_ref) (auto simp: pseudoHeader_def split: addr.split)
  have suc4: "Suc (Suc (Suc (Suc n))) = n + 4" for n by simp
  let ?h = "pseudoHeader s t ProtocolICMPv6 (4 + length body) @ [type, code]"
  have "even (length ?h)" using even_pseudoHeader [OF f] by simp
  moreover have "length ?h \<le> 100" by (auto simp: pseudoHeader_def split: addr.split)
  ultimately have "checksum big (?h @ be_put16 (checksum big (?h @ 0 # 0 # body)) @ body) = 0" using l by (intro checksum_insert_zero) auto
  then show ?thesis using l p by (simp add: icmpChecksum_def r add.commute suc4)
qed

lemma marshal_eq:
  assumes "normalizeICMPAddresses a b = Some (im_source m, im_destination m, protocol)"
  shows "marshalPublicICMPMessage big m =
     [im_type m, im_code m] @ be_put16 (icmpChecksum big protocol (im_source m) (im_destination m) ([im_type m, im_code m, 0, 0] @ im_body m)) @ im_body m"
  using normalized [OF assms] by (auto simp: marshalPublicICMPMessage_def icmpChecksum_def Let_def ProtocolICMPv4_def ProtocolICMPv6_def)

section \<open>Reading a message from a packet\<close>

definition bareIPPacket :: "addr \<Rightarrow> addr \<Rightarrow> u8 \<Rightarrow> bytes \<Rightarrow> ipPacketPub \<Rightarrow> bool" where
  "bareIPPacket source target protocol payload p \<longleftrightarrow>
     pk_source p = source \<and> pk_destination p = target \<and> pk_protocol p = int (unat protocol) \<and> pk_payload p = payload \<and>
     pk_identification p = 0 \<and> \<not> pk_dontFragment p \<and> \<not> pk_moreFragments p \<and> pk_fragmentOffset p = 0 \<and> pk_ipv4Options p = []"

lemma packet_message:
  assumes n: "normalizeICMPAddresses a b = Some (im_source m, im_destination m, protocol)"
    and l: "4 \<le> length (im_body m)" "length (im_body m) \<le> 65531"
    and p: "bareIPPacket (im_source m) (im_destination m) protocol (marshalPublicICMPMessage big m) p"
  shows "packetICMPMessage big p = Some (Inr m)"
proof -
  let ?s = "im_source m" and ?t = "im_destination m" and ?w = "marshalPublicICMPMessage big m"
  note nm = normalized [OF n]
  have u: "unmapAddr ?s = ?s" "unmapAddr ?t = ?t" using nm(1,2) by simp_all
  have v: "isValidAddr ?s" "isValidAddr ?t" using nm by (auto simp: isValidAddr_def)
  have k: "(if is6 ?s then ProtocolICMPv6 else ProtocolICMPv4) = protocol" using nm by auto
  have pr: "unat protocol = 1 \<or> unat protocol = 58" using nm(8) by (simp add: ProtocolICMPv4_def ProtocolICMPv6_def)
  have walk: "walkIPv6UpperLayer 58 ?w = Some (Some (58, ?w, False, False))"
    unfolding walkIPv6UpperLayer_def
    by (subst walkUpper.simps) (simp add: ProtocolNoNextHeader_def isTraversableIPv6ExtensionHeader_def ipv6_header_kinds)
  have empty: "validIPv4OptionsForCodec [] = Some True" "hasActiveIPv4SourceRoute [] = Some False"
    by (simp_all add: validIPv4OptionsForCodec_def ipv4OptionsContentLength_def hasActiveIPv4SourceRoute_def walk4_done)
  have up: "upperLayerForProtocol p protocol = Some (Inr (?w, True))"
    using p u v nm pr walk empty
    by (auto simp: upperLayerForProtocol_def upperLayer_def bareIPPacket_def Let_def ProtocolICMPv4_def ProtocolICMPv6_def)
  have w: "?w = [im_type m, im_code m] @ be_put16 (icmpChecksum big protocol ?s ?t ([im_type m, im_code m, 0, 0] @ im_body m)) @ im_body m"
    by (rule marshal_eq [OF n])
  have c: "icmpChecksum big protocol ?s ?t ?w = 0" unfolding w by (rule icmp_checksum_valid [OF n l(2)])
  have v6: "protocol = ProtocolICMPv6 \<longleftrightarrow> is6 ?s" using nm by (auto simp: ProtocolICMPv4_def ProtocolICMPv6_def)
  have r: "go_index ?w 0 = Some (im_type m)" "go_index ?w 1 = Some (im_code m)" "go_slice ?w 4 (length ?w) = Some (im_body m)" "8 \<le> length ?w"
    using l unfolding w by (simp_all add: go_index_def go_slice_def)
  have "ProtocolICMPv6 \<noteq> ProtocolICMPv4" by (simp add: ProtocolICMPv4_def ProtocolICMPv6_def)
  then show ?thesis
    using p u up c r l v6 k by (auto simp: packetICMPMessage_def bareIPPacket_def Let_def icmpChecksum_def)
qed

section \<open>Echo\<close>

lemma echo_set:
  assumes "setEcho request identifier sequence data m = Inr m'"
  obtains s t protocol where "normalizeICMPAddresses (im_source m) (im_destination m) = Some (s, t, protocol)" "length data \<le> 65527"
    "m' = m\<lparr>im_type := icmpEchoMessageType (protocol = ProtocolICMPv6) request, im_code := 0, im_body := be_put16 identifier @ be_put16 sequence @ data\<rparr>"
  using assms by (auto simp: setEcho_def ICMPCodeNone_def split: option.splits if_splits)

lemma classify_echo:
  assumes "protocol = ProtocolICMPv4 \<or> protocol = ProtocolICMPv6" "4 \<le> n"
  shows "classifyICMPEcho protocol (icmpEchoMessageType (protocol = ProtocolICMPv6) request) 0 n = Some request"
  using assms by (auto simp: classifyICMPEcho_def icmpEchoMessageType_def ICMPCodeNone_def ProtocolICMPv4_def ProtocolICMPv6_def
      ICMPv4TypeEchoRequest_def ICMPv4TypeEchoReply_def ICMPv6TypeEchoRequest_def ICMPv6TypeEchoReply_def)

lemma echo_fields:
  assumes "echoKind m = Some b" "im_body m = be_put16 identifier @ be_put16 sequence @ data"
  shows "Echo m = Some (Some (identifier, sequence, data))"
  using assms read16_append [of 0 "[]" "identifier" "be_put16 sequence @ data"] read16_append [of 2 "be_put16 identifier" "sequence" "data"]
  by (simp add: Echo_def go_slice_def)

text \<open>
  C38: ping. When a request made by \<open>SetEchoRequest\<close> arrives at the stack as it was encoded, for a local address, the stack answers to its source,
  unless the rate limiter refuses, with the encoding of the request's \<open>EchoReply\<close>: the requester accepts its
  checksum and reads from it an Echo reply with the identifier, the sequence number and the data of the request.
\<close>

theorem echo_answered:
  assumes request: "SetEchoRequest identifier sequence data m0 = Inr m" and sent: "icmpAppendBinary big m [] = Inr (ip_payload r)"
    and received: "ip_source r = unmapAddr (im_source m)" "ip_target r = unmapAddr (im_destination m)"
      "ip_protocol r = (if is4 (ip_source r) then ProtocolICMPv4 else ProtocolICMPv6)"
  shows "handleICMP big False r True skipChecksum = Some IgnoreICMP \<and>
    (\<exists>reply send. handleICMP big True r True skipChecksum = Some (ReplyICMP send) \<and> EchoReply (im_destination m) m = Inr reply \<and>
       sn_source send = ip_target r \<and> sn_target send = ip_source r \<and> sn_protocol send = ip_protocol r \<and>
       icmpAppendBinary big reply [] = Inr (sn_payload send) \<and>
       (\<forall>p. bareIPPacket (ip_target r) (ip_source r) (ip_protocol r) (sn_payload send) p \<longrightarrow> packetICMPMessage big p = Some (Inr reply)) \<and>
       IsEchoReply reply \<and> Echo reply = Some (Some (identifier, sequence, data)))"
proof -
  let ?body = "be_put16 identifier @ be_put16 sequence @ data"
  obtain s t protocol where n: "normalizeICMPAddresses (im_source m0) (im_destination m0) = Some (s, t, protocol)" and l: "length data \<le> 65527"
    and m: "m = m0\<lparr>im_type := icmpEchoMessageType (protocol = ProtocolICMPv6) True, im_code := 0, im_body := ?body\<rparr>"
    using request unfolding SetEchoRequest_def by (rule echo_set)
  note nm = normalized [OF n]
  let ?T = "icmpEchoMessageType (protocol = ProtocolICMPv6)"
  let ?n = "m\<lparr>im_source := s, im_destination := t\<rparr>"
  define reply where "reply = \<lparr>im_source = t, im_destination = s, im_type = ?T False, im_code = 0, im_body = ?body\<rparr>"
  have n': "normalizeICMPAddresses t s = Some (t, s, protocol)" using nm by (auto simp: normalizeICMPAddresses_def Let_def isValidAddr_def split: if_splits)
  have pr: "protocol = ProtocolICMPv4 \<or> protocol = ProtocolICMPv6" "ProtocolICMPv4 \<noteq> ProtocolICMPv6" "ip_protocol r = protocol"
    "ip_source r = s" "ip_target r = t" "protocol = ProtocolICMPv4 \<longleftrightarrow> is4 s"
    using nm received m by (auto simp: ProtocolICMPv4_def ProtocolICMPv6_def)
  have layout: "icmpWireLayout m = Inr (?n, 8 + length data)" using n l by (simp add: icmpWireLayout_def m)
  have w: "ip_payload r = [?T True, 0] @ be_put16 (icmpChecksum big protocol s t ([?T True, 0, 0, 0] @ ?body)) @ ?body"
    using sent layout marshal_eq [of s t ?n protocol big] nm(9) by (simp add: icmpAppendBinary_def m)
  have v: "icmpChecksum big protocol s t (ip_payload r) = 0" unfolding w using l by (intro icmp_checksum_valid [OF n]) simp
  have lw: "length (ip_payload r) = 8 + length data" unfolding w by simp
  let ?echo = "[?T False, 0, 0, 0] @ ?body"
  have made: "makeICMPEchoReply protocol (ip_payload r) = Some (Some ?echo)"
    using classify_echo [OF pr(1), of "Suc (Suc (Suc (Suc (length data))))" True] unfolding w
    by (simp add: makeICMPEchoReply_def go_index_def be_put16_def)
  let ?out = "[?T False, 0] @ be_put16 (icmpChecksum big protocol t s ?echo) @ ?body"
  have checked: "replyChecksum big protocol t s ?echo = ?out"
    by (simp add: replyChecksum_def putChecksum_def icmpChecksum_def)
  have handle: "handleICMP big allow r True skipChecksum =
      Some (if \<not> allow then IgnoreICMP else ReplyICMP \<lparr>sn_source = t, sn_target = s, sn_protocol = protocol, sn_payload = ?out, sn_allowFragment = True\<rparr>)"
    for allow
    using v made checked pr lw by (auto simp: handleICMP_def Let_def icmpChecksum_def)
  have kind: "echoKind reply = Some False" using classify_echo [OF pr(1), of "Suc (Suc (Suc (Suc (length data))))" False] n' by (simp add: echoKind_def reply_def)
  have rl: "icmpWireLayout reply = Inr (reply, 8 + length data)" using n' l by (simp add: icmpWireLayout_def reply_def)
  have out: "marshalPublicICMPMessage big reply = ?out" using marshal_eq [of t s reply protocol big] n' by (simp add: reply_def)
  have request_kind: "echoKind ?n = Some True" using classify_echo [OF pr(1), of "Suc (Suc (Suc (Suc (length data))))" True] nm(9) by (simp add: echoKind_def m)
  have dest: "addrZone (im_destination m) = []" "unmapAddr (im_destination m) = t" "isValidAddr t" "is6 t = (protocol = ProtocolICMPv6)"
    using n nm pr by (auto simp: m normalizeICMPAddresses_def Let_def split: if_splits)
  have semantic: "EchoReply (im_destination m) m = Inr reply"
    using layout request_kind dest nm by (simp add: EchoReply_def IsEchoRequest_def reply_def m)
  have read: "packetICMPMessage big p = Some (Inr reply)" if "bareIPPacket t s protocol ?out p" for p
    using packet_message [of t s reply protocol big p] n' l out that by (simp add: reply_def)
  show ?thesis
    using handle [of False] handle [of True] semantic read kind echo_fields [OF kind, of "identifier" "sequence" "data"] rl out pr
    by (simp add: IsEchoReply_def icmpAppendBinary_def) (simp add: reply_def)
qed

theorem echo_answered_witness:
  "\<exists>m r reply send. SetEchoRequest 7 1 [1, 2, 3]
       \<lparr>im_source = Addr4 0x0a000001, im_destination = Addr4 0x0a000002, im_type = 0, im_code = 0, im_body = []\<rparr> = Inr m \<and>
     icmpAppendBinary False m [] = Inr (ip_payload r) \<and> handleICMP False True r True False = Some (ReplyICMP send) \<and>
     EchoReply (Addr4 0x0a000002) m = Inr reply \<and> Echo reply = Some (Some (7, 1, [1, 2, 3]))"
proof -
  let ?base = "\<lparr>im_source = Addr4 0x0a000001, im_destination = Addr4 0x0a000002, im_type = 0, im_code = 0, im_body = []\<rparr>"
  let ?m = "?base\<lparr>im_type := 8, im_body := be_put16 7 @ be_put16 1 @ [1, 2, 3]\<rparr>"
  let ?r = "\<lparr>ip_source = Addr4 0x0a000001, ip_target = Addr4 0x0a000002, ip_protocol = ProtocolICMPv4, ip_protocolOffset = 0, ip_parameter = None,
        ip_ecn = 0, ip_hopLimit = 0, ip_trafficClass = 0, ip_flowLabel = 0, ip_payload = marshalPublicICMPMessage False ?m, ip_original = []\<rparr>"
  have m: "SetEchoRequest 7 1 [1, 2, 3] ?base = Inr ?m"
    by (simp add: SetEchoRequest_def setEcho_def normalizeICMPAddresses_def isValidAddr_def icmpEchoMessageType_def ICMPv4TypeEchoRequest_def
        ICMPCodeNone_def ProtocolICMPv4_def ProtocolICMPv6_def)
  have w: "icmpAppendBinary False ?m [] = Inr (ip_payload ?r)"
    by (simp add: icmpAppendBinary_def icmpWireLayout_def normalizeICMPAddresses_def isValidAddr_def)
  have d: "im_destination ?m = Addr4 0x0a000002" by simp
  obtain reply send where r: "handleICMP False True ?r True False = Some (ReplyICMP send)" "EchoReply (im_destination ?m) ?m = Inr reply"
    "Echo reply = Some (Some (7, 1, [1, 2, 3]))"
    using echo_answered [OF m w, of False] by auto
  show ?thesis
    by (rule exI [of _ ?m], rule exI [of _ ?r], rule exI [of _ reply], rule exI [of _ send])
      (intro conjI m w r(1) r(2) [unfolded d] r(3))
qed

end
