(* ===== verification/Icmp_Sent.thy ===== *)
theory Icmp_Sent
  imports Icmp_Echo
begin

text \<open>
  The errors that the stack sends about a received packet are bounded, are not sent about errors, and are read by their receiver.
\<close>

section \<open>What the receive path gives\<close>

definition keeps :: "ipPacket \<Rightarrow> ipPacket \<Rightarrow> bool" where
  "keeps base r \<longleftrightarrow> ip_source r = ip_source base \<and> ip_target r = ip_target base \<and> ip_original r = ip_original base \<and>
     (\<forall>code at. ip_parameter base = None \<longrightarrow> ip_parameter r = Some (code, at) \<longrightarrow> code \<le> 2)"

lemma keeps_problem: "code \<le> 2 \<Longrightarrow> keeps base (problem6 base code at)"
  by (simp add: keeps_def problem6_def)

lemma receiveChain_facts: "receiveChain base payload nxt offset previous sh = Some (Some r) \<Longrightarrow> keeps base r"
proof (induction "length payload - offset" arbitrary: nxt offset previous sh rule: less_induct)
  case less
  have unit8: "\<exists>header. go_slice payload offset (offset + len) = Some header \<and> go_index header 0 = Some (header ! 0) \<and>
      go_index header 3 = Some (header ! 3) \<and>
      (\<forall>nxt' previous' sh'. receiveChain base payload nxt' (offset + len) previous' sh' = Some (Some r) \<longrightarrow> keeps base r)"
    if len: "ipv6ExtensionHeaderUnit8Length (drop offset payload) = Some len" for len
    using ipv6ExtensionHeaderUnit8Length_le [OF len] less(1) [OF unit8_step [OF len]] by (auto simp: go_slice_def go_index_def)
  consider "nxt = IPv6ExtensionHeaderHopByHop \<or> nxt = IPv6ExtensionHeaderDestination" | "nxt = IPv6ExtensionHeaderRouting"
    | "nxt = IPv6ExtensionHeaderFragment" | "nxt \<notin> {IPv6ExtensionHeaderHopByHop, IPv6ExtensionHeaderDestination,
      IPv6ExtensionHeaderRouting, IPv6ExtensionHeaderFragment}" by blast
  then show ?case
  proof cases
    case 1
    show ?thesis
    proof (cases "ipv6ExtensionHeaderUnit8Length (drop offset payload)")
      case None
      with 1 less(2) show ?thesis by (subst (asm) receiveChain.simps) (auto simp: keeps_problem split: if_splits)
    next
      case (Some len)
      obtain header where h: "go_slice payload offset (offset + len) = Some header" "go_index header 0 = Some (header ! 0)"
        "\<And>nxt' previous' sh'. receiveChain base payload nxt' (offset + len) previous' sh' = Some (Some r) \<Longrightarrow> keeps base r"
        using unit8 [OF Some] by blast
      obtain ins where ins: "inspectIPv6Options header = Some ins" using option_loops_total(11) by blast
      show ?thesis using less(2)
        by (subst (asm) receiveChain.simps) (auto simp: 1 Some h(1,2) ins keeps_problem split: sum.splits prod.splits if_splits intro: h(3))
    qed
  next
    case 2
    then have k: "nxt \<noteq> IPv6ExtensionHeaderHopByHop" "nxt \<noteq> IPv6ExtensionHeaderDestination" by (simp_all add: ipv6_header_kinds)
    show ?thesis
    proof (cases "ipv6ExtensionHeaderUnit8Length (drop offset payload)")
      case None
      with 2 k less(2) show ?thesis by (subst (asm) receiveChain.simps) simp
    next
      case (Some len)
      obtain header where h: "go_slice payload offset (offset + len) = Some header" "go_index header 0 = Some (header ! 0)"
        "go_index header 3 = Some (header ! 3)"
        "\<And>nxt' previous' sh'. receiveChain base payload nxt' (offset + len) previous' sh' = Some (Some r) \<Longrightarrow> keeps base r"
        using unit8 [OF Some] by blast
      show ?thesis using 2 k less(2)
        by (subst (asm) receiveChain.simps) (auto simp: Some h(1-3) keeps_problem split: if_splits intro: h(4))
    qed
  next
    case 3
    then have k: "nxt \<noteq> IPv6ExtensionHeaderHopByHop" "nxt \<noteq> IPv6ExtensionHeaderDestination" "nxt \<noteq> IPv6ExtensionHeaderRouting"
      by (simp_all add: ipv6_header_kinds)
    show ?thesis
    proof (cases "length payload - offset < 8")
      case True
      with 3 k less(2) show ?thesis by (subst (asm) receiveChain.simps) simp
    next
      case False
      let ?h = "take 8 (drop offset payload)"
      have h: "go_slice payload offset (offset + 8) = Some ?h" "go_index ?h 0 = Some (?h ! 0)"
        using False by (simp_all add: go_slice_def go_index_def)
      obtain field where f: "read16 ?h 2 = Some field" using False read16_total [of 2 ?h] by auto
      have ih: "receiveChain base payload nxt' (offset + 8) previous' sh' = Some (Some r) \<Longrightarrow> keeps base r" for nxt' previous' sh'
        using less(1) [of "offset + 8" nxt' previous' sh'] False by simp
      show ?thesis using 3 k False less(2) by (subst (asm) receiveChain.simps) (auto simp: h f split: if_splits intro: ih)
    qed
  next
    case 4
    with less(2) show ?thesis by (subst (asm) receiveChain.simps) (auto simp: keeps_def accept6_def)
  qed
qed

lemma malformedBody_bound:
  "malformedBody options kind offset len st = Some (Stop (Some v)) \<Longrightarrow> offset < length options \<Longrightarrow> v \<le> length options + 3"
  by (auto simp: malformedBody_def recordRouteBody_def timestampOptionBody_def Let_def Option.bind_eq_Some_conv split: if_splits)

lemma malformed_bound:
  "walk4 (\<lambda>seen. seen) (\<lambda>_ _. None) (\<lambda>offset _. Some offset) (\<lambda>_. None) (malformedBody options) options offset st = Some (Some v) \<Longrightarrow>
   v \<le> length options + 3"
proof (induction "length options - offset" arbitrary: offset st rule: less_induct)
  case less
  have step: "offset < length options \<Longrightarrow> 0 < n \<Longrightarrow>
      walk4 (\<lambda>seen. seen) (\<lambda>_ _. None) (\<lambda>offset _. Some offset) (\<lambda>_. None) (malformedBody options) options (offset + n) st' = Some (Some v) \<Longrightarrow>
      v \<le> length options + 3" for n st'
    by (rule less(1)) auto
  show ?case
  proof (cases "offset < length options")
    case False
    then show ?thesis using less(2) by (subst (asm) walk4.simps) simp
  next
    case True
    let ?len = "ipv4HeaderOptionLength (drop offset options)"
    consider "options ! offset = IPv4HeaderOptionEnd" | "options ! offset = IPv4HeaderOptionNOP" "options ! offset \<noteq> IPv4HeaderOptionEnd"
      | "options ! offset \<noteq> IPv4HeaderOptionNOP" "options ! offset \<noteq> IPv4HeaderOptionEnd" by blast
    then show ?thesis
    proof cases
      case 1
      then show ?thesis using less(2) True by (subst (asm) walk4.simps) (simp add: go_index_def)
    next
      case 2
      then show ?thesis using less(2) True step [of 1 st] by (subst (asm) walk4.simps) (simp add: go_index_def)
    next
      case 3
      show ?thesis
      proof (cases "?len = 0")
        case True
        then show ?thesis using 3 less(2) \<open>offset < length options\<close> by (subst (asm) walk4.simps) (simp add: go_index_def)
      next
        case False
        show ?thesis
        proof (cases "malformedBody options (options ! offset) offset ?len st")
          case None
          then show ?thesis using 3 less(2) True False by (subst (asm) walk4.simps) (simp add: go_index_def Let_def)
        next
          case (Some w)
          then show ?thesis using 3 less(2) True False malformedBody_bound [of options "options ! offset" offset ?len st v] step [of ?len]
            by (subst (asm) walk4.simps) (cases w, auto simp: go_index_def Let_def)
        qed
      qed
    qed
  qed
qed

lemma addrFrom4_ok: "length bs = 4 \<Longrightarrow> \<exists>a. addrFrom4 bs = Addr4 a"
  by (cases bs rule: addrFrom4.cases) auto

lemma if_rejects: "(if c then Some None else x) = Some (Some r) \<Longrightarrow> \<not> c"
  by auto

lemma receive4_facts:
  assumes "receive4 big packet skip = Some (Some r)" "drop_bit 4 (packet ! 0) = 4"
  shows "\<exists>a b. ip_source r = Addr4 a \<and> ip_target r = Addr4 b" "ip_original r \<noteq> []" "drop_bit 4 (ip_original r ! 0) = 4"
    "ip_parameter r = Some (code, at) \<Longrightarrow> code = 0 \<and> at \<le> 255"
proof -
  have g: "\<not> length packet < 20" using assms(1) by (auto simp: receive4_def)
  let ?h = "unat (packet ! 0 AND 0x0f) * 4"
  obtain t where t: "read16 packet 2 = Some t" using read16_total [of 2 packet] g by auto
  obtain f where f: "read16 packet 6 = Some f" using read16_total [of 6 packet] g by auto
  have i: "go_index packet 0 = Some (packet ! 0)" "go_index packet 1 = Some (packet ! 1)" "go_index packet 8 = Some (packet ! 8)"
    "go_index packet 9 = Some (packet ! 9)"
    using g by (cases packet, simp_all add: go_index_def)
  note r1 = assms(1) [unfolded receive4_def if_not_P [OF g] i(1) Option.bind.bind_lunit Let_def t f]
  have h: "\<not> (?h < 20 \<or> unat t < ?h \<or> unat t > length packet \<or> f AND 0xbfff \<noteq> 0)" by (rule if_rejects [OF r1])
  have sl: "go_slice packet 0 ?h = Some (take ?h packet)" "go_slice packet 12 16 = Some (take 4 (drop 12 packet))"
    "go_slice packet 16 20 = Some (take 4 (drop 16 packet))" "go_slice packet ?h (unat t) = Some (take (unat t - ?h) (drop ?h packet))"
    "go_slice packet 0 (unat t) = Some (take (unat t) packet)" "go_slice packet 20 ?h = Some (take (?h - 20) (drop 20 packet))"
    using g h by (simp_all add: go_slice_def)
  note r2 = r1 [unfolded if_not_P [OF h] sl Option.bind.bind_lunit]
  have c: "\<not> (\<not> skip \<and> checksum big (take ?h packet) \<noteq> 0)" by (rule if_rejects [OF r2])
  let ?options = "take (?h - 20) (drop 20 packet)"
  obtain m where m: "(if ?h > 20 then malformedIPv4Option ?options else Some None) = Some m"
    using option_loops_total(5) [of ?options] by (cases "?h > 20") (simp, blast, simp)
  obtain v where v: "(if ?h > 20 then validateIPv4Options ?options else Some True) = Some v"
    using option_loops_total(6) [of ?options] by (cases "?h > 20") (simp, blast, simp)
  have "unat (packet ! 0 AND 0x0f) \<le> 15" using word_and_le1 [of "packet ! 0" "0x0f"] by (simp add: word_le_nat_alt)
  then have ol: "length ?options \<le> 40" by simp
  have b: "at \<le> 43" if "m = Some at" for at
  proof -
    have "malformedIPv4Option ?options = Some (Some at)" using m that by (cases "?h > 20") simp_all
    from malformed_bound [OF this [unfolded malformedIPv4Option_def]] show ?thesis using ol by linarith
  qed
  obtain a b where ab: "addrFrom4 (take 4 (drop 12 packet)) = Addr4 a" "addrFrom4 (take 4 (drop 16 packet)) = Addr4 b"
    using addrFrom4_ok [of "take 4 (drop 12 packet)"] addrFrom4_ok [of "take 4 (drop 16 packet)"] g by auto
  have r: "(case m of
                Some optionAt \<Rightarrow>
                  Some \<lparr>ip_source = Addr4 a, ip_target = Addr4 b, ip_protocol = 0, ip_protocolOffset = 0,
                    ip_parameter = Some (0, 20 + optionAt), ip_ecn = 0, ip_hopLimit = 0, ip_trafficClass = 0,
                    ip_flowLabel = 0, ip_payload = [], ip_original = take (unat t) packet\<rparr>
              | None \<Rightarrow>
                  if \<not> v then None
                  else Some \<lparr>ip_source = Addr4 a, ip_target = Addr4 b, ip_protocol = packet ! 9,
                    ip_protocolOffset = 9, ip_parameter = None, ip_ecn = packet ! 1 AND 3, ip_hopLimit = packet ! 8,
                    ip_trafficClass = packet ! 1, ip_flowLabel = 0, ip_payload = take (unat t - ?h) (drop ?h packet),
                    ip_original = take (unat t) packet\<rparr>) = Some r"
    using r2 unfolding if_not_P [OF c] i Option.bind.bind_lunit m v ab by simp
  have o: "take (unat t) packet \<noteq> []" "take (unat t) packet ! 0 = packet ! 0" using h g by (cases packet, auto)
  show "\<exists>a b. ip_source r = Addr4 a \<and> ip_target r = Addr4 b" "ip_original r \<noteq> []" "drop_bit 4 (ip_original r ! 0) = 4"
    "ip_parameter r = Some (code, at) \<Longrightarrow> code = 0 \<and> at \<le> 255"
    using r o b assms(2) by (auto split: option.splits if_splits)
qed

lemma receive6_facts:
  assumes "receive6 packet = Some (Some r)" "drop_bit 4 (packet ! 0) = 6"
  shows "\<exists>a b. ip_source r = Addr6 a [] \<and> ip_target r = Addr6 b [] \<and> drop_bit 32 a \<noteq> 0xffff \<and> drop_bit 32 b \<noteq> 0xffff"
    "ip_original r \<noteq> []" "drop_bit 4 (ip_original r ! 0) = 6" "ip_parameter r = Some (code, at) \<Longrightarrow> code \<le> 2"
proof -
  have g: "\<not> length packet < 40" using assms(1) by (auto simp: receive6_def)
  then have ne: "packet \<noteq> []" by (cases packet) auto
  obtain t where t: "read16 packet 4 = Some t" using read16_total [of 4 packet] g by auto
  obtain low where low: "read16 packet 2 = Some low" using read16_total [of 2 packet] g by auto
  note r1 = assms(1) [unfolded receive6_def if_not_P [OF g] t Option.bind.bind_lunit Let_def]
  have h: "\<not> 40 + unat t > length packet" by (rule if_rejects [OF r1])
  let ?s = "take 16 (drop 8 packet)" and ?d = "take 16 (drop 24 packet)"
  have m: "\<not> (is4In6 (addrFrom16 ?s) \<or> is4In6 (addrFrom16 ?d))"
  proof (rule if_rejects)
    show "(if is4In6 (addrFrom16 ?s) \<or> is4In6 (addrFrom16 ?d) then Some None else receive6 packet) = Some (Some r)"
      using r1 assms(1) g unfolding if_not_P [OF h] by (auto simp: go_slice_def)
  qed
  obtain base where base: "receiveChain base (take (unat t) (drop 40 packet)) (packet ! 6) 0 None False = Some (Some r)"
    "ip_source base = addrFrom16 ?s" "ip_target base = addrFrom16 ?d" "ip_parameter base = None" "ip_original base = take (40 + unat t) packet"
    using assms(1) g t h m low ne by (auto simp: receive6_def go_index_def go_slice_def Let_def)
  have k: "keeps base r" by (rule receiveChain_facts [OF base(1)])
  have o: "take (40 + unat t) packet \<noteq> []" "take (40 + unat t) packet ! 0 = packet ! 0" using ne by auto
  show "\<exists>a b. ip_source r = Addr6 a [] \<and> ip_target r = Addr6 b [] \<and> drop_bit 32 a \<noteq> 0xffff \<and> drop_bit 32 b \<noteq> 0xffff"
    "ip_original r \<noteq> []" "drop_bit 4 (ip_original r ! 0) = 6" "ip_parameter r = Some (code, at) \<Longrightarrow> code \<le> 2"
    using k o m base assms(2) by (auto simp: keeps_def addrFrom16_def)
qed

lemma received_facts:
  assumes "parseIPPacket big packet skip = Some (Some r)"
  shows "ip_original r \<noteq> []"
    "\<exists>protocol. normalizeICMPAddresses (ip_target r) (ip_source r) = Some (ip_target r, ip_source r, protocol)"
    "drop_bit 4 (ip_original r ! 0) = (if is4 (ip_source r) then 4 else 6)"
    "ip_parameter r = Some (code, at) \<Longrightarrow> code \<le> 2 \<and> (is4 (ip_source r) \<longrightarrow> at \<le> 255)"
proof -
  have n: "packet \<noteq> []" using assms by (auto simp: parseIPPacket_def)
  consider (v4) "drop_bit 4 (packet ! 0) = 4" "receive4 big packet skip = Some (Some r)"
    | (v6) "drop_bit 4 (packet ! 0) = 6" "receive6 packet = Some (Some r)"
    using assms n by (auto simp: parseIPPacket_def go_index_def split: if_splits)
  then have "ip_original r \<noteq> [] \<and> (\<exists>protocol. normalizeICMPAddresses (ip_target r) (ip_source r) = Some (ip_target r, ip_source r, protocol)) \<and>
    drop_bit 4 (ip_original r ! 0) = (if is4 (ip_source r) then 4 else 6) \<and>
    (ip_parameter r = Some (code, at) \<longrightarrow> code \<le> 2 \<and> (is4 (ip_source r) \<longrightarrow> at \<le> 255))"
  proof cases
    case v4
    note f = receive4_facts [OF v4(2,1)]
    obtain a b where "ip_source r = Addr4 a" "ip_target r = Addr4 b" using f(1) by blast
    then show ?thesis using f(2,3) f(4) [of code at] by (auto simp: normalizeICMPAddresses_def isValidAddr_def)
  next
    case v6
    note f = receive6_facts [OF v6(2,1)]
    obtain a b where "ip_source r = Addr6 a []" "ip_target r = Addr6 b []" "drop_bit 32 a \<noteq> 0xffff" "drop_bit 32 b \<noteq> 0xffff"
      using f(1) by blast
    then show ?thesis using f(2,3) f(4) [of code at] by (auto simp: normalizeICMPAddresses_def isValidAddr_def)
  qed
  then show "ip_original r \<noteq> []"
    "\<exists>protocol. normalizeICMPAddresses (ip_target r) (ip_source r) = Some (ip_target r, ip_source r, protocol)"
    "drop_bit 4 (ip_original r ! 0) = (if is4 (ip_source r) then 4 else 6)"
    "ip_parameter r = Some (code, at) \<Longrightarrow> code \<le> 2 \<and> (is4 (ip_source r) \<longrightarrow> at \<le> 255)"
    by blast+
qed

section \<open>Errors of the stack\<close>

lemma read_sent:
  assumes n: "normalizeICMPAddresses source target = Some (source, target, protocol)"
    and v: "validICMPErrorCode protocol type code" and fit: "fieldsFit protocol type code 0 pointer" "\<not> headersTooLong protocol type code"
    and q: "quotedIPPayload quote = Some (Some (s, t, p, u))" "quoteInFamily protocol s t"
    and received: "send = writeICMPError big source target type code 0 pointer quote" "ip_payload r = sn_payload send"
      "ip_source r = sn_source send" "ip_protocol r = sn_protocol send"
  shows "\<exists>e. parseICMPError big r = Some (Some e) \<and> ie_reporter e = source \<and> ie_type e = type \<and> ie_code e = code \<and> ie_pointer e = pointer \<and>
    ie_quotedPacket e = quote \<and> ie_quotedSource e = s \<and> ie_quotedTarget e = t \<and> ie_quotedProtocol e = p \<and> ie_quotedPayload e = u"
proof -
  let ?e = "\<lparr>ie_reporter = source, ie_type = type, ie_code = code, ie_mtu = 0, ie_pointer = pointer, ie_extensions = [],
     ie_quotedSource = s, ie_quotedTarget = t, ie_quotedProtocol = p, ie_quotedPacket = quote, ie_quotedPayload = u,
     ie_quotedSourcePort = 0, ie_quotedTargetPort = 0\<rparr>"
  have b: "marshalICMPErrorBody (replicate (4 + length quote) 0) protocol type code 0 pointer quote = errorFields protocol type code 0 pointer @ quote"
    by (subst marshal_body) simp_all
  have pr: "(if is6 source then ProtocolICMPv6 else ProtocolICMPv4) = protocol" using normalized [OF n] by auto
  obtain e where e: "parseICMPErrorFields big source protocol type code (errorFields protocol type code 0 pointer @ quote) = Some (Some e)"
    "ie_reporter e = source" "readBack protocol ?e e"
    using read_plain [of protocol ?e s t p u big source] v q fit by auto
  have w: "ip_payload r = [type, code] @ be_put16 (icmpChecksum big protocol source target ([type, code, 0, 0] @ errorFields protocol type code 0 pointer @ quote)) @
      errorFields protocol type code 0 pointer @ quote"
    using received(1,2) pr b marshal_eq [of source target
        "\<lparr>im_source = source, im_destination = target, im_type = type, im_code = code, im_body = errorFields protocol type code 0 pointer @ quote\<rparr>" protocol big] n
    by (simp add: writeICMPError_def Let_def)
  have src: "ip_source r = source" "ip_protocol r = protocol" using received pr by (simp_all add: writeICMPError_def Let_def)
  have "parseICMPError big r = Some (Some e)" using e(1) src unfolding parseICMPError_def w by (simp add: go_index_def go_slice_def)
  then show ?thesis using e(2,3) q(1) by (auto simp: readBack_def)
qed

lemma length_writeICMPError: "length (sn_payload (writeICMPError big source target type code mtu pointer quote)) = 8 + length quote"
proof -
  have "marshalICMPErrorBody (replicate (4 + length quote) 0) protocol type code mtu pointer quote = errorFields protocol type code mtu pointer @ quote"
    for protocol by (subst marshal_body) simp_all
  then show ?thesis by (simp add: writeICMPError_def marshalPublicICMPMessage_def Let_def)
qed

lemma length_quote:
  "icmpErrorQuote packet ipv6 = Some quote \<Longrightarrow> length quote \<le> (if ipv6 then 1232 else 68)"
proof -
  have "unat (b AND 0x0f :: u8) \<le> 15" for b
    using word_and_le1 [of b "0x0f"] by (simp add: word_le_nat_alt)
  from this [of "packet ! 0"] show "icmpErrorQuote packet ipv6 = Some quote \<Longrightarrow> length quote \<le> (if ipv6 then 1232 else 68)"
    by (auto simp: icmpErrorQuote_def go_index_def go_slice_def Let_def ipv6MinimumMTU_def split: if_splits)
qed

text \<open>The kinds of error that the senders choose.\<close>

definition sentKind :: "u8 \<Rightarrow> u8 \<times> u8 \<times> u32 \<Rightarrow> bool" where
  "sentKind protocol kind \<longleftrightarrow>
     (let (type, code, pointer) = kind
      in validICMPErrorCode protocol type code \<and> \<not> headersTooLong protocol type code \<and> fieldsFit protocol type code 0 pointer)"

lemma answer_sent:
  assumes "answerWithError big r v4 v6 = Some (Inr (Some send))"
  obtains type code pointer quote where "(type, code, pointer) = (if is4 (ip_source r) then v4 else v6)"
    "icmpErrorQuote (ip_original r) (\<not> is4 (ip_source r)) = Some quote"
    "send = writeICMPError big (ip_target r) (ip_source r) type code 0 pointer quote"
  using assms by (cases "if is4 (ip_source r) then v4 else v6") (auto simp: answerWithError_def Let_def split: if_splits)

lemma sent_administrative:
  assumes "sendAdministrativeUnreachable big network allow r = Some (Inr (Some send))"
  shows "answerWithError big r (ICMPv4TypeDestinationUnreachable, ICMPv4DestinationUnreachableCodeCommunicationAdministrativelyProhibited, 0) (ICMPv6TypeDestinationUnreachable, ICMPv6DestinationUnreachableCodeAdministrativelyProhibited, 0) = Some (Inr (Some send))" "allow" "packetInvokesICMPError (ip_original r) = Some False"
  using assms by (auto simp: sendAdministrativeUnreachable_def Option.bind_eq_Some_conv split: if_splits)

lemma sent_port:
  assumes "sendPortUnreachable big network allow r = Some (Inr (Some send))"
  shows "answerWithError big r (ICMPv4TypeDestinationUnreachable, ICMPv4DestinationUnreachableCodePort, 0) (ICMPv6TypeDestinationUnreachable, ICMPv6DestinationUnreachableCodePort, 0) = Some (Inr (Some send))" "allow"
  using assms by (auto simp: sendPortUnreachable_def split: if_splits)

lemma sent_protocol:
  assumes "sendProtocolUnreachable big network allow r = Some (Inr (Some send))"
  shows "answerWithError big r (ICMPv4TypeDestinationUnreachable, ICMPv4DestinationUnreachableCodeProtocol, 0) (ICMPv6TypeParameterProblem, ICMPv6ParameterProblemCodeUnrecognizedNextHeader, of_nat (ip_protocolOffset r)) = Some (Inr (Some send))" "allow"
  using assms by (auto simp: sendProtocolUnreachable_def split: if_splits)

lemma sent_parameter:
  assumes "sendParameterProblem big allow r = Some (Inr (Some send))" "(case ip_parameter r of None \<Rightarrow> (0, 0) | Some p \<Rightarrow> p) = (code, at)"
  shows "answerWithError big r (ICMPv4TypeParameterProblem, code, of_nat at) (ICMPv6TypeParameterProblem, code, of_nat at) = Some (Inr (Some send))"
    "allow" "packetInvokesICMPError (ip_original r) = Some False"
  using assms(1) unfolding sendParameterProblem_def assms(2) Let_def prod.case
  by (auto simp: Option.bind_eq_Some_conv split: if_splits)

lemma senders:
  assumes reply: "reply \<in> {sendAdministrativeUnreachable big network allow r, sendPortUnreachable big network allow r,
      sendProtocolUnreachable big network allow r, sendParameterProblem big allow r}" "reply = Some (Inr (Some send))"
    and protocol: "protocol = (if is4 (ip_source r) then ProtocolICMPv4 else ProtocolICMPv6)"
    and problem: "\<And>code at. ip_parameter r = Some (code, at) \<Longrightarrow> code \<le> 2 \<and> (is4 (ip_source r) \<longrightarrow> at \<le> 255)"
  obtains type code pointer quote where "sentKind protocol (type, code, pointer)" "allow"
    "icmpErrorQuote (ip_original r) (\<not> is4 (ip_source r)) = Some quote"
    "send = writeICMPError big (ip_target r) (ip_source r) type code 0 pointer quote"
proof -
  have one: "\<exists>type code pointer quote. sentKind protocol (type, code, pointer) \<and>
      icmpErrorQuote (ip_original r) (\<not> is4 (ip_source r)) = Some quote \<and>
      send = writeICMPError big (ip_target r) (ip_source r) type code 0 pointer quote"
    if "answerWithError big r v4 v6 = Some (Inr (Some send))" "sentKind protocol (if is4 (ip_source r) then v4 else v6)" for v4 v6
  proof (rule answer_sent [OF that(1)])
    fix type code pointer quote
    assume k: "(type, code, pointer) = (if is4 (ip_source r) then v4 else v6)"
      and q: "icmpErrorQuote (ip_original r) (\<not> is4 (ip_source r)) = Some quote"
        "send = writeICMPError big (ip_target r) (ip_source r) type code 0 pointer quote"
    have "sentKind protocol (type, code, pointer)" unfolding k by (rule that(2))
    then show ?thesis using q by blast
  qed
  note kinds = sentKind_def validICMPErrorCode_def headersTooLong_def fieldsFit_def icmpErrorFieldKinds_def icmp_kinds protocol
    ICMPv4DestinationUnreachableCodeCommunicationAdministrativelyProhibited_def ICMPv4DestinationUnreachableCodePort_def
    ICMPv4DestinationUnreachableCodeProtocol_def ICMPv4DestinationUnreachableCodePrecedenceCutoff_def
    ICMPv6DestinationUnreachableCodeAdministrativelyProhibited_def ICMPv6DestinationUnreachableCodePort_def
    ICMPv6DestinationUnreachableCodePRoute_def ICMPv6DestinationUnreachableCodeHeadersTooLong_def
    ICMPv6ParameterProblemCodeUnrecognizedNextHeader_def ICMPv6ParameterProblemCodeOptionTooBig_def ICMPv4ParameterProblemCodeBadLength_def
  obtain code at where ca: "(case ip_parameter r of None \<Rightarrow> (0, 0) | Some p \<Rightarrow> p) = (code, at)" by fastforce
  have small: "code \<le> 2" "is4 (ip_source r) \<Longrightarrow> at \<le> 255" using ca problem by (auto split: option.splits)
  have le: "code \<le> 10" using small(1) by (rule order_trans) simp
  have word: "at \<le> 255 \<Longrightarrow> (of_nat at :: u32) \<le> 255" by (simp add: word_le_nat_alt unat_of_nat take_bit_nat_eq_self)
  obtain v4 v6 where "answerWithError big r v4 v6 = Some (Inr (Some send))" "allow" "sentKind protocol (if is4 (ip_source r) then v4 else v6)"
    using reply(1)
  proof (elim insertE emptyE)
    assume "reply = sendAdministrativeUnreachable big network allow r"
    then have x: "sendAdministrativeUnreachable big network allow r = Some (Inr (Some send))" using reply(2) by simp
    show thesis by (rule that [OF sent_administrative(1,2) [OF x]]) (use small le word in \<open>auto simp: kinds\<close>)
  next
    assume "reply = sendPortUnreachable big network allow r"
    then have x: "sendPortUnreachable big network allow r = Some (Inr (Some send))" using reply(2) by simp
    show thesis by (rule that [OF sent_port [OF x]]) (use small le word in \<open>auto simp: kinds\<close>)
  next
    assume "reply = sendProtocolUnreachable big network allow r"
    then have x: "sendProtocolUnreachable big network allow r = Some (Inr (Some send))" using reply(2) by simp
    show thesis by (rule that [OF sent_protocol [OF x]]) (use small le word in \<open>auto simp: kinds\<close>)
  next
    assume "reply = sendParameterProblem big allow r"
    then have x: "sendParameterProblem big allow r = Some (Inr (Some send))" using reply(2) by simp
    show thesis by (rule that [OF sent_parameter(1,2) [OF x ca]]) (use small le word in \<open>auto simp: kinds\<close>)
  qed
  then show thesis using one that by blast
qed

lemma quote_prefix: "icmpErrorQuote packet ipv6 = Some quote \<Longrightarrow> quote = take (length quote) packet"
  by (cases ipv6) (auto simp: icmpErrorQuote_def go_slice_def Let_def Option.bind_eq_Some_conv min_def split: if_splits)

lemma quotedUpper_ends: "quotedUpper a b payload f offset = Some (Some (s, t, p, u)) \<Longrightarrow> s = a \<and> t = b"
proof (induction a b payload f offset rule: quotedUpper.induct)
  case (1 a b payload f offset)
  let ?ext = "{IPv6ExtensionHeaderHopByHop, IPv6ExtensionHeaderRouting, IPv6ExtensionHeaderDestination, IPv6ExtensionHeaderAuthentication}"
  consider (none) "f = ProtocolNoNextHeader"
    | (ext) "f \<noteq> ProtocolNoNextHeader" "f \<in> ?ext"
    | (frag) "f \<noteq> ProtocolNoNextHeader" "f \<notin> ?ext" "f = IPv6ExtensionHeaderFragment"
    | (other) "f \<noteq> ProtocolNoNextHeader" "f \<notin> ?ext" "f \<noteq> IPv6ExtensionHeaderFragment"
    by blast
  then show ?case
  proof cases
    case none
    then show ?thesis using 1(3) by (subst (asm) quotedUpper.simps) simp
  next
    case ext
    from 1(3) ext obtain len c where "ipv6ExtensionHeaderLength f (drop offset payload) = Some len" "go_index payload offset = Some c"
      "quotedUpper a b payload c (offset + len) = Some (Some (s, t, p, u))"
      by (subst (asm) quotedUpper.simps) (auto simp: Option.bind_eq_Some_conv split: option.splits)
    then show ?thesis using 1(1) [OF ext] by blast
  next
    case frag
    from 1(3) frag have l: "\<not> length payload < offset + 8" by (subst (asm) quotedUpper.simps) (auto split: if_splits)
    from 1(3) frag l obtain header c w where "go_slice payload offset (offset + 8) = Some header" "go_index header 0 = Some c"
      "read16 header 2 = Some w" "\<not> w AND 0xfff8 \<noteq> 0" "quotedUpper a b payload c (offset + 8) = Some (Some (s, t, p, u))"
      by (subst (asm) quotedUpper.simps) (auto simp: Option.bind_eq_Some_conv split: if_splits)
    then show ?thesis using 1(2) [OF frag l] by blast
  next
    case other
    then show ?thesis using 1(3) by (subst (asm) quotedUpper.simps) (auto simp: Option.bind_eq_Some_conv)
  qed
qed

lemma addrFrom4_v4: "length bs = 4 \<Longrightarrow> is4 (addrFrom4 bs)"
  by (cases bs rule: addrFrom4.cases) auto

lemma quote_family:
  assumes "quotedIPPayload quote = Some (Some (s, t, p, u))"
  shows "if drop_bit 4 (quote ! 0) = 4 then is4 s \<and> is4 t else is6 s \<and> is6 t"
proof -
  have n: "go_index quote 0 = Some (quote ! 0)" using quotedIPPayload_long [OF assms] by (auto simp: go_index_def)
  consider (v4) "drop_bit 4 (quote ! 0) = 4" "20 \<le> length quote" | (v6) "drop_bit 4 (quote ! 0) = 6" "40 \<le> length quote"
    using quotedIPPayload_long [OF assms] by blast
  then show ?thesis
  proof cases
    case v4
    then have "s = addrFrom4 (take 4 (drop 12 quote)) \<and> t = addrFrom4 (take 4 (drop 16 quote))"
      using assms n by (auto simp: quotedIPPayload_def go_slice_def Let_def Option.bind_eq_Some_conv split: if_splits)
    then show ?thesis using v4 addrFrom4_v4 [of "take 4 (drop 12 quote)"] addrFrom4_v4 [of "take 4 (drop 16 quote)"] by simp
  next
    case v6
    then obtain f where "quotedUpper (addrFrom16 (take 16 (drop 8 quote))) (addrFrom16 (take 16 (drop 24 quote))) (drop 40 quote) f 0 = Some (Some (s, t, p, u))"
      using assms n by (auto simp: quotedIPPayload_def go_slice_def Let_def Option.bind_eq_Some_conv split: if_splits)
    then show ?thesis using v6 quotedUpper_ends by (fastforce simp: addrFrom16_def)
  qed
qed



end
