(* ===== verification/Spec2Isabelle.thy ===== *)
theory Spec2Isabelle
  imports Tcp_Stream Tcp_Sender Tcp_Timer Syn_Cookie Ip_Safety Ip_Roundtrip Fragment_Roundtrip Fragment_Bounds Network_Routing Control_Roundtrip
    Multicast_Packing Icmp_Sent
begin

text \<open>
  A verification of \<^verbatim>\<open>mipstack\<close>.
\<close>

end
